(* ===== verification/Prelude.thy ===== *)
theory Prelude
  imports Main "HOL-Library.Word"
begin

text \<open>
  Shared vocabulary of the development: the machine integer types of the C sources, byte order
  (nmsg_port_net.h), the outcome type of a C call, the result codes of nmsg/res.h and the
  generic list lemmas the component theories rely on.
\<close>

unbundle bit_operations_syntax

section \<open>Machine integers and memory\<close>

type_synonym byte = "8 word"
type_synonym u16 = "16 word"
type_synonym u32 = "32 word"
type_synonym u64 = "64 word"

text \<open>
  A C call returns a value, is stopped by a failed \<^verbatim>\<open>assert()\<close> or \<^verbatim>\<open>abort()\<close>, or leaves the
  defined part of the language (a read or write outside an object, a NULL dereference).
\<close>

datatype 'a run = Ret 'a | Abort | Fault

fun run_bind :: "'a run \<Rightarrow> ('a \<Rightarrow> 'b run) \<Rightarrow> 'b run" where
  "run_bind (Ret x) f = f x"
| "run_bind Abort f = Abort"
| "run_bind Fault f = Fault"

lemma run_bind_eq_Ret [simp]:
  "run_bind m f = Ret y \<longleftrightarrow> (\<exists>x. m = Ret x \<and> f x = Ret y)"
  by (cases m) auto

lemma run_bind_assoc:
  "run_bind (run_bind m f) g = run_bind m (\<lambda>x. run_bind (f x) g)"
  by (cases m) auto

lemma run_bind_Ret [simp]: "run_bind m Ret = m"
  by (cases m) auto

lemma run_bind_cong [fundef_cong]:
  "m = n \<Longrightarrow> (\<And>x. n = Ret x \<Longrightarrow> f x = g x) \<Longrightarrow> run_bind m f = run_bind n g"
  by (cases n) auto

text \<open>A range of memory: \<open>len\<close> bytes at offset \<open>off\<close>, a fault where the object ends early.\<close>

definition mem_read :: "byte list \<Rightarrow> nat \<Rightarrow> nat \<Rightarrow> byte list run" where
  "mem_read m off len = (if off + len \<le> length m then Ret (take len (drop off m)) else Fault)"

definition mem_byte :: "byte list \<Rightarrow> nat \<Rightarrow> byte run" where
  "mem_byte m off = (if off < length m then Ret (m ! off) else Fault)"

text \<open>Writing \<open>bs\<close> at offset \<open>off\<close> of the memory \<open>m\<close>.\<close>

definition mem_store :: "byte list \<Rightarrow> nat \<Rightarrow> byte list \<Rightarrow> byte list run" where
  "mem_store m off bs =
     (if off + length bs \<le> length m then Ret (take off m @ bs @ drop (off + length bs) m) else Fault)"

lemma mem_read_Ret:
  "mem_read m off len = Ret bs \<longleftrightarrow> off + len \<le> length m \<and> bs = take len (drop off m)"
  by (auto simp: mem_read_def)

lemma length_mem_read: "mem_read m off len = Ret bs \<Longrightarrow> length bs = len"
  by (auto simp: mem_read_def split: if_splits)

section \<open>Network byte order (nmsg/nmsg_port_net.h)\<close>

text \<open>
  \<^verbatim>\<open>load_net16\<close> and \<^verbatim>\<open>load_net32\<close> copy two or four bytes and convert from network order:
  the first byte is the most significant one.
\<close>

fun load_net16 :: "byte list \<Rightarrow> u16 run" where
  "load_net16 (a # b # _) = Ret (push_bit 8 (ucast a) OR ucast b)"
| "load_net16 _ = Fault"

fun load_net32 :: "byte list \<Rightarrow> u32 run" where
  "load_net32 (a # b # c # d # _) =
     Ret (push_bit 24 (ucast a) OR push_bit 16 (ucast b) OR push_bit 8 (ucast c) OR ucast d)"
| "load_net32 _ = Fault"

definition store_net16 :: "u16 \<Rightarrow> byte list" where
  "store_net16 x = [ucast (drop_bit 8 x), ucast x]"

definition store_net32 :: "u32 \<Rightarrow> byte list" where
  "store_net32 x =
     [ucast (drop_bit 24 x), ucast (drop_bit 16 x), ucast (drop_bit 8 x), ucast x]"

text \<open>
  \<^verbatim>\<open>htons\<close>, \<^verbatim>\<open>ntohs\<close>, \<^verbatim>\<open>htonl\<close> and \<^verbatim>\<open>ntohl\<close> applied to values that do not come from
  \<^verbatim>\<open>load_net*\<close>: the byte swap of a little-endian host.
\<close>

definition bswap16 :: "u16 \<Rightarrow> u16" where
  "bswap16 x = push_bit 8 x OR drop_bit 8 x"

definition bswap32 :: "u32 \<Rightarrow> u32" where
  "bswap32 x = (push_bit 24 x AND 0xFF000000) OR (push_bit 8 x AND 0x00FF0000) OR
     (drop_bit 8 x AND 0x0000FF00) OR (drop_bit 24 x AND 0x000000FF)"

lemma length_store_net [simp]:
  "length (store_net16 x) = 2" "length (store_net32 y) = 4"
  by (simp_all add: store_net16_def store_net32_def)

lemma load_store_net16 [simp]: "load_net16 (store_net16 x @ rest) = Ret x"
  by (simp add: store_net16_def) (rule bit_word_eqI, auto simp: bit_simps)

lemma load_store_net32 [simp]:
  fixes x :: u32
  shows "load_net32 (store_net32 x @ rest) = Ret x"
proof -
  have "push_bit 24 (ucast (ucast (drop_bit 24 x) :: byte) :: u32) OR
        push_bit 16 (ucast (ucast (drop_bit 16 x) :: byte)) OR
        push_bit 8 (ucast (ucast (drop_bit 8 x) :: byte)) OR ucast (ucast x :: byte) = x"
  proof (rule bit_word_eqI)
    fix n assume "n < LENGTH(32)"
    then consider "n < 8" | "8 \<le> n" "n < 16" | "16 \<le> n" "n < 24" | "24 \<le> n" "n < 32"
      by force
    then show "bit (push_bit 24 (ucast (ucast (drop_bit 24 x) :: byte) :: u32) OR
        push_bit 16 (ucast (ucast (drop_bit 16 x) :: byte)) OR
        push_bit 8 (ucast (ucast (drop_bit 8 x) :: byte)) OR ucast (ucast x :: byte)) n = bit x n"
      by cases (auto simp: bit_simps)
  qed
  then show ?thesis by (simp add: store_net32_def)
qed

lemma bswap16_bswap16 [simp]: "bswap16 (bswap16 x) = x"
  by (rule bit_word_eqI) (auto simp: bswap16_def bit_simps)

lemma bit_bswap32:
  "bit (bswap32 x) n \<longleftrightarrow> n < 32 \<and> bit x (if n < 8 then n + 24 else if n < 16 then n + 8
     else if n < 24 then n - 8 else n - 24)"
proof -
  have m: "(0xFF000000 :: u32) = push_bit 24 (mask 8)" "(0x00FF0000 :: u32) = push_bit 16 (mask 8)"
    "(0x0000FF00 :: u32) = push_bit 8 (mask 8)" "(0x000000FF :: u32) = mask 8"
    by (simp_all add: mask_numeral)
  consider "n < 8" | "8 \<le> n" "n < 16" | "16 \<le> n" "n < 24" | "24 \<le> n" "n < 32" | "32 \<le> n"
    by force
  then show ?thesis
    unfolding bswap32_def m by cases (auto simp: bit_simps add.commute)
qed

lemma bswap32_bswap32 [simp]: "bswap32 (bswap32 x) = x"
  by (rule bit_word_eqI) (auto simp: bit_bswap32)

section \<open>Generic lemmas\<close>

lemma word_xor_eq_0 [simp]: "x XOR y = 0 \<longleftrightarrow> x = y" for x y :: "'a::len word"
  by (auto simp: bit_eq_iff bit_simps)

lemma word_xor_cancel [simp]:
  "x XOR y = x XOR z \<longleftrightarrow> y = z" "y XOR x = z XOR x \<longleftrightarrow> y = z" for x y z :: "'a::len word"
  by (auto simp: bit_eq_iff bit_simps)

lemma unat_of_nat_u32: "n < 2 ^ 32 \<Longrightarrow> unat (of_nat n :: u32) = n"
  by (simp add: unsigned_of_nat take_bit_nat_eq_self)

lemma unat_add_u32: "unat a + unat b < 2 ^ 32 \<Longrightarrow> unat (a + b) = unat a + unat b" for a b :: u32
  by (simp add: unat_word_ariths)

lemma ucast_byte_u32 [simp]: "ucast (ucast b :: u32) = b" for b :: byte
  by (rule bit_word_eqI) (auto simp: bit_simps)

lemma length_4E:
  assumes "length xs = 4"
  obtains a b c d where "xs = [a, b, c, d]"
  using assms by (auto simp: eval_nat_numeral length_Suc_conv)

end
