(* ===== verification/Crc32c.thy ===== *)
theory Crc32c
  imports Crc_Tables
begin

text \<open>
  The CRC-32C routines of libmy: the table-driven slicing-by-8 routine in its little-endian and
  big-endian builds (crc32c-slicing.c), the SSE 4.2 routine (crc32c-sse42.c) and the run-time
  dispatch (crc32c.c). All of them are proved equal to the bit-serial CRC-32C register.
\<close>

section \<open>Loads of aligned words from memory\<close>

definition load_le32 :: "byte \<Rightarrow> byte \<Rightarrow> byte \<Rightarrow> byte \<Rightarrow> u32" where
  "load_le32 a b c d =
     ucast a OR push_bit 8 (ucast b) OR push_bit 16 (ucast c) OR push_bit 24 (ucast d)"

definition load_be32 :: "byte \<Rightarrow> byte \<Rightarrow> byte \<Rightarrow> byte \<Rightarrow> u32" where
  "load_be32 a b c d =
     push_bit 24 (ucast a) OR push_bit 16 (ucast b) OR push_bit 8 (ucast c) OR ucast d"

section \<open>my_crc32c_slicing, little endian\<close>

text \<open>One byte: \<^verbatim>\<open>crc = g_crc_slicing[0][(crc ^ *p) & 0xFF] ^ (crc >> 8)\<close>.\<close>

definition slicing_byte :: "u32 \<Rightarrow> byte \<Rightarrow> u32" where
  "slicing_byte crc p =
     g_crc_slicing_0 ! unat ((crc XOR ucast p) AND 0xFF) XOR drop_bit 8 crc"

text \<open>The first loop: byte by byte up to a 4-byte boundary; \<open>addr\<close> is the value of \<^verbatim>\<open>p\<close>.\<close>

fun slicing_head :: "u64 \<Rightarrow> u32 \<Rightarrow> byte list \<Rightarrow> u32 \<times> byte list" where
  "slicing_head addr crc [] = (crc, [])"
| "slicing_head addr crc (b # bs) =
     (if addr AND (4 - 1) \<noteq> 0 then slicing_head (addr + 1) (slicing_byte crc b) bs
      else (crc, b # bs))"

text \<open>One 8-byte chunk, \<open>w\<close> and \<open>next\<close> being its two words.\<close>

definition slicing_qword :: "u32 \<Rightarrow> u32 \<Rightarrow> u32 \<Rightarrow> u32" where
  "slicing_qword crc0 w next =
     (let crc = crc0 XOR w in
      g_crc_slicing_7 ! unat (crc AND 0xFF) XOR
      g_crc_slicing_6 ! unat (drop_bit 8 crc AND 0xFF) XOR
      g_crc_slicing_5 ! unat (drop_bit 16 crc AND 0xFF) XOR
      g_crc_slicing_4 ! unat (drop_bit 24 crc) XOR
      g_crc_slicing_3 ! unat (next AND 0xFF) XOR
      g_crc_slicing_2 ! unat (drop_bit 8 next AND 0xFF) XOR
      g_crc_slicing_1 ! unat (drop_bit 16 next AND 0xFF) XOR
      g_crc_slicing_0 ! unat (drop_bit 24 next))"

text \<open>The second loop: \<^verbatim>\<open>len / 8\<close> chunks; it stops with fewer than eight bytes left.\<close>

fun slicing_qwords :: "u32 \<Rightarrow> byte list \<Rightarrow> u32 \<times> byte list" where
  "slicing_qwords crc (a # b # c # d # e # f # g # h # bs) =
     slicing_qwords (slicing_qword crc (load_le32 a b c d) (load_le32 e f g h)) bs"
| "slicing_qwords crc bs = (crc, bs)"

definition my_crc32c_slicing :: "u64 \<Rightarrow> byte list \<Rightarrow> u32" where
  "my_crc32c_slicing addr chunk =
     (let (crc1, rest1) = slicing_head addr 0xffffffff chunk;
          (crc2, rest2) = slicing_qwords crc1 rest1;
          crc3 = foldl slicing_byte crc2 rest2
      in NOT crc3)"

section \<open>The reference\<close>

definition crc_byte :: "u32 \<Rightarrow> byte \<Rightarrow> u32" where
  "crc_byte c b = crc_bits8 (c XOR ucast b)"

definition crc32c_spec :: "byte list \<Rightarrow> u32" where
  "crc32c_spec bs = NOT (foldl crc_byte 0xffffffff bs)"

lemma drop_bit_1_crc_bit: "\<not> bit c 0 \<Longrightarrow> crc_bit c = drop_bit 1 c"
  by (simp add: crc_bit_def)

lemma crc_bits8_low_clear:
  assumes "\<And>n. n < 8 \<Longrightarrow> \<not> bit c n"
  shows "crc_bits8 c = drop_bit 8 c"
  using assms by (simp add: crc_bits8_def drop_bit_1_crc_bit bit_simps eval_nat_numeral)

lemma crc_bits8_push: "crc_bits8 (push_bit 8 c) = c AND 0xFFFFFF"
proof -
  have m: "(0xFFFFFF :: u32) = mask 24" by (simp add: mask_numeral)
  have "crc_bits8 (push_bit 8 c) = drop_bit 8 (push_bit 8 c)"
    by (rule crc_bits8_low_clear) (simp add: bit_simps)
  also have "\<dots> = c AND 0xFFFFFF"
    unfolding m by (rule bit_word_eqI) (auto simp: bit_simps)
  finally show ?thesis .
qed

lemma split_low_byte: "(c :: u32) = (c AND 0xFF) XOR push_bit 8 (drop_bit 8 c)"
proof -
  have m: "(0xFF :: u32) = mask 8" by (simp add: mask_numeral)
  show ?thesis unfolding m by (rule bit_word_eqI) (auto simp: bit_simps)
qed

lemma of_nat_unat_and [simp]: "(of_nat (unat (c AND 0xFF)) :: u32) = c AND 0xFF" for c :: u32
  by simp

lemma unat_and_FF_less [simp]: "unat (c AND 0xFF) < 256" for c :: u32
proof -
  have "c AND 0xFF \<le> (0xFF :: u32)" by (rule word_and_le1)
  then show ?thesis by (simp add: word_le_nat_alt)
qed

lemma byte_bit_high [simp]: "8 \<le> n \<Longrightarrow> \<not> bit b n" for b :: byte
  by (auto dest: bit_imp_le_length)

lemma slicing_byte_eq: "slicing_byte = crc_byte"
proof (intro ext)
  fix c :: u32 and p :: byte
  let ?x = "c XOR ucast p :: u32"
  have "drop_bit 8 ?x = drop_bit 8 c"
    by (rule bit_word_eqI) (auto simp: bit_simps dest: bit_imp_le_length)
  moreover have "drop_bit 8 ?x AND 0xFFFFFF = drop_bit 8 ?x"
  proof -
    have m: "(0xFFFFFF :: u32) = mask 24" by (simp add: mask_numeral)
    show ?thesis
      unfolding m by (rule bit_word_eqI) (auto simp: bit_simps dest: bit_imp_le_length)
  qed
  moreover have "crc_bits8 ?x = crc_bits8 (?x AND 0xFF) XOR crc_bits8 (push_bit 8 (drop_bit 8 ?x))"
    by (subst split_low_byte [of ?x]) (rule crc_bits8.xor)
  ultimately show "slicing_byte c p = crc_byte c p"
    by (simp add: slicing_byte_def crc_byte_def g_crc_slicing_nth crc_bits8_push)
qed

section \<open>Words and bytes\<close>

lemma crc_bytes_Suc_inner: "crc_bytes (Suc k) c = crc_bytes k (crc_bits8 c)"
  by (simp add: crc_bytes_def funpow_swap1)

lemma crc_bits8_push_byte [simp]:
  fixes b :: byte
  shows "crc_bits8 (push_bit 8 (ucast b)) = ucast b"
    and "crc_bits8 (push_bit 16 (ucast b)) = push_bit 8 (ucast b)"
    and "crc_bits8 (push_bit 24 (ucast b)) = push_bit 16 (ucast b)"
  by ((subst crc_bits8_low_clear, simp add: bit_simps,
      rule bit_word_eqI, auto simp: bit_simps dest: bit_imp_le_length)+)

lemma load_le32_xor: "load_le32 a b c d =
    ucast a XOR push_bit 8 (ucast b) XOR push_bit 16 (ucast c) XOR push_bit 24 (ucast d)"
  unfolding load_le32_def
  by (rule bit_word_eqI) (auto simp: bit_simps dest: bit_imp_le_length)

lemma load_be32_swap: "load_be32 a b c d = bswap32 (load_le32 a b c d)"
  by (rule bit_word_eqI)
    (auto simp: load_be32_def load_le32_def bit_bswap32 bit_simps dest: bit_imp_le_length)

lemma crc_bytes_4: "crc_bytes (4 + k) c = crc_bytes k (crc_bits8 (crc_bits8 (crc_bits8 (crc_bits8 c))))"
  and crc_bytes_3: "crc_bytes (3 + k) c = crc_bytes k (crc_bits8 (crc_bits8 (crc_bits8 c)))"
  and crc_bytes_2: "crc_bytes (2 + k) c = crc_bytes k (crc_bits8 (crc_bits8 c))"
  and crc_bytes_1: "crc_bytes (1 + k) c = crc_bytes k (crc_bits8 c)"
  by (simp_all add: eval_nat_numeral crc_bytes_Suc_inner del: crc_bytes_simps(2))

lemma crc_bytes_load:
  "crc_bytes (4 + k) (load_le32 a b c d) =
     crc_bytes (4 + k) (ucast a) XOR crc_bytes (3 + k) (ucast b) XOR
     crc_bytes (2 + k) (ucast c) XOR crc_bytes (1 + k) (ucast d)"
  by (simp only: load_le32_xor crc_bytes.xor crc_bytes_4 crc_bytes_3 crc_bytes_2 crc_bytes_1
      crc_bits8_push_byte crc_bits8.xor)

lemma word_as_bytes:
  obtains a b c d where "v = load_le32 a b c d"
proof
  show "v = load_le32 (ucast v) (ucast (drop_bit 8 v)) (ucast (drop_bit 16 v))
      (ucast (drop_bit 24 v))"
  proof (rule bit_word_eqI)
    fix n assume "n < LENGTH(32)"
    then consider "n < 8" | "8 \<le> n" "n < 16" | "16 \<le> n" "n < 24" | "24 \<le> n" "n < 32"
      by force
    then show "bit v n = bit (load_le32 (ucast v) (ucast (drop_bit 8 v)) (ucast (drop_bit 16 v))
        (ucast (drop_bit 24 v))) n"
      by cases (auto simp: load_le32_def bit_simps)
  qed
qed

lemma load_le32_byte [simp]:
  "load_le32 a b c d AND 0xFF = ucast a"
  "drop_bit 8 (load_le32 a b c d) AND 0xFF = ucast b"
  "drop_bit 16 (load_le32 a b c d) AND 0xFF = ucast c"
  "drop_bit 24 (load_le32 a b c d) = ucast d"
proof -
  have m: "(0xFF :: u32) = mask 8" by (simp add: mask_numeral)
  show "load_le32 a b c d AND 0xFF = ucast a"
    "drop_bit 8 (load_le32 a b c d) AND 0xFF = ucast b"
    "drop_bit 16 (load_le32 a b c d) AND 0xFF = ucast c"
    "drop_bit 24 (load_le32 a b c d) = ucast d"
    unfolding m load_le32_def
    by (rule bit_word_eqI, auto simp: bit_simps dest: bit_imp_le_length)+
qed

lemma unat_byte_less [simp]: "unat b < 256" for b :: byte
  using unsigned_less [of b] by simp

lemma unat_ucast_byte [simp]: "unat (ucast b :: u32) = unat b" for b :: byte
  by (simp add: unsigned_ucast_eq take_bit_nat_eq_self_iff less_trans [OF unat_byte_less])

lemma of_nat_unat_byte [simp]: "of_nat (unat b) = (ucast b :: u32)" for b :: byte
  by (rule word_unat_eq_iff [THEN iffD2])
    (simp add: unsigned_of_nat take_bit_nat_eq_self_iff less_trans [OF unat_byte_less])

section \<open>The slicing loop\<close>

lemma slicing_qword_eq:
  "slicing_qword c w n = crc_bytes 8 (c XOR w) XOR crc_bytes 4 n"
proof -
  obtain x0 x1 x2 x3 where x: "c XOR w = load_le32 x0 x1 x2 x3" by (rule word_as_bytes)
  obtain n0 n1 n2 n3 where n: "n = load_le32 n0 n1 n2 n3" by (rule word_as_bytes)
  show ?thesis
    using crc_bytes_load [of 4 x0 x1 x2 x3] crc_bytes_load [of 0 n0 n1 n2 n3]
    by (simp add: slicing_qword_def x n g_crc_slicing_nth xor.assoc)
qed

lemma foldl_crc_byte_word:
  "foldl crc_byte v [a, b, c, d] = crc_bytes 4 (v XOR load_le32 a b c d)"
  using crc_bytes_4 [of 0]
  by (simp add: crc_byte_def load_le32_xor crc_bits8.xor xor.assoc)

lemma slicing_qword_foldl:
  "slicing_qword v (load_le32 a b c d) (load_le32 e f g h) =
     foldl crc_byte v [a, b, c, d, e, f, g, h]"
proof -
  have "foldl crc_byte v [a, b, c, d, e, f, g, h] =
      foldl crc_byte (foldl crc_byte v [a, b, c, d]) [e, f, g, h]"
    by simp
  also have "\<dots> = crc_bytes 4 (crc_bytes 4 (v XOR load_le32 a b c d) XOR load_le32 e f g h)"
    by (simp only: foldl_crc_byte_word)
  also have "\<dots> = crc_bytes 8 (v XOR load_le32 a b c d) XOR crc_bytes 4 (load_le32 e f g h)"
    using crc_bytes_4 [of 4] crc_bytes_4 [of 0] by (simp add: crc_bytes.xor crc_bits8.xor)
  finally show ?thesis by (simp add: slicing_qword_eq)
qed

lemma slicing_head_foldl:
  "slicing_head p c bs = (c', bs') \<Longrightarrow> foldl crc_byte c bs = foldl crc_byte c' bs'"
  by (induction p c bs rule: slicing_head.induct) (auto simp: slicing_byte_eq split: if_splits)

lemma slicing_qwords_foldl:
  "slicing_qwords c bs = (c', bs') \<Longrightarrow> foldl crc_byte c bs = foldl crc_byte c' bs'"
  by (induction c bs rule: slicing_qwords.induct) (auto simp: slicing_qword_foldl)

lemma my_crc32c_slicing_eq: "my_crc32c_slicing addr bs = crc32c_spec bs"
  by (auto simp: my_crc32c_slicing_def crc32c_spec_def slicing_byte_eq split: prod.splits
      dest!: slicing_head_foldl slicing_qwords_foldl)

section \<open>my_crc32c_slicing, big endian\<close>

text \<open>
  The same routine compiled with \<^verbatim>\<open>WORDS_BIGENDIAN\<close>: the register is kept byte reversed, words
  are loaded most significant byte first and the result is swapped at the end.
\<close>

definition slicing_byte_be :: "u32 \<Rightarrow> byte \<Rightarrow> u32" where
  "slicing_byte_be crc p =
     g_crc_slicing_be_0 ! unat ((drop_bit 24 crc XOR ucast p) AND 0xFF) XOR push_bit 8 crc"

fun slicing_head_be :: "u64 \<Rightarrow> u32 \<Rightarrow> byte list \<Rightarrow> u32 \<times> byte list" where
  "slicing_head_be addr crc [] = (crc, [])"
| "slicing_head_be addr crc (b # bs) =
     (if addr AND (4 - 1) \<noteq> 0 then slicing_head_be (addr + 1) (slicing_byte_be crc b) bs
      else (crc, b # bs))"

definition slicing_qword_be :: "u32 \<Rightarrow> u32 \<Rightarrow> u32 \<Rightarrow> u32" where
  "slicing_qword_be crc0 w next =
     (let crc = crc0 XOR w in
      g_crc_slicing_be_4 ! unat (crc AND 0xFF) XOR
      g_crc_slicing_be_5 ! unat (drop_bit 8 crc AND 0xFF) XOR
      g_crc_slicing_be_6 ! unat (drop_bit 16 crc AND 0xFF) XOR
      g_crc_slicing_be_7 ! unat (drop_bit 24 crc) XOR
      g_crc_slicing_be_0 ! unat (next AND 0xFF) XOR
      g_crc_slicing_be_1 ! unat (drop_bit 8 next AND 0xFF) XOR
      g_crc_slicing_be_2 ! unat (drop_bit 16 next AND 0xFF) XOR
      g_crc_slicing_be_3 ! unat (drop_bit 24 next))"

fun slicing_qwords_be :: "u32 \<Rightarrow> byte list \<Rightarrow> u32 \<times> byte list" where
  "slicing_qwords_be crc (a # b # c # d # e # f # g # h # bs) =
     slicing_qwords_be (slicing_qword_be crc (load_be32 a b c d) (load_be32 e f g h)) bs"
| "slicing_qwords_be crc bs = (crc, bs)"

definition my_crc32c_slicing_be :: "u64 \<Rightarrow> byte list \<Rightarrow> u32" where
  "my_crc32c_slicing_be addr chunk =
     (let (crc1, rest1) = slicing_head_be addr 0xffffffff chunk;
          (crc2, rest2) = slicing_qwords_be crc1 rest1;
          crc3 = foldl slicing_byte_be crc2 rest2;
          crc4 = (push_bit 24 crc3 AND 0xFF000000) OR (push_bit 8 crc3 AND 0x00FF0000) OR
                 (drop_bit 8 crc3 AND 0x0000FF00) OR (drop_bit 24 crc3 AND 0x000000FF)
      in NOT crc4)"

lemma bswap_load: "bswap32 (load_le32 a b c d) = load_le32 d c b a"
  by (rule bit_word_eqI)
    (auto simp: load_le32_def bit_bswap32 bit_simps dest: bit_imp_le_length)

lemma drop_8_load: "drop_bit 8 (load_le32 a b c d) = load_le32 b c d 0"
  and push_8_load: "push_bit 8 (load_le32 a b c d) = load_le32 0 a b c"
  by (rule bit_word_eqI, auto simp: load_le32_def bit_simps dest: bit_imp_le_length)+

lemma and_FF_ucast [simp]: "(ucast a XOR ucast p) AND 0xFF = (ucast (a XOR p) :: u32)"
  for a p :: byte
proof -
  have m: "(0xFF :: u32) = mask 8" by (simp add: mask_numeral)
  show ?thesis
    unfolding m by (rule bit_word_eqI) (auto simp: bit_simps dest: bit_imp_le_length)
qed

lemma load_xor_byte: "(load_le32 a b c d XOR ucast p) AND 0xFF = ucast (a XOR p)"
proof -
  have m: "(0xFF :: u32) = mask 8" by (simp add: mask_numeral)
  show ?thesis unfolding m load_le32_def
    by (rule bit_word_eqI) (auto simp: bit_simps dest: bit_imp_le_length)
qed

lemma slicing_byte_be_eq: "slicing_byte_be (bswap32 c) p = bswap32 (slicing_byte c p)"
proof -
  obtain x0 x1 x2 x3 where c: "c = load_le32 x0 x1 x2 x3" by (rule word_as_bytes)
  show ?thesis
    by (simp add: slicing_byte_be_def slicing_byte_def c bswap_load load_xor_byte drop_8_load
        push_8_load bswap.xor g_crc_slicing_nth g_crc_slicing_be_nth)
qed

lemma slicing_qword_be_eq:
  "slicing_qword_be (bswap32 c) (bswap32 w) (bswap32 n) = bswap32 (slicing_qword c w n)"
proof -
  obtain x0 x1 x2 x3 where x: "c XOR w = load_le32 x0 x1 x2 x3" by (rule word_as_bytes)
  obtain n0 n1 n2 n3 where n: "n = load_le32 n0 n1 n2 n3" by (rule word_as_bytes)
  have "bswap32 c XOR bswap32 w = load_le32 x3 x2 x1 x0"
    by (simp add: x bswap_load flip: bswap.xor)
  then show ?thesis
    by (simp add: slicing_qword_be_def slicing_qword_def x n bswap_load bswap.xor
        g_crc_slicing_nth g_crc_slicing_be_nth)
      (simp only: xor.assoc xor.commute xor.left_commute)
qed

lemma slicing_head_be_eq:
  "slicing_head_be p (bswap32 c) bs = map_prod bswap32 id (slicing_head p c bs)"
  by (induction p c bs rule: slicing_head.induct) (simp_all add: slicing_byte_be_eq)

lemma slicing_qwords_be_eq:
  "slicing_qwords_be (bswap32 c) bs = map_prod bswap32 id (slicing_qwords c bs)"
  by (induction c bs rule: slicing_qwords.induct)
    (simp_all add: slicing_qword_be_eq load_be32_swap)

lemma foldl_slicing_byte_be: "foldl slicing_byte_be (bswap32 c) bs = bswap32 (foldl slicing_byte c bs)"
  by (induction bs arbitrary: c) (simp_all add: slicing_byte_be_eq)

lemma bswap32_ones: "bswap32 0xffffffff = 0xffffffff"
  by (simp add: bswap32_def)

lemma my_crc32c_slicing_be_eq: "my_crc32c_slicing_be addr bs = my_crc32c_slicing addr bs"
  using slicing_head_be_eq [of addr "0xffffffff" bs]
  by (simp add: my_crc32c_slicing_be_def my_crc32c_slicing_def bswap32_ones
      slicing_qwords_be_eq foldl_slicing_byte_be flip: bswap32_def split: prod.splits)

section \<open>my_crc32c_sse42\<close>

text \<open>
  The four \<^verbatim>\<open>crc32\<close> instructions of the SSE 4.2 extension, as the inline assembly of
  crc32c-sse42.c uses them, are parameters of the model.
\<close>

record sse42 =
  my_asm_crc32_u64 :: "u64 \<Rightarrow> u64 \<Rightarrow> u64"
  my_asm_crc32_u32 :: "u32 \<Rightarrow> u32 \<Rightarrow> u32"
  my_asm_crc32_u16 :: "u32 \<Rightarrow> u16 \<Rightarrow> u32"
  my_asm_crc32_u8 :: "u32 \<Rightarrow> byte \<Rightarrow> u32"

definition load_le16 :: "byte \<Rightarrow> byte \<Rightarrow> u16" where
  "load_le16 a b = ucast a OR push_bit 8 (ucast b)"

definition load_le64 :: "byte \<Rightarrow> byte \<Rightarrow> byte \<Rightarrow> byte \<Rightarrow> byte \<Rightarrow> byte \<Rightarrow> byte \<Rightarrow> byte \<Rightarrow> u64" where
  "load_le64 a b c d e f g h =
     ucast (load_le32 a b c d) OR push_bit 32 (ucast (load_le32 e f g h))"

fun sse42_qwords :: "sse42 \<Rightarrow> u64 \<Rightarrow> byte list \<Rightarrow> u64 \<times> byte list" where
  "sse42_qwords isa crc (a # b # c # d # e # f # g # h # bs) =
     sse42_qwords isa (my_asm_crc32_u64 isa crc (load_le64 a b c d e f g h)) bs"
| "sse42_qwords isa crc bs = (crc, bs)"

text \<open>The switch over the trailing bytes, with its fall-throughs (7 to 6 to 4, 3 to 2, 5 to 1).\<close>

fun sse42_tail :: "sse42 \<Rightarrow> u32 \<Rightarrow> byte list \<Rightarrow> u32" where
  "sse42_tail isa crc [] = crc"
| "sse42_tail isa crc [a] = my_asm_crc32_u8 isa crc a"
| "sse42_tail isa crc [a, b] = my_asm_crc32_u16 isa crc (load_le16 a b)"
| "sse42_tail isa crc [a, b, c] =
     my_asm_crc32_u16 isa (my_asm_crc32_u8 isa crc a) (load_le16 b c)"
| "sse42_tail isa crc [a, b, c, d] = my_asm_crc32_u32 isa crc (load_le32 a b c d)"
| "sse42_tail isa crc [a, b, c, d, e] =
     my_asm_crc32_u8 isa (my_asm_crc32_u32 isa crc (load_le32 a b c d)) e"
| "sse42_tail isa crc [a, b, c, d, e, f] =
     my_asm_crc32_u32 isa (my_asm_crc32_u16 isa crc (load_le16 a b)) (load_le32 c d e f)"
| "sse42_tail isa crc [a, b, c, d, e, f, g] =
     my_asm_crc32_u32 isa
       (my_asm_crc32_u16 isa (my_asm_crc32_u8 isa crc a) (load_le16 b c)) (load_le32 d e f g)"
| "sse42_tail isa crc _ = crc"

definition my_crc32c_sse42 :: "sse42 \<Rightarrow> byte list \<Rightarrow> u32" where
  "my_crc32c_sse42 isa buf =
     (let (crc64bit, rest) = sse42_qwords isa 0xFFFFFFFF buf
      in NOT (sse42_tail isa (ucast crc64bit) rest))"

text \<open>
  What the instruction set manual documents: the 8, 16, 32 and 64 bit forms accumulate their
  operand's bytes, least significant first, into a reflected CRC-32C register, and the 64 bit
  form leaves the upper half of the destination zero.
\<close>

definition sse42_documented :: "sse42 \<Rightarrow> bool" where
  "sse42_documented isa \<longleftrightarrow>
     (\<forall>r a. my_asm_crc32_u8 isa r a = crc_byte r a) \<and>
     (\<forall>r a b. my_asm_crc32_u16 isa r (load_le16 a b) = foldl crc_byte r [a, b]) \<and>
     (\<forall>r a b c d. my_asm_crc32_u32 isa r (load_le32 a b c d) = foldl crc_byte r [a, b, c, d]) \<and>
     (\<forall>r a b c d e f g h. my_asm_crc32_u64 isa r (load_le64 a b c d e f g h) =
        ucast (foldl crc_byte (ucast r) [a, b, c, d, e, f, g, h]))"

lemma ucast_u64_u32 [simp]: "ucast (ucast r :: u64) = r" for r :: u32
  by (rule bit_word_eqI) (auto simp: bit_simps dest: bit_imp_le_length)

lemma sse42_qwords_foldl:
  assumes "sse42_documented isa"
  shows "sse42_qwords isa r bs = (r', bs') \<Longrightarrow>
    foldl crc_byte (ucast r) bs = foldl crc_byte (ucast r') bs' \<and> length bs' < 8"
  using assms
  by (induction isa r bs rule: sse42_qwords.induct) (auto simp: sse42_documented_def)

lemma sse42_tail_foldl:
  assumes "sse42_documented isa" and "length bs < 8"
  shows "sse42_tail isa r bs = foldl crc_byte r bs"
  using assms
  by (induction isa r bs rule: sse42_tail.induct) (simp_all add: sse42_documented_def)

lemma my_crc32c_sse42_eq:
  assumes "sse42_documented isa"
  shows "my_crc32c_sse42 isa bs = crc32c_spec bs"
  using sse42_qwords_foldl [OF assms, of "0xFFFFFFFF" bs]
  by (auto simp: my_crc32c_sse42_def crc32c_spec_def sse42_tail_foldl [OF assms]
      split: prod.splits)

section \<open>Run-time dispatch (crc32c.c)\<close>

datatype crc32c_fp = Crc32c_first | Crc32c_sse42 | Crc32c_slicing

definition my_crc32c_runtime_detection :: "bool \<Rightarrow> crc32c_fp" where
  "my_crc32c_runtime_detection supported = (if supported then Crc32c_sse42 else Crc32c_slicing)"

text \<open>A call through the function pointer; the first one replaces the pointer and calls again.\<close>

definition my_crc32c ::
  "sse42 \<Rightarrow> bool \<Rightarrow> crc32c_fp \<Rightarrow> u64 \<Rightarrow> byte list \<Rightarrow> u32 \<times> crc32c_fp" where
  "my_crc32c isa supported fp addr buf =
     (let fp' = (case fp of Crc32c_first \<Rightarrow> my_crc32c_runtime_detection supported | _ \<Rightarrow> fp)
      in (case fp' of
            Crc32c_sse42 \<Rightarrow> my_crc32c_sse42 isa buf
          | _ \<Rightarrow> my_crc32c_slicing addr buf, fp'))"

section \<open>Error detection\<close>

lemma crc_bit_eq_0: "crc_bit c = 0 \<Longrightarrow> c = 0"
proof (cases "bit c 0")
  case True
  assume "crc_bit c = 0"
  with True have "drop_bit 1 c = 0x82F63B78"
    by (simp add: crc_bit_def)
  then have "bit (drop_bit 1 c) 31" by (simp add: bit_simps)
  then show ?thesis by (auto simp: bit_simps dest: bit_imp_le_length)
next
  case False
  assume "crc_bit c = 0"
  with False have z: "drop_bit 1 c = 0" by (simp add: crc_bit_def)
  show "c = 0"
  proof (rule bit_word_eqI)
    fix n
    show "bit c n = bit 0 n"
      using False z by (cases n) (auto simp: bit_simps dest!: arg_cong [of _ _ "\<lambda>x. bit x (n - 1)"])
  qed
qed

lemma crc_bytes_eq_0: "crc_bytes k c = 0 \<Longrightarrow> c = 0"
  by (induction k) (auto simp: crc_bits8_def dest!: crc_bit_eq_0)

lemma crc_bytes_inject [simp]: "crc_bytes k x = crc_bytes k y \<longleftrightarrow> x = y"
  using crc_bytes_eq_0 [of k "x XOR y"] by (auto simp: crc_bytes.xor)

lemma crc_byte_inject: "crc_byte c b = crc_byte c' b \<longleftrightarrow> c = c'"
  using crc_bytes_inject [of 1 "c XOR ucast b" "c' XOR ucast b"]
  by (simp add: crc_byte_def)

lemma foldl_crc_byte_inject: "foldl crc_byte c bs = foldl crc_byte c' bs \<longleftrightarrow> c = c'"
  by (induction bs arbitrary: c c') (simp_all add: crc_byte_inject)

lemma load_le32_inject [simp]:
  "load_le32 a b c d = load_le32 a' b' c' d' \<longleftrightarrow> a = a' \<and> b = b' \<and> c = c' \<and> d = d'"
proof
  assume eq: "load_le32 a b c d = load_le32 a' b' c' d'"
  have "ucast a = (ucast a' :: u32)" "ucast b = (ucast b' :: u32)" "ucast c = (ucast c' :: u32)"
    "ucast d = (ucast d' :: u32)"
    using load_le32_byte [of a b c d] load_le32_byte [of a' b' c' d'] eq by simp_all
  then show "a = a' \<and> b = b' \<and> c = c' \<and> d = d'"
    by (metis unat_ucast_byte word_unat_eq_iff)
qed auto

text \<open>Two different bursts of at most four bytes leave different registers.\<close>

lemma foldl_crc_byte_burst:
  assumes "length e = length e'" and "length e \<le> 4"
    and eq: "foldl crc_byte v e = foldl crc_byte v e'"
  shows "e = e'"
proof -
  define z :: "byte list" where "z = replicate (4 - length e) 0"
  have "length (e @ z) = 4" and "length (e' @ z) = 4"
    using assms by (simp_all add: z_def)
  then obtain a b c d a' b' c' d' where e: "e @ z = [a, b, c, d]" and e': "e' @ z = [a', b', c', d']"
    by (metis length_4E)
  have "foldl crc_byte v (e @ z) = foldl crc_byte v (e' @ z)"
    using eq by simp
  then have "e @ z = e' @ z"
    unfolding e e' foldl_crc_byte_word by simp
  then show ?thesis by simp
qed

text \<open>
  C11. The table-driven CRC routine computes the CRC-32C of its input in both of its builds,
  wherever the buffer starts in memory.
\<close>

theorem crc32c_slicing_correct:
  "my_crc32c_slicing addr bs = crc32c_spec bs \<and> my_crc32c_slicing_be addr bs = crc32c_spec bs"
  by (simp add: my_crc32c_slicing_be_eq my_crc32c_slicing_eq)

text \<open>
  A call through the CRC function pointer returns the CRC-32C of the buffer whichever
  routine the run-time detection selects, before the detection and after it, for a CPU whose
  CRC instructions behave as documented; the pointer never reverts to its initial value.
\<close>

theorem crc32c_dispatch_correct:
  assumes "sse42_documented isa"
  shows "fst (my_crc32c isa supported fp addr bs) = crc32c_spec bs \<and>
    snd (my_crc32c isa supported fp addr bs) \<noteq> Crc32c_first"
  by (auto simp: my_crc32c_def my_crc32c_runtime_detection_def Let_def my_crc32c_slicing_eq
      my_crc32c_sse42_eq [OF assms] split: crc32c_fp.splits)

definition sse42_reference :: sse42 where
  "sse42_reference = \<lparr>
     my_asm_crc32_u64 = (\<lambda>r v. ucast (foldl crc_byte (ucast r)
        [ucast v, ucast (drop_bit 8 v), ucast (drop_bit 16 v), ucast (drop_bit 24 v),
         ucast (drop_bit 32 v), ucast (drop_bit 40 v), ucast (drop_bit 48 v),
         ucast (drop_bit 56 v)])),
     my_asm_crc32_u32 = (\<lambda>r v. foldl crc_byte r
        [ucast v, ucast (drop_bit 8 v), ucast (drop_bit 16 v), ucast (drop_bit 24 v)]),
     my_asm_crc32_u16 = (\<lambda>r v. foldl crc_byte r [ucast v, ucast (drop_bit 8 v)]),
     my_asm_crc32_u8 = crc_byte\<rparr>"

lemma ucast_load_le16:
  "ucast (load_le16 a b) = a" "ucast (drop_bit 8 (load_le16 a b)) = b"
  by (rule bit_word_eqI, auto simp: load_le16_def bit_simps dest: bit_imp_le_length)+

lemma ucast_load_le32:
  "ucast (load_le32 a b c d) = a" "ucast (drop_bit 8 (load_le32 a b c d)) = b"
  "ucast (drop_bit 16 (load_le32 a b c d)) = c" "ucast (drop_bit 24 (load_le32 a b c d)) = d"
  by (rule bit_word_eqI, auto simp: load_le32_def bit_simps dest: bit_imp_le_length)+

lemma ucast_load_le64:
  "ucast (load_le64 a b c d e f g h) = a"
  "ucast (drop_bit 8 (load_le64 a b c d e f g h)) = b"
  "ucast (drop_bit 16 (load_le64 a b c d e f g h)) = c"
  "ucast (drop_bit 24 (load_le64 a b c d e f g h)) = d"
  "ucast (drop_bit 32 (load_le64 a b c d e f g h)) = e"
  "ucast (drop_bit 40 (load_le64 a b c d e f g h)) = f"
  "ucast (drop_bit 48 (load_le64 a b c d e f g h)) = g"
  "ucast (drop_bit 56 (load_le64 a b c d e f g h)) = h"
  by (rule bit_word_eqI,
      auto simp: load_le64_def load_le32_def bit_simps dest: bit_imp_le_length)+

lemma sse42_reference_documented: "sse42_documented sse42_reference"
  by (simp add: sse42_documented_def sse42_reference_def ucast_load_le16 ucast_load_le32
      ucast_load_le64)

theorem crc32c_dispatch_correct_witness:
  "fst (my_crc32c sse42_reference True Crc32c_first 3 [0x31, 0x32, 0x33]) =
     crc32c_spec [0x31, 0x32, 0x33]"
  using crc32c_dispatch_correct [OF sse42_reference_documented] by simp

text \<open>
  C20. Payloads of equal length that differ within four adjacent bytes have different checksums,
  so the receiver's comparison detects every such corruption.
\<close>

theorem crc32c_detects_burst:
  assumes "length e = length e'" and "length e \<le> 4" and "e \<noteq> e'"
  shows "my_crc32c_slicing addr (xs @ e @ ys) \<noteq> my_crc32c_slicing addr' (xs @ e' @ ys)"
  using assms foldl_crc_byte_burst
  by (auto simp: my_crc32c_slicing_eq crc32c_spec_def foldl_crc_byte_inject)

theorem crc32c_detects_burst_witness:
  "my_crc32c_slicing 0 ([1] @ [2, 3] @ [4]) \<noteq> my_crc32c_slicing 1 ([1] @ [2, 7] @ [4])"
  by (rule crc32c_detects_burst) simp_all

text \<open>One of the test vectors of libmy/crc32c_test.c.\<close>

lemma crc32c_test_vector:
  "my_crc32c_slicing addr
     [0x00, 0x01, 0x02, 0x03, 0x04, 0x05, 0x06, 0x07, 0x08, 0x09, 0x0a, 0x0b, 0x0c, 0x0d, 0x0e,
      0x0f, 0x10, 0x11, 0x12, 0x13, 0x14, 0x15, 0x16, 0x17, 0x18, 0x19, 0x1a, 0x1b, 0x1c, 0x1d,
      0x1e, 0x1f] = 0x46dd794e"
  by (simp add: my_crc32c_slicing_eq crc32c_spec_def crc_byte_def crc_bits8_def crc_bit_def)

end
