(* ===== verification/Varint.thy ===== *)
theory Varint
  imports Prelude
begin

text \<open>
  libmy/varint.c: the base-128 variable-length integers of the protobuf wire format. The
  encoders are total; the decoders read the caller's buffer byte by byte and fault where they
  would read past its end.
\<close>

lemma unat_drop_bit_7: "unat (drop_bit 7 v) = unat v div 128" for v :: u64
proof -
  have "unat (drop_bit 7 v) = drop_bit 7 (unat v)" by (rule unat_drop_bit_eq)
  also have "\<dots> = unat v div 2 ^ 7" by (rule drop_bit_eq_div)
  finally show ?thesis by simp
qed

section \<open>Encoders\<close>

function varint_length :: "u64 \<Rightarrow> nat" where
  "varint_length v = (if v \<ge> 128 then varint_length (drop_bit 7 v) + 1 else 1)"
  by pat_completeness auto
termination
proof (relation "measure unat")
  fix v :: u64
  assume "128 \<le> v"
  then have "128 \<le> unat v" by (simp add: word_le_nat_alt)
  then show "(drop_bit 7 v, v) \<in> measure unat"
    by (simp only: in_measure unat_drop_bit_7)
qed simp

declare varint_length.simps [simp del]

definition varint_encode32 :: "u32 \<Rightarrow> byte list" where
  "varint_encode32 v =
     (if v < push_bit 7 1 then [ucast v]
      else if v < push_bit 14 1 then [ucast (v OR 128), ucast (drop_bit 7 v)]
      else if v < push_bit 21 1 then
        [ucast (v OR 128), ucast (drop_bit 7 v OR 128), ucast (drop_bit 14 v)]
      else if v < push_bit 28 1 then
        [ucast (v OR 128), ucast (drop_bit 7 v OR 128), ucast (drop_bit 14 v OR 128),
         ucast (drop_bit 21 v)]
      else
        [ucast (v OR 128), ucast (drop_bit 7 v OR 128), ucast (drop_bit 14 v OR 128),
         ucast (drop_bit 21 v OR 128), ucast (drop_bit 28 v)])"

function varint_encode64 :: "u64 \<Rightarrow> byte list" where
  "varint_encode64 v =
     (if v \<ge> 128 then ucast ((v AND (128 - 1)) OR 128) # varint_encode64 (drop_bit 7 v)
      else [ucast v])"
  by pat_completeness auto
termination
proof (relation "measure unat")
  fix v :: u64
  assume "128 \<le> v"
  then have "128 \<le> unat v" by (simp add: word_le_nat_alt)
  then show "(drop_bit 7 v, v) \<in> measure unat"
    by (simp only: in_measure unat_drop_bit_7)
qed simp

declare varint_encode64.simps [simp del]

section \<open>Decoders\<close>

text \<open>The scan for the first byte without the continuation bit, \<open>len\<close> bytes at most.\<close>

fun varint_scan :: "byte list \<Rightarrow> nat \<Rightarrow> nat \<Rightarrow> nat run" where
  "varint_scan data 0 i = Ret i"
| "varint_scan data (Suc len) i =
     run_bind (mem_byte data i) (\<lambda>b. if b AND 0x80 = 0 then Ret i else varint_scan data len (i + 1))"

definition varint_length_packed :: "byte list \<Rightarrow> nat \<Rightarrow> nat run" where
  "varint_length_packed data len_data =
     run_bind (varint_scan data len_data 0) (\<lambda>i. Ret (if i = len_data then 0 else i + 1))"

definition varint_decode32 :: "byte list \<Rightarrow> (nat \<times> u32) run" where
  "varint_decode32 data =
     run_bind (varint_length_packed data 5) (\<lambda>len.
     run_bind (mem_byte data 0) (\<lambda>d0.
     let val0 = ucast (d0 AND 0x7f) in
     if len > 1 then
       run_bind (mem_byte data 1) (\<lambda>d1.
       let val1 = val0 OR push_bit 7 (ucast (d1 AND 0x7f)) in
       if len > 2 then
         run_bind (mem_byte data 2) (\<lambda>d2.
         let val2 = val1 OR push_bit 14 (ucast (d2 AND 0x7f)) in
         if len > 3 then
           run_bind (mem_byte data 3) (\<lambda>d3.
           let val3 = val2 OR push_bit 21 (ucast (d3 AND 0x7f)) in
           if len > 4 then
             run_bind (mem_byte data 4) (\<lambda>d4. Ret (len, val3 OR push_bit 28 (ucast d4)))
           else Ret (len, val3))
         else Ret (len, val2))
       else Ret (len, val1))
     else Ret (len, val0)))"

fun varint_loop64 :: "byte list \<Rightarrow> nat \<Rightarrow> nat \<Rightarrow> nat \<Rightarrow> u64 \<Rightarrow> u64 run" where
  "varint_loop64 data 0 i shift val = Ret val"
| "varint_loop64 data (Suc n) i shift val =
     run_bind (mem_byte data i) (\<lambda>b.
       varint_loop64 data n (i + 1) (shift + 7) (val OR push_bit shift (ucast (b AND 0x7f))))"

definition varint_decode64 :: "byte list \<Rightarrow> (nat \<times> u64) run" where
  "varint_decode64 data =
     run_bind (varint_length_packed data 10) (\<lambda>len.
     if len < 5 then
       run_bind (varint_decode32 data) (\<lambda>(tmp_len, tmp). Ret (tmp_len, ucast tmp))
     else
       run_bind (mem_byte data 0) (\<lambda>d0. run_bind (mem_byte data 1) (\<lambda>d1.
       run_bind (mem_byte data 2) (\<lambda>d2. run_bind (mem_byte data 3) (\<lambda>d3.
       run_bind (varint_loop64 data (len - 4) 4 28
          (ucast (d0 AND 0x7f) OR push_bit 7 (ucast (d1 AND 0x7f)) OR
           push_bit 14 (ucast (d2 AND 0x7f)) OR push_bit 21 (ucast (d3 AND 0x7f))))
         (\<lambda>val. Ret (len, val)))))))"

section \<open>The value of a varint\<close>

primrec varint_value :: "byte list \<Rightarrow> u64" where
  "varint_value [] = 0"
| "varint_value (b # bs) = ucast (b AND 0x7f) OR push_bit 7 (varint_value bs)"

text \<open>A well-formed varint: continuation bits on all bytes but the last.\<close>

fun varint_wf :: "byte list \<Rightarrow> bool" where
  "varint_wf [] = False"
| "varint_wf [b] = (b AND 0x80 = 0)"
| "varint_wf (b # bs) = (b AND 0x80 \<noteq> 0 \<and> varint_wf bs)"

lemma mask7: "(0x7f :: byte) = mask 7" "(127 :: u64) = mask 7" "(0x7f :: u32) = mask 7"
  by (simp_all add: mask_numeral)

lemma bit7: "b AND 0x80 = 0 \<longleftrightarrow> \<not> bit b 7" for b :: byte
proof -
  have "(0x80 :: byte) = push_bit 7 1" by simp
  then show ?thesis
    by (metis (no_types, opaque_lifting) bit_and_iff bit_push_bit_iff bit_word_eqI
        and_exp_eq_0_iff_not_bit push_bit_of_1)
qed

lemma ge_128_bits: "128 \<le> v \<longleftrightarrow> drop_bit 7 v \<noteq> 0" for v :: u64
proof -
  have "drop_bit 7 v = 0 \<longleftrightarrow> unat v < 128"
    by (simp only: word_unat_eq_iff unat_drop_bit_7) auto
  then show ?thesis by (auto simp: word_le_nat_alt)
qed

lemma less_128_bits: "v < 128 \<Longrightarrow> bit v n \<Longrightarrow> n < 7" for v :: u64
proof (rule ccontr)
  assume "v < 128" "bit v n" "\<not> n < 7"
  then have "bit (drop_bit 7 v) (n - 7)" by (simp add: bit_simps)
  moreover have "drop_bit 7 v = 0" using \<open>v < 128\<close> ge_128_bits [of v] by auto
  ultimately show False by simp
qed

lemma encode64_step:
  "128 \<le> v \<Longrightarrow> varint_encode64 v =
     ucast ((v AND (128 - 1)) OR 128) # varint_encode64 (drop_bit 7 v)"
  "v < 128 \<Longrightarrow> varint_encode64 v = [ucast v]"
  by (auto simp: varint_encode64.simps [of v])

lemma varint_encode64_nonempty [simp]: "varint_encode64 v \<noteq> []"
  by (subst varint_encode64.simps) simp

lemma varint_wf_Cons: "bs \<noteq> [] \<Longrightarrow> varint_wf (b # bs) \<longleftrightarrow> bit b 7 \<and> varint_wf bs"
  by (cases bs) (auto simp: bit7)

lemma bit_128: "bit (128 :: 'a::len word) n \<longleftrightarrow> n = 7 \<and> 7 < LENGTH('a)"
proof -
  have "(128 :: 'a word) = push_bit 7 1" by simp
  then show ?thesis by (simp only: bit_push_bit_iff) (auto simp: bit_simps)
qed

lemma bit_128_int: "bit (128 :: int) n \<longleftrightarrow> n = 7"
proof -
  have "(128 :: int) = 2 ^ 7" by simp
  then show ?thesis by (simp only: bit_exp_iff) auto
qed

lemma varint_encode64_wf: "varint_wf (varint_encode64 v)"
proof (induction v rule: varint_encode64.induct)
  case (1 v)
  show ?case
  proof (cases "128 \<le> v")
    case True
    then show ?thesis using "1.IH" [OF True]
      by (simp add: encode64_step [of v] varint_wf_Cons bit_simps bit_128)
  next
    case False
    then have "\<not> bit v 7" using less_128_bits [of v 7] by (auto simp: not_le)
    with False show ?thesis by (simp add: encode64_step [of v] bit7 bit_simps)
  qed
qed

lemma varint_value_encode64: "varint_value (varint_encode64 v) = v"
proof (induction v rule: varint_encode64.induct)
  case (1 v)
  show ?case
  proof (cases "128 \<le> v")
    case True
    have "ucast (ucast ((v AND (128 - 1)) OR 128) AND 0x7f :: byte) OR push_bit 7 (drop_bit 7 v) = v"
    proof (rule bit_word_eqI)
      fix n
      show "bit (ucast (ucast ((v AND (128 - 1)) OR 128) AND 0x7f :: byte) OR
          push_bit 7 (drop_bit 7 v)) n = bit v n"
        by (cases "n < 7") (auto simp: mask7 bit_simps bit_128 bit_128_int dest: bit_imp_le_length)
    qed
    with "1.IH" [OF True] True show ?thesis by (simp add: encode64_step [of v])
  next
    case False
    then have "v < 128" by (simp add: not_le)
    then show ?thesis
      by (auto intro!: bit_word_eqI simp: encode64_step [of v] mask7 bit_simps
          dest: less_128_bits bit_imp_le_length)
  qed
qed

lemma length_varint_encode64: "length (varint_encode64 v) = varint_length v"
proof (induction v rule: varint_encode64.induct)
  case (1 v)
  show ?case
  proof (cases "128 \<le> v")
    case True
    with "1.IH" [OF True] show ?thesis
      by (simp add: encode64_step [of v] varint_length.simps [of v])
  qed (simp add: encode64_step [of v] varint_length.simps [of v])
qed

lemma varint_length_le: "unat v < 2 ^ (7 * k) \<Longrightarrow> 0 < k \<Longrightarrow> varint_length v \<le> k"
proof (induction v arbitrary: k rule: varint_length.induct)
  case (1 v)
  show ?case
  proof (cases "128 \<le> v")
    case True
    then have u: "128 \<le> unat v" by (simp add: word_le_nat_alt)
    obtain k' where k: "k = Suc k'" using "1.prems" by (cases k) auto
    have "k' \<noteq> 0" using u "1.prems" k by (cases k') auto
    have "unat (drop_bit 7 v) = unat v div 128"
      by (rule unat_drop_bit_7)
    also have "\<dots> < 2 ^ (7 * k')"
      using "1.prems" k by (simp add: power_add div_less_iff_less_mult)
    finally have "varint_length (drop_bit 7 v) \<le> k'"
      using "1.IH" [OF True] \<open>k' \<noteq> 0\<close> by simp
    then show ?thesis using True k by (simp add: varint_length.simps [of v])
  next
    case False
    then show ?thesis using "1.prems" by (simp add: varint_length.simps [of v])
  qed
qed

lemma varint_length_le_10: "varint_length v \<le> 10"
proof (rule varint_length_le)
  have "unat v < 2 ^ LENGTH(64)" by (rule unsigned_less)
  then show "unat v < 2 ^ (7 * 10)" by simp
qed simp

section \<open>The decoders on well-formed input\<close>

lemma varint_scan_wf:
  "varint_wf bs \<Longrightarrow> length bs \<le> n \<Longrightarrow>
   varint_scan (pre @ bs @ rest) n (length pre) = Ret (length pre + length bs - 1)"
proof (induction bs arbitrary: n pre rule: varint_wf.induct)
  case (2 b)
  then show ?case by (cases n) (auto simp: mem_byte_def)
next
  case (3 b c bs)
  then obtain m where "n = Suc m" by (cases n) auto
  with 3(1) [of m "pre @ [b]"] 3(2,3) show ?case by (simp add: mem_byte_def)
qed simp

lemma varint_length_packed_wf:
  assumes "varint_wf bs" and "length bs \<le> n"
  shows "varint_length_packed (bs @ rest) n = Ret (length bs)"
  using varint_scan_wf [OF assms, of "[]" rest] assms
  by (cases bs) (auto simp: varint_length_packed_def)

lemma varint_loop64_value:
  "varint_loop64 (pre @ bs @ rest) (length bs) (length pre) s v =
     Ret (v OR push_bit s (varint_value bs))"
proof (induction bs arbitrary: pre s v)
  case (Cons b bs)
  from Cons.IH [of "pre @ [b]"] show ?case
    by (simp add: mem_byte_def push_bit_or push_bit_push_bit add.commute or.assoc)
qed simp


lemma ucast_u64_ops:
  "ucast (x OR y) = (ucast x OR ucast y :: u32)" "ucast (push_bit k x) = (push_bit k (ucast x) :: u32)"
  "ucast (ucast b :: u64) = (ucast b :: u32)" for x y :: u64 and b :: byte
  by (rule bit_word_eqI, auto simp: bit_simps dest: bit_imp_le_length)+

lemma and_7f_last: "b AND 0x80 = 0 \<Longrightarrow> b AND 0x7f = b" for b :: byte
proof (rule bit_word_eqI)
  fix n assume "b AND 0x80 = 0"
  then have "\<not> bit b 7" by (simp add: bit7)
  then show "bit (b AND 0x7f) n = bit b n"
    by (cases "n < 7"; cases "n = 7") (auto simp: mask7 bit_simps dest: bit_imp_le_length)
qed

lemma varint_decode32_wf:
  assumes wf: "varint_wf bs" and len: "length bs \<le> 5"
  shows "varint_decode32 (bs @ rest) = Ret (length bs, ucast (varint_value bs))"
proof -
  have p: "varint_length_packed (bs @ rest) 5 = Ret (length bs)"
    by (rule varint_length_packed_wf [OF wf len])
  have x: "bs = [a, b, c, d, e] \<Longrightarrow> e AND 0x7f = e" for a b c d e
    using wf by (simp add: and_7f_last)
  consider a where "bs = [a]" | a b where "bs = [a, b]" | a b c where "bs = [a, b, c]"
    | a b c d where "bs = [a, b, c, d]" | a b c d e where "bs = [a, b, c, d, e]"
    using len wf by (auto simp: eval_nat_numeral le_Suc_eq length_Suc_conv)
  then show ?thesis
    using p x by cases (simp_all add: varint_decode32_def mem_byte_def ucast_u64_ops push_bit_or
        push_bit_push_bit or.assoc)
qed

lemma varint_value_bound: "bit (varint_value bs) n \<Longrightarrow> n < 7 * length bs"
proof (induction bs arbitrary: n)
  case (Cons b bs)
  show ?case
  proof (cases "n < 7")
    case False
    with Cons show ?thesis by (force simp: mask7 bit_simps)
  qed simp
qed simp

lemma varint_decode64_wf:
  assumes wf: "varint_wf bs" and len: "length bs \<le> 10"
  shows "varint_decode64 (bs @ rest) = Ret (length bs, varint_value bs)"
proof -
  have p: "varint_length_packed (bs @ rest) 10 = Ret (length bs)"
    by (rule varint_length_packed_wf [OF wf len])
  show ?thesis
  proof (cases "length bs < 5")
    case True
    then have "ucast (ucast (varint_value bs) :: u32) = varint_value bs"
      by (intro bit_word_eqI) (auto simp: bit_simps dest: varint_value_bound)
    with True p show ?thesis
      by (simp add: varint_decode64_def varint_decode32_wf [OF wf])
  next
    case False
    then have "length (take 4 bs) = 4" by simp
    then obtain a b c d where "take 4 bs = [a, b, c, d]" by (rule length_4E)
    then obtain r where bs: "bs = [a, b, c, d] @ r"
      by (metis append_take_drop_id)
    have "mem_byte (bs @ rest) 0 = Ret a" "mem_byte (bs @ rest) 1 = Ret b"
      "mem_byte (bs @ rest) 2 = Ret c" "mem_byte (bs @ rest) 3 = Ret d"
      by (simp_all add: bs mem_byte_def)
    moreover have "varint_loop64 (bs @ rest) (length r) 4 28 v =
        Ret (v OR push_bit 28 (varint_value r))" for v
      using varint_loop64_value [of "[a, b, c, d]" r rest 28 v]
      by (simp add: bs eval_nat_numeral)
    ultimately show ?thesis
      using False p
      by (simp add: varint_decode64_def bs push_bit_or push_bit_push_bit or.assoc)
  qed
qed

section \<open>The two encoders agree\<close>

lemma drop_bit_ucast_u64: "drop_bit k (ucast v :: u64) = ucast (drop_bit k v)" for v :: u32
  by (rule bit_word_eqI) (auto simp: bit_simps dest: bit_imp_le_length)

lemma ucast_u64_byte: "ucast (ucast v :: u64) = (ucast v :: byte)" for v :: u32
  by (rule bit_word_eqI) (auto simp: bit_simps)

lemma unat_ucast_u64 [simp]: "unat (ucast w :: u64) = unat w" for w :: u32
  using unsigned_less [of w, where ?'a = nat]
  by (simp add: unsigned_ucast_eq take_bit_nat_eq_self_iff)

lemma unat_drop_bit_u32: "unat (drop_bit k v) = unat v div 2 ^ k" for v :: u32
  by (metis drop_bit_eq_div unat_drop_bit_eq)

lemma encode64_step_u32:
  fixes v :: u32
  assumes "n = unat v div 2 ^ k"
  shows "128 \<le> n \<Longrightarrow> varint_encode64 (ucast (drop_bit k v)) =
      ucast ((ucast (drop_bit k v) AND (128 - 1) :: u64) OR 128) # varint_encode64 (ucast (drop_bit (k + 7) v))"
    "n < 128 \<Longrightarrow> varint_encode64 (ucast (drop_bit k v)) = [ucast (drop_bit k v)]"
proof -
  have n: "n = unat (ucast (drop_bit k v) :: u64)"
    by (simp only: assms unat_ucast_u64 unat_drop_bit_u32)
  show "varint_encode64 (ucast (drop_bit k v)) =
      ucast ((ucast (drop_bit k v) AND (128 - 1) :: u64) OR 128) # varint_encode64 (ucast (drop_bit (k + 7) v))"
    if "128 \<le> n"
    using that unfolding n
    by (subst encode64_step) (simp_all add: word_le_nat_alt drop_bit_ucast_u64 add.commute [of _ 7])
  show "varint_encode64 (ucast (drop_bit k v)) = [ucast (drop_bit k v)]" if "n < 128"
    using that unfolding n
    by (subst encode64_step) (simp_all add: word_less_nat_alt ucast_u64_byte)
qed

lemma encode_byte_eq: "ucast ((ucast v AND (127 :: u64)) OR 128) = (ucast (v OR 128) :: byte)"
  for v :: u32
proof (rule bit_word_eqI)
  fix n assume "n < LENGTH(8)"
  then show "bit (ucast ((ucast v AND (127 :: u64)) OR 128) :: byte) n = bit (ucast (v OR 128) :: byte) n"
    by (cases "n = 7") (auto simp: mask7 bit_simps bit_128 bit_128_int)
qed

lemma varint_encode32_encode64: "varint_encode32 v = varint_encode64 (ucast v)"
proof -
  note step = encode64_step_u32 [OF refl, where v = v and k = 0, simplified]
    encode64_step_u32 [OF refl, where v = v and k = 7, simplified]
    encode64_step_u32 [OF refl, where v = v and k = 14, simplified]
    encode64_step_u32 [OF refl, where v = v and k = 21, simplified]
    encode64_step_u32 [OF refl, where v = v and k = 28, simplified]
  have b: "v < push_bit 7 1 \<longleftrightarrow> unat v < 0x80" "v < push_bit 14 1 \<longleftrightarrow> unat v < 0x4000"
    "v < push_bit 21 1 \<longleftrightarrow> unat v < 0x200000" "v < push_bit 28 1 \<longleftrightarrow> unat v < 0x10000000"
    by (simp_all add: word_less_nat_alt)
  have "unat v < 2 ^ LENGTH(32)" by (rule unsigned_less)
  then have u: "unat v < 0x100000000" by simp
  consider "unat v < 0x80" | "0x80 \<le> unat v" "unat v < 0x4000"
    | "0x4000 \<le> unat v" "unat v < 0x200000"
    | "0x200000 \<le> unat v" "unat v < 0x10000000" | "0x10000000 \<le> unat v"
    by linarith
  then show ?thesis
    using u by cases (simp_all only: varint_encode32_def b, simp_all add: step encode_byte_eq)
qed

section \<open>Round trips\<close>

text \<open>
  C21. Decoding what the 64-bit encoder wrote returns the value and the number of bytes consumed,
  whatever follows in the buffer, and the encoding has the length that \<^verbatim>\<open>varint_length\<close> announces,
  at most ten bytes.
\<close>

theorem varint_roundtrip64:
  "varint_decode64 (varint_encode64 v @ rest) = Ret (varint_length v, v) \<and>
   length (varint_encode64 v) = varint_length v \<and> varint_length v \<le> 10"
  using varint_decode64_wf [OF varint_encode64_wf [of v]] varint_length_le_10 [of v]
  by (simp add: length_varint_encode64 varint_value_encode64)

lemma varint_length_u32: "varint_length (ucast v) \<le> 5" for v :: u32
proof (rule varint_length_le)
  have "unat v < 2 ^ LENGTH(32)" by (rule unsigned_less)
  then show "unat (ucast v :: u64) < 2 ^ (7 * 5)" by simp
qed simp

lemma ucast_u64_u32' [simp]: "ucast (ucast r :: u64) = r" for r :: u32
  by (rule bit_word_eqI) (auto simp: bit_simps)

text \<open>
  The unrolled 32-bit encoder writes the same bytes as the 64-bit loop, and both decoders
  read them back.
\<close>

theorem varint_roundtrip32:
  "varint_encode32 v = varint_encode64 (ucast v) \<and>
   varint_decode32 (varint_encode32 v @ rest) = Ret (length (varint_encode32 v), v) \<and>
   varint_decode64 (varint_encode32 v @ rest) = Ret (length (varint_encode32 v), ucast v)"
proof -
  let ?e = "varint_encode64 (ucast v)"
  have "varint_decode32 (?e @ rest) = Ret (length ?e, ucast (varint_value ?e))"
    using varint_length_u32 [of v]
    by (intro varint_decode32_wf varint_encode64_wf) (simp add: length_varint_encode64)
  moreover have "varint_decode64 (?e @ rest) = Ret (length ?e, varint_value ?e)"
    using varint_length_u32 [of v]
    by (intro varint_decode64_wf varint_encode64_wf) (simp add: length_varint_encode64)
  ultimately show ?thesis
    by (simp add: varint_encode32_encode64 varint_value_encode64)
qed

end
