(* ===== verification/Wire.thy ===== *)
theory Wire
  imports Crc32c
begin

text \<open>
  What both directions of a stream share: the result codes (nmsg/res.h), the limits of
  nmsg/constants.h, the messages of nmsg/nmsg.proto, the container header, the payload helpers
  of payload.c and the compression wrapper zbuf.c. The code that protoc-c generates from
  nmsg.proto and the zlib library are parameters (the records \<open>pbc\<close> and \<open>zlib\<close>).
\<close>

section \<open>Result codes (nmsg/res.h)\<close>

datatype nmsg_res =
    nmsg_res_success | nmsg_res_failure | nmsg_res_eof | nmsg_res_memfail
  | nmsg_res_magic_mismatch | nmsg_res_version_mismatch | nmsg_res_pbuf_ready
  | nmsg_res_notimpl | nmsg_res_stop | nmsg_res_again | nmsg_res_parse_error
  | nmsg_res_pcap_error | nmsg_res_read_failure | nmsg_res_container_full
  | nmsg_res_container_overfull | nmsg_res_errno

section \<open>Limits and flags (nmsg/constants.h)\<close>

definition NMSG_MAGIC :: "byte list" where
  "NMSG_MAGIC = [0x4E, 0x4D, 0x53, 0x47]"

definition NMSG_VERSION :: u16 where "NMSG_VERSION = 2"

abbreviation (input) "NMSG_HDRSZ \<equiv> 6 :: nat"
abbreviation (input) "NMSG_HDRLSZ_V2 \<equiv> 10 :: nat"
abbreviation (input) "NMSG_LENHDRSZ_V1 \<equiv> 2 :: nat"
abbreviation (input) "NMSG_LENHDRSZ_V2 \<equiv> 4 :: nat"
abbreviation (input) "NMSG_WBUFSZ_MIN \<equiv> 512 :: nat"
abbreviation (input) "NMSG_WBUFSZ_MAX \<equiv> 1048576 :: nat"
abbreviation (input) "NMSG_RBUFSZ \<equiv> 2 * NMSG_WBUFSZ_MAX"

text \<open>The flag octet: bit 0 says that the container is compressed, bit 1 that it is a fragment.\<close>

definition NMSG_FLAG_ZLIB :: byte where "NMSG_FLAG_ZLIB = 0x01"
definition NMSG_FLAG_FRAGMENT :: byte where "NMSG_FLAG_FRAGMENT = 0x02"

definition flag_set :: "byte \<Rightarrow> byte \<Rightarrow> bool" where
  "flag_set flags f \<longleftrightarrow> flags AND f \<noteq> 0"

lemma length_NMSG_MAGIC [simp]: "length NMSG_MAGIC = 4"
  by (simp add: NMSG_MAGIC_def)

lemma flag_set_simps [simp]:
  "flag_set 0 f = False"
  "flag_set NMSG_FLAG_ZLIB NMSG_FLAG_ZLIB" "\<not> flag_set NMSG_FLAG_ZLIB NMSG_FLAG_FRAGMENT"
  "flag_set NMSG_FLAG_FRAGMENT NMSG_FLAG_FRAGMENT" "\<not> flag_set NMSG_FLAG_FRAGMENT NMSG_FLAG_ZLIB"
  "flag_set (NMSG_FLAG_ZLIB OR NMSG_FLAG_FRAGMENT) NMSG_FLAG_ZLIB"
  "flag_set (NMSG_FLAG_ZLIB OR NMSG_FLAG_FRAGMENT) NMSG_FLAG_FRAGMENT"
  by (simp_all add: flag_set_def NMSG_FLAG_ZLIB_def NMSG_FLAG_FRAGMENT_def)

section \<open>The messages of nmsg.proto\<close>

text \<open>
  An optional field is an option: \<^verbatim>\<open>has_x\<close> and \<^verbatim>\<open>x\<close> together. protobuf-c initialises an unset
  scalar to zero, which is what code reads that does not test \<^verbatim>\<open>has_x\<close> (\<open>opt_u32\<close>).
\<close>

record nmsg_payload =
  vid :: u32
  msgtype :: u32
  time_sec :: u64
  time_nsec :: u32
  payload :: "byte list option"
  source :: "u32 option"
  operator' :: "u32 option"
  group :: "u32 option"

record nmsg_nmsg =
  payloads :: "nmsg_payload list"
  payload_crcs :: "u32 list"
  sequence :: "u32 option"
  sequence_id :: "u64 option"

text \<open>
  The data pointer of the required \<^verbatim>\<open>fragment\<close> bytes is NULL (here \<open>None\<close>) or points to the
  bytes; what an empty field unpacks to is up to protobuf-c.
\<close>

record nmsg_fragment =
  frag_id :: u32
  current :: u32
  last_frag :: u32
  fragment :: "byte list option"
  frag_crc :: "u32 option"

definition opt_u32 :: "u32 option \<Rightarrow> u32" where
  "opt_u32 x = (case x of None \<Rightarrow> 0 | Some v \<Rightarrow> v)"

definition opt_bytes :: "byte list option \<Rightarrow> byte list" where
  "opt_bytes x = (case x of None \<Rightarrow> [] | Some bs \<Rightarrow> bs)"

lemma opt_simps [simp]:
  "opt_u32 None = 0" "opt_u32 (Some v) = v" "opt_bytes None = []" "opt_bytes (Some bs) = bs"
  by (simp_all add: opt_u32_def opt_bytes_def)

section \<open>The generated code\<close>

record pbc =
  nmsg__nmsg__pack :: "nmsg_nmsg \<Rightarrow> byte list"
  nmsg__nmsg__unpack :: "byte list \<Rightarrow> nmsg_nmsg option"
  nmsg__nmsg_payload__get_packed_size :: "nmsg_payload \<Rightarrow> nat"
  nmsg__nmsg_fragment__pack :: "nmsg_fragment \<Rightarrow> byte list"
  nmsg__nmsg_fragment__unpack :: "byte list \<Rightarrow> nmsg_fragment option"

text \<open>
  Documented behaviour of protobuf-c: unpacking inverts packing (a non-empty \<^verbatim>\<open>bytes\<close> field
  comes back as a non-NULL pointer), and the sizes are those of the protocol buffer encoding:
  one octet of tag for a field number below 16, lengths and numbers as base-128 varints.
\<close>

definition pb_roundtrip :: "pbc \<Rightarrow> bool" where
  "pb_roundtrip pb \<longleftrightarrow>
     (\<forall>n. nmsg__nmsg__unpack pb (nmsg__nmsg__pack pb n) = Some n) \<and>
     (\<forall>f. fragment f \<noteq> None \<and> fragment f \<noteq> Some [] \<longrightarrow>
        nmsg__nmsg_fragment__unpack pb (nmsg__nmsg_fragment__pack pb f) = Some f)"

fun varint_size :: "nat \<Rightarrow> nat" where
  "varint_size n = (if n < 128 then 1 else 1 + varint_size (n div 128))"

declare varint_size.simps [simp del]

definition opt_size :: "('a \<Rightarrow> nat) \<Rightarrow> 'a option \<Rightarrow> nat" where
  "opt_size sz x = (case x of None \<Rightarrow> 0 | Some v \<Rightarrow> sz v)"

lemma opt_size_simps [simp]: "opt_size sz None = 0" "opt_size sz (Some v) = sz v"
  by (simp_all add: opt_size_def)

definition payload_wire_size :: "nmsg_payload \<Rightarrow> nat" where
  "payload_wire_size p =
     1 + varint_size (unat (vid p)) + 1 + varint_size (unat (msgtype p)) +
     1 + varint_size (unat (time_sec p)) + 5 +
     opt_size (\<lambda>bs. 1 + varint_size (length bs) + length bs) (payload p) +
     opt_size (\<lambda>v. 1 + varint_size (unat v)) (source p) +
     opt_size (\<lambda>v. 1 + varint_size (unat v)) (operator' p) +
     opt_size (\<lambda>v. 1 + varint_size (unat v)) (group p)"

definition nmsg_wire_size :: "nmsg_nmsg \<Rightarrow> nat" where
  "nmsg_wire_size n =
     (\<Sum>p\<leftarrow>payloads n. 1 + varint_size (payload_wire_size p) + payload_wire_size p) +
     (\<Sum>c\<leftarrow>payload_crcs n. 1 + varint_size (unat c)) +
     opt_size (\<lambda>v. 1 + varint_size (unat v)) (sequence n) +
     opt_size (\<lambda>v. 1 + varint_size (unat v)) (sequence_id n)"

definition fragment_wire_size :: "nmsg_fragment \<Rightarrow> nat" where
  "fragment_wire_size f =
     1 + varint_size (unat (frag_id f)) + 1 + varint_size (unat (current f)) +
     1 + varint_size (unat (last_frag f)) +
     1 + varint_size (length (opt_bytes (fragment f))) + length (opt_bytes (fragment f)) +
     opt_size (\<lambda>v. 1 + varint_size (unat v)) (frag_crc f)"

definition pb_sizes :: "pbc \<Rightarrow> bool" where
  "pb_sizes pb \<longleftrightarrow>
     (\<forall>n. length (nmsg__nmsg__pack pb n) = nmsg_wire_size n) \<and>
     (\<forall>p. nmsg__nmsg_payload__get_packed_size pb p = payload_wire_size p) \<and>
     (\<forall>f. length (nmsg__nmsg_fragment__pack pb f) = fragment_wire_size f)"

lemma varint_size_pos [simp]: "0 < varint_size n"
  by (subst varint_size.simps) simp

lemma varint_size_le: "n < 128 ^ k \<Longrightarrow> 0 < k \<Longrightarrow> varint_size n \<le> k"
proof (induction n arbitrary: k rule: varint_size.induct)
  case (1 n)
  show ?case
  proof (cases "n < 128")
    case True
    then show ?thesis using "1.prems" by (simp add: varint_size.simps [of n])
  next
    case False
    with "1.prems" obtain k' where k: "k = Suc k'" "k' \<noteq> 0"
      by (metis One_nat_def Suc_pred gr0_conv_Suc power_one_right)
    then have "n div 128 < 128 ^ k'" using "1.prems"(1) by (simp add: div_less_iff_less_mult mult.commute)
    with "1.IH" [OF False, of k'] k False show ?thesis
      by (simp add: varint_size.simps [of n])
  qed
qed

lemma varint_size_u32: "varint_size (unat (v :: u32)) \<le> 5"
proof (rule varint_size_le)
  have "unat v < 2 ^ LENGTH(32)" by (rule unsigned_less)
  then show "unat v < 128 ^ 5" by simp
qed simp

lemma varint_size_u64: "varint_size (unat (v :: u64)) \<le> 10"
proof (rule varint_size_le)
  have "unat v < 2 ^ LENGTH(64)" by (rule unsigned_less)
  then show "unat v < 128 ^ 10" by simp
qed simp

lemma varint_size_steps:
  "n < 2 ^ 7 \<Longrightarrow> varint_size n = 1"
  "2 ^ 7 \<le> n \<Longrightarrow> n < 2 ^ 14 \<Longrightarrow> varint_size n = 2"
  "2 ^ 14 \<le> n \<Longrightarrow> n < 2 ^ 21 \<Longrightarrow> varint_size n = 3"
  "2 ^ 21 \<le> n \<Longrightarrow> n < 2 ^ 28 \<Longrightarrow> varint_size n = 4"
proof -
  have d: "n div 128 < 128 \<longleftrightarrow> n < 2 ^ 14" "n div 128 div 128 < 128 \<longleftrightarrow> n < 2 ^ 21"
    "n div 128 div 128 div 128 < 128 \<longleftrightarrow> n < 2 ^ 28"
    by (simp_all add: div_less_iff_less_mult)
  note u = varint_size.simps [of n] varint_size.simps [of "n div 128"]
    varint_size.simps [of "n div 128 div 128"] varint_size.simps [of "n div 128 div 128 div 128"]
  show "n < 2 ^ 7 \<Longrightarrow> varint_size n = 1" by (simp add: u)
  show "2 ^ 7 \<le> n \<Longrightarrow> n < 2 ^ 14 \<Longrightarrow> varint_size n = 2" using d by (simp add: u)
  show "2 ^ 14 \<le> n \<Longrightarrow> n < 2 ^ 21 \<Longrightarrow> varint_size n = 3" using d by (simp add: u)
  show "2 ^ 21 \<le> n \<Longrightarrow> n < 2 ^ 28 \<Longrightarrow> varint_size n = 4" using d by (simp add: u)
qed

section \<open>zlib\<close>

text \<open>
  \<^verbatim>\<open>deflate\<close> with \<^verbatim>\<open>Z_FINISH\<close> yields one compressed image of its input. An inflate stream is
  known by the calls made on it since it was initialised or reset (the input and the room for
  output of each); one more call ends the stream with its output, wants more input or room,
  or reports bad data.
\<close>

datatype zret = Z_stream_end "byte list" | Z_more | Z_error

type_synonym zstream = "(byte list \<times> nat) list"

record zlib =
  deflate :: "byte list \<Rightarrow> byte list"
  inflate :: "zstream \<Rightarrow> byte list \<Rightarrow> nat \<Rightarrow> zret"

text \<open>
  Documented behaviour of zlib: a fresh inflate stream with room for exactly the original data
  reproduces it, whatever follows the compressed image in the input; a compressed image is no
  longer than \<^verbatim>\<open>compressBound\<close>; a stream that reported bad data keeps doing so.
\<close>

definition zlib_roundtrip :: "zlib \<Rightarrow> bool" where
  "zlib_roundtrip z \<longleftrightarrow>
     (\<forall>bs rest. inflate z [] (deflate z bs @ rest) (length bs) = Z_stream_end bs)"

definition compressBound :: "nat \<Rightarrow> nat" where
  "compressBound n = n + n div 2 ^ 12 + n div 2 ^ 14 + n div 2 ^ 25 + 13"

definition zlib_bound :: "zlib \<Rightarrow> bool" where
  "zlib_bound z \<longleftrightarrow> (\<forall>bs. length (deflate z bs) \<le> compressBound (length bs))"

definition zlib_sticky :: "zlib \<Rightarrow> bool" where
  "zlib_sticky z \<longleftrightarrow>
     (\<forall>h i n h' i' n'. inflate z h i n = Z_error \<longrightarrow> inflate z (h @ (i, n) # h') i' n' = Z_error)"

section \<open>Compression (zbuf.c)\<close>

text \<open>
  \<^verbatim>\<open>nmsg_zbuf_deflate\<close> with \<open>z_len\<close> octets announced at \<^verbatim>\<open>z_buf\<close>, of which \<open>cap\<close> really exist:
  the length of the input in network order, then the compressed image. zlib is told that
  \<open>z_len\<close> octets are available after the length; it stops there, and the assertion on
  \<^verbatim>\<open>Z_STREAM_END\<close> fails.
\<close>

definition nmsg_zbuf_deflate :: "zlib \<Rightarrow> byte list \<Rightarrow> nat \<Rightarrow> nat \<Rightarrow> byte list run" where
  "nmsg_zbuf_deflate z buf z_len cap =
     (let out = deflate z buf in
      if cap < 4 + min (length out) z_len then Fault
      else if z_len < length out then Abort
      else Ret (store_net32 (of_nat (length buf)) @ out))"

text \<open>
  \<^verbatim>\<open>nmsg_zbuf_inflate\<close> on \<open>z_len\<close> octets at the head of the memory \<open>mem\<close>: the announced length
  is allocated (\<open>alloc\<close> says whether that succeeds), and zlib is told that \<open>z_len\<close> octets
  follow the length. It faults when it wants more input than \<open>mem\<close> holds. The stream is reset
  only after a success.
\<close>

definition nmsg_zbuf_inflate ::
  "zlib \<Rightarrow> bool \<Rightarrow> zstream \<Rightarrow> nat \<Rightarrow> byte list \<Rightarrow> ((nmsg_res + byte list) \<times> zstream) run" where
  "nmsg_zbuf_inflate z alloc zs z_len mem =
     run_bind (load_net32 mem) (\<lambda>my_ulen.
       let u_len = unat my_ulen; input = take z_len (drop 4 mem) in
       if \<not> alloc then Ret (Inl nmsg_res_memfail, zs)
       else (case inflate z zs input u_len of
           Z_stream_end u_buf \<Rightarrow>
             if length u_buf = u_len then Ret (Inr u_buf, [])
             else Ret (Inl nmsg_res_failure, zs @ [(input, u_len)])
         | Z_more \<Rightarrow>
             if length mem < 4 + z_len then Fault
             else Ret (Inl nmsg_res_failure, zs @ [(input, u_len)])
         | Z_error \<Rightarrow> Ret (Inl nmsg_res_failure, zs @ [(input, u_len)])))"

lemma nmsg_zbuf_inflate_deflate:
  assumes "zlib_roundtrip z" and "length bs < 2 ^ 32"
    and "z_len = 4 + length (deflate z bs)"
  shows "nmsg_zbuf_inflate z True [] z_len
      (store_net32 (of_nat (length bs)) @ deflate z bs @ rest) = Ret (Inr bs, [])"
proof -
  have "unat (of_nat (length bs) :: u32) = length bs"
    using assms(2) by (simp add: unsigned_of_nat take_bit_nat_eq_self)
  moreover have "take z_len (deflate z bs @ rest) = deflate z bs @ take 4 rest"
    using assms(3) by simp
  ultimately show ?thesis
    using assms(1) by (simp add: nmsg_zbuf_inflate_def zlib_roundtrip_def Let_def)
qed

section \<open>The container header\<close>

text \<open>
  \<^verbatim>\<open>header_serialize\<close> of output_frag.c: magic, version and flags, length of what follows.
\<close>

definition header_serialize :: "byte \<Rightarrow> u32 \<Rightarrow> byte list" where
  "header_serialize flags len =
     (let version = NMSG_VERSION OR push_bit 8 (ucast flags)
      in NMSG_MAGIC @ store_net16 version @ store_net32 len)"

text \<open>
  \<^verbatim>\<open>_input_nmsg_deserialize_header\<close> of input_nmsg.c on the \<open>buf_len\<close> octets announced at the
  head of the memory \<open>mem\<close>: the container size and the flags, or an error.
\<close>

definition input_nmsg_deserialize_header ::
  "byte list \<Rightarrow> nat \<Rightarrow> (nmsg_res + nat \<times> byte) run" where
  "input_nmsg_deserialize_header mem buf_len =
     (if buf_len < NMSG_LENHDRSZ_V2 then Ret (Inl nmsg_res_failure)
      else run_bind (mem_read mem 0 4) (\<lambda>m.
        if m \<noteq> NMSG_MAGIC then Ret (Inl nmsg_res_magic_mismatch)
        else run_bind (load_net16 (drop 4 mem)) (\<lambda>version.
          if version AND 0xFF \<noteq> 2 then Ret (Inl nmsg_res_version_mismatch)
          else run_bind (load_net32 (drop 6 mem)) (\<lambda>msgsize.
            Ret (Inr (unat msgsize, ucast (drop_bit 8 version)))))))"

lemma length_header_serialize [simp]: "length (header_serialize flags len) = NMSG_HDRLSZ_V2"
  by (simp add: header_serialize_def Let_def)

lemma header_version:
  fixes flags :: byte
  shows "(NMSG_VERSION OR push_bit 8 (ucast flags)) AND 0xFF = 2"
    and "ucast (drop_bit 8 (NMSG_VERSION OR push_bit 8 (ucast flags))) = flags"
proof -
  have m: "(0xFF :: u16) = mask 8" by (simp add: mask_numeral)
  have two: "bit (2 :: u16) n \<longleftrightarrow> n = 1" for n
  proof -
    have "(2 :: u16) = push_bit 1 1" by simp
    then show ?thesis by (simp only: bit_push_bit_iff) (auto simp: bit_simps)
  qed
  show "(NMSG_VERSION OR push_bit 8 (ucast flags)) AND 0xFF = 2"
    unfolding m NMSG_VERSION_def by (rule bit_word_eqI) (auto simp: bit_simps two)
  show "ucast (drop_bit 8 (NMSG_VERSION OR push_bit 8 (ucast flags))) = flags"
    unfolding NMSG_VERSION_def by (rule bit_word_eqI) (auto simp: bit_simps two)
qed

lemma load_net32_append [simp]: "length xs = 4 \<Longrightarrow> load_net32 (xs @ rest) = load_net32 xs"
  by (auto elim!: length_4E)

lemma deserialize_header_serialize:
  "10 \<le> buf_len \<Longrightarrow> input_nmsg_deserialize_header (header_serialize flags len @ rest) buf_len =
     Ret (Inr (unat len, flags))"
  using load_store_net32 [of len "[]"]
  by (simp add: input_nmsg_deserialize_header_def header_serialize_def Let_def mem_read_def
      header_version del: drop_bit_or)

section \<open>Payload helpers (payload.c)\<close>

text \<open>
  \<^verbatim>\<open>_nmsg_payload_size\<close>: the packed size of the payload without its data, plus the data,
  plus the second and the third octet of the data's length where the length needs them.
\<close>

definition nmsg_payload_size :: "pbc \<Rightarrow> nmsg_payload \<Rightarrow> nat" where
  "nmsg_payload_size pb np =
     (let copy = np\<lparr>payload := map_option (\<lambda>_. []) (payload np)\<rparr>;
          len = length (opt_bytes (payload np));
          sz = nmsg__nmsg_payload__get_packed_size pb copy + len
      in sz + (if len \<ge> 2 ^ 7 then 1 else 0) + (if len \<ge> 2 ^ 14 then 1 else 0))"

text \<open>\<^verbatim>\<open>_nmsg_payload_calc_crcs\<close>; \<open>alloc\<close> is the outcome of its \<^verbatim>\<open>malloc\<close>.\<close>

definition payload_crc :: "nmsg_payload \<Rightarrow> u32" where
  "payload_crc np = bswap32 (crc32c_spec (opt_bytes (payload np)))"

definition nmsg_payload_calc_crcs :: "bool \<Rightarrow> nmsg_nmsg \<Rightarrow> nmsg_nmsg run" where
  "nmsg_payload_calc_crcs alloc nc =
     (if \<not> alloc then Abort else Ret (nc\<lparr>payload_crcs := map payload_crc (payloads nc)\<rparr>))"

lemma nmsg_payload_size_exact:
  assumes "pb_sizes pb" and "length (opt_bytes (payload np)) < 2 ^ 21"
  shows "nmsg_payload_size pb np = payload_wire_size np"
proof (cases "payload np")
  case None
  with assms(1) show ?thesis
    by (simp add: nmsg_payload_size_def pb_sizes_def payload_wire_size_def)
next
  case (Some bs)
  consider "length bs < 2 ^ 7" | "2 ^ 7 \<le> length bs" "length bs < 2 ^ 14"
    | "2 ^ 14 \<le> length bs" "length bs < 2 ^ 21"
    using assms(2) Some by fastforce
  then show ?thesis
    using assms(1) Some
    by cases (simp_all add: nmsg_payload_size_def pb_sizes_def payload_wire_size_def
        varint_size_steps)
qed

text \<open>From two mebibytes on the estimate is an octet short.\<close>

lemma nmsg_payload_size_short:
  assumes "pb_sizes pb" and "payload np = Some bs" and "2 ^ 21 \<le> length bs" and "length bs < 2 ^ 28"
  shows "nmsg_payload_size pb np + 1 = payload_wire_size np"
  using assms
  by (simp add: nmsg_payload_size_def pb_sizes_def payload_wire_size_def varint_size_steps)

end
