(* ===== verification/Message.thy ===== *)
theory Message
  imports Wire
begin

text \<open>
  The message object of nmsg/msgmod/message.c: a payload (\<^verbatim>\<open>np\<close>) and, for a known transparent
  message type, its unpacked protobuf message. A protobuf message object is represented by the
  octets that \<^verbatim>\<open>protobuf_c_message_pack_to_buffer\<close> writes for it; the message module contributes
  its vendor and type numbers, whether it is transparent, its unpacker and its initial object.
\<close>

record nmsg_msgmod =
  vendor_id :: u32
  msgtype_id :: u32
  transparent :: bool
  pb_unpack :: "byte list \<Rightarrow> byte list option"
  pb_init :: "byte list"

record timespec =
  tv_sec :: int
  tv_nsec :: u32

record nmsg_message =
  msg_mod :: "nmsg_msgmod option"
  message :: "byte list option"
  np :: "nmsg_payload option"
  updated :: bool

section \<open>Construction\<close>

definition nmsg__nmsg_payload__init :: nmsg_payload where
  "nmsg__nmsg_payload__init =
     \<lparr>vid = 0, msgtype = 0, time_sec = 0, time_nsec = 0, payload = None, source = None,
      operator' = None, group = None\<rparr>"

text \<open>\<^verbatim>\<open>_nmsg_message_init_payload\<close>; a NULL \<^verbatim>\<open>mod\<close> is dereferenced.\<close>

definition nmsg_message_init_payload ::
  "bool \<Rightarrow> timespec \<Rightarrow> nmsg_message \<Rightarrow> (nmsg_res \<times> nmsg_message) run" where
  "nmsg_message_init_payload alloc ts msg =
     (if \<not> alloc then Ret (nmsg_res_memfail, msg\<lparr>np := None\<rparr>)
      else (case msg_mod msg of
          None \<Rightarrow> Fault
        | Some m \<Rightarrow> Ret (nmsg_res_success, msg\<lparr>np := Some (nmsg__nmsg_payload__init
            \<lparr>vid := vendor_id m, msgtype := msgtype_id m,
             time_sec := of_int (tv_sec ts), time_nsec := tv_nsec ts\<rparr>)\<rparr>)))"

text \<open>\<^verbatim>\<open>nmsg_message_init\<close>; \<open>ok i\<close> is the outcome of its i-th allocation.\<close>

definition nmsg_message_init ::
  "(nat \<Rightarrow> bool) \<Rightarrow> timespec \<Rightarrow> nmsg_msgmod \<Rightarrow> nmsg_message option run" where
  "nmsg_message_init ok ts m =
     (if \<not> ok 0 then Ret None
      else if transparent m \<and> \<not> ok 1 then Ret None
      else run_bind (nmsg_message_init_payload (ok 2) ts
          \<lparr>msg_mod = Some m, message = (if transparent m then Some (pb_init m) else None), np = None,
           updated = False\<rparr>) (\<lambda>(res, msg).
        if res \<noteq> nmsg_res_success then Ret None else Ret (Some msg)))"

text \<open>\<^verbatim>\<open>_nmsg_message_from_payload\<close>; \<open>lookup\<close> is \<^verbatim>\<open>nmsg_msgmod_lookup\<close>.\<close>

definition nmsg_message_from_payload ::
  "(u32 \<Rightarrow> u32 \<Rightarrow> nmsg_msgmod option) \<Rightarrow> bool \<Rightarrow> nmsg_payload \<Rightarrow> nmsg_message option" where
  "nmsg_message_from_payload lookup alloc p =
     (if \<not> alloc then None
      else Some \<lparr>msg_mod = lookup (vid p) (msgtype p), message = None, np = Some p, updated = False\<rparr>)"

text \<open>\<^verbatim>\<open>nmsg_message_from_raw_payload\<close> with the current time \<open>now\<close> where \<open>ts\<close> is NULL.\<close>

definition nmsg_message_from_raw_payload ::
  "(u32 \<Rightarrow> u32 \<Rightarrow> nmsg_msgmod option) \<Rightarrow> (nat \<Rightarrow> bool) \<Rightarrow> timespec \<Rightarrow> u32 \<Rightarrow> u32 \<Rightarrow> byte list \<Rightarrow>
     timespec option \<Rightarrow> nmsg_message option" where
  "nmsg_message_from_raw_payload lookup ok now v m data ts =
     (if \<not> ok 0 \<or> \<not> ok 1 then None
      else let t = (case ts of None \<Rightarrow> now | Some t \<Rightarrow> t) in
        Some \<lparr>msg_mod = lookup v m, message = None,
          np = Some (nmsg__nmsg_payload__init\<lparr>vid := v, msgtype := m, payload := Some data,
            time_sec := of_int (tv_sec t), time_nsec := tv_nsec t\<rparr>),
          updated = False\<rparr>)"

section \<open>Synchronising the message object and its payload\<close>

text \<open>
  \<^verbatim>\<open>_nmsg_message_serialize\<close>: allocation 0 is the payload, 1 the pack buffer. The message object
  is packed when it was updated, or when its payload was detached.
\<close>

definition nmsg_message_serialize ::
  "(nat \<Rightarrow> bool) \<Rightarrow> timespec \<Rightarrow> nmsg_message \<Rightarrow> (nmsg_res \<times> nmsg_message) run" where
  "nmsg_message_serialize ok ts msg =
     (case message msg of
        None \<Rightarrow> Ret (nmsg_res_success, msg)
      | Some m \<Rightarrow>
        if \<not> (updated msg \<or> np msg = None) then Ret (nmsg_res_success, msg)
        else run_bind (if np msg = None then nmsg_message_init_payload (ok 0) ts msg
                       else Ret (nmsg_res_success, msg)) (\<lambda>(res, msg1).
          if res \<noteq> nmsg_res_success then Ret (res, msg1)
          else if \<not> ok 1 then Ret (nmsg_res_memfail, msg1)
          else Ret (nmsg_res_success,
            msg1\<lparr>np := map_option (\<lambda>p. p\<lparr>payload := Some m\<rparr>) (np msg1), updated := False\<rparr>)))"

text \<open>\<^verbatim>\<open>_nmsg_message_deserialize\<close>\<close>

definition nmsg_message_deserialize :: "nmsg_message \<Rightarrow> nmsg_res \<times> nmsg_message" where
  "nmsg_message_deserialize msg =
     (if message msg \<noteq> None then (nmsg_res_success, msg)
      else (case (np msg, msg_mod msg) of
          (Some p, Some m) \<Rightarrow>
            (case payload p of
               None \<Rightarrow> (nmsg_res_failure, msg)
             | Some bs \<Rightarrow> (case pb_unpack m bs of
                   None \<Rightarrow> (nmsg_res_memfail, msg)
                 | Some obj \<Rightarrow> (nmsg_res_success, msg\<lparr>message := Some obj\<rparr>)))
        | _ \<Rightarrow> (nmsg_res_failure, msg)))"

text \<open>\<^verbatim>\<open>nmsg_message_update\<close>, \<^verbatim>\<open>nmsg_message_compact_payload\<close> and the accessors.\<close>

definition nmsg_message_update :: "nmsg_message \<Rightarrow> nmsg_message" where
  "nmsg_message_update msg = msg\<lparr>updated := True\<rparr>"

definition nmsg_message_compact_payload :: "nmsg_message \<Rightarrow> nmsg_message" where
  "nmsg_message_compact_payload msg = msg\<lparr>message := None\<rparr>"

definition with_np :: "nmsg_message \<Rightarrow> (nmsg_payload \<Rightarrow> 'a) \<Rightarrow> 'a run" where
  "with_np msg f = (case np msg of None \<Rightarrow> Fault | Some p \<Rightarrow> Ret (f p))"

definition nmsg_message_get_source :: "nmsg_message \<Rightarrow> u32 run" where
  "nmsg_message_get_source msg = with_np msg (\<lambda>p. opt_u32 (source p))"

definition nmsg_message_get_operator :: "nmsg_message \<Rightarrow> u32 run" where
  "nmsg_message_get_operator msg = with_np msg (\<lambda>p. opt_u32 (operator' p))"

definition nmsg_message_get_group :: "nmsg_message \<Rightarrow> u32 run" where
  "nmsg_message_get_group msg = with_np msg (\<lambda>p. opt_u32 (group p))"

definition set_opt :: "u32 \<Rightarrow> u32 option" where
  "set_opt v = (if v = 0 then None else Some v)"

definition nmsg_message_set_source :: "nmsg_message \<Rightarrow> u32 \<Rightarrow> nmsg_message run" where
  "nmsg_message_set_source msg v = with_np msg (\<lambda>p. msg\<lparr>np := Some (p\<lparr>source := set_opt v\<rparr>)\<rparr>)"

definition nmsg_message_set_operator :: "nmsg_message \<Rightarrow> u32 \<Rightarrow> nmsg_message run" where
  "nmsg_message_set_operator msg v =
     with_np msg (\<lambda>p. msg\<lparr>np := Some (p\<lparr>operator' := set_opt v\<rparr>)\<rparr>)"

definition nmsg_message_set_group :: "nmsg_message \<Rightarrow> u32 \<Rightarrow> nmsg_message run" where
  "nmsg_message_set_group msg v = with_np msg (\<lambda>p. msg\<lparr>np := Some (p\<lparr>group := set_opt v\<rparr>)\<rparr>)"

definition nmsg_message_set_time :: "timespec \<Rightarrow> nmsg_message \<Rightarrow> timespec option \<Rightarrow> nmsg_message run" where
  "nmsg_message_set_time now msg ts =
     (let t = (case ts of None \<Rightarrow> now | Some t \<Rightarrow> t) in
      with_np msg (\<lambda>p. msg\<lparr>np := Some (p\<lparr>time_sec := of_int (tv_sec t), time_nsec := tv_nsec t\<rparr>)\<rparr>))"

section \<open>Properties\<close>

text \<open>The promise of the header comment of private.h: a usable message has a payload or a module.\<close>

definition message_ok :: "nmsg_message \<Rightarrow> bool" where
  "message_ok msg \<longleftrightarrow> (np msg = None \<longrightarrow> message msg \<noteq> None) \<and> (message msg \<noteq> None \<longrightarrow> msg_mod msg \<noteq> None)"

lemma nmsg_message_serialize_np:
  assumes "message_ok msg" and "nmsg_message_serialize ok ts msg = Ret (nmsg_res_success, msg')"
  shows "np msg' \<noteq> None" and "message_ok msg'" and "message msg' = message msg"
  using assms
  by (auto simp: nmsg_message_serialize_def nmsg_message_init_payload_def message_ok_def
      split: option.splits if_splits)

lemma message_serialize_total:
  assumes "message_ok msg"
  shows "(\<exists>msg'. nmsg_message_serialize ok ts msg = Ret (nmsg_res_memfail, msg')) \<or>
    (\<exists>msg' p. nmsg_message_serialize ok ts msg = Ret (nmsg_res_success, msg') \<and> np msg' = Some p)"
  using assms
  by (auto simp: nmsg_message_serialize_def nmsg_message_init_payload_def message_ok_def
      split: option.splits if_splits)

lemma message_serialize_ok:
  assumes "message_ok msg" and "ok 0" and "ok 1"
  shows "\<exists>msg' p. nmsg_message_serialize ok ts msg = Ret (nmsg_res_success, msg') \<and> np msg' = Some p"
  using assms
  by (auto simp: nmsg_message_serialize_def nmsg_message_init_payload_def message_ok_def
      split: option.splits if_splits)

text \<open>
  Serialising a well-formed message does not fault; when it succeeds the message has a
  payload, and that payload holds the packed message object whenever the object was marked
  updated or the payload had been detached; otherwise the message is left as it was.
\<close>

theorem message_serialize_synchronises:
  assumes "message_ok msg"
  shows "\<exists>res msg'. nmsg_message_serialize ok ts msg = Ret (res, msg') \<and>
    res \<in> {nmsg_res_success, nmsg_res_memfail} \<and> (ok 0 \<and> ok 1 \<longrightarrow> res = nmsg_res_success) \<and>
    (res = nmsg_res_success \<longrightarrow>
       (\<exists>p. np msg' = Some p \<and>
         (if message msg \<noteq> None \<and> (updated msg \<or> np msg = None)
          then payload p = message msg \<and> \<not> updated msg' else msg' = msg)))"
  using assms
  by (auto simp: nmsg_message_serialize_def nmsg_message_init_payload_def message_ok_def
      split: option.splits)

text \<open>
  After a serialisation that failed for want of the pack buffer on a detached message, the
  next call reports success and leaves a payload without data: the message's content is lost.
\<close>

theorem message_serialize_retry_loses_data:
  assumes "message msg = Some m" and "msg_mod msg = Some md" and "np msg = None" and "\<not> updated msg"
    and "ok 0" and "\<not> ok 1"
  shows "\<exists>msg' p. nmsg_message_serialize ok ts msg = Ret (nmsg_res_memfail, msg') \<and>
    nmsg_message_serialize ok' ts' msg' = Ret (nmsg_res_success, msg') \<and>
    np msg' = Some p \<and> payload p = None"
  using assms
  by (auto simp: nmsg_message_serialize_def nmsg_message_init_payload_def
      nmsg__nmsg_payload__init_def)

definition sample_msgmod :: nmsg_msgmod where
  "sample_msgmod = \<lparr>vendor_id = 1, msgtype_id = 9, transparent = True, pb_unpack = Some, pb_init = []\<rparr>"

definition sample_message :: nmsg_message where
  "sample_message = \<lparr>msg_mod = Some sample_msgmod, message = Some [8, 1], np = None, updated = False\<rparr>"

theorem message_serialize_synchronises_witness:
  "message_ok sample_message \<and>
   (\<exists>res msg'. nmsg_message_serialize (\<lambda>_. True) \<lparr>tv_sec = 0, tv_nsec = 0\<rparr> sample_message = Ret (res, msg') \<and>
      res = nmsg_res_success \<and> (\<exists>p. np msg' = Some p \<and> payload p = Some [8, 1]))"
proof -
  have "message_ok sample_message" by (simp add: message_ok_def sample_message_def)
  from message_serialize_synchronises [OF this, of "\<lambda>_. True" "\<lparr>tv_sec = 0, tv_nsec = 0\<rparr>"] this
  show ?thesis by (auto simp: sample_message_def)
qed

theorem message_serialize_retry_loses_data_witness:
  "\<exists>msg' p. nmsg_message_serialize (\<lambda>i. i = 0) \<lparr>tv_sec = 0, tv_nsec = 0\<rparr> sample_message =
      Ret (nmsg_res_memfail, msg') \<and>
    nmsg_message_serialize (\<lambda>_. True) \<lparr>tv_sec = 1, tv_nsec = 0\<rparr> msg' = Ret (nmsg_res_success, msg') \<and>
    np msg' = Some p \<and> payload p = None"
  by (rule message_serialize_retry_loses_data) (simp_all add: sample_message_def)

end
