(* ===== verification/Reference.thy ===== *)
theory Reference
  imports Wire
begin

text \<open>
  A concrete protocol buffer codec for the messages of nmsg.proto and a concrete compressor.
  They model no code of the repository: they show that the documented behaviour assumed of
  protobuf-c and zlib (\<open>pb_roundtrip\<close>, \<open>pb_sizes\<close>, \<open>zlib_roundtrip\<close>, \<open>zlib_bound\<close>,
  \<open>zlib_sticky\<close>) can hold, and the witnesses of the other theories run on them.
\<close>

section \<open>Numbers\<close>

fun nv_enc :: "nat \<Rightarrow> byte list" where
  "nv_enc n = (if n < 128 then [of_nat n] else of_nat (n mod 128 + 128) # nv_enc (n div 128))"

declare nv_enc.simps [simp del]

fun nv_dec :: "byte list \<Rightarrow> (nat \<times> byte list) option" where
  "nv_dec [] = None"
| "nv_dec (b # bs) =
     (if unat b < 128 then Some (unat b, bs)
      else map_option (\<lambda>(m, r). (unat b - 128 + 128 * m, r)) (nv_dec bs))"

lemma unat_of_nat_byte: "n < 256 \<Longrightarrow> unat (of_nat n :: byte) = n"
  by (simp add: unsigned_of_nat take_bit_nat_eq_self)

lemma nv_dec_enc [simp]: "nv_dec (nv_enc n @ rest) = Some (n, rest)"
proof (induction n rule: nv_enc.induct)
  case (1 n)
  show ?case
  proof (cases "n < 128")
    case True
    then show ?thesis by (simp add: nv_enc.simps [of n] unat_of_nat_byte)
  next
    case False
    have "n mod 128 + 128 < 256" by simp
    from unat_of_nat_byte [OF this] have "unat (of_nat (n mod 128 + 128) :: byte) = n mod 128 + 128" .
    with "1.IH" [OF False] False show ?thesis
      by (subst nv_enc.simps) (simp del: of_nat_add)
  qed
qed

lemma length_nv_enc [simp]: "length (nv_enc n) = varint_size n"
  by (induction n rule: nv_enc.induct) (simp add: nv_enc.simps varint_size.simps)

section \<open>Fields\<close>

text \<open>Varint, length-delimited and 32-bit fields, with their field numbers.\<close>

datatype pfield = FV nat nat | FB nat "byte list" | FX nat u32

definition ftag :: "nat \<Rightarrow> nat \<Rightarrow> byte" where
  "ftag k w = of_nat (8 * k + w)"

lemma unat_ftag:
  assumes "k < 16" and "w < 8"
  shows "unat (ftag k w) div 8 = k" and "unat (ftag k w) mod 8 = w"
proof -
  have "8 * k + w < 256" using assms by simp
  from unat_of_nat_byte [OF this] have "unat (ftag k w) = 8 * k + w" by (simp only: ftag_def)
  with assms show "unat (ftag k w) div 8 = k" "unat (ftag k w) mod 8 = w" by simp_all
qed

fun fenc :: "pfield \<Rightarrow> byte list" where
  "fenc (FV k v) = ftag k 0 # nv_enc v"
| "fenc (FB k bs) = ftag k 2 # nv_enc (length bs) @ bs"
| "fenc (FX k v) = ftag k 5 # store_net32 v"

fun fdec :: "byte list \<Rightarrow> (pfield \<times> byte list) option" where
  "fdec [] = None"
| "fdec (b # bs) =
     (let k = unat b div 8; w = unat b mod 8 in
      if w = 0 then map_option (\<lambda>(v, r). (FV k v, r)) (nv_dec bs)
      else if w = 2 then
        (case nv_dec bs of
           Some (n, r) \<Rightarrow> if n \<le> length r then Some (FB k (take n r), drop n r) else None
         | None \<Rightarrow> None)
      else if w = 5 then
        (case load_net32 bs of Ret v \<Rightarrow> Some (FX k v, drop 4 bs) | _ \<Rightarrow> None)
      else None)"

fun fnum :: "pfield \<Rightarrow> nat" where
  "fnum (FV k _) = k" | "fnum (FB k _) = k" | "fnum (FX k _) = k"

fun fsize :: "pfield \<Rightarrow> nat" where
  "fsize (FV _ v) = 1 + varint_size v"
| "fsize (FB _ bs) = 1 + varint_size (length bs) + length bs"
| "fsize (FX _ _) = 5"

lemma length_fenc [simp]: "length (fenc f) = fsize f"
  by (cases f) simp_all

lemma fdec_fenc: "fnum f < 16 \<Longrightarrow> fdec (fenc f @ rest) = Some (f, rest)"
  using load_store_net32 [of _ "[]"] by (cases f) (simp_all add: unat_ftag Let_def)

fun fields_dec :: "nat \<Rightarrow> byte list \<Rightarrow> pfield list option" where
  "fields_dec n [] = Some []"
| "fields_dec 0 (b # bs) = None"
| "fields_dec (Suc n) (b # bs) =
     (case fdec (b # bs) of
        None \<Rightarrow> None
      | Some (f, r) \<Rightarrow> map_option (Cons f) (fields_dec n r))"

definition fields_enc :: "pfield list \<Rightarrow> byte list" where
  "fields_enc fs = concat (map fenc fs)"

lemma fields_dec_enc:
  "\<forall>f \<in> set fs. fnum f < 16 \<Longrightarrow> length fs \<le> n \<Longrightarrow> fields_dec n (fields_enc fs) = Some fs"
proof (induction fs arbitrary: n)
  case (Cons f fs)
  then obtain m where n: "n = Suc m" by (cases n) auto
  have "fenc f \<noteq> []" by (cases f) auto
  then obtain b bs where b: "fenc f @ fields_enc fs = b # bs"
    by (cases "fenc f") auto
  have "fdec (b # bs) = Some (f, fields_enc fs)"
    using fdec_fenc [of f "fields_enc fs"] Cons.prems(1) b by simp
  moreover have "fields_enc (f # fs) = b # bs" using b by (simp add: fields_enc_def)
  ultimately show ?case using Cons n by simp
qed (simp add: fields_enc_def)

lemma fields_length: "length fs \<le> length (fields_enc fs)"
proof (induction fs)
  case (Cons f fs)
  have "1 \<le> length (fenc f)" by (cases f) auto
  with Cons show ?case by (simp add: fields_enc_def)
qed (simp add: fields_enc_def)

lemma fields_dec_enc_length:
  "\<forall>f \<in> set fs. fnum f < 16 \<Longrightarrow> fields_dec (length (fields_enc fs)) (fields_enc fs) = Some fs"
  by (simp add: fields_dec_enc fields_length)

definition opt_field :: "('a \<Rightarrow> pfield) \<Rightarrow> 'a option \<Rightarrow> pfield list" where
  "opt_field mk x = (case x of None \<Rightarrow> [] | Some v \<Rightarrow> [mk v])"

section \<open>Messages\<close>

definition payload_fields :: "nmsg_payload \<Rightarrow> pfield list" where
  "payload_fields p =
     [FV 1 (unat (vid p)), FV 2 (unat (msgtype p)), FV 3 (unat (time_sec p)), FX 4 (time_nsec p)] @
     opt_field (FB 5) (payload p) @ opt_field (\<lambda>v. FV 7 (unat v)) (source p) @
     opt_field (\<lambda>v. FV 8 (unat v)) (operator' p) @ opt_field (\<lambda>v. FV 9 (unat v)) (group p)"

fun payload_set :: "nmsg_payload \<Rightarrow> pfield \<Rightarrow> nmsg_payload" where
  "payload_set p (FV k v) =
     (if k = 1 then p\<lparr>vid := of_nat v\<rparr> else if k = 2 then p\<lparr>msgtype := of_nat v\<rparr>
      else if k = 3 then p\<lparr>time_sec := of_nat v\<rparr> else if k = 7 then p\<lparr>source := Some (of_nat v)\<rparr>
      else if k = 8 then p\<lparr>operator' := Some (of_nat v)\<rparr>
      else if k = 9 then p\<lparr>group := Some (of_nat v)\<rparr> else p)"
| "payload_set p (FB k bs) = (if k = 5 then p\<lparr>payload := Some bs\<rparr> else p)"
| "payload_set p (FX k v) = (if k = 4 then p\<lparr>time_nsec := v\<rparr> else p)"

definition payload_zero :: nmsg_payload where
  "payload_zero = \<lparr>vid = 0, msgtype = 0, time_sec = 0, time_nsec = 0, payload = None,
     source = None, operator' = None, group = None\<rparr>"

definition ref_payload_unpack :: "byte list \<Rightarrow> nmsg_payload option" where
  "ref_payload_unpack bs = map_option (foldl payload_set payload_zero) (fields_dec (length bs) bs)"

lemma ref_payload_unpack [simp]: "ref_payload_unpack (fields_enc (payload_fields p)) = Some p"
proof -
  have "\<forall>f \<in> set (payload_fields p). fnum f < 16"
    by (auto simp: payload_fields_def opt_field_def split: option.splits)
  moreover have "foldl payload_set payload_zero (payload_fields p) = p"
    by (cases p) (auto simp: payload_fields_def payload_zero_def opt_field_def split: option.splits)
  ultimately show ?thesis
    by (simp add: ref_payload_unpack_def fields_dec_enc_length)
qed

definition nmsg_fields :: "nmsg_nmsg \<Rightarrow> pfield list" where
  "nmsg_fields n =
     map (\<lambda>p. FB 1 (fields_enc (payload_fields p))) (payloads n) @
     map (\<lambda>c. FV 2 (unat c)) (payload_crcs n) @
     opt_field (\<lambda>v. FV 3 (unat v)) (sequence n) @ opt_field (\<lambda>v. FV 4 (unat v)) (sequence_id n)"

fun nmsg_set :: "nmsg_nmsg option \<Rightarrow> pfield \<Rightarrow> nmsg_nmsg option" where
  "nmsg_set None _ = None"
| "nmsg_set (Some n) (FB k bs) =
     (if k = 1 then map_option (\<lambda>p. n\<lparr>payloads := payloads n @ [p]\<rparr>) (ref_payload_unpack bs)
      else Some n)"
| "nmsg_set (Some n) (FV k v) =
     Some (if k = 2 then n\<lparr>payload_crcs := payload_crcs n @ [of_nat v]\<rparr>
       else if k = 3 then n\<lparr>sequence := Some (of_nat v)\<rparr>
       else if k = 4 then n\<lparr>sequence_id := Some (of_nat v)\<rparr> else n)"
| "nmsg_set (Some n) (FX _ _) = Some n"

definition nmsg_zero :: nmsg_nmsg where
  "nmsg_zero = \<lparr>payloads = [], payload_crcs = [], sequence = None, sequence_id = None\<rparr>"

definition ref_nmsg_unpack :: "byte list \<Rightarrow> nmsg_nmsg option" where
  "ref_nmsg_unpack bs = Option.bind (fields_dec (length bs) bs) (foldl nmsg_set (Some nmsg_zero))"

definition fragment_fields :: "nmsg_fragment \<Rightarrow> pfield list" where
  "fragment_fields f =
     [FV 1 (unat (frag_id f)), FV 2 (unat (current f)), FV 3 (unat (last_frag f)),
      FB 4 (opt_bytes (fragment f))] @ opt_field (\<lambda>v. FV 5 (unat v)) (frag_crc f)"

fun fragment_set :: "nmsg_fragment \<Rightarrow> pfield \<Rightarrow> nmsg_fragment" where
  "fragment_set f (FV k v) =
     (if k = 1 then f\<lparr>frag_id := of_nat v\<rparr> else if k = 2 then f\<lparr>current := of_nat v\<rparr>
      else if k = 3 then f\<lparr>last_frag := of_nat v\<rparr>
      else if k = 5 then f\<lparr>frag_crc := Some (of_nat v)\<rparr> else f)"
| "fragment_set f (FB k bs) =
     (if k = 4 then f\<lparr>fragment := (if bs = [] then None else Some bs)\<rparr> else f)"
| "fragment_set f (FX _ _) = f"

definition fragment_zero :: nmsg_fragment where
  "fragment_zero =
     \<lparr>frag_id = 0, current = 0, last_frag = 0, fragment = None, frag_crc = None\<rparr>"

definition ref_pb :: pbc where
  "ref_pb = \<lparr>
     nmsg__nmsg__pack = fields_enc \<circ> nmsg_fields,
     nmsg__nmsg__unpack = ref_nmsg_unpack,
     nmsg__nmsg_payload__get_packed_size = (\<lambda>p. length (fields_enc (payload_fields p))),
     nmsg__nmsg_fragment__pack = fields_enc \<circ> fragment_fields,
     nmsg__nmsg_fragment__unpack =
       (\<lambda>bs. map_option (foldl fragment_set fragment_zero) (fields_dec (length bs) bs))\<rparr>"

lemma foldl_nmsg_payloads:
  "foldl nmsg_set (Some n) (map (\<lambda>p. FB 1 (fields_enc (payload_fields p))) ps) =
     Some (n\<lparr>payloads := payloads n @ ps\<rparr>)"
  by (induction ps arbitrary: n) simp_all

lemma foldl_nmsg_crcs:
  "foldl nmsg_set (Some n) (map (\<lambda>c. FV 2 (unat c)) cs) =
     Some (n\<lparr>payload_crcs := payload_crcs n @ cs\<rparr>)"
  by (induction cs arbitrary: n) simp_all

lemma ref_nmsg_unpack: "ref_nmsg_unpack (fields_enc (nmsg_fields n)) = Some n"
proof -
  have "\<forall>f \<in> set (nmsg_fields n). fnum f < 16"
    by (auto simp: nmsg_fields_def opt_field_def split: option.splits)
  moreover have "foldl nmsg_set (Some nmsg_zero) (nmsg_fields n) = Some n"
    by (cases n) (auto simp: nmsg_fields_def foldl_nmsg_payloads [simplified] foldl_nmsg_crcs nmsg_zero_def
        opt_field_def split: option.splits)
  ultimately show ?thesis
    by (simp add: ref_nmsg_unpack_def fields_dec_enc_length)
qed

lemma ref_pb_roundtrip [simp]: "pb_roundtrip ref_pb"
proof -
  have "map_option (foldl fragment_set fragment_zero)
      (fields_dec (length (fields_enc (fragment_fields f))) (fields_enc (fragment_fields f))) = Some f"
    if "fragment f \<noteq> None" "fragment f \<noteq> Some []" for f
  proof -
    have "\<forall>x \<in> set (fragment_fields f). fnum x < 16"
      by (auto simp: fragment_fields_def opt_field_def split: option.splits)
    moreover have "foldl fragment_set fragment_zero (fragment_fields f) = f"
      using that by (cases f) (auto simp: fragment_fields_def fragment_zero_def opt_field_def
          split: option.splits)
    ultimately show ?thesis by (simp add: fields_dec_enc_length)
  qed
  then show ?thesis
    by (simp add: pb_roundtrip_def ref_pb_def ref_nmsg_unpack)
qed

lemma length_fields_enc: "length (fields_enc fs) = (\<Sum>f\<leftarrow>fs. fsize f)"
  by (simp add: fields_enc_def length_concat comp_def)

lemma length_payload_fields: "length (fields_enc (payload_fields p)) = payload_wire_size p"
  by (simp add: length_fields_enc payload_fields_def payload_wire_size_def opt_field_def opt_size_def
      split: option.splits)

lemma ref_pb_sizes [simp]: "pb_sizes ref_pb"
  by (auto simp: pb_sizes_def ref_pb_def length_payload_fields, auto simp: length_fields_enc
      nmsg_fields_def nmsg_wire_size_def fragment_fields_def fragment_wire_size_def
      opt_field_def opt_size_def comp_def length_payload_fields [unfolded length_fields_enc]
      split: option.splits)

section \<open>Compression\<close>

definition ref_bad :: "byte list \<Rightarrow> bool" where
  "ref_bad bs \<longleftrightarrow> bs \<noteq> [] \<and> hd bs \<noteq> 0x78"

definition ref_zlib :: zlib where
  "ref_zlib = \<lparr>
     deflate = (\<lambda>bs. 0x78 # nv_enc (length bs) @ bs),
     inflate = (\<lambda>h bs room.
       if list_ex (\<lambda>(i, n). ref_bad i) h \<or> ref_bad bs then Z_error
       else (case nv_dec (drop 1 bs) of
           None \<Rightarrow> Z_more
         | Some (n, r) \<Rightarrow> if n \<le> length r \<and> n \<le> room then Z_stream_end (take n r) else Z_more))\<rparr>"

lemma ref_zlib_roundtrip [simp]: "zlib_roundtrip ref_zlib"
  by (simp add: zlib_roundtrip_def ref_zlib_def ref_bad_def)

lemma ref_zlib_sticky [simp]: "zlib_sticky ref_zlib"
  by (auto simp: zlib_sticky_def ref_zlib_def split: option.splits if_splits)

lemma varint_size_div: "varint_size n \<le> 12 + n div 4096"
proof (induction n rule: varint_size.induct)
  case (1 n)
  show ?case
  proof (cases "n < 128 ^ 12")
    case True
    then show ?thesis using varint_size_le [of n 12] by simp
  next
    case False
    then have "\<not> n < 128" by simp
    have "n div 128 div 4096 + 1 \<le> n div 4096"
      using False by (simp add: div_mult2_eq [symmetric])
    with "1.IH" [OF \<open>\<not> n < 128\<close>] \<open>\<not> n < 128\<close> show ?thesis
      by (simp add: varint_size.simps [of n])
  qed
qed

lemma ref_zlib_bound [simp]: "zlib_bound ref_zlib"
proof -
  have "Suc (varint_size n + n) \<le> compressBound n" for n
    using varint_size_div [of n] by (simp add: compressBound_def)
  then show ?thesis
    by (simp add: zlib_bound_def ref_zlib_def)
qed

end
