(* ===== verification/Container.thy ===== *)
theory Container
  imports Message Reference
begin

text \<open>
  container.c: the container being filled, its size estimate, and the conversion between
  containers and octets in both directions.
\<close>

text \<open>
  A slot of \<^verbatim>\<open>payloads\<close> is \<open>None\<close> where \<^verbatim>\<open>n_payloads\<close> counts an element that was never
  stored. \<open>c_sequence\<close> and \<open>c_sequence_id\<close> are the sequence fields of \<^verbatim>\<open>c->nmsg\<close>.
\<close>

record nmsg_container =
  c_payloads :: "nmsg_payload option list"
  c_sequence :: "u32 option"
  c_sequence_id :: "u64 option"
  c_bufsz :: nat
  c_estsz :: nat
  c_do_sequence :: bool

section \<open>Building a container\<close>

text \<open>\<^verbatim>\<open>nmsg_container_init\<close>: allocation 0 is the container, 1 its \<^verbatim>\<open>Nmsg__Nmsg\<close>.\<close>

definition nmsg_container_init :: "(nat \<Rightarrow> bool) \<Rightarrow> nat \<Rightarrow> nmsg_container option" where
  "nmsg_container_init ok bufsz =
     (if \<not> ok 0 then None
      else if \<not> ok 1 then None
      else if bufsz < NMSG_WBUFSZ_MIN then None
      else Some \<lparr>c_payloads = [], c_sequence = None, c_sequence_id = None, c_bufsz = bufsz,
        c_estsz = NMSG_HDRLSZ_V2, c_do_sequence = False\<rparr>)"

definition nmsg_container_set_sequence :: "nmsg_container \<Rightarrow> bool \<Rightarrow> nmsg_container" where
  "nmsg_container_set_sequence c do_sequence = c\<lparr>c_do_sequence := do_sequence\<rparr>"

definition nmsg_container_get_num_payloads :: "nmsg_container \<Rightarrow> nat" where
  "nmsg_container_get_num_payloads c = length (c_payloads c)"

text \<open>What one payload of \<open>np_len\<close> octets adds to the estimate.\<close>

definition estsz_step :: "bool \<Rightarrow> nat \<Rightarrow> nat" where
  "estsz_step do_sequence np_len =
     np_len + (1 + 1) + (if np_len \<ge> 2 ^ 7 then 1 else 0) + (if np_len \<ge> 2 ^ 14 then 1 else 0) +
     (if np_len \<ge> 2 ^ 21 then 1 else 0) + 6 + (if do_sequence then 6 + 12 else 0)"

text \<open>
  \<^verbatim>\<open>nmsg_container_add\<close>: allocations 0 and 1 belong to \<^verbatim>\<open>_nmsg_message_serialize\<close>, 2 is the
  \<^verbatim>\<open>realloc\<close> of the payload array, whose count has been incremented when it fails.
\<close>

definition nmsg_container_add ::
  "pbc \<Rightarrow> (nat \<Rightarrow> bool) \<Rightarrow> timespec \<Rightarrow> nmsg_container \<Rightarrow> nmsg_message \<Rightarrow>
     (nmsg_res \<times> nmsg_container \<times> nmsg_message) run" where
  "nmsg_container_add pb ok ts c msg0 =
     run_bind (nmsg_message_serialize ok ts msg0) (\<lambda>(res, msg).
       if res \<noteq> nmsg_res_success then Ret (res, c, msg)
       else (case np msg of
           None \<Rightarrow> Abort
         | Some p \<Rightarrow>
             let np_len = nmsg_payload_size pb p in
             if c_estsz c \<noteq> NMSG_HDRLSZ_V2 \<and> c_estsz c + np_len + 32 \<ge> c_bufsz c
             then Ret (nmsg_res_container_full, c, msg)
             else if \<not> ok 2 then Ret (nmsg_res_memfail, c\<lparr>c_payloads := c_payloads c @ [None]\<rparr>, msg)
             else
               let c' = c\<lparr>c_payloads := c_payloads c @ [Some p],
                 c_estsz := c_estsz c + estsz_step (c_do_sequence c) np_len\<rparr>
               in Ret (if c_estsz c' > c_bufsz c' then nmsg_res_container_overfull
                       else nmsg_res_success, c', msg\<lparr>np := None\<rparr>)))"

section \<open>Serialising\<close>

text \<open>The message that the container stands for; a slot that was never stored is dereferenced.\<close>

definition container_nmsg :: "nmsg_container \<Rightarrow> nmsg_nmsg run" where
  "container_nmsg c =
     (if None \<in> set (c_payloads c) then Fault
      else Ret \<lparr>payloads = map the (c_payloads c), payload_crcs = [],
        sequence = c_sequence c, sequence_id = c_sequence_id c\<rparr>)"

text \<open>A write of \<open>bs\<close> into \<open>cap\<close> octets.\<close>

definition mem_write :: "nat \<Rightarrow> byte list \<Rightarrow> byte list run" where
  "mem_write cap bs = (if length bs \<le> cap then Ret bs else Fault)"

text \<open>
  \<^verbatim>\<open>nmsg_container_serialize\<close>: allocation 0 is the output buffer (\<open>cap\<close> octets), 1 the array
  of checksums, 2 the uncompressed copy, 3 the compressor. The header is written first, its
  length field last.
\<close>

definition nmsg_container_serialize ::
  "pbc \<Rightarrow> zlib \<Rightarrow> (nat \<Rightarrow> bool) \<Rightarrow> nmsg_container \<Rightarrow> bool \<Rightarrow> bool \<Rightarrow> u32 \<Rightarrow> u64 \<Rightarrow>
     ((nmsg_res + byte list) \<times> nmsg_container) run" where
  "nmsg_container_serialize pb z ok c do_header do_zlib seq seq_id =
     (if \<not> ok 0 then Ret (Inl nmsg_res_memfail, c)
      else
        let cap = (if do_zlib then 2 * c_estsz c else c_estsz c);
            hdrsz = (if do_header then NMSG_HDRLSZ_V2 else 0);
            flags = (if do_zlib then NMSG_FLAG_ZLIB else 0);
            c' = (if c_do_sequence c
                  then c\<lparr>c_sequence := Some seq, c_sequence_id := Some seq_id\<rparr> else c)
        in if cap < hdrsz then Fault
        else run_bind (container_nmsg c') (\<lambda>nc0.
             run_bind (nmsg_payload_calc_crcs (ok 1) nc0) (\<lambda>nc.
             let packed = nmsg__nmsg__pack pb nc;
                 finish = (\<lambda>body. Ret (Inr ((if do_header
                     then header_serialize flags (of_nat (length body)) else []) @ body), c'))
             in if \<not> do_zlib then run_bind (mem_write (cap - hdrsz) packed) finish
             else if \<not> ok 2 \<or> \<not> ok 3 then Ret (Inl nmsg_res_memfail, c')
             else run_bind (mem_write (c_estsz c) packed) (\<lambda>zb_tmp.
                  run_bind (nmsg_zbuf_deflate z zb_tmp (2 * c_estsz c) (cap - hdrsz)) finish))))"

section \<open>Deserialising\<close>

text \<open>
  \<^verbatim>\<open>_input_nmsg_unpack_container2\<close> of input_nmsg.c: \<open>buf_len\<close> octets at the head of \<open>mem\<close>;
  allocation 0 is the decompressor, 1 its output.
\<close>

definition input_nmsg_unpack_container2 ::
  "pbc \<Rightarrow> zlib \<Rightarrow> (nat \<Rightarrow> bool) \<Rightarrow> byte list \<Rightarrow> nat \<Rightarrow> byte \<Rightarrow> (nmsg_res + nmsg_nmsg) run" where
  "input_nmsg_unpack_container2 pb z ok mem buf_len flags =
     (if flag_set flags NMSG_FLAG_FRAGMENT then Ret (Inl nmsg_res_failure)
      else if flag_set flags NMSG_FLAG_ZLIB then
        if \<not> ok 0 then Ret (Inl nmsg_res_memfail)
        else run_bind (nmsg_zbuf_inflate z (ok 1) [] buf_len mem) (\<lambda>(res, _).
          case res of
            Inl e \<Rightarrow> Ret (Inl e)
          | Inr u_buf \<Rightarrow> (case nmsg__nmsg__unpack pb u_buf of
                None \<Rightarrow> Ret (Inl nmsg_res_failure) | Some nmsg \<Rightarrow> Ret (Inr nmsg)))
      else run_bind (mem_read mem 0 buf_len) (\<lambda>buf.
        case nmsg__nmsg__unpack pb buf of
          None \<Rightarrow> Ret (Inl nmsg_res_failure) | Some nmsg \<Rightarrow> Ret (Inr nmsg)))"

text \<open>
  The conversion loop of \<^verbatim>\<open>nmsg_container_deserialize\<close>: one message object per payload;
  \<open>None\<close> when an allocation fails (\<open>i\<close> is the index of the next one).
\<close>

fun messages_from_payloads ::
  "(u32 \<Rightarrow> u32 \<Rightarrow> nmsg_msgmod option) \<Rightarrow> (nat \<Rightarrow> bool) \<Rightarrow> nat \<Rightarrow> nmsg_payload list \<Rightarrow>
     nmsg_message list option" where
  "messages_from_payloads lookup ok i [] = Some []"
| "messages_from_payloads lookup ok i (p # ps) =
     (case nmsg_message_from_payload lookup (ok i) p of
        None \<Rightarrow> None
      | Some m \<Rightarrow> map_option (Cons m) (messages_from_payloads lookup ok (i + 1) ps))"

text \<open>
  \<^verbatim>\<open>nmsg_container_deserialize\<close> on \<open>buf_len\<close> octets at the head of the memory \<open>mem\<close>.
  \<^verbatim>\<open>buf_len -= 10\<close> is an unsigned subtraction; a length below 10 becomes a huge one, which no
  32-bit container size equals.
\<close>

definition nmsg_container_deserialize ::
  "pbc \<Rightarrow> zlib \<Rightarrow> (u32 \<Rightarrow> u32 \<Rightarrow> nmsg_msgmod option) \<Rightarrow> (nat \<Rightarrow> bool) \<Rightarrow> byte list \<Rightarrow> nat \<Rightarrow>
     (nmsg_res + nmsg_message list) run" where
  "nmsg_container_deserialize pb z lookup ok mem buf_len =
     run_bind (input_nmsg_deserialize_header mem buf_len) (\<lambda>hdr.
       case hdr of
         Inl e \<Rightarrow> Ret (Inl e)
       | Inr (msgsize, flags) \<Rightarrow>
           if int msgsize \<noteq> int buf_len - int NMSG_HDRLSZ_V2 then Ret (Inl nmsg_res_failure)
           else run_bind
             (input_nmsg_unpack_container2 pb z ok (drop NMSG_HDRLSZ_V2 mem) msgsize flags) (\<lambda>res.
               case res of
                 Inl e \<Rightarrow> Ret (Inl e)
               | Inr nmsg \<Rightarrow>
                   if \<not> ok 2 then Ret (Inl nmsg_res_memfail)
                   else (case messages_from_payloads lookup ok 3 (payloads nmsg) of
                       None \<Rightarrow> Ret (Inl nmsg_res_memfail)
                     | Some ms \<Rightarrow> Ret (Inr ms))))"

section \<open>The size estimate\<close>

text \<open>
  The invariant of a container filled by \<^verbatim>\<open>nmsg_container_add\<close> with payloads of less than two
  mebibytes.
\<close>

definition small_payload :: "nmsg_payload \<Rightarrow> bool" where
  "small_payload p \<longleftrightarrow> length (opt_bytes (payload p)) < 2 ^ 21"

definition container_wf :: "pbc \<Rightarrow> nmsg_container \<Rightarrow> bool" where
  "container_wf pb c \<longleftrightarrow>
     None \<notin> set (c_payloads c) \<and> (\<forall>p. Some p \<in> set (c_payloads c) \<longrightarrow> small_payload p) \<and>
     c_estsz c = NMSG_HDRLSZ_V2 +
       (\<Sum>p\<leftarrow>map the (c_payloads c). estsz_step (c_do_sequence c) (nmsg_payload_size pb p)) \<and>
     (c_do_sequence c \<or> c_sequence c = None \<and> c_sequence_id c = None)"

lemma container_wf_init:
  "nmsg_container_init ok bufsz = Some c \<Longrightarrow>
     container_wf pb (nmsg_container_set_sequence c b) \<and> c_payloads c = [] \<and> c_bufsz c = bufsz"
  by (auto simp: nmsg_container_init_def container_wf_def nmsg_container_set_sequence_def
      split: if_splits)

lemma payload_wire_size_lower: "11 \<le> payload_wire_size p"
  using varint_size_pos [of "unat (vid p)"] varint_size_pos [of "unat (msgtype p)"]
    varint_size_pos [of "unat (time_sec p)"]
  unfolding payload_wire_size_def by linarith

lemma opt_size_u32: "opt_size (\<lambda>v::u32. 1 + varint_size (unat v)) x \<le> 6"
  using varint_size_u32 by (cases x) auto

lemma opt_size_u64: "opt_size (\<lambda>v::u64. 1 + varint_size (unat v)) x \<le> 11"
  using varint_size_u64 by (cases x) auto

lemma payload_wire_size_small:
  assumes "small_payload p"
  shows "payload_wire_size p < 2 ^ 28"
proof -
  have "opt_size (\<lambda>bs. 1 + varint_size (length bs) + length bs) (payload p) \<le> 4 + 2 ^ 21"
    using assms varint_size_le [of "length (the (payload p))" 3]
    by (cases "payload p") (auto simp: small_payload_def)
  then show ?thesis
    using varint_size_u32 [of "vid p"] varint_size_u32 [of "msgtype p"]
      varint_size_u64 [of "time_sec p"] opt_size_u32 [of "source p"]
      opt_size_u32 [of "operator' p"] opt_size_u32 [of "group p"]
    unfolding payload_wire_size_def by simp
qed

text \<open>One payload, its tag, its length and its checksum fit the step of the estimate.\<close>

lemma estsz_step_covers:
  fixes crc :: u32
  assumes "n < 2 ^ 28"
  shows "1 + varint_size n + n + (1 + varint_size (unat crc)) + (if sq then 17 else 0)
    \<le> estsz_step sq n"
proof -
  consider "n < 2 ^ 7" | "2 ^ 7 \<le> n" "n < 2 ^ 14" | "2 ^ 14 \<le> n" "n < 2 ^ 21" | "2 ^ 21 \<le> n"
    by linarith
  then show ?thesis
    using varint_size_u32 [of crc] assms
    by cases (auto simp: estsz_step_def varint_size_steps)
qed

lemma sum_list_map_le:
  "(\<And>x. x \<in> set xs \<Longrightarrow> f x + k \<le> (g x :: nat)) \<Longrightarrow> (\<Sum>x\<leftarrow>xs. f x) + k * length xs \<le> (\<Sum>x\<leftarrow>xs. g x)"
proof (induction xs)
  case (Cons x xs)
  have "f x + k \<le> g x" by (rule Cons.prems) simp
  moreover have "(\<Sum>x\<leftarrow>xs. f x) + k * length xs \<le> (\<Sum>x\<leftarrow>xs. g x)"
    using Cons.prems by (intro Cons.IH) simp
  ultimately show ?case by simp
qed simp

lemma container_nmsg_wf:
  assumes "container_wf pb c"
  shows "container_nmsg c = Ret \<lparr>payloads = map the (c_payloads c), payload_crcs = [],
    sequence = c_sequence c, sequence_id = c_sequence_id c\<rparr>"
  using assms by (simp add: container_nmsg_def container_wf_def)

lemma container_wf_small:
  assumes "container_wf pb c" and "p \<in> set (map the (c_payloads c))"
  shows "small_payload p"
proof -
  obtain x where x: "x \<in> set (c_payloads c)" "p = the x" using assms(2) by auto
  moreover have "x \<noteq> None" using assms(1) x(1) unfolding container_wf_def by metis
  ultimately have "Some p \<in> set (c_payloads c)" by auto
  then show ?thesis using assms(1) unfolding container_wf_def by blast
qed

lemma nmsg_wire_size_estsz:
  assumes wf: "container_wf pb c" and pb: "pb_sizes pb"
    and ne: "c_payloads c \<noteq> [] \<or> \<not> c_do_sequence c"
  shows "nmsg_wire_size \<lparr>payloads = map the (c_payloads c),
      payload_crcs = map payload_crc (map the (c_payloads c)),
      sequence = (if c_do_sequence c then Some s else c_sequence c),
      sequence_id = (if c_do_sequence c then Some i else c_sequence_id c)\<rparr> + 10 \<le> c_estsz c"
proof -
  define ps where "ps = map the (c_payloads c)"
  define sq where "sq = c_do_sequence c"
  define k where "k = (if sq then 17 else 0 :: nat)"
  have step: "1 + varint_size (payload_wire_size p) + payload_wire_size p +
      (1 + varint_size (unat (payload_crc p))) + k \<le> estsz_step sq (nmsg_payload_size pb p)"
    if "p \<in> set ps" for p
  proof -
    have sp: "small_payload p"
      using container_wf_small [OF wf] that by (simp add: ps_def)
    then have "nmsg_payload_size pb p = payload_wire_size p"
      by (intro nmsg_payload_size_exact pb) (simp add: small_payload_def)
    with estsz_step_covers [OF payload_wire_size_small [OF sp], of "payload_crc p" sq]
    show ?thesis by (simp add: k_def)
  qed
  have "(\<Sum>p\<leftarrow>ps. 1 + varint_size (payload_wire_size p) + payload_wire_size p +
      (1 + varint_size (unat (payload_crc p)))) + k * length ps
    \<le> (\<Sum>p\<leftarrow>ps. estsz_step sq (nmsg_payload_size pb p))"
    by (rule sum_list_map_le) (rule step)
  moreover have "opt_size (\<lambda>v. 1 + varint_size (unat v)) (if sq then Some s else c_sequence c) +
      opt_size (\<lambda>v. 1 + varint_size (unat v)) (if sq then Some i else c_sequence_id c)
      \<le> k * length ps"
  proof (cases sq)
    case True
    then have "1 \<le> length ps" using ne by (cases "c_payloads c") (auto simp: ps_def sq_def)
    then have "17 \<le> k * length ps" using True by (simp add: k_def)
    with True show ?thesis using varint_size_u32 [of s] varint_size_u64 [of i] by simp
  next
    case False
    with wf show ?thesis by (simp add: sq_def container_wf_def)
  qed
  moreover have "c_estsz c = 10 + (\<Sum>p\<leftarrow>ps. estsz_step sq (nmsg_payload_size pb p))"
    using wf by (simp add: container_wf_def ps_def sq_def)
  moreover have "(\<Sum>p\<leftarrow>ps. 1 + varint_size (payload_wire_size p) + payload_wire_size p +
      (1 + varint_size (unat (payload_crc p)))) =
    (\<Sum>p\<leftarrow>ps. 1 + varint_size (payload_wire_size p) + payload_wire_size p) +
    (\<Sum>p\<leftarrow>map payload_crc ps. 1 + varint_size (unat p))"
    by (simp only: sum_list_addf map_map comp_def)
  ultimately show ?thesis
    by (simp only: nmsg_wire_size_def nmsg_nmsg.simps ps_def [symmetric] sq_def [symmetric])
qed

section \<open>Adding\<close>

text \<open>The message that \<^verbatim>\<open>nmsg_container_add\<close> is given carries less than two mebibytes.\<close>

definition small_message :: "nmsg_message \<Rightarrow> bool" where
  "small_message msg \<longleftrightarrow>
     length (opt_bytes (message msg)) < 2 ^ 21 \<and> (\<forall>p. np msg = Some p \<longrightarrow> small_payload p)"

lemma nmsg_message_serialize_small:
  assumes "message_ok msg" and "small_message msg"
    and "nmsg_message_serialize ok ts msg = Ret (nmsg_res_success, msg')"
  shows "\<exists>p. np msg' = Some p \<and> small_payload p"
  using assms
  by (auto simp: nmsg_message_serialize_def nmsg_message_init_payload_def message_ok_def
      small_message_def small_payload_def split: option.splits if_splits)

lemma nmsg_container_add_eq:
  assumes "nmsg_message_serialize ok ts msg = Ret (nmsg_res_success, m)" and "np m = Some p"
  shows "nmsg_container_add pb ok ts c msg =
    (if c_estsz c \<noteq> NMSG_HDRLSZ_V2 \<and> c_bufsz c \<le> c_estsz c + nmsg_payload_size pb p + 32
     then Ret (nmsg_res_container_full, c, m)
     else if \<not> ok 2 then Ret (nmsg_res_memfail, c\<lparr>c_payloads := c_payloads c @ [None]\<rparr>, m)
     else Ret (if c_bufsz c < c_estsz c + estsz_step (c_do_sequence c) (nmsg_payload_size pb p)
               then nmsg_res_container_overfull else nmsg_res_success,
            c\<lparr>c_payloads := c_payloads c @ [Some p],
              c_estsz := c_estsz c + estsz_step (c_do_sequence c) (nmsg_payload_size pb p)\<rparr>,
            m\<lparr>np := None\<rparr>))"
  using assms by (simp add: nmsg_container_add_def Let_def)

lemma nmsg_container_add_cases:
  assumes "message_ok msg" and "nmsg_container_add pb ok ts c msg = Ret (res, c', msg')"
  obtains "res \<in> {nmsg_res_memfail, nmsg_res_container_full}" "c' = c"
  | "res = nmsg_res_memfail" "c' = c\<lparr>c_payloads := c_payloads c @ [None]\<rparr>"
  | p msg1 where "nmsg_message_serialize ok ts msg = Ret (nmsg_res_success, msg1)"
      "np msg1 = Some p" "msg' = msg1\<lparr>np := None\<rparr>"
      "c_estsz c = NMSG_HDRLSZ_V2 \<or> c_estsz c + nmsg_payload_size pb p + 32 < c_bufsz c"
      "c' = c\<lparr>c_payloads := c_payloads c @ [Some p],
         c_estsz := c_estsz c + estsz_step (c_do_sequence c) (nmsg_payload_size pb p)\<rparr>"
      "res = (if c_bufsz c' < c_estsz c' then nmsg_res_container_overfull else nmsg_res_success)"
proof -
  from message_serialize_total [OF assms(1), of ok ts]
  consider m where "nmsg_message_serialize ok ts msg = Ret (nmsg_res_memfail, m)"
    | m p where "nmsg_message_serialize ok ts msg = Ret (nmsg_res_success, m)" "np m = Some p"
    by blast
  then show ?thesis
  proof cases
    case 1
    with assms(2) have "res = nmsg_res_memfail" "c' = c" by (auto simp: nmsg_container_add_def)
    with that(1) show ?thesis by simp
  next
    case 2
    note add = assms(2) [unfolded nmsg_container_add_eq [OF 2]]
    show ?thesis
    proof (cases "c_estsz c \<noteq> NMSG_HDRLSZ_V2 \<and>
        c_bufsz c \<le> c_estsz c + nmsg_payload_size pb p + 32")
      case True
      with add that(1) show ?thesis by simp
    next
      case False
      show ?thesis
      proof (cases "ok 2")
        case True
        with add False show ?thesis by (intro that(3) [OF 2]) (auto split: if_splits)
      qed (use add False that(2) in simp)
    qed
  qed
qed

lemma container_wf_add:
  assumes wf: "container_wf pb c" and msg: "message_ok msg" "small_message msg"
    and add: "nmsg_container_add pb ok ts c msg = Ret (res, c', msg')" and res: "res \<noteq> nmsg_res_memfail"
  shows "container_wf pb c'"
  using msg(1) add
proof (cases rule: nmsg_container_add_cases)
  case (3 p msg1)
  then have "small_payload p"
    using nmsg_message_serialize_small [OF msg 3(1)] by simp
  then show ?thesis
    using wf by (auto simp: container_wf_def 3(5))
qed (use wf res in auto)

text \<open>
  A message offered to a container is, on success or \<^verbatim>\<open>container_overfull\<close>, appended as its
  last payload and taken out of the message; \<^verbatim>\<open>container_full\<close> leaves the container unchanged,
  and is only answered by a container that already holds something. The answer is success exactly
  when the estimate still fits the buffer size.
\<close>

theorem container_add_outcomes:
  assumes "container_wf pb c" and "message_ok msg" and "small_message msg" and "\<forall>i. ok i"
  shows "\<exists>res c' msg'. nmsg_container_add pb ok ts c msg = Ret (res, c', msg') \<and>
    container_wf pb c' \<and> c_bufsz c' = c_bufsz c \<and> c_do_sequence c' = c_do_sequence c \<and>
    (res = nmsg_res_container_full \<and> c' = c \<and> c_payloads c \<noteq> [] \<or>
     res = nmsg_res_success \<and> c_estsz c' \<le> c_bufsz c \<and> np msg' = None \<and>
       (\<exists>p. c_payloads c' = c_payloads c @ [Some p]) \<or>
     res = nmsg_res_container_overfull \<and> c_bufsz c < c_estsz c' \<and> np msg' = None \<and>
       (\<exists>p. c_payloads c' = c_payloads c @ [Some p]))"
proof -
  obtain m p where m: "nmsg_message_serialize ok ts msg = Ret (nmsg_res_success, m)" "np m = Some p"
    using message_serialize_ok [OF assms(2), of ok ts] assms(4) by blast
  note eq = nmsg_container_add_eq [OF m, of pb c]
  then obtain res c' msg' where r: "nmsg_container_add pb ok ts c msg = Ret (res, c', msg')"
    and nomem: "res \<noteq> nmsg_res_memfail"
    using assms(4) by (simp split: if_splits)
  have wf': "container_wf pb c'"
    by (rule container_wf_add [OF assms(1-3) r nomem])
  have full: "c_payloads c \<noteq> []" if "c_estsz c \<noteq> NMSG_HDRLSZ_V2"
    using that assms(1) by (auto simp: container_wf_def)
  show ?thesis
    using r wf' full assms(4) unfolding eq by (auto split: if_splits)
qed

section \<open>Serialising stays inside the buffers\<close>

definition container_image :: "nmsg_container \<Rightarrow> u32 \<Rightarrow> u64 \<Rightarrow> nmsg_nmsg" where
  "container_image c s i =
     \<lparr>payloads = map the (c_payloads c), payload_crcs = map payload_crc (map the (c_payloads c)),
      sequence = (if c_do_sequence c then Some s else c_sequence c),
      sequence_id = (if c_do_sequence c then Some i else c_sequence_id c)\<rparr>"

definition container_body :: "pbc \<Rightarrow> zlib \<Rightarrow> nmsg_container \<Rightarrow> bool \<Rightarrow> u32 \<Rightarrow> u64 \<Rightarrow> byte list" where
  "container_body pb z c do_zlib s i =
     (let packed = nmsg__nmsg__pack pb (container_image c s i) in
      if do_zlib then store_net32 (of_nat (length packed)) @ deflate z packed else packed)"

definition container_sequenced :: "nmsg_container \<Rightarrow> u32 \<Rightarrow> u64 \<Rightarrow> nmsg_container" where
  "container_sequenced c s i =
     (if c_do_sequence c then c\<lparr>c_sequence := Some s, c_sequence_id := Some i\<rparr> else c)"

lemma compressBound_le: "10 \<le> m \<Longrightarrow> n + 10 \<le> m \<Longrightarrow> 15 \<le> n \<Longrightarrow> 14 + compressBound n \<le> 2 * m"
proof -
  assume a: "10 \<le> m" "n + 10 \<le> m" "15 \<le> n"
  have "n div 2 ^ 12 + n div 2 ^ 14 + n div 2 ^ 25 + 7 \<le> n"
    using a(3) by simp
  with a show ?thesis unfolding compressBound_def by linarith
qed

lemma nmsg_wire_size_lower:
  assumes "container_wf pb c" and "c_payloads c \<noteq> []"
  shows "15 \<le> nmsg_wire_size (container_image c s i)"
proof -
  obtain p ps where "map the (c_payloads c) = p # ps"
    using assms(2) by (cases "c_payloads c") auto
  moreover have "15 \<le> (1 + varint_size (payload_wire_size p) + payload_wire_size p + x) +
      (1 + varint_size (unat (payload_crc p)) + y)" for x y
    using payload_wire_size_lower [of p] varint_size_pos [of "payload_wire_size p"]
      varint_size_pos [of "unat (payload_crc p)"] by linarith
  ultimately show ?thesis
    unfolding nmsg_wire_size_def container_image_def nmsg_nmsg.simps
    by (simp only: list.map sum_list.Cons) (rule trans_le_add1, rule trans_le_add1)
qed

lemma container_body_safe:
  assumes wf: "container_wf pb c" and pb: "pb_sizes pb" and z: "zlib_bound z"
    and ne: "c_payloads c \<noteq> []"
  shows "length (nmsg__nmsg__pack pb (container_image c s i)) + 10 \<le> c_estsz c"
    and "length (container_body pb z c True s i) + 10 \<le> 2 * c_estsz c"
proof -
  let ?n = "length (nmsg__nmsg__pack pb (container_image c s i))"
  have l: "?n = nmsg_wire_size (container_image c s i)"
    using pb by (simp add: pb_sizes_def)
  have "nmsg_wire_size (container_image c s i) + 10 \<le> c_estsz c"
    using nmsg_wire_size_estsz [OF wf pb, of s i] ne by (simp add: container_image_def)
  then show e: "?n + 10 \<le> c_estsz c" by (simp add: l)
  have "14 + compressBound ?n \<le> 2 * c_estsz c"
    using e nmsg_wire_size_lower [OF wf ne, of s i] unfolding l [symmetric]
    by (intro compressBound_le) auto
  moreover have "length (deflate z (nmsg__nmsg__pack pb (container_image c s i))) \<le> compressBound ?n"
    using z by (simp add: zlib_bound_def)
  ultimately show "length (container_body pb z c True s i) + 10 \<le> 2 * c_estsz c"
    by (simp add: container_body_def Let_def)
qed

lemma nmsg_container_serialize_eq:
  assumes wf: "container_wf pb c" and pb: "pb_sizes pb" and z: "zlib_bound z"
    and ne: "c_payloads c \<noteq> []" and ok: "\<forall>i. ok i"
  shows "nmsg_container_serialize pb z ok c do_header do_zlib s i =
    Ret (Inr ((if do_header then header_serialize (if do_zlib then NMSG_FLAG_ZLIB else 0)
                 (of_nat (length (container_body pb z c do_zlib s i))) else []) @
              container_body pb z c do_zlib s i), container_sequenced c s i)"
proof -
  have wf': "container_wf pb (container_sequenced c s i)"
    using wf by (auto simp: container_wf_def container_sequenced_def)
  have nc: "container_nmsg (container_sequenced c s i) =
      Ret ((container_image c s i)\<lparr>payload_crcs := []\<rparr>)"
    using container_nmsg_wf [OF wf']
    by (auto simp: container_sequenced_def container_image_def)
  have crc: "nmsg_payload_calc_crcs True ((container_image c s i)\<lparr>payload_crcs := []\<rparr>) =
      Ret (container_image c s i)"
    by (simp add: nmsg_payload_calc_crcs_def container_image_def)
  note safe = container_body_safe [OF wf pb z ne, of s i]
  show ?thesis
  proof (cases do_zlib)
    case False
    have "length (nmsg__nmsg__pack pb (container_image c s i)) \<le> c_estsz c - 10"
      using safe(1) by simp
    with False safe ok nc crc show ?thesis
      by (simp add: nmsg_container_serialize_def container_body_def Let_def mem_write_def
          container_sequenced_def [symmetric])
  next
    case True
    with safe ok nc crc show ?thesis
      by (cases do_header) (simp_all add: nmsg_container_serialize_def container_body_def Let_def
          mem_write_def nmsg_zbuf_deflate_def container_sequenced_def [symmetric])
  qed
qed

text \<open>
  C24. Serialising a container filled by \<^verbatim>\<open>nmsg_container_add\<close> with payloads below two mebibytes
  never writes outside its buffers, compressed or not; and an uncompressed container whose
  last addition reported success is, header included, no longer than the configured buffer size.
  Larger payloads are excluded because with them it does (\<open>container_serialize_overflow\<close> below).
\<close>

theorem container_serialize_safe:
  assumes "container_wf pb c" and "c_payloads c \<noteq> []" and "pb_sizes pb" and "zlib_bound z"
    and "\<forall>i. ok i"
  shows "\<exists>buf c'. nmsg_container_serialize pb z ok c do_header do_zlib s i = Ret (Inr buf, c') \<and>
    length buf \<le> (if do_zlib then 2 * c_estsz c else c_estsz c) \<and>
    (c_estsz c \<le> c_bufsz c \<and> \<not> do_zlib \<longrightarrow> length buf \<le> c_bufsz c)"
  using nmsg_container_serialize_eq [OF assms(1,3,4,2,5), of do_header do_zlib s i]
    container_body_safe [OF assms(1,3,4,2), of s i]
  by (auto simp: container_body_def Let_def)

section \<open>Round trip\<close>

lemma map_Some_the: "None \<notin> set xs \<Longrightarrow> map (Some \<circ> the) xs = xs"
  by (induction xs) auto

lemma messages_from_payloads_ok:
  "(\<And>i. ok i) \<Longrightarrow> messages_from_payloads lookup ok i ps =
     Some (map (\<lambda>p. \<lparr>msg_mod = lookup (vid p) (msgtype p), message = None, np = Some p,
       updated = False\<rparr>) ps)"
  by (induction ps arbitrary: i) (simp_all add: nmsg_message_from_payload_def)

lemma unpack_container2_body:
  assumes "pb_roundtrip pb" and "zlib_roundtrip z" and "\<forall>i. ok i"
    and "length (nmsg__nmsg__pack pb (container_image c s i)) < 2 ^ 32"
  shows "input_nmsg_unpack_container2 pb z ok (container_body pb z c do_zlib s i @ rest)
    (length (container_body pb z c do_zlib s i)) (if do_zlib then NMSG_FLAG_ZLIB else 0) =
    Ret (Inr (container_image c s i))"
proof (cases do_zlib)
  case True
  with nmsg_zbuf_inflate_deflate [OF assms(2,4) refl, of rest] assms(1,3) show ?thesis
    by (simp add: input_nmsg_unpack_container2_def container_body_def Let_def pb_roundtrip_def)
next
  case False
  with assms(1) show ?thesis
    by (simp add: input_nmsg_unpack_container2_def container_body_def mem_read_def pb_roundtrip_def)
qed

lemma container_deserialize_body:
  fixes s :: u32 and i :: u64 and do_zlib :: bool
  assumes "container_wf pb c" and "c_payloads c \<noteq> []" and "c_estsz c < 2 ^ 31"
    and "pb_sizes pb" and "pb_roundtrip pb" and "zlib_bound z" and "zlib_roundtrip z"
    and "\<forall>i. ok i"
  defines "body \<equiv> container_body pb z c do_zlib s i"
  defines "buf \<equiv> header_serialize (if do_zlib then NMSG_FLAG_ZLIB else 0) (of_nat (length body)) @ body"
  shows "nmsg_container_deserialize pb z lookup ok buf (length buf) =
    Ret (Inr (map (\<lambda>p. \<lparr>msg_mod = lookup (vid p) (msgtype p), message = None, np = Some p,
       updated = False\<rparr>) (map the (c_payloads c))))"
proof -
  let ?f = "if do_zlib then NMSG_FLAG_ZLIB else 0"
  note safe = container_body_safe [OF assms(1,4,6,2), of s i]
  have n: "length (nmsg__nmsg__pack pb (container_image c s i)) < 2 ^ 32"
    using safe(1) assms(3) by simp
  have b: "length body < 2 ^ 32"
    using safe assms(3) by (cases do_zlib) (auto simp: body_def container_body_def Let_def)
  have all_ok: "ok = (\<lambda>_. True)" using assms(8) by auto
  have pl: "payloads (container_image c s i) = map the (c_payloads c)"
    by (simp add: container_image_def)
  show ?thesis
    using unpack_container2_body [OF assms(5,7,8) n, of do_zlib "[]"] all_ok
      deserialize_header_serialize [of "length buf" ?f "of_nat (length body)" body]
    unfolding body_def [symmetric] buf_def
    by (simp add: nmsg_container_deserialize_def unat_of_nat_u32 [OF b] messages_from_payloads_ok
        pl split del: if_split)
qed

text \<open>
  C13. What \<^verbatim>\<open>nmsg_container_serialize\<close> writes with a header, compressed or not,
  \<^verbatim>\<open>nmsg_container_deserialize\<close> turns back into one message per payload, in order, with the
  payloads unchanged.
\<close>

theorem container_roundtrip:
  assumes "container_wf pb c" and "c_payloads c \<noteq> []" and "c_estsz c < 2 ^ 31"
    and "pb_sizes pb" and "pb_roundtrip pb" and "zlib_bound z" and "zlib_roundtrip z"
    and "\<forall>i. ok i"
  shows "\<exists>buf c' ms. nmsg_container_serialize pb z ok c True do_zlib s i = Ret (Inr buf, c') \<and>
    nmsg_container_deserialize pb z lookup ok buf (length buf) = Ret (Inr ms) \<and>
    map np ms = c_payloads c \<and>
    (\<forall>m \<in> set ms. message m = None \<and> msg_mod m = lookup (vid (the (np m))) (msgtype (the (np m))))"
proof -
  have id: "map (Some \<circ> the) (c_payloads c) = c_payloads c"
    using assms(1) by (intro map_Some_the) (simp add: container_wf_def)
  show ?thesis
    using nmsg_container_serialize_eq [OF assms(1,4,6,2,8), of True do_zlib s i]
      container_deserialize_body [OF assms, of lookup do_zlib s i] id
    by (intro exI conjI) (auto simp: comp_def)
qed

section \<open>Where the estimate is too small\<close>

lemma varint_size_5: "2 ^ 28 \<le> n \<Longrightarrow> \<not> varint_size n \<le> 4"
proof -
  assume a: "2 ^ 28 \<le> n"
  have "\<not> n < 128" "\<not> n div 128 < 128" "\<not> n div 128 div 128 < 128"
    "\<not> n div 128 div 128 div 128 < 128"
    using a by (simp_all add: div_less_iff_less_mult)
  then have "varint_size n = 4 + varint_size (n div 128 div 128 div 128 div 128)"
    by (simp add: varint_size.simps [of n] varint_size.simps [of "n div 128"]
        varint_size.simps [of "n div 128 div 128"] varint_size.simps [of "n div 128 div 128 div 128"])
  then show ?thesis using varint_size_pos [of "n div 128 div 128 div 128 div 128"] by linarith
qed

lemma nmsg_container_serialize_overflow:
  assumes "ok 0" and "ok 1" and "None \<notin> set (c_payloads c)" and "pb_sizes pb"
    and "c_estsz c < nmsg_wire_size (container_image c s i) + 10" and "10 \<le> c_estsz c"
  shows "nmsg_container_serialize pb z ok c True False s i = Fault"
proof -
  have nc: "container_nmsg (container_sequenced c s i) =
      Ret ((container_image c s i)\<lparr>payload_crcs := []\<rparr>)"
    using assms(3) by (simp add: container_nmsg_def container_sequenced_def container_image_def)
  have crc: "nmsg_payload_calc_crcs True ((container_image c s i)\<lparr>payload_crcs := []\<rparr>) =
      Ret (container_image c s i)"
    by (simp add: nmsg_payload_calc_crcs_def container_image_def)
  have "\<not> length (nmsg__nmsg__pack pb (container_image c s i)) \<le> c_estsz c - 10"
    using assms(4-6) by (simp add: pb_sizes_def)
  with assms(1,2,6) nc crc show ?thesis
    by (simp add: nmsg_container_serialize_def Let_def mem_write_def
        container_sequenced_def [symmetric])
qed

text \<open>
  The size estimate does not count the fourth octet of a payload's length: a container
  holding one payload of two mebibytes or more, whose checksum needs a five-octet varint, is
  packed one octet past the end of its buffer.
\<close>

theorem container_serialize_overflow:
  assumes c: "nmsg_container_init (\<lambda>_. True) bufsz = Some c"
    and p: "payload p = Some bs" "2 ^ 21 \<le> length bs" "length bs < 2 ^ 27"
    and crc: "2 ^ 28 \<le> unat (payload_crc p)"
    and pb: "pb_sizes pb" and ok: "\<forall>i. ok i"
  shows "\<exists>res c' msg'. nmsg_container_add pb ok ts c
      \<lparr>msg_mod = None, message = None, np = Some p, updated = False\<rparr> = Ret (res, c', msg') \<and>
      res \<in> {nmsg_res_success, nmsg_res_container_overfull} \<and>
      nmsg_container_serialize pb z ok c' True False s i = Fault"
proof -
  let ?n = "nmsg_payload_size pb p"
  define c' where "c' = c\<lparr>c_payloads := [Some p], c_estsz := 10 + estsz_step False ?n\<rparr>"
  have c0: "c_payloads c = []" "c_estsz c = 10" "\<not> c_do_sequence c" "c_sequence c = None"
    "c_sequence_id c = None"
    using c by (auto simp: nmsg_container_init_def split: if_splits)
  have sz: "?n + 1 = payload_wire_size p"
    using p by (intro nmsg_payload_size_short [OF pb]) auto
  have big: "2 ^ 21 + 1 \<le> payload_wire_size p"
    using p(1,2) by (simp add: payload_wire_size_def)
  have small: "payload_wire_size p < 2 ^ 28"
    using p(1,3) varint_size_le [of "length bs" 4] varint_size_u32 [of "vid p"]
      varint_size_u32 [of "msgtype p"] varint_size_u64 [of "time_sec p"] opt_size_u32 [of "source p"]
      opt_size_u32 [of "operator' p"] opt_size_u32 [of "group p"]
    by (simp add: payload_wire_size_def)
  have "\<not> varint_size (unat (payload_crc p)) \<le> 4"
    using crc varint_size_5 by simp
  then have "nmsg_wire_size (container_image c' s i) \<ge> payload_wire_size p + 11"
    using big small c0 by (simp add: nmsg_wire_size_def container_image_def c'_def varint_size_steps)
  moreover have "c_estsz c' = 20 + payload_wire_size p"
    using sz big by (simp add: c'_def estsz_step_def)
  ultimately have "nmsg_container_serialize pb z ok c' True False s i = Fault"
    using ok pb by (intro nmsg_container_serialize_overflow) (auto simp: c'_def)
  moreover have "nmsg_message_serialize ok ts
      \<lparr>msg_mod = None, message = None, np = Some p, updated = False\<rparr> =
      Ret (nmsg_res_success, \<lparr>msg_mod = None, message = None, np = Some p, updated = False\<rparr>)"
    by (simp add: nmsg_message_serialize_def)
  ultimately show ?thesis
    using c0 ok by (subst nmsg_container_add_eq) (auto simp: c'_def)
qed

section \<open>Witnesses\<close>

definition sample_payload :: nmsg_payload where
  "sample_payload = \<lparr>vid = 1, msgtype = 9, time_sec = 5, time_nsec = 0, payload = Some [1, 2, 3],
     source = None, operator' = None, group = Some 7\<rparr>"

definition sample_container :: nmsg_container where
  "sample_container = \<lparr>c_payloads = [Some sample_payload, Some sample_payload],
     c_sequence = None, c_sequence_id = None, c_bufsz = 512, c_estsz = 98, c_do_sequence = True\<rparr>"

lemma sample_payload_size: "nmsg_payload_size ref_pb sample_payload = 18"
  by (simp add: nmsg_payload_size_exact sample_payload_def payload_wire_size_def varint_size_steps)

lemma sample_container_wf: "container_wf ref_pb sample_container"
  by (auto simp: container_wf_def sample_container_def sample_payload_size estsz_step_def
      small_payload_def) (simp add: sample_payload_def)

definition sample_payload_message :: nmsg_message where
  "sample_payload_message =
     \<lparr>msg_mod = None, message = None, np = Some sample_payload, updated = False\<rparr>"

lemma sample_payload_message_ok:
  "message_ok sample_payload_message" "small_message sample_payload_message"
  by (simp_all add: message_ok_def small_message_def small_payload_def sample_payload_message_def
      sample_payload_def)

theorem container_add_outcomes_witness:
  "\<exists>res c' msg'. nmsg_container_add ref_pb (\<lambda>_. True) \<lparr>tv_sec = 0, tv_nsec = 0\<rparr>
      sample_container sample_payload_message = Ret (res, c', msg') \<and> container_wf ref_pb c' \<and>
      res \<in> {nmsg_res_container_full, nmsg_res_success, nmsg_res_container_overfull}"
  using container_add_outcomes [OF sample_container_wf sample_payload_message_ok, of "\<lambda>_. True"]
  by fastforce

theorem container_serialize_safe_witness:
  "\<exists>buf c'. nmsg_container_serialize ref_pb ref_zlib (\<lambda>_. True) sample_container True False 3 4 =
      Ret (Inr buf, c') \<and> length buf \<le> 512"
  using container_serialize_safe [OF sample_container_wf _ ref_pb_sizes ref_zlib_bound,
      of "\<lambda>_. True" True False 3 4]
  by (auto simp: sample_container_def)

theorem container_roundtrip_witness:
  "\<exists>buf c' ms. nmsg_container_serialize ref_pb ref_zlib (\<lambda>_. True) sample_container True True 3 4 =
      Ret (Inr buf, c') \<and>
    nmsg_container_deserialize ref_pb ref_zlib (\<lambda>_ _. None) (\<lambda>_. True) buf (length buf) = Ret (Inr ms) \<and>
    map np ms = [Some sample_payload, Some sample_payload]"
proof -
  have ne: "c_payloads sample_container \<noteq> []" "c_estsz sample_container < 2 ^ 31"
    by (simp_all add: sample_container_def)
  show ?thesis
    using container_roundtrip [OF sample_container_wf ne ref_pb_sizes ref_pb_roundtrip
        ref_zlib_bound ref_zlib_roundtrip, of "\<lambda>_. True" True 3 4 "\<lambda>_ _. None"]
    by (auto simp: sample_container_def)
qed

text \<open>A payload of two mebibytes whose checksum is large enough: the last octet decides.\<close>

lemma bit_imp_unat_le: "bit (x :: u32) n \<Longrightarrow> 2 ^ n \<le> unat x"
proof (rule ccontr)
  assume "bit x n" and "\<not> 2 ^ n \<le> unat x"
  moreover have "bit (unat x) n \<longleftrightarrow> bit x n" by (simp add: bit_simps bit_imp_le_length)
  ultimately show False by (simp add: bit_iff_odd)
qed

lemma crc_bits8_10: "crc_bits8 0x10 = 0x105EC76F"
  by (simp add: crc_bits8_def crc_bit_def)

lemma large_checksum: "\<exists>b. 2 ^ 28 \<le> unat (bswap32 (crc32c_spec (bs @ [b])))"
proof -
  let ?r = "foldl crc_byte 0xffffffff bs"
  have x: "crc_byte ?r 0x10 = crc_byte ?r 0 XOR 0x105EC76F"
    using crc_bits8_10 by (simp add: crc_byte_def crc_bits8.xor)
  have "bit (0x105EC76F :: u32) 6" by simp
  then have "bit (crc_byte ?r 0x10) 6 \<noteq> bit (crc_byte ?r 0) 6"
    unfolding x by (simp only: bit_xor_iff) blast
  then obtain b where "\<not> bit (crc_byte ?r b) 6" by blast
  then have "bit (bswap32 (crc32c_spec (bs @ [b]))) 30"
    by (simp add: bit_bswap32 crc32c_spec_def bit_not_iff)
  then have "2 ^ 30 \<le> unat (bswap32 (crc32c_spec (bs @ [b])))" by (rule bit_imp_unat_le)
  then show ?thesis by (intro exI [of _ b]) simp
qed

theorem container_serialize_overflow_witness:
  "\<exists>c p res c' msg'. nmsg_container_init (\<lambda>_. True) 512 = Some c \<and>
     nmsg_container_add ref_pb (\<lambda>_. True) \<lparr>tv_sec = 0, tv_nsec = 0\<rparr> c
      \<lparr>msg_mod = None, message = None, np = Some p, updated = False\<rparr> = Ret (res, c', msg') \<and>
     nmsg_container_serialize ref_pb ref_zlib (\<lambda>_. True) c' True False 0 0 = Fault"
proof -
  obtain b where b: "2 ^ 28 \<le> unat (bswap32 (crc32c_spec (replicate (2 ^ 21) 0 @ [b])))"
    using large_checksum by blast
  define bs where "bs = replicate (2 ^ 21) 0 @ [b]"
  define p where "p = sample_payload\<lparr>payload := Some bs\<rparr>"
  obtain c where c: "nmsg_container_init (\<lambda>_. True) 512 = Some c"
    by (simp add: nmsg_container_init_def)
  have p: "payload p = Some bs" "2 ^ 21 \<le> length bs" "length bs < 2 ^ 27"
    by (simp_all add: p_def bs_def)
  have "2 ^ 28 \<le> unat (payload_crc p)"
    using b by (simp add: payload_crc_def p_def bs_def)
  from container_serialize_overflow [OF c p this ref_pb_sizes, of "\<lambda>_. True"
      "\<lparr>tv_sec = 0, tv_nsec = 0\<rparr>" ref_zlib 0 0] c
  show ?thesis by blast
qed

end
