(* ===== verification/Output.thy ===== *)
theory Output
  imports Container
begin

text \<open>
  Output streams: output.c (opening, settings, dispatch), output_nmsg.c (the container being
  filled and the writes to the descriptor) and output_frag.c (containers larger than the
  buffer size).
\<close>

section \<open>The state of an output stream\<close>

datatype out_type = Out_file | Out_sock | Out_xs | Out_null

text \<open>The answers of \<^verbatim>\<open>write(2)\<close> to come; when none is left, every write is complete.\<close>

datatype write_answer = W_bytes nat | W_eintr | W_error

text \<open>
  \<^verbatim>\<open>struct nmsg_stream_output\<close>. \<open>so_c\<close> is NULL (\<open>None\<close>) after a failed allocation. \<open>so_wr\<close>
  stands for the descriptor's future answers, and \<open>so_out\<close> for what it accepted, one element
  per successful \<^verbatim>\<open>write(2)\<close>. Pacing (\<^verbatim>\<open>rate\<close>) and locking have no counterpart.
\<close>

record nmsg_stream_output =
  so_type :: out_type
  so_c :: "nmsg_container option"
  so_bufsz :: nat
  so_buffered :: bool
  so_source :: u32
  so_operator :: u32
  so_group :: u32
  so_do_zlib :: bool
  so_do_sequence :: bool
  so_sequence :: u32
  so_sequence_id :: u64
  so_wr :: "write_answer list"
  so_out :: "byte list list"

section \<open>Writing to the descriptor\<close>

definition output_accept :: "nmsg_stream_output \<Rightarrow> write_answer list \<Rightarrow> byte list \<Rightarrow> nmsg_stream_output" where
  "output_accept st ws bs = st\<lparr>so_wr := ws, so_out := so_out st @ [bs]\<rparr>"

text \<open>\<^verbatim>\<open>_output_nmsg_write_sock\<close>: a short write to a socket is an assertion.\<close>

definition output_nmsg_write_sock ::
  "nmsg_stream_output \<Rightarrow> byte list \<Rightarrow> (nmsg_res \<times> nmsg_stream_output) run" where
  "output_nmsg_write_sock st buf =
     (case so_wr st of
        [] \<Rightarrow> Ret (nmsg_res_success, output_accept st [] buf)
      | W_bytes n # ws \<Rightarrow>
          if n < length buf then Abort else Ret (nmsg_res_success, output_accept st ws buf)
      | _ # ws \<Rightarrow> Ret (nmsg_res_errno, st\<lparr>so_wr := ws\<rparr>))"

text \<open>\<^verbatim>\<open>_output_nmsg_write_file\<close>: short and interrupted writes are continued.\<close>

function output_nmsg_write_file ::
  "nmsg_stream_output \<Rightarrow> byte list \<Rightarrow> nmsg_res \<times> nmsg_stream_output" where
  "output_nmsg_write_file st buf =
     (if buf = [] then (nmsg_res_success, st)
      else (case so_wr st of
          [] \<Rightarrow> (nmsg_res_success, output_accept st [] buf)
        | W_eintr # ws \<Rightarrow> output_nmsg_write_file (st\<lparr>so_wr := ws\<rparr>) buf
        | W_error # ws \<Rightarrow> (nmsg_res_errno, st\<lparr>so_wr := ws\<rparr>)
        | W_bytes n # ws \<Rightarrow>
            output_nmsg_write_file (output_accept st ws (take n buf)) (drop n buf)))"
  by pat_completeness auto
termination
  by (relation "measure (\<lambda>(st, buf). length (so_wr st))") (auto simp: output_accept_def)

declare output_nmsg_write_file.simps [simp del]

text \<open>The dispatch on the stream type of the two container writers.\<close>

definition output_emit ::
  "nmsg_stream_output \<Rightarrow> byte list \<Rightarrow> (nmsg_res \<times> nmsg_stream_output) run" where
  "output_emit st buf =
     (case so_type st of
        Out_sock \<Rightarrow> output_nmsg_write_sock st buf
      | Out_file \<Rightarrow> Ret (output_nmsg_write_file st buf)
      | _ \<Rightarrow> Abort)"

section \<open>Whole containers (output_nmsg.c)\<close>

text \<open>
  Replacing the container after a write: \<open>ok\<close> 4 and 5 are the allocations of
  \<^verbatim>\<open>nmsg_container_init\<close>.
\<close>

definition output_new_container ::
  "(nat \<Rightarrow> bool) \<Rightarrow> nmsg_res \<Rightarrow> nmsg_stream_output \<Rightarrow> nmsg_res \<times> nmsg_stream_output" where
  "output_new_container ok res st =
     (case nmsg_container_init (\<lambda>i. ok (4 + i)) (so_bufsz st) of
        None \<Rightarrow> (nmsg_res_memfail, st\<lparr>so_c := None\<rparr>)
      | Some c \<Rightarrow> (res, st\<lparr>so_c := Some (nmsg_container_set_sequence c (so_do_sequence st))\<rparr>))"

definition output_next_sequence :: "nmsg_stream_output \<Rightarrow> nmsg_stream_output" where
  "output_next_sequence st =
     (if so_do_sequence st then st\<lparr>so_sequence := so_sequence st + 1\<rparr> else st)"

text \<open>\<^verbatim>\<open>_output_nmsg_write_container\<close>: allocations 0 to 3 belong to the serialisation.\<close>

definition output_nmsg_write_container ::
  "pbc \<Rightarrow> zlib \<Rightarrow> (nat \<Rightarrow> bool) \<Rightarrow> nmsg_stream_output \<Rightarrow> (nmsg_res \<times> nmsg_stream_output) run" where
  "output_nmsg_write_container pb z ok st =
     (case so_c st of
        None \<Rightarrow> Fault
      | Some c \<Rightarrow>
          run_bind (nmsg_container_serialize pb z ok c True (so_do_zlib st) (so_sequence st)
              (so_sequence_id st)) (\<lambda>(r, c').
            let st1 = (output_next_sequence st)\<lparr>so_c := Some c'\<rparr> in
            run_bind (case r of Inl e \<Rightarrow> Ret (e, st1) | Inr buf \<Rightarrow> output_emit st1 buf)
              (\<lambda>(res, st2). Ret (output_new_container ok res st2))))"

section \<open>Fragments (output_frag.c)\<close>

text \<open>The pieces of a buffer, \<open>n\<close> octets each but the last.\<close>

function chunks :: "nat \<Rightarrow> byte list \<Rightarrow> byte list list" where
  "chunks n bs = (if bs = [] \<or> n = 0 then [] else take n bs # chunks n (drop n bs))"
  by pat_completeness auto
termination
  by (relation "measure (\<lambda>(n, bs). length bs)") auto

declare chunks.simps [simp del]

text \<open>
  The loop of \<^verbatim>\<open>_output_frag_write\<close> from piece \<open>i\<close> on; \<open>ok (6 + i)\<close> is the allocation of its
  buffer, which has room for the header and \<open>bufsz + 32\<close> octets. The result is that of the last
  write.
\<close>

fun output_frag_loop ::
  "pbc \<Rightarrow> (nat \<Rightarrow> bool) \<Rightarrow> byte \<Rightarrow> nmsg_fragment \<Rightarrow> nat \<Rightarrow> byte list list \<Rightarrow> nmsg_res \<Rightarrow> nmsg_stream_output \<Rightarrow>
     (nmsg_res \<times> nmsg_stream_output) run" where
  "output_frag_loop pb ok flags nf i [] res st = Ret (res, st)"
| "output_frag_loop pb ok flags nf i (bs # rest) res st =
     (if \<not> ok (6 + i) then Ret (nmsg_res_memfail, st)
      else run_bind (mem_write (so_bufsz st + 32)
             (nmsg__nmsg_fragment__pack pb (nf\<lparr>current := of_nat i, fragment := Some bs\<rparr>)))
           (\<lambda>packed. run_bind
             (output_emit st (header_serialize flags (of_nat (length packed)) @ packed))
             (\<lambda>(res', st'). output_frag_loop pb ok flags nf (i + 1) rest res' st')))"

text \<open>
  \<^verbatim>\<open>_output_frag_write\<close>; \<open>rnd\<close> is the number drawn for the fragment id. A failed serialisation
  returns without replacing the container. A compressed container that turns out to fit is
  written as it is, without a header.
\<close>

definition output_frag_write ::
  "pbc \<Rightarrow> zlib \<Rightarrow> (nat \<Rightarrow> bool) \<Rightarrow> u32 \<Rightarrow> nmsg_stream_output \<Rightarrow> (nmsg_res \<times> nmsg_stream_output) run" where
  "output_frag_write pb z ok rnd st =
     (case so_c st of
        None \<Rightarrow> Fault
      | Some c \<Rightarrow>
          let max_fragsz = so_bufsz st - 32 in
          run_bind (nmsg_container_serialize pb z ok c False (so_do_zlib st) (so_sequence st)
              (so_sequence_id st)) (\<lambda>(r, c').
            let st1 = (output_next_sequence st)\<lparr>so_c := Some c'\<rparr>;
                flags = (if so_do_zlib st then NMSG_FLAG_ZLIB else 0)
            in case r of
                Inl e \<Rightarrow> Ret (e, st1)
              | Inr packed \<Rightarrow>
                  run_bind
                    (if so_do_zlib st \<and> length packed \<le> max_fragsz then output_emit st1 packed
                     else output_frag_loop pb ok (flags OR NMSG_FLAG_FRAGMENT)
                       \<lparr>frag_id = rnd, current = 0, last_frag = of_nat (length packed div max_fragsz),
                         fragment = None, frag_crc = Some (bswap32 (crc32c_spec packed))\<rparr>
                       0 (chunks max_fragsz packed) nmsg_res_success st1)
                    (\<lambda>(res, st2). Ret (output_new_container ok res st2))))"

section \<open>Adding a message\<close>

text \<open>The overrides of the payload's source, operator and group.\<close>

definition output_override :: "nmsg_stream_output \<Rightarrow> nmsg_payload \<Rightarrow> nmsg_payload" where
  "output_override st p =
     (let p1 = (if so_source st \<noteq> 0 then p\<lparr>source := Some (so_source st)\<rparr> else p);
          p2 = (if so_operator st \<noteq> 0 then p1\<lparr>operator' := Some (so_operator st)\<rparr> else p1)
      in if so_group st \<noteq> 0 then p2\<lparr>group := Some (so_group st)\<rparr> else p2)"

definition output_container_add ::
  "pbc \<Rightarrow> (nat \<Rightarrow> bool) \<Rightarrow> timespec \<Rightarrow> nmsg_stream_output \<Rightarrow> nmsg_message \<Rightarrow>
     (nmsg_res \<times> nmsg_stream_output \<times> nmsg_message) run" where
  "output_container_add pb ok ts st msg =
     (case so_c st of
        None \<Rightarrow> Fault
      | Some c \<Rightarrow> run_bind (nmsg_container_add pb ok ts c msg) (\<lambda>(res, c', msg').
          Ret (res, st\<lparr>so_c := Some c'\<rparr>, msg')))"

text \<open>
  \<^verbatim>\<open>_output_nmsg_write\<close>. The allocations of its calls are those of \<open>ok\<close> from 0 (the first
  addition), 10 (the write of the full container), 20 (the second addition) and 30 (the
  container or fragment writer).
\<close>

definition output_nmsg_write ::
  "pbc \<Rightarrow> zlib \<Rightarrow> (nat \<Rightarrow> bool) \<Rightarrow> timespec \<Rightarrow> u32 \<Rightarrow> nmsg_stream_output \<Rightarrow> nmsg_message \<Rightarrow>
     (nmsg_res \<times> nmsg_stream_output \<times> nmsg_message) run" where
  "output_nmsg_write pb z ok ts rnd st msg0 =
     (case np msg0 of
        None \<Rightarrow> Abort
      | Some p \<Rightarrow>
          let msg = msg0\<lparr>np := Some (output_override st p)\<rparr> in
          run_bind (output_container_add pb ok ts st msg) (\<lambda>(res, st1, msg1).
            if res = nmsg_res_container_full then
              run_bind (output_nmsg_write_container pb z (\<lambda>i. ok (10 + i)) st1) (\<lambda>(res2, st2).
                if res2 \<noteq> nmsg_res_success then Ret (res2, st2, msg1)
                else run_bind (output_container_add pb (\<lambda>i. ok (20 + i)) ts st2 msg1)
                  (\<lambda>(res3, st3, msg3).
                    if res3 = nmsg_res_container_overfull then
                      run_bind (output_frag_write pb z (\<lambda>i. ok (30 + i)) rnd st3)
                        (\<lambda>(res4, st4). Ret (res4, st4, msg3))
                    else Ret (res3, st3, msg3)))
            else if res = nmsg_res_success \<and> \<not> so_buffered st1 then
              run_bind (output_nmsg_write_container pb z (\<lambda>i. ok (30 + i)) st1)
                (\<lambda>(res2, st2). Ret (res2, st2, msg1))
            else if res = nmsg_res_container_overfull then
              run_bind (output_frag_write pb z (\<lambda>i. ok (30 + i)) rnd st1)
                (\<lambda>(res2, st2). Ret (res2, st2, msg1))
            else Ret (res, st1, msg1)))"

text \<open>\<^verbatim>\<open>_output_nmsg_flush\<close>\<close>

definition output_nmsg_flush ::
  "pbc \<Rightarrow> zlib \<Rightarrow> (nat \<Rightarrow> bool) \<Rightarrow> nmsg_stream_output \<Rightarrow> (nmsg_res \<times> nmsg_stream_output) run" where
  "output_nmsg_flush pb z ok st =
     (case so_c st of
        None \<Rightarrow> Fault
      | Some c \<Rightarrow>
          if nmsg_container_get_num_payloads c > 0 then output_nmsg_write_container pb z ok st
          else Ret (nmsg_res_success, st))"

section \<open>Outputs (output.c)\<close>

text \<open>
  \<^verbatim>\<open>struct nmsg_output\<close>: a stream, a presentation output (its writer is a parameter) or a
  callback, represented by the messages handed to it.
\<close>

datatype out_kind = Kind_stream nmsg_stream_output | Kind_pres | Kind_callback "nmsg_message list"

record nmsg_output =
  o_kind :: out_kind
  o_do_filter :: bool
  o_filter_vid :: u32
  o_filter_msgtype :: u32
  o_stop :: bool

definition clamp_bufsz :: "nat \<Rightarrow> nat" where
  "clamp_bufsz bufsz =
     (let b = (if bufsz < NMSG_WBUFSZ_MIN then NMSG_WBUFSZ_MIN else bufsz)
      in if b > NMSG_WBUFSZ_MAX then NMSG_WBUFSZ_MAX else b)"

text \<open>
  \<^verbatim>\<open>output_open_stream_base\<close>: allocation 0 is the output, 1 the stream, 2 the random number
  generator, 4 and 5 the container; \<open>rnd\<close> are the eight octets drawn for the sequence id.
\<close>

definition output_open_stream_base ::
  "(nat \<Rightarrow> bool) \<Rightarrow> u64 \<Rightarrow> out_type \<Rightarrow> nat \<Rightarrow> nmsg_output option" where
  "output_open_stream_base ok rnd ty bufsz =
     (if \<not> ok 0 \<or> \<not> ok 1 \<or> \<not> ok 2 then None
      else
        let sq = (ty = Out_sock \<or> ty = Out_xs); b = clamp_bufsz bufsz
        in case nmsg_container_init (\<lambda>i. ok (4 + i)) b of
            None \<Rightarrow> None
          | Some c \<Rightarrow> Some
              \<lparr>o_kind = Kind_stream \<lparr>so_type = ty, so_c = Some (nmsg_container_set_sequence c sq),
                 so_bufsz = b, so_buffered = True, so_source = 0, so_operator = 0, so_group = 0,
                 so_do_zlib = False, so_do_sequence = sq, so_sequence = 0,
                 so_sequence_id = (if sq then rnd else 0), so_wr = [], so_out = []\<rparr>,
               o_do_filter = False, o_filter_vid = 0, o_filter_msgtype = 0, o_stop = False\<rparr>)"

text \<open>The settings that apply to streams only.\<close>

definition on_stream :: "(nmsg_stream_output \<Rightarrow> nmsg_stream_output) \<Rightarrow> nmsg_output \<Rightarrow> nmsg_output" where
  "on_stream f out = (case o_kind out of Kind_stream st \<Rightarrow> out\<lparr>o_kind := Kind_stream (f st)\<rparr> | _ \<Rightarrow> out)"

definition nmsg_output_set_buffered :: "nmsg_output \<Rightarrow> bool \<Rightarrow> nmsg_output" where
  "nmsg_output_set_buffered out b = on_stream (\<lambda>st. st\<lparr>so_buffered := b\<rparr>) out"

definition nmsg_output_set_zlibout :: "nmsg_output \<Rightarrow> bool \<Rightarrow> nmsg_output" where
  "nmsg_output_set_zlibout out b = on_stream (\<lambda>st. st\<lparr>so_do_zlib := b\<rparr>) out"

definition nmsg_output_set_source :: "nmsg_output \<Rightarrow> u32 \<Rightarrow> nmsg_output" where
  "nmsg_output_set_source out v = on_stream (\<lambda>st. st\<lparr>so_source := v\<rparr>) out"

definition nmsg_output_set_operator :: "nmsg_output \<Rightarrow> u32 \<Rightarrow> nmsg_output" where
  "nmsg_output_set_operator out v = on_stream (\<lambda>st. st\<lparr>so_operator := v\<rparr>) out"

definition nmsg_output_set_group :: "nmsg_output \<Rightarrow> u32 \<Rightarrow> nmsg_output" where
  "nmsg_output_set_group out v = on_stream (\<lambda>st. st\<lparr>so_group := v\<rparr>) out"

definition nmsg_output_set_filter_msgtype :: "nmsg_output \<Rightarrow> u32 \<Rightarrow> u32 \<Rightarrow> nmsg_output" where
  "nmsg_output_set_filter_msgtype out v m =
     out\<lparr>o_do_filter := \<not> (v = 0 \<and> m = 0), o_filter_vid := v, o_filter_msgtype := m\<rparr>"

text \<open>\<^verbatim>\<open>nmsg_output_flush\<close>: only streams have a flush function.\<close>

definition nmsg_output_flush ::
  "pbc \<Rightarrow> zlib \<Rightarrow> (nat \<Rightarrow> bool) \<Rightarrow> nmsg_output \<Rightarrow> (nmsg_res \<times> nmsg_output) run" where
  "nmsg_output_flush pb z ok out =
     (case o_kind out of
        Kind_stream st \<Rightarrow> run_bind (output_nmsg_flush pb z ok st)
          (\<lambda>(res, st'). Ret (res, out\<lparr>o_kind := Kind_stream st'\<rparr>))
      | _ \<Rightarrow> Fault)"

text \<open>
  \<^verbatim>\<open>nmsg_output_write\<close>: allocations 100 and 101 belong to the first \<^verbatim>\<open>_nmsg_message_serialize\<close>;
  \<open>pres\<close> is \<^verbatim>\<open>_output_pres_write\<close>.
\<close>

definition nmsg_output_write ::
  "pbc \<Rightarrow> zlib \<Rightarrow> (nmsg_message \<Rightarrow> nmsg_res) \<Rightarrow> (nat \<Rightarrow> bool) \<Rightarrow> timespec \<Rightarrow> u32 \<Rightarrow> nmsg_output \<Rightarrow> nmsg_message \<Rightarrow>
     (nmsg_res \<times> nmsg_output \<times> nmsg_message) run" where
  "nmsg_output_write pb z pres ok ts rnd out msg0 =
     run_bind (nmsg_message_serialize (\<lambda>i. ok (100 + i)) ts msg0) (\<lambda>(res, msg).
       if res \<noteq> nmsg_res_success then Ret (res, out, msg)
       else run_bind (if o_do_filter out then with_np msg (\<lambda>p. o_filter_vid out \<noteq> vid p \<or>
               o_filter_msgtype out \<noteq> msgtype p) else Ret False) (\<lambda>filtered.
         if filtered then Ret (nmsg_res_success, out, msg)
         else (case o_kind out of
             Kind_stream st \<Rightarrow> run_bind (output_nmsg_write pb z ok ts rnd st msg)
               (\<lambda>(res', st', msg'). Ret (res', out\<lparr>o_kind := Kind_stream st'\<rparr>, msg'))
           | Kind_pres \<Rightarrow> Ret (pres msg, out, msg)
           | Kind_callback ms \<Rightarrow> Ret (nmsg_res_success, out\<lparr>o_kind := Kind_callback (ms @ [msg])\<rparr>, msg))))"

text \<open>\<^verbatim>\<open>nmsg_output_close\<close>: what a stream still holds is flushed; the result is the flush's.\<close>

definition nmsg_output_close ::
  "pbc \<Rightarrow> zlib \<Rightarrow> (nat \<Rightarrow> bool) \<Rightarrow> nmsg_output \<Rightarrow> (nmsg_res \<times> nmsg_output) run" where
  "nmsg_output_close pb z ok out =
     (case o_kind out of
        Kind_stream st \<Rightarrow> run_bind (output_nmsg_flush pb z ok st)
          (\<lambda>(res, st'). Ret (res, out\<lparr>o_kind := Kind_stream st'\<rparr>))
      | _ \<Rightarrow> Ret (nmsg_res_success, out))"

section \<open>Complete writes\<close>

lemma output_write_file_spec:
  "\<exists>res st' n. output_nmsg_write_file st buf = (res, st') \<and>
     concat (so_out st') = concat (so_out st) @ take n buf \<and>
     (res = nmsg_res_success \<and> n = length buf \<or>
      res = nmsg_res_errno \<and> n < length buf \<and> W_error \<in> set (so_wr st)) \<and>
     st' = st\<lparr>so_wr := so_wr st', so_out := so_out st'\<rparr>"
proof (induction st buf rule: output_nmsg_write_file.induct)
  case (1 st buf)
  show ?case
  proof (cases "buf = []")
    case True
    then show ?thesis by (simp add: output_nmsg_write_file.simps)
  next
    case False
    show ?thesis
    proof (cases "so_wr st")
      case Nil
      with False show ?thesis
        by (subst output_nmsg_write_file.simps) (auto simp: output_accept_def)
    next
      case (Cons a ws)
      show ?thesis
      proof (cases a)
        case (W_bytes k)
        from "1.IH"(1) [OF False Cons W_bytes] obtain res st' n where ih:
          "output_nmsg_write_file (output_accept st ws (take k buf)) (drop k buf) = (res, st')"
          "concat (so_out st') = concat (so_out st) @ take k buf @ take n (drop k buf)"
          "res = nmsg_res_success \<and> n = length (drop k buf) \<or>
           res = nmsg_res_errno \<and> n < length (drop k buf) \<and> W_error \<in> set ws"
          "st' = st\<lparr>so_wr := so_wr st', so_out := so_out st'\<rparr>"
          by (auto simp: output_accept_def)
        have "take k buf @ take n (drop k buf) = take (min k (length buf) + n) buf"
          by (simp add: take_add min_def)
        with ih False Cons W_bytes show ?thesis
          by (subst output_nmsg_write_file.simps)
            (auto intro!: exI [of _ "min k (length buf) + n"])
      next
        case W_eintr
        from "1.IH"(2) [OF False Cons W_eintr] False Cons W_eintr show ?thesis
          by (subst output_nmsg_write_file.simps) auto
      next
        case W_error
        with False Cons show ?thesis
          by (subst output_nmsg_write_file.simps) auto
      qed
    qed
  qed
qed

text \<open>
  On a file stream, whatever the interruptions and short writes, \<^verbatim>\<open>_output_nmsg_write_file\<close>
  either hands the whole buffer to the descriptor, in order, and reports success, or meets a
  write error, reports it, and has handed over a prefix.
\<close>

theorem output_write_file_complete:
  "(W_error \<notin> set (so_wr st) \<longrightarrow> fst (output_nmsg_write_file st buf) = nmsg_res_success \<and>
      concat (so_out (snd (output_nmsg_write_file st buf))) = concat (so_out st) @ buf) \<and>
   (fst (output_nmsg_write_file st buf) = nmsg_res_success \<or>
    fst (output_nmsg_write_file st buf) = nmsg_res_errno \<and>
      (\<exists>n < length buf. concat (so_out (snd (output_nmsg_write_file st buf))) =
         concat (so_out st) @ take n buf))"
  using output_write_file_spec [of st buf] by auto

section \<open>No message is lost or reordered\<close>

text \<open>The payloads in one written container, those sent so far, and those still held.\<close>

definition decode_container :: "pbc \<Rightarrow> zlib \<Rightarrow> byte list \<Rightarrow> nmsg_payload list" where
  "decode_container pb z d =
     (case nmsg_container_deserialize pb z (\<lambda>_ _. None) (\<lambda>_. True) d (length d) of
        Ret (Inr ms) \<Rightarrow> map (the \<circ> np) ms
      | _ \<Rightarrow> [])"

definition sent_payloads :: "pbc \<Rightarrow> zlib \<Rightarrow> nmsg_stream_output \<Rightarrow> nmsg_payload list" where
  "sent_payloads pb z st = concat (map (decode_container pb z) (so_out st))"

definition held_payloads :: "nmsg_stream_output \<Rightarrow> nmsg_payload list" where
  "held_payloads st = (case so_c st of None \<Rightarrow> [] | Some c \<Rightarrow> map the (c_payloads c))"

text \<open>What is written: the serialisations of containers within the buffer size.\<close>

definition wire_image :: "pbc \<Rightarrow> zlib \<Rightarrow> bool \<Rightarrow> nmsg_container \<Rightarrow> u32 \<Rightarrow> u64 \<Rightarrow> byte list" where
  "wire_image pb z do_zlib c s i =
     (let body = container_body pb z c do_zlib s i
      in header_serialize (if do_zlib then NMSG_FLAG_ZLIB else 0) (of_nat (length body)) @ body)"

definition written :: "pbc \<Rightarrow> zlib \<Rightarrow> bool \<Rightarrow> nat \<Rightarrow> byte list \<Rightarrow> bool" where
  "written pb z do_zlib bufsz d \<longleftrightarrow> (\<exists>c s i. container_wf pb c \<and> c_payloads c \<noteq> [] \<and> c_estsz c \<le> bufsz \<and>
     d = wire_image pb z do_zlib c s i)"

definition out_wf :: "pbc \<Rightarrow> zlib \<Rightarrow> nmsg_stream_output \<Rightarrow> bool" where
  "out_wf pb z st \<longleftrightarrow> so_type st \<in> {Out_file, Out_sock} \<and> 512 \<le> so_bufsz st \<and> so_bufsz st \<le> 2 ^ 20 \<and>
     (\<exists>c. so_c st = Some c \<and> container_wf pb c \<and> c_bufsz c = so_bufsz st \<and>
        c_estsz c \<le> so_bufsz st \<and> c_do_sequence c = so_do_sequence st) \<and>
     (\<forall>d \<in> set (so_out st). written pb z (so_do_zlib st) (so_bufsz st) d)"

text \<open>The codecs work as documented.\<close>

definition codecs_ok :: "pbc \<Rightarrow> zlib \<Rightarrow> bool" where
  "codecs_ok pb z \<longleftrightarrow> pb_roundtrip pb \<and> pb_sizes pb \<and> zlib_roundtrip z \<and> zlib_bound z"

lemma container_roundtrip_decode:
  assumes "container_wf pb c" and "c_payloads c \<noteq> []" and "c_estsz c < 2 ^ 31" and "codecs_ok pb z"
    and "\<forall>i. ok i"
  obtains buf where "nmsg_container_serialize pb z ok c True do_zlib s i =
      Ret (Inr buf, container_sequenced c s i)" "buf \<noteq> []" "buf = wire_image pb z do_zlib c s i"
    "decode_container pb z buf = map the (c_payloads c)"
proof -
  have pb: "pb_sizes pb" "pb_roundtrip pb" "zlib_bound z" "zlib_roundtrip z"
    using assms(4) by (simp_all add: codecs_ok_def)
  note eq = nmsg_container_serialize_eq [OF assms(1) pb(1,3) assms(2,5), of True do_zlib s i]
  define buf where "buf = header_serialize (if do_zlib then NMSG_FLAG_ZLIB else 0)
    (of_nat (length (container_body pb z c do_zlib s i))) @ container_body pb z c do_zlib s i"
  have "nmsg_container_deserialize pb z (\<lambda>_ _. None) (\<lambda>_. True) buf (length buf) =
      Ret (Inr (map (\<lambda>p. \<lparr>msg_mod = None, message = None, np = Some p, updated = False\<rparr>)
        (map the (c_payloads c))))"
    unfolding buf_def
    by (rule container_deserialize_body [OF assms(1-3) pb]) simp
  then have "decode_container pb z buf = map the (c_payloads c)"
    by (simp add: decode_container_def comp_def)
  moreover have "length buf \<noteq> 0" by (simp add: buf_def)
  then have "buf \<noteq> []" by auto
  moreover have "nmsg_container_serialize pb z ok c True do_zlib s i =
      Ret (Inr buf, container_sequenced c s i)"
    using eq by (simp add: buf_def)
  moreover have "buf = wire_image pb z do_zlib c s i" by (simp add: buf_def wire_image_def Let_def)
  ultimately show ?thesis by (intro that)
qed

lemma output_emit_ok:
  "so_type st \<in> {Out_file, Out_sock} \<Longrightarrow> so_wr st = [] \<Longrightarrow> buf \<noteq> [] \<Longrightarrow>
     output_emit st buf = Ret (nmsg_res_success, st\<lparr>so_out := so_out st @ [buf]\<rparr>)"
  by (cases st) (auto simp: output_emit_def output_nmsg_write_sock_def
      output_nmsg_write_file.simps output_accept_def)

definition fresh_container :: "nmsg_stream_output \<Rightarrow> nmsg_container" where
  "fresh_container st = \<lparr>c_payloads = [], c_sequence = None, c_sequence_id = None,
     c_bufsz = so_bufsz st, c_estsz = 10, c_do_sequence = so_do_sequence st\<rparr>"

lemma output_new_container_ok:
  "\<forall>i. ok i \<Longrightarrow> 512 \<le> so_bufsz st \<Longrightarrow>
     output_new_container ok res st = (res, st\<lparr>so_c := Some (fresh_container st)\<rparr>)"
  by (simp add: output_new_container_def nmsg_container_init_def nmsg_container_set_sequence_def
      fresh_container_def)

lemma fresh_container_wf [simp]: "container_wf pb (fresh_container st)"
  by (simp add: container_wf_def fresh_container_def)

lemma output_next_sequence_simps [simp]:
  "so_type (output_next_sequence st) = so_type st" "so_bufsz (output_next_sequence st) = so_bufsz st"
  "so_do_sequence (output_next_sequence st) = so_do_sequence st" "so_wr (output_next_sequence st) = so_wr st"
  "so_out (output_next_sequence st) = so_out st" "so_c (output_next_sequence st) = so_c st"
  "so_buffered (output_next_sequence st) = so_buffered st"
  "so_do_zlib (output_next_sequence st) = so_do_zlib st"
  "output_override (output_next_sequence st) = output_override st"
  by (simp_all add: output_next_sequence_def output_override_def fun_eq_iff)

text \<open>The settings of a stream, which no write changes.\<close>

definition same_settings :: "nmsg_stream_output \<Rightarrow> nmsg_stream_output \<Rightarrow> bool" where
  "same_settings st st' \<longleftrightarrow> so_type st' = so_type st \<and> so_bufsz st' = so_bufsz st \<and>
     so_buffered st' = so_buffered st \<and> so_do_zlib st' = so_do_zlib st \<and>
     so_do_sequence st' = so_do_sequence st \<and> output_override st' = output_override st"

lemma output_write_container_ok:
  assumes wf: "out_wf pb z st" and cod: "codecs_ok pb z" and ok: "\<forall>i. ok i" and wr: "so_wr st = []"
    and ne: "held_payloads st \<noteq> []"
  shows "\<exists>st'. output_nmsg_write_container pb z ok st = Ret (nmsg_res_success, st') \<and>
    out_wf pb z st' \<and> so_wr st' = [] \<and> so_c st' = Some (fresh_container st') \<and>
    sent_payloads pb z st' = sent_payloads pb z st @ held_payloads st \<and> same_settings st st' \<and>
    so_sequence st' = so_sequence st + (if so_do_sequence st then 1 else 0)"
proof -
  obtain c where c: "so_c st = Some c" "container_wf pb c" "c_estsz c \<le> so_bufsz st"
    and st: "so_type st \<in> {Out_file, Out_sock}" "512 \<le> so_bufsz st" "so_bufsz st \<le> 2 ^ 20"
    using wf by (auto simp: out_wf_def)
  have cne: "c_payloads c \<noteq> []" using ne c(1) by (simp add: held_payloads_def)
  have "c_estsz c < 2 ^ 31" using c(3) st(3) by simp
  from container_roundtrip_decode [OF c(2) cne this cod ok]
  obtain buf where buf: "nmsg_container_serialize pb z ok c True (so_do_zlib st) (so_sequence st)
      (so_sequence_id st) = Ret (Inr buf, container_sequenced c (so_sequence st) (so_sequence_id st))"
    "buf \<noteq> []" "buf = wire_image pb z (so_do_zlib st) c (so_sequence st) (so_sequence_id st)"
    "decode_container pb z buf = map the (c_payloads c)"
    by blast
  have wr': "written pb z (so_do_zlib st) (so_bufsz st) buf"
    using c cne buf(3) by (auto simp: written_def)
  let ?st1 = "(output_next_sequence st)\<lparr>so_c := Some (container_sequenced c (so_sequence st)
      (so_sequence_id st))\<rparr>"
  have em: "output_emit ?st1 buf = Ret (nmsg_res_success, ?st1\<lparr>so_out := so_out ?st1 @ [buf]\<rparr>)"
    by (rule output_emit_ok) (use st wr buf in simp_all)
  let ?st2 = "?st1\<lparr>so_out := so_out ?st1 @ [buf], so_c := Some (fresh_container ?st1)\<rparr>"
  have "output_nmsg_write_container pb z ok st = Ret (nmsg_res_success, ?st2)"
    using c(1) buf(1) em st ok
    by (simp add: output_nmsg_write_container_def output_new_container_ok fresh_container_def)
  moreover have "fresh_container ?st1 = fresh_container ?st2" "fresh_container ?st1 = fresh_container st"
    by (simp_all add: fresh_container_def)
  ultimately show ?thesis
    using st wr wf wr' c(1) buf(4)
    by (intro exI [of _ ?st2])
      (simp add: out_wf_def sent_payloads_def held_payloads_def same_settings_def
        fresh_container_def output_next_sequence_def output_override_def container_wf_def fun_eq_iff)
qed

text \<open>
  A message as \<^verbatim>\<open>nmsg_output_write\<close> passes it on: its payload is up to date; and one that,
  alone in a container, does not exceed the buffer size.
\<close>

definition ready :: "nmsg_message \<Rightarrow> nmsg_payload \<Rightarrow> bool" where
  "ready msg p \<longleftrightarrow> np msg = Some p \<and> (message msg = None \<or> \<not> updated msg)"

definition fits :: "pbc \<Rightarrow> nmsg_stream_output \<Rightarrow> nmsg_payload \<Rightarrow> bool" where
  "fits pb st p \<longleftrightarrow> small_payload p \<and>
     10 + estsz_step (so_do_sequence st) (nmsg_payload_size pb (output_override st p)) \<le> so_bufsz st"

lemma small_payload_override [simp]: "small_payload (output_override st p) = small_payload p"
  by (simp add: output_override_def small_payload_def Let_def)

lemma serialize_ready: "ready msg p \<Longrightarrow> nmsg_message_serialize ok ts msg = Ret (nmsg_res_success, msg)"
  by (auto simp: ready_def nmsg_message_serialize_def split: option.splits)

lemma estsz_step_le: "n < 2 ^ 21 + 100 \<Longrightarrow> estsz_step sq n \<le> n + 29"
  by (simp add: estsz_step_def)

text \<open>Adding to a stream whose container has room: the estimate stays within the buffer size.\<close>

lemma output_container_add_ok:
  assumes wf: "out_wf pb z st" and ok: "\<forall>i. ok i" and r: "ready msg p" and sm: "small_payload p"
    and c: "so_c st = Some c"
    and room: "c_estsz c = 10 \<and> 10 + estsz_step (so_do_sequence st) (nmsg_payload_size pb p) \<le> so_bufsz st \<or>
      c_estsz c + nmsg_payload_size pb p + 32 < so_bufsz st"
  shows "\<exists>st'. output_container_add pb ok ts st msg = Ret (nmsg_res_success, st', msg\<lparr>np := None\<rparr>) \<and>
    out_wf pb z st' \<and> so_wr st' = so_wr st \<and> same_settings st st' \<and>
    sent_payloads pb z st' = sent_payloads pb z st \<and> held_payloads st' = held_payloads st @ [p] \<and>
    so_sequence st' = so_sequence st"
proof -
  let ?n = "nmsg_payload_size pb p"
  let ?c = "c\<lparr>c_payloads := c_payloads c @ [Some p],
      c_estsz := c_estsz c + estsz_step (c_do_sequence c) ?n\<rparr>"
  have cw: "container_wf pb c" "c_bufsz c = so_bufsz st" "c_do_sequence c = so_do_sequence st"
    and bz: "so_bufsz st \<le> 2 ^ 20"
    using wf c by (auto simp: out_wf_def)
  have le: "c_estsz c + estsz_step (c_do_sequence c) ?n \<le> so_bufsz st"
  proof (cases "c_estsz c = 10")
    case True
    have "estsz_step (c_do_sequence c) ?n \<le> ?n + 29" if "?n + 42 < so_bufsz st"
      using that bz by (intro estsz_step_le) simp
    with True room cw(3) show ?thesis by auto
  next
    case False
    then have "?n < 2 ^ 21 + 100" using room bz by simp
    with False room estsz_step_le [of ?n "c_do_sequence c"] show ?thesis by simp
  qed
  have "nmsg_container_add pb ok ts c msg = Ret (nmsg_res_success, ?c, msg\<lparr>np := None\<rparr>)"
    using nmsg_container_add_eq [OF serialize_ready [OF r], of p, where pb = pb and c = c and ok = ok and ts = ts] r ok room le cw
    by (auto simp: ready_def)
  moreover have "container_wf pb ?c"
    using cw(1) sm by (auto simp: container_wf_def)
  ultimately show ?thesis
    using wf c le cw
    by (intro exI [of _ "st\<lparr>so_c := Some ?c\<rparr>"])
      (auto simp: output_container_add_def out_wf_def same_settings_def sent_payloads_def
        held_payloads_def output_override_def fun_eq_iff)
qed

lemma output_container_add_full:
  assumes "out_wf pb z st" and "ready msg p" and "so_c st = Some c"
    and "c_estsz c \<noteq> 10" "so_bufsz st \<le> c_estsz c + nmsg_payload_size pb p + 32"
  shows "output_container_add pb ok ts st msg = Ret (nmsg_res_container_full, st, msg)"
  using assms nmsg_container_add_eq [OF serialize_ready [OF assms(2)], of p, where pb = pb and c = c and ok = ok and ts = ts]
  by (auto simp: output_container_add_def out_wf_def ready_def)

lemma same_settings_trans: "same_settings a b \<Longrightarrow> same_settings b c \<Longrightarrow> same_settings a c"
  by (simp add: same_settings_def)

lemma output_nmsg_write_ok:
  assumes wf: "out_wf pb z st" and cod: "codecs_ok pb z" and ok: "\<forall>i. ok i" and wr: "so_wr st = []"
    and r: "ready msg p" and fit: "fits pb st p"
  shows "\<exists>st' msg'. output_nmsg_write pb z ok ts rnd st msg = Ret (nmsg_res_success, st', msg') \<and>
    out_wf pb z st' \<and> so_wr st' = [] \<and> same_settings st st' \<and>
    sent_payloads pb z st' @ held_payloads st' =
      sent_payloads pb z st @ held_payloads st @ [output_override st p] \<and>
    (\<not> so_buffered st \<and> held_payloads st = [] \<longrightarrow> held_payloads st' = [])"
proof -
  let ?p = "output_override st p" and ?msg = "msg\<lparr>np := Some (output_override st p)\<rparr>"
  have np: "np msg = Some p" using r by (simp add: ready_def)
  have r': "ready ?msg ?p" using r by (simp add: ready_def)
  have sm: "small_payload ?p" using fit by (simp add: fits_def)
  have ok': "\<forall>i. ok (k + i)" for k using ok by simp
  obtain c where c: "so_c st = Some c" using wf by (auto simp: out_wf_def)
  show ?thesis
  proof (cases "c_estsz c \<noteq> 10 \<and> so_bufsz st \<le> c_estsz c + nmsg_payload_size pb ?p + 32")
    case True
    have add: "output_container_add pb ok ts st ?msg = Ret (nmsg_res_container_full, st, ?msg)"
      by (rule output_container_add_full [OF wf r' c]) (use True in auto)
    have "c_payloads c \<noteq> []"
      using True wf c by (auto simp: out_wf_def container_wf_def)
    then have held: "held_payloads st \<noteq> []" by (simp add: held_payloads_def c)
    from output_write_container_ok [OF wf cod ok' [of 10] wr held]
    obtain st2 where st2: "output_nmsg_write_container pb z (\<lambda>i. ok (10 + i)) st =
        Ret (nmsg_res_success, st2)" "out_wf pb z st2" "so_wr st2 = []"
      "so_c st2 = Some (fresh_container st2)" "same_settings st st2"
      "sent_payloads pb z st2 = sent_payloads pb z st @ held_payloads st"
      by blast
    have room: "c_estsz (fresh_container st2) = 10 \<and>
        10 + estsz_step (so_do_sequence st2) (nmsg_payload_size pb ?p) \<le> so_bufsz st2 \<or>
        c_estsz (fresh_container st2) + nmsg_payload_size pb ?p + 32 < so_bufsz st2"
      using fit st2(5) by (simp add: fits_def fresh_container_def same_settings_def)
    from output_container_add_ok [OF st2(2) ok' [of 20] r' sm st2(4) room, of ts]
    obtain st3 where st3: "output_container_add pb (\<lambda>i. ok (20 + i)) ts st2 ?msg =
        Ret (nmsg_res_success, st3, ?msg\<lparr>np := None\<rparr>)" "out_wf pb z st3" "so_wr st3 = so_wr st2"
      "same_settings st2 st3" "sent_payloads pb z st3 = sent_payloads pb z st2"
      "held_payloads st3 = held_payloads st2 @ [?p]"
      by blast
    have "held_payloads st2 = []" by (simp add: held_payloads_def st2(4) fresh_container_def)
    with add st2 st3 np held same_settings_trans [OF st2(5) st3(4)] show ?thesis
      by (simp add: output_nmsg_write_def Let_def)
  next
    case False
    have room: "c_estsz c = 10 \<and> 10 + estsz_step (so_do_sequence st) (nmsg_payload_size pb ?p) \<le> so_bufsz st \<or>
        c_estsz c + nmsg_payload_size pb ?p + 32 < so_bufsz st"
      using False fit by (auto simp: fits_def)
    from output_container_add_ok [OF wf ok r' sm c room, of ts]
    obtain st1 where st1: "output_container_add pb ok ts st ?msg =
        Ret (nmsg_res_success, st1, ?msg\<lparr>np := None\<rparr>)" "out_wf pb z st1" "so_wr st1 = so_wr st"
      "same_settings st st1" "sent_payloads pb z st1 = sent_payloads pb z st"
      "held_payloads st1 = held_payloads st @ [?p]"
      by blast
    show ?thesis
    proof (cases "so_buffered st1")
      case True
      with st1 np wr show ?thesis
        by (simp add: output_nmsg_write_def Let_def same_settings_def)
    next
      case False
      have "so_wr st1 = []" "held_payloads st1 \<noteq> []" using st1 wr by simp_all
      from output_write_container_ok [OF st1(2) cod ok' [of 30] this]
      obtain st2 where st2: "output_nmsg_write_container pb z (\<lambda>i. ok (30 + i)) st1 =
          Ret (nmsg_res_success, st2)" "out_wf pb z st2" "so_wr st2 = []"
        "so_c st2 = Some (fresh_container st2)" "same_settings st1 st2"
        "sent_payloads pb z st2 = sent_payloads pb z st1 @ held_payloads st1"
        by blast
      have "held_payloads st2 = []" by (simp add: held_payloads_def st2(4) fresh_container_def)
      with st1 st2 np False same_settings_trans [OF st1(4) st2(5)] show ?thesis
        by (simp add: output_nmsg_write_def Let_def)
    qed
  qed
qed

lemma output_open_wf:
  assumes "output_open_stream_base ok rnd ty bufsz = Some out" and "ty \<in> {Out_file, Out_sock}"
  shows "\<exists>st. o_kind out = Kind_stream st \<and> out_wf pb z st \<and> held_payloads st = [] \<and> so_wr st = [] \<and>
    so_out st = [] \<and> \<not> o_do_filter out \<and> so_bufsz st = clamp_bufsz bufsz \<and>
    so_do_sequence st = (ty = Out_sock)"
proof -
  have b: "512 \<le> clamp_bufsz bufsz" "clamp_bufsz bufsz \<le> 2 ^ 20" by (simp_all add: clamp_bufsz_def)
  then show ?thesis
    using assms by (auto simp: output_open_stream_base_def Let_def nmsg_container_init_def out_wf_def
        nmsg_container_set_sequence_def container_wf_def held_payloads_def split: if_splits)
qed

text \<open>A program that writes a list of messages, stopping at the first error.\<close>

fun nmsg_output_writes ::
  "pbc \<Rightarrow> zlib \<Rightarrow> (nmsg_message \<Rightarrow> nmsg_res) \<Rightarrow> (nat \<Rightarrow> bool) \<Rightarrow> timespec \<Rightarrow> u32 \<Rightarrow> nmsg_output \<Rightarrow>
     nmsg_message list \<Rightarrow> (nmsg_res \<times> nmsg_output) run" where
  "nmsg_output_writes pb z pres ok ts rnd out [] = Ret (nmsg_res_success, out)"
| "nmsg_output_writes pb z pres ok ts rnd out (m # ms) =
     run_bind (nmsg_output_write pb z pres ok ts rnd out m) (\<lambda>(res, out', m').
       if res \<noteq> nmsg_res_success then Ret (res, out')
       else nmsg_output_writes pb z pres ok ts rnd out' ms)"

definition passes :: "nmsg_output \<Rightarrow> nmsg_payload \<Rightarrow> bool" where
  "passes out p \<longleftrightarrow> \<not> o_do_filter out \<or> o_filter_vid out = vid p \<and> o_filter_msgtype out = msgtype p"

lemma nmsg_output_write_ok:
  assumes k: "o_kind out = Kind_stream st" and wf: "out_wf pb z st" and cod: "codecs_ok pb z"
    and ok: "\<forall>i. ok i" and wr: "so_wr st = []" and r: "ready m p" and fit: "fits pb st p"
  shows "\<exists>st' m'. nmsg_output_write pb z pres ok ts rnd out m =
      Ret (nmsg_res_success, out\<lparr>o_kind := Kind_stream st'\<rparr>, m') \<and>
    out_wf pb z st' \<and> so_wr st' = [] \<and> same_settings st st' \<and>
    sent_payloads pb z st' @ held_payloads st' = sent_payloads pb z st @ held_payloads st @
      (if passes out p then [output_override st p] else [])"
proof (cases "passes out p")
  case True
  from output_nmsg_write_ok [OF wf cod ok wr r fit, of ts rnd]
  obtain st' m' where "output_nmsg_write pb z ok ts rnd st m = Ret (nmsg_res_success, st', m')"
    "out_wf pb z st'" "so_wr st' = []" "same_settings st st'"
    "sent_payloads pb z st' @ held_payloads st' =
      sent_payloads pb z st @ held_payloads st @ [output_override st p]"
    by blast
  with True r k show ?thesis
    by (auto simp: nmsg_output_write_def serialize_ready [OF r] with_np_def ready_def passes_def)
next
  case False
  have "out\<lparr>o_kind := Kind_stream st\<rparr> = out" using k by simp
  with False r wf wr show ?thesis
    by (intro exI [of _ st] exI [of _ m])
      (auto simp: nmsg_output_write_def serialize_ready [OF r] with_np_def ready_def passes_def
        same_settings_def)
qed

lemma nmsg_output_writes_ok:
  assumes "o_kind out = Kind_stream st" and "out_wf pb z st" and "codecs_ok pb z" and "\<forall>i. ok i"
    and "so_wr st = []" and "list_all2 ready ms ps" and "\<forall>p \<in> set ps. fits pb st p"
  shows "\<exists>st'. nmsg_output_writes pb z pres ok ts rnd out ms =
      Ret (nmsg_res_success, out\<lparr>o_kind := Kind_stream st'\<rparr>) \<and> out_wf pb z st' \<and> so_wr st' = [] \<and>
    same_settings st st' \<and>
    sent_payloads pb z st' @ held_payloads st' = sent_payloads pb z st @ held_payloads st @
      map (output_override st) (filter (passes out) ps)"
  using assms(6,1,2,5,7)
proof (induction arbitrary: out st rule: list_all2_induct)
  case Nil
  have "out\<lparr>o_kind := Kind_stream st\<rparr> = out" using Nil by simp
  with Nil show ?case by (intro exI [of _ st]) (simp add: same_settings_def)
next
  case (Cons m ms p ps)
  have fit: "fits pb st p" using Cons.prems by simp
  from nmsg_output_write_ok [OF Cons.prems(1,2) assms(3,4) Cons.prems(3) Cons.hyps(1) fit,
      of pres ts rnd]
  obtain st1 m' where st1: "nmsg_output_write pb z pres ok ts rnd out m =
      Ret (nmsg_res_success, out\<lparr>o_kind := Kind_stream st1\<rparr>, m')" "out_wf pb z st1" "so_wr st1 = []"
    "same_settings st st1" "sent_payloads pb z st1 @ held_payloads st1 = sent_payloads pb z st @
      held_payloads st @ (if passes out p then [output_override st p] else [])"
    by blast
  have fits: "\<forall>p \<in> set ps. fits pb st1 p"
    using Cons.prems(4) st1(4) by (simp add: fits_def same_settings_def)
  have pa: "passes (out\<lparr>o_kind := Kind_stream st1\<rparr>) = passes out"
    by (simp add: passes_def fun_eq_iff)
  from Cons.IH [of "out\<lparr>o_kind := Kind_stream st1\<rparr>" st1] st1(2,3) fits
  obtain st' where "nmsg_output_writes pb z pres ok ts rnd (out\<lparr>o_kind := Kind_stream st1\<rparr>) ms =
      Ret (nmsg_res_success, out\<lparr>o_kind := Kind_stream st'\<rparr>)" "out_wf pb z st'" "so_wr st' = []"
    "same_settings st1 st'" "sent_payloads pb z st' @ held_payloads st' = sent_payloads pb z st1 @
      held_payloads st1 @ map (output_override st1) (filter (passes out) ps)"
    unfolding pa by auto
  with st1 show ?case
    by (intro exI [of _ st']) (auto simp: same_settings_def)
qed

lemma output_session_ok:
  assumes "o_kind out = Kind_stream st" and "out_wf pb z st" and "codecs_ok pb z" and "\<forall>i. ok i"
    and "so_wr st = []" and "list_all2 ready ms ps" and "\<forall>p \<in> set ps. fits pb st p"
  shows "\<exists>out1 out2 st2. nmsg_output_writes pb z pres ok ts rnd out ms = Ret (nmsg_res_success, out1) \<and>
    nmsg_output_close pb z ok out1 = Ret (nmsg_res_success, out2) \<and> o_kind out2 = Kind_stream st2 \<and>
    held_payloads st2 = [] \<and> out_wf pb z st2 \<and> same_settings st st2 \<and>
    sent_payloads pb z st2 = sent_payloads pb z st @ held_payloads st @
      map (output_override st) (filter (passes out) ps)"
proof -
  from nmsg_output_writes_ok [OF assms, of pres ts rnd]
  obtain st1 where st1: "nmsg_output_writes pb z pres ok ts rnd out ms =
      Ret (nmsg_res_success, out\<lparr>o_kind := Kind_stream st1\<rparr>)" "out_wf pb z st1" "so_wr st1 = []"
    "same_settings st st1" "sent_payloads pb z st1 @ held_payloads st1 = sent_payloads pb z st @ held_payloads st @
      map (output_override st) (filter (passes out) ps)"
    by blast
  obtain c where c: "so_c st1 = Some c" using st1(2) by (auto simp: out_wf_def)
  show ?thesis
  proof (cases "held_payloads st1 = []")
    case True
    then have "c_payloads c = []" by (simp add: held_payloads_def c)
    with st1 True c show ?thesis
      by (simp add: nmsg_output_close_def output_nmsg_flush_def nmsg_container_get_num_payloads_def)
  next
    case False
    from output_write_container_ok [OF st1(2) assms(3,4) st1(3) False]
    obtain st2 where st2: "output_nmsg_write_container pb z ok st1 = Ret (nmsg_res_success, st2)"
      "so_c st2 = Some (fresh_container st2)" "out_wf pb z st2" "same_settings st1 st2"
      "sent_payloads pb z st2 = sent_payloads pb z st1 @ held_payloads st1"
      by blast
    have "held_payloads st2 = []" by (simp add: held_payloads_def st2(2) fresh_container_def)
    moreover have "0 < nmsg_container_get_num_payloads c"
      using False c by (auto simp: held_payloads_def nmsg_container_get_num_payloads_def)
    moreover note same_settings_trans [OF st1(4) st2(4)]
    ultimately show ?thesis
      using st1 st2 c by (simp add: nmsg_output_close_def output_nmsg_flush_def)
  qed
qed

text \<open>
  C12. On a file or socket stream whose writes succeed, messages that each fit one container of the stream are
  delivered completely and in order: after any number of writes and a close, decoding the
  containers written yields exactly the payloads that pass the filter, with the stream's source,
  operator and group, and nothing is left behind. Compression, buffering and sequencing make no
  difference. A message that does not fit is written as fragments and is not covered.
\<close>

theorem output_session_delivers:
  assumes "o_kind out = Kind_stream st" and "out_wf pb z st" and "codecs_ok pb z" and "\<forall>i. ok i"
    and "so_wr st = []" and "list_all2 ready ms ps" and "\<forall>p \<in> set ps. fits pb st p"
  shows "\<exists>out1 out2 st2. nmsg_output_writes pb z pres ok ts rnd out ms = Ret (nmsg_res_success, out1) \<and>
    nmsg_output_close pb z ok out1 = Ret (nmsg_res_success, out2) \<and> o_kind out2 = Kind_stream st2 \<and>
    held_payloads st2 = [] \<and>
    sent_payloads pb z st2 = sent_payloads pb z st @ held_payloads st @
      map (output_override st) (filter (passes out) ps)"
  using output_session_ok [OF assms, of pres ts rnd] by blast

end
