(* ===== verification/Output_Frag.thy ===== *)
theory Output_Frag
  imports Output
begin

text \<open>
  Properties of the fragment writer of output_frag.c: what it puts on the wire, the size of the
  datagrams, and the inputs on which it goes wrong. The code is modelled in theory Output.
\<close>

section \<open>Cutting\<close>

lemma chunks_simps [simp]: "chunks n [] = []" "bs \<noteq> [] \<Longrightarrow> 0 < n \<Longrightarrow> chunks n bs = take n bs # chunks n (drop n bs)"
  by (simp_all add: chunks.simps [of n])

lemma concat_chunks: "0 < n \<Longrightarrow> concat (chunks n bs) = bs"
proof (induction n bs rule: chunks.induct)
  case (1 n bs)
  then show ?case by (cases "bs = []") auto
qed

lemma chunks_bounds: "0 < n \<Longrightarrow> x \<in> set (chunks n bs) \<Longrightarrow> x \<noteq> [] \<and> length x \<le> n"
proof (induction n bs rule: chunks.induct)
  case (1 n bs)
  then show ?case by (cases "bs = []") auto
qed

lemma length_chunks: "0 < n \<Longrightarrow> length (chunks n bs) = (length bs + (n - 1)) div n"
proof (induction n bs rule: chunks.induct)
  case (1 n bs)
  show ?case
  proof (cases "bs = []")
    case False
    with "1.prems" have ih: "length (chunks n (drop n bs)) = (length (drop n bs) + (n - 1)) div n"
      by (intro "1.IH") auto
    show ?thesis
    proof (cases "n \<le> length bs")
      case True
      then have "length bs + (n - 1) = (length (drop n bs) + (n - 1)) + n" by simp
      then have "(length bs + (n - 1)) div n = (length (drop n bs) + (n - 1)) div n + 1"
        using "1.prems" by (simp only: div_add_self2)
      with False "1.prems" ih show ?thesis by simp
    next
      case l: False
      have "0 < length bs" using False by simp
      then have "length bs + (n - 1) = (length bs - 1) + n" using "1.prems" by linarith
      then have "(length bs + (n - 1)) div n = (length bs - 1) div n + 1"
        using "1.prems" by (simp only: div_add_self2)
      then have "(length bs + (n - 1)) div n = 1"
        using l by simp
      moreover have "length (drop n bs) + (n - 1) < n" using l "1.prems" by simp
      ultimately show ?thesis using False "1.prems" ih by simp
    qed
  qed (use "1.prems" in simp)
qed

text \<open>\<^verbatim>\<open>len / max_fragsz\<close> is the index of the last piece exactly when the division leaves a rest.\<close>

lemma length_chunks_last:
  assumes "0 < n" and "bs \<noteq> []"
  shows "length (chunks n bs) = length bs div n + (if length bs mod n = 0 then 0 else 1)"
proof -
  have "(length bs + (n - 1)) div n = length bs div n + (length bs mod n + (n - 1)) div n"
    by (metis assms(1) div_add1_eq div_less diff_less less_numeral_extra(1) add_0_right
        mod_less zero_less_one)
  moreover have "(length bs mod n + (n - 1)) div n = (if length bs mod n = 0 then 0 else 1)"
  proof (cases "length bs mod n = 0")
    case False
    then show ?thesis
      using assms(1) mod_less_divisor [OF assms(1), of "length bs"] by (auto intro!: div_nat_eqI)
  qed (use assms(1) in simp)
  ultimately show ?thesis using length_chunks [OF assms(1), of bs] by simp
qed

section \<open>The datagrams\<close>

definition frag_packed :: "pbc \<Rightarrow> nmsg_fragment \<Rightarrow> nat \<Rightarrow> byte list \<Rightarrow> byte list" where
  "frag_packed pb nf i bs = nmsg__nmsg_fragment__pack pb (nf\<lparr>current := of_nat i, fragment := Some bs\<rparr>)"

definition frag_datagram :: "pbc \<Rightarrow> byte \<Rightarrow> nmsg_fragment \<Rightarrow> nat \<Rightarrow> byte list \<Rightarrow> byte list" where
  "frag_datagram pb flags nf i bs =
     header_serialize flags (of_nat (length (frag_packed pb nf i bs))) @ frag_packed pb nf i bs"

fun frag_datagrams :: "pbc \<Rightarrow> byte \<Rightarrow> nmsg_fragment \<Rightarrow> nat \<Rightarrow> byte list list \<Rightarrow> byte list list" where
  "frag_datagrams pb flags nf i [] = []"
| "frag_datagrams pb flags nf i (bs # rest) =
     frag_datagram pb flags nf i bs # frag_datagrams pb flags nf (i + 1) rest"

lemma frag_datagrams_map:
  "frag_datagrams pb flags nf i cs =
     map (\<lambda>k. frag_datagram pb flags nf (i + k) (cs ! k)) [0..<length cs]"
proof (induction cs arbitrary: i)
  case (Cons bs cs)
  have "map (\<lambda>k. frag_datagram pb flags nf (i + k) ((bs # cs) ! k)) [0..<length (bs # cs)] =
      frag_datagram pb flags nf i bs #
      map (\<lambda>k. frag_datagram pb flags nf (i + Suc k) (cs ! k)) [0..<length cs]"
    by (simp only: length_Cons upt_conv_Cons map_Suc_upt [symmetric] list.map map_map zero_less_Suc)
      (simp add: comp_def)
  with Cons.IH [of "i + 1"] show ?case by simp
qed simp

lemma opt_size_frag_crc: "opt_size (\<lambda>v::u32. 1 + varint_size (unat v)) x \<le> 6"
  using varint_size_u32 by (cases x) auto

text \<open>The packed fragment, with and without a bound on the number of fragments.\<close>

lemma length_frag_packed:
  assumes "pb_sizes pb" and "length bs < 2 ^ 21"
  shows "length (frag_packed pb nf i bs) \<le> length bs + 28"
    and "i < 2 ^ 14 \<Longrightarrow> unat (last_frag nf) < 2 ^ 14 \<Longrightarrow> length (frag_packed pb nf i bs) \<le> length bs + 22"
proof -
  let ?f = "nf\<lparr>current := of_nat i, fragment := Some bs\<rparr>"
  have l: "length (frag_packed pb nf i bs) = fragment_wire_size ?f"
    using assms(1) by (simp add: frag_packed_def pb_sizes_def)
  have v: "varint_size (length bs) \<le> 3"
    using assms(2) by (intro varint_size_le) simp_all
  note u = varint_size_u32 [of "frag_id nf"] varint_size_u32 [of "of_nat i"]
    varint_size_u32 [of "last_frag nf"] opt_size_frag_crc [of "frag_crc nf"]
  show "length (frag_packed pb nf i bs) \<le> length bs + 28"
    using u v unfolding l fragment_wire_size_def by simp
  assume i: "i < 2 ^ 14" "unat (last_frag nf) < 2 ^ 14"
  then have "varint_size (unat (of_nat i :: u32)) \<le> 2" "varint_size (unat (last_frag nf)) \<le> 2"
    by (auto intro!: varint_size_le simp: unat_of_nat_u32)
  then show "length (frag_packed pb nf i bs) \<le> length bs + 22"
    using u v unfolding l fragment_wire_size_def by simp
qed

lemma output_frag_loop_ok:
  assumes "pb_sizes pb" and "\<forall>i. ok i" and "so_type st \<in> {Out_file, Out_sock}" and "so_wr st = []"
    and "so_bufsz st \<le> 2 ^ 20" and "\<forall>x \<in> set cs. length x + 32 \<le> so_bufsz st"
  shows "output_frag_loop pb ok flags nf i cs nmsg_res_success st =
    Ret (nmsg_res_success, st\<lparr>so_out := so_out st @ frag_datagrams pb flags nf i cs\<rparr>)"
  using assms(3-6)
proof (induction cs arbitrary: i st)
  case (Cons bs cs)
  have "length bs < 2 ^ 21" using Cons.prems by simp
  from length_frag_packed(1) [OF assms(1) this, of nf i] Cons.prems(4)
  have "length (frag_packed pb nf i bs) \<le> so_bufsz st + 32" by simp
  then have w: "mem_write (so_bufsz st + 32)
      (nmsg__nmsg_fragment__pack pb (nf\<lparr>current := of_nat i, fragment := Some bs\<rparr>)) =
      Ret (frag_packed pb nf i bs)"
    by (simp add: mem_write_def frag_packed_def)
  have "frag_datagram pb flags nf i bs \<noteq> []"
    using length_header_serialize [of flags "of_nat (length (frag_packed pb nf i bs))"]
    by (auto simp: frag_datagram_def simp del: length_header_serialize)
  from output_emit_ok [OF Cons.prems(1,2) this]
  have "output_emit st (frag_datagram pb flags nf i bs) =
      Ret (nmsg_res_success, st\<lparr>so_out := so_out st @ [frag_datagram pb flags nf i bs]\<rparr>)" .
  with w Cons assms(2) show ?case by (simp add: frag_datagram_def)
qed simp

text \<open>
  The fragments of the container \<open>c\<close>: their common fields and the pieces of its packed form.
\<close>

definition frag_body :: "pbc \<Rightarrow> zlib \<Rightarrow> nmsg_stream_output \<Rightarrow> nmsg_container \<Rightarrow> byte list" where
  "frag_body pb z st c = container_body pb z c (so_do_zlib st) (so_sequence st) (so_sequence_id st)"

definition frag_fields :: "u32 \<Rightarrow> nat \<Rightarrow> byte list \<Rightarrow> nmsg_fragment" where
  "frag_fields rnd max_fragsz packed =
     \<lparr>frag_id = rnd, current = 0, last_frag = of_nat (length packed div max_fragsz),
      fragment = None, frag_crc = Some (bswap32 (crc32c_spec packed))\<rparr>"

definition frag_flags :: "nmsg_stream_output \<Rightarrow> byte" where
  "frag_flags st = (if so_do_zlib st then NMSG_FLAG_ZLIB else 0) OR NMSG_FLAG_FRAGMENT"

text \<open>A stream as it is when \<^verbatim>\<open>nmsg_container_add\<close> has answered \<^verbatim>\<open>container_overfull\<close>.\<close>

definition overfull_wf :: "pbc \<Rightarrow> nmsg_stream_output \<Rightarrow> nmsg_container \<Rightarrow> bool" where
  "overfull_wf pb st c \<longleftrightarrow> so_type st \<in> {Out_file, Out_sock} \<and> 512 \<le> so_bufsz st \<and>
     so_bufsz st \<le> 2 ^ 20 \<and> so_wr st = [] \<and> so_c st = Some c \<and> container_wf pb c \<and>
     c_payloads c \<noteq> []"

lemma output_frag_write_eq:
  assumes wf: "overfull_wf pb st c" and pb: "pb_sizes pb" "zlib_bound z" and ok: "\<forall>i. ok i"
  shows "\<exists>st'. output_frag_write pb z ok rnd st = Ret (nmsg_res_success, st') \<and>
    so_c st' = Some (fresh_container st) \<and> so_wr st' = [] \<and>
    so_out st' = so_out st @
      (let packed = frag_body pb z st c; m = so_bufsz st - 32 in
       if so_do_zlib st \<and> length packed \<le> m then [packed]
       else frag_datagrams pb (frag_flags st) (frag_fields rnd m packed) 0 (chunks m packed))"
proof -
  define m where "m = so_bufsz st - 32"
  define packed where "packed = frag_body pb z st c"
  have st: "so_type st \<in> {Out_file, Out_sock}" "512 \<le> so_bufsz st" "so_bufsz st \<le> 2 ^ 20"
    "so_wr st = []" "so_c st = Some c" "container_wf pb c" "c_payloads c \<noteq> []"
    using wf by (auto simp: overfull_wf_def)
  let ?c' = "container_sequenced c (so_sequence st) (so_sequence_id st)"
  let ?st1 = "(output_next_sequence st)\<lparr>so_c := Some ?c'\<rparr>"
  have ser: "nmsg_container_serialize pb z ok c False (so_do_zlib st) (so_sequence st)
      (so_sequence_id st) = Ret (Inr packed, ?c')"
    using nmsg_container_serialize_eq [OF st(6) pb st(7) ok, of False]
    by (simp add: packed_def frag_body_def)
  have fresh: "fresh_container (?st1\<lparr>so_out := x\<rparr>) = fresh_container st" for x
    by (simp add: fresh_container_def)
  have "packed \<noteq> []"
  proof -
    have "nmsg__nmsg__pack pb (container_image c s i) \<noteq> []" for s i
      using nmsg_wire_size_lower [OF st(6,7), of s i] pb(1) unfolding pb_sizes_def
      by (metis list.size(3) not_numeral_le_zero)
    then show ?thesis
      by (auto simp: packed_def frag_body_def container_body_def Let_def store_net32_def)
  qed
  show ?thesis
  proof (cases "so_do_zlib st \<and> length packed \<le> m")
    case True
    have "output_emit ?st1 packed = Ret (nmsg_res_success, ?st1\<lparr>so_out := so_out ?st1 @ [packed]\<rparr>)"
      by (rule output_emit_ok) (use st \<open>packed \<noteq> []\<close> in simp_all)
    then have "output_frag_write pb z ok rnd st = Ret (nmsg_res_success,
        ?st1\<lparr>so_out := so_out st @ [packed], so_c := Some (fresh_container st)\<rparr>)"
      using True st(2,5) ser ok fresh
      by (simp add: output_frag_write_def Let_def m_def [symmetric] output_new_container_ok)
    with True st(4) show ?thesis
      by (simp add: Let_def m_def [symmetric] packed_def [symmetric])
  next
    case False
    have "0 < m" using st(2) by (simp add: m_def)
    have "length x + 32 \<le> so_bufsz st" if "x \<in> set (chunks m packed)" for x
      using chunks_bounds [OF \<open>0 < m\<close> that] st(2) unfolding m_def by linarith
    then have "\<forall>x \<in> set (chunks m packed). length x + 32 \<le> so_bufsz ?st1" by simp
    then have "output_frag_loop pb ok (frag_flags st) (frag_fields rnd m packed) 0 (chunks m packed)
        nmsg_res_success ?st1 = Ret (nmsg_res_success, ?st1\<lparr>so_out := so_out ?st1 @
          frag_datagrams pb (frag_flags st) (frag_fields rnd m packed) 0 (chunks m packed)\<rparr>)"
      by (intro output_frag_loop_ok pb ok) (use st in simp_all)
    then have "output_frag_write pb z ok rnd st = Ret (nmsg_res_success,
        ?st1\<lparr>so_out := so_out st @ frag_datagrams pb (frag_flags st) (frag_fields rnd m packed) 0
          (chunks m packed), so_c := Some (fresh_container st)\<rparr>)"
      using st(2,5) ser ok fresh
      by (simp add: output_frag_write_def Let_def m_def [symmetric] if_not_P [OF False] output_new_container_ok
          frag_flags_def [symmetric] frag_fields_def [symmetric])
    with st(4) show ?thesis
      by (simp add: Let_def m_def [symmetric] packed_def [symmetric] if_not_P [OF False])
  qed
qed

section \<open>Properties\<close>

text \<open>
  C36. However large the container, every datagram that the fragment writer hands to the
  descriptor is at most as long as the configured buffer size, as long as there are fewer
  than \<open>2 ^ 14\<close> fragments.
\<close>

theorem output_frag_datagrams_fit:
  assumes "overfull_wf pb st c" and "pb_sizes pb" and "zlib_bound z" and "\<forall>i. ok i"
    and "length (frag_body pb z st c) < 2 ^ 14 * (so_bufsz st - 32)"
  shows "\<exists>st' ds. output_frag_write pb z ok rnd st = Ret (nmsg_res_success, st') \<and>
    so_out st' = so_out st @ ds \<and> (\<forall>d \<in> set ds. length d \<le> so_bufsz st)"
proof -
  define m where "m = so_bufsz st - 32"
  define packed where "packed = frag_body pb z st c"
  have m: "0 < m" "m + 32 = so_bufsz st" "m < 2 ^ 21"
    using assms(1) by (auto simp: m_def overfull_wf_def)
  have n: "length packed div m < 2 ^ 14"
    using assms(5) m(1) by (simp add: packed_def m_def div_less_iff_less_mult mult.commute)
  then have "length packed div m < 2 ^ 32" by simp
  from unat_of_nat_u32 [OF this]
  have last: "unat (last_frag (frag_fields rnd m packed)) < 2 ^ 14"
    using n by (simp add: frag_fields_def)
  have frag: "length (frag_datagram pb (frag_flags st) (frag_fields rnd m packed) k (chunks m packed ! k))
      \<le> so_bufsz st" if "k < length (chunks m packed)" for k
  proof -
    have b: "length (chunks m packed ! k) \<le> m"
      using chunks_bounds [OF m(1)] that nth_mem by blast
    have "packed \<noteq> []" using that by auto
    from length_chunks_last [OF m(1) this] that n have "k < 2 ^ 14 + 1" "k \<le> length packed div m"
      by (auto split: if_splits)
    then have k: "k < 2 ^ 14" using n by simp
    have "length (chunks m packed ! k) < 2 ^ 21" using b m(3) by simp
    from length_frag_packed(2) [OF assms(2) this k last] b m(2)
    show ?thesis by (simp add: frag_datagram_def)
  qed
  from output_frag_write_eq [OF assms(1-4), of rnd]
  obtain st' where "output_frag_write pb z ok rnd st = Ret (nmsg_res_success, st')"
    and out: "so_out st' = so_out st @ (if so_do_zlib st \<and> length packed \<le> m then [packed]
       else frag_datagrams pb (frag_flags st) (frag_fields rnd m packed) 0 (chunks m packed))"
    by (auto simp: Let_def m_def packed_def)
  moreover have "\<forall>d \<in> set (if so_do_zlib st \<and> length packed \<le> m then [packed]
       else frag_datagrams pb (frag_flags st) (frag_fields rnd m packed) 0 (chunks m packed)).
      length d \<le> so_bufsz st"
    using frag m(2) by (auto simp: frag_datagrams_map)
  ultimately show ?thesis by blast
qed

text \<open>
  A container that only compression brings under the fragment size is written without a
  header; no reader of the stream accepts it.
\<close>

theorem output_frag_headerless:
  assumes "overfull_wf pb st c" and "pb_sizes pb" and "zlib_bound z" and "\<forall>i. ok i"
    and "so_do_zlib st" and "length (frag_body pb z st c) \<le> so_bufsz st - 32" and "c_estsz c < 2 ^ 30"
  shows "\<exists>st' d. output_frag_write pb z ok rnd st = Ret (nmsg_res_success, st') \<and>
    so_out st' = so_out st @ [d] \<and>
    input_nmsg_deserialize_header d (length d) = Ret (Inl nmsg_res_magic_mismatch)"
proof -
  define packed where "packed = nmsg__nmsg__pack pb (container_image c (so_sequence st) (so_sequence_id st))"
  have "length packed + 10 \<le> c_estsz c"
    unfolding packed_def using assms(1)
    by (intro container_body_safe(1) [OF _ assms(2,3)]) (auto simp: overfull_wf_def)
  then have l: "length packed < 2 ^ 30" using assms(7) by simp
  define d where "d = frag_body pb z st c"
  have d: "d = store_net32 (of_nat (length packed)) @ deflate z packed"
    using assms(5) by (simp add: d_def frag_body_def container_body_def Let_def packed_def)
  have "store_net32 (of_nat (length packed)) \<noteq> NMSG_MAGIC"
  proof
    assume a: "store_net32 (of_nat (length packed)) = NMSG_MAGIC"
    have "load_net32 NMSG_MAGIC = Ret 0x4E4D5347" by (simp add: NMSG_MAGIC_def)
    then have "(of_nat (length packed) :: u32) = 0x4E4D5347"
      using load_store_net32 [of "of_nat (length packed)" "[]"] a by simp
    then have "unat (of_nat (length packed) :: u32) = 0x4E4D5347" by simp
    then show False using l by (simp add: unat_of_nat_u32)
  qed
  then have "input_nmsg_deserialize_header d (length d) = Ret (Inl nmsg_res_magic_mismatch)"
    by (simp add: input_nmsg_deserialize_header_def d mem_read_def)
  moreover from output_frag_write_eq [OF assms(1-4), of rnd]
  obtain st' where "output_frag_write pb z ok rnd st = Ret (nmsg_res_success, st')"
    "so_out st' = so_out st @ [d]"
    using assms(5,6) by (auto simp: Let_def d_def)
  ultimately show ?thesis by blast
qed

text \<open>
  Only the last write counts: when the descriptor refuses the first fragment of several
  and accepts the others, the writer reports success.
\<close>

theorem output_frag_masks_error:
  assumes "pb_sizes pb" and "\<forall>i. ok i" and "so_type st = Out_sock" and "so_wr st = [W_error]"
    and "so_bufsz st \<le> 2 ^ 20" and "\<forall>x \<in> set (a # b # cs). length x + 32 \<le> so_bufsz st"
  shows "output_frag_loop pb ok flags nf 0 (a # b # cs) nmsg_res_success st =
    Ret (nmsg_res_success, st\<lparr>so_wr := [], so_out := so_out st @ frag_datagrams pb flags nf 1 (b # cs)\<rparr>)"
proof -
  have "length a < 2 ^ 21" using assms(5,6) by simp
  from length_frag_packed(1) [OF assms(1) this, of nf 0] assms(6)
  have "length (frag_packed pb nf 0 a) \<le> so_bufsz st + 32" by simp
  then have w: "mem_write (so_bufsz st + 32)
      (nmsg__nmsg_fragment__pack pb (nf\<lparr>current := of_nat 0, fragment := Some a\<rparr>)) =
      Ret (frag_packed pb nf 0 a)"
    by (simp add: mem_write_def frag_packed_def)
  have "output_frag_loop pb ok flags nf 1 (b # cs) nmsg_res_success (st\<lparr>so_wr := []\<rparr>) =
      Ret (nmsg_res_success, (st\<lparr>so_wr := []\<rparr>)\<lparr>so_out := so_out (st\<lparr>so_wr := []\<rparr>) @
        frag_datagrams pb flags nf 1 (b # cs)\<rparr>)"
    by (rule output_frag_loop_ok [OF assms(1,2)]) (use assms in simp_all)
  moreover have "output_frag_loop pb ok flags nf 0 (a # b # cs) nmsg_res_success st =
      output_frag_loop pb ok flags nf 1 (b # cs) nmsg_res_errno (st\<lparr>so_wr := []\<rparr>)"
    using w assms(2-4) by (simp add: output_emit_def output_nmsg_write_sock_def)
  moreover have "output_frag_loop pb ok flags nf 1 (b # cs) r s =
      output_frag_loop pb ok flags nf 1 (b # cs) r' s" for r r' s
    by simp
  ultimately show ?thesis by simp
qed

section \<open>Witnesses\<close>

lemma ref_codecs_ok: "codecs_ok ref_pb ref_zlib"
  by (simp add: codecs_ok_def)

definition sample_output :: "out_type \<Rightarrow> nmsg_container \<Rightarrow> bool \<Rightarrow> nmsg_stream_output" where
  "sample_output ty c zl = \<lparr>so_type = ty, so_c = Some c, so_bufsz = 512, so_buffered = True,
     so_source = 0, so_operator = 3, so_group = 0, so_do_zlib = zl, so_do_sequence = True,
     so_sequence = 9, so_sequence_id = 77, so_wr = [], so_out = []\<rparr>"

text \<open>A container with one payload of a thousand octets, more than fits 512.\<close>

definition big_payload :: nmsg_payload where
  "big_payload = sample_payload\<lparr>payload := Some (replicate 1000 0)\<rparr>"

definition big_container :: nmsg_container where
  "big_container = \<lparr>c_payloads = [Some big_payload], c_sequence = None, c_sequence_id = None,
     c_bufsz = 512, c_estsz = 1053, c_do_sequence = True\<rparr>"

lemma big_payload_size: "nmsg_payload_size ref_pb big_payload = 1016"
  by (simp add: nmsg_payload_size_exact big_payload_def sample_payload_def payload_wire_size_def
      varint_size_steps)

lemma big_container_wf: "container_wf ref_pb big_container"
  by (simp add: container_wf_def big_container_def big_payload_size estsz_step_def
      small_payload_def) (simp add: big_payload_def)

lemma big_output_wf: "overfull_wf ref_pb (sample_output Out_sock big_container False) big_container"
  by (simp add: overfull_wf_def sample_output_def big_container_wf) (simp add: big_container_def)

theorem output_write_file_complete_witness:
  "concat (so_out (snd (output_nmsg_write_file
     ((sample_output Out_file big_container False)\<lparr>so_wr := [W_bytes 1, W_eintr, W_bytes 0, W_bytes 2]\<rparr>)
     [1, 2, 3, 4, 5]))) = [1, 2, 3, 4, 5]"
  using output_write_file_complete [of "(sample_output Out_file big_container False)
      \<lparr>so_wr := [W_bytes 1, W_eintr, W_bytes 0, W_bytes 2]\<rparr>" "[1, 2, 3, 4, 5]"]
  by (simp add: sample_output_def)

theorem output_frag_datagrams_fit_witness:
  "\<exists>st' ds. output_frag_write ref_pb ref_zlib (\<lambda>_. True) 5
      (sample_output Out_sock big_container False) = Ret (nmsg_res_success, st') \<and>
    so_out st' = ds \<and> (\<forall>d \<in> set ds. length d \<le> 512)"
proof -
  have "length (frag_body ref_pb ref_zlib (sample_output Out_sock big_container False) big_container)
      + 10 \<le> 1053"
    using container_body_safe(1) [OF big_container_wf ref_pb_sizes ref_zlib_bound, of 9 77]
    by (simp add: frag_body_def container_body_def sample_output_def big_container_def)
  then have "length (frag_body ref_pb ref_zlib (sample_output Out_sock big_container False) big_container)
      < 2 ^ 14 * (so_bufsz (sample_output Out_sock big_container False) - 32)"
    by (simp add: sample_output_def)
  from output_frag_datagrams_fit [OF big_output_wf ref_pb_sizes ref_zlib_bound _ this, of "\<lambda>_. True" 5]
  show ?thesis by (auto simp: sample_output_def)
qed

definition small_output :: nmsg_stream_output where
  "small_output = sample_output Out_sock sample_container True"

theorem output_frag_headerless_witness:
  "\<exists>st' d. output_frag_write ref_pb ref_zlib (\<lambda>_. True) 5 small_output = Ret (nmsg_res_success, st') \<and>
    so_out st' = [d] \<and> input_nmsg_deserialize_header d (length d) = Ret (Inl nmsg_res_magic_mismatch)"
proof -
  have wf: "overfull_wf ref_pb small_output sample_container"
    by (simp add: overfull_wf_def small_output_def sample_output_def sample_container_wf)
      (simp add: sample_container_def)
  have "c_payloads sample_container \<noteq> []" by (simp add: sample_container_def)
  from container_body_safe(2) [OF sample_container_wf ref_pb_sizes ref_zlib_bound this, of 9 77]
  have "length (frag_body ref_pb ref_zlib small_output sample_container) \<le> so_bufsz small_output - 32"
    by (simp add: frag_body_def small_output_def sample_output_def sample_container_def)
  from output_frag_headerless [OF wf ref_pb_sizes ref_zlib_bound _ _ this, of "\<lambda>_. True" 5]
  show ?thesis by (auto simp: small_output_def sample_output_def sample_container_def)
qed

theorem output_frag_masks_error_witness:
  "\<exists>st'. output_frag_loop ref_pb (\<lambda>_. True) 2 (frag_fields 1 480 [7, 8, 9]) 0 [[7], [8], [9]]
      nmsg_res_success (small_output\<lparr>so_wr := [W_error]\<rparr>) = Ret (nmsg_res_success, st') \<and>
    length (so_out st') = 2"
  using output_frag_masks_error [OF ref_pb_sizes, of "\<lambda>_. True" "small_output\<lparr>so_wr := [W_error]\<rparr>"
      "[7]" "[8]" "[[9]]" 2 "frag_fields 1 480 [7, 8, 9]"]
  by (simp add: small_output_def sample_output_def del: output_frag_loop.simps)

theorem output_session_delivers_witness:
  "\<exists>out out1 out2 st2. output_open_stream_base (\<lambda>_. True) 77 Out_sock 0 = Some out \<and>
    nmsg_output_writes ref_pb ref_zlib (\<lambda>_. nmsg_res_success) (\<lambda>_. True) \<lparr>tv_sec = 0, tv_nsec = 0\<rparr> 5
      out [sample_payload_message, sample_payload_message] = Ret (nmsg_res_success, out1) \<and>
    nmsg_output_close ref_pb ref_zlib (\<lambda>_. True) out1 = Ret (nmsg_res_success, out2) \<and>
    o_kind out2 = Kind_stream st2 \<and>
    sent_payloads ref_pb ref_zlib st2 = [sample_payload, sample_payload]"
proof -
  obtain out where out: "output_open_stream_base (\<lambda>_. True) 77 Out_sock 0 = Some out"
    by (simp add: output_open_stream_base_def nmsg_container_init_def clamp_bufsz_def)
  then have st0: "\<exists>st. o_kind out = Kind_stream st \<and> output_override st = id \<and> \<not> o_do_filter out"
    by (auto simp: output_open_stream_base_def nmsg_container_init_def clamp_bufsz_def
        output_override_def fun_eq_iff)
  from output_open_wf [OF out, of ref_pb] obtain st where st: "o_kind out = Kind_stream st"
    "out_wf ref_pb ref_zlib st" "held_payloads st = []" "so_wr st = []" "so_out st = []"
    "so_bufsz st = 512" "so_do_sequence st" "output_override st = id" "\<not> o_do_filter out"
    using st0 by (auto simp: clamp_bufsz_def)
  have r: "list_all2 ready [sample_payload_message, sample_payload_message] [sample_payload, sample_payload]"
    by (simp add: ready_def sample_payload_message_def)
  have f: "\<forall>p \<in> set [sample_payload, sample_payload]. fits ref_pb st p"
    using st by (simp add: fits_def sample_payload_size estsz_step_def small_payload_def)
      (simp add: sample_payload_def)
  from output_session_delivers [OF st(1,2) ref_codecs_ok _ st(4) r f, of "\<lambda>_. True"
      "\<lambda>_. nmsg_res_success" "\<lparr>tv_sec = 0, tv_nsec = 0\<rparr>" 5] out st
  show ?thesis by (auto simp: sent_payloads_def passes_def simp del: nmsg_output_writes.simps)
qed

end
