(* ===== verification/Stream.thy ===== *)
theory Stream
  imports Container "HOL-Library.RBT" "HOL-Library.List_Lexorder"
begin

text \<open>
  The state of an input stream (\<^verbatim>\<open>struct nmsg_stream_input\<close> and the structures it owns in
  private.h), and the interface of the red-black tree that holds partly received containers.
\<close>

section \<open>Socket addresses\<close>

text \<open>
  A \<^verbatim>\<open>struct sockaddr_storage\<close> is the list of its octets, laid out as on Linux: the address
  family in host order, then the port, then (after the flow label of IPv6) the address.
\<close>

type_synonym sockaddr = "byte list"

definition ss_family :: "sockaddr \<Rightarrow> byte list" where "ss_family ss = take 2 ss"
definition sin_port :: "sockaddr \<Rightarrow> byte list" where "sin_port ss = take 2 (drop 2 ss)"
definition sin_addr :: "sockaddr \<Rightarrow> byte list" where "sin_addr ss = take 4 (drop 4 ss)"
definition sin6_addr :: "sockaddr \<Rightarrow> byte list" where "sin6_addr ss = take 16 (drop 8 ss)"

definition AF_UNSPEC :: "byte list" where "AF_UNSPEC = [0, 0]"
definition AF_INET :: "byte list" where "AF_INET = [2, 0]"
definition AF_INET6 :: "byte list" where "AF_INET6 = [10, 0]"

lemma AF_distinct [simp]:
  "AF_INET \<noteq> AF_INET6" "AF_INET6 \<noteq> AF_INET" "AF_INET \<noteq> AF_UNSPEC" "AF_INET6 \<noteq> AF_UNSPEC"
  "AF_UNSPEC \<noteq> AF_INET" "AF_UNSPEC \<noteq> AF_INET6"
  by (simp_all add: AF_INET_def AF_INET6_def AF_UNSPEC_def)

section \<open>Partly received containers\<close>

text \<open>
  \<^verbatim>\<open>struct nmsg_frag_key\<close>, ordered by \<^verbatim>\<open>memcmp\<close> over its octets (\<^verbatim>\<open>frag_cmp\<close>).
\<close>

datatype nmsg_frag_key = Frag_Key (key_id: u32) (key_crc: u32) (key_addr: sockaddr)

definition host32 :: "u32 \<Rightarrow> byte list" where
  "host32 x = rev (store_net32 x)"

fun key_octets :: "nmsg_frag_key \<Rightarrow> byte list" where
  "key_octets (Frag_Key i c a) = host32 i @ host32 c @ a"

lemma store_net32_inject: "store_net32 x = store_net32 y \<longleftrightarrow> x = y"
  by (metis load_store_net32 run.inject)

lemma host32_inject [simp]: "host32 x = host32 y \<longleftrightarrow> x = y"
  by (simp add: host32_def store_net32_inject)

lemma length_host32 [simp]: "length (host32 x) = 4"
  by (simp add: host32_def)

lemma key_octets_inject [simp]: "key_octets k = key_octets l \<longleftrightarrow> k = l"
  by (cases k; cases l) auto

text \<open>\<^verbatim>\<open>memcmp\<close> reads octet by octet; the keys that are compared have the same length.\<close>

fun memcmp :: "byte list \<Rightarrow> byte list \<Rightarrow> int" where
  "memcmp (a # as) (b # bs) = (if a < b then -1 else if b < a then 1 else memcmp as bs)"
| "memcmp [] [] = 0"
| "memcmp [] (b # bs) = -1"
| "memcmp (a # as) [] = 1"

definition frag_cmp :: "nmsg_frag_key \<Rightarrow> nmsg_frag_key \<Rightarrow> int" where
  "frag_cmp k l = memcmp (key_octets k) (key_octets l)"

lemma memcmp_le: "memcmp xs ys \<le> 0 \<longleftrightarrow> xs \<le> ys"
  by (induction xs ys rule: memcmp.induct) auto

lemma memcmp_less: "memcmp xs ys < 0 \<longleftrightarrow> xs < ys"
  by (induction xs ys rule: memcmp.induct) auto

text \<open>The order of the tree is that of \<^verbatim>\<open>frag_cmp\<close>.\<close>

instantiation nmsg_frag_key :: linorder
begin

definition less_eq_nmsg_frag_key :: "nmsg_frag_key \<Rightarrow> nmsg_frag_key \<Rightarrow> bool" where
  "less_eq_nmsg_frag_key k l \<longleftrightarrow> frag_cmp k l \<le> 0"

definition less_nmsg_frag_key :: "nmsg_frag_key \<Rightarrow> nmsg_frag_key \<Rightarrow> bool" where
  "less_nmsg_frag_key k l \<longleftrightarrow> frag_cmp k l < 0"

instance
proof
  fix x y z :: nmsg_frag_key
  note defs = less_eq_nmsg_frag_key_def less_nmsg_frag_key_def frag_cmp_def memcmp_le memcmp_less
  show "x < y \<longleftrightarrow> x \<le> y \<and> \<not> y \<le> x" unfolding defs by (rule less_le_not_le)
  show "x \<le> x" unfolding defs by (rule order_refl)
  show "x \<le> y \<Longrightarrow> y \<le> z \<Longrightarrow> x \<le> z" unfolding defs by (rule order_trans)
  show "x \<le> y \<Longrightarrow> y \<le> x \<Longrightarrow> x = y" unfolding defs by simp
  show "x \<le> y \<or> y \<le> x" unfolding defs by (rule linear)
qed

end

text \<open>
  \<^verbatim>\<open>struct nmsg_frag\<close>: the index of the last fragment, the number still missing, the time of
  the first one, and the received pieces (NULL is \<open>None\<close>).
\<close>

record nmsg_frag =
  frag_last :: u32
  frag_rem :: u32
  frag_ts :: timespec
  frags :: "byte list option list"

section \<open>Sequence sources\<close>

record nmsg_seqsrc_key =
  k_sequence_id :: u64
  k_af :: "byte list"
  k_port :: "byte list"
  k_ip :: "byte list"

record nmsg_seqsrc =
  s_key :: nmsg_seqsrc_key
  s_sequence :: u32
  s_sequence_id :: u64
  s_count :: u64
  s_count_dropped :: u64
  s_last :: int
  s_init :: bool

section \<open>Buffers (buf.c)\<close>

text \<open>
  \<^verbatim>\<open>struct nmsg_buf\<close>: the allocated octets, the next one to read and one past the last valid
  one, as offsets.
\<close>

record nmsg_buf =
  b_bufsz :: nat
  b_data :: "byte list"
  b_pos :: nat
  b_end :: nat

definition nmsg_buf_avail :: "nmsg_buf \<Rightarrow> nat run" where
  "nmsg_buf_avail b = (if b_pos b \<le> b_end b then Ret (b_end b - b_pos b) else Abort)"

definition nmsg_buf_used :: "nmsg_buf \<Rightarrow> nat run" where
  "nmsg_buf_used b = Ret (b_pos b)"

definition nmsg_buf_reset :: "nmsg_buf \<Rightarrow> nmsg_buf" where
  "nmsg_buf_reset b = b\<lparr>b_pos := 0, b_end := 0\<rparr>"

section \<open>The stream\<close>

datatype nmsg_stream_type = Stream_file | Stream_sock | Stream_xs | Stream_null

record nmsg_stream_input =
  si_type :: nmsg_stream_type
  si_buf :: nmsg_buf
  si_nmsg :: "nmsg_nmsg option"
  si_np_index :: nat
  si_nc_size :: nat
  si_nft :: "(nmsg_frag_key, nmsg_frag) rbt"
  si_now :: timespec
  si_lastgc :: timespec
  si_nfrags :: u32
  si_flags :: byte
  si_zb :: zstream
  si_source :: u32
  si_operator :: u32
  si_group :: u32
  si_blocking_io :: bool
  si_verify_seqsrc :: bool
  si_seqsrcs :: "nmsg_seqsrc list"
  si_addr_ss :: sockaddr
  si_count_recv :: u64
  si_count_drop :: u64

section \<open>The interface of the tree\<close>

text \<open>
  What input_frag.c asks of libmy/tree.h: a finite map with insertion, removal and an in-order
  walk. The model uses the red-black trees of the library.
\<close>

locale keyed_store =
  fixes find :: "'s \<Rightarrow> 'k \<Rightarrow> 'v option"
    and ins :: "'k \<Rightarrow> 'v \<Rightarrow> 's \<Rightarrow> 's"
    and del :: "'k \<Rightarrow> 's \<Rightarrow> 's"
    and walk :: "'s \<Rightarrow> ('k \<times> 'v) list"
  assumes find_ins: "find (ins k v s) j = (if j = k then Some v else find s j)"
    and find_del: "find (del k s) j = (if j = k then None else find s j)"
    and walk_find: "(k, v) \<in> set (walk s) \<longleftrightarrow> find s k = Some v"
    and walk_distinct: "distinct (map fst (walk s))"
begin

definition entries_all :: "('k \<Rightarrow> 'v \<Rightarrow> bool) \<Rightarrow> 's \<Rightarrow> bool" where
  "entries_all P s \<longleftrightarrow> (\<forall>k v. find s k = Some v \<longrightarrow> P k v)"

lemma entries_all_ins: "entries_all P s \<Longrightarrow> P k v \<Longrightarrow> entries_all P (ins k v s)"
  by (auto simp: entries_all_def find_ins)

lemma entries_all_del: "entries_all P s \<Longrightarrow> entries_all P (del k s)"
  by (auto simp: entries_all_def find_del)

text \<open>The walk that removes the entries satisfying a predicate, as a garbage collection does.\<close>

definition purge :: "('k \<Rightarrow> 'v \<Rightarrow> bool) \<Rightarrow> 's \<Rightarrow> 's" where
  "purge P s = foldl (\<lambda>t (k, v). if P k v then del k t else t) s (walk s)"

lemma find_foldl_del:
  "find (foldl (\<lambda>t (k, v). if P k v then del k t else t) s xs) j =
     (if \<exists>v. (j, v) \<in> set xs \<and> P j v then None else find s j)"
  by (induction xs arbitrary: s) (auto simp: find_del)

lemma find_purge:
  "find (purge P s) j = (case find s j of Some v \<Rightarrow> if P j v then None else Some v | None \<Rightarrow> None)"
  by (auto simp: purge_def find_foldl_del walk_find split: option.splits)

lemma finite_dom: "finite (dom (find s))"
proof -
  have "dom (find s) = fst ` set (walk s)"
    by (force simp: dom_def walk_find [symmetric])
  then show ?thesis by simp
qed

lemma card_dom_ins: "find s k = None \<Longrightarrow> card (dom (find (ins k v s))) = card (dom (find s)) + 1"
proof -
  assume "find s k = None"
  moreover have "dom (find (ins k v s)) = insert k (dom (find s))"
    by (auto simp: find_ins split: if_splits)
  ultimately show ?thesis by (simp add: finite_dom domIff)
qed

lemma card_dom_upd: "find s k = Some u \<Longrightarrow> card (dom (find (ins k v s))) = card (dom (find s))"
proof -
  assume "find s k = Some u"
  then have "dom (find (ins k v s)) = dom (find s)"
    by (auto simp: find_ins split: if_splits)
  then show ?thesis by simp
qed

lemma card_dom_del: "find s k = Some v \<Longrightarrow> card (dom (find (del k s))) + 1 = card (dom (find s))"
proof -
  assume "find s k = Some v"
  moreover have "dom (find (del k s)) = dom (find s) - {k}"
    by (auto simp: find_del split: if_splits)
  ultimately show ?thesis
    using card_Suc_Diff1 [OF finite_dom, of k s] by (auto simp: domIff)
qed

end

lemma rbt_entries_lookup:
  "(k, v) \<in> set (RBT.entries s) \<longleftrightarrow> RBT.lookup s k = Some v"
  using map_of_eq_Some_iff [OF RBT.distinct_entries, of s k v] by (simp add: RBT.map_of_entries)

interpretation nft: keyed_store
  "RBT.lookup :: (nmsg_frag_key, nmsg_frag) rbt \<Rightarrow> nmsg_frag_key \<Rightarrow> nmsg_frag option"
  RBT.insert RBT.delete RBT.entries
  by unfold_locales
    (auto simp: RBT.lookup_insert RBT.lookup_delete restrict_map_def rbt_entries_lookup RBT.distinct_entries)

end
