(* ===== verification/Input_Frag.thy ===== *)
theory Input_Frag
  imports Stream
begin

text \<open>
  input_frag.c: collecting the fragments of containers that were too large for one datagram,
  reassembling them, and expiring the incomplete ones.
\<close>

section \<open>The code\<close>

text \<open>
  \<^verbatim>\<open>reassemble_frags\<close> on the complete entry \<open>f\<close> stored under \<open>k\<close>. Allocation 2 is the buffer,
  rounded up to a kilobyte, whose tail holds the arbitrary octets \<open>junk\<close>; allocation 3 is the
  inflated container. The test of the unpacked container is on the pointer to the pointer, so
  the result is success whatever was unpacked.
\<close>

definition frag_done :: "nmsg_frag_key \<Rightarrow> nmsg_stream_input \<Rightarrow> nmsg_stream_input" where
  "frag_done k st = st\<lparr>si_nfrags := si_nfrags st - 1, si_nft := RBT.delete k (si_nft st)\<rparr>"

definition padded_len :: "nat \<Rightarrow> nat" where
  "padded_len len = (if len mod 1024 \<noteq> 0 then len + (1024 - len mod 1024) else len)"

definition reassemble_frags ::
  "pbc \<Rightarrow> zlib \<Rightarrow> (nat \<Rightarrow> bool) \<Rightarrow> (nat \<Rightarrow> byte) \<Rightarrow> nmsg_stream_input \<Rightarrow> nmsg_frag_key \<Rightarrow> nmsg_frag \<Rightarrow>
     (nmsg_res \<times> nmsg_stream_input) run" where
  "reassemble_frags pb z ok junk st k f =
     (if length (frags f) < unat (frag_last f) + 1 then Fault
      else if None \<in> set (frags f) then Abort
      else
        let data = concat (map the (frags f)); len = length data;
            mem = data @ map junk [0..<padded_len len - len]
        in if \<not> ok 2 then Ret (nmsg_res_memfail, st)
        else if flag_set (si_flags st) NMSG_FLAG_ZLIB then
          run_bind (nmsg_zbuf_inflate z (ok 3) (si_zb st) len mem) (\<lambda>(r, zb).
            case r of
              Inl e \<Rightarrow> Ret (e, frag_done k (st\<lparr>si_zb := zb\<rparr>))
            | Inr u_buf \<Rightarrow> Ret (nmsg_res_success,
                frag_done k (st\<lparr>si_zb := zb, si_nmsg := nmsg__nmsg__unpack pb u_buf\<rparr>)))
        else Ret (nmsg_res_success, frag_done k (st\<lparr>si_nmsg := nmsg__nmsg__unpack pb data\<rparr>)))"

text \<open>
  The tail of \<^verbatim>\<open>_input_frag_read\<close> once the entry \<open>f\<close> is in the tree: attach the piece, count it,
  reassemble when nothing is missing. \<^verbatim>\<open>current\<close> is not checked against the array.
\<close>

definition frag_attach ::
  "pbc \<Rightarrow> zlib \<Rightarrow> (nat \<Rightarrow> bool) \<Rightarrow> (nat \<Rightarrow> byte) \<Rightarrow> nmsg_stream_input \<Rightarrow> nmsg_frag_key \<Rightarrow> nmsg_frag \<Rightarrow>
     nmsg_fragment \<Rightarrow> (nmsg_res \<times> nmsg_stream_input) run" where
  "frag_attach pb z ok junk st k f nfrag =
     (let i = unat (current nfrag) in
      if length (frags f) \<le> i then Fault
      else if frags f ! i \<noteq> None then Ret (nmsg_res_again, st)
      else
        let f' = f\<lparr>frags := (frags f)[i := fragment nfrag], frag_rem := frag_rem f - 1\<rparr>;
            st' = st\<lparr>si_nft := RBT.insert k f' (si_nft st)\<rparr>
        in if frag_rem f' = 0 then reassemble_frags pb z ok junk st' k f'
           else Ret (nmsg_res_again, st'))"

text \<open>\<^verbatim>\<open>_input_frag_read\<close>: allocation 0 is the tree node, 1 its array of pieces.\<close>

definition frag_key :: "nmsg_stream_input \<Rightarrow> nmsg_fragment \<Rightarrow> nmsg_frag_key" where
  "frag_key st nfrag = Frag_Key (frag_id nfrag) (opt_u32 (frag_crc nfrag)) (si_addr_ss st)"

definition frag_new :: "nmsg_stream_input \<Rightarrow> nmsg_fragment \<Rightarrow> nmsg_frag" where
  "frag_new st nfrag =
     \<lparr>frag_last = last_frag nfrag, frag_rem = last_frag nfrag + 1, frag_ts = si_now st,
      frags = replicate (unat (last_frag nfrag + 1)) None\<rparr>"

definition input_frag_read ::
  "pbc \<Rightarrow> zlib \<Rightarrow> (nat \<Rightarrow> bool) \<Rightarrow> (nat \<Rightarrow> byte) \<Rightarrow> nmsg_stream_input \<Rightarrow> byte list \<Rightarrow>
     (nmsg_res \<times> nmsg_stream_input) run" where
  "input_frag_read pb z ok junk st buf =
     (case nmsg__nmsg_fragment__unpack pb buf of
        None \<Rightarrow> Ret (nmsg_res_parse_error, st)
      | Some nfrag \<Rightarrow>
          let k = frag_key st nfrag in
          (case RBT.lookup (si_nft st) k of
             None \<Rightarrow>
               if \<not> ok 0 \<or> \<not> ok 1 then Ret (nmsg_res_memfail, st)
               else
                 let f = frag_new st nfrag;
                     st' = st\<lparr>si_nft := RBT.insert k f (si_nft st), si_nfrags := si_nfrags st + 1\<rparr>
                 in frag_attach pb z ok junk st' k f nfrag
           | Some f \<Rightarrow>
               if frag_last f \<noteq> last_frag nfrag then Abort
               else frag_attach pb z ok junk st k f nfrag))"

text \<open>\<^verbatim>\<open>_input_frag_gc\<close> and \<^verbatim>\<open>_input_frag_destroy\<close>\<close>

definition NMSG_FRAG_GC_INTERVAL :: int where "NMSG_FRAG_GC_INTERVAL = 30"

definition frag_expired :: "nmsg_stream_input \<Rightarrow> nmsg_frag \<Rightarrow> bool" where
  "frag_expired st f \<longleftrightarrow> tv_sec (si_now st) - tv_sec (frag_ts f) \<ge> NMSG_FRAG_GC_INTERVAL"

definition input_frag_gc :: "nmsg_stream_input \<Rightarrow> nmsg_stream_input" where
  "input_frag_gc st =
     (if \<not> (si_nfrags st > 0 \<and>
            tv_sec (si_now st) - tv_sec (si_lastgc st) \<ge> NMSG_FRAG_GC_INTERVAL) then st
      else (foldl (\<lambda>s (k, f). if frag_expired st f then frag_done k s else s) st
              (RBT.entries (si_nft st)))\<lparr>si_lastgc := si_now st\<rparr>)"

definition input_frag_destroy :: "nmsg_stream_input \<Rightarrow> nmsg_stream_input" where
  "input_frag_destroy st =
     st\<lparr>si_nft := foldl (\<lambda>t (k, f). RBT.delete k t) (si_nft st) (RBT.entries (si_nft st))\<rparr>"

section \<open>The invariant of the tree\<close>

text \<open>
  An entry has a slot per fragment, counts the empty ones, and has at least one; the stream
  counts the entries.
\<close>

definition missing :: "byte list option list \<Rightarrow> nat" where
  "missing fs = length (filter (\<lambda>x. x = None) fs)"

definition frag_wf :: "nmsg_frag \<Rightarrow> bool" where
  "frag_wf f \<longleftrightarrow> length (frags f) = unat (frag_last f) + 1 \<and> unat (frag_rem f) = missing (frags f) \<and>
     None \<in> set (frags f)"

definition stream_wf :: "nmsg_stream_input \<Rightarrow> bool" where
  "stream_wf st \<longleftrightarrow> nft.entries_all (\<lambda>_. frag_wf) (si_nft st) \<and>
     si_nfrags st = of_nat (card (dom (RBT.lookup (si_nft st))))"

text \<open>A fragment that a sender of the protocol produces, and that agrees with its entry.\<close>

definition fragment_ok :: "nmsg_stream_input \<Rightarrow> nmsg_fragment \<Rightarrow> bool" where
  "fragment_ok st nfrag \<longleftrightarrow> current nfrag \<le> last_frag nfrag \<and> last_frag nfrag < 0xFFFFFFFF \<and>
     fragment nfrag \<noteq> None \<and>
     (\<forall>f. RBT.lookup (si_nft st) (frag_key st nfrag) = Some f \<longrightarrow> frag_last f = last_frag nfrag)"

lemma missing_simps [simp]:
  "missing [] = 0" "missing (None # fs) = Suc (missing fs)" "missing (Some b # fs) = missing fs"
  by (simp_all add: missing_def)

lemma missing_0 [simp]: "missing fs = 0 \<longleftrightarrow> None \<notin> set fs"
proof (induction fs)
  case (Cons x fs)
  then show ?case by (cases x) auto
qed simp

lemma missing_replicate [simp]: "missing (replicate n None) = n"
  by (induction n) simp_all

lemma missing_le: "missing fs \<le> length fs"
  by (simp add: missing_def)

lemma missing_update:
  "i < length fs \<Longrightarrow> fs ! i = None \<Longrightarrow> missing (fs[i := Some x]) + 1 = missing fs"
proof (induction fs arbitrary: i)
  case (Cons y fs)
  then show ?case by (cases i) (auto simp: missing_def)
qed simp

lemma unat_plus_1: "x < 0xFFFFFFFF \<Longrightarrow> unat (x + 1) = unat x + 1" for x :: u32
proof -
  assume "x < 0xFFFFFFFF"
  then have "unat x < 0xFFFFFFFF" by (simp add: word_less_nat_alt)
  then show ?thesis by (simp add: unat_word_ariths)
qed

lemma unat_minus_1: "0 < unat x \<Longrightarrow> unat (x - 1) = unat x - 1" for x :: u32
  by (metis One_nat_def unat_gt_0 unat_minus_one)

lemma frag_wf_new: "last_frag nfrag < 0xFFFFFFFF \<Longrightarrow> frag_wf (frag_new st nfrag)"
  by (simp add: frag_wf_def frag_new_def unat_plus_1)

section \<open>Attaching a piece\<close>

definition frag_put :: "nmsg_frag \<Rightarrow> nmsg_fragment \<Rightarrow> nmsg_frag" where
  "frag_put f nfrag =
     f\<lparr>frags := (frags f)[unat (current nfrag) := fragment nfrag], frag_rem := frag_rem f - 1\<rparr>"

lemma frag_put_rem:
  assumes "frag_wf f" and "unat (current nfrag) < length (frags f)"
    and "frags f ! unat (current nfrag) = None" and "fragment nfrag \<noteq> None"
  shows "unat (frag_rem (frag_put f nfrag)) = missing (frags (frag_put f nfrag))"
proof -
  obtain b where b: "fragment nfrag = Some b" using assms(4) by auto
  have "missing ((frags f)[unat (current nfrag) := Some b]) + 1 = missing (frags f)"
    by (rule missing_update) (use assms in simp_all)
  moreover from this have "0 < unat (frag_rem f)" using assms(1) by (simp add: frag_wf_def)
  ultimately show ?thesis
    using assms(1) b by (simp add: frag_put_def frag_wf_def unat_minus_1)
qed

text \<open>The three things that can happen to a well-formed fragment.\<close>

lemma frag_attach_cases:
  assumes wf: "frag_wf f" and cur: "current nfrag \<le> last_frag nfrag" "frag_last f = last_frag nfrag"
    and frag: "fragment nfrag \<noteq> None"
  shows "frags f ! unat (current nfrag) \<noteq> None \<Longrightarrow>
      frag_attach pb z ok junk st k f nfrag = Ret (nmsg_res_again, st)"
    and "frags f ! unat (current nfrag) = None \<Longrightarrow> None \<in> set (frags (frag_put f nfrag)) \<Longrightarrow>
      frag_attach pb z ok junk st k f nfrag =
        Ret (nmsg_res_again, st\<lparr>si_nft := RBT.insert k (frag_put f nfrag) (si_nft st)\<rparr>) \<and>
      frag_wf (frag_put f nfrag)"
    and "frags f ! unat (current nfrag) = None \<Longrightarrow> None \<notin> set (frags (frag_put f nfrag)) \<Longrightarrow>
      frag_attach pb z ok junk st k f nfrag =
        reassemble_frags pb z ok junk
          (st\<lparr>si_nft := RBT.insert k (frag_put f nfrag) (si_nft st)\<rparr>) k (frag_put f nfrag)"
proof -
  have i: "unat (current nfrag) < length (frags f)"
    using wf cur by (simp add: frag_wf_def word_le_nat_alt)
  then have ni: "\<not> length (frags f) \<le> unat (current nfrag)" by simp
  show "frag_attach pb z ok junk st k f nfrag = Ret (nmsg_res_again, st)"
    if "frags f ! unat (current nfrag) \<noteq> None"
    using that ni by (simp add: frag_attach_def)
  assume none: "frags f ! unat (current nfrag) = None"
  note rem = frag_put_rem [OF wf i none frag]
  have r0: "frag_rem (frag_put f nfrag) = 0 \<longleftrightarrow> None \<notin> set (frags (frag_put f nfrag))"
    using rem by (metis missing_0 unat_0 unat_eq_0)
  have att: "frag_attach pb z ok junk st k f nfrag =
      (let st' = st\<lparr>si_nft := RBT.insert k (frag_put f nfrag) (si_nft st)\<rparr>
       in if frag_rem (frag_put f nfrag) = 0
          then reassemble_frags pb z ok junk st' k (frag_put f nfrag) else Ret (nmsg_res_again, st'))"
    using ni none by (simp add: frag_attach_def Let_def frag_put_def)
  show "frag_attach pb z ok junk st k f nfrag =
        Ret (nmsg_res_again, st\<lparr>si_nft := RBT.insert k (frag_put f nfrag) (si_nft st)\<rparr>) \<and>
      frag_wf (frag_put f nfrag)" if "None \<in> set (frags (frag_put f nfrag))"
    using that rem r0 wf unfolding att frag_wf_def by (simp add: frag_put_def)
  show "frag_attach pb z ok junk st k f nfrag =
        reassemble_frags pb z ok junk
          (st\<lparr>si_nft := RBT.insert k (frag_put f nfrag) (si_nft st)\<rparr>) k (frag_put f nfrag)"
    if "None \<notin> set (frags (frag_put f nfrag))"
    using that r0 unfolding att by simp
qed

lemma reassemble_frags_plain:
  assumes "length (frags f) = unat (frag_last f) + 1" and "None \<notin> set (frags f)" and "ok 2"
    and "\<not> flag_set (si_flags st) NMSG_FLAG_ZLIB"
  shows "reassemble_frags pb z ok junk st k f = Ret (nmsg_res_success,
    frag_done k (st\<lparr>si_nmsg := nmsg__nmsg__unpack pb (concat (map the (frags f)))\<rparr>))"
  using assms by (simp add: reassemble_frags_def Let_def)

lemma reassemble_frags_zlib:
  assumes "length (frags f) = unat (frag_last f) + 1" and "None \<notin> set (frags f)" and "ok 2" and "ok 3"
    and "flag_set (si_flags st) NMSG_FLAG_ZLIB" and "si_zb st = []" and "zlib_roundtrip z"
    and "length raw < 2 ^ 32"
    and "concat (map the (frags f)) = store_net32 (of_nat (length raw)) @ deflate z raw"
  shows "reassemble_frags pb z ok junk st k f = Ret (nmsg_res_success,
    frag_done k (st\<lparr>si_nmsg := nmsg__nmsg__unpack pb raw\<rparr>))"
proof -
  have "nmsg_zbuf_inflate z True [] (4 + length (deflate z raw))
      (store_net32 (of_nat (length raw)) @ deflate z raw @ rest) = Ret (Inr raw, [])" for rest
    by (rule nmsg_zbuf_inflate_deflate) (use assms in simp_all)
  with assms show ?thesis
    by (simp add: reassemble_frags_def Let_def)
      (metis (no_types, lifting) nmsg_stream_input.select_convs(11) nmsg_stream_input.surjective
        nmsg_stream_input.update_convs(11))
qed

section \<open>Safety\<close>

lemma stream_wf_add:
  assumes "stream_wf st" and "RBT.lookup (si_nft st) k = None" and "frag_wf f"
  shows "stream_wf (st\<lparr>si_nft := RBT.insert k f (si_nft st), si_nfrags := si_nfrags st + 1\<rparr>)"
  using assms nft.card_dom_ins [OF assms(2), of f]
  by (simp add: stream_wf_def nft.entries_all_ins)

lemma stream_wf_upd:
  assumes "stream_wf st" and "RBT.lookup (si_nft st) k = Some f" and "frag_wf f'"
  shows "stream_wf (st\<lparr>si_nft := RBT.insert k f' (si_nft st)\<rparr>)"
  using assms nft.card_dom_upd [OF assms(2), of f']
  by (simp add: stream_wf_def nft.entries_all_ins)

lemma stream_wf_done:
  assumes "stream_wf st" and "RBT.lookup (si_nft st) k = Some f"
  shows "stream_wf (frag_done k st)"
proof -
  let ?d = "card (dom (RBT.lookup (RBT.delete k (si_nft st))))"
  have "of_nat (?d + 1) = (of_nat (card (dom (RBT.lookup (si_nft st)))) :: u32)"
    by (simp only: nft.card_dom_del [OF assms(2)])
  then have "si_nfrags st = of_nat ?d + 1"
    using assms(1) unfolding stream_wf_def by (simp only: of_nat_add of_nat_1)
  then have "si_nfrags st - 1 = of_nat ?d" by (simp only: add_diff_cancel_right')
  moreover have "nft.entries_all (\<lambda>_. frag_wf) (RBT.delete k (si_nft st))"
    using assms(1) by (simp add: stream_wf_def nft.entries_all_del)
  ultimately show ?thesis
    by (simp add: stream_wf_def frag_done_def)
qed

lemma frag_done_insert_wf:
  assumes "stream_wf st" and "RBT.lookup (si_nft st) k = Some f"
  shows "stream_wf (frag_done k ((st\<lparr>si_nft := RBT.insert k f' (si_nft st)\<rparr>)\<lparr>si_nmsg := m\<rparr>))"
proof -
  have "RBT.lookup (RBT.delete k (RBT.insert k f' (si_nft st))) =
      RBT.lookup (RBT.delete k (si_nft st))"
    by (rule ext) (simp add: nft.find_ins nft.find_del)
  then show ?thesis
    using stream_wf_done [OF assms]
    by (simp add: stream_wf_def frag_done_def nft.entries_all_def)
qed

lemma frag_attach_safe:
  assumes st: "stream_wf st" "RBT.lookup (si_nft st) k = Some f"
    and n: "current nfrag \<le> last_frag nfrag" "frag_last f = last_frag nfrag" "fragment nfrag \<noteq> None"
    and ok: "ok 2" "\<not> flag_set (si_flags st) NMSG_FLAG_ZLIB"
  shows "\<exists>res st'. frag_attach pb z ok junk st k f nfrag = Ret (res, st') \<and> stream_wf st' \<and>
    res \<in> {nmsg_res_again, nmsg_res_success}"
proof -
  have wf: "frag_wf f" using st by (simp add: stream_wf_def nft.entries_all_def)
  note cases = frag_attach_cases [OF wf n]
  consider "frags f ! unat (current nfrag) \<noteq> None"
    | "frags f ! unat (current nfrag) = None" "None \<in> set (frags (frag_put f nfrag))"
    | "frags f ! unat (current nfrag) = None" "None \<notin> set (frags (frag_put f nfrag))"
    by blast
  then show ?thesis
  proof cases
    case 1
    then show ?thesis using cases(1) [OF 1] st by simp
  next
    case 2
    then show ?thesis using cases(2) [OF 2] stream_wf_upd [OF st] by simp
  next
    case 3
    have "length (frags (frag_put f nfrag)) = unat (frag_last (frag_put f nfrag)) + 1"
      using wf by (simp add: frag_wf_def frag_put_def)
    then show ?thesis
      using cases(3) [OF 3] 3 ok frag_done_insert_wf [OF st]
      by (simp add: reassemble_frags_plain)
  qed
qed


text \<open>
  Nothing else protects the receiver. An index beyond \<^verbatim>\<open>last\<close> is used to access the array
  of pieces out of its bounds, and a fragment that repeats the key of a pending one with
  another \<^verbatim>\<open>last\<close> stops the process on an assertion.
\<close>

theorem input_frag_read_unchecked:
  assumes "nmsg__nmsg_fragment__unpack pb buf = Some nfrag" and "\<forall>i. ok i"
  shows "(RBT.lookup (si_nft st) (frag_key st nfrag) = None \<and> last_frag nfrag < current nfrag \<longrightarrow>
      input_frag_read pb z ok junk st buf = Fault) \<and>
    (RBT.lookup (si_nft st) (frag_key st nfrag) = Some f \<and> frag_last f \<noteq> last_frag nfrag \<longrightarrow>
      input_frag_read pb z ok junk st buf = Abort)"
proof -
  have "unat (last_frag nfrag + 1) \<le> unat (current nfrag)" if "last_frag nfrag < current nfrag"
    using that by (metis inc_le word_le_nat_alt)
  then show ?thesis
    using assms by (auto simp: input_frag_read_def Let_def frag_attach_def frag_new_def)
qed

section \<open>Reassembly in any order\<close>

text \<open>The fragment that carries the i-th of the pieces \<open>cs\<close>.\<close>

definition sent_fragment :: "u32 \<Rightarrow> u32 \<Rightarrow> byte list list \<Rightarrow> nat \<Rightarrow> nmsg_fragment" where
  "sent_fragment i c cs n =
     \<lparr>frag_id = i, current = of_nat n, last_frag = of_nat (length cs - 1),
      fragment = Some (cs ! n), frag_crc = Some c\<rparr>"

text \<open>Reading one datagram after the other.\<close>

fun input_frag_reads ::
  "pbc \<Rightarrow> zlib \<Rightarrow> (nat \<Rightarrow> bool) \<Rightarrow> (nat \<Rightarrow> byte) \<Rightarrow> nmsg_stream_input \<Rightarrow> byte list list \<Rightarrow>
     (nmsg_res list \<times> nmsg_stream_input) run" where
  "input_frag_reads pb z ok junk st [] = Ret ([], st)"
| "input_frag_reads pb z ok junk st (b # bs) =
     run_bind (input_frag_read pb z ok junk st b) (\<lambda>(r, st').
     run_bind (input_frag_reads pb z ok junk st' bs) (\<lambda>(rs, st''). Ret (r # rs, st'')))"

definition collected :: "byte list list \<Rightarrow> nat set \<Rightarrow> byte list option list" where
  "collected cs S = map (\<lambda>i. if i \<in> S then Some (cs ! i) else None) [0..<length cs]"

definition collecting ::
  "nmsg_stream_input \<Rightarrow> nmsg_frag_key \<Rightarrow> byte list list \<Rightarrow> nat set \<Rightarrow> nmsg_stream_input \<Rightarrow> bool" where
  "collecting st0 k cs S st \<longleftrightarrow> (\<exists>f t.
     st = st0\<lparr>si_nft := t, si_nfrags := si_nfrags st0 + 1\<rparr> \<and>
     RBT.lookup t = (RBT.lookup (si_nft st0))(k \<mapsto> f) \<and> frag_wf f \<and>
     frag_last f = of_nat (length cs - 1) \<and> frags f = collected cs S)"

lemma collectingI:
  assumes "RBT.lookup t = (RBT.lookup (si_nft st0))(k \<mapsto> f)" and "frag_wf f"
    and "frag_last f = of_nat (length cs - 1)" and "frags f = collected cs S"
  shows "collecting st0 k cs S (st0\<lparr>si_nft := t, si_nfrags := si_nfrags st0 + 1\<rparr>)"
  using assms unfolding collecting_def by blast

lemma collected_nth [simp]:
  "i < length cs \<Longrightarrow> collected cs S ! i = (if i \<in> S then Some (cs ! i) else None)"
  by (simp add: collected_def)

lemma collected_insert:
  "i < length cs \<Longrightarrow> (collected cs S)[i := Some (cs ! i)] = collected cs (insert i S)"
  by (rule nth_equalityI) (auto simp: collected_def nth_list_update)

lemma None_collected: "None \<in> set (collected cs S) \<longleftrightarrow> \<not> {..<length cs} \<subseteq> S"
  by (auto simp: collected_def)

lemma concat_collected: "{..<length cs} \<subseteq> S \<Longrightarrow> concat (map the (collected cs S)) = concat cs"
proof -
  assume "{..<length cs} \<subseteq> S"
  then have "map the (collected cs S) = map ((!) cs) [0..<length cs]"
    by (auto simp: collected_def)
  then show ?thesis by (simp add: map_nth)
qed

text \<open>What the pieces hold: the packed container \<open>raw\<close>, compressed or not.\<close>

definition pieces_of :: "zlib \<Rightarrow> nmsg_stream_input \<Rightarrow> byte list list \<Rightarrow> byte list \<Rightarrow> bool" where
  "pieces_of z st cs raw \<longleftrightarrow>
     (if flag_set (si_flags st) NMSG_FLAG_ZLIB
      then si_zb st = [] \<and> length raw < 2 ^ 32 \<and>
        concat cs = store_net32 (of_nat (length raw)) @ deflate z raw
      else concat cs = raw)"

lemma collecting_step:
  fixes st0 :: nmsg_stream_input
  assumes col: "collecting st0 k cs S st" and k: "k = Frag_Key i c (si_addr_ss st0)"
    and n: "n < length cs" "length cs < 2 ^ 32" and S: "S \<subseteq> {..<length cs}"
    and b: "nmsg__nmsg_fragment__unpack pb b = Some (sent_fragment i c cs n)"
    and ok: "\<forall>i. ok i" and z: "zlib_roundtrip z" and raw: "pieces_of z st0 cs raw"
    and fresh: "RBT.lookup (si_nft st0) k = None"
  shows "n \<in> S \<Longrightarrow> input_frag_read pb z ok junk st b = Ret (nmsg_res_again, st)"
    and "n \<notin> S \<Longrightarrow> insert n S \<noteq> {..<length cs} \<Longrightarrow>
      \<exists>st'. input_frag_read pb z ok junk st b = Ret (nmsg_res_again, st') \<and>
        collecting st0 k cs (insert n S) st'"
    and "n \<notin> S \<Longrightarrow> insert n S = {..<length cs} \<Longrightarrow>
      \<exists>t. input_frag_read pb z ok junk st b =
        Ret (nmsg_res_success, st0\<lparr>si_nft := t, si_nmsg := nmsg__nmsg__unpack pb raw\<rparr>) \<and>
        RBT.lookup t = RBT.lookup (si_nft st0)"
proof -
  let ?nf = "sent_fragment i c cs n"
  obtain f t where st: "st = st0\<lparr>si_nft := t, si_nfrags := si_nfrags st0 + 1\<rparr>"
    and t: "RBT.lookup t = (RBT.lookup (si_nft st0))(k \<mapsto> f)"
    and wf: "frag_wf f" and last: "frag_last f = of_nat (length cs - 1)"
    and frags: "frags f = collected cs S"
    using col unfolding collecting_def by blast
  have un: "unat (of_nat n :: u32) = n" "unat (of_nat (length cs - 1) :: u32) = length cs - 1"
    by (rule unat_of_nat_u32, use n in simp)+
  have nf: "current ?nf \<le> last_frag ?nf" "frag_last f = last_frag ?nf" "fragment ?nf \<noteq> None"
    using n last un by (simp_all add: sent_fragment_def word_le_nat_alt)
  have cur: "unat (current ?nf) = n" by (simp add: sent_fragment_def un)
  have read: "input_frag_read pb z ok junk st b = frag_attach pb z ok junk st k f ?nf"
    using b k t nf(2) by (simp add: input_frag_read_def Let_def frag_key_def sent_fragment_def st)
  note cases = frag_attach_cases [OF wf nf, where pb = pb and z = z and ok = ok and junk = junk
      and st = st and k = k, unfolded cur]
  have put: "frags (frag_put f ?nf) = collected cs (insert n S)"
    using n un by (simp add: frag_put_def frags sent_fragment_def collected_insert)
  show "input_frag_read pb z ok junk st b = Ret (nmsg_res_again, st)" if "n \<in> S"
    using that n cases(1) unfolding read by (simp add: frags)
  assume new: "n \<notin> S"
  then have none: "frags f ! n = None" using n by (simp add: frags)
  have lk: "RBT.lookup (RBT.insert k (frag_put f ?nf) t) =
      (RBT.lookup (si_nft st0))(k \<mapsto> frag_put f ?nf)"
    by (auto simp: RBT.lookup_insert t)
  show "\<exists>st'. input_frag_read pb z ok junk st b = Ret (nmsg_res_again, st') \<and>
      collecting st0 k cs (insert n S) st'" if "insert n S \<noteq> {..<length cs}"
  proof -
    have "None \<in> set (frags (frag_put f ?nf))"
      using that S n by (auto simp: put None_collected)
    note more = cases(2) [OF none this]
    have "frag_last (frag_put f ?nf) = of_nat (length cs - 1)"
      using last by (simp add: frag_put_def)
    note col = collectingI [OF lk conjunct2 [OF more] this put]
    have "st\<lparr>si_nft := RBT.insert k (frag_put f ?nf) (si_nft st)\<rparr> =
      st0\<lparr>si_nft := RBT.insert k (frag_put f ?nf) t, si_nfrags := si_nfrags st0 + 1\<rparr>"
      by (simp add: st)
    with more col show ?thesis unfolding read by metis
  qed
  show "\<exists>t. input_frag_read pb z ok junk st b =
        Ret (nmsg_res_success, st0\<lparr>si_nft := t, si_nmsg := nmsg__nmsg__unpack pb raw\<rparr>) \<and>
        RBT.lookup t = RBT.lookup (si_nft st0)" if all: "insert n S = {..<length cs}"
  proof -
    have nn: "None \<notin> set (frags (frag_put f ?nf))"
      using all by (simp add: put None_collected)
    have len: "length (frags (frag_put f ?nf)) = unat (frag_last (frag_put f ?nf)) + 1"
      using wf by (simp add: frag_wf_def frag_put_def)
    have data: "concat (map the (frags (frag_put f ?nf))) = concat cs"
      unfolding put using all by (intro concat_collected) simp
    let ?st = "st\<lparr>si_nft := RBT.insert k (frag_put f ?nf) (si_nft st)\<rparr>"
    have re: "reassemble_frags pb z ok junk ?st k (frag_put f ?nf) = Ret (nmsg_res_success,
        frag_done k (?st\<lparr>si_nmsg := nmsg__nmsg__unpack pb raw\<rparr>))"
    proof (cases "flag_set (si_flags st0) NMSG_FLAG_ZLIB")
      case True
      then show ?thesis
        using raw data ok z by (intro reassemble_frags_zlib len nn) (simp_all add: pieces_of_def st)
    next
      case False
      then show ?thesis
        using reassemble_frags_plain [OF len nn, of ok ?st pb z junk k] ok raw data
        by (simp add: pieces_of_def st)
    qed
    have "RBT.lookup (RBT.delete k (RBT.insert k (frag_put f ?nf) t)) = RBT.lookup (si_nft st0)"
      by (rule ext) (simp add: fresh nft.find_del nft.find_ins t)
    then show ?thesis
      unfolding read cases(3) [OF none nn] re
      by (intro exI [of _ "RBT.delete k (RBT.insert k (frag_put f ?nf) t)"] conjI)
        (simp_all add: frag_done_def st)
  qed
qed

lemma input_frag_reads_collecting:
  assumes "collecting st0 k cs S st" and "k = Frag_Key i c (si_addr_ss st0)"
    and "length cs < 2 ^ 32" and "S \<subseteq> {..<length cs}"
    and "\<And>n. n < length cs \<Longrightarrow> nmsg__nmsg_fragment__unpack pb (buf n) = Some (sent_fragment i c cs n)"
    and "\<forall>i. ok i" and "zlib_roundtrip z" and "pieces_of z st0 cs raw"
    and "RBT.lookup (si_nft st0) k = None"
    and "S \<union> set js \<union> {j} = {..<length cs}" and "j \<notin> S \<union> set js"
  shows "\<exists>t. input_frag_reads pb z ok junk st (map buf (js @ [j])) =
      Ret (replicate (length js) nmsg_res_again @ [nmsg_res_success],
        st0\<lparr>si_nft := t, si_nmsg := nmsg__nmsg__unpack pb raw\<rparr>) \<and>
      RBT.lookup t = RBT.lookup (si_nft st0)"
  using assms(1,4,10,11)
proof (induction js arbitrary: S st)
  case Nil
  have j: "j < length cs" "insert j S = {..<length cs}" "j \<notin> S" using Nil by auto
  from collecting_step(3) [OF Nil(1) assms(2) j(1) assms(3) Nil(2) assms(5) [OF j(1)]
      assms(6-9) j(3,2)]
  show ?case by auto
next
  case (Cons m js)
  have m: "m < length cs" "j \<notin> S" using Cons by auto
  note step = collecting_step [OF Cons(2) assms(2) m(1) assms(3) Cons(3) assms(5) [OF m(1)]
      assms(6-9)]
  obtain S' st' where r: "input_frag_read pb z ok junk st (buf m) = Ret (nmsg_res_again, st')"
    and c: "collecting st0 k cs S' st'" and S': "S' = insert m S"
  proof (cases "m \<in> S")
    case True
    with step(1) Cons(2) show ?thesis by (intro that [of st S]) auto
  next
    case False
    have "insert m S \<noteq> {..<length cs}" using Cons by auto
    from step(2) [OF False this] show ?thesis using that by blast
  qed
  have "S' \<subseteq> {..<length cs}" "S' \<union> set js \<union> {j} = {..<length cs}" "j \<notin> S' \<union> set js"
    using Cons S' by auto
  from Cons.IH [OF c this] show ?case using r by auto
qed

lemma input_frags_ok:
  assumes "cs \<noteq> []" and "length cs < 2 ^ 32"
    and "\<And>n. n < length cs \<Longrightarrow> nmsg__nmsg_fragment__unpack pb (buf n) = Some (sent_fragment i c cs n)"
    and "\<forall>i. ok i" and "zlib_roundtrip z" and "pieces_of z st cs raw"
    and "RBT.lookup (si_nft st) (Frag_Key i c (si_addr_ss st)) = None"
    and "set js \<union> {j} = {..<length cs}" and "j \<notin> set js"
  shows "\<exists>t. input_frag_reads pb z ok junk st (map buf (js @ [j])) =
      Ret (replicate (length js) nmsg_res_again @ [nmsg_res_success],
        st\<lparr>si_nft := t, si_nmsg := nmsg__nmsg__unpack pb raw\<rparr>) \<and>
      RBT.lookup t = RBT.lookup (si_nft st)"
proof -
  let ?k = "Frag_Key i c (si_addr_ss st)"
  obtain n js' where js: "js @ [j] = n # js'" by (cases js) auto
  have n: "n < length cs" using assms(8) js by (metis UnCI lessThan_iff list.set_intros(1)
        set_append list.simps(15) list.set(1))
  define f where "f = frag_new st (sent_fragment i c cs n)"
  define st1 where "st1 = st\<lparr>si_nft := RBT.insert ?k f (si_nft st), si_nfrags := si_nfrags st + 1\<rparr>"
  have last: "unat (of_nat (length cs - 1) :: u32) = length cs - 1"
    by (rule unat_of_nat_u32) (use assms(2) in simp)
  have lt: "of_nat (length cs - 1) < (0xFFFFFFFF :: u32)"
    unfolding word_less_nat_alt last using assms(1,2) by (cases cs) auto
  have wf: "frag_wf f"
    unfolding f_def by (rule frag_wf_new) (use lt in \<open>simp only: sent_fragment_def nmsg_fragment.simps\<close>)
  have "unat (of_nat (length cs - 1) + 1 :: u32) = length cs"
    unfolding unat_plus_1 [OF lt] last using assms(1) by simp
  then have "frags f = replicate (length cs) None"
    by (simp only: f_def frag_new_def sent_fragment_def nmsg_frag.simps nmsg_fragment.simps)
  then have fr: "frags f = collected cs {}"
    by (simp add: collected_def map_replicate_const)
  have col: "collecting st ?k cs {} st1"
    unfolding st1_def
    by (rule collectingI [OF _ wf _ fr])
      (auto simp: f_def frag_new_def sent_fragment_def RBT.lookup_insert)
  have "input_frag_read pb z ok junk st (buf n) = input_frag_read pb z ok junk st1 (buf n)"
    using assms(3) [OF n] assms(4,7)
    by (simp add: input_frag_read_def Let_def frag_key_def sent_fragment_def st1_def f_def
        frag_new_def RBT.lookup_insert)
  then have eq: "input_frag_reads pb z ok junk st (map buf (js @ [j])) =
      input_frag_reads pb z ok junk st1 (map buf (js @ [j]))"
    by (simp add: js)
  show ?thesis
    unfolding eq
    by (rule input_frag_reads_collecting [OF col refl assms(2) _ assms(3-7)]) (use assms(8,9) in auto)
qed

text \<open>
  C17. The fragments of one container, received in any order, with any number of repetitions
  before the last of them, and beside any other pending entries: every read but the last one
  answers \<^verbatim>\<open>again\<close>, the last one unpacks the concatenation of the pieces (inflated on a
  compressed stream), and the tree is left as it was before the first fragment.
\<close>

theorem input_frag_reassembles:
  assumes "cs \<noteq> []" and "length cs < 2 ^ 32"
    and "\<And>n. n < length cs \<Longrightarrow> nmsg__nmsg_fragment__unpack pb (buf n) = Some (sent_fragment i c cs n)"
    and "\<forall>i. ok i" and "zlib_roundtrip z" and "pieces_of z st cs raw"
    and "RBT.lookup (si_nft st) (Frag_Key i c (si_addr_ss st)) = None"
    and "set js \<union> {j} = {..<length cs}" and "j \<notin> set js"
  shows "\<exists>t. input_frag_reads pb z ok junk st (map buf (js @ [j])) =
      Ret (replicate (length js) nmsg_res_again @ [nmsg_res_success],
        st\<lparr>si_nft := t, si_nmsg := nmsg__nmsg__unpack pb raw\<rparr>) \<and>
      RBT.lookup t = RBT.lookup (si_nft st)"
  by (rule input_frags_ok [OF assms(1,2) _ assms(4-9)]) (rule assms(3))

section \<open>A container that cannot be unpacked\<close>

lemma input_frag_read_bad_content:
  assumes "nmsg__nmsg_fragment__unpack pb buf = Some nfrag" and "\<forall>i. ok i"
    and "RBT.lookup (si_nft st) (frag_key st nfrag) = None" and "last_frag nfrag = 0"
    and "current nfrag = 0" and "fragment nfrag = Some data"
    and "\<not> flag_set (si_flags st) NMSG_FLAG_ZLIB" and "nmsg__nmsg__unpack pb data = None"
  shows "\<exists>st'. input_frag_read pb z ok junk st buf = Ret (nmsg_res_success, st') \<and> si_nmsg st' = None"
proof -
  let ?f = "frag_new st nfrag"
  have f: "frags ?f = [None]" "frag_last ?f = 0" "frag_rem ?f = 1"
    by (simp_all add: frag_new_def assms(4))
  have put: "frags (frag_put ?f nfrag) = [Some data]" "frag_last (frag_put ?f nfrag) = 0"
    "frag_rem (frag_put ?f nfrag) = 0"
    by (simp_all add: frag_put_def f assms(5,6))
  show ?thesis
    using assms put f
    by (simp add: input_frag_read_def Let_def frag_attach_def frag_put_def [symmetric]
        reassemble_frags_plain frag_done_def)
qed

text \<open>
  When the reassembled octets are not a container, the last fragment still reports success,
  without a container: the parse error of the code is unreachable.
\<close>

theorem input_frag_unpack_failure_is_success:
  assumes "nmsg__nmsg_fragment__unpack pb buf = Some nfrag" and "\<forall>i. ok i"
    and "RBT.lookup (si_nft st) (frag_key st nfrag) = None" and "last_frag nfrag = 0"
    and "current nfrag = 0" and "fragment nfrag = Some data"
    and "\<not> flag_set (si_flags st) NMSG_FLAG_ZLIB" and "nmsg__nmsg__unpack pb data = None"
  shows "\<exists>st'. input_frag_read pb z ok junk st buf = Ret (nmsg_res_success, st') \<and> si_nmsg st' = None"
  using assms by (rule input_frag_read_bad_content)

section \<open>Garbage collection\<close>

lemma frag_gc_foldl:
  assumes "stream_wf s" and "distinct (map fst xs)"
    and "\<And>k f. (k, f) \<in> set xs \<Longrightarrow> RBT.lookup (si_nft s) k = Some f"
  shows "stream_wf (foldl (\<lambda>s (k, f). if P f then frag_done k s else s) s xs) \<and>
    si_nft (foldl (\<lambda>s (k, f). if P f then frag_done k s else s) s xs) =
      foldl (\<lambda>t (k, f). if P f then RBT.delete k t else t) (si_nft s) xs"
  using assms
proof (induction xs arbitrary: s)
  case (Cons x xs)
  obtain k f where x: "x = (k, f)" by (cases x)
  define s' where "s' = (if P f then frag_done k s else s)"
  have "RBT.lookup (si_nft s') k' = Some f'" if "(k', f') \<in> set xs" for k' f'
  proof -
    have "k' \<noteq> k" using Cons.prems(2) that x by force
    then show ?thesis
      using Cons.prems(3) that by (simp add: s'_def frag_done_def nft.find_del)
  qed
  moreover have "stream_wf s'"
    using Cons.prems(1) stream_wf_done [OF Cons.prems(1), of k f] Cons.prems(3) x
    by (simp add: s'_def)
  moreover have "distinct (map fst xs)" using Cons.prems(2) by simp
  ultimately have "stream_wf (foldl (\<lambda>s (k, f). if P f then frag_done k s else s) s' xs) \<and>
    si_nft (foldl (\<lambda>s (k, f). if P f then frag_done k s else s) s' xs) =
      foldl (\<lambda>t (k, f). if P f then RBT.delete k t else t) (si_nft s') xs"
    by (intro Cons.IH)
  then show ?case by (simp add: x s'_def frag_done_def split: if_splits)
qed simp

text \<open>
  A collection that is due removes exactly the entries whose first fragment is thirty or
  more seconds old, keeps the count of entries exact and notes its time; one that is not due
  changes nothing.
\<close>

theorem input_frag_gc_exact:
  assumes "stream_wf st" and "card (dom (RBT.lookup (si_nft st))) < 2 ^ 32"
  shows "stream_wf (input_frag_gc st) \<and>
    (if dom (RBT.lookup (si_nft st)) \<noteq> {} \<and> tv_sec (si_now st) - tv_sec (si_lastgc st) \<ge> 30
     then si_lastgc (input_frag_gc st) = si_now st \<and>
       (\<forall>k f. RBT.lookup (si_nft (input_frag_gc st)) k = Some f \<longleftrightarrow>
          RBT.lookup (si_nft st) k = Some f \<and> tv_sec (si_now st) - tv_sec (frag_ts f) < 30)
     else input_frag_gc st = st)"
proof -
  let ?n = "card (dom (RBT.lookup (si_nft st)))"
  have "unat (si_nfrags st) = ?n"
    using assms by (simp add: stream_wf_def unat_of_nat_u32)
  then have pos: "0 < si_nfrags st \<longleftrightarrow> dom (RBT.lookup (si_nft st)) \<noteq> {}"
    using nft.finite_dom [of "si_nft st"] by (metis card_gt_0_iff unat_0 unat_gt_0 word_neq_0_conv)
  define r where "r = foldl (\<lambda>s (k, f). if frag_expired st f then frag_done k s else s) st
    (RBT.entries (si_nft st))"
  have r: "stream_wf r" "si_nft r = nft.purge (\<lambda>_. frag_expired st) (si_nft st)"
    using frag_gc_foldl [OF assms(1) nft.walk_distinct [of "si_nft st"], of "frag_expired st"]
    by (auto simp: r_def nft.walk_find nft.purge_def)
  show ?thesis
  proof (cases "dom (RBT.lookup (si_nft st)) \<noteq> {} \<and> tv_sec (si_now st) - tv_sec (si_lastgc st) \<ge> 30")
    case True
    then have gc: "input_frag_gc st = r\<lparr>si_lastgc := si_now st\<rparr>"
      using pos by (simp add: input_frag_gc_def NMSG_FRAG_GC_INTERVAL_def r_def)
    have "stream_wf (r\<lparr>si_lastgc := si_now st\<rparr>)" using r(1) by (simp add: stream_wf_def)
    with True show ?thesis
      unfolding gc by (auto simp: r(2) nft.find_purge frag_expired_def NMSG_FRAG_GC_INTERVAL_def
          split: option.splits)
  next
    case False
    then show ?thesis
      using pos assms(1) by (auto simp: input_frag_gc_def NMSG_FRAG_GC_INTERVAL_def)
  qed
qed

section \<open>Witnesses\<close>

definition sample_stream :: nmsg_stream_input where
  "sample_stream = \<lparr>si_type = Stream_sock,
     si_buf = \<lparr>b_bufsz = 64, b_data = replicate 64 0, b_pos = 0, b_end = 0\<rparr>, si_nmsg = None,
     si_np_index = 0, si_nc_size = 0, si_nft = RBT.empty, si_now = \<lparr>tv_sec = 100, tv_nsec = 0\<rparr>,
     si_lastgc = \<lparr>tv_sec = 0, tv_nsec = 0\<rparr>, si_nfrags = 0, si_flags = NMSG_FLAG_FRAGMENT, si_zb = [],
     si_source = 0, si_operator = 0, si_group = 0, si_blocking_io = True, si_verify_seqsrc = True,
     si_seqsrcs = [], si_addr_ss = AF_INET @ [0, 53, 127, 0, 0, 1], si_count_recv = 0,
     si_count_drop = 0\<rparr>"

lemma sample_stream_wf: "stream_wf sample_stream"
  by (simp add: stream_wf_def sample_stream_def nft.entries_all_def)

definition sample_pieces :: "byte list list" where
  "sample_pieces = [[10, 20], [30], [40, 50]]"

lemma ref_fragment_unpack:
  assumes "cs ! n \<noteq> []"
  shows "nmsg__nmsg_fragment__unpack ref_pb
    (nmsg__nmsg_fragment__pack ref_pb (sent_fragment i c cs n)) = Some (sent_fragment i c cs n)"
  using ref_pb_roundtrip assms by (simp add: pb_roundtrip_def sent_fragment_def)

lemma sample_pieces_ne: "n < length sample_pieces \<Longrightarrow> sample_pieces ! n \<noteq> []"
  by (auto simp: sample_pieces_def less_Suc_eq nth_Cons')


definition stray_fragment :: nmsg_fragment where
  "stray_fragment =
     \<lparr>frag_id = 1, current = 5, last_frag = 0, fragment = Some [1], frag_crc = None\<rparr>"

theorem input_frag_read_unchecked_witness:
  "input_frag_read ref_pb ref_zlib (\<lambda>_. True) (\<lambda>_. 0) sample_stream
     (nmsg__nmsg_fragment__pack ref_pb stray_fragment) = Fault"
proof -
  have u: "nmsg__nmsg_fragment__unpack ref_pb (nmsg__nmsg_fragment__pack ref_pb stray_fragment) =
      Some stray_fragment"
    using ref_pb_roundtrip by (simp add: pb_roundtrip_def stray_fragment_def)
  have "RBT.lookup (si_nft sample_stream) (frag_key sample_stream stray_fragment) = None \<and>
      last_frag stray_fragment < current stray_fragment"
    by (simp add: sample_stream_def stray_fragment_def)
  with input_frag_read_unchecked [OF u, of "\<lambda>_. True" sample_stream ref_zlib "\<lambda>_. 0" undefined]
  show ?thesis by blast
qed

theorem input_frag_reassembles_witness:
  "\<exists>t. input_frag_reads ref_pb ref_zlib (\<lambda>_. True) (\<lambda>_. 0) sample_stream
      (map (\<lambda>n. nmsg__nmsg_fragment__pack ref_pb (sent_fragment 7 8 sample_pieces n)) [2, 0, 2, 1]) =
    Ret ([nmsg_res_again, nmsg_res_again, nmsg_res_again, nmsg_res_success],
      sample_stream\<lparr>si_nft := t,
        si_nmsg := nmsg__nmsg__unpack ref_pb [10, 20, 30, 40, 50]\<rparr>)"
proof -
  have "sample_pieces \<noteq> []" "length sample_pieces < 2 ^ 32" by (simp_all add: sample_pieces_def)
  moreover have "pieces_of ref_zlib sample_stream sample_pieces [10, 20, 30, 40, 50]"
    by (simp add: pieces_of_def sample_pieces_def sample_stream_def)
  moreover have "RBT.lookup (si_nft sample_stream) (Frag_Key 7 8 (si_addr_ss sample_stream)) = None"
    by (simp add: sample_stream_def)
  moreover have "set [2, 0, 2] \<union> {1} = {..<length sample_pieces}" "1 \<notin> set [2, 0, 2 :: nat]"
    by (auto simp: sample_pieces_def)
  ultimately show ?thesis
    using input_frag_reassembles [of sample_pieces ref_pb
        "\<lambda>n. nmsg__nmsg_fragment__pack ref_pb (sent_fragment 7 8 sample_pieces n)" 7 8 "\<lambda>_. True"
        ref_zlib sample_stream "[10, 20, 30, 40, 50]" "[2, 0, 2]" 1 "\<lambda>_. 0",
        OF _ _ ref_fragment_unpack [OF sample_pieces_ne]]
    by (auto simp: numeral_3_eq_3)
qed

theorem input_frag_unpack_failure_is_success_witness:
  "\<exists>st'. input_frag_read ref_pb ref_zlib (\<lambda>_. True) (\<lambda>_. 0) sample_stream
      (nmsg__nmsg_fragment__pack ref_pb (sent_fragment 7 8 [[255]] 0)) =
      Ret (nmsg_res_success, st') \<and> si_nmsg st' = None"
  by (rule input_frag_unpack_failure_is_success [OF ref_fragment_unpack, where data = "[255]"])
    (simp_all add: sample_stream_def sent_fragment_def ref_pb_def ref_nmsg_unpack_def)

definition sample_key :: nmsg_frag_key where
  "sample_key = Frag_Key 7 8 []"

definition sample_pending :: nmsg_stream_input where
  "sample_pending = sample_stream\<lparr>si_nfrags := 1, si_nft := RBT.insert sample_key
     \<lparr>frag_last = 1, frag_rem = 1, frag_ts = \<lparr>tv_sec = 60, tv_nsec = 0\<rparr>, frags = [None, Some [1]]\<rparr>
     RBT.empty\<rparr>"

theorem input_frag_gc_exact_witness:
  "RBT.lookup (si_nft sample_pending) sample_key \<noteq> None \<and>
   RBT.lookup (si_nft (input_frag_gc sample_pending)) sample_key = None"
proof -
  have wf: "stream_wf sample_pending"
    by (auto simp: stream_wf_def sample_pending_def nft.entries_all_def RBT.lookup_insert
        frag_wf_def split: if_splits)
  have "dom (RBT.lookup (si_nft sample_pending)) = {sample_key}"
    by (auto simp: sample_pending_def RBT.lookup_insert)
  with input_frag_gc_exact [OF wf] have
    "\<forall>k f. RBT.lookup (si_nft (input_frag_gc sample_pending)) k = Some f \<longleftrightarrow>
       RBT.lookup (si_nft sample_pending) k = Some f \<and>
       tv_sec (si_now sample_pending) - tv_sec (frag_ts f) < 30"
    by (simp add: sample_pending_def sample_stream_def)
  then show ?thesis
    by (cases "RBT.lookup (si_nft (input_frag_gc sample_pending)) sample_key")
      (auto simp: sample_pending_def sample_stream_def RBT.lookup_insert)
qed

end
