(* ===== verification/Input_Seqsrc.thy ===== *)
theory Input_Seqsrc
  imports Stream
begin

text \<open>
  input_seqsrc.c: the list of sequence sources of a socket stream, and the count of the
  containers lost by each.
\<close>

section \<open>Counting lost containers\<close>

definition reset_seqsrc :: "nmsg_seqsrc \<Rightarrow> nmsg_seqsrc" where
  "reset_seqsrc s = s\<lparr>s_sequence := 0, s_count := 0, s_count_dropped := 0\<rparr>"

text \<open>The 64-bit difference of two sequence numbers, reduced modulo \<open>2 ^ 32\<close> as C does it.\<close>

definition seq_delta :: "u32 \<Rightarrow> u32 \<Rightarrow> int" where
  "seq_delta wire expected =
     (let d0 = uint wire - uint expected;
          d1 = (if d0 < 0 then - ((- d0) mod 4294967296) else d0 mod 4294967296)
      in if d1 < 0 then d1 + 4294967296 else d1)"

text \<open>\<^verbatim>\<open>_input_seqsrc_update\<close>: the number of containers lost before this one.\<close>

definition input_seqsrc_update :: "nmsg_seqsrc \<Rightarrow> nmsg_nmsg \<Rightarrow> u64 \<times> nmsg_seqsrc" where
  "input_seqsrc_update s n =
     (case (sequence n, sequence_id n) of
        (Some seq, Some sid) \<Rightarrow>
          let s1 = (if s_sequence_id s \<noteq> sid then
                      let s' = s\<lparr>s_sequence_id := sid\<rparr>
                      in if \<not> s_init s' then (reset_seqsrc s')\<lparr>s_init := True\<rparr> else s'
                    else s);
              s2 = s1\<lparr>s_count := s_count s1 + 1\<rparr>;
              delta = seq_delta seq (s_sequence s2);
              (drop, s3) =
                (if s_sequence s2 \<noteq> seq then
                   if s_init s2 then (0, s2)
                   else if delta > 1048576 then (0, reset_seqsrc s2)
                   else (of_int delta, s2\<lparr>s_count_dropped := s_count_dropped s2 + of_int delta\<rparr>)
                 else (0, s2))
          in (drop, s3\<lparr>s_init := False, s_sequence := seq + 1\<rparr>)
      | _ \<Rightarrow> (0, s))"

section \<open>Finding the source\<close>

definition NMSG_SEQSRC_GC_INTERVAL :: int where "NMSG_SEQSRC_GC_INTERVAL = 120"

definition opt_u64 :: "u64 option \<Rightarrow> u64" where
  "opt_u64 x = (case x of None \<Rightarrow> 0 | Some v \<Rightarrow> v)"

text \<open>The three tests of the walk that end it.\<close>

definition seqsrc_matches :: "u64 \<Rightarrow> sockaddr \<Rightarrow> nmsg_seqsrc \<Rightarrow> bool" where
  "seqsrc_matches sid ss s =
     (let k = s_key s in
      if sid = k_sequence_id k \<and> ss_family ss = AF_INET \<and> k_af k = AF_INET
      then sin_port ss = k_port k \<and> sin_addr ss = k_ip k
      else if sid = k_sequence_id k \<and> ss_family ss = AF_INET6 \<and> k_af k = AF_INET6
      then sin_port ss = k_port k \<and> sin6_addr ss = k_ip k
      else sid = k_sequence_id k \<and> k_af k = AF_UNSPEC)"

text \<open>
  The walk: it stops at the first match, having unlinked the stale entries before it. The
  result is what precedes the match and, if there is one, the match and what follows it.
\<close>

fun seqsrc_walk ::
  "int \<Rightarrow> u64 \<Rightarrow> sockaddr \<Rightarrow> nmsg_seqsrc list \<Rightarrow>
     nmsg_seqsrc list \<times> (nmsg_seqsrc \<times> nmsg_seqsrc list) option" where
  "seqsrc_walk now sid ss [] = ([], None)"
| "seqsrc_walk now sid ss (s # rest) =
     (if seqsrc_matches sid ss s then ([], Some (s, rest))
      else let (kept, found) = seqsrc_walk now sid ss rest in
        (if s_last s < now - NMSG_SEQSRC_GC_INTERVAL then kept else s # kept, found))"

definition seqsrc_new_key :: "nmsg_stream_type \<Rightarrow> u64 \<Rightarrow> sockaddr \<Rightarrow> nmsg_seqsrc_key" where
  "seqsrc_new_key ty sid ss =
     (case ty of
        Stream_sock \<Rightarrow> \<lparr>k_sequence_id = sid, k_af = ss_family ss,
          k_port = (if ss_family ss = AF_INET \<or> ss_family ss = AF_INET6 then sin_port ss else []),
          k_ip = (if ss_family ss = AF_INET then sin_addr ss
                  else if ss_family ss = AF_INET6 then sin6_addr ss else [])\<rparr>
      | Stream_xs \<Rightarrow> \<lparr>k_sequence_id = sid, k_af = AF_UNSPEC, k_port = [], k_ip = []\<rparr>
      | _ \<Rightarrow> \<lparr>k_sequence_id = 0, k_af = AF_UNSPEC, k_port = [], k_ip = []\<rparr>)"

text \<open>
  \<^verbatim>\<open>_input_seqsrc_get\<close>: the new list and the index of the source in it. A source that was
  found moves to the front, a new one goes to the end; a failed allocation is an assertion.
\<close>

definition input_seqsrc_get ::
  "bool \<Rightarrow> nmsg_stream_input \<Rightarrow> nmsg_nmsg \<Rightarrow> (nat \<times> nmsg_stream_input) run" where
  "input_seqsrc_get alloc st n =
     (let sid = opt_u64 (sequence_id n); ss = si_addr_ss st; now = tv_sec (si_now st) in
      case seqsrc_walk now sid ss (si_seqsrcs st) of
        (kept, Some (s, rest)) \<Rightarrow> Ret (0, st\<lparr>si_seqsrcs := s\<lparr>s_last := now\<rparr> # kept @ rest\<rparr>)
      | (kept, None) \<Rightarrow>
          if \<not> alloc then Abort
          else Ret (length kept, st\<lparr>si_seqsrcs := kept @
            [\<lparr>s_key = seqsrc_new_key (si_type st) sid ss, s_sequence = 0, s_sequence_id = 0,
              s_count = 0, s_count_dropped = 0, s_last = now, s_init = True\<rparr>]\<rparr>))"

section \<open>Losses are counted exactly\<close>

lemma seq_delta_eq: "seq_delta w e = uint (w - e)"
proof -
  have "uint x < 4294967296" for x :: u32
    using unsigned_less [of x, where ?'a = int] by simp
  moreover have "0 \<le> uint x" for x :: u32 by simp
  ultimately have "uint w - uint e < 4294967296" "- 4294967296 < uint w - uint e"
    by (smt (verit))+
  moreover have "uint (w - e) = (uint w - uint e) mod 4294967296"
    by (simp add: uint_word_ariths)
  moreover have "d mod 4294967296 = (if d < 0 then d + 4294967296 else d)"
    if "d < 4294967296" "- 4294967296 < d" for d :: int
  proof (cases "d < 0")
    case True
    have "d mod 4294967296 = (d + 4294967296) mod 4294967296" by simp
    also have "\<dots> = d + 4294967296" using True that by (intro mod_pos_pos_trivial) auto
    finally show ?thesis using True by simp
  qed (use that in simp)
  ultimately show ?thesis
    by (auto simp: seq_delta_def Let_def)
qed

text \<open>
  The containers received from one source, in the order received: their positions in the
  sender's sequence increase, by no more than a plausible gap.
\<close>

fun increasing_gaps :: "nat list \<Rightarrow> bool" where
  "increasing_gaps (a # b # xs) = (a < b \<and> b - a - 1 \<le> 1048576 \<and> increasing_gaps (b # xs))"
| "increasing_gaps _ = True"

definition numbered :: "u64 \<Rightarrow> nmsg_nmsg \<Rightarrow> nat \<Rightarrow> nmsg_nmsg" where
  "numbered sid n i = n\<lparr>sequence := Some (of_nat i), sequence_id := Some sid\<rparr>"

fun seqsrc_updates :: "nmsg_seqsrc \<Rightarrow> nmsg_nmsg list \<Rightarrow> u64 \<times> nmsg_seqsrc" where
  "seqsrc_updates s [] = (0, s)"
| "seqsrc_updates s (n # ns) =
     (let (d, s') = input_seqsrc_update s n; (ds, s'') = seqsrc_updates s' ns in (d + ds, s''))"

lemma update_tracked:
  assumes "\<not> s_init s" and "s_sequence_id s = sid" and "s_sequence s = of_nat (a + 1)"
    and "a < b" and "b - a - 1 \<le> 1048576"
  shows "input_seqsrc_update s (numbered sid n b) =
    (of_nat (b - a - 1), s\<lparr>s_count := s_count s + 1,
       s_count_dropped := s_count_dropped s + of_nat (b - a - 1), s_sequence := of_nat (b + 1)\<rparr>)"
proof -
  define g where "g = b - a - 1"
  have b: "b = a + 1 + g" using assms(4) by (simp add: g_def)
  have d: "seq_delta (of_nat b) (of_nat (a + 1)) = int g"
    using assms(5) by (simp add: seq_delta_eq b g_def [symmetric] uint_nat unat_of_nat_u32)
  have z: "(of_nat b :: u32) = of_nat (a + 1) \<longleftrightarrow> g = 0"
  proof -
    have "(of_nat b :: u32) = of_nat (a + 1) \<longleftrightarrow> (of_nat g :: u32) = 0" by (simp add: b)
    also have "\<dots> \<longleftrightarrow> g = 0"
      using assms(5) unat_of_nat_u32 [of g] unfolding g_def [symmetric] by auto
    finally show ?thesis .
  qed
  show ?thesis
  proof (cases "g = 0")
    case True
    then show ?thesis
      using assms(1-3) z unfolding g_def [symmetric]
      by (cases s) (simp add: input_seqsrc_update_def numbered_def Let_def)
  next
    case False
    then show ?thesis
      using assms(1-3,5) z d unfolding g_def [symmetric]
      by (cases s) (auto simp: input_seqsrc_update_def numbered_def Let_def)
  qed
qed

lemma increasing_gaps_last: "increasing_gaps (a # ix) \<Longrightarrow> a \<le> last (a # ix)"
proof (induction ix arbitrary: a)
  case (Cons b ix)
  from Cons.IH [of b] Cons.prems show ?case by simp
qed simp

lemma updates_tracked:
  assumes "\<not> s_init s" and "s_sequence_id s = sid" and "s_sequence s = of_nat (a + 1)"
    and "increasing_gaps (a # ix)"
  shows "\<exists>s'. seqsrc_updates s (map (numbered sid n) ix) = (of_nat (last (a # ix) - a - length ix), s') \<and>
    s_count s' = s_count s + of_nat (length ix) \<and>
    s_count_dropped s' = s_count_dropped s + of_nat (last (a # ix) - a - length ix) \<and>
    s_sequence s' = of_nat (last (a # ix) + 1) \<and> length ix \<le> last (a # ix) - a"
  using assms
proof (induction ix arbitrary: s a)
  case (Cons b ix)
  let ?s = "s\<lparr>s_count := s_count s + 1,
      s_count_dropped := s_count_dropped s + of_nat (b - a - 1), s_sequence := of_nat (b + 1)\<rparr>"
  have ab: "a < b" "b - a - 1 \<le> 1048576" "increasing_gaps (b # ix)" using Cons.prems(4) by auto
  have u: "input_seqsrc_update s (numbered sid n b) = (of_nat (b - a - 1), ?s)"
    by (rule update_tracked [OF Cons.prems(1-3) ab(1,2)])
  have p: "\<not> s_init ?s" "s_sequence_id ?s = sid" "s_sequence ?s = of_nat (b + 1)"
    using Cons.prems by simp_all
  obtain s' where ih: "seqsrc_updates ?s (map (numbered sid n) ix) =
        (of_nat (last (b # ix) - b - length ix), s')"
    "s_count s' = s_count ?s + of_nat (length ix)"
    "s_count_dropped s' = s_count_dropped ?s + of_nat (last (b # ix) - b - length ix)"
    "s_sequence s' = of_nat (last (b # ix) + 1)" "length ix \<le> last (b # ix) - b"
    using Cons.IH [OF p ab(3)] by blast
  define l where "l = last (b # ix)"
  have "b \<le> l" unfolding l_def by (rule increasing_gaps_last [OF ab(3)])
  moreover have "length ix \<le> l - b" using ih(5) by (simp only: l_def)
  ultimately have sum: "l - a - Suc (length ix) = (b - a - 1) + (l - b - length ix)"
    "Suc (length ix) \<le> l - a"
    using ab(1) by linarith+
  have e: "last (a # b # ix) = l" by (simp add: l_def)
  show ?case
    unfolding e length_Cons sum(1)
    using u ih [folded l_def] sum(2) by (simp add: add.assoc)
qed simp

text \<open>
  C23. The loss count of a source is exact when its containers arrive in the order of their numbers. From the moment the source
  is first seen, whatever its starting number and across the wrap-around of the 32-bit sequence, the containers counted
  as received are those received, and those counted as dropped are those missing in between; the drops reported to the
  caller add up to the same number. The numbers strictly increase, and no more than \<open>2 ^ 20\<close> are missing at once: a
  container out of order makes the code count drops that there were not, or start the counts anew.
\<close>

theorem seqsrc_losses_exact:
  assumes "s_init s" and "s_count s = 0" and "s_count_dropped s = 0"
    and "increasing_gaps (a # ix)"
  shows "\<exists>s'. seqsrc_updates s (map (numbered sid n) (a # ix)) = (s_count_dropped s', s') \<and>
    s_count s' = of_nat (length (a # ix)) \<and>
    s_count_dropped s' = of_nat (last (a # ix) + 1 - a - length (a # ix)) \<and>
    length (a # ix) \<le> last (a # ix) + 1 - a \<and> s_sequence s' = of_nat (last (a # ix) + 1)"
proof -
  define s1 where "s1 = snd (input_seqsrc_update s (numbered sid n a))"
  have u: "input_seqsrc_update s (numbered sid n a) = (0, s1)"
    and s1: "\<not> s_init s1" "s_sequence_id s1 = sid" "s_sequence s1 = of_nat (a + 1)"
      "s_count s1 = 1" "s_count_dropped s1 = 0"
    using assms by (auto simp: s1_def input_seqsrc_update_def numbered_def Let_def)
  define l where "l = last (a # ix)"
  obtain s' where s': "seqsrc_updates s1 (map (numbered sid n) ix) = (of_nat (l - a - length ix), s')"
    "s_count s' = s_count s1 + of_nat (length ix)"
    "s_count_dropped s' = s_count_dropped s1 + of_nat (l - a - length ix)"
    "s_sequence s' = of_nat (l + 1)" "length ix \<le> l - a"
    using updates_tracked [OF s1(1-3) assms(4), of n] unfolding l_def by blast
  have "a \<le> l" using increasing_gaps_last [OF assms(4)] by (simp add: l_def)
  then have "l + 1 - a - length (a # ix) = l - a - length ix" "length (a # ix) \<le> l + 1 - a"
    using s'(5) by auto
  with u s' s1 show ?thesis
    unfolding l_def [symmetric] by (simp add: Let_def)
qed

section \<open>One entry per source\<close>

text \<open>The entries of a socket stream over IPv4 and IPv6: no key occurs twice.\<close>

definition seqsrcs_wf :: "nmsg_seqsrc list \<Rightarrow> bool" where
  "seqsrcs_wf ss \<longleftrightarrow> distinct (map s_key ss) \<and> (\<forall>s \<in> set ss. k_af (s_key s) \<in> {AF_INET, AF_INET6})"

definition inet_source :: "nmsg_stream_input \<Rightarrow> bool" where
  "inet_source st \<longleftrightarrow> si_type st = Stream_sock \<and> ss_family (si_addr_ss st) \<in> {AF_INET, AF_INET6}"

lemma seqsrc_matches_key:
  assumes "ss_family ss \<in> {AF_INET, AF_INET6}" and "k_af (s_key s) \<in> {AF_INET, AF_INET6}"
  shows "seqsrc_matches sid ss s \<longleftrightarrow> s_key s = seqsrc_new_key Stream_sock sid ss"
  using assms by (cases "s_key s") (auto simp: seqsrc_matches_def seqsrc_new_key_def)

lemma seqsrc_walk_spec:
  assumes "\<And>s. s \<in> set xs \<Longrightarrow> seqsrc_matches sid ss s \<longleftrightarrow> s_key s = K"
    and "seqsrc_walk now sid ss xs = (kept, found)"
  shows "(case found of
      None \<Rightarrow> K \<notin> s_key ` set xs \<and> kept = filter (\<lambda>s. now - 120 \<le> s_last s) xs
    | Some (s, rest) \<Rightarrow> s_key s = K \<and> (\<exists>pre. xs = pre @ s # rest \<and> K \<notin> s_key ` set pre \<and>
        kept = filter (\<lambda>s. now - 120 \<le> s_last s) pre))"
  using assms
proof (induction xs arbitrary: kept found)
  case (Cons x xs)
  show ?case
  proof (cases "s_key x = K")
    case True
    with Cons.prems show ?thesis by (auto intro: exI [of _ "[]"])
  next
    case False
    obtain kept' where w: "seqsrc_walk now sid ss xs = (kept', found)"
      "kept = (if s_last x < now - 120 then kept' else x # kept')"
      using Cons.prems False
      by (auto simp: NMSG_SEQSRC_GC_INTERVAL_def split: prod.splits if_splits)
    have ih: "case found of
        None \<Rightarrow> K \<notin> s_key ` set xs \<and> kept' = filter (\<lambda>s. now - 120 \<le> s_last s) xs
      | Some (s, rest) \<Rightarrow> s_key s = K \<and> (\<exists>pre. xs = pre @ s # rest \<and> K \<notin> s_key ` set pre \<and>
          kept' = filter (\<lambda>s. now - 120 \<le> s_last s) pre)"
      using Cons.IH [OF _ w(1)] Cons.prems(1) by simp
    show ?thesis
    proof (cases found)
      case None
      with ih w(2) False show ?thesis by auto
    next
      case (Some p)
      then obtain s rest pre where "found = Some (s, rest)" "s_key s = K" "xs = pre @ s # rest"
        "K \<notin> s_key ` set pre" "kept' = filter (\<lambda>s. now - 120 \<le> s_last s) pre"
        using ih by (cases p) auto
      with w(2) False show ?thesis by (auto intro: exI [of _ "x # pre"])
    qed
  qed
qed simp

text \<open>
  C31. Looking up the source of a container yields the one entry for its sequence id, address
  family, address and port, with its time updated: the existing entry with its counters
  untouched, or a fresh one. Every other entry seen in the last two minutes survives, entries
  are only ever removed for being older, and no source gets two entries.
\<close>

theorem input_seqsrc_get_unique:
  assumes "seqsrcs_wf (si_seqsrcs st)" and "inet_source st"
  shows "\<exists>i st'. input_seqsrc_get True st n = Ret (i, st') \<and> i < length (si_seqsrcs st') \<and>
    seqsrcs_wf (si_seqsrcs st') \<and>
    (let K = seqsrc_new_key Stream_sock (opt_u64 (sequence_id n)) (si_addr_ss st);
         s' = si_seqsrcs st' ! i; now = tv_sec (si_now st) in
     s_key s' = K \<and> s_last s' = now \<and>
     (\<forall>s \<in> set (si_seqsrcs st). s_key s = K \<longrightarrow> s' = s\<lparr>s_last := now\<rparr>) \<and>
     (K \<notin> s_key ` set (si_seqsrcs st) \<longrightarrow> s_init s' \<and> s_count s' = 0 \<and> s_count_dropped s' = 0) \<and>
     (\<forall>s \<in> set (si_seqsrcs st). s_key s \<noteq> K \<and> now - 120 \<le> s_last s \<longrightarrow> s \<in> set (si_seqsrcs st')) \<and>
     (\<forall>s \<in> set (si_seqsrcs st'). s_key s \<noteq> K \<longrightarrow> s \<in> set (si_seqsrcs st)))"
proof -
  let ?ss = "si_seqsrcs st" and ?now = "tv_sec (si_now st)" and ?sid = "opt_u64 (sequence_id n)"
  define K where "K = seqsrc_new_key Stream_sock ?sid (si_addr_ss st)"
  have af: "ss_family (si_addr_ss st) \<in> {AF_INET, AF_INET6}" and ty: "si_type st = Stream_sock"
    using assms(2) by (auto simp: inet_source_def)
  have K_af: "k_af K \<in> {AF_INET, AF_INET6}"
    using af by (simp add: K_def seqsrc_new_key_def)
  obtain kept found where w: "seqsrc_walk ?now ?sid (si_addr_ss st) ?ss = (kept, found)"
    by (cases "seqsrc_walk ?now ?sid (si_addr_ss st) ?ss")
  have m: "seqsrc_matches ?sid (si_addr_ss st) s \<longleftrightarrow> s_key s = K" if "s \<in> set ?ss" for s
    using seqsrc_matches_key [OF af] that assms(1) by (auto simp: seqsrcs_wf_def K_def)
  note spec = seqsrc_walk_spec [OF m w]
  show ?thesis
  proof (cases found)
    case None
    let ?new = "\<lparr>s_key = K, s_sequence = 0, s_sequence_id = 0, s_count = 0, s_count_dropped = 0,
        s_last = ?now, s_init = True\<rparr> :: nmsg_seqsrc"
    have k: "K \<notin> s_key ` set ?ss" "kept = filter (\<lambda>s. ?now - 120 \<le> s_last s) ?ss"
      using spec None by auto
    have wf: "seqsrcs_wf (kept @ [?new])"
      using assms(1) k K_af by (auto simp: seqsrcs_wf_def distinct_map_filter)
    have "input_seqsrc_get True st n = Ret (length kept, st\<lparr>si_seqsrcs := kept @ [?new]\<rparr>)"
      using w None by (simp add: input_seqsrc_get_def ty K_def)
    with wf k show ?thesis
      unfolding K_def [symmetric] by (auto simp: Let_def)
  next
    case (Some p)
    then obtain s rest pre where f: "found = Some (s, rest)" "s_key s = K" "?ss = pre @ s # rest"
      "K \<notin> s_key ` set pre" "kept = filter (\<lambda>s. ?now - 120 \<le> s_last s) pre"
      using spec by (cases p) auto
    have wf: "seqsrcs_wf (s\<lparr>s_last := ?now\<rparr> # kept @ rest)"
      using assms(1) f(5) unfolding seqsrcs_wf_def f(3)
      by (auto simp: distinct_map_filter)
    have rest: "K \<notin> s_key ` set rest"
      using assms(1) f(2) unfolding seqsrcs_wf_def f(3) by auto
    have "input_seqsrc_get True st n = Ret (0, st\<lparr>si_seqsrcs := s\<lparr>s_last := ?now\<rparr> # kept @ rest\<rparr>)"
      using w f(1) by (simp add: input_seqsrc_get_def)
    with wf f rest show ?thesis
      unfolding K_def [symmetric] by (auto simp: Let_def) (metis image_eqI)+
  qed
qed

section \<open>Witnesses\<close>

definition sample_source :: nmsg_seqsrc where
  "sample_source = \<lparr>s_key = \<lparr>k_sequence_id = 5, k_af = AF_INET, k_port = [0, 53], k_ip = [127, 0, 0, 1]\<rparr>,
     s_sequence = 0, s_sequence_id = 0, s_count = 0, s_count_dropped = 0, s_last = 90, s_init = True\<rparr>"

definition sample_nmsg :: nmsg_nmsg where
  "sample_nmsg = \<lparr>payloads = [], payload_crcs = [], sequence = Some 3, sequence_id = Some 5\<rparr>"

definition sample_socket :: "nmsg_stream_input \<Rightarrow> nmsg_stream_input" where
  "sample_socket st = st\<lparr>si_type := Stream_sock, si_now := \<lparr>tv_sec = 100, tv_nsec = 0\<rparr>,
     si_seqsrcs := [sample_source], si_addr_ss := AF_INET @ [0, 53, 127, 0, 0, 1]\<rparr>"

text \<open>Positions 4294967295, 4294967296 and 4294967299: two containers lost across the wrap.\<close>

theorem seqsrc_losses_exact_witness:
  "\<exists>s'. seqsrc_updates sample_source
      (map (numbered 5 sample_nmsg) [4294967295, 4294967296, 4294967299]) = (2, s') \<and>
    s_count s' = 3 \<and> s_count_dropped s' = 2"
  using seqsrc_losses_exact [of sample_source 4294967295 "[4294967296, 4294967299]" 5 sample_nmsg]
  by (auto simp: sample_source_def)

theorem input_seqsrc_get_unique_witness:
  "\<forall>st. \<exists>i st'. input_seqsrc_get True (sample_socket st) sample_nmsg = Ret (i, st') \<and>
     si_seqsrcs st' ! i = sample_source\<lparr>s_last := 100\<rparr>"
proof
  fix st
  have "seqsrcs_wf (si_seqsrcs (sample_socket st))" "inet_source (sample_socket st)"
    by (simp_all add: seqsrcs_wf_def inet_source_def sample_socket_def sample_source_def
        ss_family_def AF_INET_def)
  from input_seqsrc_get_unique [OF this, of sample_nmsg]
  show "\<exists>i st'. input_seqsrc_get True (sample_socket st) sample_nmsg = Ret (i, st') \<and>
     si_seqsrcs st' ! i = sample_source\<lparr>s_last := 100\<rparr>"
    by (auto simp: Let_def seqsrc_new_key_def sample_socket_def sample_source_def sample_nmsg_def
        opt_u64_def ss_family_def sin_port_def sin_addr_def AF_INET_def)
qed

end
