(* ===== verification/Input_Nmsg.thy ===== *)
theory Input_Nmsg
  imports Input_Frag Input_Seqsrc
begin

text \<open>
  Input streams: input_nmsg.c (reading containers from a file or a socket, unpacking, filtering,
  the read and loop calls), input_nullnmsg.c (containers handed over in memory) and the stream
  part of input.c.
\<close>

section \<open>The descriptor\<close>

text \<open>
  What the operating system answers from now on. A file has \<open>fd_rest\<close> left; \<open>R_bytes n\<close> is a
  \<^verbatim>\<open>read(2)\<close> that returns at most \<open>n + 1\<close> octets, and without an answer a read returns all it
  may. A socket is ready at once when \<open>fd_polls\<close> is used up, and has nothing rest to say when
  \<open>fd_recvs\<close> is. The \<open>i\<close>-th look at the clock shows \<open>fd_clock i\<close>.
\<close>

datatype read_answer = R_bytes nat | R_error
datatype poll_answer = P_ready | P_timeout | P_error
datatype recv_answer = Recv_again | Recv_error | Recv_dgram sockaddr "byte list"

record descriptor =
  fd_rest :: "byte list"
  fd_reads :: "read_answer list"
  fd_polls :: "poll_answer list"
  fd_recvs :: "recv_answer list"
  fd_clock :: "nat \<Rightarrow> timespec"
  fd_ticks :: nat

type_synonym source = "nmsg_stream_input \<times> descriptor"

definition sys_read :: "descriptor \<Rightarrow> nat \<Rightarrow> byte list option \<times> descriptor" where
  "sys_read e mx =
     (case fd_reads e of
        [] \<Rightarrow> (Some (take mx (fd_rest e)), e\<lparr>fd_rest := drop mx (fd_rest e)\<rparr>)
      | R_bytes n # rs \<Rightarrow>
          let k = min (n + 1) mx
          in (Some (take k (fd_rest e)), e\<lparr>fd_reads := rs, fd_rest := drop k (fd_rest e)\<rparr>)
      | R_error # rs \<Rightarrow> (None, e\<lparr>fd_reads := rs\<rparr>))"

definition sys_poll :: "descriptor \<Rightarrow> poll_answer \<times> descriptor" where
  "sys_poll e = (case fd_polls e of [] \<Rightarrow> (P_ready, e) | p # ps \<Rightarrow> (p, e\<lparr>fd_polls := ps\<rparr>))"

definition sys_recvfrom :: "descriptor \<Rightarrow> recv_answer \<times> descriptor" where
  "sys_recvfrom e = (case fd_recvs e of [] \<Rightarrow> (Recv_again, e) | r # rs \<Rightarrow> (r, e\<lparr>fd_recvs := rs\<rparr>))"

definition nmsg_timespec_get :: "source \<Rightarrow> source" where
  "nmsg_timespec_get s =
     (case s of (st, e) \<Rightarrow>
        (st\<lparr>si_now := fd_clock e (fd_ticks e)\<rparr>, e\<lparr>fd_ticks := fd_ticks e + 1\<rparr>))"

section \<open>Filling the buffer\<close>

text \<open>The loop of \<^verbatim>\<open>do_read_file\<close>.\<close>

function read_loop :: "nmsg_buf \<Rightarrow> descriptor \<Rightarrow> nat \<Rightarrow> nat \<Rightarrow> (nmsg_res \<times> nmsg_buf \<times> descriptor) run" where
  "read_loop b e needed mx =
     (if needed = 0 then Ret (nmsg_res_success, b, e)
      else (case sys_read e mx of
          (None, e') \<Rightarrow> Ret (nmsg_res_failure, b, e')
        | (Some [], e') \<Rightarrow> Ret (nmsg_res_eof, b, e')
        | (Some (x # xs), e') \<Rightarrow>
            run_bind (mem_store (b_data b) (b_end b) (x # xs)) (\<lambda>d.
              read_loop (b\<lparr>b_data := d, b_end := b_end b + length (x # xs)\<rparr>) e'
                (needed - length (x # xs)) (mx - length (x # xs)))))"
  by pat_completeness auto
termination
  by (relation "measure (\<lambda>(b, e, needed, mx). needed)") auto

declare read_loop.simps [simp del]

text \<open>\<^verbatim>\<open>do_read_file\<close>\<close>

definition do_read_file :: "source \<Rightarrow> nat \<Rightarrow> nat \<Rightarrow> (nmsg_res \<times> source) run" where
  "do_read_file s bytes_needed bytes_max =
     (case s of (st, e) \<Rightarrow>
        let b = si_buf st in
        if \<not> bytes_needed \<le> bytes_max then Abort
        else if \<not> b_end b + bytes_max \<le> NMSG_RBUFSZ then Abort
        else run_bind (read_loop b e bytes_needed bytes_max) (\<lambda>(res, b', e').
          let s' = (st\<lparr>si_buf := b'\<rparr>, e') in
          Ret (res, if res = nmsg_res_success then nmsg_timespec_get s' else s')))"

text \<open>\<^verbatim>\<open>do_read_sock\<close>\<close>

definition do_read_sock :: "source \<Rightarrow> nat \<Rightarrow> (nmsg_res \<times> source) run" where
  "do_read_sock s bytes_max =
     (case s of (st, e) \<Rightarrow>
        let b = si_buf st in
        if \<not> b_end b + bytes_max \<le> NMSG_RBUFSZ then Abort
        else
          let (poll, e1) = (if si_blocking_io st then sys_poll e else (P_ready, e)) in
          case poll of
            P_timeout \<Rightarrow> Ret (nmsg_res_again, st, e1)
          | P_error \<Rightarrow> Ret (nmsg_res_read_failure, st, e1)
          | P_ready \<Rightarrow>
              let (r, e2) = sys_recvfrom e1; s2 = nmsg_timespec_get (st, e2) in
              (case r of
                 Recv_again \<Rightarrow> Ret (nmsg_res_again, s2)
               | Recv_error \<Rightarrow> Ret (nmsg_res_read_failure, s2)
               | Recv_dgram addr bs \<Rightarrow>
                   run_bind (mem_store (b_data b) (b_pos b) (take bytes_max bs)) (\<lambda>d.
                     let st' = (fst s2)\<lparr>si_addr_ss := addr\<rparr> in
                     if bs = [] then Ret (nmsg_res_eof, st', snd s2)
                     else Ret (nmsg_res_success,
                       st'\<lparr>si_buf := b\<lparr>b_data := d, b_end := b_pos b + length (take bytes_max bs)\<rparr>\<rparr>,
                       snd s2))))"

section \<open>The header of a container in a file\<close>

definition buf_skip :: "nat \<Rightarrow> source \<Rightarrow> source" where
  "buf_skip n s = (case s of (st, e) \<Rightarrow> (st\<lparr>si_buf := (si_buf st)\<lparr>b_pos := b_pos (si_buf st) + n\<rparr>\<rparr>, e))"

definition buf_reset :: "source \<Rightarrow> source" where
  "buf_reset s = (case s of (st, e) \<Rightarrow> (st\<lparr>si_buf := nmsg_buf_reset (si_buf st)\<rparr>, e))"

definition buf_mem :: "source \<Rightarrow> byte list" where
  "buf_mem s = drop (b_pos (si_buf (fst s))) (b_data (si_buf (fst s)))"

text \<open>
  \<^verbatim>\<open>read_file\<close> from the check of the version on: the length field and its value. The result of
  the second \<^verbatim>\<open>do_read_file\<close> is not looked at.
\<close>

definition read_length :: "source \<Rightarrow> bool \<Rightarrow> u16 \<Rightarrow> nat \<Rightarrow> (nmsg_res \<times> nat \<times> source) run" where
  "read_length s reset_buf0 version lenhdrsz =
     (let s0 = (if reset_buf0 then buf_reset s else s) in
      run_bind (nmsg_buf_avail (si_buf (fst s0))) (\<lambda>bytes_avail.
      run_bind
        (if bytes_avail < lenhdrsz then
           let s1 = (if bytes_avail = 0 then buf_reset s0 else s0);
               bytes_needed = lenhdrsz - bytes_avail
           in if bytes_avail = 0
              then run_bind (do_read_file s1 bytes_needed (b_bufsz (si_buf (fst s1))))
                (\<lambda>(_, s2). Ret (s2, False))
              else run_bind (do_read_file s1 bytes_needed bytes_needed) (\<lambda>(_, s2). Ret (s2, True))
         else Ret (s0, False)) (\<lambda>(s3, reset_buf).
      run_bind (nmsg_buf_avail (si_buf (fst s3))) (\<lambda>bytes_avail.
        if \<not> bytes_avail \<ge> lenhdrsz then Abort
        else run_bind (if version = 1 then run_bind (load_net16 (buf_mem s3)) (\<lambda>v. Ret (unat v, 2))
                       else run_bind (load_net32 (buf_mem s3)) (\<lambda>v. Ret (unat v, 4))) (\<lambda>(msgsize, n).
          let s4 = buf_skip n s3
          in Ret (nmsg_res_success, msgsize, if reset_buf then buf_reset s4 else s4))))))"

text \<open>
  \<^verbatim>\<open>read_file\<close>: first the fill that makes magic and version available, and whether they were
  split; then the size of the next container. The flags go to the stream.
\<close>

definition fetch_header :: "source \<Rightarrow> nat \<Rightarrow> (nmsg_res \<times> source \<times> bool) run" where
  "fetch_header s bytes_avail =
     (if bytes_avail < NMSG_HDRSZ then
        let bytes_needed = NMSG_HDRSZ - bytes_avail in
        if bytes_avail = 0
        then run_bind (do_read_file (buf_reset s) bytes_needed (b_bufsz (si_buf (fst s))))
          (\<lambda>(res, s1). Ret (res, s1, False))
        else run_bind (do_read_file s bytes_needed bytes_needed) (\<lambda>(res, s1). Ret (res, s1, True))
      else Ret (nmsg_res_success, s, False))"

definition read_file :: "source \<Rightarrow> (nmsg_res \<times> nat \<times> source) run" where
  "read_file s =
     run_bind (nmsg_buf_avail (si_buf (fst s))) (\<lambda>bytes_avail.
     run_bind (fetch_header s bytes_avail) (\<lambda>(res, s1, reset_buf).
     if res \<noteq> nmsg_res_success then Ret (res, 0, s1)
     else run_bind (nmsg_buf_avail (si_buf (fst s1))) (\<lambda>bytes_avail.
       if \<not> bytes_avail \<ge> NMSG_HDRSZ then Abort
       else run_bind (mem_read (buf_mem s1) 0 4) (\<lambda>m.
         if m \<noteq> NMSG_MAGIC then Ret (nmsg_res_magic_mismatch, 0, s1)
         else let s2 = buf_skip 4 s1 in
           run_bind (load_net16 (buf_mem s2)) (\<lambda>version.
             let s3 = buf_skip 2 s2 in
             if version = 1 then read_length s3 reset_buf 1 NMSG_LENHDRSZ_V1
             else if version AND 0xFF = 2 then
               read_length ((fst s3)\<lparr>si_flags := ucast (drop_bit 8 version)\<rparr>, snd s3) reset_buf 2
                 NMSG_LENHDRSZ_V2
             else Ret (nmsg_res_version_mismatch, 0, if reset_buf then buf_reset s3 else s3))))))"

section \<open>Reading containers\<close>

text \<open>
  \<^verbatim>\<open>_input_nmsg_unpack_container\<close> on the \<open>buf_len\<close> octets at the head of \<open>mem\<close>. Allocations 0
  to 3 belong to the fragments, 4 is the inflated container.
\<close>

definition input_nmsg_unpack_container ::
  "pbc \<Rightarrow> zlib \<Rightarrow> (nat \<Rightarrow> bool) \<Rightarrow> (nat \<Rightarrow> byte) \<Rightarrow> nmsg_stream_input \<Rightarrow> byte list \<Rightarrow> nat \<Rightarrow>
     (nmsg_res \<times> nmsg_stream_input) run" where
  "input_nmsg_unpack_container pb z ok junk st0 mem buf_len =
     (let st = st0\<lparr>si_nc_size := buf_len + NMSG_HDRLSZ_V2\<rparr> in
      if flag_set (si_flags st) NMSG_FLAG_FRAGMENT then
        run_bind (mem_read mem 0 buf_len) (\<lambda>buf. input_frag_read pb z ok junk st buf)
      else if flag_set (si_flags st) NMSG_FLAG_ZLIB then
        run_bind (nmsg_zbuf_inflate z (ok 4) (si_zb st) buf_len mem) (\<lambda>(r, zb).
          let st' = st\<lparr>si_zb := zb\<rparr> in
          case r of
            Inl e \<Rightarrow> Ret (e, st')
          | Inr u_buf \<Rightarrow>
              let n = nmsg__nmsg__unpack pb u_buf
              in Ret (if n = None then nmsg_res_parse_error else nmsg_res_success, st'\<lparr>si_nmsg := n\<rparr>))
      else
        run_bind (mem_read mem 0 buf_len) (\<lambda>buf.
          let n = nmsg__nmsg__unpack pb buf
          in Ret (if n = None then nmsg_res_parse_error else nmsg_res_success, st\<lparr>si_nmsg := n\<rparr>)))"

text \<open>\<^verbatim>\<open>_input_nmsg_read_container_file\<close>\<close>

definition read_container_file ::
  "pbc \<Rightarrow> zlib \<Rightarrow> (nat \<Rightarrow> bool) \<Rightarrow> (nat \<Rightarrow> byte) \<Rightarrow> source \<Rightarrow> (nmsg_res \<times> source) run" where
  "read_container_file pb z ok junk s =
     (if si_type (fst s) \<noteq> Stream_file then Abort
      else run_bind (read_file s) (\<lambda>(res, msgsize, s1).
        if res \<noteq> nmsg_res_success then Ret (res, s1)
        else run_bind (nmsg_buf_avail (si_buf (fst s1))) (\<lambda>bytes_avail.
          run_bind
            (if bytes_avail < msgsize
             then do_read_file s1 (msgsize - bytes_avail) (msgsize - bytes_avail)
             else Ret (nmsg_res_success, s1)) (\<lambda>(res2, s2).
          if res2 \<noteq> nmsg_res_success then Ret (res2, s2)
          else run_bind (input_nmsg_unpack_container pb z ok junk (fst s2) (buf_mem s2) msgsize)
            (\<lambda>(res3, st3). Ret (res3, buf_skip msgsize (st3, snd s2)))))))"

text \<open>
  The counters of \<^verbatim>\<open>_input_nmsg_read_container_sock\<close>; allocation 5 is a new sequence source.
\<close>

definition input_count :: "bool \<Rightarrow> nmsg_stream_input \<Rightarrow> nmsg_stream_input run" where
  "input_count alloc st0 =
     (case si_nmsg st0 of
        None \<Rightarrow> Ret st0
      | Some n \<Rightarrow>
          let st = st0\<lparr>si_count_recv := si_count_recv st0 + 1\<rparr> in
          if \<not> si_verify_seqsrc st then Ret st
          else run_bind (input_seqsrc_get alloc st n) (\<lambda>(i, st1).
            let (drop, s') = input_seqsrc_update (si_seqsrcs st1 ! i) n
            in Ret (st1\<lparr>si_seqsrcs := (si_seqsrcs st1)[i := s'],
                        si_count_drop := si_count_drop st1 + drop\<rparr>)))"

text \<open>\<^verbatim>\<open>_input_nmsg_read_container_sock\<close>\<close>

definition read_container_sock ::
  "pbc \<Rightarrow> zlib \<Rightarrow> (nat \<Rightarrow> bool) \<Rightarrow> (nat \<Rightarrow> byte) \<Rightarrow> source \<Rightarrow> (nmsg_res \<times> source) run" where
  "read_container_sock pb z ok junk s0 =
     (if si_type (fst s0) \<noteq> Stream_sock then Abort
      else let s = buf_reset s0 in
        run_bind (do_read_sock s (b_bufsz (si_buf (fst s)))) (\<lambda>(res, s1).
        if res \<noteq> nmsg_res_success then
          Ret (if res = nmsg_res_read_failure then res else nmsg_res_again, s1)
        else run_bind (nmsg_buf_avail (si_buf (fst s1))) (\<lambda>bytes_avail.
          if bytes_avail < NMSG_HDRLSZ_V2 then Ret (nmsg_res_failure, s1)
          else run_bind (input_nmsg_deserialize_header (buf_mem s1) bytes_avail) (\<lambda>hdr.
            case hdr of
              Inl e \<Rightarrow> Ret (e, s1)
            | Inr (msgsize, flags) \<Rightarrow>
                let s2 = buf_skip NMSG_HDRLSZ_V2 ((fst s1)\<lparr>si_flags := flags\<rparr>, snd s1) in
                if bytes_avail - NMSG_HDRLSZ_V2 \<noteq> msgsize then Ret (nmsg_res_parse_error, s2)
                else run_bind (input_nmsg_unpack_container pb z ok junk (fst s2) (buf_mem s2) msgsize)
                  (\<lambda>(res2, st2).
                    let s3 = buf_skip msgsize (st2, snd s2) in
                    run_bind (input_count (ok 5) (fst s3)) (\<lambda>st4.
                      Ret (res2, input_frag_gc st4, snd s3)))))))"

section \<open>Inputs (input.c)\<close>

text \<open>\<^verbatim>\<open>struct nmsg_input\<close> of a stream, with what its descriptor has in store.\<close>

record nmsg_input =
  i_stream :: nmsg_stream_input
  i_fd :: descriptor
  i_do_filter :: bool
  i_filter_vid :: u32
  i_filter_msgtype :: u32
  i_stop :: bool

definition on_source :: "(source \<Rightarrow> (nmsg_res \<times> source) run) \<Rightarrow> nmsg_input \<Rightarrow> (nmsg_res \<times> nmsg_input) run" where
  "on_source f inp =
     run_bind (f (i_stream inp, i_fd inp)) (\<lambda>(res, st, e). Ret (res, inp\<lparr>i_stream := st, i_fd := e\<rparr>))"

text \<open>
  \<^verbatim>\<open>stream_read_fp\<close> as \<^verbatim>\<open>input_open_stream_base\<close> sets it; NULL for a null stream, whose read
  and loop functions never call it.
\<close>

definition stream_read_fp ::
  "pbc \<Rightarrow> zlib \<Rightarrow> (nat \<Rightarrow> bool) \<Rightarrow> (nat \<Rightarrow> byte) \<Rightarrow> nmsg_stream_type \<Rightarrow> nmsg_input \<Rightarrow> (nmsg_res \<times> nmsg_input) run" where
  "stream_read_fp pb z ok junk ty inp =
     (case ty of
        Stream_file \<Rightarrow> on_source (read_container_file pb z ok junk) inp
      | Stream_sock \<Rightarrow> on_source (read_container_sock pb z ok junk) inp
      | _ \<Rightarrow> Fault)"

text \<open>
  \<^verbatim>\<open>input_open_stream_base\<close>: allocation 0 is the input, 1 the stream, 2 the inflater. XS streams
  are an assertion in a build without libxs. A null input has no buffer, and its calls use none.
\<close>

definition input_open_stream_base ::
  "(nat \<Rightarrow> bool) \<Rightarrow> nmsg_stream_type \<Rightarrow> descriptor \<Rightarrow> nmsg_input option run" where
  "input_open_stream_base ok ty fd =
     (if \<not> ok 0 \<or> \<not> ok 1 then Ret None
      else if ty = Stream_xs then Abort
      else if \<not> ok 2 then Ret None
      else Ret (Some
        \<lparr>i_stream =
           \<lparr>si_type = ty, si_buf = \<lparr>b_bufsz = 0, b_data = [], b_pos = 0, b_end = 0\<rparr>,
            si_nmsg = None, si_np_index = 0, si_nc_size = 0, si_nft = RBT.empty,
            si_now = \<lparr>tv_sec = 0, tv_nsec = 0\<rparr>, si_lastgc = \<lparr>tv_sec = 0, tv_nsec = 0\<rparr>,
            si_nfrags = 0, si_flags = 0, si_zb = [], si_source = 0, si_operator = 0, si_group = 0,
            si_blocking_io = True, si_verify_seqsrc = True, si_seqsrcs = [],
            si_addr_ss = replicate 128 0, si_count_recv = 0, si_count_drop = 0\<rparr>,
         i_fd = fd, i_do_filter = False, i_filter_vid = 0, i_filter_msgtype = 0, i_stop = False\<rparr>))"

text \<open>\<^verbatim>\<open>_nmsg_buf_new\<close>: allocation 3 is the buffer, 4 its octets.\<close>

definition nmsg_buf_new :: "(nat \<Rightarrow> bool) \<Rightarrow> nat \<Rightarrow> nmsg_buf option" where
  "nmsg_buf_new ok sz =
     (if \<not> ok 3 \<or> \<not> ok 4 then None
      else Some \<lparr>b_bufsz = 0, b_data = replicate sz 0, b_pos = 0, b_end = 0\<rparr>)"

definition input_open_stream ::
  "(nat \<Rightarrow> bool) \<Rightarrow> nmsg_stream_type \<Rightarrow> descriptor \<Rightarrow> nmsg_input option run" where
  "input_open_stream ok ty fd =
     run_bind (input_open_stream_base ok ty fd) (\<lambda>r.
       case r of
         None \<Rightarrow> Ret None
       | Some inp \<Rightarrow> (case nmsg_buf_new ok NMSG_RBUFSZ of
             None \<Rightarrow> Ret None
           | Some b \<Rightarrow> Ret (Some (inp\<lparr>i_stream := (i_stream inp)
               \<lparr>si_buf := (nmsg_buf_reset b)\<lparr>b_bufsz := NMSG_RBUFSZ div 2\<rparr>\<rparr>\<rparr>))))"

text \<open>The settings.\<close>

definition nmsg_input_breakloop :: "nmsg_input \<Rightarrow> nmsg_input" where
  "nmsg_input_breakloop inp = inp\<lparr>i_stop := True\<rparr>"

definition nmsg_input_set_filter_msgtype :: "nmsg_input \<Rightarrow> u32 \<Rightarrow> u32 \<Rightarrow> nmsg_input" where
  "nmsg_input_set_filter_msgtype inp v m =
     inp\<lparr>i_do_filter := \<not> (v = 0 \<and> m = 0), i_filter_vid := v, i_filter_msgtype := m\<rparr>"

definition nmsg_input_set_filter_source :: "nmsg_input \<Rightarrow> u32 \<Rightarrow> nmsg_input" where
  "nmsg_input_set_filter_source inp v = inp\<lparr>i_stream := (i_stream inp)\<lparr>si_source := v\<rparr>\<rparr>"

definition nmsg_input_set_filter_operator :: "nmsg_input \<Rightarrow> u32 \<Rightarrow> nmsg_input" where
  "nmsg_input_set_filter_operator inp v = inp\<lparr>i_stream := (i_stream inp)\<lparr>si_operator := v\<rparr>\<rparr>"

definition nmsg_input_set_filter_group :: "nmsg_input \<Rightarrow> u32 \<Rightarrow> nmsg_input" where
  "nmsg_input_set_filter_group inp v = inp\<lparr>i_stream := (i_stream inp)\<lparr>si_group := v\<rparr>\<rparr>"

definition nmsg_input_set_verify_seqsrc :: "nmsg_input \<Rightarrow> bool \<Rightarrow> nmsg_input" where
  "nmsg_input_set_verify_seqsrc inp b = inp\<lparr>i_stream := (i_stream inp)\<lparr>si_verify_seqsrc := b\<rparr>\<rparr>"

definition nmsg_input_get_count_container_received :: "nmsg_input \<Rightarrow> u64" where
  "nmsg_input_get_count_container_received inp = si_count_recv (i_stream inp)"

definition nmsg_input_get_count_container_dropped :: "nmsg_input \<Rightarrow> nmsg_res + u64" where
  "nmsg_input_get_count_container_dropped inp =
     (if si_verify_seqsrc (i_stream inp) then Inr (si_count_drop (i_stream inp))
      else Inl nmsg_res_failure)"

end
