(* ===== verification/Input_File.thy ===== *)
theory Input_File
  imports Input_Nmsg
begin

text \<open>
  Reading containers from a file: whatever pieces \<^verbatim>\<open>read(2)\<close> delivers a file in, the reader of
  input_nmsg.c sees the containers in it, and the two kinds of file at which it stops the process.
\<close>

section \<open>The octets to come\<close>

text \<open>
  The unread part of the buffer followed by the rest of the file is all that the reader still
  gets to see; how the octets are spread over the two, and over the answers of \<^verbatim>\<open>read(2)\<close>, is
  what the following lemmas abstract from.
\<close>

definition unread :: "nmsg_buf \<Rightarrow> byte list" where
  "unread b = drop (b_pos b) (take (b_end b) (b_data b))"

definition file_at :: "source \<Rightarrow> byte list \<Rightarrow> bool" where
  "file_at s bs \<longleftrightarrow>
     (let b = si_buf (fst s) in
      si_type (fst s) = Stream_file \<and> length (b_data b) = NMSG_RBUFSZ \<and> b_bufsz b = NMSG_WBUFSZ_MAX \<and>
      b_pos b \<le> b_end b \<and> b_end b \<le> NMSG_RBUFSZ \<and> R_error \<notin> set (fd_reads (snd s)) \<and>
      unread b @ fd_rest (snd s) = bs)"

definition avail :: "source \<Rightarrow> nat" where
  "avail s = b_end (si_buf (fst s)) - b_pos (si_buf (fst s))"

definition fill :: "source \<Rightarrow> nat" where "fill s = b_end (si_buf (fst s))"

text \<open>Reading changes the buffer, the clock and the descriptor only.\<close>

definition reads_to :: "source \<Rightarrow> source \<Rightarrow> bool" where
  "reads_to s s' \<longleftrightarrow> fst s' = (fst s)\<lparr>si_buf := si_buf (fst s'), si_now := si_now (fst s')\<rparr>"

lemma reads_to_refl [simp]: "reads_to s s"
  by (simp add: reads_to_def)

lemma reads_to_trans: "reads_to s s' \<Longrightarrow> reads_to s' s'' \<Longrightarrow> reads_to s s''"
  by (cases "fst s"; cases "fst s'"; cases "fst s''") (simp add: reads_to_def)

lemma reads_to_flags: "reads_to s s' \<Longrightarrow> si_flags (fst s') = si_flags (fst s)"
  by (cases "fst s"; cases "fst s'") (simp add: reads_to_def)

lemma same_flags: "st\<lparr>si_flags := si_flags st\<rparr> = st" for st :: nmsg_stream_input
  by simp

lemma length_unread: "b_end b \<le> length (b_data b) \<Longrightarrow> length (unread b) = b_end b - b_pos b"
  by (simp add: unread_def)

lemma nmsg_buf_avail_file_at: "file_at s bs \<Longrightarrow> nmsg_buf_avail (si_buf (fst s)) = Ret (avail s)"
  by (simp add: file_at_def nmsg_buf_avail_def avail_def Let_def)

lemma sys_read_ok:
  assumes "R_error \<notin> set (fd_reads e)" and "0 < mx" and "fd_rest e \<noteq> []"
  obtains k e' where "sys_read e mx = (Some (take k (fd_rest e)), e')" "0 < k" "k \<le> mx"
    "k \<le> length (fd_rest e)" "fd_rest e' = drop k (fd_rest e)" "R_error \<notin> set (fd_reads e')"
proof (cases "fd_reads e")
  case Nil
  have "take mx (fd_rest e) = take (min mx (length (fd_rest e))) (fd_rest e)"
    "drop mx (fd_rest e) = drop (min mx (length (fd_rest e))) (fd_rest e)"
    by (simp_all add: min_def)
  with Nil assms show ?thesis
    by (intro that [of "min mx (length (fd_rest e))" "e\<lparr>fd_rest := drop mx (fd_rest e)\<rparr>"])
      (simp_all add: sys_read_def)
next
  case (Cons a rs)
  with assms obtain n where a: "a = R_bytes n" by (cases a) auto
  let ?k = "min (min (n + 1) mx) (length (fd_rest e))"
  have "take (min (n + 1) mx) (fd_rest e) = take ?k (fd_rest e)"
    "drop (min (n + 1) mx) (fd_rest e) = drop ?k (fd_rest e)"
    by (simp_all add: min_def)
  with Cons a assms show ?thesis
    by (intro that [of ?k "e\<lparr>fd_reads := rs, fd_rest := drop (min (n + 1) mx) (fd_rest e)\<rparr>"])
      (simp_all add: sys_read_def Let_def)
qed

text \<open>
  With no error to come, the loop gets what it needs, and otherwise all that is left and an end
  of file.
\<close>

definition read_outcome :: "nat \<Rightarrow> nat \<Rightarrow> nmsg_res" where
  "read_outcome needed n = (if needed \<le> n then nmsg_res_success else nmsg_res_eof)"

lemma read_loop_spec:
  assumes "R_error \<notin> set (fd_reads e)" and "needed \<le> mx" and "b_end b + mx \<le> length (b_data b)"
    and "b_pos b \<le> b_end b"
  shows "\<exists>b' e' k. read_loop b e needed mx = Ret (read_outcome needed (length (fd_rest e)), b', e') \<and>
    min needed (length (fd_rest e)) \<le> k \<and> k \<le> mx \<and> k \<le> length (fd_rest e) \<and>
    unread b' = unread b @ take k (fd_rest e) \<and>
    fd_rest e' = drop k (fd_rest e) \<and> R_error \<notin> set (fd_reads e') \<and> b_pos b' = b_pos b \<and>
    b_end b' = b_end b + k \<and> length (b_data b') = length (b_data b) \<and> b_bufsz b' = b_bufsz b"
  using assms
proof (induction b e needed mx rule: read_loop.induct)
  case (1 b e needed mx)
  show ?case
  proof (cases "needed = 0 \<or> fd_rest e = []")
    case True
    then consider "needed = 0" | "needed \<noteq> 0" "fd_rest e = []" by blast
    then show ?thesis
    proof cases
      case 1
      with "1.prems" show ?thesis by (simp add: read_loop.simps read_outcome_def)
    next
      case 2
      with "1.prems"(1) have "\<exists>e'. sys_read e mx = (Some [], e') \<and> fd_rest e' = [] \<and>
          R_error \<notin> set (fd_reads e')"
        by (auto simp: sys_read_def Let_def split: list.splits read_answer.splits)
      with 2 show ?thesis by (subst read_loop.simps) (auto simp: read_outcome_def)
    qed
  next
    case False
    with "1.prems" have ne: "0 < mx" "fd_rest e \<noteq> []" "needed \<noteq> 0" by auto
    from sys_read_ok [OF "1.prems"(1) ne(1,2)] obtain k e' where r:
      "sys_read e mx = (Some (take k (fd_rest e)), e')" "0 < k" "k \<le> mx" "k \<le> length (fd_rest e)"
      "fd_rest e' = drop k (fd_rest e)" "R_error \<notin> set (fd_reads e')" by blast
    obtain x xs where x: "take k (fd_rest e) = x # xs"
      using r(2) ne(2) by (cases "take k (fd_rest e)") auto
    have len: "length (x # xs) = k" using r(4) unfolding x [symmetric] by simp
    define d where "d = take (b_end b) (b_data b) @ (x # xs) @ drop (b_end b + k) (b_data b)"
    have room: "b_end b + k \<le> length (b_data b)" using "1.prems"(3) r(3) by simp
    have st: "mem_store (b_data b) (b_end b) (x # xs) = Ret d"
      using room by (simp only: mem_store_def len d_def if_True)
    have ld: "length d = length (b_data b)"
      using room len by (simp add: d_def)
    let ?b = "b\<lparr>b_data := d, b_end := b_end b + length (x # xs)\<rparr>"
    have un: "unread ?b = unread b @ take k (fd_rest e)"
    proof -
      have "take (b_end b + k) d = take (b_end b) (b_data b) @ (x # xs)"
        using room by (simp add: d_def len [symmetric])
      with "1.prems"(4) room len show ?thesis
        unfolding x by (simp add: unread_def)
    qed
    have "\<exists>b' e'' k'. read_loop ?b e' (needed - length (x # xs)) (mx - length (x # xs)) =
        Ret (read_outcome (needed - length (x # xs)) (length (fd_rest e')), b', e'') \<and>
        min (needed - length (x # xs)) (length (fd_rest e')) \<le> k' \<and> k' \<le> mx - length (x # xs) \<and>
        k' \<le> length (fd_rest e') \<and> unread b' = unread ?b @ take k' (fd_rest e') \<and>
        fd_rest e'' = drop k' (fd_rest e') \<and> R_error \<notin> set (fd_reads e'') \<and> b_pos b' = b_pos ?b \<and>
        b_end b' = b_end ?b + k' \<and> length (b_data b') = length (b_data ?b) \<and> b_bufsz b' = b_bufsz ?b"
      by (rule "1.IH" [OF ne(3) r(1) [unfolded x, symmetric] refl refl st])
        (use r "1.prems" ld len in simp_all)
    then obtain b' e'' k' where ih:
      "read_loop ?b e' (needed - k) (mx - k) = Ret (read_outcome (needed - k) (length (fd_rest e')), b', e'')"
      "min (needed - k) (length (fd_rest e')) \<le> k'" "k' \<le> mx - k" "k' \<le> length (fd_rest e')"
      "unread b' = unread ?b @ take k' (fd_rest e')"
      "fd_rest e'' = drop k' (fd_rest e')" "R_error \<notin> set (fd_reads e'')" "b_pos b' = b_pos b"
      "b_end b' = b_end b + k + k'" "length (b_data b') = length (b_data b)" "b_bufsz b' = b_bufsz b"
      unfolding len using ld by (auto simp: add.assoc)
    have "read_outcome (needed - k) (length (fd_rest e')) = read_outcome needed (length (fd_rest e))"
      using r(4,5) by (auto simp: read_outcome_def)
    then have "read_loop b e needed mx = Ret (read_outcome needed (length (fd_rest e)), b', e'')"
      using ne(3) r(1) st ih(1) len unfolding x by (subst read_loop.simps) (simp del: list.size)
    moreover have "unread b' = unread b @ take (k + k') (fd_rest e)"
      unfolding ih(5) un r(5) by (simp add: take_add)
    moreover have "fd_rest e'' = drop (k + k') (fd_rest e)"
      by (simp add: ih(6) r(5) add.commute)
    ultimately show ?thesis
      using ih(2-4,7-11) r(3-5)
      by (intro exI [of _ b'] exI [of _ e''] exI [of _ "k + k'"]) auto
  qed
qed

lemma do_read_file_spec:
  assumes at: "file_at s bs" and "needed \<le> mx" and "fill s + mx \<le> NMSG_RBUFSZ"
  shows "\<exists>s'. do_read_file s needed mx = Ret (read_outcome (avail s + needed) (length bs), s') \<and>
    file_at s' bs \<and> min (avail s + needed) (length bs) \<le> avail s' \<and> avail s' \<le> avail s + mx \<and>
    fill s' + avail s = fill s + avail s' \<and> reads_to s s'"
proof (cases s)
  case (Pair st e)
  let ?b = "si_buf st"
  have b: "length (b_data ?b) = NMSG_RBUFSZ" "b_pos ?b \<le> b_end ?b" "b_end ?b \<le> NMSG_RBUFSZ"
    "R_error \<notin> set (fd_reads e)" "unread ?b @ fd_rest e = bs" "si_type st = Stream_file"
    "b_bufsz ?b = NMSG_WBUFSZ_MAX"
    using at Pair by (simp_all add: file_at_def Let_def)
  have lu: "length (unread ?b) = avail s"
    using length_unread [of ?b] b(1,3) Pair by (simp add: avail_def)
  then have lb: "length bs = avail s + length (fd_rest e)"
    using b(5) by (metis length_append)
  have "b_end ?b + mx \<le> length (b_data ?b)" using assms(3) b(1) Pair by (simp add: fill_def)
  from read_loop_spec [OF b(4) assms(2) this b(2)]
  obtain b' e' k where r: "read_loop ?b e needed mx = Ret (read_outcome needed (length (fd_rest e)), b', e')"
    "min needed (length (fd_rest e)) \<le> k" "k \<le> mx" "unread b' = unread ?b @ take k (fd_rest e)"
    "fd_rest e' = drop k (fd_rest e)"
    "R_error \<notin> set (fd_reads e')" "b_pos b' = b_pos ?b" "b_end b' = b_end ?b + k"
    "length (b_data b') = length (b_data ?b)" "b_bufsz b' = b_bufsz ?b"
    by blast
  let ?res = "read_outcome (avail s + needed) (length bs)"
  have res: "read_outcome needed (length (fd_rest e)) = ?res"
    by (simp add: read_outcome_def lb)
  let ?s' = "if ?res = nmsg_res_success then nmsg_timespec_get (st\<lparr>si_buf := b'\<rparr>, e') else (st\<lparr>si_buf := b'\<rparr>, e')"
  have "do_read_file s needed mx = Ret (?res, ?s')"
    using assms(2,3) r(1) Pair by (simp add: do_read_file_def fill_def res)
  moreover have "file_at ?s' bs"
    using b r assms(3) Pair by (simp add: file_at_def Let_def nmsg_timespec_get_def fill_def)
  moreover have "b_end b' - b_pos b' = avail s + k" "min (avail s + needed) (length bs) \<le> avail s + k"
    using b(2) r(2,7,8) Pair lb by (auto simp: avail_def)
  ultimately show ?thesis
    using r(3,7,8) Pair
    by (intro exI [of _ ?s']) (simp add: avail_def fill_def nmsg_timespec_get_def reads_to_def)
qed

lemma do_read_file_ok:
  assumes "file_at s bs" and "needed \<le> mx" and "fill s + mx \<le> NMSG_RBUFSZ"
    and "avail s + needed \<le> length bs"
  shows "\<exists>s'. do_read_file s needed mx = Ret (nmsg_res_success, s') \<and> file_at s' bs \<and>
    avail s + needed \<le> avail s' \<and> avail s' \<le> avail s + mx \<and> fill s' + avail s = fill s + avail s' \<and>
    reads_to s s'"
  using do_read_file_spec [OF assms(1-3)] assms(4) by (simp add: read_outcome_def)

lemma file_at_reset: "file_at s bs \<Longrightarrow> avail s = 0 \<Longrightarrow> file_at (buf_reset s) bs"
  by (cases s) (auto simp: file_at_def buf_reset_def nmsg_buf_reset_def avail_def unread_def Let_def)

lemma buf_reset_simps [simp]: "avail (buf_reset s) = 0" "fill (buf_reset s) = 0" "reads_to s (buf_reset s)"
  by (cases s; simp add: buf_reset_def nmsg_buf_reset_def avail_def fill_def reads_to_def)+

lemma unread_split:
  assumes "file_at s (bs @ rest)" and "length bs \<le> avail s"
  shows "\<exists>t. unread (si_buf (fst s)) = bs @ t \<and> rest = t @ fd_rest (snd s)"
proof -
  let ?u = "unread (si_buf (fst s))"
  have l: "length bs \<le> length ?u" and u: "?u @ fd_rest (snd s) = bs @ rest"
    using assms length_unread [of "si_buf (fst s)"] by (auto simp: file_at_def Let_def avail_def)
  from u consider us where "?u @ us = bs" | us where "?u = bs @ us" "us @ fd_rest (snd s) = rest"
    by (metis append_eq_append_conv2)
  then show ?thesis
  proof cases
    case 1
    with l have "us = []" by (metis add_le_same_cancel1 le_zero_eq length_0_conv length_append)
    with 1 u show ?thesis by simp
  qed blast
qed

lemma file_at_skip:
  assumes "file_at s (bs @ rest)" and "length bs \<le> avail s"
  shows "file_at (buf_skip (length bs) s) rest"
proof (cases s)
  case (Pair st e)
  from unread_split [OF assms] Pair obtain t where t: "unread (si_buf st) = bs @ t" "rest = t @ fd_rest e"
    by auto
  have "unread ((si_buf st)\<lparr>b_pos := b_pos (si_buf st) + length bs\<rparr>) = drop (length bs) (unread (si_buf st))"
    by (simp add: unread_def add.commute)
  with assms t Pair show ?thesis
    by (auto simp: file_at_def buf_skip_def avail_def Let_def)
qed

lemma buf_skip_simps [simp]:
  "avail (buf_skip n s) = avail s - n" "fill (buf_skip n s) = fill s" "reads_to s (buf_skip n s)"
  by (cases s; simp add: buf_skip_def avail_def fill_def reads_to_def)+

lemma buf_mem_prefix:
  assumes "file_at s (bs @ rest)" and "length bs \<le> avail s"
  shows "\<exists>t. buf_mem s = bs @ t"
proof -
  from unread_split [OF assms] obtain t where "unread (si_buf (fst s)) = bs @ t" by blast
  moreover have "\<exists>t. buf_mem s = unread (si_buf (fst s)) @ t"
    unfolding buf_mem_def unread_def by (metis append_take_drop_id drop_append)
  ultimately show ?thesis by auto
qed

section \<open>Reading the header of a container\<close>

lemma file_at_sizes: "file_at s bs \<Longrightarrow> b_bufsz (si_buf (fst s)) = NMSG_WBUFSZ_MAX \<and> avail s \<le> fill s"
  by (simp add: file_at_def avail_def fill_def Let_def)

text \<open>
  Between containers the buffer is either used up or filled to at most half. A length field of
  \<open>n\<close> octets that holds \<open>len\<close>:
\<close>

definition length_field :: "u16 \<Rightarrow> byte list \<Rightarrow> nat \<Rightarrow> bool" where
  "length_field version bs len \<longleftrightarrow>
     (if version = 1 then length bs = 2 \<and> (\<forall>t. \<exists>v. load_net16 (bs @ t) = Ret v \<and> unat v = len)
      else length bs = 4 \<and> (\<forall>t. \<exists>v. load_net32 (bs @ t) = Ret v \<and> unat v = len))"

lemma read_length_ok:
  assumes at: "file_at s (bs @ rest)" and len: "length_field version bs len"
    and room: "fill s \<le> NMSG_WBUFSZ_MAX \<or> avail s = 0" and reset: "reset_buf \<longrightarrow> avail s = 0"
  shows "\<exists>s'. read_length s reset_buf version (length bs) = Ret (nmsg_res_success, len, s') \<and>
    file_at s' rest \<and> fill s' \<le> NMSG_WBUFSZ_MAX \<and> reads_to s s'"
proof -
  define s0 where "s0 = (if reset_buf then buf_reset s else s)"
  have s0: "file_at s0 (bs @ rest)" "fill s0 \<le> NMSG_WBUFSZ_MAX \<or> avail s0 = 0" "reads_to s s0"
    using at room reset file_at_reset [OF at] by (auto simp: s0_def)
  have bs: "length bs = 2 \<or> length bs = 4" using len by (auto simp: length_field_def split: if_splits)
  define fetched where "fetched =
    (if avail s0 < length bs then
       let s1 = (if avail s0 = 0 then buf_reset s0 else s0);
           bytes_needed = length bs - avail s0
       in if avail s0 = 0
          then run_bind (do_read_file s1 bytes_needed (b_bufsz (si_buf (fst s1)))) (\<lambda>(_, s2). Ret (s2, False))
          else run_bind (do_read_file s1 bytes_needed bytes_needed) (\<lambda>(_, s2). Ret (s2, True))
     else Ret (s0, False))"
  have "\<exists>s3 r. fetched = Ret (s3, r) \<and> file_at s3 (bs @ rest) \<and> length bs \<le> avail s3 \<and>
      reads_to s0 s3 \<and> (if r then avail s3 = length bs else fill s3 \<le> NMSG_WBUFSZ_MAX)"
  proof (cases "avail s0 < length bs")
    case False
    then have "fill s0 \<le> NMSG_WBUFSZ_MAX" using s0(2) bs by auto
    with False s0 show ?thesis
      by (intro exI [of _ s0] exI [of _ False]) (simp add: fetched_def)
  next
    case True
    show ?thesis
    proof (cases "avail s0 = 0")
      case z: True
      note r0 = file_at_reset [OF s0(1) z]
      have bz: "b_bufsz (si_buf (fst (buf_reset s0))) = NMSG_WBUFSZ_MAX"
        using file_at_sizes [OF r0] by simp
      from do_read_file_ok [OF r0, of "length bs" NMSG_WBUFSZ_MAX] bs
      obtain s' where s': "do_read_file (buf_reset s0) (length bs) NMSG_WBUFSZ_MAX = Ret (nmsg_res_success, s')"
        "file_at s' (bs @ rest)" "length bs \<le> avail s'" "avail s' \<le> NMSG_WBUFSZ_MAX"
        "fill s' = avail s'" "reads_to (buf_reset s0) s'"
        by auto
      with True z bz reads_to_trans [OF buf_reset_simps(3) s'(6)] show ?thesis
        by (intro exI [of _ s'] exI [of _ False]) (simp add: fetched_def Let_def)
    next
      case nz: False
      then have f: "fill s0 \<le> NMSG_WBUFSZ_MAX" using s0(2) by simp
      have "fill s0 + (length bs - avail s0) \<le> NMSG_RBUFSZ" using f bs by auto
      from do_read_file_ok [OF s0(1) le_refl this] True bs
      obtain s' where "do_read_file s0 (length bs - avail s0) (length bs - avail s0) = Ret (nmsg_res_success, s')"
        "file_at s' (bs @ rest)" "length bs \<le> avail s'" "avail s' \<le> length bs" "reads_to s0 s'"
        by auto
      with True nz show ?thesis
        by (intro exI [of _ s'] exI [of _ True]) (simp add: fetched_def Let_def)
    qed
  qed
  then obtain s3 r where s3: "fetched = Ret (s3, r)" "file_at s3 (bs @ rest)" "length bs \<le> avail s3"
    "reads_to s0 s3" "if r then avail s3 = length bs else fill s3 \<le> NMSG_WBUFSZ_MAX"
    by blast
  from buf_mem_prefix [OF s3(2,3)] obtain t where t: "buf_mem s3 = bs @ t" by blast
  have ld: "(if version = 1 then run_bind (load_net16 (buf_mem s3)) (\<lambda>v. Ret (unat v, 2))
      else run_bind (load_net32 (buf_mem s3)) (\<lambda>v. Ret (unat v, 4))) = Ret (len, length bs)"
    using len unfolding t length_field_def by (auto split: if_splits dest: spec [of _ t])
  let ?s4 = "buf_skip (length bs) s3"
  let ?s5 = "if r then buf_reset ?s4 else ?s4"
  have r: "read_length s reset_buf version (length bs) = Ret (nmsg_res_success, len, ?s5)"
    using s3(1,3) nmsg_buf_avail_file_at [OF s0(1)] nmsg_buf_avail_file_at [OF s3(2)] ld
    unfolding read_length_def fetched_def s0_def [symmetric] by (simp add: Let_def)
  have at4: "file_at ?s4 rest" by (rule file_at_skip [OF s3(2,3)])
  have "reads_to s ?s4"
    by (intro reads_to_trans [OF s0(3)] reads_to_trans [OF s3(4)]) simp
  then have "reads_to s ?s5" using reads_to_trans [OF _ buf_reset_simps(3)] by auto
  moreover have "file_at ?s5 rest" using at4 s3(5) file_at_reset [OF at4] by auto
  moreover have "fill ?s5 \<le> NMSG_WBUFSZ_MAX" using s3(5) by auto
  ultimately show ?thesis using r by blast
qed

text \<open>The header that a container of \<open>len\<close> octets has in a file, and the flags it leaves behind.\<close>

definition file_header :: "byte \<Rightarrow> byte list \<Rightarrow> nat \<Rightarrow> byte \<Rightarrow> bool" where
  "file_header old hdr len flags \<longleftrightarrow>
     len < 2 ^ 32 \<and> hdr = header_serialize flags (of_nat len) \<or>
     len < 2 ^ 16 \<and> hdr = NMSG_MAGIC @ store_net16 1 @ store_net16 (of_nat len) \<and> flags = old"

lemma file_headerE:
  assumes "file_header old hdr len flags"
  obtains version lb where "hdr = NMSG_MAGIC @ store_net16 version @ lb" "length_field version lb len"
    "version = 1 \<and> flags = old \<and> length lb = 2 \<or>
     version \<noteq> 1 \<and> version AND 0xFF = 2 \<and> flags = ucast (drop_bit 8 version) \<and> length lb = 4"
  using assms unfolding file_header_def
proof (elim disjE conjE)
  assume a: "len < 2 ^ 32" "hdr = header_serialize flags (of_nat len)"
  let ?v = "NMSG_VERSION OR push_bit 8 (ucast flags)"
  have v: "?v AND 0xFF = 2" "ucast (drop_bit 8 ?v) = flags"
    by (rule header_version)+
  have "?v \<noteq> 1"
  proof
    assume e: "?v = 1"
    show False using v(1) unfolding e by simp
  qed
  with a v show ?thesis
    by (intro that [of ?v "store_net32 (of_nat len)"])
      (simp_all add: header_serialize_def Let_def length_field_def unat_of_nat_u32)
next
  assume "len < 2 ^ 16" "hdr = NMSG_MAGIC @ store_net16 1 @ store_net16 (of_nat len)" "flags = old"
  then show ?thesis
    by (intro that [of 1 "store_net16 (of_nat len)"])
      (simp_all add: length_field_def unsigned_of_nat take_bit_nat_eq_self)
qed

definition between :: "source \<Rightarrow> bool" where
  "between s \<longleftrightarrow> fill s \<le> NMSG_WBUFSZ_MAX \<or> avail s = 0"

lemma fetch_header_ok:
  assumes at: "file_at s (m @ rest)" and m: "length m = 6" and bt: "between s"
  shows "\<exists>s1 r. fetch_header s (avail s) = Ret (nmsg_res_success, s1, r) \<and> file_at s1 (m @ rest) \<and>
    6 \<le> avail s1 \<and> reads_to s s1 \<and> (if r then avail s1 = 6 else fill s1 \<le> NMSG_WBUFSZ_MAX)"
proof (cases "avail s < 6")
  case False
  then have "fill s \<le> NMSG_WBUFSZ_MAX" using bt by (auto simp: between_def)
  with False at show ?thesis
    by (intro exI [of _ s] exI [of _ False]) (simp add: fetch_header_def)
next
  case True
  show ?thesis
  proof (cases "avail s = 0")
    case z: True
    note r0 = file_at_reset [OF at z]
    have bz: "b_bufsz (si_buf (fst s)) = NMSG_WBUFSZ_MAX" using file_at_sizes [OF at] by simp
    from do_read_file_ok [OF r0, of 6 NMSG_WBUFSZ_MAX] m
    obtain s' where s': "do_read_file (buf_reset s) 6 NMSG_WBUFSZ_MAX = Ret (nmsg_res_success, s')"
      "file_at s' (m @ rest)" "6 \<le> avail s'" "avail s' \<le> NMSG_WBUFSZ_MAX"
      "fill s' = avail s'" "reads_to (buf_reset s) s'"
      by auto
    with True z bz reads_to_trans [OF buf_reset_simps(3) s'(6)] show ?thesis
      by (intro exI [of _ s'] exI [of _ False]) (simp add: fetch_header_def Let_def)
  next
    case nz: False
    then have f: "fill s \<le> NMSG_WBUFSZ_MAX" using bt by (simp add: between_def)
    have "fill s + (6 - avail s) \<le> NMSG_RBUFSZ" using f by simp
    from do_read_file_ok [OF at le_refl this] True m
    obtain s' where "do_read_file s (6 - avail s) (6 - avail s) = Ret (nmsg_res_success, s')"
      "file_at s' (m @ rest)" "6 \<le> avail s'" "avail s' \<le> 6" "reads_to s s'"
      by auto
    with True nz show ?thesis
      by (intro exI [of _ s'] exI [of _ True]) (simp add: fetch_header_def Let_def)
  qed
qed

lemma read_file_ok:
  assumes at: "file_at s (hdr @ rest)" and hdr: "file_header (si_flags (fst s)) hdr len flags"
    and bt: "between s"
  shows "\<exists>s'. read_file s = Ret (nmsg_res_success, len, s') \<and> file_at s' rest \<and>
    fill s' \<le> NMSG_WBUFSZ_MAX \<and>
    fst s' = (fst s)\<lparr>si_buf := si_buf (fst s'), si_now := si_now (fst s'), si_flags := flags\<rparr>"
proof -
  from file_headerE [OF hdr] obtain version lb where h: "hdr = NMSG_MAGIC @ store_net16 version @ lb"
    "length_field version lb len"
    "version = 1 \<and> flags = si_flags (fst s) \<and> length lb = 2 \<or>
     version \<noteq> 1 \<and> version AND 0xFF = 2 \<and> flags = ucast (drop_bit 8 version) \<and> length lb = 4"
    by blast
  let ?r = "lb @ rest"
  let ?m = "NMSG_MAGIC @ store_net16 version"
  have at: "file_at s (?m @ ?r)" using at h(1) by simp
  from fetch_header_ok [OF at _ bt]
  obtain s1 r where s1: "fetch_header s (avail s) = Ret (nmsg_res_success, s1, r)" "file_at s1 (?m @ ?r)"
    "6 \<le> avail s1" "reads_to s s1" "if r then avail s1 = 6 else fill s1 \<le> NMSG_WBUFSZ_MAX"
    by auto
  have at1: "file_at s1 (NMSG_MAGIC @ store_net16 version @ ?r)" using s1(2) by simp
  from buf_mem_prefix [OF at1] s1(3) obtain t1 where t1: "buf_mem s1 = NMSG_MAGIC @ t1" by auto
  let ?s2 = "buf_skip 4 s1"
  have at2: "file_at ?s2 (store_net16 version @ ?r)" using file_at_skip [OF at1] s1(3) by simp
  have l2: "length (store_net16 version) \<le> avail ?s2" using s1(3) by simp
  from buf_mem_prefix [OF at2 l2] obtain t2 where t2: "buf_mem ?s2 = store_net16 version @ t2"
    by blast
  let ?s3 = "buf_skip 2 ?s2"
  have at3: "file_at ?s3 (lb @ rest)" using file_at_skip [OF at2 l2] by simp
  let ?s4 = "((fst ?s3)\<lparr>si_flags := flags\<rparr>, snd ?s3)"
  have at4: "file_at ?s4 (lb @ rest)" using at3 by (simp add: file_at_def Let_def)
  have "avail ?s4 = avail ?s3" "fill ?s4 = fill ?s3" by (simp_all add: avail_def fill_def)
  then have a4: "avail ?s4 = avail s1 - 6" "fill ?s4 = fill s1" by simp_all
  have r3: "reads_to s ?s3"
    by (rule reads_to_trans [OF s1(4) reads_to_trans [OF buf_skip_simps(3) buf_skip_simps(3)]])
  have fl: "?s4 = ?s3" if "version = 1"
  proof -
    have e: "flags = si_flags (fst ?s3)" using reads_to_flags [OF r3] that h(3) by auto
    show ?thesis unfolding e same_flags by simp
  qed
  have "fill ?s4 \<le> NMSG_WBUFSZ_MAX \<or> avail ?s4 = 0" "r \<longrightarrow> avail ?s4 = 0"
    using s1(5) unfolding a4 by (auto split: if_splits)
  moreover have "length_field (if version = 1 then 1 else 2) lb len"
    using h(2) by (auto simp: length_field_def)
  ultimately obtain s5 where s5:
    "read_length ?s4 r (if version = 1 then 1 else 2) (length lb) = Ret (nmsg_res_success, len, s5)"
    "file_at s5 rest" "fill s5 \<le> NMSG_WBUFSZ_MAX" "reads_to ?s4 s5"
    using read_length_ok [OF at4] by metis
  have "read_file s = Ret (nmsg_res_success, len, s5)"
    using nmsg_buf_avail_file_at [OF at] nmsg_buf_avail_file_at [OF at1] s1(1,3) t1 t2 h(3) s5(1) fl
    by (auto simp: read_file_def mem_read_def Let_def)
  moreover from r3 have "fst s5 = (fst s)\<lparr>si_buf := si_buf (fst s5), si_now := si_now (fst s5), si_flags := flags\<rparr>"
    using s5(4) by (cases "fst s"; cases "fst s5"; cases "fst ?s3") (simp add: reads_to_def)
  ultimately show ?thesis using s5(2,3) by blast
qed

section \<open>Reading a container from a file\<close>

text \<open>The container that the octets \<open>body\<close> stand for under the flags, by a reset inflater.\<close>

definition body_holds :: "pbc \<Rightarrow> zlib \<Rightarrow> byte \<Rightarrow> byte list \<Rightarrow> nmsg_nmsg \<Rightarrow> bool" where
  "body_holds pb z flags body n \<longleftrightarrow> \<not> flag_set flags NMSG_FLAG_FRAGMENT \<and>
     (if flag_set flags NMSG_FLAG_ZLIB
      then \<exists>u. nmsg__nmsg__unpack pb u = Some n \<and>
        (\<forall>t. nmsg_zbuf_inflate z True [] (length body) (body @ t) = Ret (Inr u, []))
      else nmsg__nmsg__unpack pb body = Some n)"

lemma unpack_container_ok:
  assumes "body_holds pb z (si_flags st) body n" and "si_zb st = []" and "ok 4"
  shows "input_nmsg_unpack_container pb z ok junk st (body @ t) (length body) =
    Ret (nmsg_res_success, st\<lparr>si_nc_size := length body + 10, si_nmsg := Some n\<rparr>)"
proof -
  have zb: "st\<lparr>si_nc_size := x, si_zb := [], si_nmsg := y\<rparr> = st\<lparr>si_nc_size := x, si_nmsg := y\<rparr>" for x y
    using assms(2) by (cases st) simp
  from assms show ?thesis
    by (auto simp: body_holds_def input_nmsg_unpack_container_def mem_read_def zb split: if_splits)
qed

text \<open>What reading a container leaves alone.\<close>

definition container_read :: "nmsg_stream_input \<Rightarrow> nmsg_stream_input \<Rightarrow> bool" where
  "container_read st st' \<longleftrightarrow> st' = st\<lparr>si_buf := si_buf st', si_now := si_now st', si_flags := si_flags st',
     si_nc_size := si_nc_size st', si_nmsg := si_nmsg st'\<rparr>"

lemma read_container_file_ok:
  assumes at: "file_at s (hdr @ body @ rest)" and hdr: "file_header (si_flags (fst s)) hdr (length body) flags"
    and bt: "between s" and len: "length body \<le> NMSG_WBUFSZ_MAX"
    and holds: "body_holds pb z flags body n" and zb: "si_zb (fst s) = []" and ok: "ok 4"
  shows "\<exists>s'. read_container_file pb z ok junk s = Ret (nmsg_res_success, s') \<and> file_at s' rest \<and>
    between s' \<and> si_nmsg (fst s') = Some n \<and> si_flags (fst s') = flags \<and> container_read (fst s) (fst s')"
proof -
  from read_file_ok [OF at hdr bt] obtain s1 where s1:
    "read_file s = Ret (nmsg_res_success, length body, s1)" "file_at s1 (body @ rest)"
    "fill s1 \<le> NMSG_WBUFSZ_MAX"
    "fst s1 = (fst s)\<lparr>si_buf := si_buf (fst s1), si_now := si_now (fst s1), si_flags := flags\<rparr>"
    by blast
  define fetched where "fetched =
    (if avail s1 < length body
     then do_read_file s1 (length body - avail s1) (length body - avail s1)
     else Ret (nmsg_res_success, s1))"
  have af: "avail s1 \<le> fill s1" using file_at_sizes [OF s1(2)] by simp
  have "\<exists>s2. fetched = Ret (nmsg_res_success, s2) \<and> file_at s2 (body @ rest) \<and> length body \<le> avail s2 \<and>
      reads_to s1 s2 \<and> (fill s2 \<le> NMSG_WBUFSZ_MAX \<or> avail s2 = length body)"
  proof (cases "avail s1 < length body")
    case True
    have room: "fill s1 + (length body - avail s1) \<le> NMSG_RBUFSZ" using s1(3) len by simp
    have "avail s1 + (length body - avail s1) \<le> length (body @ rest)" using True by simp
    from do_read_file_ok [OF s1(2) le_refl room this] obtain s2 where
      "do_read_file s1 (length body - avail s1) (length body - avail s1) = Ret (nmsg_res_success, s2)"
      "file_at s2 (body @ rest)" "length body \<le> avail s2" "avail s2 \<le> length body" "reads_to s1 s2"
      using True by auto
    with True show ?thesis by (simp add: fetched_def)
  next
    case False
    with s1 show ?thesis by (simp add: fetched_def)
  qed
  then obtain s2 where s2: "fetched = Ret (nmsg_res_success, s2)" "file_at s2 (body @ rest)"
    "length body \<le> avail s2" "reads_to s1 s2" "fill s2 \<le> NMSG_WBUFSZ_MAX \<or> avail s2 = length body"
    by blast
  from buf_mem_prefix [OF s2(2,3)] obtain t where t: "buf_mem s2 = body @ t" by blast
  have e2: "fst s2 = (fst s)\<lparr>si_buf := si_buf (fst s2), si_now := si_now (fst s2), si_flags := flags\<rparr>"
    using s1(4) s2(4) by (cases "fst s"; cases "fst s1"; cases "fst s2") (simp add: reads_to_def)
  then have st2: "si_flags (fst s2) = flags" "si_zb (fst s2) = []"
    using zb by (cases "fst s"; cases "fst s2"; simp)+
  let ?st3 = "(fst s2)\<lparr>si_nc_size := length body + 10, si_nmsg := Some n\<rparr>"
  let ?s' = "buf_skip (length body) (?st3, snd s2)"
  have un: "input_nmsg_unpack_container pb z ok junk (fst s2) (buf_mem s2) (length body) =
      Ret (nmsg_res_success, ?st3)"
    unfolding t using holds st2 ok by (intro unpack_container_ok) auto
  have "si_type (fst s) = Stream_file" using at by (simp add: file_at_def Let_def)
  then have "read_container_file pb z ok junk s = Ret (nmsg_res_success, ?s')"
    using s1(1) s2(1) nmsg_buf_avail_file_at [OF s1(2)] un
    by (simp add: read_container_file_def fetched_def [symmetric])
  moreover have at3: "file_at (?st3, snd s2) (body @ rest)" "avail (?st3, snd s2) = avail s2"
    "fill (?st3, snd s2) = fill s2"
    using s2(2) by (simp_all add: file_at_def Let_def avail_def fill_def)
  then have "file_at ?s' rest" using s2(3) by (intro file_at_skip) simp_all
  moreover have "between ?s'" using s2(5) at3 by (auto simp: between_def)
  moreover have "si_nmsg (fst ?s') = Some n" "si_flags (fst ?s') = flags" "container_read (fst s) (fst ?s')"
    using e2 st2(1) by (cases "fst s"; cases "fst s2"; simp add: buf_skip_def container_read_def)+
  ultimately show ?thesis by blast
qed

lemma fetch_header_short:
  assumes at: "file_at s bs" and bt: "between s" and short: "length bs < 6"
  shows "\<exists>s' r. fetch_header s (avail s) = Ret (nmsg_res_eof, s', r) \<and> reads_to s s' \<and> file_at s' bs"
proof -
  have l: "avail s \<le> length bs"
    using at length_unread [of "si_buf (fst s)"] by (auto simp: file_at_def Let_def avail_def)
  show ?thesis
  proof (cases "avail s = 0")
    case z: True
    note r0 = file_at_reset [OF at z]
    have bz: "b_bufsz (si_buf (fst s)) = NMSG_WBUFSZ_MAX" using file_at_sizes [OF at] by simp
    from do_read_file_spec [OF r0, of 6 NMSG_WBUFSZ_MAX] short
    obtain s' where s': "do_read_file (buf_reset s) 6 NMSG_WBUFSZ_MAX = Ret (nmsg_res_eof, s')"
      "file_at s' bs" "reads_to (buf_reset s) s'"
      by (auto simp: read_outcome_def)
    with z bz reads_to_trans [OF buf_reset_simps(3) s'(3)] show ?thesis
      by (intro exI [of _ s'] exI [of _ False]) (simp add: fetch_header_def)
  next
    case nz: False
    then have "fill s + (6 - avail s) \<le> NMSG_RBUFSZ" using bt by (simp add: between_def)
    from do_read_file_spec [OF at le_refl this] short l
    obtain s' where "do_read_file s (6 - avail s) (6 - avail s) = Ret (nmsg_res_eof, s')"
      "file_at s' bs" "reads_to s s'"
      by (auto simp: read_outcome_def)
    with nz l short show ?thesis
      by (intro exI [of _ s'] exI [of _ True]) (simp add: fetch_header_def)
  qed
qed

lemma read_container_file_eof:
  assumes at: "file_at s bs" and bt: "between s" and short: "length bs < 6"
  shows "\<exists>s'. read_container_file pb z ok junk s = Ret (nmsg_res_eof, s') \<and> reads_to s s'"
proof -
  from fetch_header_short [OF assms] obtain s' r where
    "fetch_header s (avail s) = Ret (nmsg_res_eof, s', r)" "reads_to s s'" by blast
  moreover have "si_type (fst s) = Stream_file" using at by (simp add: file_at_def Let_def)
  ultimately show ?thesis
    using nmsg_buf_avail_file_at [OF at] by (simp add: read_container_file_def read_file_def)
qed

section \<open>Files that stop the process\<close>

lemma read_length_short:
  assumes at: "file_at s bs" and short: "length bs < n" and n: "n \<le> 4"
    and room: "fill s \<le> NMSG_WBUFSZ_MAX \<or> avail s = 0" and reset: "reset_buf \<longrightarrow> avail s = 0"
  shows "read_length s reset_buf version n = Abort"
proof -
  define s0 where "s0 = (if reset_buf then buf_reset s else s)"
  have s0: "file_at s0 bs" "fill s0 \<le> NMSG_WBUFSZ_MAX \<or> avail s0 = 0"
    using at room reset file_at_reset [OF at] by (auto simp: s0_def)
  have l: "avail s' \<le> length bs" if "file_at s' bs" for s'
    using that length_unread [of "si_buf (fst s')"] by (auto simp: file_at_def Let_def avail_def)
  have lt: "avail s0 < n" using l [OF s0(1)] short by simp
  note av = nmsg_buf_avail_file_at [OF s0(1)]
  show ?thesis
  proof (cases "avail s0 = 0")
    case z: True
    note r0 = file_at_reset [OF s0(1) z]
    have bz: "b_bufsz (si_buf (fst (buf_reset s0))) = NMSG_WBUFSZ_MAX" using file_at_sizes [OF r0] by simp
    from do_read_file_spec [OF r0, of n NMSG_WBUFSZ_MAX] short n
    obtain s' where s': "do_read_file (buf_reset s0) n NMSG_WBUFSZ_MAX = Ret (nmsg_res_eof, s')" "file_at s' bs"
      by (auto simp: read_outcome_def)
    with z lt av bz l [OF s'(2)] short nmsg_buf_avail_file_at [OF s'(2)] show ?thesis
      unfolding read_length_def s0_def [symmetric] by (simp add: Let_def)
  next
    case nz: False
    then have "fill s0 + (n - avail s0) \<le> NMSG_RBUFSZ" using s0(2) n by simp
    from do_read_file_spec [OF s0(1) le_refl this] lt short
    obtain s' where s': "do_read_file s0 (n - avail s0) (n - avail s0) = Ret (nmsg_res_eof, s')" "file_at s' bs"
      by (auto simp: read_outcome_def)
    with nz lt av l [OF s'(2)] short nmsg_buf_avail_file_at [OF s'(2)] show ?thesis
      unfolding read_length_def s0_def [symmetric] by (simp add: Let_def)
  qed
qed

text \<open>A version number that is read, and the size of the length field that follows it.\<close>

definition known_version :: "u16 \<Rightarrow> nat \<Rightarrow> bool" where
  "known_version version n \<longleftrightarrow> version = 1 \<and> n = 2 \<or> version \<noteq> 1 \<and> version AND 0xFF = 2 \<and> n = 4"

lemma read_file_short_length:
  assumes at: "file_at s (NMSG_MAGIC @ store_net16 version @ lb)" and bt: "between s"
    and v: "known_version version n" and short: "length lb < n"
  shows "read_file s = Abort"
proof -
  let ?m = "NMSG_MAGIC @ store_net16 version"
  have at': "file_at s (?m @ lb)" using at by simp
  from fetch_header_ok [OF at' _ bt] obtain s1 r where s1:
    "fetch_header s (avail s) = Ret (nmsg_res_success, s1, r)" "file_at s1 (?m @ lb)" "6 \<le> avail s1"
    "if r then avail s1 = 6 else fill s1 \<le> NMSG_WBUFSZ_MAX"
    by auto
  have at1: "file_at s1 (NMSG_MAGIC @ store_net16 version @ lb)" using s1(2) by simp
  from buf_mem_prefix [OF at1] s1(3) obtain t1 where t1: "buf_mem s1 = NMSG_MAGIC @ t1" by auto
  let ?s2 = "buf_skip 4 s1"
  have at2: "file_at ?s2 (store_net16 version @ lb)" using file_at_skip [OF at1] s1(3) by simp
  have l2: "length (store_net16 version) \<le> avail ?s2" using s1(3) by simp
  from buf_mem_prefix [OF at2 l2] obtain t2 where t2: "buf_mem ?s2 = store_net16 version @ t2" by blast
  let ?s3 = "buf_skip 2 ?s2"
  have at3: "file_at ?s3 lb" using file_at_skip [OF at2 l2] by simp
  have rl: "read_length (st', snd ?s3) r v' n = Abort"
    if "st' = fst ?s3 \<or> (\<exists>f. st' = (fst ?s3)\<lparr>si_flags := f\<rparr>)" for st' v'
  proof (rule read_length_short [OF _ short])
    have same: "avail (st', snd ?s3) = avail ?s3" "fill (st', snd ?s3) = fill ?s3"
      using that by (auto simp: avail_def fill_def)
    show "file_at (st', snd ?s3) lb" using at3 that by (auto simp: file_at_def Let_def)
    show "n \<le> 4" using v by (auto simp: known_version_def)
    show "fill (st', snd ?s3) \<le> NMSG_WBUFSZ_MAX \<or> avail (st', snd ?s3) = 0"
      "r \<longrightarrow> avail (st', snd ?s3) = 0"
      using s1(4) unfolding same by (auto split: if_splits)
  qed
  show ?thesis
    using nmsg_buf_avail_file_at [OF at] nmsg_buf_avail_file_at [OF at1] s1(1,3) t1 t2 v
      rl [of "fst ?s3"] rl [of "(fst ?s3)\<lparr>si_flags := f\<rparr>" for f]
    by (auto simp: read_file_def mem_read_def known_version_def Let_def)
qed

text \<open>
  Two kinds of file stop the process at an assertion, wherever in the stream they occur and
  however they are read: one that ends inside the length field of a container, and one that
  announces a container of more than two mebibytes.
\<close>

theorem input_file_assertions:
  assumes "file_at s bs" and "between s"
    and "(\<exists>version n lb. bs = NMSG_MAGIC @ store_net16 version @ lb \<and> known_version version n \<and> length lb < n) \<or>
      (\<exists>hdr len flags rest. bs = hdr @ rest \<and> file_header (si_flags (fst s)) hdr len flags \<and> NMSG_RBUFSZ < len)"
  shows "read_container_file pb z ok junk s = Abort"
proof -
  have ty: "si_type (fst s) = Stream_file" using assms(1) by (simp add: file_at_def Let_def)
  from assms(3) consider
    version n lb where "bs = NMSG_MAGIC @ store_net16 version @ lb" "known_version version n" "length lb < n"
  | hdr len flags rest where "bs = hdr @ rest" "file_header (si_flags (fst s)) hdr len flags" "NMSG_RBUFSZ < len"
    by blast
  then show ?thesis
  proof cases
    case 1
    with read_file_short_length [of s version lb n] assms(1,2) ty show ?thesis
      by (simp add: read_container_file_def)
  next
    case 2
    from read_file_ok [OF assms(1) [unfolded 2(1)] 2(2) assms(2)] obtain s1 where s1:
      "read_file s = Ret (nmsg_res_success, len, s1)" "file_at s1 rest" "fill s1 \<le> NMSG_WBUFSZ_MAX"
      by blast
    have "avail s1 \<le> fill s1" using file_at_sizes [OF s1(2)] by simp
    then have "avail s1 < len" "\<not> fill s1 + (len - avail s1) \<le> NMSG_RBUFSZ" using s1(3) 2(3) by auto
    moreover from this have "do_read_file s1 (len - avail s1) (len - avail s1) = Abort"
      by (cases s1) (simp add: do_read_file_def fill_def)
    ultimately show ?thesis
      using ty s1(1) nmsg_buf_avail_file_at [OF s1(2)] by (simp add: read_container_file_def)
  qed
qed

end
