(* ===== verification/Input_Sock.thy ===== *)
theory Input_Sock
  imports Input_File
begin

text \<open>
  Reading containers from a socket: one datagram, one container, and what the counters, the
  timeouts and the malformed datagrams do.
\<close>

section \<open>Reading a container from a socket\<close>

text \<open>What no read of a container changes: the settings of the stream.\<close>

definition settings ::
  "nmsg_stream_input \<Rightarrow> nmsg_stream_type \<times> u32 \<times> u32 \<times> u32 \<times> bool \<times> bool" where
  "settings st = (si_type st, si_source st, si_operator st, si_group st, si_blocking_io st,
     si_verify_seqsrc st)"

lemma container_read_settings:
  "container_read st st' \<Longrightarrow> settings st' = settings st \<and> si_zb st' = si_zb st"
  by (cases st; cases st') (simp add: container_read_def settings_def)

lemma reads_to_settings:
  "reads_to s s' \<Longrightarrow> settings (fst s') = settings (fst s) \<and> si_zb (fst s') = si_zb (fst s) \<and>
     si_nmsg (fst s') = si_nmsg (fst s)"
  by (cases "fst s"; cases "fst s'") (simp add: reads_to_def settings_def)

definition sock_ok :: "source \<Rightarrow> bool" where
  "sock_ok s \<longleftrightarrow> si_type (fst s) = Stream_sock \<and> length (b_data (si_buf (fst s))) = NMSG_RBUFSZ \<and>
     b_bufsz (si_buf (fst s)) = NMSG_WBUFSZ_MAX \<and> si_zb (fst s) = []"

lemma frag_gc_foldl_fields:
  "\<exists>n t. foldl (\<lambda>s (k, f). if P f then frag_done k s else s) st xs = st\<lparr>si_nfrags := n, si_nft := t\<rparr>"
proof (induction xs arbitrary: st)
  case Nil
  have "st = st\<lparr>si_nfrags := si_nfrags st, si_nft := si_nft st\<rparr>" by simp
  then show ?case by (metis foldl_Nil)
next
  case (Cons x xs)
  obtain k f where x: "x = (k, f)" by (cases x)
  let ?s = "if P f then frag_done k st else st"
  from Cons.IH [of ?s] obtain n t where
    "foldl (\<lambda>s (k, f). if P f then frag_done k s else s) ?s xs = ?s\<lparr>si_nfrags := n, si_nft := t\<rparr>"
    by blast
  moreover have "?s\<lparr>si_nfrags := n, si_nft := t\<rparr> = st\<lparr>si_nfrags := n, si_nft := t\<rparr>"
    by (simp add: frag_done_def)
  ultimately have "foldl (\<lambda>s (k, f). if P f then frag_done k s else s) st (x # xs) =
      st\<lparr>si_nfrags := n, si_nft := t\<rparr>"
    by (simp add: x)
  then show ?case by blast
qed

lemma input_frag_gc_fields:
  "\<exists>n t l. input_frag_gc st = st\<lparr>si_nfrags := n, si_nft := t, si_lastgc := l\<rparr>"
proof -
  from frag_gc_foldl_fields [of "frag_expired st" st "RBT.entries (si_nft st)"] obtain n t where
    "foldl (\<lambda>s (k, f). if frag_expired st f then frag_done k s else s) st (RBT.entries (si_nft st)) =
      st\<lparr>si_nfrags := n, si_nft := t\<rparr>" by blast
  then have "input_frag_gc st = st\<lparr>si_nfrags := si_nfrags st, si_nft := si_nft st, si_lastgc := si_lastgc st\<rparr> \<or>
      input_frag_gc st = st\<lparr>si_nfrags := n, si_nft := t, si_lastgc := si_now st\<rparr>"
    by (simp add: input_frag_gc_def)
  then show ?thesis by blast
qed

lemma input_frag_gc_simps [simp]:
  "si_nmsg (input_frag_gc st) = si_nmsg st" "si_buf (input_frag_gc st) = si_buf st"
  "si_zb (input_frag_gc st) = si_zb st" "settings (input_frag_gc st) = settings st"
  "si_count_recv (input_frag_gc st) = si_count_recv st" "si_flags (input_frag_gc st) = si_flags st"
  "si_count_drop (input_frag_gc st) = si_count_drop st" "si_seqsrcs (input_frag_gc st) = si_seqsrcs st"
  "si_type (input_frag_gc st) = si_type st"
  using input_frag_gc_fields [of st] by (auto simp: settings_def)

lemma input_seqsrc_get_fields:
  "\<exists>i ss. input_seqsrc_get True st n = Ret (i, st\<lparr>si_seqsrcs := ss\<rparr>)"
  by (auto simp: input_seqsrc_get_def Let_def split: prod.splits option.splits)

lemma input_count_fields:
  assumes "si_nmsg st = Some n"
  shows "\<exists>ss d. input_count True st =
    Ret (st\<lparr>si_count_recv := si_count_recv st + 1, si_seqsrcs := ss, si_count_drop := d\<rparr>)"
proof (cases "si_verify_seqsrc st")
  case True
  from input_seqsrc_get_fields [of "st\<lparr>si_count_recv := si_count_recv st + 1\<rparr>" n] obtain i ss where
    "input_seqsrc_get True (st\<lparr>si_count_recv := si_count_recv st + 1\<rparr>) n =
      Ret (i, st\<lparr>si_count_recv := si_count_recv st + 1, si_seqsrcs := ss\<rparr>)" by auto
  with assms True show ?thesis
    by (auto simp: input_count_def Let_def split: prod.splits)
next
  case False
  have "input_count True st = Ret (st\<lparr>si_count_recv := si_count_recv st + 1\<rparr>)"
    using assms False by (simp add: input_count_def)
  then show ?thesis
    by (intro exI [of _ "si_seqsrcs st"] exI [of _ "si_count_drop st"]) simp
qed

text \<open>The descriptor is about to hand over the datagram \<open>d\<close>, after the answers \<open>ps\<close> and \<open>rs\<close>.\<close>

definition next_datagram :: "source \<Rightarrow> sockaddr \<Rightarrow> byte list \<Rightarrow> poll_answer list \<Rightarrow> recv_answer list \<Rightarrow> bool" where
  "next_datagram s a d ps rs \<longleftrightarrow> fd_recvs (snd s) = Recv_dgram a d # rs \<and>
     (if si_blocking_io (fst s) then fd_polls (snd s) = P_ready # ps \<or> fd_polls (snd s) = [] \<and> ps = []
      else fd_polls (snd s) = ps)"

text \<open>The stream that has taken in the datagram.\<close>

definition received :: "source \<Rightarrow> sockaddr \<Rightarrow> byte list \<Rightarrow> source \<Rightarrow> bool" where
  "received s a d s' \<longleftrightarrow> fst s' = (fst s)\<lparr>si_buf := si_buf (fst s'), si_now := si_now (fst s'), si_addr_ss := a\<rparr> \<and>
     length (b_data (si_buf (fst s'))) = NMSG_RBUFSZ \<and> b_bufsz (si_buf (fst s')) = NMSG_WBUFSZ_MAX \<and>
     b_pos (si_buf (fst s')) = 0 \<and> b_end (si_buf (fst s')) = length d \<and> (\<exists>t. b_data (si_buf (fst s')) = d @ t)"

lemma do_read_sock_dgram:
  assumes sk: "sock_ok s" and nd: "next_datagram s a d ps rs" and len: "length d \<le> NMSG_WBUFSZ_MAX"
    and ne: "d \<noteq> []"
  shows "\<exists>s'. do_read_sock (buf_reset s) NMSG_WBUFSZ_MAX = Ret (nmsg_res_success, s') \<and>
    received s a d s' \<and> fd_recvs (snd s') = rs \<and> fd_polls (snd s') = ps"
proof (cases s)
  case (Pair st e)
  let ?b = "nmsg_buf_reset (si_buf st)"
  have l: "length (b_data (si_buf st)) = NMSG_RBUFSZ" using sk Pair by (simp add: sock_ok_def)
  then have store: "mem_store (b_data (si_buf st)) 0 d = Ret (d @ drop (length d) (b_data (si_buf st)))"
    using len by (simp add: mem_store_def)
  define e1 where "e1 = (if si_blocking_io st then snd (sys_poll e) else e)"
  have poll: "(if si_blocking_io st then sys_poll e else (P_ready, e)) = (P_ready, e1)"
    and e1: "fd_recvs e1 = Recv_dgram a d # rs" "fd_polls e1 = ps"
    using nd Pair by (auto simp: next_datagram_def e1_def sys_poll_def split: if_splits)
  let ?e2 = "e1\<lparr>fd_recvs := rs\<rparr>"
  let ?st = "st\<lparr>si_buf := ?b\<lparr>b_data := d @ drop (length d) (b_data (si_buf st)), b_end := length d\<rparr>,
    si_now := fd_clock ?e2 (fd_ticks ?e2), si_addr_ss := a\<rparr>"
  let ?s' = "(?st, ?e2\<lparr>fd_ticks := fd_ticks ?e2 + 1\<rparr>)"
  have "do_read_sock (buf_reset s) NMSG_WBUFSZ_MAX = Ret (nmsg_res_success, ?s')"
    using Pair poll e1 store len ne
    by (simp add: do_read_sock_def buf_reset_def sys_recvfrom_def nmsg_timespec_get_def nmsg_buf_reset_def)
  moreover have "received s a d ?s'"
    using Pair l len sk by (simp add: received_def nmsg_buf_reset_def sock_ok_def)
  ultimately show ?thesis using e1(2) by (intro exI [of _ ?s']) simp
qed

lemma received_avail:
  "received s a d s' \<Longrightarrow> nmsg_buf_avail (si_buf (fst s')) = Ret (length d) \<and> (\<exists>t. buf_mem s' = d @ t)"
  by (auto simp: received_def nmsg_buf_avail_def buf_mem_def)

lemma read_container_sock_ok:
  assumes sk: "sock_ok s" and nd: "next_datagram s a d ps rs" and len: "length d \<le> NMSG_WBUFSZ_MAX"
    and d: "d = header_serialize flags (of_nat (length body)) @ body"
    and holds: "body_holds pb z flags body n" and ok: "ok 4" "ok 5"
  shows "\<exists>s'. read_container_sock pb z ok junk s = Ret (nmsg_res_success, s') \<and> sock_ok s' \<and>
    si_nmsg (fst s') = Some n \<and> settings (fst s') = settings (fst s) \<and>
    si_count_recv (fst s') = si_count_recv (fst s) + 1 \<and>
    fd_recvs (snd s') = rs \<and> fd_polls (snd s') = ps"
proof -
  have ne: "d \<noteq> []" and ld: "length d = 10 + length body"
    unfolding d by (metis append_is_Nil_conv length_0_conv length_header_serialize zero_neq_numeral) simp
  from do_read_sock_dgram [OF sk nd len ne] obtain s1 where s1:
    "do_read_sock (buf_reset s) NMSG_WBUFSZ_MAX = Ret (nmsg_res_success, s1)" "received s a d s1"
    "fd_recvs (snd s1) = rs" "fd_polls (snd s1) = ps" by blast
  from received_avail [OF s1(2)] obtain t where av: "nmsg_buf_avail (si_buf (fst s1)) = Ret (length d)"
    and t: "buf_mem s1 = d @ t" by blast
  have b: "unat (of_nat (length body) :: u32) = length body"
    using len ld by (simp add: unat_of_nat_u32)
  have hdr: "input_nmsg_deserialize_header (buf_mem s1) (length d) = Ret (Inr (length body, flags))"
    using deserialize_header_serialize [of "length d" flags "of_nat (length body)" "body @ t"] ld
    unfolding t by (simp add: d b)
  let ?s2 = "buf_skip 10 ((fst s1)\<lparr>si_flags := flags\<rparr>, snd s1)"
  have m2: "buf_mem ?s2 = body @ t"
  proof -
    have "buf_mem ?s2 = drop 10 (buf_mem s1)" by (simp add: buf_mem_def buf_skip_def add.commute)
    then show ?thesis unfolding t d by simp
  qed
  have st1: "fst s1 = (fst s)\<lparr>si_buf := si_buf (fst s1), si_now := si_now (fst s1), si_addr_ss := a\<rparr>"
    using s1(2) by (simp add: received_def)
  have zb: "si_zb (fst s1) = []" "settings (fst s1) = settings (fst s)" "si_count_recv (fst s1) = si_count_recv (fst s)"
    "si_type (fst s1) = Stream_sock"
    using st1 sk by (cases "fst s"; cases "fst s1"; simp add: sock_ok_def settings_def)+
  have bd: "length (b_data (si_buf (fst s1))) = NMSG_RBUFSZ" "b_bufsz (si_buf (fst s1)) = NMSG_WBUFSZ_MAX"
    using s1(2) by (simp_all add: received_def)
  let ?st2 = "(fst ?s2)\<lparr>si_nc_size := length body + 10, si_nmsg := Some n\<rparr>"
  have un: "input_nmsg_unpack_container pb z ok junk (fst ?s2) (buf_mem ?s2) (length body) =
      Ret (nmsg_res_success, ?st2)"
    unfolding m2 using holds zb(1) ok(1) by (intro unpack_container_ok) (simp_all add: buf_skip_def)
  let ?s3 = "buf_skip (length body) (?st2, snd ?s2)"
  have n3: "si_nmsg (fst ?s3) = Some n" by (simp add: buf_skip_def)
  from input_count_fields [OF n3] obtain ss dr where c:
    "input_count True (fst ?s3) =
      Ret ((fst ?s3)\<lparr>si_count_recv := si_count_recv (fst ?s3) + 1, si_seqsrcs := ss, si_count_drop := dr\<rparr>)"
    by blast
  let ?st4 = "(fst ?s3)\<lparr>si_count_recv := si_count_recv (fst ?s3) + 1, si_seqsrcs := ss, si_count_drop := dr\<rparr>"
  let ?s' = "(input_frag_gc ?st4, snd ?s3)"
  have bz: "b_bufsz (si_buf (fst (buf_reset s))) = NMSG_WBUFSZ_MAX"
    using sk by (cases s) (simp add: sock_ok_def buf_reset_def nmsg_buf_reset_def)
  have "read_container_sock pb z ok junk s = Ret (nmsg_res_success, ?s')"
    using sk s1(1) av hdr un c ld ok(2) bz
    by (simp add: read_container_sock_def Let_def sock_ok_def)
  moreover have "sock_ok ?s'"
    using zb(1,4) bd by (simp add: sock_ok_def buf_skip_def)
  moreover have "settings (fst ?s') = settings (fst s)"
    unfolding zb(2) [symmetric] fst_conv input_frag_gc_simps by (simp add: settings_def buf_skip_def)
  ultimately show ?thesis
    using s1(3,4) zb(3) by (intro exI [of _ ?s']) (simp add: buf_skip_def)
qed

section \<open>Timeouts and malformed datagrams\<close>

text \<open>The descriptor has nothing to offer: a timeout, no datagram, or an empty one.\<close>

definition next_nothing :: "source \<Rightarrow> poll_answer list \<Rightarrow> recv_answer list \<Rightarrow> bool" where
  "next_nothing s ps rs \<longleftrightarrow>
     si_blocking_io (fst s) \<and> fd_polls (snd s) = P_timeout # ps \<and> fd_recvs (snd s) = rs \<or>
     (if si_blocking_io (fst s) then fd_polls (snd s) = P_ready # ps \<or> fd_polls (snd s) = [] \<and> ps = []
      else fd_polls (snd s) = ps) \<and>
     (fd_recvs (snd s) = Recv_again # rs \<or> fd_recvs (snd s) = [] \<and> rs = [] \<or>
      (\<exists>a. fd_recvs (snd s) = Recv_dgram a [] # rs))"

definition sock_idle :: "nmsg_stream_input \<Rightarrow> nmsg_stream_input \<Rightarrow> bool" where
  "sock_idle st st' \<longleftrightarrow> (\<exists>b t a. b_bufsz b = b_bufsz (si_buf st) \<and> b_data b = b_data (si_buf st) \<and>
     st' = st\<lparr>si_buf := b, si_now := t, si_addr_ss := a\<rparr>)"

lemma sock_idle_simps:
  "sock_idle st st' \<Longrightarrow> settings st' = settings st" "sock_idle st st' \<Longrightarrow> si_nmsg st' = si_nmsg st"
  "sock_idle st st' \<Longrightarrow> si_count_recv st' = si_count_recv st" "sock_idle st st' \<Longrightarrow> si_nft st' = si_nft st"
  "sock_idle st st' \<Longrightarrow> si_seqsrcs st' = si_seqsrcs st" "sock_idle st st' \<Longrightarrow> si_count_drop st' = si_count_drop st"
  "sock_idle st st' \<Longrightarrow> sock_ok (st, e) \<Longrightarrow> sock_ok (st', e')"
  by (auto simp: sock_idle_def settings_def sock_ok_def)

lemma do_read_sock_nothing:
  assumes "sock_ok (st, e)" and "next_nothing (st, e) ps rs"
  shows "\<exists>r st' e'. do_read_sock (buf_reset (st, e)) NMSG_WBUFSZ_MAX = Ret (r, st', e') \<and>
    (r = nmsg_res_again \<or> r = nmsg_res_eof) \<and> sock_idle st st' \<and> fd_recvs e' = rs \<and> fd_polls e' = ps"
proof -
  have store: "mem_store (b_data (si_buf st)) 0 [] = Ret (b_data (si_buf st))"
    by (simp add: mem_store_def)
  let ?b = "nmsg_buf_reset (si_buf st)"
  have idle: "sock_idle st (st\<lparr>si_buf := ?b\<rparr>)" "sock_idle st (st\<lparr>si_buf := ?b, si_now := t\<rparr>)"
    "sock_idle st (st\<lparr>si_buf := ?b, si_now := t, si_addr_ss := a\<rparr>)" for t a
  proof -
    have "st\<lparr>si_buf := ?b\<rparr> = st\<lparr>si_buf := ?b, si_now := si_now st, si_addr_ss := si_addr_ss st\<rparr>"
      "st\<lparr>si_buf := ?b, si_now := t\<rparr> = st\<lparr>si_buf := ?b, si_now := t, si_addr_ss := si_addr_ss st\<rparr>"
      by simp_all
    moreover have "b_bufsz ?b = b_bufsz (si_buf st) \<and> b_data ?b = b_data (si_buf st)"
      by (simp add: nmsg_buf_reset_def)
    ultimately show "sock_idle st (st\<lparr>si_buf := ?b\<rparr>)" "sock_idle st (st\<lparr>si_buf := ?b, si_now := t\<rparr>)"
      "sock_idle st (st\<lparr>si_buf := ?b, si_now := t, si_addr_ss := a\<rparr>)"
      unfolding sock_idle_def by metis+
  qed
  have b: "b_pos ?b = 0" "b_end ?b = 0" "b_data ?b = b_data (si_buf st)"
    by (simp_all add: nmsg_buf_reset_def)
  note defs = do_read_sock_def buf_reset_def sys_poll_def sys_recvfrom_def nmsg_timespec_get_def store b idle
  from assms(2) consider
      "si_blocking_io st" "fd_polls e = P_timeout # ps" "fd_recvs e = rs"
    | "if si_blocking_io st then fd_polls e = P_ready # ps \<or> fd_polls e = [] \<and> ps = [] else fd_polls e = ps"
      "fd_recvs e = Recv_again # rs \<or> fd_recvs e = [] \<and> rs = []"
    | a where "if si_blocking_io st then fd_polls e = P_ready # ps \<or> fd_polls e = [] \<and> ps = [] else fd_polls e = ps"
      "fd_recvs e = Recv_dgram a [] # rs"
    unfolding next_nothing_def fst_conv snd_conv by blast
  then show ?thesis
    by cases (auto simp: defs split: if_splits)
qed

lemma read_container_sock_again:
  assumes sk: "sock_ok s" and no: "next_nothing s ps rs"
  shows "\<exists>s'. read_container_sock pb z ok junk s = Ret (nmsg_res_again, s') \<and> sock_ok s' \<and>
    sock_idle (fst s) (fst s') \<and> fd_recvs (snd s') = rs \<and> fd_polls (snd s') = ps"
proof -
  obtain st e where s: "s = (st, e)" by (cases s)
  have bz: "b_bufsz (si_buf (fst (buf_reset s))) = NMSG_WBUFSZ_MAX" "si_type (fst s) = Stream_sock"
    using sk by (auto simp: sock_ok_def buf_reset_def nmsg_buf_reset_def s)
  from do_read_sock_nothing [OF sk [unfolded s] no [unfolded s]] obtain r st' e' where
    "do_read_sock (buf_reset s) NMSG_WBUFSZ_MAX = Ret (r, st', e')" "r = nmsg_res_again \<or> r = nmsg_res_eof"
    "sock_idle st st'" "fd_recvs e' = rs" "fd_polls e' = ps"
    unfolding s by blast
  with bz sock_idle_simps(7) [of st st' e e'] sk show ?thesis
    unfolding s by (intro exI [of _ "(st', e')"]) (auto simp: read_container_sock_def)
qed

text \<open>The verdict on a datagram that is not a well-framed container.\<close>

definition sock_verdict :: "byte list \<Rightarrow> nmsg_res \<Rightarrow> bool" where
  "sock_verdict d res \<longleftrightarrow>
     d = [] \<and> res = nmsg_res_again \<or>
     d \<noteq> [] \<and> length d < 10 \<and> res = nmsg_res_failure \<or>
     10 \<le> length d \<and> take 4 d \<noteq> NMSG_MAGIC \<and> res = nmsg_res_magic_mismatch \<or>
     (\<exists>v len body. d = NMSG_MAGIC @ store_net16 v @ store_net32 len @ body \<and>
        (v AND 0xFF \<noteq> 2 \<and> res = nmsg_res_version_mismatch \<or>
         v AND 0xFF = 2 \<and> unat len \<noteq> length body \<and> res = nmsg_res_parse_error))"

text \<open>
  C32. A datagram whose framing is defective makes the read fail with the code of its first defect, before
  anything of it is unpacked: the counters, the sources, the pending fragments and the held
  container stay as they were. The defects are those of the header: no octets at all, fewer than a header has, another
  magic number or version, a length other than that of the body; what is wrong inside a well-framed body is not covered.
  Only an empty datagram is passed over; every other defect is an error, which ends a loop.
\<close>

theorem input_sock_malformed:
  assumes sk: "sock_ok s" and nd: "next_datagram s a d ps rs" and len: "length d \<le> NMSG_WBUFSZ_MAX"
    and v: "sock_verdict d res"
  shows "\<exists>s'. read_container_sock pb z ok junk s = Ret (res, s') \<and> sock_ok s' \<and> res \<noteq> nmsg_res_success \<and>
    si_nmsg (fst s') = si_nmsg (fst s) \<and> si_nft (fst s') = si_nft (fst s) \<and>
    si_seqsrcs (fst s') = si_seqsrcs (fst s) \<and> si_count_recv (fst s') = si_count_recv (fst s) \<and>
    si_count_drop (fst s') = si_count_drop (fst s)"
proof (cases "d = []")
  case True
  have res: "res = nmsg_res_again" using v True by (auto simp: sock_verdict_def NMSG_MAGIC_def)
  have "next_nothing s ps rs" using nd True by (auto simp: next_datagram_def next_nothing_def)
  from read_container_sock_again [OF sk this, of pb z ok junk] show ?thesis
    unfolding res using sock_idle_simps by blast
next
  case False
  from do_read_sock_dgram [OF sk nd len False] obtain s1 where s1:
    "do_read_sock (buf_reset s) NMSG_WBUFSZ_MAX = Ret (nmsg_res_success, s1)" "received s a d s1" by blast
  from received_avail [OF s1(2)] obtain t where av: "nmsg_buf_avail (si_buf (fst s1)) = Ret (length d)"
    and t: "buf_mem s1 = d @ t" by blast
  have st1: "fst s1 = (fst s)\<lparr>si_buf := si_buf (fst s1), si_now := si_now (fst s1), si_addr_ss := a\<rparr>"
    and bd: "length (b_data (si_buf (fst s1))) = NMSG_RBUFSZ" "b_bufsz (si_buf (fst s1)) = NMSG_WBUFSZ_MAX"
    using s1(2) by (simp_all add: received_def)
  have same: "si_type (fst s1) = Stream_sock" "si_zb (fst s1) = []" "si_nmsg (fst s1) = si_nmsg (fst s)"
    "si_nft (fst s1) = si_nft (fst s)" "si_seqsrcs (fst s1) = si_seqsrcs (fst s)"
    "si_count_recv (fst s1) = si_count_recv (fst s)" "si_count_drop (fst s1) = si_count_drop (fst s)"
    using st1 sk by (cases "fst s"; cases "fst s1"; simp add: sock_ok_def)+
  have bz: "b_bufsz (si_buf (fst (buf_reset s))) = NMSG_WBUFSZ_MAX"
    using sk by (cases s) (simp add: sock_ok_def buf_reset_def nmsg_buf_reset_def)
  note start = sk s1(1) av bz
  from v False consider "length d < 10" "res = nmsg_res_failure"
    | "10 \<le> length d" "take 4 d \<noteq> NMSG_MAGIC" "res = nmsg_res_magic_mismatch"
    | w l body where "d = NMSG_MAGIC @ store_net16 w @ store_net32 l @ body" "w AND 0xFF \<noteq> 2"
        "res = nmsg_res_version_mismatch"
    | w l body where "d = NMSG_MAGIC @ store_net16 w @ store_net32 l @ body" "w AND 0xFF = 2"
        "unat l \<noteq> length body" "res = nmsg_res_parse_error"
    unfolding sock_verdict_def by blast
  then show ?thesis
  proof cases
    case 1
    with start same bd show ?thesis
      by (intro exI [of _ s1]) (simp add: read_container_sock_def sock_ok_def)
  next
    case 2
    then have "input_nmsg_deserialize_header (buf_mem s1) (length d) = Ret (Inl nmsg_res_magic_mismatch)"
      by (simp add: t input_nmsg_deserialize_header_def mem_read_def)
    with start same bd 2 show ?thesis
      by (intro exI [of _ s1]) (simp add: read_container_sock_def sock_ok_def)
  next
    case 3
    then have "input_nmsg_deserialize_header (buf_mem s1) (length d) = Ret (Inl nmsg_res_version_mismatch)"
      by (simp add: t input_nmsg_deserialize_header_def mem_read_def)
    moreover have "\<not> length d < 10" by (simp add: 3)
    ultimately show ?thesis
      using start same bd 3(3)
      by (intro exI [of _ s1]) (simp add: read_container_sock_def sock_ok_def)
  next
    case 4
    then have "input_nmsg_deserialize_header (buf_mem s1) (length d) =
        Ret (Inr (unat l, ucast (drop_bit 8 w)))"
      using load_store_net32 [of l "body @ t"]
      by (simp add: t input_nmsg_deserialize_header_def mem_read_def)
    moreover have "\<not> length d < 10" "length d - 10 = length body" by (simp_all add: 4)
    ultimately have "read_container_sock pb z ok junk s =
        Ret (res, buf_skip 10 ((fst s1)\<lparr>si_flags := ucast (drop_bit 8 w)\<rparr>, snd s1))"
      using start 4(3,4) by (simp add: read_container_sock_def sock_ok_def Let_def)
    with same bd 4(4) show ?thesis
      by (simp add: sock_ok_def buf_skip_def)
  qed
qed

end
