(* ===== verification/Input_Loop.thy ===== *)
theory Input_Loop
  imports Input_Sock
begin

text \<open>
  Reading messages: the payload filter, \<^verbatim>\<open>_input_nmsg_read\<close>, \<^verbatim>\<open>_input_nmsg_loop\<close> and the loop of
  input.c, and the null input. The two loops are proved against an interface for the container
  reader (\<^verbatim>\<open>stream_read_fp\<close>), which the file and the socket readers implement.
\<close>

section \<open>The filter\<close>

text \<open>\<^verbatim>\<open>_input_nmsg_filter\<close>; an absent number is zero.\<close>

definition crc_matches :: "nmsg_nmsg \<Rightarrow> nat \<Rightarrow> nmsg_payload \<Rightarrow> bool" where
  "crc_matches n idx p \<longleftrightarrow> (length (payload_crcs n) \<ge> idx + 1 \<longrightarrow>
     bswap32 (payload_crcs n ! idx) = crc32c_spec (opt_bytes (payload p)))"

definition accepts :: "nmsg_input \<Rightarrow> nmsg_nmsg \<Rightarrow> nat \<Rightarrow> nmsg_payload \<Rightarrow> bool" where
  "accepts inp n idx p \<longleftrightarrow>
     (let st = i_stream inp in
      crc_matches n idx p \<and>
      \<not> (i_do_filter inp \<and> (i_filter_vid inp \<noteq> vid p \<or> i_filter_msgtype inp \<noteq> msgtype p)) \<and>
      \<not> (si_source st > 0 \<and> si_source st \<noteq> opt_u32 (source p)) \<and>
      \<not> (si_operator st > 0 \<and> si_operator st \<noteq> opt_u32 (operator' p)) \<and>
      \<not> (si_group st > 0 \<and> si_group st \<noteq> opt_u32 (group p)))"

definition input_nmsg_filter :: "nmsg_input \<Rightarrow> nat \<Rightarrow> nmsg_payload \<Rightarrow> bool run" where
  "input_nmsg_filter inp idx p =
     (case si_nmsg (i_stream inp) of None \<Rightarrow> Abort | Some n \<Rightarrow> Ret (accepts inp n idx p))"

section \<open>Reading one message\<close>

definition drop_nmsg :: "nmsg_input \<Rightarrow> nmsg_input" where
  "drop_nmsg inp = inp\<lparr>i_stream := (i_stream inp)\<lparr>si_nmsg := None\<rparr>\<rparr>"

definition set_index :: "nat \<Rightarrow> nmsg_input \<Rightarrow> nmsg_input" where
  "set_index i inp = inp\<lparr>i_stream := (i_stream inp)\<lparr>si_np_index := i\<rparr>\<rparr>"

text \<open>\<^verbatim>\<open>n_payloads - 1\<close> on a 64-bit \<^verbatim>\<open>size_t\<close>\<close>

definition last_index :: "nmsg_nmsg \<Rightarrow> nat" where
  "last_index n = (if payloads n = [] then 2 ^ 64 - 1 else length (payloads n) - 1)"

text \<open>
  \<^verbatim>\<open>_input_nmsg_read\<close>, with \<^verbatim>\<open>stream_read_fp\<close> as \<open>rd\<close>. A payload is detached by its index, which
  no later call reads again. The message is \<open>None\<close> when its allocation failed: the test after it
  is on the pointer to the pointer. Pacing (\<^verbatim>\<open>brate\<close>) has no counterpart.
\<close>

definition take_payload ::
  "(u32 \<Rightarrow> u32 \<Rightarrow> nmsg_msgmod option) \<Rightarrow> bool \<Rightarrow> nmsg_input \<Rightarrow>
     (nmsg_res \<times> nmsg_message option \<times> nmsg_input) run" where
  "take_payload lookup alloc inp =
     (case si_nmsg (i_stream inp) of
        None \<Rightarrow> Fault
      | Some n \<Rightarrow>
          let i = si_np_index (i_stream inp) in
          if length (payloads n) \<le> i then Fault
          else run_bind (input_nmsg_filter inp i (payloads n ! i)) (\<lambda>pass.
            if \<not> pass then Ret (nmsg_res_again, None, inp)
            else Ret (nmsg_res_success, nmsg_message_from_payload lookup alloc (payloads n ! i), inp)))"

definition input_nmsg_read ::
  "(nmsg_input \<Rightarrow> (nmsg_res \<times> nmsg_input) run) \<Rightarrow> (u32 \<Rightarrow> u32 \<Rightarrow> nmsg_msgmod option) \<Rightarrow> bool \<Rightarrow> nmsg_input \<Rightarrow>
     (nmsg_res \<times> nmsg_message option \<times> nmsg_input) run" where
  "input_nmsg_read rd lookup alloc inp =
     (let st = i_stream inp; idx = si_np_index st;
          inp1 = (case si_nmsg st of
              Some n \<Rightarrow> if idx \<ge> last_index n then drop_nmsg inp else set_index ((idx + 1) mod 2 ^ 32) inp
            | None \<Rightarrow> set_index ((idx + 1) mod 2 ^ 32) inp)
      in if si_nmsg (i_stream inp1) = None
         then run_bind (rd inp1) (\<lambda>(res, inp2).
           if res \<noteq> nmsg_res_success then Ret (res, None, inp2)
           else take_payload lookup alloc (set_index 0 inp2))
         else take_payload lookup alloc inp1)"

section \<open>The loop\<close>

text \<open>
  A callback maps its state and the message (NULL when an allocation failed) to a new state, and
  says whether it called \<^verbatim>\<open>nmsg_input_breakloop\<close>.
\<close>

type_synonym 'u callback = "'u \<Rightarrow> nmsg_message option \<Rightarrow> 'u \<times> bool"

definition run_callback :: "'u callback \<Rightarrow> nmsg_message option \<Rightarrow> 'u \<times> nmsg_input \<Rightarrow> 'u \<times> nmsg_input" where
  "run_callback cb m s =
     (case s of (u, inp) \<Rightarrow> case cb u m of (u', stop) \<Rightarrow> (u', if stop then nmsg_input_breakloop inp else inp))"

text \<open>
  The payload loop from index \<open>i\<close>; \<open>k\<close> is \<^verbatim>\<open>n_payloads\<close>. The two copies of the loop in the code
  differ in the count only, which a negative \<open>cnt\<close> never reaches.
\<close>

fun loop_payloads ::
  "(u32 \<Rightarrow> u32 \<Rightarrow> nmsg_msgmod option) \<Rightarrow> (nat \<Rightarrow> bool) \<Rightarrow> 'u callback \<Rightarrow> int \<Rightarrow> nat \<Rightarrow> nmsg_payload list \<Rightarrow> nat \<Rightarrow>
     'u \<times> nmsg_input \<Rightarrow> (nat \<times> 'u \<times> nmsg_input) run" where
  "loop_payloads lookup ok cb cnt i [] k s = Ret (k, s)"
| "loop_payloads lookup ok cb cnt i (p # ps) k s =
     run_bind (input_nmsg_filter (snd s) i p) (\<lambda>pass.
       if \<not> pass then loop_payloads lookup ok cb cnt (i + 1) ps k s
       else if int k = cnt then Ret (k, s)
       else loop_payloads lookup ok cb cnt (i + 1) ps (k + 1)
         (run_callback cb (nmsg_message_from_payload lookup (ok i) p) s))"

text \<open>
  \<^verbatim>\<open>_input_nmsg_loop\<close>: one unit of fuel per pass of its endless loop, \<open>None\<close> when there is none
  left. The rest of the container is dropped when the count is reached.
\<close>

fun input_nmsg_loop ::
  "(nmsg_input \<Rightarrow> (nmsg_res \<times> nmsg_input) run) \<Rightarrow> (u32 \<Rightarrow> u32 \<Rightarrow> nmsg_msgmod option) \<Rightarrow> (nat \<Rightarrow> bool) \<Rightarrow>
     'u callback \<Rightarrow> int \<Rightarrow> nat \<Rightarrow> nat \<Rightarrow> 'u \<times> nmsg_input \<Rightarrow> (nmsg_res \<times> 'u \<times> nmsg_input) run option" where
  "input_nmsg_loop rd lookup ok cb cnt 0 k s = None"
| "input_nmsg_loop rd lookup ok cb cnt (Suc fuel) k (u, inp) =
     (if i_stop inp then Some (Ret (nmsg_res_success, u, inp))
      else (case rd inp of
          Abort \<Rightarrow> Some Abort
        | Fault \<Rightarrow> Some Fault
        | Ret (res, inp1) \<Rightarrow>
            if res = nmsg_res_again then input_nmsg_loop rd lookup ok cb cnt fuel k (u, inp1)
            else if res \<noteq> nmsg_res_success then Some (Ret (res, u, inp1))
            else (case si_nmsg (i_stream inp1) of
                None \<Rightarrow> Some Fault
              | Some n \<Rightarrow> (case loop_payloads lookup ok cb cnt 0 (payloads n) k (u, inp1) of
                    Abort \<Rightarrow> Some Abort
                  | Fault \<Rightarrow> Some Fault
                  | Ret (k', u', inp2) \<Rightarrow>
                      if 0 \<le> cnt \<and> int k' = cnt then Some (Ret (nmsg_res_success, u', drop_nmsg inp2))
                      else input_nmsg_loop rd lookup ok cb cnt fuel k' (u', drop_nmsg inp2)))))"

text \<open>
  \<^verbatim>\<open>nmsg_input_loop\<close> for an input without a loop function of its own (presentation, pcap,
  callback): \<open>rd\<close> is its \<^verbatim>\<open>read_fp\<close>. The count is checked after a message has been read.
\<close>

fun input_read_loop ::
  "('s \<Rightarrow> (nmsg_res \<times> nmsg_message option \<times> 's) run) \<Rightarrow> 'u callback \<Rightarrow> int \<Rightarrow> nat \<Rightarrow> nat \<Rightarrow> bool \<Rightarrow> 'u \<Rightarrow> 's \<Rightarrow>
     (nmsg_res \<times> 'u \<times> 's) run option" where
  "input_read_loop rd cb cnt 0 k stop u s = None"
| "input_read_loop rd cb cnt (Suc fuel) k stop u s =
     (case rd s of
        Abort \<Rightarrow> Some Abort
      | Fault \<Rightarrow> Some Fault
      | Ret (res, m, s') \<Rightarrow>
          if res = nmsg_res_again then input_read_loop rd cb cnt fuel k stop u s'
          else if res \<noteq> nmsg_res_success then Some (Ret (res, u, s'))
          else if cnt \<ge> 0 \<and> int k = cnt then Some (Ret (nmsg_res_success, u, s'))
          else if stop then Some (Ret (nmsg_res_success, u, s'))
          else (case cb u m of (u', b) \<Rightarrow> input_read_loop rd cb cnt fuel (k + 1) (stop \<or> b) u' s'))"

section \<open>Null inputs (input_nullnmsg.c)\<close>

definition input_nmsg_read_null :: "nmsg_input \<Rightarrow> nmsg_res \<times> nmsg_input" where
  "input_nmsg_read_null inp = (nmsg_res_failure, inp)"

definition input_nmsg_loop_null :: "nmsg_input \<Rightarrow> nmsg_res \<times> nmsg_input" where
  "input_nmsg_loop_null inp = (nmsg_res_failure, inp)"

text \<open>The conversion loop; \<open>None\<close> is a failed allocation (\<open>ok (7 + i)\<close>).\<close>

fun null_payloads ::
  "(u32 \<Rightarrow> u32 \<Rightarrow> nmsg_msgmod option) \<Rightarrow> (nat \<Rightarrow> bool) \<Rightarrow> nmsg_input \<Rightarrow> nat \<Rightarrow> nmsg_payload list \<Rightarrow>
     nmsg_message list option run" where
  "null_payloads lookup ok inp i [] = Ret (Some [])"
| "null_payloads lookup ok inp i (p # ps) =
     run_bind (input_nmsg_filter inp i p) (\<lambda>pass.
       if \<not> pass then null_payloads lookup ok inp (i + 1) ps
       else (case nmsg_message_from_payload lookup (ok (7 + i)) p of
           None \<Rightarrow> Ret None
         | Some m \<Rightarrow> run_bind (null_payloads lookup ok inp (i + 1) ps)
             (\<lambda>r. Ret (map_option (Cons m) r))))"

text \<open>
  \<^verbatim>\<open>nmsg_input_read_null\<close> on \<open>buf_len\<close> octets at the head of \<open>mem\<close>; \<open>ts\<close> is the time the caller
  supplied. The messages are those in \<^verbatim>\<open>*msgarray\<close>, \<open>None\<close> when it is not set; allocation 6 is
  the array.
\<close>

definition nmsg_input_read_null ::
  "pbc \<Rightarrow> zlib \<Rightarrow> (u32 \<Rightarrow> u32 \<Rightarrow> nmsg_msgmod option) \<Rightarrow> (nat \<Rightarrow> bool) \<Rightarrow> (nat \<Rightarrow> byte) \<Rightarrow> nmsg_input \<Rightarrow>
     byte list \<Rightarrow> nat \<Rightarrow> timespec option \<Rightarrow> (nmsg_res \<times> nmsg_message list option \<times> nmsg_input) run" where
  "nmsg_input_read_null pb z lookup ok junk inp mem buf_len ts =
     (if si_type (i_stream inp) \<noteq> Stream_null then Abort
      else
        let (st0, e) = (case ts of
                Some t \<Rightarrow> ((i_stream inp)\<lparr>si_now := t\<rparr>, i_fd inp)
              | None \<Rightarrow> nmsg_timespec_get (i_stream inp, i_fd inp));
            inp0 = inp\<lparr>i_stream := st0, i_fd := e\<rparr>
        in run_bind (input_nmsg_deserialize_header mem buf_len) (\<lambda>hdr.
          case hdr of
            Inl res \<Rightarrow> Ret (res, None, inp0)
          | Inr (msgsize, flags) \<Rightarrow>
              let st1 = st0\<lparr>si_flags := flags\<rparr> in
              if int msgsize \<noteq> int buf_len - int NMSG_HDRLSZ_V2 then
                Ret (nmsg_res_parse_error, None, inp0\<lparr>i_stream := st1\<rparr>)
              else run_bind (input_nmsg_unpack_container pb z ok junk st1 (drop NMSG_HDRLSZ_V2 mem) msgsize)
                (\<lambda>(res, st2).
                  let inp3 = inp0\<lparr>i_stream := input_frag_gc st2\<rparr> in
                  case si_nmsg (i_stream inp3) of
                    None \<Rightarrow> Ret (res, None, inp3)
                  | Some n \<Rightarrow>
                      if \<not> ok 6 then Ret (nmsg_res_memfail, None, drop_nmsg inp3)
                      else run_bind (null_payloads lookup ok inp3 0 (payloads n)) (\<lambda>r.
                        case r of
                          None \<Rightarrow> Ret (nmsg_res_memfail, None, drop_nmsg inp3)
                        | Some ms \<Rightarrow> Ret (res, Some ms, drop_nmsg inp3)))))"

section \<open>The contract of a container reader\<close>

text \<open>
  \<^verbatim>\<open>stream_read_fp\<close> as the loops see it: the input \<open>offers\<close> a sequence of containers, with
  \<open>None\<close> for an attempt that comes back with \<^verbatim>\<open>nmsg_res_again\<close>; reading takes the first of them
  and leaves the filters and the stop flag alone; what is offered does not depend on the fields
  that the loops set.
\<close>

definition same_filters :: "nmsg_input \<Rightarrow> nmsg_input \<Rightarrow> bool" where
  "same_filters inp inp' \<longleftrightarrow> i_do_filter inp' = i_do_filter inp \<and> i_filter_vid inp' = i_filter_vid inp \<and>
     i_filter_msgtype inp' = i_filter_msgtype inp \<and> settings (i_stream inp') = settings (i_stream inp)"

lemma same_filters_refl [simp]: "same_filters inp inp"
  by (simp add: same_filters_def)

lemma same_filters_trans: "same_filters a b \<Longrightarrow> same_filters b c \<Longrightarrow> same_filters a c"
  by (simp add: same_filters_def)

lemma same_filters_accepts: "same_filters inp inp' \<Longrightarrow> accepts inp' n i p = accepts inp n i p"
  by (simp add: same_filters_def accepts_def settings_def Let_def)

lemma same_filters_simps [simp]:
  "same_filters inp (drop_nmsg inp) \<longleftrightarrow> True" "same_filters inp (set_index i inp) \<longleftrightarrow> True"
  "same_filters inp (nmsg_input_breakloop inp) \<longleftrightarrow> True"
  by (simp_all add: same_filters_def drop_nmsg_def set_index_def nmsg_input_breakloop_def settings_def)

definition retouch :: "nmsg_nmsg option \<Rightarrow> nat \<Rightarrow> bool \<Rightarrow> nmsg_input \<Rightarrow> nmsg_input" where
  "retouch m i b inp = inp\<lparr>i_stream := (i_stream inp)\<lparr>si_nmsg := m, si_np_index := i\<rparr>, i_stop := b\<rparr>"

lemma retouch_eqs:
  "drop_nmsg inp = retouch None (si_np_index (i_stream inp)) (i_stop inp) inp"
  "set_index i inp = retouch (si_nmsg (i_stream inp)) i (i_stop inp) inp"
  "nmsg_input_breakloop inp = retouch (si_nmsg (i_stream inp)) (si_np_index (i_stream inp)) True inp"
  by (simp_all add: drop_nmsg_def set_index_def nmsg_input_breakloop_def retouch_def)

text \<open>The payloads of a container that pass the filter, and their delivery to a callback.\<close>

fun passing_from :: "nmsg_input \<Rightarrow> nmsg_nmsg \<Rightarrow> nat \<Rightarrow> nmsg_payload list \<Rightarrow> nmsg_payload list" where
  "passing_from inp n i [] = []"
| "passing_from inp n i (p # ps) =
     (if accepts inp n i p then p # passing_from inp n (i + 1) ps else passing_from inp n (i + 1) ps)"

definition passing :: "nmsg_input \<Rightarrow> nmsg_nmsg \<Rightarrow> nmsg_payload list" where
  "passing inp n = passing_from inp n 0 (payloads n)"

definition passing_all :: "nmsg_input \<Rightarrow> nmsg_nmsg option list \<Rightarrow> nmsg_payload list" where
  "passing_all inp xs = concat (map (case_option [] (passing inp)) xs)"

lemma passing_all_simps [simp]:
  "passing_all inp [] = []" "passing_all inp (None # xs) = passing_all inp xs"
  "passing_all inp (Some n # xs) = passing inp n @ passing_all inp xs"
  "passing_all inp (xs @ ys) = passing_all inp xs @ passing_all inp ys"
  by (simp_all add: passing_all_def)

lemma same_filters_passing_from:
  "same_filters inp inp' \<Longrightarrow> passing_from inp' n i ps = passing_from inp n i ps"
  by (induction ps arbitrary: i) (simp_all add: same_filters_accepts)

lemma take_payload_ok:
  "si_nmsg (i_stream inp) = Some n \<Longrightarrow> si_np_index (i_stream inp) = i \<Longrightarrow> i < length (payloads n) \<Longrightarrow>
     take_payload lookup alloc inp =
       (if accepts inp n i (payloads n ! i)
        then Ret (nmsg_res_success, nmsg_message_from_payload lookup alloc (payloads n ! i), inp)
        else Ret (nmsg_res_again, None, inp))"
  by (simp add: take_payload_def input_nmsg_filter_def)

lemma same_filters_passing:
  assumes "same_filters inp inp'"
  shows "passing inp' n = passing inp n" and "passing_all inp' xs = passing_all inp xs"
proof -
  have "passing inp' = passing inp"
    by (simp add: passing_def fun_eq_iff same_filters_passing_from [OF assms])
  then show "passing inp' n = passing inp n" "passing_all inp' xs = passing_all inp xs"
    by (simp_all add: passing_all_def)
qed

fun deliver :: "(u32 \<Rightarrow> u32 \<Rightarrow> nmsg_msgmod option) \<Rightarrow> 'u callback \<Rightarrow> nmsg_payload list \<Rightarrow> 'u \<Rightarrow> 'u \<times> bool" where
  "deliver lookup cb [] u = (u, False)"
| "deliver lookup cb (p # ps) u =
     (let (u1, b1) = cb u (nmsg_message_from_payload lookup True p);
          (u2, b2) = deliver lookup cb ps u1
      in (u2, b1 \<or> b2))"

lemma deliver_append:
  "deliver lookup cb (ps @ qs) u =
     (let (u1, b1) = deliver lookup cb ps u; (u2, b2) = deliver lookup cb qs u1 in (u2, b1 \<or> b2))"
  by (induction ps arbitrary: u) (auto simp: Let_def split: prod.splits)

definition stop_if :: "bool \<Rightarrow> nmsg_input \<Rightarrow> nmsg_input" where
  "stop_if b inp = (if b then nmsg_input_breakloop inp else inp)"

lemma stop_if_simps [simp]:
  "stop_if False inp = inp" "stop_if b (stop_if c inp) = stop_if (b \<or> c) inp"
  "si_nmsg (i_stream (stop_if b inp)) = si_nmsg (i_stream inp)" "same_filters inp (stop_if b inp) \<longleftrightarrow> True"
  "i_stop (stop_if b inp) = (b \<or> i_stop inp)"
  by (auto simp: stop_if_def nmsg_input_breakloop_def)
    (simp_all add: same_filters_def)

text \<open>The payload loop over one container: all passing payloads, or as many as the count allows.\<close>

lemma loop_payloads_eq:
  assumes "si_nmsg (i_stream inp) = Some n" and "\<forall>i. ok i" and "cnt < 0 \<or> int k \<le> cnt"
  shows "loop_payloads lookup ok cb cnt i ps k (u, inp) =
    (let ds = (if cnt < 0 then passing_from inp n i ps else take (nat cnt - k) (passing_from inp n i ps));
         (u', b) = deliver lookup cb ds u
     in Ret (k + length ds, u', stop_if b inp))"
  using assms(1,3)
proof (induction ps arbitrary: i k u inp)
  case (Cons p ps)
  have ok: "ok i" using assms(2) by simp
  have f: "input_nmsg_filter inp i p = Ret (accepts inp n i p)"
    using Cons.prems(1) by (simp add: input_nmsg_filter_def)
  show ?case
  proof (cases "accepts inp n i p \<and> int k \<noteq> cnt")
    case True
    obtain u1 b1 where c: "cb u (nmsg_message_from_payload lookup True p) = (u1, b1)" by fastforce
    have fil: "passing_from (stop_if b1 inp) n i ps = passing_from inp n i ps" for i
      by (rule same_filters_passing_from) simp
    have pre: "cnt < 0 \<or> int (k + 1) \<le> cnt" using Cons.prems(2) True by auto
    have sn: "si_nmsg (i_stream (stop_if b1 inp)) = Some n" using Cons.prems(1) by simp
    have rc: "run_callback cb (nmsg_message_from_payload lookup (ok i) p) (u, inp) = (u1, stop_if b1 inp)"
      using ok c by (simp add: run_callback_def stop_if_def)
    have tk: "take (nat cnt - k) (p # xs) = p # take (nat cnt - (k + 1)) xs" if "\<not> cnt < 0" for xs :: "nmsg_payload list"
      using that pre by (simp add: take_Cons' )
    from Cons.IH [OF sn pre, of "i + 1" u1] f True show ?thesis
      by (auto simp: rc fil tk c Let_def disj_commute split: prod.splits if_splits)
  next
    case False
    show ?thesis
    proof (cases "accepts inp n i p")
      case True
      with False have "int k = cnt" by simp
      with f True show ?thesis
        by auto
    next
      case False
      with Cons.IH [OF Cons.prems] f show ?thesis by simp
    qed
  qed
qed (use assms in auto)

declare input_nmsg_loop.simps [simp del]

lemma loop_stop:
  "i_stop inp \<Longrightarrow> input_nmsg_loop rd lookup ok cb cnt (Suc fuel) k (u, inp) = Some (Ret (nmsg_res_success, u, inp))"
  by (simp add: input_nmsg_loop.simps)

text \<open>A program that keeps reading until an error other than \<^verbatim>\<open>nmsg_res_again\<close>.\<close>

fun input_reads ::
  "(nmsg_input \<Rightarrow> (nmsg_res \<times> nmsg_input) run) \<Rightarrow> (u32 \<Rightarrow> u32 \<Rightarrow> nmsg_msgmod option) \<Rightarrow> nat \<Rightarrow> nmsg_input \<Rightarrow>
     (nmsg_message option list \<times> nmsg_res \<times> nmsg_input) run option" where
  "input_reads rd lookup 0 inp = None"
| "input_reads rd lookup (Suc fuel) inp =
     (case input_nmsg_read rd lookup True inp of
        Abort \<Rightarrow> Some Abort
      | Fault \<Rightarrow> Some Fault
      | Ret (res, m, inp1) \<Rightarrow>
          if res = nmsg_res_again then input_reads rd lookup fuel inp1
          else if res \<noteq> nmsg_res_success then Some (Ret ([], res, inp1))
          else map_option (\<lambda>r. run_bind r (\<lambda>(ms, x). Ret (m # ms, x))) (input_reads rd lookup fuel inp1))"

definition prepend ::
  "nmsg_message option list \<Rightarrow> (nmsg_message option list \<times> 'a) run option \<Rightarrow>
     (nmsg_message option list \<times> 'a) run option" where
  "prepend ms r = map_option (\<lambda>r. run_bind r (\<lambda>(ms', x). Ret (ms @ ms', x))) r"

lemma prepend_simps [simp]:
  "prepend [] r = r" "prepend ms None = None" "prepend ms (Some (Ret (ms', x))) = Some (Ret (ms @ ms', x))"
  "prepend ms (prepend ms' r) = prepend (ms @ ms') r"
proof -
  have "(\<lambda>(ms', x). Ret ([] @ ms', x)) = Ret" by (simp add: fun_eq_iff)
  then show "prepend [] r = r" by (cases r) (simp_all add: prepend_def)
  show "prepend ms (prepend ms' r) = prepend (ms @ ms') r"
    by (cases r) (auto simp: prepend_def run_bind_assoc intro!: run_bind_cong)
qed (simp_all add: prepend_def)

lemma prepend_one: "map_option (\<lambda>r. run_bind r (\<lambda>(ms, x). Ret (m # ms, x))) r = prepend [m] r"
  by (simp add: prepend_def)

text \<open>
  An input that holds nothing more to read, whose next read is one of \<^verbatim>\<open>stream_read_fp\<close>; and the
  number of reads that a sequence of containers takes.
\<close>

definition exhausted :: "nmsg_input \<Rightarrow> bool" where
  "exhausted inp \<longleftrightarrow> (case si_nmsg (i_stream inp) of None \<Rightarrow> True
     | Some n \<Rightarrow> last_index n \<le> si_np_index (i_stream inp))"

definition reads_needed :: "nmsg_nmsg option list \<Rightarrow> nat" where
  "reads_needed xs = (\<Sum>x\<leftarrow>xs. case x of None \<Rightarrow> 1 | Some n \<Rightarrow> length (payloads n))"

lemma read_exhausted:
  assumes "exhausted inp"
  shows "\<exists>i. \<forall>rd. input_nmsg_read rd lookup alloc inp = run_bind (rd (retouch None i (i_stop inp) inp))
    (\<lambda>(res, inp2). if res \<noteq> nmsg_res_success then Ret (res, None, inp2)
       else take_payload lookup alloc (set_index 0 inp2))"
proof (cases "si_nmsg (i_stream inp)")
  case None
  then have "si_nmsg (i_stream (set_index i inp)) = None" for i by (simp add: set_index_def)
  with None show ?thesis
    by (intro exI [of _ "(si_np_index (i_stream inp) + 1) mod 2 ^ 32"])
      (simp add: input_nmsg_read_def retouch_eqs)
next
  case (Some n)
  with assms show ?thesis
    by (intro exI [of _ "si_np_index (i_stream inp)"])
      (simp add: input_nmsg_read_def exhausted_def retouch_eqs retouch_def)
qed

lemma same_filters_retouch [simp]: "same_filters inp (retouch m i b inp) \<longleftrightarrow> True"
  by (simp add: same_filters_def retouch_def settings_def)

lemma retouch_nmsg [simp]: "si_nmsg (i_stream (retouch m i b inp)) = m"
  by (simp add: retouch_def)

locale container_source =
  fixes rd :: "nmsg_input \<Rightarrow> (nmsg_res \<times> nmsg_input) run"
    and offers :: "nmsg_input \<Rightarrow> nmsg_nmsg option list \<Rightarrow> bool"
  assumes offers_none: "offers inp (None # xs) \<Longrightarrow>
      \<exists>inp'. rd inp = Ret (nmsg_res_again, inp') \<and> offers inp' xs \<and> same_filters inp inp' \<and>
        i_stop inp' = i_stop inp \<and> si_nmsg (i_stream inp') = si_nmsg (i_stream inp)"
    and offers_some: "offers inp (Some n # xs) \<Longrightarrow>
      \<exists>inp'. rd inp = Ret (nmsg_res_success, inp') \<and> offers inp' xs \<and> same_filters inp inp' \<and>
        i_stop inp' = i_stop inp \<and> si_nmsg (i_stream inp') = Some n"
    and offers_retouch: "offers inp xs \<Longrightarrow> offers (retouch m i b inp) xs"
begin

lemma offers_touched:
  "offers inp xs \<Longrightarrow> offers (drop_nmsg inp) xs" "offers inp xs \<Longrightarrow> offers (set_index i inp) xs"
  "offers inp xs \<Longrightarrow> offers (stop_if b inp) xs"
  unfolding retouch_eqs stop_if_def by (auto intro: offers_retouch)

text \<open>One pass of the loop.\<close>

lemma loop_none:
  assumes "offers inp (None # xs)" and "\<not> i_stop inp"
  shows "\<exists>inp'. offers inp' xs \<and> same_filters inp inp' \<and> \<not> i_stop inp' \<and>
    (\<forall>fuel. input_nmsg_loop rd lookup ok cb cnt (Suc fuel) k (u, inp) =
       input_nmsg_loop rd lookup ok cb cnt fuel k (u, inp'))"
  using offers_none [OF assms(1)] assms(2) by (auto simp: input_nmsg_loop.simps)

lemma loop_some:
  assumes "offers inp (Some n # xs)" and "\<not> i_stop inp" and "\<forall>i. ok i" and "cnt < 0 \<or> int k \<le> cnt"
    and "ds = (if cnt < 0 then passing inp n else take (nat cnt - k) (passing inp n))"
    and "deliver lookup cb ds u = (u', b)"
  shows "\<exists>inp'. offers inp' xs \<and> same_filters inp inp' \<and> i_stop inp' = b \<and>
    (\<forall>fuel. input_nmsg_loop rd lookup ok cb cnt (Suc fuel) k (u, inp) =
       (if 0 \<le> cnt \<and> int (k + length ds) = cnt then Some (Ret (nmsg_res_success, u', inp'))
        else input_nmsg_loop rd lookup ok cb cnt fuel (k + length ds) (u', inp')))"
proof -
  from offers_some [OF assms(1)] obtain inp1 where r: "rd inp = Ret (nmsg_res_success, inp1)"
    "offers inp1 xs" "same_filters inp inp1" "i_stop inp1 = i_stop inp" "si_nmsg (i_stream inp1) = Some n"
    by blast
  have pass: "passing_from inp1 n 0 (payloads n) = passing inp n"
    using same_filters_passing(1) [OF r(3)] by (simp add: passing_def)
  note lp = loop_payloads_eq [OF r(5) assms(3,4), of lookup cb 0 "payloads n" u, unfolded pass,
      folded assms(5), unfolded assms(6) Let_def prod.case]
  let ?inp' = "drop_nmsg (stop_if b inp1)"
  have "offers ?inp' xs" by (intro offers_touched r(2))
  moreover have "same_filters inp ?inp'"
    using same_filters_trans [OF r(3)] same_filters_trans [OF _ same_filters_simps(1) [THEN iffD2]]
    by (metis same_filters_simps(1) stop_if_simps(4))
  moreover have "i_stop ?inp' = b" using assms(2) r(4) by (simp add: drop_nmsg_def)
  ultimately show ?thesis
    using assms(2) r(1,5) lp by (intro exI [of _ ?inp']) (simp add: input_nmsg_loop.simps)
qed

text \<open>A run over containers that neither exhaust the count nor make the callback stop.\<close>

lemma loop_run:
  assumes "offers inp (xs @ ys)" and "\<not> i_stop inp" and "\<forall>i. ok i"
    and "cnt < 0 \<or> int (k + length (passing_all inp xs)) < cnt"
    and "deliver lookup cb (passing_all inp xs) u = (u', False)"
  shows "\<exists>inp'. offers inp' ys \<and> same_filters inp inp' \<and> \<not> i_stop inp' \<and>
    (\<forall>fuel. input_nmsg_loop rd lookup ok cb cnt (length xs + fuel) k (u, inp) =
       input_nmsg_loop rd lookup ok cb cnt fuel (k + length (passing_all inp xs)) (u', inp'))"
  using assms(1,2,4,5)
proof (induction xs arbitrary: inp k u)
  case Nil
  then show ?case by (intro exI [of _ inp]) simp
next
  case (Cons x xs)
  show ?case
  proof (cases x)
    case None
    have "offers inp (None # xs @ ys)" using Cons.prems(1) None by simp
    from loop_none [OF this Cons.prems(2), of lookup ok cb cnt k u] obtain inp1 where i1:
      "offers inp1 (xs @ ys)" "same_filters inp inp1" "\<not> i_stop inp1"
      "\<And>fuel. input_nmsg_loop rd lookup ok cb cnt (Suc fuel) k (u, inp) =
         input_nmsg_loop rd lookup ok cb cnt fuel k (u, inp1)"
      by blast
    note p1 = same_filters_passing [OF i1(2)]
    from Cons.IH [OF i1(1,3), of k u] Cons.prems(3,4) None obtain inp' where
      "offers inp' ys" "same_filters inp1 inp'" "\<not> i_stop inp'"
      "\<forall>fuel. input_nmsg_loop rd lookup ok cb cnt (length xs + fuel) k (u, inp1) =
         input_nmsg_loop rd lookup ok cb cnt fuel (k + length (passing_all inp xs)) (u', inp')"
      by (auto simp: p1)
    with i1(4) None same_filters_trans [OF i1(2)] show ?thesis by (intro exI [of _ inp']) simp
  next
    case (Some n)
    obtain u1 b1 where d1: "deliver lookup cb (passing inp n) u = (u1, b1)" by fastforce
    have d2: "deliver lookup cb (passing_all inp xs) u1 = (u', False)" and b1: "b1 = False"
      using Cons.prems(4) Some d1 by (auto simp: deliver_append split: prod.splits)
    have ds: "passing inp n = (if cnt < 0 then passing inp n else take (nat cnt - k) (passing inp n))"
      using Cons.prems(3) Some by auto
    have le: "cnt < 0 \<or> int k \<le> cnt" and nf: "\<not> (0 \<le> cnt \<and> int (k + length (passing inp n)) = cnt)"
      using Cons.prems(3) Some by auto
    have "offers inp (Some n # xs @ ys)" using Cons.prems(1) Some by simp
    from loop_some [OF this Cons.prems(2) assms(3) le ds d1] obtain inp1 where i1:
      "offers inp1 (xs @ ys)" "same_filters inp inp1" "i_stop inp1 = b1"
      "\<And>fuel. input_nmsg_loop rd lookup ok cb cnt (Suc fuel) k (u, inp) =
         input_nmsg_loop rd lookup ok cb cnt fuel (k + length (passing inp n)) (u1, inp1)"
      unfolding if_not_P [OF nf] by blast
    note p1 = same_filters_passing [OF i1(2)]
    have "cnt < 0 \<or> int (k + length (passing inp n) + length (passing_all inp1 xs)) < cnt"
      using Cons.prems(3) Some by (auto simp: p1 add.assoc)
    from Cons.IH [OF i1(1) _ this, of u1] i1(3) b1 d2 obtain inp' where
      "offers inp' ys" "same_filters inp1 inp'" "\<not> i_stop inp'"
      "\<forall>fuel. input_nmsg_loop rd lookup ok cb cnt (length xs + fuel) (k + length (passing inp n)) (u1, inp1) =
         input_nmsg_loop rd lookup ok cb cnt fuel (k + length (passing inp n) + length (passing_all inp xs)) (u', inp')"
      by (auto simp: p1)
    with i1(4) Some same_filters_trans [OF i1(2)] show ?thesis
      by (intro exI [of _ inp']) (simp add: add.assoc)
  qed
qed

text \<open>The pass in which the count is reached, and the one after which the callback has asked to stop.\<close>

lemma loop_counted:
  assumes off: "offers inp (xs @ Some n # ys)" and "\<not> i_stop inp" and ok: "\<forall>i. ok i"
    and cnt: "int (length (passing_all inp xs)) < cnt" "cnt \<le> int (length (passing_all inp (xs @ [Some n])))"
    and d: "deliver lookup cb (passing_all inp xs) u = (u1, False)"
  shows "\<exists>inp'. offers inp' ys \<and> same_filters inp inp' \<and>
    (\<forall>fuel. input_nmsg_loop rd lookup ok cb cnt (length xs + Suc fuel) 0 (u, inp) =
       Some (Ret (nmsg_res_success,
         fst (deliver lookup cb (take (nat cnt) (passing_all inp (xs @ [Some n]))) u), inp')))"
proof -
  have c: "cnt < 0 \<or> int (0 + length (passing_all inp xs)) < cnt" using cnt by simp
  from loop_run [OF off assms(2) ok c d] obtain inp1 where i1:
    "offers inp1 (Some n # ys)" "same_filters inp inp1" "\<not> i_stop inp1"
    "\<And>fuel. input_nmsg_loop rd lookup ok cb cnt (length xs + fuel) 0 (u, inp) =
       input_nmsg_loop rd lookup ok cb cnt fuel (length (passing_all inp xs)) (u1, inp1)"
    by auto
  note p1 = same_filters_passing [OF i1(2)]
  let ?k = "length (passing_all inp xs)"
  define ds where "ds = take (nat cnt - ?k) (passing inp n)"
  obtain u2 b2 where d2: "deliver lookup cb ds u1 = (u2, b2)" by fastforce
  have dd: "ds = (if cnt < 0 then passing inp1 n else take (nat cnt - ?k) (passing inp1 n))"
    using cnt by (simp add: ds_def p1)
  have "cnt < 0 \<or> int ?k \<le> cnt" using cnt by simp
  from loop_some [OF i1(1,3) ok this dd d2] obtain inp2 where i2: "offers inp2 ys" "same_filters inp1 inp2"
    "\<And>fuel. input_nmsg_loop rd lookup ok cb cnt (Suc fuel) ?k (u1, inp1) =
       (if 0 \<le> cnt \<and> int (?k + length ds) = cnt then Some (Ret (nmsg_res_success, u2, inp2))
        else input_nmsg_loop rd lookup ok cb cnt fuel (?k + length ds) (u2, inp2))"
    by blast
  have full: "int (?k + length ds) = cnt" using cnt by (simp add: ds_def)
  have tk: "take (nat cnt) (passing_all inp (xs @ [Some n])) = passing_all inp xs @ ds"
    using cnt by (simp add: ds_def)
  have "fst (deliver lookup cb (passing_all inp xs @ ds) u) = u2"
    by (simp add: deliver_append d d2)
  with i1(4) i2 full cnt tk same_filters_trans [OF i1(2)] show ?thesis
    by (intro exI [of _ inp2]) (simp del: add_Suc_right)
qed

lemma loop_stopped:
  assumes off: "offers inp (xs @ Some n # ys)" and "\<not> i_stop inp" and ok: "\<forall>i. ok i" and cnt: "cnt < 0"
    and d: "deliver lookup cb (passing_all inp xs) u = (u1, False)"
    and stop: "deliver lookup cb (passing inp n) u1 = (u2, True)"
  shows "\<exists>inp'. offers inp' ys \<and> same_filters inp inp' \<and>
    (\<forall>fuel. input_nmsg_loop rd lookup ok cb cnt (length xs + Suc (Suc fuel)) k (u, inp) =
       Some (Ret (nmsg_res_success, u2, inp')))"
proof -
  from loop_run [OF off assms(2) ok disjI1 [OF cnt] d, of k] obtain inp1 where i1:
    "offers inp1 (Some n # ys)" "same_filters inp inp1" "\<not> i_stop inp1"
    "\<And>fuel. input_nmsg_loop rd lookup ok cb cnt (length xs + fuel) k (u, inp) =
       input_nmsg_loop rd lookup ok cb cnt fuel (k + length (passing_all inp xs)) (u1, inp1)"
    by blast
  note p1 = same_filters_passing [OF i1(2)]
  have dd: "passing inp n = (if cnt < 0 then passing inp1 n else take (nat cnt - (k + length (passing_all inp xs))) (passing inp1 n))"
    using cnt by (simp add: p1)
  from loop_some [OF i1(1,3) ok disjI1 [OF cnt] dd stop] obtain inp2 where
    "offers inp2 ys" "same_filters inp1 inp2" "i_stop inp2"
    "\<And>fuel. input_nmsg_loop rd lookup ok cb cnt (Suc fuel) (k + length (passing_all inp xs)) (u1, inp1) =
       input_nmsg_loop rd lookup ok cb cnt fuel (k + length (passing_all inp xs) + length (passing inp n)) (u2, inp2)"
    using cnt by auto
  with i1(4) same_filters_trans [OF i1(2)] show ?thesis
    by (intro exI [of _ inp2]) (simp add: loop_stop del: add_Suc_right)
qed

text \<open>Single reads.\<close>

lemma reads_none:
  assumes "offers inp (None # xs)" and "exhausted inp"
  shows "\<exists>inp'. offers inp' xs \<and> same_filters inp inp' \<and> exhausted inp' \<and>
    (\<forall>fuel. input_reads rd lookup (Suc fuel) inp = input_reads rd lookup fuel inp')"
proof -
  from read_exhausted [OF assms(2), of lookup True] obtain i where rd1:
    "\<And>rd. input_nmsg_read rd lookup True inp = run_bind (rd (retouch None i (i_stop inp) inp))
      (\<lambda>(res, inp2). if res \<noteq> nmsg_res_success then Ret (res, None, inp2)
         else take_payload lookup True (set_index 0 inp2))" by blast
  let ?inp1 = "retouch None i (i_stop inp) inp"
  from offers_none [OF offers_retouch [OF assms(1)], of None i "i_stop inp"] obtain inp' where r:
    "rd ?inp1 = Ret (nmsg_res_again, inp')" "offers inp' xs" "same_filters ?inp1 inp'"
    "si_nmsg (i_stream inp') = None" by auto
  have "same_filters inp inp'" using same_filters_trans [OF _ r(3)] by simp
  with r(1,2,4) rd1 [of rd] show ?thesis
    by (intro exI [of _ inp']) (simp add: exhausted_def)
qed

lemma reads_rest:
  assumes "si_nmsg (i_stream inp) = Some n" and "length (payloads n) \<le> 2 ^ 32"
    and "si_np_index (i_stream inp) + 1 = length (payloads n) - length ps"
    and "ps = drop (length (payloads n) - length ps) (payloads n)" and "payloads n \<noteq> []"
    and "offers inp xs"
  shows "\<exists>inp'. offers inp' xs \<and> same_filters inp inp' \<and> exhausted inp' \<and>
    (\<forall>fuel. input_reads rd lookup (length ps + fuel) inp =
       prepend (map (nmsg_message_from_payload lookup True)
         (passing_from inp n (length (payloads n) - length ps) ps)) (input_reads rd lookup fuel inp'))"
  using assms
proof (induction ps arbitrary: inp)
  case Nil
  then show ?case by (intro exI [of _ inp]) (auto simp: exhausted_def last_index_def)
next
  case (Cons p ps)
  let ?i = "length (payloads n) - length (p # ps)"
  have lt: "?i < length (payloads n)" using Cons.prems(5) by simp
  have le: "length (p # ps) \<le> length (payloads n)"
    using Cons.prems(4) by (metis length_drop diff_le_self)
  have pi: "payloads n ! ?i = p" "ps = drop (length (payloads n) - length ps) (payloads n)"
  proof -
    have "drop ?i (payloads n) = p # ps" using Cons.prems(4) by simp
    then show "payloads n ! ?i = p" using lt by (metis nth_via_drop)
    have "drop (Suc ?i) (payloads n) = ps"
      using \<open>drop ?i (payloads n) = p # ps\<close> by (metis drop_Suc list.sel(3) tl_drop)
    moreover have "Suc ?i = length (payloads n) - length ps" using le by simp
    ultimately show "ps = drop (length (payloads n) - length ps) (payloads n)" by simp
  qed
  have idx: "si_np_index (i_stream inp) + 1 = ?i" "?i = length (payloads n) - length ps - 1"
    using Cons.prems(3) le by simp_all
  let ?inp1 = "set_index ?i inp"
  have nl: "\<not> last_index n \<le> si_np_index (i_stream inp)"
    using idx(1) lt Cons.prems(5) by (simp add: last_index_def)
  have mo: "(si_np_index (i_stream inp) + 1) mod 2 ^ 32 = ?i"
    using lt Cons.prems(2) unfolding idx(1) by (intro mod_less) simp
  have st1: "si_nmsg (i_stream ?inp1) = Some n" "si_np_index (i_stream ?inp1) = ?i"
    using Cons.prems(1) by (simp_all add: set_index_def)
  have sf: "same_filters inp ?inp1" by simp
  have rd1: "input_nmsg_read rd lookup True inp =
      (if accepts inp n ?i p then Ret (nmsg_res_success, nmsg_message_from_payload lookup True p, ?inp1)
       else Ret (nmsg_res_again, None, ?inp1))"
    using Cons.prems(1) nl mo st1(1) take_payload_ok [OF st1 lt, of lookup True]
      same_filters_accepts [OF sf, of n ?i p]
    unfolding pi(1) by (simp add: input_nmsg_read_def)
  have "si_np_index (i_stream ?inp1) + 1 = length (payloads n) - length ps"
    using st1(2) idx(2) le by simp
  from Cons.IH [OF st1(1) Cons.prems(2) this pi(2) Cons.prems(5) offers_touched(2) [OF Cons.prems(6)]]
  obtain inp' where i': "offers inp' xs" "same_filters ?inp1 inp'" "exhausted inp'"
    "\<And>fuel. input_reads rd lookup (length ps + fuel) ?inp1 = prepend (map (nmsg_message_from_payload lookup True)
         (passing_from ?inp1 n (length (payloads n) - length ps) ps)) (input_reads rd lookup fuel inp')"
    by blast
  note pf = same_filters_passing_from [OF sf]
  have ii: "length (payloads n) - length ps = ?i + 1" using le by simp
  define i where "i = ?i"
  have "input_reads rd lookup (length (p # ps) + fuel) inp =
      prepend (map (nmsg_message_from_payload lookup True) (passing_from inp n i (p # ps)))
        (input_reads rd lookup fuel inp')" for fuel
  proof -
    have "length (p # ps) + fuel = Suc (length ps + fuel)" by simp
    then show ?thesis
      using rd1 i'(4) [of fuel] unfolding ii i_def [symmetric] pf [folded i_def]
      by (simp add: prepend_one)
  qed
  then show ?case
    using i'(1,3) same_filters_trans [OF sf i'(2)] unfolding i_def by blast
qed

lemma reads_some:
  assumes "offers inp (Some n # xs)" and "exhausted inp" and "payloads n \<noteq> []" and "length (payloads n) \<le> 2 ^ 32"
  shows "\<exists>inp'. offers inp' xs \<and> same_filters inp inp' \<and> exhausted inp' \<and>
    (\<forall>fuel. input_reads rd lookup (length (payloads n) + fuel) inp =
       prepend (map (nmsg_message_from_payload lookup True) (passing inp n)) (input_reads rd lookup fuel inp'))"
proof -
  from read_exhausted [OF assms(2), of lookup True] obtain i where rdx:
    "\<And>rd. input_nmsg_read rd lookup True inp = run_bind (rd (retouch None i (i_stop inp) inp))
      (\<lambda>(res, inp2). if res \<noteq> nmsg_res_success then Ret (res, None, inp2)
         else take_payload lookup True (set_index 0 inp2))" by blast
  let ?inp1 = "retouch None i (i_stop inp) inp"
  from offers_some [OF offers_retouch [OF assms(1)], of None i "i_stop inp"] obtain inp2 where r:
    "rd ?inp1 = Ret (nmsg_res_success, inp2)" "offers inp2 xs" "same_filters ?inp1 inp2"
    "si_nmsg (i_stream inp2) = Some n" by auto
  let ?inp2 = "set_index 0 inp2"
  have "same_filters inp inp2" using same_filters_trans [OF _ r(3)] by simp
  then have sf: "same_filters inp ?inp2" using same_filters_trans by (metis same_filters_simps(2))
  obtain p ps where p: "payloads n = p # ps" using assms(3) by (cases "payloads n") auto
  have st2: "si_nmsg (i_stream ?inp2) = Some n" "si_np_index (i_stream ?inp2) = 0"
    using r(4) by (simp_all add: set_index_def)
  have rd1: "input_nmsg_read rd lookup True inp =
      (if accepts inp n 0 p then Ret (nmsg_res_success, nmsg_message_from_payload lookup True p, ?inp2)
       else Ret (nmsg_res_again, None, ?inp2))"
    using rdx [of rd] r(1) p take_payload_ok [OF st2, of lookup True] same_filters_accepts [OF sf, of n 0 p]
    by simp
  have l: "length (payloads n) - length ps = 1" using p by simp
  have "si_np_index (i_stream ?inp2) + 1 = length (payloads n) - length ps" using st2(2) l by simp
  moreover have "ps = drop (length (payloads n) - length ps) (payloads n)" using l p by simp
  ultimately obtain inp' where i': "offers inp' xs" "same_filters ?inp2 inp'" "exhausted inp'"
    "\<And>fuel. input_reads rd lookup (length ps + fuel) ?inp2 = prepend (map (nmsg_message_from_payload lookup True)
         (passing_from ?inp2 n 1 ps)) (input_reads rd lookup fuel inp')"
    using reads_rest [OF st2(1) assms(4) _ _ assms(3) offers_touched(2) [OF r(2)]] l by metis
  note pf = same_filters_passing_from [OF sf]
  show ?thesis
    using i'(1,3) same_filters_trans [OF sf i'(2)] rd1 i'(4)
    by (intro exI [of _ inp']) (simp add: pf p prepend_one passing_def)
qed

lemma reads_run:
  assumes "offers inp (xs @ ys)" and "exhausted inp"
    and "\<forall>n. Some n \<in> set xs \<longrightarrow> payloads n \<noteq> [] \<and> length (payloads n) \<le> 2 ^ 32"
  shows "\<exists>inp'. offers inp' ys \<and> same_filters inp inp' \<and> exhausted inp' \<and>
    (\<forall>fuel. input_reads rd lookup (reads_needed xs + fuel) inp =
       prepend (map (nmsg_message_from_payload lookup True) (passing_all inp xs)) (input_reads rd lookup fuel inp'))"
  using assms
proof (induction xs arbitrary: inp)
  case Nil
  then show ?case by (intro exI [of _ inp]) (simp add: reads_needed_def)
next
  case (Cons x xs)
  define j where "j = (case x of None \<Rightarrow> 1 | Some n \<Rightarrow> length (payloads n))"
  have "\<exists>inp1. offers inp1 (xs @ ys) \<and> same_filters inp inp1 \<and> exhausted inp1 \<and>
    (\<forall>fuel. input_reads rd lookup (j + fuel) inp =
       prepend (map (nmsg_message_from_payload lookup True) (passing_all inp [x])) (input_reads rd lookup fuel inp1))"
  proof (cases x)
    case None
    have "offers inp (None # xs @ ys)" using Cons.prems(1) None by simp
    from reads_none [OF this Cons.prems(2), of lookup] None show ?thesis by (simp add: j_def)
  next
    case (Some n)
    have "offers inp (Some n # xs @ ys)" "payloads n \<noteq> []" "length (payloads n) \<le> 2 ^ 32"
      using Cons.prems(1,3) Some by auto
    from reads_some [OF this(1) Cons.prems(2) this(2,3), of lookup] Some show ?thesis by (simp add: j_def)
  qed
  then obtain inp1 where i1: "offers inp1 (xs @ ys)" "same_filters inp inp1" "exhausted inp1"
    "\<And>fuel. input_reads rd lookup (j + fuel) inp =
       prepend (map (nmsg_message_from_payload lookup True) (passing_all inp [x])) (input_reads rd lookup fuel inp1)"
    by blast
  have "\<forall>n. Some n \<in> set xs \<longrightarrow> payloads n \<noteq> [] \<and> length (payloads n) \<le> 2 ^ 32"
    using Cons.prems(3) by simp
  from Cons.IH [OF i1(1,3) this] obtain inp' where i': "offers inp' ys" "same_filters inp1 inp'" "exhausted inp'"
    "\<And>fuel. input_reads rd lookup (reads_needed xs + fuel) inp1 =
       prepend (map (nmsg_message_from_payload lookup True) (passing_all inp1 xs)) (input_reads rd lookup fuel inp')"
    by blast
  have n: "reads_needed (x # xs) = j + reads_needed xs" by (simp add: reads_needed_def j_def)
  have s: "passing_all inp (x # xs) = passing_all inp [x] @ passing_all inp xs" by (cases x) simp_all
  from i1(4) [of "reads_needed xs + fuel" for fuel] i'(4) show ?case
    using i'(1,3) same_filters_trans [OF i1(2) i'(2)]
    unfolding n s same_filters_passing(2) [OF i1(2)]
    by (intro exI [of _ inp']) (simp add: add.assoc)
qed

end

end
