(* ===== verification/Input_Source.thy ===== *)
theory Input_Source
  imports Input_Loop
begin

text \<open>
  The file and the socket readers meet the contract of \<^verbatim>\<open>stream_read_fp\<close> (locale
  \<open>container_source\<close>); what follows for the loops and reads of an input.
\<close>

section \<open>Files\<close>

text \<open>A datagram or a piece of a file that holds the container \<open>n\<close>.\<close>

definition wire_holds :: "pbc \<Rightarrow> zlib \<Rightarrow> byte list \<Rightarrow> nmsg_nmsg \<Rightarrow> bool" where
  "wire_holds pb z d n \<longleftrightarrow> (\<exists>flags body. d = header_serialize flags (of_nat (length body)) @ body \<and>
     length d \<le> NMSG_WBUFSZ_MAX \<and> body_holds pb z flags body n)"

text \<open>
  A file is a sequence of containers of either version; one of version 1 is taken under the
  flags of the container before it.
\<close>

fun file_holds :: "pbc \<Rightarrow> zlib \<Rightarrow> byte \<Rightarrow> nmsg_nmsg list \<Rightarrow> byte list \<Rightarrow> bool" where
  "file_holds pb z old [] bs \<longleftrightarrow> bs = []"
| "file_holds pb z old (n # ns) bs \<longleftrightarrow> (\<exists>hdr body rest flags. bs = hdr @ body @ rest \<and>
     file_header old hdr (length body) flags \<and> length body \<le> NMSG_WBUFSZ_MAX \<and>
     body_holds pb z flags body n \<and> file_holds pb z flags ns rest)"

lemma file_holds_wire:
  "list_all2 (wire_holds pb z) ds ns \<Longrightarrow> file_holds pb z old ns (concat ds)"
proof (induction arbitrary: old rule: list_all2_induct)
  case (Cons d ds n ns)
  from Cons.hyps(1) obtain flags body where d: "d = header_serialize flags (of_nat (length body)) @ body"
    "length d \<le> NMSG_WBUFSZ_MAX" "body_holds pb z flags body n"
    by (auto simp: wire_holds_def)
  have "file_header old (header_serialize flags (of_nat (length body))) (length body) flags"
    using d(1,2) by (simp add: file_header_def)
  with d Cons.IH [of flags] show ?case by fastforce
qed simp

definition file_offers :: "pbc \<Rightarrow> zlib \<Rightarrow> (nat \<Rightarrow> bool) \<Rightarrow> nmsg_input \<Rightarrow> nmsg_nmsg option list \<Rightarrow> bool" where
  "file_offers pb z ok inp xs \<longleftrightarrow> ok 4 \<and> si_zb (i_stream inp) = [] \<and> between (i_stream inp, i_fd inp) \<and>
     (\<exists>ns bs. xs = map Some ns \<and> file_at (i_stream inp, i_fd inp) bs \<and>
        file_holds pb z (si_flags (i_stream inp)) ns bs)"

lemma file_offers_some:
  assumes "file_offers pb z ok inp (Some n # xs)"
  shows "\<exists>inp'. stream_read_fp pb z ok junk Stream_file inp = Ret (nmsg_res_success, inp') \<and>
    file_offers pb z ok inp' xs \<and> same_filters inp inp' \<and> i_stop inp' = i_stop inp \<and>
    si_nmsg (i_stream inp') = Some n"
proof -
  from assms obtain ns hdr body rest flags where h: "xs = map Some ns"
    "file_at (i_stream inp, i_fd inp) (hdr @ body @ rest)"
    "file_header (si_flags (i_stream inp)) hdr (length body) flags" "length body \<le> NMSG_WBUFSZ_MAX"
    "body_holds pb z flags body n" "file_holds pb z flags ns rest"
    "between (i_stream inp, i_fd inp)" "si_zb (i_stream inp) = []" "ok 4"
    by (auto simp: file_offers_def)
  have fl: "file_header (si_flags (fst (i_stream inp, i_fd inp))) hdr (length body) flags"
    and zb: "si_zb (fst (i_stream inp, i_fd inp)) = []"
    using h(3,8) by simp_all
  from read_container_file_ok [where ok = ok and junk = junk, OF h(2) fl h(7,4,5) zb h(9)]
  obtain st e where r:
    "read_container_file pb z ok junk (i_stream inp, i_fd inp) = Ret (nmsg_res_success, st, e)"
    "file_at (st, e) rest" "between (st, e)" "si_nmsg st = Some n" "si_flags st = flags"
    "container_read (i_stream inp) st"
    by auto
  have "settings st = settings (i_stream inp)" "si_zb st = []"
    using container_read_settings [OF r(6)] h(8) by simp_all
  with r h show ?thesis
    by (intro exI [of _ "inp\<lparr>i_stream := st, i_fd := e\<rparr>"])
      (auto simp: stream_read_fp_def on_source_def file_offers_def same_filters_def)
qed

lemma file_offers_retouch:
  "file_offers pb z ok inp xs \<Longrightarrow> file_offers pb z ok (retouch m i b inp) xs"
  by (auto simp: file_offers_def retouch_def file_at_def between_def avail_def fill_def)

interpretation file_source: container_source "stream_read_fp pb z ok junk Stream_file" "file_offers pb z ok"
  for pb z ok junk
proof unfold_locales
  show "file_offers pb z ok inp (None # xs) \<Longrightarrow>
      \<exists>inp'. stream_read_fp pb z ok junk Stream_file inp = Ret (nmsg_res_again, inp') \<and>
        file_offers pb z ok inp' xs \<and> same_filters inp inp' \<and> i_stop inp' = i_stop inp \<and>
        si_nmsg (i_stream inp') = si_nmsg (i_stream inp)" for inp xs
    by (auto simp: file_offers_def)
qed (blast intro: file_offers_some file_offers_retouch)+

lemma file_source_end:
  assumes "file_offers pb z ok inp []"
  shows "\<exists>inp'. stream_read_fp pb z ok junk Stream_file inp = Ret (nmsg_res_eof, inp') \<and>
    same_filters inp inp' \<and> i_stop inp' = i_stop inp"
proof -
  have at: "file_at (i_stream inp, i_fd inp) []" "between (i_stream inp, i_fd inp)"
    using assms by (auto simp: file_offers_def)
  from read_container_file_eof [OF at, of pb z ok junk] obtain st e where
    "read_container_file pb z ok junk (i_stream inp, i_fd inp) = Ret (nmsg_res_eof, st, e)"
    "reads_to (i_stream inp, i_fd inp) (st, e)" by auto
  with reads_to_settings [OF this(2)] show ?thesis
    by (intro exI [of _ "inp\<lparr>i_stream := st, i_fd := e\<rparr>"])
      (simp add: stream_read_fp_def on_source_def same_filters_def)
qed

section \<open>Sockets\<close>

definition poll_ready :: "bool \<Rightarrow> poll_answer list \<Rightarrow> poll_answer list \<Rightarrow> bool" where
  "poll_ready b ps ps' \<longleftrightarrow> (if b then ps = P_ready # ps' \<or> ps = [] \<and> ps' = [] else ps = ps')"

definition recv_nothing :: "recv_answer list \<Rightarrow> recv_answer list \<Rightarrow> bool" where
  "recv_nothing rs rs' \<longleftrightarrow> rs = Recv_again # rs' \<or> rs = [] \<and> rs' = [] \<or> (\<exists>a. rs = Recv_dgram a [] # rs')"

text \<open>
  The answers of a socket and the containers among them; \<open>b\<close> says whether reads are preceded by
  a poll.
\<close>

inductive sock_delivers ::
  "pbc \<Rightarrow> zlib \<Rightarrow> bool \<Rightarrow> poll_answer list \<Rightarrow> recv_answer list \<Rightarrow> nmsg_nmsg option list \<Rightarrow> bool"
  for pb z b where
  finished: "sock_delivers pb z b ps rs []"
| timeout: "b \<Longrightarrow> sock_delivers pb z b ps rs xs \<Longrightarrow> sock_delivers pb z b (P_timeout # ps) rs (None # xs)"
| nothing: "poll_ready b ps ps' \<Longrightarrow> recv_nothing rs rs' \<Longrightarrow> sock_delivers pb z b ps' rs' xs \<Longrightarrow>
    sock_delivers pb z b ps rs (None # xs)"
| datagram: "poll_ready b ps ps' \<Longrightarrow> wire_holds pb z d n \<Longrightarrow> sock_delivers pb z b ps' rs xs \<Longrightarrow>
    sock_delivers pb z b ps (Recv_dgram a d # rs) (Some n # xs)"

inductive_cases sock_delivers_noneE: "sock_delivers pb z b ps rs (None # xs)"
inductive_cases sock_delivers_someE: "sock_delivers pb z b ps rs (Some n # xs)"

lemma sock_delivers_none:
  "sock_delivers pb z b ps rs (None # xs) \<Longrightarrow> \<exists>ps' rs'. sock_delivers pb z b ps' rs' xs \<and>
     (b \<and> ps = P_timeout # ps' \<and> rs' = rs \<or> poll_ready b ps ps' \<and> recv_nothing rs rs')"
  by (erule sock_delivers_noneE) (simp?, blast)+

lemma sock_delivers_some:
  "sock_delivers pb z b ps rs (Some n # xs) \<Longrightarrow> \<exists>ps' rs' a d. sock_delivers pb z b ps' rs' xs \<and>
     poll_ready b ps ps' \<and> wire_holds pb z d n \<and> rs = Recv_dgram a d # rs'"
  by (erule sock_delivers_someE) blast

definition sock_offers :: "pbc \<Rightarrow> zlib \<Rightarrow> (nat \<Rightarrow> bool) \<Rightarrow> nmsg_input \<Rightarrow> nmsg_nmsg option list \<Rightarrow> bool" where
  "sock_offers pb z ok inp xs \<longleftrightarrow> ok 4 \<and> ok 5 \<and> sock_ok (i_stream inp, i_fd inp) \<and>
     sock_delivers pb z (si_blocking_io (i_stream inp)) (fd_polls (i_fd inp)) (fd_recvs (i_fd inp)) xs"

lemma sock_offers_none:
  assumes "sock_offers pb z ok inp (None # xs)"
  shows "\<exists>inp'. stream_read_fp pb z ok junk Stream_sock inp = Ret (nmsg_res_again, inp') \<and>
    sock_offers pb z ok inp' xs \<and> same_filters inp inp' \<and> i_stop inp' = i_stop inp \<and>
    si_nmsg (i_stream inp') = si_nmsg (i_stream inp)"
proof -
  let ?s = "(i_stream inp, i_fd inp)"
  have ok: "ok 4" "ok 5" and sk: "sock_ok ?s" and d: "sock_delivers pb z (si_blocking_io (i_stream inp))
      (fd_polls (i_fd inp)) (fd_recvs (i_fd inp)) (None # xs)"
    using assms by (simp_all add: sock_offers_def)
  from sock_delivers_none [OF d] obtain ps rs where n: "next_nothing ?s ps rs"
    "sock_delivers pb z (si_blocking_io (i_stream inp)) ps rs xs"
    unfolding next_nothing_def poll_ready_def recv_nothing_def fst_conv snd_conv by blast
  from read_container_sock_again [OF sk n(1), of pb z ok junk] obtain st e where r:
    "read_container_sock pb z ok junk ?s = Ret (nmsg_res_again, st, e)" "sock_ok (st, e)"
    "sock_idle (i_stream inp) st" "fd_recvs e = rs" "fd_polls e = ps"
    by auto
  have "settings st = settings (i_stream inp)" "si_nmsg st = si_nmsg (i_stream inp)"
    using sock_idle_simps(1,2) [OF r(3)] by simp_all
  moreover from this have "si_blocking_io st = si_blocking_io (i_stream inp)" by (simp add: settings_def)
  ultimately show ?thesis
    using r n ok by (intro exI [of _ "inp\<lparr>i_stream := st, i_fd := e\<rparr>"])
      (simp add: stream_read_fp_def on_source_def same_filters_def sock_offers_def)
qed

lemma sock_offers_some:
  assumes "sock_offers pb z ok inp (Some n # xs)"
  shows "\<exists>inp'. stream_read_fp pb z ok junk Stream_sock inp = Ret (nmsg_res_success, inp') \<and>
    sock_offers pb z ok inp' xs \<and> same_filters inp inp' \<and> i_stop inp' = i_stop inp \<and>
    si_nmsg (i_stream inp') = Some n"
proof -
  let ?s = "(i_stream inp, i_fd inp)"
  have ok: "ok 4" "ok 5" and sk: "sock_ok ?s" and d: "sock_delivers pb z (si_blocking_io (i_stream inp))
      (fd_polls (i_fd inp)) (fd_recvs (i_fd inp)) (Some n # xs)"
    using assms by (simp_all add: sock_offers_def)
  from sock_delivers_some [OF d] obtain a w ps rs where n: "next_datagram ?s a w ps rs" "wire_holds pb z w n"
    "sock_delivers pb z (si_blocking_io (i_stream inp)) ps rs xs"
    unfolding next_datagram_def poll_ready_def fst_conv snd_conv by blast
  from n(2) obtain flags body where w: "w = header_serialize flags (of_nat (length body)) @ body"
    "length w \<le> NMSG_WBUFSZ_MAX" "body_holds pb z flags body n" by (auto simp: wire_holds_def)
  from read_container_sock_ok [where pb = pb and z = z and ok = ok and junk = junk,
      OF sk n(1) w(2,1,3) ok] obtain st e where r:
    "read_container_sock pb z ok junk ?s = Ret (nmsg_res_success, st, e)" "sock_ok (st, e)"
    "si_nmsg st = Some n" "settings st = settings (i_stream inp)" "fd_recvs e = rs" "fd_polls e = ps"
    by auto
  have "si_blocking_io st = si_blocking_io (i_stream inp)" using r(4) by (simp add: settings_def)
  with r n ok show ?thesis
    by (intro exI [of _ "inp\<lparr>i_stream := st, i_fd := e\<rparr>"])
      (simp add: stream_read_fp_def on_source_def same_filters_def sock_offers_def)
qed

lemma sock_offers_retouch:
  "sock_offers pb z ok inp xs \<Longrightarrow> sock_offers pb z ok (retouch m i b inp) xs"
  by (simp add: sock_offers_def retouch_def sock_ok_def)

interpretation sock_source: container_source "stream_read_fp pb z ok junk Stream_sock" "sock_offers pb z ok"
  for pb z ok junk
  by unfold_locales (blast intro: sock_offers_none sock_offers_some sock_offers_retouch)+

end
