(* ===== verification/Input_Props.thy ===== *)
theory Input_Props
  imports Input_Source
begin

text \<open>
  What programs that read messages get to see: the properties of the loops and of single reads
  over files and sockets, and the inputs on which they go wrong.
\<close>

section \<open>Opening\<close>

lemma nmsg_buf_new_ok: "ok 3 \<Longrightarrow> ok 4 \<Longrightarrow>
    \<exists>d. nmsg_buf_new ok sz = Some \<lparr>b_bufsz = 0, b_data = d, b_pos = 0, b_end = 0\<rparr> \<and> length d = sz"
  by (simp add: nmsg_buf_new_def)

lemma input_open_ok:
  assumes "\<forall>i. ok i" and "ty \<noteq> Stream_xs"
  shows "\<exists>inp. input_open_stream ok ty fd = Ret (Some inp) \<and> i_fd inp = fd \<and> \<not> i_stop inp \<and>
    \<not> i_do_filter inp \<and> si_type (i_stream inp) = ty \<and> si_zb (i_stream inp) = [] \<and>
    si_nmsg (i_stream inp) = None \<and> si_nft (i_stream inp) = RBT.empty \<and> si_flags (i_stream inp) = 0 \<and> si_source (i_stream inp) = 0 \<and>
    si_operator (i_stream inp) = 0 \<and> si_group (i_stream inp) = 0 \<and> si_blocking_io (i_stream inp) \<and>
    length (b_data (si_buf (i_stream inp))) = NMSG_RBUFSZ \<and>
    b_bufsz (si_buf (i_stream inp)) = NMSG_WBUFSZ_MAX \<and>
    b_pos (si_buf (i_stream inp)) = 0 \<and> b_end (si_buf (i_stream inp)) = 0"
proof -
  from nmsg_buf_new_ok [of ok NMSG_RBUFSZ] assms(1) obtain d where
    "nmsg_buf_new ok NMSG_RBUFSZ = Some \<lparr>b_bufsz = 0, b_data = d, b_pos = 0, b_end = 0\<rparr>"
    "length d = NMSG_RBUFSZ" by blast
  with assms show ?thesis
    by (simp add: input_open_stream_def input_open_stream_base_def nmsg_buf_reset_def)
qed

lemma file_offers_open:
  assumes "si_type (i_stream inp) = Stream_file" and "si_zb (i_stream inp) = []" and "si_flags (i_stream inp) = 0"
    and "length (b_data (si_buf (i_stream inp))) = NMSG_RBUFSZ"
    and "b_bufsz (si_buf (i_stream inp)) = NMSG_WBUFSZ_MAX" and "b_pos (si_buf (i_stream inp)) = 0"
    and "b_end (si_buf (i_stream inp)) = 0" and "R_error \<notin> set (fd_reads (i_fd inp))"
    and "file_holds pb z 0 ns (fd_rest (i_fd inp))" and "ok 4"
  shows "file_offers pb z ok inp (map Some ns)"
  using assms unfolding file_offers_def
  by (intro conjI exI [of _ ns] exI [of _ "fd_rest (i_fd inp)"])
    (simp_all add: file_at_def between_def fill_def unread_def)

section \<open>Loops and reads over a file\<close>

lemma file_loop_ok:
  assumes "file_offers pb z ok inp (map Some ns)" and "\<not> i_stop inp" and "\<forall>i. ok' i" and "cnt < 0"
    and "\<forall>u m. \<not> snd (cb u m)"
  shows "\<exists>inp'. \<forall>fuel > length ns.
    input_nmsg_loop (stream_read_fp pb z ok junk Stream_file) lookup ok' cb cnt fuel 0 (u, inp) =
      Some (Ret (nmsg_res_eof, fst (deliver lookup cb (concat (map (passing inp) ns)) u), inp'))"
proof -
  have never: "snd (deliver lookup cb ps u) = False" for ps u
    using assms(5) by (induction ps arbitrary: u) (simp_all add: Let_def case_prod_beta)
  have pa: "passing_all inp (map Some ns) = concat (map (passing inp) ns)"
    by (simp add: passing_all_def comp_def)
  obtain u' where d: "deliver lookup cb (passing_all inp (map Some ns)) u = (u', False)"
    using never by (metis prod.collapse)
  have "file_offers pb z ok inp (map Some ns @ [])" using assms(1) by simp
  from file_source.loop_run [OF this assms(2,3) disjI1 [OF assms(4)] d, where k = 0 and junk = junk]
  obtain inp1 where i1: "file_offers pb z ok inp1 []" "\<not> i_stop inp1"
    "\<And>fuel. input_nmsg_loop (stream_read_fp pb z ok junk Stream_file) lookup ok' cb cnt
         (length ns + fuel) 0 (u, inp) =
       input_nmsg_loop (stream_read_fp pb z ok junk Stream_file) lookup ok' cb cnt fuel
         (length (passing_all inp (map Some ns))) (u', inp1)"
    by auto
  from file_source_end [OF i1(1), of junk] obtain inp2 where
    "stream_read_fp pb z ok junk Stream_file inp1 = Ret (nmsg_res_eof, inp2)" by blast
  with i1(2,3) have "input_nmsg_loop (stream_read_fp pb z ok junk Stream_file) lookup ok' cb cnt
      (length ns + Suc f) 0 (u, inp) = Some (Ret (nmsg_res_eof, u', inp2))" for f
    by (simp add: input_nmsg_loop.simps del: add_Suc_right)
  then show ?thesis
    using d pa by (metis fst_conv less_natE add_Suc_right)
qed

text \<open>
  C16. A loop without a count over a file of well-formed containers, each of which fits the buffer of the reader, hands every
  payload that passes the filter to the callback, in the order of the file, and returns end of file: it terminates after one
  pass per container and one more. How many octets \<^verbatim>\<open>read(2)\<close> answers each time makes no difference, but it must not fail,
  also not with \<^verbatim>\<open>EINTR\<close>, which ends the loop; and the callback does not stop it.
\<close>

theorem input_file_loop_delivers:
  assumes "file_offers pb z ok inp (map Some ns)" and "\<not> i_stop inp" and "\<forall>i. ok' i" and "cnt < 0"
    and "\<forall>u m. \<not> snd (cb u m)"
  shows "\<exists>inp'. \<forall>fuel > length ns.
    input_nmsg_loop (stream_read_fp pb z ok junk Stream_file) lookup ok' cb cnt fuel 0 (u, inp) =
      Some (Ret (nmsg_res_eof, fst (deliver lookup cb (concat (map (passing inp) ns)) u), inp'))"
  using assms by (rule file_loop_ok)

text \<open>
  A program that reads one message at a time gets the same messages in the same order and
  then end of file, provided no container is empty.
\<close>

theorem input_file_reads_deliver:
  assumes "file_offers pb z ok inp (map Some ns)" and "si_nmsg (i_stream inp) = None"
    and "\<forall>n \<in> set ns. payloads n \<noteq> [] \<and> length (payloads n) \<le> 2 ^ 32"
  shows "\<exists>inp'. \<forall>fuel > (\<Sum>n\<leftarrow>ns. length (payloads n)).
    input_reads (stream_read_fp pb z ok junk Stream_file) lookup fuel inp =
      Some (Ret (map (nmsg_message_from_payload lookup True) (concat (map (passing inp) ns)),
        nmsg_res_eof, inp'))"
proof -
  let ?rd = "stream_read_fp pb z ok junk Stream_file"
  have pa: "passing_all inp (map Some ns) = concat (map (passing inp) ns)"
    by (simp add: passing_all_def comp_def)
  have nn: "reads_needed (map Some ns) = (\<Sum>n\<leftarrow>ns. length (payloads n))"
    by (simp add: reads_needed_def comp_def)
  have off: "file_offers pb z ok inp (map Some ns @ [])" using assms(1) by simp
  have ex: "exhausted inp" using assms(2) by (simp add: exhausted_def)
  have ne: "\<forall>n. Some n \<in> set (map Some ns) \<longrightarrow> payloads n \<noteq> [] \<and> length (payloads n) \<le> 2 ^ 32"
    using assms(3) by auto
  from file_source.reads_run [OF off ex ne, where junk = junk and lookup = lookup] obtain inp1 where i1:
    "file_offers pb z ok inp1 []" "exhausted inp1"
    "\<And>fuel. input_reads ?rd lookup ((\<Sum>n\<leftarrow>ns. length (payloads n)) + fuel) inp =
       prepend (map (nmsg_message_from_payload lookup True) (concat (map (passing inp) ns)))
         (input_reads ?rd lookup fuel inp1)"
    unfolding nn pa by blast
  from read_exhausted [OF i1(2), of lookup True] obtain i where rd1:
    "input_nmsg_read ?rd lookup True inp1 = run_bind (?rd (retouch None i (i_stop inp1) inp1))
      (\<lambda>(res, inp2). if res \<noteq> nmsg_res_success then Ret (res, None, inp2)
         else take_payload lookup True (set_index 0 inp2))" by blast
  from file_source_end [OF file_offers_retouch [OF i1(1)], of junk None i "i_stop inp1"] obtain inp2 where
    "?rd (retouch None i (i_stop inp1) inp1) = Ret (nmsg_res_eof, inp2)" by blast
  with rd1 i1(3) [of "Suc f" for f]
  have "input_reads ?rd lookup ((\<Sum>n\<leftarrow>ns. length (payloads n)) + Suc f) inp =
      Some (Ret (map (nmsg_message_from_payload lookup True) (concat (map (passing inp) ns)),
        nmsg_res_eof, inp2))" for f
    by (simp del: add_Suc_right)
  then show ?thesis by (metis less_natE add_Suc_right)
qed

section \<open>Loops over a socket\<close>

lemma sock_loop_ok:
  assumes "sock_offers pb z ok inp (xs @ Some n # ys)" and "\<not> i_stop inp" and "\<forall>i. ok' i"
    and "int (length (passing_all inp xs)) < cnt" and "cnt \<le> int (length (passing_all inp (xs @ [Some n])))"
    and "\<forall>u m. \<not> snd (cb u m)"
  shows "\<exists>inp'. sock_offers pb z ok inp' ys \<and> (\<forall>fuel > length xs.
    input_nmsg_loop (stream_read_fp pb z ok junk Stream_sock) lookup ok' cb cnt fuel 0 (u, inp) =
      Some (Ret (nmsg_res_success,
        fst (deliver lookup cb (take (nat cnt) (passing_all inp (xs @ [Some n]))) u), inp')))"
proof -
  have never: "snd (deliver lookup cb ps u) = False" for ps u
    using assms(6) by (induction ps arbitrary: u) (simp_all add: Let_def case_prod_beta)
  then obtain u1 where d: "deliver lookup cb (passing_all inp xs) u = (u1, False)"
    by (metis prod.collapse)
  from sock_source.loop_counted [OF assms(1-5) d, of junk] show ?thesis
    by (metis less_natE add_Suc_right)
qed

text \<open>
  C19. A loop over a socket with a count returns when the count is reached, whatever timeouts and
  empty datagrams come in between, and has delivered exactly the first messages that pass. What
  the last container holds beyond them is lost: the next call starts with the next datagram.
\<close>

theorem input_sock_loop_counted:
  assumes "sock_offers pb z ok inp (xs @ Some n # ys)" and "\<not> i_stop inp" and "\<forall>i. ok' i"
    and "int (length (passing_all inp xs)) < cnt" and "cnt \<le> int (length (passing_all inp (xs @ [Some n])))"
    and "\<forall>u m. \<not> snd (cb u m)"
  shows "\<exists>inp'. sock_offers pb z ok inp' ys \<and> (\<forall>fuel > length xs.
    input_nmsg_loop (stream_read_fp pb z ok junk Stream_sock) lookup ok' cb cnt fuel 0 (u, inp) =
      Some (Ret (nmsg_res_success,
        fst (deliver lookup cb (take (nat cnt) (passing_all inp (xs @ [Some n]))) u), inp')))"
  using assms by (rule sock_loop_ok)

text \<open>
  C34. When a callback calls \<^verbatim>\<open>nmsg_input_breakloop\<close>, the rest of the container it belongs to is
  still delivered; then the loop returns success without touching the socket again.
\<close>

theorem input_breakloop_finishes_container:
  assumes "sock_offers pb z ok inp (xs @ Some n # ys)" and "\<not> i_stop inp" and "\<forall>i. ok' i" and "cnt < 0"
    and "deliver lookup cb (passing_all inp xs) u = (u1, False)"
    and "deliver lookup cb (passing inp n) u1 = (u2, True)"
  shows "\<exists>inp'. sock_offers pb z ok inp' ys \<and> (\<forall>fuel > length xs + 1.
    input_nmsg_loop (stream_read_fp pb z ok junk Stream_sock) lookup ok' cb cnt fuel 0 (u, inp) =
      Some (Ret (nmsg_res_success, u2, inp')))"
proof -
  from sock_source.loop_stopped [OF assms, of junk 0] obtain inp' where i: "sock_offers pb z ok inp' ys"
    "\<And>f. input_nmsg_loop (stream_read_fp pb z ok junk Stream_sock) lookup ok' cb cnt
       (length xs + Suc (Suc f)) 0 (u, inp) = Some (Ret (nmsg_res_success, u2, inp'))"
    by blast
  have "\<exists>f. fuel = length xs + Suc (Suc f)" if "fuel > length xs + 1" for fuel
    using that by (intro exI [of _ "fuel - length xs - 2"]) simp
  with i show ?thesis by metis
qed

text \<open>
  The loop of input.c for inputs without their own reads one message more than it was asked
  for and drops it: after \<open>k\<close> messages have been delivered the reader stands behind message \<open>k\<close>.
\<close>

theorem input_read_loop_overreads:
  assumes "\<forall>i \<le> k. rd (s i) = Ret (nmsg_res_success, m i, s (i + 1))" and "\<forall>u m. \<not> snd (cb u m)"
    and "k < fuel"
  shows "input_read_loop rd cb (int k) fuel 0 False u (s 0) =
    Some (Ret (nmsg_res_success, fold (\<lambda>i u. fst (cb u (m i))) [0..<k] u, s (k + 1)))"
proof -
  have "input_read_loop rd cb (int k) fuel j False u (s j) =
      Some (Ret (nmsg_res_success, fold (\<lambda>i u. fst (cb u (m i))) [j..<k] u, s (k + 1)))"
    if "j \<le> k" "k - j < fuel" for j
    using that
  proof (induction fuel arbitrary: j u)
    case (Suc fuel)
    have r: "rd (s j) = Ret (nmsg_res_success, m j, s (j + 1))" using assms(1) Suc.prems by blast
    show ?case
    proof (cases "j = k")
      case True
      with r show ?thesis by simp
    next
      case False
      obtain u' where c: "cb u (m j) = (u', False)" using assms(2) by (metis prod.collapse)
      from False Suc.prems have "j + 1 \<le> k" "k - (j + 1) < fuel" by auto
      from Suc.IH [OF this, of u'] False Suc.prems r c show ?thesis
        by (simp add: upt_conv_Cons)
    qed
  qed simp
  from this [of 0] assms(3) show ?thesis by simp
qed

section \<open>Corruption\<close>

text \<open>
  A payload that comes with a checksum, and differs from the one it was made for within four adjacent octets,
  does not pass the filter, whatever the settings. (A payload for which the container has no checksum is not checked.)
\<close>

theorem input_filter_rejects_corruption:
  assumes "si_nmsg (i_stream inp) = Some n" and "idx < length (payload_crcs n)"
    and "payload_crcs n ! idx = payload_crc sent" and "payload sent = Some (xs @ e @ ys)"
    and "payload p = Some (xs @ e' @ ys)" and "length e = length e'" and "length e \<le> 4" and "e \<noteq> e'"
  shows "input_nmsg_filter inp idx p = Ret False"
proof -
  have "crc32c_spec (xs @ e @ ys) \<noteq> crc32c_spec (xs @ e' @ ys)"
    using foldl_crc_byte_burst assms(6-8) by (auto simp: crc32c_spec_def foldl_crc_byte_inject)
  with assms(1-5) show ?thesis
    by (simp add: input_nmsg_filter_def accepts_def crc_matches_def payload_crc_def Let_def)
qed

text \<open>
  A container without payloads, which the loop passes over, makes the single read dereference
  an array without elements.
\<close>

theorem input_read_empty_container:
  assumes "file_offers pb z ok inp (Some n # xs)" and "si_nmsg (i_stream inp) = None" and "payloads n = []"
  shows "input_nmsg_read (stream_read_fp pb z ok junk Stream_file) lookup alloc inp = Fault"
proof -
  have "exhausted inp" using assms(2) by (simp add: exhausted_def)
  from read_exhausted [OF this, of lookup alloc] obtain i where rd1:
    "\<And>rd. input_nmsg_read rd lookup alloc inp = run_bind (rd (retouch None i (i_stop inp) inp))
      (\<lambda>(res, inp2). if res \<noteq> nmsg_res_success then Ret (res, None, inp2)
         else take_payload lookup alloc (set_index 0 inp2))" by blast
  from file_source.offers_some [OF file_offers_retouch [OF assms(1)], of junk None i "i_stop inp"]
  obtain inp2 where "stream_read_fp pb z ok junk Stream_file (retouch None i (i_stop inp) inp) =
      Ret (nmsg_res_success, inp2)" "si_nmsg (i_stream inp2) = Some n" by blast
  with rd1 assms(3) show ?thesis by (simp add: take_payload_def set_index_def)
qed

text \<open>
  A fragment of a container of one fragment, whose content is not a container, in a datagram.
\<close>

definition bad_fragment :: "pbc \<Rightarrow> nmsg_stream_input \<Rightarrow> byte list \<Rightarrow> bool" where
  "bad_fragment pb st body \<longleftrightarrow> (\<exists>nfrag data. nmsg__nmsg_fragment__unpack pb body = Some nfrag \<and>
     RBT.lookup (si_nft st) (frag_key st nfrag) = None \<and> last_frag nfrag = 0 \<and> current nfrag = 0 \<and>
     fragment nfrag = Some data \<and> nmsg__nmsg__unpack pb data = None)"

text \<open>
  One such datagram makes the loop follow a NULL pointer: the reassembly reports success
  without a container.
\<close>

theorem input_loop_bad_fragment:
  assumes sk: "sock_ok (i_stream inp, i_fd inp)" and nd: "next_datagram (i_stream inp, i_fd inp) a d ps rs"
    and d: "d = header_serialize NMSG_FLAG_FRAGMENT (of_nat (length body)) @ body"
    and len: "length d \<le> NMSG_WBUFSZ_MAX" and bad: "bad_fragment pb ((i_stream inp)\<lparr>si_addr_ss := a\<rparr>) body"
    and ok: "\<forall>i. ok i" and st: "\<not> i_stop inp" and none: "si_nmsg (i_stream inp) = None"
  shows "input_nmsg_loop (stream_read_fp pb z ok junk Stream_sock) lookup ok' cb cnt (Suc fuel) k (u, inp) =
    Some Fault"
proof -
  let ?s = "(i_stream inp, i_fd inp)"
  have ne: "d \<noteq> []" and ld: "length d = 10 + length body"
    unfolding d by (metis append_is_Nil_conv length_0_conv length_header_serialize zero_neq_numeral) simp
  from do_read_sock_dgram [OF sk nd len ne] obtain s1 where s1:
    "do_read_sock (buf_reset ?s) NMSG_WBUFSZ_MAX = Ret (nmsg_res_success, s1)" "received ?s a d s1" by blast
  from received_avail [OF s1(2)] obtain t where av: "nmsg_buf_avail (si_buf (fst s1)) = Ret (length d)"
    and t: "buf_mem s1 = d @ t" by blast
  have b: "unat (of_nat (length body) :: u32) = length body"
    using len ld by (simp add: unat_of_nat_u32)
  have hdr: "input_nmsg_deserialize_header (buf_mem s1) (length d) = Ret (Inr (length body, NMSG_FLAG_FRAGMENT))"
    using deserialize_header_serialize [of "length d" NMSG_FLAG_FRAGMENT "of_nat (length body)" "body @ t"] ld
    unfolding t by (simp add: d b)
  let ?s2 = "buf_skip 10 ((fst s1)\<lparr>si_flags := NMSG_FLAG_FRAGMENT\<rparr>, snd s1)"
  have m2: "mem_read (buf_mem ?s2) 0 (length body) = Ret body"
  proof -
    have "buf_mem ?s2 = drop 10 (buf_mem s1)" by (simp add: buf_mem_def buf_skip_def add.commute)
    then show ?thesis unfolding t d by (simp add: mem_read_def)
  qed
  have st1: "fst s1 = (i_stream inp)\<lparr>si_buf := si_buf (fst s1), si_now := si_now (fst s1), si_addr_ss := a\<rparr>"
    using s1(2) by (simp add: received_def)
  have same: "si_nft (fst s1) = si_nft (i_stream inp)" "si_addr_ss (fst s1) = a" "si_nmsg (fst s1) = None"
    "si_type (fst s1) = Stream_sock"
    using st1 sk none by (cases "i_stream inp"; cases "fst s1"; simp add: sock_ok_def)+
  let ?st = "(fst ?s2)\<lparr>si_nc_size := length body + 10\<rparr>"
  from bad obtain nfrag data where nf: "nmsg__nmsg_fragment__unpack pb body = Some nfrag"
    "RBT.lookup (si_nft (i_stream inp)) (Frag_Key (frag_id nfrag) (opt_u32 (frag_crc nfrag)) a) = None"
    "last_frag nfrag = 0" "current nfrag = 0" "fragment nfrag = Some data" "nmsg__nmsg__unpack pb data = None"
    by (auto simp: bad_fragment_def frag_key_def)
  have k: "RBT.lookup (si_nft ?st) (frag_key ?st nfrag) = None" "\<not> flag_set (si_flags ?st) NMSG_FLAG_ZLIB"
    using nf(2) same by (simp_all add: buf_skip_def frag_key_def)
  from input_frag_read_bad_content [OF nf(1) ok k(1) nf(3-5) k(2) nf(6), of z junk] obtain st' where st':
    "input_frag_read pb z ok junk ?st body = Ret (nmsg_res_success, st')" "si_nmsg st' = None" by blast
  have un: "input_nmsg_unpack_container pb z ok junk (fst ?s2) (buf_mem ?s2) (length body) = Ret (nmsg_res_success, st')"
    using m2 st'(1) by (simp add: input_nmsg_unpack_container_def buf_skip_def)
  have n3: "si_nmsg (fst (buf_skip (length body) (st', snd ?s2))) = None"
    using st'(2) by (simp add: buf_skip_def)
  then have c: "input_count (ok 5) (fst (buf_skip (length body) (st', snd ?s2))) =
      Ret (fst (buf_skip (length body) (st', snd ?s2)))"
    by (simp add: input_count_def)
  have bz: "b_bufsz (si_buf (fst (buf_reset ?s))) = NMSG_WBUFSZ_MAX" "si_type (i_stream inp) = Stream_sock"
    using sk by (simp_all add: sock_ok_def buf_reset_def nmsg_buf_reset_def)
  have "read_container_sock pb z ok junk ?s = Ret (nmsg_res_success,
      input_frag_gc (fst (buf_skip (length body) (st', snd ?s2))), snd (buf_skip (length body) (st', snd ?s2)))"
    using s1(1) av hdr un c ld bz by (simp add: read_container_sock_def Let_def)
  with st n3 show ?thesis
    by (simp add: input_nmsg_loop.simps stream_read_fp_def on_source_def)
qed

section \<open>A broken inflater\<close>

text \<open>
  Unpacking a sequence of containers, each with its flags and the memory it stands in; the
  results of the calls.
\<close>

fun unpack_all ::
  "pbc \<Rightarrow> zlib \<Rightarrow> (nat \<Rightarrow> bool) \<Rightarrow> (nat \<Rightarrow> byte) \<Rightarrow> nmsg_stream_input \<Rightarrow> (byte \<times> byte list \<times> nat) list \<Rightarrow>
     nmsg_res list run" where
  "unpack_all pb z ok junk st [] = Ret []"
| "unpack_all pb z ok junk st ((flags, mem, len) # cs) =
     run_bind (input_nmsg_unpack_container pb z ok junk (st\<lparr>si_flags := flags\<rparr>) mem len) (\<lambda>(res, st').
       run_bind (unpack_all pb z ok junk st' cs) (\<lambda>rs. Ret (res # rs)))"

definition inflater_broken :: "zlib \<Rightarrow> zstream \<Rightarrow> bool" where
  "inflater_broken z zs \<longleftrightarrow> (\<exists>h i n h'. zs = h @ (i, n) # h' \<and> inflate z h i n = Z_error)"

lemma inflater_broken_stays:
  assumes "zlib_sticky z" and "inflater_broken z zs"
    and "nmsg_zbuf_inflate z alloc zs len mem = Ret (r, zs')"
  shows "(\<exists>e. r = Inl e) \<and> inflater_broken z zs'"
proof -
  obtain h i n h' where h: "zs = h @ (i, n) # h'" "inflate z h i n = Z_error"
    using assms(2) by (auto simp: inflater_broken_def)
  have e: "inflate z zs i' n' = Z_error" for i' n'
    using assms(1) h unfolding zlib_sticky_def by blast
  have b: "inflater_broken z (zs @ [x])" for x
    using h by (auto simp: inflater_broken_def)
  from assms(3) show ?thesis
    using assms(2) b by (auto simp: nmsg_zbuf_inflate_def Let_def e split: if_splits)
qed

text \<open>
  The inflater of an input is never reset after an error: once one compressed container is
  corrupt, every later compressed container is rejected, however good it is.
\<close>

theorem input_zlib_error_is_final:
  assumes "zlib_sticky z" and "inflater_broken z (si_zb st)"
    and "\<forall>(flags, mem, len) \<in> set cs. flag_set flags NMSG_FLAG_ZLIB \<and> \<not> flag_set flags NMSG_FLAG_FRAGMENT"
    and "unpack_all pb z ok junk st cs = Ret rs"
  shows "nmsg_res_success \<notin> set rs"
  using assms(2-4)
proof (induction cs arbitrary: st rs)
  case (Cons c cs)
  obtain flags mem len where c: "c = (flags, mem, len)" by (cases c)
  have fl: "flag_set flags NMSG_FLAG_ZLIB" "\<not> flag_set flags NMSG_FLAG_FRAGMENT"
    using Cons.prems(2) c by auto
  from Cons.prems(3) c obtain res st' rs' where u:
    "input_nmsg_unpack_container pb z ok junk (st\<lparr>si_flags := flags\<rparr>) mem len = Ret (res, st')"
    "unpack_all pb z ok junk st' cs = Ret rs'" "rs = res # rs'"
    by auto
  from u(1) fl obtain r zb where i: "nmsg_zbuf_inflate z (ok 4) (si_zb st) len mem = Ret (r, zb)"
    by (cases "nmsg_zbuf_inflate z (ok 4) (si_zb st) len mem") (auto simp: input_nmsg_unpack_container_def)
  from inflater_broken_stays [OF assms(1) Cons.prems(1) i] obtain e where e: "r = Inl e" "inflater_broken z zb"
    by blast
  have "e \<noteq> nmsg_res_success"
    using i e(1) by (auto simp: nmsg_zbuf_inflate_def Let_def split: if_splits zret.splits)
  moreover have st': "res = e" "si_zb st' = zb"
    using u(1) fl i e(1) by (auto simp: input_nmsg_unpack_container_def Let_def)
  moreover have "nmsg_res_success \<notin> set rs'"
    using Cons.IH [of st' rs'] st' e Cons.prems(2) u(2) by simp
  ultimately show ?case using u(3) by simp
qed simp

section \<open>Witnesses\<close>

definition sample_read :: nmsg_nmsg where
  "sample_read = \<lparr>payloads = [sample_payload, sample_payload],
     payload_crcs = [payload_crc sample_payload, payload_crc sample_payload], sequence = None, sequence_id = None\<rparr>"

definition sample_empty :: nmsg_nmsg where
  "sample_empty = \<lparr>payloads = [], payload_crcs = [], sequence = None, sequence_id = None\<rparr>"

definition ref_wire :: "nmsg_nmsg \<Rightarrow> byte list" where
  "ref_wire n = header_serialize 0 (of_nat (length (nmsg__nmsg__pack ref_pb n))) @ nmsg__nmsg__pack ref_pb n"

lemma ref_wire_holds:
  assumes "nmsg_wire_size n \<le> 1000"
  shows "wire_holds ref_pb ref_zlib (ref_wire n) n"
proof -
  let ?b = "nmsg__nmsg__pack ref_pb n"
  have "length ?b \<le> 1000"
    using assms ref_pb_sizes by (simp add: pb_sizes_def)
  moreover have "nmsg__nmsg__unpack ref_pb ?b = Some n"
    using ref_pb_roundtrip by (simp add: pb_roundtrip_def)
  ultimately show ?thesis
    unfolding wire_holds_def ref_wire_def
    by (intro exI [of _ 0] exI [of _ ?b]) (simp add: body_holds_def length_header_serialize)
qed

lemma sample_wires:
  "wire_holds ref_pb ref_zlib (ref_wire sample_read) sample_read"
  "wire_holds ref_pb ref_zlib (ref_wire sample_empty) sample_empty"
proof -
  have 18: "payload_wire_size sample_payload = 18"
    by (simp add: sample_payload_def payload_wire_size_def varint_size_steps)
  show "wire_holds ref_pb ref_zlib (ref_wire sample_read) sample_read"
    using varint_size_u32 [of "payload_crc sample_payload"]
    by (intro ref_wire_holds)
      (simp add: nmsg_wire_size_def sample_read_def 18 opt_size_def varint_size_steps)
  show "wire_holds ref_pb ref_zlib (ref_wire sample_empty) sample_empty"
    by (intro ref_wire_holds) (simp add: nmsg_wire_size_def sample_empty_def opt_size_def)
qed

text \<open>A file of two containers behind a freshly opened input; short reads and interruptions.\<close>

definition sample_fd :: "byte list \<Rightarrow> recv_answer list \<Rightarrow> descriptor" where
  "sample_fd bs rs = \<lparr>fd_rest = bs, fd_reads = [], fd_polls = [P_ready, P_timeout], fd_recvs = rs,
     fd_clock = (\<lambda>_. \<lparr>tv_sec = 100, tv_nsec = 0\<rparr>), fd_ticks = 0\<rparr>"

lemma sample_file:
  assumes "list_all2 (wire_holds ref_pb ref_zlib) ds ns"
  shows "\<exists>inp. input_open_stream (\<lambda>_. True) Stream_file (sample_fd (concat ds) []) = Ret (Some inp) \<and>
    file_offers ref_pb ref_zlib (\<lambda>_. True) inp (map Some ns) \<and> \<not> i_stop inp \<and> si_nmsg (i_stream inp) = None"
proof -
  from input_open_ok [of "\<lambda>_. True" Stream_file "sample_fd (concat ds) []"] obtain inp where inp:
    "input_open_stream (\<lambda>_. True) Stream_file (sample_fd (concat ds) []) = Ret (Some inp)"
    "i_fd inp = sample_fd (concat ds) []" "\<not> i_stop inp" "si_type (i_stream inp) = Stream_file"
    "si_zb (i_stream inp) = []" "si_nmsg (i_stream inp) = None" "si_flags (i_stream inp) = 0"
    "length (b_data (si_buf (i_stream inp))) = NMSG_RBUFSZ" "b_bufsz (si_buf (i_stream inp)) = NMSG_WBUFSZ_MAX"
    "b_pos (si_buf (i_stream inp)) = 0" "b_end (si_buf (i_stream inp)) = 0" by blast
  moreover have "file_offers ref_pb ref_zlib (\<lambda>_. True) inp (map Some ns)"
    by (rule file_offers_open) (use inp file_holds_wire [OF assms] in \<open>simp_all add: sample_fd_def\<close>)
  ultimately show ?thesis by blast
qed

lemma sample_sock:
  "\<exists>inp. input_open_stream (\<lambda>_. True) Stream_sock (sample_fd [] rs) = Ret (Some inp) \<and>
    i_fd inp = sample_fd [] rs \<and> sock_ok (i_stream inp, i_fd inp) \<and> \<not> i_stop inp \<and>
    si_nmsg (i_stream inp) = None \<and> si_nft (i_stream inp) = RBT.empty \<and> si_blocking_io (i_stream inp) \<and>
    si_source (i_stream inp) = 0 \<and> si_operator (i_stream inp) = 0 \<and> si_group (i_stream inp) = 0 \<and>
    \<not> i_do_filter inp"
  using input_open_ok [of "\<lambda>_. True" Stream_sock "sample_fd [] rs"] by (force simp: sock_ok_def)

abbreviation collect :: "nmsg_message option list callback" where
  "collect u m \<equiv> (u @ [m], False)"

lemma sample_file_both:
  "\<exists>inp. file_offers ref_pb ref_zlib (\<lambda>_. True) inp (map Some [sample_read, sample_read]) \<and>
    \<not> i_stop inp \<and> si_nmsg (i_stream inp) = None"
  using sample_file [of "[ref_wire sample_read, ref_wire sample_read]" "[sample_read, sample_read]"]
    sample_wires by auto

theorem input_file_loop_delivers_witness:
  "\<exists>inp inp'. file_offers ref_pb ref_zlib (\<lambda>_. True) inp (map Some [sample_read, sample_read]) \<and>
    input_nmsg_loop (stream_read_fp ref_pb ref_zlib (\<lambda>_. True) (\<lambda>_. 0) Stream_file) (\<lambda>_ _. None) (\<lambda>_. True)
      collect (-1) 3 0 ([], inp) = Some (Ret (nmsg_res_eof,
        fst (deliver (\<lambda>_ _. None) collect (concat (map (passing inp) [sample_read, sample_read])) []), inp'))"
proof -
  from sample_file_both obtain inp where inp:
    "file_offers ref_pb ref_zlib (\<lambda>_. True) inp (map Some [sample_read, sample_read])" "\<not> i_stop inp" by blast
  from input_file_loop_delivers [OF inp, of "\<lambda>_. True" "-1" collect "\<lambda>_. 0" "\<lambda>_ _. None" "[]"]
  obtain inp' where "\<forall>fuel > length [sample_read, sample_read].
    input_nmsg_loop (stream_read_fp ref_pb ref_zlib (\<lambda>_. True) (\<lambda>_. 0) Stream_file) (\<lambda>_ _. None) (\<lambda>_. True)
      collect (-1) fuel 0 ([], inp) = Some (Ret (nmsg_res_eof,
        fst (deliver (\<lambda>_ _. None) collect (concat (map (passing inp) [sample_read, sample_read])) []), inp'))"
    by auto
  then have "input_nmsg_loop (stream_read_fp ref_pb ref_zlib (\<lambda>_. True) (\<lambda>_. 0) Stream_file) (\<lambda>_ _. None) (\<lambda>_. True)
      collect (-1) 3 0 ([], inp) = Some (Ret (nmsg_res_eof,
        fst (deliver (\<lambda>_ _. None) collect (concat (map (passing inp) [sample_read, sample_read])) []), inp'))"
    by (elim allE [of _ 3]) simp
  with inp(1) show ?thesis by blast
qed

theorem input_file_reads_deliver_witness:
  "\<exists>inp inp'. file_offers ref_pb ref_zlib (\<lambda>_. True) inp (map Some [sample_read, sample_read]) \<and>
    input_reads (stream_read_fp ref_pb ref_zlib (\<lambda>_. True) (\<lambda>_. 0) Stream_file) (\<lambda>_ _. None) 5 inp =
      Some (Ret (map (nmsg_message_from_payload (\<lambda>_ _. None) True)
        (concat (map (passing inp) [sample_read, sample_read])), nmsg_res_eof, inp'))"
proof -
  from sample_file_both obtain inp where inp:
    "file_offers ref_pb ref_zlib (\<lambda>_. True) inp (map Some [sample_read, sample_read])"
    "si_nmsg (i_stream inp) = None" by blast
  from input_file_reads_deliver [OF inp, of "\<lambda>_. 0" "\<lambda>_ _. None"]
  obtain inp' where "\<forall>fuel > (\<Sum>n\<leftarrow>[sample_read, sample_read]. length (payloads n)).
    input_reads (stream_read_fp ref_pb ref_zlib (\<lambda>_. True) (\<lambda>_. 0) Stream_file) (\<lambda>_ _. None) fuel inp =
      Some (Ret (map (nmsg_message_from_payload (\<lambda>_ _. None) True)
        (concat (map (passing inp) [sample_read, sample_read])), nmsg_res_eof, inp'))"
    by (auto simp: sample_read_def)
  moreover have "(\<Sum>n\<leftarrow>[sample_read, sample_read]. length (payloads n)) < 5" by (simp add: sample_read_def)
  ultimately show ?thesis using inp(1) by blast
qed

theorem input_read_empty_container_witness:
  "\<exists>inp. input_open_stream (\<lambda>_. True) Stream_file (sample_fd (ref_wire sample_empty) []) = Ret (Some inp) \<and>
    input_nmsg_read (stream_read_fp ref_pb ref_zlib (\<lambda>_. True) (\<lambda>_. 0) Stream_file) (\<lambda>_ _. None) True inp = Fault"
proof -
  from sample_file [of "[ref_wire sample_empty]" "[sample_empty]"] sample_wires obtain inp where
    "input_open_stream (\<lambda>_. True) Stream_file (sample_fd (ref_wire sample_empty) []) = Ret (Some inp)"
    "file_offers ref_pb ref_zlib (\<lambda>_. True) inp [Some sample_empty]" "si_nmsg (i_stream inp) = None" by auto
  with input_read_empty_container [of ref_pb ref_zlib "\<lambda>_. True" inp sample_empty "[]" "\<lambda>_. 0" "\<lambda>_ _. None" True]
  show ?thesis by (auto simp: sample_empty_def)
qed

theorem input_filter_rejects_corruption_witness:
  "input_nmsg_filter (\<lparr>i_stream = sample_stream\<lparr>si_nmsg := Some (sample_read)\<rparr>, i_fd = sample_fd [] [],
      i_do_filter = False, i_filter_vid = 0, i_filter_msgtype = 0, i_stop = False\<rparr>)
     1 (sample_payload\<lparr>payload := Some [1, 255, 3]\<rparr>) = Ret False"
  by (rule input_filter_rejects_corruption [where sent = sample_payload and n = sample_read and xs = "[1]"
        and e = "[2]" and e' = "[255]" and ys = "[3]"])
    (simp_all add: sample_read_def sample_payload_def)

definition nth_message :: "nat \<Rightarrow> nmsg_message option" where
  "nth_message i = (if i = 1 then None else Some sample_payload_message)"

theorem input_read_loop_overreads_witness:
  "input_read_loop (\<lambda>s :: nat. Ret (nmsg_res_success, nth_message s, s + 1)) collect 2 5 0 False [] 0 =
    Some (Ret (nmsg_res_success, [Some sample_payload_message, None], 3))"
  using input_read_loop_overreads [of 2 "\<lambda>s :: nat. Ret (nmsg_res_success, nth_message s, s + 1)" id nth_message
      collect 5 "[]"]
  by (simp add: upt_rec nth_message_def del: input_read_loop.simps)

theorem input_zlib_error_is_final_witness:
  "unpack_all ref_pb ref_zlib (\<lambda>_. True) (\<lambda>_. 0) (sample_stream\<lparr>si_zb := [([1], 5)]\<rparr>)
     [(NMSG_FLAG_ZLIB, store_net32 3 @ [0x78, 1, 2], 7)] = Ret [nmsg_res_failure] \<and>
   nmsg_res_success \<notin> set [nmsg_res_failure]"
proof -
  have "unpack_all ref_pb ref_zlib (\<lambda>_. True) (\<lambda>_. 0) (sample_stream\<lparr>si_zb := [([1], 5)]\<rparr>)
     [(NMSG_FLAG_ZLIB, store_net32 3 @ [0x78, 1, 2], 7)] = Ret [nmsg_res_failure]"
    by code_simp
  with input_zlib_error_is_final [OF ref_zlib_sticky, of "sample_stream\<lparr>si_zb := [([1], 5)]\<rparr>"]
  show ?thesis by simp
qed

lemma sample_passing:
  assumes "\<not> i_do_filter inp" and "si_source (i_stream inp) = 0" and "si_operator (i_stream inp) = 0"
    and "si_group (i_stream inp) = 0"
  shows "passing inp sample_read = [sample_payload, sample_payload]"
  using assms by (simp add: passing_def sample_read_def accepts_def crc_matches_def payload_crc_def Let_def)

lemma sample_sock_both:
  "\<exists>inp. sock_offers ref_pb ref_zlib (\<lambda>_. True) inp ([Some sample_read, None] @ Some sample_read # []) \<and>
    \<not> i_stop inp \<and> passing inp sample_read = [sample_payload, sample_payload]"
proof -
  let ?a = "AF_INET @ [0, 53, 127, 0, 0, 1]" and ?d = "ref_wire sample_read"
  from sample_sock [of "[Recv_dgram ?a ?d, Recv_dgram ?a ?d]"] obtain inp :: nmsg_input where inp:
    "i_fd inp = sample_fd [] [Recv_dgram ?a ?d, Recv_dgram ?a ?d]" "sock_ok (i_stream inp, i_fd inp)"
    "\<not> i_stop inp" "si_blocking_io (i_stream inp)" "si_source (i_stream inp) = 0"
    "si_operator (i_stream inp) = 0" "si_group (i_stream inp) = 0" "\<not> i_do_filter inp" by blast
  have "sock_delivers ref_pb ref_zlib True [] [Recv_dgram ?a ?d] [Some sample_read]"
    by (rule sock_delivers.datagram [where ps' = "[]"])
      (simp_all add: poll_ready_def sample_wires sock_delivers.finished)
  then have "sock_delivers ref_pb ref_zlib True [P_ready, P_timeout] [Recv_dgram ?a ?d, Recv_dgram ?a ?d]
      [Some sample_read, None, Some sample_read]"
    by (intro sock_delivers.datagram [where ps' = "[P_timeout]"])
      (simp_all add: poll_ready_def sample_wires sock_delivers.timeout)
  then have "sock_offers ref_pb ref_zlib (\<lambda>_. True) inp ([Some sample_read, None] @ Some sample_read # [])"
    using inp by (simp add: sock_offers_def sample_fd_def)
  with inp sample_passing show ?thesis by blast
qed

theorem input_sock_loop_counted_witness:
  "\<exists>inp inp'. sock_offers ref_pb ref_zlib (\<lambda>_. True) inp ([Some sample_read, None] @ Some sample_read # []) \<and>
    input_nmsg_loop (stream_read_fp ref_pb ref_zlib (\<lambda>_. True) (\<lambda>_. 0) Stream_sock) (\<lambda>_ _. None) (\<lambda>_. True)
      collect 3 3 0 ([], inp) = Some (Ret (nmsg_res_success,
        replicate 3 (nmsg_message_from_payload (\<lambda>_ _. None) True sample_payload), inp'))"
proof -
  from sample_sock_both obtain inp where inp:
    "sock_offers ref_pb ref_zlib (\<lambda>_. True) inp ([Some sample_read, None] @ Some sample_read # [])" "\<not> i_stop inp"
    "passing inp sample_read = [sample_payload, sample_payload]" by blast
  have c: "int (length (passing_all inp [Some sample_read, None])) < 3"
    "3 \<le> int (length (passing_all inp ([Some sample_read, None] @ [Some sample_read])))"
    using inp(3) by simp_all
  from input_sock_loop_counted [OF inp(1,2) _ c, of "\<lambda>_. True" collect "\<lambda>_. 0" "\<lambda>_ _. None" "[]"]
  obtain inp' where "\<forall>fuel > length [Some sample_read, None].
    input_nmsg_loop (stream_read_fp ref_pb ref_zlib (\<lambda>_. True) (\<lambda>_. 0) Stream_sock) (\<lambda>_ _. None) (\<lambda>_. True)
      collect 3 fuel 0 ([], inp) = Some (Ret (nmsg_res_success, fst (deliver (\<lambda>_ _. None) collect
        (take (nat 3) (passing_all inp ([Some sample_read, None] @ [Some sample_read]))) []), inp'))"
    by auto
  moreover have "length [Some sample_read, None] < 3" by simp
  moreover have "fst (deliver (\<lambda>_ _. None) collect
        (take (nat 3) (passing_all inp ([Some sample_read, None] @ [Some sample_read]))) []) =
      replicate 3 (nmsg_message_from_payload (\<lambda>_ _. None) True sample_payload)"
    using inp(3) by (simp add: eval_nat_numeral)
  ultimately show ?thesis using inp(1) by metis
qed

abbreviation collect_three :: "nmsg_message option list callback" where
  "collect_three u m \<equiv> (u @ [m], length u = 2)"

theorem input_breakloop_finishes_container_witness:
  "\<exists>inp inp'. sock_offers ref_pb ref_zlib (\<lambda>_. True) inp ([Some sample_read, None] @ Some sample_read # []) \<and>
    input_nmsg_loop (stream_read_fp ref_pb ref_zlib (\<lambda>_. True) (\<lambda>_. 0) Stream_sock) (\<lambda>_ _. None) (\<lambda>_. True)
      collect_three (-1) 4 0 ([], inp) = Some (Ret (nmsg_res_success,
        replicate 4 (nmsg_message_from_payload (\<lambda>_ _. None) True sample_payload), inp'))"
proof -
  let ?m = "nmsg_message_from_payload (\<lambda>_ _. None) True sample_payload"
  from sample_sock_both obtain inp where inp:
    "sock_offers ref_pb ref_zlib (\<lambda>_. True) inp ([Some sample_read, None] @ Some sample_read # [])" "\<not> i_stop inp"
    "passing inp sample_read = [sample_payload, sample_payload]" by blast
  have d: "deliver (\<lambda>_ _. None) collect_three (passing_all inp [Some sample_read, None]) [] = ([?m, ?m], False)"
    "deliver (\<lambda>_ _. None) collect_three (passing inp sample_read) [?m, ?m] = ([?m, ?m, ?m, ?m], True)"
    using inp(3) by simp_all
  from input_breakloop_finishes_container [OF inp(1,2) _ _ d, of "\<lambda>_. True" "-1" "\<lambda>_. 0"]
  obtain inp' where "\<forall>fuel > length [Some sample_read, None] + 1.
    input_nmsg_loop (stream_read_fp ref_pb ref_zlib (\<lambda>_. True) (\<lambda>_. 0) Stream_sock) (\<lambda>_ _. None) (\<lambda>_. True)
      collect_three (-1) fuel 0 ([], inp) = Some (Ret (nmsg_res_success, [?m, ?m, ?m, ?m], inp'))"
    by auto
  then have "input_nmsg_loop (stream_read_fp ref_pb ref_zlib (\<lambda>_. True) (\<lambda>_. 0) Stream_sock) (\<lambda>_ _. None) (\<lambda>_. True)
      collect_three (-1) 4 0 ([], inp) = Some (Ret (nmsg_res_success, [?m, ?m, ?m, ?m], inp'))"
    by (elim allE [of _ 4]) simp
  moreover have "[?m, ?m, ?m, ?m] = replicate 4 ?m" by (simp add: eval_nat_numeral)
  ultimately show ?thesis using inp(1) by auto
qed

theorem input_sock_malformed_witness:
  "\<exists>(inp :: nmsg_input) s'. i_fd inp = sample_fd [] [Recv_dgram [] [78, 77, 83]] \<and>
    read_container_sock ref_pb ref_zlib (\<lambda>_. True) (\<lambda>_. 0) (i_stream inp, i_fd inp) = Ret (nmsg_res_failure, s')"
proof -
  from sample_sock [of "[Recv_dgram [] [78, 77, 83]]"] obtain inp :: nmsg_input where inp:
    "i_fd inp = sample_fd [] [Recv_dgram [] [78, 77, 83]]" "sock_ok (i_stream inp, i_fd inp)"
    "si_blocking_io (i_stream inp)" by blast
  then have "next_datagram (i_stream inp, i_fd inp) [] [78, 77, 83] [P_timeout] []"
    by (simp add: next_datagram_def sample_fd_def)
  from input_sock_malformed [OF inp(2) this, of nmsg_res_failure ref_pb ref_zlib "\<lambda>_. True" "\<lambda>_. 0"]
  have "\<exists>s'. read_container_sock ref_pb ref_zlib (\<lambda>_. True) (\<lambda>_. 0) (i_stream inp, i_fd inp) = Ret (nmsg_res_failure, s')"
    by (auto simp: sock_verdict_def)
  with inp(1) show ?thesis by blast
qed

theorem input_file_assertions_witness:
  "\<exists>inp :: nmsg_input. i_fd inp = sample_fd (NMSG_MAGIC @ [0, 2, 0, 0]) [] \<and>
    read_container_file ref_pb ref_zlib (\<lambda>_. True) (\<lambda>_. 0) (i_stream inp, i_fd inp) = Abort"
proof -
  let ?fd = "sample_fd (NMSG_MAGIC @ [0, 2, 0, 0]) []"
  from input_open_ok [of "\<lambda>_. True" Stream_file ?fd] obtain inp :: nmsg_input where inp:
    "i_fd inp = ?fd" "si_type (i_stream inp) = Stream_file"
    "length (b_data (si_buf (i_stream inp))) = NMSG_RBUFSZ" "b_bufsz (si_buf (i_stream inp)) = NMSG_WBUFSZ_MAX"
    "b_pos (si_buf (i_stream inp)) = 0" "b_end (si_buf (i_stream inp)) = 0" by blast
  have "file_at (i_stream inp, i_fd inp) (NMSG_MAGIC @ [0, 2, 0, 0])" "between (i_stream inp, i_fd inp)"
    using inp by (simp_all add: file_at_def between_def fill_def unread_def sample_fd_def Let_def)
  moreover have "NMSG_MAGIC @ [0, 2, 0, 0] = NMSG_MAGIC @ store_net16 2 @ [0, 0]" "known_version 2 4"
    by (simp_all add: known_version_def) code_simp
  ultimately have "read_container_file ref_pb ref_zlib (\<lambda>_. True) (\<lambda>_. 0) (i_stream inp, i_fd inp) = Abort"
    by (intro input_file_assertions disjI1 exI [of _ 2] exI [of _ 4] exI [of _ "[0, 0]"] conjI) simp_all
  with inp(1) show ?thesis by blast
qed

definition stray_piece :: nmsg_fragment where
  "stray_piece = \<lparr>frag_id = 7, current = 0, last_frag = 0, fragment = Some [255], frag_crc = None\<rparr>"

theorem input_loop_bad_fragment_witness:
  "\<exists>inp body. body = nmsg__nmsg_fragment__pack ref_pb stray_piece \<and>
    i_fd inp = sample_fd [] [Recv_dgram [] (header_serialize NMSG_FLAG_FRAGMENT (of_nat (length body)) @ body)] \<and>
    input_nmsg_loop (stream_read_fp ref_pb ref_zlib (\<lambda>_. True) (\<lambda>_. 0) Stream_sock) (\<lambda>_ _. None) (\<lambda>_. True)
      collect (-1) (Suc 0) 0 ([], inp) = Some Fault"
proof -
  let ?b = "nmsg__nmsg_fragment__pack ref_pb stray_piece"
  let ?d = "header_serialize NMSG_FLAG_FRAGMENT (of_nat (length ?b)) @ ?b"
  from sample_sock [of "[Recv_dgram [] ?d]"] obtain inp :: nmsg_input where inp:
    "i_fd inp = sample_fd [] [Recv_dgram [] ?d]" "sock_ok (i_stream inp, i_fd inp)"
    "si_blocking_io (i_stream inp)" "si_nft (i_stream inp) = RBT.empty" "\<not> i_stop inp"
    "si_nmsg (i_stream inp) = None" by blast
  have n: "next_datagram (i_stream inp, i_fd inp) [] ?d [P_timeout] []"
    using inp by (simp add: next_datagram_def sample_fd_def)
  have "fragment_wire_size stray_piece \<le> 100"
    by (simp add: fragment_wire_size_def stray_piece_def opt_size_def varint_size_steps)
  then have l: "length ?d \<le> NMSG_WBUFSZ_MAX"
    using ref_pb_sizes by (simp add: pb_sizes_def length_header_serialize)
  have "nmsg__nmsg_fragment__unpack ref_pb ?b = Some stray_piece"
    using ref_pb_roundtrip by (simp add: pb_roundtrip_def stray_piece_def)
  moreover have "nmsg__nmsg__unpack ref_pb [255] = None" by (simp add: ref_pb_def ref_nmsg_unpack_def)
  ultimately have b: "bad_fragment ref_pb ((i_stream inp)\<lparr>si_addr_ss := []\<rparr>) ?b"
    using inp(4) by (simp add: bad_fragment_def stray_piece_def)
  from input_loop_bad_fragment [OF inp(2) n _ l b _ inp(5,6), of "\<lambda>_. True" ref_zlib "\<lambda>_. 0" "\<lambda>_ _. None"
      "\<lambda>_. True" collect "-1" 0 0 "[]"] inp(1)
  show ?thesis by blast
qed

end
