(* ===== verification/Transport.thy ===== *)
theory Transport
  imports Output_Frag Input_Props
begin

text \<open>
  Writers and readers together: what an output stream puts into a file, into datagrams or into
  fragments is what an input delivers from there.
\<close>

section \<open>What is written is a container\<close>

definition wire_flags :: "bool \<Rightarrow> byte" where
  "wire_flags do_zlib = (if do_zlib then NMSG_FLAG_ZLIB else 0)"

lemma body_holds_container:
  assumes cod: "codecs_ok pb z" and wf: "container_wf pb c" and ne: "c_payloads c \<noteq> []"
    and sz: "c_estsz c < 2 ^ 31"
  shows "body_holds pb z (wire_flags dz) (container_body pb z c dz s i) (container_image c s i)"
proof -
  have pb: "pb_sizes pb" "pb_roundtrip pb" "zlib_bound z" "zlib_roundtrip z"
    using cod by (simp_all add: codecs_ok_def)
  have n: "length (nmsg__nmsg__pack pb (container_image c s i)) < 2 ^ 32"
    using container_body_safe(1) [OF wf pb(1,3) ne, of s i] sz by simp
  have u: "nmsg__nmsg__unpack pb (nmsg__nmsg__pack pb (container_image c s i)) = Some (container_image c s i)"
    using pb(2) by (simp add: pb_roundtrip_def)
  show ?thesis
    using u nmsg_zbuf_inflate_deflate [OF pb(4) n refl]
    by (auto simp: body_holds_def wire_flags_def container_body_def Let_def
        intro!: exI [of _ "nmsg__nmsg__pack pb (container_image c s i)"])
qed

definition wire_room :: "bool \<Rightarrow> nat \<Rightarrow> bool" where
  "wire_room do_zlib bufsz \<longleftrightarrow> (if do_zlib then 2 * bufsz else bufsz) \<le> NMSG_WBUFSZ_MAX"

lemma written_holds:
  assumes "written pb z dz b d" and "codecs_ok pb z" and "wire_room dz b"
  shows "\<exists>n. wire_holds pb z d n \<and> payload_crcs n = map payload_crc (payloads n) \<and>
    payloads n = decode_container pb z d \<and> payloads n \<noteq> [] \<and> length (payloads n) \<le> 2 ^ 32"
proof -
  from assms(1) obtain c s i where c: "container_wf pb c" "c_payloads c \<noteq> []" "c_estsz c \<le> b"
    "d = wire_image pb z dz c s i" by (auto simp: written_def)
  let ?n = "container_image c s i" and ?b = "container_body pb z c dz s i"
  have pb: "pb_sizes pb" "zlib_bound z" using assms(2) by (simp_all add: codecs_ok_def)
  have "b \<le> 2 ^ 20" using assms(3) by (cases dz) (simp_all add: wire_room_def)
  then have sz: "c_estsz c < 2 ^ 31" using c(3) by simp
  from container_roundtrip_decode [OF c(1,2) sz assms(2), of "\<lambda>_. True" dz s i]
  have dec: "decode_container pb z d = map the (c_payloads c)" using c(4) by auto
  have safe: "length (nmsg__nmsg__pack pb ?n) + 10 \<le> c_estsz c"
    "length (container_body pb z c True s i) + 10 \<le> 2 * c_estsz c"
    using container_body_safe [OF c(1) pb c(2)] by blast+
  have len: "length d \<le> NMSG_WBUFSZ_MAX"
    using safe c(3,4) assms(3)
    by (cases dz) (simp_all add: wire_image_def Let_def wire_room_def container_body_def)
  have "wire_holds pb z d ?n"
    unfolding wire_holds_def
    by (intro exI [of _ "wire_flags dz"] exI [of _ ?b])
      (use len c(4) body_holds_container [OF assms(2) c(1,2) sz] in \<open>simp add: wire_image_def wire_flags_def Let_def\<close>)
  moreover have "length (c_payloads c) \<le> 2 ^ 32"
  proof -
    have "length ps \<le> (\<Sum>p\<leftarrow>ps. 1 + varint_size (payload_wire_size p) + payload_wire_size p)" for ps
      by (induction ps) auto
    from this [of "map the (c_payloads c)"]
    have "length (map the (c_payloads c)) \<le>
        (\<Sum>p\<leftarrow>map the (c_payloads c). 1 + varint_size (payload_wire_size p) + payload_wire_size p)" .
    also have "\<dots> \<le> nmsg_wire_size ?n" by (simp add: nmsg_wire_size_def container_image_def)
    also have "\<dots> < 2 ^ 31" using safe(1) sz pb(1) by (simp add: pb_sizes_def)
    finally show ?thesis by simp
  qed
  ultimately show ?thesis
    using c(2) dec by (intro exI [of _ ?n]) (simp add: container_image_def)
qed

lemma all_written_hold:
  assumes "\<forall>d \<in> set ds. written pb z dz b d" and "codecs_ok pb z" and "wire_room dz b"
  shows "\<exists>ns. list_all2 (wire_holds pb z) ds ns \<and> map payloads ns = map (decode_container pb z) ds \<and>
    (\<forall>n \<in> set ns. payload_crcs n = map payload_crc (payloads n) \<and> payloads n \<noteq> [] \<and>
       length (payloads n) \<le> 2 ^ 32)"
  using assms(1)
proof (induction ds)
  case (Cons d ds)
  from Cons obtain ns where "list_all2 (wire_holds pb z) ds ns" "map payloads ns = map (decode_container pb z) ds"
    "\<forall>n \<in> set ns. payload_crcs n = map payload_crc (payloads n) \<and> payloads n \<noteq> [] \<and>
       length (payloads n) \<le> 2 ^ 32" by auto
  moreover from written_holds [OF _ assms(2,3), of d] Cons.prems obtain n where "wire_holds pb z d n"
    "payload_crcs n = map payload_crc (payloads n)" "payloads n = decode_container pb z d" "payloads n \<noteq> []"
    "length (payloads n) \<le> 2 ^ 32"
    by auto
  ultimately show ?case by (intro exI [of _ "n # ns"]) simp
qed simp

text \<open>The filter of an input on a container whose checksums are right.\<close>

definition wants :: "nmsg_input \<Rightarrow> nmsg_payload \<Rightarrow> bool" where
  "wants inp p \<longleftrightarrow> accepts inp \<lparr>payloads = [], payload_crcs = [], sequence = None, sequence_id = None\<rparr> 0 p"

lemma passing_wants:
  assumes "payload_crcs n = map payload_crc (payloads n)"
  shows "passing inp n = filter (wants inp) (payloads n)"
proof -
  have acc: "accepts inp n i p = wants inp p" if "i < length (payloads n)" "p = payloads n ! i" for i p
    using that assms
    by (simp add: wants_def accepts_def crc_matches_def payload_crc_def)
  have "passing_from inp n i ps = filter (wants inp) ps" if "drop i (payloads n) = ps" for i ps
    using that
  proof (induction ps arbitrary: i)
    case (Cons p ps)
    then have "i < length (payloads n)" "p = payloads n ! i" "drop (i + 1) (payloads n) = ps"
      by (auto simp: drop_Suc [symmetric] nth_via_drop)
        (metis drop_all list.distinct(1) not_le_imp_less, metis drop_Suc drop_tl list.sel(3))
    with acc Cons.IH [of "i + 1"] show ?case by simp
  qed simp
  from this [of 0] show ?thesis by (simp add: passing_def)
qed

lemma concat_passing_wants:
  assumes "map payloads ns = map (decode_container pb z) ds"
    and "\<forall>n \<in> set ns. payload_crcs n = map payload_crc (payloads n)"
  shows "concat (map (passing inp) ns) = filter (wants inp) (concat (map (decode_container pb z) ds))"
proof -
  have "map (passing inp) ns = map (filter (wants inp)) (map payloads ns)"
    using assms(2) passing_wants by simp
  then show ?thesis unfolding assms(1) by (simp add: filter_concat)
qed

section \<open>Through a file\<close>

text \<open>The session of a writer: it opens a stream, writes messages and closes it.\<close>

lemma session_written:
  assumes "o_kind out = Kind_stream st" and "out_wf pb z st" and "codecs_ok pb z" and "\<forall>i. ok i"
    and "so_wr st = []" and "so_out st = []" and "held_payloads st = []"
    and "list_all2 ready ms ps" and "\<forall>p \<in> set ps. fits pb st p"
    and "wire_room (so_do_zlib st) (so_bufsz st)"
  shows "\<exists>out1 out2 st2 ns. nmsg_output_writes pb z pres ok ts rnd out ms = Ret (nmsg_res_success, out1) \<and>
    nmsg_output_close pb z ok out1 = Ret (nmsg_res_success, out2) \<and> o_kind out2 = Kind_stream st2 \<and>
    list_all2 (wire_holds pb z) (so_out st2) ns \<and>
    (\<forall>n \<in> set ns. payload_crcs n = map payload_crc (payloads n) \<and> payloads n \<noteq> [] \<and>
       length (payloads n) \<le> 2 ^ 32) \<and>
    (\<forall>inp. concat (map (passing inp) ns) =
       filter (wants inp) (map (output_override st) (filter (passes out) ps)))"
proof -
  from output_session_ok [OF assms(1-5,8,9), of pres ts rnd] obtain out1 out2 st2 where s:
    "nmsg_output_writes pb z pres ok ts rnd out ms = Ret (nmsg_res_success, out1)"
    "nmsg_output_close pb z ok out1 = Ret (nmsg_res_success, out2)" "o_kind out2 = Kind_stream st2"
    "out_wf pb z st2" "same_settings st st2"
    "sent_payloads pb z st2 = map (output_override st) (filter (passes out) ps)"
    using assms(6,7) by (auto simp: sent_payloads_def)
  have "\<forall>d \<in> set (so_out st2). written pb z (so_do_zlib st) (so_bufsz st) d"
    using s(4,5) by (simp add: out_wf_def same_settings_def)
  from all_written_hold [OF this assms(3,10)] obtain ns where ns: "list_all2 (wire_holds pb z) (so_out st2) ns"
    "map payloads ns = map (decode_container pb z) (so_out st2)"
    "\<forall>n \<in> set ns. payload_crcs n = map payload_crc (payloads n) \<and> payloads n \<noteq> [] \<and>
       length (payloads n) \<le> 2 ^ 32" by blast
  have "concat (map (passing inp) ns) = filter (wants inp) (map (output_override st) (filter (passes out) ps))"
    for inp
    using concat_passing_wants [OF ns(2)] ns(3) s(6) by (simp add: sent_payloads_def)
  with s ns show ?thesis by blast
qed

text \<open>
  C1. A file written by one program and read by another: the messages that pass the filter of
  the writer and then that of the reader reach the callback, with the settings of the stream, in
  order and each once, and the loop, which has no count and is not stopped by the callback, ends
  with end of file. Three conditions are needed. Every message fits one container of the stream,
  so that nothing is fragmented. A container fits the buffer of the reader: the buffer size of the
  stream is at most 1 MiB, and at most 512 KiB when it compresses (nmsgtool opens its files with
  1 MiB, so its compressed files are not covered). And \<^verbatim>\<open>read(2)\<close> does not fail; how many octets it
  answers each time, compression within these sizes and buffering make no difference.
\<close>

theorem file_transport:
  assumes "o_kind out = Kind_stream st" and "out_wf pb z st" and "codecs_ok pb z" and "\<forall>i. ok i"
    and "so_wr st = []" and "so_out st = []" and "held_payloads st = []"
    and "list_all2 ready ms ps" and "\<forall>p \<in> set ps. fits pb st p"
    and "wire_room (so_do_zlib st) (so_bufsz st)"
    and "\<forall>u m. \<not> snd (cb u m)" and "cnt < 0"
  shows "\<exists>out1 out2 st2. nmsg_output_writes pb z pres ok ts rnd out ms = Ret (nmsg_res_success, out1) \<and>
    nmsg_output_close pb z ok out1 = Ret (nmsg_res_success, out2) \<and> o_kind out2 = Kind_stream st2 \<and>
    (\<forall>inp. file_at (i_stream inp, i_fd inp) (concat (so_out st2)) \<and> between (i_stream inp, i_fd inp) \<and>
       si_zb (i_stream inp) = [] \<and> \<not> i_stop inp \<longrightarrow>
       (\<exists>inp'. \<forall>fuel > length (so_out st2).
         input_nmsg_loop (stream_read_fp pb z ok junk Stream_file) lookup ok cb cnt fuel 0 (u, inp) =
           Some (Ret (nmsg_res_eof, fst (deliver lookup cb
             (filter (wants inp) (map (output_override st) (filter (passes out) ps))) u), inp'))))"
proof -
  from session_written [OF assms(1-10), of pres ts rnd] obtain out1 out2 st2 ns where s:
    "nmsg_output_writes pb z pres ok ts rnd out ms = Ret (nmsg_res_success, out1)"
    "nmsg_output_close pb z ok out1 = Ret (nmsg_res_success, out2)" "o_kind out2 = Kind_stream st2"
    "list_all2 (wire_holds pb z) (so_out st2) ns"
    "\<And>inp. concat (map (passing inp) ns) =
       filter (wants inp) (map (output_override st) (filter (passes out) ps))"
    by auto
  have "\<exists>inp'. \<forall>fuel > length (so_out st2).
         input_nmsg_loop (stream_read_fp pb z ok junk Stream_file) lookup ok cb cnt fuel 0 (u, inp) =
           Some (Ret (nmsg_res_eof, fst (deliver lookup cb
             (filter (wants inp) (map (output_override st) (filter (passes out) ps))) u), inp'))"
    if "file_at (i_stream inp, i_fd inp) (concat (so_out st2))" "between (i_stream inp, i_fd inp)"
      "si_zb (i_stream inp) = []" "\<not> i_stop inp" for inp
  proof -
    have "file_offers pb z ok inp (map Some ns)"
      using that file_holds_wire [OF s(4)] assms(4) by (auto simp: file_offers_def)
    from file_loop_ok [OF this that(4) assms(4,12,11), of junk lookup u] show ?thesis
      by (simp add: s(5) list_all2_lengthD [OF s(4)])
  qed
  with s(1-3) show ?thesis by blast
qed

section \<open>Through a socket\<close>

definition datagrams :: "recv_answer list \<Rightarrow> byte list list" where
  "datagrams rs = concat (map (\<lambda>r. case r of Recv_dgram a d \<Rightarrow> [d] | _ \<Rightarrow> []) rs)"

lemma datagrams_simps [simp]:
  "datagrams [] = []" "datagrams (Recv_again # rs) = datagrams rs" "datagrams (Recv_error # rs) = datagrams rs"
  "datagrams (Recv_dgram a d # rs) = d # datagrams rs"
  by (simp_all add: datagrams_def)

text \<open>A socket that hands over the datagrams in order, with timeouts and empty answers in between.\<close>

definition carries :: "poll_answer list \<Rightarrow> recv_answer list \<Rightarrow> byte list list \<Rightarrow> bool" where
  "carries ps rs ds \<longleftrightarrow> P_error \<notin> set ps \<and> Recv_error \<notin> set rs \<and> datagrams rs = ds"

lemma carries_delivers:
  assumes "carries ps rs ds" and "list_all2 (wire_holds pb z) ds ns" and "b \<or> ps = []"
  shows "\<exists>xs. sock_delivers pb z b ps rs xs \<and> concat (map (case_option [] (\<lambda>n. [n])) xs) = ns \<and>
    length xs \<le> length ps + length rs"
  using assms
proof (induction "length ps + length rs" arbitrary: ps rs ds ns rule: less_induct)
  case less
  show ?case
  proof (cases rs)
    case Nil
    with less.prems have "ns = []" by (auto simp: carries_def)
    with Nil show ?thesis by (intro exI [of _ "[]"]) (simp add: sock_delivers.finished)
  next
    case (Cons r rs')
    show ?thesis
    proof (cases "\<exists>ps'. ps = P_timeout # ps'")
      case True
      then obtain ps' where ps: "ps = P_timeout # ps'" by blast
      with less.prems have "carries ps' rs ds" "b" by (auto simp: carries_def)
      from less.hyps [OF _ this(1) less.prems(2)] this(2) ps obtain xs where
        "sock_delivers pb z b ps' rs xs" "concat (map (case_option [] (\<lambda>n. [n])) xs) = ns"
        "length xs \<le> length ps' + length rs" by auto
      with ps \<open>b\<close> show ?thesis
        by (intro exI [of _ "None # xs"]) (simp add: sock_delivers.timeout)
    next
      case False
      define ps' where "ps' = tl ps"
      have "ps = [] \<or> b \<and> (\<exists>t. ps = P_ready # t \<and> P_error \<notin> set t)"
        using False less.prems by (cases ps; cases "hd ps"; auto simp: carries_def)
      then have rdy: "poll_ready b ps ps'" "P_error \<notin> set ps'" "b \<or> ps' = []" "length ps' \<le> length ps"
        using less.prems(3) by (auto simp: ps'_def poll_ready_def)
      show ?thesis
      proof (cases r)
        case Recv_again
        with less.prems Cons rdy have c: "carries ps' rs' ds" by (auto simp: carries_def)
        from less.hyps [OF _ c less.prems(2) rdy(3)] rdy Cons obtain xs where
          "sock_delivers pb z b ps' rs' xs" "concat (map (case_option [] (\<lambda>n. [n])) xs) = ns"
          "length xs \<le> length ps' + length rs'" by auto
        with rdy Cons Recv_again show ?thesis
          by (intro exI [of _ "None # xs"]) (auto intro: sock_delivers.nothing simp: recv_nothing_def)
      next
        case (Recv_dgram a d)
        with less.prems Cons obtain ds' n ns' where d: "ds = d # ds'" "ns = n # ns'" "wire_holds pb z d n"
          "list_all2 (wire_holds pb z) ds' ns'" "carries ps' rs' ds'"
          using rdy by (auto simp: carries_def list_all2_Cons1)
        from less.hyps [OF _ d(5,4) rdy(3)] rdy Cons obtain xs where
          "sock_delivers pb z b ps' rs' xs" "concat (map (case_option [] (\<lambda>n. [n])) xs) = ns'"
          "length xs \<le> length ps' + length rs'" by auto
        with rdy Cons Recv_dgram d show ?thesis
          by (intro exI [of _ "Some n # xs"]) (auto intro: sock_delivers.datagram)
      qed (use less.prems Cons in \<open>auto simp: carries_def\<close>)
    qed
  qed
qed

lemma passing_all_split:
  "0 < k \<Longrightarrow> k \<le> length (passing_all inp zs) \<Longrightarrow>
     \<exists>xs n ys. zs = xs @ Some n # ys \<and> length (passing_all inp xs) < k \<and>
       k \<le> length (passing_all inp (xs @ [Some n]))"
proof (induction zs rule: rev_induct)
  case (snoc x zs)
  show ?case
  proof (cases "k \<le> length (passing_all inp zs)")
    case True
    with snoc obtain xs n ys where "zs = xs @ Some n # ys" "length (passing_all inp xs) < k"
      "k \<le> length (passing_all inp (xs @ [Some n]))" by blast
    then show ?thesis by (intro exI [of _ xs] exI [of _ n] exI [of _ "ys @ [x]"]) simp
  next
    case False
    then obtain n where "x = Some n" using snoc.prems by (cases x) auto
    with False snoc.prems show ?thesis by (intro exI [of _ zs] exI [of _ n] exI [of _ "[]"]) simp
  qed
qed simp

lemma passing_all_concat:
  "passing_all inp xs = concat (map (passing inp) (concat (map (case_option [] (\<lambda>n. [n])) xs)))"
  by (induction xs) (simp_all add: passing_all_def split: option.splits)

text \<open>
  C2. Datagrams written by one program and read by another, in order and without loss or
  errors of the socket but with any timeouts in between: a blocking loop that asks for no more messages
  than pass both filters delivers the first of them and returns success. Every message must fit
  one container, so that the stream writes no fragments (a larger one is the subject of
  \<open>frag_transport\<close>), and the buffer size is at most 1 MiB, 512 KiB when it compresses.
\<close>

theorem sock_transport:
  assumes "o_kind out = Kind_stream st" and "out_wf pb z st" and "codecs_ok pb z" and "\<forall>i. ok i"
    and "so_wr st = []" and "so_out st = []" and "held_payloads st = []"
    and "list_all2 ready ms ps" and "\<forall>p \<in> set ps. fits pb st p"
    and "wire_room (so_do_zlib st) (so_bufsz st)"
    and "\<forall>u m. \<not> snd (cb u m)" and "0 < cnt"
  shows "\<exists>out1 out2 st2. nmsg_output_writes pb z pres ok ts rnd out ms = Ret (nmsg_res_success, out1) \<and>
    nmsg_output_close pb z ok out1 = Ret (nmsg_res_success, out2) \<and> o_kind out2 = Kind_stream st2 \<and>
    (\<forall>inp. let ms = filter (wants inp) (map (output_override st) (filter (passes out) ps)) in
       sock_ok (i_stream inp, i_fd inp) \<and> si_blocking_io (i_stream inp) \<and> \<not> i_stop inp \<and>
       carries (fd_polls (i_fd inp)) (fd_recvs (i_fd inp)) (so_out st2) \<and> cnt \<le> int (length ms) \<longrightarrow>
       (\<exists>inp'. \<forall>fuel > length (fd_polls (i_fd inp)) + length (fd_recvs (i_fd inp)).
         input_nmsg_loop (stream_read_fp pb z ok junk Stream_sock) lookup ok cb cnt fuel 0 (u, inp) =
           Some (Ret (nmsg_res_success, fst (deliver lookup cb (take (nat cnt) ms) u), inp'))))"
proof -
  from session_written [OF assms(1-10), of pres ts rnd] obtain out1 out2 st2 ns where s:
    "nmsg_output_writes pb z pres ok ts rnd out ms = Ret (nmsg_res_success, out1)"
    "nmsg_output_close pb z ok out1 = Ret (nmsg_res_success, out2)" "o_kind out2 = Kind_stream st2"
    "list_all2 (wire_holds pb z) (so_out st2) ns"
    "\<And>inp. concat (map (passing inp) ns) =
       filter (wants inp) (map (output_override st) (filter (passes out) ps))"
    by auto
  have "\<exists>inp'. \<forall>fuel > length (fd_polls (i_fd inp)) + length (fd_recvs (i_fd inp)).
         input_nmsg_loop (stream_read_fp pb z ok junk Stream_sock) lookup ok cb cnt fuel 0 (u, inp) =
           Some (Ret (nmsg_res_success, fst (deliver lookup cb (take (nat cnt)
             (filter (wants inp) (map (output_override st) (filter (passes out) ps)))) u), inp'))"
    if i: "sock_ok (i_stream inp, i_fd inp)" "si_blocking_io (i_stream inp)" "\<not> i_stop inp"
      "carries (fd_polls (i_fd inp)) (fd_recvs (i_fd inp)) (so_out st2)"
      "cnt \<le> int (length (filter (wants inp) (map (output_override st) (filter (passes out) ps))))" for inp
  proof -
    from carries_delivers [OF i(4) s(4), of True] i(2) obtain zs where zs:
      "sock_delivers pb z (si_blocking_io (i_stream inp)) (fd_polls (i_fd inp)) (fd_recvs (i_fd inp)) zs"
      "concat (map (case_option [] (\<lambda>n. [n])) zs) = ns"
      "length zs \<le> length (fd_polls (i_fd inp)) + length (fd_recvs (i_fd inp))" by auto
    have pa: "passing_all inp zs = filter (wants inp) (map (output_override st) (filter (passes out) ps))"
      by (simp add: passing_all_concat zs(2) s(5))
    have "0 < nat cnt" "nat cnt \<le> length (passing_all inp zs)"
      using i(5) assms(12) pa by simp_all
    from passing_all_split [OF this] obtain xs n ys where sp: "zs = xs @ Some n # ys"
      "length (passing_all inp xs) < nat cnt" "nat cnt \<le> length (passing_all inp (xs @ [Some n]))" by blast
    have off: "sock_offers pb z ok inp (xs @ Some n # ys)"
      using zs(1) i(1) assms(4) sp(1) by (simp add: sock_offers_def)
    have c: "int (length (passing_all inp xs)) < cnt" "cnt \<le> int (length (passing_all inp (xs @ [Some n])))"
      using sp(2,3) by linarith+
    from sock_loop_ok [OF off i(3) assms(4) c assms(11), of junk lookup u] obtain inp' where inp':
      "\<And>fuel. fuel > length xs \<Longrightarrow>
        input_nmsg_loop (stream_read_fp pb z ok junk Stream_sock) lookup ok cb cnt fuel 0 (u, inp) =
        Some (Ret (nmsg_res_success,
          fst (deliver lookup cb (take (nat cnt) (passing_all inp (xs @ [Some n]))) u), inp'))"
      by blast
    have "take (nat cnt) (passing_all inp (xs @ [Some n])) = take (nat cnt) (passing_all inp zs)"
      using sp by simp
    with inp' pa sp(1) zs(3) show ?thesis by (intro exI [of _ inp']) simp
  qed
  with s(1-3) show ?thesis unfolding Let_def by blast
qed

section \<open>Through fragments\<close>

text \<open>What \<^verbatim>\<open>_input_frag_read\<close> gets to see of a datagram: what follows the header.\<close>

definition datagram_content :: "byte list \<Rightarrow> byte list" where
  "datagram_content d = drop NMSG_HDRLSZ_V2 d"

text \<open>The checksum in the fragments of a packed container.\<close>

definition frag_sum :: "byte list \<Rightarrow> u32" where
  "frag_sum packed = bswap32 (crc32c_spec packed)"

lemma datagram_content_datagram:
  assumes "last_frag (frag_fields rnd m packed) = of_nat (length cs - 1)"
  shows "datagram_content (frag_datagram pb flags (frag_fields rnd m packed) k (cs ! k)) =
    nmsg__nmsg_fragment__pack pb (sent_fragment rnd (frag_sum packed) cs k)"
  using assms by (simp add: datagram_content_def frag_datagram_def frag_packed_def frag_fields_def
      sent_fragment_def frag_sum_def)

lemma fragment_roundtrip:
  assumes "pb_roundtrip pb" and "cs ! n \<noteq> []"
  shows "nmsg__nmsg_fragment__unpack pb (nmsg__nmsg_fragment__pack pb (sent_fragment i c cs n)) =
    Some (sent_fragment i c cs n)"
  using assms by (simp add: pb_roundtrip_def sent_fragment_def)

lemma output_frag_write_cut:
  assumes wf: "overfull_wf pb st c" and cod: "codecs_ok pb z" and ok: "\<forall>i. ok i"
    and cut: "\<not> so_do_zlib st \<or> so_bufsz st - 32 < length (frag_body pb z st c)"
  defines "cs \<equiv> chunks (so_bufsz st - 32) (frag_body pb z st c)"
  shows "\<exists>st'. output_frag_write pb z ok rnd st = Ret (nmsg_res_success, st') \<and>
    so_out st' = so_out st @ map (\<lambda>k. frag_datagram pb (frag_flags st)
      (frag_fields rnd (so_bufsz st - 32) (frag_body pb z st c)) k (cs ! k)) [0..<length cs]"
proof -
  have pb: "pb_sizes pb" "zlib_bound z" using cod by (simp_all add: codecs_ok_def)
  have "\<not> (so_do_zlib st \<and> length (frag_body pb z st c) \<le> so_bufsz st - 32)" using cut by auto
  with output_frag_write_eq [OF wf pb ok, of rnd] show ?thesis
    by (auto simp: Let_def frag_datagrams_map cs_def)
qed

lemma frag_body_pieces:
  assumes wf: "overfull_wf pb st c" and cod: "codecs_ok pb z" and sz: "c_estsz c < 2 ^ 31"
    and fl: "flag_set (si_flags rin) NMSG_FLAG_ZLIB = so_do_zlib st" and zb: "si_zb rin = []"
    and cs: "concat cs = frag_body pb z st c"
  shows "pieces_of z rin cs (nmsg__nmsg__pack pb (container_image c (so_sequence st) (so_sequence_id st)))"
proof -
  have "length (nmsg__nmsg__pack pb (container_image c (so_sequence st) (so_sequence_id st))) + 10 \<le> c_estsz c"
    using wf cod by (intro container_body_safe(1)) (auto simp: overfull_wf_def codecs_ok_def)
  with sz fl zb cs show ?thesis
    by (simp add: pieces_of_def frag_body_def container_body_def Let_def)
qed

lemma frag_body_length:
  assumes "overfull_wf pb st c" and "codecs_ok pb z" and "c_estsz c < 2 ^ 31"
  shows "frag_body pb z st c \<noteq> []" and "length (frag_body pb z st c) < 2 ^ 32"
proof -
  have c: "container_wf pb c" "c_payloads c \<noteq> []" and pb: "pb_sizes pb" "zlib_bound z"
    using assms(1,2) by (auto simp: overfull_wf_def codecs_ok_def)
  note safe = container_body_safe [OF c(1) pb c(2), of "so_sequence st" "so_sequence_id st"]
  show "length (frag_body pb z st c) < 2 ^ 32"
    using safe assms(3)
    by (cases "so_do_zlib st") (simp_all add: frag_body_def container_body_def Let_def)
  have "nmsg__nmsg__pack pb (container_image c s i) \<noteq> []" for s i
    using nmsg_wire_size_lower [OF c, of s i] pb(1) unfolding pb_sizes_def
    by (metis list.size(3) not_numeral_le_zero)
  then show "frag_body pb z st c \<noteq> []"
    by (auto simp: frag_body_def container_body_def Let_def store_net32_def)
qed

text \<open>
  C3. The fragments of an overfull container, delivered in any order and with repetitions before
  the last one, reassemble to the container, compressed or not, unless its packed size is a
  multiple of the size of the pieces. A compressed one has to be larger than one piece, for else the
  writer sends it whole and without a header; the reader has the same setting for compression, and no
  other container with the same number and address is pending.
\<close>

theorem frag_transport:
  assumes wf: "overfull_wf pb st c" and cod: "codecs_ok pb z" and ok: "\<forall>i. ok i" and sz: "c_estsz c < 2 ^ 31"
    and cut: "\<not> so_do_zlib st \<or> so_bufsz st - 32 < length (frag_body pb z st c)"
    and odd: "\<not> so_bufsz st - 32 dvd length (frag_body pb z st c)"
    and fl: "flag_set (si_flags rin) NMSG_FLAG_ZLIB = so_do_zlib st" and zb: "si_zb rin = []"
    and new: "RBT.lookup (si_nft rin) (Frag_Key rnd (frag_sum (frag_body pb z st c)) (si_addr_ss rin)) = None"
  shows "\<exists>st' ds. output_frag_write pb z ok rnd st = Ret (nmsg_res_success, st') \<and> so_out st' = so_out st @ ds \<and>
    (\<forall>js j. set js \<union> {j} = {..<length ds} \<and> j \<notin> set js \<longrightarrow>
      (\<exists>t. input_frag_reads pb z ok junk rin (map (\<lambda>n. datagram_content (ds ! n)) (js @ [j])) =
        Ret (replicate (length js) nmsg_res_again @ [nmsg_res_success],
          rin\<lparr>si_nft := t, si_nmsg := Some (container_image c (so_sequence st) (so_sequence_id st))\<rparr>) \<and>
        RBT.lookup t = RBT.lookup (si_nft rin)))"
proof -
  define m where "m = so_bufsz st - 32"
  define packed where "packed = frag_body pb z st c"
  define cs where "cs = chunks m packed"
  define ds where "ds = map (\<lambda>k. frag_datagram pb (frag_flags st) (frag_fields rnd m packed) k (cs ! k)) [0..<length cs]"
  have m: "0 < m" using wf by (auto simp: m_def overfull_wf_def)
  have pb: "pb_roundtrip pb" "zlib_roundtrip z" using cod by (simp_all add: codecs_ok_def)
  note pk = frag_body_length [OF wf cod sz, folded packed_def]
  have "length packed mod m \<noteq> 0" using odd by (simp add: m_def packed_def dvd_eq_mod_eq_0)
  with length_chunks_last [OF m pk(1)] have lc: "length cs = length packed div m + 1" by (simp add: cs_def)
  have lt: "length cs < 2 ^ 32"
  proof (cases "m = 1")
    case True
    then show ?thesis using wf by (auto simp: m_def overfull_wf_def)
  next
    case False
    with m have "length packed div m < length packed" using pk(1) by (intro div_less_dividend) auto
    with lc pk(2) show ?thesis by simp
  qed
  have ne: "cs ! n \<noteq> []" if "n < length cs" for n
    using chunks_bounds [OF m] nth_mem that unfolding cs_def by blast
  have con: "datagram_content (ds ! n) = nmsg__nmsg_fragment__pack pb (sent_fragment rnd (frag_sum packed) cs n)"
    if "n < length cs" for n
  proof -
    have "last_frag (frag_fields rnd m packed) = of_nat (length cs - 1)" by (simp add: frag_fields_def lc)
    moreover have "ds ! n = frag_datagram pb (frag_flags st) (frag_fields rnd m packed) n (cs ! n)"
      using that by (simp add: ds_def)
    ultimately show ?thesis by (simp only: datagram_content_datagram)
  qed
  have un: "nmsg__nmsg_fragment__unpack pb (datagram_content (ds ! n)) = Some (sent_fragment rnd (frag_sum packed) cs n)"
    if "n < length cs" for n
    using con [OF that] fragment_roundtrip [of pb, OF pb(1) ne [OF that]] by simp
  have un2: "nmsg__nmsg__unpack pb (nmsg__nmsg__pack pb n) = Some n" for n
    using pb(1) by (simp add: pb_roundtrip_def)
  have "concat cs = packed" by (simp add: cs_def concat_chunks [OF m])
  from frag_body_pieces [OF wf cod sz fl zb this [unfolded packed_def]]
  have pieces: "pieces_of z rin cs (nmsg__nmsg__pack pb (container_image c (so_sequence st) (so_sequence_id st)))" .
  have "cs \<noteq> []" "length ds = length cs" using lc by (auto simp: ds_def)
  with input_frags_ok [OF _ lt un ok pb(2) pieces new [folded packed_def]] un2
  have "\<exists>t. input_frag_reads pb z ok junk rin (map (\<lambda>n. datagram_content (ds ! n)) (js @ [j])) =
        Ret (replicate (length js) nmsg_res_again @ [nmsg_res_success],
          rin\<lparr>si_nft := t, si_nmsg := Some (container_image c (so_sequence st) (so_sequence_id st))\<rparr>) \<and>
        RBT.lookup t = RBT.lookup (si_nft rin)"
    if "set js \<union> {j} = {..<length ds}" "j \<notin> set js" for js j
    using that by simp
  moreover from output_frag_write_cut [OF wf cod ok cut, of rnd] obtain st' where
    "output_frag_write pb z ok rnd st = Ret (nmsg_res_success, st')" "so_out st' = so_out st @ ds"
    by (auto simp: ds_def cs_def m_def packed_def)
  ultimately show ?thesis by blast
qed

lemma input_frag_reads_append:
  "input_frag_reads pb z ok junk st (as @ bs) =
     run_bind (input_frag_reads pb z ok junk st as) (\<lambda>(rs, st').
     run_bind (input_frag_reads pb z ok junk st' bs) (\<lambda>(rs', st''). Ret (rs @ rs', st'')))"
  by (induction as arbitrary: st) (simp_all add: run_bind_assoc case_prod_unfold)

lemma length_input_frag_reads:
  "input_frag_reads pb z ok junk st bs = Ret (rs, st') \<Longrightarrow> length rs = length bs"
  by (induction bs arbitrary: st rs) auto

text \<open>
  When the packed size is a multiple of the size of the pieces, the fragments announce one
  piece more than there is: the container is never complete, however often its fragments arrive.
\<close>

theorem frag_transport_multiple:
  assumes wf: "overfull_wf pb st c" and cod: "codecs_ok pb z" and ok: "\<forall>i. ok i" and sz: "c_estsz c < 2 ^ 31"
    and cut: "\<not> so_do_zlib st" and even: "so_bufsz st - 32 dvd length (frag_body pb z st c)"
    and fl: "\<not> flag_set (si_flags rin) NMSG_FLAG_ZLIB"
    and new: "RBT.lookup (si_nft rin) (Frag_Key rnd (frag_sum (frag_body pb z st c)) (si_addr_ss rin)) = None"
  shows "\<exists>st' ds. output_frag_write pb z ok rnd st = Ret (nmsg_res_success, st') \<and> so_out st' = so_out st @ ds \<and>
    (\<forall>js. set js = {..<length ds} \<longrightarrow>
      (\<exists>rin'. input_frag_reads pb z ok junk rin (map (\<lambda>n. datagram_content (ds ! n)) js) =
        Ret (replicate (length js) nmsg_res_again, rin')))"
proof -
  define m where "m = so_bufsz st - 32"
  define packed where "packed = frag_body pb z st c"
  define cs where "cs = chunks m packed"
  define ds where "ds = map (\<lambda>k. frag_datagram pb (frag_flags st) (frag_fields rnd m packed) k (cs ! k)) [0..<length cs]"
  have m: "1 < m" using wf by (auto simp: m_def overfull_wf_def)
  then have m0: "0 < m" by simp
  have pb: "pb_roundtrip pb" "zlib_roundtrip z" using cod by (simp_all add: codecs_ok_def)
  note pk = frag_body_length [OF wf cod sz, folded packed_def]
  have "length packed mod m = 0" using even by (simp add: m_def packed_def dvd_eq_mod_eq_0)
  with length_chunks_last [OF m0 pk(1)] have lc: "length cs = length packed div m" by (simp add: cs_def)
  let ?cs = "cs @ [[0]]"
  have lt: "length ?cs < 2 ^ 32"
  proof -
    have "length packed div m < length packed" using m pk(1) by (intro div_less_dividend) auto
    with lc pk(2) show ?thesis by simp
  qed
  have ne: "?cs ! n \<noteq> []" if "n < length ?cs" for n
  proof (cases "n < length cs")
    case True
    then have "cs ! n \<in> set (chunks m packed)" using nth_mem unfolding cs_def by blast
    then show ?thesis using chunks_bounds [OF m0] True by (simp add: nth_append)
  next
    case False
    with that have "n = length cs" by simp
    then show ?thesis by simp
  qed
  define buf where "buf n = nmsg__nmsg_fragment__pack pb (sent_fragment rnd (frag_sum packed) ?cs n)" for n
  have con: "datagram_content (ds ! n) = buf n" if "n < length cs" for n
  proof -
    have "last_frag (frag_fields rnd m packed) = of_nat (length ?cs - 1)" by (simp add: frag_fields_def lc)
    moreover have "ds ! n = frag_datagram pb (frag_flags st) (frag_fields rnd m packed) n (?cs ! n)"
      using that by (simp add: ds_def nth_append)
    ultimately show ?thesis by (simp only: datagram_content_datagram buf_def)
  qed
  have un: "nmsg__nmsg_fragment__unpack pb (buf n) = Some (sent_fragment rnd (frag_sum packed) ?cs n)"
    if "n < length ?cs" for n
    unfolding buf_def by (rule fragment_roundtrip [OF pb(1) ne [OF that]])
  have pieces: "pieces_of z rin ?cs (concat ?cs)" using fl by (simp add: pieces_of_def)
  have "\<exists>rin'. input_frag_reads pb z ok junk rin (map (\<lambda>n. datagram_content (ds ! n)) js) =
        Ret (replicate (length js) nmsg_res_again, rin')" if js: "set js = {..<length ds}" for js
  proof -
    have js': "set js \<union> {length cs} = {..<length ?cs}" "length cs \<notin> set js"
      using js unfolding ds_def by (simp_all add: lessThan_Suc)
    have "?cs \<noteq> []" by simp
    from input_frags_ok [OF this lt un ok pb(2) pieces new [folded packed_def] js', of junk] obtain t where
      "input_frag_reads pb z ok junk rin (map buf js @ [buf (length cs)]) =
        Ret (replicate (length js) nmsg_res_again @ [nmsg_res_success],
          rin\<lparr>si_nft := t, si_nmsg := nmsg__nmsg__unpack pb (concat ?cs)\<rparr>)"
      unfolding map_append list.map by blast
    then obtain rs st1 rs' where r: "input_frag_reads pb z ok junk rin (map buf js) = Ret (rs, st1)"
      "rs @ rs' = replicate (length js) nmsg_res_again @ [nmsg_res_success]"
      unfolding input_frag_reads_append by auto
    have "length rs = length js" using length_input_frag_reads [OF r(1)] by simp
    with r(2) have "rs = replicate (length js) nmsg_res_again" by (simp add: append_eq_append_conv)
    moreover have eq: "map (\<lambda>n. datagram_content (ds ! n)) js = map buf js"
      using con js by (simp add: ds_def)
    ultimately show ?thesis using r(1) unfolding eq by simp
  qed
  moreover from output_frag_write_cut [OF wf cod ok disjI1 [OF cut], of rnd] obtain st' where
    "output_frag_write pb z ok rnd st = Ret (nmsg_res_success, st')" "so_out st' = so_out st @ ds"
    by (auto simp: ds_def cs_def m_def packed_def)
  ultimately show ?thesis by blast
qed

section \<open>Witnesses\<close>

lemma sample_session:
  assumes "ty \<in> {Out_file, Out_sock}"
  shows "\<exists>out st. output_open_stream_base (\<lambda>_. True) 77 ty 0 = Some out \<and>
    o_kind out = Kind_stream st \<and> out_wf ref_pb ref_zlib st \<and> so_wr st = [] \<and> so_out st = [] \<and>
    held_payloads st = [] \<and> wire_room (so_do_zlib st) (so_bufsz st) \<and>
    list_all2 ready [sample_payload_message, sample_payload_message] [sample_payload, sample_payload] \<and>
    (\<forall>p \<in> set [sample_payload, sample_payload]. fits ref_pb st p) \<and>
    map (output_override st) (filter (passes out) [sample_payload, sample_payload]) = [sample_payload, sample_payload]"
proof -
  obtain out where out: "output_open_stream_base (\<lambda>_. True) 77 ty 0 = Some out"
    by (simp add: output_open_stream_base_def nmsg_container_init_def clamp_bufsz_def Let_def)
  then have st0: "\<exists>st. o_kind out = Kind_stream st \<and> output_override st = id \<and> \<not> o_do_filter out \<and>
      \<not> so_do_zlib st"
    by (auto simp: output_open_stream_base_def nmsg_container_init_def clamp_bufsz_def Let_def
        output_override_def fun_eq_iff)
  from output_open_wf [OF out assms, of ref_pb ref_zlib] st0 obtain st where st: "o_kind out = Kind_stream st"
    "out_wf ref_pb ref_zlib st" "held_payloads st = []" "so_wr st = []" "so_out st = []"
    "so_bufsz st = 512" "output_override st = id" "\<not> o_do_filter out" "\<not> so_do_zlib st"
    by (auto simp: clamp_bufsz_def)
  have "list_all2 ready [sample_payload_message, sample_payload_message] [sample_payload, sample_payload]"
    by (simp add: ready_def sample_payload_message_def)
  moreover have "\<forall>p \<in> set [sample_payload, sample_payload]. fits ref_pb st p"
    using st by (cases "so_do_sequence st")
      (simp_all add: fits_def sample_payload_size estsz_step_def small_payload_def, simp_all add: sample_payload_def)
  moreover have "wire_room (so_do_zlib st) (so_bufsz st)"
    using st by (simp add: wire_room_def)
  moreover have "map (output_override st) (filter (passes out) [sample_payload, sample_payload]) =
      [sample_payload, sample_payload]"
    using st by (simp add: passes_def)
  ultimately show ?thesis
    using out st by (intro exI [of _ out] exI [of _ st] conjI) assumption+
qed

lemma sample_wants:
  "\<not> i_do_filter inp \<Longrightarrow> si_source (i_stream inp) = 0 \<Longrightarrow> si_operator (i_stream inp) = 0 \<Longrightarrow>
     si_group (i_stream inp) = 0 \<Longrightarrow> wants inp p"
  by (simp add: wants_def accepts_def crc_matches_def)

theorem file_transport_witness:
  "\<exists>out st2 inp inp'. output_open_stream_base (\<lambda>_. True) 77 Out_file 0 = Some out \<and>
    (\<exists>out1 out2. nmsg_output_writes ref_pb ref_zlib (\<lambda>_. nmsg_res_success) (\<lambda>_. True) \<lparr>tv_sec = 0, tv_nsec = 0\<rparr> 5
       out [sample_payload_message, sample_payload_message] = Ret (nmsg_res_success, out1) \<and>
     nmsg_output_close ref_pb ref_zlib (\<lambda>_. True) out1 = Ret (nmsg_res_success, out2) \<and>
     o_kind out2 = Kind_stream st2) \<and>
    input_open_stream (\<lambda>_. True) Stream_file (sample_fd (concat (so_out st2)) []) = Ret (Some inp) \<and>
    input_nmsg_loop (stream_read_fp ref_pb ref_zlib (\<lambda>_. True) (\<lambda>_. 0) Stream_file) (\<lambda>_ _. None) (\<lambda>_. True)
      collect (-1) (length (so_out st2) + 1) 0 ([], inp) = Some (Ret (nmsg_res_eof,
        replicate 2 (nmsg_message_from_payload (\<lambda>_ _. None) True sample_payload), inp'))"
proof -
  from sample_session [of Out_file] obtain out st where st:
    "output_open_stream_base (\<lambda>_. True) 77 Out_file 0 = Some out" "o_kind out = Kind_stream st"
    "out_wf ref_pb ref_zlib st" "so_wr st = []" "so_out st = []" "held_payloads st = []"
    "wire_room (so_do_zlib st) (so_bufsz st)"
    "list_all2 ready [sample_payload_message, sample_payload_message] [sample_payload, sample_payload]"
    "\<forall>p \<in> set [sample_payload, sample_payload]. fits ref_pb st p"
    "map (output_override st) (filter (passes out) [sample_payload, sample_payload]) = [sample_payload, sample_payload]"
    by auto
  have ok: "\<forall>i. (\<lambda>_. True) i" and cb: "\<forall>u m. \<not> snd (collect u m)" and c: "(-1 :: int) < 0" by simp_all
  from file_transport [OF st(2,3) ref_codecs_ok ok st(4-6,8,9,7) cb c, unfolded st(10),
      of "\<lambda>_. nmsg_res_success" "\<lparr>tv_sec = 0, tv_nsec = 0\<rparr>" 5 "\<lambda>_. 0" "\<lambda>_ _. None" "[]"]
  obtain out1 out2 st2 where s: "nmsg_output_writes ref_pb ref_zlib (\<lambda>_. nmsg_res_success) (\<lambda>_. True)
      \<lparr>tv_sec = 0, tv_nsec = 0\<rparr> 5 out [sample_payload_message, sample_payload_message] = Ret (nmsg_res_success, out1)"
    "nmsg_output_close ref_pb ref_zlib (\<lambda>_. True) out1 = Ret (nmsg_res_success, out2)" "o_kind out2 = Kind_stream st2"
    "\<And>inp. file_at (i_stream inp, i_fd inp) (concat (so_out st2)) \<Longrightarrow> between (i_stream inp, i_fd inp) \<Longrightarrow>
       si_zb (i_stream inp) = [] \<Longrightarrow> \<not> i_stop inp \<Longrightarrow>
       \<exists>inp'. \<forall>fuel > length (so_out st2).
         input_nmsg_loop (stream_read_fp ref_pb ref_zlib (\<lambda>_. True) (\<lambda>_. 0) Stream_file) (\<lambda>_ _. None) (\<lambda>_. True)
           collect (-1) fuel 0 ([], inp) = Some (Ret (nmsg_res_eof,
             fst (deliver (\<lambda>_ _. None) collect (filter (wants inp) [sample_payload, sample_payload]) []), inp'))"
    by (elim exE conjE) (rule that, assumption+, blast)
  let ?fd = "sample_fd (concat (so_out st2)) []"
  from input_open_ok [of "\<lambda>_. True" Stream_file ?fd] obtain inp where inp:
    "input_open_stream (\<lambda>_. True) Stream_file ?fd = Ret (Some inp)"
    "i_fd inp = ?fd" "\<not> i_stop inp" "\<not> i_do_filter inp" "si_type (i_stream inp) = Stream_file"
    "si_zb (i_stream inp) = []" "si_source (i_stream inp) = 0" "si_operator (i_stream inp) = 0"
    "si_group (i_stream inp) = 0" "length (b_data (si_buf (i_stream inp))) = NMSG_RBUFSZ"
    "b_bufsz (si_buf (i_stream inp)) = NMSG_WBUFSZ_MAX"
    "b_pos (si_buf (i_stream inp)) = 0" "b_end (si_buf (i_stream inp)) = 0" by blast
  have at: "file_at (i_stream inp, i_fd inp) (concat (so_out st2))" "between (i_stream inp, i_fd inp)"
    using inp by (simp_all add: file_at_def between_def fill_def unread_def sample_fd_def Let_def)
  have w: "wants inp = (\<lambda>_. True)" using sample_wants [OF inp(4,7-9)] by (simp add: fun_eq_iff)
  from s(4) [OF at inp(6,3)] obtain inp' where "\<forall>fuel > length (so_out st2).
         input_nmsg_loop (stream_read_fp ref_pb ref_zlib (\<lambda>_. True) (\<lambda>_. 0) Stream_file) (\<lambda>_ _. None) (\<lambda>_. True)
           collect (-1) fuel 0 ([], inp) = Some (Ret (nmsg_res_eof,
             fst (deliver (\<lambda>_ _. None) collect (filter (wants inp) [sample_payload, sample_payload]) []), inp'))"
    by blast
  moreover have "length (so_out st2) < length (so_out st2) + 1" by simp
  moreover have "fst (deliver (\<lambda>_ _. None) collect (filter (wants inp) [sample_payload, sample_payload]) []) =
      replicate 2 (nmsg_message_from_payload (\<lambda>_ _. None) True sample_payload)"
    by (simp add: w numeral_2_eq_2)
  ultimately show ?thesis using st(1) s(1-3) inp(1) by metis
qed

theorem sock_transport_witness:
  "\<exists>out st2 inp inp'. output_open_stream_base (\<lambda>_. True) 77 Out_sock 0 = Some out \<and>
    (\<exists>out1 out2. nmsg_output_writes ref_pb ref_zlib (\<lambda>_. nmsg_res_success) (\<lambda>_. True) \<lparr>tv_sec = 0, tv_nsec = 0\<rparr> 5
       out [sample_payload_message, sample_payload_message] = Ret (nmsg_res_success, out1) \<and>
     nmsg_output_close ref_pb ref_zlib (\<lambda>_. True) out1 = Ret (nmsg_res_success, out2) \<and>
     o_kind out2 = Kind_stream st2) \<and>
    input_open_stream (\<lambda>_. True) Stream_sock (sample_fd [] (map (Recv_dgram []) (so_out st2))) = Ret (Some inp) \<and>
    input_nmsg_loop (stream_read_fp ref_pb ref_zlib (\<lambda>_. True) (\<lambda>_. 0) Stream_sock) (\<lambda>_ _. None) (\<lambda>_. True)
      collect 2 (length (so_out st2) + 3) 0 ([], inp) = Some (Ret (nmsg_res_success,
        replicate 2 (nmsg_message_from_payload (\<lambda>_ _. None) True sample_payload), inp'))"
proof -
  from sample_session [of Out_sock] obtain out st where st:
    "output_open_stream_base (\<lambda>_. True) 77 Out_sock 0 = Some out" "o_kind out = Kind_stream st"
    "out_wf ref_pb ref_zlib st" "so_wr st = []" "so_out st = []" "held_payloads st = []"
    "wire_room (so_do_zlib st) (so_bufsz st)"
    "list_all2 ready [sample_payload_message, sample_payload_message] [sample_payload, sample_payload]"
    "\<forall>p \<in> set [sample_payload, sample_payload]. fits ref_pb st p"
    "map (output_override st) (filter (passes out) [sample_payload, sample_payload]) = [sample_payload, sample_payload]"
    by auto
  have ok: "\<forall>i. (\<lambda>_. True) i" and cb: "\<forall>u m. \<not> snd (collect u m)" and c: "(0 :: int) < 2" by simp_all
  from sock_transport [OF st(2,3) ref_codecs_ok ok st(4-6,8,9,7) cb c, unfolded st(10) Let_def,
      of "\<lambda>_. nmsg_res_success" "\<lparr>tv_sec = 0, tv_nsec = 0\<rparr>" 5 "\<lambda>_. 0" "\<lambda>_ _. None" "[]"]
  obtain out1 out2 st2 where s: "nmsg_output_writes ref_pb ref_zlib (\<lambda>_. nmsg_res_success) (\<lambda>_. True)
      \<lparr>tv_sec = 0, tv_nsec = 0\<rparr> 5 out [sample_payload_message, sample_payload_message] = Ret (nmsg_res_success, out1)"
    "nmsg_output_close ref_pb ref_zlib (\<lambda>_. True) out1 = Ret (nmsg_res_success, out2)" "o_kind out2 = Kind_stream st2"
    "\<And>inp. sock_ok (i_stream inp, i_fd inp) \<Longrightarrow> si_blocking_io (i_stream inp) \<Longrightarrow> \<not> i_stop inp \<Longrightarrow>
       carries (fd_polls (i_fd inp)) (fd_recvs (i_fd inp)) (so_out st2) \<Longrightarrow>
       2 \<le> int (length (filter (wants inp) [sample_payload, sample_payload])) \<Longrightarrow>
       \<exists>inp'. \<forall>fuel > length (fd_polls (i_fd inp)) + length (fd_recvs (i_fd inp)).
         input_nmsg_loop (stream_read_fp ref_pb ref_zlib (\<lambda>_. True) (\<lambda>_. 0) Stream_sock) (\<lambda>_ _. None) (\<lambda>_. True)
           collect 2 fuel 0 ([], inp) = Some (Ret (nmsg_res_success, fst (deliver (\<lambda>_ _. None) collect
             (take (nat 2) (filter (wants inp) [sample_payload, sample_payload])) []), inp'))"
    by (elim exE conjE) (rule that, assumption+, blast)
  let ?fd = "sample_fd [] (map (Recv_dgram []) (so_out st2))"
  from sample_sock [of "map (Recv_dgram []) (so_out st2)"] obtain inp :: nmsg_input where inp:
    "input_open_stream (\<lambda>_. True) Stream_sock ?fd = Ret (Some inp)" "i_fd inp = ?fd"
    "sock_ok (i_stream inp, i_fd inp)" "\<not> i_stop inp" "si_blocking_io (i_stream inp)"
    "si_source (i_stream inp) = 0" "si_operator (i_stream inp) = 0" "si_group (i_stream inp) = 0"
    "\<not> i_do_filter inp" by blast
  have w: "wants inp = (\<lambda>_. True)" using sample_wants [OF inp(9,6-8)] by (simp add: fun_eq_iff)
  have "datagrams (map (Recv_dgram a) ds) = ds" for a ds by (induction ds) simp_all
  then have ca: "carries (fd_polls (i_fd inp)) (fd_recvs (i_fd inp)) (so_out st2)"
    using inp(2) by (auto simp: carries_def sample_fd_def)
  have "2 \<le> int (length (filter (wants inp) [sample_payload, sample_payload]))" by (simp add: w)
  from s(4) [OF inp(3,5,4) ca this] obtain inp' where
    "\<forall>fuel > length (fd_polls (i_fd inp)) + length (fd_recvs (i_fd inp)).
         input_nmsg_loop (stream_read_fp ref_pb ref_zlib (\<lambda>_. True) (\<lambda>_. 0) Stream_sock) (\<lambda>_ _. None) (\<lambda>_. True)
           collect 2 fuel 0 ([], inp) = Some (Ret (nmsg_res_success, fst (deliver (\<lambda>_ _. None) collect
             (take (nat 2) (filter (wants inp) [sample_payload, sample_payload])) []), inp'))"
    by blast
  moreover have "length (fd_polls (i_fd inp)) + length (fd_recvs (i_fd inp)) < length (so_out st2) + 3"
    by (simp add: inp(2) sample_fd_def)
  moreover have "fst (deliver (\<lambda>_ _. None) collect
        (take (nat 2) (filter (wants inp) [sample_payload, sample_payload])) []) =
      replicate 2 (nmsg_message_from_payload (\<lambda>_ _. None) True sample_payload)"
    by (simp add: w numeral_2_eq_2)
  ultimately show ?thesis using st(1) s(1-3) inp(1) by metis
qed

lemma big_frag_body:
  "length (frag_body ref_pb ref_zlib (sample_output Out_sock big_container False) big_container) \<in> {1025..1029}"
proof -
  have "payload_wire_size big_payload = 1016"
    by (simp add: big_payload_def sample_payload_def payload_wire_size_def varint_size_steps)
  moreover have "varint_size (unat (payload_crc big_payload)) \<in> {1..5}"
    using varint_size_u32 varint_size_pos [of "unat (payload_crc big_payload)"] by (simp add: Suc_le_eq)
  ultimately show ?thesis
    using ref_pb_sizes by (simp add: frag_body_def container_body_def sample_output_def pb_sizes_def
      nmsg_wire_size_def container_image_def big_container_def opt_size_def varint_size_steps)
qed

lemma big_frag_count:
  assumes "output_frag_write ref_pb ref_zlib (\<lambda>_. True) rnd (sample_output Out_sock big_container False) = Ret (r, st')"
  shows "length (so_out st') = 3"
proof -
  let ?so = "sample_output Out_sock big_container False"
  have so: "so_bufsz ?so = 512" "\<not> so_do_zlib ?so" "so_out ?so = []" by (simp_all add: sample_output_def)
  from output_frag_write_cut [OF big_output_wf ref_codecs_ok _ disjI1 [OF so(2)], of "\<lambda>_. True" rnd] assms
  have "length (so_out st') = length (chunks 480 (frag_body ref_pb ref_zlib ?so big_container))"
    unfolding so by auto
  also have "\<dots> = 3" using big_frag_body by (subst length_chunks) auto
  finally show ?thesis .
qed

theorem frag_transport_witness:
  "\<exists>st' t. output_frag_write ref_pb ref_zlib (\<lambda>_. True) 5 (sample_output Out_sock big_container False) =
      Ret (nmsg_res_success, st') \<and> length (so_out st') = 3 \<and>
    input_frag_reads ref_pb ref_zlib (\<lambda>_. True) (\<lambda>_. 0) sample_stream
        (map (\<lambda>n. datagram_content (so_out st' ! n)) [2, 0, 2, 1]) =
      Ret ([nmsg_res_again, nmsg_res_again, nmsg_res_again, nmsg_res_success],
        sample_stream\<lparr>si_nft := t, si_nmsg := Some (container_image big_container 9 77)\<rparr>)"
proof -
  let ?so = "sample_output Out_sock big_container False"
  have so: "so_bufsz ?so = 512" "\<not> so_do_zlib ?so" "so_out ?so = []" "so_sequence ?so = 9"
    "so_sequence_id ?so = 77" by (simp_all add: sample_output_def)
  have sz: "c_estsz big_container < 2 ^ 31" by (simp add: big_container_def)
  have "\<not> 480 dvd n" if "1025 \<le> n" "n \<le> 1029" for n :: nat using that by presburger
  with big_frag_body have odd: "\<not> so_bufsz ?so - 32 dvd length (frag_body ref_pb ref_zlib ?so big_container)"
    unfolding so by simp
  have fl: "flag_set (si_flags sample_stream) NMSG_FLAG_ZLIB = so_do_zlib ?so" "si_zb sample_stream = []"
    "RBT.lookup (si_nft sample_stream) k = None" for k
    by (simp_all add: sample_stream_def so)
  have ok: "\<forall>i. (\<lambda>_. True) i" by simp
  from frag_transport [OF big_output_wf ref_codecs_ok ok sz disjI1 [OF so(2)] odd fl(1,2,3), of 5 "\<lambda>_. 0"]
  obtain st' where d: "output_frag_write ref_pb ref_zlib (\<lambda>_. True) 5 ?so = Ret (nmsg_res_success, st')"
    "\<And>js j. set js \<union> {j} = {..<length (so_out st')} \<Longrightarrow> j \<notin> set js \<Longrightarrow>
      \<exists>t. input_frag_reads ref_pb ref_zlib (\<lambda>_. True) (\<lambda>_. 0) sample_stream
        (map (\<lambda>n. datagram_content (so_out st' ! n)) (js @ [j])) =
        Ret (replicate (length js) nmsg_res_again @ [nmsg_res_success],
          sample_stream\<lparr>si_nft := t, si_nmsg := Some (container_image big_container 9 77)\<rparr>)"
    unfolding so by (metis append_Nil)
  have "set [2, 0, 2] \<union> {1} = {..<length (so_out st')}" "1 \<notin> set [2, 0, 2 :: nat]"
    unfolding big_frag_count [OF d(1)] by auto
  from d(2) [OF this] obtain t where "input_frag_reads ref_pb ref_zlib (\<lambda>_. True) (\<lambda>_. 0) sample_stream
        (map (\<lambda>n. datagram_content (so_out st' ! n)) ([2, 0, 2] @ [1])) =
        Ret (replicate (length [2, 0, 2 :: nat]) nmsg_res_again @ [nmsg_res_success],
          sample_stream\<lparr>si_nft := t, si_nmsg := Some (container_image big_container 9 77)\<rparr>)" by blast
  with d(1) big_frag_count [OF d(1)] show ?thesis by (auto simp: numeral_3_eq_3)
qed

text \<open>Payloads without octets, as many as make the size of the container a multiple of 480.\<close>

definition bare_payload :: nmsg_payload where
  "bare_payload = sample_payload\<lparr>payload := Some []\<rparr>"

definition even_container :: nmsg_container where
  "even_container = \<lparr>c_payloads = replicate 480 (Some bare_payload), c_sequence = None, c_sequence_id = None,
     c_bufsz = 512, c_estsz = 10 + 480 * 23, c_do_sequence = False\<rparr>"

lemma bare_payload_size: "payload_wire_size bare_payload = 15" "payload_crc bare_payload = 0"
  "nmsg_payload_size ref_pb bare_payload = 15"
  by (simp_all add: nmsg_payload_size_exact bare_payload_def sample_payload_def payload_wire_size_def
      varint_size_steps payload_crc_def crc32c_spec_def bswap32_def)

lemma even_output_wf: "overfull_wf ref_pb (sample_output Out_sock even_container False) even_container"
proof -
  have "small_payload bare_payload" by (simp add: small_payload_def bare_payload_def)
  then have "container_wf ref_pb even_container"
    by (simp add: container_wf_def even_container_def bare_payload_size estsz_step_def
        sum_list_replicate map_replicate_const)
  then show ?thesis
    by (simp add: overfull_wf_def sample_output_def) (simp add: even_container_def)
qed

lemma even_frag_body:
  "length (frag_body ref_pb ref_zlib (sample_output Out_sock even_container False) even_container) = 480 * 19"
  using ref_pb_sizes by (simp add: frag_body_def container_body_def sample_output_def pb_sizes_def
    nmsg_wire_size_def container_image_def even_container_def opt_size_def varint_size_steps
    sum_list_replicate map_replicate_const bare_payload_size)

theorem frag_transport_multiple_witness:
  "\<exists>st' rin. output_frag_write ref_pb ref_zlib (\<lambda>_. True) 5 (sample_output Out_sock even_container False) =
      Ret (nmsg_res_success, st') \<and>
    input_frag_reads ref_pb ref_zlib (\<lambda>_. True) (\<lambda>_. 0) (sample_stream)
        (map (\<lambda>n. datagram_content (so_out st' ! n)) [0..<length (so_out st')]) =
      Ret (replicate (length (so_out st')) nmsg_res_again, rin)"
proof -
  let ?so = "sample_output Out_sock even_container False"
  have so: "so_bufsz ?so = 512" "\<not> so_do_zlib ?so" "so_out ?so = []" by (simp_all add: sample_output_def)
  have sz: "c_estsz even_container < 2 ^ 31" by (simp add: even_container_def)
  have even: "so_bufsz ?so - 32 dvd length (frag_body ref_pb ref_zlib ?so even_container)"
    unfolding so even_frag_body by simp
  have fl: "\<not> flag_set (si_flags sample_stream) NMSG_FLAG_ZLIB" "RBT.lookup (si_nft sample_stream) k = None" for k
    by (simp_all add: sample_stream_def)
  have ok: "\<forall>i. (\<lambda>_. True) i" by simp
  from frag_transport_multiple [OF even_output_wf ref_codecs_ok ok sz so(2) even fl, of 5 "\<lambda>_. 0"]
  obtain st' where d: "output_frag_write ref_pb ref_zlib (\<lambda>_. True) 5 ?so = Ret (nmsg_res_success, st')"
    "\<And>js. set js = {..<length (so_out st')} \<Longrightarrow>
      \<exists>rin'. input_frag_reads ref_pb ref_zlib (\<lambda>_. True) (\<lambda>_. 0) sample_stream
        (map (\<lambda>n. datagram_content (so_out st' ! n)) js) = Ret (replicate (length js) nmsg_res_again, rin')"
    unfolding so by (metis append_Nil)
  from d(2) [of "[0..<length (so_out st')]"] d(1) show ?thesis by (auto simp: lessThan_atLeast0)
qed

end
