(* ===== verification/Io.thy ===== *)
theory Io
  imports Output
begin

text \<open>
  The multiplexer of nmsg/io.c: inputs, one thread for each of them, and outputs that all threads
  share. The reading of an input (\<^verbatim>\<open>input->read_fp\<close>), the writing of an output
  (\<^verbatim>\<open>nmsg_output_write\<close>) and the callbacks of the user are arguments of the definitions; a
  thread runs in steps, each of which the locks or the absence of shared data make atomic.
\<close>

section \<open>Data\<close>

datatype io_type = io_type_input | io_type_output
datatype close_type = close_type_eof | close_type_count | close_type_interval

record close_event =
  ce_io_type :: io_type
  ce_close_type :: close_type
  ce_index :: nat

text \<open>
  A close callback may close the output, leaving NULL, or put another one in its place; \<open>'u\<close> is
  the state of the user.
\<close>

type_synonym 'u close_fp = "'u \<Rightarrow> close_event \<Rightarrow> nmsg_output option \<Rightarrow> 'u \<times> nmsg_output option"
type_synonym 'u user_fp = "nat \<Rightarrow> 'u \<Rightarrow> 'u"

record 's nmsg_io_input =
  ii_input :: 's
  ii_count :: u64

record nmsg_io_output =
  io_output :: "nmsg_output option"
  io_last :: timespec
  io_out_count :: u64

datatype io_output_mode = Stripe | Mirror

record ('s, 'u) nmsg_io =
  io_inputs :: "'s nmsg_io_input list"
  io_outputs :: "nmsg_io_output list"
  io_debug :: int
  io_close_fp :: "'u close_fp option"
  io_mode :: io_output_mode
  io_total :: u64
  io_count :: u32
  io_interval :: u32
  io_stop :: bool
  io_stopped :: bool
  io_atstart :: "'u user_fp option"
  io_atexit :: "'u user_fp option"
  io_user :: 'u
  io_n_inputs :: u32
  io_n_outputs :: u32

section \<open>Setting up\<close>

definition nmsg_io_init :: "bool \<Rightarrow> 'u \<Rightarrow> ('s, 'u) nmsg_io option" where
  "nmsg_io_init alloc u =
     (if \<not> alloc then None
      else Some \<lparr>io_inputs = [], io_outputs = [], io_debug = 0, io_close_fp = None, io_mode = Stripe,
        io_total = 0, io_count = 0, io_interval = 0, io_stop = False, io_stopped = False,
        io_atstart = None, io_atexit = None, io_user = u, io_n_inputs = 0, io_n_outputs = 0\<rparr>)"

definition nmsg_io_add_input :: "bool \<Rightarrow> ('s, 'u) nmsg_io \<Rightarrow> 's \<Rightarrow> nmsg_res \<times> ('s, 'u) nmsg_io" where
  "nmsg_io_add_input alloc io s =
     (if \<not> alloc then (nmsg_res_memfail, io)
      else (nmsg_res_success, io\<lparr>io_inputs := io_inputs io @ [\<lparr>ii_input = s, ii_count = 0\<rparr>],
        io_n_inputs := io_n_inputs io + 1\<rparr>))"

definition nmsg_io_add_output ::
  "bool \<Rightarrow> ('s, 'u) nmsg_io \<Rightarrow> nmsg_output option \<Rightarrow> nmsg_res \<times> ('s, 'u) nmsg_io" where
  "nmsg_io_add_output alloc io out =
     (if \<not> alloc then (nmsg_res_memfail, io)
      else (nmsg_res_success,
        io\<lparr>io_outputs := io_outputs io @ [\<lparr>io_output = out, io_last = \<lparr>tv_sec = 0, tv_nsec = 0\<rparr>, io_out_count = 0\<rparr>],
          io_n_outputs := io_n_outputs io + 1\<rparr>))"

text \<open>
  \<^verbatim>\<open>_nmsg_io_add_input_socket\<close>: the answers of the address parser and of the system are the
  arguments \<open>parsed\<close>, \<open>socket_ok\<close>, \<open>setsockopt_ok\<close>, \<open>bind_ok\<close>; \<open>opened\<close> is the input over the socket.
\<close>

record 's sock_answers =
  sa_parsed :: nmsg_res
  sa_socket :: bool
  sa_setsockopt :: bool
  sa_bind :: bool
  sa_input :: "'s option"
  sa_alloc :: bool

definition nmsg_io_add_input_socket ::
  "('s, 'u) nmsg_io \<Rightarrow> 's sock_answers \<Rightarrow> nat \<Rightarrow> nmsg_res \<times> ('s, 'u) nmsg_io" where
  "nmsg_io_add_input_socket io ans port =
     (if port > 65535 then (nmsg_res_failure, io)
      else if sa_parsed ans \<noteq> nmsg_res_success then (sa_parsed ans, io)
      else if \<not> sa_socket ans \<or> \<not> sa_setsockopt ans \<or> \<not> sa_bind ans then (nmsg_res_failure, io)
      else (case sa_input ans of
          None \<Rightarrow> (nmsg_res_failure, io)
        | Some s \<Rightarrow> nmsg_io_add_input (sa_alloc ans) io s))"

text \<open>The loop over the ports of a socket specification.\<close>

function add_ports ::
  "(nat \<Rightarrow> 's sock_answers) \<Rightarrow> nat \<Rightarrow> nat \<Rightarrow> ('s, 'u) nmsg_io \<Rightarrow> nmsg_res \<times> ('s, 'u) nmsg_io" where
  "add_ports ans port port_end io =
     (if port \<le> port_end then
        (case nmsg_io_add_input_socket io (ans port) port of
           (res, io') \<Rightarrow> if res \<noteq> nmsg_res_success then (res, io') else add_ports ans (port + 1) port_end io')
      else (nmsg_res_success, io))"
  by pat_completeness auto
termination
  by (relation "measure (\<lambda>(ans, port, port_end, io). port_end + 1 - port)") auto

declare add_ports.simps [simp del]

text \<open>\<open>spec\<close> is the answer of \<^verbatim>\<open>nmsg_sock_parse_sockspec\<close>: an error or the first and last port.\<close>

definition nmsg_io_add_input_sockspec ::
  "('s, 'u) nmsg_io \<Rightarrow> nmsg_res + nat \<times> nat \<Rightarrow> (nat \<Rightarrow> 's sock_answers) \<Rightarrow> nmsg_res \<times> ('s, 'u) nmsg_io" where
  "nmsg_io_add_input_sockspec io spec ans =
     (case spec of Inl res \<Rightarrow> (res, io) | Inr (port_start, port_end) \<Rightarrow> add_ports ans port_start port_end io)"

text \<open>\<open>aliases\<close> is the answer of \<^verbatim>\<open>nmsg_chalias_lookup\<close>, every socket specification already parsed.\<close>

fun nmsg_io_add_input_channel ::
  "('s, 'u) nmsg_io \<Rightarrow> ((nmsg_res + nat \<times> nat) \<times> (nat \<Rightarrow> 's sock_answers)) list option \<Rightarrow> nmsg_res \<times> ('s, 'u) nmsg_io" where
  "nmsg_io_add_input_channel io None = (nmsg_res_failure, io)"
| "nmsg_io_add_input_channel io (Some []) = (nmsg_res_failure, io)"
| "nmsg_io_add_input_channel io (Some [(spec, ans)]) = nmsg_io_add_input_sockspec io spec ans"
| "nmsg_io_add_input_channel io (Some ((spec, ans) # a # as)) =
     (case nmsg_io_add_input_sockspec io spec ans of
        (res, io') \<Rightarrow> if res \<noteq> nmsg_res_success then (res, io') else nmsg_io_add_input_channel io' (Some (a # as)))"

definition nmsg_io_add_input_fname ::
  "bool \<Rightarrow> ('s, 'u) nmsg_io \<Rightarrow> bool \<Rightarrow> 's option \<Rightarrow> nmsg_res \<times> ('s, 'u) nmsg_io" where
  "nmsg_io_add_input_fname alloc io open_ok input =
     (if \<not> open_ok then (nmsg_res_failure, io)
      else (case input of None \<Rightarrow> (nmsg_res_failure, io) | Some s \<Rightarrow> nmsg_io_add_input alloc io s))"

definition nmsg_io_get_num_inputs :: "('s, 'u) nmsg_io \<Rightarrow> u32" where
  "nmsg_io_get_num_inputs io = io_n_inputs io"

definition nmsg_io_get_num_outputs :: "('s, 'u) nmsg_io \<Rightarrow> u32" where
  "nmsg_io_get_num_outputs io = io_n_outputs io"

definition nmsg_io_set_close_fp :: "('s, 'u) nmsg_io \<Rightarrow> 'u close_fp option \<Rightarrow> ('s, 'u) nmsg_io" where
  "nmsg_io_set_close_fp io f = io\<lparr>io_close_fp := f\<rparr>"

definition nmsg_io_set_atstart_fp :: "('s, 'u) nmsg_io \<Rightarrow> 'u user_fp option \<Rightarrow> ('s, 'u) nmsg_io" where
  "nmsg_io_set_atstart_fp io f = io\<lparr>io_atstart := f\<rparr>"

definition nmsg_io_set_atexit_fp :: "('s, 'u) nmsg_io \<Rightarrow> 'u user_fp option \<Rightarrow> ('s, 'u) nmsg_io" where
  "nmsg_io_set_atexit_fp io f = io\<lparr>io_atexit := f\<rparr>"

definition nmsg_io_set_count :: "('s, 'u) nmsg_io \<Rightarrow> u32 \<Rightarrow> ('s, 'u) nmsg_io" where
  "nmsg_io_set_count io n = io\<lparr>io_count := n\<rparr>"

definition nmsg_io_set_debug :: "('s, 'u) nmsg_io \<Rightarrow> int \<Rightarrow> ('s, 'u) nmsg_io" where
  "nmsg_io_set_debug io n = io\<lparr>io_debug := n\<rparr>"

definition nmsg_io_set_interval :: "('s, 'u) nmsg_io \<Rightarrow> u32 \<Rightarrow> ('s, 'u) nmsg_io" where
  "nmsg_io_set_interval io n = io\<lparr>io_interval := n\<rparr>"

definition nmsg_io_set_output_mode :: "('s, 'u) nmsg_io \<Rightarrow> io_output_mode \<Rightarrow> ('s, 'u) nmsg_io" where
  "nmsg_io_set_output_mode io m = io\<lparr>io_mode := m\<rparr>"

definition output_stop :: "nmsg_output \<Rightarrow> nmsg_output" where
  "output_stop out = out\<lparr>o_stop := True\<rparr>"

definition nmsg_io_breakloop :: "('s, 'u) nmsg_io option \<Rightarrow> ('s, 'u) nmsg_io option" where
  "nmsg_io_breakloop io0 =
     (case io0 of
        None \<Rightarrow> None
      | Some io \<Rightarrow> if io_stop io then Some io
          else Some (io\<lparr>io_stop := True,
            io_outputs := map (\<lambda>j. j\<lparr>io_output := map_option output_stop (io_output j)\<rparr>) (io_outputs io)\<rparr>))"

text \<open>The start of the current interval; \<^verbatim>\<open>time_t\<close> is positive.\<close>

definition interval_start :: "u32 \<Rightarrow> timespec \<Rightarrow> timespec" where
  "interval_start interval now = \<lparr>tv_sec = tv_sec now - tv_sec now mod int (unat interval), tv_nsec = 0\<rparr>"

definition init_timespec_intervals :: "timespec \<Rightarrow> ('s, 'u) nmsg_io \<Rightarrow> ('s, 'u) nmsg_io" where
  "init_timespec_intervals now io =
     io\<lparr>io_outputs := map (\<lambda>j. j\<lparr>io_last := interval_start (io_interval io) now\<rparr>) (io_outputs io)\<rparr>"

section \<open>Threads\<close>

text \<open>
  Where a thread stands: about to write its message to the outputs that are listed, between
  loading and storing the counter of an output, before the total under \<^verbatim>\<open>io->lock\<close>, at the close
  check (\<open>True\<close> after a message, \<open>False\<close> after \<^verbatim>\<open>nmsg_res_again\<close>), at the checks of \<^verbatim>\<open>io->stop\<close>.
\<close>

datatype io_pc =
    Pc_start
  | Pc_read
  | Pc_write nmsg_message "nat list"
  | Pc_count nat nmsg_message "nat list"
  | Pc_store nat u64 nmsg_message "nat list"
  | Pc_total nmsg_message "nat list"
  | Pc_check bool
  | Pc_stop bool
  | Pc_stop2
  | Pc_exit
  | Pc_done

record nmsg_io_thr =
  thr_no :: nat
  thr_res :: nmsg_res
  thr_now :: timespec
  thr_output :: nat
  thr_pc :: io_pc

type_synonym writer = "nmsg_output \<Rightarrow> nmsg_message \<Rightarrow> (nmsg_res \<times> nmsg_output \<times> nmsg_message) run"
type_synonym 's reader = "'s \<Rightarrow> (nmsg_res \<times> nmsg_message option \<times> 's) run"

text \<open>The output of \<open>j\<close>-th place, and its update.\<close>

definition set_output :: "nat \<Rightarrow> nmsg_io_output \<Rightarrow> ('s, 'u) nmsg_io \<Rightarrow> ('s, 'u) nmsg_io" where
  "set_output j x io = io\<lparr>io_outputs := (io_outputs io)[j := x]\<rparr>"

text \<open>\<^verbatim>\<open>io_write\<close> up to the counters; with a close callback, a closed output answers \<^verbatim>\<open>nmsg_res_stop\<close>.\<close>

definition io_write ::
  "writer \<Rightarrow> ('s, 'u) nmsg_io \<Rightarrow> nat \<Rightarrow> nmsg_message \<Rightarrow> (nmsg_res \<times> ('s, 'u) nmsg_io) run" where
  "io_write wr io j msg =
     (let x = io_outputs io ! j in
      case io_output x of
        None \<Rightarrow> if io_close_fp io = None then Fault else Ret (nmsg_res_stop, io)
      | Some out \<Rightarrow> run_bind (wr out msg) (\<lambda>(res, out', msg').
          Ret (res, set_output j (x\<lparr>io_output := Some out'\<rparr>) io)))"

text \<open>A close event for the output \<open>j\<close>; \<^verbatim>\<open>io->stop\<close> is set when the output is gone afterwards.\<close>

definition close_output ::
  "('s, 'u) nmsg_io \<Rightarrow> 'u close_fp \<Rightarrow> close_type \<Rightarrow> nat \<Rightarrow> bool \<times> ('s, 'u) nmsg_io" where
  "close_output io fp ty j =
     (let x = io_outputs io ! j;
          (u, out) = fp (io_user io) \<lparr>ce_io_type = io_type_output, ce_close_type = ty, ce_index = j\<rparr> (io_output x);
          io' = set_output j (x\<lparr>io_output := out\<rparr>) (io\<lparr>io_user := u\<rparr>)
      in if out = None then (False, io'\<lparr>io_stop := True\<rparr>) else (True, io'))"

definition count_reached :: "('s, 'u) nmsg_io \<Rightarrow> nat \<Rightarrow> bool" where
  "count_reached io j \<longleftrightarrow> io_count io > 0 \<and> io_out_count (io_outputs io ! j) > 0 \<and>
     io_out_count (io_outputs io ! j) mod ucast (io_count io) = 0"

definition interval_over :: "timespec \<Rightarrow> ('s, 'u) nmsg_io \<Rightarrow> nat \<Rightarrow> bool" where
  "interval_over now io j \<longleftrightarrow> io_interval io > 0 \<and>
     tv_sec now - tv_sec (io_last (io_outputs io ! j)) \<ge> int (unat (io_interval io))"

definition check_close_event ::
  "timespec \<Rightarrow> ('s, 'u) nmsg_io \<Rightarrow> nat \<Rightarrow> nmsg_res \<times> ('s, 'u) nmsg_io" where
  "check_close_event now io j =
     (if io_output (io_outputs io ! j) = None then (nmsg_res_stop, io)
      else (case io_close_fp io of
          None \<Rightarrow> if count_reached io j \<or> interval_over now io j
            then (nmsg_res_stop, io\<lparr>io_stop := True\<rparr>) else (nmsg_res_success, io)
        | Some fp \<Rightarrow>
            let (go, io1) = (if count_reached io j then close_output io fp close_type_count j else (True, io))
            in if \<not> go then (nmsg_res_stop, io1)
               else if interval_over now io1 j then
                 let io2 = set_output j ((io_outputs io1 ! j)\<lparr>io_last := interval_start (io_interval io1) now\<rparr>) io1;
                     (go', io3) = close_output io2 fp close_type_interval j
                 in (if go' then nmsg_res_success else nmsg_res_stop, io3)
               else (nmsg_res_success, io1)))"

text \<open>\<^verbatim>\<open>_nmsg_message_dup\<close>; \<open>ok 0\<close> to \<open>ok 3\<close> are its allocations. The flag \<^verbatim>\<open>updated\<close> is not copied.\<close>

definition nmsg_message_dup_protobuf :: "bool \<Rightarrow> nmsg_msgmod \<Rightarrow> byte list \<Rightarrow> nmsg_res \<times> byte list option" where
  "nmsg_message_dup_protobuf alloc m obj =
     (if \<not> alloc then (nmsg_res_memfail, None)
      else (case pb_unpack m obj of None \<Rightarrow> (nmsg_res_memfail, None) | Some d \<Rightarrow> (nmsg_res_success, Some d)))"

definition nmsg_message_dup :: "(nat \<Rightarrow> bool) \<Rightarrow> nmsg_message \<Rightarrow> nmsg_message option run" where
  "nmsg_message_dup ok msg =
     (if \<not> ok 0 then Ret None
      else run_bind (case message msg of
          None \<Rightarrow> Ret (Some None)
        | Some obj \<Rightarrow> (case msg_mod msg of
              None \<Rightarrow> Fault
            | Some m \<Rightarrow> if transparent m then
                (case nmsg_message_dup_protobuf (ok 1) m obj of
                   (res, d) \<Rightarrow> if res \<noteq> nmsg_res_success then Ret None else Ret (Some d))
              else Ret (Some None))) (\<lambda>d.
        case d of
          None \<Rightarrow> Ret None
        | Some obj' \<Rightarrow>
            if (case np msg of None \<Rightarrow> False | Some p \<Rightarrow> \<not> ok 2 \<or> payload p \<noteq> None \<and> \<not> ok 3) then Ret None
            else Ret (Some \<lparr>msg_mod = msg_mod msg, message = obj', np = np msg, updated = False\<rparr>)))"

text \<open>
  One step of \<^verbatim>\<open>io_thr_input\<close>, with \<^verbatim>\<open>io_write\<close> and \<^verbatim>\<open>io_write_mirrored\<close>: a striped message goes to one
  output, a mirrored one is duplicated for each. A duplicate that cannot be allocated is
  dereferenced.
\<close>

definition io_exit :: "nmsg_res \<Rightarrow> nmsg_io_thr \<Rightarrow> nmsg_io_thr" where
  "io_exit res t = t\<lparr>thr_res := res, thr_pc := Pc_exit\<rparr>"

definition io_thr_read ::
  "'s reader \<Rightarrow> ('s, 'u) nmsg_io \<Rightarrow> nmsg_io_thr \<Rightarrow> (('s, 'u) nmsg_io \<times> nmsg_io_thr) run" where
  "io_thr_read rd io t =
     (let inp = io_inputs io ! thr_no t in
      run_bind (rd (ii_input inp)) (\<lambda>(res, m, s').
        let io' = io\<lparr>io_inputs := (io_inputs io)[thr_no t := inp\<lparr>ii_input := s'\<rparr>]\<rparr>
        in if io_stop io then Ret (io', t\<lparr>thr_pc := Pc_exit\<rparr>)
           else if res = nmsg_res_again then Ret (io', t\<lparr>thr_pc := Pc_check False\<rparr>)
           else if res \<noteq> nmsg_res_success then Ret (io', io_exit res t)
           else (case m of
               None \<Rightarrow> Abort
             | Some msg \<Rightarrow> Ret (io\<lparr>io_inputs := (io_inputs io)[thr_no t :=
                   inp\<lparr>ii_input := s', ii_count := ii_count inp + 1\<rparr>]\<rparr>,
                 t\<lparr>thr_pc := Pc_write msg (case io_mode io of
                   Stripe \<Rightarrow> [thr_output t] | Mirror \<Rightarrow> [0..<length (io_outputs io)])\<rparr>))))"

definition io_thr_write ::
  "writer \<Rightarrow> (nat \<Rightarrow> bool) \<Rightarrow> ('s, 'u) nmsg_io \<Rightarrow> nmsg_io_thr \<Rightarrow> nmsg_message \<Rightarrow> nat \<Rightarrow> nat list \<Rightarrow>
     (('s, 'u) nmsg_io \<times> nmsg_io_thr) run" where
  "io_thr_write wr ok io t msg j js =
     run_bind (case io_mode io of Stripe \<Rightarrow> Ret (Some msg) | Mirror \<Rightarrow> nmsg_message_dup ok msg) (\<lambda>m.
       case m of
         None \<Rightarrow> Fault
       | Some msg' \<Rightarrow> run_bind (io_write wr io j msg') (\<lambda>(res, io').
           Ret (io', if res \<noteq> nmsg_res_success then io_exit res t else t\<lparr>thr_pc := Pc_count j msg js\<rparr>)))"

definition io_thr_step ::
  "writer \<Rightarrow> 's reader \<Rightarrow> (nat \<Rightarrow> bool) \<Rightarrow> timespec \<Rightarrow> ('s, 'u) nmsg_io \<Rightarrow> nmsg_io_thr \<Rightarrow>
     (('s, 'u) nmsg_io \<times> nmsg_io_thr) run" where
  "io_thr_step wr rd ok now io t =
     (case thr_pc t of
        Pc_start \<Rightarrow>
          if io_outputs io = [] then Ret (io, t\<lparr>thr_res := nmsg_res_failure, thr_pc := Pc_done\<rparr>)
          else Ret (case io_atstart io of None \<Rightarrow> io | Some f \<Rightarrow> io\<lparr>io_user := f (thr_no t) (io_user io)\<rparr>,
            t\<lparr>thr_pc := Pc_read\<rparr>)
      | Pc_read \<Rightarrow> io_thr_read rd io (t\<lparr>thr_now := now\<rparr>)
      | Pc_write msg [] \<Rightarrow> Ret (io, t\<lparr>thr_pc := Pc_check True\<rparr>)
      | Pc_write msg (j # js) \<Rightarrow> io_thr_write wr ok io t msg j js
      | Pc_count j msg js \<Rightarrow> Ret (io, t\<lparr>thr_pc := Pc_store j (io_out_count (io_outputs io ! j)) msg js\<rparr>)
      | Pc_store j c msg js \<Rightarrow>
          Ret (set_output j ((io_outputs io ! j)\<lparr>io_out_count := c + 1\<rparr>) io, t\<lparr>thr_pc := Pc_total msg js\<rparr>)
      | Pc_total msg js \<Rightarrow> Ret (io\<lparr>io_total := io_total io + 1\<rparr>, t\<lparr>thr_pc := Pc_write msg js\<rparr>)
      | Pc_check adv \<Rightarrow>
          Ret (snd (check_close_event (thr_now t) io (thr_output t)), t\<lparr>thr_pc := Pc_stop adv\<rparr>)
      | Pc_stop adv \<Rightarrow>
          Ret (io, if io_stop io then t\<lparr>thr_pc := Pc_exit\<rparr>
            else if adv then t\<lparr>thr_pc := Pc_stop2,
              thr_output := (if thr_output t + 1 < length (io_outputs io) then thr_output t + 1 else 0)\<rparr>
            else t\<lparr>thr_pc := Pc_read\<rparr>)
      | Pc_stop2 \<Rightarrow> Ret (io, t\<lparr>thr_pc := (if io_stop io then Pc_exit else Pc_read)\<rparr>)
      | Pc_exit \<Rightarrow> Ret (case io_atexit io of None \<Rightarrow> io | Some f \<Rightarrow> io\<lparr>io_user := f (thr_no t) (io_user io)\<rparr>,
          t\<lparr>thr_pc := Pc_done\<rparr>)
      | Pc_done \<Rightarrow> Ret (io, t))"

section \<open>The loop\<close>

text \<open>
  \<^verbatim>\<open>nmsg_io_loop\<close>: one thread for each input, steps of any thread in any order, and the result once
  all are done. A state is the shared object and the threads.
\<close>

definition io_threads :: "('s, 'u) nmsg_io \<Rightarrow> nmsg_io_thr list" where
  "io_threads io = map (\<lambda>i. \<lparr>thr_no = i, thr_res = nmsg_res_success, thr_now = \<lparr>tv_sec = 0, tv_nsec = 0\<rparr>,
     thr_output = 0, thr_pc = Pc_start\<rparr>) [0..<length (io_inputs io)]"

definition io_loop_start :: "timespec \<Rightarrow> ('s, 'u) nmsg_io \<Rightarrow> ('s, 'u) nmsg_io \<times> nmsg_io_thr list" where
  "io_loop_start now io =
     (let io' = (if io_interval io > 0 then init_timespec_intervals now io else io) in (io', io_threads io'))"

inductive io_step ::
  "writer \<Rightarrow> 's reader \<Rightarrow> (nat \<Rightarrow> bool) \<Rightarrow> ('s, 'u) nmsg_io \<times> nmsg_io_thr list \<Rightarrow> ('s, 'u) nmsg_io \<times> nmsg_io_thr list \<Rightarrow> bool"
  for wr rd ok where
  io_step: "i < length ts \<Longrightarrow> thr_pc (ts ! i) \<noteq> Pc_done \<Longrightarrow>
    io_thr_step wr rd ok now io (ts ! i) = Ret (io', t') \<Longrightarrow> io_step wr rd ok (io, ts) (io', ts[i := t'])"

text \<open>A schedule: which thread takes a step, and what the clock shows.\<close>

fun io_run ::
  "writer \<Rightarrow> 's reader \<Rightarrow> (nat \<Rightarrow> bool) \<Rightarrow> (nat \<times> timespec) list \<Rightarrow> ('s, 'u) nmsg_io \<times> nmsg_io_thr list \<Rightarrow>
     (('s, 'u) nmsg_io \<times> nmsg_io_thr list) run" where
  "io_run wr rd ok [] s = Ret s"
| "io_run wr rd ok ((i, now) # sch) (io, ts) =
     (if i < length ts then
        run_bind (io_thr_step wr rd ok now io (ts ! i)) (\<lambda>(io', t'). io_run wr rd ok sch (io', ts[i := t']))
      else io_run wr rd ok sch (io, ts))"

definition io_loop_result :: "nmsg_io_thr list \<Rightarrow> nmsg_res" where
  "io_loop_result ts = (if \<forall>t \<in> set ts. thr_res t \<in> {nmsg_res_success, nmsg_res_eof, nmsg_res_stop}
     then nmsg_res_success else nmsg_res_failure)"

definition nmsg_io_loop_end ::
  "('s, 'u) nmsg_io \<times> nmsg_io_thr list \<Rightarrow> (nmsg_res \<times> ('s, 'u) nmsg_io) option" where
  "nmsg_io_loop_end s = (case s of (io, ts) \<Rightarrow>
     if \<forall>t \<in> set ts. thr_pc t = Pc_done then Some (io_loop_result ts, io\<lparr>io_stopped := True\<rparr>) else None)"

text \<open>\<^verbatim>\<open>nmsg_io_destroy\<close>: an event for every element, then the outputs that are left are closed.\<close>

fun destroy_inputs :: "'u close_fp option \<Rightarrow> 'u \<Rightarrow> nat \<Rightarrow> 's nmsg_io_input list \<Rightarrow> 'u" where
  "destroy_inputs fp u i [] = u"
| "destroy_inputs fp u i (x # xs) =
     destroy_inputs fp (case fp of None \<Rightarrow> u | Some f \<Rightarrow>
       fst (f u \<lparr>ce_io_type = io_type_input, ce_close_type = close_type_eof, ce_index = i\<rparr> None)) (i + 1) xs"

fun destroy_outputs ::
  "(nmsg_output \<Rightarrow> (nmsg_res \<times> nmsg_output) run) \<Rightarrow> 'u close_fp option \<Rightarrow> 'u \<Rightarrow> nat \<Rightarrow> nmsg_io_output list \<Rightarrow>
     ('u \<times> (nmsg_res \<times> nmsg_output) option list) run" where
  "destroy_outputs cl fp u j [] = Ret (u, [])"
| "destroy_outputs cl fp u j (x # xs) =
     (let (u', out) = (case (io_output x, fp) of
          (Some out, Some f) \<Rightarrow>
            f u \<lparr>ce_io_type = io_type_output, ce_close_type = close_type_eof, ce_index = j\<rparr> (Some out)
        | (out, _) \<Rightarrow> (u, out))
      in run_bind (case out of None \<Rightarrow> Ret None | Some o' \<Rightarrow> run_bind (cl o') (\<lambda>r. Ret (Some r))) (\<lambda>r.
         run_bind (destroy_outputs cl fp u' (j + 1) xs) (\<lambda>(u'', rs). Ret (u'', r # rs))))"

definition nmsg_io_destroy ::
  "(nmsg_output \<Rightarrow> (nmsg_res \<times> nmsg_output) run) \<Rightarrow> ('s, 'u) nmsg_io \<Rightarrow>
     ('u \<times> (nmsg_res \<times> nmsg_output) option list) run" where
  "nmsg_io_destroy cl io =
     destroy_outputs cl (io_close_fp io) (destroy_inputs (io_close_fp io) (io_user io) 0 (io_inputs io)) 0 (io_outputs io)"

end
