(* ===== verification/Io_Props.thy ===== *)
theory Io_Props
  imports Io
begin

text \<open>
  What the threads of nmsg/io.c do to the outputs, in every interleaving of their steps.
\<close>

section \<open>Executions\<close>

text \<open>
  An execution with its history: the messages that threads took from their inputs, and those that
  they wrote to outputs.
\<close>

datatype io_event = Ev_read nat nmsg_message | Ev_write nat nat nmsg_message

definition copy_of :: "(nat \<Rightarrow> bool) \<Rightarrow> io_output_mode \<Rightarrow> nmsg_message \<Rightarrow> nmsg_message" where
  "copy_of ok mode m = (case mode of
     Stripe \<Rightarrow> m
   | Mirror \<Rightarrow> (case nmsg_message_dup ok m of Ret (Some d) \<Rightarrow> d | _ \<Rightarrow> m))"

definition io_events :: "(nat \<Rightarrow> bool) \<Rightarrow> io_output_mode \<Rightarrow> nat \<Rightarrow> io_pc \<Rightarrow> io_pc \<Rightarrow> io_event list" where
  "io_events ok mode i pc pc' =
     (case pc of
        Pc_read \<Rightarrow> (case pc' of Pc_write m js \<Rightarrow> [Ev_read i m] | _ \<Rightarrow> [])
      | Pc_write m (j # js) \<Rightarrow> (case pc' of Pc_count _ _ _ \<Rightarrow> [Ev_write i j (copy_of ok mode m)] | _ \<Rightarrow> [])
      | _ \<Rightarrow> [])"

inductive io_exec ::
  "writer \<Rightarrow> 's reader \<Rightarrow> (nat \<Rightarrow> bool) \<Rightarrow> ('s, 'u) nmsg_io \<times> nmsg_io_thr list \<Rightarrow> io_event list \<Rightarrow>
     ('s, 'u) nmsg_io \<times> nmsg_io_thr list \<Rightarrow> bool"
  for wr rd ok s where
  io_exec_start: "io_exec wr rd ok s [] s"
| io_exec_step: "io_exec wr rd ok s L (io, ts) \<Longrightarrow> i < length ts \<Longrightarrow> thr_pc (ts ! i) \<noteq> Pc_done \<Longrightarrow>
    io_thr_step wr rd ok now io (ts ! i) = Ret (io', t') \<Longrightarrow>
    io_exec wr rd ok s (L @ io_events ok (io_mode io) i (thr_pc (ts ! i)) (thr_pc t')) (io', ts[i := t'])"

text \<open>Every sequence of steps has a history.\<close>

lemma io_exec_complete: "(io_step wr rd ok)\<^sup>*\<^sup>* s s' \<Longrightarrow> \<exists>L. io_exec wr rd ok s L s'"
proof (induction rule: rtranclp_induct)
  case base
  show ?case using io_exec_start by blast
next
  case (step y z)
  then obtain L where L: "io_exec wr rd ok s L y" by blast
  from step(2) show ?case
    by cases (use L io_exec_step in blast)
qed

lemma io_run_exec:
  "io_exec wr rd ok s0 L s \<Longrightarrow> io_run wr rd ok sch s = Ret s' \<Longrightarrow>
     \<exists>M. io_exec wr rd ok s0 (L @ M) s' \<and> length M \<le> length sch"
proof (induction sch arbitrary: L s)
  case (Cons p sch)
  obtain i now where p: "p = (i, now)" by (cases p)
  obtain io ts where s: "s = (io, ts)" by (cases s)
  show ?case
  proof (cases "i < length ts \<and> thr_pc (ts ! i) \<noteq> Pc_done")
    case True
    with Cons.prems(2) obtain io' t' where st: "io_thr_step wr rd ok now io (ts ! i) = Ret (io', t')"
      "io_run wr rd ok sch (io', ts[i := t']) = Ret s'" by (auto simp: p s)
    let ?ev = "io_events ok (io_mode io) i (thr_pc (ts ! i)) (thr_pc t')"
    from Cons.IH [OF io_exec_step [OF Cons.prems(1) [unfolded s] conjunct1 [OF True] conjunct2 [OF True] st(1)] st(2)]
    obtain M where "io_exec wr rd ok s0 (L @ ?ev @ M) s'" "length M \<le> length sch" by auto
    moreover have "length ?ev \<le> 1" by (auto simp: io_events_def split: io_pc.splits list.splits)
    ultimately show ?thesis by (intro exI [of _ "?ev @ M"]) simp
  next
    case False
    have "io_run wr rd ok sch s = Ret s'"
    proof (cases "i < length ts")
      case i: True
      with False have "thr_pc (ts ! i) = Pc_done" by simp
      then have "io_thr_step wr rd ok now io (ts ! i) = Ret (io, ts ! i)" by (simp add: io_thr_step_def)
      with Cons.prems(2) i show ?thesis by (simp add: p s)
    qed (use Cons.prems(2) in \<open>simp add: p s\<close>)
    from Cons.IH [OF Cons.prems(1) this] show ?thesis by auto
  qed
qed auto

section \<open>Frame of a step\<close>

lemma map_update_same: "f x = f (xs ! i) \<Longrightarrow> map f (xs[i := x]) = map f xs"
  by (cases "i < length xs") (simp_all add: map_update list_update_beyond, metis list_update_id nth_map)

definition same_frame :: "('s, 'u) nmsg_io \<Rightarrow> ('s, 'u) nmsg_io \<Rightarrow> bool" where
  "same_frame io io' \<longleftrightarrow> io_mode io' = io_mode io \<and> io_close_fp io' = io_close_fp io \<and>
     io_count io' = io_count io \<and> io_interval io' = io_interval io \<and>
     length (io_inputs io') = length (io_inputs io) \<and> length (io_outputs io') = length (io_outputs io) \<and>
     (io_stop io \<longrightarrow> io_stop io')"

lemma same_frame_refl [simp]: "same_frame io io"
  by (simp add: same_frame_def)

lemma same_frame_trans: "same_frame a b \<Longrightarrow> same_frame b c \<Longrightarrow> same_frame a c"
  by (auto simp: same_frame_def)

lemma same_frame_set_output [simp]: "same_frame io (set_output j x io)"
  by (simp add: same_frame_def set_output_def)

lemma close_output_frame:
  "close_output io fp ty j = (b, io') \<Longrightarrow> same_frame io io' \<and> io_inputs io' = io_inputs io \<and>
     map io_out_count (io_outputs io') = map io_out_count (io_outputs io)"
  by (auto simp: close_output_def same_frame_def set_output_def Let_def split_def map_update_same split: if_splits)

lemma check_close_event_frame:
  "check_close_event now io j = (res, io') \<Longrightarrow> same_frame io io' \<and> io_inputs io' = io_inputs io \<and>
     map io_out_count (io_outputs io') = map io_out_count (io_outputs io)"
proof -
  assume a: "check_close_event now io j = (res, io')"
  show ?thesis
  proof (cases "io_output (io_outputs io ! j) = None \<or> io_close_fp io = None")
    case True
    with a show ?thesis by (auto simp: check_close_event_def same_frame_def split: if_splits)
  next
    case False
    then obtain fp where fp: "io_close_fp io = Some fp" "io_output (io_outputs io ! j) \<noteq> None" by auto
    obtain go io1 where g: "(if count_reached io j then close_output io fp close_type_count j else (True, io)) = (go, io1)"
      by fastforce
    have 1: "same_frame io io1 \<and> io_inputs io1 = io_inputs io \<and>
        map io_out_count (io_outputs io1) = map io_out_count (io_outputs io)"
      using g close_output_frame [of io fp close_type_count j go io1] by (auto split: if_splits)
    define io2 where "io2 = set_output j ((io_outputs io1 ! j)\<lparr>io_last := interval_start (io_interval io1) now\<rparr>) io1"
    have 2: "same_frame io1 io2 \<and> io_inputs io2 = io_inputs io1 \<and>
        map io_out_count (io_outputs io2) = map io_out_count (io_outputs io1)"
      by (simp add: io2_def set_output_def map_update_same same_frame_def)
    obtain go' io3 where g': "close_output io2 fp close_type_interval j = (go', io3)" by fastforce
    note 3 = close_output_frame [OF g']
    have "same_frame io io2" by (rule same_frame_trans) (use 1 2 in blast)+
    then have "same_frame io io3" by (rule same_frame_trans) (use 3 in blast)
    moreover have "io' = io1 \<or> io' = io3"
      using a fp g g' by (auto simp: check_close_event_def Let_def io2_def split: if_splits)
    ultimately show ?thesis using 1 2 3 by (elim disjE) simp_all
  qed
qed

lemma io_exit_simps [simp]:
  "thr_pc (io_exit res t) = Pc_exit" "thr_res (io_exit res t) = res" "thr_no (io_exit res t) = thr_no t"
  by (simp_all add: io_exit_def)

text \<open>The possible results of the reading step and of the writing step.\<close>

lemma io_thr_read_cases:
  assumes a: "io_thr_read rd io t = Ret (io', t')"
  obtains (quit) res m s' where "rd (ii_input (io_inputs io ! thr_no t)) = Ret (res, m, s')"
      "io' = io\<lparr>io_inputs := (io_inputs io)[thr_no t := (io_inputs io ! thr_no t)\<lparr>ii_input := s'\<rparr>]\<rparr>"
      "io_stop io \<or> res \<noteq> nmsg_res_success \<and> res \<noteq> nmsg_res_again"
      "thr_pc t' = Pc_exit" "thr_no t' = thr_no t" "thr_output t' = thr_output t" "thr_res t' = (if io_stop io then thr_res t else res)"
  | (again) m s' where "rd (ii_input (io_inputs io ! thr_no t)) = Ret (nmsg_res_again, m, s')" "\<not> io_stop io"
      "io' = io\<lparr>io_inputs := (io_inputs io)[thr_no t := (io_inputs io ! thr_no t)\<lparr>ii_input := s'\<rparr>]\<rparr>"
      "t' = t\<lparr>thr_pc := Pc_check False\<rparr>"
  | (msg) msg s' where "rd (ii_input (io_inputs io ! thr_no t)) = Ret (nmsg_res_success, Some msg, s')" "\<not> io_stop io"
      "io' = io\<lparr>io_inputs := (io_inputs io)[thr_no t := (io_inputs io ! thr_no t)
        \<lparr>ii_input := s', ii_count := ii_count (io_inputs io ! thr_no t) + 1\<rparr>]\<rparr>"
      "t' = t\<lparr>thr_pc := Pc_write msg (case io_mode io of
         Stripe \<Rightarrow> [thr_output t] | Mirror \<Rightarrow> [0..<length (io_outputs io)])\<rparr>"
proof -
  from a obtain res m s' where r: "rd (ii_input (io_inputs io ! thr_no t)) = Ret (res, m, s')"
    by (auto simp: io_thr_read_def Let_def)
  consider "io_stop io" | "\<not> io_stop io" "res = nmsg_res_again" | "\<not> io_stop io" "res = nmsg_res_success"
    | "\<not> io_stop io" "res \<noteq> nmsg_res_again" "res \<noteq> nmsg_res_success" by blast
  then show thesis
  proof cases
    case 1
    with a r show thesis by (intro quit [OF r]) (auto simp: io_thr_read_def Let_def)
  next
    case 2
    with a r show thesis by (intro again) (auto simp: io_thr_read_def Let_def)
  next
    case 3
    with a r obtain msg where "m = Some msg" by (auto simp: io_thr_read_def Let_def split: option.splits)
    with 3 a r show thesis by (intro msg) (auto simp: io_thr_read_def Let_def)
  next
    case 4
    with a r show thesis by (intro quit [OF r]) (auto simp: io_thr_read_def Let_def io_exit_def)
  qed
qed

lemma io_thr_write_cases:
  assumes a: "io_thr_write wr ok io t msg j js = Ret (io', t')"
  obtains (closed) "io_output (io_outputs io ! j) = None" "io_close_fp io \<noteq> None" "io' = io"
      "t' = io_exit nmsg_res_stop t"
  | (fail) out res out' msg' where "io_output (io_outputs io ! j) = Some out"
      "wr out (copy_of ok (io_mode io) msg) = Ret (res, out', msg')" "res \<noteq> nmsg_res_success"
      "io' = set_output j ((io_outputs io ! j)\<lparr>io_output := Some out'\<rparr>) io" "t' = io_exit res t"
  | (written) out out' msg' where "io_output (io_outputs io ! j) = Some out"
      "wr out (copy_of ok (io_mode io) msg) = Ret (nmsg_res_success, out', msg')"
      "io' = set_output j ((io_outputs io ! j)\<lparr>io_output := Some out'\<rparr>) io" "t' = t\<lparr>thr_pc := Pc_count j msg js\<rparr>"
proof -
  from a obtain m where m: "(case io_mode io of Stripe \<Rightarrow> Ret (Some msg) | Mirror \<Rightarrow> nmsg_message_dup ok msg) = Ret (Some m)"
    by (auto simp: io_thr_write_def split: option.splits)
  then have c: "copy_of ok (io_mode io) msg = m" by (cases "io_mode io") (simp_all add: copy_of_def)
  from a m obtain res where w: "io_write wr io j m = Ret (res, io')"
    "t' = (if res \<noteq> nmsg_res_success then io_exit res t else t\<lparr>thr_pc := Pc_count j msg js\<rparr>)"
    by (auto simp: io_thr_write_def)
  show thesis
  proof (cases "io_output (io_outputs io ! j)")
    case None
    with w show thesis by (intro closed) (auto simp: io_write_def nmsg_res.distinct split: if_splits)
  next
    case (Some out)
    with w(1) c obtain out' msg' where o: "wr out (copy_of ok (io_mode io) msg) = Ret (res, out', msg')"
      "io' = set_output j ((io_outputs io ! j)\<lparr>io_output := Some out'\<rparr>) io"
      by (auto simp: io_write_def Let_def)
    show thesis
    proof (cases "res = nmsg_res_success")
      case True
      with w(2) o Some show thesis by (intro written) simp_all
    next
      case False
      with w(2) o Some show thesis by (intro fail) simp_all
    qed
  qed
qed

section \<open>The ledger of a thread\<close>

definition reads_of :: "nat \<Rightarrow> io_event list \<Rightarrow> nmsg_message list" where
  "reads_of i L = concat (map (\<lambda>e. case e of Ev_read k m \<Rightarrow> if k = i then [m] else [] | _ \<Rightarrow> []) L)"

definition writes_of :: "nat \<Rightarrow> io_event list \<Rightarrow> (nat \<times> nmsg_message) list" where
  "writes_of i L = concat (map (\<lambda>e. case e of Ev_write k j m \<Rightarrow> if k = i then [(j, m)] else [] | _ \<Rightarrow> []) L)"

definition written_to :: "nat \<Rightarrow> io_event list \<Rightarrow> nmsg_message list" where
  "written_to j L = concat (map (\<lambda>e. case e of Ev_write k j' m \<Rightarrow> if j' = j then [m] else [] | _ \<Rightarrow> []) L)"

lemma history_simps [simp]:
  "reads_of i [] = []" "reads_of i (L @ M) = reads_of i L @ reads_of i M"
  "reads_of i [Ev_read k m] = (if k = i then [m] else [])" "reads_of i [Ev_write k j m] = []"
  "writes_of i [] = []" "writes_of i (L @ M) = writes_of i L @ writes_of i M"
  "writes_of i [Ev_read k m] = []" "writes_of i [Ev_write k j m] = (if k = i then [(j, m)] else [])"
  "written_to j [] = []" "written_to j (L @ M) = written_to j L @ written_to j M"
  "written_to j [Ev_read k m] = []" "written_to j [Ev_write k j' m] = (if j' = j then [m] else [])"
  by (simp_all add: reads_of_def writes_of_def written_to_def)

text \<open>
  Where the \<open>k\<close>-th message of a thread goes: one output after the other, or all; and what a thread
  writes for the messages \<open>ms\<close>.
\<close>

definition targets :: "io_output_mode \<Rightarrow> nat \<Rightarrow> nat \<Rightarrow> nat list" where
  "targets mode n k = (case mode of Stripe \<Rightarrow> [k mod n] | Mirror \<Rightarrow> [0..<n])"

definition expected_writes :: "(nat \<Rightarrow> bool) \<Rightarrow> io_output_mode \<Rightarrow> nat \<Rightarrow> nmsg_message list \<Rightarrow> (nat \<times> nmsg_message) list" where
  "expected_writes ok mode n ms =
     concat (map (\<lambda>(k, m). map (\<lambda>j. (j, copy_of ok mode m)) (targets mode n k)) (enumerate 0 ms))"

lemma expected_writes_simps [simp]:
  "expected_writes ok mode n [] = []"
  "expected_writes ok mode n (ms @ [m]) =
     expected_writes ok mode n ms @ map (\<lambda>j. (j, copy_of ok mode m)) (targets mode n (length ms))"
  by (simp_all add: expected_writes_def enumerate_append_eq)

text \<open>A thread between the reading of a message and the advance to the next output.\<close>

fun in_message :: "io_pc \<Rightarrow> bool" where
  "in_message (Pc_write _ _) = True"
| "in_message (Pc_count _ _ _) = True"
| "in_message (Pc_store _ _ _ _) = True"
| "in_message (Pc_total _ _) = True"
| "in_message (Pc_check adv) = adv"
| "in_message (Pc_stop adv) = adv"
| "in_message _ = False"

fun unwritten :: "(nmsg_message \<Rightarrow> nmsg_message) \<Rightarrow> io_pc \<Rightarrow> (nat \<times> nmsg_message) list" where
  "unwritten cp (Pc_write m js) = map (\<lambda>j. (j, cp m)) js"
| "unwritten cp (Pc_count _ m js) = map (\<lambda>j. (j, cp m)) js"
| "unwritten cp (Pc_store _ _ m js) = map (\<lambda>j. (j, cp m)) js"
| "unwritten cp (Pc_total m js) = map (\<lambda>j. (j, cp m)) js"
| "unwritten cp _ = []"

definition ledger ::
  "(nat \<Rightarrow> bool) \<Rightarrow> io_output_mode \<Rightarrow> nat \<Rightarrow> nmsg_io_thr \<Rightarrow> nmsg_message list \<Rightarrow> (nat \<times> nmsg_message) list \<Rightarrow> bool" where
  "ledger ok mode n t R W \<longleftrightarrow>
     (if thr_pc t \<in> {Pc_exit, Pc_done}
      then (\<exists>rest. expected_writes ok mode n R = W @ rest \<and> (thr_res t \<in> {nmsg_res_success, nmsg_res_eof} \<longrightarrow> rest = []))
      else thr_res t = nmsg_res_success \<and>
        expected_writes ok mode n R = W @ unwritten (copy_of ok mode) (thr_pc t) \<and>
        (if in_message (thr_pc t) then R \<noteq> [] \<and> thr_output t = (length R - 1) mod n
         else thr_output t = length R mod n))"

text \<open>An output never answers with the code for the end of an input.\<close>

definition no_eof :: "writer \<Rightarrow> bool" where
  "no_eof wr \<longleftrightarrow> (\<forall>out m out' m'. wr out m \<noteq> Ret (nmsg_res_eof, out', m'))"

lemma ledger_step:
  assumes l: "ledger ok (io_mode io) n t R W" and n: "length (io_outputs io) = n" "0 < n"
    and pc: "thr_pc t \<noteq> Pc_done" and st: "io_thr_step wr rd ok now io t = Ret (io', t')"
    and ev: "ev = io_events ok (io_mode io) i (thr_pc t) (thr_pc t')" and eof: "no_eof wr"
  shows "ledger ok (io_mode io) n t' (R @ reads_of i ev) (W @ writes_of i ev)"
proof (cases "thr_pc t")
  case Pc_read
  let ?t = "t\<lparr>thr_now := now\<rparr>"
  have "io_thr_read rd io ?t = Ret (io', t')" using st Pc_read by (simp add: io_thr_step_def)
  then show ?thesis
  proof (cases rule: io_thr_read_cases)
    case (quit res m s')
    with l Pc_read show ?thesis by (simp add: ledger_def ev io_events_def)
  next
    case (again m s')
    with l Pc_read show ?thesis by (simp add: ledger_def ev io_events_def)
  next
    case (msg m s')
    with l Pc_read n show ?thesis
      by (cases "io_mode io") (simp_all add: ledger_def ev io_events_def targets_def)
  qed
next
  case (Pc_write m js)
  show ?thesis
  proof (cases js)
    case Nil
    with l Pc_write st show ?thesis by (auto simp: io_thr_step_def ledger_def ev io_events_def)
  next
    case (Cons j js')
    then have "io_thr_write wr ok io t m j js' = Ret (io', t')" using st Pc_write by (simp add: io_thr_step_def)
    then show ?thesis
      by (cases rule: io_thr_write_cases)
        (use l Pc_write Cons eof in \<open>auto simp: ledger_def ev io_events_def io_exit_def no_eof_def\<close>)
  qed
next
  case (Pc_stop adv)
  have nx: "(if k mod n + 1 < n then k mod n + 1 else 0) = (k + 1) mod n" for k
    using mod_less_divisor [OF n(2), of k] by (auto simp: mod_Suc)
  show ?thesis
  proof (cases "io_stop io \<or> \<not> adv")
    case True
    with l Pc_stop st show ?thesis by (auto simp: io_thr_step_def ledger_def ev io_events_def split: if_splits)
  next
    case False
    have "R \<noteq> []" "thr_output t = (length R - 1) mod n" using l Pc_stop False by (auto simp: ledger_def)
    then have "(if thr_output t + 1 < n then thr_output t + 1 else 0) = length R mod n"
      using nx [of "length R - 1"] by (cases R) auto
    with l Pc_stop st False n(1) show ?thesis by (auto simp: io_thr_step_def ledger_def ev io_events_def)
  qed
qed (use l pc st n in \<open>auto simp: io_thr_step_def ledger_def ev io_events_def split: if_splits\<close>)

section \<open>Inputs and outputs\<close>

inductive read_chain :: "'s reader \<Rightarrow> 's \<Rightarrow> nmsg_message list \<Rightarrow> 's \<Rightarrow> bool" for rd where
  chain_start: "read_chain rd s [] s"
| chain_read: "read_chain rd s ms s1 \<Longrightarrow> rd s1 = Ret (res, m, s2) \<Longrightarrow>
    read_chain rd s (ms @ (if res = nmsg_res_success then (case m of None \<Rightarrow> [] | Some x \<Rightarrow> [x]) else [])) s2"

fun write_chain :: "writer \<Rightarrow> nmsg_output \<Rightarrow> nmsg_message list \<Rightarrow> nmsg_output \<Rightarrow> bool" where
  "write_chain wr out [] out' \<longleftrightarrow> out' = out"
| "write_chain wr out (m # ms) out' \<longleftrightarrow>
     (\<exists>out1 m1. wr out m = Ret (nmsg_res_success, out1, m1) \<and> write_chain wr out1 ms out')"

lemma write_chain_snoc:
  "write_chain wr out ms out1 \<Longrightarrow> wr out1 m = Ret (nmsg_res_success, out', m') \<Longrightarrow> write_chain wr out (ms @ [m]) out'"
  by (induction ms arbitrary: out) auto

text \<open>What has happened to the input of a thread and to an output since the start.\<close>

definition input_read :: "'s reader \<Rightarrow> 's \<Rightarrow> nmsg_message list \<Rightarrow> bool \<Rightarrow> nmsg_io_thr \<Rightarrow> 's \<Rightarrow> bool" where
  "input_read rd s0 R stop t s \<longleftrightarrow> (\<exists>lost. read_chain rd s0 (R @ lost) s \<and>
     (lost \<noteq> [] \<longrightarrow> stop \<and> thr_pc t \<in> {Pc_exit, Pc_done}))"

definition output_written :: "writer \<Rightarrow> nmsg_io_output \<Rightarrow> nmsg_message list \<Rightarrow> nmsg_io_output \<Rightarrow> bool" where
  "output_written wr x0 ms x \<longleftrightarrow>
     (\<exists>out0 out. io_output x0 = Some out0 \<and> io_output x = Some out \<and> write_chain wr out0 ms out)"

lemma step_frame:
  assumes st: "io_thr_step wr rd ok now io t = Ret (io', t')"
  shows "same_frame io io' \<and> thr_no t' = thr_no t"
proof (cases "thr_pc t")
  case Pc_read
  then have "io_thr_read rd io (t\<lparr>thr_now := now\<rparr>) = Ret (io', t')" using st by (simp add: io_thr_step_def)
  then show ?thesis
    by (cases rule: io_thr_read_cases)
      (simp_all add: same_frame_def)
next
  case (Pc_write m js)
  show ?thesis
  proof (cases js)
    case (Cons j js')
    then have "io_thr_write wr ok io t m j js' = Ret (io', t')" using st Pc_write by (simp add: io_thr_step_def)
    then show ?thesis by (cases rule: io_thr_write_cases) (simp_all add: io_exit_def)
  qed (use st Pc_write in \<open>auto simp: io_thr_step_def\<close>)
next
  case (Pc_check adv)
  obtain res io2 where c: "check_close_event (thr_now t) io (thr_output t) = (res, io2)" by fastforce
  have "same_frame io io2" using check_close_event_frame [OF c] by blast
  with Pc_check st c show ?thesis by (auto simp: io_thr_step_def)
qed (use st in \<open>auto simp: io_thr_step_def same_frame_def set_output_def split: if_splits option.splits\<close>)

lemma input_read_running:
  "input_read rd s0 R b t s \<Longrightarrow> thr_pc t \<noteq> Pc_exit \<Longrightarrow> thr_pc t \<noteq> Pc_done \<Longrightarrow> input_read rd s0 R b' t' s"
  unfolding input_read_def by (metis append_Nil2 insertE singletonD)

lemma step_inputs:
  assumes st: "io_thr_step wr rd ok now io t = Ret (io', t')" and i: "thr_no t = i" "i < length (io_inputs io)"
    and r: "input_read rd s0 R (io_stop io) t (ii_input (io_inputs io ! i))"
    and ev: "ev = io_events ok (io_mode io) i (thr_pc t) (thr_pc t')" and pc: "thr_pc t \<noteq> Pc_done"
  shows "input_read rd s0 (R @ reads_of i ev) (io_stop io') t' (ii_input (io_inputs io' ! i)) \<and>
    (\<forall>k. k \<noteq> i \<longrightarrow> io_inputs io' ! k = io_inputs io ! k)"
proof (cases "thr_pc t")
  case Pc_read
  with r have ch: "read_chain rd s0 R (ii_input (io_inputs io ! i))" by (auto simp: input_read_def)
  have "io_thr_read rd io (t\<lparr>thr_now := now\<rparr>) = Ret (io', t')" using st Pc_read by (simp add: io_thr_step_def)
  then show ?thesis
  proof (cases rule: io_thr_read_cases)
    case (quit res m s')
    have "read_chain rd s0 (R @ (if res = nmsg_res_success then case m of None \<Rightarrow> [] | Some x \<Rightarrow> [x] else [])) s'"
      by (rule chain_read [OF ch]) (use quit(1) i in simp)
    moreover have "ii_input (io_inputs io' ! i) = s'" "io_stop io' = io_stop io" "reads_of i ev = []"
      using quit i Pc_read by (simp_all add: ev io_events_def)
    ultimately show ?thesis
      using quit(2-4) i by (auto simp: input_read_def)
  next
    case (again m s')
    have "read_chain rd s0 (R @ (if nmsg_res_again = nmsg_res_success then case m of None \<Rightarrow> [] | Some x \<Rightarrow> [x] else [])) s'"
      by (rule chain_read [OF ch]) (use again(1) i in simp)
    then have "read_chain rd s0 R s'" by simp
    with again i Pc_read show ?thesis by (simp add: input_read_def ev io_events_def)
  next
    case (msg m s')
    have "read_chain rd s0 (R @ (if nmsg_res_success = nmsg_res_success then case Some m of None \<Rightarrow> [] | Some x \<Rightarrow> [x] else [])) s'"
      by (rule chain_read [OF ch]) (use msg(1) i in simp)
    then have "read_chain rd s0 (R @ [m]) s'" by simp
    with msg i Pc_read show ?thesis by (simp add: input_read_def ev io_events_def)
  qed
next
  case (Pc_write m js)
  show ?thesis
  proof (cases js)
    case (Cons j js')
    then have "io_thr_write wr ok io t m j js' = Ret (io', t')" using st Pc_write by (simp add: io_thr_step_def)
    then show ?thesis
      by (cases rule: io_thr_write_cases)
        (use r Pc_write Cons input_read_running [OF r] in \<open>auto simp: ev io_events_def set_output_def\<close>)
  qed (use st r Pc_write in \<open>auto simp: io_thr_step_def input_read_def ev io_events_def\<close>)
next
  case (Pc_check adv)
  obtain res io2 where c: "check_close_event (thr_now t) io (thr_output t) = (res, io2)" by fastforce
  have "io_inputs io2 = io_inputs io" using check_close_event_frame [OF c] by blast
  with Pc_check st c r show ?thesis by (auto simp: io_thr_step_def input_read_def ev io_events_def)
next
  case Pc_exit
  with st r show ?thesis
    by (cases "io_atexit io") (auto simp: io_thr_step_def input_read_def ev io_events_def intro: exI [of _ "[]"])
qed (use st pc input_read_running [OF r] in
  \<open>auto simp: io_thr_step_def set_output_def ev io_events_def split: if_splits option.splits\<close>)

lemma step_outputs:
  assumes st: "io_thr_step wr rd ok now io t = Ret (io', t')" and cl: "io_close_fp io = None"
    and fine: "thr_res t' \<in> {nmsg_res_success, nmsg_res_eof}"
    and ev: "ev = io_events ok (io_mode io) i (thr_pc t) (thr_pc t')" and eof: "no_eof wr"
    and x: "output_written wr x0 W (io_outputs io ! k)" "k < length (io_outputs io)"
  shows "output_written wr x0 (W @ written_to k ev) (io_outputs io' ! k)"
proof (cases "\<exists>m j js. thr_pc t = Pc_write m (j # js)")
  case True
  then obtain m j js where pc: "thr_pc t = Pc_write m (j # js)" by blast
  then have "io_thr_write wr ok io t m j js = Ret (io', t')" using st by (simp add: io_thr_step_def)
  then show ?thesis
  proof (cases rule: io_thr_write_cases)
    case (written out out' msg')
    show ?thesis
    proof (cases "j = k")
      case True
      from x(1) written(1) True obtain out0 where o: "io_output x0 = Some out0" "write_chain wr out0 W out"
        by (auto simp: output_written_def)
      have "write_chain wr out0 (W @ [copy_of ok (io_mode io) m]) out'" by (rule write_chain_snoc [OF o(2) written(2)])
      with o(1) written pc True x(2) show ?thesis by (simp add: output_written_def set_output_def ev io_events_def)
    next
      case False
      with x written pc show ?thesis by (simp add: set_output_def ev io_events_def)
    qed
  qed (use cl fine eof in \<open>auto simp: io_exit_def no_eof_def\<close>)
next
  case False
  have e: "written_to k ev = []"
    using False by (auto simp: ev io_events_def split: io_pc.splits list.splits)
  have "io_output (io_outputs io' ! k) = io_output (io_outputs io ! k)"
  proof (cases "thr_pc t")
    case Pc_read
    then have "io_thr_read rd io (t\<lparr>thr_now := now\<rparr>) = Ret (io', t')" using st by (simp add: io_thr_step_def)
    then show ?thesis by (cases rule: io_thr_read_cases) simp_all
  next
    case (Pc_write m js)
    with False st show ?thesis by (cases js) (auto simp: io_thr_step_def)
  next
    case (Pc_check adv)
    with st cl show ?thesis by (auto simp: io_thr_step_def check_close_event_def split: if_splits)
  next
    case (Pc_store j c m js)
    with st x(2) show ?thesis by (cases "j = k") (auto simp: io_thr_step_def set_output_def)
  qed (use st in \<open>auto simp: io_thr_step_def split: if_splits option.splits\<close>)
  with x(1) e show ?thesis by (simp add: output_written_def)
qed

section \<open>Every execution\<close>

lemma step_result:
  assumes "io_thr_step wr rd ok now io t = Ret (io', t')" and "thr_pc t \<in> {Pc_exit, Pc_done} \<or> thr_res t = nmsg_res_success"
    and "thr_res t' \<in> {nmsg_res_success, nmsg_res_eof}"
  shows "thr_res t \<in> {nmsg_res_success, nmsg_res_eof}"
  using assms by (auto simp: io_thr_step_def)

definition io_invariant ::
  "writer \<Rightarrow> 's reader \<Rightarrow> (nat \<Rightarrow> bool) \<Rightarrow> ('s, 'u) nmsg_io \<Rightarrow> io_event list \<Rightarrow> ('s, 'u) nmsg_io \<times> nmsg_io_thr list \<Rightarrow> bool" where
  "io_invariant wr rd ok io0 L s \<longleftrightarrow> (case s of (io, ts) \<Rightarrow>
     same_frame io0 io \<and> length ts = length (io_inputs io0) \<and>
     (\<forall>i < length ts. thr_no (ts ! i) = i \<and>
        ledger ok (io_mode io0) (length (io_outputs io0)) (ts ! i) (reads_of i L) (writes_of i L) \<and>
        input_read rd (ii_input (io_inputs io0 ! i)) (reads_of i L) (io_stop io) (ts ! i) (ii_input (io_inputs io ! i))) \<and>
     (io_close_fp io0 = None \<longrightarrow> (\<forall>t \<in> set ts. thr_res t \<in> {nmsg_res_success, nmsg_res_eof}) \<longrightarrow>
        (\<forall>k < length (io_outputs io0). output_written wr (io_outputs io0 ! k) (written_to k L) (io_outputs io ! k))))"

lemma io_invariant_exec:
  assumes "io_exec wr rd ok (io0, io_threads io0) L s" and out: "io_outputs io0 \<noteq> []"
    and open': "\<forall>x \<in> set (io_outputs io0). io_output x \<noteq> None" and eof: "no_eof wr"
  shows "io_invariant wr rd ok io0 L s"
  using assms(1)
proof (induction rule: io_exec.induct)
  case io_exec_start
  have "output_written wr (io_outputs io0 ! k) [] (io_outputs io0 ! k)" if "k < length (io_outputs io0)" for k
    using that open' by (auto simp: output_written_def)
  moreover have "input_read rd s [] b t s" for s b t by (auto simp: input_read_def intro!: exI [of _ "[]"] chain_start)
  ultimately show ?case by (simp add: io_invariant_def io_threads_def ledger_def)
next
  case (io_exec_step L io ts i now io' t')
  define ev where "ev = io_events ok (io_mode io) i (thr_pc (ts ! i)) (thr_pc t')"
  have inv: "same_frame io0 io" "length ts = length (io_inputs io0)"
    "\<And>k. k < length ts \<Longrightarrow> thr_no (ts ! k) = k \<and>
      ledger ok (io_mode io0) (length (io_outputs io0)) (ts ! k) (reads_of k L) (writes_of k L) \<and>
      input_read rd (ii_input (io_inputs io0 ! k)) (reads_of k L) (io_stop io) (ts ! k) (ii_input (io_inputs io ! k))"
    "io_close_fp io0 = None \<Longrightarrow> \<forall>t \<in> set ts. thr_res t \<in> {nmsg_res_success, nmsg_res_eof} \<Longrightarrow> k < length (io_outputs io0) \<Longrightarrow>
      output_written wr (io_outputs io0 ! k) (written_to k L) (io_outputs io ! k)" for k
    using io_exec_step.IH by (simp_all add: io_invariant_def)
  have fr: "same_frame io io'" "thr_no t' = thr_no (ts ! i)" using step_frame [OF io_exec_step.hyps(4)] by simp_all
  have same: "same_frame io0 io'" by (rule same_frame_trans [OF inv(1) fr(1)])
  note me = inv(3) [OF io_exec_step.hyps(2)]
  have mode: "io_mode io = io_mode io0" "length (io_outputs io) = length (io_outputs io0)"
    "length (io_inputs io) = length (io_inputs io0)" "io_close_fp io = io_close_fp io0"
    using inv(1) by (simp_all add: same_frame_def)
  have led: "ledger ok (io_mode io0) (length (io_outputs io0)) t' (reads_of i L @ reads_of i ev) (writes_of i L @ writes_of i ev)"
    using ledger_step [OF _ mode(2) _ io_exec_step.hyps(3,4) ev_def eof] me out mode(1) by simp
  have i: "i < length (io_inputs io)" using io_exec_step.hyps(2) inv(2) mode(3) by simp
  note si = step_inputs [OF io_exec_step.hyps(4) conjunct1 [OF me] i conjunct2 [OF conjunct2 [OF me]] ev_def io_exec_step.hyps(3)]
  have inp: "input_read rd (ii_input (io_inputs io0 ! i)) (reads_of i L @ reads_of i ev) (io_stop io') t' (ii_input (io_inputs io' ! i))"
    "\<And>k. k \<noteq> i \<Longrightarrow> io_inputs io' ! k = io_inputs io ! k"
    using si by blast+
  have ev_own: "reads_of k ev = []" "writes_of k ev = []" if "k \<noteq> i" for k
    using that by (auto simp: ev_def io_events_def split: io_pc.splits list.splits)
  have others: "input_read rd s0 R (io_stop io') t s" if "input_read rd s0 R (io_stop io) t s" for s0 R t s
    using that fr(1) unfolding input_read_def same_frame_def by blast
  have thr: "thr_no (ts[i := t'] ! k) = k \<and>
      ledger ok (io_mode io0) (length (io_outputs io0)) (ts[i := t'] ! k) (reads_of k (L @ ev)) (writes_of k (L @ ev)) \<and>
      input_read rd (ii_input (io_inputs io0 ! k)) (reads_of k (L @ ev)) (io_stop io') (ts[i := t'] ! k) (ii_input (io_inputs io' ! k))"
    if "k < length ts" for k
  proof (cases "k = i")
    case True
    with me fr(2) led inp(1) io_exec_step.hyps(2) show ?thesis by simp
  next
    case False
    with inv(3) [OF that] others inp(2) [OF False] ev_own [OF False] show ?thesis by simp
  qed
  have outs: "output_written wr (io_outputs io0 ! k) (written_to k (L @ ev)) (io_outputs io' ! k)"
    if a: "io_close_fp io0 = None" "\<forall>t \<in> set (ts[i := t']). thr_res t \<in> {nmsg_res_success, nmsg_res_eof}"
      "k < length (io_outputs io0)" for k
  proof -
    have t': "thr_res t' \<in> {nmsg_res_success, nmsg_res_eof}"
      using a(2) io_exec_step.hyps(2) by (simp add: set_update_memI)
    have ti: "thr_res (ts ! i) \<in> {nmsg_res_success, nmsg_res_eof}"
      by (rule step_result [OF io_exec_step.hyps(4) _ t']) (use me in \<open>auto simp: ledger_def split: if_splits\<close>)
    have "thr_res (ts ! m) \<in> {nmsg_res_success, nmsg_res_eof}" if "m < length ts" for m
    proof (cases "m = i")
      case False
      then have "ts[i := t'] ! m = ts ! m" by simp
      moreover have "ts[i := t'] ! m \<in> set (ts[i := t'])" using that by (intro nth_mem) simp
      ultimately show ?thesis using a(2) by metis
    qed (use ti in simp)
    then have "\<forall>t \<in> set ts. thr_res t \<in> {nmsg_res_success, nmsg_res_eof}" by (metis in_set_conv_nth)
    from step_outputs [OF io_exec_step.hyps(4) _ t' ev_def eof inv(4) [OF a(1) this a(3)]] a mode show ?thesis by simp
  qed
  show ?case
    using same inv(2) thr outs unfolding io_invariant_def ev_def by (simp only: prod.case length_list_update) blast
qed

end
