(* ===== verification/Io_Count.thy ===== *)
theory Io_Count
  imports Io_Props
begin

text \<open>
  Properties of the loop of nmsg/io.c: delivery in every interleaving, the limit on the number of
  payloads per output, and where that limit fails.
\<close>

section \<open>Delivery\<close>

lemma io_loop_start_outputs:
  "fst (io_loop_start now io) = io0 \<Longrightarrow> snd (io_loop_start now io) = io_threads io0 \<and> io_inputs io0 = io_inputs io \<and>
     io_mode io0 = io_mode io \<and> io_close_fp io0 = io_close_fp io \<and> io_count io0 = io_count io \<and> io_stop io0 = io_stop io \<and>
     length (io_outputs io0) = length (io_outputs io) \<and>
     (\<forall>k < length (io_outputs io). io_output (io_outputs io0 ! k) = io_output (io_outputs io ! k) \<and>
        io_out_count (io_outputs io0 ! k) = io_out_count (io_outputs io ! k))"
  unfolding io_loop_start_def init_timespec_intervals_def Let_def by (cases "io_interval io > 0") auto

lemma io_loop_ledger:
  assumes steps: "(io_step wr rd ok)\<^sup>*\<^sup>* (io_loop_start now io) (io', ts)"
    and out: "io_outputs io \<noteq> []" "\<forall>x \<in> set (io_outputs io). io_output x \<noteq> None" "io_close_fp io = None"
    and eof: "no_eof wr" and ended: "\<forall>t \<in> set ts. thr_pc t = Pc_done \<and> thr_res t \<in> {nmsg_res_success, nmsg_res_eof}"
  shows "nmsg_io_loop_end (io', ts) = Some (nmsg_res_success, io'\<lparr>io_stopped := True\<rparr>) \<and>
    (\<exists>L. (\<forall>i < length (io_inputs io). (\<exists>lost. (lost \<noteq> [] \<longrightarrow> io_stop io') \<and>
        read_chain rd (ii_input (io_inputs io ! i)) (reads_of i L @ lost) (ii_input (io_inputs io' ! i))) \<and>
        writes_of i L = expected_writes ok (io_mode io) (length (io_outputs io)) (reads_of i L)) \<and>
      (\<forall>k < length (io_outputs io). output_written wr (io_outputs io ! k) (written_to k L) (io_outputs io' ! k)))"
proof -
  define io0 where "io0 = fst (io_loop_start now io)"
  note s = io_loop_start_outputs [OF io0_def [symmetric]]
  have st: "io_loop_start now io = (io0, io_threads io0)" using s by (simp add: io0_def prod_eq_iff)
  from io_exec_complete [OF steps] obtain L where L: "io_exec wr rd ok (io0, io_threads io0) L (io', ts)"
    unfolding st by blast
  have ne: "io_outputs io0 \<noteq> []" using s out(1) by auto
  have op: "\<forall>x \<in> set (io_outputs io0). io_output x \<noteq> None"
    using s out(2) by (metis in_set_conv_nth)
  have inv: "io_invariant wr rd ok io0 L (io', ts)" by (rule io_invariant_exec [OF L ne op eof])
  have fin: "thr_pc (ts ! i) = Pc_done" "thr_res (ts ! i) \<in> {nmsg_res_success, nmsg_res_eof}" if "i < length ts" for i
    using ended that by auto
  have len: "length ts = length (io_inputs io)" using inv s by (simp add: io_invariant_def)
  have thr: "(\<exists>lost. (lost \<noteq> [] \<longrightarrow> io_stop io') \<and>
      read_chain rd (ii_input (io_inputs io ! i)) (reads_of i L @ lost) (ii_input (io_inputs io' ! i))) \<and>
      writes_of i L = expected_writes ok (io_mode io) (length (io_outputs io)) (reads_of i L)" if i: "i < length (io_inputs io)" for i
  proof -
    have "ledger ok (io_mode io0) (length (io_outputs io0)) (ts ! i) (reads_of i L) (writes_of i L)"
      "input_read rd (ii_input (io_inputs io0 ! i)) (reads_of i L) (io_stop io') (ts ! i) (ii_input (io_inputs io' ! i))"
      using inv i len by (auto simp: io_invariant_def)
    then show ?thesis using fin [of i] i len s by (auto simp: ledger_def input_read_def)
  qed
  have outs: "output_written wr (io_outputs io ! k) (written_to k L) (io_outputs io' ! k)" if "k < length (io_outputs io)" for k
    using inv that s out(3) ended by (auto simp: io_invariant_def output_written_def)
  have "nmsg_io_loop_end (io', ts) = Some (nmsg_res_success, io'\<lparr>io_stopped := True\<rparr>)"
    using ended by (auto simp: nmsg_io_loop_end_def io_loop_result_def)
  then show ?thesis using thr outs by blast
qed

text \<open>No writer of the library answers with the code for the end of an input.\<close>

lemma write_file_no_eof: "output_nmsg_write_file st buf = (res, st') \<Longrightarrow> res \<noteq> nmsg_res_eof"
  using output_write_file_spec [of st buf] by auto

lemma emit_no_eof: "output_emit st buf = Ret (res, st') \<Longrightarrow> res \<noteq> nmsg_res_eof"
  using write_file_no_eof [of st buf res st']
  by (auto simp: output_emit_def output_nmsg_write_sock_def split: out_type.splits list.splits write_answer.splits if_splits)

lemma serialize_no_eof: "nmsg_message_serialize ok ts m = Ret (res, m') \<Longrightarrow> res \<noteq> nmsg_res_eof"
  by (auto simp: nmsg_message_serialize_def nmsg_message_init_payload_def split: option.splits if_splits)

lemma container_serialize_no_eof:
  "nmsg_container_serialize pb z ok c h zl seq sid = Ret (Inl e, c') \<Longrightarrow> e \<noteq> nmsg_res_eof"
  by (auto simp: nmsg_container_serialize_def Let_def split: if_splits)

lemma container_add_no_eof: "output_container_add pb ok ts st m = Ret (res, st', m') \<Longrightarrow> res \<noteq> nmsg_res_eof"
  by (auto simp: output_container_add_def nmsg_container_add_def Let_def split: option.splits if_splits
      dest: serialize_no_eof)

lemma new_container_no_eof: "output_new_container ok res st = (res', st') \<Longrightarrow> res \<noteq> nmsg_res_eof \<Longrightarrow> res' \<noteq> nmsg_res_eof"
  by (auto simp: output_new_container_def split: option.splits)

lemma write_container_no_eof:
  assumes "output_nmsg_write_container pb z ok st = Ret (res, st')"
  shows "res \<noteq> nmsg_res_eof"
proof -
  from assms obtain c r c' res2 st2 where c: "nmsg_container_serialize pb z ok c True (so_do_zlib st) (so_sequence st)
      (so_sequence_id st) = Ret (r, c')" and e: "(case r of Inl e \<Rightarrow> Ret (e, (output_next_sequence st)\<lparr>so_c := Some c'\<rparr>)
        | Inr buf \<Rightarrow> output_emit ((output_next_sequence st)\<lparr>so_c := Some c'\<rparr>) buf) = Ret (res2, st2)"
      and n: "output_new_container ok res2 st2 = (res, st')"
    by (auto simp: output_nmsg_write_container_def Let_def split: option.splits)
  have "res2 \<noteq> nmsg_res_eof"
    using c e by (cases r) (auto dest: container_serialize_no_eof emit_no_eof)
  then show ?thesis by (rule new_container_no_eof [OF n])
qed

lemma frag_loop_no_eof:
  "output_frag_loop pb ok flags nf i css res st = Ret (res', st') \<Longrightarrow> res \<noteq> nmsg_res_eof \<Longrightarrow> res' \<noteq> nmsg_res_eof"
  by (induction css arbitrary: i res st) (auto split: if_splits dest: emit_no_eof)

lemma frag_write_no_eof:
  assumes "output_frag_write pb z ok rnd st = Ret (res, st')"
  shows "res \<noteq> nmsg_res_eof"
proof -
  from assms obtain c r c' where c: "so_c st = Some c" "nmsg_container_serialize pb z ok c False (so_do_zlib st)
      (so_sequence st) (so_sequence_id st) = Ret (r, c')"
    by (auto simp: output_frag_write_def Let_def split: option.splits)
  show ?thesis
  proof (cases r)
    case (Inl e)
    with assms c show ?thesis by (auto simp: output_frag_write_def Let_def dest: container_serialize_no_eof)
  next
    case (Inr packed)
    with assms c obtain res2 st2 where "res2 \<noteq> nmsg_res_eof" "output_new_container ok res2 st2 = (res, st')"
      by (auto simp: output_frag_write_def Let_def split: if_splits dest: emit_no_eof frag_loop_no_eof)
    then show ?thesis by (metis new_container_no_eof)
  qed
qed

lemma output_nmsg_write_no_eof: "output_nmsg_write pb z ok ts rnd st m = Ret (res, st', m') \<Longrightarrow> res \<noteq> nmsg_res_eof"
  by (auto simp: output_nmsg_write_def Let_def split: option.splits if_splits
      dest: container_add_no_eof write_container_no_eof frag_write_no_eof)

lemma nmsg_output_write_no_eof:
  assumes "\<forall>m. pres m \<noteq> nmsg_res_eof"
  shows "no_eof (nmsg_output_write pb z pres ok ts rnd)"
  using assms unfolding no_eof_def nmsg_output_write_def
  by (auto simp: split: out_kind.splits if_splits dest: serialize_no_eof output_nmsg_write_no_eof)

text \<open>The writes of an output in one go.\<close>

lemma write_chain_writes:
  "write_chain (nmsg_output_write pb z pres ok ts rnd) out ms out' \<longleftrightarrow>
     nmsg_output_writes pb z pres ok ts rnd out ms = Ret (nmsg_res_success, out')"
  by (induction ms arbitrary: out) (auto split: if_splits)

text \<open>
  C10. However the steps of the threads are interleaved: when the loop, which has no close callback, has ended without an
  error, a history of reads and writes explains the state. Each thread took the messages of its input in
  order, and wrote each of them, in order: striped, to one output after the other, or mirrored, to
  every output. Each output was written exactly the messages that the history names for it, in the
  order of the history. Only a message that was read when the loop had been told to stop is lost.
\<close>

theorem io_loop_delivers:
  assumes "(io_step (nmsg_output_write pb z pres wok wts rnd) rd ok)\<^sup>*\<^sup>* (io_loop_start now io) (io', ts)"
    and "io_outputs io \<noteq> []" "\<forall>x \<in> set (io_outputs io). io_output x \<noteq> None" "io_close_fp io = None"
    and "\<forall>m. pres m \<noteq> nmsg_res_eof"
    and "\<forall>t \<in> set ts. thr_pc t = Pc_done \<and> thr_res t \<in> {nmsg_res_success, nmsg_res_eof}"
  shows "nmsg_io_loop_end (io', ts) = Some (nmsg_res_success, io'\<lparr>io_stopped := True\<rparr>) \<and>
    (\<exists>L. (\<forall>i < length (io_inputs io). (\<exists>lost. (lost \<noteq> [] \<longrightarrow> io_stop io') \<and>
        read_chain rd (ii_input (io_inputs io ! i)) (reads_of i L @ lost) (ii_input (io_inputs io' ! i))) \<and>
        writes_of i L = expected_writes ok (io_mode io) (length (io_outputs io)) (reads_of i L)) \<and>
      (\<forall>k < length (io_outputs io). \<exists>out out'. io_output (io_outputs io ! k) = Some out \<and>
        io_output (io_outputs io' ! k) = Some out' \<and>
        nmsg_output_writes pb z pres wok wts rnd out (written_to k L) = Ret (nmsg_res_success, out')))"
  using io_loop_ledger [OF assms(1-4) nmsg_output_write_no_eof [OF assms(5)] assms(6)]
  unfolding output_written_def write_chain_writes .

section \<open>The limit on the number of payloads\<close>

definition count_of :: "('s, 'u) nmsg_io \<Rightarrow> nat \<Rightarrow> nat" where
  "count_of io j = (if j < length (io_outputs io) then unat (io_out_count (io_outputs io ! j)) else 0)"

text \<open>One thread that stripes: how far each output is from the limit \<open>c\<close>, by the place of the thread.\<close>

fun counting :: "nat \<Rightarrow> (nat \<Rightarrow> nat) \<Rightarrow> (nat \<Rightarrow> nat) \<Rightarrow> nat \<Rightarrow> bool \<Rightarrow> io_pc \<Rightarrow> bool" where
  "counting c cnt w o' stop (Pc_write m js) \<longleftrightarrow> (\<forall>j. w j = cnt j) \<and>
     (if js = [] then (\<forall>j. cnt j \<le> c \<and> (j \<noteq> o' \<longrightarrow> cnt j < c)) else js = [o'] \<and> (\<forall>j. cnt j < c))"
| "counting c cnt w o' stop (Pc_count j m js) \<longleftrightarrow>
     j = o' \<and> js = [] \<and> (\<forall>i. cnt i < c) \<and> (\<forall>i. w i = cnt i + (if i = o' then 1 else 0))"
| "counting c cnt w o' stop (Pc_store j k m js) \<longleftrightarrow>
     j = o' \<and> js = [] \<and> unat k = cnt j \<and> (\<forall>i. cnt i < c) \<and> (\<forall>i. w i = cnt i + (if i = o' then 1 else 0))"
| "counting c cnt w o' stop (Pc_total m js) \<longleftrightarrow>
     js = [] \<and> (\<forall>j. w j = cnt j) \<and> (\<forall>j. cnt j \<le> c \<and> (j \<noteq> o' \<longrightarrow> cnt j < c))"
| "counting c cnt w o' stop (Pc_check adv) \<longleftrightarrow>
     (\<forall>j. w j = cnt j) \<and> (\<forall>j. cnt j \<le> c \<and> (j \<noteq> o' \<or> \<not> adv \<longrightarrow> cnt j < c))"
| "counting c cnt w o' stop (Pc_exit) \<longleftrightarrow> (\<forall>j. w j \<le> c)"
| "counting c cnt w o' stop (Pc_done) \<longleftrightarrow> (\<forall>j. w j \<le> c)"
| "counting c cnt w o' stop pc \<longleftrightarrow> (\<forall>j. w j = cnt j) \<and> (\<forall>j. cnt j \<le> c \<and> (\<not> stop \<longrightarrow> cnt j < c))"

lemma counting_bound: "counting c cnt w p b pc \<Longrightarrow> w j \<le> c"
  by (cases pc) (auto simp: Suc_le_eq less_imp_le split: if_splits dest: spec [of _ j])

lemma unat_plus_one_u64: "unat k < c \<Longrightarrow> c < 2 ^ 32 \<Longrightarrow> unat (k + 1) = unat k + 1" for k :: u64
  by (simp add: unat_word_ariths)

definition outputs_open :: "('s, 'u) nmsg_io \<Rightarrow> bool" where
  "outputs_open io \<longleftrightarrow> (\<forall>k < length (io_outputs io). io_output (io_outputs io ! k) \<noteq> None)"

lemma outputs_open_update [simp]:
  "outputs_open (io\<lparr>io_inputs := xs\<rparr>) = outputs_open io" "outputs_open (io\<lparr>io_stop := b\<rparr>) = outputs_open io"
  "outputs_open (io\<lparr>io_total := w\<rparr>) = outputs_open io" "outputs_open (io\<lparr>io_user := u\<rparr>) = outputs_open io"
  by (simp_all add: outputs_open_def)

lemma outputs_open_set_output: "outputs_open io \<Longrightarrow> io_output x \<noteq> None \<Longrightarrow> outputs_open (set_output j x io)"
  unfolding outputs_open_def set_output_def by (auto, metis length_list_update nth_list_update_eq nth_list_update_neq)

lemma outputs_open_nth: "outputs_open io \<Longrightarrow> j < length (io_outputs io) \<Longrightarrow> io_output (io_outputs io ! j) \<noteq> None"
  by (simp add: outputs_open_def)

definition limit_invariant :: "nat \<Rightarrow> ('s, 'u) nmsg_io \<Rightarrow> nmsg_io_thr \<Rightarrow> io_event list \<Rightarrow> bool" where
  "limit_invariant c io t L \<longleftrightarrow> io_close_fp io = None \<and> io_mode io = Stripe \<and> unat (io_count io) = c \<and>
     thr_output t < length (io_outputs io) \<and> outputs_open io \<and>
     counting c (count_of io) (\<lambda>j. length (written_to j L)) (thr_output t) (io_stop io) (thr_pc t)"

lemma count_of_set_output:
  "count_of (set_output j x io) i = (if i = j \<and> j < length (io_outputs io) then unat (io_out_count x) else count_of io i)"
  by (simp add: count_of_def set_output_def)

lemma count_of_nth: "j < length (io_outputs io) \<Longrightarrow> unat (io_out_count (io_outputs io ! j)) = count_of io j"
  by (simp add: count_of_def)

lemma count_of_update [simp]:
  "count_of (io\<lparr>io_inputs := xs\<rparr>) = count_of io" "count_of (io\<lparr>io_stop := b\<rparr>) = count_of io"
  "count_of (io\<lparr>io_total := w\<rparr>) = count_of io" "count_of (io\<lparr>io_user := u\<rparr>) = count_of io"
  "io_stop (set_output j x io) = io_stop io"
  by (simp_all add: count_of_def fun_eq_iff set_output_def)

lemma count_reached_at_limit:
  assumes "count_of io j = unat (io_count io)" and "0 < unat (io_count io)" and "j < length (io_outputs io)"
  shows "count_reached io j"
proof -
  have u: "unat (io_out_count (io_outputs io ! j)) = unat (io_count io)" using assms by (simp add: count_of_def)
  moreover have "unat (ucast (io_count io) :: u64) = unat (io_count io)"
    using unsigned_less [where 'a = nat, of "io_count io"] by (simp add: unsigned_ucast_eq take_bit_eq_mod)
  ultimately have "io_out_count (io_outputs io ! j) = ucast (io_count io)" by (simp add: word_unat_eq_iff)
  moreover have "io_out_count (io_outputs io ! j) \<noteq> 0" "io_count io \<noteq> 0" using u assms(2) by auto
  ultimately show ?thesis by (simp add: count_reached_def word_gt_0)
qed

lemma limit_step:
  assumes l: "limit_invariant c io t L" and c: "0 < c" and pc: "thr_pc t \<noteq> Pc_done" and no: "thr_no t = i"
    and st: "io_thr_step wr rd ok now io t = Ret (io', t')"
    and ev: "ev = io_events ok (io_mode io) i (thr_pc t) (thr_pc t')"
  shows "limit_invariant c io' t' (L @ ev)"
proof -
  have cl: "io_close_fp io = None" and mode: "io_mode io = Stripe" and ic: "unat (io_count io) = c"
    and o: "thr_output t < length (io_outputs io)"
    and cnt: "counting c (count_of io) (\<lambda>j. length (written_to j L)) (thr_output t) (io_stop io) (thr_pc t)"
    and op: "outputs_open io"
    using l by (simp_all add: limit_invariant_def)
  have fr: "same_frame io io'" using step_frame [OF st] by simp
  then have frame: "io_close_fp io' = None" "io_mode io' = Stripe" "unat (io_count io') = c"
    "length (io_outputs io') = length (io_outputs io)"
    using cl mode ic by (simp_all add: same_frame_def)
  show ?thesis
  proof (cases "thr_pc t")
    case Pc_read
    then have "io_thr_read rd io (t\<lparr>thr_now := now\<rparr>) = Ret (io', t')" using st by (simp add: io_thr_step_def)
    then show ?thesis
      by (cases rule: io_thr_read_cases)
        (use cnt frame o op Pc_read mode ev in \<open>auto simp: limit_invariant_def io_events_def split: if_splits\<close>)
  next
    case (Pc_write m js)
    show ?thesis
    proof (cases js)
      case Nil
      with Pc_write st cnt frame o op ev show ?thesis
        by (auto simp: io_thr_step_def limit_invariant_def io_events_def)
    next
      case (Cons j js')
      then have j: "j = thr_output t" "js' = []" "\<forall>k. length (written_to k L) = count_of io k \<and> count_of io k < c"
        using cnt Pc_write by simp_all
      have "io_thr_write wr ok io t m j js' = Ret (io', t')" using st Pc_write Cons by (simp add: io_thr_step_def)
      then show ?thesis
        by (cases rule: io_thr_write_cases)
          (use j frame o op Pc_write Cons ev cl in \<open>auto simp: outputs_open_set_output limit_invariant_def io_events_def count_of_set_output
            count_of_nth io_exit_def less_imp_le split: if_splits\<close>)
    qed
  next
    case (Pc_check adv)
    have "io' = snd (check_close_event (thr_now t) io (thr_output t))" "t' = t\<lparr>thr_pc := Pc_stop adv\<rparr>" "ev = []"
      using st Pc_check by (auto simp: io_thr_step_def ev io_events_def)
    moreover have "count_of io j < c" if "\<not> count_reached io (thr_output t)" for j
    proof (cases "j = thr_output t")
      case True
      have "count_of io j \<noteq> unat (io_count io)"
        using count_reached_at_limit [of io j] that True c ic o by auto
      moreover have "count_of io j \<le> c" using cnt Pc_check by simp
      ultimately show ?thesis using ic by simp
    next
      case False
      with cnt Pc_check show ?thesis by simp
    qed
    ultimately show ?thesis
      using cnt Pc_check frame o op cl outputs_open_nth [OF op o] unfolding check_close_event_def limit_invariant_def
      by (auto split: if_splits)
  next
    case (Pc_store j k m js)
    then have j: "j = thr_output t" "js = []" "unat k = count_of io j" "\<forall>i. count_of io i < c"
      "\<forall>i. length (written_to i L) = count_of io i + (if i = j then 1 else 0)"
      using cnt by simp_all
    have "unat (k + 1) = count_of io j + 1"
      using unat_plus_one_u64 [of k c] j(3,4) ic unsigned_less [where 'a = nat, of "io_count io"] by simp
    then show ?thesis
      using st Pc_store frame o op ev j outputs_open_nth [OF op o]
      by (auto simp: io_thr_step_def limit_invariant_def io_events_def count_of_set_output outputs_open_set_output
          less_imp_le Suc_le_eq)
  qed (use st pc cnt frame o op ev c in \<open>auto simp: outputs_open_set_output outputs_open_nth io_thr_step_def limit_invariant_def io_events_def count_of_set_output
      count_of_nth split: if_splits option.splits\<close>)
qed

text \<open>
  C35. One input, striping over outputs without a close callback, and a limit on the number of
  payloads: no output is ever written more messages than the limit, whatever the outputs answer and
  whenever the interval ends.
\<close>

theorem io_count_limit:
  assumes ex: "io_exec wr rd ok (io_loop_start now io) L (io', ts)"
    and one: "length (io_inputs io) = 1" "io_outputs io \<noteq> []" "outputs_open io" "io_close_fp io = None"
      "io_mode io = Stripe" "\<forall>x \<in> set (io_outputs io). io_out_count x = 0"
    and c: "io_count io \<noteq> 0"
  shows "length (written_to j L) \<le> unat (io_count io)"
proof -
  define io0 where "io0 = fst (io_loop_start now io)"
  note s = io_loop_start_outputs [OF io0_def [symmetric]]
  have st: "io_loop_start now io = (io0, io_threads io0)" using s by (simp add: io0_def prod_eq_iff)
  let ?c = "unat (io_count io)"
  have pos: "0 < ?c" using c by (simp add: unat_gt_0)
  have zero: "count_of io0 k = 0" for k
    using s one(6) by (cases "k < length (io_outputs io)") (simp_all add: count_of_def)
  have "case p of (io', ts) \<Rightarrow> length ts = 1 \<and> thr_no (ts ! 0) = 0 \<and> limit_invariant ?c io' (ts ! 0) L"
    if "io_exec wr rd ok (io0, io_threads io0) L p" for p
    using that
  proof (induction rule: io_exec.induct)
    case io_exec_start
    show ?case
      using s one pos zero by (auto simp: limit_invariant_def io_threads_def outputs_open_def)
  next
    case (io_exec_step L io1 ts i now io' t')
    then have i: "i = 0" "length ts = 1" "thr_no (ts ! 0) = 0" "limit_invariant ?c io1 (ts ! 0) L" by auto
    have m: "io_mode io1 = Stripe" using i(4) by (simp add: limit_invariant_def)
    have "limit_invariant ?c io' t' (L @ io_events ok (io_mode io1) 0 (thr_pc (ts ! 0)) (thr_pc t'))"
      using limit_step [OF i(4) pos _ i(3) _ refl] io_exec_step.hyps(3,4) i(1) by simp
    moreover have "thr_no t' = 0" using step_frame [OF io_exec_step.hyps(4)] i by simp
    ultimately show ?case using i by simp
  qed
  from this [OF ex [unfolded st]] have l: "limit_invariant ?c io' (ts ! 0) L" by simp
  then show ?thesis unfolding limit_invariant_def using counting_bound by blast
qed

section \<open>The limit of mirrored outputs\<close>

text \<open>One thread that mirrors, after \<open>r\<close> messages: the counters \<open>cw\<close> of the \<open>n\<close> outputs.\<close>

fun mirroring :: "nat \<Rightarrow> (nat \<Rightarrow> u64) \<Rightarrow> nat \<Rightarrow> io_pc \<Rightarrow> bool" where
  "mirroring n cw r (Pc_write m js) \<longleftrightarrow> 0 < r \<and>
     (\<exists>q \<le> n. js = [q..<n] \<and> (\<forall>j < n. cw j = of_nat (if j < q then r else r - 1)))"
| "mirroring n cw r (Pc_count k m js) \<longleftrightarrow> 0 < r \<and> k < n \<and>
     js = [Suc k..<n] \<and> (\<forall>j < n. cw j = of_nat (if j < k then r else r - 1))"
| "mirroring n cw r (Pc_store k c m js) \<longleftrightarrow> 0 < r \<and> k < n \<and> c = cw k \<and>
     js = [Suc k..<n] \<and> (\<forall>j < n. cw j = of_nat (if j < k then r else r - 1))"
| "mirroring n cw r (Pc_total m js) \<longleftrightarrow> 0 < r \<and>
     (\<exists>q \<le> n. js = [q..<n] \<and> (\<forall>j < n. cw j = of_nat (if j < q then r else r - 1)))"
| "mirroring n cw r Pc_exit \<longleftrightarrow> True"
| "mirroring n cw r Pc_done \<longleftrightarrow> True"
| "mirroring n cw r pc \<longleftrightarrow> (\<forall>j < n. cw j = of_nat r)"

definition counters :: "('s, 'u) nmsg_io \<Rightarrow> nat \<Rightarrow> u64" where
  "counters io j = io_out_count (io_outputs io ! j)"

lemma counters_fold: "io_out_count (io_outputs io ! j) = counters io j"
  by (simp add: counters_def)

lemma counters_update [simp]:
  "counters (io\<lparr>io_total := w\<rparr>) = counters io" "counters (io\<lparr>io_user := u\<rparr>) = counters io"
  by (simp_all add: counters_def fun_eq_iff)

lemma mirror_step:
  assumes m: "io_mode io = Mirror" and n: "length (io_outputs io) = n" "0 < n" and pc: "thr_pc t \<noteq> Pc_done"
    and inv: "mirroring n (counters io) r (thr_pc t)" and no: "thr_no t = i"
    and st: "io_thr_step wr rd ok now io t = Ret (io', t')"
    and ev: "ev = io_events ok (io_mode io) i (thr_pc t) (thr_pc t')"
  shows "mirroring n (counters io') (r + length (reads_of i ev)) (thr_pc t')"
proof (cases "thr_pc t")
  case Pc_read
  then have "io_thr_read rd io (t\<lparr>thr_now := now\<rparr>) = Ret (io', t')" using st by (simp add: io_thr_step_def)
  then show ?thesis
    by (cases rule: io_thr_read_cases)
      (use inv m n Pc_read ev in \<open>auto simp: io_events_def counters_def intro!: exI [of _ "0::nat"]\<close>)
next
  case (Pc_write msg js)
  show ?thesis
  proof (cases js)
    case Nil
    from inv Pc_write Nil obtain q where "0 < r" "q \<le> n" "[q..<n] = []"
      "\<forall>j < n. counters io j = of_nat (if j < q then r else r - 1)" by (auto dest: sym)
    then have "\<forall>j < n. counters io j = of_nat r" using n(2) by simp
    with Pc_write st Nil ev show ?thesis by (auto simp: io_thr_step_def io_events_def)
  next
    case (Cons j js')
    from inv Pc_write Cons obtain q where q: "0 < r" "[q..<n] = j # js'"
      "\<forall>i < n. counters io i = of_nat (if i < q then r else r - 1)" by (auto dest: sym)
    then have "j = q" "q < n" "js' = [Suc q..<n]" by (auto simp: upt_eq_Cons_conv)
    with q have j: "0 < r" "j < n" "js' = [Suc j..<n]"
      "\<forall>i < n. counters io i = of_nat (if i < j then r else r - 1)"
      by simp_all
    have "io_thr_write wr ok io t msg j js' = Ret (io', t')" using st Pc_write Cons by (simp add: io_thr_step_def)
    then show ?thesis
      by (cases rule: io_thr_write_cases)
        (use j Pc_write Cons ev n in \<open>auto simp: io_events_def counters_def set_output_def nth_list_update\<close>)
  qed
next
  case (Pc_store k c msg js)
  then have k: "0 < r" "k < n" "c = counters io k" "js = [Suc k..<n]"
    "\<forall>j < n. counters io j = of_nat (if j < k then r else r - 1)" using inv by simp_all
  have "c + 1 = of_nat r" using k by (cases r) simp_all
  then have "\<forall>j < n. counters io' j = of_nat (if j < Suc k then r else r - 1)"
    using st Pc_store k n by (auto simp: io_thr_step_def counters_def set_output_def nth_list_update less_Suc_eq)
  with st Pc_store k show ?thesis
    by (auto simp: io_thr_step_def ev io_events_def intro!: exI [of _ "Suc k"])
next
  case (Pc_check adv)
  obtain res io2 where c: "check_close_event (thr_now t) io (thr_output t) = (res, io2)" by fastforce
  have "map io_out_count (io_outputs io2) = map io_out_count (io_outputs io)" using check_close_event_frame [OF c] by blast
  then have "counters io2 j = counters io j" if "j < n" for j
    unfolding counters_def using n(1) that by (metis length_map nth_map)
  with Pc_check st c inv show ?thesis by (auto simp: io_thr_step_def ev io_events_def)
next
  case (Pc_count k msg js)
  have "io' = io" "t' = t\<lparr>thr_pc := Pc_store k (counters io k) msg js\<rparr>"
    using st Pc_count by (auto simp: io_thr_step_def counters_def)
  moreover have "mirroring n (counters io) r (Pc_store k (counters io k) msg js)"
    using inv Pc_count by simp
  ultimately show ?thesis using Pc_count by (simp add: ev io_events_def del: mirroring.simps)
next
  case (Pc_total msg js)
  with inv st ev show ?thesis by (auto simp: io_thr_step_def io_events_def)
qed (use inv st pc n ev in \<open>auto simp: io_thr_step_def io_events_def counters_fold split: if_splits option.splits\<close>)

text \<open>
  One input, mirrored to \<open>n\<close> outputs, and a limit that is a multiple of \<open>n\<close>: the check for the
  limit looks at one output per message only, and the counter of every output but the last one never
  is at a multiple of the limit when its turn comes. Only the last output gets a close event for its
  payloads, however many messages are written.
\<close>

theorem io_mirror_limit_missed:
  assumes ex: "io_exec wr rd ok (io_loop_start now io) L (io', ts)" and eof: "no_eof wr"
    and one: "length (io_inputs io) = 1" "io_outputs io \<noteq> []" "outputs_open io" "io_mode io = Mirror"
      "\<forall>x \<in> set (io_outputs io). io_out_count x = 0"
    and chk: "thr_pc (ts ! 0) = Pc_check True" "count_reached io' (thr_output (ts ! 0))"
    and dvd: "length (io_outputs io) dvd unat (io_count io)" and few: "length (reads_of 0 L) < 2 ^ 64"
  shows "thr_output (ts ! 0) = length (io_outputs io) - 1"
proof -
  define io0 where "io0 = fst (io_loop_start now io)"
  note s = io_loop_start_outputs [OF io0_def [symmetric]]
  have st: "io_loop_start now io = (io0, io_threads io0)" using s by (simp add: io0_def prod_eq_iff)
  let ?n = "length (io_outputs io)"
  have n: "0 < ?n" using one(2) by simp
  have ne: "io_outputs io0 \<noteq> []" "\<forall>x \<in> set (io_outputs io0). io_output x \<noteq> None"
    using s one(2,3) by (auto simp: outputs_open_def in_set_conv_nth)
  have iv: "io_invariant wr rd ok io0 L p" if "io_exec wr rd ok (io0, io_threads io0) L p" for L p
    by (rule io_invariant_exec [OF that ne eof])
  have zero: "counters io0 j = 0" if "j < ?n" for j
    using that s one(5) by (simp add: counters_def)
  have "case p of (io', ts) \<Rightarrow> mirroring ?n (counters io') (length (reads_of 0 L)) (thr_pc (ts ! 0))"
    if "io_exec wr rd ok (io0, io_threads io0) L p" for p
    using that
  proof (induction rule: io_exec.induct)
    case io_exec_start
    show ?case using s one zero by (simp add: io_threads_def)
  next
    case (io_exec_step L io1 ts i now io2 t')
    have fr: "same_frame io0 io1" "length ts = 1" "thr_no (ts ! 0) = 0"
      using iv [OF io_exec_step.hyps(1)] s one(1) by (simp_all add: io_invariant_def)
    have i: "i = 0" using io_exec_step.hyps(2) fr(2) by simp
    have "io_mode io1 = Mirror" "length (io_outputs io1) = ?n" using fr(1) s one(4) by (simp_all add: same_frame_def)
    from mirror_step [OF this n _ _ fr(3) _ refl] io_exec_step i fr(2)
    show ?case by simp
  qed
  from this [OF ex [unfolded st]] chk(1)
  have cw: "\<forall>j < ?n. counters io' j = of_nat (length (reads_of 0 L))" by simp
  have inv: "io_invariant wr rd ok io0 L (io', ts)" by (rule iv [OF ex [unfolded st]])
  then have fr: "same_frame io0 io'" "length ts = 1" using s one(1) by (simp_all add: io_invariant_def)
  then have "ledger ok (io_mode io0) (length (io_outputs io0)) (ts ! 0) (reads_of 0 L) (writes_of 0 L)"
    using inv by (simp add: io_invariant_def)
  then have r: "reads_of 0 L \<noteq> []" "thr_output (ts ! 0) = (length (reads_of 0 L) - 1) mod ?n"
    using chk(1) s by (simp_all add: ledger_def)
  let ?r = "length (reads_of 0 L)" and ?o = "thr_output (ts ! 0)"
  have o: "?o < ?n" using r(2) n by simp
  have ic: "io_count io' = io_count io" using fr(1) s by (simp add: same_frame_def)
  have "(of_nat ?r :: u64) mod ucast (io_count io) = 0"
    using chk(2) cw o ic by (simp add: count_reached_def counters_def)
  moreover have "unat (of_nat ?r :: u64) = ?r" using few by (simp add: unsigned_of_nat take_bit_nat_eq_self)
  moreover have "unat (ucast (io_count io) :: u64) = unat (io_count io)"
    using unsigned_less [where 'a = nat, of "io_count io"] by (simp add: unsigned_ucast_eq take_bit_eq_mod)
  ultimately have "?r mod unat (io_count io) = 0" by (metis unat_eq_zero unat_mod)
  then have "?n dvd ?r" using dvd by (meson dvd_trans mod_0_imp_dvd)
  moreover have "0 < ?r" using r(1) by simp
  ultimately obtain q where q: "?r = ?n * Suc q" by (metis dvd_def gr0_implies_Suc mult_0_right neq0_conv)
  have "?r - 1 = ?n * q + (?n - 1)" using n unfolding q mult_Suc_right by linarith
  then have "(?r - 1) mod ?n = (?n - 1) mod ?n" by (simp only: mod_mult_self4)
  then have "(?r - 1) mod ?n = ?n - 1" using n by (metis diff_less mod_less zero_less_one)
  then show ?thesis using r(2) by simp
qed

section \<open>Two threads\<close>

text \<open>An input that delivers a list of messages, a message, and callback outputs.\<close>

fun list_reader :: "nmsg_message list reader" where
  "list_reader [] = Ret (nmsg_res_eof, None, [])"
| "list_reader (m # ms) = Ret (nmsg_res_success, Some m, ms)"

definition plain_message :: "byte list \<Rightarrow> nmsg_message" where
  "plain_message bs = \<lparr>msg_mod = None, message = None,
     np = Some (nmsg__nmsg_payload__init\<lparr>payload := Some bs\<rparr>), updated = False\<rparr>"

definition callback_output :: nmsg_output where
  "callback_output = \<lparr>o_kind = Kind_callback [], o_do_filter = False, o_filter_vid = 0, o_filter_msgtype = 0, o_stop = False\<rparr>"

definition sample_io :: "nmsg_message list list \<Rightarrow> nat \<Rightarrow> io_output_mode \<Rightarrow> u32 \<Rightarrow> (nmsg_message list, unit) nmsg_io" where
  "sample_io ins n mode c =
     (let io = the (nmsg_io_init True ());
          io = foldl (\<lambda>io s. snd (nmsg_io_add_input True io s)) io ins;
          io = foldl (\<lambda>io _. snd (nmsg_io_add_output True io (Some callback_output))) io [0..<n]
      in nmsg_io_set_count (nmsg_io_set_output_mode io mode) c)"

definition output_writer :: writer where
  "output_writer = nmsg_output_write ref_pb ref_zlib (\<lambda>_. nmsg_res_success) (\<lambda>_. True) \<lparr>tv_sec = 0, tv_nsec = 0\<rparr> 0"

definition threads_at :: "nat list \<Rightarrow> (nat \<times> timespec) list" where
  "threads_at is = map (\<lambda>i. (i, \<lparr>tv_sec = 0, tv_nsec = 0\<rparr>)) is"

lemma io_run_steps: "io_run wr rd ok sch s = Ret s' \<Longrightarrow> (io_step wr rd ok)\<^sup>*\<^sup>* s s'"
proof (induction sch arbitrary: s)
  case (Cons p sch)
  obtain i now where p: "p = (i, now)" by (cases p)
  obtain io ts where s: "s = (io, ts)" by (cases s)
  show ?case
  proof (cases "i < length ts")
    case True
    with Cons.prems obtain io1 t1 where st: "io_thr_step wr rd ok now io (ts ! i) = Ret (io1, t1)"
      "io_run wr rd ok sch (io1, ts[i := t1]) = Ret s'" by (auto simp: p s)
    have "(io_step wr rd ok)\<^sup>*\<^sup>* (io1, ts[i := t1]) s'" by (rule Cons.IH [OF st(2)])
    moreover have "(io1, ts[i := t1]) = s \<or> io_step wr rd ok s (io1, ts[i := t1])"
    proof (cases "thr_pc (ts ! i) = Pc_done")
      case d: True
      then have "io1 = io" "t1 = ts ! i" using st(1) by (auto simp: io_thr_step_def)
      then show ?thesis by (simp add: s)
    next
      case False
      with True st(1) show ?thesis unfolding s by (blast intro: io_step)
    qed
    ultimately show ?thesis by (auto intro: converse_rtranclp_into_rtranclp)
  next
    case False
    with Cons show ?thesis by (simp add: p s)
  qed
qed simp

definition race_schedule :: "nat list" where
  "race_schedule = replicate 14 0 @ replicate 5 1 @ replicate 8 0 @ replicate 8 1"

definition pc_done :: "io_pc \<Rightarrow> bool" where
  "pc_done pc = (case pc of Pc_done \<Rightarrow> True | _ \<Rightarrow> False)"

definition received :: "nmsg_output \<Rightarrow> nat option" where
  "received out = (case o_kind out of Kind_callback ms \<Rightarrow> Some (length ms) | _ \<Rightarrow> None)"

definition race_outcome ::
  "(('s, 'u) nmsg_io \<times> nmsg_io_thr list) run \<Rightarrow> ((bool \<times> nmsg_res) list \<times> nat option option list \<times> bool \<times> u32) option" where
  "race_outcome r = (case r of
     Ret (io, ts) \<Rightarrow> Some (map (\<lambda>t. (pc_done (thr_pc t), thr_res t)) ts,
       map (map_option received \<circ> io_output) (io_outputs io), io_stop io, io_count io)
   | _ \<Rightarrow> None)"

text \<open>
  With two inputs the limit is not kept: both threads may write to the same output before either
  of them checks its counter, which passes the multiple of the limit unseen. Here an output with a
  limit of two receives three messages, and the loop ends for want of input, not by the limit.
\<close>

theorem io_race_exceeds_limit:
  "\<exists>io ts out ms. (io_step output_writer list_reader (\<lambda>_. True))\<^sup>*\<^sup>*
      (io_loop_start \<lparr>tv_sec = 0, tv_nsec = 0\<rparr>
        (sample_io [[plain_message [1], plain_message [2]], [plain_message [3]]] 1 Stripe 2)) (io, ts) \<and>
    nmsg_io_loop_end (io, ts) = Some (nmsg_res_success, io\<lparr>io_stopped := True\<rparr>) \<and> \<not> io_stop io \<and> io_count io = 2 \<and>
    map io_output (io_outputs io) = [Some out] \<and> o_kind out = Kind_callback ms \<and> length ms = 3"
proof -
  let ?r = "io_run output_writer list_reader (\<lambda>_. True) (threads_at race_schedule)
      (io_loop_start \<lparr>tv_sec = 0, tv_nsec = 0\<rparr>
        (sample_io [[plain_message [1], plain_message [2]], [plain_message [3]]] 1 Stripe 2))"
  have o: "race_outcome ?r = Some ([(True, nmsg_res_eof), (True, nmsg_res_eof)], [Some (Some 3)], False, 2)"
    by code_simp
  then obtain io ts where r: "?r = Ret (io, ts)"
    by (auto simp: race_outcome_def split: run.splits)
  have t: "map (\<lambda>t. (pc_done (thr_pc t), thr_res t)) ts = [(True, nmsg_res_eof), (True, nmsg_res_eof)]"
    "map (map_option received \<circ> io_output) (io_outputs io) = [Some (Some 3)]" "\<not> io_stop io" "io_count io = 2"
    using o unfolding r by (simp_all add: race_outcome_def)
  then obtain x out where x: "io_outputs io = [x]" "io_output x = Some out" "received out = Some 3" by auto
  then obtain ms where "o_kind out = Kind_callback ms" "length ms = 3"
    by (auto simp: received_def split: out_kind.splits)
  moreover have "nmsg_io_loop_end (io, ts) = Some (nmsg_res_success, io\<lparr>io_stopped := True\<rparr>)"
    using t(1) by (auto simp: nmsg_io_loop_end_def io_loop_result_def pc_done_def split: io_pc.splits)
  ultimately show ?thesis using io_run_steps [OF r] t(3,4) x(1,2)
    by (intro exI [of _ io] exI [of _ ts] exI [of _ out] exI [of _ ms]) simp
qed

text \<open>
  \<^verbatim>\<open>_nmsg_message_dup\<close> does not copy the mark of an updated message: the original is packed when it
  is serialised, its duplicate keeps the payload from before the update. A mirrored output therefore
  writes stale octets for a message whose fields were set after it was made.
\<close>

theorem message_dup_loses_update:
  assumes "msg_mod msg = Some m" and "transparent m" and "message msg = Some obj" and "pb_unpack m obj = Some obj"
    and "updated msg" and "np msg = Some p" and "\<forall>i. ok i"
  shows "\<exists>d msg' d'. nmsg_message_dup ok msg = Ret (Some d) \<and> message d = Some obj \<and>
    nmsg_message_serialize ok ts msg = Ret (nmsg_res_success, msg') \<and> np msg' = Some (p\<lparr>payload := Some obj\<rparr>) \<and>
    nmsg_message_serialize ok ts d = Ret (nmsg_res_success, d') \<and> np d' = Some p"
  using assms by (simp add: nmsg_message_dup_def nmsg_message_dup_protobuf_def nmsg_message_serialize_def)

section \<open>Witnesses\<close>

lemma sample_io_simps:
  "io_outputs (sample_io ins n mode c) = replicate n \<lparr>io_output = Some callback_output,
     io_last = \<lparr>tv_sec = 0, tv_nsec = 0\<rparr>, io_out_count = 0\<rparr>"
  "io_close_fp (sample_io ins n mode c) = None" "io_mode (sample_io ins n mode c) = mode"
  "io_count (sample_io ins n mode c) = c" "length (io_inputs (sample_io ins n mode c)) = length ins"
proof -
  define f where "f = (\<lambda>(io :: (nmsg_message list, unit) nmsg_io) s. snd (nmsg_io_add_input True io s))"
  define g where "g = (\<lambda>(io :: (nmsg_message list, unit) nmsg_io) (_ :: nat). snd (nmsg_io_add_output True io (Some callback_output)))"
  have f: "io_outputs (foldl f io xs) = io_outputs io \<and> io_close_fp (foldl f io xs) = io_close_fp io \<and>
      length (io_inputs (foldl f io xs)) = length (io_inputs io) + length xs" for io xs
    by (induction xs arbitrary: io) (simp_all add: f_def nmsg_io_add_input_def)
  have g: "io_outputs (foldl g io xs) = io_outputs io @ replicate (length xs) \<lparr>io_output = Some callback_output,
        io_last = \<lparr>tv_sec = 0, tv_nsec = 0\<rparr>, io_out_count = 0\<rparr> \<and> io_close_fp (foldl g io xs) = io_close_fp io \<and>
      io_inputs (foldl g io xs) = io_inputs io" for io xs
    by (induction xs arbitrary: io) (simp_all add: g_def nmsg_io_add_output_def)
  have "sample_io ins n mode c = (foldl g (foldl f (the (nmsg_io_init True ())) ins) [0..<n])\<lparr>io_mode := mode, io_count := c\<rparr>"
    by (simp add: sample_io_def f_def g_def Let_def nmsg_io_set_count_def nmsg_io_set_output_mode_def)
  with f g show "io_outputs (sample_io ins n mode c) = replicate n \<lparr>io_output = Some callback_output,
     io_last = \<lparr>tv_sec = 0, tv_nsec = 0\<rparr>, io_out_count = 0\<rparr>"
    "io_close_fp (sample_io ins n mode c) = None" "io_mode (sample_io ins n mode c) = mode"
    "io_count (sample_io ins n mode c) = c" "length (io_inputs (sample_io ins n mode c)) = length ins"
    by (simp_all add: nmsg_io_init_def)
qed

abbreviation time0 :: timespec where "time0 \<equiv> \<lparr>tv_sec = 0, tv_nsec = 0\<rparr>"

text \<open>Two inputs, two outputs, and a schedule in which the threads take turns.\<close>

definition turns :: "nat list" where
  "turns = concat (replicate 30 [0, 1])"

lemma io_loop_delivers_witness:
  "\<exists>io' ts L. (io_step output_writer list_reader (\<lambda>_. True))\<^sup>*\<^sup>*
      (io_loop_start time0 (sample_io [[plain_message [1], plain_message [2]], [plain_message [3]]] 2 Stripe 0)) (io', ts) \<and>
    nmsg_io_loop_end (io', ts) = Some (nmsg_res_success, io'\<lparr>io_stopped := True\<rparr>) \<and>
    (\<forall>k < 2. \<exists>out'. io_output (io_outputs io' ! k) = Some out' \<and>
      nmsg_output_writes ref_pb ref_zlib (\<lambda>_. nmsg_res_success) (\<lambda>_. True) time0 0 callback_output (written_to k L) =
        Ret (nmsg_res_success, out'))"
proof -
  let ?io = "sample_io [[plain_message [1], plain_message [2]], [plain_message [3]]] 2 Stripe 0"
  let ?r = "io_run output_writer list_reader (\<lambda>_. True) (threads_at turns) (io_loop_start time0 ?io)"
  have o: "race_outcome ?r = Some ([(True, nmsg_res_eof), (True, nmsg_res_eof)], [Some (Some 2), Some (Some 1)], False, 0)"
    by code_simp
  then obtain io' ts where r: "?r = Ret (io', ts)" by (auto simp: race_outcome_def split: run.splits)
  have t: "map (\<lambda>t. (pc_done (thr_pc t), thr_res t)) ts = [(True, nmsg_res_eof), (True, nmsg_res_eof)]"
    using o unfolding r by (simp add: race_outcome_def)
  then have ended: "\<forall>t \<in> set ts. thr_pc t = Pc_done \<and> thr_res t \<in> {nmsg_res_success, nmsg_res_eof}"
    by (auto simp: pc_done_def split: io_pc.splits)
  note steps = io_run_steps [OF r]
  have out: "io_outputs ?io \<noteq> []" "\<forall>x \<in> set (io_outputs ?io). io_output x \<noteq> None" "io_close_fp ?io = None"
    by (simp_all add: sample_io_simps)
  from io_loop_delivers [OF steps [unfolded output_writer_def] out _ ended] obtain L where
    e: "nmsg_io_loop_end (io', ts) = Some (nmsg_res_success, io'\<lparr>io_stopped := True\<rparr>)" and
    d: "\<forall>k < length (io_outputs ?io). \<exists>out out'. io_output (io_outputs ?io ! k) = Some out \<and>
        io_output (io_outputs io' ! k) = Some out' \<and>
        nmsg_output_writes ref_pb ref_zlib (\<lambda>_. nmsg_res_success) (\<lambda>_. True) time0 0 out (written_to k L) = Ret (nmsg_res_success, out')"
    by auto
  have "\<forall>k < 2. \<exists>out'. io_output (io_outputs io' ! k) = Some out' \<and>
      nmsg_output_writes ref_pb ref_zlib (\<lambda>_. nmsg_res_success) (\<lambda>_. True) time0 0 callback_output (written_to k L) =
        Ret (nmsg_res_success, out')"
    using d by (auto simp: sample_io_simps)
  with steps e show ?thesis by blast
qed

lemma io_count_limit_witness:
  "\<exists>L io' ts. io_exec output_writer list_reader (\<lambda>_. True)
      (io_loop_start time0 (sample_io [[plain_message [1], plain_message [2], plain_message [3]]] 2 Stripe 1)) L (io', ts) \<and>
    io_stop io' \<and> length (written_to 0 L) \<le> 1 \<and> length (written_to 1 L) \<le> 1"
proof -
  let ?io = "sample_io [[plain_message [1], plain_message [2], plain_message [3]]] 2 Stripe 1"
  let ?r = "io_run output_writer list_reader (\<lambda>_. True) (threads_at (replicate 30 0)) (io_loop_start time0 ?io)"
  have o: "race_outcome ?r = Some ([(True, nmsg_res_success)], [Some (Some 1), Some (Some 0)], True, 1)" by code_simp
  then obtain io' ts where r: "?r = Ret (io', ts)" by (auto simp: race_outcome_def split: run.splits)
  have stop: "io_stop io'" using o unfolding r by (simp add: race_outcome_def)
  from io_run_exec [OF io_exec_start r] obtain L where
    L: "io_exec output_writer list_reader (\<lambda>_. True) (io_loop_start time0 ?io) L (io', ts)" by auto
  have "length (written_to j L) \<le> unat (io_count ?io)" for j
    by (rule io_count_limit [OF L]) (simp_all add: sample_io_simps outputs_open_def nth_replicate)
  with L stop show ?thesis by (auto simp: sample_io_simps)
qed

definition check_outcome :: "(('s, 'u) nmsg_io \<times> nmsg_io_thr list) run \<Rightarrow> (bool \<times> nat \<times> bool) list option" where
  "check_outcome r = (case r of
     Ret (io, ts) \<Rightarrow> Some (map (\<lambda>t. (case thr_pc t of Pc_check adv \<Rightarrow> adv | _ \<Rightarrow> False, thr_output t,
       count_reached io (thr_output t))) ts)
   | _ \<Rightarrow> None)"

lemma io_mirror_limit_missed_witness:
  "\<exists>L io' ts. io_exec output_writer list_reader (\<lambda>_. True)
      (io_loop_start time0 (sample_io [[plain_message [1], plain_message [2], plain_message [3]]] 2 Mirror 2)) L (io', ts) \<and>
    thr_pc (ts ! 0) = Pc_check True \<and> count_reached io' (thr_output (ts ! 0)) \<and> thr_output (ts ! 0) = 2 - 1"
proof -
  let ?io = "sample_io [[plain_message [1], plain_message [2], plain_message [3]]] 2 Mirror 2"
  let ?r = "io_run output_writer list_reader (\<lambda>_. True) (threads_at (replicate 24 0)) (io_loop_start time0 ?io)"
  have o: "check_outcome ?r = Some [(True, 1, True)]" by code_simp
  then obtain io' ts where r: "?r = Ret (io', ts)" by (auto simp: check_outcome_def split: run.splits)
  have t: "thr_pc (ts ! 0) = Pc_check True" "count_reached io' (thr_output (ts ! 0))"
    using o unfolding r by (auto simp: check_outcome_def split: io_pc.splits)
  from io_run_exec [OF io_exec_start r] obtain L where
    L: "io_exec output_writer list_reader (\<lambda>_. True) (io_loop_start time0 ?io) L (io', ts)" "length L \<le> 24"
    by (auto simp: threads_at_def)
  have "length (reads_of 0 L) \<le> length L" by (induction L) (auto simp: reads_of_def split: io_event.splits)
  with L(2) have few: "length (reads_of 0 L) < 2 ^ 64" by simp
  have "no_eof output_writer" unfolding output_writer_def by (rule nmsg_output_write_no_eof) simp
  from io_mirror_limit_missed [OF L(1) this _ _ _ _ _ t _ few]
  have "thr_output (ts ! 0) = length (io_outputs ?io) - 1"
    by (simp add: sample_io_simps outputs_open_def nth_replicate)
  then have "thr_output (ts ! 0) = 2 - 1" by (simp add: sample_io_simps)
  with L(1) t show ?thesis by blast
qed

lemma message_dup_loses_update_witness:
  "\<exists>msg d msg' d' m. updated msg \<and> nmsg_message_dup (\<lambda>_. True) msg = Ret (Some d) \<and>
    nmsg_message_serialize (\<lambda>_. True) time0 msg = Ret (nmsg_res_success, msg') \<and>
    nmsg_message_serialize (\<lambda>_. True) time0 d = Ret (nmsg_res_success, d') \<and>
    map_option payload (np msg') = Some (Some [1, 2]) \<and> map_option payload (np d') = Some None \<and> msg_mod msg = Some m"
proof -
  let ?m = "\<lparr>vendor_id = 1, msgtype_id = 1, transparent = True, pb_unpack = Some, pb_init = []\<rparr>"
  let ?msg = "\<lparr>msg_mod = Some ?m, message = Some [1, 2], np = Some nmsg__nmsg_payload__init, updated = True\<rparr>"
  have "\<exists>d msg' d'. nmsg_message_dup (\<lambda>_. True) ?msg = Ret (Some d) \<and> message d = Some [1, 2] \<and>
    nmsg_message_serialize (\<lambda>_. True) time0 ?msg = Ret (nmsg_res_success, msg') \<and>
    np msg' = Some (nmsg__nmsg_payload__init\<lparr>payload := Some [1, 2]\<rparr>) \<and>
    nmsg_message_serialize (\<lambda>_. True) time0 d = Ret (nmsg_res_success, d') \<and> np d' = Some nmsg__nmsg_payload__init"
    by (rule message_dup_loses_update [of ?msg ?m]) simp_all
  then obtain d msg' d' where "nmsg_message_dup (\<lambda>_. True) ?msg = Ret (Some d)"
    "nmsg_message_serialize (\<lambda>_. True) time0 ?msg = Ret (nmsg_res_success, msg')"
    "np msg' = Some (nmsg__nmsg_payload__init\<lparr>payload := Some [1, 2]\<rparr>)"
    "nmsg_message_serialize (\<lambda>_. True) time0 d = Ret (nmsg_res_success, d')" "np d' = Some nmsg__nmsg_payload__init"
    by blast
  then show ?thesis
    by (intro exI [of _ ?msg] exI [of _ d] exI [of _ msg'] exI [of _ d'] exI [of _ ?m])
      (simp add: nmsg__nmsg_payload__init_def)
qed

end
