(* ===== verification/Queue.thy ===== *)
theory Queue
  imports Prelude
begin

text \<open>
  The ring buffers of libmy: my_queue_mutex.c, whose operations run under a lock, and my_queue_mb.c,
  whose two operations are called by one producer and one consumer without a lock. Both have the same
  data and the same arithmetic.
\<close>

section \<open>Data and operations\<close>

record my_queue =
  q_data :: "byte list"
  q_num_elems :: u32
  q_sizeof_elem :: u32
  q_head :: u32
  q_tail :: u32

definition q_space :: "u32 \<Rightarrow> u32 \<Rightarrow> u32 \<Rightarrow> u32" where
  "q_space head tail size' = (tail - (head + 1)) AND (size' - 1)"

definition q_count :: "u32 \<Rightarrow> u32 \<Rightarrow> u32 \<Rightarrow> u32" where
  "q_count head tail size' = (head - tail) AND (size' - 1)"

text \<open>\<^verbatim>\<open>my_calloc\<close> aborts when the allocation fails (\<open>ok\<close>).\<close>

definition my_queue_mb_init :: "(nat \<Rightarrow> bool) \<Rightarrow> u32 \<Rightarrow> u32 \<Rightarrow> my_queue option run" where
  "my_queue_mb_init ok num_elems sizeof_elem =
     (if num_elems < 2 \<or> (num_elems - 1) AND num_elems \<noteq> 0 then Ret None
      else if \<not> ok 0 \<or> \<not> ok 1 then Abort
      else Ret (Some \<lparr>q_data = replicate (unat num_elems * unat sizeof_elem) 0, q_num_elems = num_elems,
        q_sizeof_elem = sizeof_elem, q_head = 0, q_tail = 0\<rparr>))"

text \<open>
  The place of an element is computed in \<^verbatim>\<open>unsigned\<close>, the results are the answer and the space left
  (\<^verbatim>\<open>*pspace\<close>), or the answer, the element and the number of elements left (\<^verbatim>\<open>*pcount\<close>).
\<close>

definition my_queue_mb_insert :: "my_queue \<Rightarrow> byte list \<Rightarrow> (bool \<times> u32 \<times> my_queue) run" where
  "my_queue_mb_insert q item =
     (let head = q_head q; tail = q_tail q; space = q_space head tail (q_num_elems q)
      in if space \<ge> 1 then
           run_bind (mem_read item 0 (unat (q_sizeof_elem q))) (\<lambda>bs.
           run_bind (mem_store (q_data q) (unat (head * q_sizeof_elem q)) bs) (\<lambda>data.
             Ret (True, space - 1, q\<lparr>q_data := data, q_head := (head + 1) AND (q_num_elems q - 1)\<rparr>)))
         else Ret (False, space, q))"

definition my_queue_mb_remove :: "my_queue \<Rightarrow> (bool \<times> byte list \<times> u32 \<times> my_queue) run" where
  "my_queue_mb_remove q =
     (let head = q_head q; tail = q_tail q; count = q_count head tail (q_num_elems q)
      in if count \<ge> 1 then
           run_bind (mem_read (q_data q) (unat (tail * q_sizeof_elem q)) (unat (q_sizeof_elem q))) (\<lambda>bs.
             Ret (True, bs, count - 1, q\<lparr>q_tail := (tail + 1) AND (q_num_elems q - 1)\<rparr>))
         else Ret (False, [], count, q))"

text \<open>
  The locked operations; \<open>lock_ok i\<close> is the answer of \<^verbatim>\<open>pthread_mutex_lock\<close> and
  \<^verbatim>\<open>pthread_mutex_unlock\<close>, which is asserted.
\<close>

definition my_queue_mutex_init :: "(nat \<Rightarrow> bool) \<Rightarrow> u32 \<Rightarrow> u32 \<Rightarrow> my_queue option run" where
  "my_queue_mutex_init ok num_elems sizeof_elem =
     (if num_elems < 2 \<or> (num_elems - 1) AND num_elems \<noteq> 0 then Ret None
      else if \<not> ok 0 \<or> \<not> ok 1 \<or> \<not> ok 2 then Abort
      else Ret (Some \<lparr>q_data = replicate (unat num_elems * unat sizeof_elem) 0, q_num_elems = num_elems,
        q_sizeof_elem = sizeof_elem, q_head = 0, q_tail = 0\<rparr>))"

definition my_queue_mutex_insert ::
  "(nat \<Rightarrow> bool) \<Rightarrow> my_queue \<Rightarrow> byte list \<Rightarrow> (bool \<times> u32 \<times> my_queue) run" where
  "my_queue_mutex_insert lock_ok q item =
     (if \<not> lock_ok 0 then Abort
      else let head = q_head q; tail = q_tail q; space = q_space head tail (q_num_elems q)
      in run_bind (if space \<ge> 1 then
           run_bind (mem_read item 0 (unat (q_sizeof_elem q))) (\<lambda>bs.
           run_bind (mem_store (q_data q) (unat (head * q_sizeof_elem q)) bs) (\<lambda>data.
             Ret (True, space - 1, q\<lparr>q_data := data, q_head := (head + 1) AND (q_num_elems q - 1)\<rparr>)))
         else Ret (False, space, q)) (\<lambda>r. if \<not> lock_ok 1 then Abort else Ret r))"

definition my_queue_mutex_remove ::
  "(nat \<Rightarrow> bool) \<Rightarrow> my_queue \<Rightarrow> (bool \<times> byte list \<times> u32 \<times> my_queue) run" where
  "my_queue_mutex_remove lock_ok q =
     (if \<not> lock_ok 0 then Abort
      else let head = q_head q; tail = q_tail q; count = q_count head tail (q_num_elems q)
      in run_bind (if count \<ge> 1 then
           run_bind (mem_read (q_data q) (unat (tail * q_sizeof_elem q)) (unat (q_sizeof_elem q))) (\<lambda>bs.
             Ret (True, bs, count - 1, q\<lparr>q_tail := (tail + 1) AND (q_num_elems q - 1)\<rparr>))
         else Ret (False, [], count, q)) (\<lambda>r. if \<not> lock_ok 1 then Abort else Ret r))"

section \<open>The contract of a bounded queue\<close>

text \<open>A sequence of calls: \<open>Some x\<close> inserts, \<open>None\<close> removes; what was accepted and what came out.\<close>

fun queue_calls :: "('q \<Rightarrow> 'a \<Rightarrow> (bool \<times> u32 \<times> 'q) run) \<Rightarrow> ('q \<Rightarrow> (bool \<times> 'a \<times> u32 \<times> 'q) run) \<Rightarrow>
    'q \<Rightarrow> 'a option list \<Rightarrow> ('a list \<times> 'a list \<times> 'q) run" where
  "queue_calls put take_out q [] = Ret ([], [], q)"
| "queue_calls put take_out q (Some x # ops) = run_bind (put q x) (\<lambda>(b, n, q').
     run_bind (queue_calls put take_out q' ops) (\<lambda>(ins, outs, q''). Ret (if b then x # ins else ins, outs, q'')))"
| "queue_calls put take_out q (None # ops) = run_bind (take_out q) (\<lambda>(b, x, n, q').
     run_bind (queue_calls put take_out q' ops) (\<lambda>(ins, outs, q''). Ret (ins, if b then x # outs else outs, q'')))"

text \<open>
  A queue of at most \<open>capacity\<close> elements: the elements of a state, and what its two operations
  answer.
\<close>

locale bounded_queue =
  fixes insert :: "'q \<Rightarrow> 'a \<Rightarrow> (bool \<times> u32 \<times> 'q) run"
    and remove :: "'q \<Rightarrow> (bool \<times> 'a \<times> u32 \<times> 'q) run"
    and ok_queue :: "'q \<Rightarrow> bool"
    and ok_item :: "'q \<Rightarrow> 'a \<Rightarrow> bool"
    and items :: "'q \<Rightarrow> 'a list"
    and capacity :: "'q \<Rightarrow> nat"
  assumes bounded: "ok_queue q \<Longrightarrow> length (items q) \<le> capacity q"
    and insert_room: "ok_queue q \<Longrightarrow> ok_item q x \<Longrightarrow> length (items q) < capacity q \<Longrightarrow>
      \<exists>n q'. insert q x = Ret (True, n, q') \<and> unat n = capacity q - length (items q) - 1 \<and> ok_queue q' \<and>
        items q' = items q @ [x] \<and> capacity q' = capacity q \<and> ok_item q' = ok_item q"
    and insert_full: "ok_queue q \<Longrightarrow> length (items q) = capacity q \<Longrightarrow> insert q x = Ret (False, 0, q)"
    and remove_some: "ok_queue q \<Longrightarrow> items q = x # xs \<Longrightarrow>
      \<exists>n q'. remove q = Ret (True, x, n, q') \<and> unat n = length xs \<and> ok_queue q' \<and> items q' = xs \<and>
        capacity q' = capacity q \<and> ok_item q' = ok_item q"
    and remove_none: "ok_queue q \<Longrightarrow> items q = [] \<Longrightarrow> \<exists>x. remove q = Ret (False, x, 0, q)"
begin

lemma calls_fifo:
  assumes "ok_queue q" and "\<forall>x. Some x \<in> set ops \<longrightarrow> ok_item q x"
  shows "\<exists>ins outs q'. queue_calls insert remove q ops = Ret (ins, outs, q') \<and> ok_queue q' \<and>
    items q @ ins = outs @ items q'"
  using assms
proof (induction ops arbitrary: q)
  case (Cons a ops)
  obtain ins outs q' where rest: "queue_calls insert remove q ops = Ret (ins, outs, q')" "ok_queue q'"
    "items q @ ins = outs @ items q'" using Cons.IH [OF Cons.prems(1)] Cons.prems(2) by auto
  note ih = Cons.IH and prems = Cons.prems
  show ?case
  proof (cases a)
    case (Some x)
    show ?thesis
    proof (cases "length (items q) = capacity q")
      case True
      have "insert q x = Ret (False, 0, q)" by (rule insert_full [OF Cons.prems(1) True])
      with rest Some show ?thesis by auto
    next
      case False
      then have "length (items q) < capacity q" using bounded [OF Cons.prems(1)] by simp
      moreover have "ok_item q x" using Cons.prems(2) Some by simp
      ultimately obtain n q1 where
        q1: "insert q x = Ret (True, n, q1)" "ok_queue q1" "items q1 = items q @ [x]" "ok_item q1 = ok_item q"
        using insert_room [OF Cons.prems(1)] by blast
      obtain ins outs q' where "queue_calls insert remove q1 ops = Ret (ins, outs, q')" "ok_queue q'"
        "items q1 @ ins = outs @ items q'" using Cons.IH [OF q1(2)] Cons.prems(2) q1(4) by auto
      with Some q1 show ?thesis by auto
    qed
  next
    case None
    show ?thesis
    proof (cases "items q")
      case Nil
      from remove_none [OF Cons.prems(1) Nil] obtain x where "remove q = Ret (False, x, 0, q)" ..
      with rest None show ?thesis by auto
    next
      case (Cons x xs)
      from remove_some [OF prems(1) Cons] obtain n q1 where
        q1: "remove q = Ret (True, x, n, q1)" "ok_queue q1" "items q1 = xs" "ok_item q1 = ok_item q" by auto
      obtain ins outs q' where "queue_calls insert remove q1 ops = Ret (ins, outs, q')" "ok_queue q'"
        "items q1 @ ins = outs @ items q'" using ih [OF q1(2)] prems(2) q1(4) by auto
      with None q1 Cons show ?thesis by auto
    qed
  qed
qed simp

end

section \<open>The arithmetic of the ring\<close>

lemma even_double_suc: "even (2 * m + 1) = False" "even (2 * m)" for m :: nat
  by simp_all

lemma div_double_suc: "(2 * m + 1) div 2 = m" "(2 * m) div 2 = m" for m :: nat
  by simp_all

lemma unat_power_u32: "k < 32 \<Longrightarrow> unat (2 ^ k :: u32) = 2 ^ k"
proof -
  assume "k < 32"
  then have "(2 :: nat) ^ k \<le> 2 ^ 31" by (intro power_increasing) simp_all
  then have "unat (of_nat (2 ^ k) :: u32) = 2 ^ k" by (intro unat_of_nat_u32) simp
  then show ?thesis by simp
qed

lemma power_of_two_nat: "0 < n \<Longrightarrow> (n - 1) AND n = 0 \<Longrightarrow> \<exists>k. n = 2 ^ k" for n :: nat
proof (induction n rule: less_induct)
  case (less n)
  show ?case
  proof (cases "even n")
    case True
    then obtain m where m: "n = 2 * m" by blast
    with less.prems have "0 < m" by simp
    then have "n - 1 = 2 * (m - 1) + 1" using m by simp
    then have "(n - 1) AND n = 2 * ((m - 1) AND m)"
      using m by (subst and_nat_rec) (simp only: even_double_suc div_double_suc, simp)
    with less.IH [of m] less.prems m \<open>0 < m\<close> obtain k where "m = 2 ^ k" by auto
    then show ?thesis using m by (intro exI [of _ "Suc k"]) simp
  next
    case False
    then obtain m where m: "n = 2 * m + 1" by (blast elim: oddE)
    then have "n - 1 = 2 * m" by simp
    then have "(n - 1) AND n = 2 * m"
      unfolding m by (subst and_nat_rec) (simp only: even_double_suc div_double_suc m, simp)
    with less.prems m show ?thesis by (intro exI [of _ 0]) simp
  qed
qed

lemma power_of_two_u32:
  fixes n :: u32
  assumes "\<not> n < 2" and "(n - 1) AND n = 0"
  shows "\<exists>k. 1 \<le> k \<and> k < 32 \<and> unat n = 2 ^ k"
proof -
  have n: "2 \<le> unat n" using assms(1) by (simp add: word_less_nat_alt)
  then have "unat (n - 1) = unat n - 1" by (simp add: unat_sub word_le_nat_alt)
  moreover have "unat ((n - 1) AND n) = 0" using assms(2) by simp
  ultimately have "(unat n - 1) AND unat n = 0" by (simp add: unsigned_and_eq)
  from power_of_two_nat [OF _ this] n obtain k where k: "unat n = 2 ^ k" by auto
  have "k < 32"
  proof (rule ccontr)
    assume "\<not> k < 32"
    then have "(2 :: nat) ^ 32 \<le> 2 ^ k" by (intro power_increasing) simp_all
    then show False using k unsigned_less [where 'a = nat, of n] by simp
  qed
  moreover have "k \<noteq> 0" using k n by (cases "k = 0") auto
  ultimately show ?thesis using k by (intro exI [of _ k]) simp
qed

definition ring_size :: "my_queue \<Rightarrow> nat" where
  "ring_size q = unat (q_num_elems q)"

definition elem_size :: "my_queue \<Rightarrow> nat" where
  "elem_size q = unat (q_sizeof_elem q)"

text \<open>
  The invariant; the last conjunct excludes that the place of an element wraps around in \<^verbatim>\<open>unsigned\<close>.
\<close>

definition queue_ok :: "my_queue \<Rightarrow> bool" where
  "queue_ok q \<longleftrightarrow> (\<exists>k. 1 \<le> k \<and> k < 32 \<and> ring_size q = 2 ^ k) \<and>
     unat (q_head q) < ring_size q \<and> unat (q_tail q) < ring_size q \<and>
     length (q_data q) = ring_size q * elem_size q \<and> ring_size q * elem_size q \<le> 2 ^ 32"

lemma mask_ring:
  fixes n x :: u32
  assumes "unat n = 2 ^ k" and "k < 32"
  shows "unat (x AND (n - 1)) = unat x mod 2 ^ k"
proof -
  have "n = 2 ^ k" using assms by (simp add: word_unat_eq_iff unat_power_u32)
  then have "n - 1 = mask k" by (simp add: mask_eq_exp_minus_1)
  then show ?thesis by (simp add: take_bit_eq_mask [symmetric] take_bit_eq_mod unat_mod assms(1) flip: \<open>n = 2 ^ k\<close>)
qed

lemma ring_distance:
  fixes n a b :: u32
  assumes n: "unat n = 2 ^ k" "k < 32" and a: "unat a < 2 ^ k" and b: "unat b \<le> 2 ^ k"
  shows "unat ((a - b) AND (n - 1)) = (unat a + 2 ^ k - unat b) mod 2 ^ k"
proof -
  have k: "(2 :: nat) ^ k \<le> 2 ^ 31" by (rule power_increasing) (use n(2) in simp_all)
  have "unat (n - b) = 2 ^ k - unat b" using b n(1) by (simp add: unat_sub word_le_nat_alt)
  then have s: "unat (a + (n - b)) = unat a + 2 ^ k - unat b"
    using a b k by (subst unat_add_u32) simp_all
  have "unat (a + (n - b)) mod 2 ^ k = unat (a - b + n) mod 2 ^ k" by (simp add: algebra_simps)
  also have "\<dots> = (unat (a - b) + 2 ^ k) mod 2 ^ 32 mod 2 ^ k" by (simp add: unat_word_ariths n(1))
  also have "\<dots> = (unat (a - b) + 2 ^ k) mod 2 ^ k"
    by (rule mod_mod_cancel) (use n(2) in \<open>intro le_imp_power_dvd, simp\<close>)
  also have "\<dots> = unat ((a - b) AND (n - 1))" using mask_ring [OF n] by simp
  finally show ?thesis using s by simp
qed

section \<open>The elements of a queue\<close>

definition slot :: "my_queue \<Rightarrow> nat \<Rightarrow> byte list" where
  "slot q i = take (elem_size q) (drop (i * elem_size q) (q_data q))"

definition queue_len :: "my_queue \<Rightarrow> nat" where
  "queue_len q = (unat (q_head q) + ring_size q - unat (q_tail q)) mod ring_size q"

definition queue_items :: "my_queue \<Rightarrow> byte list list" where
  "queue_items q = map (\<lambda>i. slot q ((unat (q_tail q) + i) mod ring_size q)) [0..<queue_len q]"

definition queue_capacity :: "my_queue \<Rightarrow> nat" where
  "queue_capacity q = ring_size q - 1"

definition item_ok :: "my_queue \<Rightarrow> byte list \<Rightarrow> bool" where
  "item_ok q x \<longleftrightarrow> length x = elem_size q"

lemma length_queue_items [simp]: "length (queue_items q) = queue_len q"
  by (simp add: queue_items_def)

lemma queue_okD:
  assumes "queue_ok q"
  shows "unat (q_head q) < ring_size q" "unat (q_tail q) < ring_size q" "2 \<le> ring_size q"
    "ring_size q \<le> 2 ^ 31" "length (q_data q) = ring_size q * elem_size q"
    "ring_size q * elem_size q \<le> 2 ^ 32"
proof -
  from assms obtain k where k: "1 \<le> k" "k < 32" "ring_size q = 2 ^ k" by (auto simp: queue_ok_def)
  have "(2 :: nat) ^ 1 \<le> 2 ^ k" by (rule power_increasing) (use k in simp_all)
  then show "2 \<le> ring_size q" using k by simp
  have "(2 :: nat) ^ k \<le> 2 ^ 31" by (rule power_increasing) (use k in simp_all)
  then show "ring_size q \<le> 2 ^ 31" using k by simp
qed (use assms in \<open>simp_all add: queue_ok_def\<close>)

lemma queue_ok_mask:
  assumes "queue_ok q"
  shows "unat (x AND (q_num_elems q - 1)) = unat x mod ring_size q"
proof -
  from assms obtain k where "k < 32" "ring_size q = 2 ^ k" by (auto simp: queue_ok_def)
  then show ?thesis using mask_ring [of "q_num_elems q" k x] by (simp add: ring_size_def)
qed

lemma unat_q_count:
  assumes "queue_ok q"
  shows "unat (q_count (q_head q) (q_tail q) (q_num_elems q)) = queue_len q"
proof -
  from assms obtain k where "k < 32" "ring_size q = 2 ^ k" by (auto simp: queue_ok_def)
  then show ?thesis
    using ring_distance [of "q_num_elems q" k "q_head q" "q_tail q"] queue_okD [OF assms]
    by (simp add: q_count_def queue_len_def ring_size_def)
qed

lemma ring_complement:
  "h < n \<Longrightarrow> t < n \<Longrightarrow> (t + n - (h + 1)) mod n = n - 1 - (h + n - t) mod n" for h t n :: nat
proof -
  assume a: "h < n" "t < n"
  show ?thesis
  proof (cases "t \<le> h")
    case True
    then have "(h + n - t) mod n = h - t" using a by (simp add: mod_if)
    moreover have "(t + n - (h + 1)) mod n = t + n - (h + 1)" using a True by simp
    ultimately show ?thesis using a True by simp
  next
    case False
    then have "(h + n - t) mod n = h + n - t" using a by simp
    moreover have "(t + n - (h + 1)) mod n = t - (h + 1)"
      using a False by (simp add: mod_if)
    ultimately show ?thesis using a False by simp
  qed
qed

lemma queue_len_bound: "queue_ok q \<Longrightarrow> queue_len q \<le> queue_capacity q"
proof -
  assume "queue_ok q"
  then have "queue_len q < ring_size q" using queue_okD(3) [of q] by (simp add: queue_len_def)
  then show ?thesis by (simp add: queue_capacity_def)
qed

lemma unat_q_space:
  assumes "queue_ok q"
  shows "unat (q_space (q_head q) (q_tail q) (q_num_elems q)) = queue_capacity q - queue_len q"
proof -
  from assms obtain k where k: "k < 32" "ring_size q = 2 ^ k" by (auto simp: queue_ok_def)
  note ok = queue_okD [OF assms]
  have h: "unat (q_head q + 1) = unat (q_head q) + 1"
    using ok(1,4) by (subst unat_add_u32) simp_all
  have "unat (q_space (q_head q) (q_tail q) (q_num_elems q)) =
      (unat (q_tail q) + ring_size q - (unat (q_head q) + 1)) mod ring_size q"
    using ring_distance [of "q_num_elems q" k "q_tail q" "q_head q + 1"] k ok h
    by (simp add: q_space_def ring_size_def)
  with ring_complement [OF ok(1,2)] show ?thesis by (simp add: queue_len_def queue_capacity_def)
qed

section \<open>Where the elements are\<close>

lemma ring_end:
  "h < n \<Longrightarrow> t < n \<Longrightarrow> (t + (h + n - t) mod n) mod n = h" for h t n :: nat
  by (simp add: mod_add_right_eq)

lemma ring_outside:
  fixes h t n :: nat
  assumes "h < n" and "t < n" and "i < (h + n - t) mod n"
  shows "(t + i) mod n \<noteq> h"
proof
  assume e: "(t + i) mod n = h"
  have "i < n" using assms by (meson less_trans mod_less_divisor le_less_trans zero_le)
  then have "i = (h + n - t) mod n" using e assms(1,2) by (auto simp: mod_if split: if_splits)
  then show False using assms(3) by simp
qed

lemma ring_next_head:
  fixes h t n :: nat
  assumes "h < n" and "t < n" and "(h + n - t) mod n < n - 1"
  shows "((h + 1) mod n + n - t) mod n = (h + n - t) mod n + 1"
  using assms by (auto simp: mod_if split: if_splits)

lemma ring_next_tail:
  fixes h t n :: nat
  assumes "h < n" and "t < n" and "0 < (h + n - t) mod n"
  shows "(h + n - (t + 1) mod n) mod n = (h + n - t) mod n - 1"
  using assms by (auto simp: mod_if split: if_splits)

lemma slot_eqI:
  assumes "length d = length (q_data q)"
    and "\<And>j. i * elem_size q \<le> j \<Longrightarrow> j < i * elem_size q + elem_size q \<Longrightarrow> d ! j = q_data q ! j"
  shows "slot (q\<lparr>q_data := d\<rparr>) i = slot q i"
  using assms by (intro nth_equalityI) (auto simp: slot_def elem_size_def)

lemma slots_apart:
  "i \<noteq> h \<Longrightarrow> i * s \<le> j \<Longrightarrow> j < i * s + s \<Longrightarrow> j < h * s \<or> h * s + s \<le> j" for i h s j :: nat
proof -
  assume a: "i \<noteq> h" "i * s \<le> j" "j < i * s + s"
  show ?thesis
  proof (cases "i < h")
    case True
    then have "Suc i * s \<le> h * s" by (intro mult_le_mono1) simp
    with a show ?thesis by simp
  next
    case False
    then have "Suc h * s \<le> i * s" using a(1) by (intro mult_le_mono1) simp
    with a show ?thesis by simp
  qed
qed

text \<open>Writing the free element at the head leaves the elements of the queue alone.\<close>

lemma queue_items_write:
  assumes "queue_ok q" and "length d = length (q_data q)"
    and "\<And>j. j < unat (q_head q) * elem_size q \<or> unat (q_head q) * elem_size q + elem_size q \<le> j \<Longrightarrow>
      d ! j = q_data q ! j"
  shows "queue_items (q\<lparr>q_data := d\<rparr>) = queue_items q"
proof -
  have "slot (q\<lparr>q_data := d\<rparr>) ((unat (q_tail q) + i) mod ring_size q) =
      slot q ((unat (q_tail q) + i) mod ring_size q)" if "i < queue_len q" for i
  proof (rule slot_eqI [OF assms(2)])
    have "(unat (q_tail q) + i) mod ring_size q \<noteq> unat (q_head q)"
      using ring_outside queue_okD(1,2) [OF assms(1)] that by (simp add: queue_len_def)
    from slots_apart [OF this] assms(3) show "d ! j = q_data q ! j"
      if "(unat (q_tail q) + i) mod ring_size q * elem_size q \<le> j"
        "j < (unat (q_tail q) + i) mod ring_size q * elem_size q + elem_size q" for j
      using that by blast
  qed
  then show ?thesis by (simp add: queue_items_def queue_len_def ring_size_def)
qed

definition advance_head :: "my_queue \<Rightarrow> my_queue" where
  "advance_head q = q\<lparr>q_head := (q_head q + 1) AND (q_num_elems q - 1)\<rparr>"

definition advance_tail :: "my_queue \<Rightarrow> my_queue" where
  "advance_tail q = q\<lparr>q_tail := (q_tail q + 1) AND (q_num_elems q - 1)\<rparr>"

lemma unat_advance:
  assumes "queue_ok q" and "unat x < ring_size q"
  shows "unat ((x + 1) AND (q_num_elems q - 1)) = (unat x + 1) mod ring_size q"
  using queue_okD(4) [OF assms(1)] assms by (simp add: queue_ok_mask unat_add_u32)

lemma advance_ok:
  assumes "queue_ok q"
  shows "queue_ok (advance_head q)" "queue_ok (advance_tail q)"
  using assms queue_okD [OF assms] unat_advance [OF assms]
  by (simp_all add: queue_ok_def advance_head_def advance_tail_def ring_size_def elem_size_def)

lemma queue_items_advance_head:
  assumes "queue_ok q" and "queue_len q < queue_capacity q"
  shows "queue_items (advance_head q) = queue_items q @ [slot q (unat (q_head q))]"
proof -
  note ok = queue_okD(1,2) [OF assms(1)]
  have "queue_len (advance_head q) = queue_len q + 1"
    using ring_next_head [OF ok] unat_advance [OF assms(1) ok(1)] assms(2)
    by (simp add: queue_len_def advance_head_def ring_size_def queue_capacity_def)
  moreover have "(unat (q_tail q) + queue_len q) mod ring_size q = unat (q_head q)"
    using ring_end [OF ok] by (simp add: queue_len_def)
  ultimately show ?thesis
    by (simp add: queue_items_def advance_head_def ring_size_def slot_def elem_size_def)
qed

lemma queue_items_advance_tail:
  assumes "queue_ok q" and "0 < queue_len q"
  shows "queue_items q = slot q (unat (q_tail q)) # queue_items (advance_tail q)"
proof -
  note ok = queue_okD(1,2) [OF assms(1)]
  have u: "unat (q_tail (advance_tail q)) = (unat (q_tail q) + 1) mod ring_size q"
    using unat_advance [OF assms(1) ok(2)] by (simp add: advance_tail_def)
  have l: "queue_len q = Suc (queue_len (advance_tail q))"
    using ring_next_tail [OF ok] u assms(2)
    by (simp add: queue_len_def advance_tail_def ring_size_def)
  have s: "ring_size (advance_tail q) = ring_size q" "slot (advance_tail q) = slot q"
    by (simp_all add: advance_tail_def ring_size_def slot_def elem_size_def fun_eq_iff)
  have "map (\<lambda>i. slot q ((unat (q_tail q) + i) mod ring_size q)) [Suc 0..<Suc m] =
      map (\<lambda>i. slot q (((unat (q_tail q) + 1) mod ring_size q + i) mod ring_size q)) [0..<m]" for m
    by (rule nth_equalityI) (simp_all add: mod_add_left_eq del: upt_Suc)
  then show ?thesis
    using ok by (simp add: queue_items_def l u s upt_conv_Cons del: upt_Suc)
qed

section \<open>The operations keep the contract\<close>

lemma place_fits:
  assumes "queue_ok q" and "unat x < ring_size q"
  shows "unat x * elem_size q + elem_size q \<le> length (q_data q)"
    and "unat (x * q_sizeof_elem q) = unat x * elem_size q"
proof -
  have "Suc (unat x) * elem_size q \<le> ring_size q * elem_size q" using assms(2) by (intro mult_le_mono1) simp
  then show l: "unat x * elem_size q + elem_size q \<le> length (q_data q)" using queue_okD(5) [OF assms(1)] by simp
  have "unat x * elem_size q < 2 ^ 32"
    using l queue_okD(5,6) [OF assms(1)] by (cases "elem_size q = 0") simp_all
  then show "unat (x * q_sizeof_elem q) = unat x * elem_size q"
    by (simp add: unat_word_ariths elem_size_def)
qed

lemma q_space_positive:
  assumes "queue_ok q"
  shows "1 \<le> q_space (q_head q) (q_tail q) (q_num_elems q) \<longleftrightarrow> queue_len q < queue_capacity q"
  using unat_q_space [OF assms] by (simp add: word_le_nat_alt) linarith

lemma q_count_positive:
  assumes "queue_ok q"
  shows "1 \<le> q_count (q_head q) (q_tail q) (q_num_elems q) \<longleftrightarrow> 0 < queue_len q"
  using unat_q_count [OF assms] by (simp add: word_le_nat_alt) linarith

lemma unat_minus_one: "1 \<le> x \<Longrightarrow> unat (x - 1) = unat x - 1" for x :: u32
  by (simp add: unat_sub)

lemma my_queue_mb_insert_room:
  assumes ok: "queue_ok q" "item_ok q x" and room: "length (queue_items q) < queue_capacity q"
  shows "\<exists>n q'. my_queue_mb_insert q x = Ret (True, n, q') \<and>
    unat n = queue_capacity q - length (queue_items q) - 1 \<and> queue_ok q' \<and>
    queue_items q' = queue_items q @ [x] \<and> queue_capacity q' = queue_capacity q \<and> item_ok q' = item_ok q"
proof -
  let ?h = "unat (q_head q) * elem_size q"
  define d where "d = take ?h (q_data q) @ x @ drop (?h + elem_size q) (q_data q)"
  define q1 where "q1 = q\<lparr>q_data := d\<rparr>"
  note fits = place_fits [OF ok(1) queue_okD(1) [OF ok(1)]]
  have len: "length d = length (q_data q)" using fits(1) ok(2) by (simp add: d_def item_ok_def)
  have q1: "queue_ok q1" "queue_len q1 = queue_len q" "queue_capacity q1 = queue_capacity q"
    using ok(1) len by (simp_all add: q1_def queue_ok_def queue_len_def queue_capacity_def ring_size_def elem_size_def)
  have items: "queue_items q1 = queue_items q"
    unfolding q1_def using fits(1) ok(2)
    by (intro queue_items_write [OF ok(1) len]) (auto simp: d_def item_ok_def nth_append)
  have "slot q1 (unat (q_head q1)) = x"
    using fits(1) ok(2) by (simp add: slot_def q1_def d_def item_ok_def elem_size_def)
  then have adv: "queue_items (advance_head q1) = queue_items q @ [x]"
    using queue_items_advance_head [OF q1(1)] q1(2,3) room items by simp
  have s: "1 \<le> q_space (q_head q) (q_tail q) (q_num_elems q)" using q_space_positive [OF ok(1)] room by simp
  have "my_queue_mb_insert q x = Ret (True, q_space (q_head q) (q_tail q) (q_num_elems q) - 1, advance_head q1)"
    using s fits ok(2) by (simp add: my_queue_mb_insert_def Let_def mem_read_def mem_store_def item_ok_def
      elem_size_def q1_def d_def advance_head_def)
  moreover have "queue_capacity (advance_head q1) = queue_capacity q" "item_ok (advance_head q1) = item_ok q"
    by (simp_all add: advance_head_def q1_def queue_capacity_def ring_size_def item_ok_def elem_size_def fun_eq_iff)
  ultimately show ?thesis
    using adv advance_ok(1) [OF q1(1)] unat_minus_one [OF s] unat_q_space [OF ok(1)] by simp
qed

lemma my_queue_mb_insert_full:
  assumes "queue_ok q" and "length (queue_items q) = queue_capacity q"
  shows "my_queue_mb_insert q x = Ret (False, 0, q)"
proof -
  have "unat (q_space (q_head q) (q_tail q) (q_num_elems q)) = 0"
    using assms unat_q_space [OF assms(1)] by simp
  then have "q_space (q_head q) (q_tail q) (q_num_elems q) = 0" by (simp add: unat_eq_0)
  then show ?thesis by (simp add: my_queue_mb_insert_def Let_def)
qed

lemma my_queue_mb_remove_some:
  assumes ok: "queue_ok q" and items: "queue_items q = x # xs"
  shows "\<exists>n q'. my_queue_mb_remove q = Ret (True, x, n, q') \<and> unat n = length xs \<and> queue_ok q' \<and>
    queue_items q' = xs \<and> queue_capacity q' = queue_capacity q \<and> item_ok q' = item_ok q"
proof -
  note fits = place_fits [OF ok queue_okD(2) [OF ok]]
  have len: "queue_len q = Suc (length xs)" using items by (metis length_Cons length_queue_items)
  then have x: "x = slot q (unat (q_tail q))" "queue_items (advance_tail q) = xs"
    using queue_items_advance_tail [OF ok] items by simp_all
  have c: "1 \<le> q_count (q_head q) (q_tail q) (q_num_elems q)" using q_count_positive [OF ok] len by simp
  have "my_queue_mb_remove q = Ret (True, x, q_count (q_head q) (q_tail q) (q_num_elems q) - 1, advance_tail q)"
    using c fits by (simp add: my_queue_mb_remove_def Let_def mem_read_def elem_size_def slot_def x(1) advance_tail_def)
  moreover have "queue_capacity (advance_tail q) = queue_capacity q" "item_ok (advance_tail q) = item_ok q"
    by (simp_all add: advance_tail_def queue_capacity_def ring_size_def item_ok_def elem_size_def fun_eq_iff)
  ultimately show ?thesis
    using x(2) advance_ok(2) [OF ok] unat_minus_one [OF c] unat_q_count [OF ok] len by simp
qed

lemma my_queue_mb_remove_none:
  assumes "queue_ok q" and "queue_items q = []"
  shows "\<exists>x. my_queue_mb_remove q = Ret (False, x, 0, q)"
proof -
  have "queue_len q = 0" using assms(2) length_queue_items [of q] by simp
  then have "q_count (q_head q) (q_tail q) (q_num_elems q) = 0"
    using unat_q_count [OF assms(1)] by (simp add: unat_eq_0)
  then show ?thesis by (simp add: my_queue_mb_remove_def Let_def)
qed

text \<open>With a lock that works the locked operations are the unlocked ones, so both keep the contract.\<close>

lemma my_queue_mutex_eq:
  "my_queue_mutex_insert (\<lambda>_. True) = my_queue_mb_insert" "my_queue_mutex_remove (\<lambda>_. True) = my_queue_mb_remove"
  by (simp_all add: fun_eq_iff my_queue_mutex_insert_def my_queue_mb_insert_def
    my_queue_mutex_remove_def my_queue_mb_remove_def Let_def)

lemmas queue_contract = my_queue_mb_insert_room my_queue_mb_insert_full my_queue_mb_remove_some
  my_queue_mb_remove_none queue_len_bound

interpretation mb: bounded_queue my_queue_mb_insert my_queue_mb_remove queue_ok item_ok queue_items queue_capacity
  by (unfold_locales; (intro queue_contract)?; simp add: queue_len_bound)

interpretation mutex: bounded_queue "my_queue_mutex_insert (\<lambda>_. True)" "my_queue_mutex_remove (\<lambda>_. True)"
  queue_ok item_ok queue_items queue_capacity
  unfolding my_queue_mutex_eq by (rule mb.bounded_queue_axioms)

lemma my_queue_mb_init_ok:
  assumes "my_queue_mb_init ok num_elems sizeof_elem = Ret (Some q)"
    and "unat num_elems * unat sizeof_elem \<le> 2 ^ 32"
  shows "queue_ok q" "queue_items q = []" "queue_capacity q = unat num_elems - 1"
    "elem_size q = unat sizeof_elem"
proof -
  from assms(1) have n: "\<not> num_elems < 2" "(num_elems - 1) AND num_elems = 0"
    and q: "q = \<lparr>q_data = replicate (unat num_elems * unat sizeof_elem) 0, q_num_elems = num_elems,
      q_sizeof_elem = sizeof_elem, q_head = 0, q_tail = 0\<rparr>"
    by (auto simp: my_queue_mb_init_def split: if_splits)
  obtain k where "1 \<le> k \<and> k < 32 \<and> unat num_elems = 2 ^ k" using power_of_two_u32 [OF n] ..
  then show "queue_ok q" using assms(2) unfolding q by (auto simp: queue_ok_def ring_size_def elem_size_def)
  show "queue_items q = []" "queue_capacity q = unat num_elems - 1" "elem_size q = unat sizeof_elem"
    by (simp_all add: q queue_items_def queue_len_def ring_size_def queue_capacity_def elem_size_def)
qed

end
