(* ===== verification/Queue_Steps.thy ===== *)
theory Queue_Steps
  imports Queue
begin

text \<open>
  my_queue_mb.c with its two threads running side by side. A step is one access to the shared queue: the
  producer reads the head and the tail, copies the element byte by byte, and publishes the new head; the
  consumer reads the tail and the head, copies the element out byte by byte, and publishes the new tail.
  The barriers of the code keep each thread's accesses in this order.
\<close>

section \<open>The steps\<close>

datatype producer = P_idle | P_copy "byte list" u32 nat

datatype consumer = C_idle | C_copy u32 "byte list"

record mb_state =
  mb_queue :: my_queue
  mb_producer :: producer
  mb_consumer :: consumer
  mb_accepted :: "byte list list"
  mb_delivered :: "byte list list"

text \<open>A step of \<^verbatim>\<open>my_queue_mb_insert\<close>; \<open>item\<close> is the element of the call when one begins.\<close>

definition mb_insert_step :: "byte list \<Rightarrow> mb_state \<Rightarrow> mb_state run" where
  "mb_insert_step item s =
     (let q = mb_queue s in
      case mb_producer s of
        P_idle \<Rightarrow>
          Ret (if q_space (q_head q) (q_tail q) (q_num_elems q) \<ge> 1
            then s\<lparr>mb_producer := P_copy item (q_head q) 0\<rparr> else s)
      | P_copy x head k \<Rightarrow>
          if k < unat (q_sizeof_elem q) then
            run_bind (mem_byte x k) (\<lambda>b.
            run_bind (mem_store (q_data q) (unat (head * q_sizeof_elem q) + k) [b]) (\<lambda>d.
              Ret (s\<lparr>mb_queue := q\<lparr>q_data := d\<rparr>, mb_producer := P_copy x head (Suc k)\<rparr>)))
          else Ret (s\<lparr>mb_queue := q\<lparr>q_head := (head + 1) AND (q_num_elems q - 1)\<rparr>, mb_producer := P_idle,
            mb_accepted := mb_accepted s @ [x]\<rparr>))"

definition mb_remove_step :: "mb_state \<Rightarrow> mb_state run" where
  "mb_remove_step s =
     (let q = mb_queue s in
      case mb_consumer s of
        C_idle \<Rightarrow>
          Ret (if q_count (q_head q) (q_tail q) (q_num_elems q) \<ge> 1
            then s\<lparr>mb_consumer := C_copy (q_tail q) []\<rparr> else s)
      | C_copy tail bs \<Rightarrow>
          if length bs < unat (q_sizeof_elem q) then
            run_bind (mem_byte (q_data q) (unat (tail * q_sizeof_elem q) + length bs)) (\<lambda>b.
              Ret (s\<lparr>mb_consumer := C_copy tail (bs @ [b])\<rparr>))
          else Ret (s\<lparr>mb_queue := q\<lparr>q_tail := (tail + 1) AND (q_num_elems q - 1)\<rparr>, mb_consumer := C_idle,
            mb_delivered := mb_delivered s @ [bs]\<rparr>))"

text \<open>A schedule: \<open>Some item\<close> lets the producer take a step, \<open>None\<close> the consumer.\<close>

fun mb_run :: "mb_state \<Rightarrow> byte list option list \<Rightarrow> mb_state run" where
  "mb_run s [] = Ret s"
| "mb_run s (Some item # sched) = run_bind (mb_insert_step item s) (\<lambda>s'. mb_run s' sched)"
| "mb_run s (None # sched) = run_bind (mb_remove_step s) (\<lambda>s'. mb_run s' sched)"

definition mb_start :: "my_queue \<Rightarrow> mb_state" where
  "mb_start q = \<lparr>mb_queue = q, mb_producer = P_idle, mb_consumer = C_idle, mb_accepted = [], mb_delivered = []\<rparr>"

section \<open>The invariant\<close>

definition producer_inv :: "my_queue \<Rightarrow> producer \<Rightarrow> bool" where
  "producer_inv q p = (case p of P_idle \<Rightarrow> True | P_copy x head k \<Rightarrow>
     head = q_head q \<and> length x = elem_size q \<and> k \<le> elem_size q \<and> queue_len q < queue_capacity q \<and>
     take k (slot q (unat head)) = take k x)"

definition consumer_inv :: "my_queue \<Rightarrow> consumer \<Rightarrow> bool" where
  "consumer_inv q c = (case c of C_idle \<Rightarrow> True | C_copy tail bs \<Rightarrow>
     tail = q_tail q \<and> 0 < queue_len q \<and> length bs \<le> elem_size q \<and>
     bs = take (length bs) (slot q (unat tail)))"

definition mb_inv :: "mb_state \<Rightarrow> bool" where
  "mb_inv s \<longleftrightarrow> queue_ok (mb_queue s) \<and>
     mb_accepted s = mb_delivered s @ queue_items (mb_queue s) \<and>
     producer_inv (mb_queue s) (mb_producer s) \<and> consumer_inv (mb_queue s) (mb_consumer s)"

lemma slot_hd: "queue_ok q \<Longrightarrow> 0 < queue_len q \<Longrightarrow> slot q (unat (q_tail q)) = hd (queue_items q)"
  by (simp add: queue_items_advance_tail)

lemma length_slot:
  fixes x :: u32
  assumes "queue_ok q" and "unat x < ring_size q"
  shows "length (slot q (unat x)) = elem_size q"
  using place_fits(1) [of q x] assms by (simp add: slot_def)

lemma advance_head_len:
  assumes "queue_ok q" and "queue_len q < queue_capacity q"
  shows "queue_len (advance_head q) = Suc (queue_len q)"
  using arg_cong [OF queue_items_advance_head [OF assms], of length] by simp

lemma advance_tail_len:
  assumes "queue_ok q" and "0 < queue_len q"
  shows "queue_len q = Suc (queue_len (advance_tail q))"
  using arg_cong [OF queue_items_advance_tail [OF assms], of length] by simp

lemma advance_simps:
  "slot (advance_head q) = slot q" "slot (advance_tail q) = slot q"
  "elem_size (advance_head q) = elem_size q" "elem_size (advance_tail q) = elem_size q"
  "queue_capacity (advance_head q) = queue_capacity q" "queue_capacity (advance_tail q) = queue_capacity q"
  "q_tail (advance_head q) = q_tail q" "q_head (advance_tail q) = q_head q"
  by (simp_all add: advance_head_def advance_tail_def slot_def elem_size_def queue_capacity_def ring_size_def
    fun_eq_iff)

text \<open>Storing one byte of the element at the head.\<close>

lemma store_byte_ok:
  assumes ok: "queue_ok q" and k: "k < elem_size q"
    and d: "d = (q_data q)[unat (q_head q) * elem_size q + k := b]"
  shows "queue_ok (q\<lparr>q_data := d\<rparr>)" "queue_items (q\<lparr>q_data := d\<rparr>) = queue_items q"
    "slot (q\<lparr>q_data := d\<rparr>) (unat (q_head q)) = (slot q (unat (q_head q)))[k := b]"
proof -
  show "queue_ok (q\<lparr>q_data := d\<rparr>)"
    using ok by (simp add: d queue_ok_def ring_size_def elem_size_def)
  show "queue_items (q\<lparr>q_data := d\<rparr>) = queue_items q"
    using k by (intro queue_items_write [OF ok]) (auto simp: d)
  show "slot (q\<lparr>q_data := d\<rparr>) (unat (q_head q)) = (slot q (unat (q_head q)))[k := b]"
    using k place_fits(1) [OF ok queue_okD(1) [OF ok]]
    by (simp add: slot_def d elem_size_def drop_update_swap take_update_swap)
qed

lemma mem_store_byte: "i < length m \<Longrightarrow> mem_store m i [b] = Ret (m[i := b])"
  by (simp add: mem_store_def upd_conv_take_nth_drop)

lemma mb_insert_step_inv:
  assumes inv: "mb_inv s" and item: "item_ok (mb_queue s) item"
  shows "\<exists>s'. mb_insert_step item s = Ret s' \<and> mb_inv s' \<and> item_ok (mb_queue s') = item_ok (mb_queue s)"
proof -
  define q where "q = mb_queue s"
  have ok: "queue_ok q" and log: "mb_accepted s = mb_delivered s @ queue_items q"
    and p: "producer_inv q (mb_producer s)" and c: "consumer_inv q (mb_consumer s)"
    using inv by (simp_all add: mb_inv_def q_def)
  show ?thesis
  proof (cases "mb_producer s")
    case P_idle
    then show ?thesis
      using inv item q_space_positive [OF ok]
      by (auto simp: mb_insert_step_def Let_def mb_inv_def producer_inv_def item_ok_def q_def)
  next
    case (P_copy x head k)
    with p have x: "head = q_head q" "length x = elem_size q" "k \<le> elem_size q"
      "queue_len q < queue_capacity q" "take k (slot q (unat head)) = take k x"
      by (auto simp: producer_inv_def)
    note fits = place_fits [OF ok queue_okD(1) [OF ok]]
    show ?thesis
    proof (cases "k < elem_size q")
      case True
      define d where "d = (q_data q)[unat (q_head q) * elem_size q + k := x ! k]"
      define q1 where "q1 = q\<lparr>q_data := d\<rparr>"
      note st = store_byte_ok [OF ok True d_def, folded q1_def]
      have step: "mb_insert_step item s = Ret (s\<lparr>mb_queue := q1, mb_producer := P_copy x head (Suc k)\<rparr>)"
        using P_copy True x fits
        by (simp add: mb_insert_step_def q_def [symmetric] elem_size_def mem_byte_def mem_store_byte q1_def d_def)
      have same: "queue_len q1 = queue_len q" "q_head q1 = q_head q" "q_tail q1 = q_tail q"
        "elem_size q1 = elem_size q" "queue_capacity q1 = queue_capacity q"
        by (simp_all add: q1_def queue_len_def ring_size_def elem_size_def queue_capacity_def)
      have "take (Suc k) (slot q1 (unat head)) = take (Suc k) x"
        using x True st(3) length_slot [OF ok queue_okD(1) [OF ok]]
        by (simp add: take_Suc_conv_app_nth)
      then have "producer_inv q1 (P_copy x head (Suc k))" using x True same by (simp add: producer_inv_def)
      moreover have "consumer_inv q1 (mb_consumer s)"
        using c st(1,2) same slot_hd [OF ok] slot_hd [OF st(1)]
        by (auto simp: consumer_inv_def split: consumer.splits)
      ultimately show ?thesis
        using step st log same by (simp add: mb_inv_def item_ok_def q_def [symmetric] fun_eq_iff)
    next
      case False
      with x have k: "k = elem_size q" by simp
      have step: "mb_insert_step item s = Ret (s\<lparr>mb_queue := advance_head q, mb_producer := P_idle,
          mb_accepted := mb_accepted s @ [x]\<rparr>)"
        using P_copy k x by (simp add: mb_insert_step_def q_def [symmetric] elem_size_def advance_head_def)
      have "slot q (unat (q_head q)) = x"
        using x k length_slot [OF ok queue_okD(1) [OF ok]] by simp
      then have "queue_items (advance_head q) = queue_items q @ [x]"
        using queue_items_advance_head [OF ok x(4)] by simp
      moreover have "consumer_inv (advance_head q) (mb_consumer s)"
        using c advance_head_len [OF ok x(4)]
        by (auto simp: consumer_inv_def advance_simps split: consumer.splits)
      ultimately show ?thesis
        using step log advance_ok(1) [OF ok]
        by (simp add: mb_inv_def producer_inv_def item_ok_def q_def [symmetric] advance_simps fun_eq_iff)
    qed
  qed
qed

lemma mb_remove_step_inv:
  assumes inv: "mb_inv s"
  shows "\<exists>s'. mb_remove_step s = Ret s' \<and> mb_inv s' \<and> item_ok (mb_queue s') = item_ok (mb_queue s)"
proof -
  define q where "q = mb_queue s"
  have ok: "queue_ok q" and log: "mb_accepted s = mb_delivered s @ queue_items q"
    and p: "producer_inv q (mb_producer s)" and c: "consumer_inv q (mb_consumer s)"
    using inv by (simp_all add: mb_inv_def q_def)
  show ?thesis
  proof (cases "mb_consumer s")
    case C_idle
    then show ?thesis
      using inv q_count_positive [OF ok]
      by (auto simp: mb_remove_step_def Let_def mb_inv_def consumer_inv_def q_def)
  next
    case (C_copy tail bs)
    with c have x: "tail = q_tail q" "0 < queue_len q" "length bs \<le> elem_size q"
      "bs = take (length bs) (slot q (unat tail))" by (auto simp: consumer_inv_def)
    note fits = place_fits [OF ok queue_okD(2) [OF ok]]
    have l: "length (slot q (unat (q_tail q))) = elem_size q" by (rule length_slot [OF ok queue_okD(2) [OF ok]])
    show ?thesis
    proof (cases "length bs < elem_size q")
      case True
      define b where "b = slot q (unat tail) ! length bs"
      have step: "mb_remove_step s = Ret (s\<lparr>mb_consumer := C_copy tail (bs @ [b])\<rparr>)"
        using C_copy True x(1) fits
        by (simp add: mb_remove_step_def q_def [symmetric] elem_size_def mem_byte_def b_def slot_def)
      have "bs @ [b] = take (Suc (length bs)) (slot q (unat tail))"
        using x(1) True l by (subst x(4)) (simp add: b_def take_Suc_conv_app_nth)
      then have "consumer_inv q (C_copy tail (bs @ [b]))" using x(1,2) True l by (simp add: consumer_inv_def)
      then show ?thesis using step ok log p by (simp add: mb_inv_def q_def [symmetric])
    next
      case False
      with x have "bs = slot q (unat (q_tail q))" using l by simp
      then have items: "queue_items q = bs # queue_items (advance_tail q)"
        using queue_items_advance_tail [OF ok x(2)] by simp
      have step: "mb_remove_step s = Ret (s\<lparr>mb_queue := advance_tail q, mb_consumer := C_idle,
          mb_delivered := mb_delivered s @ [bs]\<rparr>)"
        using C_copy False x(1) by (simp add: mb_remove_step_def q_def [symmetric] elem_size_def advance_tail_def)
      have "producer_inv (advance_tail q) (mb_producer s)"
        using p advance_tail_len [OF ok x(2)]
        by (auto simp: producer_inv_def advance_simps split: producer.splits)
      then show ?thesis
        using step log items advance_ok(2) [OF ok]
        by (simp add: mb_inv_def consumer_inv_def item_ok_def q_def [symmetric] advance_simps fun_eq_iff)
    qed
  qed
qed

lemma mb_run_inv:
  "mb_inv s \<Longrightarrow> \<forall>x. Some x \<in> set sched \<longrightarrow> item_ok (mb_queue s) x \<Longrightarrow> \<exists>s'. mb_run s sched = Ret s' \<and> mb_inv s'"
proof (induction s sched rule: mb_run.induct)
  case (2 s item sched)
  then obtain s1 where s1: "mb_insert_step item s = Ret s1" "mb_inv s1" "item_ok (mb_queue s1) = item_ok (mb_queue s)"
    using mb_insert_step_inv [of s item] by auto
  with 2 show ?case by auto
next
  case (3 s sched)
  then obtain s1 where "mb_remove_step s = Ret s1" "mb_inv s1" "item_ok (mb_queue s1) = item_ok (mb_queue s)"
    using mb_remove_step_inv [of s] by auto
  with 3 show ?case by auto
qed simp

lemma mb_start_inv: "queue_ok q \<Longrightarrow> queue_items q = [] \<Longrightarrow> mb_inv (mb_start q)"
  by (simp add: mb_inv_def mb_start_def producer_inv_def consumer_inv_def)

lemma replicate_2: "replicate 2 x = [x, x]"
  by (simp add: numeral_2_eq_2)

section \<open>Properties\<close>

text \<open>
  C28.
  A lock-free queue delivers what it accepted, once and in order, however the producer and the consumer
  interleave: after any schedule of their single accesses, of a queue as \<^verbatim>\<open>my_queue_mb_init\<close> makes it, no access
  was outside the ring, the elements delivered followed by the elements still in the ring are the elements
  accepted, and the ring holds at most one element less than it was made for. The size of the ring in bytes is
  assumed to fit 32 bits.
\<close>
theorem queue_mb_concurrent_fifo:
  assumes "my_queue_mb_init ok num_elems sizeof_elem = Ret (Some q)"
    and "unat num_elems * unat sizeof_elem \<le> 2 ^ 32"
    and "\<forall>x. Some x \<in> set sched \<longrightarrow> length x = unat sizeof_elem"
  shows "\<exists>s. mb_run (mb_start q) sched = Ret s \<and>
    mb_accepted s = mb_delivered s @ queue_items (mb_queue s) \<and>
    length (queue_items (mb_queue s)) \<le> queue_capacity (mb_queue s)"
proof -
  note init = my_queue_mb_init_ok [OF assms(1,2)]
  have "\<forall>x. Some x \<in> set sched \<longrightarrow> item_ok (mb_queue (mb_start q)) x"
    using assms(3) init(4) by (simp add: mb_start_def item_ok_def)
  from mb_run_inv [OF mb_start_inv [OF init(1,2)] this] obtain s where s: "mb_run (mb_start q) sched = Ret s" "mb_inv s"
    by blast
  then show ?thesis using mb.bounded [of "mb_queue s"] by (auto simp: mb_inv_def)
qed

theorem queue_mb_concurrent_fifo_witness:
  "\<exists>s. mb_run (mb_start \<lparr>q_data = [0, 0], q_num_elems = 2, q_sizeof_elem = 1, q_head = 0, q_tail = 0\<rparr>)
      [Some [7], None, Some [7], Some [8], None, Some [9], None, None] = Ret s \<and>
    mb_accepted s = mb_delivered s @ queue_items (mb_queue s) \<and>
    length (queue_items (mb_queue s)) \<le> queue_capacity (mb_queue s)"
  by (rule queue_mb_concurrent_fifo [of "\<lambda>_. True" 2 1]) (auto simp: my_queue_mb_init_def replicate_2)

text \<open>
  The locked and the lock-free queue are bounded queues: any sequence of \<^verbatim>\<open>my_queue_mutex_insert\<close> and
  \<^verbatim>\<open>my_queue_mutex_remove\<close> calls on a new queue runs without a fault, and the elements the inserts accepted are
  the elements the removes returned, in the same order, followed by those still in the queue; the lock-free
  operations, called one after the other, give the same results.
\<close>
theorem queue_operations_fifo:
  assumes "my_queue_mutex_init ok num_elems sizeof_elem = Ret (Some q)"
    and "unat num_elems * unat sizeof_elem \<le> 2 ^ 32"
    and "\<forall>x. Some x \<in> set ops \<longrightarrow> length x = unat sizeof_elem"
  shows "\<exists>ins outs q'.
    queue_calls (my_queue_mutex_insert (\<lambda>_. True)) (my_queue_mutex_remove (\<lambda>_. True)) q ops = Ret (ins, outs, q') \<and>
    queue_calls my_queue_mb_insert my_queue_mb_remove q ops = Ret (ins, outs, q') \<and>
    ins = outs @ queue_items q'"
proof -
  have "my_queue_mb_init ok num_elems sizeof_elem = Ret (Some q)"
    using assms(1) by (auto simp: my_queue_mutex_init_def my_queue_mb_init_def split: if_splits)
  note init = my_queue_mb_init_ok [OF this assms(2)]
  show ?thesis
    using mutex.calls_fifo [OF init(1), of ops] assms(3) init(2,4) by (auto simp: item_ok_def my_queue_mutex_eq)
qed

theorem queue_operations_fifo_witness:
  "\<exists>ins outs q'.
    queue_calls (my_queue_mutex_insert (\<lambda>_. True)) (my_queue_mutex_remove (\<lambda>_. True))
      \<lparr>q_data = [0, 0], q_num_elems = 2, q_sizeof_elem = 1, q_head = 0, q_tail = 0\<rparr>
      [Some [7], Some [8], None, None] = Ret (ins, outs, q') \<and>
    queue_calls my_queue_mb_insert my_queue_mb_remove
      \<lparr>q_data = [0, 0], q_num_elems = 2, q_sizeof_elem = 1, q_head = 0, q_tail = 0\<rparr>
      [Some [7], Some [8], None, None] = Ret (ins, outs, q') \<and>
    ins = outs @ queue_items q'"
  by (rule queue_operations_fifo [of "\<lambda>_. True" 2 1]) (auto simp: my_queue_mutex_init_def replicate_2)

text \<open>
  The place of an element is a product of two \<^verbatim>\<open>unsigned\<close> numbers, the size of the ring a product of two
  \<^verbatim>\<open>size_t\<close>: in a ring of more than 2 to the 32 bytes two elements share a place.
\<close>

lemma queue_place_wraps:
  fixes h n :: u32
  assumes "unat h * unat n = 2 ^ 32"
  shows "h * n = 0"
  using assms by (simp add: word_unat_eq_iff unat_word_ariths)

end
