(* ===== verification/Ipreasm.thy ===== *)
theory Ipreasm
  imports Prelude
begin

text \<open>
  Reassembly of IPv4 and IPv6 fragments: nmsg/ipreasm.c, function by function. Its properties are
  in theories Ipreasm_Holes and Ipreasm_Props.
\<close>

section \<open>Data\<close>

datatype entry_state = STATE_ACTIVE | STATE_INVALID
datatype reasm_proto = PROTO_IPV4 | PROTO_IPV6

record reasm_id_ipv4 =
  ip4_src :: "byte list"
  ip4_dst :: "byte list"
  ip4_id :: u16
  ip4_proto :: byte

record reasm_id_ipv6 =
  ip6_src :: "byte list"
  ip6_dst :: "byte list"
  ip6_id :: u32

datatype reasm_id = Id_ipv4 reasm_id_ipv4 | Id_ipv6 reasm_id_ipv6

record reasm_frag_entry =
  fr_len :: u32
  fr_offset :: u32
  fr_data_offset :: u32
  fr_data :: "byte list"

text \<open>The list of fragments is without its head, which has length and offset zero.\<close>

record reasm_ip_entry =
  e_id :: reasm_id
  e_len :: u32
  e_holes :: u32
  e_frag_count :: u32
  e_hash :: nat
  e_timeout :: u64
  e_state :: entry_state
  e_protocol :: reasm_proto
  e_frags :: "reasm_frag_entry list"

text \<open>
  \<^verbatim>\<open>struct reasm_ip\<close>. Entries live at addresses of the store \<open>r_entries\<close>; the chains of the hash
  table and the list in the order of the timeouts hold addresses. \<open>r_fresh\<close> is the next address
  that \<^verbatim>\<open>malloc\<close> returns.
\<close>

record reasm_ip =
  r_entries :: "nat \<Rightarrow> reasm_ip_entry option"
  r_fresh :: nat
  r_table :: "nat \<Rightarrow> nat list"
  r_time :: "nat list"
  r_waiting :: u32
  r_max_waiting :: u32
  r_timed_out :: u32
  r_dropped_frags :: u32
  r_timeout :: u64

definition REASM_IP_HASH_SIZE :: u32 where
  "REASM_IP_HASH_SIZE = 1021"

section \<open>Hash functions and identification\<close>

definition reasm_ipv4_hash :: "reasm_id_ipv4 \<Rightarrow> u32" where
  "reasm_ipv4_hash d =
     47 * (59 * foldl (\<lambda>h (s, t). 37 * (37 * h + ucast s) + ucast t) 0 (zip (ip4_src d) (ip4_dst d)) +
       ucast (ip4_id d)) + ucast (ip4_proto d)"

definition reasm_ipv6_hash :: "reasm_id_ipv6 \<Rightarrow> u32" where
  "reasm_ipv6_hash d =
     59 * foldl (\<lambda>h (s, t). 37 * (37 * h + ucast s) + ucast t) 0 (zip (ip6_src d) (ip6_dst d)) + ip6_id d"

text \<open>The constructor of an id always agrees with the protocol it is compared under.\<close>

fun reasm_id_equal :: "reasm_proto \<Rightarrow> reasm_id \<Rightarrow> reasm_id \<Rightarrow> bool" where
  "reasm_id_equal PROTO_IPV4 (Id_ipv4 l) (Id_ipv4 r) =
     (ip4_src l = ip4_src r \<and> ip4_dst l = ip4_dst r \<and> ip4_id l = ip4_id r \<and> ip4_proto l = ip4_proto r)"
| "reasm_id_equal PROTO_IPV6 (Id_ipv6 l) (Id_ipv6 r) =
     (ip6_src l = ip6_src r \<and> ip6_dst l = ip6_dst r \<and> ip6_id l = ip6_id r)"
| "reasm_id_equal _ _ _ = False"

section \<open>Parsing\<close>

definition IPPROTO_HOPOPTS :: byte where "IPPROTO_HOPOPTS = 0"
definition IPPROTO_ROUTING :: byte where "IPPROTO_ROUTING = 43"
definition IPPROTO_FRAGMENT :: byte where "IPPROTO_FRAGMENT = 44"
definition IPPROTO_DSTOPTS :: byte where "IPPROTO_DSTOPTS = 60"
definition IP_MF :: u16 where "IP_MF = 0x2000"
definition IP_OFFMASK :: u16 where "IP_OFFMASK = 0x1FFF"
definition IP6F_OFF_MASK :: u16 where "IP6F_OFF_MASK = 0xFFF8"
definition IP6F_MORE_FRAG :: u16 where "IP6F_MORE_FRAG = 1"

text \<open>
  The walk of \<^verbatim>\<open>frag_from_ipv6\<close> over the extension headers; the result is the offset of the
  Fragment header and that of the octet that names it, \<open>None\<close> when there is none.
\<close>

function skip_exthdrs :: "byte list \<Rightarrow> nat \<Rightarrow> byte \<Rightarrow> nat \<Rightarrow> nat \<Rightarrow> (nat \<times> nat) option run" where
  "skip_exthdrs packet total_len nxt offset last_nxt =
     (if nxt = IPPROTO_HOPOPTS \<or> nxt = IPPROTO_ROUTING \<or> nxt = IPPROTO_DSTOPTS then
        if offset + 2 > total_len then Ret None
        else run_bind (mem_byte packet (offset + 1)) (\<lambda>l.
          let exthdr_len = 8 + 8 * unat l in
          if offset + exthdr_len > total_len then Ret None
          else run_bind (mem_byte packet offset) (\<lambda>nxt'.
            skip_exthdrs packet total_len nxt' (offset + exthdr_len) offset))
      else if nxt \<noteq> IPPROTO_FRAGMENT then Ret None
      else Ret (Some (offset, last_nxt)))"
  by pat_completeness auto
termination
  by (relation "measure (\<lambda>(packet, total_len, nxt, offset, last_nxt). total_len - offset)") auto

declare skip_exthdrs.simps [simp del]

text \<open>
  \<^verbatim>\<open>frag_from_ipv6\<close>: the fragment, its identification, and whether it is the last one.
  Allocations 0 and 1 are the fragment and its data.
\<close>

definition frag_from_ipv6 ::
  "(nat \<Rightarrow> bool) \<Rightarrow> byte list \<Rightarrow> nat \<Rightarrow> (reasm_frag_entry \<times> u32 \<times> bool) option run" where
  "frag_from_ipv6 ok packet frag_hdr_offset =
     run_bind (mem_byte packet 6) (\<lambda>nxt.
     run_bind (load_net16 (drop 4 packet)) (\<lambda>plen.
       let total_len = 40 + unat plen in
       run_bind (if frag_hdr_offset \<noteq> 0 then Ret (Some (frag_hdr_offset, 6))
                 else skip_exthdrs packet total_len nxt 40 6) (\<lambda>r.
         case r of
           None \<Rightarrow> Ret None
         | Some (offset, last_nxt) \<Rightarrow>
             if offset + 8 > total_len then Ret None
             else if \<not> ok 0 \<or> \<not> ok 1 then Abort
             else run_bind (mem_read packet 0 total_len) (\<lambda>data.
               run_bind (mem_byte packet offset) (\<lambda>ip6f_nxt.
               run_bind (mem_store data last_nxt [ip6f_nxt]) (\<lambda>frag_data.
               run_bind (load_net16 (drop (offset + 2) packet)) (\<lambda>ip6f_offlg.
               run_bind (load_net32 (drop (offset + 4) packet)) (\<lambda>ip6f_ident.
                 Ret (Some (\<lparr>fr_len = of_nat total_len - of_nat (offset + 8),
                     fr_offset = ucast (ip6f_offlg AND IP6F_OFF_MASK), fr_data_offset = of_nat (offset + 8),
                     fr_data = frag_data\<rparr>, ip6f_ident, ip6f_offlg AND IP6F_MORE_FRAG = 0)))))))))) "

text \<open>The IPv4 case of \<^verbatim>\<open>parse_packet\<close>.\<close>

definition frag_from_ipv4 ::
  "(nat \<Rightarrow> bool) \<Rightarrow> byte list \<Rightarrow> u32 \<Rightarrow> (reasm_frag_entry \<times> reasm_id_ipv4 \<times> bool) option run" where
  "frag_from_ipv4 ok packet len =
     run_bind (load_net16 (drop 6 packet)) (\<lambda>offset.
     run_bind (load_net16 (drop 2 packet)) (\<lambda>ip_len.
       if \<not> (len \<ge> ucast ip_len \<and> offset AND (IP_MF OR IP_OFFMASK) \<noteq> 0) then Ret None
       else if \<not> ok 0 \<or> \<not> ok 1 then Abort
       else run_bind (mem_byte packet 0) (\<lambda>vhl.
         run_bind (mem_read packet 0 (unat ip_len)) (\<lambda>frag_data.
         run_bind (mem_read packet 12 4) (\<lambda>src.
         run_bind (mem_read packet 16 4) (\<lambda>dst.
         run_bind (load_net16 (drop 4 packet)) (\<lambda>ip_id.
         run_bind (mem_byte packet 9) (\<lambda>ip_p.
           let pl_hl = ucast (vhl AND 0xF) * 4
           in Ret (Some (\<lparr>fr_len = ucast ip_len - pl_hl, fr_offset = ucast (offset AND IP_OFFMASK) * 8,
               fr_data_offset = pl_hl, fr_data = frag_data\<rparr>,
               \<lparr>ip4_src = src, ip4_dst = dst, ip4_id = ip_id, ip4_proto = ip_p\<rparr>,
               offset AND IP_MF = 0))))))))))"

definition parse_packet ::
  "(nat \<Rightarrow> bool) \<Rightarrow> byte list \<Rightarrow> u32 \<Rightarrow> nat \<Rightarrow>
     (reasm_frag_entry \<times> reasm_proto \<times> reasm_id \<times> u32 \<times> bool) option run" where
  "parse_packet ok packet len frag_hdr_offset =
     run_bind (mem_byte packet 0) (\<lambda>vhl.
       if drop_bit 4 vhl = 4 then
         run_bind (frag_from_ipv4 ok packet len) (\<lambda>r. Ret (map_option (\<lambda>(frag, d, final).
           (frag, PROTO_IPV4, Id_ipv4 d, reasm_ipv4_hash d, final)) r))
       else if drop_bit 4 vhl = 6 then
         run_bind (load_net16 (drop 4 packet)) (\<lambda>plen.
           if \<not> len \<ge> ucast plen + 40 then Ret None
           else run_bind (frag_from_ipv6 ok packet frag_hdr_offset) (\<lambda>r.
             case r of
               None \<Rightarrow> Ret None
             | Some (frag, ident, final) \<Rightarrow>
                 run_bind (mem_read packet 8 16) (\<lambda>src.
                 run_bind (mem_read packet 24 16) (\<lambda>dst.
                   let d = \<lparr>ip6_src = src, ip6_dst = dst, ip6_id = ident\<rparr>
                   in Ret (Some (frag, PROTO_IPV6, Id_ipv6 d, reasm_ipv6_hash d, final))))))
       else Ret None)"

section \<open>Adding a fragment to an entry\<close>

text \<open>
  \<^verbatim>\<open>add_fragment\<close>: the walk stops between \<open>left\<close> and \<open>right\<close>. The length of the packet is set
  before the overlap checks; a fragment without octets is not inserted.
\<close>

definition frag_end :: "reasm_frag_entry list \<Rightarrow> u32" where
  "frag_end left = (if left = [] then 0 else fr_offset (last left) + fr_len (last left))"

definition add_fragment ::
  "reasm_ip_entry \<Rightarrow> reasm_frag_entry \<Rightarrow> bool \<Rightarrow> bool \<times> reasm_ip_entry" where
  "add_fragment e frag last_frag =
     (if \<not> last_frag \<and> fr_len frag AND 7 \<noteq> 0 then (False, e)
      else if e_len e \<noteq> 0 \<and> fr_len frag + fr_offset frag > e_len e then (False, e)
      else if last_frag \<and> e_len e \<noteq> 0 then (False, e)
      else
        let e1 = (if last_frag then e\<lparr>e_len := fr_offset frag + fr_len frag\<rparr> else e);
            left = takeWhile (\<lambda>g. fr_offset g \<le> fr_offset frag) (e_frags e1);
            right = dropWhile (\<lambda>g. fr_offset g \<le> fr_offset frag) (e_frags e1);
            fit_left = (frag_end left = fr_offset frag);
            fit_right = (last_frag \<or> right \<noteq> [] \<and> fr_offset frag + fr_len frag = fr_offset (hd right))
        in if frag_end left > fr_offset frag then (False, e1)
           else if right \<noteq> [] \<and> (last_frag \<or> fr_offset frag + fr_len frag > fr_offset (hd right)) then (False, e1)
           else if fr_len frag \<noteq> 0 then
             (True, e1\<lparr>e_frags := left @ frag # right,
                e_holes := (if fit_left \<and> fit_right then e_holes e1 - 1
                  else if \<not> fit_left \<and> \<not> fit_right then e_holes e1 + 1 else e_holes e1),
                e_frag_count := e_frag_count e1 + 1\<rparr>)
           else (True, if last_frag \<and> fit_left then e1\<lparr>e_holes := e_holes e1 - 1\<rparr> else e1))"

definition is_complete :: "reasm_ip_entry \<Rightarrow> bool" where
  "is_complete e \<longleftrightarrow> e_holes e = 0"

section \<open>Assembling\<close>

fun copy_frags :: "nat \<Rightarrow> reasm_frag_entry list \<Rightarrow> byte list \<Rightarrow> byte list run" where
  "copy_frags offset0 [] out = Ret out"
| "copy_frags offset0 (f # fs) out =
     run_bind (mem_read (fr_data f) (unat (fr_data_offset f)) (unat (fr_len f))) (\<lambda>bs.
     run_bind (mem_store out (offset0 + unat (fr_offset f)) bs) (\<lambda>out'. copy_frags offset0 fs out'))"

text \<open>
  The checksum of the header. The sum is an \<^verbatim>\<open>int32_t\<close>; a header is too short for it to become
  negative, so that the shifts bring in zeros.
\<close>

fun ip_sum_words :: "u32 \<Rightarrow> byte list \<Rightarrow> u32" where
  "ip_sum_words s (a # b # bs) =
     (let s' = s + (push_bit 8 (ucast a) OR ucast b)
      in ip_sum_words (if s' AND 0x80000000 \<noteq> 0 then (s' AND 0xFFFF) + drop_bit 16 s' else s') bs)"
| "ip_sum_words s _ = s"

lemma fold_sum_less: "drop_bit 16 s \<noteq> 0 \<Longrightarrow> unat ((s AND 0xFFFF) + drop_bit 16 s) < unat s" for s :: u32
proof -
  assume a: "drop_bit 16 s \<noteq> 0"
  have m: "s AND 0xFFFF = take_bit 16 s" by (simp add: take_bit_eq_mask mask_numeral)
  have l: "unat (take_bit 16 s) = unat s mod 2 ^ 16" and h: "unat (drop_bit 16 s) = unat s div 2 ^ 16"
    by (simp_all add: take_bit_eq_mod drop_bit_eq_div unat_mod unat_div)
  have "unat (drop_bit 16 s) \<noteq> 0" using a by (simp add: unat_eq_zero)
  then have "0 < unat s div 65536" by (simp only: h) simp
  moreover have "unat (take_bit 16 s + drop_bit 16 s) \<le> unat (take_bit 16 s) + unat (drop_bit 16 s)"
    by (simp add: unat_word_ariths)
  then have "unat (take_bit 16 s + drop_bit 16 s) \<le> unat s mod 65536 + unat s div 65536"
    unfolding l h by simp
  moreover have "unat s = 65536 * (unat s div 65536) + unat s mod 65536" by simp
  ultimately show ?thesis unfolding m by linarith
qed

function fold_sum :: "u32 \<Rightarrow> u32" where
  "fold_sum s = (if drop_bit 16 s = 0 then s else fold_sum ((s AND 0xFFFF) + drop_bit 16 s))"
  by pat_completeness auto
termination
  by (relation "measure unat") (simp_all add: fold_sum_less)

declare fold_sum.simps [simp del]

definition ip_checksum :: "byte list \<Rightarrow> u16" where
  "ip_checksum hdr = ucast (NOT (fold_sum (ip_sum_words 0 hdr)))"

text \<open>The corrections of the header in the reassembled packet.\<close>

definition fix_ipv4 :: "byte list \<Rightarrow> u32 \<Rightarrow> byte list run" where
  "fix_ipv4 out len =
     run_bind (mem_byte out 0) (\<lambda>vhl.
     run_bind (mem_store out 2 (store_net16 (ucast len))) (\<lambda>out1.
     run_bind (mem_store out1 6 (store_net16 0)) (\<lambda>out2.
     run_bind (mem_store out2 10 (store_net16 0)) (\<lambda>out3.
     run_bind (mem_read out3 0 (4 * unat (vhl AND 0xF))) (\<lambda>hdr.
       mem_store out3 10 (store_net16 (ip_checksum hdr)))))))"

definition fix_ipv6 :: "byte list \<Rightarrow> u32 \<Rightarrow> byte list run" where
  "fix_ipv6 out len = mem_store out 4 (store_net16 (ucast (len - 40)))"

text \<open>
  \<^verbatim>\<open>assemble\<close> into the buffer \<open>out\<close> of \<open>out_len\<close> octets; the result is the buffer and
  \<^verbatim>\<open>*output_len\<close>.
\<close>

definition assemble :: "reasm_ip_entry \<Rightarrow> byte list \<Rightarrow> u32 \<Rightarrow> (byte list \<times> u32) run" where
  "assemble e out out_len =
     (case e_frags e of
        [] \<Rightarrow> Fault
      | frag # frags \<Rightarrow>
          let offset0 = (case e_protocol e of PROTO_IPV4 \<Rightarrow> fr_data_offset frag | PROTO_IPV6 \<Rightarrow> fr_data_offset frag - 8)
          in if e_len e + offset0 > out_len then Ret (out, 0)
             else run_bind (mem_read (fr_data frag) 0 (unat offset0)) (\<lambda>hdr.
               run_bind (mem_store out 0 hdr) (\<lambda>out1.
               run_bind (copy_frags (unat offset0) (frag # frags) out1) (\<lambda>out2.
               run_bind (case e_protocol e of
                   PROTO_IPV4 \<Rightarrow> fix_ipv4 out2 (offset0 + e_len e)
                 | PROTO_IPV6 \<Rightarrow> fix_ipv6 out2 (offset0 + e_len e)) (\<lambda>out3.
                 Ret (out3, e_len e + offset0))))))"

section \<open>The table\<close>

definition reasm_ip_new :: "bool \<Rightarrow> reasm_ip option" where
  "reasm_ip_new alloc =
     (if \<not> alloc then None
      else Some \<lparr>r_entries = (\<lambda>_. None), r_fresh = 0, r_table = (\<lambda>_. []), r_time = [], r_waiting = 0,
        r_max_waiting = 0, r_timed_out = 0, r_dropped_frags = 0, r_timeout = 0\<rparr>)"

text \<open>\<^verbatim>\<open>drop_entry\<close> and \<^verbatim>\<open>free_entry\<close>\<close>

definition drop_entry :: "reasm_ip \<Rightarrow> nat \<Rightarrow> reasm_ip_entry \<Rightarrow> reasm_ip" where
  "drop_entry r a e =
     r\<lparr>r_table := (r_table r)(e_hash e := remove1 a (r_table r (e_hash e))), r_time := remove1 a (r_time r),
       r_waiting := r_waiting r - 1, r_entries := (r_entries r)(a := None)\<rparr>"

function process_timeouts :: "reasm_ip \<Rightarrow> u64 \<Rightarrow> reasm_ip run" where
  "process_timeouts r now =
     (case r_time r of
        [] \<Rightarrow> Ret r
      | a # as \<Rightarrow> (case r_entries r a of
            None \<Rightarrow> Fault
          | Some e \<Rightarrow>
              if e_timeout e < now
              then process_timeouts (drop_entry (r\<lparr>r_timed_out := r_timed_out r + 1\<rparr>) a e) now
              else Ret r))"
  by pat_completeness auto
termination
  by (relation "measure (\<lambda>(r, now). length (r_time r))") (auto simp: drop_entry_def)

declare process_timeouts.simps [simp del]

function reasm_ip_free :: "reasm_ip \<Rightarrow> reasm_ip run" where
  "reasm_ip_free r =
     (case r_time r of
        [] \<Rightarrow> Ret r
      | a # as \<Rightarrow> (case r_entries r a of
            None \<Rightarrow> Fault
          | Some e \<Rightarrow> reasm_ip_free (drop_entry r a e)))"
  by pat_completeness auto
termination
  by (relation "measure (\<lambda>r. length (r_time r))") (auto simp: drop_entry_def)

declare reasm_ip_free.simps [simp del]

fun find_entry ::
  "(nat \<Rightarrow> reasm_ip_entry option) \<Rightarrow> reasm_proto \<Rightarrow> reasm_id \<Rightarrow> nat list \<Rightarrow> (nat \<times> reasm_ip_entry) option run" where
  "find_entry es proto d [] = Ret None"
| "find_entry es proto d (a # as) =
     (case es a of
        None \<Rightarrow> Fault
      | Some e \<Rightarrow> if proto \<noteq> e_protocol e \<or> \<not> reasm_id_equal proto d (e_id e)
          then find_entry es proto d as else Ret (Some (a, e)))"

text \<open>A new entry at the head of its chain and at the end of the list of timeouts.\<close>

definition new_entry ::
  "reasm_ip \<Rightarrow> reasm_proto \<Rightarrow> reasm_id \<Rightarrow> nat \<Rightarrow> u64 \<Rightarrow> nat \<times> reasm_ip_entry \<times> reasm_ip" where
  "new_entry r proto d hash timestamp =
     (let a = r_fresh r;
          e = \<lparr>e_id = d, e_len = 0, e_holes = 1, e_frag_count = 0, e_hash = hash,
               e_timeout = timestamp + r_timeout r, e_state = STATE_ACTIVE, e_protocol = proto, e_frags = []\<rparr>;
          w = r_waiting r + 1
      in (a, e, r\<lparr>r_entries := (r_entries r)(a \<mapsto> e), r_fresh := a + 1,
            r_table := (r_table r)(hash := a # r_table r hash), r_time := r_time r @ [a], r_waiting := w,
            r_max_waiting := (if w > r_max_waiting r then w else r_max_waiting r)\<rparr>))"

definition set_entry :: "reasm_ip \<Rightarrow> nat \<Rightarrow> reasm_ip_entry \<Rightarrow> reasm_ip" where
  "set_entry r a e = r\<lparr>r_entries := (r_entries r)(a \<mapsto> e)\<rparr>"

text \<open>
  \<^verbatim>\<open>reasm_ip_next\<close>: whether the packet is a fragment, the output buffer with \<^verbatim>\<open>*output_len\<close>, and
  the new state. Allocations 2 and 3 are the entry and the head of its list.
\<close>

definition reasm_ip_next ::
  "(nat \<Rightarrow> bool) \<Rightarrow> reasm_ip \<Rightarrow> byte list \<Rightarrow> u32 \<Rightarrow> nat \<Rightarrow> u64 \<Rightarrow> byte list \<Rightarrow> u32 \<Rightarrow>
     (bool \<times> byte list \<times> u32 \<times> reasm_ip) run" where
  "reasm_ip_next ok r0 packet len frag_hdr_offset timestamp out out_len =
     run_bind (process_timeouts r0 timestamp) (\<lambda>r.
     run_bind (parse_packet ok packet len frag_hdr_offset) (\<lambda>p.
     case p of
       None \<Rightarrow> Ret (False, out, 0, r)
     | Some (frag, proto, d, hash0, last_frag) \<Rightarrow>
         let hash = unat (hash0 mod REASM_IP_HASH_SIZE) in
         run_bind (find_entry (r_entries r) proto d (r_table r hash)) (\<lambda>found.
         run_bind (case found of
             Some (a, e) \<Rightarrow> Ret (a, e, r)
           | None \<Rightarrow> if \<not> ok 2 \<or> \<not> ok 3 then Abort else Ret (new_entry r proto d hash timestamp))
           (\<lambda>(a, e, r1).
             if e_state e \<noteq> STATE_ACTIVE then
               Ret (True, out, 0, r1\<lparr>r_dropped_frags := r_dropped_frags r1 + 1\<rparr>)
             else (case add_fragment e frag last_frag of
                 (False, e') \<Rightarrow> Ret (True, out, 0,
                   set_entry (r1\<lparr>r_dropped_frags := r_dropped_frags r1 + (e_frag_count e' + 1)\<rparr>) a
                     (e'\<lparr>e_state := STATE_INVALID\<rparr>))
               | (True, e') \<Rightarrow>
                   if \<not> is_complete e' then Ret (True, out, 0, set_entry r1 a e')
                   else run_bind (assemble e' out out_len) (\<lambda>(out', n).
                     Ret (True, out', n, drop_entry (set_entry r1 a e') a e')))))))"

section \<open>Settings and counters\<close>

definition reasm_ip_waiting :: "reasm_ip \<Rightarrow> u32" where "reasm_ip_waiting r = r_waiting r"

definition reasm_ip_max_waiting :: "reasm_ip \<Rightarrow> u32" where "reasm_ip_max_waiting r = r_max_waiting r"

definition reasm_ip_timed_out :: "reasm_ip \<Rightarrow> u32" where "reasm_ip_timed_out r = r_timed_out r"

definition reasm_ip_dropped_frags :: "reasm_ip \<Rightarrow> u32" where "reasm_ip_dropped_frags r = r_dropped_frags r"

definition reasm_ip_set_timeout :: "reasm_ip \<Rightarrow> u64 \<Rightarrow> bool \<times> reasm_ip" where
  "reasm_ip_set_timeout r timeout =
     (if r_time r \<noteq> [] then (False, r) else (True, r\<lparr>r_timeout := timeout\<rparr>))"

end
