(* ===== verification/Ipdg.thy ===== *)
theory Ipdg
  imports Ipreasm Wire
begin

text \<open>
  Datagrams of captured packets (nmsg/ipdg.c): the data link header, the IPv4 and IPv6 headers, the
  fragments, and the transport headers.
\<close>

section \<open>Data\<close>

text \<open>A pointer into a packet is the packet and an offset; \<open>None\<close> is NULL.\<close>

type_synonym pkt_ptr = "(byte list \<times> nat) option"

datatype proto_family = PF_UNSPEC | PF_INET | PF_INET6

record nmsg_ipdg =
  dg_proto_network :: proto_family
  dg_proto_transport :: byte
  dg_len_network :: u32
  dg_len_transport :: u32
  dg_len_payload :: u32
  dg_network :: pkt_ptr
  dg_transport :: pkt_ptr
  dg_payload :: pkt_ptr

datatype datalink = DLT_EN10MB | DLT_RAW | DLT_LINUX_SLL | DLT_other

definition ETHERTYPE_IP :: u32 where "ETHERTYPE_IP = 0x0800"
definition ETHERTYPE_VLAN :: u32 where "ETHERTYPE_VLAN = 0x8100"
definition ETHERTYPE_IPV6 :: u32 where "ETHERTYPE_IPV6 = 0x86dd"
definition IPPROTO_ICMP :: byte where "IPPROTO_ICMP = 1"
definition IPPROTO_TCP :: byte where "IPPROTO_TCP = 6"
definition IPPROTO_UDP :: byte where "IPPROTO_UDP = 17"
definition IPPROTO_ESP :: byte where "IPPROTO_ESP = 50"
definition IPPROTO_AH :: byte where "IPPROTO_AH = 51"

section \<open>The data link header\<close>

text \<open>
  The type of the packet, the place of the network header and the octets left; \<open>None\<close> is
  \<^verbatim>\<open>nmsg_res_again\<close>. A data link of another kind leaves the type zero.
\<close>

definition link_header :: "datalink \<Rightarrow> byte list \<Rightarrow> u64 \<Rightarrow> (u32 \<times> nat \<times> u64) option run" where
  "link_header datalink pkt len =
     (case datalink of
        DLT_EN10MB \<Rightarrow>
          if len < 14 then Ret None
          else run_bind (load_net16 (drop 12 pkt)) (\<lambda>etype.
            if ucast etype = ETHERTYPE_VLAN then
              if len - 14 < 4 then Ret None
              else run_bind (load_net16 (drop 16 pkt)) (\<lambda>etype. Ret (Some (ucast etype, 18, len - 18)))
            else Ret (Some (ucast etype, 14, len - 14)))
      | DLT_RAW \<Rightarrow>
          if len < 20 then Ret None
          else run_bind (mem_byte pkt 0) (\<lambda>b.
            if drop_bit 4 b = 4 then Ret (Some (ETHERTYPE_IP, 0, len))
            else if drop_bit 4 b = 6 then Ret (Some (ETHERTYPE_IPV6, 0, len))
            else Ret None)
      | DLT_LINUX_SLL \<Rightarrow>
          if len < 16 then Ret None
          else run_bind (load_net16 (drop 14 pkt)) (\<lambda>etype. Ret (Some (ucast etype, 16, len - 16)))
      | DLT_other \<Rightarrow> Ret (Some (0, 0, len)))"

section \<open>The network header\<close>

definition is_exthdr :: "byte \<Rightarrow> bool" where
  "is_exthdr nexthdr \<longleftrightarrow> nexthdr = IPPROTO_ROUTING \<or> nexthdr = IPPROTO_HOPOPTS \<or> nexthdr = IPPROTO_FRAGMENT \<or>
     nexthdr = IPPROTO_DSTOPTS \<or> nexthdr = IPPROTO_AH \<or> nexthdr = IPPROTO_ESP"

text \<open>
  The length of an extension header as the code computes it: the length octet is put through
  \<^verbatim>\<open>ntohs\<close> of a little-endian host, the result is kept in 16 bits.
\<close>

definition ext_hdr_len :: "byte \<Rightarrow> u16" where
  "ext_hdr_len length' = 8 * (bswap16 (ucast length') + 1)"

lemma unat_byte_bound: "unat b < 256" for b :: byte
  using unsigned_less [of b] by simp

lemma unat_ext_hdr_len: "unat (ext_hdr_len b) = (2048 * unat b + 8) mod 65536"
proof -
  have 1: "bswap16 (ucast b) = push_bit 8 (ucast b :: u16)"
    by (rule bit_word_eqI) (auto simp: bswap16_def bit_simps dest: bit_imp_le_length)
  have 2: "unat (ucast b :: u16) = unat b"
    unfolding unsigned_ucast_eq by (rule take_bit_nat_eq_self [OF less_trans [OF unat_byte_bound]]) simp
  have 3: "unat (push_bit 8 x) = unat x * 256 mod 65536" for x :: u16
    by (simp add: push_bit_eq_mult unat_word_ariths)
  have 4: "unat (8 * (x + 1)) = (8 * unat x + 8) mod 65536" for x :: u16
    by (simp add: unat_word_ariths mod_simps)
  have "unat (ext_hdr_len b) = (8 * (unat b * 256 mod 65536) + 8) mod 65536"
    unfolding ext_hdr_len_def 1 4 3 2 ..
  also have "\<dots> = (8 * (unat b * 256) + 8) mod 65536"
    by (intro mod_add_cong mod_mult_cong refl mod_mod_trivial)
  finally show ?thesis by (simp add: mult.commute)
qed

lemma unat_ext_hdr_len_mod: "unat (ext_hdr_len b) = 2048 * (unat b mod 32) + 8"
proof -
  define i r where "i = unat b div 32" and "r = unat b mod 32"
  have "r < 32" "unat b = 32 * i + r" by (simp_all add: i_def r_def)
  then have "2048 * unat b + 8 = (2048 * r + 8) + 65536 * i" "2048 * r + 8 < 65536" by simp_all
  then have "(2048 * unat b + 8) mod 65536 = 2048 * r + 8" by (metis mod_less mod_mult_self2)
  then show ?thesis by (simp add: unat_ext_hdr_len r_def)
qed

lemma ext_hdr_len_ge: "8 \<le> unat (ext_hdr_len b)"
  by (simp add: unat_ext_hdr_len_mod)

text \<open>
  The extension headers of the IPv6 header at \<open>base\<close>: the place of the Fragment header (zero when there is
  none), the last header's type, the place after the headers and the octets of payload left.
\<close>

function ip6_exthdrs :: "byte list \<Rightarrow> nat \<Rightarrow> u64 \<Rightarrow> byte \<Rightarrow> nat \<Rightarrow> u16 \<Rightarrow>
    (nat \<times> byte \<times> nat \<times> u16) option run" where
  "ip6_exthdrs pkt base len nexthdr thusfar payload_len =
     (if \<not> is_exthdr nexthdr then Ret (Some (0, nexthdr, thusfar, payload_len))
      else if thusfar + 2 > unat len then Ret None
      else if nexthdr = IPPROTO_FRAGMENT then Ret (Some (thusfar, nexthdr, thusfar, payload_len))
      else run_bind (mem_byte pkt (base + thusfar)) (\<lambda>next_hdr.
        run_bind (mem_byte pkt (base + thusfar + 1)) (\<lambda>length'.
          if ext_hdr_len length' > payload_len then Ret None
          else ip6_exthdrs pkt base len next_hdr (thusfar + unat (ext_hdr_len length'))
            (payload_len - ext_hdr_len length'))))"
  by pat_completeness auto
termination
proof (relation "measure (\<lambda>(pkt, base, len, nexthdr, thusfar, payload_len). unat payload_len)")
  fix payload_len :: u16 and length' :: byte and pkt :: "byte list" and base thusfar :: nat and len :: u64
    and nexthdr next_hdr :: byte
  assume "\<not> ext_hdr_len length' > payload_len"
  then have "unat (ext_hdr_len length') \<le> unat payload_len" by (simp add: word_le_nat_alt not_less)
  then have "unat (payload_len - ext_hdr_len length') < unat payload_len"
    using ext_hdr_len_ge [of length'] by (simp add: unat_sub word_le_nat_alt)
  then show "((pkt, base, len, next_hdr, thusfar + unat (ext_hdr_len length'), payload_len - ext_hdr_len length'),
      (pkt, base, len, nexthdr, thusfar, payload_len)) \<in>
      measure (\<lambda>(pkt, base, len, nexthdr, thusfar, payload_len). unat payload_len)" by simp
qed simp

declare ip6_exthdrs.simps [simp del]

text \<open>
  The network header at \<open>base\<close>: whether the packet is a fragment, the place of the Fragment header, the place
  of the transport header and the octets left there, which \<^verbatim>\<open>len -= ip->ip_hl << 2\<close> lets wrap around; \<open>None\<close>
  is \<^verbatim>\<open>nmsg_res_again\<close>.
\<close>

definition ipdg_network :: "nmsg_ipdg \<Rightarrow> u32 \<Rightarrow> u64 \<Rightarrow> byte list \<Rightarrow> nat \<Rightarrow>
    (nmsg_ipdg \<times> (bool \<times> nat \<times> nat \<times> u64) option) run" where
  "ipdg_network dg0 etype len pkt base =
     (let dg = dg0\<lparr>dg_network := Some (pkt, base), dg_len_network := ucast len\<rparr> in
      if etype = ETHERTYPE_IP then
        run_bind (mem_byte pkt base) (\<lambda>b0. let hl = 4 * unat (b0 AND 0x0F) in
        run_bind (load_net16 (drop (base + 6) pkt)) (\<lambda>ip_off.
        run_bind (mem_byte pkt (base + 9)) (\<lambda>ip_p.
          Ret (dg\<lparr>dg_proto_network := PF_INET, dg_proto_transport := ip_p\<rparr>,
            Some (ip_off AND IP_OFFMASK \<noteq> 0 \<or> ip_off AND IP_MF \<noteq> 0, 0, base + hl, len - of_nat hl)))))
      else if etype = ETHERTYPE_IPV6 then
        if len < 40 then Ret (dg, None)
        else run_bind (mem_byte pkt base) (\<lambda>vfc.
          if vfc AND 0xF0 \<noteq> 0x60 then Ret (dg, None)
          else run_bind (mem_byte pkt (base + 6)) (\<lambda>nxt.
          run_bind (load_net16 (drop (base + 4) pkt)) (\<lambda>plen.
          run_bind (ip6_exthdrs pkt base len nxt 40 plen) (\<lambda>r.
            case r of
              None \<Rightarrow> Ret (dg, None)
            | Some (frag_off, nexthdr, thusfar, payload_len) \<Rightarrow>
                if thusfar + unat payload_len > unat len \<or> payload_len = 0 then Ret (dg, None)
                else Ret (dg\<lparr>dg_proto_network := PF_INET6, dg_proto_transport := nexthdr\<rparr>,
                  Some (nexthdr = IPPROTO_FRAGMENT, frag_off, base + thusfar, len - of_nat thusfar))))))
      else Ret (dg, None))"

section \<open>The transport header\<close>

definition udp_header :: "nmsg_ipdg \<Rightarrow> byte list \<Rightarrow> nat \<Rightarrow> u64 \<Rightarrow> (nmsg_res \<times> nmsg_ipdg) run" where
  "udp_header dg pkt off len =
     (if len < 8 then Ret (nmsg_res_again, dg)
      else run_bind (load_net16 (drop (off + 4) pkt)) (\<lambda>ulen.
        let tp = (if ulen \<ge> 8 then ucast ulen - 8 else ucast ulen) :: u32; len' = len - 8
        in Ret (nmsg_res_success, dg\<lparr>dg_payload := Some (pkt, off + 8),
          dg_len_payload := (if ucast tp > len' then ucast len' else tp)\<rparr>)))"

definition ipdg_transport :: "nmsg_ipdg \<Rightarrow> byte list \<Rightarrow> nat \<Rightarrow> u64 \<Rightarrow> (nmsg_res \<times> nmsg_ipdg) run" where
  "ipdg_transport dg0 pkt off len =
     (let dg = dg0\<lparr>dg_transport := Some (pkt, off), dg_len_transport := ucast len\<rparr> in
      if dg_proto_transport dg = IPPROTO_UDP then udp_header dg pkt off len else Ret (nmsg_res_again, dg))"

section \<open>Parsing\<close>

text \<open>Without a reassembler a fragment is discarded.\<close>

definition nmsg_ipdg_parse :: "nmsg_ipdg \<Rightarrow> u32 \<Rightarrow> u64 \<Rightarrow> byte list \<Rightarrow> nat \<Rightarrow> (nmsg_res \<times> nmsg_ipdg) run" where
  "nmsg_ipdg_parse dg0 etype len pkt base =
     run_bind (ipdg_network dg0 etype len pkt base) (\<lambda>(dg, r).
       case r of
         None \<Rightarrow> Ret (nmsg_res_again, dg)
       | Some (is_fragment, frag_off, off, len') \<Rightarrow>
           if is_fragment then Ret (nmsg_res_again, dg) else ipdg_transport dg pkt off len')"

text \<open>
  With one, it goes to \<^verbatim>\<open>reasm_ip_next\<close>, and a packet that is complete is parsed again from \<open>new_pkt\<close>. The
  result ends with whether it was reassembled, the packet buffer and the reassembler.
\<close>

definition nmsg_ipdg_parse_reasm :: "(nat \<Rightarrow> bool) \<Rightarrow> nmsg_ipdg \<Rightarrow> u32 \<Rightarrow> u64 \<Rightarrow> byte list \<Rightarrow> nat \<Rightarrow> reasm_ip \<Rightarrow>
    u32 \<Rightarrow> byte list \<Rightarrow> u64 \<Rightarrow> (nmsg_res \<times> nmsg_ipdg \<times> bool \<times> byte list \<times> reasm_ip) run" where
  "nmsg_ipdg_parse_reasm ok dg0 etype len pkt base reasm new_len new_pkt timestamp =
     run_bind (ipdg_network dg0 etype len pkt base) (\<lambda>(dg, r).
       case r of
         None \<Rightarrow> Ret (nmsg_res_again, dg, False, new_pkt, reasm)
       | Some (is_fragment, frag_off, off, len') \<Rightarrow>
           if is_fragment then
             run_bind (reasm_ip_next ok reasm (drop base pkt) (dg_len_network dg) frag_off timestamp new_pkt new_len)
               (\<lambda>(rres, new_pkt', n, reasm').
                 if \<not> rres \<or> n = 0 then Ret (nmsg_res_again, dg, False, new_pkt', reasm')
                 else run_bind (nmsg_ipdg_parse dg etype (ucast n) new_pkt' 0) (\<lambda>(res, dg').
                   Ret (res, dg', True, new_pkt', reasm')))
           else run_bind (ipdg_transport dg pkt off len') (\<lambda>(res, dg').
             Ret (res, dg', False, new_pkt, reasm)))"

text \<open>
  What of \<^verbatim>\<open>struct nmsg_pcap\<close> the parser uses: the data link of the handle, the reassembler and its buffer, and the
  user's filter, whose answer \<^verbatim>\<open>bpf_filter\<close> gives on the datagram; and the header of a captured packet.
\<close>

record ip_pcap =
  pc_datalink :: datalink
  pc_reasm :: reasm_ip
  pc_new_pkt :: "byte list"
  pc_userbpf :: "(byte list \<Rightarrow> bool) option"

record pcap_pkthdr =
  ph_caplen :: u32
  ph_len :: u32
  ph_tv_sec :: u64

definition refilter :: "(byte list \<Rightarrow> bool) option \<Rightarrow> nmsg_ipdg \<Rightarrow> bool" where
  "refilter bpf dg = (case (bpf, dg_network dg) of
     (Some f, Some (pkt, base)) \<Rightarrow> f (take (unat (dg_len_network dg)) (drop base pkt)) | _ \<Rightarrow> True)"

definition nmsg_ipdg_parse_pcap :: "(nat \<Rightarrow> bool) \<Rightarrow> nmsg_ipdg \<Rightarrow> ip_pcap \<Rightarrow> pcap_pkthdr \<Rightarrow> byte list \<Rightarrow>
    (nmsg_res \<times> nmsg_ipdg \<times> ip_pcap) run" where
  "nmsg_ipdg_parse_pcap ok dg pcap pkt_hdr pkt =
     (if ph_caplen pkt_hdr \<noteq> ph_len pkt_hdr then Ret (nmsg_res_again, dg, pcap)
      else run_bind (link_header (pc_datalink pcap) pkt (ucast (ph_caplen pkt_hdr))) (\<lambda>link.
        case link of
          None \<Rightarrow> Ret (nmsg_res_again, dg, pcap)
        | Some (etype, base, len) \<Rightarrow>
            run_bind (nmsg_ipdg_parse_reasm ok dg etype len pkt base (pc_reasm pcap) 65536 (pc_new_pkt pcap)
                (ph_tv_sec pkt_hdr)) (\<lambda>(res, dg', defrag, new_pkt, reasm).
              let pcap' = pcap\<lparr>pc_reasm := reasm, pc_new_pkt := new_pkt\<rparr> in
              if res = nmsg_res_success \<and> defrag \<and> \<not> refilter (pc_userbpf pcap) dg'
              then Ret (nmsg_res_again, dg', pcap') else Ret (res, dg', pcap'))))"

section \<open>Parsing without fragment handling\<close>

text \<open>The extension headers: whether a Fragment header was seen and it was the first fragment's.\<close>

function ip6_exthdrs_raw :: "byte list \<Rightarrow> nat \<Rightarrow> u64 \<Rightarrow> byte \<Rightarrow> nat \<Rightarrow> u16 \<Rightarrow>
    (bool \<times> bool \<times> byte \<times> nat \<times> u16) option run" where
  "ip6_exthdrs_raw pkt base len nexthdr thusfar payload_len =
     (if \<not> is_exthdr nexthdr then Ret (Some (False, False, nexthdr, thusfar, payload_len))
      else if thusfar + 2 > unat len then Ret None
      else run_bind (if nexthdr = IPPROTO_FRAGMENT
            then run_bind (load_net16 (drop (base + thusfar + 2) pkt)) (\<lambda>offlg. Ret (offlg AND IP6F_OFF_MASK = 0))
            else Ret False) (\<lambda>is_initial.
        run_bind (mem_byte pkt (base + thusfar)) (\<lambda>next_hdr.
        run_bind (mem_byte pkt (base + thusfar + 1)) (\<lambda>length'.
          if ext_hdr_len length' > payload_len then Ret None
          else let thusfar' = thusfar + unat (ext_hdr_len length'); payload_len' = payload_len - ext_hdr_len length'
          in if nexthdr = IPPROTO_FRAGMENT then Ret (Some (True, is_initial, next_hdr, thusfar', payload_len'))
             else ip6_exthdrs_raw pkt base len next_hdr thusfar' payload_len'))))"
  by pat_completeness auto
termination
proof (relation "measure (\<lambda>(pkt, base, len, nexthdr, thusfar, payload_len). unat payload_len)")
  fix payload_len :: u16 and length' :: byte and pkt :: "byte list" and base thusfar x y :: nat and len :: u64
    and nexthdr next_hdr :: byte and z :: u16
  assume "\<not> ext_hdr_len length' > payload_len" and z: "z = payload_len - ext_hdr_len length'"
  then have "unat (ext_hdr_len length') \<le> unat payload_len" by (simp add: word_le_nat_alt not_less)
  then have "unat z < unat payload_len"
    using ext_hdr_len_ge [of length'] z by (simp add: unat_sub word_le_nat_alt)
  then show "((pkt, base, len, next_hdr, x, z), (pkt, base, len, nexthdr, thusfar, payload_len)) \<in>
      measure (\<lambda>(pkt, base, len, nexthdr, thusfar, payload_len). unat payload_len)" by simp
qed simp

declare ip6_exthdrs_raw.simps [simp del]

definition ipdg_network_raw :: "nmsg_ipdg \<Rightarrow> u32 \<Rightarrow> u64 \<Rightarrow> byte list \<Rightarrow> nat \<Rightarrow>
    (nmsg_ipdg \<times> (bool \<times> bool \<times> nat \<times> u64) option) run" where
  "ipdg_network_raw dg0 etype len pkt base =
     (let dg = dg0\<lparr>dg_network := Some (pkt, base), dg_len_network := ucast len\<rparr> in
      if etype = ETHERTYPE_IP then
        run_bind (mem_byte pkt base) (\<lambda>b0. let hl = 4 * unat (b0 AND 0x0F) in
        run_bind (load_net16 (drop (base + 6) pkt)) (\<lambda>ip_off.
        run_bind (mem_byte pkt (base + 9)) (\<lambda>ip_p.
          Ret (dg\<lparr>dg_proto_network := PF_INET, dg_proto_transport := ip_p\<rparr>,
            Some (ip_off AND IP_OFFMASK \<noteq> 0 \<or> ip_off AND IP_MF \<noteq> 0, ip_off AND IP_OFFMASK = 0, base + hl,
              len - of_nat hl)))))
      else if etype = ETHERTYPE_IPV6 then
        if len < 40 then Ret (dg, None)
        else run_bind (mem_byte pkt base) (\<lambda>vfc.
          if vfc AND 0xF0 \<noteq> 0x60 then Ret (dg, None)
          else run_bind (mem_byte pkt (base + 6)) (\<lambda>nxt.
          run_bind (load_net16 (drop (base + 4) pkt)) (\<lambda>plen.
          run_bind (ip6_exthdrs_raw pkt base len nxt 40 plen) (\<lambda>r.
            case r of
              None \<Rightarrow> Ret (dg, None)
            | Some (is_fragment, is_initial, nexthdr, thusfar, payload_len) \<Rightarrow>
                if thusfar + unat payload_len > unat len \<or> payload_len = 0 then Ret (dg, None)
                else Ret (dg\<lparr>dg_proto_network := PF_INET6, dg_proto_transport := nexthdr\<rparr>,
                  Some (is_fragment, is_initial, base + thusfar, len - of_nat thusfar))))))
      else Ret (dg, None))"

definition tcp_header :: "nmsg_ipdg \<Rightarrow> byte list \<Rightarrow> nat \<Rightarrow> u64 \<Rightarrow> (nmsg_res \<times> nmsg_ipdg) run" where
  "tcp_header dg pkt off len =
     (if len < 20 then Ret (nmsg_res_again, dg)
      else run_bind (mem_byte pkt (off + 12)) (\<lambda>b.
        let hl = 4 * unat (drop_bit 4 b); tp = dg_len_network dg - of_nat hl; len' = len - of_nat hl
        in Ret (nmsg_res_success, dg\<lparr>dg_payload := Some (pkt, off + hl),
          dg_len_payload := (if ucast tp > len' then ucast len' else tp)\<rparr>)))"

definition icmp_header :: "nmsg_ipdg \<Rightarrow> byte list \<Rightarrow> nat \<Rightarrow> u64 \<Rightarrow> (nmsg_res \<times> nmsg_ipdg) run" where
  "icmp_header dg pkt off len =
     (if len < 4 then Ret (nmsg_res_again, dg)
      else Ret (nmsg_res_success, dg\<lparr>dg_payload := Some (pkt, off + 4), dg_len_payload := ucast (len - 4)\<rparr>))"

definition nmsg_ipdg_parse_pcap_raw :: "nmsg_ipdg \<Rightarrow> datalink \<Rightarrow> byte list \<Rightarrow> u64 \<Rightarrow> (nmsg_res \<times> nmsg_ipdg) run" where
  "nmsg_ipdg_parse_pcap_raw dg0 datalink pkt len0 =
     run_bind (link_header datalink pkt len0) (\<lambda>link.
       case link of
         None \<Rightarrow> Ret (nmsg_res_again, dg0)
       | Some (etype, base, len1) \<Rightarrow>
         run_bind (ipdg_network_raw dg0 etype len1 pkt base) (\<lambda>(dg, r).
           case r of
             None \<Rightarrow> Ret (nmsg_res_again, dg)
           | Some (is_fragment, is_initial, off, len) \<Rightarrow>
               if is_fragment \<and> \<not> is_initial then
                 Ret (nmsg_res_success, dg\<lparr>dg_transport := None, dg_len_transport := 0,
                   dg_payload := Some (pkt, off), dg_len_payload := ucast len\<rparr>)
               else let dg = dg\<lparr>dg_transport := Some (pkt, off), dg_len_transport := ucast len\<rparr> in
                 if dg_proto_transport dg = IPPROTO_UDP then udp_header dg pkt off len
                 else if dg_proto_transport dg = IPPROTO_TCP then tcp_header dg pkt off len
                 else if dg_proto_transport dg = IPPROTO_ICMP then icmp_header dg pkt off len
                 else Ret (nmsg_res_again, dg)))"

end
