(* ===== verification/Ipreasm_Holes.thy ===== *)
theory Ipreasm_Holes
  imports Ipreasm
begin

text \<open>
  The count of holes of ipreasm.c against the gaps between the fragments, and what \<^verbatim>\<open>assemble\<close>
  makes of a list of fragments without gaps.
\<close>

section \<open>Gaps\<close>

abbreviation flen :: "reasm_frag_entry \<Rightarrow> nat" where "flen f \<equiv> unat (fr_len f)"
abbreviation foff :: "reasm_frag_entry \<Rightarrow> nat" where "foff f \<equiv> unat (fr_offset f)"
abbreviation fend :: "reasm_frag_entry \<Rightarrow> nat" where "fend f \<equiv> foff f + flen f"

definition fits_packet :: "reasm_frag_entry \<Rightarrow> bool" where
  "fits_packet f \<longleftrightarrow> fend f < 2 ^ 30"

text \<open>Fragments in order from position \<open>p\<close> on, without overlap; the end of the last; the gaps.\<close>

fun chained :: "nat \<Rightarrow> reasm_frag_entry list \<Rightarrow> bool" where
  "chained p [] \<longleftrightarrow> True"
| "chained p (f # fs) \<longleftrightarrow> p \<le> foff f \<and> 0 < flen f \<and> fits_packet f \<and> chained (fend f) fs"

fun chain_end :: "nat \<Rightarrow> reasm_frag_entry list \<Rightarrow> nat" where
  "chain_end p [] = p"
| "chain_end p (f # fs) = chain_end (fend f) fs"

fun gaps :: "nat \<Rightarrow> reasm_frag_entry list \<Rightarrow> nat" where
  "gaps p [] = 0"
| "gaps p (f # fs) = (if p < foff f then 1 else 0) + gaps (fend f) fs"

lemma chained_append [simp]: "chained p (fs @ gs) \<longleftrightarrow> chained p fs \<and> chained (chain_end p fs) gs"
  by (induction fs arbitrary: p) auto

lemma chain_end_append [simp]: "chain_end p (fs @ gs) = chain_end (chain_end p fs) gs"
  by (induction fs arbitrary: p) auto

lemma gaps_append [simp]: "gaps p (fs @ gs) = gaps p fs + gaps (chain_end p fs) gs"
  by (induction fs arbitrary: p) auto

lemma chained_bounds: "chained p fs \<Longrightarrow> p + length fs \<le> chain_end p fs \<and> gaps p fs \<le> length fs"
  by (induction fs arbitrary: p) fastforce+

lemma chain_end_bound: "chained p fs \<Longrightarrow> p < 2 ^ 30 \<Longrightarrow> chain_end p fs < 2 ^ 30"
  by (induction fs arbitrary: p) (auto simp: fits_packet_def)

lemma chain_end_last: "chain_end p fs = (if fs = [] then p else fend (last fs))"
  by (induction fs arbitrary: p) auto

lemma chained_later: "chained p fs \<Longrightarrow> f \<in> set fs \<Longrightarrow> p \<le> foff f \<and> fits_packet f \<and> 0 < flen f"
  by (induction fs arbitrary: p) fastforce+

lemma unat_fend: "fits_packet f \<Longrightarrow> unat (fr_offset f + fr_len f) = fend f"
  by (simp add: fits_packet_def unat_add_u32)

lemma frag_end_chain: "chained 0 fs \<Longrightarrow> unat (frag_end fs) = chain_end 0 fs"
  by (cases fs rule: rev_cases) (auto simp: frag_end_def chain_end_last unat_fend)

section \<open>The invariant of an entry\<close>

text \<open>
  The count of holes is the number of gaps, with one more for the unknown end of the packet.
\<close>

definition entry_ok :: "reasm_ip_entry \<Rightarrow> bool" where
  "entry_ok e \<longleftrightarrow> chained 0 (e_frags e) \<and>
     (e_len e \<noteq> 0 \<longrightarrow> e_frags e \<noteq> [] \<and> chain_end 0 (e_frags e) = unat (e_len e)) \<and>
     e_holes e = of_nat (gaps 0 (e_frags e) + (if e_len e = 0 then 1 else 0)) \<and>
     e_frag_count e = of_nat (length (e_frags e))"

lemma entry_ok_complete:
  assumes "entry_ok e"
  shows "is_complete e \<longleftrightarrow> e_len e \<noteq> 0 \<and> gaps 0 (e_frags e) = 0"
proof -
  let ?g = "gaps 0 (e_frags e) + (if e_len e = 0 then 1 else 0)"
  have c: "chained 0 (e_frags e)" using assms by (simp add: entry_ok_def)
  have "?g < 2 ^ 32"
    using chained_bounds [OF c] chain_end_bound [OF c] by simp
  then have "unat (of_nat ?g :: u32) = ?g" by (rule unat_of_nat_u32)
  then have "(of_nat ?g :: u32) = 0 \<longleftrightarrow> ?g = 0" by (metis unat_eq_zero)
  then show ?thesis using assms by (simp add: is_complete_def entry_ok_def)
qed

lemma takeWhile_chained:
  assumes "chained p fs"
  shows "chained (chain_end p (takeWhile (\<lambda>g. fr_offset g \<le> x) fs)) (dropWhile (\<lambda>g. fr_offset g \<le> x) fs)"
    and "chained p (takeWhile (\<lambda>g. fr_offset g \<le> x) fs)"
  using assms takeWhile_dropWhile_id [of "\<lambda>g. fr_offset g \<le> x" fs] chained_append by metis+

text \<open>Between which fragments a new one goes, and when it is refused.\<close>

lemma add_fragment_place:
  assumes e: "entry_ok e" and f: "fits_packet frag" and r: "add_fragment e frag final = (True, e')"
    and nz: "fr_len frag \<noteq> 0"
  shows "\<exists>left right. e_frags e = left @ right \<and> e_frags e' = left @ frag # right \<and>
    chain_end 0 left \<le> foff frag \<and> (right \<noteq> [] \<longrightarrow> fend frag \<le> foff (hd right)) \<and>
    (final \<longrightarrow> right = [] \<and> e_len e = 0 \<and> unat (e_len e') = fend frag) \<and>
    (\<not> final \<longrightarrow> e_len e' = e_len e \<and> (e_len e \<noteq> 0 \<longrightarrow> right \<noteq> [])) \<and>
    e_holes e' = e_holes e + of_nat (if chain_end 0 left < foff frag then 1 else 0) +
      of_nat (if right \<noteq> [] \<and> fend frag < foff (hd right) \<or> right = [] \<and> \<not> final then 1 else 0) - 1 \<and>
    e_frag_count e' = e_frag_count e + 1 \<and>
    e' = e\<lparr>e_len := e_len e', e_holes := e_holes e', e_frag_count := e_frag_count e', e_frags := e_frags e'\<rparr>"
proof -
  let ?P = "\<lambda>g. fr_offset g \<le> fr_offset frag"
  define left where "left = takeWhile ?P (e_frags e)"
  define right where "right = dropWhile ?P (e_frags e)"
  have ch: "chained 0 (e_frags e)" using e by (simp add: entry_ok_def)
  have lr: "e_frags e = left @ right" by (simp add: left_def right_def)
  have cl: "chained 0 left" "chained (chain_end 0 left) right" using ch lr by simp_all
  have ul: "unat (frag_end left) = chain_end 0 left" by (rule frag_end_chain [OF cl(1)])
  have uf: "unat (fr_offset frag + fr_len frag) = fend frag" by (rule unat_fend [OF f])
  have fl: "frag_end left \<le> fr_offset frag"
    using r nz unfolding add_fragment_def left_def by (auto simp: Let_def split: if_splits)
  have fr: "\<not> final \<and> fr_offset frag + fr_len frag \<le> fr_offset (hd right)" if "right \<noteq> []"
    using r nz that unfolding add_fragment_def right_def by (auto simp: Let_def split: if_splits)
  have fe: "final \<Longrightarrow> e_len e = 0" "e_len e \<noteq> 0 \<Longrightarrow> fr_offset frag + fr_len frag \<le> e_len e"
    using r unfolding add_fragment_def by (auto simp: add.commute split: if_splits)
  have e': "e' = e\<lparr>e_len := (if final then fr_offset frag + fr_len frag else e_len e),
      e_frags := left @ frag # right,
      e_holes := (let l = (frag_end left = fr_offset frag);
          r = (final \<or> right \<noteq> [] \<and> fr_offset frag + fr_len frag = fr_offset (hd right))
        in if l \<and> r then e_holes e - 1 else if \<not> l \<and> \<not> r then e_holes e + 1 else e_holes e),
      e_frag_count := e_frag_count e + 1\<rparr>"
    using r nz unfolding add_fragment_def left_def right_def by (auto simp: Let_def split: if_splits)
  have 1: "chain_end 0 left \<le> foff frag" using fl ul by (simp add: word_le_nat_alt)
  have 2: "fend frag \<le> foff (hd right)" if "right \<noteq> []"
    using fr [OF that] uf by (simp add: word_le_nat_alt)
  have 3: "right \<noteq> []" if "\<not> final" "e_len e \<noteq> 0"
  proof
    assume "right = []"
    then have "chain_end 0 left = unat (e_len e)" using that e lr by (simp add: entry_ok_def)
    moreover have "fend frag \<le> unat (e_len e)" using fe(2) [OF that(2)] uf by (simp add: word_le_nat_alt)
    moreover have "0 < flen frag" using nz by (simp add: unat_gt_0)
    ultimately show False using 1 by simp
  qed
  have 4: "frag_end left = fr_offset frag \<longleftrightarrow> \<not> chain_end 0 left < foff frag"
    using 1 unfolding ul [symmetric] by (auto simp: word_unat_eq_iff)
  have 5: "fr_offset frag + fr_len frag = fr_offset (hd right) \<longleftrightarrow> \<not> fend frag < foff (hd right)" if "right \<noteq> []"
    using 2 [OF that] unfolding uf [symmetric] by (auto simp: word_unat_eq_iff)
  show ?thesis
    using lr 1 2 3 4 5 fr fe(1) uf unfolding e'
    by (intro exI [of _ left] exI [of _ right]) (auto simp: Let_def)
qed

lemma add_fragment_empty:
  assumes "add_fragment e frag final = (True, e')" and "fr_len frag = 0" and "\<not> final"
  shows "e' = e"
  using assms by (auto simp: add_fragment_def Let_def split: if_splits)

lemma gaps_insert:
  assumes "chain_end 0 left \<le> foff frag" and "0 < flen frag" and "right \<noteq> [] \<Longrightarrow> fend frag \<le> foff (hd right)"
  shows "gaps 0 (left @ frag # right) + (if right = [] then 0 else 1) = gaps 0 (left @ right) +
    (if chain_end 0 left < foff frag then 1 else 0) +
    (if right \<noteq> [] \<and> fend frag < foff (hd right) then 1 else 0)"
proof (cases right)
  case (Cons r rs)
  then have "fend frag \<le> foff r" using assms(3) by simp
  then have "chain_end 0 left < foff r" using assms(1,2) by linarith
  with Cons show ?thesis by simp
qed simp

lemma add_fragment_ok:
  assumes e: "entry_ok e" and f: "fits_packet frag" and r: "add_fragment e frag final = (True, e')"
    and fin: "final \<longrightarrow> fr_len frag \<noteq> 0"
  shows "entry_ok e'"
proof (cases "fr_len frag = 0")
  case True
  with fin add_fragment_empty [OF r] e show ?thesis by auto
next
  case False
  from add_fragment_place [OF e f r False] obtain left right where lr:
    "e_frags e = left @ right" "e_frags e' = left @ frag # right" "chain_end 0 left \<le> foff frag"
    "right \<noteq> [] \<Longrightarrow> fend frag \<le> foff (hd right)"
    "final \<Longrightarrow> right = [] \<and> e_len e = 0 \<and> unat (e_len e') = fend frag"
    "\<not> final \<Longrightarrow> e_len e' = e_len e \<and> (e_len e \<noteq> 0 \<longrightarrow> right \<noteq> [])"
    "e_holes e' = e_holes e + of_nat (if chain_end 0 left < foff frag then 1 else 0) +
      of_nat (if right \<noteq> [] \<and> fend frag < foff (hd right) \<or> right = [] \<and> \<not> final then 1 else 0) - 1"
    "e_frag_count e' = e_frag_count e + 1"
    by blast
  have pos: "0 < flen frag" using False by (simp add: unat_gt_0)
  have ch: "chained 0 left" "chained (chain_end 0 left) right"
    using e lr(1) by (simp_all add: entry_ok_def)
  have "chained (fend frag) right"
    using ch(2) lr(4) by (cases right) auto
  then have c: "chained 0 (e_frags e')" using ch(1) lr(2,3) pos f by simp
  have nz: "e_len e' \<noteq> 0" if final
    using lr(5) [OF that] pos by (auto simp flip: unat_eq_zero)
  have len: "e_frags e' \<noteq> [] \<and> chain_end 0 (e_frags e') = unat (e_len e')" if "e_len e' \<noteq> 0"
  proof (cases final)
    case True
    with lr(2,5) show ?thesis by simp
  next
    case nf: False
    with lr(6) that have "right \<noteq> []" "e_len e \<noteq> 0" "e_len e' = e_len e" by auto
    with e lr(1,2) show ?thesis by (simp add: entry_ok_def chain_end_last)
  qed
  define G where "G = gaps 0 (left @ right)"
  define G' where "G' = gaps 0 (left @ frag # right)"
  define l where "l = (if chain_end 0 left < foff frag then 1 else 0 :: nat)"
  define m where "m = (if right \<noteq> [] \<and> fend frag < foff (hd right) then 1 else 0 :: nat)"
  have g: "G' + (if right = [] then 0 else 1) = G + l + m"
    unfolding G_def G'_def l_def m_def by (rule gaps_insert [OF lr(3) pos lr(4)])
  have h: "e_holes e = of_nat (G + (if e_len e = 0 then 1 else 0))"
    using e lr(1) by (simp add: entry_ok_def G_def)
  have h': "e_holes e' = e_holes e + of_nat l + of_nat (if right = [] \<and> \<not> final then 1 else m) - 1"
    unfolding lr(7) by (auto simp: l_def m_def)
  have "e_holes e' = of_nat (G' + (if e_len e' = 0 then 1 else 0))"
  proof (cases "right = []")
    case True
    then have "G' = G + l" using g by (simp add: m_def)
    with True h h' nz lr(5,6) show ?thesis by (cases final) (auto simp: m_def)
  next
    case nr: False
    then have "\<not> final" using lr(5) by blast
    have "(of_nat (G' + 1) :: u32) = of_nat (G + l + m)" using g nr by simp
    then have "of_nat G' = of_nat G + of_nat l + of_nat m - (1 :: u32)" by (simp add: eq_diff_eq algebra_simps)
    with nr \<open>\<not> final\<close> h h' lr(6) show ?thesis by simp
  qed
  then have "e_holes e' = of_nat (gaps 0 (e_frags e') + (if e_len e' = 0 then 1 else 0))"
    by (simp only: lr(2) G'_def)
  with c len lr(1,2,8) e show ?thesis by (auto simp: entry_ok_def)
qed

section \<open>Assembling\<close>

definition frag_content :: "reasm_frag_entry \<Rightarrow> byte list" where
  "frag_content f = take (flen f) (drop (unat (fr_data_offset f)) (fr_data f))"

definition frag_stored :: "reasm_frag_entry \<Rightarrow> bool" where
  "frag_stored f \<longleftrightarrow> unat (fr_data_offset f) + flen f \<le> length (fr_data f)"

text \<open>A fragment of the payload \<open>P\<close>.\<close>

definition piece_of :: "byte list \<Rightarrow> reasm_frag_entry \<Rightarrow> bool" where
  "piece_of P f \<longleftrightarrow> frag_stored f \<and> fend f \<le> length P \<and> frag_content f = take (flen f) (drop (foff f) P)"

lemma mem_store_ok: "off + length bs \<le> length m \<Longrightarrow>
    mem_store m off bs = Ret (take off m @ bs @ drop (off + length bs) m)"
  by (simp add: mem_store_def)

lemma copy_frags_ok:
  assumes "chained p fs" and "gaps p fs = 0" and "\<forall>f \<in> set fs. piece_of P f"
    and "offset0 + chain_end p fs \<le> length out"
  shows "copy_frags offset0 fs out =
    Ret (take (offset0 + p) out @ take (chain_end p fs - p) (drop p P) @ drop (offset0 + chain_end p fs) out)"
  using assms
proof (induction fs arbitrary: p out)
  case (Cons f fs)
  have f: "foff f = p" "piece_of P f" "chained (fend f) fs" "gaps (fend f) fs = 0"
    using Cons.prems by (auto split: if_splits)
  have e: "fend f \<le> chain_end (fend f) fs" using chained_bounds [OF f(3)] by simp
  have rd: "mem_read (fr_data f) (unat (fr_data_offset f)) (flen f) = Ret (frag_content f)"
    using f(2) by (simp add: mem_read_def piece_of_def frag_stored_def frag_content_def)
  have fc: "frag_content f = take (flen f) (drop p P)" "length (frag_content f) = flen f"
    using f(1,2) by (auto simp: piece_of_def)
  let ?out = "take (offset0 + p) out @ frag_content f @ drop (offset0 + fend f) out"
  have st: "mem_store out (offset0 + foff f) (frag_content f) = Ret ?out"
    using Cons.prems(4) e f(1) fc(2) by (subst mem_store_ok) (simp_all add: add.assoc)
  have len: "length ?out = length out" using Cons.prems(4) e f(1) fc(2) by simp
  have ih: "copy_frags offset0 fs ?out = Ret (take (offset0 + fend f) ?out @
      take (chain_end (fend f) fs - fend f) (drop (fend f) P) @ drop (offset0 + chain_end (fend f) fs) ?out)"
    by (rule Cons.IH [OF f(3,4)]) (use Cons.prems len in simp_all)
  have eqs: "take (offset0 + fend f) ?out = take (offset0 + p) out @ frag_content f"
    "drop (offset0 + chain_end (fend f) fs) ?out = drop (offset0 + chain_end (fend f) fs) out"
    using Cons.prems(4) e f(1) fc(2) by (simp_all add: algebra_simps)
  have "drop (fend f) P = drop (flen f) (drop p P)" using f(1) by (simp add: add.commute)
  moreover have "chain_end (fend f) fs - p = flen f + (chain_end (fend f) fs - fend f)" using e f(1) by simp
  ultimately have join: "frag_content f @ take (chain_end (fend f) fs - fend f) (drop (fend f) P) =
      take (chain_end (fend f) fs - p) (drop p P)"
    by (simp only: fc(1) take_add)
  have "copy_frags offset0 (f # fs) out = copy_frags offset0 fs ?out"
    using rd st by simp
  also have "\<dots> = Ret (take (offset0 + p) out @ (frag_content f @
      take (chain_end (fend f) fs - fend f) (drop (fend f) P)) @ drop (offset0 + chain_end (fend f) fs) out)"
    by (simp only: ih eqs append_assoc)
  finally show ?case by (simp only: join chain_end.simps)
qed simp

text \<open>The assembled packet before its header is corrected.\<close>

definition header_size :: "reasm_proto \<Rightarrow> reasm_frag_entry \<Rightarrow> u32" where
  "header_size proto f = (case proto of PROTO_IPV4 \<Rightarrow> fr_data_offset f | PROTO_IPV6 \<Rightarrow> fr_data_offset f - 8)"

definition fix_header :: "reasm_proto \<Rightarrow> byte list \<Rightarrow> u32 \<Rightarrow> byte list run" where
  "fix_header proto out len = (case proto of PROTO_IPV4 \<Rightarrow> fix_ipv4 out len | PROTO_IPV6 \<Rightarrow> fix_ipv6 out len)"

lemma assemble_ok:
  assumes e: "entry_ok e" and c: "is_complete e" and p: "\<forall>f \<in> set (e_frags e). piece_of P f"
    and P: "length P = unat (e_len e)" and f: "e_frags e = f # fs"
    and h: "unat (header_size (e_protocol e) f) = length H" "take (length H) (fr_data f) = H"
    and out: "length out = unat out_len" "length H + length P \<le> length out"
  shows "assemble e out out_len =
    run_bind (fix_header (e_protocol e) (H @ P @ drop (length H + length P) out) (of_nat (length H + length P)))
      (\<lambda>out'. Ret (out', of_nat (length H + length P)))"
proof -
  have g: "e_len e \<noteq> 0" "gaps 0 (e_frags e) = 0" using entry_ok_complete [OF e] c by simp_all
  have ch: "chained 0 (e_frags e)" "chain_end 0 (e_frags e) = length P"
    using e g(1) P by (simp_all add: entry_ok_def)
  have bound: "length P < 2 ^ 30" using chain_end_bound [OF ch(1)] ch(2) by simp
  have "length H + length P < 2 ^ 32" using out unsigned_less [where 'a = nat, of out_len] by simp
  then have len: "e_len e + header_size (e_protocol e) f = of_nat (length H + length P)"
    "unat (e_len e + header_size (e_protocol e) f) = length H + length P"
    using P h(1) by (simp_all add: word_unat_eq_iff unat_of_nat_u32 unat_add_u32)
  have "\<not> e_len e + header_size (e_protocol e) f > out_len"
    using len(2) out by (simp add: word_less_nat_alt)
  moreover have "mem_read (fr_data f) 0 (length H) = Ret H"
    using h(2) by (metis drop0 le_add_same_cancel1 length_take linorder_le_cases mem_read_def min.absorb_iff2 plus_nat.add_0 take_all_iff)
  moreover have "mem_store out 0 H = Ret (H @ drop (length H) out)"
    using out(2) by (simp add: mem_store_def)
  moreover have "copy_frags (length H) (f # fs) (H @ drop (length H) out) =
      Ret (H @ P @ drop (length H + length P) out)"
    unfolding f [symmetric] using copy_frags_ok [OF ch(1) g(2) p, of "length H" "H @ drop (length H) out"] ch(2) out(2)
    by (simp add: add.commute)
  ultimately show ?thesis
    using h(1) len(1)
    by (cases "e_protocol e") (simp_all add: assemble_def f header_size_def fix_header_def Let_def add.commute
        del: copy_frags.simps)
qed

lemma contents_pieces:
  assumes "chained p fs" and "gaps p fs = 0" and "\<forall>f \<in> set fs. frag_stored f"
  shows "length (concat (map frag_content fs)) = chain_end p fs - p \<and> p \<le> chain_end p fs \<and>
    (\<forall>f \<in> set fs. fend f \<le> chain_end p fs \<and> p \<le> foff f \<and>
      frag_content f = take (flen f) (drop (foff f - p) (concat (map frag_content fs))))"
  using assms
proof (induction fs arbitrary: p)
  case (Cons f fs)
  have f: "foff f = p" "chained (fend f) fs" "gaps (fend f) fs = 0" "frag_stored f" "0 < flen f"
    using Cons.prems by (auto split: if_splits)
  have l: "length (frag_content f) = flen f" using f(4) by (simp add: frag_content_def frag_stored_def)
  let ?C = "concat (map frag_content fs)"
  have ih: "length ?C = chain_end (fend f) fs - fend f" "fend f \<le> chain_end (fend f) fs"
    "\<And>g. g \<in> set fs \<Longrightarrow> fend g \<le> chain_end (fend f) fs \<and> fend f \<le> foff g \<and>
      frag_content g = take (flen g) (drop (foff g - fend f) ?C)"
    using Cons.IH [OF f(2,3)] Cons.prems(3) by auto
  have "fend g \<le> chain_end p (f # fs) \<and> p \<le> foff g \<and>
      frag_content g = take (flen g) (drop (foff g - p) (frag_content f @ ?C))" if "g \<in> set (f # fs)" for g
  proof (cases "g = f")
    case True
    with f(1) l ih(2) show ?thesis by simp
  next
    case False
    with that have g: "g \<in> set fs" by simp
    note i = ih(3) [OF g]
    then have "foff g - p = length (frag_content f) + (foff g - fend f)" using f(1) l by simp
    then have "drop (foff g - p) (frag_content f @ ?C) = drop (foff g - fend f) ?C" by simp
    moreover have "fend g \<le> chain_end p (f # fs)" "p \<le> foff g" using i f(1) by simp_all
    ultimately show ?thesis using i by (intro conjI) (assumption | simp only:)+
  qed
  moreover have "length (frag_content f @ ?C) = chain_end p (f # fs) - p" "p \<le> chain_end p (f # fs)"
    using ih(1,2) l f(1) by simp_all
  ultimately show ?case by (simp only: list.map concat.simps) blast
qed simp

lemma pieces_of_contents:
  assumes "chained 0 fs" and "gaps 0 fs = 0" and "\<forall>f \<in> set fs. frag_stored f"
  shows "\<forall>f \<in> set fs. piece_of (concat (map frag_content fs)) f"
  using contents_pieces [OF assms] assms(3) by (simp add: piece_of_def)

end
