(* ===== verification/Ipreasm_Header.thy ===== *)
theory Ipreasm_Header
  imports Ipreasm
begin

text \<open>
  The header of a reassembled packet: what \<^verbatim>\<open>assemble\<close> of ipreasm.c corrects in it, and the
  checksum of RFC 1071.
\<close>

section \<open>The checksum\<close>

text \<open>The ones' complement sum as a number.\<close>

fun words_sum :: "byte list \<Rightarrow> nat" where
  "words_sum (a # b # bs) = 256 * unat a + unat b + words_sum bs"
| "words_sum _ = 0"

lemma unat_be_word: "unat (push_bit 8 (ucast a) OR ucast b :: u32) = 256 * unat a + unat b" for a b :: byte
proof -
  have "(push_bit 8 (ucast a) OR ucast b :: u32) = push_bit 8 (ucast a) + ucast b"
    by (rule disjunctive_add [symmetric]) (auto simp: bit_simps dest: bit_imp_le_length)
  also have "\<dots> = of_nat (256 * unat a + unat b)"
    by (simp add: push_bit_eq_mult of_nat_unat)
  finally have "(push_bit 8 (ucast a) OR ucast b :: u32) = of_nat (256 * unat a + unat b)" .
  moreover have "unat a < 256" "unat b < 256"
    using unsigned_less [where 'a = nat, of a] unsigned_less [where 'a = nat, of b] by simp_all
  then have "256 * unat a + unat b < 2 ^ 32" by simp
  ultimately show ?thesis by (simp only: unat_of_nat_u32)
qed

lemma words_sum_bound: "2 * words_sum bs \<le> 65535 * length bs"
proof (induction bs rule: words_sum.induct)
  case (1 a b bs)
  have "unat a < 256" "unat b < 256"
    using unsigned_less [where 'a = nat, of a] unsigned_less [where 'a = nat, of b] by simp_all
  with 1 show ?case by simp
qed simp_all

lemma word_top_bit: "unat s < 2 ^ 31 \<Longrightarrow> s AND 0x80000000 = 0" for s :: u32
proof -
  assume a: "unat s < 2 ^ 31"
  then have "\<not> bit (unat s) 31" by (simp add: bit_iff_odd)
  then have "\<not> bit s 31" by (simp add: bit_unsigned_iff)
  then show ?thesis using and_exp_eq_0_iff_not_bit [of s 31] by simp
qed

lemma ip_sum_words_eq:
  "unat s + words_sum bs < 2 ^ 31 \<Longrightarrow> unat (ip_sum_words s bs) = unat s + words_sum bs"
proof (induction s bs rule: ip_sum_words.induct)
  case (1 s a b bs)
  let ?s = "s + (push_bit 8 (ucast a) OR ucast b)"
  have u: "unat ?s = unat s + (256 * unat a + unat b)"
    using 1(2) by (subst unat_add_u32) (simp_all add: unat_be_word)
  then have "?s AND 0x80000000 = 0" using 1(2) by (intro word_top_bit) simp
  with 1 u show ?case by (simp add: Let_def)
qed simp_all

lemma fold_sum_eq: "unat (fold_sum s) = (if s = 0 then 0 else (unat s - 1) mod 65535 + 1)"
proof (induction s rule: fold_sum.induct)
  case (1 s)
  have "s AND 0xFFFF = take_bit 16 s" by (simp add: take_bit_eq_mask mask_numeral)
  then have l: "unat (s AND 0xFFFF) = unat s mod 65536" and h: "unat (drop_bit 16 s) = unat s div 65536"
    by (simp_all add: take_bit_eq_mod drop_bit_eq_div unat_mod unat_div)
  show ?case
  proof (cases "drop_bit 16 s = 0")
    case True
    then have "unat s div 65536 = 0" using h by simp
    then have "unat s < 65536" by simp
    moreover have "fold_sum s = s" using True by (subst fold_sum.simps) simp
    ultimately show ?thesis by (auto simp: unat_gt_0)
  next
    case False
    let ?t = "(s AND 0xFFFF) + drop_bit 16 s"
    have hp: "0 < unat s div 65536" using False h by (metis bot_nat_0.not_eq_extremum unat_eq_zero)
    have t: "unat ?t = unat s mod 65536 + unat s div 65536"
      using l h unsigned_less [where 'a = nat, of s] by (subst unat_add_u32) auto
    then have tn: "?t \<noteq> 0" using hp by (metis add_gr_0 less_irrefl unat_0)
    define d m where "d = unat s div 65536" and "m = unat s mod 65536"
    have "unat s = 65536 * d + m" by (simp add: d_def m_def)
    then have "unat s - 1 = d * 65535 + (m + d - 1)" using hp unfolding d_def [symmetric] by linarith
    then have "(unat s - 1) mod 65535 = (m + d - 1) mod 65535" by simp
    then have "(unat s - 1) mod 65535 = (unat ?t - 1) mod 65535" by (simp only: t d_def m_def)
    moreover have "fold_sum s = fold_sum ?t" using False by (subst fold_sum.simps) simp
    moreover have "s \<noteq> 0" using False by auto
    moreover have "unat (fold_sum ?t) = (unat ?t - 1) mod 65535 + 1"
      using 1 [OF False] tn by (simp only: if_False)
    ultimately show ?thesis by (simp only: if_False)
  qed
qed

text \<open>A header that carries its checksum sums up to all ones.\<close>

definition checksum_valid :: "byte list \<Rightarrow> bool" where
  "checksum_valid hdr \<longleftrightarrow> fold_sum (ip_sum_words 0 hdr) = 0xFFFF"

lemma words_sum_append: "even (length as) \<Longrightarrow> words_sum (as @ bs) = words_sum as + words_sum bs"
  by (induction as rule: words_sum.induct) auto

lemma checksum_valid_insert:
  assumes "even (length as)" and "length as + length bs \<le> 1000"
  shows "checksum_valid (as @ store_net16 (ip_checksum (as @ [0, 0] @ bs)) @ bs)"
proof -
  let ?S = "words_sum as + words_sum bs"
  let ?f = "fold_sum (ip_sum_words 0 (as @ [0, 0] @ bs))"
  have S: "?S < 2 ^ 29" using words_sum_bound [of as] words_sum_bound [of bs] assms(2) by simp
  have "unat (ip_sum_words 0 (as @ [0, 0] @ bs)) = ?S"
    using S by (subst ip_sum_words_eq) (simp_all add: words_sum_append assms(1))
  then have f: "unat ?f = (if ?S = 0 then 0 else (?S - 1) mod 65535 + 1)"
    by (auto simp: fold_sum_eq simp flip: unat_eq_zero)
  then have fb: "unat ?f \<le> 65535" by (auto simp: Suc_le_eq)
  let ?c = "ip_checksum (as @ [0, 0] @ bs)"
  have "NOT ?f = - 1 - ?f" by (simp add: not_eq_complement)
  moreover have "unat (- 1 - ?f) = unat (- 1 :: u32) - unat ?f" by (rule unat_sub) simp
  moreover have "unat (- 1 :: u32) = 4294967295" by (simp add: unsigned_minus_1_eq_mask mask_eq_exp_minus_1)
  ultimately have "unat (NOT ?f) = 4294967295 - unat ?f" by simp
  then have "unat ?c = (4294967295 - unat ?f) mod 65536" by (simp add: ip_checksum_def unsigned_ucast_eq take_bit_eq_mod)
  also have "\<dots> = 65535 - unat ?f"
  proof -
    have "4294967295 - unat ?f = 65536 * 65535 + (65535 - unat ?f)" using fb by simp
    then show ?thesis by (simp only: mod_mult_self4) simp
  qed
  finally have c: "unat ?c = 65535 - unat ?f" .
  have sp: "words_sum (store_net16 w @ xs) = unat w + words_sum xs" for w :: u16 and xs
  proof -
    have "unat (drop_bit 8 w) = unat w div 256" by (simp add: drop_bit_eq_div unat_div)
    moreover have "unat w < 65536" using unsigned_less [where 'a = nat, of w] by simp
    ultimately have "unat (ucast (drop_bit 8 w) :: byte) = unat w div 256" "unat (ucast w :: byte) = unat w mod 256"
      by (simp_all add: unsigned_ucast_eq take_bit_eq_mod)
    then show ?thesis by (simp add: store_net16_def)
  qed
  let ?T = "?S + (65535 - unat ?f)"
  let ?hdr = "as @ store_net16 ?c @ bs"
  have "unat (ip_sum_words 0 ?hdr) = ?T"
    using S c by (subst ip_sum_words_eq) (simp_all add: words_sum_append assms(1) sp)
  moreover have "0 < ?T"
    using f fb by (cases "?S = 0") auto
  ultimately have "unat (fold_sum (ip_sum_words 0 ?hdr)) = (?T - 1) mod 65535 + 1"
    by (auto simp: fold_sum_eq simp flip: unat_eq_zero)
  also have "(?T - 1) mod 65535 = 65534"
  proof (cases "?S = 0")
    case True
    with f show ?thesis by simp
  next
    case False
    define k where "k = ?S - 1"
    have "?S = k + 1" using False by (simp add: k_def)
    moreover have "unat ?f = k mod 65535 + 1" using f False by (simp add: k_def)
    moreover have "k = 65535 * (k div 65535) + k mod 65535" by simp
    moreover have "k mod 65535 \<le> 65534" using mod_less_divisor [of 65535 k] by simp
    ultimately have "?T - 1 = 65535 * (k div 65535) + 65534" by linarith
    then show ?thesis by simp
  qed
  finally show ?thesis by (simp add: checksum_valid_def word_unat_eq_iff)
qed

section \<open>The corrected header\<close>

definition ipv4_cleared :: "byte list \<Rightarrow> u32 \<Rightarrow> byte list" where
  "ipv4_cleared hdr len = take 2 hdr @ store_net16 (ucast len) @ take 2 (drop 4 hdr) @ [0, 0] @ take 2 (drop 8 hdr)"

text \<open>
  An IPv4 header with the total length \<open>len\<close>, without fragment offset and flags, and with the
  checksum that belongs to it; an IPv6 header with the payload length.
\<close>

definition ipv4_header :: "byte list \<Rightarrow> u32 \<Rightarrow> byte list" where
  "ipv4_header hdr len =
     ipv4_cleared hdr len @ store_net16 (ip_checksum (ipv4_cleared hdr len @ [0, 0] @ drop 12 hdr)) @ drop 12 hdr"

definition ipv6_header :: "byte list \<Rightarrow> u32 \<Rightarrow> byte list" where
  "ipv6_header hdr len = take 4 hdr @ store_net16 (ucast (len - 40)) @ drop 6 hdr"

lemma length_ipv4_cleared: "12 \<le> length hdr \<Longrightarrow> length (ipv4_cleared hdr len) = 10"
  by (simp add: ipv4_cleared_def)

lemma length_ipv4_header: "12 \<le> length hdr \<Longrightarrow> length (ipv4_header hdr len) = length hdr"
  by (simp add: ipv4_header_def length_ipv4_cleared)

lemma checksum_ipv4_header: "12 \<le> length hdr \<Longrightarrow> length hdr \<le> 60 \<Longrightarrow> checksum_valid (ipv4_header hdr len)"
  unfolding ipv4_header_def by (rule checksum_valid_insert) (simp_all add: length_ipv4_cleared)

lemma fix_ipv4_ok:
  assumes l: "12 \<le> length hdr" and hl: "length hdr = 4 * unat (hd hdr AND 0xF)"
  shows "fix_ipv4 (hdr @ rest) len = Ret (ipv4_header hdr len @ rest)"
proof -
  obtain as bs where h: "hdr = as @ bs" "length as = 12"
    using l by (metis append_take_drop_id length_take min.absorb2)
  then obtain a b c d e f g h' i j k l where as: "as = [a, b, c, d, e, f, g, h', i, j, k, l]"
    by (auto simp: eval_nat_numeral length_Suc_conv)
  have c: "ipv4_cleared hdr len = [a, b] @ store_net16 (ucast len) @ [e, f, 0, 0, i, j]"
    by (simp add: ipv4_cleared_def h as)
  obtain x y where xy: "store_net16 (ucast len :: u16) = [x, y]" by (simp add: store_net16_def)
  obtain s t where st: "store_net16 (ip_checksum (ipv4_cleared hdr len @ [0, 0] @ drop 12 hdr)) = [s, t]"
    by (simp add: store_net16_def)
  have z: "store_net16 0 = [0, 0]" by (simp add: store_net16_def)
  have n: "4 * unat (a AND 0xF) = 12 + length bs" using hl by (simp add: h as)
  have "mem_read (([a, b, x, y, e, f, 0, 0, i, j, 0, 0] @ bs) @ rest) 0
      (length ([a, b, x, y, e, f, 0, 0, i, j, 0, 0] @ bs)) = Ret ([a, b, x, y, e, f, 0, 0, i, j, 0, 0] @ bs)"
    unfolding mem_read_def by simp
  moreover have "length ([a, b, x, y, e, f, 0, 0, i, j, 0, 0] @ bs) = 4 * unat (a AND 0xF)" using n by simp
  moreover have "ipv4_cleared hdr len @ [0, 0] @ drop 12 hdr = [a, b, x, y, e, f, 0, 0, i, j, 0, 0] @ bs"
    unfolding c xy by (simp add: h as)
  ultimately have rd: "mem_read (a # b # x # y # e # f # 0 # 0 # i # j # 0 # 0 # bs @ rest) 0 (4 * unat (a AND 0xF)) =
      Ret (ipv4_cleared hdr len @ [0, 0] @ drop 12 hdr)" by simp
  have "ipv4_header hdr len = [a, b, x, y, e, f, 0, 0, i, j, s, t] @ bs"
    unfolding ipv4_header_def st unfolding c xy by (simp add: h as)
  then show ?thesis
    using rd st by (simp add: fix_ipv4_def mem_byte_def mem_store_def h as xy z)
qed

lemma fix_ipv6_ok: "6 \<le> length hdr \<Longrightarrow> fix_ipv6 (hdr @ rest) len = Ret (ipv6_header hdr len @ rest)"
  by (simp add: fix_ipv6_def mem_store_def ipv6_header_def)

lemma length_ipv6_header: "6 \<le> length hdr \<Longrightarrow> length (ipv6_header hdr len) = length hdr"
  by (simp add: ipv6_header_def)

end
