(* ===== verification/Ipreasm_Props.thy ===== *)
theory Ipreasm_Props
  imports Ipreasm_Holes Ipreasm_Header
begin

text \<open>
  The tables of ipreasm.c as a map from packet identifications to entries, its invariant, and the
  reassembly of a packet from its fragments in any order.
\<close>

section \<open>The invariant of the tables\<close>

fun id_proto :: "reasm_id \<Rightarrow> reasm_proto" where
  "id_proto (Id_ipv4 d) = PROTO_IPV4"
| "id_proto (Id_ipv6 d) = PROTO_IPV6"

fun id_hash :: "reasm_id \<Rightarrow> u32" where
  "id_hash (Id_ipv4 d) = reasm_ipv4_hash d"
| "id_hash (Id_ipv6 d) = reasm_ipv6_hash d"

definition id_slot :: "reasm_id \<Rightarrow> nat" where
  "id_slot d = unat (id_hash d mod REASM_IP_HASH_SIZE)"

lemma reasm_id_equal_iff: "reasm_id_equal (id_proto d) d d' \<longleftrightarrow> d = d'"
  by (cases d; cases d') auto

text \<open>The part of the packet before the fragment's octets, as the assembled packet needs it.\<close>

definition header_room :: "reasm_proto \<Rightarrow> reasm_frag_entry \<Rightarrow> bool" where
  "header_room proto f \<longleftrightarrow> unat (fr_data_offset f) \<le> length (fr_data f) \<and>
     unat (fr_data_offset f) < 2 ^ 30 \<and>
     (case proto of
        PROTO_IPV4 \<Rightarrow> 20 \<le> unat (fr_data_offset f) \<and>
          unat (fr_data_offset f) = 4 * unat (hd (fr_data f) AND 0xF)
      | PROTO_IPV6 \<Rightarrow> 48 \<le> unat (fr_data_offset f))"

definition entry_wf :: "reasm_ip_entry \<Rightarrow> bool" where
  "entry_wf e \<longleftrightarrow> e_hash e = id_slot (e_id e) \<and> e_protocol e = id_proto (e_id e) \<and>
     (e_state e = STATE_ACTIVE \<longrightarrow> entry_ok e \<and> \<not> is_complete e \<and>
        (\<forall>f \<in> set (e_frags e). frag_stored f \<and> header_room (e_protocol e) f))"

definition reasm_wf :: "reasm_ip \<Rightarrow> bool" where
  "reasm_wf r \<longleftrightarrow> distinct (r_time r) \<and> set (r_time r) = dom (r_entries r) \<and>
     (\<forall>a \<in> dom (r_entries r). a < r_fresh r) \<and>
     (\<forall>h. distinct (r_table r h) \<and>
        set (r_table r h) = {a. \<exists>e. r_entries r a = Some e \<and> e_hash e = h}) \<and>
     (\<forall>a b e e'. r_entries r a = Some e \<longrightarrow> r_entries r b = Some e' \<longrightarrow> e_id e = e_id e' \<longrightarrow> a = b) \<and>
     (\<forall>a e. r_entries r a = Some e \<longrightarrow> entry_wf e) \<and>
     r_waiting r = of_nat (length (r_time r))"

lemma reasm_wf_new: "reasm_ip_new True = Some r \<Longrightarrow> reasm_wf r"
  by (auto simp: reasm_ip_new_def reasm_wf_def)

lemma reasm_wf_unique:
  "reasm_wf r \<Longrightarrow> r_entries r a = Some e \<Longrightarrow> r_entries r b = Some e' \<Longrightarrow> e_id e = e_id e' \<Longrightarrow> a = b"
  unfolding reasm_wf_def by blast

lemma reasm_wf_entry: "reasm_wf r \<Longrightarrow> r_entries r a = Some e \<Longrightarrow> entry_wf e"
  unfolding reasm_wf_def by blast

lemma drop_entry_wf:
  assumes wf: "reasm_wf r" and a: "r_entries r a = Some e"
  shows "reasm_wf (drop_entry r a e)"
proof -
  have d: "distinct (r_time r)" "set (r_time r) = dom (r_entries r)" "a \<in> set (r_time r)"
    and t: "\<And>h. distinct (r_table r h)"
      "\<And>h. set (r_table r h) = {a. \<exists>e. r_entries r a = Some e \<and> e_hash e = h}"
    using wf a by (auto simp: reasm_wf_def)
  have "0 < length (r_time r)" using d(3) by auto
  then have "length (r_time r) = length (remove1 a (r_time r)) + 1" using d(3) by (simp add: length_remove1)
  then have "(of_nat (length (r_time r)) :: u32) - 1 = of_nat (length (remove1 a (r_time r)))" by simp
  moreover have "set (remove1 a (r_time r)) = dom ((r_entries r)(a := None))" using d by auto
  moreover have "set (((r_table r)(e_hash e := remove1 a (r_table r (e_hash e)))) h) =
      {b. \<exists>e'. ((r_entries r)(a := None)) b = Some e' \<and> e_hash e' = h}" for h
    using t a by (cases "h = e_hash e") auto
  ultimately show ?thesis
    using wf d t unfolding reasm_wf_def drop_entry_def by (auto split: if_splits)
qed

lemma set_entry_wf:
  assumes wf: "reasm_wf r" and a: "r_entries r a = Some e" and e': "entry_wf e'" "e_id e' = e_id e"
  shows "reasm_wf (set_entry r a e')"
proof -
  have h: "e_hash e' = e_hash e" using wf a e' by (auto simp: reasm_wf_def entry_wf_def)
  define E where "E = (r_entries r)(a \<mapsto> e')"
  have old: "\<exists>e3. r_entries r b = Some e3 \<and> e_id e3 = e_id e2 \<and> e_hash e3 = e_hash e2" if "E b = Some e2" for b e2
    using that a h e'(2) unfolding E_def by (cases "b = a") auto
  have new: "\<exists>e3. E b = Some e3 \<and> e_hash e3 = e_hash e2" if "r_entries r b = Some e2" for b e2
    using that a h unfolding E_def by (cases "b = a") auto
  have dom: "dom E = dom (r_entries r)" using a unfolding E_def by auto
  have chain: "{b. \<exists>e2. E b = Some e2 \<and> e_hash e2 = k} = {b. \<exists>e2. r_entries r b = Some e2 \<and> e_hash e2 = k}" for k
    using old new by blast
  have uniq: "b = c" if q: "E b = Some e1" "E c = Some e2" "e_id e1 = e_id e2" for b c e1 e2
  proof -
    from old [OF q(1)] old [OF q(2)] obtain e3 e4 where o: "r_entries r b = Some e3" "e_id e3 = e_id e1"
      "r_entries r c = Some e4" "e_id e4 = e_id e2" by blast
    have "e_id e3 = e_id e4" using o(2,4) q(3) by simp
    then show ?thesis by (rule reasm_wf_unique [OF wf o(1,3)])
  qed
  have ewf: "entry_wf e2" if "E b = Some e2" for b e2
    using that e'(1) reasm_wf_entry [OF wf, of b e2] unfolding E_def by (cases "b = a") auto
  have s: "set_entry r a e' = r\<lparr>r_entries := E\<rparr>" by (simp add: set_entry_def E_def)
  have base: "distinct (r_time r)" "set (r_time r) = dom (r_entries r)" "\<forall>a \<in> dom (r_entries r). a < r_fresh r"
    "r_waiting r = of_nat (length (r_time r))"
    "distinct (r_table r h) \<and> set (r_table r h) = {a. \<exists>e. r_entries r a = Some e \<and> e_hash e = h}" for h
    using wf by (simp_all add: reasm_wf_def)
  show ?thesis
    unfolding s reasm_wf_def
  proof (intro conjI allI impI)
    fix b c e1 e2
    assume "r_entries (r\<lparr>r_entries := E\<rparr>) b = Some e1" "r_entries (r\<lparr>r_entries := E\<rparr>) c = Some e2"
      "e_id e1 = e_id e2"
    then show "b = c" by (intro uniq [of b e1 c e2]) simp_all
  next
    fix b e2
    assume "r_entries (r\<lparr>r_entries := E\<rparr>) b = Some e2"
    then show "entry_wf e2" by (intro ewf [of b e2]) simp
  qed (use base dom chain in simp_all)
qed

text \<open>Expiry removes only entries whose time is over.\<close>

lemma process_timeouts_ok:
  assumes "reasm_wf r"
  shows "\<exists>r'. process_timeouts r now = Ret r' \<and> reasm_wf r' \<and> r_timeout r' = r_timeout r \<and>
    r_fresh r' = r_fresh r \<and> (\<forall>a e. r_entries r' a = Some e \<longrightarrow> r_entries r a = Some e) \<and>
    (\<forall>a e. r_entries r a = Some e \<longrightarrow> now \<le> e_timeout e \<longrightarrow> r_entries r' a = Some e)"
  using assms
proof (induction r now rule: process_timeouts.induct)
  case (1 r now)
  show ?case
  proof (cases "r_time r")
    case Nil
    with 1(2) show ?thesis by (simp add: process_timeouts.simps)
  next
    case (Cons a as)
    then have "a \<in> dom (r_entries r)" using 1(2) by (auto simp: reasm_wf_def)
    then obtain e where e: "r_entries r a = Some e" by blast
    show ?thesis
    proof (cases "e_timeout e < now")
      case False
      with Cons e 1(2) show ?thesis by (simp add: process_timeouts.simps)
    next
      case True
      let ?r = "drop_entry (r\<lparr>r_timed_out := r_timed_out r + 1\<rparr>) a e"
      have "reasm_wf (r\<lparr>r_timed_out := r_timed_out r + 1\<rparr>)" using 1(2) by (simp add: reasm_wf_def)
      then have "reasm_wf ?r" by (rule drop_entry_wf) (simp add: e)
      from 1(1) [OF Cons e True this] obtain r' where r': "process_timeouts ?r now = Ret r'" "reasm_wf r'"
        "r_timeout r' = r_timeout ?r" "r_fresh r' = r_fresh ?r"
        "\<forall>a e. r_entries r' a = Some e \<longrightarrow> r_entries ?r a = Some e"
        "\<forall>a e. r_entries ?r a = Some e \<longrightarrow> now \<le> e_timeout e \<longrightarrow> r_entries r' a = Some e"
        by blast
      have "process_timeouts r now = Ret r'"
        using Cons e True r'(1) by (subst process_timeouts.simps) simp
      moreover have "r_entries r b = Some e1" if "r_entries r' b = Some e1" for b e1
      proof -
        have "r_entries ?r b = Some e1" using that r'(5) by blast
        then show ?thesis by (auto simp: drop_entry_def split: if_splits)
      qed
      moreover have "r_entries r' b = Some e1" if "r_entries r b = Some e1" "now \<le> e_timeout e1" for b e1
      proof -
        have "b \<noteq> a" using that e True by auto
        then have "r_entries ?r b = Some e1" using that(1) by (simp add: drop_entry_def)
        with r'(6) that(2) show ?thesis by blast
      qed
      moreover have "r_timeout r' = r_timeout r" "r_fresh r' = r_fresh r"
        using r'(3,4) by (simp_all add: drop_entry_def)
      ultimately show ?thesis using r'(2) by blast
    qed
  qed
qed

text \<open>The chains implement a map: the search finds the entry of an identification, if any.\<close>

lemma find_entry_ok:
  assumes wf: "reasm_wf r"
  shows "(\<exists>a e. find_entry (r_entries r) (id_proto d) d (r_table r (id_slot d)) = Ret (Some (a, e)) \<and>
      r_entries r a = Some e \<and> e_id e = d) \<or>
    find_entry (r_entries r) (id_proto d) d (r_table r (id_slot d)) = Ret None \<and>
      (\<forall>a e. r_entries r a = Some e \<longrightarrow> e_id e \<noteq> d)"
proof -
  have "(\<exists>a e. find_entry (r_entries r) (id_proto d) d as = Ret (Some (a, e)) \<and> r_entries r a = Some e \<and> e_id e = d) \<or>
      find_entry (r_entries r) (id_proto d) d as = Ret None \<and> (\<forall>a \<in> set as. \<forall>e. r_entries r a = Some e \<longrightarrow> e_id e \<noteq> d)"
    if "\<forall>a \<in> set as. \<exists>e. r_entries r a = Some e" for as
    using that
  proof (induction as)
    case (Cons a as)
    then obtain e where e: "r_entries r a = Some e" by auto
    then have "e_protocol e = id_proto (e_id e)" using wf by (auto simp: reasm_wf_def entry_wf_def)
    with e Cons show ?case
      by (cases "e_id e = d") (auto simp: reasm_id_equal_iff)
  qed simp
  moreover have "\<forall>a \<in> set (r_table r (id_slot d)). \<exists>e. r_entries r a = Some e"
    using wf by (auto simp: reasm_wf_def)
  moreover have "a \<in> set (r_table r (id_slot d))" if "r_entries r a = Some e" "e_id e = d" for a e
    using wf that by (auto simp: reasm_wf_def entry_wf_def)
  ultimately show ?thesis by blast
qed

lemma new_entry_wf:
  assumes wf: "reasm_wf r" and d: "\<forall>a e. r_entries r a = Some e \<longrightarrow> e_id e \<noteq> d"
    and n: "new_entry r (id_proto d) d (id_slot d) ts = (a, e, r')"
  shows "reasm_wf r'" and "r_entries r' = (r_entries r)(a \<mapsto> e)" and "r_entries r a = None"
    and "e_id e = d" and "e_state e = STATE_ACTIVE" and "e_frags e = []" and "e_len e = 0"
    and "e_timeout e = ts + r_timeout r" and "r_timeout r' = r_timeout r" and "entry_wf e"
proof -
  let ?e = "\<lparr>e_id = d, e_len = 0, e_holes = 1, e_frag_count = 0, e_hash = id_slot d,
    e_timeout = ts + r_timeout r, e_state = STATE_ACTIVE, e_protocol = id_proto d, e_frags = []\<rparr>"
  have ar: "a = r_fresh r" "e = ?e" and r': "r' = r\<lparr>r_entries := (r_entries r)(a \<mapsto> e), r_fresh := a + 1,
      r_table := (r_table r)(id_slot d := a # r_table r (id_slot d)), r_time := r_time r @ [a],
      r_waiting := r_waiting r + 1, r_max_waiting := r_max_waiting r'\<rparr>"
    using n by (auto simp: new_entry_def Let_def)
  show none: "r_entries r a = None" using wf ar(1) by (auto simp: reasm_wf_def)
  show ewf: "entry_wf e" by (simp add: ar entry_wf_def entry_ok_def is_complete_def)
  show ents: "r_entries r' = (r_entries r)(a \<mapsto> e)" by (subst r') simp
  show "e_id e = d" "e_state e = STATE_ACTIVE" "e_frags e = []" "e_len e = 0"
    "e_timeout e = ts + r_timeout r" by (simp_all add: ar)
  show "r_timeout r' = r_timeout r" by (subst r') simp
  have nt: "a \<notin> set (r_table r h)" "a \<notin> set (r_time r)" for h using wf none by (auto simp: reasm_wf_def)
  have none_chain: "a \<notin> set (r_table r h)" for h using wf none by (auto simp: reasm_wf_def)
  have chains: "distinct (r_table r' h) \<and> set (r_table r' h) = {b. \<exists>e. r_entries r' b = Some e \<and> e_hash e = h}" for h
  proof -
    have "r_table r' = (r_table r)(id_slot d := a # r_table r (id_slot d))" by (subst r') simp
    moreover have "e_hash e = id_slot d" by (simp add: ar)
    moreover have "distinct (r_table r h) \<and> set (r_table r h) = {b. \<exists>e. r_entries r b = Some e \<and> e_hash e = h}"
      using wf by (simp add: reasm_wf_def)
    ultimately show ?thesis
      using none none_chain unfolding ents by (cases "h = id_slot d") auto
  qed
  have times: "r_time r' = r_time r @ [a]" "r_fresh r' = a + 1" "r_waiting r' = r_waiting r + 1"
    by (subst r', simp)+
  have uniq: "b = c" if q: "r_entries r' b = Some e1" "r_entries r' c = Some e2" "e_id e1 = e_id e2" for b c e1 e2
  proof -
    have "e_id e = d" by (simp add: ar)
    with q d show ?thesis
      using reasm_wf_unique [OF wf _ _ q(3)] unfolding ents by (auto split: if_splits)
  qed
  have ewfs: "entry_wf e1" if "r_entries r' b = Some e1" for b e1
    using that ewf reasm_wf_entry [OF wf] unfolding ents by (auto split: if_splits)
  have base: "distinct (r_time r)" "set (r_time r) = dom (r_entries r)" "\<forall>a \<in> dom (r_entries r). a < r_fresh r"
    "r_waiting r = of_nat (length (r_time r))"
    using wf by (simp_all add: reasm_wf_def)
  show "reasm_wf r'"
    unfolding reasm_wf_def times
  proof (intro conjI allI impI)
    show "distinct (r_time r @ [a])" using base nt by simp
    show "set (r_time r @ [a]) = dom (r_entries r')" using base unfolding ents by auto
    show "\<forall>b \<in> dom (r_entries r'). b < a + 1" using base(3) ar(1) unfolding ents by (auto intro: less_SucI)
  qed (use chains uniq ewfs base(4) in auto)
qed

section \<open>The assembled packet\<close>

definition packet_header :: "reasm_proto \<Rightarrow> reasm_frag_entry \<Rightarrow> byte list" where
  "packet_header proto f = take (unat (header_size proto f)) (fr_data f)"

definition fixed_header :: "reasm_proto \<Rightarrow> byte list \<Rightarrow> u32 \<Rightarrow> byte list" where
  "fixed_header proto hdr len =
     (case proto of PROTO_IPV4 \<Rightarrow> ipv4_header hdr len | PROTO_IPV6 \<Rightarrow> ipv6_header hdr len)"

text \<open>The header of the first fragment, corrected, and the octets of all fragments.\<close>

definition packet_of :: "reasm_proto \<Rightarrow> reasm_frag_entry list \<Rightarrow> byte list" where
  "packet_of proto fs =
     (let hdr = packet_header proto (hd fs); body = concat (map frag_content fs)
      in fixed_header proto hdr (of_nat (length hdr + length body)) @ body)"

lemma length_packet_header:
  "header_room proto f \<Longrightarrow> length (packet_header proto f) = unat (header_size proto f) \<and>
     20 \<le> length (packet_header proto f) \<and> length (packet_header proto f) < 2 ^ 30"
  by (cases proto) (auto simp: header_room_def packet_header_def header_size_def unat_sub word_le_nat_alt)

lemma fix_header_ok:
  assumes "header_room proto f"
  shows "fix_header proto (packet_header proto f @ rest) len = Ret (fixed_header proto (packet_header proto f) len @ rest)"
    and "length (fixed_header proto (packet_header proto f) len) = length (packet_header proto f)"
proof -
  note l = length_packet_header [OF assms]
  show "fix_header proto (packet_header proto f @ rest) len = Ret (fixed_header proto (packet_header proto f) len @ rest)"
  proof (cases proto)
    case PROTO_IPV4
    have "hd (packet_header proto f) = hd (fr_data f)"
      using l assms by (cases "fr_data f") (auto simp: packet_header_def take_Cons split: nat.splits)
    with PROTO_IPV4 l assms fix_ipv4_ok [of "packet_header proto f" rest len] show ?thesis
      by (simp add: fix_header_def fixed_header_def header_room_def header_size_def)
  next
    case PROTO_IPV6
    with l fix_ipv6_ok [of "packet_header proto f" rest len] show ?thesis
      by (simp add: fix_header_def fixed_header_def)
  qed
  show "length (fixed_header proto (packet_header proto f) len) = length (packet_header proto f)"
    using l by (cases proto) (simp_all add: fixed_header_def length_ipv4_header length_ipv6_header)
qed

lemma assemble_packet:
  assumes e: "entry_ok e" and c: "is_complete e"
    and p: "\<forall>f \<in> set (e_frags e). frag_stored f \<and> header_room (e_protocol e) f"
    and out: "length out = unat out_len"
  shows "assemble e out out_len = (let pkt = packet_of (e_protocol e) (e_frags e) in
    if length pkt \<le> length out then Ret (pkt @ drop (length pkt) out, of_nat (length pkt)) else Ret (out, 0))"
proof -
  have g: "e_len e \<noteq> 0" "gaps 0 (e_frags e) = 0" using entry_ok_complete [OF e] c by simp_all
  have ch: "chained 0 (e_frags e)" "e_frags e \<noteq> []" "chain_end 0 (e_frags e) = unat (e_len e)"
    using e g(1) by (simp_all add: entry_ok_def)
  obtain f fs where f: "e_frags e = f # fs" using ch(2) by (cases "e_frags e") auto
  define H where "H = packet_header (e_protocol e) f"
  define P where "P = concat (map frag_content (e_frags e))"
  have room: "header_room (e_protocol e) f" using p f by simp
  note lh = length_packet_header [OF room, folded H_def]
  have P: "length P = unat (e_len e)" "\<forall>f \<in> set (e_frags e). piece_of P f"
    using contents_pieces [OF ch(1) g(2)] pieces_of_contents [OF ch(1) g(2)] p ch(3) by (simp_all add: P_def)
  have bound: "length P < 2 ^ 30" using chain_end_bound [OF ch(1)] ch(3) P(1) by simp
  have pkt: "packet_of (e_protocol e) (e_frags e) = fixed_header (e_protocol e) H (of_nat (length H + length P)) @ P"
    by (simp add: packet_of_def f H_def P_def Let_def)
  note fx = fix_header_ok [OF room, folded H_def]
  have lp: "length (packet_of (e_protocol e) (e_frags e)) = length H + length P"
    unfolding pkt using fx(2) by simp
  show ?thesis
  proof (cases "length H + length P \<le> length out")
    case True
    have "assemble e out out_len = run_bind (fix_header (e_protocol e) (H @ P @ drop (length H + length P) out)
        (of_nat (length H + length P))) (\<lambda>out'. Ret (out', of_nat (length H + length P)))"
      by (rule assemble_ok [OF e c P(2,1) f])
        (use lh out True in \<open>simp_all add: H_def packet_header_def\<close>)
    with True lp show ?thesis
      unfolding Let_def by (simp add: fx(1) pkt)
  next
    case False
    have "unat (e_len e + header_size (e_protocol e) f) = length H + length P"
      using lh bound P(1) by (subst unat_add_u32) auto
    then have "e_len e + header_size (e_protocol e) f > out_len"
      using False out by (simp add: word_less_nat_alt)
    with False lp show ?thesis
      by (cases "e_protocol e") (simp_all add: assemble_def f header_size_def)
  qed
qed

section \<open>One packet\<close>

definition holds :: "reasm_ip \<Rightarrow> reasm_id \<Rightarrow> reasm_ip_entry \<Rightarrow> bool" where
  "holds r d e \<longleftrightarrow> (\<exists>a. r_entries r a = Some e \<and> e_id e = d)"

lemma holds_unique: "reasm_wf r \<Longrightarrow> holds r d e \<Longrightarrow> holds r d e' \<Longrightarrow> e = e'"
  unfolding holds_def by (metis option.inject reasm_wf_unique)

text \<open>What a fragment of a packet looks like after parsing.\<close>

definition frag_sane :: "reasm_proto \<Rightarrow> reasm_frag_entry \<Rightarrow> bool \<Rightarrow> bool" where
  "frag_sane proto f final \<longleftrightarrow> fits_packet f \<and> frag_stored f \<and> header_room proto f \<and> (final \<longrightarrow> fr_len f \<noteq> 0)"

lemma add_fragment_frame:
  "add_fragment e f final = (b, e') \<Longrightarrow> e_id e' = e_id e \<and> e_hash e' = e_hash e \<and> e_timeout e' = e_timeout e \<and>
     e_state e' = e_state e \<and> e_protocol e' = e_protocol e"
  by (auto simp: add_fragment_def Let_def split: if_splits)

lemma add_fragment_set:
  assumes "add_fragment e f final = (True, e')"
  shows "set (e_frags e') \<subseteq> insert f (set (e_frags e))"
  using assms by (auto simp: add_fragment_def Let_def split: if_splits dest: set_takeWhileD set_dropWhileD)

lemma entry_wf_step:
  assumes e: "entry_wf e" "e_state e = STATE_ACTIVE" and f: "frag_sane (e_protocol e) f final"
    and a: "add_fragment e f final = (True, e')"
  shows "entry_ok e'" and "\<forall>g \<in> set (e_frags e'). frag_stored g \<and> header_room (e_protocol e') g"
    and "\<not> is_complete e' \<Longrightarrow> entry_wf e'"
proof -
  have ok: "entry_ok e" and st: "\<forall>g \<in> set (e_frags e). frag_stored g \<and> header_room (e_protocol e) g"
    using e unfolding entry_wf_def by blast+
  note fr = add_fragment_frame [OF a]
  show 1: "entry_ok e'" by (rule add_fragment_ok [OF ok _ a]) (use f in \<open>simp_all add: frag_sane_def\<close>)
  show 2: "\<forall>g \<in> set (e_frags e'). frag_stored g \<and> header_room (e_protocol e') g"
    using add_fragment_set [OF a] st f fr by (auto simp: frag_sane_def)
  show "entry_wf e'" if "\<not> is_complete e'"
    using 1 2 that fr e(1) by (simp add: entry_wf_def)
qed

lemma entry_wf_invalid:
  assumes "entry_wf e" and "add_fragment e f final = (b, e')"
  shows "entry_wf (e'\<lparr>e_state := STATE_INVALID\<rparr>)"
  using assms add_fragment_frame [OF assms(2)] by (simp add: entry_wf_def)

lemma holds_set_entry:
  assumes "reasm_wf r" and "r_entries r a = Some e" and "e_id e = d" and "e_id e' = d"
  shows "holds (set_entry r a e') d e'"
  using assms by (auto simp: holds_def set_entry_def)

lemma drop_not_holds:
  assumes "reasm_wf r" and "r_entries r a = Some e" and "e_id e = d"
  shows "\<not> holds (drop_entry r a e) d e0"
proof
  assume "holds (drop_entry r a e) d e0"
  then obtain b where b: "b \<noteq> a" "r_entries r b = Some e0" "e_id e0 = d"
    by (auto simp: holds_def drop_entry_def split: if_splits)
  have "e_id e = e_id e0" using b(3) assms(3) by simp
  from reasm_wf_unique [OF assms(1,2) b(2) this] b(1) show False by simp
qed

text \<open>The entry a fragment goes to, after the timeouts: the pending one, or a fresh one.\<close>

definition entry_for :: "reasm_ip \<Rightarrow> reasm_id \<Rightarrow> u64 \<Rightarrow> reasm_ip_entry \<Rightarrow> bool" where
  "entry_for r d ts e \<longleftrightarrow> entry_wf e \<and> e_id e = d \<and> e_protocol e = id_proto d \<and>
     (\<forall>e0. holds r d e0 \<longrightarrow> ts \<le> e_timeout e0 \<longrightarrow> e = e0) \<and>
     ((\<forall>e0. \<not> holds r d e0) \<longrightarrow> e_state e = STATE_ACTIVE \<and> e_frags e = [] \<and> e_len e = 0 \<and>
        e_timeout e = ts + r_timeout r)"

lemma reasm_find:
  assumes wf: "reasm_wf r" and ok: "\<forall>i. ok i" and pt: "process_timeouts r ts = Ret r1"
    and r1: "reasm_wf r1" "r_timeout r1 = r_timeout r"
      "\<forall>a e. r_entries r1 a = Some e \<longrightarrow> r_entries r a = Some e"
      "\<forall>a e. r_entries r a = Some e \<longrightarrow> ts \<le> e_timeout e \<longrightarrow> r_entries r1 a = Some e"
  shows "\<exists>a e r2. run_bind (find_entry (r_entries r1) (id_proto d) d (r_table r1 (id_slot d))) (\<lambda>found.
      case found of Some (a, e) \<Rightarrow> Ret (a, e, r1)
      | None \<Rightarrow> if \<not> ok 2 \<or> \<not> ok 3 then Abort else Ret (new_entry r1 (id_proto d) d (id_slot d) ts)) =
      Ret (a, e, r2) \<and> reasm_wf r2 \<and> r_entries r2 a = Some e \<and> r_timeout r2 = r_timeout r \<and>
      (\<forall>b e. r_entries r1 b = Some e \<longrightarrow> r_entries r2 b = Some e) \<and>
      (\<forall>b. b \<noteq> a \<longrightarrow> r_entries r2 b = r_entries r1 b) \<and> entry_for r d ts e"
  using find_entry_ok [OF r1(1), of d]
proof (elim disjE exE conjE)
  fix a e
  assume f: "find_entry (r_entries r1) (id_proto d) d (r_table r1 (id_slot d)) = Ret (Some (a, e))"
    and e: "r_entries r1 a = Some e" "e_id e = d"
  have h: "holds r d e" using e r1(3) by (auto simp: holds_def)
  have w: "entry_wf e" by (rule reasm_wf_entry [OF r1(1) e(1)])
  then have pe: "e_protocol e = id_proto d" using e(2) by (simp add: entry_wf_def)
  have u: "e = e0" if "holds r d e0" for e0 by (rule holds_unique [OF wf h that])
  have "(\<forall>e0. \<not> holds r d e0) \<longrightarrow> X" for X using h by blast
  with w pe e(2) u have "entry_for r d ts e" unfolding entry_for_def by metis
  with f e(1) r1(1,2) show ?thesis by (intro exI [of _ a] exI [of _ e] exI [of _ r1]) simp
next
  assume f: "find_entry (r_entries r1) (id_proto d) d (r_table r1 (id_slot d)) = Ret None"
    and none: "\<forall>a e. r_entries r1 a = Some e \<longrightarrow> e_id e \<noteq> d"
  obtain a e r2 where n: "new_entry r1 (id_proto d) d (id_slot d) ts = (a, e, r2)"
    by (metis prod_cases3)
  note ne = new_entry_wf [OF r1(1) none n]
  have "\<not> (holds r d e0 \<and> ts \<le> e_timeout e0)" for e0
    using none r1(4) by (auto simp: holds_def)
  moreover have "e_protocol e = id_proto d" using ne(4,10) by (simp add: entry_wf_def)
  ultimately have "entry_for r d ts e"
    unfolding entry_for_def using ne(4-8,10) r1(2) by simp
  with f ok n ne(1,2,3,9) r1(2) show ?thesis
    by (intro exI [of _ a] exI [of _ e] exI [of _ r2]) simp
qed

text \<open>The entries of other packets stay as they are.\<close>

definition others_kept :: "reasm_ip \<Rightarrow> reasm_id \<Rightarrow> u64 \<Rightarrow> reasm_ip \<Rightarrow> bool" where
  "others_kept r d ts r' \<longleftrightarrow>
     (\<forall>d' e. d' \<noteq> d \<longrightarrow> (holds r d' e \<longrightarrow> ts \<le> e_timeout e \<longrightarrow> holds r' d' e) \<and>
        (holds r' d' e \<longrightarrow> holds r d' e))"

lemma others_keptI:
  assumes e: "e_id e = d" "r_entries r2 a = Some e"
    and k: "\<forall>b e. r_entries r b = Some e \<longrightarrow> ts \<le> e_timeout e \<longrightarrow> r_entries r2 b = Some e"
    and l: "\<forall>b e. b \<noteq> a \<longrightarrow> r_entries r2 b = Some e \<longrightarrow> r_entries r b = Some e"
    and r': "\<forall>b. b \<noteq> a \<longrightarrow> r_entries r' b = r_entries r2 b" "\<forall>x. r_entries r' a = Some x \<longrightarrow> e_id x = d"
  shows "others_kept r d ts r'"
  unfolding others_kept_def holds_def
proof (intro allI impI conjI; elim exE conjE)
  fix d' e' b
  assume h: "d' \<noteq> d" "ts \<le> e_timeout e'" "r_entries r b = Some e'" "e_id e' = d'"
  then have "r_entries r2 b = Some e'" using k by blast
  moreover have "b \<noteq> a" using calculation e h by auto
  ultimately show "\<exists>b. r_entries r' b = Some e' \<and> e_id e' = d'" using r' h(4) by metis
next
  fix d' e' b
  assume h: "d' \<noteq> d" "r_entries r' b = Some e'" "e_id e' = d'"
  then have "b \<noteq> a" using r'(2) by auto
  with h r'(1) l show "\<exists>b. r_entries r b = Some e' \<and> e_id e' = d'" by metis
qed

text \<open>\<^verbatim>\<open>reasm_ip_next\<close> once the packet is parsed and its entry is found.\<close>

definition next_entry ::
  "reasm_ip \<Rightarrow> nat \<Rightarrow> reasm_ip_entry \<Rightarrow> reasm_frag_entry \<Rightarrow> bool \<Rightarrow> byte list \<Rightarrow> u32 \<Rightarrow>
     (bool \<times> byte list \<times> u32 \<times> reasm_ip) run" where
  "next_entry r a e f final out out_len =
     (if e_state e \<noteq> STATE_ACTIVE then Ret (True, out, 0, r\<lparr>r_dropped_frags := r_dropped_frags r + 1\<rparr>)
      else case add_fragment e f final of
        (False, e') \<Rightarrow> Ret (True, out, 0,
          set_entry (r\<lparr>r_dropped_frags := r_dropped_frags r + (e_frag_count e' + 1)\<rparr>) a (e'\<lparr>e_state := STATE_INVALID\<rparr>))
      | (True, e') \<Rightarrow>
          if \<not> is_complete e' then Ret (True, out, 0, set_entry r a e')
          else run_bind (assemble e' out out_len) (\<lambda>(out', n). Ret (True, out', n, drop_entry (set_entry r a e') a e')))"

text \<open>What a call answers that adds the fragment to the entry \<open>e\<close>.\<close>

definition next_answer ::
  "reasm_ip_entry \<Rightarrow> reasm_frag_entry \<Rightarrow> bool \<Rightarrow> byte list \<Rightarrow> byte list \<Rightarrow> u32 \<Rightarrow> reasm_ip \<Rightarrow> bool" where
  "next_answer e f final out out' n r' \<longleftrightarrow>
     (\<forall>e'. e_state e = STATE_ACTIVE \<longrightarrow> add_fragment e f final = (True, e') \<longrightarrow>
        (if is_complete e' then (\<forall>e0. \<not> holds r' (e_id e) e0) \<and>
           (let pkt = packet_of (e_protocol e) (e_frags e') in length pkt \<le> length out \<longrightarrow>
              out' = pkt @ drop (length pkt) out \<and> n = of_nat (length pkt))
         else n = 0 \<and> out' = out \<and> holds r' (e_id e) e'))"

lemma next_entry_ok:
  assumes wf: "reasm_wf r" and a: "r_entries r a = Some e" and p: "e_protocol e = id_proto (e_id e)"
    and f: "frag_sane (e_protocol e) f final" and out: "length out = unat out_len"
  shows "\<exists>out' n r'. next_entry r a e f final out out_len = Ret (True, out', n, r') \<and> reasm_wf r' \<and>
    r_timeout r' = r_timeout r \<and> length out' = length out \<and> (\<forall>b. b \<noteq> a \<longrightarrow> r_entries r' b = r_entries r b) \<and>
    (\<forall>x. r_entries r' a = Some x \<longrightarrow> e_id x = e_id e) \<and> next_answer e f final out out' n r'"
proof -
  have ew: "entry_wf e" by (rule reasm_wf_entry [OF wf a])
  obtain b e' where ad: "add_fragment e f final = (b, e')" by fastforce
  note fr = add_fragment_frame [OF ad]
  consider (inactive) "e_state e \<noteq> STATE_ACTIVE" | (invalid) "e_state e = STATE_ACTIVE" "\<not> b"
    | (more) "e_state e = STATE_ACTIVE" "b" "\<not> is_complete e'" | (full) "e_state e = STATE_ACTIVE" "b" "is_complete e'"
    by blast
  then show ?thesis
  proof cases
    case inactive
    with wf a show ?thesis by (simp add: next_entry_def next_answer_def reasm_wf_def)
  next
    case invalid
    let ?r = "r\<lparr>r_dropped_frags := r_dropped_frags r + (e_frag_count e' + 1)\<rparr>"
    have "reasm_wf ?r" using wf by (simp add: reasm_wf_def)
    then have "reasm_wf (set_entry ?r a (e'\<lparr>e_state := STATE_INVALID\<rparr>))"
      by (rule set_entry_wf) (use a fr entry_wf_invalid [OF ew ad] in simp_all)
    with invalid ad fr show ?thesis by (simp add: next_entry_def next_answer_def set_entry_def)
  next
    case more
    have "add_fragment e f final = (True, e')" using ad more(2) by simp
    note st = entry_wf_step [OF ew more(1) f this]
    have "reasm_wf (set_entry r a e')" by (rule set_entry_wf [OF wf a st(3) [OF more(3)]]) (simp add: fr)
    with more ad show ?thesis using fr
      by (auto simp: next_entry_def next_answer_def set_entry_def holds_def)
  next
    case full
    have ad': "add_fragment e f final = (True, e')" using ad full(2) by simp
    note st = entry_wf_step [OF ew full(1) f ad']
    have d: "drop_entry (set_entry r a e') a e' = drop_entry r a e"
      using fr by (simp add: drop_entry_def set_entry_def)
    have c: "assemble e' out out_len = (let pkt = packet_of (e_protocol e') (e_frags e') in
        if length pkt \<le> length out then Ret (pkt @ drop (length pkt) out, of_nat (length pkt)) else Ret (out, 0))"
      by (rule assemble_packet [OF st(1) full(3) st(2) out])
    then obtain out' n where o: "assemble e' out out_len = Ret (out', n)" "length out' = length out"
      by (auto simp: Let_def split: if_splits)
    have "next_entry r a e f final out out_len = Ret (True, out', n, drop_entry r a e)"
      using full ad' o(1) d by (simp add: next_entry_def)
    moreover have "\<not> holds (drop_entry r a e) (e_id e) e0" for e0 by (rule drop_not_holds [OF wf a refl])
    then have "next_answer e f final out out' n (drop_entry r a e)"
      using full(3) ad' c o(1) fr by (auto simp: next_answer_def Let_def split: if_splits)
    moreover have "reasm_wf (drop_entry r a e)" by (rule drop_entry_wf [OF wf a])
    ultimately show ?thesis using o(2)
      by (intro exI [of _ out'] exI [of _ n] exI [of _ "drop_entry r a e"]) (simp add: drop_entry_def)
  qed
qed

lemma reasm_ip_next_step:
  assumes wf: "reasm_wf r" and ok: "\<forall>i. ok i"
    and parse: "parse_packet ok packet len fho = Ret (Some (f, id_proto d, d, id_hash d, final))"
    and f: "frag_sane (id_proto d) f final" and out: "length out = unat out_len"
  shows "\<exists>e out' n r'. entry_for r d ts e \<and>
    reasm_ip_next ok r packet len fho ts out out_len = Ret (True, out', n, r') \<and> reasm_wf r' \<and>
    r_timeout r' = r_timeout r \<and> length out' = length out \<and> others_kept r d ts r' \<and>
    next_answer e f final out out' n r'"
proof -
  from process_timeouts_ok [OF wf] obtain r1 where r1: "process_timeouts r ts = Ret r1" "reasm_wf r1"
    "r_timeout r1 = r_timeout r" "\<forall>a e. r_entries r1 a = Some e \<longrightarrow> r_entries r a = Some e"
    "\<forall>a e. r_entries r a = Some e \<longrightarrow> ts \<le> e_timeout e \<longrightarrow> r_entries r1 a = Some e"
    by blast
  from reasm_find [OF wf ok r1] obtain a e r2 where r2: "run_bind (find_entry (r_entries r1) (id_proto d) d
      (r_table r1 (id_slot d))) (\<lambda>found. case found of Some (a, e) \<Rightarrow> Ret (a, e, r1)
      | None \<Rightarrow> if \<not> ok 2 \<or> \<not> ok 3 then Abort else Ret (new_entry r1 (id_proto d) d (id_slot d) ts)) = Ret (a, e, r2)"
    "reasm_wf r2" "r_entries r2 a = Some e" "r_timeout r2 = r_timeout r"
    "\<forall>b e. r_entries r1 b = Some e \<longrightarrow> r_entries r2 b = Some e" "entry_for r d ts e"
    "\<forall>b. b \<noteq> a \<longrightarrow> r_entries r2 b = r_entries r1 b" by blast
  have e: "e_id e = d" "e_protocol e = id_proto d" using r2(6) by (simp_all add: entry_for_def)
  have nx: "reasm_ip_next ok r packet len fho ts out out_len = next_entry r2 a e f final out out_len"
    unfolding reasm_ip_next_def r1(1) parse run_bind.simps option.case prod.case Let_def id_slot_def [symmetric]
      run_bind_assoc [symmetric] r2(1) next_entry_def by (rule refl)
  have p: "e_protocol e = id_proto (e_id e)" and f': "frag_sane (e_protocol e) f final" using e f by simp_all
  from next_entry_ok [OF r2(2,3) p f' out] obtain out' n r' where
    n: "next_entry r2 a e f final out out_len = Ret (True, out', n, r')" "reasm_wf r'"
      "r_timeout r' = r_timeout r2" "length out' = length out" "\<forall>b. b \<noteq> a \<longrightarrow> r_entries r' b = r_entries r2 b"
      "next_answer e f final out out' n r'" "\<forall>x. r_entries r' a = Some x \<longrightarrow> e_id x = e_id e"
    by blast
  have "others_kept r d ts r'"
  proof (rule others_keptI [OF e(1) r2(3) _ _ n(5)])
    show "\<forall>b e. r_entries r b = Some e \<longrightarrow> ts \<le> e_timeout e \<longrightarrow> r_entries r2 b = Some e"
      using r1(5) r2(5) by blast
    show "\<forall>b e. b \<noteq> a \<longrightarrow> r_entries r2 b = Some e \<longrightarrow> r_entries r b = Some e"
      using r1(4) r2(7) by simp
    show "\<forall>x. r_entries r' a = Some x \<longrightarrow> e_id x = d" using n(7) e(1) by simp
  qed
  with n r2(4,6) show ?thesis
    by (intro exI [of _ e] exI [of _ out'] exI [of _ n] exI [of _ r']) (simp add: nx)
qed

end
