(* ===== verification/Ipreasm_Order.thy ===== *)
theory Ipreasm_Order
  imports Ipreasm_Props "HOL-Library.Multiset"
begin

text \<open>
  Parsing of fragments, and the reassembly of a packet from its fragments in any order, with calls
  for other packets in between.
\<close>

section \<open>An entry that has some of the fragments of a packet\<close>

lemma chained_sub: "chained p fs \<Longrightarrow> chained p (filter P fs) \<and> chain_end p (filter P fs) \<le> chain_end p fs"
proof (induction fs arbitrary: p)
  case (Cons f fs)
  then have ih: "chained (fend f) (filter P fs)" "chain_end (fend f) (filter P fs) \<le> chain_end (fend f) fs" by auto
  have w: "chained q gs \<Longrightarrow> p \<le> q \<Longrightarrow> chained p gs \<and> chain_end p gs \<le> chain_end q gs" for p q gs
    by (cases gs) auto
  show ?case
    using ih w [OF ih(1), of p] Cons.prems by auto
qed simp

lemma chained_split:
  assumes "chained p (as @ f # bs)"
  shows "\<forall>g \<in> set as. fend g \<le> foff f \<and> foff g < foff f" and "\<forall>g \<in> set bs. fend f \<le> foff g \<and> foff f < foff g"
proof -
  have "\<forall>g \<in> set as. fend g \<le> foff f \<and> foff g < foff f"
    using assms
  proof (induction as arbitrary: p)
    case (Cons g as)
    then have c: "chained (fend g) (as @ f # bs)" "0 < flen g" by auto
    then have "fend g \<le> foff f" using chained_later [OF c(1), of f] by simp
    with c Cons.IH [OF c(1)] show ?case by auto
  qed simp
  then show "\<forall>g \<in> set as. fend g \<le> foff f \<and> foff g < foff f" .
  have "chained (fend f) bs" "0 < flen f" using assms by auto
  then show "\<forall>g \<in> set bs. fend f \<le> foff g \<and> foff f < foff g" using chained_later [of "fend f" bs] by fastforce
qed

lemma chained_distinct: "chained p fs \<Longrightarrow> distinct fs"
proof (induction fs arbitrary: p)
  case (Cons f fs)
  then have "chained p ([] @ f # fs)" by simp
  from chained_split(2) [OF this] have "f \<notin> set fs" by auto
  with Cons show ?case by auto
qed simp

lemma gaps_sum: "chained p fs \<Longrightarrow> gaps p fs = 0 \<Longrightarrow> p + sum_list (map flen fs) = chain_end p fs"
proof (induction fs arbitrary: p)
  case (Cons f fs)
  then have "foff f = p" "fend f + sum_list (map flen fs) = chain_end (fend f) fs" by (auto split: if_splits)
  then show ?case by simp
qed simp

lemma sum_filter: "f \<in> set fs \<Longrightarrow> \<not> P f \<Longrightarrow> 0 < flen f \<Longrightarrow> sum_list (map flen (filter P fs)) < sum_list (map flen fs)"
proof (induction fs)
  case (Cons g fs)
  have le: "sum_list (map flen (filter P fs)) \<le> sum_list (map flen fs)" for fs by (induction fs) auto
  from Cons le [of fs] show ?case by (auto simp: less_Suc_eq_le intro: le_less_trans add_strict_increasing)
qed simp

text \<open>The fragments in \<open>S\<close> of the packet that consists of \<open>fs\<close> have arrived.\<close>

definition has_frags :: "reasm_frag_entry list \<Rightarrow> reasm_frag_entry set \<Rightarrow> reasm_ip_entry \<Rightarrow> bool" where
  "has_frags fs S e \<longleftrightarrow> e_state e = STATE_ACTIVE \<and> e_frags e = filter (\<lambda>f. f \<in> S) fs \<and>
     unat (e_len e) = (if last fs \<in> S then chain_end 0 fs else 0)"

definition whole :: "reasm_frag_entry list \<Rightarrow> bool" where
  "whole fs \<longleftrightarrow> fs \<noteq> [] \<and> chained 0 fs \<and> gaps 0 fs = 0 \<and> (\<forall>f \<in> set (butlast fs). fr_len f AND 7 = 0)"

lemma add_fragment_between:
  assumes "e_frags e = A @ B" and "takeWhile (\<lambda>g. fr_offset g \<le> fr_offset f) (A @ B) = A"
    and "dropWhile (\<lambda>g. fr_offset g \<le> fr_offset f) (A @ B) = B"
    and "\<not> final \<Longrightarrow> fr_len f AND 7 = 0" and "\<not> (e_len e \<noteq> 0 \<and> fr_len f + fr_offset f > e_len e)"
    and "final \<Longrightarrow> e_len e = 0 \<and> B = []" and "\<not> frag_end A > fr_offset f"
    and "B \<noteq> [] \<Longrightarrow> \<not> fr_offset f + fr_len f > fr_offset (hd B)" and "fr_len f \<noteq> 0"
  shows "\<exists>e'. add_fragment e f final = (True, e') \<and> e_frags e' = A @ f # B \<and> e_state e' = e_state e \<and>
    e_len e' = (if final then fr_offset f + fr_len f else e_len e)"
proof (cases final)
  case True
  then have "B = []" "e_len e = 0" using assms(6) by simp_all
  moreover have "takeWhile (\<lambda>g. fr_offset g \<le> fr_offset f) A = A" "dropWhile (\<lambda>g. fr_offset g \<le> fr_offset f) A = []"
    using assms(2,3) \<open>B = []\<close> by simp_all
  ultimately show ?thesis using assms True by (simp add: add_fragment_def Let_def del: takeWhile_eq_all_conv)
next
  case False
  then show ?thesis using assms by (cases "B = []") (simp_all add: add_fragment_def Let_def del: takeWhile_eq_all_conv)
qed

lemma add_arrived:
  assumes fs: "whole fs" and h: "has_frags fs S e" and f: "f \<in> set fs" "f \<notin> S" and S: "S \<subseteq> set fs"
  shows "\<exists>e'. add_fragment e f (f = last fs) = (True, e') \<and> has_frags fs (insert f S) e'"
proof -
  from f(1) obtain as bs where ab: "fs = as @ f # bs" by (meson split_list)
  have ch: "chained 0 (as @ f # bs)" using fs ab by (simp add: whole_def)
  note sp = chained_split [OF ch]
  have d: "distinct fs" using ch ab chained_distinct by metis
  have last: "f = last fs \<longleftrightarrow> bs = []" using d ab by (auto simp: last_append)
  let ?A = "filter (\<lambda>f. f \<in> S) as" and ?B = "filter (\<lambda>f. f \<in> S) bs"
  have fr: "e_frags e = ?A @ ?B" using h f(2) ab by (simp add: has_frags_def)
  have fr': "filter (\<lambda>g. g \<in> insert f S) fs = ?A @ f # ?B"
  proof -
    have "filter (\<lambda>g. g \<in> insert f S) gs = filter (\<lambda>g. g \<in> S) gs" if "f \<notin> set gs" for gs
      using that by (intro filter_cong) auto
    then show ?thesis using d ab by simp
  qed
  have tw: "takeWhile (\<lambda>g. fr_offset g \<le> fr_offset f) (?A @ ?B) = ?A"
    "dropWhile (\<lambda>g. fr_offset g \<le> fr_offset f) (?A @ ?B) = ?B"
  proof -
    have a: "fr_offset g \<le> fr_offset f" if "g \<in> set ?A" for g
      using that sp(1) by (auto simp: word_le_nat_alt)
    have b: "\<not> fr_offset g \<le> fr_offset f" if "g \<in> set ?B" for g
      using that sp(2) by (auto simp: word_le_nat_alt)
    show "takeWhile (\<lambda>g. fr_offset g \<le> fr_offset f) (?A @ ?B) = ?A"
      using a b by (subst takeWhile_append2) (assumption, cases ?B, auto)
    show "dropWhile (\<lambda>g. fr_offset g \<le> fr_offset f) (?A @ ?B) = ?B"
      using a b by (subst dropWhile_append2) (assumption, cases ?B, auto)
  qed
  have cA: "chained 0 as" using ch by simp
  have fit: "fits_packet f" "0 < flen f" using ch by auto
  have "unat (frag_end ?A) \<le> foff f"
    using frag_end_chain [of ?A] chained_sub [OF cA, of "\<lambda>f. f \<in> S"] ch by auto
  then have left: "\<not> frag_end ?A > fr_offset f" by (simp add: word_less_nat_alt)
  have right: "\<not> fr_offset f + fr_len f > fr_offset (hd ?B)" if "?B \<noteq> []"
  proof -
    have "hd ?B \<in> set bs" using that by (metis filter_is_subset hd_in_set subsetD)
    then have "fend f \<le> foff (hd ?B)" using sp(2) by blast
    then show ?thesis using unat_fend [OF fit(1)] by (simp add: word_less_nat_alt)
  qed
  have len: "chain_end 0 fs = (if bs = [] then fend f else chain_end (fend f) bs)" unfolding ab by simp
  have bnd: "chain_end 0 fs < 2 ^ 30" using chain_end_bound [OF ch] ab by simp
  have up: "fend f \<le> chain_end 0 fs"
    using chained_bounds [of "fend f" bs] ch unfolding ab by auto
  have l8: "bs \<noteq> [] \<Longrightarrow> fr_len f AND 7 = 0"
    using fs ab by (auto simp: whole_def butlast_append)
  have elen: "unat (e_len e) = (if last fs \<in> S then chain_end 0 fs else 0)" using h by (simp add: has_frags_def)
  have over: "\<not> (e_len e \<noteq> 0 \<and> fr_len f + fr_offset f > e_len e)"
  proof (cases "last fs \<in> S")
    case True
    then show ?thesis using elen up unat_fend [OF fit(1)] by (simp add: word_less_nat_alt add.commute)
  next
    case False
    then show ?thesis using elen by (simp add: unat_eq_zero)
  qed
  have zl: "e_len e = 0" if "f = last fs" using elen f(2) that by (simp add: unat_eq_zero)
  have Bl: "bs = [] \<Longrightarrow> ?B = []" by simp
  have nz: "fr_len f \<noteq> 0" using fit(2) by auto
  have "\<exists>e'. add_fragment e f (f = last fs) = (True, e') \<and> e_frags e' = ?A @ f # ?B \<and> e_state e' = e_state e \<and>
      e_len e' = (if f = last fs then fr_offset f + fr_len f else e_len e)"
    by (rule add_fragment_between [OF fr tw _ over _ left right nz]) (use l8 last zl Bl in auto)
  then show ?thesis
    using h fr' elen unat_fend [OF fit(1)] len last by (auto simp: has_frags_def)
qed

lemma has_frags_complete:
  assumes fs: "whole fs" and h: "has_frags fs S e" and e: "entry_ok e" and S: "S \<subseteq> set fs"
  shows "is_complete e \<longleftrightarrow> S = set fs"
proof
  have c: "chained 0 fs" "gaps 0 fs = 0" using fs by (simp_all add: whole_def)
  have fr: "e_frags e = filter (\<lambda>f. f \<in> S) fs" using h by (simp add: has_frags_def)
  assume "is_complete e"
  then have g: "e_len e \<noteq> 0" "gaps 0 (e_frags e) = 0" using entry_ok_complete [OF e] by simp_all
  then have "chain_end 0 (e_frags e) = chain_end 0 fs"
    using e h by (auto simp: entry_ok_def has_frags_def unat_eq_zero split: if_splits)
  then have s: "sum_list (map flen (filter (\<lambda>f. f \<in> S) fs)) = sum_list (map flen fs)"
    using gaps_sum [OF c] gaps_sum [OF _ g(2)] e by (simp add: entry_ok_def fr)
  have "f \<in> S" if "f \<in> set fs" for f
    using s sum_filter [OF that, of "\<lambda>f. f \<in> S"] chained_later [OF c(1) that] by fastforce
  with S show "S = set fs" by blast
next
  assume S: "S = set fs"
  then have "e_frags e = fs" "unat (e_len e) = chain_end 0 fs"
    using h fs by (simp_all add: has_frags_def whole_def filter_id_conv)
  moreover have "0 < chain_end 0 fs" using fs chained_bounds [of 0 fs] by (cases fs) (auto simp: whole_def)
  ultimately show "is_complete e" using entry_ok_complete [OF e] fs by (auto simp: whole_def)
qed

section \<open>Sequences of calls\<close>

text \<open>A call of \<^verbatim>\<open>reasm_ip_next\<close>: the packet, its length, the place of the Fragment header, the time.\<close>

type_synonym reasm_call = "byte list \<times> u32 \<times> nat \<times> u64"

fun call_parse :: "(nat \<Rightarrow> bool) \<Rightarrow> reasm_call \<Rightarrow> (reasm_frag_entry \<times> reasm_proto \<times> reasm_id \<times> u32 \<times> bool) option run" where
  "call_parse ok (packet, len, fho, ts) = parse_packet ok packet len fho"

fun call_time :: "reasm_call \<Rightarrow> u64" where
  "call_time (packet, len, fho, ts) = ts"

fun call_next :: "(nat \<Rightarrow> bool) \<Rightarrow> reasm_ip \<Rightarrow> reasm_call \<Rightarrow> byte list \<Rightarrow> u32 \<Rightarrow> (bool \<times> byte list \<times> u32 \<times> reasm_ip) run" where
  "call_next ok r (packet, len, fho, ts) out out_len = reasm_ip_next ok r packet len fho ts out out_len"

text \<open>Calls one after the other, each with a fresh copy of the buffer; the results in order.\<close>

fun reasm_calls :: "(nat \<Rightarrow> bool) \<Rightarrow> reasm_ip \<Rightarrow> reasm_call list \<Rightarrow> byte list \<Rightarrow> u32 \<Rightarrow>
    ((bool \<times> byte list \<times> u32) list \<times> reasm_ip) run" where
  "reasm_calls ok r [] out out_len = Ret ([], r)"
| "reasm_calls ok r (c # cs) out out_len =
     run_bind (call_next ok r c out out_len) (\<lambda>(b, out', n, r').
     run_bind (reasm_calls ok r' cs out out_len) (\<lambda>(rs, r''). Ret ((b, out', n) # rs, r'')))"

text \<open>A call that \<^verbatim>\<open>reasm_ip_next\<close> can take: a fragment in shape, or a packet that is none.\<close>

definition call_sane :: "(nat \<Rightarrow> bool) \<Rightarrow> reasm_call \<Rightarrow> bool" where
  "call_sane ok c \<longleftrightarrow> (case call_parse ok c of
     Ret None \<Rightarrow> True
   | Ret (Some (f, proto, d, h, final)) \<Rightarrow> proto = id_proto d \<and> h = id_hash d \<and> frag_sane proto f final
   | _ \<Rightarrow> False)"

text \<open>The fragment of the packet \<open>d\<close> that a call brings, with its mark of the last one.\<close>

definition call_frag :: "(nat \<Rightarrow> bool) \<Rightarrow> reasm_id \<Rightarrow> reasm_call \<Rightarrow> (reasm_frag_entry \<times> bool) option" where
  "call_frag ok d c = (case call_parse ok c of
     Ret (Some (f, proto, d', h, final)) \<Rightarrow> if d' = d then Some (f, final) else None
   | _ \<Rightarrow> None)"

lemma call_next_none:
  assumes wf: "reasm_wf r" and c: "call_parse ok c = Ret None"
  shows "\<exists>r'. call_next ok r c out out_len = Ret (False, out, 0, r') \<and> reasm_wf r' \<and> r_timeout r' = r_timeout r \<and>
    others_kept r d (call_time c) r' \<and> (\<forall>d e. holds r' d e \<longrightarrow> holds r d e) \<and>
    (\<forall>d e. holds r d e \<longrightarrow> call_time c \<le> e_timeout e \<longrightarrow> holds r' d e)"
proof -
  obtain packet len fho ts where cc: "c = (packet, len, fho, ts)" by (cases c)
  from process_timeouts_ok [OF wf, of ts] obtain r' where r': "process_timeouts r ts = Ret r'" "reasm_wf r'"
    "r_timeout r' = r_timeout r" "\<forall>a e. r_entries r' a = Some e \<longrightarrow> r_entries r a = Some e"
    "\<forall>a e. r_entries r a = Some e \<longrightarrow> ts \<le> e_timeout e \<longrightarrow> r_entries r' a = Some e" by blast
  have "call_next ok r c out out_len = Ret (False, out, 0, r')"
    using c r'(1) by (simp add: cc reasm_ip_next_def)
  moreover have "(\<forall>d e. holds r' d e \<longrightarrow> holds r d e) \<and>
    (\<forall>d e. holds r d e \<longrightarrow> ts \<le> e_timeout e \<longrightarrow> holds r' d e)"
    using r'(4,5) unfolding holds_def by blast
  ultimately show ?thesis using r'(2,3) by (auto simp: cc others_kept_def)
qed

lemma call_next_frag:
  assumes wf: "reasm_wf r" and ok: "\<forall>i. ok i"
    and c: "call_sane ok c" "call_parse ok c = Ret (Some (f, proto, d, h, final))" and out: "length out = unat out_len"
  shows "\<exists>e out' n r'. entry_for r d (call_time c) e \<and>
    call_next ok r c out out_len = Ret (True, out', n, r') \<and> reasm_wf r' \<and>
    r_timeout r' = r_timeout r \<and> length out' = length out \<and> others_kept r d (call_time c) r' \<and>
    next_answer e f final out out' n r'"
proof -
  obtain packet len fho ts where cc: "c = (packet, len, fho, ts)" by (cases c)
  have p: "parse_packet ok packet len fho = Ret (Some (f, id_proto d, d, id_hash d, final))"
    and f: "frag_sane (id_proto d) f final" using c by (auto simp: cc call_sane_def)
  from reasm_ip_next_step [OF wf ok p f out, of ts] show ?thesis unfolding cc by simp
qed

text \<open>A sane call never faults, and keeps the invariant.\<close>

lemma call_next_wf:
  assumes "reasm_wf r" and "\<forall>i. ok i" and "call_sane ok c" and "length out = unat out_len"
  shows "\<exists>b out' n r'. call_next ok r c out out_len = Ret (b, out', n, r') \<and> reasm_wf r' \<and>
    r_timeout r' = r_timeout r \<and> length out' = length out"
proof -
  from assms(3) consider "call_parse ok c = Ret None"
    | f proto d h final where "call_parse ok c = Ret (Some (f, proto, d, h, final))"
    by (auto simp: call_sane_def split: run.splits option.splits)
  then show ?thesis
  proof cases
    case 1
    from call_next_none [OF assms(1) this] show ?thesis by blast
  next
    case (2 f proto d h final)
    from call_next_frag [OF assms(1-3) this assms(4)] show ?thesis by blast
  qed
qed

section \<open>The packet is pending\<close>

text \<open>\<open>lim\<close> is a time that no call exceeds.\<close>

definition pending :: "reasm_ip \<Rightarrow> reasm_id \<Rightarrow> reasm_frag_entry list \<Rightarrow> reasm_frag_entry set \<Rightarrow> u64 \<Rightarrow> bool" where
  "pending r d fs S lim \<longleftrightarrow>
     (if S = {} then \<forall>e. \<not> holds r d e else \<exists>e. holds r d e \<and> has_frags fs S e \<and> lim \<le> e_timeout e)"

lemma pending_other:
  assumes wf: "reasm_wf r" and ok: "\<forall>i. ok i" and c: "call_sane ok c" "call_frag ok d c = None"
    and out: "length out = unat out_len" and p: "pending r d fs S lim" and t: "call_time c \<le> lim"
  shows "\<exists>b out' n r'. call_next ok r c out out_len = Ret (b, out', n, r') \<and> reasm_wf r' \<and>
    r_timeout r' = r_timeout r \<and> pending r' d fs S lim"
proof -
  from c consider (none) "call_parse ok c = Ret None"
    | (frag) f proto d' h final where "call_parse ok c = Ret (Some (f, proto, d', h, final))" "d' \<noteq> d"
    by (auto simp: call_sane_def call_frag_def split: run.splits option.splits if_splits)
  then obtain b out' n r' where r': "call_next ok r c out out_len = Ret (b, out', n, r')" "reasm_wf r'"
    "r_timeout r' = r_timeout r" "\<forall>e. holds r' d e \<longrightarrow> holds r d e"
    "\<forall>e. holds r d e \<longrightarrow> call_time c \<le> e_timeout e \<longrightarrow> holds r' d e"
  proof cases
    case none
    from call_next_none [OF wf this, of out out_len d] obtain r' where
      "call_next ok r c out out_len = Ret (False, out, 0, r')" "reasm_wf r'" "r_timeout r' = r_timeout r"
      "\<forall>d e. holds r' d e \<longrightarrow> holds r d e" "\<forall>d e. holds r d e \<longrightarrow> call_time c \<le> e_timeout e \<longrightarrow> holds r' d e"
      by blast
    then show ?thesis by (intro that [of False out 0 r']) blast+
  next
    case (frag f proto d' h final)
    from call_next_frag [OF wf ok c(1) frag(1) out] obtain out' n r' where
      "call_next ok r c out out_len = Ret (True, out', n, r')" "reasm_wf r'" "r_timeout r' = r_timeout r"
      and k: "others_kept r d' (call_time c) r'" by blast
    moreover have "(holds r d e \<longrightarrow> call_time c \<le> e_timeout e \<longrightarrow> holds r' d e) \<and> (holds r' d e \<longrightarrow> holds r d e)" for e
      using k frag(2) unfolding others_kept_def by metis
    ultimately show ?thesis by (intro that [of True out' n r']) blast+
  qed
  have "pending r' d fs S lim"
  proof (cases "S = {}")
    case True
    with p r'(4) show ?thesis by (auto simp: pending_def)
  next
    case False
    with p obtain e where e: "holds r d e" "has_frags fs S e" "lim \<le> e_timeout e" by (auto simp: pending_def)
    have "holds r' d e" using r'(5) e t by fastforce
    with e False show ?thesis by (auto simp: pending_def)
  qed
  with r'(1-3) show ?thesis by blast
qed

lemma pending_entry:
  assumes p: "pending r d fs S lim" and fs: "whole fs" and e: "entry_for r d ts e"
    and t: "ts \<le> lim" "lim \<le> ts + r_timeout r"
  shows "has_frags fs S e \<and> lim \<le> e_timeout e"
proof (cases "S = {}")
  case True
  with p e fs t show ?thesis by (auto simp: pending_def entry_for_def has_frags_def)
next
  case False
  with p obtain e' where e': "holds r d e'" "has_frags fs S e'" "lim \<le> e_timeout e'" by (auto simp: pending_def)
  then have "e = e'" using e t(1) unfolding entry_for_def by fastforce
  with e' show ?thesis by simp
qed

lemma pending_step:
  assumes wf: "reasm_wf r" and ok: "\<forall>i. ok i" and c: "call_sane ok c" "call_frag ok d c = Some (f, f = last fs)"
    and out: "length out = unat out_len" and p: "pending r d fs S lim"
    and t: "call_time c \<le> lim" "lim \<le> call_time c + r_timeout r"
    and fs: "whole fs" and f: "f \<in> set fs" "f \<notin> S" and S: "S \<subseteq> set fs"
  shows "\<exists>out' n r'. call_next ok r c out out_len = Ret (True, out', n, r') \<and> reasm_wf r' \<and>
    r_timeout r' = r_timeout r \<and>
    (if insert f S = set fs then (\<forall>e. \<not> holds r' d e) \<and>
       (let pkt = packet_of (id_proto d) fs in length pkt \<le> length out \<longrightarrow>
          out' = pkt @ drop (length pkt) out \<and> n = of_nat (length pkt))
     else n = 0 \<and> out' = out \<and> pending r' d fs (insert f S) lim)"
proof -
  from c(2) obtain proto h where cp: "call_parse ok c = Ret (Some (f, proto, d, h, f = last fs))"
    by (auto simp: call_frag_def split: run.splits option.splits if_splits)
  from call_next_frag [OF wf ok c(1) cp out] obtain e out' n r' where r': "entry_for r d (call_time c) e"
    "call_next ok r c out out_len = Ret (True, out', n, r')" "reasm_wf r'" "r_timeout r' = r_timeout r"
    "next_answer e f (f = last fs) out out' n r'" by blast
  note pe = pending_entry [OF p fs r'(1) t]
  from add_arrived [OF fs conjunct1 [OF pe] f S] obtain e' where
    e': "add_fragment e f (f = last fs) = (True, e')" "has_frags fs (insert f S) e'" by blast
  have ew: "entry_wf e" "e_id e = d" "e_protocol e = id_proto d" using r'(1) by (simp_all add: entry_for_def)
  have act: "e_state e = STATE_ACTIVE" using pe by (simp add: has_frags_def)
  have fsane: "frag_sane (e_protocol e) f (f = last fs)" using c(1) cp ew(3) by (auto simp: call_sane_def)
  have ok': "entry_ok e'" by (rule entry_wf_step(1) [OF ew(1) act fsane e'(1)])
  have full: "is_complete e' \<longleftrightarrow> insert f S = set fs"
    by (rule has_frags_complete [OF fs e'(2) ok']) (use f S in blast)
  have to: "e_timeout e' = e_timeout e" using add_fragment_frame [OF e'(1)] by simp
  have ans: "if is_complete e' then (\<forall>e0. \<not> holds r' d e0) \<and>
       (let pkt = packet_of (id_proto d) (e_frags e') in length pkt \<le> length out \<longrightarrow>
          out' = pkt @ drop (length pkt) out \<and> n = of_nat (length pkt))
     else n = 0 \<and> out' = out \<and> holds r' d e'"
    using r'(5) act e'(1) unfolding next_answer_def ew(2,3) by blast
  have "e_frags e' = fs" if "insert f S = set fs" using e'(2) that by (simp add: has_frags_def)
  moreover have "pending r' d fs (insert f S) lim" if "holds r' d e'"
    using that e'(2) to pe by (auto simp: pending_def)
  ultimately show ?thesis using r'(2-4) ans full by (intro exI [of _ out'] exI [of _ n] exI [of _ r']) (simp split: if_splits)
qed

text \<open>What the calls before the last one answer.\<close>

definition no_output :: "(nat \<Rightarrow> bool) \<Rightarrow> reasm_id \<Rightarrow> byte list \<Rightarrow> reasm_call \<Rightarrow> bool \<times> byte list \<times> u32 \<Rightarrow> bool" where
  "no_output ok d out c ans \<longleftrightarrow> call_frag ok d c \<noteq> None \<longrightarrow> ans = (True, out, 0)"

lemma no_output_None: "call_frag ok d c = None \<Longrightarrow> no_output ok d out c ans"
  and no_output_empty: "no_output ok d out c (True, out, 0)"
  by (simp_all add: no_output_def)

definition calls_in_time :: "u64 \<Rightarrow> u64 \<Rightarrow> reasm_call list \<Rightarrow> bool" where
  "calls_in_time timeout lim cs \<longleftrightarrow> (\<forall>c \<in> set cs. call_time c \<le> lim \<and> lim \<le> call_time c + timeout)"

lemma pending_calls:
  assumes "reasm_wf r" and ok: "\<forall>i. ok i" and "\<forall>c \<in> set cs. call_sane ok c" and out: "length out = unat out_len"
    and "pending r d fs S lim" and "calls_in_time (r_timeout r) lim cs" and fs: "whole fs" and "S \<subseteq> set fs"
    and "List.map_filter (call_frag ok d) cs = map (\<lambda>f. (f, f = last fs)) gs" and "distinct gs"
    and "set gs \<inter> S = {}" and "set gs \<subseteq> set fs" and "S \<union> set gs \<noteq> set fs"
  shows "\<exists>rs r'. reasm_calls ok r cs out out_len = Ret (rs, r') \<and> reasm_wf r' \<and> r_timeout r' = r_timeout r \<and>
    pending r' d fs (S \<union> set gs) lim \<and> list_all2 (no_output ok d out) cs rs"
  using assms
proof (induction cs arbitrary: r S gs)
  case (Cons c cs)
  have t: "call_time c \<le> lim" "lim \<le> call_time c + r_timeout r" "calls_in_time (r_timeout r) lim cs"
    using Cons.prems(6) by (auto simp: calls_in_time_def)
  have sane: "call_sane ok c" "\<forall>c \<in> set cs. call_sane ok c" using Cons.prems(3) by auto
  show ?case
  proof (cases "call_frag ok d c")
    case None
    from pending_other [OF Cons.prems(1) ok sane(1) None out Cons.prems(5) t(1)] obtain b out' n r1 where
      r1: "call_next ok r c out out_len = Ret (b, out', n, r1)" "reasm_wf r1" "r_timeout r1 = r_timeout r"
        "pending r1 d fs S lim" by blast
    have "List.map_filter (call_frag ok d) cs = map (\<lambda>f. (f, f = last fs)) gs"
      using Cons.prems(9) None by (simp add: map_filter_simps)
    from Cons.IH [OF r1(2) ok sane(2) out r1(4) _ fs Cons.prems(8) this Cons.prems(10-13)] r1(3) t(3)
    obtain rs r' where "reasm_calls ok r1 cs out out_len = Ret (rs, r')" "reasm_wf r'" "r_timeout r' = r_timeout r"
      "pending r' d fs (S \<union> set gs) lim" "list_all2 (no_output ok d out) cs rs" by auto
    with r1(1) None show ?thesis
      by (intro exI [of _ "(b, out', n) # rs"] exI [of _ r']) (simp add: no_output_None)
  next
    case (Some q)
    then obtain f gs' where g: "q = (f, f = last fs)" "gs = f # gs'"
      "List.map_filter (call_frag ok d) cs = map (\<lambda>f. (f, f = last fs)) gs'"
      using Cons.prems(9) by (cases gs) (auto simp: map_filter_simps)
    have f: "f \<in> set fs" "f \<notin> S" "insert f S \<noteq> set fs" "insert f S \<subseteq> set fs"
      using Cons.prems(8,11-13) g(2) by auto
    from pending_step [OF Cons.prems(1) ok sane(1) _ out Cons.prems(5) t(1,2) fs f(1,2) Cons.prems(8)] Some g(1) f(3)
    obtain r1 where r1: "call_next ok r c out out_len = Ret (True, out, 0, r1)" "reasm_wf r1"
      "r_timeout r1 = r_timeout r" "pending r1 d fs (insert f S) lim" by auto
    have rest: "distinct gs'" "set gs' \<inter> insert f S = {}" "set gs' \<subseteq> set fs" "insert f S \<union> set gs' \<noteq> set fs"
      using Cons.prems(10-13) g(2) by auto
    from Cons.IH [OF r1(2) ok sane(2) out r1(4) _ fs f(4) g(3) rest] r1(3) t(3)
    obtain rs r' where "reasm_calls ok r1 cs out out_len = Ret (rs, r')" "reasm_wf r'" "r_timeout r' = r_timeout r"
      "pending r' d fs (insert f S \<union> set gs') lim" "list_all2 (no_output ok d out) cs rs" by auto
    moreover have "insert f S \<union> set gs' = S \<union> set gs" using g(2) by auto
    ultimately show ?thesis using r1(1)
      by (intro exI [of _ "(True, out, 0) # rs"] exI [of _ r']) (simp add: no_output_empty)
  qed
qed (simp add: map_filter_simps)

lemma reasm_calls_append:
  "reasm_calls ok r (cs @ ds) out out_len =
     run_bind (reasm_calls ok r cs out out_len) (\<lambda>(rs, r').
     run_bind (reasm_calls ok r' ds out out_len) (\<lambda>(rs', r''). Ret (rs @ rs', r'')))"
proof (induction cs arbitrary: r)
  case Nil
  show ?case by (cases "reasm_calls ok r ds out out_len") auto
next
  case (Cons c cs)
  then show ?case by (simp add: run_bind_assoc split_def)
qed

lemma concat_pieces:
  "chained p fs \<Longrightarrow> gaps p fs = 0 \<Longrightarrow> \<forall>f \<in> set fs. piece_of P f \<Longrightarrow>
     concat (map frag_content fs) = take (chain_end p fs - p) (drop p P)"
proof (induction fs arbitrary: p)
  case (Cons f fs)
  then have f: "foff f = p" "chained (fend f) fs" "gaps (fend f) fs = 0" "piece_of P f"
    by (auto split: if_splits)
  then have ih: "concat (map frag_content fs) = take (chain_end (fend f) fs - fend f) (drop (fend f) P)"
    using Cons by simp
  have "chain_end (fend f) fs - p = flen f + (chain_end (fend f) fs - fend f)"
    using chained_bounds [OF f(2)] f(1) by simp
  moreover have "drop (fend f) P = drop (flen f) (drop p P)" using f(1) by (simp add: add.commute)
  moreover have "frag_content f = take (flen f) (drop p P)" using f(1,4) by (simp add: piece_of_def)
  ultimately show ?case by (simp add: ih take_add del: drop_drop)
qed simp

text \<open>
  C5. Reassembly in any order. However the fragments \<open>fs\<close> of a payload \<open>P\<close> are ordered in a
  sequence of calls of \<^verbatim>\<open>reasm_ip_next\<close>, and whatever calls for other packets come between, the
  calls before the last fragment produce no output, and the call with the last one produces the
  header of the first fragment, corrected, with exactly \<open>P\<close> after it, and forgets the packet. No
  other fragment of the packet may be pending before, and all calls come within the timeout.
\<close>

theorem reasm_any_order:
  assumes wf: "reasm_wf r" and ok: "\<forall>i. ok i" and new: "\<forall>e. \<not> holds r d e"
    and sane: "\<forall>c' \<in> set (cs @ [c]). call_sane ok c'" and time: "calls_in_time (r_timeout r) lim (cs @ [c])"
    and fs: "whole fs" "\<forall>f \<in> set fs. piece_of P f" "chain_end 0 fs = length P"
    and order: "List.map_filter (call_frag ok d) (cs @ [c]) = map (\<lambda>f. (f, f = last fs)) gs" "mset gs = mset fs"
      "call_frag ok d c \<noteq> None"
    and hdr: "hdr = packet_header (id_proto d) (hd fs)"
      "pkt = fixed_header (id_proto d) hdr (of_nat (length hdr + length P)) @ P"
    and out: "length out = unat out_len" "length pkt \<le> length out"
  shows "\<exists>rs r'. reasm_calls ok r (cs @ [c]) out out_len =
      Ret (rs @ [(True, pkt @ drop (length pkt) out, of_nat (length pkt))], r') \<and>
    list_all2 (no_output ok d out) cs rs \<and> reasm_wf r' \<and> (\<forall>e. \<not> holds r' d e)"
proof -
  have mf: "List.map_filter g (as @ bs) = List.map_filter g as @ List.map_filter g bs" for g :: "reasm_call \<Rightarrow> (reasm_frag_entry \<times> bool) option" and as bs
    by (simp add: map_filter_def)
  from order(1,3) obtain gs' f where g: "gs = gs' @ [f]" "call_frag ok d c = Some (f, f = last fs)"
    "List.map_filter (call_frag ok d) cs = map (\<lambda>f. (f, f = last fs)) gs'"
    by (auto simp: mf map_filter_simps append_eq_map_conv map_eq_append_conv)
  have ch: "chained 0 fs" "gaps 0 fs = 0" using fs(1) by (simp_all add: whole_def)
  have dg: "distinct gs" using chained_distinct [OF ch(1)] order(2) mset_eq_setD [OF order(2)] by (simp add: distinct_count_atmost_1)
  have sg: "set gs = set fs" using order(2) by (metis mset_eq_setD)
  have gs': "distinct gs'" "set gs' \<inter> {} = {}" "set gs' \<subseteq> set fs" "{} \<union> set gs' \<noteq> set fs" "f \<in> set fs" "f \<notin> set gs'"
    "insert f (set gs') = set fs"
    using dg sg g(1) by auto
  have sc: "\<forall>c' \<in> set cs. call_sane ok c'" "call_sane ok c" using sane by simp_all
  have t: "calls_in_time (r_timeout r) lim cs" "call_time c \<le> lim" "lim \<le> call_time c + r_timeout r"
    using time by (simp_all add: calls_in_time_def)
  have "pending r d fs {} lim" using new by (simp add: pending_def)
  from pending_calls [OF wf ok sc(1) out(1) this t(1) fs(1) _ g(3) gs'(1-4)] obtain rs r1 where
    r1: "reasm_calls ok r cs out out_len = Ret (rs, r1)" "reasm_wf r1" "r_timeout r1 = r_timeout r"
      "pending r1 d fs (set gs') lim" "list_all2 (no_output ok d out) cs rs" by auto
  have "pkt = packet_of (id_proto d) fs"
    using concat_pieces [OF ch fs(2)] fs(3) by (simp add: packet_of_def hdr Let_def)
  then obtain r' where r': "call_next ok r1 c out out_len =
      Ret (True, pkt @ drop (length pkt) out, of_nat (length pkt), r')" "reasm_wf r'" "\<forall>e. \<not> holds r' d e"
    using pending_step [OF r1(2) ok sc(2) g(2) out(1) r1(4) t(2) _ fs(1) gs'(5,6,3)] t(3) r1(3) gs'(7) out(2)
    by (auto simp: Let_def)
  then show ?thesis using r1(1,5) by (intro exI [of _ rs] exI [of _ r']) (simp add: reasm_calls_append)
qed

end
