(* ===== verification/Ipreasm_Parse.thy ===== *)
theory Ipreasm_Parse
  imports Ipreasm_Order
begin

text \<open>
  \<^verbatim>\<open>parse_packet\<close> of ipreasm.c stays within the packet and yields fragments that the rest of the file
  can work with; what \<^verbatim>\<open>reasm_ip_next\<close> does on real packets; a packet on which it faults.
\<close>

section \<open>Reading headers\<close>

lemma load_net16_ok: "n + 2 \<le> length bs \<Longrightarrow> \<exists>w. load_net16 (drop n bs) = Ret w"
  by (cases "drop n bs" rule: load_net16.cases) (auto dest: arg_cong [where f = length])

lemma load_net32_ok: "n + 4 \<le> length bs \<Longrightarrow> \<exists>w. load_net32 (drop n bs) = Ret w"
  by (cases "drop n bs" rule: load_net32.cases) (auto dest: arg_cong [where f = length])

lemma mem_byte_ok: "i < length m \<Longrightarrow> mem_byte m i = Ret (m ! i)"
  by (simp add: mem_byte_def)

text \<open>What a caller has to check of a packet before it may pass it on.\<close>

definition packet_shape :: "byte list \<Rightarrow> u32 \<Rightarrow> nat \<Rightarrow> bool" where
  "packet_shape packet len frag_hdr_offset \<longleftrightarrow> unat len = length packet \<and> 20 \<le> length packet \<and>
     (drop_bit 4 (packet ! 0) = 4 \<longrightarrow> 20 \<le> 4 * unat (packet ! 0 AND 0xF) \<and>
        (\<forall>w. load_net16 (drop 2 packet) = Ret w \<longrightarrow> 4 * unat (packet ! 0 AND 0xF) \<le> unat w)) \<and>
     (drop_bit 4 (packet ! 0) = 6 \<longrightarrow> 40 \<le> length packet \<and> (frag_hdr_offset = 0 \<or> 40 \<le> frag_hdr_offset))"

lemma skip_exthdrs_ok:
  assumes "40 \<le> offset" and "total_len \<le> length packet" and "last_nxt < offset" and "6 \<le> last_nxt"
  shows "\<exists>r. skip_exthdrs packet total_len nxt offset last_nxt = Ret r \<and>
    (\<forall>o' l'. r = Some (o', l') \<longrightarrow> 40 \<le> o' \<and> l' < o')"
  using assms
proof (induction packet total_len nxt offset last_nxt rule: skip_exthdrs.induct)
  case (1 packet total_len nxt offset last_nxt)
  show ?case
  proof (cases "(nxt = IPPROTO_HOPOPTS \<or> nxt = IPPROTO_ROUTING \<or> nxt = IPPROTO_DSTOPTS) \<and> offset + 2 \<le> total_len")
    case False
    with 1 show ?thesis by (subst skip_exthdrs.simps) auto
  next
    case True
    then have h: "nxt = IPPROTO_HOPOPTS \<or> nxt = IPPROTO_ROUTING \<or> nxt = IPPROTO_DSTOPTS" "\<not> offset + 2 > total_len"
      by auto
    then have b: "mem_byte packet (offset + 1) = Ret (packet ! (offset + 1))" "mem_byte packet offset = Ret (packet ! offset)"
      using "1.prems" by (simp_all add: mem_byte_ok)
    let ?l = "8 + 8 * unat (packet ! (offset + 1))"
    show ?thesis
    proof (cases "offset + ?l > total_len")
      case True
      with h b show ?thesis by (subst skip_exthdrs.simps) (simp add: Let_def)
    next
      case False
      have "\<exists>r. skip_exthdrs packet total_len (packet ! offset) (offset + ?l) offset = Ret r \<and>
          (\<forall>o' l'. r = Some (o', l') \<longrightarrow> 40 \<le> o' \<and> l' < o')"
        by (rule "1.IH" [OF h b(1) refl _ b(2)]) (use False "1.prems" in auto)
      with h b False show ?thesis by (subst skip_exthdrs.simps) (simp add: Let_def)
    qed
  qed
qed

lemma unat_load_net16: "unat (w :: u16) < 65536"
  using unsigned_less [where 'a = nat, of w] by simp

lemma unat_ucast_u16: "unat (ucast w :: u32) = unat w" for w :: u16
  using unat_load_net16 [of w] by (simp add: unsigned_ucast_eq take_bit_eq_mod)

lemma ipv6_frag_shape:
  assumes "flen f = n - m" and "foff f < 65536" and "unat (fr_data_offset f) = m" and "length (fr_data f) = n"
    and "48 \<le> m" and "m \<le> n" and "n < 2 ^ 20"
  shows "fits_packet f \<and> frag_stored f \<and> header_room PROTO_IPV6 f"
  using assms by (simp add: fits_packet_def frag_stored_def header_room_def)

lemma frag_from_ipv6_ok:
  assumes ok: "\<forall>i. ok i" and p: "40 \<le> length packet" "load_net16 (drop 4 packet) = Ret plen" "40 + unat plen \<le> length packet"
    and fho: "frag_hdr_offset = 0 \<or> 40 \<le> frag_hdr_offset"
  shows "\<exists>r. frag_from_ipv6 ok packet frag_hdr_offset = Ret r \<and>
    (\<forall>f i final. r = Some (f, i, final) \<longrightarrow> fits_packet f \<and> frag_stored f \<and> header_room PROTO_IPV6 f)"
proof -
  let ?n = "40 + unat plen"
  have "\<exists>r. (if frag_hdr_offset \<noteq> 0 then Ret (Some (frag_hdr_offset, 6)) else skip_exthdrs packet ?n (packet ! 6) 40 6) = Ret r \<and>
    (\<forall>o' l'. r = Some (o', l') \<longrightarrow> 40 \<le> o' \<and> l' < o')"
    using fho skip_exthdrs_ok [of 40 ?n packet 6 "packet ! 6"] p(3) by auto
  then obtain r where r: "(if frag_hdr_offset \<noteq> 0 then Ret (Some (frag_hdr_offset, 6))
      else skip_exthdrs packet ?n (packet ! 6) 40 6) = Ret r" "\<And>o' l'. r = Some (o', l') \<Longrightarrow> 40 \<le> o' \<and> l' < o'"
    by blast
  have b6: "mem_byte packet 6 = Ret (packet ! 6)" using p(1) by (simp add: mem_byte_ok)
  show ?thesis
  proof (cases "\<exists>o' l'. r = Some (o', l') \<and> o' + 8 \<le> ?n")
    case False
    with r(1) b6 p(2) show ?thesis by (cases r) (auto simp: frag_from_ipv6_def Let_def)
  next
    case True
    then obtain o' l' where ol: "r = Some (o', l')" "o' + 8 \<le> ?n" by blast
    note b = r(2) [OF ol(1)]
    have "\<exists>w. load_net16 (drop (o' + 2) packet) = Ret w" by (rule load_net16_ok) (use ol(2) p(3) in simp)
    moreover have "\<exists>i. load_net32 (drop (o' + 4) packet) = Ret i" by (rule load_net32_ok) (use ol(2) p(3) in simp)
    ultimately obtain w i where
      w: "load_net16 (drop (o' + 2) packet) = Ret w" "load_net32 (drop (o' + 4) packet) = Ret i" by blast
    define fd where "fd = take l' (take ?n packet) @ [packet ! o'] @ drop (l' + 1) (take ?n packet)"
    have fd: "mem_store (take ?n packet) l' [packet ! o'] = Ret fd" "length fd = ?n"
      using b ol(2) p(3) by (simp_all add: mem_store_def fd_def)
    let ?f = "\<lparr>fr_len = of_nat ?n - of_nat (o' + 8), fr_offset = ucast (w AND IP6F_OFF_MASK),
      fr_data_offset = of_nat (o' + 8), fr_data = fd\<rparr>"
    have "frag_from_ipv6 ok packet frag_hdr_offset = Ret (Some (?f, i, w AND IP6F_MORE_FRAG = 0))"
      using r(1) b6 p(2,3) ol ok w fd(1) b
      by (simp add: frag_from_ipv6_def Let_def mem_read_def mem_byte_ok)
    moreover have u: "unat (of_nat (o' + 8) :: u32) = o' + 8" "unat (of_nat ?n :: u32) = ?n"
      by (rule unat_of_nat_u32, use ol(2) unat_load_net16 [of plen] in simp)+
    then have le: "(of_nat (o' + 8) :: u32) \<le> of_nat ?n" using ol(2) by (simp only: word_le_nat_alt)
    have "flen ?f = ?n - (o' + 8)" by (simp only: reasm_frag_entry.select_convs unat_sub [OF le] u)
    moreover have "foff ?f < 65536"
      using unat_load_net16 [of "w AND IP6F_OFF_MASK"] by (simp add: unat_ucast_u16)
    moreover have "unat (fr_data_offset ?f) = o' + 8" "length (fr_data ?f) = ?n" using u(1) fd(2) by simp_all
    moreover have "48 \<le> o' + 8" "?n < 2 ^ 20" using b unat_load_net16 [of plen] by simp_all
    ultimately have "fits_packet ?f \<and> frag_stored ?f \<and> header_room PROTO_IPV6 ?f"
      by (intro ipv6_frag_shape [OF _ _ _ _ _ ol(2)]) assumption+
    with \<open>frag_from_ipv6 ok packet frag_hdr_offset = _\<close> show ?thesis by simp
  qed
qed

lemma frag_from_ipv4_ok:
  assumes ok: "\<forall>i. ok i" and p: "20 \<le> length packet" "unat len = length packet"
    and hl: "20 \<le> 4 * unat (packet ! 0 AND 0xF)"
      "\<And>w. load_net16 (drop 2 packet) = Ret w \<Longrightarrow> 4 * unat (packet ! 0 AND 0xF) \<le> unat w"
  shows "\<exists>r. frag_from_ipv4 ok packet len = Ret r \<and>
    (\<forall>f d final. r = Some (f, d, final) \<longrightarrow> fits_packet f \<and> frag_stored f \<and> header_room PROTO_IPV4 f)"
proof -
  have "\<exists>w. load_net16 (drop k packet) = Ret w" if "k \<le> 6" for k by (rule load_net16_ok) (use that p(1) in simp)
  from this [of 6] this [of 2] this [of 4] obtain w n i where l: "load_net16 (drop 6 packet) = Ret w"
    "load_net16 (drop 2 packet) = Ret n" "load_net16 (drop 4 packet) = Ret i" by auto
  let ?h = "unat (packet ! 0 AND 0xF)"
  have h: "?h < 16"
  proof -
    have "(packet ! 0 AND 0xF) = take_bit 4 (packet ! 0)" by (simp add: take_bit_eq_mask mask_numeral)
    then show ?thesis by (simp add: take_bit_eq_mod unat_mod)
  qed
  show ?thesis
  proof (cases "len \<ge> ucast n \<and> w AND (IP_MF OR IP_OFFMASK) \<noteq> 0")
    case False
    with l show ?thesis by (auto simp: frag_from_ipv4_def)
  next
    case True
    then have "unat n \<le> length packet"
      using p(2) by (simp add: word_le_nat_alt unat_ucast_u16)
    let ?pl = "ucast (packet ! 0 AND 0xF) * 4 :: u32"
    have hl4: "unat ?pl = 4 * ?h"
    proof -
      have "unat (ucast (packet ! 0 AND 0xF) :: u32) = ?h" using h by (simp add: unsigned_ucast_eq take_bit_eq_mod)
      then show ?thesis using h by (simp add: unat_word_ariths)
    qed
    let ?f = "\<lparr>fr_len = ucast n - ?pl, fr_offset = ucast (w AND IP_OFFMASK) * 8, fr_data_offset = ?pl,
      fr_data = take (unat n) packet\<rparr>"
    have "mem_byte packet 0 = Ret (packet ! 0)" by (rule mem_byte_ok) (use p(1) in linarith)
    then have r: "\<exists>d. frag_from_ipv4 ok packet len = Ret (Some (?f, d, w AND IP_MF = 0))"
      using l True ok p(1) \<open>unat n \<le> length packet\<close>
      by (simp add: frag_from_ipv4_def mem_read_def mem_byte_ok Let_def)
    note un = unat_ucast_u16 [of n]
    have fl: "flen ?f = unat n - 4 * ?h"
      using hl(2) [OF l(2)] un hl4 by (simp add: unat_sub word_le_nat_alt)
    have "unat (w AND IP_OFFMASK) < 65536" by (rule unat_load_net16)
    then have "foff ?f < 2 ^ 20" by (simp add: unat_word_ariths unat_ucast_u16)
    moreover have "hd packet = packet ! 0" by (rule hd_conv_nth) (use p(1) in auto)
    ultimately have "fits_packet ?f" "frag_stored ?f" "header_room PROTO_IPV4 ?f"
      using fl hl4 hl(1) hl(2) [OF l(2)] unat_load_net16 [of n] p(1) h \<open>unat n \<le> length packet\<close>
      by (auto simp: fits_packet_def frag_stored_def header_room_def)
    with r show ?thesis by auto
  qed
qed

lemma parse_packet_ok:
  assumes ok: "\<forall>i. ok i" and p: "packet_shape packet len fho"
  shows "\<exists>r. parse_packet ok packet len fho = Ret r \<and> (\<forall>f proto d h final. r = Some (f, proto, d, h, final) \<longrightarrow>
    proto = id_proto d \<and> h = id_hash d \<and> fits_packet f \<and> frag_stored f \<and> header_room proto f)"
proof -
  have len: "20 \<le> length packet" "unat len = length packet" using p by (simp_all add: packet_shape_def)
  have b0: "mem_byte packet 0 = Ret (packet ! 0)" by (rule mem_byte_ok) (use len in linarith)
  consider (v4) "drop_bit 4 (packet ! 0) = 4" | (v6) "drop_bit 4 (packet ! 0) = 6"
    | (other) "drop_bit 4 (packet ! 0) \<noteq> 4" "drop_bit 4 (packet ! 0) \<noteq> 6" by blast
  then show ?thesis
  proof cases
    case v4
    from frag_from_ipv4_ok [OF ok len] p v4 obtain r where "frag_from_ipv4 ok packet len = Ret r"
      "\<forall>f d final. r = Some (f, d, final) \<longrightarrow> fits_packet f \<and> frag_stored f \<and> header_room PROTO_IPV4 f"
      unfolding packet_shape_def by blast
    with b0 v4 show ?thesis by (cases r) (auto simp: parse_packet_def)
  next
    case v6
    have l: "40 \<le> length packet" "fho = 0 \<or> 40 \<le> fho" using p v6 by (simp_all add: packet_shape_def)
    have "\<exists>w. load_net16 (drop 4 packet) = Ret w" by (rule load_net16_ok) (use l(1) in simp)
    then obtain w where w: "load_net16 (drop 4 packet) = Ret w" ..
    show ?thesis
    proof (cases "len \<ge> ucast w + 40")
      case False
      with b0 v6 w show ?thesis by (simp add: parse_packet_def)
    next
      case True
      have "unat (ucast w + 40 :: u32) = unat w + 40"
        using unat_load_net16 [of w] by (subst unat_add_u32) (simp_all add: unat_ucast_u16)
      then have "40 + unat w \<le> length packet" using True len(2) by (simp add: word_le_nat_alt)
      from frag_from_ipv6_ok [OF ok l(1) w this l(2)] obtain r where r: "frag_from_ipv6 ok packet fho = Ret r"
        "\<forall>f i final. r = Some (f, i, final) \<longrightarrow> fits_packet f \<and> frag_stored f \<and> header_room PROTO_IPV6 f" by blast
      have "\<exists>a b. mem_read packet 8 16 = Ret a \<and> mem_read packet 24 16 = Ret b" using l(1) by (simp add: mem_read_def)
      with b0 v6 w True r show ?thesis by (cases r) (auto simp: parse_packet_def Let_def)
    qed
  next
    case other
    with b0 show ?thesis by (simp add: parse_packet_def)
  qed
qed

section \<open>Real packets\<close>


text \<open>
  An IPv6 packet with a Fragment header, offset zero, no further fragments and nothing after the
  header completes an entry without fragments, and \<^verbatim>\<open>assemble\<close> takes the first of none.
\<close>

theorem reasm_ip_next_empty_faults:
  assumes wf: "reasm_wf r" and ok: "\<forall>i. ok i" and new: "\<forall>e. \<not> holds r d e"
    and p: "parse_packet ok packet len fho = Ret (Some (f, id_proto d, d, id_hash d, True))"
    and f: "fr_len f = 0" "fr_offset f = 0"
  shows "reasm_ip_next ok r packet len fho ts out out_len = Fault"
proof -
  from process_timeouts_ok [OF wf] obtain r1 where r1: "process_timeouts r ts = Ret r1" "reasm_wf r1"
    "\<forall>a e. r_entries r1 a = Some e \<longrightarrow> r_entries r a = Some e" by blast
  have none: "\<forall>a e. r_entries r1 a = Some e \<longrightarrow> e_id e \<noteq> d" using r1(3) new by (auto simp: holds_def)
  with find_entry_ok [OF r1(2), of d]
  have "find_entry (r_entries r1) (id_proto d) d (r_table r1 (id_slot d)) = Ret None" by auto
  then show ?thesis
    using ok f unfolding reasm_ip_next_def r1(1) p
    by (simp add: id_slot_def new_entry_def add_fragment_def frag_end_def is_complete_def assemble_def Let_def)
qed

text \<open>
  \<^verbatim>\<open>fix_ipv4\<close> leaves a header of the new length, without fragment bits, whose checksum is valid,
  and touches nothing after the header.
\<close>

theorem fix_ipv4_checksum:
  assumes "20 \<le> length hdr" and "length hdr = 4 * unat (hd hdr AND 0xF)"
  shows "\<exists>hdr'. fix_ipv4 (hdr @ rest) len = Ret (hdr' @ rest) \<and> length hdr' = length hdr \<and> checksum_valid hdr' \<and>
    load_net16 (drop 2 hdr') = Ret (ucast len) \<and> load_net16 (drop 6 hdr') = Ret 0 \<and>
    take 2 hdr' = take 2 hdr \<and> take 2 (drop 4 hdr') = take 2 (drop 4 hdr) \<and>
    take 2 (drop 8 hdr') = take 2 (drop 8 hdr) \<and> drop 12 hdr' = drop 12 hdr"
proof -
  have "(hd hdr AND 0xF) = take_bit 4 (hd hdr)" by (simp add: take_bit_eq_mask mask_numeral)
  then have "unat (hd hdr AND 0xF) < 16" by (simp add: take_bit_eq_mod unat_mod)
  then have l: "12 \<le> length hdr" "length hdr \<le> 60" using assms by simp_all
  have f: "load_net16 (drop 2 (ipv4_header hdr len)) = Ret (ucast len)"
    "load_net16 (drop 6 (ipv4_header hdr len)) = Ret 0" "take 2 (ipv4_header hdr len) = take 2 hdr"
    "take 2 (drop 4 (ipv4_header hdr len)) = take 2 (drop 4 hdr)"
    "take 2 (drop 8 (ipv4_header hdr len)) = take 2 (drop 8 hdr)" "drop 12 (ipv4_header hdr len) = drop 12 hdr"
    using l(1) by (simp_all add: ipv4_header_def ipv4_cleared_def min_absorb2)
  show ?thesis
    using fix_ipv4_ok [OF l(1) assms(2)] f length_ipv4_header [OF l(1)] checksum_ipv4_header [OF l]
    by (intro exI [of _ "ipv4_header hdr len"]) simp
qed

end
