(* ===== verification/Ipdg_Props.thy ===== *)
theory Ipdg_Props
  imports Ipdg Ipreasm_Parse
begin

text \<open>
  Properties of the datagram parser: what it finds in packets of the right shape, that it stays within them, and
  what it does with lengths that it does not check.
\<close>

section \<open>Shapes\<close>

text \<open>An IPv4 header that ends within the packet; the packet is all there is from \<open>base\<close> on.\<close>

definition ihl :: "byte list \<Rightarrow> nat \<Rightarrow> nat" where
  "ihl pkt base = 4 * unat (pkt ! base AND 0x0F)"

definition ipdg_shape :: "u32 \<Rightarrow> u64 \<Rightarrow> byte list \<Rightarrow> nat \<Rightarrow> bool" where
  "ipdg_shape etype len pkt base \<longleftrightarrow> length pkt = base + unat len \<and> unat len < 2 ^ 32 \<and>
     (etype = ETHERTYPE_IP \<longrightarrow> 20 \<le> unat len \<and> ihl pkt base \<le> unat len)"

text \<open>The network and the payload of a result lie in the packet.\<close>

definition dg_within :: "byte list \<Rightarrow> nmsg_ipdg \<Rightarrow> bool" where
  "dg_within pkt dg \<longleftrightarrow>
     (\<exists>n t p. dg_network dg = Some (pkt, n) \<and> n + unat (dg_len_network dg) \<le> length pkt \<and>
       dg_transport dg = Some (pkt, t) \<and> t + unat (dg_len_transport dg) \<le> length pkt \<and>
       dg_payload dg = Some (pkt, p) \<and> p + unat (dg_len_payload dg) \<le> length pkt)"

lemma unat_ucast_u32: "unat (ucast x :: u32) = unat x" if "unat x < 2 ^ 32" for x :: u64
  using that by (simp add: unsigned_ucast_eq take_bit_nat_eq_self)

lemma unat_ucast_up: "unat (ucast x :: u64) = unat x" for x :: u32
  by (simp add: unsigned_ucast_eq take_bit_nat_eq_self_iff less_trans [OF unsigned_less])

lemma u64_bound: "unat x < 18446744073709551616" for x :: u64
  using unsigned_less [of x] by simp

lemma unat_sub_of_nat: "n \<le> unat len \<Longrightarrow> unat (len - of_nat n) = unat len - n" for len :: u64
proof -
  assume n: "n \<le> unat len"
  have "unat (of_nat n :: u64) = n"
    using n u64_bound [of len] by (simp add: unsigned_of_nat take_bit_nat_eq_self_iff)
  with n show ?thesis by (simp add: unat_sub word_le_nat_alt)
qed

section \<open>Staying within the packet\<close>

lemma ip6_exthdrs_ok:
  "base + unat len \<le> length pkt \<Longrightarrow> ip6_exthdrs pkt base len nexthdr thusfar payload_len \<noteq> Fault \<and>
    ip6_exthdrs pkt base len nexthdr thusfar payload_len \<noteq> Abort"
proof (induction pkt base len nexthdr thusfar payload_len rule: ip6_exthdrs.induct)
  case (1 pkt base len nexthdr thusfar payload_len)
  then show ?case
    by (subst ip6_exthdrs.simps, subst ip6_exthdrs.simps) (auto simp: mem_byte_def split: if_splits)
qed

lemma ipdg_network_ok:
  assumes "ipdg_shape etype len pkt base"
  shows "\<exists>dg' r. ipdg_network dg etype len pkt base = Ret (dg', r) \<and>
    dg_network dg' = Some (pkt, base) \<and> dg_len_network dg' = ucast len \<and>
    (\<forall>fr fo off len'. r = Some (fr, fo, off, len') \<longrightarrow> unat len' \<le> unat len \<and> off + unat len' = length pkt)"
proof -
  have l: "length pkt = base + unat len" using assms by (simp add: ipdg_shape_def)
  consider (v4) "etype = ETHERTYPE_IP" | (v6) "etype = ETHERTYPE_IPV6" "etype \<noteq> ETHERTYPE_IP"
    | (other) "etype \<noteq> ETHERTYPE_IP" "etype \<noteq> ETHERTYPE_IPV6" by blast
  then show ?thesis
  proof cases
    case v4
    with assms have hl: "20 \<le> unat len" "ihl pkt base \<le> unat len" by (simp_all add: ipdg_shape_def)
    then obtain w where "load_net16 (drop (base + 6) pkt) = Ret w" using load_net16_ok [of "base + 6" pkt] l by auto
    moreover have "mem_byte pkt base = Ret (pkt ! base)" "mem_byte pkt (base + 9) = Ret (pkt ! (base + 9))"
      using hl l by (simp_all add: mem_byte_def)
    ultimately show ?thesis
      using v4 hl l unat_sub_of_nat [OF hl(2)] by (simp add: ipdg_network_def Let_def ihl_def)
  next
    case v6
    show ?thesis
    proof (cases "len < 40")
      case True
      with v6 show ?thesis by (simp add: ipdg_network_def Let_def)
    next
      case False
      then have "40 \<le> unat len" by (simp add: word_less_nat_alt)
      then obtain w where "load_net16 (drop (base + 4) pkt) = Ret w" using load_net16_ok [of "base + 4" pkt] l by auto
      moreover have "mem_byte pkt base = Ret (pkt ! base)" "mem_byte pkt (base + 6) = Ret (pkt ! (base + 6))"
        using \<open>40 \<le> unat len\<close> l by (simp_all add: mem_byte_def)
      moreover obtain r where "ip6_exthdrs pkt base len (pkt ! (base + 6)) 40 w = Ret r"
        using ip6_exthdrs_ok [of base len pkt "pkt ! (base + 6)" 40 w] l
        by (cases "ip6_exthdrs pkt base len (pkt ! (base + 6)) 40 w") auto
      ultimately show ?thesis
        using v6 False l by (cases r) (auto simp: ipdg_network_def Let_def unat_sub_of_nat)
    qed
  next
    case other
    then show ?thesis by (simp add: ipdg_network_def Let_def)
  qed
qed

lemma udp_header_ok:
  assumes "off + unat len = length pkt" and "unat len < 2 ^ 32"
  shows "\<exists>res dg'. udp_header dg pkt off len = Ret (res, dg') \<and> (res = nmsg_res_success \<longrightarrow>
    (\<exists>n p. dg' = dg\<lparr>dg_payload := Some (pkt, p), dg_len_payload := n\<rparr> \<and> p + unat n \<le> length pkt))"
proof (cases "len < 8")
  case True
  then show ?thesis by (simp add: udp_header_def)
next
  case False
  then have l: "8 \<le> unat len" by (simp add: word_less_nat_alt)
  then obtain w where w: "load_net16 (drop (off + 4) pkt) = Ret w"
    using load_net16_ok [of "off + 4" pkt] assms(1) by auto
  define tp :: u32 where "tp = (if w \<ge> 8 then ucast w - 8 else ucast w)"
  define n where "n = (if ucast tp > len - 8 then ucast (len - 8) else tp)"
  have l8: "unat (len - 8) = unat len - 8" using l by (simp add: unat_sub word_le_nat_alt)
  then have "unat (ucast (len - 8) :: u32) = unat len - 8"
    using assms(2) by (simp add: unat_ucast_u32)
  then have "unat n \<le> unat len - 8"
    using l8 by (auto simp: n_def word_less_nat_alt unat_ucast_up)
  then have "off + 8 + unat n \<le> length pkt" using l assms(1) by linarith
  moreover have "udp_header dg pkt off len =
      Ret (nmsg_res_success, dg\<lparr>dg_payload := Some (pkt, off + 8), dg_len_payload := n\<rparr>)"
    using False w by (simp add: udp_header_def Let_def n_def tp_def)
  ultimately show ?thesis by blast
qed

lemma ipdg_transport_ok:
  assumes "off + unat len = length pkt" and "unat len < 2 ^ 32"
    and "dg_network dg = Some (pkt, n)" and "n + unat (dg_len_network dg) \<le> length pkt"
  shows "\<exists>res dg'. ipdg_transport dg pkt off len = Ret (res, dg') \<and>
    (res = nmsg_res_success \<longrightarrow> dg_within pkt dg' \<and> dg_proto_transport dg' = IPPROTO_UDP)"
proof -
  let ?dg = "dg\<lparr>dg_transport := Some (pkt, off), dg_len_transport := ucast len\<rparr>"
  from udp_header_ok [OF assms(1,2), of ?dg] obtain res dg' where
    "udp_header ?dg pkt off len = Ret (res, dg')"
    "res = nmsg_res_success \<longrightarrow> (\<exists>n p. dg' = ?dg\<lparr>dg_payload := Some (pkt, p), dg_len_payload := n\<rparr> \<and> p + unat n \<le> length pkt)"
    by blast
  then show ?thesis
    using assms unat_ucast_u32 [OF assms(2)] by (auto simp: ipdg_transport_def Let_def dg_within_def)
qed

text \<open>
  C26.
  \<^verbatim>\<open>nmsg_ipdg_parse\<close> on a packet whose IPv4 header ends within the packet, and on any IPv6 packet or packet of
  another type, reads nothing outside the packet; when it succeeds, the datagram is UDP and its network, transport
  and payload parts lie within the packet.
\<close>
theorem ipdg_parse_safe:
  assumes "ipdg_shape etype len pkt base"
  shows "\<exists>res dg'. nmsg_ipdg_parse dg etype len pkt base = Ret (res, dg') \<and>
    (res = nmsg_res_success \<longrightarrow> dg_within pkt dg' \<and> dg_proto_transport dg' = IPPROTO_UDP)"
proof -
  from ipdg_network_ok [OF assms] obtain dg1 r where net: "ipdg_network dg etype len pkt base = Ret (dg1, r)"
    "dg_network dg1 = Some (pkt, base)" "dg_len_network dg1 = ucast len"
    "\<forall>fr fo off len'. r = Some (fr, fo, off, len') \<longrightarrow> unat len' \<le> unat len \<and> off + unat len' = length pkt" by blast
  have len: "length pkt = base + unat len" "unat len < 2 ^ 32" using assms by (simp_all add: ipdg_shape_def)
  show ?thesis
  proof (cases r)
    case None
    with net(1) show ?thesis by (simp add: nmsg_ipdg_parse_def)
  next
    case (Some q)
    then obtain fr fo off len' where q: "r = Some (fr, fo, off, len')" by (cases q) auto
    with net(4) have "off + unat len' = length pkt" "unat len' < 2 ^ 32" using len(2) by auto
    moreover have "base + unat (dg_len_network dg1) \<le> length pkt" using net(3) len by (simp add: unat_ucast_u32)
    ultimately show ?thesis
      using ipdg_transport_ok [of off len' pkt dg1 base] net q by (cases fr) (simp_all add: nmsg_ipdg_parse_def)
  qed
qed

section \<open>What a UDP packet carries\<close>

text \<open>The IPv4 header at \<open>base\<close> is not that of a fragment.\<close>

definition unfragmented :: "byte list \<Rightarrow> nat \<Rightarrow> bool" where
  "unfragmented pkt base \<longleftrightarrow> (case load_net16 (drop (base + 6) pkt) of
     Ret w \<Rightarrow> w AND IP_OFFMASK = 0 \<and> w AND IP_MF = 0 | _ \<Rightarrow> False)"

lemma ihl_bound: "ihl pkt base \<le> 60"
proof -
  have "pkt ! base AND 0xF \<le> 0xF" by (rule word_and_le1)
  then have "unat (pkt ! base AND 0xF) \<le> 15" by (simp add: word_le_nat_alt)
  then show ?thesis by (simp add: ihl_def)
qed

lemma ipv4_network:
  assumes "unfragmented pkt base" and "base + 20 \<le> length pkt"
  shows "ipdg_network dg ETHERTYPE_IP len pkt base =
      Ret (dg\<lparr>dg_network := Some (pkt, base), dg_len_network := ucast len, dg_proto_network := PF_INET,
        dg_proto_transport := pkt ! (base + 9)\<rparr>,
      Some (False, 0, base + ihl pkt base, len - of_nat (ihl pkt base)))"
    and "ipdg_network_raw dg ETHERTYPE_IP len pkt base =
      Ret (dg\<lparr>dg_network := Some (pkt, base), dg_len_network := ucast len, dg_proto_network := PF_INET,
        dg_proto_transport := pkt ! (base + 9)\<rparr>,
      Some (False, True, base + ihl pkt base, len - of_nat (ihl pkt base)))"
proof -
  from assms(1) obtain w where w: "load_net16 (drop (base + 6) pkt) = Ret w" "w AND IP_OFFMASK = 0" "w AND IP_MF = 0"
    by (auto simp: unfragmented_def split: run.splits)
  have m: "mem_byte pkt base = Ret (pkt ! base)" "mem_byte pkt (base + 9) = Ret (pkt ! (base + 9))"
    using assms(2) by (simp_all add: mem_byte_def)
  show "ipdg_network dg ETHERTYPE_IP len pkt base =
      Ret (dg\<lparr>dg_network := Some (pkt, base), dg_len_network := ucast len, dg_proto_network := PF_INET,
        dg_proto_transport := pkt ! (base + 9)\<rparr>,
      Some (False, 0, base + ihl pkt base, len - of_nat (ihl pkt base)))"
    using w m by (simp add: ipdg_network_def Let_def ihl_def)
  show "ipdg_network_raw dg ETHERTYPE_IP len pkt base =
      Ret (dg\<lparr>dg_network := Some (pkt, base), dg_len_network := ucast len, dg_proto_network := PF_INET,
        dg_proto_transport := pkt ! (base + 9)\<rparr>,
      Some (False, True, base + ihl pkt base, len - of_nat (ihl pkt base)))"
    using w m by (simp add: ipdg_network_raw_def Let_def ihl_def)
qed

text \<open>The octets that a result names as the payload.\<close>

definition dg_octets :: "nmsg_ipdg \<Rightarrow> byte list" where
  "dg_octets dg = (case dg_payload dg of
     Some (pkt, p) \<Rightarrow> take (unat (dg_len_payload dg)) (drop p pkt) | None \<Rightarrow> [])"

text \<open>A UDP header: ports, length and checksum.\<close>

definition udp_hdr :: "byte list \<Rightarrow> nat \<Rightarrow> byte list \<Rightarrow> byte list" where
  "udp_hdr ports n cksum = take 4 ports @ store_net16 (of_nat (8 + n)) @ take 2 cksum"

lemma unat_of_nat_u16: "n < 65536 \<Longrightarrow> unat (of_nat n :: u16) = n"
  by (simp add: unsigned_of_nat take_bit_nat_eq_self_iff)

lemma udp_header_payload:
  assumes pkt: "drop off pkt = udp_hdr ports (length data) cksum @ data @ rest" "4 \<le> length ports" "2 \<le> length cksum"
      "length data \<le> 65527"
    and len: "8 + length data \<le> unat len"
  shows "udp_header dg pkt off len = Ret (nmsg_res_success,
    dg\<lparr>dg_payload := Some (pkt, off + 8), dg_len_payload := of_nat (length data)\<rparr>)"
proof -
  have u: "unat (of_nat (8 + length data) :: u16) = 8 + length data" using pkt(4) by (intro unat_of_nat_u16) simp
  have "drop (off + 4) pkt = drop 4 (drop off pkt)" by (simp add: add.commute)
  also have "\<dots> = store_net16 (of_nat (8 + length data)) @ take 2 cksum @ data @ rest"
    using pkt(1,2) by (simp add: udp_hdr_def)
  finally have w: "load_net16 (drop (off + 4) pkt) = Ret (of_nat (8 + length data))" by simp
  have tp: "ucast (of_nat (8 + length data) :: u16) - 8 = (of_nat (length data) :: u32)"
  proof -
    have "ucast (of_nat (8 + length data) :: u16) = (of_nat (unat (of_nat (8 + length data) :: u16)) :: u32)" by simp
    then show ?thesis by (simp only: u) simp
  qed
  have "unat (of_nat (length data) :: u32) = length data" using pkt(4) by (intro unat_of_nat_u32) simp
  moreover have "unat (len - 8) = unat len - 8" using len by (simp add: unat_sub word_le_nat_alt)
  ultimately have "\<not> ucast (of_nat (length data) :: u32) > len - 8"
    using len by (simp add: word_less_nat_alt unat_ucast_up)
  moreover have "\<not> len < 8" "8 \<le> (of_nat (8 + length data) :: u16)"
    using len u by (simp_all add: word_less_nat_alt word_le_nat_alt)
  ultimately show ?thesis by (simp add: udp_header_def w tp Let_def del: of_nat_add)
qed

lemma ipdg_udp_payload_found:
  assumes "pkt = hdr @ udp_hdr ports (length data) cksum @ data @ rest"
    and "20 \<le> length hdr" "ihl pkt 0 = length hdr" "unfragmented pkt 0" "pkt ! 9 = IPPROTO_UDP"
    and "4 \<le> length ports" "2 \<le> length cksum" "length data \<le> 65527" "length hdr + 8 + length data \<le> unat len"
  shows "\<exists>dg'. nmsg_ipdg_parse dg ETHERTYPE_IP len pkt 0 = Ret (nmsg_res_success, dg') \<and> dg_octets dg' = data \<and>
    dg_network dg' = Some (pkt, 0) \<and> dg_transport dg' = Some (pkt, length hdr)"
proof -
  let ?dg = "dg\<lparr>dg_network := Some (pkt, 0), dg_len_network := ucast len, dg_proto_network := PF_INET,
    dg_proto_transport := IPPROTO_UDP, dg_transport := Some (pkt, length hdr),
    dg_len_transport := ucast (len - of_nat (length hdr))\<rparr>"
  have d: "drop (length hdr) pkt = udp_hdr ports (length data) cksum @ data @ rest" using assms(1) by simp
  have l: "8 + length data \<le> unat (len - of_nat (length hdr))"
    using assms(9) by (simp add: unat_sub_of_nat)
  note udp = udp_header_payload [OF d assms(6-8) l, of ?dg]
  have parse: "nmsg_ipdg_parse dg ETHERTYPE_IP len pkt 0 = Ret (nmsg_res_success,
      ?dg\<lparr>dg_payload := Some (pkt, length hdr + 8), dg_len_payload := of_nat (length data)\<rparr>)"
    using ipv4_network(1) [OF assms(4), of dg len] assms(1-5) udp
    by (simp add: nmsg_ipdg_parse_def ipdg_transport_def Let_def)
  have "unat (of_nat (length data) :: u32) = length data" using assms(8) by (intro unat_of_nat_u32) simp
  moreover have "drop (length hdr + 8) pkt = data @ rest"
    using assms(1,6,7) by (simp add: udp_hdr_def)
  ultimately have "dg_octets (?dg\<lparr>dg_payload := Some (pkt, length hdr + 8), dg_len_payload := of_nat (length data)\<rparr>) = data"
    by (simp add: dg_octets_def)
  with parse show ?thesis by simp
qed

text \<open>
  C29.
  What the parser finds in a UDP packet over IPv4: of a packet that is no fragment, with a UDP header after its IPv4 header,
  the payload is exactly the octets that the UDP length counts, whatever options the IPv4 header has and whatever padding
  follows.
\<close>
theorem ipdg_udp_payload:
  assumes "pkt = hdr @ udp_hdr ports (length data) cksum @ data @ rest"
    and "20 \<le> length hdr" "ihl pkt 0 = length hdr" "unfragmented pkt 0" "pkt ! 9 = IPPROTO_UDP"
    and "4 \<le> length ports" "2 \<le> length cksum" "length data \<le> 65527" "length hdr + 8 + length data \<le> unat len"
  shows "\<exists>dg'. nmsg_ipdg_parse dg ETHERTYPE_IP len pkt 0 = Ret (nmsg_res_success, dg') \<and> dg_octets dg' = data \<and>
    dg_network dg' = Some (pkt, 0) \<and> dg_transport dg' = Some (pkt, length hdr)"
  using assms by (rule ipdg_udp_payload_found)

section \<open>Lengths that are not checked\<close>

text \<open>A length that a header makes wrap around is still at least as large as any header.\<close>

lemma wrapped_length:
  fixes len :: u64
  assumes "unat len < n" and "n \<le> 60"
  shows "20 \<le> len - of_nat n"
proof -
  have n: "unat (of_nat n :: u64) = n" using assms(2) by (simp add: unsigned_of_nat take_bit_nat_eq_self_iff)
  have "unat (len - of_nat n) = unat len + 2 ^ 64 - n" using assms n by (simp add: unat_sub_if_size word_size)
  then show ?thesis using assms(2) by (simp add: word_le_nat_alt)
qed

lemma raw_link:
  assumes "drop_bit 4 (pkt ! 0) = 4" and "20 \<le> length pkt" and "20 \<le> unat len"
  shows "link_header DLT_RAW pkt len = Ret (Some (ETHERTYPE_IP, 0, len))"
  using assms by (cases pkt) (simp_all add: link_header_def mem_byte_def word_less_nat_alt)

text \<open>
  The IPv4 header length is not compared with the packet: a raw packet of at least 20 octets with protocol UDP, no
  fragment, whose header length field passes the end of the packet makes the octets left wrap around, so that the check for
  the UDP header passes, and the parser reads behind the packet.
\<close>
theorem ipdg_header_length_overreads:
  assumes dl: "pc_datalink pcap = DLT_RAW" and cap: "ph_caplen h = ph_len h" "length pkt = unat (ph_caplen h)"
    and pkt: "20 \<le> length pkt" "drop_bit 4 (pkt ! 0) = 4" "unfragmented pkt 0" "pkt ! 9 = IPPROTO_UDP"
    and short: "length pkt < ihl pkt 0"
  shows "nmsg_ipdg_parse_pcap ok dg pcap h pkt = Fault"
proof -
  define len :: u64 where "len = ucast (ph_caplen h)"
  have len: "unat len = length pkt" using cap by (simp add: len_def unat_ucast_up)
  have "20 \<le> len - of_nat (ihl pkt 0)"
    using wrapped_length [of len "ihl pkt 0"] len short ihl_bound [of pkt 0] by simp
  then have "\<not> len - of_nat (ihl pkt 0) < 8" by (simp add: word_less_nat_alt word_le_nat_alt)
  moreover have "load_net16 (drop (ihl pkt 0 + 4) pkt) = Fault" using short by simp
  ultimately have "ipdg_transport dg' pkt (ihl pkt 0) (len - of_nat (ihl pkt 0)) = Fault"
    if "dg_proto_transport dg' = IPPROTO_UDP" for dg'
    using that by (simp add: ipdg_transport_def udp_header_def Let_def)
  then show ?thesis
    using cap(1) dl pkt raw_link [of pkt len] len ipv4_network(1) [of pkt 0 dg len]
    by (simp add: nmsg_ipdg_parse_pcap_def nmsg_ipdg_parse_reasm_def len_def)
qed

text \<open>
  \<^verbatim>\<open>nmsg_ipdg_parse_pcap_raw\<close> does not compare the TCP header length with the packet either: when it passes the end, the
  parser answers success with a payload that begins behind the packet.
\<close>
theorem ipdg_raw_tcp_payload_outside:
  assumes len: "length pkt = unat len"
    and pkt: "20 \<le> ihl pkt 0" "ihl pkt 0 + 20 \<le> length pkt" "drop_bit 4 (pkt ! 0) = 4" "unfragmented pkt 0"
      "pkt ! 9 = IPPROTO_TCP"
    and short: "length pkt < ihl pkt 0 + 4 * unat (drop_bit 4 (pkt ! (ihl pkt 0 + 12)))"
  shows "\<exists>dg' p. nmsg_ipdg_parse_pcap_raw dg DLT_RAW pkt len = Ret (nmsg_res_success, dg') \<and>
    dg_payload dg' = Some (pkt, p) \<and> length pkt < p"
proof -
  have "\<not> len - of_nat (ihl pkt 0) < 20"
    using unat_sub_of_nat [of "ihl pkt 0" len] len pkt(2) by (simp add: word_less_nat_alt)
  moreover have "mem_byte pkt (ihl pkt 0 + 12) = Ret (pkt ! (ihl pkt 0 + 12))" using pkt(2) by (simp add: mem_byte_def)
  ultimately show ?thesis
    using raw_link [of pkt len] len pkt ipv4_network(2) [of pkt 0 dg len] short
    by (simp add: nmsg_ipdg_parse_pcap_raw_def tcp_header_def Let_def IPPROTO_TCP_def IPPROTO_UDP_def)
qed

text \<open>
  The length of an IPv6 extension header is put through \<^verbatim>\<open>ntohs\<close> although it is one octet, so that a header of
  8 * (l + 1) octets counts as 2048 * (l mod 32) + 8: every packet with less payload than that whose first extension header (other
  than a Fragment header) is longer than 8 octets is dropped.
\<close>
theorem ipdg_exthdr_rejected:
  assumes "length pkt = base + unat len" and "42 \<le> unat len" and "pkt ! base AND 0xF0 = 0x60"
    and "is_exthdr (pkt ! (base + 6))" "pkt ! (base + 6) \<noteq> IPPROTO_FRAGMENT"
    and "load_net16 (drop (base + 4) pkt) = Ret plen" "unat plen < 2048 * (unat (pkt ! (base + 41)) mod 32) + 8"
  shows "\<exists>dg'. nmsg_ipdg_parse dg ETHERTYPE_IPV6 len pkt base = Ret (nmsg_res_again, dg')"
proof -
  have m: "mem_byte pkt (base + i) = Ret (pkt ! (base + i))" if "i < 42" for i
    using that assms(1,2) by (simp add: mem_byte_def)
  have "ext_hdr_len (pkt ! (base + 41)) > plen"
    using assms(7) unat_ext_hdr_len_mod by (simp add: word_less_nat_alt)
  then have "ip6_exthdrs pkt base len (pkt ! (base + 6)) 40 plen = Ret None"
    using assms(2,4,5) m [of 40] m [of 41] unfolding add.commute [of base 41]
    by (subst ip6_exthdrs.simps) (simp add: add.assoc)
  then show ?thesis
    using assms(2,3,6) m [of 0] m [of 6]
    by (simp add: nmsg_ipdg_parse_def ipdg_network_def Let_def ETHERTYPE_IP_def ETHERTYPE_IPV6_def word_less_nat_alt)
qed

end
