(* ===== verification/Ipreasm_Wit.thy ===== *)
theory Ipreasm_Wit
  imports Ipreasm_Parse
begin

text \<open>Concrete packets for the properties of the theories Ipreasm_Order and Ipreasm_Parse.\<close>

section \<open>Witnesses\<close>

text \<open>Fragments of a packet from 10.0.0.1 to 10.0.0.2, the state of a fresh table, calls.\<close>

definition v4_fragment :: "u16 \<Rightarrow> byte list \<Rightarrow> byte list" where
  "v4_fragment offset bs = [0x45, 0] @ store_net16 (of_nat (20 + length bs)) @ [0x12, 0x34] @ store_net16 offset @
     [0x40, 0x11, 0, 0, 10, 0, 0, 1, 10, 0, 0, 2] @ bs"

definition v4_id :: reasm_id where
  "v4_id = Id_ipv4 \<lparr>ip4_src = [10, 0, 0, 1], ip4_dst = [10, 0, 0, 2], ip4_id = 0x1234, ip4_proto = 0x11\<rparr>"

definition v4_entry :: "u32 \<Rightarrow> u16 \<Rightarrow> byte list \<Rightarrow> reasm_frag_entry" where
  "v4_entry off w bs = \<lparr>fr_len = of_nat (length bs), fr_offset = off, fr_data_offset = 20, fr_data = v4_fragment w bs\<rparr>"

definition v4_frags :: "reasm_frag_entry list" where
  "v4_frags = [v4_entry 0 0x2000 [1, 2, 3, 4, 5, 6, 7, 8], v4_entry 8 0x2001 [9, 10, 11, 12, 13, 14, 15, 16],
     v4_entry 16 2 [17, 18]]"

definition v4_call :: "nat \<Rightarrow> u64 \<Rightarrow> reasm_call" where
  "v4_call i ts = (let p = fr_data (v4_frags ! i) in (p, of_nat (length p), 0, ts))"

definition table0 :: reasm_ip where
  "table0 = \<lparr>r_entries = (\<lambda>_. None), r_fresh = 0, r_table = (\<lambda>_. []), r_time = [], r_waiting = 0,
     r_max_waiting = 0, r_timed_out = 0, r_dropped_frags = 0, r_timeout = 100\<rparr>"

definition v4_other :: reasm_call where
  "v4_other = (v4_fragment 0 [7, 7], 22, 0, 5)"

definition v4_header :: "byte list" where
  "v4_header = [0x45, 0, 0, 20, 0x12, 0x34, 0x20, 0, 0x40, 0x11, 0, 0, 10, 0, 0, 1, 10, 0, 0, 2]"

lemma table0_wf: "reasm_wf table0" "\<forall>e. \<not> holds table0 d e" "r_timeout table0 = 100"
  by (simp_all add: table0_def reasm_wf_def holds_def)

lemma v4_parse:
  "call_parse (\<lambda>_. True) (v4_call 0 ts) = Ret (Some (v4_frags ! 0, PROTO_IPV4, v4_id, id_hash v4_id, False))"
  "call_parse (\<lambda>_. True) (v4_call 1 ts) = Ret (Some (v4_frags ! 1, PROTO_IPV4, v4_id, id_hash v4_id, False))"
  "call_parse (\<lambda>_. True) (v4_call 2 ts) = Ret (Some (v4_frags ! 2, PROTO_IPV4, v4_id, id_hash v4_id, True))"
  "call_parse (\<lambda>_. True) v4_other = Ret None"
  by code_simp+

lemma v4_frags_ok:
  "\<forall>f \<in> set v4_frags. fits_packet f \<and> frag_stored f \<and> header_room PROTO_IPV4 f \<and> fr_len f \<noteq> 0"
  by (simp add: v4_frags_def v4_entry_def v4_fragment_def fits_packet_def frag_stored_def header_room_def
      store_net16_def)

lemma v4_whole: "whole v4_frags" "chain_end 0 v4_frags = 18"
  by (simp_all add: whole_def v4_frags_def v4_entry_def fits_packet_def)

lemma v4_calls:
  "\<forall>c \<in> {v4_call 0 ts, v4_call 1 ts, v4_call 2 ts, v4_other}. call_sane (\<lambda>_. True) c"
  "call_frag (\<lambda>_. True) v4_id (v4_call 0 ts) = Some (v4_frags ! 0, False)"
  "call_frag (\<lambda>_. True) v4_id (v4_call 1 ts) = Some (v4_frags ! 1, False)"
  "call_frag (\<lambda>_. True) v4_id (v4_call 2 ts) = Some (v4_frags ! 2, True)"
  "call_frag (\<lambda>_. True) v4_id v4_other = None"
proof -
  have p: "id_proto v4_id = PROTO_IPV4" by (simp add: v4_id_def)
  have "v4_frags ! 0 \<in> set v4_frags" "v4_frags ! 1 \<in> set v4_frags" "v4_frags ! 2 \<in> set v4_frags"
    by (simp_all add: v4_frags_def)
  then show "\<forall>c \<in> {v4_call 0 ts, v4_call 1 ts, v4_call 2 ts, v4_other}. call_sane (\<lambda>_. True) c"
    using v4_frags_ok p by (auto simp: call_sane_def v4_parse frag_sane_def simp del: One_nat_def)
qed (simp_all add: call_frag_def v4_parse del: One_nat_def)

lemma v4_times: "call_time (v4_call i ts) = ts" "call_time v4_other = 5"
  by (simp_all add: v4_call_def v4_other_def Let_def)

lemma v4_pieces:
  "\<forall>f \<in> set v4_frags. piece_of [1, 2, 3, 4, 5, 6, 7, 8, 9, 10, 11, 12, 13, 14, 15, 16, 17, 18] f"
  by (simp add: piece_of_def v4_frags_def v4_entry_def v4_fragment_def frag_stored_def frag_content_def
      store_net16_def)

lemma reasm_any_order_witness:
  "\<exists>rs r' pkt. reasm_calls (\<lambda>_. True) table0 ([v4_call 2 3, v4_other, v4_call 0 7] @ [v4_call 1 9]) (replicate 40 0) 40 =
      Ret (rs @ [(True, pkt @ drop (length pkt) (replicate 40 0), of_nat (length pkt))], r') \<and>
    drop 20 pkt = [1, 2, 3, 4, 5, 6, 7, 8, 9, 10, 11, 12, 13, 14, 15, 16, 17, 18]"
proof -
  let ?P = "[1, 2, 3, 4, 5, 6, 7, 8, 9, 10, 11, 12, 13, 14, 15, 16, 17, 18] :: byte list"
  let ?cs = "[v4_call 2 3, v4_other, v4_call 0 7]"
  define hdr where "hdr = packet_header (id_proto v4_id) (hd v4_frags)"
  define pkt where "pkt = fixed_header (id_proto v4_id) hdr (of_nat (length hdr + length ?P)) @ ?P"
  have hdr: "hdr = [0x45, 0, 0, 28, 0x12, 0x34, 0x20, 0, 0x40, 0x11, 0, 0, 10, 0, 0, 1, 10, 0, 0, 2]"
    by (simp add: hdr_def packet_header_def v4_id_def v4_frags_def v4_entry_def v4_fragment_def header_size_def store_net16_def)
  have pkt: "length pkt = 38" "drop 20 pkt = ?P"
    by (simp_all add: pkt_def v4_id_def fixed_header_def hdr length_ipv4_header)
  have 1: "\<forall>c' \<in> set (?cs @ [v4_call 1 9]). call_sane (\<lambda>_. True) c'"
    using v4_calls(1) [of 3] v4_calls(1) [of 7] v4_calls(1) [of 9] by (simp del: One_nat_def)
  have 2: "calls_in_time (r_timeout table0) 20 (?cs @ [v4_call 1 9])"
    by (simp add: calls_in_time_def v4_times table0_wf(3))
  have 3: "chain_end 0 v4_frags = length ?P" by (simp add: v4_whole)
  have 4: "List.map_filter (call_frag (\<lambda>_. True) v4_id) (?cs @ [v4_call 1 9]) =
      map (\<lambda>f. (f, f = last v4_frags)) [v4_frags ! 2, v4_frags ! 0, v4_frags ! 1]"
    by (simp add: map_filter_simps v4_calls del: One_nat_def) (simp add: v4_frags_def v4_entry_def)
  have 5: "mset [v4_frags ! 2, v4_frags ! 0, v4_frags ! 1] = mset v4_frags" by (simp add: v4_frags_def)
  have 6: "call_frag (\<lambda>_. True) v4_id (v4_call 1 9) \<noteq> None" by (simp add: v4_calls del: One_nat_def)
  have 7: "length (replicate 40 0 :: byte list) = unat (40 :: u32)" "length pkt \<le> length (replicate 40 0 :: byte list)"
    by (simp_all add: pkt)
  from reasm_any_order [OF table0_wf(1) _ table0_wf(2) 1 2 v4_whole(1) v4_pieces 3 4 5 6 hdr_def pkt_def 7] pkt(2)
  show ?thesis by blast
qed


definition v6_empty :: "byte list" where
  "v6_empty = [0x60, 0, 0, 0, 0, 8, 44, 64] @ replicate 15 0 @ [1] @ replicate 15 0 @ [2] @ [17, 0, 0, 0, 0, 0, 0, 9]"

definition v6_id :: reasm_id where
  "v6_id = Id_ipv6 \<lparr>ip6_src = replicate 15 0 @ [1], ip6_dst = replicate 15 0 @ [2], ip6_id = 9\<rparr>"

lemma reasm_ip_next_empty_faults_witness:
  "reasm_ip_next (\<lambda>_. True) table0 v6_empty 48 0 9 (replicate 100 0) 100 = Fault"
proof -
  define f where "f = \<lparr>fr_len = 0, fr_offset = 0, fr_data_offset = 48, fr_data = v6_empty[6 := 17]\<rparr>"
  have "parse_packet (\<lambda>_. True) v6_empty 48 0 = Ret (Some (f, id_proto v6_id, v6_id, id_hash v6_id, True))"
    unfolding f_def by code_simp
  from reasm_ip_next_empty_faults [OF table0_wf(1) _ table0_wf(2) this] show ?thesis by (simp add: f_def)
qed

lemma fix_ipv4_checksum_witness:
  "\<exists>hdr'. fix_ipv4 ([0x45, 0, 0, 28, 0x12, 0x34, 0x20, 0, 0x40, 0x11, 9, 9, 10, 0, 0, 1, 10, 0, 0, 2] @ [7]) 38 =
     Ret (hdr' @ [7]) \<and> checksum_valid hdr'"
proof -
  let ?h = "[0x45, 0, 0, 28, 0x12, 0x34, 0x20, 0, 0x40, 0x11, 9, 9, 10, 0, 0, 1, 10, 0, 0, 2] :: byte list"
  have "20 \<le> length ?h" "length ?h = 4 * unat (hd ?h AND 0xF)" by simp_all
  from fix_ipv4_checksum [OF this, of "[7]" 38] show ?thesis by blast
qed

end
