(* ===== verification/Ipdg_Reasm.thy ===== *)
theory Ipdg_Reasm
  imports Ipdg_Props Ipreasm_Wit
begin

text \<open>
  Captured frames one after the other (nmsg/ipdg.c on top of nmsg/ipreasm.c): the frames of a fragmented UDP datagram, in
  any order, end in the datagram's payload.
\<close>

section \<open>Frames as calls of the reassembler\<close>

type_synonym frame = "pcap_pkthdr \<times> byte list"

fun pcap_frames :: "(nat \<Rightarrow> bool) \<Rightarrow> nmsg_ipdg \<Rightarrow> ip_pcap \<Rightarrow> frame list \<Rightarrow>
    ((nmsg_res \<times> nmsg_ipdg) list \<times> ip_pcap) run" where
  "pcap_frames ok dg pcap [] = Ret ([], pcap)"
| "pcap_frames ok dg pcap ((h, pkt) # fs) =
     run_bind (nmsg_ipdg_parse_pcap ok dg pcap h pkt) (\<lambda>(res, dg', pcap').
     run_bind (pcap_frames ok dg pcap' fs) (\<lambda>(rs, pcap''). Ret ((res, dg') # rs, pcap'')))"

text \<open>The call that a frame with an IPv4 packet makes, and whether it makes one.\<close>

fun frame_call :: "datalink \<Rightarrow> frame \<Rightarrow> reasm_call" where
  "frame_call dl (h, pkt) = (case link_header dl pkt (ucast (ph_caplen h)) of
     Ret (Some (etype, base, len)) \<Rightarrow> (drop base pkt, ucast len, 0, ph_tv_sec h)
   | _ \<Rightarrow> ([], 0, 0, 0))"

fun fragment_frame :: "datalink \<Rightarrow> frame \<Rightarrow> bool" where
  "fragment_frame dl (h, pkt) \<longleftrightarrow> ph_caplen h = ph_len h \<and>
     (case link_header dl pkt (ucast (ph_caplen h)) of
        Ret (Some (etype, base, len)) \<Rightarrow> etype = ETHERTYPE_IP \<and> base + 20 \<le> length pkt \<and> \<not> unfragmented pkt base
      | _ \<Rightarrow> False)"

lemma parse_pcap_call:
  assumes "fragment_frame (pc_datalink pcap) (h, pkt)"
    and "call_next ok (pc_reasm pcap) (frame_call (pc_datalink pcap) (h, pkt)) (pc_new_pkt pcap) 65536 =
      Ret (True, new_pkt, n, r)"
    and pcap': "pcap' = pcap\<lparr>pc_reasm := r, pc_new_pkt := new_pkt\<rparr>"
  shows "\<exists>dg1. (n = 0 \<longrightarrow> nmsg_ipdg_parse_pcap ok dg pcap h pkt = Ret (nmsg_res_again, dg1, pcap')) \<and>
    (\<forall>dg'. n \<noteq> 0 \<longrightarrow> pc_userbpf pcap = None \<longrightarrow>
      nmsg_ipdg_parse dg1 ETHERTYPE_IP (ucast n) new_pkt 0 = Ret (nmsg_res_success, dg') \<longrightarrow>
      nmsg_ipdg_parse_pcap ok dg pcap h pkt = Ret (nmsg_res_success, dg', pcap'))"
proof -
  from assms(1) obtain base len where link: "ph_caplen h = ph_len h"
      "link_header (pc_datalink pcap) pkt (ucast (ph_caplen h)) = Ret (Some (ETHERTYPE_IP, base, len))"
      "base + 20 \<le> length pkt" "\<not> unfragmented pkt base"
    by (auto split: run.splits option.splits)
  obtain w where w: "load_net16 (drop (base + 6) pkt) = Ret w" using load_net16_ok [of "base + 6" pkt] link(3) by auto
  with link(4) have "w AND IP_OFFMASK \<noteq> 0 \<or> w AND IP_MF \<noteq> 0" by (simp add: unfragmented_def)
  with w link(3) obtain dg1 off len' where net: "ipdg_network dg ETHERTYPE_IP len pkt base = Ret (dg1, Some (True, 0, off, len'))"
    "dg_len_network dg1 = ucast len"
    by (auto simp: ipdg_network_def Let_def mem_byte_def)
  have next_call: "reasm_ip_next ok (pc_reasm pcap) (drop base pkt) (ucast len) 0 (ph_tv_sec h) (pc_new_pkt pcap) 65536 =
      Ret (True, new_pkt, n, r)" using assms(2) link(2) by simp
  have reasm: "nmsg_ipdg_parse_reasm ok dg ETHERTYPE_IP len pkt base (pc_reasm pcap) 65536 (pc_new_pkt pcap) (ph_tv_sec h) =
      (if n = 0 then Ret (nmsg_res_again, dg1, False, new_pkt, r)
       else run_bind (nmsg_ipdg_parse dg1 ETHERTYPE_IP (ucast n) new_pkt 0) (\<lambda>(res, dg'). Ret (res, dg', True, new_pkt, r)))"
    by (simp add: nmsg_ipdg_parse_reasm_def net next_call)
  show ?thesis
  proof (cases "n = 0")
    case True
    with reasm show ?thesis
      by (intro exI [of _ dg1]) (simp add: nmsg_ipdg_parse_pcap_def link(1) [symmetric] link(2) pcap' Let_def)
  next
    case False
    with reasm show ?thesis
      by (intro exI [of _ dg1]) (simp add: nmsg_ipdg_parse_pcap_def link(1) [symmetric] link(2) pcap' Let_def refilter_def)
  qed
qed

text \<open>Frames whose calls give no output leave the buffer alone.\<close>

lemma pcap_frames_silent:
  assumes "\<forall>f \<in> set frames. fragment_frame (pc_datalink pcap) f"
    and "reasm_calls ok (pc_reasm pcap) (map (frame_call (pc_datalink pcap)) frames) (pc_new_pkt pcap) 65536 = Ret (rs, r')"
    and "\<forall>a \<in> set rs. a = (True, pc_new_pkt pcap, 0)"
  shows "\<exists>ans. pcap_frames ok dg pcap frames = Ret (ans, pcap\<lparr>pc_reasm := r'\<rparr>) \<and>
    length ans = length frames \<and> (\<forall>a \<in> set ans. fst a = nmsg_res_again)"
  using assms
proof (induction frames arbitrary: pcap rs)
  case (Cons f frames)
  obtain h pkt where f: "f = (h, pkt)" by (cases f)
  from Cons.prems(2) obtain b out' n r1 rs' where c:
    "call_next ok (pc_reasm pcap) (frame_call (pc_datalink pcap) f) (pc_new_pkt pcap) 65536 = Ret (b, out', n, r1)"
    and rest: "reasm_calls ok r1 (map (frame_call (pc_datalink pcap)) frames) (pc_new_pkt pcap) 65536 = Ret (rs', r')"
    and rs: "rs = (b, out', n) # rs'"
    by (auto simp del: frame_call.simps)
  have "(b, out', n) = (True, pc_new_pkt pcap, 0)" by (rule Cons.prems(3) [rule_format]) (simp add: rs)
  then have a: "b = True" "out' = pc_new_pkt pcap" "n = 0" by simp_all
  have rs': "\<forall>a \<in> set rs'. a = (True, pc_new_pkt pcap, 0)"
    by (rule ballI, rule Cons.prems(3) [rule_format]) (simp add: rs)
  note call = c [unfolded a f]
  define pcap1 where "pcap1 = pcap\<lparr>pc_reasm := r1, pc_new_pkt := pc_new_pkt pcap\<rparr>"
  from parse_pcap_call [OF _ call pcap1_def, where dg = dg] Cons.prems(1) f obtain dg1 where
    one: "nmsg_ipdg_parse_pcap ok dg pcap h pkt = Ret (nmsg_res_again, dg1, pcap1)" by auto
  have p: "pc_datalink pcap1 = pc_datalink pcap" "pc_reasm pcap1 = r1" "pc_new_pkt pcap1 = pc_new_pkt pcap"
    "pcap1\<lparr>pc_reasm := r'\<rparr> = pcap\<lparr>pc_reasm := r'\<rparr>" by (simp_all add: pcap1_def)
  from Cons.prems(1) have "\<forall>f \<in> set frames. fragment_frame (pc_datalink pcap1) f" by (simp add: p(1))
  from Cons.IH [OF this, unfolded p, OF rest rs'] obtain ans where
    "pcap_frames ok dg pcap1 frames = Ret (ans, pcap\<lparr>pc_reasm := r'\<rparr>)" "length ans = length frames"
    "\<forall>a \<in> set ans. fst a = nmsg_res_again" by blast
  with one f show ?case by auto
qed simp

lemma pcap_frames_snoc:
  "pcap_frames ok dg pcap (fs @ [(h, pkt)]) =
     run_bind (pcap_frames ok dg pcap fs) (\<lambda>(rs, pcap').
     run_bind (nmsg_ipdg_parse_pcap ok dg pcap' h pkt) (\<lambda>(res, dg', pcap''). Ret (rs @ [(res, dg')], pcap'')))"
proof (induction fs arbitrary: pcap)
  case (Cons f fs)
  then show ?case by (cases f) (simp add: run_bind_assoc split_def)
qed (simp add: split_def)

section \<open>The header of the reassembled packet\<close>

lemma ipv4_header_unfragmented:
  assumes "20 \<le> length hdr"
  shows "unfragmented (ipv4_header hdr len @ rest) 0" "(ipv4_header hdr len @ rest) ! 0 = hdr ! 0"
    "(ipv4_header hdr len @ rest) ! 9 = hdr ! 9"
proof -
  obtain a b c d e f g h i j rest' where "hdr = a # b # c # d # e # f # g # h # i # j # rest'"
    using assms by (auto simp: numeral_eq_Suc Suc_le_length_iff)
  then show "unfragmented (ipv4_header hdr len @ rest) 0" "(ipv4_header hdr len @ rest) ! 0 = hdr ! 0"
    "(ipv4_header hdr len @ rest) ! 9 = hdr ! 9"
    by (simp_all add: ipv4_header_def ipv4_cleared_def unfragmented_def store_net16_def)
qed

section \<open>The whole datagram\<close>

lemma map_filter_Some: "map g xs = map (\<lambda>y. Some (k y)) ys \<Longrightarrow> List.map_filter g xs = map k ys"
proof (induction xs arbitrary: ys)
  case (Cons x xs)
  then show ?case by (cases ys) (simp_all add: map_filter_simps)
qed (simp add: map_filter_simps)

lemma silent_answers:
  assumes "list_all2 (no_output ok d out) cs rs" and "\<forall>c \<in> set cs. call_frag ok d c \<noteq> None"
  shows "\<forall>a \<in> set rs. a = (True, out, 0)"
  using assms by (induction rule: list_all2_induct) (simp_all add: no_output_def)

lemma call_frag_room:
  assumes "call_sane ok c" and "call_frag ok (Id_ipv4 d) c = Some (f, final)"
  shows "header_room PROTO_IPV4 f"
  using assms by (auto simp: call_sane_def call_frag_def frag_sane_def split: run.splits option.splits if_splits)

text \<open>The reassembled datagram is a UDP packet with the header length of the first fragment.\<close>

lemma reassembled_udp:
  assumes room: "header_room PROTO_IPV4 f" and hdr: "hdr = packet_header PROTO_IPV4 f" "hdr ! 9 = IPPROTO_UDP"
    and P: "P = udp_hdr ports (length data) cksum @ data" "4 \<le> length ports" "2 \<le> length cksum"
    and l: "length hdr + length P \<le> 65535"
    and m: "m = ipv4_header hdr len @ P @ rest" "n = of_nat (length hdr + length P)"
  shows "\<exists>dg'. nmsg_ipdg_parse dg ETHERTYPE_IP (ucast (n :: u32)) m 0 = Ret (nmsg_res_success, dg') \<and> dg_octets dg' = data"
proof -
  note len_hdr = length_packet_header [OF room, folded hdr(1)]
  have h: "20 \<le> length hdr" "length (ipv4_header hdr len) = length hdr"
    using len_hdr by (simp_all add: length_ipv4_header)
  have hd0: "hdr ! 0 = hd (fr_data f)"
    using len_hdr room by (cases "fr_data f") (auto simp: hdr(1) packet_header_def take_Cons split: nat.splits)
  note u = ipv4_header_unfragmented [OF h(1), of len "P @ rest", folded m(1)]
  have "ihl m 0 = length (ipv4_header hdr len)"
    using u(2) hd0 room len_hdr h(2) by (simp add: ihl_def header_room_def header_size_def)
  moreover have "length P = 8 + length data" using P by (simp add: udp_hdr_def)
  moreover from this have n: "unat (ucast n :: u64) = length hdr + (8 + length data)"
    using l m(2) by (simp add: unat_ucast_up unat_of_nat_u32 del: of_nat_add)
  ultimately show ?thesis
    using ipdg_udp_payload_found [of m "ipv4_header hdr len" ports data cksum rest "ucast n" dg] h u(1,3) P(2,3) hdr(2) l
    by (auto simp: m(1) P(1))
qed

text \<open>
  C4. Reassembly through the datagram parser, over IPv4 and without a filter of the user: the captured frames of the fragments of
  a UDP datagram, in any order and within the timeout, are answered \<^verbatim>\<open>nmsg_res_again\<close> until the last one, which is answered
  success with a payload of exactly the octets that were sent; the reassembler is then free of the datagram. Over IPv6 the
  statement would be false, because the extension headers of the first fragment stay in front of the payload.
\<close>

theorem pcap_udp_reassembles:
  assumes frames: "\<forall>f \<in> set (frames @ [(h, pkt)]). fragment_frame (pc_datalink pcap) f"
    and calls: "cs = map (frame_call (pc_datalink pcap)) frames" "c = frame_call (pc_datalink pcap) (h, pkt)"
    and state: "reasm_wf (pc_reasm pcap)" "\<forall>i. ok i" "\<forall>e. \<not> holds (pc_reasm pcap) (Id_ipv4 d) e"
      "length (pc_new_pkt pcap) = 65536" "pc_userbpf pcap = None"
    and sane: "\<forall>c' \<in> set (cs @ [c]). call_sane ok c'" and time: "calls_in_time (r_timeout (pc_reasm pcap)) lim (cs @ [c])"
    and P: "P = udp_hdr ports (length data) cksum @ data" "4 \<le> length ports" "2 \<le> length cksum"
    and fs: "whole fs" "\<forall>f \<in> set fs. piece_of P f" "chain_end 0 fs = length P"
    and order: "map (call_frag ok (Id_ipv4 d)) (cs @ [c]) = map (\<lambda>f. Some (f, f = last fs)) gs" "mset gs = mset fs"
    and hdr: "hdr = packet_header PROTO_IPV4 (hd fs)" "hdr ! 9 = IPPROTO_UDP" "length hdr + length P \<le> 65535"
  shows "\<exists>ans dg' pcap'. pcap_frames ok dg pcap (frames @ [(h, pkt)]) = Ret (ans @ [(nmsg_res_success, dg')], pcap') \<and>
    length ans = length frames \<and> (\<forall>a \<in> set ans. fst a = nmsg_res_again) \<and> dg_octets dg' = data \<and>
    reasm_wf (pc_reasm pcap') \<and> (\<forall>e. \<not> holds (pc_reasm pcap') (Id_ipv4 d) e)"
proof -
  let ?out = "pc_new_pkt pcap" and ?d = "Id_ipv4 d"
  define p where "p = ipv4_header hdr (of_nat (length hdr + length P)) @ P"
  have "\<forall>c' \<in> set (cs @ [c]). call_frag ok ?d c' \<noteq> None"
    using order(1) by (metis (no_types, lifting) imageE list.set_map option.distinct(1) image_eqI)
  then have frag: "\<forall>c' \<in> set cs. call_frag ok ?d c' \<noteq> None" "call_frag ok ?d c \<noteq> None" by auto
  have mf: "List.map_filter (call_frag ok ?d) (cs @ [c]) = map (\<lambda>f. (f, f = last fs)) gs"
    using order(1) by (rule map_filter_Some)
  have "hd fs \<in> set gs" using fs(1) mset_eq_setD [OF order(2)] by (simp add: whole_def)
  then have "Some (hd fs, hd fs = last fs) \<in> call_frag ok ?d ` set (cs @ [c])"
    unfolding set_map [symmetric] order(1) by auto
  then obtain c' where "c' \<in> set (cs @ [c])" "call_frag ok ?d c' = Some (hd fs, hd fs = last fs)" by force
  then have hd_room: "header_room PROTO_IPV4 (hd fs)" using sane call_frag_room by blast
  note len_hdr = length_packet_header [OF hd_room, folded hdr(1)]
  have lp: "length p = length hdr + length P" using len_hdr by (simp add: p_def length_ipv4_header)
  have out: "length ?out = unat (65536 :: u32)" "length p \<le> length ?out" using state(4) hdr(3) lp by simp_all
  have hp: "hdr = packet_header (id_proto ?d) (hd fs)"
    "p = fixed_header (id_proto ?d) hdr (of_nat (length hdr + length P)) @ P"
    by (simp_all add: hdr(1) p_def fixed_header_def)
  from reasm_any_order [OF state(1-3) sane time fs mf order(2) frag(2) hp out] obtain rs r' where
    run: "reasm_calls ok (pc_reasm pcap) (cs @ [c]) ?out 65536 =
      Ret (rs @ [(True, p @ drop (length p) ?out, of_nat (length p))], r')"
    and silent: "list_all2 (no_output ok ?d ?out) cs rs" and final: "reasm_wf r'" "\<forall>e. \<not> holds r' ?d e" by blast
  from run obtain r1 where split: "reasm_calls ok (pc_reasm pcap) cs ?out 65536 = Ret (rs, r1)"
    "call_next ok r1 c ?out 65536 = Ret (True, p @ drop (length p) ?out, of_nat (length p), r')"
    by (auto simp: reasm_calls_append)
  define pcap1 where "pcap1 = pcap\<lparr>pc_reasm := r1\<rparr>"
  have p1: "pc_datalink pcap1 = pc_datalink pcap" "pc_reasm pcap1 = r1" "pc_new_pkt pcap1 = ?out" "pc_userbpf pcap1 = None"
    by (simp_all add: pcap1_def state(5))
  have fr: "\<forall>f \<in> set frames. fragment_frame (pc_datalink pcap) f" "fragment_frame (pc_datalink pcap1) (h, pkt)"
    using frames by (simp_all add: p1 del: fragment_frame.simps)
  from pcap_frames_silent [OF fr(1) split(1) [unfolded calls(1)] silent_answers [OF silent frag(1)], of dg] obtain ans where
    ans: "pcap_frames ok dg pcap frames = Ret (ans, pcap1)" "length ans = length frames" "\<forall>a \<in> set ans. fst a = nmsg_res_again"
    by (auto simp: pcap1_def)
  define pcap2 where "pcap2 = pcap1\<lparr>pc_reasm := r', pc_new_pkt := p @ drop (length p) ?out\<rparr>"
  from parse_pcap_call [OF fr(2) _ pcap2_def, of ok "of_nat (length p)" dg] split(2) obtain dg1 where
    last: "\<forall>dg'. of_nat (length p) \<noteq> (0 :: u32) \<longrightarrow>
      nmsg_ipdg_parse dg1 ETHERTYPE_IP (ucast (of_nat (length p) :: u32)) (p @ drop (length p) ?out) 0 = Ret (nmsg_res_success, dg') \<longrightarrow>
      nmsg_ipdg_parse_pcap ok dg pcap1 h pkt = Ret (nmsg_res_success, dg', pcap2)"
    by (auto simp: p1 calls(2) simp del: frame_call.simps)
  have q: "p @ drop (length p) ?out = ipv4_header hdr (of_nat (length hdr + length P)) @ P @ drop (length p) ?out"
    by (simp add: p_def)
  have n: "of_nat (length p) = (of_nat (length hdr + length P) :: u32)" by (simp only: lp)
  from reassembled_udp [OF hd_room hdr(1,2) P hdr(3) q n] obtain dg' where
    dg': "nmsg_ipdg_parse dg1 ETHERTYPE_IP (ucast (of_nat (length p) :: u32)) (p @ drop (length p) ?out) 0 =
      Ret (nmsg_res_success, dg')" "dg_octets dg' = data" by blast
  have "unat (of_nat (length p) :: u32) = length p" using hdr(3) lp by (intro unat_of_nat_u32) simp
  moreover have "0 < length p" using len_hdr lp by simp
  ultimately have "of_nat (length p) \<noteq> (0 :: u32)" by (metis less_numeral_extra(3) unsigned_0)
  with last dg'(1) have "nmsg_ipdg_parse_pcap ok dg pcap1 h pkt = Ret (nmsg_res_success, dg', pcap2)" by blast
  then have "pcap_frames ok dg pcap (frames @ [(h, pkt)]) = Ret (ans @ [(nmsg_res_success, dg')], pcap2)"
    using ans(1) by (simp add: pcap_frames_snoc)
  moreover have "pc_reasm pcap2 = r'" by (simp add: pcap2_def)
  ultimately show ?thesis using ans(2,3) dg'(2) final by blast
qed

section \<open>Witnesses\<close>

definition dg0 :: nmsg_ipdg where
  "dg0 = \<lparr>dg_proto_network = PF_UNSPEC, dg_proto_transport = 0, dg_len_network = 0, dg_len_transport = 0,
     dg_len_payload = 0, dg_network = None, dg_transport = None, dg_payload = None\<rparr>"

text \<open>The fragments of a DNS-sized datagram from 10.0.0.1 to 10.0.0.2, captured without a data link header.\<close>

definition u_octets :: "byte list" where
  "u_octets = [0, 53, 0, 53, 0, 18, 0, 0, 1, 2, 3, 4, 5, 6, 7, 8, 9, 10]"

definition u_frags :: "reasm_frag_entry list" where
  "u_frags = [v4_entry 0 0x2000 (take 8 u_octets), v4_entry 8 0x2001 (take 8 (drop 8 u_octets)),
     v4_entry 16 2 (drop 16 u_octets)]"

definition u_frame :: "nat \<Rightarrow> u64 \<Rightarrow> frame" where
  "u_frame i ts = (let p = fr_data (u_frags ! i)
     in (\<lparr>ph_caplen = of_nat (length p), ph_len = of_nat (length p), ph_tv_sec = ts\<rparr>, p))"

definition u_pcap :: ip_pcap where
  "u_pcap = \<lparr>pc_datalink = DLT_RAW, pc_reasm = table0, pc_new_pkt = replicate 65536 0, pc_userbpf = None\<rparr>"

lemma u_frames:
  "fragment_frame DLT_RAW (u_frame 0 ts)" "fragment_frame DLT_RAW (u_frame 1 ts)" "fragment_frame DLT_RAW (u_frame 2 ts)"
  by code_simp+

lemma u_calls:
  "frame_call DLT_RAW (u_frame 0 ts) = (fr_data (u_frags ! 0), 28, 0, ts)"
  "frame_call DLT_RAW (u_frame 1 ts) = (fr_data (u_frags ! 1), 28, 0, ts)"
  "frame_call DLT_RAW (u_frame 2 ts) = (fr_data (u_frags ! 2), 22, 0, ts)"
  by code_simp+

lemma u_parse:
  "call_parse (\<lambda>_. True) (fr_data (u_frags ! 0), 28, 0, ts) = Ret (Some (u_frags ! 0, PROTO_IPV4, v4_id, id_hash v4_id, False))"
  "call_parse (\<lambda>_. True) (fr_data (u_frags ! 1), 28, 0, ts) = Ret (Some (u_frags ! 1, PROTO_IPV4, v4_id, id_hash v4_id, False))"
  "call_parse (\<lambda>_. True) (fr_data (u_frags ! 2), 22, 0, ts) = Ret (Some (u_frags ! 2, PROTO_IPV4, v4_id, id_hash v4_id, True))"
  by code_simp+

lemma u_frags_ok:
  "\<forall>f \<in> set u_frags. fits_packet f \<and> frag_stored f \<and> header_room PROTO_IPV4 f \<and> fr_len f \<noteq> 0"
  "\<forall>f \<in> set u_frags. piece_of u_octets f" "whole u_frags" "chain_end 0 u_frags = length u_octets"
  by (simp_all add: u_frags_def v4_entry_def v4_fragment_def fits_packet_def frag_stored_def header_room_def
      store_net16_def u_octets_def piece_of_def frag_content_def whole_def)

theorem pcap_udp_reassembles_witness:
  "\<exists>ans dg0' pcap'. pcap_frames (\<lambda>_. True) dg0 u_pcap ([u_frame 2 3, u_frame 0 7] @ [u_frame 1 9]) =
      Ret (ans @ [(nmsg_res_success, dg0')], pcap') \<and>
    length ans = 2 \<and> (\<forall>a \<in> set ans. fst a = nmsg_res_again) \<and> dg_octets dg0' = [1, 2, 3, 4, 5, 6, 7, 8, 9, 10] \<and>
    reasm_wf (pc_reasm pcap') \<and> (\<forall>e. \<not> holds (pc_reasm pcap') v4_id e)"
proof -
  let ?data = "[1, 2, 3, 4, 5, 6, 7, 8, 9, 10] :: byte list"
  let ?cs = "map (frame_call (pc_datalink u_pcap)) [u_frame 2 3, u_frame 0 7]"
  let ?c = "frame_call (pc_datalink u_pcap) (u_frame 1 9)"
  obtain h pkt where f: "u_frame 1 9 = (h, pkt)" by (cases "u_frame 1 9")
  have p: "pc_datalink u_pcap = DLT_RAW" "pc_reasm u_pcap = table0" "length (pc_new_pkt u_pcap) = 65536" "pc_userbpf u_pcap = None"
    by (simp_all add: u_pcap_def)
  obtain d where d: "v4_id = Id_ipv4 d" by (simp add: v4_id_def)
  have frames: "\<forall>f \<in> set ([u_frame 2 3, u_frame 0 7] @ [(h, pkt)]). fragment_frame (pc_datalink u_pcap) f"
    using u_frames p(1) by (simp add: f [symmetric] del: fragment_frame.simps One_nat_def)
  have mem: "u_frags ! 0 \<in> set u_frags" "u_frags ! 1 \<in> set u_frags" "u_frags ! 2 \<in> set u_frags"
    by (simp_all add: u_frags_def)
  have sane: "\<forall>c' \<in> set (?cs @ [?c]). call_sane (\<lambda>_. True) c'"
    using u_frags_ok(1) mem by (auto simp: p(1) u_calls call_sane_def u_parse frag_sane_def d simp del: One_nat_def frame_call.simps call_parse.simps)
  have time: "calls_in_time (r_timeout (pc_reasm u_pcap)) 20 (?cs @ [?c])"
    by (simp add: calls_in_time_def p u_calls table0_wf(3) del: One_nat_def frame_call.simps)
  have order: "map (call_frag (\<lambda>_. True) (Id_ipv4 d)) (?cs @ [?c]) =
      map (\<lambda>f. Some (f, f = last u_frags)) [u_frags ! 2, u_frags ! 0, u_frags ! 1]"
    by (simp add: p(1) u_calls call_frag_def u_parse d del: One_nat_def frame_call.simps call_parse.simps) (simp add: u_frags_def v4_entry_def)
  have perm: "mset [u_frags ! 2, u_frags ! 0, u_frags ! 1] = mset u_frags" by (simp add: u_frags_def)
  have P: "u_octets = udp_hdr [0, 53, 0, 53] (length ?data) [0, 0] @ ?data"
    by (simp add: u_octets_def udp_hdr_def store_net16_def)
  have ports: "4 \<le> length ([0, 53, 0, 53] :: byte list)" "2 \<le> length ([0, 0] :: byte list)" by simp_all
  have hdr: "packet_header PROTO_IPV4 (hd u_frags) ! 9 = IPPROTO_UDP"
    "length (packet_header PROTO_IPV4 (hd u_frags)) + length u_octets \<le> 65535"
    by (simp_all add: packet_header_def header_size_def u_frags_def v4_entry_def v4_fragment_def store_net16_def
      IPPROTO_UDP_def u_octets_def)
  have c: "?c = frame_call (pc_datalink u_pcap) (h, pkt)" by (simp only: f)
  have state: "reasm_wf (pc_reasm u_pcap)" "\<forall>e. \<not> holds (pc_reasm u_pcap) (Id_ipv4 d) e"
    using table0_wf p(2) by simp_all
  from pcap_udp_reassembles [OF frames refl c state(1) allI [OF TrueI] state(2) p(3,4) sane time P ports u_frags_ok(3,2,4) order perm refl hdr, of dg0]
  show ?thesis unfolding f d by (simp add: numeral_2_eq_2 del: pcap_frames.simps frame_call.simps)
qed

definition u_packet :: "byte list" where
  "u_packet = [0x45, 0, 0, 30, 0, 0, 0, 0, 64, 17, 0, 0, 10, 0, 0, 1, 10, 0, 0, 2] @ udp_hdr [0, 53, 0, 53] 2 [0, 0] @ [1, 2] @ [0, 0, 0]"

theorem ipdg_udp_payload_witness:
  "\<exists>dg0'. nmsg_ipdg_parse dg0 ETHERTYPE_IP 33 u_packet 0 = Ret (nmsg_res_success, dg0') \<and> dg_octets dg0' = [1, 2] \<and>
    dg_network dg0' = Some (u_packet, 0) \<and> dg_transport dg0' = Some (u_packet, 20)"
proof -
  let ?h = "[0x45, 0, 0, 30, 0, 0, 0, 0, 64, 17, 0, 0, 10, 0, 0, 1, 10, 0, 0, 2] :: byte list"
  let ?data = "[1, 2] :: byte list" and ?ports = "[0, 53, 0, 53] :: byte list" and ?cksum = "[0, 0] :: byte list"
  have eq: "u_packet = ?h @ udp_hdr ?ports (length ?data) ?cksum @ ?data @ [0, 0, 0]"
    by (simp add: u_packet_def numeral_2_eq_2)
  have c: "ihl u_packet 0 = length ?h" "unfragmented u_packet 0" "u_packet ! 9 = IPPROTO_UDP"
    by (simp_all add: u_packet_def ihl_def unfragmented_def IPPROTO_UDP_def)
  have l: "20 \<le> length ?h" "4 \<le> length ?ports" "2 \<le> length ?cksum" "length ?data \<le> 65527"
    "length ?h + 8 + length ?data \<le> unat (33 :: u64)" by simp_all
  from ipdg_udp_payload [OF eq l(1) c l(2-5), of dg0] show ?thesis by (simp add: eval_nat_numeral)
qed

theorem ipdg_parse_safe_witness:
  "\<exists>res dg0'. nmsg_ipdg_parse dg0 ETHERTYPE_IP 33 u_packet 0 = Ret (res, dg0') \<and>
    (res = nmsg_res_success \<longrightarrow> dg_within u_packet dg0' \<and> dg_proto_transport dg0' = IPPROTO_UDP)"
  by (rule ipdg_parse_safe) (simp add: ipdg_shape_def u_packet_def ihl_def udp_hdr_def)

theorem ipdg_header_length_overreads_witness:
  "nmsg_ipdg_parse_pcap (\<lambda>_. True) dg0 u_pcap \<lparr>ph_caplen = 28, ph_len = 28, ph_tv_sec = 0\<rparr>
     ([0x4F, 0, 0, 28, 0, 0, 0, 0, 64, 17] @ replicate 18 0) = Fault"
  by (rule ipdg_header_length_overreads)
    (simp_all add: u_pcap_def ihl_def unfragmented_def IPPROTO_UDP_def)

theorem ipdg_raw_tcp_payload_outside_witness:
  "\<exists>dg0' p. nmsg_ipdg_parse_pcap_raw dg0 DLT_RAW ([0x45, 0, 0, 40, 0, 0, 0, 0, 64, 6] @ replicate 22 0 @ [0xF0] @ replicate 7 0) 40 =
      Ret (nmsg_res_success, dg0') \<and>
    dg_payload dg0' = Some ([0x45, 0, 0, 40, 0, 0, 0, 0, 64, 6] @ replicate 22 0 @ [0xF0] @ replicate 7 0, p) \<and> 40 < p"
  using ipdg_raw_tcp_payload_outside [of "[0x45, 0, 0, 40, 0, 0, 0, 0, 64, 6] @ replicate 22 0 @ [0xF0] @ replicate 7 0" 40 dg0]
  by (simp add: ihl_def unfragmented_def IPPROTO_TCP_def nth_append)

theorem ipdg_exthdr_rejected_witness:
  "\<exists>dg0'. nmsg_ipdg_parse dg0 ETHERTYPE_IPV6 64
     ([0x60, 0, 0, 0, 0, 24, 0, 64] @ replicate 32 0 @ [17, 1] @ replicate 14 0 @ udp_hdr [0, 53, 0, 53] 0 [0, 0]) 0 =
     Ret (nmsg_res_again, dg0')"
  by (rule ipdg_exthdr_rejected [of _ _ _ 24])
    (simp_all add: is_exthdr_def IPPROTO_HOPOPTS_def IPPROTO_FRAGMENT_def nth_append udp_hdr_def)

end
