(* ===== verification/Heap.thy ===== *)
theory Heap
  imports Prelude "HOL-Library.Multiset"
begin

text \<open>
  The binary heap of libmy (heap.c) on the growing vectors of vector.h.
\<close>

section \<open>Vectors\<close>

text \<open>
  The elements in use, the capacity and the initial capacity. \<^verbatim>\<open>my_malloc\<close> and \<^verbatim>\<open>my_realloc\<close> abort when there is no
  memory: \<open>ok n\<close> is whether there is memory for \<open>n\<close> elements.
\<close>

record 'a ptrvec =
  vec_v :: "'a list"
  vec_n_alloced :: nat
  vec_hint :: nat

definition ptrvec_init :: "(nat \<Rightarrow> bool) \<Rightarrow> nat \<Rightarrow> 'a ptrvec run" where
  "ptrvec_init ok hint = (let hint = (if hint = 0 then 1 else hint)
     in if \<not> ok hint then Abort else Ret \<lparr>vec_v = [], vec_n_alloced = hint, vec_hint = hint\<rparr>)"

text \<open>The loop of \<^verbatim>\<open>add\<close> doubles the capacity until one more element fits; \<open>None\<close> is a loop that does not end.\<close>

partial_function (option) ptrvec_grow :: "(nat \<Rightarrow> bool) \<Rightarrow> nat \<Rightarrow> nat \<Rightarrow> nat run option" where
  "ptrvec_grow ok n n_alloced =
     (if n + 1 > n_alloced then
        if \<not> ok (2 * n_alloced) then Some Abort else ptrvec_grow ok n (2 * n_alloced)
      else Some (Ret n_alloced))"

definition ptrvec_add :: "(nat \<Rightarrow> bool) \<Rightarrow> 'a ptrvec \<Rightarrow> 'a \<Rightarrow> 'a ptrvec run option" where
  "ptrvec_add ok vec elem =
     map_option (\<lambda>r. run_bind r (\<lambda>a. Ret (vec\<lparr>vec_v := vec_v vec @ [elem], vec_n_alloced := a\<rparr>)))
       (ptrvec_grow ok (length (vec_v vec)) (vec_n_alloced vec))"

definition ptrvec_clip :: "'a ptrvec \<Rightarrow> nat \<Rightarrow> 'a ptrvec" where
  "ptrvec_clip vec n = (if n < length (vec_v vec) then vec\<lparr>vec_v := take n (vec_v vec)\<rparr> else vec)"

definition ptrvec_value :: "'a list \<Rightarrow> nat \<Rightarrow> 'a run" where
  "ptrvec_value v i = (if i < length v then Ret (v ! i) else Abort)"

text \<open>A store through \<^verbatim>\<open>ptrvec_data\<close>, which is not checked.\<close>

definition ptrvec_store :: "'a list \<Rightarrow> nat \<Rightarrow> 'a \<Rightarrow> 'a list run" where
  "ptrvec_store v i x = (if i < length v then Ret (v[i := x]) else Fault)"

section \<open>The heap\<close>

record 'a heap =
  hp_vec :: "'a ptrvec"
  hp_cmp :: "'a \<Rightarrow> 'a \<Rightarrow> int"

definition cmp_wrapper :: "('a \<Rightarrow> 'a \<Rightarrow> int) \<Rightarrow> 'a \<Rightarrow> 'a \<Rightarrow> int" where
  "cmp_wrapper cmp a b = (if cmp a b < 0 then 1 else 0)"

definition heap_init :: "(nat \<Rightarrow> bool) \<Rightarrow> ('a \<Rightarrow> 'a \<Rightarrow> int) \<Rightarrow> 'a heap run" where
  "heap_init ok cmp = run_bind (ptrvec_init ok 1) (\<lambda>v. Ret \<lparr>hp_vec = v, hp_cmp = cmp\<rparr>)"

text \<open>
  \<^verbatim>\<open>siftdown\<close> moves the element at \<open>pos\<close> towards the root; the answer is its result and the vector.
\<close>

function siftdown_loop :: "('a \<Rightarrow> 'a \<Rightarrow> int) \<Rightarrow> 'a \<Rightarrow> nat \<Rightarrow> 'a list \<Rightarrow> nat \<Rightarrow> (int \<times> 'a list) run" where
  "siftdown_loop cmp newitem startpos v pos =
     (if pos > startpos then
        run_bind (ptrvec_value v ((pos - 1) div 2)) (\<lambda>parent.
          let c = cmp_wrapper cmp newitem parent in
          if c = -1 then Ret (-1, v)
          else if c = 0 then run_bind (ptrvec_store v pos newitem) (\<lambda>v. Ret (0, v))
          else run_bind (ptrvec_store v pos parent) (\<lambda>v. siftdown_loop cmp newitem startpos v ((pos - 1) div 2)))
      else run_bind (ptrvec_store v pos newitem) (\<lambda>v. Ret (0, v)))"
  by pat_completeness auto
termination by (relation "measure (\<lambda>(cmp, newitem, startpos, v, pos). pos)") auto

declare siftdown_loop.simps [simp del]

definition siftdown :: "('a \<Rightarrow> 'a \<Rightarrow> int) \<Rightarrow> 'a list \<Rightarrow> nat \<Rightarrow> nat \<Rightarrow> (int \<times> 'a list) run" where
  "siftdown cmp v startpos pos =
     (if \<not> pos < length v then Abort
      else run_bind (ptrvec_value v pos) (\<lambda>newitem. siftdown_loop cmp newitem startpos v pos))"

text \<open>
  \<^verbatim>\<open>siftup\<close> moves the hole at \<open>pos\<close> down to a leaf along the smaller children and puts the element there, to be
  moved towards the root again.
\<close>

definition siftup_child :: "('a \<Rightarrow> 'a \<Rightarrow> int) \<Rightarrow> 'a list \<Rightarrow> nat \<Rightarrow> nat option run" where
  "siftup_child cmp v childpos =
     (let rightpos = childpos + 1 in
      if rightpos < length v then
        run_bind (ptrvec_value v childpos) (\<lambda>a. run_bind (ptrvec_value v rightpos) (\<lambda>b.
          let c = cmp_wrapper cmp a b in
          Ret (if c = -1 then None else Some (if c = 0 then rightpos else childpos))))
      else Ret (Some childpos))"

lemma siftup_child_ge: "siftup_child cmp v c = Ret (Some d) \<Longrightarrow> c \<le> d"
  by (auto simp: siftup_child_def Let_def split: if_splits)

lemma length_ptrvec_store: "ptrvec_store v i x = Ret w \<Longrightarrow> length w = length v"
  by (auto simp: ptrvec_store_def split: if_splits)

function siftup_loop :: "('a \<Rightarrow> 'a \<Rightarrow> int) \<Rightarrow> 'a list \<Rightarrow> nat \<Rightarrow> ('a list \<times> nat) option run" where
  "siftup_loop cmp v pos =
     (let childpos = 2 * pos + 1 in
      if childpos < length v then
        run_bind (siftup_child cmp v childpos) (\<lambda>r.
        case r of
          None \<Rightarrow> Ret None
        | Some childpos \<Rightarrow> run_bind (ptrvec_value v childpos) (\<lambda>x.
            run_bind (ptrvec_store v pos x) (\<lambda>v. siftup_loop cmp v childpos)))
      else Ret (Some (v, pos)))"
  by pat_completeness auto
termination
  by (relation "measure (\<lambda>(cmp, v, pos). length v - pos)")
    (auto dest!: siftup_child_ge length_ptrvec_store)

declare siftup_loop.simps [simp del]

definition siftup :: "('a \<Rightarrow> 'a \<Rightarrow> int) \<Rightarrow> 'a list \<Rightarrow> nat \<Rightarrow> (int \<times> 'a list) run" where
  "siftup cmp v pos =
     (if \<not> pos < length v then Abort
      else run_bind (ptrvec_value v pos) (\<lambda>newitem.
        run_bind (siftup_loop cmp v pos) (\<lambda>r.
        case r of
          None \<Rightarrow> Ret (-1, v)
        | Some (w, p) \<Rightarrow> run_bind (ptrvec_store w p newitem) (\<lambda>w. siftdown cmp w pos p))))"

definition heap_with :: "'a heap \<Rightarrow> 'a list \<Rightarrow> 'a heap" where
  "heap_with h v = h\<lparr>hp_vec := (hp_vec h)\<lparr>vec_v := v\<rparr>\<rparr>"

definition heap_push :: "(nat \<Rightarrow> bool) \<Rightarrow> 'a heap \<Rightarrow> 'a \<Rightarrow> 'a heap run option" where
  "heap_push ok h item =
     map_option (\<lambda>r. run_bind r (\<lambda>vec.
         run_bind (siftdown (hp_cmp h) (vec_v vec) 0 (length (vec_v vec) - 1)) (\<lambda>(c, v).
           Ret (heap_with (h\<lparr>hp_vec := vec\<rparr>) v))))
       (ptrvec_add ok (hp_vec h) item)"

definition heap_pop :: "'a heap \<Rightarrow> ('a option \<times> 'a heap) run" where
  "heap_pop h =
     (let v = vec_v (hp_vec h) in
      if length v < 1 then Ret (None, h)
      else run_bind (ptrvec_value v (length v - 1)) (\<lambda>lastelt.
        let h = h\<lparr>hp_vec := ptrvec_clip (hp_vec h) (length v - 1)\<rparr>; v = vec_v (hp_vec h) in
        if length v > 0 then
          run_bind (ptrvec_value v 0) (\<lambda>returnitem.
          run_bind (ptrvec_store v 0 lastelt) (\<lambda>v.
          run_bind (siftup (hp_cmp h) v 0) (\<lambda>(c, v). Ret (Some returnitem, heap_with h v))))
        else Ret (Some lastelt, h)))"

definition heap_replace :: "'a heap \<Rightarrow> 'a \<Rightarrow> ('a option \<times> 'a heap) run" where
  "heap_replace h item =
     (let v = vec_v (hp_vec h) in
      if length v < 1 then Ret (None, h)
      else run_bind (ptrvec_value v 0) (\<lambda>returnitem.
        run_bind (ptrvec_store v 0 item) (\<lambda>v.
        run_bind (siftup (hp_cmp h) v 0) (\<lambda>(c, v). Ret (Some returnitem, heap_with h v)))))"

definition heap_peek :: "'a heap \<Rightarrow> 'a option" where
  "heap_peek h = (let v = vec_v (hp_vec h) in if length v < 1 then None else Some (v ! 0))"

text \<open>The bound \<^verbatim>\<open>ptrvec_size(h->vec) - 1\<close> is computed in \<^verbatim>\<open>size_t\<close>.\<close>

definition heap_get :: "'a heap \<Rightarrow> u64 \<Rightarrow> 'a option run" where
  "heap_get h i =
     (let v = vec_v (hp_vec h) in
      if i > of_nat (length v) - 1 then Ret None
      else run_bind (ptrvec_value v (unat i)) (\<lambda>x. Ret (Some x)))"

definition heap_size :: "'a heap \<Rightarrow> nat" where
  "heap_size h = length (vec_v (hp_vec h))"

section \<open>Order\<close>

text \<open>What a comparison function has to be: a strict weak order.\<close>

definition before :: "('a \<Rightarrow> 'a \<Rightarrow> int) \<Rightarrow> 'a \<Rightarrow> 'a \<Rightarrow> bool" where
  "before cmp a b \<longleftrightarrow> \<not> cmp b a < 0"

definition compare_ok :: "('a \<Rightarrow> 'a \<Rightarrow> int) \<Rightarrow> bool" where
  "compare_ok cmp \<longleftrightarrow> (\<forall>a b. cmp a b < 0 \<longrightarrow> before cmp a b) \<and>
     (\<forall>a b c. before cmp a b \<longrightarrow> before cmp b c \<longrightarrow> before cmp a c)"

abbreviation parent :: "nat \<Rightarrow> nat" where "parent i \<equiv> (i - 1) div 2"

definition heap_ordered :: "('a \<Rightarrow> 'a \<Rightarrow> int) \<Rightarrow> 'a list \<Rightarrow> bool" where
  "heap_ordered cmp v \<longleftrightarrow> (\<forall>i. 0 < i \<longrightarrow> i < length v \<longrightarrow> before cmp (v ! parent i) (v ! i))"

text \<open>Ordered except that the element at \<open>p\<close> may be too small for its place.\<close>

definition ordered_but :: "('a \<Rightarrow> 'a \<Rightarrow> int) \<Rightarrow> 'a list \<Rightarrow> nat \<Rightarrow> bool" where
  "ordered_but cmp v p \<longleftrightarrow> (\<forall>i. 0 < i \<longrightarrow> i < length v \<longrightarrow>
     (i \<noteq> p \<longrightarrow> before cmp (v ! parent i) (v ! i)) \<and>
     (parent i = p \<longrightarrow> 0 < p \<longrightarrow> before cmp (v ! parent p) (v ! i)))"

text \<open>Ordered around a hole at \<open>p\<close>.\<close>

definition ordered_hole :: "('a \<Rightarrow> 'a \<Rightarrow> int) \<Rightarrow> 'a list \<Rightarrow> nat \<Rightarrow> bool" where
  "ordered_hole cmp v p \<longleftrightarrow> (\<forall>i. 0 < i \<longrightarrow> i < length v \<longrightarrow>
     (i \<noteq> p \<longrightarrow> parent i \<noteq> p \<longrightarrow> before cmp (v ! parent i) (v ! i)) \<and>
     (parent i = p \<longrightarrow> 0 < p \<longrightarrow> before cmp (v ! parent p) (v ! i)))"

lemma before_trans: "compare_ok cmp \<Longrightarrow> before cmp a b \<Longrightarrow> before cmp b c \<Longrightarrow> before cmp a c"
  unfolding compare_ok_def by blast

lemma before_total: "compare_ok cmp \<Longrightarrow> before cmp a b \<or> before cmp b a"
  unfolding compare_ok_def before_def by blast

lemma before_refl: "compare_ok cmp \<Longrightarrow> before cmp a a"
  using before_total [of cmp a a] by blast

lemma less_before: "compare_ok cmp \<Longrightarrow> cmp a b < 0 \<Longrightarrow> before cmp a b"
  unfolding compare_ok_def by blast

lemma siftdown_step:
  assumes c: "compare_ok cmp" and o: "ordered_but cmp v p" and p: "0 < p" "p < length v"
    and less: "cmp (v ! p) (v ! parent p) < 0"
  shows "ordered_but cmp (v[p := v ! parent p, parent p := v ! p]) (parent p)"
proof -
  let ?q = "parent p" and ?w = "v[p := v ! parent p, parent p := v ! p]"
  have q: "?q < p" using p(1) by simp
  have w: "?w ! ?q = v ! p" "?w ! p = v ! ?q" "\<And>i. i \<noteq> p \<Longrightarrow> i \<noteq> ?q \<Longrightarrow> ?w ! i = v ! i"
    using q p(2) by simp_all
  have o1: "before cmp (v ! parent i) (v ! i)" if "0 < i" "i < length v" "i \<noteq> p" for i
    using o that unfolding ordered_but_def by blast
  have o2: "before cmp (v ! ?q) (v ! i)" if "0 < i" "i < length v" "parent i = p" for i
    using o that p(1) unfolding ordered_but_def by blast
  have lb: "before cmp (v ! p) (v ! ?q)" by (rule less_before [OF c less])
  show ?thesis unfolding ordered_but_def
  proof (intro allI impI conjI)
    fix i assume i: "0 < i" "i < length ?w"
    have pi: "parent i < i" using i(1) by simp
    {
      assume ne: "i \<noteq> ?q"
      consider "i = p" | "i \<noteq> p" "parent i = p" | "i \<noteq> p" "parent i = ?q" | "i \<noteq> p" "parent i \<noteq> p" "parent i \<noteq> ?q"
        by blast
      then show "before cmp (?w ! parent i) (?w ! i)"
      proof cases
        case 1 then show ?thesis using w lb by simp
      next
        case 2 then show ?thesis using w(2) w(3) [of i] ne o2 [of i] i by simp
      next
        case 3 then show ?thesis using w(1) w(3) [of i] ne o1 [of i] i before_trans [OF c lb] by simp
      next
        case 4 then show ?thesis using w(3) [of i] w(3) [of "parent i"] ne o1 [of i] i by simp
      qed
    }
    assume q': "parent i = ?q" "0 < ?q"
    have pq: "parent ?q < ?q" using q'(2) by simp
    have top: "before cmp (v ! parent ?q) (v ! ?q)" using o1 [of ?q] q'(2) q p(2) by simp
    have wq: "?w ! parent ?q = v ! parent ?q" using w(3) [of "parent ?q"] pq q by simp
    show "before cmp (?w ! parent ?q) (?w ! i)"
    proof (cases "i = p")
      case True then show ?thesis using wq w(2) top by simp
    next
      case False
      then have "?w ! i = v ! i" using w(3) [of i] pi q'(1) by simp
      then show ?thesis using wq before_trans [OF c top] o1 [of i] False i q'(1) by simp
    qed
  qed
qed

lemma ordered_but_done:
  "ordered_but cmp v p \<Longrightarrow> p = 0 \<or> before cmp (v ! parent p) (v ! p) \<Longrightarrow> heap_ordered cmp v"
  unfolding ordered_but_def heap_ordered_def by blast

lemma swap_multiset:
  "p < length v \<Longrightarrow> q < length v \<Longrightarrow> mset (v[p := v ! q, q := v ! p]) = mset v"
  by (rule mset_swap)

text \<open>\<open>v\<close> has \<open>x\<close> put at \<open>p\<close>; the vector of the loop has anything there.\<close>

lemma siftdown_loop_ok:
  assumes "compare_ok cmp" and "ordered_but cmp (u[p := x]) p" and "p < length u"
  shows "\<exists>w. siftdown_loop cmp x 0 u p = Ret (0, w) \<and> heap_ordered cmp w \<and> mset w = mset (u[p := x])"
  using assms(2,3)
proof (induction p arbitrary: u rule: less_induct)
  case (less p)
  let ?v = "u[p := x]"
  show ?case
  proof (cases "p = 0")
    case True
    then show ?thesis
      using ordered_but_done [OF less.prems(1)] less.prems(2)
      by (subst siftdown_loop.simps) (simp add: ptrvec_store_def)
  next
    case False
    then have q: "parent p < p" "parent p < length u" using less.prems(2) by simp_all
    show ?thesis
    proof (cases "cmp x (u ! parent p) < 0")
      case True
      have step: "siftdown_loop cmp x 0 u p = siftdown_loop cmp x 0 (u[p := u ! parent p]) (parent p)"
        using False True q less.prems(2)
        by (subst siftdown_loop.simps) (simp add: ptrvec_value_def ptrvec_store_def cmp_wrapper_def)
      have eq: "?v[p := ?v ! parent p, parent p := ?v ! p] = u[p := u ! parent p, parent p := x]"
        using q less.prems(2) by simp
      have "ordered_but cmp (u[p := u ! parent p, parent p := x]) (parent p)"
        using siftdown_step [OF assms(1) less.prems(1)] False True q less.prems(2) eq by simp
      from less.IH [OF q(1) this] q(2) obtain w where
        "siftdown_loop cmp x 0 (u[p := u ! parent p]) (parent p) = Ret (0, w)" "heap_ordered cmp w"
        "mset w = mset (u[p := u ! parent p, parent p := x])" by auto
      moreover have "mset (u[p := u ! parent p, parent p := x]) = mset ?v"
        using swap_multiset [of p ?v "parent p"] q less.prems(2) unfolding eq by simp
      ultimately show ?thesis using step by simp
    next
      case nless: False
      have "siftdown_loop cmp x 0 u p = Ret (0, ?v)"
        using False nless q less.prems(2)
        by (subst siftdown_loop.simps) (simp add: ptrvec_value_def ptrvec_store_def cmp_wrapper_def)
      moreover have "before cmp (?v ! parent p) (?v ! p)"
        using nless q less.prems(2) by (simp add: before_def)
      ultimately show ?thesis using ordered_but_done [OF less.prems(1)] by simp
    qed
  qed
qed

lemma siftdown_ok:
  assumes "compare_ok cmp" and "ordered_but cmp v p" and "p < length v"
  shows "\<exists>w. siftdown cmp v 0 p = Ret (0, w) \<and> heap_ordered cmp w \<and> mset w = mset v"
  using siftdown_loop_ok [OF assms(1), of v p "v ! p"] assms(2,3) by (simp add: siftdown_def ptrvec_value_def)

lemma siftup_child_ok:
  assumes "compare_ok cmp" and "2 * p + 1 < length v"
  shows "\<exists>c. siftup_child cmp v (2 * p + 1) = Ret (Some c) \<and> 0 < c \<and> parent c = p \<and> c < length v \<and>
    (\<forall>i. 0 < i \<longrightarrow> i < length v \<longrightarrow> parent i = p \<longrightarrow> before cmp (v ! c) (v ! i))"
proof -
  have kids: "i = 2 * p + 1 \<or> i = 2 * p + 2" if "0 < i" "parent i = p" for i
    using that by (cases "even i") (auto elim!: evenE oddE)
  note refl = before_refl [OF assms(1)]
  show ?thesis
  proof (cases "2 * p + 2 < length v")
    case True
    show ?thesis
    proof (cases "cmp (v ! (2 * p + 1)) (v ! (2 * p + 2)) < 0")
      case less: True
      then have "siftup_child cmp v (2 * p + 1) = Ret (Some (2 * p + 1))"
        using True assms(2) by (simp add: siftup_child_def ptrvec_value_def cmp_wrapper_def Let_def)
      then show ?thesis
        using assms(2) kids refl less_before [OF assms(1) less] by (intro exI [of _ "2 * p + 1"]) (fastforce dest: kids)
    next
      case nless: False
      then have b: "before cmp (v ! (2 * p + 2)) (v ! (2 * p + 1))" by (simp add: before_def)
      from nless have "siftup_child cmp v (2 * p + 1) = Ret (Some (2 * p + 2))"
        using True assms(2) by (simp add: siftup_child_def ptrvec_value_def cmp_wrapper_def Let_def)
      then show ?thesis
        using True kids refl b by (intro exI [of _ "2 * p + 2"]) (fastforce dest: kids)
    qed
  next
    case False
    then have "siftup_child cmp v (2 * p + 1) = Ret (Some (2 * p + 1))" by (simp add: siftup_child_def Let_def)
    then show ?thesis using assms(2) kids refl False by (intro exI [of _ "2 * p + 1"]) (fastforce dest: kids)
  qed
qed

lemma siftup_step:
  assumes "ordered_hole cmp v p" and c: "0 < c" "parent c = p" "c < length v"
    and least: "\<forall>i. 0 < i \<longrightarrow> i < length v \<longrightarrow> parent i = p \<longrightarrow> before cmp (v ! c) (v ! i)"
  shows "ordered_hole cmp (v[p := v ! c]) c"
  unfolding ordered_hole_def
proof (intro allI impI conjI)
  have pc: "p < c" using c(1,2) by auto
  fix i assume i: "0 < i" "i < length (v[p := v ! c])"
  {
    assume ne: "i \<noteq> c" "parent i \<noteq> c"
    show "before cmp (v[p := v ! c] ! parent i) (v[p := v ! c] ! i)"
    proof (cases "i = p")
      case True
      then have "before cmp (v ! parent p) (v ! c)" using assms(1) c i unfolding ordered_hole_def by blast
      moreover have "parent p \<noteq> p" using True i(1) by simp
      ultimately show ?thesis using True i(2) by simp
    next
      case False
      show ?thesis
      proof (cases "parent i = p")
        case True
        then show ?thesis using least i False by simp
      next
        case notp: False
        then have "before cmp (v ! parent i) (v ! i)" using assms(1) i False unfolding ordered_hole_def by simp
        then show ?thesis using False notp by simp
      qed
    qed
  }
  assume pi: "parent i = c" "0 < c"
  then have "i \<noteq> p" "parent i \<noteq> p" using pc by auto
  then have "before cmp (v ! c) (v ! i)" using assms(1) i pi unfolding ordered_hole_def by force
  then show "before cmp (v[p := v ! c] ! parent c) (v[p := v ! c] ! i)"
    using c(2,3) pc \<open>i \<noteq> p\<close> by simp
qed

lemma siftup_loop_ok:
  assumes "compare_ok cmp" and "ordered_hole cmp v p" and "p < length v"
  shows "\<exists>w q. siftup_loop cmp v p = Ret (Some (w, q)) \<and> q < length w \<and> length w = length v \<and>
    ordered_but cmp (w[q := x]) q \<and> mset (w[q := x]) = mset (v[p := x])"
  using assms(2,3)
proof (induction "length v - p" arbitrary: v p rule: less_induct)
  case less
  show ?case
  proof (cases "2 * p + 1 < length v")
    case True
    from siftup_child_ok [OF assms(1) True] obtain c where c: "siftup_child cmp v (2 * p + 1) = Ret (Some c)" "0 < c"
      "parent c = p" "c < length v"
      "\<forall>i. 0 < i \<longrightarrow> i < length v \<longrightarrow> parent i = p \<longrightarrow> before cmp (v ! c) (v ! i)" by blast
    have pc: "p < c" using c(2,3) by auto
    have step: "siftup_loop cmp v p = siftup_loop cmp (v[p := v ! c]) c"
      using True c(1,4) less.prems(2)
      by (subst siftup_loop.simps) (simp add: ptrvec_value_def ptrvec_store_def Let_def)
    have "length (v[p := v ! c]) - c < length v - p" using pc c(4) by simp
    from less.hyps [OF this siftup_step [OF less.prems(1) c(2-5)]] c(4) obtain w q where
      "siftup_loop cmp (v[p := v ! c]) c = Ret (Some (w, q))" "q < length w" "length w = length v"
      "ordered_but cmp (w[q := x]) q" "mset (w[q := x]) = mset (v[p := v ! c, c := x])" by auto
    moreover have "mset (v[p := v ! c, c := x]) = mset (v[p := x])"
      using swap_multiset [of p "v[p := x]" c] pc c(4) less.prems(2) by simp
    ultimately show ?thesis using step by simp
  next
    case False
    have "ordered_but cmp (v[p := x]) p"
      unfolding ordered_but_def
    proof (intro allI impI)
      fix i assume i: "0 < i" "i < length (v[p := x])"
      have "parent i \<noteq> p"
      proof
        assume "parent i = p"
        then have "2 * p + 1 \<le> i" using i(1) by (cases "even i") (auto elim!: evenE oddE)
        then show False using False i(2) by simp
      qed
      then show "(i \<noteq> p \<longrightarrow> before cmp (v[p := x] ! parent i) (v[p := x] ! i)) \<and>
          (parent i = p \<longrightarrow> 0 < p \<longrightarrow> before cmp (v[p := x] ! parent p) (v[p := x] ! i))"
        using less.prems(1) i unfolding ordered_hole_def by simp
    qed
    moreover have "siftup_loop cmp v p = Ret (Some (v, p))" using False by (subst siftup_loop.simps) simp
    ultimately show ?thesis using less.prems(2) by simp
  qed
qed

lemma siftup_ok:
  assumes "compare_ok cmp" and "ordered_hole cmp v 0" and "v \<noteq> []"
  shows "\<exists>w. siftup cmp v 0 = Ret (0, w) \<and> heap_ordered cmp w \<and> mset w = mset v"
proof -
  from siftup_loop_ok [OF assms(1,2), of "v ! 0"] assms(3) obtain w q where w:
    "siftup_loop cmp v 0 = Ret (Some (w, q))" "q < length w" "ordered_but cmp (w[q := v ! 0]) q"
    "mset (w[q := v ! 0]) = mset v" by auto
  from siftdown_ok [OF assms(1) w(3)] w(2) obtain w' where
    "siftdown cmp (w[q := v ! 0]) 0 q = Ret (0, w')" "heap_ordered cmp w'" "mset w' = mset v" using w(4) by auto
  then show ?thesis using w(1,2) assms(3) by (simp add: siftup_def ptrvec_value_def ptrvec_store_def)
qed

section \<open>Sequences of calls\<close>

fun push_all :: "('h \<Rightarrow> 'a \<Rightarrow> 'h run) \<Rightarrow> 'h \<Rightarrow> 'a list \<Rightarrow> 'h run" where
  "push_all push h [] = Ret h"
| "push_all push h (x # xs) = run_bind (push h x) (\<lambda>h. push_all push h xs)"

fun drain :: "('h \<Rightarrow> ('a option \<times> 'h) run) \<Rightarrow> nat \<Rightarrow> 'h \<Rightarrow> ('a list \<times> 'h) run" where
  "drain pop 0 h = Ret ([], h)"
| "drain pop (Suc n) h = run_bind (pop h) (\<lambda>(x, h). run_bind (drain pop n h) (\<lambda>(xs, h).
     Ret (case x of None \<Rightarrow> xs | Some x \<Rightarrow> x # xs, h)))"

section \<open>The contract of a priority queue\<close>

text \<open>
  Pushing may find no memory, and then aborts; \<open>le\<close> is the order, \<open>items\<close> the multiset of the elements.
\<close>

locale priority_queue =
  fixes ok_heap :: "'h \<Rightarrow> bool"
    and push :: "'h \<Rightarrow> 'a \<Rightarrow> 'h run"
    and pop :: "'h \<Rightarrow> ('a option \<times> 'h) run"
    and items :: "'h \<Rightarrow> 'a multiset"
    and le :: "'a \<Rightarrow> 'a \<Rightarrow> bool"
  assumes push_item: "ok_heap h \<Longrightarrow> \<exists>h'. push h x = Ret h' \<and> ok_heap h' \<and> items h' = add_mset x (items h)"
    and pop_empty: "ok_heap h \<Longrightarrow> items h = {#} \<Longrightarrow> pop h = Ret (None, h)"
    and pop_least: "ok_heap h \<Longrightarrow> items h \<noteq> {#} \<Longrightarrow> \<exists>x h'. pop h = Ret (Some x, h') \<and> ok_heap h' \<and>
      items h = add_mset x (items h') \<and> (\<forall>y \<in># items h. le x y)"
begin

lemma sorted_drain:
  "ok_heap h \<Longrightarrow> size (items h) \<le> n \<Longrightarrow>
    \<exists>xs h'. drain pop n h = Ret (xs, h') \<and> mset xs = items h \<and> sorted_wrt le xs \<and> items h' = {#}"
proof (induction n arbitrary: h)
  case 0
  then show ?case by simp
next
  case (Suc n)
  show ?case
  proof (cases "items h = {#}")
    case True
    from Suc.IH [OF Suc.prems(1)] True pop_empty [OF Suc.prems(1) True] show ?thesis by auto
  next
    case False
    from pop_least [OF Suc.prems(1) False] obtain x h' where x: "pop h = Ret (Some x, h')" "ok_heap h'"
      "items h = add_mset x (items h')" "\<forall>y \<in># items h. le x y" by blast
    from Suc.IH [OF x(2)] Suc.prems(2) x(3) obtain xs h'' where
      "drain pop n h' = Ret (xs, h'')" "mset xs = items h'" "sorted_wrt le xs" "items h'' = {#}" by auto
    moreover from this(2) have "\<forall>y \<in> set xs. le x y" using x(3,4) by (metis set_mset_mset union_iff add_mset_add_single)
    ultimately show ?thesis using x by auto
  qed
qed

lemma push_all_items:
  "ok_heap h \<Longrightarrow> \<exists>h'. push_all push h xs = Ret h' \<and> ok_heap h' \<and> items h' = mset xs + items h"
proof (induction xs arbitrary: h)
  case (Cons x xs)
  from push_item [OF Cons.prems, of x] obtain h1 where h1: "push h x = Ret h1" "ok_heap h1"
    "items h1 = add_mset x (items h)" by blast
  from Cons.IH [OF h1(2)] h1 show ?case by auto
qed simp

end

section \<open>The operations keep the contract\<close>

definition heap_wf :: "('a \<Rightarrow> 'a \<Rightarrow> int) \<Rightarrow> 'a heap \<Rightarrow> bool" where
  "heap_wf cmp h \<longleftrightarrow> compare_ok cmp \<and> hp_cmp h = cmp \<and> heap_ordered cmp (vec_v (hp_vec h)) \<and>
     length (vec_v (hp_vec h)) \<le> vec_n_alloced (hp_vec h) \<and> 0 < vec_n_alloced (hp_vec h)"

definition heap_items :: "'a heap \<Rightarrow> 'a multiset" where
  "heap_items h = mset (vec_v (hp_vec h))"

definition push_run :: "'a heap \<Rightarrow> 'a \<Rightarrow> 'a heap run" where
  "push_run h x = (case heap_push (\<lambda>_. True) h x of Some r \<Rightarrow> r | None \<Rightarrow> Fault)"

lemma ptrvec_grow_ends:
  assumes "n \<le> a" and "0 < a"
  shows "\<exists>b. ptrvec_grow (\<lambda>_. True) n a = Some (Ret b) \<and> n + 1 \<le> b"
proof (cases "n + 1 \<le> a")
  case True
  then show ?thesis by (simp add: ptrvec_grow.simps)
next
  case False
  then have "n + 1 \<le> 2 * a" using assms by simp
  with False show ?thesis by (simp add: ptrvec_grow.simps [of _ n a] ptrvec_grow.simps [of _ n "2 * a"])
qed

lemma ordered_append: "heap_ordered cmp v \<Longrightarrow> ordered_but cmp (v @ [x]) (length v)"
  unfolding heap_ordered_def ordered_but_def
proof (intro allI impI conjI)
  fix i assume o: "\<forall>i>0. i < length v \<longrightarrow> before cmp (v ! parent i) (v ! i)" and i: "0 < i" "i < length (v @ [x])"
  show "before cmp ((v @ [x]) ! parent i) ((v @ [x]) ! i)" if "i \<noteq> length v"
  proof -
    have "parent i < length v" "i < length v" using i that by auto
    then show ?thesis using o i(1) by (simp add: nth_append)
  qed
  show "before cmp ((v @ [x]) ! parent (length v)) ((v @ [x]) ! i)" if "parent i = length v" "0 < length v"
    using that i by auto
qed

lemma heap_push_ok:
  assumes "heap_wf cmp h"
  shows "\<exists>h'. heap_push (\<lambda>_. True) h x = Some (Ret h') \<and> heap_wf cmp h' \<and> heap_items h' = add_mset x (heap_items h)"
proof -
  let ?v = "vec_v (hp_vec h)"
  have wf: "compare_ok cmp" "hp_cmp h = cmp" "heap_ordered cmp ?v" "length ?v \<le> vec_n_alloced (hp_vec h)"
    "0 < vec_n_alloced (hp_vec h)" using assms by (simp_all add: heap_wf_def)
  from ptrvec_grow_ends [OF wf(4,5)] obtain b where b: "ptrvec_grow (\<lambda>_. True) (length ?v) (vec_n_alloced (hp_vec h)) = Some (Ret b)"
    "length ?v + 1 \<le> b" by blast
  from siftdown_ok [OF wf(1) ordered_append [OF wf(3), of x]] obtain w where
    w: "siftdown cmp (?v @ [x]) 0 (length ?v) = Ret (0, w)" "heap_ordered cmp w" "mset w = mset (?v @ [x])" by auto
  have "length w = length ?v + 1" using arg_cong [OF w(3), of size] by simp
  then show ?thesis
    using b w wf(1,2) by (simp add: heap_push_def ptrvec_add_def heap_with_def heap_wf_def heap_items_def)
qed

lemma heap_least:
  assumes "compare_ok cmp" and "heap_ordered cmp v"
  shows "i < length v \<Longrightarrow> before cmp (v ! 0) (v ! i)"
proof (induction i rule: less_induct)
  case (less i)
  show ?case
  proof (cases "i = 0")
    case True
    then show ?thesis using before_refl [OF assms(1)] by simp
  next
    case False
    then have "parent i < i" by simp
    then have "before cmp (v ! 0) (v ! parent i)" using less by simp
    moreover have "before cmp (v ! parent i) (v ! i)" using assms(2) False less.prems unfolding heap_ordered_def by simp
    ultimately show ?thesis by (rule before_trans [OF assms(1)])
  qed
qed

lemma ordered_take:
  assumes "heap_ordered cmp v"
  shows "heap_ordered cmp (take n v)"
  unfolding heap_ordered_def
proof (intro allI impI)
  fix i assume i: "0 < i" "i < length (take n v)"
  then have "parent i < i" "i < n" "i < length v" by simp_all
  then show "before cmp (take n v ! parent i) (take n v ! i)"
    using assms i(1) unfolding heap_ordered_def by simp
qed

lemma ordered_root: "heap_ordered cmp v \<Longrightarrow> ordered_hole cmp (v[0 := x]) 0"
  unfolding heap_ordered_def ordered_hole_def by (auto simp: nth_list_update)

lemma heap_pop_ok:
  assumes "heap_wf cmp h" and "heap_items h \<noteq> {#}"
  shows "\<exists>x h'. heap_pop h = Ret (Some x, h') \<and> heap_wf cmp h' \<and> heap_items h = add_mset x (heap_items h') \<and>
    (\<forall>y \<in># heap_items h. before cmp x y)"
proof -
  let ?v = "vec_v (hp_vec h)" and ?n = "length (vec_v (hp_vec h)) - 1"
  define u where "u = take ?n ?v"
  have wf: "compare_ok cmp" "hp_cmp h = cmp" "heap_ordered cmp ?v" "length ?v \<le> vec_n_alloced (hp_vec h)"
    "0 < vec_n_alloced (hp_vec h)" using assms(1) by (simp_all add: heap_wf_def)
  have ne: "?v \<noteq> []" using assms(2) by (simp add: heap_items_def)
  then have v: "?v = u @ [?v ! ?n]" 
    using append_butlast_last_id [OF ne] by (simp add: u_def butlast_conv_take last_conv_nth)
  have least: "\<forall>y \<in># heap_items h. before cmp (?v ! 0) y"
    using heap_least [OF wf(1,3)] by (auto simp: heap_items_def in_set_conv_nth)
  have clip: "vec_v (ptrvec_clip (hp_vec h) ?n) = u" "vec_n_alloced (ptrvec_clip (hp_vec h) ?n) = vec_n_alloced (hp_vec h)"
    using ne by (simp_all add: ptrvec_clip_def u_def)
  have ordu: "heap_ordered cmp u" unfolding u_def by (rule ordered_take [OF wf(3)])
  show ?thesis
  proof (cases "u = []")
    case True
    then obtain y where y: "?v = [y]" using ne by (cases ?v) (auto simp: u_def)
    have "heap_pop h = Ret (Some y, h\<lparr>hp_vec := (hp_vec h)\<lparr>vec_v := []\<rparr>\<rparr>)"
      by (simp add: heap_pop_def Let_def ptrvec_value_def ptrvec_clip_def y)
    then show ?thesis
      using wf least y by (simp add: heap_wf_def heap_items_def heap_ordered_def)
  next
    case False
    then have u0: "u ! 0 = ?v ! 0" by (simp add: u_def)
    from siftup_ok [OF wf(1) ordered_root [OF ordu], of "?v ! ?n"] False obtain w where
      w: "siftup cmp (u[0 := ?v ! ?n]) 0 = Ret (0, w)" "heap_ordered cmp w" "mset w = mset (u[0 := ?v ! ?n])" by auto
    have lw: "length w = length u" using arg_cong [OF w(3), of size] by simp
    let ?h = "heap_with (h\<lparr>hp_vec := ptrvec_clip (hp_vec h) ?n\<rparr>) w"
    have "heap_pop h = Ret (Some (?v ! 0), ?h)"
      using ne False clip(1) w(1) wf(2) u0 by (simp add: heap_pop_def Let_def ptrvec_value_def ptrvec_store_def)
    moreover have "heap_wf cmp ?h"
      using wf w(2) clip lw by (simp add: heap_wf_def heap_with_def u_def)
    moreover have "heap_items h = add_mset (?v ! 0) (heap_items ?h)"
    proof -
      obtain u' where u': "u = ?v ! 0 # u'" using False u0 by (cases u) auto
      have "mset ?v = mset (u @ [?v ! ?n])" using v by (rule arg_cong)
      also have "\<dots> = add_mset (?v ! 0) (mset (?v ! ?n # u'))" by (subst u') simp
      also have "?v ! ?n # u' = u[0 := ?v ! ?n]" by (subst u') simp
      finally show ?thesis using w(3) by (simp add: heap_items_def heap_with_def)
    qed
    ultimately show ?thesis using least by blast
  qed
qed

lemma heap_pop_empty: "heap_items h = {#} \<Longrightarrow> heap_pop h = Ret (None, h)"
  by (simp add: heap_pop_def heap_items_def Let_def)

lemma push_run_ok:
  "heap_wf cmp h \<Longrightarrow> \<exists>h'. push_run h x = Ret h' \<and> heap_wf cmp h' \<and> heap_items h' = add_mset x (heap_items h)"
  using heap_push_ok [of cmp h x] by (auto simp: push_run_def)

interpretation hp: priority_queue "heap_wf cmp" push_run heap_pop heap_items "before cmp" for cmp
  by unfold_locales (auto intro: push_run_ok heap_pop_empty heap_pop_ok)

lemma heap_init_ok:
  assumes "compare_ok cmp"
  shows "\<exists>h. heap_init (\<lambda>_. True) cmp = Ret h \<and> heap_wf cmp h \<and> heap_items h = {#}"
  using assms by (simp add: heap_init_def ptrvec_init_def heap_wf_def heap_ordered_def heap_items_def)

lemma heap_replace_ok:
  assumes "heap_wf cmp h" and "heap_items h \<noteq> {#}"
  shows "\<exists>x h'. heap_replace h item = Ret (Some x, h') \<and> heap_wf cmp h' \<and>
    add_mset item (heap_items h) = add_mset x (heap_items h') \<and> (\<forall>y \<in># heap_items h. before cmp x y)"
proof -
  let ?v = "vec_v (hp_vec h)"
  have wf: "compare_ok cmp" "hp_cmp h = cmp" "heap_ordered cmp ?v" "length ?v \<le> vec_n_alloced (hp_vec h)"
    "0 < vec_n_alloced (hp_vec h)" using assms(1) by (simp_all add: heap_wf_def)
  have ne: "?v \<noteq> []" using assms(2) by (simp add: heap_items_def)
  from siftup_ok [OF wf(1) ordered_root [OF wf(3)], of item] ne obtain w where
    w: "siftup cmp (?v[0 := item]) 0 = Ret (0, w)" "heap_ordered cmp w" "mset w = mset (?v[0 := item])" by auto
  have "length w = length ?v" using arg_cong [OF w(3), of size] by simp
  moreover have "heap_replace h item = Ret (Some (?v ! 0), heap_with h w)"
    using ne w(1) wf(2) by (simp add: heap_replace_def Let_def ptrvec_value_def ptrvec_store_def)
  moreover have "add_mset item (mset ?v) = add_mset (?v ! 0) (mset w)"
    using ne w(3) by (cases ?v) simp_all
  ultimately show ?thesis
    using wf w(2) heap_least [OF wf(1,3)] by (auto simp: heap_wf_def heap_with_def heap_items_def in_set_conv_nth)
qed

section \<open>Properties\<close>

text \<open>
  C37.
  The heap is a priority queue: whatever elements are pushed on a new heap, in any order, popping them all returns the same
  elements, each as often as it was pushed, in the order of the comparison function. No operation fails, and the vector always
  has room. The comparison function has to be a strict weak order, and there has to be memory.
\<close>
theorem heap_sorts:
  assumes "compare_ok cmp"
  shows "\<exists>h h' ys h''. heap_init (\<lambda>_. True) cmp = Ret h \<and> push_all push_run h xs = Ret h' \<and>
    drain heap_pop (length xs) h' = Ret (ys, h'') \<and> mset ys = mset xs \<and> sorted_wrt (before cmp) ys \<and> heap_items h'' = {#}"
proof -
  from heap_init_ok [OF assms] obtain h where h: "heap_init (\<lambda>_. True) cmp = Ret h" "heap_wf cmp h" "heap_items h = {#}" by blast
  from hp.push_all_items [OF h(2), of xs] h(3) obtain h' where
    h': "push_all push_run h xs = Ret h'" "heap_wf cmp h'" "heap_items h' = mset xs" by auto
  from hp.sorted_drain [OF h'(2), of "length xs"] h'(3) h(1) h'(1) show ?thesis by auto
qed

theorem heap_sorts_witness:
  "\<exists>h h' ys h''. heap_init (\<lambda>_. True) (\<lambda>a b. a - b) = Ret h \<and> push_all push_run h [3, 1, 2, 1] = Ret h' \<and>
    drain heap_pop 4 h' = Ret (ys, h'') \<and> mset ys = mset [3, 1, 2, 1] \<and> sorted_wrt (before (\<lambda>a b. a - b)) ys \<and>
    heap_items h'' = {#}"
proof -
  have "compare_ok (\<lambda>a b. a - b :: int)" by (simp add: compare_ok_def before_def)
  from heap_sorts [OF this, of "[3, 1, 2, 1]"] show ?thesis by (simp add: eval_nat_numeral)
qed

text \<open>
  \<^verbatim>\<open>heap_get\<close> of an empty heap: the bound wraps around, and the assertion of the vector fails whatever the index.
\<close>

lemma heap_get_empty:
  assumes "vec_v (hp_vec h) = []"
  shows "heap_get h i = Abort"
proof -
  have "\<not> i > of_nat (length (vec_v (hp_vec h))) - 1"
    using assms by (simp add: not_less word_order.extremum)
  then show ?thesis using assms by (simp add: heap_get_def Let_def ptrvec_value_def)
qed

end
