(* ===== verification/Nmsg_Random.thy ===== *)
theory Nmsg_Random
  imports Prelude "HOL-Library.Multiset"
begin

text \<open>
  The random numbers of nmsg/random.c: the arc4 generator, its stirring from outside, and numbers below a bound.
\<close>

section \<open>State\<close>

record nmsg_random =
  rn_i :: byte
  rn_j :: byte
  rn_s :: "byte list"
  rn_arc4_count :: int

text \<open>
  What one stirring gets from the system: whether the device could be opened, whether \<^verbatim>\<open>read\<close> returned
  \<^verbatim>\<open>KEYSIZE\<close> octets, the 128 octets of the buffer after it, and the octets of the whole structure with the
  time and the process. The generator stirs itself whenever its count is used up, so that a call uses some of a sequence of these;
  the number used so far goes with the state.
\<close>

record entropy =
  en_open :: bool
  en_full :: bool
  en_rnd :: "byte list"
  en_rdat :: "byte list"

type_synonym rng = "nmsg_random \<times> nat"

section \<open>Operations\<close>

text \<open>One round of the loop of \<^verbatim>\<open>_nmsg_random_addrandom\<close>; the index of the data is \<^verbatim>\<open>n % datlen\<close>.\<close>

definition addrandom_round :: "byte list \<Rightarrow> nat \<Rightarrow> nmsg_random \<Rightarrow> nmsg_random" where
  "addrandom_round dat n r =
     (let i = rn_i r + 1; si = rn_s r ! unat i; j = rn_j r + si + dat ! (n mod length dat);
          s = (rn_s r)[unat i := rn_s r ! unat j]
      in r\<lparr>rn_i := i, rn_j := j, rn_s := s[unat j := si]\<rparr>)"

definition addrandom :: "nmsg_random \<Rightarrow> byte list \<Rightarrow> nmsg_random" where
  "addrandom r dat =
     (let r = fold (addrandom_round dat) [0..<256] (r\<lparr>rn_i := rn_i r - 1\<rparr>) in r\<lparr>rn_j := rn_i r\<rparr>)"

definition getbyte :: "nmsg_random \<Rightarrow> byte \<times> nmsg_random" where
  "getbyte r =
     (let i = rn_i r + 1; si = rn_s r ! unat i; j = rn_j r + si; sj = rn_s r ! unat j;
          s = (rn_s r)[unat i := sj, unat j := si]
      in (s ! unat (si + sj), r\<lparr>rn_i := i, rn_j := j, rn_s := s\<rparr>))"

definition stir :: "entropy \<Rightarrow> nmsg_random \<Rightarrow> nmsg_random" where
  "stir en r =
     (let r = (if en_open en then addrandom r (en_rnd en) else r);
          r = (if en_open en \<and> en_full en then r else addrandom r (en_rdat en));
          r = ((\<lambda>r. snd (getbyte r)) ^^ 1024) r
      in r\<lparr>rn_arc4_count := 1600000\<rparr>)"

definition nmsg_random_init :: "(nat \<Rightarrow> entropy) \<Rightarrow> bool \<Rightarrow> rng option" where
  "nmsg_random_init en ok =
     (if \<not> ok then None
      else Some (stir (en 0) \<lparr>rn_i = 0, rn_j = 0, rn_s = map of_nat [0..<256], rn_arc4_count = 0\<rparr>, 1))"

definition check_stir :: "(nat \<Rightarrow> entropy) \<Rightarrow> rng \<Rightarrow> rng" where
  "check_stir en g = (case g of (r, k) \<Rightarrow> if rn_arc4_count r \<le> 0 then (stir (en k) r, Suc k) else (r, k))"

definition getuint32 :: "nmsg_random \<Rightarrow> u32 \<times> nmsg_random" where
  "getuint32 r =
     (let (a, r) = getbyte r; (b, r) = getbyte r; (c, r) = getbyte r; (d, r) = getbyte r
      in (push_bit 24 (ucast a) OR push_bit 16 (ucast b) OR push_bit 8 (ucast c) OR ucast d, r))"

definition nmsg_random_uint32 :: "(nat \<Rightarrow> entropy) \<Rightarrow> rng \<Rightarrow> u32 \<times> rng" where
  "nmsg_random_uint32 en g =
     (let (r, k) = check_stir en g; (rnd, r) = getuint32 r
      in (rnd, r\<lparr>rn_arc4_count := rn_arc4_count r - 4\<rparr>, k))"

text \<open>The buffer is filled from its end.\<close>

fun nmsg_random_buf :: "(nat \<Rightarrow> entropy) \<Rightarrow> rng \<Rightarrow> nat \<Rightarrow> byte list \<times> rng" where
  "nmsg_random_buf en g 0 = ([], g)"
| "nmsg_random_buf en g (Suc n) =
     (let (r, k) = check_stir en g; (b, r) = getbyte r;
          (bs, g) = nmsg_random_buf en (r\<lparr>rn_arc4_count := rn_arc4_count r - 1\<rparr>, k) n
      in (bs @ [b], g))"

text \<open>
  The smallest number that \<^verbatim>\<open>nmsg_random_uniform\<close> accepts, with 64-bit arithmetic and without it. A number below
  it is drawn again, as often as it takes.
\<close>

definition uniform_min :: "u32 \<Rightarrow> u32" where
  "uniform_min upper_bound = ucast (0x100000000 mod ucast upper_bound :: u64)"

definition uniform_min32 :: "u32 \<Rightarrow> u32" where
  "uniform_min32 upper_bound =
     (if upper_bound > 0x80000000 then 1 + NOT upper_bound
      else (0xffffffff - upper_bound * 2 + 1) mod upper_bound)"

partial_function (option) uniform_loop :: "(nat \<Rightarrow> entropy) \<Rightarrow> u32 \<Rightarrow> rng \<Rightarrow> (u32 \<times> rng) option" where
  "uniform_loop en lim g =
     (let (rnd, g) = nmsg_random_uint32 en g in if rnd \<ge> lim then Some (rnd, g) else uniform_loop en lim g)"

definition nmsg_random_uniform :: "(nat \<Rightarrow> entropy) \<Rightarrow> rng \<Rightarrow> u32 \<Rightarrow> (u32 \<times> rng) option" where
  "nmsg_random_uniform en g upper_bound =
     (if upper_bound < 2 then Some (0, g)
      else map_option (\<lambda>(rnd, g). (rnd mod upper_bound, g)) (uniform_loop en (uniform_min upper_bound) g))"

section \<open>The state stays a permutation\<close>

definition octets :: "byte list" where
  "octets = map of_nat [0..<256]"

definition state_ok :: "nmsg_random \<Rightarrow> bool" where
  "state_ok r \<longleftrightarrow> mset (rn_s r) = mset octets"

lemma state_ok_length: "state_ok r \<Longrightarrow> length (rn_s r) = 256"
  using mset_eq_length [of "rn_s r" octets] by (simp add: state_ok_def octets_def)

lemma unat_byte: "unat b < 256" for b :: byte
  using unsigned_less [of b] by simp

lemma swap_elements:
  assumes "i < length xs" and "j < length xs"
  shows "mset (xs[i := xs ! j, j := xs ! i]) = mset xs"
  by (rule mset_swap [OF assms(2,1)])

lemma addrandom_round_ok: "state_ok r \<Longrightarrow> state_ok (addrandom_round dat n r)"
  using swap_elements [of "unat (rn_i r + 1)" "rn_s r"] unat_byte state_ok_length [of r]
  by (simp add: addrandom_round_def state_ok_def Let_def)

lemma fold_rounds_ok: "state_ok r \<Longrightarrow> state_ok (fold (addrandom_round dat) ns r)"
  by (induction ns arbitrary: r) (simp_all add: addrandom_round_ok)

lemma state_ok_fields: "state_ok (r\<lparr>rn_i := i\<rparr>) = state_ok r" "state_ok (r\<lparr>rn_j := i\<rparr>) = state_ok r"
  "state_ok (r\<lparr>rn_arc4_count := c\<rparr>) = state_ok r"
  by (simp_all add: state_ok_def)

lemma addrandom_ok: "state_ok r \<Longrightarrow> state_ok (addrandom r dat)"
  by (simp add: addrandom_def Let_def state_ok_fields fold_rounds_ok)

lemma getbyte_ok: "state_ok r \<Longrightarrow> state_ok (snd (getbyte r))"
  using swap_elements [of "unat (rn_i r + 1)" "rn_s r"] unat_byte state_ok_length [of r]
  by (simp add: getbyte_def state_ok_def Let_def)

lemma getbyte_count: "rn_arc4_count (snd (getbyte r)) = rn_arc4_count r"
  by (simp add: getbyte_def Let_def)

lemma stir_ok: "state_ok r \<Longrightarrow> state_ok (stir en r)"
proof -
  assume "state_ok r"
  have "state_ok r' \<Longrightarrow> state_ok (((\<lambda>r. snd (getbyte r)) ^^ n) r')" for r' n
    by (induction n) (simp_all add: getbyte_ok)
  with \<open>state_ok r\<close> show ?thesis by (simp add: stir_def Let_def state_ok_fields addrandom_ok)
qed

lemma init_ok: "nmsg_random_init en ok = Some g \<Longrightarrow> state_ok (fst g)"
  by (auto simp: nmsg_random_init_def state_ok_def [of "\<lparr>rn_i = _, rn_j = _, rn_s = _, rn_arc4_count = _\<rparr>"] octets_def
    split: if_splits intro!: stir_ok)

lemma check_stir_ok: "state_ok (fst g) \<Longrightarrow> state_ok (fst (check_stir en g))"
  by (auto simp: check_stir_def stir_ok split: prod.splits)

lemma getuint32_ok: "state_ok r \<Longrightarrow> state_ok (snd (getuint32 r))"
  by (simp add: getuint32_def split_def Let_def getbyte_ok)

lemma uint32_ok: "state_ok (fst g) \<Longrightarrow> state_ok (fst (snd (nmsg_random_uint32 en g)))"
  using check_stir_ok [of g en]
  by (simp add: nmsg_random_uint32_def split_def Let_def state_ok_fields getuint32_ok)

lemma buf_ok: "state_ok (fst g) \<Longrightarrow> state_ok (fst (snd (nmsg_random_buf en g n)))"
proof (induction n arbitrary: g)
  case (Suc n)
  from Suc.IH check_stir_ok [OF Suc.prems, of en] show ?case
    by (simp add: split_def Let_def state_ok_fields getbyte_ok)
qed simp

lemma length_buf: "length (fst (nmsg_random_buf en g n)) = n"
  by (induction n arbitrary: g) (simp_all add: split_def Let_def)

text \<open>The numbers drawn from a state on.\<close>

fun draws :: "(nat \<Rightarrow> entropy) \<Rightarrow> rng \<Rightarrow> nat \<Rightarrow> u32 \<times> rng" where
  "draws en g 0 = nmsg_random_uint32 en g"
| "draws en g (Suc n) = draws en (snd (nmsg_random_uint32 en g)) n"

lemma draws_ok: "state_ok (fst g) \<Longrightarrow> state_ok (fst (snd (draws en g n)))"
  by (induction n arbitrary: g) (simp_all add: uint32_ok)

text \<open>The loop returns the first number that is accepted.\<close>

lemma uniform_loop_first:
  assumes "fst (draws en g n) \<ge> m" and "\<forall>k<n. \<not> fst (draws en g k) \<ge> m"
  shows "uniform_loop en m g = Some (draws en g n)"
  using assms
proof (induction n arbitrary: g)
  case 0
  then show ?case by (subst uniform_loop.simps) (simp add: split_def)
next
  case (Suc n)
  have "\<not> fst (draws en g 0) \<ge> m" using Suc.prems(2) by blast
  moreover have "\<forall>k<n. \<not> fst (draws en (snd (nmsg_random_uint32 en g)) k) \<ge> m"
    using Suc.prems(2) by (metis Suc_less_eq draws.simps(2))
  ultimately show ?case using Suc.IH Suc.prems(1) by (subst uniform_loop.simps) (simp add: split_def)
qed

lemma u32_bound: "unat x < 4294967296" for x :: u32
  using unsigned_less [of x] by simp

lemma unat_uniform_min:
  assumes "\<not> ub < 2"
  shows "unat (uniform_min ub) = 4294967296 mod unat ub"
proof -
  have two: "2 \<le> unat ub" using assms by (simp add: word_less_nat_alt)
  have "unat (ucast ub :: u64) = unat ub"
    unfolding unsigned_ucast_eq by (rule take_bit_nat_eq_self [OF less_trans [OF u32_bound]]) simp
  then have "unat (0x100000000 mod ucast ub :: u64) = 4294967296 mod unat ub" by (simp add: unat_mod)
  moreover have "4294967296 mod unat ub < 4294967296"
    using two u32_bound [of ub] mod_less_divisor [of "unat ub" 4294967296] by linarith
  ultimately show ?thesis by (simp add: uniform_min_def unsigned_ucast_eq take_bit_nat_eq_self_iff)
qed

text \<open>The two ways to compute the bound agree.\<close>

lemma uniform_min32_eq:
  assumes "\<not> ub < 2"
  shows "uniform_min32 ub = uniform_min ub"
proof -
  have two: "2 \<le> unat ub" using assms by (simp add: word_less_nat_alt)
  note bound = u32_bound [of ub]
  show ?thesis
  proof (cases "ub > 0x80000000")
    case True
    then have big: "unat ub > 2147483648" by (simp add: word_less_nat_alt)
    have "uniform_min32 ub = 0 - ub" using True by (simp add: uniform_min32_def minus_eq_not_plus_1)
    moreover have "unat (0 - ub) = 4294967296 - unat ub"
      using two unfolding unat_sub_if_size by (simp add: word_size)
    moreover have "4294967296 mod unat ub = 4294967296 - unat ub"
      using big bound by (simp add: mod_if [of 4294967296])
    ultimately show ?thesis using unat_uniform_min [OF assms] by (simp add: word_unat_eq_iff)
  next
    case False
    then have small: "unat ub \<le> 2147483648" by (simp add: word_less_nat_alt)
    have z: "(0xffffffff :: u32) + 1 = 0" by simp
    have "(0xffffffff :: u32) - ub * 2 + 1 = (0xffffffff + 1) - ub * 2" by (simp only: diff_add_eq)
    then have m: "uniform_min32 ub = (0 - ub * 2) mod ub"
      using False unfolding uniform_min32_def z by (simp only: if_False)
    have e: "4294967296 mod unat ub = (4294967296 - 2 * unat ub) mod unat ub"
      using mod_mult_self2 [of "4294967296 - 2 * unat ub" "unat ub" 2] small by (simp add: mult.commute)
    have "unat (0 - ub * 2) mod unat ub = 4294967296 mod unat ub"
    proof (cases "unat ub = 2147483648")
      case True
      then have "unat (ub * 2) = 0" by (simp add: unat_word_ariths)
      then have "ub * 2 = 0" by (simp add: unat_eq_0)
      then show ?thesis using True by simp
    next
      case False
      then have "unat (ub * 2) = 2 * unat ub" using small by (simp add: unat_word_ariths)
      then have "unat (0 - ub * 2) = 4294967296 - 2 * unat ub"
        using two unfolding unat_sub_if_size by (simp add: word_size)
      then show ?thesis using e by simp
    qed
    with m show ?thesis using unat_uniform_min [OF assms] by (simp add: word_unat_eq_iff unat_mod)
  qed
qed

section \<open>No bias\<close>

lemma residue_count:
  fixes u m q k :: nat
  assumes "k < u" and "m < u"
  shows "card {n. m \<le> n \<and> n < m + q * u \<and> n mod u = k} = q"
proof -
  define d where "d = (k + u - m) mod u"
  have d: "d < u" "(m + d) mod u = k" using assms by (simp_all add: d_def mod_add_right_eq)
  have "{n. m \<le> n \<and> n < m + q * u \<and> n mod u = k} = (\<lambda>t. m + t * u + d) ` {..<q}" (is "?A = ?B")
  proof (intro set_eqI iffI)
    fix n assume "n \<in> ?A"
    then have n: "m \<le> n" "n - m < q * u" "n mod u = k" by auto
    define t r where "t = (n - m) div u" and "r = (n - m) mod u"
    have nm: "n = m + t * u + r" using n(1) by (simp add: t_def r_def)
    have "r < u" using assms(1) by (simp add: r_def)
    have "n = m + r + t * u" using nm by simp
    then have "n mod u = (m + r) mod u" by (metis mod_mult_self1)
    then have "(m + r) mod u = (m + d) mod u" using n(3) d(2) by simp
    then have "r = d" using \<open>r < u\<close> d(1) assms(2) by (auto simp: mod_if split: if_splits)
    moreover have "t < q" using n(2) by (simp add: t_def less_mult_imp_div_less)
    ultimately show "n \<in> ?B" using nm by auto
  next
    fix n assume "n \<in> ?B"
    then obtain t where t: "t < q" "n = m + t * u + d" by auto
    then have "Suc t * u \<le> q * u" by (intro mult_le_mono1) simp
    moreover have "n = m + d + t * u" using t(2) by simp
    then have "n mod u = (m + d) mod u" by (metis mod_mult_self1)
    ultimately show "n \<in> ?A" using t(2) d by simp
  qed
  moreover have "inj_on (\<lambda>t. m + t * u + d) {..<q}" using assms(1) by (auto simp: inj_on_def)
  ultimately show ?thesis by (simp add: card_image)
qed

lemma card_words: "card {x :: u32. P (unat x)} = card {n. n < 4294967296 \<and> P n}"
proof -
  have "unat ` {x :: u32. P (unat x)} = {n. n < 4294967296 \<and> P n}"
  proof (intro set_eqI iffI)
    fix n assume "n \<in> {n. n < 4294967296 \<and> P n}"
    then have "unat (of_nat n :: u32) = n" "P n" by (simp_all add: unat_of_nat_u32)
    then show "n \<in> unat ` {x :: u32. P (unat x)}" by (intro image_eqI [of _ _ "of_nat n"]) simp_all
  qed (auto simp: u32_bound)
  moreover have "inj_on (unat :: u32 \<Rightarrow> nat) {x. P (unat x)}" by (auto simp: inj_on_def word_unat_eq_iff)
  ultimately show ?thesis by (metis card_image)
qed

lemma uniform_card:
  assumes "\<not> ub < 2"
  shows "k < ub \<Longrightarrow> card {x. x \<ge> uniform_min ub \<and> x mod ub = k} = 2 ^ 32 div unat ub"
    and "2 ^ 31 < card {x. x \<ge> uniform_min ub}"
proof -
  let ?u = "unat ub" and ?m = "4294967296 mod unat ub"
  have two: "2 \<le> ?u" using assms by (simp add: word_less_nat_alt)
  have mu: "?m < ?u" using two by simp
  have total: "4294967296 = ?m + 4294967296 div ?u * ?u" by simp
  note m = unat_uniform_min [OF assms]
  show "card {x. x \<ge> uniform_min ub \<and> x mod ub = k} = 2 ^ 32 div ?u" if "k < ub"
  proof -
    have "{x. x \<ge> uniform_min ub \<and> x mod ub = k} = {x. ?m \<le> unat x \<and> unat x mod ?u = unat k}"
      by (auto simp: word_le_nat_alt m word_unat_eq_iff unat_mod)
    then have "card {x. x \<ge> uniform_min ub \<and> x mod ub = k} =
        card {n. n < 4294967296 \<and> ?m \<le> n \<and> n mod ?u = unat k}"
      using card_words [of "\<lambda>n. ?m \<le> n \<and> n mod ?u = unat k"] by simp
    also have "{n. n < 4294967296 \<and> ?m \<le> n \<and> n mod ?u = unat k} =
        {n. ?m \<le> n \<and> n < ?m + 4294967296 div ?u * ?u \<and> n mod ?u = unat k}" using total by auto
    also have "card \<dots> = 4294967296 div ?u"
      using that by (intro residue_count mu) (simp add: word_less_nat_alt)
    finally show ?thesis by simp
  qed
  have "{x. x \<ge> uniform_min ub} = {x. ?m \<le> unat x}" by (auto simp: word_le_nat_alt m)
  then have "card {x. x \<ge> uniform_min ub} = card {n. n < 4294967296 \<and> ?m \<le> n}"
    using card_words [of "\<lambda>n. ?m \<le> n"] by simp
  also have "{n. n < 4294967296 \<and> ?m \<le> n} = {?m..<4294967296}" by auto
  finally have c: "card {x. x \<ge> uniform_min ub} = 4294967296 - ?m" by simp
  have "?m < 2147483648"
  proof (cases "?u \<le> 2147483648")
    case True
    with mu show ?thesis by linarith
  next
    case False
    then have "?m = 4294967296 - ?u" using u32_bound [of ub] by (simp add: mod_if [of 4294967296])
    with False show ?thesis by linarith
  qed
  then show "2 ^ 31 < card {x. x \<ge> uniform_min ub}" unfolding c by simp
qed

text \<open>
  C39.
  A number below a bound is drawn without bias: of the 32-bit numbers that \<^verbatim>\<open>nmsg_random_uniform\<close> accepts, each result
  below the bound comes from the same number of them, and more than half of all are accepted; the arithmetic for 32-bit machines
  accepts the same numbers. The function returns the remainder of the first number of the generator that is accepted.
\<close>
theorem random_uniform_unbiased:
  assumes "\<not> upper_bound < 2"
  shows "(\<forall>k < upper_bound. card {x. x \<ge> uniform_min upper_bound \<and> x mod upper_bound = k} = 2 ^ 32 div unat upper_bound) \<and>
    2 ^ 31 < card {x. x \<ge> uniform_min upper_bound} \<and> uniform_min32 upper_bound = uniform_min upper_bound \<and>
    (\<forall>n. fst (draws en g n) \<ge> uniform_min upper_bound \<longrightarrow> (\<forall>i<n. \<not> fst (draws en g i) \<ge> uniform_min upper_bound) \<longrightarrow>
      nmsg_random_uniform en g upper_bound = Some (fst (draws en g n) mod upper_bound, snd (draws en g n)))"
proof (intro conjI allI impI)
  show "card {x. x \<ge> uniform_min upper_bound \<and> x mod upper_bound = k} = 2 ^ 32 div unat upper_bound"
    if "k < upper_bound" for k by (rule uniform_card(1) [OF assms that])
  show "2 ^ 31 < card {x. x \<ge> uniform_min upper_bound}" by (rule uniform_card(2) [OF assms])
  show "uniform_min32 upper_bound = uniform_min upper_bound" by (rule uniform_min32_eq [OF assms])
  show "nmsg_random_uniform en g upper_bound = Some (fst (draws en g n) mod upper_bound, snd (draws en g n))"
    if "fst (draws en g n) \<ge> uniform_min upper_bound" "\<forall>i<n. \<not> fst (draws en g i) \<ge> uniform_min upper_bound" for n
    using uniform_loop_first [OF that] assms by (simp add: nmsg_random_uniform_def split_def)
qed

definition sample_entropy :: "nat \<Rightarrow> entropy" where
  "sample_entropy k = \<lparr>en_open = True, en_full = True, en_rnd = replicate 128 (of_nat k), en_rdat = []\<rparr>"

definition sample_rng :: rng where
  "sample_rng = (\<lparr>rn_i = 0, rn_j = 0, rn_s = octets, rn_arc4_count = 0\<rparr>, 0)"

theorem random_uniform_unbiased_witness:
  "card {x :: u32. x \<ge> uniform_min 6 \<and> x mod 6 = 0} = 715827882 \<and>
   card {x :: u32. x \<ge> uniform_min 6 \<and> x mod 6 = 5} = 715827882 \<and> uniform_min 6 = 4"
  using random_uniform_unbiased [of 6 sample_entropy sample_rng] by (simp add: uniform_min_def)

text \<open>
  The state of the generator stays a permutation of the 256 octets: after its construction and after any number of draws, and
  after filling a buffer, which gets as many octets as were asked for; so that every index that is used lies in the array.
\<close>
theorem random_state_permutation:
  assumes "nmsg_random_init en ok = Some g"
  shows "mset (rn_s (fst g)) = mset octets \<and> mset (rn_s (fst (snd (draws en g n)))) = mset octets \<and>
    mset (rn_s (fst (snd (nmsg_random_buf en (snd (draws en g n)) m)))) = mset octets \<and>
    length (fst (nmsg_random_buf en (snd (draws en g n)) m)) = m"
proof -
  have "state_ok (fst g)" by (rule init_ok [OF assms])
  then show ?thesis
    using draws_ok [of g en n] buf_ok [of "snd (draws en g n)" en m] length_buf by (auto simp: state_ok_def)
qed

theorem random_state_permutation_witness:
  "\<exists>g. nmsg_random_init sample_entropy True = Some g \<and> mset (rn_s (fst g)) = mset octets"
proof -
  obtain g where "nmsg_random_init sample_entropy True = Some g" by (simp add: nmsg_random_init_def)
  with random_state_permutation [OF this, of 0 0] show ?thesis by blast
qed

end
