(* ===== verification/Strbuf.thy ===== *)
theory Strbuf
  imports Prelude
begin

text \<open>
  Growing string buffers (nmsg/strbuf.c). The formatted text of a call is a parameter, \<open>None\<close> where \<^verbatim>\<open>vsnprintf\<close>
  answers an error, and so are the answers of the allocations and what a new allocation holds.
\<close>

section \<open>Buffers\<close>

record nmsg_strbuf =
  sb_data :: "byte list option"
  sb_pos :: nat
  sb_bufsz :: nat

datatype strbuf_res = strbuf_success | strbuf_failure | strbuf_memfail

definition DEFAULT_STRBUF_ALLOC_SZ :: nat where "DEFAULT_STRBUF_ALLOC_SZ = 1024"

definition nmsg_strbuf_init :: "bool \<Rightarrow> nmsg_strbuf option" where
  "nmsg_strbuf_init ok = (if ok then Some \<lparr>sb_data = None, sb_pos = 0, sb_bufsz = 0\<rparr> else None)"

definition strbuf_released :: "nmsg_strbuf \<Rightarrow> nmsg_strbuf" where
  "strbuf_released sb = sb\<lparr>sb_data := None, sb_pos := 0, sb_bufsz := 0\<rparr>"

text \<open>What an allocation of \<open>n\<close> octets holds that copies \<open>old\<close>.\<close>

definition resized :: "(nat \<Rightarrow> byte) \<Rightarrow> byte list \<Rightarrow> nat \<Rightarrow> byte list" where
  "resized junk old n = map (\<lambda>i. if i < length old then old ! i else junk i) [0..<n]"

text \<open>
  The doubling of the size. A size of zero stays zero, and the loop does not end: \<open>None\<close>.
\<close>

partial_function (option) strbuf_grow :: "nat \<Rightarrow> nat \<Rightarrow> nat \<Rightarrow> nat option" where
  "strbuf_grow bufsz needed new_bufsz =
     (if int new_bufsz - int bufsz < int needed then strbuf_grow bufsz needed (new_bufsz * 2) else Some new_bufsz)"

text \<open>
  \<open>ok 0\<close> is the first allocation, \<open>ok 1\<close> the larger one. The number of octets needed is one more than
  \<^verbatim>\<open>vsnprintf\<close> answers, zero for an error.
\<close>

definition strbuf_print :: "nmsg_strbuf \<Rightarrow> byte list option \<Rightarrow> (strbuf_res \<times> nmsg_strbuf) run" where
  "strbuf_print sb text' = (case (text', sb_data sb) of
     (None, _) \<Rightarrow> Ret (strbuf_failure, strbuf_released sb)
   | (Some t, None) \<Rightarrow> Fault
   | (Some t, Some d) \<Rightarrow> run_bind (mem_store d (sb_pos sb) (t @ [0])) (\<lambda>d.
       Ret (strbuf_success, sb\<lparr>sb_data := Some d, sb_pos := sb_pos sb + length t\<rparr>)))"

definition nmsg_strbuf_append :: "(nat \<Rightarrow> bool) \<Rightarrow> (nat \<Rightarrow> byte) \<Rightarrow> nmsg_strbuf \<Rightarrow> byte list option \<Rightarrow>
    (strbuf_res \<times> nmsg_strbuf) run option" where
  "nmsg_strbuf_append ok junk sb0 text' =
     (if sb_data sb0 = None \<and> \<not> ok 0 then Some (Ret (strbuf_memfail, sb0\<lparr>sb_pos := 0\<rparr>))
      else
        let sb = (if sb_data sb0 = None
              then sb0\<lparr>sb_data := Some (resized junk [] DEFAULT_STRBUF_ALLOC_SZ), sb_pos := 0,
                sb_bufsz := DEFAULT_STRBUF_ALLOC_SZ\<rparr>
              else sb0);
            needed = (case text' of None \<Rightarrow> 0 | Some t \<Rightarrow> length t + 1);
            avail = int (sb_bufsz sb) - int (sb_pos sb)
        in if avail < 0 then Some Abort
           else if int needed > avail then
             (case strbuf_grow (sb_bufsz sb) needed (2 * sb_bufsz sb) of
                None \<Rightarrow> None
              | Some new_bufsz \<Rightarrow>
                  if sb_bufsz sb = 0 then Some Abort
                  else if \<not> ok 1 then Some (Ret (strbuf_memfail, strbuf_released sb))
                  else Some (strbuf_print (sb\<lparr>sb_data := map_option (\<lambda>d. resized junk d new_bufsz) (sb_data sb),
                    sb_bufsz := new_bufsz\<rparr>) text'))
           else Some (strbuf_print sb text'))"

definition nmsg_strbuf_len :: "nmsg_strbuf \<Rightarrow> nat run" where
  "nmsg_strbuf_len sb = (if sb_pos sb \<le> sb_bufsz sb then Ret (sb_pos sb) else Abort)"

definition nmsg_strbuf_reset :: "bool \<Rightarrow> (nat \<Rightarrow> byte) \<Rightarrow> nmsg_strbuf \<Rightarrow> strbuf_res \<times> nmsg_strbuf" where
  "nmsg_strbuf_reset ok junk sb =
     (if \<not> ok then (strbuf_memfail, strbuf_released sb)
      else (strbuf_success, \<lparr>sb_data = Some (resized junk (case sb_data sb of None \<Rightarrow> [] | Some d \<Rightarrow> d)
        DEFAULT_STRBUF_ALLOC_SZ), sb_pos = 0, sb_bufsz = DEFAULT_STRBUF_ALLOC_SZ\<rparr>))"

section \<open>What a buffer holds\<close>

definition strbuf_wf :: "nmsg_strbuf \<Rightarrow> bool" where
  "strbuf_wf sb \<longleftrightarrow> (case sb_data sb of
     None \<Rightarrow> sb_pos sb = 0
   | Some d \<Rightarrow> length d = sb_bufsz sb \<and> sb_pos sb \<le> sb_bufsz sb \<and> 0 < sb_bufsz sb)"

definition strbuf_text :: "nmsg_strbuf \<Rightarrow> byte list" where
  "strbuf_text sb = (case sb_data sb of None \<Rightarrow> [] | Some d \<Rightarrow> take (sb_pos sb) d)"

text \<open>The text ends with a zero octet inside the buffer.\<close>

definition strbuf_terminated :: "nmsg_strbuf \<Rightarrow> bool" where
  "strbuf_terminated sb \<longleftrightarrow> (\<exists>d. sb_data sb = Some d \<and> sb_pos sb < length d \<and> d ! sb_pos sb = 0)"

lemma length_resized [simp]: "length (resized junk old n) = n"
  by (simp add: resized_def)

lemma take_resized: "k \<le> length old \<Longrightarrow> k \<le> n \<Longrightarrow> take k (resized junk old n) = take k old"
  by (rule nth_equalityI) (simp_all add: resized_def)

lemma strbuf_grow_ends:
  assumes "0 < m"
  shows "\<exists>j. strbuf_grow b n m = Some (m * 2 ^ j) \<and> b + n \<le> m * 2 ^ j"
  using assms
proof (induction "b + n - m" arbitrary: m rule: less_induct)
  case less
  show ?case
  proof (cases "int m - int b < int n")
    case True
    then have "b + n - m * 2 < b + n - m" using less.prems by linarith
    from less.hyps [OF this] less.prems obtain j where "strbuf_grow b n (m * 2) = Some (m * 2 * 2 ^ j)" "b + n \<le> m * 2 * 2 ^ j"
      by auto
    with True show ?thesis by (intro exI [of _ "Suc j"]) (simp add: strbuf_grow.simps [of _ _ m] mult.assoc)
  next
    case False
    then show ?thesis by (intro exI [of _ 0]) (simp add: strbuf_grow.simps)
  qed
qed

lemma strbuf_print_ok:
  assumes "strbuf_wf sb" and "sb_data sb = Some d" and "sb_pos sb + length t + 1 \<le> sb_bufsz sb"
  shows "\<exists>sb'. strbuf_print sb (Some t) = Ret (strbuf_success, sb') \<and> strbuf_wf sb' \<and>
    strbuf_text sb' = strbuf_text sb @ t \<and> strbuf_terminated sb'"
  using assms
  by (simp add: strbuf_print_def mem_store_def strbuf_wf_def strbuf_text_def strbuf_terminated_def nth_append min_def)

lemma strbuf_append_ok:
  assumes wf: "strbuf_wf sb"
  shows "\<exists>sb'. nmsg_strbuf_append (\<lambda>_. True) junk sb (Some t) = Some (Ret (strbuf_success, sb')) \<and> strbuf_wf sb' \<and>
    strbuf_text sb' = strbuf_text sb @ t \<and> strbuf_terminated sb'"
proof -
  define sb1 where "sb1 = (if sb_data sb = None
    then sb\<lparr>sb_data := Some (resized junk [] DEFAULT_STRBUF_ALLOC_SZ), sb_pos := 0, sb_bufsz := DEFAULT_STRBUF_ALLOC_SZ\<rparr>
    else sb)"
  obtain d where d: "sb_data sb1 = Some d" by (cases "sb_data sb") (auto simp: sb1_def)
  have wf1: "strbuf_wf sb1" "strbuf_text sb1 = strbuf_text sb"
    using wf by (auto simp: sb1_def strbuf_wf_def strbuf_text_def DEFAULT_STRBUF_ALLOC_SZ_def)
  have b: "length d = sb_bufsz sb1" "sb_pos sb1 \<le> sb_bufsz sb1" "0 < sb_bufsz sb1"
    using wf1(1) d by (simp_all add: strbuf_wf_def)
  show ?thesis
  proof (cases "int (length t + 1) > int (sb_bufsz sb1) - int (sb_pos sb1)")
    case True
    from strbuf_grow_ends [of "2 * sb_bufsz sb1" "sb_bufsz sb1" "length t + 1"] b(3) obtain n where
      n: "strbuf_grow (sb_bufsz sb1) (length t + 1) (2 * sb_bufsz sb1) = Some n" "sb_bufsz sb1 + (length t + 1) \<le> n"
      by auto
    let ?sb = "sb1\<lparr>sb_data := Some (resized junk d n), sb_bufsz := n\<rparr>"
    have "strbuf_wf ?sb" "strbuf_text ?sb = strbuf_text sb1"
      using b n(2) d by (simp_all add: strbuf_wf_def strbuf_text_def take_resized)
    with strbuf_print_ok [of ?sb "resized junk d n" t] b n(2) wf1 obtain sb' where
      "strbuf_print ?sb (Some t) = Ret (strbuf_success, sb')" "strbuf_wf sb'" "strbuf_text sb' = strbuf_text sb @ t"
      "strbuf_terminated sb'" by auto
    then show ?thesis
      using True n(1) b d by (simp add: nmsg_strbuf_append_def sb1_def [symmetric] Let_def)
  next
    case False
    with strbuf_print_ok [OF wf1(1) d, of t] obtain sb' where
      "strbuf_print sb1 (Some t) = Ret (strbuf_success, sb')" "strbuf_wf sb'" "strbuf_text sb' = strbuf_text sb1 @ t"
      "strbuf_terminated sb'" by auto
    then show ?thesis
      using False b wf1(2) by (simp add: nmsg_strbuf_append_def sb1_def [symmetric] Let_def)
  qed
qed

section \<open>Properties\<close>

fun strbuf_appends :: "(nat \<Rightarrow> byte) \<Rightarrow> nmsg_strbuf \<Rightarrow> byte list list \<Rightarrow> nmsg_strbuf run option" where
  "strbuf_appends junk sb [] = Some (Ret sb)"
| "strbuf_appends junk sb (t # ts) = (case nmsg_strbuf_append (\<lambda>_. True) junk sb (Some t) of
     Some (Ret (strbuf_success, sb')) \<Rightarrow> strbuf_appends junk sb' ts
   | Some (Ret (_, sb')) \<Rightarrow> Some (Ret sb')
   | Some Abort \<Rightarrow> Some Abort
   | Some Fault \<Rightarrow> Some Fault
   | None \<Rightarrow> None)"

lemma strbuf_appends_ok:
  "strbuf_wf sb \<Longrightarrow> \<exists>sb'. strbuf_appends junk sb ts = Some (Ret sb') \<and> strbuf_wf sb' \<and>
    strbuf_text sb' = strbuf_text sb @ concat ts \<and> (ts \<noteq> [] \<longrightarrow> strbuf_terminated sb')"
proof (induction ts arbitrary: sb)
  case (Cons t ts)
  from strbuf_append_ok [OF Cons.prems, of junk t] obtain sb1 where
    sb1: "nmsg_strbuf_append (\<lambda>_. True) junk sb (Some t) = Some (Ret (strbuf_success, sb1))" "strbuf_wf sb1"
      "strbuf_text sb1 = strbuf_text sb @ t" "strbuf_terminated sb1" by blast
  from Cons.IH [OF sb1(2)] sb1 show ?case by (cases ts) auto
qed simp

text \<open>
  String buffers hold what was appended: from a new buffer on, with memory, every append of a text of any length ends,
  succeeds without writing outside the allocation, and leaves the texts in order, followed by a zero octet;
  \<^verbatim>\<open>nmsg_strbuf_len\<close> answers their length. The enlarging loop ends because an existing allocation is never empty.
\<close>
theorem strbuf_appends_concat:
  assumes "nmsg_strbuf_init True = Some sb" and "ts \<noteq> []"
  shows "\<exists>sb'. strbuf_appends junk sb ts = Some (Ret sb') \<and> strbuf_text sb' = concat ts \<and> strbuf_terminated sb' \<and>
    nmsg_strbuf_len sb' = Ret (length (concat ts))"
proof -
  have sb: "strbuf_wf sb" "strbuf_text sb = []"
    using assms(1) by (auto simp: nmsg_strbuf_init_def strbuf_wf_def strbuf_text_def)
  from strbuf_appends_ok [OF sb(1), of junk ts] assms(2) sb(2) obtain sb' where
    s: "strbuf_appends junk sb ts = Some (Ret sb')" "strbuf_wf sb'" "strbuf_text sb' = concat ts" "strbuf_terminated sb'"
    by auto
  from s(4) obtain d where d: "sb_data sb' = Some d" by (auto simp: strbuf_terminated_def)
  then have "length d = sb_bufsz sb'" "sb_pos sb' \<le> sb_bufsz sb'" using s(2) by (simp_all add: strbuf_wf_def)
  moreover have "length (strbuf_text sb') = sb_pos sb'" using calculation d by (simp add: strbuf_text_def)
  ultimately show ?thesis using s by (auto simp: nmsg_strbuf_len_def)
qed

theorem strbuf_appends_concat_witness:
  "\<exists>sb'. strbuf_appends (\<lambda>_. 7) \<lparr>sb_data = None, sb_pos = 0, sb_bufsz = 0\<rparr> [[65, 66], [], replicate 3000 67] = Some (Ret sb') \<and>
    strbuf_text sb' = [65, 66] @ replicate 3000 67 \<and> strbuf_terminated sb' \<and> nmsg_strbuf_len sb' = Ret 3002"
  using strbuf_appends_concat [of "\<lparr>sb_data = None, sb_pos = 0, sb_bufsz = 0\<rparr>" "[[65, 66], [], replicate 3000 67]" "\<lambda>_. 7"]
  by (simp add: nmsg_strbuf_init_def)

text \<open>An error of \<^verbatim>\<open>vsnprintf\<close> is not seen by the check of the octets needed, but by the second call.\<close>

lemma strbuf_format_error:
  "sb_data sb = Some d \<Longrightarrow> sb_pos sb \<le> sb_bufsz sb \<Longrightarrow>
    nmsg_strbuf_append ok junk sb None = Some (Ret (strbuf_failure, strbuf_released sb))"
  by (simp add: nmsg_strbuf_append_def strbuf_print_def Let_def)

end
