(* ===== verification/Cstring.thy ===== *)
theory Cstring
  imports Prelude
begin

text \<open>
  The functions of the C library on strings that the sources use, in the C locale: \<^verbatim>\<open>fgets\<close>, \<^verbatim>\<open>strtok_r\<close>,
  \<^verbatim>\<open>strtoul\<close> with base 0 and \<^verbatim>\<open>strcasecmp\<close>. A string is the list of its octets before the zero.
\<close>

section \<open>Definitions\<close>

text \<open>A line of at most \<open>n\<close> octets, with its newline, and the rest of the file.\<close>

fun fgets_line :: "nat \<Rightarrow> byte list \<Rightarrow> byte list \<times> byte list" where
  "fgets_line 0 file = ([], file)"
| "fgets_line (Suc n) [] = ([], [])"
| "fgets_line (Suc n) (c # cs) = (if c = 10 then ([c], cs) else let (l, r) = fgets_line n cs in (c # l, r))"

definition c_string :: "byte list \<Rightarrow> byte list" where
  "c_string bs = takeWhile (\<lambda>c. c \<noteq> 0) bs"

text \<open>A token and what is left after the delimiter that ends it.\<close>

definition strtok :: "byte list \<Rightarrow> byte list \<Rightarrow> (byte list option \<times> byte list)" where
  "strtok delims s =
     (let s' = dropWhile (\<lambda>c. c \<in> set delims) s in
      if s' = [] then (None, [])
      else (Some (takeWhile (\<lambda>c. c \<notin> set delims) s'), drop 1 (dropWhile (\<lambda>c. c \<notin> set delims) s')))"

definition c_isspace :: "byte \<Rightarrow> bool" where
  "c_isspace c \<longleftrightarrow> c = 32 \<or> (9 \<le> c \<and> c \<le> 13)"

definition digit_value :: "byte \<Rightarrow> nat option" where
  "digit_value c =
     (if 48 \<le> c \<and> c \<le> 57 then Some (unat (c - 48))
      else if 97 \<le> c \<and> c \<le> 122 then Some (unat (c - 87))
      else if 65 \<le> c \<and> c \<le> 90 then Some (unat (c - 55))
      else None)"

definition is_digit :: "nat \<Rightarrow> byte \<Rightarrow> bool" where
  "is_digit base c \<longleftrightarrow> (case digit_value c of Some d \<Rightarrow> d < base | None \<Rightarrow> False)"

fun digits_value :: "nat \<Rightarrow> nat \<Rightarrow> byte list \<Rightarrow> nat" where
  "digits_value base v [] = v"
| "digits_value base v (c # cs) = digits_value base (v * base + the (digit_value c)) cs"

text \<open>The prefix that selects the base.\<close>

definition strtoul_base :: "byte list \<Rightarrow> nat \<times> byte list" where
  "strtoul_base s = (case s of
     c # d # e # _ \<Rightarrow> if c = 48 \<and> (d = 120 \<or> d = 88) \<and> is_digit 16 e then (16, drop 2 s)
       else if c = 48 then (8, s) else (10, s)
   | c # _ \<Rightarrow> if c = 48 then (8, s) else (10, s)
   | [] \<Rightarrow> (10, s))"

text \<open>The value, of 64 bits, and the rest of the string; without digits nothing is consumed.\<close>

definition strtoul0 :: "byte list \<Rightarrow> u64 \<times> byte list" where
  "strtoul0 s =
     (let s1 = dropWhile c_isspace s;
          neg = (s1 \<noteq> [] \<and> hd s1 = 45);
          s2 = (if s1 \<noteq> [] \<and> (hd s1 = 45 \<or> hd s1 = 43) then tl s1 else s1);
          (base, s3) = strtoul_base s2;
          ds = takeWhile (is_digit base) s3; v = digits_value base 0 ds
      in if ds = [] then (0, s)
         else (if v \<ge> 2 ^ 64 then - 1 else if neg then - of_nat v else of_nat v, dropWhile (is_digit base) s3))"

definition c_tolower :: "byte \<Rightarrow> byte" where
  "c_tolower c = (if 65 \<le> c \<and> c \<le> 90 then c + 32 else c)"

definition strcaseeq :: "byte list \<Rightarrow> byte list \<Rightarrow> bool" where
  "strcaseeq s t \<longleftrightarrow> map c_tolower s = map c_tolower t"

section \<open>Lines and tokens\<close>

lemma fgets_line_length: "fgets_line n bs = (l, rest) \<Longrightarrow> length l + length rest = length bs"
  by (induction n bs arbitrary: l rest rule: fgets_line.induct) (auto split: if_splits prod.splits)

lemma fgets_line_progress:
  assumes "bs \<noteq> []" and "fgets_line (Suc n) bs = (l, rest)"
  shows "length rest < length bs"
  using assms by (cases bs) (auto split: if_splits prod.splits dest: fgets_line_length)

lemma fgets_line_text:
  assumes "10 \<notin> set bs" and "length bs < n"
  shows "fgets_line n (bs @ 10 # rest) = (bs @ [10], rest)"
  using assms
proof (induction bs arbitrary: n)
  case Nil
  then show ?case by (cases n) simp_all
next
  case (Cons b bs)
  then show ?case by (cases n) (auto simp: Cons.IH)
qed

lemma c_string_id: "0 \<notin> set bs \<Longrightarrow> c_string bs = bs"
  by (simp add: c_string_def takeWhile_eq_all_conv) metis

lemma strtok_token:
  assumes "t \<noteq> []" and "\<forall>c \<in> set t. c \<notin> set delims" and "d \<in> set delims"
  shows "strtok delims (t @ d # rest) = (Some t, rest)"
proof -
  obtain c t' where t: "t = c # t'" using assms(1) by (cases t) auto
  have "dropWhile (\<lambda>c. c \<in> set delims) (t @ d # rest) = t @ d # rest" using assms(2) t by simp
  moreover have "takeWhile (\<lambda>c. c \<notin> set delims) (t @ d # rest) = t"
    using assms(2,3) by (subst takeWhile_append2) simp_all
  moreover have "dropWhile (\<lambda>c. c \<notin> set delims) (t @ d # rest) = d # rest"
    using assms(2,3) by (subst dropWhile_append2) simp_all
  ultimately show ?thesis using t by (simp add: strtok_def Let_def)
qed

lemma strtok_shorter:
  assumes "strtok delims s = (Some t, rest)"
  shows "length rest < length s"
proof -
  define s' where "s' = dropWhile (\<lambda>c. c \<in> set delims) s"
  have "s' \<noteq> []" and rest: "rest = drop 1 (dropWhile (\<lambda>c. c \<notin> set delims) s')"
    using assms by (auto simp: strtok_def s'_def Let_def split: if_splits)
  moreover have "length (dropWhile (\<lambda>c. c \<notin> set delims) s') \<le> length s'" by (rule length_dropWhile_le)
  moreover have "length s' \<le> length s" unfolding s'_def by (rule length_dropWhile_le)
  ultimately show ?thesis by (cases s') auto
qed

section \<open>Numbers\<close>

text \<open>A number in decimal.\<close>

function decimal :: "nat \<Rightarrow> byte list" where
  "decimal n = (if n < 10 then [48 + of_nat n] else decimal (n div 10) @ [48 + of_nat (n mod 10)])"
  by auto
termination by (relation "measure id") auto

declare decimal.simps [simp del]

lemma digit_char:
  assumes "d < 10"
  shows "digit_value (48 + of_nat d) = Some d" "is_digit 10 (48 + of_nat d)" "\<not> c_isspace (48 + of_nat d)"
    "(48 + of_nat d :: byte) \<notin> {0, 9, 10, 32, 43, 45}" "(48 + of_nat d :: byte) = 48 \<longleftrightarrow> d = 0"
proof -
  have "d \<in> {0, 1, 2, 3, 4, 5, 6, 7, 8, 9}" using assms by auto
  then show "digit_value (48 + of_nat d) = Some d" "is_digit 10 (48 + of_nat d)" "\<not> c_isspace (48 + of_nat d)"
    "(48 + of_nat d :: byte) \<notin> {0, 9, 10, 32, 43, 45}" "(48 + of_nat d :: byte) = 48 \<longleftrightarrow> d = 0"
    by (auto simp: digit_value_def is_digit_def c_isspace_def)
qed

lemma decimal_digits: "c \<in> set (decimal n) \<Longrightarrow> \<exists>d<10. c = 48 + of_nat d"
proof (induction n rule: decimal.induct)
  case (1 n)
  show ?case
  proof (cases "n < 10")
    case True
    then show ?thesis using 1(2) by (subst (asm) decimal.simps) auto
  next
    case False
    then have "c \<in> set (decimal (n div 10)) \<or> c = 48 + of_nat (n mod 10)" using 1(2) by (subst (asm) decimal.simps) auto
    then show ?thesis
    proof
      assume "c \<in> set (decimal (n div 10))"
      then show ?thesis by (rule 1(1) [OF False])
    next
      assume "c = 48 + of_nat (n mod 10)"
      then show ?thesis by (intro exI [of _ "n mod 10"]) simp
    qed
  qed
qed

lemma decimal_nonempty: "decimal n \<noteq> []"
  by (subst decimal.simps) simp

lemma digits_value_append: "digits_value b v (xs @ ys) = digits_value b (digits_value b v xs) ys"
  by (induction xs arbitrary: v) simp_all

lemma digits_value_decimal: "digits_value 10 0 (decimal n) = n"
proof (induction n rule: decimal.induct)
  case (1 n)
  show ?case
  proof (cases "n < 10")
    case True
    then show ?thesis by (subst decimal.simps) (simp add: digit_char)
  next
    case False
    then show ?thesis using 1 by (subst decimal.simps) (simp add: digits_value_append digit_char)
  qed
qed

lemma decimal_leading: "0 < n \<Longrightarrow> hd (decimal n) \<noteq> 48"
proof (induction n rule: decimal.induct)
  case (1 n)
  show ?case
  proof (cases "n < 10")
    case True
    then show ?thesis using 1 digit_char(5) [of n] by (subst decimal.simps) simp
  next
    case False
    then show ?thesis using 1 decimal_nonempty by (subst decimal.simps) simp
  qed
qed

text \<open>A decimal number is scanned whole: without zeroes in front it selects no other base, and zero itself is the same in base 8.\<close>

lemma decimal_scan:
  obtains base where "strtoul_base (decimal n) = (base, decimal n)" "takeWhile (is_digit base) (decimal n) = decimal n"
    "dropWhile (is_digit base) (decimal n) = []" "digits_value base 0 (decimal n) = n"
proof (cases "n = 0")
  case True
  then show ?thesis
    by (intro that [of 8]) (simp_all add: decimal.simps strtoul_base_def is_digit_def digit_value_def)
next
  case False
  obtain c cs where c: "decimal n = c # cs" using decimal_nonempty by (cases "decimal n") auto
  have "c \<noteq> 48" using decimal_leading [of n] False c by simp
  then have "strtoul_base (decimal n) = (10, decimal n)" by (simp add: strtoul_base_def c split: list.split)
  moreover have "\<forall>x \<in> set (decimal n). is_digit 10 x" using decimal_digits digit_char(2) by blast
  then have "takeWhile (is_digit 10) (decimal n) = decimal n" "dropWhile (is_digit 10) (decimal n) = []"
    by (simp_all add: takeWhile_eq_all_conv dropWhile_eq_Nil_conv)
  ultimately show ?thesis using digits_value_decimal by (rule that)
qed

lemma decimal_start: "dropWhile c_isspace (decimal n) = decimal n" "hd (decimal n) \<noteq> 45" "hd (decimal n) \<noteq> 43"
proof -
  obtain c cs where c: "decimal n = c # cs" using decimal_nonempty by (cases "decimal n") auto
  obtain d where "d < 10" "c = 48 + of_nat d" using decimal_digits [of c n] c by auto
  then have "c \<noteq> 45" "c \<noteq> 43" "\<not> c_isspace c" using digit_char(3,4) [of d] by auto
  then show "dropWhile c_isspace (decimal n) = decimal n" "hd (decimal n) \<noteq> 45" "hd (decimal n) \<noteq> 43" by (simp_all add: c)
qed

lemma strtoul0_decimal:
  assumes "n < 2 ^ 64"
  shows "strtoul0 (decimal n) = (of_nat n, [])"
proof -
  from decimal_scan [of n] obtain base where b: "strtoul_base (decimal n) = (base, decimal n)"
    "takeWhile (is_digit base) (decimal n) = decimal n" "dropWhile (is_digit base) (decimal n) = []"
    "digits_value base 0 (decimal n) = n" .
  show ?thesis using assms decimal_start [of n] decimal_nonempty [of n] b(3) by (simp add: strtoul0_def Let_def b(1,2,4) del: takeWhile_eq_all_conv)
qed

end
