(* ===== verification/Alias.thy ===== *)
theory Alias
  imports Cstring
begin

text \<open>
  Names for operators and groups, read from files (nmsg/alias.c), and lists of names for a channel
  (nmsg/chalias.c).
\<close>

section \<open>Tables\<close>

text \<open>A table: the largest index and the array, \<open>None\<close> when it is NULL; an entry may be NULL too.\<close>

record nmsg_alias =
  al_max_idx :: u64
  al_value :: "byte list option list option"

text \<open>The allocations: the first table, the enlargement and the copy of a name with so many octets of the file left.\<close>

datatype alias_alloc = Alloc_table | Alloc_resize nat | Alloc_dup nat

definition ALIAS_SZ_INIT :: nat where "ALIAS_SZ_INIT = 16"
definition MAX_LINE_SZ :: nat where "MAX_LINE_SZ = 1024"

definition alias_zero :: nmsg_alias where
  "alias_zero = \<lparr>al_max_idx = 0, al_value = None\<rparr>"

definition alias_at :: "nmsg_alias \<Rightarrow> nat \<Rightarrow> byte list option run" where
  "alias_at al i = (case al_value al of
     None \<Rightarrow> Fault | Some xs \<Rightarrow> if i < length xs then Ret (xs ! i) else Fault)"

definition nmsg_alias_by_key :: "nmsg_alias \<Rightarrow> u32 \<Rightarrow> byte list option run" where
  "nmsg_alias_by_key al key = (if ucast key \<le> al_max_idx al then alias_at al (unat key) else Ret None)"

text \<open>The search from index \<open>i\<close> on, at most \<open>n\<close> entries.\<close>

fun alias_search :: "nmsg_alias \<Rightarrow> byte list \<Rightarrow> nat \<Rightarrow> nat \<Rightarrow> u32 run" where
  "alias_search al value i 0 = Ret 0"
| "alias_search al value i (Suc n) = run_bind (alias_at al i) (\<lambda>v. case v of
     Some s \<Rightarrow> if strcaseeq value s then Ret (of_nat i) else alias_search al value (Suc i) n
   | None \<Rightarrow> alias_search al value (Suc i) n)"

definition nmsg_alias_by_value :: "nmsg_alias \<Rightarrow> byte list \<Rightarrow> u32 run" where
  "nmsg_alias_by_value al value = alias_search al value 0 (unat (al_max_idx al) + 1)"

text \<open>The sizes are computed in \<^verbatim>\<open>unsigned\<close>; the new entries are NULL.\<close>

definition alias_resize :: "bool \<Rightarrow> nmsg_alias \<Rightarrow> u32 \<Rightarrow> bool \<times> nmsg_alias" where
  "alias_resize ok al n0 =
     (let n = n0 + 1 in
      if ucast n > al_max_idx al then
        let m = ucast (al_max_idx al * 2) :: u32; max_idx = (if n > m then n + 1 else m)
        in if \<not> ok then (False, \<lparr>al_max_idx = 0, al_value = None\<rparr>)
           else let old = (case al_value al of None \<Rightarrow> [] | Some xs \<Rightarrow> xs);
               kept = take (unat (max_idx + 1)) old
             in (True, \<lparr>al_max_idx = ucast max_idx,
               al_value = Some (kept @ replicate (unat (max_idx + 1) - length kept) None)\<rparr>)
      else (True, al))"

text \<open>One line of the file; \<open>None\<close> is a line that cannot be parsed or kept.\<close>

definition alias_line :: "(alias_alloc \<Rightarrow> bool) \<Rightarrow> nat \<Rightarrow> nmsg_alias \<Rightarrow> byte list \<Rightarrow> (bool \<times> nmsg_alias) run" where
  "alias_line ok left al line =
     (let (str_key, save) = strtok [32, 9] (c_string line); (str_value, save) = strtok [32, 9, 10] save in
      case (str_key, str_value) of
        (Some k, Some v) \<Rightarrow>
          (let (l, t) = strtoul0 k; key = ucast l :: u32 in
           if t \<noteq> [] then Ret (False, al)
           else let (r, al) = (if ucast key > al_max_idx al then alias_resize (ok (Alloc_resize left)) al key else (True, al))
             in if \<not> r then Ret (False, al)
             else (case al_value al of
               None \<Rightarrow> Fault
             | Some xs \<Rightarrow> if unat key < length xs
                 then Ret (True, al\<lparr>al_value := Some (xs[unat key := if ok (Alloc_dup left) then Some v else None])\<rparr>)
                 else Fault))
      | _ \<Rightarrow> Ret (False, al))"

function alias_lines :: "(alias_alloc \<Rightarrow> bool) \<Rightarrow> nmsg_alias \<Rightarrow> byte list \<Rightarrow> (bool \<times> nmsg_alias) run" where
  "alias_lines ok al bs =
     (if bs = [] then Ret (True, al)
      else let (line, rest) = fgets_line (MAX_LINE_SZ - 1) bs
        in run_bind (alias_line ok (length bs) al line) (\<lambda>(r, al).
          if r then alias_lines ok al rest else Ret (False, al)))"
  by pat_completeness auto
termination
proof (relation "measure (\<lambda>(ok, al, bs). length bs)")
  fix ok :: "alias_alloc \<Rightarrow> bool" and al al' :: nmsg_alias and bs line rest :: "byte list" and x y :: "byte list \<times> byte list"
    and z and r :: bool
  assume "bs \<noteq> []" "x = fgets_line (MAX_LINE_SZ - 1) bs" "(line, rest) = x"
  then have "fgets_line (Suc 1022) bs = (line, rest)" by (simp add: MAX_LINE_SZ_def)
  from fgets_line_progress [OF \<open>bs \<noteq> []\<close> this]
  show "((ok, al', rest), (ok, al, bs)) \<in> measure (\<lambda>(ok, al, bs). length bs)" by simp
qed simp

declare alias_lines.simps [simp del]

text \<open>The file may not exist.\<close>

definition alias_init :: "(alias_alloc \<Rightarrow> bool) \<Rightarrow> nmsg_alias \<Rightarrow> byte list option \<Rightarrow> (bool \<times> nmsg_alias) run" where
  "alias_init ok al bs =
     (if \<not> ok Alloc_table then Ret (False, al\<lparr>al_value := None\<rparr>)
      else let al = \<lparr>al_max_idx = of_nat ALIAS_SZ_INIT, al_value = Some (replicate (ALIAS_SZ_INIT + 1) None)\<rparr>
        in case bs of None \<Rightarrow> Ret (True, al) | Some bs \<Rightarrow> alias_lines ok al bs)"

fun alias_free_loop :: "nmsg_alias \<Rightarrow> nat \<Rightarrow> nat \<Rightarrow> unit run" where
  "alias_free_loop al i 0 = Ret ()"
| "alias_free_loop al i (Suc n) = run_bind (alias_at al i) (\<lambda>_. alias_free_loop al (Suc i) n)"

definition alias_free :: "nmsg_alias \<Rightarrow> nmsg_alias run" where
  "alias_free al = run_bind (alias_free_loop al 0 (unat (al_max_idx al) + 1)) (\<lambda>_. Ret alias_zero)"

section \<open>Both tables\<close>

record nmsg_aliases =
  alias_initialized :: bool
  alias_operator :: nmsg_alias
  alias_group :: nmsg_alias

definition nmsg_alias_init ::
  "(alias_alloc \<Rightarrow> bool) \<Rightarrow> (alias_alloc \<Rightarrow> bool) \<Rightarrow> byte list option \<Rightarrow> byte list option \<Rightarrow> nmsg_aliases \<Rightarrow> (bool \<times> nmsg_aliases) run" where
  "nmsg_alias_init ok_op ok_gr file_op file_gr g =
     (if alias_initialized g then Ret (True, g)
      else run_bind (alias_init ok_op (alias_operator g) file_op) (\<lambda>(r, al).
        let g = g\<lparr>alias_operator := al\<rparr> in
        if \<not> r then Ret (False, g)
        else run_bind (alias_init ok_gr (alias_group g) file_gr) (\<lambda>(r, al).
          let g = g\<lparr>alias_group := al\<rparr> in
          if \<not> r then Ret (False, g) else Ret (True, g\<lparr>alias_initialized := True\<rparr>))))"

definition nmsg_alias_fini :: "nmsg_aliases \<Rightarrow> nmsg_aliases run" where
  "nmsg_alias_fini g =
     (if \<not> alias_initialized g then Ret g
      else run_bind (alias_free (alias_operator g)) (\<lambda>op. run_bind (alias_free (alias_group g)) (\<lambda>gr.
        Ret \<lparr>alias_initialized = False, alias_operator = op, alias_group = gr\<rparr>)))"

section \<open>Channel aliases\<close>

text \<open>The tokens of the rest of a line.\<close>

function strtok_rest :: "byte list \<Rightarrow> byte list list" where
  "strtok_rest s = (case strtok [32, 9, 10] s of
     (None, _) \<Rightarrow> [] | (Some t, rest) \<Rightarrow> t # strtok_rest rest)"
  by auto
termination
  by (relation "measure length") (auto dest: strtok_shorter [OF sym] strtok_shorter)

declare strtok_rest.simps [simp del]

text \<open>
  \<^verbatim>\<open>nmsg_chalias_lookup\<close>: every line whose first token is the channel adds the others. The allocations are not checked:
  \<open>ok\<close> is their answer, by the number of names so far.
\<close>

function chalias_lines :: "byte list \<Rightarrow> byte list \<Rightarrow> byte list list" where
  "chalias_lines ch bs =
     (if bs = [] then []
      else let (line, rest) = fgets_line (MAX_LINE_SZ - 1) bs; (tmp, save) = strtok [32, 9] (c_string line)
        in (if tmp = Some ch then strtok_rest save else []) @ chalias_lines ch rest)"
  by pat_completeness auto
termination
proof (relation "measure (\<lambda>(ch, bs). length bs)")
  fix ch bs line rest :: "byte list" and x and tmp save and y
  assume "bs \<noteq> []" "x = fgets_line (MAX_LINE_SZ - 1) bs" "(line, rest) = x"
  then have "fgets_line (Suc 1022) bs = (line, rest)" by (simp add: MAX_LINE_SZ_def)
  from fgets_line_progress [OF \<open>bs \<noteq> []\<close> this]
  show "((ch, rest), (ch, bs)) \<in> measure (\<lambda>(ch, bs). length bs)" by simp
qed simp

declare chalias_lines.simps [simp del]

definition nmsg_chalias_lookup ::
  "(nat \<Rightarrow> bool) \<Rightarrow> byte list option \<Rightarrow> byte list option \<Rightarrow> byte list \<Rightarrow> (int \<times> byte list list option) run" where
  "nmsg_chalias_lookup ok file file2 ch =
     (case (case file of Some f \<Rightarrow> Some f | None \<Rightarrow> file2) of
        None \<Rightarrow> Ret (-1, None)
      | Some f \<Rightarrow> let names = chalias_lines ch f
          in if \<forall>i \<le> length names. ok i then Ret (int (length names), Some names) else Fault)"

section \<open>Well-formed tables\<close>

definition alias_wf :: "nmsg_alias \<Rightarrow> bool" where
  "alias_wf al \<longleftrightarrow> (\<exists>xs. al_value al = Some xs \<and> length xs = unat (al_max_idx al) + 1 \<and> length xs \<le> 2 ^ 32)"

text \<open>The name of a key.\<close>

definition alias_name :: "nmsg_alias \<Rightarrow> nat \<Rightarrow> byte list option" where
  "alias_name al k = (case al_value al of None \<Rightarrow> None | Some xs \<Rightarrow> if k < length xs then xs ! k else None)"

lemma unat_up: "unat (ucast k :: u64) = unat k" for k :: u32
  by (simp add: unsigned_ucast_eq take_bit_nat_eq_self_iff less_trans [OF unsigned_less])

lemma unat_plus_one_u32: "unat k + 1 < 2 ^ 32 \<Longrightarrow> unat (k + 1) = unat k + 1" for k :: u32
  by (simp add: unat_word_ariths)

lemma by_key_name:
  assumes "alias_wf al"
  shows "nmsg_alias_by_key al k = Ret (alias_name al (unat k))"
  using assms by (auto simp: alias_wf_def nmsg_alias_by_key_def alias_at_def alias_name_def word_le_nat_alt unat_up)

lemma alias_resize_ok:
  assumes wf: "alias_wf al" and k: "ucast k > al_max_idx al" "unat k < 2 ^ 32 - 3"
  shows "\<exists>al'. alias_resize True al k = (True, al') \<and> alias_wf al' \<and> unat k \<le> unat (al_max_idx al') \<and>
    alias_name al' = alias_name al"
proof -
  from wf obtain xs where xs: "al_value al = Some xs" "length xs = unat (al_max_idx al) + 1" "length xs \<le> 2 ^ 32"
    by (auto simp: alias_wf_def)
  define n where "n = k + 1"
  define m :: u32 where "m = ucast (al_max_idx al * 2)"
  define mx where "mx = (if n > m then n + 1 else m)"
  have n: "unat n = unat k + 1" unfolding n_def using k(2) by (intro unat_plus_one_u32) simp
  have lt: "unat (al_max_idx al) < unat k" using k(1) by (simp add: word_less_nat_alt unat_up)
  have "ucast n > al_max_idx al" using lt n by (simp add: word_less_nat_alt unat_up)
  have n1: "unat (n + 1) = unat k + 2" using k(2) n by (subst unat_plus_one_u32) simp_all
  have mx: "unat k \<le> unat mx" using n n1 by (auto simp: mx_def word_less_nat_alt not_less word_le_nat_alt)
  have "unat (al_max_idx al * 2) = unat (al_max_idx al) * 2" using xs(2,3) by (simp add: unat_word_ariths)
  then have m: "unat m = unat (al_max_idx al) * 2 mod 2 ^ 32"
    by (simp add: m_def unsigned_ucast_eq take_bit_eq_mod)
  have even_m: "unat m + 2 \<le> 2 ^ 32"
  proof -
    have "unat m < 2 ^ 32" unfolding m by (rule mod_less_divisor) simp
    moreover have "even (unat m)" unfolding m by (rule dvd_mod) simp_all
    then obtain c where "unat m = 2 * c" by (rule evenE)
    ultimately show ?thesis by simp
  qed
  then have mx2: "unat mx + 2 \<le> 2 ^ 32" using n1 k(2) by (simp add: mx_def)
  then have mx1: "unat (mx + 1) = unat mx + 1" by (intro unat_plus_one_u32) simp
  define ys where "ys = xs @ replicate (unat mx + 1 - length xs) None"
  have "length xs \<le> unat mx + 1" using mx lt xs(2) by simp
  then have al': "alias_resize True al k = (True, \<lparr>al_max_idx = ucast mx, al_value = Some ys\<rparr>)" "length ys = unat mx + 1"
    using \<open>ucast n > al_max_idx al\<close> xs(1) mx1
    by (simp_all add: alias_resize_def Let_def n_def [symmetric] m_def [symmetric] mx_def [symmetric] ys_def)
  moreover have "alias_name \<lparr>al_max_idx = ucast mx, al_value = Some ys\<rparr> = alias_name al"
    using xs(1) al'(2) by (auto simp: alias_name_def ys_def nth_append fun_eq_iff)
  ultimately show ?thesis using mx mx2 al'(2) by (simp add: alias_wf_def unat_up)
qed

section \<open>Files\<close>

definition entry_line :: "nat \<times> byte list \<Rightarrow> byte list" where
  "entry_line e = decimal (fst e) @ [32] @ snd e @ [10]"

text \<open>A key and a name that a line can hold.\<close>

definition entry_text :: "nat \<times> byte list \<Rightarrow> bool" where
  "entry_text e \<longleftrightarrow> snd e \<noteq> [] \<and> (\<forall>c \<in> set (snd e). c \<notin> {0, 9, 10, 32}) \<and>
     length (decimal (fst e)) + length (snd e) + 2 < MAX_LINE_SZ"

lemma decimal_chars: "c \<in> set (decimal n) \<Longrightarrow> c \<notin> {0, 9, 10, 32, 43, 45}"
proof -
  assume "c \<in> set (decimal n)"
  then obtain d where "d < 10" "c = 48 + of_nat d" using decimal_digits by blast
  then show ?thesis using digit_char(4) [of d] by simp
qed

lemma entry_line_ne: "entry_line e \<noteq> []"
  by (simp add: entry_line_def)

lemma entry_line_parts:
  assumes "entry_text (k, v)"
  shows "fgets_line (MAX_LINE_SZ - 1) (entry_line (k, v) @ rest) = (entry_line (k, v), rest)"
    and "c_string (entry_line (k, v)) = entry_line (k, v)"
    and "strtok [32, 9] (entry_line (k, v)) = (Some (decimal k), v @ [10])"
    and "strtok [32, 9, 10] (v @ [10]) = (Some v, [])"
proof -
  have v: "v \<noteq> []" "\<forall>c \<in> set v. c \<notin> {0, 9, 10, 32}" "length (decimal k) + length v + 2 < MAX_LINE_SZ"
    using assms by (simp_all add: entry_text_def)
  have "10 \<notin> set (decimal k @ 32 # v)" using v(2) decimal_chars [of 10 k] by auto
  from fgets_line_text [OF this, of "MAX_LINE_SZ - 1" rest] v(3)
  show "fgets_line (MAX_LINE_SZ - 1) (entry_line (k, v) @ rest) = (entry_line (k, v), rest)"
    by (simp add: entry_line_def)
  have "0 \<notin> set (entry_line (k, v))" using v(2) decimal_chars [of 0 k] by (auto simp: entry_line_def)
  then show "c_string (entry_line (k, v)) = entry_line (k, v)" by (rule c_string_id)
  have "\<forall>c \<in> set (decimal k). c \<notin> set [32, 9]" using decimal_chars by force
  from strtok_token [OF decimal_nonempty this, of 32 "v @ [10]"]
  show "strtok [32, 9] (entry_line (k, v)) = (Some (decimal k), v @ [10])" by (simp add: entry_line_def)
  have "\<forall>c \<in> set v. c \<notin> set [32, 9, 10]" using v(2) by force
  from strtok_token [OF v(1) this, of 10 "[]"] show "strtok [32, 9, 10] (v @ [10]) = (Some v, [])" by simp
qed

lemma unat_ucast_key: "k < 2 ^ 32 \<Longrightarrow> unat (ucast (of_nat k :: u64) :: u32) = k"
proof -
  assume k: "k < 2 ^ 32"
  then have "unat (of_nat k :: u64) = k" unfolding unsigned_of_nat by (simp add: take_bit_nat_eq_self_iff)
  then show ?thesis unfolding unsigned_ucast_eq using k by (simp add: take_bit_nat_eq_self_iff)
qed

lemma alias_line_entry:
  assumes wf: "alias_wf al" and e: "entry_text (k, v)" "k < 2 ^ 32 - 3"
  shows "\<exists>al'. alias_line (\<lambda>_. True) left al (entry_line (k, v)) = Ret (True, al') \<and> alias_wf al' \<and>
    alias_name al' = (alias_name al)(k := Some v)"
proof -
  let ?key = "ucast (of_nat k :: u64) :: u32"
  have key: "unat ?key = k" using e(2) by (intro unat_ucast_key) simp
  have parse: "strtoul0 (decimal k) = (of_nat k, [])" using e(2) by (intro strtoul0_decimal) simp
  define p where "p = (if ucast ?key > al_max_idx al then alias_resize True al ?key else (True, al))"
  have "\<exists>al1. p = (True, al1) \<and> alias_wf al1 \<and> k \<le> unat (al_max_idx al1) \<and> alias_name al1 = alias_name al"
  proof (cases "ucast ?key > al_max_idx al")
    case True
    with alias_resize_ok [OF wf, of ?key] e(2) key show ?thesis by (simp add: p_def)
  next
    case False
    then have "k \<le> unat (al_max_idx al)" using key by (simp add: word_less_nat_alt unat_up)
    with False wf show ?thesis by (simp add: p_def)
  qed
  then obtain al1 where al1: "p = (True, al1)" "alias_wf al1" "k \<le> unat (al_max_idx al1)" "alias_name al1 = alias_name al"
    by blast
  then obtain xs where xs: "al_value al1 = Some xs" "length xs = unat (al_max_idx al1) + 1" "length xs \<le> 2 ^ 32"
    by (auto simp: alias_wf_def)
  have "alias_line (\<lambda>_. True) left al (entry_line (k, v)) = Ret (True, al1\<lparr>al_value := Some (xs[k := Some v])\<rparr>)"
    using al1(1,3) xs(1,2) key
    by (simp add: alias_line_def entry_line_parts [OF e(1)] parse p_def [symmetric] Let_def)
  moreover have "alias_wf (al1\<lparr>al_value := Some (xs[k := Some v])\<rparr>)" using xs by (simp add: alias_wf_def)
  moreover have "alias_name (al1\<lparr>al_value := Some (xs[k := Some v])\<rparr>) = (alias_name al1)(k := Some v)"
    using xs al1(3) by (auto simp: alias_name_def fun_eq_iff nth_list_update)
  ultimately show ?thesis using al1(4) by auto
qed

lemma alias_lines_entries:
  "alias_wf al \<Longrightarrow> \<forall>e \<in> set es. entry_text e \<and> fst e < 2 ^ 32 - 3 \<Longrightarrow>
    \<exists>al'. alias_lines (\<lambda>_. True) al (concat (map entry_line es)) = Ret (True, al') \<and> alias_wf al' \<and>
      alias_name al' = (\<lambda>k. case map_of (rev es) k of Some v \<Rightarrow> Some v | None \<Rightarrow> alias_name al k)"
proof (induction es arbitrary: al)
  case Nil
  then show ?case by (simp add: alias_lines.simps)
next
  case (Cons e es)
  obtain k v where e: "e = (k, v)" by (cases e)
  let ?rest = "concat (map entry_line es)"
  have ent: "entry_text (k, v)" "k < 2 ^ 32 - 3" using Cons.prems(2) e by simp_all
  from alias_line_entry [OF Cons.prems(1) ent] obtain al1 where
    al1: "alias_line (\<lambda>_. True) (length (entry_line (k, v) @ ?rest)) al (entry_line (k, v)) = Ret (True, al1)" "alias_wf al1"
      "alias_name al1 = (alias_name al)(k := Some v)" by blast
  from Cons.IH [OF al1(2)] Cons.prems(2) obtain al' where
    al': "alias_lines (\<lambda>_. True) al1 ?rest = Ret (True, al')" "alias_wf al'"
      "alias_name al' = (\<lambda>k. case map_of (rev es) k of Some v \<Rightarrow> Some v | None \<Rightarrow> alias_name al1 k)" by auto
  have "alias_lines (\<lambda>_. True) al (entry_line (k, v) @ ?rest) = Ret (True, al')"
    using al1(1) al'(1) by (subst alias_lines.simps) (simp add: entry_line_parts(1) [OF ent(1)] entry_line_ne del: One_nat_def)
  moreover have "(\<lambda>j. case map_of (rev (e # es)) j of Some v \<Rightarrow> Some v | None \<Rightarrow> alias_name al j) =
      (\<lambda>j. case map_of (rev es) j of Some v \<Rightarrow> Some v | None \<Rightarrow> alias_name al1 j)"
    using e al1(3) by (auto simp: fun_eq_iff map_add_def split: option.splits)
  ultimately show ?case using al'(2,3) e by simp
qed

lemma alias_search_ok:
  assumes "alias_wf al"
  shows "i + n = unat (al_max_idx al) + 1 \<Longrightarrow>
    (\<exists>s. alias_name al j = Some s \<and> strcaseeq v s) \<and> i \<le> j \<and>
      (\<forall>j'. i \<le> j' \<longrightarrow> j' < j \<longrightarrow> \<not> (\<exists>s. alias_name al j' = Some s \<and> strcaseeq v s)) \<Longrightarrow>
    alias_search al v i n = Ret (of_nat j)"
proof (induction n arbitrary: i)
  case 0
  from assms obtain xs where "al_value al = Some xs" "length xs = unat (al_max_idx al) + 1" by (auto simp: alias_wf_def)
  with 0 show ?case by (auto simp: alias_name_def split: if_splits)
next
  case (Suc n)
  from assms obtain xs where xs: "al_value al = Some xs" "length xs = unat (al_max_idx al) + 1" by (auto simp: alias_wf_def)
  then have at: "alias_at al i = Ret (alias_name al i)" using Suc.prems(1) by (simp add: alias_at_def alias_name_def)
  show ?case
  proof (cases "i = j")
    case True
    with Suc.prems(2) at show ?thesis by auto
  next
    case False
    then have "alias_search al v (Suc i) n = Ret (of_nat j)" using Suc.IH [of "Suc i"] Suc.prems by auto
    moreover have "\<not> (\<exists>s. alias_name al i = Some s \<and> strcaseeq v s)" using Suc.prems(2) False by auto
    ultimately show ?thesis using at by (auto split: option.splits)
  qed
qed

lemma alias_search_none:
  assumes "alias_wf al" and "\<forall>j. \<not> (\<exists>s. alias_name al j = Some s \<and> strcaseeq v s)"
  shows "i + n = unat (al_max_idx al) + 1 \<Longrightarrow> alias_search al v i n = Ret 0"
proof (induction n arbitrary: i)
  case (Suc n)
  from assms(1) obtain xs where xs: "al_value al = Some xs" "length xs = unat (al_max_idx al) + 1" by (auto simp: alias_wf_def)
  then have at: "alias_at al i = Ret (alias_name al i)" using Suc.prems by (simp add: alias_at_def alias_name_def)
  then show ?case using Suc assms(2) by (auto split: option.splits)
qed simp

section \<open>Properties\<close>

lemma fresh_table:
  "alias_wf \<lparr>al_max_idx = of_nat ALIAS_SZ_INIT, al_value = Some (replicate (ALIAS_SZ_INIT + 1) None)\<rparr>"
  "alias_name \<lparr>al_max_idx = of_nat ALIAS_SZ_INIT, al_value = Some (replicate (ALIAS_SZ_INIT + 1) None)\<rparr> = (\<lambda>_. None)"
  by (auto simp: alias_wf_def alias_name_def ALIAS_SZ_INIT_def fun_eq_iff simp del: replicate.simps)

text \<open>
  C38. Reading an alias file: a file with one line per entry, key in decimal, a blank and the name, is read without
  failure, in whatever order the entries are, when the keys are below 2 to the 32 minus 3 and the names are not empty, have
  no blanks and fit the buffer for a line; afterwards a key has the name of its last line, and no other key has one. A name,
  compared without case, has the smallest key with that name, and zero when there is none.
\<close>

theorem alias_file_lookup:
  assumes "\<forall>e \<in> set es. entry_text e \<and> fst e < 2 ^ 32 - 3"
  shows "\<exists>al. alias_init (\<lambda>_. True) alias_zero (Some (concat (map entry_line es))) = Ret (True, al) \<and>
    (\<forall>k. nmsg_alias_by_key al k = Ret (map_of (rev es) (unat k))) \<and>
    (\<forall>v. (\<forall>k s. map_of (rev es) k = Some s \<longrightarrow> \<not> strcaseeq v s) \<longrightarrow> nmsg_alias_by_value al v = Ret 0) \<and>
    (\<forall>v k s. map_of (rev es) k = Some s \<longrightarrow> strcaseeq v s \<longrightarrow>
      (\<forall>k'<k. \<forall>s'. map_of (rev es) k' = Some s' \<longrightarrow> \<not> strcaseeq v s') \<longrightarrow> nmsg_alias_by_value al v = Ret (of_nat k))"
proof -
  from alias_lines_entries [OF fresh_table(1) assms] obtain al where
    al: "alias_lines (\<lambda>_. True) \<lparr>al_max_idx = of_nat ALIAS_SZ_INIT, al_value = Some (replicate (ALIAS_SZ_INIT + 1) None)\<rparr>
        (concat (map entry_line es)) = Ret (True, al)" "alias_wf al"
      "alias_name al = (\<lambda>k. case map_of (rev es) k of Some v \<Rightarrow> Some v | None \<Rightarrow> None)"
    unfolding fresh_table(2) by blast
  have name: "alias_name al = map_of (rev es)" using al(3) by (auto simp: fun_eq_iff split: option.splits)
  have "alias_init (\<lambda>_. True) alias_zero (Some (concat (map entry_line es))) = Ret (True, al)"
    using al(1) by (simp add: alias_init_def Let_def)
  moreover have "nmsg_alias_by_value al v = Ret 0" if "\<forall>k s. map_of (rev es) k = Some s \<longrightarrow> \<not> strcaseeq v s" for v
    using alias_search_none [OF al(2), of v 0] that name by (simp add: nmsg_alias_by_value_def)
  moreover have "nmsg_alias_by_value al v = Ret (of_nat k)" if "map_of (rev es) k = Some s" "strcaseeq v s"
    "\<forall>k'<k. \<forall>s'. map_of (rev es) k' = Some s' \<longrightarrow> \<not> strcaseeq v s'" for v k s
    using alias_search_ok [OF al(2), of 0 _ k v] that name by (simp add: nmsg_alias_by_value_def)
  ultimately show ?thesis using by_key_name [OF al(2)] name by auto
qed

text \<open>
  The keys just below 2 to the 32 wrap the sizes around: a file whose first line has one of the last three of them makes the
  table smaller or leaves it as it is, and the name is written outside of it.
\<close>
theorem alias_key_overflow:
  assumes "entry_text (k, v)" and "2 ^ 32 - 3 \<le> k" and "k < 2 ^ 32"
  shows "alias_init (\<lambda>_. True) alias_zero (Some (entry_line (k, v) @ rest)) = Fault"
proof -
  let ?al = "\<lparr>al_max_idx = of_nat ALIAS_SZ_INIT, al_value = Some (replicate (ALIAS_SZ_INIT + 1) None)\<rparr>"
  have k: "k \<in> {4294967293, 4294967294, 4294967295}" using assms(2,3) by auto
  have parse: "strtoul0 (decimal k) = (of_nat k, [])" using assms(3) by (intro strtoul0_decimal) simp
  have "alias_line (\<lambda>_. True) left ?al (entry_line (k, v)) = Fault" for left
    using k by (auto simp: alias_line_def entry_line_parts [OF assms(1)] parse alias_resize_def Let_def ALIAS_SZ_INIT_def
      simp del: replicate.simps)
  then show ?thesis
    by (simp add: alias_init_def alias_lines.simps [of _ _ "entry_line (k, v) @ rest"] entry_line_parts(1) [OF assms(1)] Let_def
      del: One_nat_def) (simp add: entry_line_def)
qed

section \<open>Witnesses\<close>

definition sample_entries :: "(nat \<times> byte list) list" where
  "sample_entries = [(5, [97, 98]), (200, [67, 100]), (5, [120, 121])]"

lemma sample_entries_text: "\<forall>e \<in> set sample_entries. entry_text e \<and> fst e < 2 ^ 32 - 3"
  by (simp add: sample_entries_def entry_text_def decimal.simps MAX_LINE_SZ_def)

theorem alias_file_lookup_witness:
  "\<exists>al. alias_init (\<lambda>_. True) alias_zero (Some (concat (map entry_line sample_entries))) = Ret (True, al) \<and>
    nmsg_alias_by_key al 5 = Ret (Some [120, 121]) \<and> nmsg_alias_by_key al 7 = Ret None \<and>
    nmsg_alias_by_value al [99, 68] = Ret 200 \<and> nmsg_alias_by_value al [97, 98] = Ret 0"
proof -
  have m: "map_of (rev sample_entries) = [200 \<mapsto> [67, 100], 5 \<mapsto> [120, 121]]"
    by (auto simp: sample_entries_def fun_eq_iff)
  from alias_file_lookup [OF sample_entries_text] obtain al where
    al: "alias_init (\<lambda>_. True) alias_zero (Some (concat (map entry_line sample_entries))) = Ret (True, al)"
    and key: "\<forall>k. nmsg_alias_by_key al k = Ret (map_of (rev sample_entries) (unat k))"
    and none: "\<forall>v. (\<forall>k s. map_of (rev sample_entries) k = Some s \<longrightarrow> \<not> strcaseeq v s) \<longrightarrow> nmsg_alias_by_value al v = Ret 0"
    and found: "\<forall>v k s. map_of (rev sample_entries) k = Some s \<longrightarrow> strcaseeq v s \<longrightarrow>
      (\<forall>k'<k. \<forall>s'. map_of (rev sample_entries) k' = Some s' \<longrightarrow> \<not> strcaseeq v s') \<longrightarrow> nmsg_alias_by_value al v = Ret (of_nat k)"
    by blast
  have "nmsg_alias_by_value al [99, 68] = Ret (of_nat 200)"
    by (rule found [rule_format, of 200 "[67, 100]"]) (auto simp: m strcaseeq_def c_tolower_def split: if_splits)
  moreover have "nmsg_alias_by_value al [97, 98] = Ret 0"
    by (rule none [rule_format]) (auto simp: m strcaseeq_def c_tolower_def split: if_splits)
  ultimately show ?thesis using al key by (auto simp: m)
qed

theorem alias_key_overflow_witness:
  "alias_init (\<lambda>_. True) alias_zero (Some (entry_line (4294967295, [97]) @ [])) = Fault"
  by (rule alias_key_overflow) (simp_all add: entry_text_def decimal.simps MAX_LINE_SZ_def)

end
