(* ===== verification/Lookup3.thy ===== *)
theory Lookup3
  imports Crc32c
begin

text \<open>
  Bob Jenkins' hash functions (libmy/lookup3.c), which place the queries and the filtered names in
  the hash tables of the DNS module. The memory from the key on is a function of the offset, since
  the routines for aligned keys read whole words beyond the end of the key and mask the excess.
\<close>

section \<open>Mixing\<close>

type_synonym abc = "u32 \<times> u32 \<times> u32"

definition rot :: "u32 \<Rightarrow> nat \<Rightarrow> u32" where
  "rot x k = push_bit k x OR drop_bit (32 - k) x"

text \<open>
  One of the six rows of \<^verbatim>\<open>mix\<close>: \<^verbatim>\<open>a -= c; a ^= rot(c, k); c += b;\<close>, in which the registers change
  their parts from row to row.
\<close>

definition mix_row :: "nat \<Rightarrow> abc \<Rightarrow> abc" where
  "mix_row k = (\<lambda>(a, b, c). let a = a - c; a = a XOR rot c k; c = c + b in (a, b, c))"

definition mix :: "abc \<Rightarrow> abc" where
  "mix = (\<lambda>(a, b, c).
     let (a, b, c) = mix_row 4 (a, b, c);
         (b, c, a) = mix_row 6 (b, c, a);
         (c, a, b) = mix_row 8 (c, a, b);
         (a, b, c) = mix_row 16 (a, b, c);
         (b, c, a) = mix_row 19 (b, c, a);
         (c, a, b) = mix_row 4 (c, a, b)
     in (a, b, c))"

definition mix_final :: "abc \<Rightarrow> abc" where
  "mix_final = (\<lambda>(a, b, c).
     let c = c XOR b; c = c - rot b 14;
         a = a XOR c; a = a - rot c 11;
         b = b XOR a; b = b - rot a 25;
         c = c XOR b; c = c - rot b 16;
         a = a XOR c; a = a - rot c 4;
         b = b XOR a; b = b - rot a 14;
         c = c XOR b; c = c - rot b 24
     in (a, b, c))"

definition hash_of :: "abc \<Rightarrow> u32" where
  "hash_of = (\<lambda>(a, b, c). c)"

section \<open>my_hashword and my_hashword2\<close>

fun hashword_loop :: "abc \<Rightarrow> u32 list \<Rightarrow> abc" where
  "hashword_loop (a, b, c) k =
     (case k of
        k0 # k1 # k2 # k3 # ks \<Rightarrow> hashword_loop (mix (a + k0, b + k1, c + k2)) (k3 # ks)
      | [k0, k1, k2] \<Rightarrow> mix_final (a + k0, b + k1, c + k2)
      | [k0, k1] \<Rightarrow> mix_final (a + k0, b + k1, c)
      | [k0] \<Rightarrow> mix_final (a + k0, b, c)
      | [] \<Rightarrow> (a, b, c))"

declare hashword_loop.simps [simp del]

definition my_hashword :: "u32 list \<Rightarrow> u32 \<Rightarrow> u32" where
  "my_hashword k initval =
     (let s = 0xdeadbeef + push_bit 2 (of_nat (length k)) + initval
      in hash_of (hashword_loop (s, s, s) k))"

definition my_hashword2 :: "u32 list \<Rightarrow> u32 \<Rightarrow> u32 \<Rightarrow> u32 \<times> u32" where
  "my_hashword2 k pc pb =
     (let s = 0xdeadbeef + push_bit 2 (of_nat (length k)) + pc;
          (a, b, c) = hashword_loop (s, s, s + pb) k
      in (c, b))"

section \<open>my_hashlittle\<close>

type_synonym key_mem = "nat \<Rightarrow> byte"

definition le32_at :: "key_mem \<Rightarrow> nat \<Rightarrow> u32" where
  "le32_at m i = load_le32 (m i) (m (i + 1)) (m (i + 2)) (m (i + 3))"

definition le16_at :: "key_mem \<Rightarrow> nat \<Rightarrow> u32" where
  "le16_at m i = ucast (load_le16 (m i) (m (i + 1)))"

text \<open>
  The last, partial block of a word-aligned key at offset \<open>k\<close>; no result stands for the return
  without the final mixing.
\<close>

definition little_tail32 :: "key_mem \<Rightarrow> nat \<Rightarrow> nat \<Rightarrow> abc \<Rightarrow> abc option" where
  "little_tail32 m k len = (\<lambda>(a, b, c).
     let k0 = le32_at m k; k1 = le32_at m (k + 4); k2 = le32_at m (k + 8) in
     if len = 12 then Some (a + k0, b + k1, c + k2)
     else if len = 11 then Some (a + k0, b + k1, c + (k2 AND 0xffffff))
     else if len = 10 then Some (a + k0, b + k1, c + (k2 AND 0xffff))
     else if len = 9 then Some (a + k0, b + k1, c + (k2 AND 0xff))
     else if len = 8 then Some (a + k0, b + k1, c)
     else if len = 7 then Some (a + k0, b + (k1 AND 0xffffff), c)
     else if len = 6 then Some (a + k0, b + (k1 AND 0xffff), c)
     else if len = 5 then Some (a + k0, b + (k1 AND 0xff), c)
     else if len = 4 then Some (a + k0, b, c)
     else if len = 3 then Some (a + (k0 AND 0xffffff), b, c)
     else if len = 2 then Some (a + (k0 AND 0xffff), b, c)
     else if len = 1 then Some (a + (k0 AND 0xff), b, c)
     else None)"

text \<open>The last block of a key at an even address, with its fall-throughs.\<close>

definition little_tail16 :: "key_mem \<Rightarrow> nat \<Rightarrow> nat \<Rightarrow> abc \<Rightarrow> abc option" where
  "little_tail16 m k len = (\<lambda>(a, b, c).
     let k8 = (\<lambda>i. ucast (m (k + i)) :: u32); k16 = (\<lambda>i. le16_at m (k + 2 * i));
         a4 = a + (k16 0 + push_bit 16 (k16 1)); b4 = b + (k16 2 + push_bit 16 (k16 3)) in
     if len = 12 then Some (a4, b4, c + (k16 4 + push_bit 16 (k16 5)))
     else if len = 11 then Some (a4, b4, c + push_bit 16 (k8 10) + k16 4)
     else if len = 10 then Some (a4, b4, c + k16 4)
     else if len = 9 then Some (a4, b4, c + k8 8)
     else if len = 8 then Some (a4, b4, c)
     else if len = 7 then Some (a4, b + push_bit 16 (k8 6) + k16 2, c)
     else if len = 6 then Some (a4, b + k16 2, c)
     else if len = 5 then Some (a4, b + k8 4, c)
     else if len = 4 then Some (a4, b, c)
     else if len = 3 then Some (a + push_bit 16 (k8 2) + k16 0, b, c)
     else if len = 2 then Some (a + k16 0, b, c)
     else if len = 1 then Some (a + k8 0, b, c)
     else None)"

text \<open>
  The last block octet by octet: every case falls through to the next lower one, so the octet
  \<open>i\<close> is added where the length is above \<open>i\<close>.
\<close>

definition add_oct :: "key_mem \<Rightarrow> nat \<Rightarrow> nat \<Rightarrow> nat \<Rightarrow> nat \<Rightarrow> u32 \<Rightarrow> u32" where
  "add_oct m k len i sh w = (if i < len then w + push_bit sh (ucast (m (k + i))) else w)"

definition little_tail8 :: "key_mem \<Rightarrow> nat \<Rightarrow> nat \<Rightarrow> abc \<Rightarrow> abc option" where
  "little_tail8 m k len = (\<lambda>(a, b, c).
     if len = 0 then None
     else let oct = add_oct m k len in
       Some (oct 0 0 (oct 1 8 (oct 2 16 (oct 3 24 a))),
             oct 4 0 (oct 5 8 (oct 6 16 (oct 7 24 b))),
             oct 8 0 (oct 9 8 (oct 10 16 (oct 11 24 c)))))"

text \<open>The loops over the blocks of twelve octets before the last one.\<close>

fun little_loop32 :: "key_mem \<Rightarrow> nat \<Rightarrow> nat \<Rightarrow> abc \<Rightarrow> nat \<times> nat \<times> abc" where
  "little_loop32 m k len (a, b, c) =
     (if len > 12 then
        little_loop32 m (k + 12) (len - 12)
          (mix (a + le32_at m k, b + le32_at m (k + 4), c + le32_at m (k + 8)))
      else (k, len, (a, b, c)))"

fun little_loop16 :: "key_mem \<Rightarrow> nat \<Rightarrow> nat \<Rightarrow> abc \<Rightarrow> nat \<times> nat \<times> abc" where
  "little_loop16 m k len (a, b, c) =
     (if len > 12 then
        little_loop16 m (k + 12) (len - 12)
          (mix (a + (le16_at m k + push_bit 16 (le16_at m (k + 2))),
                b + (le16_at m (k + 4) + push_bit 16 (le16_at m (k + 6))),
                c + (le16_at m (k + 8) + push_bit 16 (le16_at m (k + 10)))))
      else (k, len, (a, b, c)))"

fun little_loop8 :: "key_mem \<Rightarrow> nat \<Rightarrow> nat \<Rightarrow> abc \<Rightarrow> nat \<times> nat \<times> abc" where
  "little_loop8 m k len (a, b, c) =
     (if len > 12 then
        (let k8 = (\<lambda>i. ucast (m (k + i)) :: u32) in
         little_loop8 m (k + 12) (len - 12)
           (mix (a + k8 0 + push_bit 8 (k8 1) + push_bit 16 (k8 2) + push_bit 24 (k8 3),
                 b + k8 4 + push_bit 8 (k8 5) + push_bit 16 (k8 6) + push_bit 24 (k8 7),
                 c + k8 8 + push_bit 8 (k8 9) + push_bit 16 (k8 10) + push_bit 24 (k8 11))))
      else (k, len, (a, b, c)))"

declare little_loop32.simps [simp del] little_loop16.simps [simp del] little_loop8.simps [simp del]

text \<open>
  The three ways by the byte order of the host and the address of the key. The registers that the
  code leaves, of which \<^verbatim>\<open>my_hashlittle\<close> returns the last and \<^verbatim>\<open>my_hashlittle2\<close> two.
\<close>

definition hashlittle_regs :: "bool \<Rightarrow> u64 \<Rightarrow> key_mem \<Rightarrow> nat \<Rightarrow> abc \<Rightarrow> abc" where
  "hashlittle_regs HASH_LITTLE_ENDIAN addr m len abc =
     (let (abc', tail) =
        (if HASH_LITTLE_ENDIAN \<and> addr AND 0x3 = 0 then
           (case little_loop32 m 0 len abc of (k, len', s) \<Rightarrow> (s, little_tail32 m k len' s))
         else if HASH_LITTLE_ENDIAN \<and> addr AND 0x1 = 0 then
           (case little_loop16 m 0 len abc of (k, len', s) \<Rightarrow> (s, little_tail16 m k len' s))
         else
           (case little_loop8 m 0 len abc of (k, len', s) \<Rightarrow> (s, little_tail8 m k len' s)))
      in case tail of None \<Rightarrow> abc' | Some s \<Rightarrow> mix_final s)"

definition my_hashlittle :: "bool \<Rightarrow> u64 \<Rightarrow> key_mem \<Rightarrow> nat \<Rightarrow> u32 \<Rightarrow> u32" where
  "my_hashlittle HASH_LITTLE_ENDIAN addr m len initval =
     (let s = 0xdeadbeef + of_nat len + initval
      in hash_of (hashlittle_regs HASH_LITTLE_ENDIAN addr m len (s, s, s)))"

definition my_hashlittle2 ::
  "bool \<Rightarrow> u64 \<Rightarrow> key_mem \<Rightarrow> nat \<Rightarrow> u32 \<Rightarrow> u32 \<Rightarrow> u32 \<times> u32" where
  "my_hashlittle2 HASH_LITTLE_ENDIAN addr m len pc pb =
     (let s = 0xdeadbeef + of_nat len + pc;
          (a, b, c) = hashlittle_regs HASH_LITTLE_ENDIAN addr m len (s, s, s + pb)
      in (c, b))"

section \<open>Reference\<close>

text \<open>
  What the hash is by its description: the key is cut in blocks of three little-endian words, the
  last one is filled with zeros; every block is added to the registers, which are mixed in between.
\<close>

fun add_block :: "abc \<Rightarrow> byte list \<Rightarrow> abc" where
  "add_block (a, b, c) bs =
     (let p = (\<lambda>i. if i < length bs then bs ! i else 0) in
      (a + load_le32 (p 0) (p 1) (p 2) (p 3), b + load_le32 (p 4) (p 5) (p 6) (p 7),
       c + load_le32 (p 8) (p 9) (p 10) (p 11)))"

function spec_regs :: "abc \<Rightarrow> byte list \<Rightarrow> abc" where
  "spec_regs s bs =
     (if length bs > 12 then spec_regs (mix (add_block s (take 12 bs))) (drop 12 bs)
      else if bs = [] then s else mix_final (add_block s bs))"
  by auto
termination by (relation "measure (\<lambda>(s, bs). length bs)") auto

declare spec_regs.simps [simp del]

definition hashlittle_spec :: "byte list \<Rightarrow> u32 \<Rightarrow> u32" where
  "hashlittle_spec bs initval =
     (let s = 0xdeadbeef + of_nat (length bs) + initval in hash_of (spec_regs (s, s, s) bs))"

section \<open>Words and octets\<close>

lemma load_le32_mask:
  "load_le32 p q r s AND 0xff = load_le32 p 0 0 0"
  "load_le32 p q r s AND 0xffff = load_le32 p q 0 0"
  "load_le32 p q r s AND 0xffffff = load_le32 p q r 0"
proof -
  have m: "(0xff :: u32) = mask 8" "(0xffff :: u32) = mask 16" "(0xffffff :: u32) = mask 24"
    by (simp_all add: mask_numeral)
  show "load_le32 p q r s AND 0xff = load_le32 p 0 0 0"
    "load_le32 p q r s AND 0xffff = load_le32 p q 0 0"
    "load_le32 p q r s AND 0xffffff = load_le32 p q r 0"
    unfolding m load_le32_def by (rule bit_word_eqI, auto simp: bit_simps dest: bit_imp_le_length)+
qed

lemma load_le32_eq_add:
  "load_le32 p q r s =
     ucast p + push_bit 8 (ucast q) + push_bit 16 (ucast r) + push_bit 24 (ucast s)"
proof -
  have 1: "(ucast p :: u32) + push_bit 8 (ucast q) = ucast p OR push_bit 8 (ucast q)"
    by (rule disjunctive_add_eq_or, rule bit_word_eqI)
      (auto simp: bit_simps dest: bit_imp_le_length)
  have 2: "(ucast p OR push_bit 8 (ucast q) :: u32) + push_bit 16 (ucast r) =
      ucast p OR push_bit 8 (ucast q) OR push_bit 16 (ucast r)"
    by (subst disjunctive_add_eq_or, rule bit_word_eqI)
      (auto simp: bit_simps or.assoc dest: bit_imp_le_length)
  have 3: "(ucast p OR push_bit 8 (ucast q) OR push_bit 16 (ucast r) :: u32) + push_bit 24 (ucast s)
      = ucast p OR push_bit 8 (ucast q) OR push_bit 16 (ucast r) OR push_bit 24 (ucast s)"
    by (subst disjunctive_add_eq_or, rule bit_word_eqI)
      (auto simp: bit_simps or.assoc dest: bit_imp_le_length)
  show ?thesis
    unfolding 1 2 3 load_le32_def by (simp add: or.assoc or.commute or.left_commute)
qed

lemma load_le32_single: "load_le32 p 0 0 0 = ucast p"
  by (simp add: load_le32_def)

lemma load_le16_eq_add: "ucast (load_le16 p q) = (ucast p + push_bit 8 (ucast q) :: u32)"
proof -
  have "(ucast p :: u32) + push_bit 8 (ucast q) = ucast p OR push_bit 8 (ucast q)"
    by (rule disjunctive_add_eq_or, rule bit_word_eqI)
      (auto simp: bit_simps dest: bit_imp_le_length)
  also have "\<dots> = ucast (load_le16 p q)"
    by (rule bit_word_eqI) (auto simp: load_le16_def bit_simps dest: bit_imp_le_length)
  finally show ?thesis by simp
qed

section \<open>All paths agree with the reference\<close>

lemma upto_12_cases:
  assumes "n \<le> 12" and "\<forall>i \<in> {12, 11, 10, 9, 8, 7, 6, 5, 4, 3, 2, 1, 0 :: nat}. n = i \<longrightarrow> P"
  shows P
proof -
  have "n \<in> {12, 11, 10, 9, 8, 7, 6, 5, 4, 3, 2, 1, 0}" using assms(1) by simp presburger
  then show P using assms(2) by blast
qed

definition key_bytes :: "key_mem \<Rightarrow> nat \<Rightarrow> nat \<Rightarrow> byte list" where
  "key_bytes m k len = map (\<lambda>i. m (k + i)) [0..<len]"

lemma length_key_bytes [simp]: "length (key_bytes m k len) = len"
  by (simp add: key_bytes_def)

lemma nth_key_bytes [simp]: "i < len \<Longrightarrow> key_bytes m k len ! i = m (k + i)"
  by (simp add: key_bytes_def)

lemma take_key_bytes: "n \<le> len \<Longrightarrow> take n (key_bytes m k len) = key_bytes m k n"
  by (rule nth_equalityI) auto

lemma drop_key_bytes: "drop n (key_bytes m k len) = key_bytes m (k + n) (len - n)"
  by (rule nth_equalityI) (auto simp: add.assoc)

lemma key_bytes_Nil [simp]: "key_bytes m k len = [] \<longleftrightarrow> len = 0"
  by (metis length_0_conv length_key_bytes)

lemma add_block_key_bytes:
  "add_block (a, b, c) (key_bytes m k len) =
     (let p = (\<lambda>i. if i < len then m (k + i) else 0) in
      (a + load_le32 (p 0) (p 1) (p 2) (p 3), b + load_le32 (p 4) (p 5) (p 6) (p 7),
       c + load_le32 (p 8) (p 9) (p 10) (p 11)))"
  by (simp add: Let_def)

declare add_block.simps [simp del]

lemmas u32_add_ac =
  add.assoc [where 'a = "32 word"] add.commute [where 'a = "32 word"]
  add.left_commute [where 'a = "32 word"]

lemma little_tail32:
  "len \<le> 12 \<Longrightarrow> little_tail32 m k len s =
     (if len = 0 then None else Some (add_block s (key_bytes m k len)))"
  by (cases s, erule upto_12_cases)
    (simp_all add: little_tail32_def add_block_key_bytes le32_at_def load_le32_mask
      load_le32_single add.commute [of _ k] add.assoc)

lemma little_tail16:
  "len \<le> 12 \<Longrightarrow> little_tail16 m k len s =
     (if len = 0 then None else Some (add_block s (key_bytes m k len)))"
  by (cases s, erule upto_12_cases)
    (simp_all add: little_tail16_def add_block_key_bytes le16_at_def load_le16_eq_add
      load_le32_eq_add push_bit_add add.assoc [of k] add.commute [of _ k] Suc3_eq_add_3 u32_add_ac)

lemma little_tail8:
  "len \<le> 12 \<Longrightarrow> little_tail8 m k len s =
     (if len = 0 then None else Some (add_block s (key_bytes m k len)))"
  by (cases s, erule upto_12_cases)
    (simp_all add: little_tail8_def add_oct_def add_block_key_bytes load_le32_eq_add ac_simps)

lemma little_loop32:
  "little_loop32 m k len s = (k', len', s') \<Longrightarrow>
    len' \<le> 12 \<and> spec_regs s (key_bytes m k len) = spec_regs s' (key_bytes m k' len')"
proof (induction m k len s arbitrary: k' len' s' rule: little_loop32.induct)
  case (1 m k len a b c)
  show ?case
  proof (cases "len > 12")
    case True
    have "mix (a + le32_at m k, b + le32_at m (k + 4), c + le32_at m (k + 8)) =
        mix (add_block (a, b, c) (key_bytes m k 12))"
      by (simp add: add_block_key_bytes le32_at_def add.commute [of _ k] add.assoc)
    then show ?thesis
      using 1 True
      by (simp add: little_loop32.simps [of _ _ len] spec_regs.simps [of _ "key_bytes m k len"]
          take_key_bytes drop_key_bytes)
  qed (use 1 in \<open>simp add: little_loop32.simps [of _ _ len]\<close>)
qed

lemma little_loop16:
  "little_loop16 m k len s = (k', len', s') \<Longrightarrow>
    len' \<le> 12 \<and> spec_regs s (key_bytes m k len) = spec_regs s' (key_bytes m k' len')"
proof (induction m k len s arbitrary: k' len' s' rule: little_loop16.induct)
  case (1 m k len a b c)
  show ?case
  proof (cases "len > 12")
    case True
    have "mix (a + (le16_at m k + push_bit 16 (le16_at m (k + 2))),
               b + (le16_at m (k + 4) + push_bit 16 (le16_at m (k + 6))),
               c + (le16_at m (k + 8) + push_bit 16 (le16_at m (k + 10)))) =
        mix (add_block (a, b, c) (key_bytes m k 12))"
      by (simp add: add_block_key_bytes le16_at_def load_le16_eq_add load_le32_eq_add push_bit_add
          add.assoc [of k] add.commute [of _ k] Suc3_eq_add_3 u32_add_ac)
    then show ?thesis
      using 1 True
      by (simp add: little_loop16.simps [of _ _ len] spec_regs.simps [of _ "key_bytes m k len"]
          take_key_bytes drop_key_bytes)
  qed (use 1 in \<open>simp add: little_loop16.simps [of _ _ len]\<close>)
qed

lemma little_loop8:
  "little_loop8 m k len s = (k', len', s') \<Longrightarrow>
    len' \<le> 12 \<and> spec_regs s (key_bytes m k len) = spec_regs s' (key_bytes m k' len')"
proof (induction m k len s arbitrary: k' len' s' rule: little_loop8.induct)
  case (1 m k len a b c)
  let ?k8 = "\<lambda>i. ucast (m (k + i)) :: u32"
  show ?case
  proof (cases "len > 12")
    case True
    have "mix (a + ?k8 0 + push_bit 8 (?k8 1) + push_bit 16 (?k8 2) + push_bit 24 (?k8 3),
               b + ?k8 4 + push_bit 8 (?k8 5) + push_bit 16 (?k8 6) + push_bit 24 (?k8 7),
               c + ?k8 8 + push_bit 8 (?k8 9) + push_bit 16 (?k8 10) + push_bit 24 (?k8 11)) =
        mix (add_block (a, b, c) (key_bytes m k 12))"
      by (simp add: add_block_key_bytes load_le32_eq_add ac_simps)
    then show ?thesis
      using 1 True
      by (simp add: little_loop8.simps [of _ _ len] spec_regs.simps [of _ "key_bytes m k len"]
          take_key_bytes drop_key_bytes Let_def)
  qed (use 1 in \<open>simp add: little_loop8.simps [of _ _ len]\<close>)
qed

lemma spec_regs_tail:
  "len \<le> 12 \<Longrightarrow> spec_regs s (key_bytes m k len) =
     (if len = 0 then s else mix_final (add_block s (key_bytes m k len)))"
  by (simp add: spec_regs.simps)

lemma hashlittle_regs_eq: "hashlittle_regs le addr m len s = spec_regs s (key_bytes m 0 len)"
  by (auto simp: hashlittle_regs_def little_tail32 little_tail16 little_tail8 spec_regs_tail
      split: prod.splits dest!: little_loop32 little_loop16 little_loop8)

lemma key_bytes_0: "key_bytes m 0 len = map m [0..<len]"
  by (simp add: key_bytes_def)

lemma hashlittle_eq: "my_hashlittle le addr m len iv = hashlittle_spec (map m [0..<len]) iv"
  by (simp add: my_hashlittle_def hashlittle_spec_def hashlittle_regs_eq key_bytes_0 Let_def)

section \<open>The words of my_hashword\<close>

definition le_bytes :: "u32 \<Rightarrow> byte list" where
  "le_bytes w = [ucast w, ucast (drop_bit 8 w), ucast (drop_bit 16 w), ucast (drop_bit 24 w)]"

lemma load_le_bytes:
  "load_le32 (ucast w) (ucast (drop_bit 8 w)) (ucast (drop_bit 16 w)) (ucast (drop_bit 24 w)) = w"
proof -
  obtain x0 x1 x2 x3 where w: "w = load_le32 x0 x1 x2 x3" by (rule word_as_bytes)
  have "ucast (load_le32 x0 x1 x2 x3) = x0" "ucast (drop_bit 8 (load_le32 x0 x1 x2 x3)) = x1"
    "ucast (drop_bit 16 (load_le32 x0 x1 x2 x3)) = x2"
    "ucast (drop_bit 24 (load_le32 x0 x1 x2 x3)) = x3"
    by (rule bit_word_eqI, auto simp: load_le32_def bit_simps dest: bit_imp_le_length)+
  then show ?thesis by (simp add: w)
qed

lemma hashword_loop_eq: "hashword_loop s k = spec_regs s (concat (map le_bytes k))"
proof (induction s k rule: hashword_loop.induct)
  case (1 a b c k)
  consider "k = []" | k0 where "k = [k0]" | k0 k1 where "k = [k0, k1]"
    | k0 k1 k2 where "k = [k0, k1, k2]" | k0 k1 k2 k3 ks where "k = k0 # k1 # k2 # k3 # ks"
    by (metis list.exhaust)
  then show ?case
  proof cases
    case 5
    then have "hashword_loop (a, b, c) k = hashword_loop (mix (a + k0, b + k1, c + k2)) (k3 # ks)"
      by (simp add: hashword_loop.simps [of a b c])
    also have "\<dots> = spec_regs (mix (a + k0, b + k1, c + k2)) (concat (map le_bytes (k3 # ks)))"
      using 1 5 by blast
    also have "\<dots> = spec_regs (a, b, c) (concat (map le_bytes k))"
      by (simp add: 5 le_bytes_def spec_regs.simps [of "(a, b, c)"] add_block.simps load_le_bytes)
    finally show ?thesis .
  qed (simp_all add: hashword_loop.simps [of a b c] spec_regs.simps [of "(a, b, c)"]
      add_block.simps le_bytes_def load_le_bytes load_le32_single)
qed

lemma length_le_bytes: "length (concat (map le_bytes k)) = 4 * length k"
  by (induction k) (simp_all add: le_bytes_def)

lemma push_bit_2_of_nat: "push_bit 2 (of_nat n :: u32) = of_nat (4 * n)"
  by (simp add: push_bit_eq_mult)

section \<open>Reversibility of mix\<close>

definition unmix_row :: "nat \<Rightarrow> abc \<Rightarrow> abc" where
  "unmix_row k = (\<lambda>(a, b, c). let c = c - b; a = a XOR rot c k; a = a + c in (a, b, c))"

lemma unmix_row_mix_row: "unmix_row k (mix_row k s) = s"
  by (cases s) (simp add: mix_row_def unmix_row_def Let_def xor.assoc)

lemma mix_row_unmix_row: "mix_row k (unmix_row k s) = s"
  by (cases s) (simp add: mix_row_def unmix_row_def Let_def xor.assoc)

definition rot3 :: "abc \<Rightarrow> abc" where "rot3 = (\<lambda>(a, b, c). (b, c, a))"

lemma rot3_cycle: "rot3 (rot3 (rot3 s)) = s"
  by (cases s) (simp add: rot3_def)

lemma mix_as_rows:
  "mix s = rot3 (mix_row 4 (rot3 (mix_row 19 (rot3 (mix_row 16 (rot3 (mix_row 8 (rot3
     (mix_row 6 (rot3 (mix_row 4 s)))))))))))"
  by (cases s) (simp add: mix_def rot3_def split: prod.splits)

definition unmix :: "abc \<Rightarrow> abc" where
  "unmix s =
     (let back = (\<lambda>k s. unmix_row k (rot3 (rot3 s)))
      in back 4 (back 6 (back 8 (back 16 (back 19 (back 4 s))))))"

lemma unmix_mix: "unmix (mix s) = s"
  by (simp add: mix_as_rows unmix_def unmix_row_mix_row rot3_cycle)

lemma mix_unmix: "mix (unmix s) = s"
  by (simp add: mix_as_rows unmix_def mix_row_unmix_row rot3_cycle)

section \<open>Property\<close>

text \<open>
  C18. \<^verbatim>\<open>my_hashlittle\<close> computes the same hash of the octets of a key on every host and for every
  alignment of the key, although the aligned ways read whole words: what lies behind the key has no
  influence. \<^verbatim>\<open>my_hashlittle2\<close> without a second seed and, for keys of whole words,
  \<^verbatim>\<open>my_hashword\<close> give the same hash, and \<^verbatim>\<open>mix\<close> loses nothing of the registers.
\<close>

theorem hashlittle_reference:
  "my_hashlittle le addr m len iv = hashlittle_spec (map m [0..<len]) iv \<and>
   fst (my_hashlittle2 le addr m len iv 0) = hashlittle_spec (map m [0..<len]) iv \<and>
   my_hashword ws iv = hashlittle_spec (concat (map le_bytes ws)) iv \<and>
   fst (my_hashword2 ws iv 0) = my_hashword ws iv \<and>
   bij mix"
proof -
  have "bij mix" by (rule o_bij [of unmix]) (auto simp: unmix_mix mix_unmix)
  then show ?thesis
    by (auto simp: hashlittle_eq my_hashlittle2_def my_hashword_def my_hashword2_def
        hashlittle_spec_def hashlittle_regs_eq key_bytes_0 hashword_loop_eq length_le_bytes push_bit_2_of_nat
        hash_of_def Let_def split: prod.splits)
qed

end
