(* ===== verification/Dnsqr.thy ===== *)
theory Dnsqr
  imports Lookup3 Ipdg
begin

text \<open>
  The state table of the DNS query and response module (nmsg/base/dnsqr.c): the queries that wait
  for their responses, in a hash table with linear probing and, in the order of their arrival, in a
  list. Its properties are in theories Dnsqr_Table and Dnsqr_Store.
\<close>

section \<open>Data\<close>

datatype dns_qr_type =
    UDP_INVALID | UDP_QUERY_RESPONSE | UDP_UNANSWERED_QUERY | UDP_UNSOLICITED_RESPONSE | DNS_TCP | DNS_ICMP
  | UDP_QUERY_ONLY | UDP_RESPONSE_ONLY

datatype udp_checksum = CHECKSUM_ERROR | CHECKSUM_ABSENT | CHECKSUM_INCORRECT | CHECKSUM_CORRECT

record tspec =
  tv_sec :: int
  tv_nsec :: int

text \<open>
  \<^verbatim>\<open>Nmsg__Base__DnsQR\<close>. \<open>None\<close> stands for a field that is not set, for an address without octets
  and for a name whose \<^verbatim>\<open>data\<close> is NULL; a repeated field with its count is a list. The field
  \<^verbatim>\<open>timeout\<close>, a double, is kept as the seconds and nanoseconds that it is computed from.
\<close>

record dnsqr =
  dq_type :: dns_qr_type
  dq_query_ip :: "byte list option"
  dq_response_ip :: "byte list option"
  dq_proto :: u32
  dq_query_port :: u32
  dq_response_port :: u32
  dq_id :: u32
  dq_qname :: "byte list option"
  dq_qtype :: "u32 option"
  dq_qclass :: "u32 option"
  dq_rcode :: "u32 option"
  dq_query_packet :: "byte list list"
  dq_query_time_sec :: "int list"
  dq_query_time_nsec :: "int list"
  dq_response_packet :: "byte list list"
  dq_response_time_sec :: "int list"
  dq_response_time_nsec :: "int list"
  dq_tcp :: "byte list option"
  dq_icmp :: "byte list option"
  dq_timeout :: "tspec option"
  dq_udp_checksum :: "udp_checksum option"
  dq_resolver_address_zeroed :: bool

text \<open>\<^verbatim>\<open>my_calloc\<close> and \<^verbatim>\<open>nmsg__base__dns_qr__init\<close>\<close>

definition dnsqr_empty :: dnsqr where
  "dnsqr_empty = \<lparr>dq_type = UDP_INVALID, dq_query_ip = None, dq_response_ip = None, dq_proto = 0,
     dq_query_port = 0, dq_response_port = 0, dq_id = 0, dq_qname = None, dq_qtype = None, dq_qclass = None,
     dq_rcode = None, dq_query_packet = [], dq_query_time_sec = [], dq_query_time_nsec = [],
     dq_response_packet = [], dq_response_time_sec = [], dq_response_time_nsec = [], dq_tcp = None,
     dq_icmp = None, dq_timeout = None, dq_udp_checksum = None, dq_resolver_address_zeroed = False\<rparr>"

text \<open>
  A slot of the table: the query and the address of its element of the list. An element of the list
  holds the number of its slot, where the code has a pointer to it.
\<close>

record hash_entry =
  he_dnsqr :: "dnsqr option"
  he_le :: "nat option"

definition hash_entry_empty :: hash_entry where
  "hash_entry_empty = \<lparr>he_dnsqr = None, he_le = None\<rparr>"

text \<open>
  The state of the table in \<^verbatim>\<open>dnsqr_ctx_t\<close>. Elements of the list live at addresses of the store
  \<open>dt_elems\<close>, \<open>dt_fresh\<close> is the next address that \<^verbatim>\<open>my_calloc\<close> returns.
\<close>

record dnsqr_table =
  dt_table :: "hash_entry list"
  dt_list :: "nat list"
  dt_elems :: "nat \<Rightarrow> nat option"
  dt_fresh :: nat
  dt_num_slots :: u32
  dt_count :: u32

section \<open>Equality and hash of a query and a response\<close>

definition dnsqr_eq6 :: "dnsqr \<Rightarrow> dnsqr \<Rightarrow> bool" where
  "dnsqr_eq6 d1 d2 \<longleftrightarrow>
     dq_id d1 = dq_id d2 \<and> dq_query_port d1 = dq_query_port d2 \<and> dq_response_port d1 = dq_response_port d2 \<and>
     dq_proto d1 = dq_proto d2 \<and>
     opt_bytes (dq_query_ip d1) = opt_bytes (dq_query_ip d2) \<and>
     opt_bytes (dq_response_ip d1) = opt_bytes (dq_response_ip d2)"

definition dnsqr_eq9 :: "dnsqr \<Rightarrow> dnsqr \<Rightarrow> bool" where
  "dnsqr_eq9 d1 d2 \<longleftrightarrow>
     dq_id d1 = dq_id d2 \<and> dq_query_port d1 = dq_query_port d2 \<and> dq_response_port d1 = dq_response_port d2 \<and>
     opt_u32 (dq_qtype d1) = opt_u32 (dq_qtype d2) \<and> opt_u32 (dq_qclass d1) = opt_u32 (dq_qclass d2) \<and>
     dq_proto d1 = dq_proto d2 \<and>
     opt_bytes (dq_query_ip d1) = opt_bytes (dq_query_ip d2) \<and>
     opt_bytes (dq_response_ip d1) = opt_bytes (dq_response_ip d2) \<and>
     opt_bytes (dq_qname d1) = opt_bytes (dq_qname d2)"

definition dnsqr_eq :: "dnsqr \<Rightarrow> dnsqr \<Rightarrow> u16 \<Rightarrow> bool" where
  "dnsqr_eq d1 d2 rcode \<longleftrightarrow>
     (if dq_qname d1 \<noteq> None \<and> dq_qname d2 \<noteq> None then dnsqr_eq9 d1 d2
      else (rcode = 1 \<or> rcode = 2 \<or> rcode = 4 \<or> rcode = 5) \<and> dnsqr_eq6 d1 d2)"

text \<open>
  The machine that the program runs on: its byte order, the addresses of the two keys on the stack
  and what lies behind them there.
\<close>

record host =
  h_little :: bool
  h_key_addr :: u64
  h_key6_addr :: u64
  h_stack :: key_mem

definition host16 :: "bool \<Rightarrow> u16 \<Rightarrow> byte list" where
  "host16 little w = (if little then [ucast w, ucast (drop_bit 8 w)] else [ucast (drop_bit 8 w), ucast w])"

definition key_on_stack :: "byte list \<Rightarrow> key_mem \<Rightarrow> key_mem" where
  "key_on_stack key stack = (\<lambda>i. if i < length key then key ! i else stack i)"

definition key_ports :: "bool \<Rightarrow> dnsqr \<Rightarrow> byte list" where
  "key_ports little q = host16 little (ucast (dq_proto q)) @ host16 little (ucast (dq_query_port q)) @
     host16 little (ucast (dq_response_port q)) @ host16 little (ucast (dq_id q))"

definition dnsqr_hash :: "host \<Rightarrow> dnsqr \<Rightarrow> u32 run" where
  "dnsqr_hash h q =
     (let qip = opt_bytes (dq_query_ip q); rip = opt_bytes (dq_response_ip q);
          hash = (\<lambda>addr key. Ret (my_hashlittle (h_little h) addr (key_on_stack key (h_stack h)) (length key) 0))
      in if \<not> (length qip = 4 \<or> length qip = 16) then Abort
         else if \<not> (length rip = 4 \<or> length rip = 16) then Abort
         else if length qip = 4 then
           run_bind (mem_read rip 0 4) (\<lambda>r4. hash (h_key_addr h) (qip @ r4 @ key_ports (h_little h) q))
         else
           run_bind (mem_read rip 0 16) (\<lambda>r16. hash (h_key6_addr h) (qip @ r16 @ key_ports (h_little h) q)))"

text \<open>The first slot that is tried, and the last one.\<close>

definition first_slot :: "host \<Rightarrow> u32 \<Rightarrow> dnsqr \<Rightarrow> nat run" where
  "first_slot h num_slots q =
     run_bind (dnsqr_hash h q) (\<lambda>hash. if num_slots = 0 then Fault else Ret (unat (hash mod num_slots)))"

definition last_slot :: "u32 \<Rightarrow> nat \<Rightarrow> nat" where
  "last_slot num_slots slot = (if slot > 0 then slot - 1 else unat (num_slots - 1))"

definition next_slot :: "nat \<Rightarrow> nat \<Rightarrow> nat" where
  "next_slot n slot = (if slot + 1 \<ge> n then 0 else slot + 1)"

section \<open>dnsqr_insert_query\<close>

text \<open>The search of an empty slot; slots outside of the table, which never occur, are faults.\<close>

function empty_slot :: "hash_entry list \<Rightarrow> nat \<Rightarrow> nat \<Rightarrow> nat \<Rightarrow> nat run" where
  "empty_slot table n slot slot_stop =
     (if slot \<ge> n \<or> slot_stop \<ge> n \<or> n \<noteq> length table then Fault
      else if he_dnsqr (table ! slot) = None then Ret slot
      else if slot = slot_stop then Abort
      else empty_slot table n (next_slot n slot) slot_stop)"
  by pat_completeness auto
termination
  by (relation "measure (\<lambda>(table, n, slot, slot_stop). if slot \<le> slot_stop then slot_stop - slot
      else slot_stop + n - slot)") (auto simp: next_slot_def)

declare empty_slot.simps [simp del]

definition dnsqr_insert_query :: "host \<Rightarrow> dnsqr_table \<Rightarrow> dnsqr \<Rightarrow> dnsqr_table run" where
  "dnsqr_insert_query h t q =
     run_bind (first_slot h (dt_num_slots t) q) (\<lambda>slot.
     run_bind (empty_slot (dt_table t) (unat (dt_num_slots t)) slot (last_slot (dt_num_slots t) slot)) (\<lambda>slot.
       let le = dt_fresh t
       in Ret (t\<lparr>dt_count := dt_count t + 1,
            dt_table := (dt_table t)[slot := \<lparr>he_dnsqr = Some q, he_le = Some le\<rparr>],
            dt_elems := (dt_elems t)(le \<mapsto> slot), dt_fresh := le + 1, dt_list := dt_list t @ [le]\<rparr>)))"

section \<open>dnsqr_remove\<close>

text \<open>
  The loop that moves the following values up: \<open>i\<close> is the empty slot, \<open>j\<close> the last one looked at. The
  fuel bounds the number of slots looked at; to run out of it is shown not to happen while one slot
  of the table is empty.
\<close>

definition must_move :: "nat \<Rightarrow> nat \<Rightarrow> nat \<Rightarrow> bool" where
  "must_move i j k \<longleftrightarrow> (j > i \<and> (k \<le> i \<or> k > j)) \<or> (j < i \<and> (k \<le> i \<and> k > j))"

fun move_up :: "nat \<Rightarrow> host \<Rightarrow> dnsqr_table \<Rightarrow> nat \<Rightarrow> nat \<Rightarrow> dnsqr_table run" where
  "move_up 0 h t i j = Fault"
| "move_up (Suc fuel) h t i j =
     (let j' = (j + 1) mod unat (dt_num_slots t) in
      if j' \<ge> length (dt_table t) then Fault
      else (case he_dnsqr (dt_table t ! j') of
          None \<Rightarrow> Ret t
        | Some q \<Rightarrow>
            run_bind (first_slot h (dt_num_slots t) q) (\<lambda>k.
              if must_move i j' k then
                (case he_le (dt_table t ! j') of
                   None \<Rightarrow> Fault
                 | Some le \<Rightarrow>
                     move_up fuel h
                       (t\<lparr>dt_table := ((dt_table t)[i := dt_table t ! j'])[j' := hash_entry_empty],
                          dt_elems := (dt_elems t)(le \<mapsto> i)\<rparr>) j' j')
              else move_up fuel h t i j')))"

definition dnsqr_remove :: "host \<Rightarrow> dnsqr_table \<Rightarrow> nat \<Rightarrow> dnsqr_table run" where
  "dnsqr_remove h t slot =
     (if slot \<ge> length (dt_table t) then Fault
      else if he_dnsqr (dt_table t ! slot) = None then Abort
      else (case he_le (dt_table t ! slot) of
          None \<Rightarrow> Fault
        | Some le \<Rightarrow>
            move_up (unat (dt_num_slots t)) h
              (t\<lparr>dt_table := (dt_table t)[slot := hash_entry_empty], dt_count := dt_count t - 1,
                 dt_list := remove1 le (dt_list t), dt_elems := (dt_elems t)(le := None)\<rparr>) slot slot))"

section \<open>dnsqr_retrieve\<close>

function match_slot :: "hash_entry list \<Rightarrow> nat \<Rightarrow> dnsqr \<Rightarrow> u16 \<Rightarrow> nat \<Rightarrow> nat \<Rightarrow> (nat \<times> dnsqr) option run" where
  "match_slot table n d rcode slot slot_stop =
     (if slot \<ge> n \<or> slot_stop \<ge> n \<or> n \<noteq> length table then Fault
      else (case he_dnsqr (table ! slot) of
          None \<Rightarrow> Ret None
        | Some q \<Rightarrow>
            if dnsqr_eq d q rcode then Ret (Some (slot, q))
            else if slot = slot_stop then Abort
            else match_slot table n d rcode (next_slot n slot) slot_stop))"
  by pat_completeness auto
termination
  by (relation "measure (\<lambda>(table, n, d, rcode, slot, slot_stop). if slot \<le> slot_stop then slot_stop - slot
      else slot_stop + n - slot)") (auto simp: next_slot_def)

declare match_slot.simps [simp del]

definition dnsqr_retrieve :: "host \<Rightarrow> dnsqr_table \<Rightarrow> dnsqr \<Rightarrow> u16 \<Rightarrow> (dnsqr option \<times> dnsqr_table) run" where
  "dnsqr_retrieve h t d rcode =
     run_bind (first_slot h (dt_num_slots t) d) (\<lambda>slot.
     run_bind (match_slot (dt_table t) (unat (dt_num_slots t)) d rcode slot (last_slot (dt_num_slots t) slot))
       (\<lambda>m. case m of
           None \<Rightarrow> Ret (None, t)
         | Some (slot, q) \<Rightarrow> run_bind (dnsqr_remove h t slot) (\<lambda>t'. Ret (Some q, t'))))"

section \<open>dnsqr_trim\<close>

text \<open>
  The oldest query, when there are more than \<open>max_values\<close>, at the end of the input, or when it waits for
  longer than the timeout. The time that it waited is stored in it.
\<close>

definition dnsqr_waited :: "tspec \<Rightarrow> dnsqr \<Rightarrow> tspec" where
  "dnsqr_waited now q =
     (let s = tv_sec now - hd (dq_query_time_sec q); ns = tv_nsec now - hd (dq_query_time_nsec q)
      in if ns < 0 then \<lparr>tv_sec = s - 1, tv_nsec = ns + 1000000000\<rparr> else \<lparr>tv_sec = s, tv_nsec = ns\<rparr>)"

definition dnsqr_trim ::
  "host \<Rightarrow> dnsqr_table \<Rightarrow> u32 \<Rightarrow> u32 \<Rightarrow> bool \<Rightarrow> tspec \<Rightarrow> (dnsqr option \<times> dnsqr_table) run" where
  "dnsqr_trim h t max_values query_timeout stop now =
     (case dt_list t of
        [] \<Rightarrow> Ret (None, t)
      | le # _ \<Rightarrow>
          (case dt_elems t le of
             None \<Rightarrow> Abort
           | Some slot \<Rightarrow>
               if slot \<ge> length (dt_table t) then Fault
               else (case he_dnsqr (dt_table t ! slot) of
                   None \<Rightarrow> Abort
                 | Some q \<Rightarrow>
                     if dq_query_time_sec q = [] \<or> dq_query_time_nsec q = [] then Abort
                     else if dt_count t > max_values \<or> stop \<or>
                         tv_sec now - hd (dq_query_time_sec q) > int (unat query_timeout) then
                       run_bind (dnsqr_remove h t slot) (\<lambda>t'.
                         Ret (Some (q\<lparr>dq_timeout := Some (dnsqr_waited now q)\<rparr>), t'))
                     else Ret (None, t))))"

end
