(* ===== verification/Probing.thy ===== *)
theory Probing
  imports Main
begin

text \<open>
  Linear probing with removal by moving up, on slots \<open>0 .. n - 1\<close> in a circle: what the table of
  theory Dnsqr relies on. \<open>T\<close> gives the entry of a slot, \<open>home\<close> the slot where its search begins.
\<close>

definition cyc :: "nat \<Rightarrow> nat \<Rightarrow> nat \<Rightarrow> nat" where
  "cyc n a b = (if a \<le> b then b - a else b + n - a)"

lemma cyc_self [simp]: "cyc n a a = 0"
  by (simp add: cyc_def)

lemma cyc_eq_0: "a < n \<Longrightarrow> b < n \<Longrightarrow> cyc n a b = 0 \<longleftrightarrow> a = b"
  by (auto simp: cyc_def)

lemma cyc_inj: "a < n \<Longrightarrow> b < n \<Longrightarrow> c < n \<Longrightarrow> cyc n a b = cyc n a c \<longleftrightarrow> b = c"
  by (auto simp: cyc_def)

lemma cyc_less: "a < n \<Longrightarrow> b < n \<Longrightarrow> cyc n a b < n"
  by (auto simp: cyc_def)

lemma cyc_split:
  "a < n \<Longrightarrow> i < n \<Longrightarrow> s < n \<Longrightarrow> cyc n a i < cyc n a s \<Longrightarrow> cyc n a s = cyc n a i + cyc n i s"
  by (auto simp: cyc_def split: if_splits)

lemma cyc_within:
  "a < n \<Longrightarrow> i < n \<Longrightarrow> j < n \<Longrightarrow> s < n \<Longrightarrow> cyc n a s = cyc n a i + cyc n i s \<Longrightarrow> cyc n i j < cyc n i s \<Longrightarrow>
     cyc n a j < cyc n a s"
  unfolding cyc_def by (cases "a \<le> s"; cases "a \<le> i"; cases "i \<le> s"; cases "i \<le> j"; cases "a \<le> j"; simp)

lemma mod_Suc_less: "0 < n \<Longrightarrow> (j + 1) mod n < n" for n :: nat
  by simp

lemma Suc_mod: "j < n \<Longrightarrow> (j + 1) mod n = (if j + 1 = n then 0 else j + 1)" for n :: nat
  by simp

lemma cyc_Suc: "i < n \<Longrightarrow> j < n \<Longrightarrow> (j + 1) mod n \<noteq> i \<Longrightarrow> cyc n i ((j + 1) mod n) = cyc n i j + 1"
  unfolding Suc_mod by (auto simp: cyc_def split: if_splits)

lemma cyc_Suc_left: "j < n \<Longrightarrow> e < n \<Longrightarrow> j \<noteq> e \<Longrightarrow> cyc n j e = cyc n ((j + 1) mod n) e + 1"
  unfolding Suc_mod by (auto simp: cyc_def split: if_splits)

lemma cyc_next:
  assumes "k < n" and "s < n" and "e < n" and "cyc n k s < cyc n k e"
  shows "cyc n k ((s + 1) mod n) = cyc n k s + 1"
proof (rule cyc_Suc [OF assms(1,2)])
  show "(s + 1) mod n \<noteq> k"
  proof
    assume "(s + 1) mod n = k"
    then have "cyc n k s = n - 1"
      using Suc_mod [OF assms(2)] assms(1,2) by (auto simp: cyc_def split: if_splits)
    with assms(4) cyc_less [OF assms(1,3)] show False by simp
  qed
qed

text \<open>
  A search from the home \<open>k\<close> that goes on to the next slot until \<open>P\<close> holds, at most up to the slot before \<open>k\<close>:
  when \<open>P\<close> holds for some slot, the search ends at the first one.
\<close>

lemma probe_walk:
  assumes k: "k < n" and e: "e < n" "P e" and stop: "cyc n k stop = n - 1"
    and step: "\<And>s. s < n \<Longrightarrow> s \<noteq> stop \<Longrightarrow> \<not> P s \<Longrightarrow> search s = search ((s + 1) mod n)"
  shows "\<exists>r<n. P r \<and> search k = search r \<and> (\<forall>t<n. cyc n k t < cyc n k r \<longrightarrow> \<not> P t)"
proof -
  obtain r where r: "r < n" "P r" "\<And>t. t < n \<Longrightarrow> P t \<Longrightarrow> cyc n k r \<le> cyc n k t"
    using ex_has_least_nat [of "\<lambda>s. s < n \<and> P s" e "cyc n k"] e by blast
  have "search s = search r" if "s < n" "cyc n k s \<le> cyc n k r" for s
    using that
  proof (induction "cyc n k r - cyc n k s" arbitrary: s)
    case 0
    then have "cyc n k s = cyc n k r" by simp
    then have "s = r" using cyc_inj [OF k 0(2) r(1)] by simp
    then show ?case by simp
  next
    case (Suc m)
    then have lt: "cyc n k s < cyc n k r" by simp
    then have "\<not> P s" "s \<noteq> stop" using r(3) [of s] Suc.prems(1) stop cyc_less [OF k r(1)] by auto
    with step [OF Suc.prems(1)] have "search s = search ((s + 1) mod n)" by simp
    also have "\<dots> = search r"
      using Suc.hyps cyc_next [OF k Suc.prems(1) r(1) lt] lt k by (intro Suc.hyps(1)) auto
    finally show ?case .
  qed
  from this [of k] k r show ?thesis by (intro exI [of _ r]) (auto simp: not_le [symmetric])
qed

section \<open>Invariants\<close>

text \<open>Every entry is reached from its home without an empty slot in between.\<close>

definition probed :: "nat \<Rightarrow> ('e \<Rightarrow> nat) \<Rightarrow> (nat \<Rightarrow> 'e option) \<Rightarrow> bool" where
  "probed n home T \<longleftrightarrow> (\<forall>s<n. \<forall>e. T s = Some e \<longrightarrow> home e < n \<and>
     (\<forall>t<n. cyc n (home e) t < cyc n (home e) s \<longrightarrow> T t \<noteq> None))"

text \<open>The same, but for the entries behind \<open>j\<close> the slot \<open>i\<close> may be empty.\<close>

definition probed_but :: "nat \<Rightarrow> ('e \<Rightarrow> nat) \<Rightarrow> (nat \<Rightarrow> 'e option) \<Rightarrow> nat \<Rightarrow> nat \<Rightarrow> bool" where
  "probed_but n home T i j \<longleftrightarrow> (\<forall>s<n. \<forall>e. T s = Some e \<longrightarrow> home e < n \<and>
     (\<forall>t<n. cyc n (home e) t < cyc n (home e) s \<longrightarrow> T t \<noteq> None \<or> t = i \<and> cyc n i j < cyc n i s))"

text \<open>Entries with the same home are reached in the order of their ranks.\<close>

definition ranked :: "nat \<Rightarrow> ('e \<Rightarrow> nat) \<Rightarrow> ('e \<Rightarrow> nat) \<Rightarrow> (nat \<Rightarrow> 'e option) \<Rightarrow> bool" where
  "ranked n home rank T \<longleftrightarrow> (\<forall>s<n. \<forall>t<n. \<forall>e f. T s = Some e \<longrightarrow> T t = Some f \<longrightarrow> home e = home f \<longrightarrow>
     rank e < rank f \<longrightarrow> cyc n (home e) s < cyc n (home e) t)"

lemma probedD:
  "probed n home T \<Longrightarrow> T s = Some e \<Longrightarrow> s < n \<Longrightarrow> t < n \<Longrightarrow> cyc n (home e) t < cyc n (home e) s \<Longrightarrow> T t \<noteq> None"
  by (auto simp: probed_def)

lemma rankedD:
  "ranked n home rank T \<Longrightarrow> T s = Some e \<Longrightarrow> T t = Some f \<Longrightarrow> s < n \<Longrightarrow> t < n \<Longrightarrow> home e = home f \<Longrightarrow>
     rank e < rank f \<Longrightarrow> cyc n (home f) s < cyc n (home f) t"
  unfolding ranked_def by metis

lemma probed_butD:
  "probed_but n home T i j \<Longrightarrow> T s = Some e \<Longrightarrow> s < n \<Longrightarrow> t < n \<Longrightarrow> cyc n (home e) t < cyc n (home e) s \<Longrightarrow>
     T t = None \<Longrightarrow> t = i \<and> cyc n i j < cyc n i s"
  unfolding probed_but_def by metis

section \<open>Insertion in the first empty slot\<close>

lemma probed_insert:
  assumes "probed n home T" and "s < n" and "T s = None" and "home e < n"
    and first: "\<And>t. t < n \<Longrightarrow> cyc n (home e) t < cyc n (home e) s \<Longrightarrow> T t \<noteq> None"
  shows "probed n home (T(s \<mapsto> e))"
  using assms unfolding probed_def by (auto split: if_splits)

lemma ranked_insert:
  assumes p: "probed n home T" and r: "ranked n home rank T" and s: "s < n" "T s = None"
    and first: "\<And>t. t < n \<Longrightarrow> cyc n (home e) t < cyc n (home e) s \<Longrightarrow> T t \<noteq> None"
    and top: "\<And>t f. t < n \<Longrightarrow> T t = Some f \<Longrightarrow> rank f < rank e" and h: "home e < n"
  shows "ranked n home rank (T(s \<mapsto> e))"
  unfolding ranked_def
proof (intro allI impI)
  fix u t f g
  assume u: "u < n" and t: "t < n" and f: "(T(s \<mapsto> e)) u = Some f" and g: "(T(s \<mapsto> e)) t = Some g"
    and hm: "home f = home g" and lt: "rank f < rank g"
  show "cyc n (home f) u < cyc n (home f) t"
  proof (cases "t = s")
    case True
    with g have ge: "g = e" by simp
    with f lt have us: "u \<noteq> s" "T u = Some f" by (auto split: if_splits)
    show ?thesis
    proof (rule ccontr)
      assume "\<not> ?thesis"
      then have "cyc n (home f) s < cyc n (home f) u"
        using True us(1) u s(1) h hm ge cyc_inj [of "home e" n u s] by auto
      then show False using probedD [OF p us(2) u s(1)] s(2) by simp
    qed
  next
    case False
    with g have g': "T t = Some g" by simp
    with top [OF t g'] f lt have "T u = Some f" by (auto split: if_splits)
    from rankedD [OF r this g' u t hm lt] hm show ?thesis by simp
  qed
qed

section \<open>Moving up\<close>

lemma probed_but_start:
  assumes "probed n home T" and "i < n"
  shows "probed_but n home (T(i := None)) i i"
  using assms unfolding probed_def probed_but_def by (auto split: if_splits) (metis cyc_eq_0 gr0I)+

lemma probed_but_end:
  assumes p: "probed_but n home T i j" and ij: "i < n" "j < n" and e: "T ((j + 1) mod n) = None"
    and i: "T i = None"
  shows "probed n home T"
  unfolding probed_def
proof (intro allI impI conjI)
  fix s e t assume s: "s < n" "T s = Some e" and t: "t < n" "cyc n (home e) t < cyc n (home e) s"
  have h: "home e < n" using p s by (auto simp: probed_but_def)
  let ?j = "(j + 1) mod n"
  have j: "?j < n" using ij by simp
  show "T t \<noteq> None"
  proof
    assume n: "T t = None"
    from probed_butD [OF p s(2,1) t n] have ti: "t = i" "cyc n i j < cyc n i s" by auto
    have "?j \<noteq> i"
    proof
      assume "?j = i"
      then have "cyc n i j = n - 1"
        using Suc_mod [OF ij(2)] ij by (auto simp: cyc_def split: if_splits)
      with ti(2) cyc_less [of i n s] ij s show False by simp
    qed
    then have cj: "cyc n i ?j = cyc n i j + 1" using ij by (intro cyc_Suc) auto
    have "?j \<noteq> s" using e s by auto
    then have "cyc n i ?j < cyc n i s" using ti(2) cj cyc_inj [OF ij(1) j s(1)] by simp
    moreover have "cyc n (home e) s = cyc n (home e) i + cyc n i s"
      using cyc_split [OF h ij(1) s(1)] t(2) ti(1) by simp
    ultimately have "cyc n (home e) ?j < cyc n (home e) s"
      using cyc_within [OF h ij(1) j s(1)] by simp
    from probed_butD [OF p s(2,1) j this e] have "?j = i" by simp
    with \<open>?j \<noteq> i\<close> show False ..
  qed
next
  fix s e assume "s < n" "T s = Some e"
  then show "home e < n" using p by (auto simp: probed_but_def)
qed

lemma probed_but_skip:
  assumes p: "probed_but n home T i j" and ij: "i < n" "j < n" and e: "T ((j + 1) mod n) = Some e"
    and i: "T i = None" and k: "\<not> cyc n (home e) i < cyc n (home e) ((j + 1) mod n)"
  shows "probed_but n home T i ((j + 1) mod n)"
  unfolding probed_but_def
proof (intro allI impI conjI)
  let ?j = "(j + 1) mod n"
  have ne: "?j \<noteq> i" using e i by auto
  have j: "?j < n" using ij by simp
  note cj = cyc_Suc [OF ij ne]
  fix s f t assume s: "s < n" "T s = Some f" and t: "t < n" "cyc n (home f) t < cyc n (home f) s"
  show "T t \<noteq> None \<or> t = i \<and> cyc n i ?j < cyc n i s"
  proof (cases "T t = None")
    case True
    from probed_butD [OF p s(2,1) t True] have ti: "t = i" "cyc n i j < cyc n i s" by auto
    have "s \<noteq> ?j" using k t(2) ti(1) s e by auto
    then have "cyc n i ?j \<noteq> cyc n i s" using cyc_inj [OF ij(1) j s(1)] by auto
    with cj ti show ?thesis by simp
  qed simp
next
  fix s f assume "s < n" "T s = Some f"
  then show "home f < n" using p by (auto simp: probed_but_def)
qed

lemma probed_but_move:
  assumes p: "probed_but n home T i j" and ij: "i < n" "j < n" and e: "T ((j + 1) mod n) = Some e"
    and i: "T i = None" and k: "cyc n (home e) i < cyc n (home e) ((j + 1) mod n)"
  shows "probed_but n home (T(i \<mapsto> e, (j + 1) mod n := None)) ((j + 1) mod n) ((j + 1) mod n)"
  unfolding probed_but_def
proof (intro allI impI conjI)
  let ?j = "(j + 1) mod n"
  let ?T = "T(i \<mapsto> e, ?j := None)"
  have ne: "?j \<noteq> i" using e i by auto
  have j: "?j < n" using ij by simp
  have h: "home e < n" using p e j by (auto simp: probed_but_def)
  fix s f t assume s: "s < n" "?T s = Some f" and t: "t < n" "cyc n (home f) t < cyc n (home f) s"
  from s have sj: "s \<noteq> ?j" by (auto split: if_splits)
  show "?T t \<noteq> None \<or> t = ?j \<and> cyc n ?j ?j < cyc n ?j s"
  proof (cases "s = i")
    case True
    with s ne have fe: "f = e" by (auto split: if_splits)
    from t(2) True fe k have lt: "cyc n (home e) t < cyc n (home e) ?j" "t \<noteq> i" by auto
    with probed_butD [OF p e j t(1) lt(1)] have "T t \<noteq> None" by auto
    with lt show ?thesis by auto
  next
    case False
    with s sj have "T s = Some f" by (auto split: if_splits)
    with probed_butD [OF p this s(1) t] have "T t \<noteq> None \<or> t = i" by auto
    moreover have "0 < cyc n ?j s" using cyc_eq_0 [OF j s(1)] sj by auto
    ultimately show ?thesis by auto
  qed
next
  fix s f assume s: "s < n" "(T(i \<mapsto> e, (j + 1) mod n := None)) s = Some f"
  moreover have "home e < n" using p e ij mod_Suc_less [of n j] unfolding probed_but_def by (metis gr_implies_not0 not_gr_zero)
  ultimately show "home f < n" using p by (auto simp: probed_but_def split: if_splits)
qed

lemma ranked_move:
  assumes p: "probed_but n home T i j" and r: "ranked n home rank T" and ij: "i < n" "j < n"
    and e: "T ((j + 1) mod n) = Some e" and i: "T i = None"
    and k: "cyc n (home e) i < cyc n (home e) ((j + 1) mod n)"
  shows "ranked n home rank (T(i \<mapsto> e, (j + 1) mod n := None))"
  unfolding ranked_def
proof (intro allI impI)
  let ?j = "(j + 1) mod n"
  let ?T = "T(i \<mapsto> e, ?j := None)"
  have ne: "?j \<noteq> i" using e i by auto
  have j: "?j < n" using ij by simp
  have h: "home e < n" using p e j by (auto simp: probed_but_def)
  fix u t f g
  assume u: "u < n" and t: "t < n" and f: "?T u = Some f" and g: "?T t = Some g"
    and hm: "home f = home g" and lt: "rank f < rank g"
  have uj: "u \<noteq> ?j" "t \<noteq> ?j" using f g by (auto split: if_splits)
  have before: "cyc n (home e) v < cyc n (home e) i"
    if v: "v < n" "T v = Some w" "home w = home e" "cyc n (home e) v < cyc n (home e) ?j" for v w
  proof (rule ccontr)
    assume "\<not> ?thesis"
    moreover have "v \<noteq> i" using v i by auto
    ultimately have lt: "cyc n (home e) i < cyc n (home e) v" using cyc_inj [OF h v(1) ij(1)] by auto
    with probed_butD [OF p v(2,1) ij(1) _ i] v(3) have "cyc n i j < cyc n i v" by simp
    moreover have "cyc n (home e) v = cyc n (home e) i + cyc n i v"
      "cyc n (home e) ?j = cyc n (home e) i + cyc n i ?j"
      using cyc_split [OF h ij(1) v(1) lt] cyc_split [OF h ij(1) j k] by auto
    moreover have "cyc n i ?j = cyc n i j + 1" by (rule cyc_Suc [OF ij ne])
    ultimately show False using v(4) by simp
  qed
  show "cyc n (home f) u < cyc n (home f) t"
  proof (cases "u = i"; cases "t = i")
    assume ui: "u = i" and ti: "t \<noteq> i"
    with f g uj ne have fg: "f = e" "T t = Some g" by (auto split: if_splits)
    have "cyc n (home e) ?j < cyc n (home e) t"
      using rankedD [OF r e fg(2) j t] hm lt fg(1) by simp
    with k ui fg(1) show ?thesis by simp
  next
    assume ui: "u \<noteq> i" and ti: "t = i"
    with f g uj ne have fg: "g = e" "T u = Some f" by (auto split: if_splits)
    have "cyc n (home e) u < cyc n (home e) ?j"
      using rankedD [OF r fg(2) e u j] hm lt fg(1) by simp
    from before [OF u fg(2) _ this] hm fg(1) ti show ?thesis by simp
  next
    assume "u \<noteq> i" "t \<noteq> i"
    with f g uj have "T u = Some f" "T t = Some g" by (auto split: if_splits)
    with rankedD [OF r this u t hm lt] hm show ?thesis by simp
  next
    assume "u = i" "t = i"
    with f g ne lt show ?thesis by (auto split: if_splits)
  qed
qed

lemma ranked_del: "ranked n home rank T \<Longrightarrow> ranked n home rank (T(i := None))"
  unfolding ranked_def by (auto split: if_splits)

end
