(* ===== verification/Dnsqr_Table.thy ===== *)
theory Dnsqr_Table
  imports Dnsqr Probing
begin

text \<open>
  The state table of the DNS module refines a queue: the queries in the order of their arrival. An
  insertion appends to it, a response takes out the oldest query that it matches, and the oldest query
  of all is the one that may be given up.
\<close>

section \<open>Hash of a query\<close>

definition hashable :: "dnsqr \<Rightarrow> bool" where
  "hashable q \<longleftrightarrow> (length (opt_bytes (dq_query_ip q)) = 4 \<or> length (opt_bytes (dq_query_ip q)) = 16) \<and>
     length (opt_bytes (dq_response_ip q)) = length (opt_bytes (dq_query_ip q))"

definition dnsqr_key :: "host \<Rightarrow> dnsqr \<Rightarrow> byte list" where
  "dnsqr_key h q = opt_bytes (dq_query_ip q) @ opt_bytes (dq_response_ip q) @ key_ports (h_little h) q"

definition home :: "host \<Rightarrow> u32 \<Rightarrow> dnsqr \<Rightarrow> nat" where
  "home h num q = unat (hashlittle_spec (dnsqr_key h q) 0 mod num)"

lemma key_on_stack_bytes: "map (key_on_stack key stack) [0..<length key] = key"
  by (rule nth_equalityI) (auto simp: key_on_stack_def)

lemma hash_on_stack:
  "my_hashlittle le addr (key_on_stack key stack) (length key) 0 = hashlittle_spec key 0"
  using hashlittle_eq [of le addr "key_on_stack key stack" "length key" 0] by (simp only: key_on_stack_bytes)

lemma dnsqr_hash: "hashable q \<Longrightarrow> dnsqr_hash h q = Ret (hashlittle_spec (dnsqr_key h q) 0)"
  by (auto simp: hashable_def dnsqr_hash_def dnsqr_key_def mem_read_def hash_on_stack
      simp del: length_append)

lemma first_slot: "hashable q \<Longrightarrow> num \<noteq> 0 \<Longrightarrow> first_slot h num q = Ret (home h num q)"
  by (simp add: first_slot_def dnsqr_hash home_def)

lemma home_less: "num \<noteq> 0 \<Longrightarrow> home h num q < unat num"
  by (simp add: home_def unat_mod unat_gt_0)

lemma dnsqr_eq_home: "dnsqr_eq d q rcode \<Longrightarrow> home h num d = home h num q"
  by (auto simp: dnsqr_eq_def dnsqr_eq6_def dnsqr_eq9_def home_def dnsqr_key_def key_ports_def split: if_splits)

lemma dnsqr_eq_hashable: "dnsqr_eq d q rcode \<Longrightarrow> hashable d \<longleftrightarrow> hashable q"
  by (auto simp: dnsqr_eq_def dnsqr_eq6_def dnsqr_eq9_def hashable_def split: if_splits)

section \<open>The invariant of the table\<close>

definition slot_entry :: "hash_entry list \<Rightarrow> nat \<Rightarrow> (dnsqr \<times> nat) option" where
  "slot_entry table s =
     (if s < length table then
        (case (he_dnsqr (table ! s), he_le (table ! s)) of (Some q, Some a) \<Rightarrow> Some (q, a) | _ \<Rightarrow> None)
      else None)"

definition slot_ok :: "hash_entry \<Rightarrow> bool" where
  "slot_ok e \<longleftrightarrow> (he_dnsqr e = None \<longleftrightarrow> he_le e = None) \<and> (\<forall>q. he_dnsqr e = Some q \<longrightarrow> hashable q)"

text \<open>The part of the invariant that also holds while values are moved up.\<close>

definition table_shape :: "host \<Rightarrow> dnsqr_table \<Rightarrow> bool" where
  "table_shape h t \<longleftrightarrow>
     dt_num_slots t \<noteq> 0 \<and> length (dt_table t) = unat (dt_num_slots t) \<and>
     (\<forall>s < length (dt_table t). slot_ok (dt_table t ! s)) \<and>
     (\<forall>a s. dt_elems t a = Some s \<longleftrightarrow> (\<exists>q. slot_entry (dt_table t) s = Some (q, a))) \<and>
     sorted_wrt (<) (dt_list t) \<and> set (dt_list t) = dom (dt_elems t) \<and> (\<forall>a \<in> set (dt_list t). a < dt_fresh t) \<and>
     dt_count t = of_nat (length (dt_list t)) \<and>
     ranked (unat (dt_num_slots t)) (home h (dt_num_slots t) \<circ> fst) snd (slot_entry (dt_table t))"

definition table_inv :: "host \<Rightarrow> dnsqr_table \<Rightarrow> bool" where
  "table_inv h t \<longleftrightarrow> table_shape h t \<and>
     probed (unat (dt_num_slots t)) (home h (dt_num_slots t) \<circ> fst) (slot_entry (dt_table t))"

text \<open>The query of an element of the list, and all of them in the order of the list.\<close>

definition elem_query :: "dnsqr_table \<Rightarrow> nat \<Rightarrow> dnsqr option" where
  "elem_query t a = (case dt_elems t a of None \<Rightarrow> None | Some s \<Rightarrow> map_option fst (slot_entry (dt_table t) s))"

definition queued :: "dnsqr_table \<Rightarrow> dnsqr list" where
  "queued t = map (\<lambda>a. the (elem_query t a)) (dt_list t)"

lemma slot_entry_Some:
  "slot_entry table s = Some (q, a) \<longleftrightarrow>
     s < length table \<and> he_dnsqr (table ! s) = Some q \<and> he_le (table ! s) = Some a"
  by (auto simp: slot_entry_def split: option.splits)

lemma slot_entry_None:
  "s < length table \<Longrightarrow> slot_ok (table ! s) \<Longrightarrow> slot_entry table s = None \<longleftrightarrow> he_dnsqr (table ! s) = None"
  by (auto simp: slot_entry_def slot_ok_def split: option.splits)

lemma slot_entry_update:
  "s < length table \<Longrightarrow> slot_entry (table[s := e]) =
     (slot_entry table)(s := (case (he_dnsqr e, he_le e) of (Some q, Some a) \<Rightarrow> Some (q, a) | _ \<Rightarrow> None))"
  by (rule ext) (auto simp: slot_entry_def nth_list_update)

lemma slot_entry_put: "s < length table \<Longrightarrow> slot_entry (table[s := \<lparr>he_dnsqr = Some q, he_le = Some a\<rparr>]) =
    (slot_entry table)(s \<mapsto> (q, a))"
  by (simp add: slot_entry_update)

lemma slot_entry_clear: "s < length table \<Longrightarrow> slot_entry (table[s := hash_entry_empty]) = (slot_entry table)(s := None)"
  by (simp add: slot_entry_update hash_entry_empty_def)

lemma elem_slot: "table_shape h t \<Longrightarrow> slot_entry (dt_table t) s = Some (q, a) \<Longrightarrow> dt_elems t a = Some s"
  unfolding table_shape_def by metis

lemma elem_slotE: "table_shape h t \<Longrightarrow> dt_elems t a = Some s \<Longrightarrow> \<exists>q. slot_entry (dt_table t) s = Some (q, a)"
  unfolding table_shape_def by metis

lemma elem_query_slot: "table_shape h t \<Longrightarrow> slot_entry (dt_table t) s = Some (q, a) \<Longrightarrow> elem_query t a = Some q"
  by (auto simp: elem_query_def dest: elem_slot)

lemma elem_query_Some:
  assumes "table_shape h t" and "elem_query t a = Some q"
  obtains s where "dt_elems t a = Some s" "slot_entry (dt_table t) s = Some (q, a)" "s < unat (dt_num_slots t)"
proof -
  from assms(2) obtain s where s: "dt_elems t a = Some s" "map_option fst (slot_entry (dt_table t) s) = Some q"
    by (auto simp: elem_query_def split: option.splits)
  from elem_slotE [OF assms(1) s(1)] s(2) have e: "slot_entry (dt_table t) s = Some (q, a)" by auto
  moreover have "s < unat (dt_num_slots t)"
    using e assms(1) by (auto simp: slot_entry_Some table_shape_def)
  ultimately show thesis using that s(1) by blast
qed

lemma listed:
  assumes "table_shape h t" and "a \<in> set (dt_list t)"
  obtains s q where "dt_elems t a = Some s" "slot_entry (dt_table t) s = Some (q, a)" "elem_query t a = Some q"
    "s < unat (dt_num_slots t)"
proof -
  have "set (dt_list t) = dom (dt_elems t)" "length (dt_table t) = unat (dt_num_slots t)"
    using assms(1) unfolding table_shape_def by blast+
  with assms(2) obtain s where s: "dt_elems t a = Some s" by blast
  with elem_slotE [OF assms(1)] obtain q where q: "slot_entry (dt_table t) s = Some (q, a)" by blast
  then have "s < unat (dt_num_slots t)"
    using \<open>length (dt_table t) = unat (dt_num_slots t)\<close> by (simp add: slot_entry_Some)
  with that s q elem_query_slot [OF assms(1) q] show thesis by blast
qed

lemma card_slots:
  assumes "table_shape h t"
  shows "length (dt_list t) = card {s. s < unat (dt_num_slots t) \<and> slot_entry (dt_table t) s \<noteq> None}"
proof -
  let ?S = "{s. s < unat (dt_num_slots t) \<and> slot_entry (dt_table t) s \<noteq> None}"
  have l: "sorted_wrt (<) (dt_list t)" "set (dt_list t) = dom (dt_elems t)"
    "length (dt_table t) = unat (dt_num_slots t)"
    using assms unfolding table_shape_def by blast+
  then have "length (dt_list t) = card (dom (dt_elems t))"
    using distinct_card [of "dt_list t"] by (simp add: strict_sorted_iff)
  moreover have "bij_betw (\<lambda>a. the (dt_elems t a)) (dom (dt_elems t)) ?S"
  proof (rule bij_betwI')
    fix a b assume "a \<in> dom (dt_elems t)" "b \<in> dom (dt_elems t)"
    then show "(the (dt_elems t a) = the (dt_elems t b)) = (a = b)" using elem_slotE [OF assms] by (metis domD option.sel option.inject prod.inject)
  next
    fix a assume "a \<in> dom (dt_elems t)"
    then show "the (dt_elems t a) \<in> ?S"
      using elem_slotE [OF assms] l(3) by (auto simp: slot_entry_Some)
  next
    fix s assume "s \<in> ?S"
    then show "\<exists>a\<in>dom (dt_elems t). s = the (dt_elems t a)" using elem_slot [OF assms] by force
  qed
  ultimately show ?thesis using bij_betw_same_card by fastforce
qed

lemma empty_slot_exists:
  assumes "table_shape h t" and "length (dt_list t) < unat (dt_num_slots t)"
  obtains e where "e < unat (dt_num_slots t)" "slot_entry (dt_table t) e = None"
proof -
  let ?n = "unat (dt_num_slots t)"
  have "{s. s < ?n \<and> slot_entry (dt_table t) s \<noteq> None} \<noteq> {..<?n}"
    using card_slots [OF assms(1)] assms(2) by (metis card_lessThan less_irrefl)
  then show thesis using that by blast
qed

section \<open>Insertion\<close>

lemma table_invD:
  assumes "table_inv h t"
  shows "table_shape h t" "probed (unat (dt_num_slots t)) (home h (dt_num_slots t) \<circ> fst) (slot_entry (dt_table t))"
  using assms by (simp_all add: table_inv_def)

lemma table_shapeD:
  assumes "table_shape h t"
  shows "dt_num_slots t \<noteq> 0" "length (dt_table t) = unat (dt_num_slots t)"
    "\<And>s. s < unat (dt_num_slots t) \<Longrightarrow> slot_ok (dt_table t ! s)"
    "sorted_wrt (<) (dt_list t)" "set (dt_list t) = dom (dt_elems t)" "\<And>a. a \<in> set (dt_list t) \<Longrightarrow> a < dt_fresh t"
    "dt_count t = of_nat (length (dt_list t))"
    "ranked (unat (dt_num_slots t)) (home h (dt_num_slots t) \<circ> fst) snd (slot_entry (dt_table t))"
  using assms unfolding table_shape_def by auto

lemma last_slot_cyc:
  "num \<noteq> 0 \<Longrightarrow> k < unat num \<Longrightarrow> last_slot num k < unat num \<and> cyc (unat num) k (last_slot num k) = unat num - 1"
  by (auto simp: last_slot_def cyc_def unat_minus_one split: if_splits)

lemma next_slot: "s < n \<Longrightarrow> next_slot n s = (s + 1) mod n"
  unfolding Suc_mod by (auto simp: next_slot_def)

text \<open>The searches from the home \<open>k\<close> find the first empty slot, or the first one with a match before it.\<close>

lemma empty_slot_finds:
  assumes n: "n = length table" "k < n" "stop < n" "cyc n k stop = n - 1" and e: "e < n" "he_dnsqr (table ! e) = None"
  shows "\<exists>r<n. empty_slot table n k stop = Ret r \<and> he_dnsqr (table ! r) = None \<and>
    (\<forall>t<n. cyc n k t < cyc n k r \<longrightarrow> he_dnsqr (table ! t) \<noteq> None)"
proof -
  have "empty_slot table n s stop = empty_slot table n ((s + 1) mod n) stop"
    if "s < n" "s \<noteq> stop" "he_dnsqr (table ! s) \<noteq> None" for s
    using that n(1,3) by (subst empty_slot.simps) (auto simp: next_slot)
  from probe_walk [where P = "\<lambda>s. he_dnsqr (table ! s) = None" and search = "\<lambda>s. empty_slot table n s stop",
      OF n(2) e n(4) this] obtain r where
    "r < n" "he_dnsqr (table ! r) = None" "empty_slot table n k stop = empty_slot table n r stop"
    "\<forall>t<n. cyc n k t < cyc n k r \<longrightarrow> he_dnsqr (table ! t) \<noteq> None" by auto
  moreover from this have "empty_slot table n r stop = Ret r" using n(1,3) by (subst empty_slot.simps) simp
  ultimately show ?thesis by auto
qed

lemma table_inv_insert:
  assumes inv: "table_inv h t" and q: "hashable q" and room: "length (dt_list t) < unat (dt_num_slots t)"
  shows "\<exists>t'. dnsqr_insert_query h t q = Ret t' \<and> table_inv h t' \<and> queued t' = queued t @ [q] \<and>
    dt_num_slots t' = dt_num_slots t \<and> length (dt_list t') = Suc (length (dt_list t))"
proof -
  note sh = table_invD(1) [OF inv]
  note D = table_shapeD [OF sh]
  let ?n = "unat (dt_num_slots t)" and ?T = "slot_entry (dt_table t)" and ?a = "dt_fresh t"
  let ?k = "home h (dt_num_slots t) q" and ?home = "home h (dt_num_slots t) \<circ> fst"
  have k: "?k < ?n" by (rule home_less [OF D(1)])
  have occ: "s < ?n \<Longrightarrow> he_dnsqr (dt_table t ! s) = None \<longleftrightarrow> ?T s = None" for s
    using slot_entry_None D(2,3) by simp
  obtain e where e: "e < ?n" "?T e = None" by (rule empty_slot_exists [OF sh room])
  have "\<exists>r<?n. empty_slot (dt_table t) ?n ?k (last_slot (dt_num_slots t) ?k) = Ret r \<and>
      he_dnsqr (dt_table t ! r) = None \<and>
      (\<forall>s<?n. cyc ?n ?k s < cyc ?n ?k r \<longrightarrow> he_dnsqr (dt_table t ! s) \<noteq> None)"
    using last_slot_cyc [OF D(1) k] D(2) k e occ [of e] by (intro empty_slot_finds) auto
  then obtain r where r: "r < ?n" "empty_slot (dt_table t) ?n ?k (last_slot (dt_num_slots t) ?k) = Ret r"
    "?T r = None" and before: "\<And>s. s < ?n \<Longrightarrow> cyc ?n ?k s < cyc ?n ?k r \<Longrightarrow> ?T s \<noteq> None"
    using occ by blast
  let ?tab = "(dt_table t)[r := \<lparr>he_dnsqr = Some q, he_le = Some ?a\<rparr>]"
  define t' where "t' = t\<lparr>dt_count := dt_count t + 1, dt_table := ?tab, dt_elems := (dt_elems t)(?a \<mapsto> r),
    dt_fresh := ?a + 1, dt_list := dt_list t @ [?a]\<rparr>"
  have run: "dnsqr_insert_query h t q = Ret t'"
    using r(2) first_slot [OF q D(1)] by (simp add: dnsqr_insert_query_def t'_def Let_def)
  have T': "slot_entry ?tab = ?T(r \<mapsto> (q, ?a))" using r(1) D(2) by (simp add: slot_entry_put)
  have fresh: "?a \<notin> dom (dt_elems t)" using D(5,6) by blast
  have noa: "?T s \<noteq> Some (q', ?a)" for s q' using elem_slot [OF sh] fresh by blast
  have "snd e < ?a" if "?T s = Some e" for s e
    using that elem_slot [OF sh, of s "fst e" "snd e"] D(5,6) by auto
  then have rk: "ranked ?n ?home snd (?T(r \<mapsto> (q, ?a)))"
    using table_invD(2) [OF inv] D(8) r before k by (intro ranked_insert) auto
  have pr: "probed ?n ?home (?T(r \<mapsto> (q, ?a)))"
    using table_invD(2) [OF inv] r before k by (intro probed_insert) auto
  have el: "dt_elems t' b = Some s \<longleftrightarrow> (\<exists>q. slot_entry ?tab s = Some (q, b))" for b s
    using noa r(3) elem_slot [OF sh] elem_slotE [OF sh] unfolding T' t'_def by (fastforce split: if_splits)
  have ok: "slot_ok (?tab ! s)" if "s < ?n" for s
    using that D(2,3) q by (cases "s = r") (auto simp: slot_ok_def)
  have fr: "b < Suc ?a" if "dt_elems t b = Some s" for b s
    using that D(5,6) by (metis domI less_SucI)
  have "table_shape h t'"
    using D(1,2,4,5,6,7) fr fresh ok el rk pr r(1)
    unfolding table_shape_def t'_def by (auto simp: sorted_wrt_append T')
  moreover have "table_inv h t'"
    using calculation pr by (simp add: table_inv_def t'_def T')
  moreover have "elem_query t' ?a = Some q"
    using T' by (simp add: elem_query_def t'_def)
  moreover have "elem_query t' b = elem_query t b" if "b \<in> dom (dt_elems t)" for b
  proof -
    from that obtain s where s: "dt_elems t b = Some s" by blast
    from elem_slotE [OF sh s] r(3) have "s \<noteq> r" by auto
    with s that fresh show ?thesis using T' by (auto simp: elem_query_def t'_def)
  qed
  then have "map (\<lambda>b. the (elem_query t' b)) (dt_list t) = queued t"
    unfolding queued_def D(5) [symmetric] by (intro map_cong) auto
  ultimately show ?thesis using run by (auto simp: queued_def t'_def)
qed

section \<open>Removal\<close>

lemma must_move: "i < n \<Longrightarrow> j < n \<Longrightarrow> k < n \<Longrightarrow> i \<noteq> j \<Longrightarrow> must_move i j k \<longleftrightarrow> cyc n k i < cyc n k j"
  by (auto simp: must_move_def cyc_def)

lemma table_shape_move:
  assumes sh: "table_shape h t" and ij: "i < unat (dt_num_slots t)" "j < unat (dt_num_slots t)"
    and e: "slot_entry (dt_table t) j = Some (q, a)" and i: "slot_entry (dt_table t) i = None"
    and rk: "ranked (unat (dt_num_slots t)) (home h (dt_num_slots t) \<circ> fst) snd
      ((slot_entry (dt_table t))(i \<mapsto> (q, a), j := None))"
  defines "t' \<equiv> t\<lparr>dt_table := ((dt_table t)[i := dt_table t ! j])[j := hash_entry_empty],
    dt_elems := (dt_elems t)(a \<mapsto> i)\<rparr>"
  shows "table_shape h t' \<and> slot_entry (dt_table t') = (slot_entry (dt_table t))(i \<mapsto> (q, a), j := None) \<and>
    (\<forall>b. elem_query t' b = elem_query t b)"
proof -
  note D = table_shapeD [OF sh]
  let ?T = "slot_entry (dt_table t)"
  have T': "slot_entry (dt_table t') = ?T(i \<mapsto> (q, a), j := None)"
    using ij D(2) e by (simp add: t'_def slot_entry_update slot_entry_Some hash_entry_empty_def)
  have ne: "i \<noteq> j" using e i by auto
  have aj: "dt_elems t a = Some j" by (rule elem_slot [OF sh e])
  have el: "dt_elems t' b = Some s \<longleftrightarrow> (\<exists>q. slot_entry (dt_table t') s = Some (q, b))" for b s
  proof (cases "b = a")
    case True
    with aj ne show ?thesis unfolding T' by (auto simp: t'_def dest: elem_slot [OF sh])
  next
    case False
    with e i have "(\<exists>q. slot_entry (dt_table t') s = Some (q, b)) \<longleftrightarrow> (\<exists>q. ?T s = Some (q, b))"
      unfolding T' by auto
    also have "\<dots> \<longleftrightarrow> dt_elems t' b = Some s"
      using False elem_slot [OF sh] elem_slotE [OF sh] by (auto simp: t'_def)
    finally show ?thesis by simp
  qed
  have ok: "slot_ok (dt_table t' ! s)" if "s < unat (dt_num_slots t)" for s
    using that D(2,3) ij by (auto simp: t'_def nth_list_update slot_ok_def hash_entry_empty_def)
  have "a \<in> dom (dt_elems t)" using aj by auto
  then have dm: "dom (dt_elems t') = dom (dt_elems t)" by (auto simp: t'_def)
  have "table_shape h t'"
    unfolding table_shape_def
  proof (intro conjI allI)
    show "ranked (unat (dt_num_slots t')) (home h (dt_num_slots t') \<circ> fst) snd (slot_entry (dt_table t'))"
      using rk unfolding T' by (simp add: t'_def)
  qed (use D el dm ok in \<open>auto simp: t'_def\<close>)
  moreover have "elem_query t' b = elem_query t b" for b
    using aj e ne T' i elem_slotE [OF sh, of b]
    by (cases "b = a") (auto simp: elem_query_def t'_def split: option.splits)
  ultimately show ?thesis using T' by blast
qed

lemma move_up_ok:
  assumes "table_shape h t" and "i < unat (dt_num_slots t)" and "j < unat (dt_num_slots t)"
    and "slot_entry (dt_table t) i = None"
    and "probed_but (unat (dt_num_slots t)) (home h (dt_num_slots t) \<circ> fst) (slot_entry (dt_table t)) i j"
    and "e < unat (dt_num_slots t)" and "slot_entry (dt_table t) e = None" and "j \<noteq> e" and "i \<noteq> e"
    and "cyc (unat (dt_num_slots t)) j e \<le> fuel"
  shows "\<exists>t'. move_up fuel h t i j = Ret t' \<and> table_inv h t' \<and> dt_num_slots t' = dt_num_slots t \<and>
    dt_list t' = dt_list t \<and> (\<forall>b. elem_query t' b = elem_query t b)"
  using assms
proof (induction fuel arbitrary: t i j)
  case 0
  then show ?case using cyc_eq_0 by auto
next
  case (Suc fuel)
  let ?n = "unat (dt_num_slots t)" and ?T = "slot_entry (dt_table t)"
  let ?home = "home h (dt_num_slots t) \<circ> fst" and ?j = "(j + 1) mod unat (dt_num_slots t)"
  note sh = Suc.prems(1) and ij = Suc.prems(2,3) and i = Suc.prems(4) and p = Suc.prems(5)
  note D = table_shapeD [OF sh]
  have j: "?j < ?n" "?j < length (dt_table t)" using ij D(2) by auto
  have fuel: "cyc ?n ?j e \<le> fuel"
    using cyc_Suc_left [OF ij(2) Suc.prems(6) Suc.prems(8)] Suc.prems(10) by simp
  show ?case
  proof (cases "?T ?j")
    case None
    then have "he_dnsqr (dt_table t ! ?j) = None" using j slot_entry_None D(2,3) by simp
    moreover have "table_inv h t"
      unfolding table_inv_def using sh probed_but_end [OF p ij None i] by blast
    ultimately show ?thesis using j by (intro exI [of _ t]) (simp add: Let_def)
  next
    case (Some qa)
    obtain q a where qa: "qa = (q, a)" by (cases qa)
    note e = Some [unfolded qa]
    have he: "he_dnsqr (dt_table t ! ?j) = Some q" "he_le (dt_table t ! ?j) = Some a"
      using e by (auto simp: slot_entry_Some)
    then have q: "hashable q" using D(3) [OF j(1)] by (auto simp: slot_ok_def)
    have ne: "i \<noteq> ?j" "?j \<noteq> e" using e i Suc.prems(7) by auto
    let ?k = "home h (dt_num_slots t) q"
    have k: "?k < ?n" by (rule home_less [OF D(1)])
    have mm: "must_move i ?j ?k \<longleftrightarrow> cyc ?n (?home (q, a)) i < cyc ?n (?home (q, a)) ?j"
      using must_move [OF ij(1) j(1) k ne(1)] by simp
    show ?thesis
    proof (cases "must_move i ?j ?k")
      case True
      let ?t = "t\<lparr>dt_table := ((dt_table t)[i := dt_table t ! ?j])[?j := hash_entry_empty],
        dt_elems := (dt_elems t)(a \<mapsto> i)\<rparr>"
      have run: "move_up (Suc fuel) h t i j = move_up fuel h ?t ?j ?j"
        using j he first_slot [OF q D(1)] True by (simp add: Let_def)
      note lt = True [unfolded mm]
      have "ranked ?n ?home snd (?T(i \<mapsto> (q, a), ?j := None))" by (rule ranked_move [OF p D(8) ij e i lt])
      from table_shape_move [OF sh ij(1) j(1) e i this]
      have t': "table_shape h ?t" "slot_entry (dt_table ?t) = ?T(i \<mapsto> (q, a), ?j := None)"
        "\<And>b. elem_query ?t b = elem_query t b" by blast+
      have nt: "dt_num_slots ?t = dt_num_slots t" by simp
      have pb: "probed_but (unat (dt_num_slots ?t)) (home h (dt_num_slots ?t) \<circ> fst) (slot_entry (dt_table ?t)) ?j ?j"
        unfolding t'(2) nt by (rule probed_but_move [OF p ij e i lt])
      have te: "slot_entry (dt_table ?t) e = None" "slot_entry (dt_table ?t) ?j = None"
        unfolding t'(2) using Suc.prems(7,9) by auto
      have "\<exists>t'. move_up fuel h ?t ?j ?j = Ret t' \<and> table_inv h t' \<and> dt_num_slots t' = dt_num_slots ?t \<and>
          dt_list t' = dt_list ?t \<and> (\<forall>b. elem_query t' b = elem_query ?t b)"
        by (rule Suc.IH [OF t'(1) _ _ te(2) pb _ te(1)]) (use j(1) ne(2) Suc.prems(6) fuel in simp_all)
      then show ?thesis unfolding run t'(3) by simp
    next
      case False
      have run: "move_up (Suc fuel) h t i j = move_up fuel h t i ?j"
        using j he first_slot [OF q D(1)] False by (simp add: Let_def)
      have pb: "probed_but ?n ?home ?T i ?j"
        by (rule probed_but_skip [OF p ij e i]) (use False mm in simp)
      show ?thesis
        unfolding run by (rule Suc.IH [OF sh ij(1) j(1) i pb Suc.prems(6,7) ne(2) Suc.prems(9) fuel])
    qed
  qed
qed

lemma table_shape_clear:
  assumes sh: "table_shape h t" and s: "slot_entry (dt_table t) s = Some (q, a)"
  defines "t' \<equiv> t\<lparr>dt_table := (dt_table t)[s := hash_entry_empty], dt_count := dt_count t - 1,
    dt_list := remove1 a (dt_list t), dt_elems := (dt_elems t)(a := None)\<rparr>"
  shows "table_shape h t' \<and> slot_entry (dt_table t') = (slot_entry (dt_table t))(s := None) \<and>
    (\<forall>b. b \<noteq> a \<longrightarrow> elem_query t' b = elem_query t b)"
proof -
  note D = table_shapeD [OF sh]
  let ?T = "slot_entry (dt_table t)"
  have sn: "s < unat (dt_num_slots t)" using s D(2) by (simp add: slot_entry_Some)
  have T': "slot_entry (dt_table t') = ?T(s := None)" using sn D(2) by (simp add: t'_def slot_entry_clear)
  have as: "dt_elems t a = Some s" by (rule elem_slot [OF sh s])
  have el: "dt_elems t' b = Some u \<longleftrightarrow> (\<exists>q. slot_entry (dt_table t') u = Some (q, b))" for b u
  proof (cases "b = a")
    case True
    with as show ?thesis unfolding T' by (auto simp: t'_def dest: elem_slot [OF sh])
  next
    case False
    with s have "(\<exists>q. slot_entry (dt_table t') u = Some (q, b)) \<longleftrightarrow> (\<exists>q. ?T u = Some (q, b))" unfolding T' by auto
    also have "\<dots> \<longleftrightarrow> dt_elems t' b = Some u"
      using False elem_slot [OF sh] elem_slotE [OF sh] by (auto simp: t'_def)
    finally show ?thesis by simp
  qed
  have ok: "slot_ok (dt_table t' ! u)" if "u < unat (dt_num_slots t)" for u
    using that D(2,3) sn by (auto simp: t'_def nth_list_update slot_ok_def hash_entry_empty_def)
  have al: "a \<in> set (dt_list t)" using as D(5) by blast
  then have "0 < length (dt_list t)" by (rule length_pos_if_in_set)
  then have "length (dt_list t) = Suc (length (remove1 a (dt_list t)))" using al by (simp add: length_remove1)
  then have cnt: "dt_count t - 1 = of_nat (length (remove1 a (dt_list t)))" using D(7) by simp
  have ds: "distinct (dt_list t)" using D(4) by (simp add: strict_sorted_iff)
  have "table_shape h t'"
    unfolding table_shape_def
  proof (intro conjI allI)
    show "ranked (unat (dt_num_slots t')) (home h (dt_num_slots t') \<circ> fst) snd (slot_entry (dt_table t'))"
      unfolding T' using ranked_del [OF D(8)] by (simp add: t'_def)
    show "sorted_wrt (<) (dt_list t')" using D(4) by (simp add: t'_def strict_sorted_iff sorted_remove1)
    show "set (dt_list t') = dom (dt_elems t')" using ds D(5) by (auto simp: t'_def)
    show "\<forall>b\<in>set (dt_list t'). b < dt_fresh t'"
      using D(6) set_remove1_subset [of a "dt_list t"] by (auto simp: t'_def)
  qed (use D(1,2) el ok cnt in \<open>auto simp: t'_def\<close>)
  moreover have "elem_query t' b = elem_query t b" if "b \<noteq> a" for b
    using that T' s elem_slotE [OF sh, of b] by (auto simp: elem_query_def t'_def split: option.splits)
  ultimately show ?thesis using T' by blast
qed

lemma dnsqr_remove_ok:
  assumes inv: "table_inv h t" and s: "slot_entry (dt_table t) s = Some (q, a)"
    and room: "length (dt_list t) < unat (dt_num_slots t)"
  shows "\<exists>t'. dnsqr_remove h t s = Ret t' \<and> table_inv h t' \<and> dt_num_slots t' = dt_num_slots t \<and>
    dt_list t' = remove1 a (dt_list t) \<and> queued t' = map (\<lambda>b. the (elem_query t b)) (remove1 a (dt_list t))"
proof -
  note sh = table_invD(1) [OF inv] and p = table_invD(2) [OF inv]
  note D = table_shapeD [OF sh]
  let ?n = "unat (dt_num_slots t)"
  let ?t = "t\<lparr>dt_table := (dt_table t)[s := hash_entry_empty], dt_count := dt_count t - 1,
    dt_list := remove1 a (dt_list t), dt_elems := (dt_elems t)(a := None)\<rparr>"
  have sn: "s < ?n" "s < length (dt_table t)" "he_dnsqr (dt_table t ! s) = Some q" "he_le (dt_table t ! s) = Some a"
    using s D(2) by (auto simp: slot_entry_Some)
  have run: "dnsqr_remove h t s = move_up ?n h ?t s s" using sn by (simp add: dnsqr_remove_def)
  obtain e where e: "e < ?n" "slot_entry (dt_table t) e = None" by (rule empty_slot_exists [OF sh room])
  have se: "s \<noteq> e" using s e by auto
  from table_shape_clear [OF sh s]
  have t': "table_shape h ?t" "slot_entry (dt_table ?t) = (slot_entry (dt_table t))(s := None)"
    "\<And>b. b \<noteq> a \<Longrightarrow> elem_query ?t b = elem_query t b" by blast+
  have te: "slot_entry (dt_table ?t) s = None" "slot_entry (dt_table ?t) e = None"
    unfolding t'(2) using e by auto
  have nt: "dt_num_slots ?t = dt_num_slots t" by simp
  have pb: "probed_but (unat (dt_num_slots ?t)) (home h (dt_num_slots ?t) \<circ> fst) (slot_entry (dt_table ?t)) s s"
    unfolding t'(2) nt by (rule probed_but_start [OF p sn(1)])
  have "\<exists>t'. move_up ?n h ?t s s = Ret t' \<and> table_inv h t' \<and> dt_num_slots t' = dt_num_slots ?t \<and>
      dt_list t' = dt_list ?t \<and> (\<forall>b. elem_query t' b = elem_query ?t b)"
    using cyc_less [OF sn(1) e(1)] by (intro move_up_ok [OF t'(1) _ _ te(1) pb _ te(2) se se]) (use sn e in simp_all)
  then obtain u where u: "move_up ?n h ?t s s = Ret u" "table_inv h u" "dt_num_slots u = dt_num_slots t"
    "dt_list u = remove1 a (dt_list t)" "\<And>b. elem_query u b = elem_query ?t b" by auto
  have "a \<notin> set (remove1 a (dt_list t))" using D(4) by (simp add: strict_sorted_iff)
  then have "elem_query u b = elem_query t b" if "b \<in> set (remove1 a (dt_list t))" for b
    using that u(5) t'(3) by metis
  then have "queued u = map (\<lambda>b. the (elem_query t b)) (remove1 a (dt_list t))"
    unfolding queued_def u(4) by (intro map_cong) auto
  with u run show ?thesis by auto
qed

section \<open>Retrieval\<close>

text \<open>The first element of a list with a property, and the list without it.\<close>

fun take_first :: "('a \<Rightarrow> bool) \<Rightarrow> 'a list \<Rightarrow> 'a option \<times> 'a list" where
  "take_first P [] = (None, [])"
| "take_first P (x # xs) = (if P x then (Some x, xs) else map_prod id (Cons x) (take_first P xs))"

lemma take_first_None: "(\<forall>x \<in> set xs. \<not> P x) \<Longrightarrow> take_first P xs = (None, xs)"
  by (induction xs) auto

lemma take_first_sorted:
  fixes f :: "nat \<Rightarrow> 'a"
  assumes "a \<in> set as" and "sorted_wrt (<) as" and "P (f a)" and "\<And>b. b \<in> set as \<Longrightarrow> b < a \<Longrightarrow> \<not> P (f b)"
  shows "take_first P (map f as) = (Some (f a), map f (remove1 a as))"
  using assms by (induction as) auto

lemma match_slot_finds:
  assumes n: "n = length table" "k < n" "stop < n" "cyc n k stop = n - 1" and e: "e < n" "he_dnsqr (table ! e) = None"
  shows "\<exists>r<n. (\<forall>t<n. cyc n k t < cyc n k r \<longrightarrow> (\<exists>q. he_dnsqr (table ! t) = Some q \<and> \<not> dnsqr_eq d q rcode)) \<and>
    (case he_dnsqr (table ! r) of
       None \<Rightarrow> match_slot table n d rcode k stop = Ret None
     | Some q \<Rightarrow> match_slot table n d rcode k stop = Ret (Some (r, q)) \<and> dnsqr_eq d q rcode)"
proof -
  let ?P = "\<lambda>s. he_dnsqr (table ! s) = None \<or> (\<exists>q. he_dnsqr (table ! s) = Some q \<and> dnsqr_eq d q rcode)"
  have "match_slot table n d rcode s stop = match_slot table n d rcode ((s + 1) mod n) stop"
    if "s < n" "s \<noteq> stop" "\<not> ?P s" for s
    using that n(1,3) by (subst match_slot.simps) (auto simp: next_slot)
  from probe_walk [where P = ?P and search = "\<lambda>s. match_slot table n d rcode s stop", OF n(2) e(1) _ n(4) this] e(2)
  obtain r where r: "r < n" "?P r" "match_slot table n d rcode k stop = match_slot table n d rcode r stop"
    "\<forall>t<n. cyc n k t < cyc n k r \<longrightarrow> \<not> ?P t" by auto
  moreover from this have "match_slot table n d rcode r stop =
      (case he_dnsqr (table ! r) of None \<Rightarrow> Ret None | Some q \<Rightarrow> Ret (Some (r, q)))"
    using n(1,3) by (subst match_slot.simps) (auto split: option.split)
  ultimately show ?thesis by (intro exI [of _ r]) (auto split: option.splits)
qed

lemma table_inv_retrieve:
  assumes inv: "table_inv h t" and d: "hashable d" and room: "length (dt_list t) < unat (dt_num_slots t)"
  shows "\<exists>m t'. dnsqr_retrieve h t d rcode = Ret (m, t') \<and> table_inv h t' \<and> dt_num_slots t' = dt_num_slots t \<and>
    (m, queued t') = take_first (\<lambda>q. dnsqr_eq d q rcode) (queued t)"
proof -
  note sh = table_invD(1) [OF inv] and p = table_invD(2) [OF inv]
  note D = table_shapeD [OF sh]
  let ?n = "unat (dt_num_slots t)" and ?T = "slot_entry (dt_table t)"
  let ?k = "home h (dt_num_slots t) d" and ?P = "\<lambda>q. dnsqr_eq d q rcode"
  let ?match = "match_slot (dt_table t) ?n d rcode ?k (last_slot (dt_num_slots t) ?k)"
  have k: "?k < ?n" by (rule home_less [OF D(1)])
  have occ: "s < ?n \<Longrightarrow> he_dnsqr (dt_table t ! s) = None \<longleftrightarrow> ?T s = None" for s
    using slot_entry_None D(2,3) by simp
  obtain e where e: "e < ?n" "?T e = None" by (rule empty_slot_exists [OF sh room])
  have "\<exists>r<?n. (\<forall>s<?n. cyc ?n ?k s < cyc ?n ?k r \<longrightarrow>
        (\<exists>q. he_dnsqr (dt_table t ! s) = Some q \<and> \<not> ?P q)) \<and>
      (case he_dnsqr (dt_table t ! r) of None \<Rightarrow> ?match = Ret None | Some q \<Rightarrow> ?match = Ret (Some (r, q)) \<and> ?P q)"
    using last_slot_cyc [OF D(1) k] D(2) k e occ [of e] by (intro match_slot_finds) auto
  then obtain r where r: "r < ?n"
    and before: "\<And>s. s < ?n \<Longrightarrow> cyc ?n ?k s < cyc ?n ?k r \<Longrightarrow> \<exists>q. he_dnsqr (dt_table t ! s) = Some q \<and> \<not> ?P q"
    and m: "case he_dnsqr (dt_table t ! r) of None \<Rightarrow> ?match = Ret None | Some q \<Rightarrow> ?match = Ret (Some (r, q)) \<and> ?P q"
    by blast
  have later: "cyc ?n ?k r \<le> cyc ?n ?k s" if "?T s = Some (q, a)" "?P q" for s q a
    using before [of s] that D(2) by (auto simp: slot_entry_Some not_le [symmetric])
  show ?thesis
  proof (cases "he_dnsqr (dt_table t ! r)")
    case None
    have "\<not> ?P q" if "q \<in> set (queued t)" for q
    proof
      assume q: "?P q"
      from that obtain a where a: "a \<in> set (dt_list t)" "q = the (elem_query t a)" by (auto simp: queued_def)
      from listed [OF sh a(1)] obtain s q' where s': "?T s = Some (q', a)" "s < ?n" "elem_query t a = Some q'" by blast
      then have s: "?T s = Some (q, a)" "s < ?n" using a(2) by simp_all
      have hq: "(home h (dt_num_slots t) \<circ> fst) (q, a) = ?k" using dnsqr_eq_home [OF q] by simp
      have "?T r = None" using occ [OF r] None by simp
      then have "r \<noteq> s" using s by auto
      then have "cyc ?n ?k r < cyc ?n ?k s" using later [OF s(1) q] cyc_inj [OF k r s(2)] by simp
      with probedD [OF p s(1,2) r] hq \<open>?T r = None\<close> show False by simp
    qed
    then have "take_first ?P (queued t) = (None, queued t)" by (intro take_first_None) auto
    then show ?thesis
      using None m inv first_slot [OF d D(1)] by (auto simp: dnsqr_retrieve_def)
  next
    case (Some q)
    then obtain a where ra: "?T r = Some (q, a)" using occ [OF r] by (auto simp: slot_entry_Some)
    have q: "?P q" "?match = Ret (Some (r, q))" using m Some by simp_all
    from dnsqr_remove_ok [OF inv ra room] obtain t' where t': "dnsqr_remove h t r = Ret t'" "table_inv h t'"
      "dt_num_slots t' = dt_num_slots t" "queued t' = map (\<lambda>b. the (elem_query t b)) (remove1 a (dt_list t))"
      by blast
    have run: "dnsqr_retrieve h t d rcode = Ret (Some q, t')"
      using q(2) t'(1) first_slot [OF d D(1)] by (simp add: dnsqr_retrieve_def)
    have al: "a \<in> set (dt_list t)" using elem_slot [OF sh ra] D(5) by blast
    have qa: "the (elem_query t a) = q" using elem_query_slot [OF sh ra] by simp
    have "\<not> ?P (the (elem_query t b))" if b: "b \<in> set (dt_list t)" "b < a" for b
    proof
      assume P: "?P (the (elem_query t b))"
      from listed [OF sh b(1)] obtain s q' where s: "?T s = Some (q', b)" "s < ?n" "elem_query t b = Some q'"
        by blast
      have hm: "(home h (dt_num_slots t) \<circ> fst) (q', b) = (home h (dt_num_slots t) \<circ> fst) (q, a)"
        using dnsqr_eq_home [OF q(1)] dnsqr_eq_home [OF P] s(3) by simp
      from rankedD [OF D(8) s(1) ra s(2) r hm] b(2) have "cyc ?n ?k s < cyc ?n ?k r"
        using dnsqr_eq_home [OF q(1), of h "dt_num_slots t"] by simp
      with later [OF s(1)] P s(3) show False by simp
    qed
    then have "take_first ?P (queued t) = (Some q, queued t')"
      unfolding queued_def [of t] t'(4)
      using take_first_sorted [of a "dt_list t" ?P "\<lambda>b. the (elem_query t b)"] al D(4) q(1) qa by simp
    with run t' show ?thesis by auto
  qed
qed

section \<open>Trimming\<close>

definition trim_due :: "u32 \<Rightarrow> u32 \<Rightarrow> bool \<Rightarrow> tspec \<Rightarrow> u32 \<Rightarrow> dnsqr \<Rightarrow> bool" where
  "trim_due max_values query_timeout stop now count q \<longleftrightarrow> count > max_values \<or> stop \<or>
     tv_sec now - hd (dq_query_time_sec q) > int (unat query_timeout)"

lemma table_inv_trim:
  assumes inv: "table_inv h t" and room: "length (dt_list t) < unat (dt_num_slots t)"
    and times: "\<forall>q \<in> set (queued t). dq_query_time_sec q \<noteq> [] \<and> dq_query_time_nsec q \<noteq> []"
  shows "\<exists>m t'. dnsqr_trim h t max_values query_timeout stop now = Ret (m, t') \<and> table_inv h t' \<and>
    dt_num_slots t' = dt_num_slots t \<and>
    (m, queued t') =
      (case queued t of
         q # qs \<Rightarrow> if trim_due max_values query_timeout stop now (of_nat (length (queued t))) q
           then (Some (q\<lparr>dq_timeout := Some (dnsqr_waited now q)\<rparr>), qs) else (None, queued t)
       | [] \<Rightarrow> (None, []))"
proof (cases "dt_list t")
  case Nil
  with inv show ?thesis by (auto simp: dnsqr_trim_def queued_def)
next
  case (Cons a as)
  note sh = table_invD(1) [OF inv]
  note D = table_shapeD [OF sh]
  have "a \<in> set (dt_list t)" using Cons by simp
  then obtain s q where s: "dt_elems t a = Some s" "slot_entry (dt_table t) s = Some (q, a)"
    using listed [OF sh] by blast
  have h: "s < length (dt_table t)" "he_dnsqr (dt_table t ! s) = Some q" using s by (auto simp: slot_entry_Some)
  have pq: "queued t = q # map (\<lambda>b. the (elem_query t b)) as"
    using Cons elem_query_slot [OF sh s(2)] by (simp add: queued_def)
  have cnt: "dt_count t = of_nat (length (queued t))" using D(7) by (simp add: queued_def)
  have tm: "dq_query_time_sec q \<noteq> []" "dq_query_time_nsec q \<noteq> []" using times pq by auto
  show ?thesis
  proof (cases "trim_due max_values query_timeout stop now (dt_count t) q")
    case False
    with Cons s h tm have "dnsqr_trim h t max_values query_timeout stop now = Ret (None, t)"
      by (auto simp: dnsqr_trim_def trim_due_def)
    with False inv pq cnt show ?thesis by auto
  next
    case True
    from dnsqr_remove_ok [OF inv s(2) room] Cons obtain t' where t': "dnsqr_remove h t s = Ret t'" "table_inv h t'"
      "dt_num_slots t' = dt_num_slots t" "queued t' = map (\<lambda>b. the (elem_query t b)) as" by auto
    with True Cons s h tm have "dnsqr_trim h t max_values query_timeout stop now =
        Ret (Some (q\<lparr>dq_timeout := Some (dnsqr_waited now q)\<rparr>), t')"
      by (auto simp: dnsqr_trim_def trim_due_def)
    with True t' pq cnt show ?thesis by auto
  qed
qed

end
