(* ===== verification/Base_Ipreasm.thy ===== *)
theory Base_Ipreasm
  imports Dnsqr Ipreasm_Parse
begin

text \<open>
  The reassembler of the message modules (nmsg/base/ipreasm.c), a relative of nmsg/ipreasm.c that keeps the
  fragments as they arrived, with their times, and assembles a packet in a step of its own. The
  identification of datagrams and its hash functions are those of theory Ipreasm, whose code is the same in
  both files. At the end of the theory the two are compared.
\<close>

section \<open>Data\<close>

record base_frag =
  bf_ts :: tspec
  bf_len :: u32
  bf_offset :: u32
  bf_data_offset :: u32
  bf_last_nxt :: nat
  bf_ip6f_nxt :: byte
  bf_data :: "byte list"

text \<open>The list of fragments is without its head; of the timeout only the seconds are ever set.\<close>

record base_entry =
  be_id :: reasm_id
  be_len :: u32
  be_holes :: u32
  be_frag_count :: u32
  be_hash :: nat
  be_timeout :: int
  be_state :: entry_state
  be_protocol :: reasm_proto
  be_frags :: "base_frag list"

record base_reasm =
  br_entries :: "nat \<Rightarrow> base_entry option"
  br_fresh :: nat
  br_table :: "nat \<Rightarrow> nat list"
  br_time :: "nat list"
  br_waiting :: u32
  br_max_waiting :: u32
  br_timed_out :: u32
  br_dropped_frags :: u32
  br_timeout :: tspec

section \<open>Parsing\<close>

text \<open>The total length is kept in 16 bits.\<close>

definition base_frag_from_ipv6 ::
  "(nat \<Rightarrow> bool) \<Rightarrow> byte list \<Rightarrow> tspec \<Rightarrow> (base_frag \<times> u32 \<times> bool) option run" where
  "base_frag_from_ipv6 ok packet ts =
     run_bind (mem_byte packet 6) (\<lambda>nxt.
     run_bind (load_net16 (drop 4 packet)) (\<lambda>plen.
       let total_len = unat (plen + 40) in
       run_bind (skip_exthdrs packet total_len nxt 40 6) (\<lambda>r.
         case r of
           None \<Rightarrow> Ret None
         | Some (offset, last_nxt) \<Rightarrow>
             if offset + 8 > total_len then Ret None
             else if \<not> ok 0 \<or> \<not> ok 1 then Abort
             else run_bind (mem_byte packet offset) (\<lambda>ip6f_nxt.
               run_bind (load_net16 (drop (offset + 2) packet)) (\<lambda>ip6f_offlg.
               run_bind (load_net32 (drop (offset + 4) packet)) (\<lambda>ip6f_ident.
               run_bind (mem_read packet 0 total_len) (\<lambda>frag_data.
                 Ret (Some (\<lparr>bf_ts = ts, bf_len = of_nat total_len - of_nat (offset + 8),
                     bf_offset = ucast (ip6f_offlg AND IP6F_OFF_MASK), bf_data_offset = of_nat (offset + 8),
                     bf_last_nxt = last_nxt, bf_ip6f_nxt = ip6f_nxt, bf_data = frag_data\<rparr>,
                   ip6f_ident, ip6f_offlg AND IP6F_MORE_FRAG = 0)))))))))"

definition base_frag_from_ipv4 ::
  "(nat \<Rightarrow> bool) \<Rightarrow> byte list \<Rightarrow> u32 \<Rightarrow> tspec \<Rightarrow> (base_frag \<times> reasm_id_ipv4 \<times> bool) option run" where
  "base_frag_from_ipv4 ok packet len ts =
     run_bind (load_net16 (drop 6 packet)) (\<lambda>offset.
     run_bind (load_net16 (drop 2 packet)) (\<lambda>ip_len.
       if \<not> (len \<ge> ucast ip_len \<and> offset AND (IP_MF OR IP_OFFMASK) \<noteq> 0) then Ret None
       else if \<not> ok 0 \<or> \<not> ok 1 then Abort
       else run_bind (mem_byte packet 0) (\<lambda>vhl.
         run_bind (mem_read packet 0 (unat ip_len)) (\<lambda>frag_data.
         run_bind (mem_read packet 12 4) (\<lambda>src.
         run_bind (mem_read packet 16 4) (\<lambda>dst.
         run_bind (load_net16 (drop 4 packet)) (\<lambda>ip_id.
         run_bind (mem_byte packet 9) (\<lambda>ip_p.
           let pl_hl = ucast (vhl AND 0xF) * 4
           in Ret (Some (\<lparr>bf_ts = ts, bf_len = ucast ip_len - pl_hl,
               bf_offset = ucast (offset AND IP_OFFMASK) * 8, bf_data_offset = pl_hl, bf_last_nxt = 0,
               bf_ip6f_nxt = 0, bf_data = frag_data\<rparr>,
               \<lparr>ip4_src = src, ip4_dst = dst, ip4_id = ip_id, ip4_proto = ip_p\<rparr>,
               offset AND IP_MF = 0))))))))))"

definition reasm_parse_packet ::
  "(nat \<Rightarrow> bool) \<Rightarrow> byte list \<Rightarrow> u32 \<Rightarrow> tspec \<Rightarrow>
     (base_frag \<times> reasm_proto \<times> reasm_id \<times> u32 \<times> bool) option run" where
  "reasm_parse_packet ok packet len ts =
     run_bind (mem_byte packet 0) (\<lambda>vhl.
       if drop_bit 4 vhl = 4 then
         run_bind (base_frag_from_ipv4 ok packet len ts) (\<lambda>r. Ret (map_option (\<lambda>(frag, d, final).
           (frag, PROTO_IPV4, Id_ipv4 d, reasm_ipv4_hash d, final)) r))
       else if drop_bit 4 vhl = 6 then
         run_bind (load_net16 (drop 4 packet)) (\<lambda>plen.
           if \<not> len \<ge> ucast plen + 40 then Ret None
           else run_bind (base_frag_from_ipv6 ok packet ts) (\<lambda>r.
             case r of
               None \<Rightarrow> Ret None
             | Some (frag, ident, final) \<Rightarrow>
                 run_bind (mem_read packet 8 16) (\<lambda>src.
                 run_bind (mem_read packet 24 16) (\<lambda>dst.
                   let d = \<lparr>ip6_src = src, ip6_dst = dst, ip6_id = ident\<rparr>
                   in Ret (Some (frag, PROTO_IPV6, Id_ipv6 d, reasm_ipv6_hash d, final))))))
       else Ret None)"

section \<open>Adding a fragment to an entry\<close>

definition base_frag_end :: "base_frag list \<Rightarrow> u32" where
  "base_frag_end left = (if left = [] then 0 else bf_offset (last left) + bf_len (last left))"

definition reasm_add_fragment :: "base_entry \<Rightarrow> base_frag \<Rightarrow> bool \<Rightarrow> bool \<times> base_entry" where
  "reasm_add_fragment e frag is_last =
     (if \<not> is_last \<and> bf_len frag AND 7 \<noteq> 0 then (False, e)
      else if be_len e \<noteq> 0 \<and> bf_len frag + bf_offset frag > be_len e then (False, e)
      else if is_last \<and> be_len e \<noteq> 0 then (False, e)
      else
        let e1 = (if is_last then e\<lparr>be_len := bf_offset frag + bf_len frag\<rparr> else e);
            left = takeWhile (\<lambda>g. bf_offset g \<le> bf_offset frag) (be_frags e1);
            right = dropWhile (\<lambda>g. bf_offset g \<le> bf_offset frag) (be_frags e1);
            fit_left = (base_frag_end left = bf_offset frag);
            fit_right = (is_last \<or> right \<noteq> [] \<and> bf_offset frag + bf_len frag = bf_offset (hd right))
        in if base_frag_end left > bf_offset frag then (False, e1)
           else if right \<noteq> [] \<and> (is_last \<or> bf_offset frag + bf_len frag > bf_offset (hd right)) then (False, e1)
           else if bf_len frag \<noteq> 0 then
             (True, e1\<lparr>be_frags := left @ frag # right,
                be_holes := (if fit_left \<and> fit_right then be_holes e1 - 1
                  else if \<not> fit_left \<and> \<not> fit_right then be_holes e1 + 1 else be_holes e1),
                be_frag_count := be_frag_count e1 + 1\<rparr>)
           else (True, if is_last \<and> fit_left then e1\<lparr>be_holes := be_holes e1 - 1\<rparr> else e1))"

definition reasm_is_complete :: "base_entry \<Rightarrow> bool" where
  "reasm_is_complete e \<longleftrightarrow> be_holes e = 0"

section \<open>Assembling\<close>

fun base_copy_frags :: "nat \<Rightarrow> base_frag list \<Rightarrow> byte list \<Rightarrow> byte list run" where
  "base_copy_frags offset0 [] out = Ret out"
| "base_copy_frags offset0 (f # fs) out =
     run_bind (mem_read (bf_data f) (unat (bf_data_offset f)) (unat (bf_len f))) (\<lambda>bs.
     run_bind (mem_store out (offset0 + unat (bf_offset f)) bs) (\<lambda>out'. base_copy_frags offset0 fs out'))"

definition reasm_assemble :: "base_entry \<Rightarrow> byte list \<Rightarrow> u64 \<Rightarrow> (byte list \<times> u64) run" where
  "reasm_assemble e out out_len =
     (case be_frags e of
        [] \<Rightarrow> Fault
      | frag # frags \<Rightarrow>
          let offset0 = (case be_protocol e of PROTO_IPV4 \<Rightarrow> bf_data_offset frag | PROTO_IPV6 \<Rightarrow> bf_data_offset frag - 8)
          in if ucast (be_len e + offset0) > out_len then Ret (out, 0)
             else run_bind (mem_read (bf_data frag) 0 (unat offset0)) (\<lambda>hdr.
               run_bind (mem_store out 0 hdr) (\<lambda>out1.
               run_bind (case be_protocol e of
                   PROTO_IPV4 \<Rightarrow> Ret out1
                 | PROTO_IPV6 \<Rightarrow> mem_store out1 (bf_last_nxt frag) [bf_ip6f_nxt frag]) (\<lambda>out1.
               run_bind (base_copy_frags (unat offset0) (frag # frags) out1) (\<lambda>out2.
               run_bind (case be_protocol e of
                   PROTO_IPV4 \<Rightarrow> fix_ipv4 out2 (offset0 + be_len e)
                 | PROTO_IPV6 \<Rightarrow> fix_ipv6 out2 (offset0 + be_len e)) (\<lambda>out3.
                 Ret (out3, ucast (be_len e + offset0))))))))"

section \<open>The table\<close>

definition base_reasm_ip_new :: base_reasm where
  "base_reasm_ip_new = \<lparr>br_entries = (\<lambda>_. None), br_fresh = 0, br_table = (\<lambda>_. []), br_time = [],
     br_waiting = 0, br_max_waiting = 0, br_timed_out = 0, br_dropped_frags = 0,
     br_timeout = \<lparr>tv_sec = 0, tv_nsec = 0\<rparr>\<rparr>"

definition remove_entry :: "base_reasm \<Rightarrow> nat \<Rightarrow> base_entry \<Rightarrow> base_reasm" where
  "remove_entry r a e =
     r\<lparr>br_table := (br_table r)(be_hash e := remove1 a (br_table r (be_hash e))), br_time := remove1 a (br_time r),
       br_waiting := br_waiting r - 1, br_entries := (br_entries r)(a := None)\<rparr>"

function base_process_timeouts :: "base_reasm \<Rightarrow> tspec \<Rightarrow> base_reasm run" where
  "base_process_timeouts r now =
     (case br_time r of
        [] \<Rightarrow> Ret r
      | a # as \<Rightarrow> (case br_entries r a of
            None \<Rightarrow> Fault
          | Some e \<Rightarrow>
              if be_timeout e < tv_sec now
              then base_process_timeouts ((remove_entry r a e)\<lparr>br_timed_out := br_timed_out r + 1\<rparr>) now
              else Ret r))"
  by pat_completeness auto
termination
  by (relation "measure (\<lambda>(r, now). length (br_time r))") (auto simp: remove_entry_def)

declare base_process_timeouts.simps [simp del]

fun base_find_entry ::
  "(nat \<Rightarrow> base_entry option) \<Rightarrow> reasm_proto \<Rightarrow> reasm_id \<Rightarrow> nat list \<Rightarrow> (nat \<times> base_entry) option run" where
  "base_find_entry es proto d [] = Ret None"
| "base_find_entry es proto d (a # as) =
     (case es a of
        None \<Rightarrow> Fault
      | Some e \<Rightarrow> if proto \<noteq> be_protocol e \<or> \<not> reasm_id_equal proto d (be_id e)
          then base_find_entry es proto d as else Ret (Some (a, e)))"

definition base_new_entry ::
  "base_reasm \<Rightarrow> reasm_proto \<Rightarrow> reasm_id \<Rightarrow> nat \<Rightarrow> tspec \<Rightarrow> nat \<times> base_entry \<times> base_reasm" where
  "base_new_entry r proto d hash timestamp =
     (let a = br_fresh r;
          e = \<lparr>be_id = d, be_len = 0, be_holes = 1, be_frag_count = 0, be_hash = hash,
               be_timeout = tv_sec timestamp + tv_sec (br_timeout r), be_state = STATE_ACTIVE,
               be_protocol = proto, be_frags = []\<rparr>;
          w = br_waiting r + 1
      in (a, e, r\<lparr>br_entries := (br_entries r)(a \<mapsto> e), br_fresh := a + 1,
            br_table := (br_table r)(hash := a # br_table r hash), br_time := br_time r @ [a], br_waiting := w,
            br_max_waiting := (if w > br_max_waiting r then w else br_max_waiting r)\<rparr>))"

definition base_set_entry :: "base_reasm \<Rightarrow> nat \<Rightarrow> base_entry \<Rightarrow> base_reasm" where
  "base_set_entry r a e = r\<lparr>br_entries := (br_entries r)(a \<mapsto> e)\<rparr>"

text \<open>
  \<^verbatim>\<open>reasm_ip_next\<close>: whether the packet is a fragment, the entry that it completes, which then belongs to the
  caller, and the new state. First what happens to a fragment and its entry.
\<close>

definition base_add_to_entry ::
  "base_frag \<Rightarrow> bool \<Rightarrow> nat \<Rightarrow> base_entry \<Rightarrow> base_reasm \<Rightarrow> bool \<times> base_entry option \<times> base_reasm" where
  "base_add_to_entry frag is_last a e r =
     (if be_state e \<noteq> STATE_ACTIVE then (True, None, r\<lparr>br_dropped_frags := br_dropped_frags r + 1\<rparr>)
      else (case reasm_add_fragment e frag is_last of
          (False, e') \<Rightarrow> (True, None,
            base_set_entry (r\<lparr>br_dropped_frags := br_dropped_frags r + (be_frag_count e' + 1)\<rparr>) a
              (e'\<lparr>be_state := STATE_INVALID\<rparr>))
        | (True, e') \<Rightarrow>
            if \<not> reasm_is_complete e' then (True, None, base_set_entry r a e')
            else (True, Some e', remove_entry (base_set_entry r a e') a e')))"

definition base_reasm_ip_next ::
  "(nat \<Rightarrow> bool) \<Rightarrow> base_reasm \<Rightarrow> byte list \<Rightarrow> u32 \<Rightarrow> tspec \<Rightarrow> (bool \<times> base_entry option \<times> base_reasm) run" where
  "base_reasm_ip_next ok r0 packet len timestamp =
     run_bind (base_process_timeouts r0 timestamp) (\<lambda>r.
     run_bind (reasm_parse_packet ok packet len timestamp) (\<lambda>p.
     case p of
       None \<Rightarrow> Ret (False, None, r)
     | Some (frag, proto, d, hash0, is_last) \<Rightarrow>
         let hash = unat (hash0 mod REASM_IP_HASH_SIZE) in
         run_bind (base_find_entry (br_entries r) proto d (br_table r hash)) (\<lambda>found.
         run_bind (case found of
             Some (a, e) \<Rightarrow> Ret (a, e, r)
           | None \<Rightarrow> if \<not> ok 2 \<or> \<not> ok 3 then Abort else Ret (base_new_entry r proto d hash timestamp))
           (\<lambda>(a, e, r1). Ret (base_add_to_entry frag is_last a e r1)))))"

section \<open>Comparison with nmsg/ipreasm.c\<close>

definition abs_frag :: "reasm_proto \<Rightarrow> base_frag \<Rightarrow> reasm_frag_entry" where
  "abs_frag p f = \<lparr>fr_len = bf_len f, fr_offset = bf_offset f, fr_data_offset = bf_data_offset f,
     fr_data = (case p of PROTO_IPV4 \<Rightarrow> bf_data f | PROTO_IPV6 \<Rightarrow> (bf_data f)[bf_last_nxt f := bf_ip6f_nxt f])\<rparr>"

definition abs_base_entry :: "base_entry \<Rightarrow> reasm_ip_entry" where
  "abs_base_entry e = \<lparr>e_id = be_id e, e_len = be_len e, e_holes = be_holes e, e_frag_count = be_frag_count e,
     e_hash = be_hash e, e_timeout = of_int (be_timeout e), e_state = be_state e, e_protocol = be_protocol e,
     e_frags = map (abs_frag (be_protocol e)) (be_frags e)\<rparr>"

definition abs_reasm :: "base_reasm \<Rightarrow> reasm_ip" where
  "abs_reasm r = \<lparr>r_entries = (\<lambda>a. map_option abs_base_entry (br_entries r a)), r_fresh = br_fresh r,
     r_table = br_table r, r_time = br_time r, r_waiting = br_waiting r, r_max_waiting = br_max_waiting r,
     r_timed_out = br_timed_out r, r_dropped_frags = br_dropped_frags r,
     r_timeout = of_int (tv_sec (br_timeout r))\<rparr>"

text \<open>The octet that names the next header is before the payload of a fragment, and times are in range.\<close>

definition base_frag_ok :: "reasm_proto \<Rightarrow> base_frag \<Rightarrow> bool" where
  "base_frag_ok p f \<longleftrightarrow> (p = PROTO_IPV6 \<longrightarrow> bf_last_nxt f + 8 < unat (bf_data_offset f))"

definition time_ok :: "int \<Rightarrow> bool" where
  "time_ok t \<longleftrightarrow> 0 \<le> t \<and> t < 2 ^ 62"

definition base_entry_ok :: "base_entry \<Rightarrow> bool" where
  "base_entry_ok e \<longleftrightarrow> 0 \<le> be_timeout e \<and> be_timeout e < 2 ^ 63 \<and> (\<forall>f \<in> set (be_frags e). base_frag_ok (be_protocol e) f)"

definition base_ok :: "base_reasm \<Rightarrow> bool" where
  "base_ok r \<longleftrightarrow> (\<forall>a e. br_entries r a = Some e \<longrightarrow> base_entry_ok e) \<and> time_ok (tv_sec (br_timeout r))"

lemma of_int_less_u64:
  assumes "0 \<le> a" "a < 2 ^ 63" "0 \<le> b" "b < 2 ^ 63"
  shows "(of_int a :: u64) < of_int b \<longleftrightarrow> a < b"
proof -
  have "uint (of_int a :: u64) = a" "uint (of_int b :: u64) = b"
    using assms by (simp_all add: unsigned_of_int take_bit_int_eq_self)
  then show ?thesis by (simp add: word_less_def)
qed

lemma abs_reasm_entries: "r_entries (abs_reasm r) a = map_option abs_base_entry (br_entries r a)"
  by (simp add: abs_reasm_def)

lemma abs_remove_entry:
  "abs_reasm (remove_entry r a e) = drop_entry (abs_reasm r) a (abs_base_entry e)"
  by (simp add: abs_reasm_def remove_entry_def drop_entry_def abs_base_entry_def fun_eq_iff)

lemma abs_timed_out: "abs_reasm (r\<lparr>br_timed_out := n\<rparr>) = (abs_reasm r)\<lparr>r_timed_out := n\<rparr>"
  "abs_reasm (r\<lparr>br_dropped_frags := n\<rparr>) = (abs_reasm r)\<lparr>r_dropped_frags := n\<rparr>"
  by (simp_all add: abs_reasm_def)

lemma base_ok_remove: "base_ok r \<Longrightarrow> base_ok (remove_entry r a e)"
  by (auto simp: base_ok_def remove_entry_def)

lemma base_ok_counters [simp]:
  "base_ok (r\<lparr>br_timed_out := n\<rparr>) \<longleftrightarrow> base_ok r" "base_ok (r\<lparr>br_dropped_frags := n\<rparr>) \<longleftrightarrow> base_ok r"
  by (simp_all add: base_ok_def)

lemma abs_process_timeouts:
  assumes "base_ok r" and "time_ok (tv_sec now)"
  shows "process_timeouts (abs_reasm r) (of_int (tv_sec now)) =
      run_bind (base_process_timeouts r now) (\<lambda>r'. Ret (abs_reasm r')) \<and>
    (\<forall>r'. base_process_timeouts r now = Ret r' \<longrightarrow> base_ok r')"
  using assms
proof (induction r now rule: base_process_timeouts.induct)
  case (1 r now)
  note st = base_process_timeouts.simps [of r now]
  show ?case
  proof (cases "br_time r")
    case Nil
    then show ?thesis
      using "1.prems" by (subst process_timeouts.simps, subst st) (simp add: abs_reasm_def st)
  next
    case (Cons a as)
    show ?thesis
    proof (cases "br_entries r a")
      case None
      then show ?thesis
        using Cons by (subst process_timeouts.simps, subst st) (simp add: abs_reasm_def st)
    next
      case (Some e)
      have le: "e_timeout (abs_base_entry e) < of_int (tv_sec now) \<longleftrightarrow> be_timeout e < tv_sec now"
        using "1.prems" Some
        by (simp add: abs_base_entry_def base_ok_def base_entry_ok_def time_ok_def of_int_less_u64)
      have t: "r_time (abs_reasm r) = a # as" "r_timed_out (abs_reasm r) = br_timed_out r"
        using Cons by (simp_all add: abs_reasm_def)
      let ?r = "(remove_entry r a e)\<lparr>br_timed_out := br_timed_out r + 1\<rparr>"
      show ?thesis
      proof (cases "be_timeout e < tv_sec now")
        case True
        have "drop_entry ((abs_reasm r)\<lparr>r_timed_out := r_timed_out (abs_reasm r) + 1\<rparr>) a (abs_base_entry e) = abs_reasm ?r"
          by (simp add: abs_timed_out abs_remove_entry t drop_entry_def)
        then have "process_timeouts (abs_reasm r) (of_int (tv_sec now)) = process_timeouts (abs_reasm ?r) (of_int (tv_sec now))"
          using True Some by (subst process_timeouts.simps) (simp add: t abs_reasm_entries le)
        moreover have "base_process_timeouts r now = base_process_timeouts ?r now"
          using True Some Cons by (subst st) simp
        moreover have "base_ok ?r" using "1.prems"(1) by (simp add: base_ok_remove)
        ultimately show ?thesis using "1.IH" [OF Cons Some True] "1.prems"(2) by simp
      next
        case False
        then show ?thesis
          using Some Cons "1.prems" le by (subst process_timeouts.simps, subst st) (simp add: t abs_reasm_entries st)
      qed
    qed
  qed
qed

lemma abs_find_entry:
  "find_entry (\<lambda>a. map_option abs_base_entry (es a)) proto d as =
     run_bind (base_find_entry es proto d as) (\<lambda>m. Ret (map_option (\<lambda>(a, e). (a, abs_base_entry e)) m))"
  by (induction as) (auto simp: abs_base_entry_def split: option.splits)

lemma abs_new_entry:
  "new_entry (abs_reasm r) proto d hash (of_int (tv_sec ts)) =
     (case base_new_entry r proto d hash ts of (a, e, r') \<Rightarrow> (a, abs_base_entry e, abs_reasm r'))"
  by (simp add: new_entry_def base_new_entry_def abs_reasm_def abs_base_entry_def Let_def fun_eq_iff)

lemma abs_set_entry: "abs_reasm (base_set_entry r a e) = set_entry (abs_reasm r) a (abs_base_entry e)"
  by (simp add: base_set_entry_def set_entry_def abs_reasm_def fun_eq_iff)

lemma abs_add_fragment:
  "add_fragment (abs_base_entry e) (abs_frag (be_protocol e) f) final =
     (case reasm_add_fragment e f final of (b, e') \<Rightarrow> (b, abs_base_entry e'))"
proof -
  let ?p = "be_protocol e"
  have tw: "takeWhile (\<lambda>g. fr_offset g \<le> bf_offset f) (map (abs_frag ?p) xs) =
      map (abs_frag ?p) (takeWhile (\<lambda>g. bf_offset g \<le> bf_offset f) xs)"
    "dropWhile (\<lambda>g. fr_offset g \<le> bf_offset f) (map (abs_frag ?p) xs) =
      map (abs_frag ?p) (dropWhile (\<lambda>g. bf_offset g \<le> bf_offset f) xs)" for xs
    by (simp_all add: takeWhile_map dropWhile_map comp_def abs_frag_def)
  have fe: "frag_end (map (abs_frag ?p) xs) = base_frag_end xs" for xs
    by (simp add: frag_end_def base_frag_end_def last_map abs_frag_def)
  have sel: "fr_len (abs_frag p g) = bf_len g" "fr_offset (abs_frag p g) = bf_offset g" for p g
    by (simp_all add: abs_frag_def)
  have hd: "xs \<noteq> [] \<Longrightarrow> fr_offset (hd (map (abs_frag ?p) xs)) = bf_offset (hd xs)" for xs
    by (simp add: hd_map sel)
  show ?thesis
    unfolding add_fragment_def reasm_add_fragment_def
    by (simp add: abs_base_entry_def Let_def sel tw fe hd)
qed

lemma reasm_add_fragment_frags:
  "snd (reasm_add_fragment e f final) = e' \<Longrightarrow>
     be_timeout e' = be_timeout e \<and> be_protocol e' = be_protocol e \<and> set (be_frags e') \<subseteq> insert f (set (be_frags e))"
proof -
  define e1 where "e1 = (if final then e\<lparr>be_len := bf_offset f + bf_len f\<rparr> else e)"
  have e1: "be_timeout e1 = be_timeout e" "be_protocol e1 = be_protocol e" "be_frags e1 = be_frags e"
    by (simp_all add: e1_def)
  let ?left = "takeWhile (\<lambda>g. bf_offset g \<le> bf_offset f) (be_frags e)"
  let ?right = "dropWhile (\<lambda>g. bf_offset g \<le> bf_offset f) (be_frags e)"
  have sub: "set (?left @ f # ?right) \<subseteq> insert f (set (be_frags e))"
    by (auto dest: set_takeWhileD set_dropWhileD)
  have "be_timeout (snd (reasm_add_fragment e f final)) = be_timeout e"
    unfolding reasm_add_fragment_def Let_def e1_def [symmetric] e1
    by (simp add: if_distrib [where f = snd] if_distrib [where f = be_timeout] e1)
  moreover have "be_protocol (snd (reasm_add_fragment e f final)) = be_protocol e"
    unfolding reasm_add_fragment_def Let_def e1_def [symmetric] e1
    by (simp add: if_distrib [where f = snd] if_distrib [where f = be_protocol] e1)
  moreover have "set (be_frags (snd (reasm_add_fragment e f final))) \<subseteq> insert f (set (be_frags e))"
    unfolding reasm_add_fragment_def Let_def e1_def [symmetric] e1
    using sub by (simp add: if_distrib [where f = snd] if_distrib [where f = be_frags] e1 subset_insertI)
  moreover assume "snd (reasm_add_fragment e f final) = e'"
  ultimately show ?thesis by simp
qed

lemma reasm_add_fragment_keeps:
  assumes "reasm_add_fragment e f final = (b, e')" and "base_entry_ok e" and "base_frag_ok (be_protocol e) f"
  shows "base_entry_ok e' \<and> be_protocol e' = be_protocol e"
  using reasm_add_fragment_frags [of e f final e'] assms by (auto simp: base_entry_ok_def)

lemma unat_less_u64: "unat x < 18446744073709551616" for x :: u32
  using unsigned_less [where 'a = nat, of x] by simp

lemma abs_copy_frags:
  "\<forall>f \<in> set fs. base_frag_ok p f \<Longrightarrow> copy_frags n (map (abs_frag p) fs) out = base_copy_frags n fs out"
proof (induction fs arbitrary: out)
  case (Cons f fs)
  have "mem_read (fr_data (abs_frag p f)) (unat (bf_data_offset f)) (unat (bf_len f)) =
      mem_read (bf_data f) (unat (bf_data_offset f)) (unat (bf_len f))"
    using Cons.prems by (cases p) (auto simp: abs_frag_def mem_read_def base_frag_ok_def)
  moreover have "fr_len (abs_frag p f) = bf_len f" "fr_data_offset (abs_frag p f) = bf_data_offset f"
    "fr_offset (abs_frag p f) = bf_offset f" by (simp_all add: abs_frag_def)
  ultimately show ?case using Cons by (simp cong: run_bind_cong)
qed simp

lemma store_header:
  assumes "base_frag_ok PROTO_IPV6 f"
  shows "run_bind (mem_read (bf_data f) 0 (unat (bf_data_offset f - 8))) (\<lambda>hdr.
      run_bind (mem_store out 0 hdr) (\<lambda>out1. mem_store out1 (bf_last_nxt f) [bf_ip6f_nxt f])) =
    run_bind (mem_read (fr_data (abs_frag PROTO_IPV6 f)) 0 (unat (bf_data_offset f - 8))) (\<lambda>hdr. mem_store out 0 hdr)"
proof -
  let ?n = "unat (bf_data_offset f - 8)" and ?l = "bf_last_nxt f"
  have "(8 :: u32) \<le> bf_data_offset f" using assms by (simp add: base_frag_ok_def word_le_nat_alt)
  then have l: "?l < ?n" using assms by (simp add: base_frag_ok_def unat_sub)
  have "mem_store (take ?n (bf_data f) @ drop ?n out) ?l [v] = Ret ((take ?n (bf_data f))[?l := v] @ drop ?n out)"
    if "?n \<le> length (bf_data f)" for v
  proof -
    have "?l < length (take ?n (bf_data f))" using l that by simp
    then show ?thesis by (auto simp: mem_store_def upd_conv_take_nth_drop min_def)
  qed
  then show ?thesis
    using l by (simp add: mem_read_def mem_store_def [of out] abs_frag_def take_update_swap)
qed

lemma abs_assemble:
  assumes "base_entry_ok e"
  shows "assemble (abs_base_entry e) out out_len =
    run_bind (reasm_assemble e out (ucast out_len)) (\<lambda>(out', n). Ret (out', ucast n))"
proof (cases "be_frags e")
  case Nil
  then show ?thesis by (simp add: assemble_def reasm_assemble_def abs_base_entry_def)
next
  case (Cons f fs)
  let ?p = "be_protocol e"
  have ok: "\<forall>g \<in> set (f # fs). base_frag_ok ?p g" using assms Cons by (simp add: base_entry_ok_def)
  have sel: "fr_data_offset (abs_frag p g) = bf_data_offset g" for p g by (simp add: abs_frag_def)
  have le: "(ucast x :: u64) > ucast out_len \<longleftrightarrow> x > out_len" for x :: u32
    by (simp add: word_less_nat_alt unsigned_ucast_eq take_bit_nat_eq_self unat_less_u64)
  have uc: "ucast (ucast x :: u64) = x" for x :: u32
    by (rule bit_word_eqI) (auto simp: bit_simps dest: bit_imp_le_length)
  have cp: "copy_frags n (abs_frag ?p f # map (abs_frag ?p) fs) out = base_copy_frags n (f # fs) out" for n out
    using abs_copy_frags [OF ok] by (simp only: list.map)
  show ?thesis
  proof (cases ?p)
    case PROTO_IPV4
    then have "fr_data (abs_frag ?p f) = bf_data f" by (simp add: abs_frag_def)
    then show ?thesis
      using cp Cons PROTO_IPV4
      by (simp add: assemble_def reasm_assemble_def abs_base_entry_def sel le uc Let_def run_bind_assoc
          del: copy_frags.simps base_copy_frags.simps cong: run_bind_cong)
  next
    case PROTO_IPV6
    have "base_frag_ok PROTO_IPV6 f" using ok PROTO_IPV6 by simp
    note sh = store_header [OF this, of out]
    have sh': "run_bind (mem_read (bf_data f) 0 (unat (bf_data_offset f - 8))) (\<lambda>hdr.
        run_bind (mem_store out 0 hdr) (\<lambda>out1. run_bind (mem_store out1 (bf_last_nxt f) [bf_ip6f_nxt f]) F)) =
      run_bind (mem_read (fr_data (abs_frag PROTO_IPV6 f)) 0 (unat (bf_data_offset f - 8))) (\<lambda>hdr.
        run_bind (mem_store out 0 hdr) F)" for F :: "byte list \<Rightarrow> 'b run"
      using arg_cong [OF sh, of "\<lambda>m. run_bind m F"] by (simp add: run_bind_assoc)
    show ?thesis
      using cp Cons PROTO_IPV6
      by (simp add: assemble_def reasm_assemble_def abs_base_entry_def sel le uc Let_def run_bind_assoc sh'
          del: copy_frags.simps base_copy_frags.simps cong: run_bind_cong)
  qed
qed

lemma skip_exthdrs_order:
  "skip_exthdrs packet total_len nxt offset last_nxt = Ret (Some (off', l')) \<Longrightarrow> last_nxt < offset \<Longrightarrow> l' < off'"
proof (induction packet total_len nxt offset last_nxt rule: skip_exthdrs.induct)
  case (1 packet total_len nxt offset last_nxt)
  note st = skip_exthdrs.simps [of packet total_len nxt offset last_nxt]
  show ?case
  proof (cases "nxt = IPPROTO_HOPOPTS \<or> nxt = IPPROTO_ROUTING \<or> nxt = IPPROTO_DSTOPTS")
    case True
    with "1.prems"(1) obtain x y where h: "\<not> offset + 2 > total_len" "mem_byte packet (offset + 1) = Ret x"
      "\<not> offset + (8 + 8 * unat x) > total_len" "mem_byte packet offset = Ret y"
      "skip_exthdrs packet total_len y (offset + (8 + 8 * unat x)) offset = Ret (Some (off', l'))"
      by (auto simp: st Let_def split: if_splits)
    show ?thesis by (rule "1.IH" [OF True h(1,2) refl h(3,4,5)]) simp
  next
    case False
    with "1.prems" show ?thesis by (auto simp: st split: if_splits)
  qed
qed

lemma run_bind_Fault [simp]: "run_bind m (\<lambda>_. Fault) = (case m of Abort \<Rightarrow> Abort | _ \<Rightarrow> Fault)"
  by (cases m) auto

lemma mem_read_cases: "mem_read m off len = Fault \<or> (\<exists>bs. mem_read m off len = Ret bs)"
  by (simp add: mem_read_def)

lemma mem_byte_cases: "mem_byte m off = Fault \<or> (\<exists>b. mem_byte m off = Ret b)"
  by (simp add: mem_byte_def)

lemma load_net16_cases: "load_net16 m = Fault \<or> (\<exists>b. load_net16 m = Ret b)"
  by (cases m rule: load_net16.cases) auto

lemma load_net32_cases: "load_net32 m = Fault \<or> (\<exists>b. load_net32 m = Ret b)"
  by (cases m rule: load_net32.cases) auto

lemma unat_plus_40: "unat plen \<le> 65495 \<Longrightarrow> unat (plen + 40) = 40 + unat plen" for plen :: u16
  by (simp add: unat_word_ariths)

text \<open>
  An IPv6 packet whose length with the header does not fit 16 bits is taken for a short one; octets 4 and 5 of an IPv4
  packet, its identification, are not a length.
\<close>

definition ipv6_length_fits :: "byte list \<Rightarrow> bool" where
  "ipv6_length_fits packet \<longleftrightarrow>
     (\<forall>vhl plen. mem_byte packet 0 = Ret vhl \<longrightarrow> drop_bit 4 vhl = 6 \<longrightarrow> load_net16 (drop 4 packet) = Ret plen \<longrightarrow> unat plen \<le> 65495)"

lemma abs_frag_from_ipv6:
  assumes "\<And>plen. load_net16 (drop 4 packet) = Ret plen \<Longrightarrow> unat plen \<le> 65495"
  shows "frag_from_ipv6 ok packet 0 =
      run_bind (base_frag_from_ipv6 ok packet ts) (\<lambda>r. Ret (map_option (\<lambda>(f, i, l). (abs_frag PROTO_IPV6 f, i, l)) r)) \<and>
    (\<forall>f i l. base_frag_from_ipv6 ok packet ts = Ret (Some (f, i, l)) \<longrightarrow> base_frag_ok PROTO_IPV6 f)"
proof (cases "\<exists>nxt plen. mem_byte packet 6 = Ret nxt \<and> load_net16 (drop 4 packet) = Ret plen")
  case False
  then show ?thesis
    using mem_byte_cases [of packet 6] load_net16_cases [of "drop 4 packet"]
    by (auto simp: frag_from_ipv6_def base_frag_from_ipv6_def)
next
  case True
  then obtain nxt plen where n: "mem_byte packet 6 = Ret nxt" "load_net16 (drop 4 packet) = Ret plen" by blast
  let ?n = "40 + unat plen"
  have pl: "unat plen \<le> 65495" using assms n(2) by simp
  note un = unat_plus_40 [OF pl]
  show ?thesis
  proof (cases "skip_exthdrs packet ?n nxt 40 6")
    case (Ret r)
    show ?thesis
    proof (cases r)
      case None
      with n Ret un show ?thesis by (simp add: frag_from_ipv6_def base_frag_from_ipv6_def Let_def)
    next
      case (Some p)
      obtain off l where p: "p = (off, l)" by (cases p)
      have lo: "l < off" by (rule skip_exthdrs_order [of packet ?n nxt 40 6]) (use Ret Some p in auto)
      show ?thesis
      proof (cases "off + 8 > ?n \<or> \<not> ok 0 \<or> \<not> ok 1")
        case True
        with n Ret Some p un show ?thesis by (auto simp: frag_from_ipv6_def base_frag_from_ipv6_def Let_def)
      next
        case False
        show ?thesis
        proof (cases "?n \<le> length packet")
          case True
          have m: "mem_read packet 0 ?n = Ret (take ?n packet)" using True by (simp add: mem_read_def)
          have b: "mem_byte packet off = Ret (packet ! off)" by (rule mem_byte_ok) (use True False in simp)
          have "\<exists>w. load_net16 (drop (off + 2) packet) = Ret w" by (rule load_net16_ok) (use True False in simp)
          moreover have "\<exists>w. load_net32 (drop (off + 4) packet) = Ret w" by (rule load_net32_ok) (use True False in simp)
          ultimately obtain w i where w: "load_net16 (drop (off + 2) packet) = Ret w"
            "load_net32 (drop (off + 4) packet) = Ret i" by blast
          have st: "mem_store (take ?n packet) l [v] = Ret ((take ?n packet)[l := v])" for v
            using lo True False by (auto simp: mem_store_def upd_conv_take_nth_drop min_def)
          have "unat (of_nat (off + 8) :: u32) = off + 8" by (rule unat_of_nat_u32) (use False pl in simp)
          then have "base_frag_ok PROTO_IPV6 f" if "bf_last_nxt f = l" "bf_data_offset f = of_nat (off + 8)" for f
            using lo that by (simp add: base_frag_ok_def)
          then show ?thesis
            using n Ret Some p un False m b w st
            by (simp add: frag_from_ipv6_def base_frag_from_ipv6_def Let_def abs_frag_def)
        next
          case short: False
          then have "mem_read packet 0 ?n = Fault" by (simp add: mem_read_def)
          then show ?thesis
            using n Ret Some p un False mem_byte_cases [of packet off] load_net16_cases [of "drop (off + 2) packet"]
              load_net32_cases [of "drop (off + 4) packet"]
            by (auto simp: frag_from_ipv6_def base_frag_from_ipv6_def Let_def)
        qed
      qed
    qed
  qed (use n un in \<open>simp_all add: frag_from_ipv6_def base_frag_from_ipv6_def Let_def\<close>)
qed

lemma abs_frag_from_ipv4:
  "frag_from_ipv4 ok packet len =
     run_bind (base_frag_from_ipv4 ok packet len ts) (\<lambda>r. Ret (map_option (\<lambda>(f, d, l). (abs_frag PROTO_IPV4 f, d, l)) r))"
  by (cases "load_net16 (drop 6 packet)"; cases "load_net16 (drop 2 packet)")
    (auto simp: frag_from_ipv4_def base_frag_from_ipv4_def run_bind_assoc Let_def abs_frag_def cong: run_bind_cong)

lemma abs_parse_packet:
  assumes "ipv6_length_fits packet"
  shows "parse_packet ok packet len 0 =
      run_bind (reasm_parse_packet ok packet len ts) (\<lambda>r. Ret (map_option (\<lambda>(f, p, d, h, l). (abs_frag p f, p, d, h, l)) r)) \<and>
    (\<forall>f p d h l. reasm_parse_packet ok packet len ts = Ret (Some (f, p, d, h, l)) \<longrightarrow> base_frag_ok p f)"
proof (cases "mem_byte packet 0")
  case (Ret vhl)
  consider (v4) "drop_bit 4 vhl = 4" | (v6) "drop_bit 4 vhl = 6" | (other) "drop_bit 4 vhl \<noteq> 4" "drop_bit 4 vhl \<noteq> 6"
    by blast
  then show ?thesis
  proof cases
    case v4
    have "base_frag_ok PROTO_IPV4 f" for f by (simp add: base_frag_ok_def)
    then show ?thesis
      using Ret v4 abs_frag_from_ipv4 [of ok packet len ts]
      by (cases "base_frag_from_ipv4 ok packet len ts")
        (auto simp: parse_packet_def reasm_parse_packet_def map_option_case split: option.splits)
  next
    case v6
    have lim: "\<And>plen. load_net16 (drop 4 packet) = Ret plen \<Longrightarrow> unat plen \<le> 65495"
      using assms Ret v6 by (simp add: ipv6_length_fits_def)
    have a: "frag_from_ipv6 ok packet 0 =
        run_bind (base_frag_from_ipv6 ok packet ts) (\<lambda>r. Ret (map_option (\<lambda>(f, i, l). (abs_frag PROTO_IPV6 f, i, l)) r)) \<and>
      (\<forall>f i l. base_frag_from_ipv6 ok packet ts = Ret (Some (f, i, l)) \<longrightarrow> base_frag_ok PROTO_IPV6 f)"
      by (rule abs_frag_from_ipv6) (rule lim)
    show ?thesis
    proof (cases "load_net16 (drop 4 packet)")
      case (Ret plen)
      show ?thesis
      proof (cases "len \<ge> ucast plen + 40")
        case True
        then show ?thesis
          using \<open>mem_byte packet 0 = Ret vhl\<close> v6 Ret a mem_read_cases [of packet 8 16] mem_read_cases [of packet 24 16]
          by (cases "base_frag_from_ipv6 ok packet ts")
            (auto simp: parse_packet_def reasm_parse_packet_def Let_def split: option.splits)
      qed (use \<open>mem_byte packet 0 = Ret vhl\<close> v6 Ret in \<open>simp add: parse_packet_def reasm_parse_packet_def\<close>)
    qed (use Ret v6 in \<open>simp_all add: parse_packet_def reasm_parse_packet_def\<close>)
  next
    case other
    with Ret show ?thesis by (simp add: parse_packet_def reasm_parse_packet_def)
  qed
qed (simp_all add: parse_packet_def reasm_parse_packet_def)

lemma base_find_entry_Some:
  "base_find_entry es proto d as = Ret (Some (a, e)) \<Longrightarrow> es a = Some e \<and> be_protocol e = proto"
  by (induction as) (auto split: option.splits if_splits)

lemma base_ok_set: "base_ok r \<Longrightarrow> base_entry_ok e \<Longrightarrow> base_ok (base_set_entry r a e)"
  by (auto simp: base_ok_def base_set_entry_def)

lemma base_ok_new:
  "base_new_entry r proto d hash ts = (a, e, r') \<Longrightarrow> base_ok r \<Longrightarrow> time_ok (tv_sec ts) \<Longrightarrow>
     base_ok r' \<and> base_entry_ok e \<and> be_protocol e = proto"
  by (auto simp: base_new_entry_def base_ok_def base_entry_ok_def time_ok_def Let_def split: if_splits)

text \<open>What \<^verbatim>\<open>reasm_ip_next\<close> of the library does with a fragment and its entry.\<close>

definition add_to_entry ::
  "byte list \<Rightarrow> u32 \<Rightarrow> reasm_frag_entry \<Rightarrow> bool \<Rightarrow> nat \<Rightarrow> reasm_ip_entry \<Rightarrow> reasm_ip \<Rightarrow>
     (bool \<times> byte list \<times> u32 \<times> reasm_ip) run" where
  "add_to_entry out out_len frag final a e r1 =
     (if e_state e \<noteq> STATE_ACTIVE then Ret (True, out, 0, r1\<lparr>r_dropped_frags := r_dropped_frags r1 + 1\<rparr>)
      else (case add_fragment e frag final of
          (False, e') \<Rightarrow> Ret (True, out, 0,
            set_entry (r1\<lparr>r_dropped_frags := r_dropped_frags r1 + (e_frag_count e' + 1)\<rparr>) a (e'\<lparr>e_state := STATE_INVALID\<rparr>))
        | (True, e') \<Rightarrow>
            if \<not> is_complete e' then Ret (True, out, 0, set_entry r1 a e')
            else run_bind (assemble e' out out_len) (\<lambda>(out', n).
              Ret (True, out', n, drop_entry (set_entry r1 a e') a e'))))"

text \<open>The answer of the library's reassembler, from that of the other one.\<close>

definition assembled ::
  "byte list \<Rightarrow> u32 \<Rightarrow> bool \<times> base_entry option \<times> base_reasm \<Rightarrow> (bool \<times> byte list \<times> u32 \<times> reasm_ip) run" where
  "assembled out out_len = (\<lambda>(b, complete, r').
     case complete of
       None \<Rightarrow> Ret (b, out, 0, abs_reasm r')
     | Some e \<Rightarrow> run_bind (reasm_assemble e out (ucast out_len)) (\<lambda>(out', n). Ret (b, out', ucast n, abs_reasm r')))"

lemma abs_entry_state:
  "abs_base_entry (e\<lparr>be_state := x\<rparr>) = (abs_base_entry e)\<lparr>e_state := x\<rparr>" "e_frag_count (abs_base_entry e) = be_frag_count e"
  "e_state (abs_base_entry e) = be_state e" "is_complete (abs_base_entry e) \<longleftrightarrow> reasm_is_complete e"
  by (simp_all add: abs_base_entry_def is_complete_def reasm_is_complete_def)

lemma abs_add_to_entry:
  assumes r: "base_ok r" and e: "base_entry_ok e" and f: "base_frag_ok (be_protocol e) f"
  shows "add_to_entry out out_len (abs_frag (be_protocol e) f) final a (abs_base_entry e) (abs_reasm r) =
      assembled out out_len (base_add_to_entry f final a e r)"
    and "base_add_to_entry f final a e r = (b, complete, r') \<Longrightarrow> base_ok r'"
proof -
  obtain c e' where c: "reasm_add_fragment e f final = (c, e')" by (cases "reasm_add_fragment e f final")
  have e': "base_entry_ok e'" using reasm_add_fragment_keeps [OF c e f] by simp
  have d: "r_dropped_frags (abs_reasm r) = br_dropped_frags r" by (simp add: abs_reasm_def)
  note aa = abs_add_fragment [of e f final, unfolded c]
  show "add_to_entry out out_len (abs_frag (be_protocol e) f) final a (abs_base_entry e) (abs_reasm r) =
      assembled out out_len (base_add_to_entry f final a e r)"
    by (auto simp: add_to_entry_def base_add_to_entry_def aa c abs_entry_state d abs_timed_out abs_set_entry
        abs_remove_entry assembled_def abs_assemble [OF e'] run_bind_assoc split_def split: bool.splits)
  have inv: "base_entry_ok (e'\<lparr>be_state := STATE_INVALID\<rparr>)" using e' by (simp add: base_entry_ok_def)
  show "base_ok r'" if "base_add_to_entry f final a e r = (b, complete, r')"
    using that r e' inv unfolding base_add_to_entry_def c
    by (auto simp: base_ok_set base_ok_remove split: if_splits bool.splits)
qed

section \<open>Property\<close>

text \<open>
  C15. The two reassemblers agree: on every IPv4 packet, on every IPv6 packet whose payload length is at most 65495, so that
  the length with the header fits the 16 bits in which the message modules keep it, on packets of other versions, and at
  times from 0 up to 2 to the 62 seconds, the one of the message modules, followed by \<^verbatim>\<open>reasm_assemble\<close> when it completes
  a datagram, gives the answer, the packet and the state of the one of the library, faults included; and it keeps its times
  and fragments in order.
\<close>

theorem base_reasm_agrees:
  assumes r: "base_ok r" and ts: "time_ok (tv_sec ts)" and p: "ipv6_length_fits packet"
  shows "reasm_ip_next ok (abs_reasm r) packet len 0 (of_int (tv_sec ts)) out out_len =
      run_bind (base_reasm_ip_next ok r packet len ts) (assembled out out_len) \<and>
    (\<forall>b complete r'. base_reasm_ip_next ok r packet len ts = Ret (b, complete, r') \<longrightarrow> base_ok r')"
proof -
  note pt = abs_process_timeouts [OF r ts]
  note pp = abs_parse_packet [OF p, of ok len ts]
  show ?thesis
  proof (cases "base_process_timeouts r ts")
    case (Ret r1)
    then have r1: "base_ok r1" using pt by simp
    show ?thesis
    proof (cases "reasm_parse_packet ok packet len ts")
      case (Ret q)
      show ?thesis
      proof (cases q)
        case None
        with Ret \<open>base_process_timeouts r ts = Ret r1\<close> pt pp r1 show ?thesis
          by (simp add: reasm_ip_next_def base_reasm_ip_next_def assembled_def)
      next
        case (Some x)
        obtain f proto d h l where x: "x = (f, proto, d, h, l)" by (cases x)
        have fo: "base_frag_ok proto f" using pp Ret Some x by blast
        let ?h = "unat (h mod REASM_IP_HASH_SIZE)"
        let ?find = "base_find_entry (br_entries r1) proto d (br_table r1 ?h)"
        let ?start = "run_bind ?find (\<lambda>found. case found of
             Some (a, e) \<Rightarrow> Ret (a, e, r1)
           | None \<Rightarrow> if \<not> ok 2 \<or> \<not> ok 3 then Abort else Ret (base_new_entry r1 proto d ?h ts))"
        let ?start' = "run_bind (find_entry (r_entries (abs_reasm r1)) proto d (r_table (abs_reasm r1) ?h)) (\<lambda>found.
            case found of
              Some (a, e) \<Rightarrow> Ret (a, e, abs_reasm r1)
            | None \<Rightarrow> if \<not> ok 2 \<or> \<not> ok 3 then Abort else Ret (new_entry (abs_reasm r1) proto d ?h (of_int (tv_sec ts))))"
        have find: "find_entry (r_entries (abs_reasm r1)) proto d (r_table (abs_reasm r1) ?h) =
            run_bind ?find (\<lambda>m. Ret (map_option (\<lambda>(a, e). (a, abs_base_entry e)) m))"
          by (simp add: abs_reasm_def abs_find_entry)
        have start: "?start' = run_bind ?start (\<lambda>(a, e, r2). Ret (a, abs_base_entry e, abs_reasm r2))"
          unfolding find by (cases ?find) (auto simp: abs_new_entry split: option.splits prod.splits)
        have st: "base_ok r2 \<and> base_entry_ok e \<and> be_protocol e = proto" if "?start = Ret (a, e, r2)" for a e r2
          using that r1 ts by (auto split: option.splits if_splits dest!: base_find_entry_Some dest: base_ok_new
              simp: base_ok_def)
        have n: "reasm_ip_next ok (abs_reasm r) packet len 0 (of_int (tv_sec ts)) out out_len =
            run_bind ?start' (\<lambda>(a, e, r2). add_to_entry out out_len (abs_frag proto f) l a e r2)"
          using pt pp Ret \<open>base_process_timeouts r ts = Ret r1\<close> Some x
          by (simp add: reasm_ip_next_def add_to_entry_def Let_def run_bind_assoc)
        have b: "base_reasm_ip_next ok r packet len ts = run_bind ?start (\<lambda>(a, e, r2). Ret (base_add_to_entry f l a e r2))"
          using Ret \<open>base_process_timeouts r ts = Ret r1\<close> Some x
          by (simp add: base_reasm_ip_next_def Let_def run_bind_assoc)
        show ?thesis
        proof (cases ?start)
          case (Ret aer)
          obtain a e r2 where aer: "aer = (a, e, r2)" by (cases aer)
          note s2 = st [OF Ret [unfolded aer]]
          show ?thesis
            unfolding n b start Ret aer using abs_add_to_entry [of r2 e f] s2 fo by auto
        qed (simp_all only: n b start, simp_all)
      qed
    qed (use Ret pt pp in \<open>simp_all add: reasm_ip_next_def base_reasm_ip_next_def\<close>)
  qed (use pt in \<open>simp_all add: reasm_ip_next_def base_reasm_ip_next_def\<close>)
qed

definition w_first_fragment :: "byte list" where
  "w_first_fragment = [0x45, 0, 0, 28, 0xFF, 0xFE, 0x20, 0, 64, 17, 0, 0, 10, 0, 0, 1, 10, 0, 0, 2, 1, 2, 3, 4, 5, 6, 7, 8]"

theorem base_reasm_agrees_witness:
  "reasm_ip_next (\<lambda>_. True) (abs_reasm base_reasm_ip_new) w_first_fragment 28 0 5 (replicate 100 0) 100 =
     run_bind (base_reasm_ip_next (\<lambda>_. True) base_reasm_ip_new w_first_fragment 28 \<lparr>tv_sec = 5, tv_nsec = 0\<rparr>)
       (assembled (replicate 100 0) 100)"
proof -
  have "base_ok base_reasm_ip_new" by (simp add: base_ok_def base_reasm_ip_new_def time_ok_def)
  moreover have "ipv6_length_fits w_first_fragment" by (simp add: ipv6_length_fits_def w_first_fragment_def mem_byte_def)
  ultimately show ?thesis
    using base_reasm_agrees [of base_reasm_ip_new "\<lparr>tv_sec = 5, tv_nsec = 0\<rparr>" w_first_fragment "\<lambda>_. True" 28 "replicate 100 0" 100]
    by (simp add: time_ok_def)
qed

end
