(* ===== verification/Dnsqr_Packet.thy ===== *)
theory Dnsqr_Packet
  imports Dnsqr_Table Base_Ipreasm
begin

text \<open>
  The DNS module from the captured packet to the message (nmsg/base/dnsqr.c): the parts of a packet, the
  checksum of a response, the filters, and the step that pairs queries with their responses.
\<close>

section \<open>Surroundings\<close>

text \<open>
  What is used of wdns: the octets that a name takes at the head of a message, the name in lower case, the name
  without its first label, and the name that a string denotes.
\<close>

record wdns =
  wdns_skip_name :: "byte list \<Rightarrow> nat"
  wdns_downcase_name :: "byte list \<Rightarrow> byte list"
  wdns_left_chop :: "byte list \<Rightarrow> byte list option"
  wdns_str_to_name :: "byte list \<Rightarrow> byte list option"

text \<open>
  The machine, wdns, the success of allocations, the data link and the user's filter of the capture, and what a
  new packet buffer holds.
\<close>

record dnsqr_env =
  ev_host :: host
  ev_wdns :: wdns
  ev_alloc :: "nat \<Rightarrow> bool"
  ev_datalink :: datalink
  ev_bpf :: "(byte list \<Rightarrow> bool) option"
  ev_buffer :: "byte list"

text \<open>A table of names with its number of slots, \<open>None\<close> when its variable is not set.\<close>

type_synonym name_table = "(byte list option list \<times> u32) option"

record dnsqr_ctx =
  dc_table :: dnsqr_table
  dc_reasm :: base_reasm
  dc_stop :: bool
  dc_capture_qr :: int
  dc_capture_rd :: int
  dc_zero_resolver_address :: bool
  dc_max_values :: u32
  dc_query_timeout :: u32
  dc_now :: tspec
  dc_exclude :: name_table
  dc_include :: name_table

text \<open>The message that is given out: its content, which the code packs, and its time.\<close>

record dns_message =
  dm_dnsqr :: dnsqr
  dm_time :: "tspec option"

text \<open>A datagram before it is parsed; all that is read of it after a success is set by the parser.\<close>

definition dg_unset :: nmsg_ipdg where
  "dg_unset = \<lparr>dg_proto_network = PF_UNSPEC, dg_proto_transport = 0, dg_len_network = 0, dg_len_transport = 0,
     dg_len_payload = 0, dg_network = None, dg_transport = None, dg_payload = None\<rparr>"

definition ptr_octets :: "pkt_ptr \<Rightarrow> byte list run" where
  "ptr_octets p = (case p of None \<Rightarrow> Fault | Some (pkt, off) \<Rightarrow> Ret (drop off pkt))"

definition DNS_FLAG_QR :: "u16 \<Rightarrow> bool" where "DNS_FLAG_QR flags \<longleftrightarrow> drop_bit 15 flags AND 1 \<noteq> 0"
definition DNS_FLAG_RD :: "u16 \<Rightarrow> int" where "DNS_FLAG_RD flags = (if drop_bit 8 flags AND 1 \<noteq> 0 then 1 else 0)"
definition DNS_FLAG_RCODE :: "u16 \<Rightarrow> u16" where "DNS_FLAG_RCODE flags = flags AND 0xf"

section \<open>The checksum of a response\<close>

text \<open>The sum of the 16 bit words of a payload, the last octet of an odd one as a high octet.\<close>

fun sum_octets :: "u32 \<Rightarrow> byte list \<Rightarrow> u32" where
  "sum_octets s (a # b # bs) = sum_octets (s + (push_bit 8 (ucast a) OR ucast b)) bs"
| "sum_octets s [a] = s + push_bit 8 (ucast a)"
| "sum_octets s [] = s"

text \<open>The upper length of an IPv6 pseudo header: the 16 bit value as it is in memory, widened by the host.\<close>

definition upper_len6 :: "bool \<Rightarrow> byte list \<Rightarrow> byte list" where
  "upper_len6 little ulen = (if little then ulen @ [0, 0] else [0, 0] @ ulen)"

definition pseudo_ipv4 :: "byte list \<Rightarrow> byte list \<Rightarrow> byte list run" where
  "pseudo_ipv4 ip udp =
     run_bind (mem_read ip 12 4) (\<lambda>src. run_bind (mem_read ip 16 4) (\<lambda>dst. run_bind (mem_read ip 9 1) (\<lambda>proto.
     run_bind (mem_read udp 4 2) (\<lambda>ulen. run_bind (mem_read udp 0 2) (\<lambda>sport. run_bind (mem_read udp 2 2) (\<lambda>dport.
     run_bind (mem_read udp 6 2) (\<lambda>sum.
       Ret (src @ dst @ [0] @ proto @ ulen @ sport @ dport @ ulen @ sum))))))))"

definition pseudo_ipv6 :: "bool \<Rightarrow> byte list \<Rightarrow> byte list \<Rightarrow> byte list run" where
  "pseudo_ipv6 little ip6 udp =
     run_bind (mem_read ip6 8 16) (\<lambda>src. run_bind (mem_read ip6 24 16) (\<lambda>dst.
     run_bind (mem_read udp 4 2) (\<lambda>ulen. run_bind (mem_read udp 0 2) (\<lambda>sport. run_bind (mem_read udp 2 2) (\<lambda>dport.
     run_bind (mem_read udp 6 2) (\<lambda>sum.
       Ret (src @ dst @ upper_len6 little ulen @ [0, 0, 0] @ [IPPROTO_UDP] @ sport @ dport @ ulen @ sum)))))))"

text \<open>
  The loop over the packets of the response, with the sum and the pseudo header so far: \<open>Inl\<close> is an early return.
\<close>

fun checksum_packets ::
  "bool \<Rightarrow> byte list list \<Rightarrow> u32 \<Rightarrow> byte list option \<Rightarrow> (udp_checksum + u32 \<times> byte list option) run" where
  "checksum_packets little [] s ph = Ret (Inr (s, ph))"
| "checksum_packets little (pkt # pkts) s ph =
     run_bind (nmsg_ipdg_parse_pcap_raw dg_unset DLT_RAW pkt (of_nat (length pkt))) (\<lambda>(res, dg).
       if res \<noteq> nmsg_res_success then Ret (Inl CHECKSUM_ERROR)
       else if (dg_proto_network dg = PF_INET \<or> dg_proto_network dg = PF_INET6) \<and>
           dg_proto_transport dg = IPPROTO_UDP then
         run_bind (if dg_transport dg = None then Ret (Inr ph)
           else if dg_len_transport dg < 8 then Ret (Inl CHECKSUM_ERROR)
           else run_bind (ptr_octets (dg_transport dg)) (\<lambda>udp. run_bind (load_net16 (drop 6 udp)) (\<lambda>uh_sum.
             if uh_sum = 0 then Ret (Inl CHECKSUM_ABSENT)
             else if dg_proto_network dg = PF_INET
               then run_bind (pseudo_ipv4 pkt udp) (\<lambda>p. Ret (Inr (Some p)))
               else run_bind (ptr_octets (dg_network dg)) (\<lambda>ip6.
                 run_bind (pseudo_ipv6 little ip6 udp) (\<lambda>p. Ret (Inr (Some p)))))))
         (\<lambda>r. case r of
             Inl c \<Rightarrow> Ret (Inl c)
           | Inr ph' \<Rightarrow>
               run_bind (ptr_octets (dg_payload dg)) (\<lambda>payload.
               run_bind (mem_read payload 0 (unat (dg_len_payload dg))) (\<lambda>data.
                 checksum_packets little pkts (sum_octets s data) ph')))
       else Ret (Inl CHECKSUM_ERROR))"

definition dnsqr_checksum_verify :: "bool \<Rightarrow> dnsqr \<Rightarrow> udp_checksum run" where
  "dnsqr_checksum_verify little q =
     (if dq_resolver_address_zeroed q then Ret CHECKSUM_ERROR
      else run_bind (checksum_packets little (dq_response_packet q) 0 None) (\<lambda>r.
        case r of
          Inl c \<Rightarrow> Ret c
        | Inr (s, None) \<Rightarrow> Ret CHECKSUM_ERROR
        | Inr (s, Some ph) \<Rightarrow>
            Ret (if (ucast (NOT (fold_sum (sum_octets s ph))) :: u16) = 0 then CHECKSUM_CORRECT else CHECKSUM_INCORRECT)))"

section \<open>Zeroing the address of the resolver\<close>

definition zero_range :: "nat \<Rightarrow> nat \<Rightarrow> byte list \<Rightarrow> byte list" where
  "zero_range off n bs = take off bs @ replicate n 0 @ drop (off + n) bs"

text \<open>The source address of a query or the destination address of a response; the version is read first.\<close>

definition zero_address :: "bool \<Rightarrow> byte list \<Rightarrow> byte list run" where
  "zero_address query pkt =
     run_bind (mem_byte pkt 0) (\<lambda>vhl.
       if drop_bit 4 vhl = 4 then
         Ret (if length pkt \<ge> 20 then zero_range (if query then 12 else 16) 4 pkt else pkt)
       else if drop_bit 4 vhl = 6 then
         Ret (if length pkt \<ge> 40 then zero_range (if query then 8 else 24) 16 pkt else pkt)
       else Ret pkt)"

fun run_map :: "('a \<Rightarrow> 'b run) \<Rightarrow> 'a list \<Rightarrow> 'b list run" where
  "run_map f [] = Ret []"
| "run_map f (x # xs) = run_bind (f x) (\<lambda>y. run_bind (run_map f xs) (\<lambda>ys. Ret (y # ys)))"

definition dnsqr_zero_resolver_address :: "dnsqr \<Rightarrow> dnsqr run" where
  "dnsqr_zero_resolver_address q =
     run_bind (run_map (zero_address True) (dq_query_packet q)) (\<lambda>qs.
     run_bind (run_map (zero_address False) (dq_response_packet q)) (\<lambda>rs.
       Ret (q\<lparr>dq_resolver_address_zeroed := True,
         dq_query_ip := map_option (\<lambda>ip. replicate (length ip) 0) (dq_query_ip q),
         dq_query_packet := qs, dq_response_packet := rs\<rparr>)))"

section \<open>The parts of a packet\<close>

definition do_packet_dns :: "wdns \<Rightarrow> dnsqr \<Rightarrow> nmsg_ipdg \<Rightarrow> u16 \<Rightarrow> (nmsg_res \<times> dnsqr \<times> u16) run" where
  "do_packet_dns w q dg flags0 =
     (let len = dg_len_payload dg in
      if len < 12 then Ret (nmsg_res_again, q, flags0)
      else run_bind (ptr_octets (dg_payload dg)) (\<lambda>p.
        run_bind (load_net16 p) (\<lambda>ident. run_bind (load_net16 (drop 2 p)) (\<lambda>flags.
        run_bind (load_net16 (drop 4 p)) (\<lambda>qdcount.
          let q = q\<lparr>dq_id := ucast ident\<rparr>; len = unat len - 12 in
          if qdcount = 1 \<and> len > 0 then
            run_bind (mem_read p 12 len) (\<lambda>rest.
              let n = wdns_skip_name w rest; len' = (of_nat len - of_nat n :: u64) in
              if len' < 4 then Ret (nmsg_res_again, q, flags)
              else run_bind (mem_read p 12 n) (\<lambda>qname.
                run_bind (load_net16 (drop (12 + n) p)) (\<lambda>qtype. run_bind (load_net16 (drop (14 + n) p)) (\<lambda>qclass.
                  Ret (nmsg_res_success,
                    q\<lparr>dq_qname := Some qname, dq_qtype := Some (ucast qtype), dq_qclass := Some (ucast qclass)\<rparr>,
                    flags)))))
          else Ret (nmsg_res_success, q, flags))))))"

definition dns_port :: "u16 \<Rightarrow> bool" where "dns_port p \<longleftrightarrow> p = 53 \<or> p = 5353"

definition do_packet_udp :: "wdns \<Rightarrow> dnsqr \<Rightarrow> nmsg_ipdg \<Rightarrow> u16 \<Rightarrow> (nmsg_res \<times> dnsqr \<times> u16) run" where
  "do_packet_udp w q dg flags0 =
     (case dg_transport dg of
        None \<Rightarrow> Ret (nmsg_res_again, q, flags0)
      | Some (pkt, off) \<Rightarrow>
          run_bind (load_net16 (drop off pkt)) (\<lambda>src_port. run_bind (load_net16 (drop (off + 2) pkt)) (\<lambda>dst_port.
            if \<not> (dns_port src_port \<or> dns_port dst_port) then Ret (nmsg_res_again, q, flags0)
            else run_bind (do_packet_dns w q dg flags0) (\<lambda>(res, q, flags).
              if res \<noteq> nmsg_res_success then Ret (res, q, flags)
              else if \<not> DNS_FLAG_QR flags then
                Ret (nmsg_res_success, q\<lparr>dq_query_port := ucast src_port, dq_response_port := ucast dst_port\<rparr>, flags)
              else
                Ret (nmsg_res_success, q\<lparr>dq_query_port := ucast dst_port, dq_response_port := ucast src_port\<rparr>, flags)))))"

definition network_octets :: "nmsg_ipdg \<Rightarrow> byte list run" where
  "network_octets dg = run_bind (ptr_octets (dg_network dg)) (\<lambda>p. mem_read p 0 (unat (dg_len_network dg)))"

definition do_packet_tcp :: "dnsqr \<Rightarrow> nmsg_ipdg \<Rightarrow> (nmsg_res \<times> dnsqr) run" where
  "do_packet_tcp q dg =
     (case dg_transport dg of
        None \<Rightarrow> Ret (nmsg_res_again, q)
      | Some (pkt, off) \<Rightarrow>
          run_bind (load_net16 (drop off pkt)) (\<lambda>src_port. run_bind (load_net16 (drop (off + 2) pkt)) (\<lambda>dst_port.
            if \<not> (src_port = 53 \<or> dst_port = 53) then Ret (nmsg_res_again, q)
            else run_bind (network_octets dg) (\<lambda>data.
              Ret (nmsg_res_success, q\<lparr>dq_tcp := Some data, dq_type := DNS_TCP\<rparr>)))))"

definition do_packet_icmp :: "dnsqr \<Rightarrow> nmsg_ipdg \<Rightarrow> (nmsg_res \<times> dnsqr) run" where
  "do_packet_icmp q dg =
     run_bind (ptr_octets (dg_payload dg)) (\<lambda>payload.
     run_bind (nmsg_ipdg_parse_pcap_raw dg_unset DLT_RAW payload (ucast (dg_len_payload dg))) (\<lambda>(res, icmp_dg).
       if res \<noteq> nmsg_res_success then Ret (res, q)
       else (case dg_transport icmp_dg of
           None \<Rightarrow> Ret (nmsg_res_again, q)
         | Some (pkt, off) \<Rightarrow>
             if dg_proto_transport icmp_dg = IPPROTO_UDP \<or> dg_proto_transport icmp_dg = IPPROTO_TCP then
               run_bind (load_net16 (drop off pkt)) (\<lambda>src_port. run_bind (load_net16 (drop (off + 2) pkt)) (\<lambda>dst_port.
                 if (if dg_proto_transport icmp_dg = IPPROTO_UDP then \<not> (dns_port src_port \<or> dns_port dst_port)
                     else \<not> (src_port = 53 \<or> dst_port = 53))
                 then Ret (nmsg_res_again, q)
                 else run_bind (network_octets dg) (\<lambda>data.
                   Ret (nmsg_res_success, q\<lparr>dq_icmp := Some data, dq_type := DNS_ICMP\<rparr>))))
             else Ret (nmsg_res_again, q))))"

text \<open>The addresses of a packet, of \<open>n\<close> octets, the source at \<open>src\<close> and the destination at \<open>dst\<close>.\<close>

definition set_addresses :: "nat \<Rightarrow> nat \<Rightarrow> nat \<Rightarrow> dnsqr \<Rightarrow> nmsg_ipdg \<Rightarrow> u16 \<Rightarrow> dnsqr run" where
  "set_addresses n src dst q dg flags =
     run_bind (ptr_octets (dg_network dg)) (\<lambda>ip.
     run_bind (mem_read ip src n) (\<lambda>s. run_bind (mem_read ip dst n) (\<lambda>d.
       Ret (if \<not> DNS_FLAG_QR flags then q\<lparr>dq_query_ip := Some s, dq_response_ip := Some d\<rparr>
            else q\<lparr>dq_query_ip := Some d, dq_response_ip := Some s\<rparr>))))"

definition do_packet_ip ::
  "nat \<Rightarrow> nat \<Rightarrow> nat \<Rightarrow> wdns \<Rightarrow> dnsqr \<Rightarrow> nmsg_ipdg \<Rightarrow> u16 \<Rightarrow> (nmsg_res \<times> dnsqr \<times> u16) run" where
  "do_packet_ip n src dst w q dg flags =
     (if dg_proto_transport dg = IPPROTO_UDP then
        run_bind (do_packet_udp w q dg flags) (\<lambda>(res, q, flags).
          if res \<noteq> nmsg_res_success then Ret (res, q, flags)
          else run_bind (set_addresses n src dst q dg flags) (\<lambda>q. Ret (nmsg_res_success, q, flags)))
      else if dg_proto_transport dg = IPPROTO_TCP then
        run_bind (do_packet_tcp q dg) (\<lambda>(res, q). Ret (res, q, flags))
      else if dg_proto_transport dg = IPPROTO_ICMP then
        run_bind (do_packet_icmp q dg) (\<lambda>(res, q). Ret (res, q, flags))
      else Ret (nmsg_res_again, q, flags))"

definition do_packet_v4 :: "wdns \<Rightarrow> dnsqr \<Rightarrow> nmsg_ipdg \<Rightarrow> u16 \<Rightarrow> (nmsg_res \<times> dnsqr \<times> u16) run" where
  "do_packet_v4 = do_packet_ip 4 12 16"

definition do_packet_v6 :: "wdns \<Rightarrow> dnsqr \<Rightarrow> nmsg_ipdg \<Rightarrow> u16 \<Rightarrow> (nmsg_res \<times> dnsqr \<times> u16) run" where
  "do_packet_v6 = do_packet_ip 16 8 24"

end
