(* ===== verification/Dnsqr_Step.thy ===== *)
theory Dnsqr_Step
  imports Dnsqr_Packet Cstring
begin

text \<open>
  The DNS module, continued (nmsg/base/dnsqr.c): the names that are filtered, the packets of a query or a
  response, and \<^verbatim>\<open>dnsqr_pkt_to_payload\<close>, which a program calls again and again. Its properties are in theories
  Dnsqr_Queue, Dnsqr_Run and Dnsqr_Names.
\<close>

section \<open>Tables of names\<close>

definition name_hash :: "host \<Rightarrow> u64 \<Rightarrow> byte list \<Rightarrow> u32" where
  "name_hash h addr name = my_hashlittle (h_little h) addr (key_on_stack name (h_stack h)) (length name) 0"

text \<open>The address of a name, on which the hash does not depend, is taken to be that of a key.\<close>

definition name_slot :: "host \<Rightarrow> u32 \<Rightarrow> byte list \<Rightarrow> nat run" where
  "name_slot h num_slots name =
     (if num_slots = 0 then Fault else Ret (unat (name_hash h (h_key_addr h) name mod num_slots)))"

function name_lookup :: "byte list option list \<Rightarrow> nat \<Rightarrow> byte list \<Rightarrow> nat \<Rightarrow> nat \<Rightarrow> bool run" where
  "name_lookup table n name slot slot_stop =
     (if slot \<ge> n \<or> slot_stop \<ge> n \<or> n \<noteq> length table then Fault
      else (case table ! slot of
          None \<Rightarrow> Ret False
        | Some ent \<Rightarrow>
            if ent = name then Ret True
            else if slot = slot_stop then Abort
            else name_lookup table n name (next_slot n slot) slot_stop))"
  by pat_completeness auto
termination
  by (relation "measure (\<lambda>(table, n, name, slot, slot_stop). if slot \<le> slot_stop then slot_stop - slot
      else slot_stop + n - slot)") (auto simp: next_slot_def)

function name_free_slot :: "byte list option list \<Rightarrow> nat \<Rightarrow> nat \<Rightarrow> nat \<Rightarrow> nat run" where
  "name_free_slot table n slot slot_stop =
     (if slot \<ge> n \<or> slot_stop \<ge> n \<or> n \<noteq> length table then Fault
      else if table ! slot = None then Ret slot
      else if slot = slot_stop then Abort
      else name_free_slot table n (next_slot n slot) slot_stop)"
  by pat_completeness auto
termination
  by (relation "measure (\<lambda>(table, n, slot, slot_stop). if slot \<le> slot_stop then slot_stop - slot
      else slot_stop + n - slot)") (auto simp: next_slot_def)

declare name_lookup.simps [simp del] name_free_slot.simps [simp del]

definition dnsqr_filter_lookup :: "host \<Rightarrow> byte list option list \<Rightarrow> u32 \<Rightarrow> byte list \<Rightarrow> bool run" where
  "dnsqr_filter_lookup h table num_slots name =
     run_bind (name_slot h num_slots name) (\<lambda>slot.
       name_lookup table (unat num_slots) name slot (last_slot num_slots slot))"

definition dnsqr_filter_insert ::
  "host \<Rightarrow> byte list option list \<Rightarrow> u32 \<Rightarrow> byte list \<Rightarrow> byte list option list run" where
  "dnsqr_filter_insert h table num_slots name =
     run_bind (name_slot h num_slots name) (\<lambda>slot.
     run_bind (name_free_slot table (unat num_slots) slot (last_slot num_slots slot)) (\<lambda>slot.
       Ret (table[slot := Some name])))"

text \<open>The tokens of \<^verbatim>\<open>strtok_r(names, ":", ...)\<close>.\<close>

function name_tokens :: "byte list \<Rightarrow> byte list list" where
  "name_tokens s = (case strtok [58] s of (None, _) \<Rightarrow> [] | (Some token, rest) \<Rightarrow> token # name_tokens rest)"
  by pat_completeness auto
termination
proof (relation "measure length")
  fix s :: "byte list" and x y token rest
  assume s: "(x, rest) = strtok [58] s" and x: "x = Some token"
  have "length (dropWhile (\<lambda>c. c \<in> set [58]) s) \<le> length s" by (rule length_dropWhile_le)
  moreover have "length (dropWhile (\<lambda>c. c \<notin> set [58]) t) \<le> length t" for t :: "byte list" by (rule length_dropWhile_le)
  moreover have "rest = drop 1 (dropWhile (\<lambda>c. c \<notin> set [58]) (dropWhile (\<lambda>c. c \<in> set [58]) s))"
    "dropWhile (\<lambda>c. c \<in> set [58]) s \<noteq> []"
    using s x by (auto simp: strtok_def Let_def split: if_splits)
  ultimately show "(rest, s) \<in> measure length"
    by (metis (no_types, lifting) diff_less in_measure length_drop length_greater_0_conv less_le_trans less_one
        linorder_not_le not_less_iff_gr_or_eq order_trans zero_less_diff)
qed simp

declare name_tokens.simps [simp del]

fun insert_tokens ::
  "host \<Rightarrow> wdns \<Rightarrow> byte list option list \<Rightarrow> u32 \<Rightarrow> byte list list \<Rightarrow> byte list option list run" where
  "insert_tokens h w table num_slots [] = Ret table"
| "insert_tokens h w table num_slots (token # tokens) =
     (case wdns_str_to_name w token of
        None \<Rightarrow> insert_tokens h w table num_slots tokens
      | Some name \<Rightarrow>
          run_bind (dnsqr_filter_insert h table num_slots (wdns_downcase_name w name)) (\<lambda>table'.
            insert_tokens h w table' num_slots tokens))"

text \<open>
  A variable without any token makes the code pass NULL to \<^verbatim>\<open>wdns_str_to_name\<close>, which takes a string.
\<close>

definition dnsqr_filter_init :: "host \<Rightarrow> wdns \<Rightarrow> byte list option \<Rightarrow> name_table run" where
  "dnsqr_filter_init h w env =
     (case env of
        None \<Rightarrow> Ret None
      | Some names \<Rightarrow>
          let num_names = 1 + length (filter (\<lambda>c. c = 58) names); num_slots = of_nat num_names * 2; table = replicate (unat num_slots) None
          in if name_tokens names = [] then Fault
             else run_bind (insert_tokens h w table num_slots (name_tokens names)) (\<lambda>table'. Ret (Some (table', num_slots))))"

section \<open>Packets of a query and a response\<close>

definition dnsqr_append_query_packet :: "dnsqr \<Rightarrow> byte list \<Rightarrow> tspec \<Rightarrow> dnsqr" where
  "dnsqr_append_query_packet q pkt ts =
     q\<lparr>dq_query_packet := dq_query_packet q @ [pkt], dq_query_time_sec := dq_query_time_sec q @ [tv_sec ts],
       dq_query_time_nsec := dq_query_time_nsec q @ [tv_nsec ts]\<rparr>"

definition dnsqr_append_response_packet :: "dnsqr \<Rightarrow> byte list \<Rightarrow> tspec \<Rightarrow> dnsqr" where
  "dnsqr_append_response_packet q pkt ts =
     q\<lparr>dq_response_packet := dq_response_packet q @ [pkt], dq_response_time_sec := dq_response_time_sec q @ [tv_sec ts],
       dq_response_time_nsec := dq_response_time_nsec q @ [tv_nsec ts]\<rparr>"

fun append_frags :: "(dnsqr \<Rightarrow> byte list \<Rightarrow> tspec \<Rightarrow> dnsqr) \<Rightarrow> dnsqr \<Rightarrow> base_frag list \<Rightarrow> dnsqr run" where
  "append_frags func q [] = Ret q"
| "append_frags func q (f # fs) =
     run_bind (mem_read (bf_data f) 0 (unat (bf_len f + bf_data_offset f))) (\<lambda>pkt. append_frags func (func q pkt (bf_ts f)) fs)"

definition dnsqr_append_frag :: "(dnsqr \<Rightarrow> byte list \<Rightarrow> tspec \<Rightarrow> dnsqr) \<Rightarrow> dnsqr \<Rightarrow> base_entry \<Rightarrow> dnsqr run" where
  "dnsqr_append_frag func q e = append_frags func q (be_frags e)"

text \<open>The packets of the query \<open>d1\<close> are moved to its response \<open>d2\<close>.\<close>

definition dnsqr_merge :: "dnsqr \<Rightarrow> dnsqr \<Rightarrow> dnsqr run" where
  "dnsqr_merge d1 d2 =
     (if \<not> (dq_query_packet d2 = [] \<and> dq_query_time_sec d2 = [] \<and> dq_query_time_nsec d2 = []) then Abort
      else Ret (d2\<lparr>dq_query_packet := dq_query_packet d1, dq_query_time_sec := dq_query_time_sec d1,
        dq_query_time_nsec := dq_query_time_nsec d1,
        dq_qname := (if dq_qname d2 = None then dq_qname d1 else dq_qname d2),
        dq_qtype := (if dq_qtype d2 = None then dq_qtype d1 else dq_qtype d2),
        dq_qclass := (if dq_qclass d2 = None then dq_qclass d1 else dq_qclass d2)\<rparr>))"

section \<open>Filters\<close>

definition get_query_flags :: "dnsqr \<Rightarrow> u16 option run" where
  "get_query_flags q =
     (case (dq_query_ip q, dq_query_packet q) of
        (Some ip, pkt # _) \<Rightarrow>
          if length ip = 4 \<or> length ip = 16 then
            run_bind (nmsg_ipdg_parse dg_unset (if length ip = 4 then ETHERTYPE_IP else ETHERTYPE_IPV6)
                (of_nat (length pkt)) pkt 0) (\<lambda>(res, dg).
              if res \<noteq> nmsg_res_success then Ret None
              else if dg_len_payload dg \<ge> 12 then
                run_bind (ptr_octets (dg_payload dg)) (\<lambda>p. run_bind (load_net16 (drop 2 p)) (\<lambda>flags. Ret (Some flags)))
              else Ret None)
          else Ret None
      | _ \<Rightarrow> Ret None)"

definition capture_rd_set :: "dnsqr_ctx \<Rightarrow> bool" where
  "capture_rd_set ctx \<longleftrightarrow> dc_capture_rd ctx = 0 \<or> dc_capture_rd ctx = 1"

definition do_filter_query_rd :: "dnsqr_ctx \<Rightarrow> dnsqr \<Rightarrow> bool run" where
  "do_filter_query_rd ctx q =
     (if capture_rd_set ctx then
        run_bind (get_query_flags q) (\<lambda>r. case r of
            None \<Rightarrow> Ret False
          | Some qflags \<Rightarrow> Ret (DNS_FLAG_RD qflags \<noteq> dc_capture_rd ctx))
      else Ret False)"

definition do_filter_rd :: "dnsqr_ctx \<Rightarrow> u16 \<Rightarrow> bool" where
  "do_filter_rd ctx flags \<longleftrightarrow> capture_rd_set ctx \<and> DNS_FLAG_RD flags \<noteq> dc_capture_rd ctx"

text \<open>
  Whether the name or one of its suffixes is in the table. \<^verbatim>\<open>wdns_left_chop\<close> shortens a name; the fuel, the length
  of the name, is enough when it does.
\<close>

fun suffix_lookup :: "nat \<Rightarrow> host \<Rightarrow> wdns \<Rightarrow> byte list option list \<Rightarrow> u32 \<Rightarrow> byte list \<Rightarrow> bool run" where
  "suffix_lookup 0 h w table num_slots name = Fault"
| "suffix_lookup (Suc fuel) h w table num_slots name =
     run_bind (dnsqr_filter_lookup h table num_slots name) (\<lambda>hit.
       if hit then Ret True
       else if length name = 1 then Ret False
       else (case wdns_left_chop w name of
           None \<Rightarrow> Ret False
         | Some name' \<Rightarrow> suffix_lookup fuel h w table num_slots name'))"

definition name_in_table :: "host \<Rightarrow> wdns \<Rightarrow> name_table \<Rightarrow> byte list \<Rightarrow> bool run" where
  "name_in_table h w tbl qname =
     (case tbl of
        None \<Rightarrow> Ret False
      | Some (table, num_slots) \<Rightarrow>
          let name = wdns_downcase_name w qname in suffix_lookup (length name + 1) h w table num_slots name)"

definition do_filter_query_name :: "dnsqr_env \<Rightarrow> dnsqr_ctx \<Rightarrow> dnsqr \<Rightarrow> bool run" where
  "do_filter_query_name env ctx q =
     (case dq_qname q of
        None \<Rightarrow> Ret False
      | Some qname \<Rightarrow>
          run_bind (name_in_table (ev_host env) (ev_wdns env) (dc_include ctx) qname) (\<lambda>hit.
            if hit then Ret False
            else name_in_table (ev_host env) (ev_wdns env) (dc_exclude ctx) qname))"

definition do_filter :: "dnsqr_env \<Rightarrow> dnsqr_ctx \<Rightarrow> dnsqr \<Rightarrow> bool run" where
  "do_filter env ctx q =
     run_bind (do_filter_query_rd ctx q) (\<lambda>rd. if rd then Ret True else do_filter_query_name env ctx q)"

section \<open>Messages\<close>

definition first_time :: "int list \<Rightarrow> int list \<Rightarrow> tspec option" where
  "first_time sec nsec = (if sec = [] then None else Some \<lparr>tv_sec = hd sec, tv_nsec = hd nsec\<rparr>)"

definition dnsqr_to_message :: "dnsqr_env \<Rightarrow> dnsqr_ctx \<Rightarrow> dnsqr \<Rightarrow> dns_message run" where
  "dnsqr_to_message env ctx q =
     run_bind (if dq_response_packet q \<noteq> [] then
         run_bind (dnsqr_checksum_verify (h_little (ev_host env)) q) (\<lambda>c. Ret (q\<lparr>dq_udp_checksum := Some c\<rparr>))
       else Ret q) (\<lambda>q.
     run_bind (if dc_zero_resolver_address ctx then dnsqr_zero_resolver_address q else Ret q) (\<lambda>q.
       Ret \<lparr>dm_dnsqr = q, dm_time =
         (if dq_query_time_sec q \<noteq> [] then first_time (dq_query_time_sec q) (dq_query_time_nsec q)
          else first_time (dq_response_time_sec q) (dq_response_time_nsec q))\<rparr>))"

section \<open>do_packet\<close>

text \<open>The outcome of a step: the result code, the message that is given out, and the new state.\<close>

type_synonym dns_outcome = "nmsg_res \<times> dns_message option \<times> dnsqr_ctx"

text \<open>
  The packets of a datagram: itself, or its fragments when it was reassembled from \<open>entry\<close>.
\<close>

definition append_packets ::
  "(dnsqr \<Rightarrow> byte list \<Rightarrow> tspec \<Rightarrow> dnsqr) \<Rightarrow> dnsqr \<Rightarrow> nmsg_ipdg \<Rightarrow> tspec \<Rightarrow> base_entry option \<Rightarrow> dnsqr run" where
  "append_packets func q dg ts entry =
     (case entry of
        Some e \<Rightarrow> dnsqr_append_frag func q e
      | None \<Rightarrow> run_bind (network_octets dg) (\<lambda>pkt. Ret (func q pkt ts)))"

text \<open>Without pairing: queries or responses only. A query is not taken apart in its fragments here.\<close>

definition do_capture_qr ::
  "dnsqr_env \<Rightarrow> dnsqr_ctx \<Rightarrow> dnsqr \<Rightarrow> nmsg_ipdg \<Rightarrow> u16 \<Rightarrow> tspec \<Rightarrow> base_entry option \<Rightarrow> dns_outcome run" where
  "do_capture_qr env ctx q dg flags ts entry =
     (if dc_capture_qr ctx = 0 \<and> \<not> DNS_FLAG_QR flags then
        run_bind (append_packets dnsqr_append_query_packet (q\<lparr>dq_type := UDP_QUERY_ONLY\<rparr>) dg ts None) (\<lambda>q.
        run_bind (dnsqr_to_message env ctx q) (\<lambda>m. Ret (nmsg_res_success, Some m, ctx)))
      else if dc_capture_qr ctx = 1 \<and> DNS_FLAG_QR flags then
        run_bind (append_packets dnsqr_append_response_packet
            (q\<lparr>dq_type := UDP_RESPONSE_ONLY, dq_rcode := Some (ucast (DNS_FLAG_RCODE flags))\<rparr>) dg ts entry) (\<lambda>q.
        run_bind (dnsqr_to_message env ctx q) (\<lambda>m. Ret (nmsg_res_success, Some m, ctx)))
      else Ret (nmsg_res_again, None, ctx))"

definition do_query ::
  "dnsqr_env \<Rightarrow> dnsqr_ctx \<Rightarrow> dnsqr \<Rightarrow> nmsg_ipdg \<Rightarrow> tspec \<Rightarrow> base_entry option \<Rightarrow> dns_outcome run" where
  "do_query env ctx q dg ts entry =
     run_bind (append_packets dnsqr_append_query_packet (q\<lparr>dq_type := UDP_UNANSWERED_QUERY\<rparr>) dg ts entry) (\<lambda>q.
     run_bind (dnsqr_insert_query (ev_host env) (dc_table ctx) q) (\<lambda>t.
       Ret (nmsg_res_again, None, ctx\<lparr>dc_table := t\<rparr>)))"

definition do_response ::
  "dnsqr_env \<Rightarrow> dnsqr_ctx \<Rightarrow> dnsqr \<Rightarrow> nmsg_ipdg \<Rightarrow> u16 \<Rightarrow> tspec \<Rightarrow> base_entry option \<Rightarrow> dns_outcome run" where
  "do_response env ctx q dg flags ts entry =
     run_bind (append_packets dnsqr_append_response_packet
         (q\<lparr>dq_rcode := Some (ucast (DNS_FLAG_RCODE flags))\<rparr>) dg ts entry) (\<lambda>q.
     run_bind (dnsqr_retrieve (ev_host env) (dc_table ctx) q (DNS_FLAG_RCODE flags)) (\<lambda>(query, t).
       let ctx = ctx\<lparr>dc_table := t\<rparr> in
       case query of
         None \<Rightarrow>
           if do_filter_rd ctx flags then Ret (nmsg_res_again, None, ctx)
           else run_bind (dnsqr_to_message env ctx (q\<lparr>dq_type := UDP_UNSOLICITED_RESPONSE\<rparr>)) (\<lambda>m.
             Ret (nmsg_res_success, Some m, ctx))
       | Some query \<Rightarrow>
           run_bind (dnsqr_merge query (q\<lparr>dq_type := UDP_QUERY_RESPONSE\<rparr>)) (\<lambda>q.
           run_bind (do_filter env ctx q) (\<lambda>drop.
             if drop then Ret (nmsg_res_again, None, ctx)
             else run_bind (dnsqr_to_message env ctx q) (\<lambda>m. Ret (nmsg_res_success, Some m, ctx))))))"

text \<open>
  The part of \<^verbatim>\<open>do_packet\<close> on a datagram that is complete: first its parts. The flags, which the code does not set
  for TCP and ICMP, are not read there.
\<close>

definition datagram_parts :: "dnsqr_env \<Rightarrow> nmsg_ipdg \<Rightarrow> (nmsg_res \<times> dnsqr \<times> u16) run" where
  "datagram_parts env dg =
     (let q = dnsqr_empty\<lparr>dq_proto := ucast (dg_proto_transport dg)\<rparr> in
      case dg_proto_network dg of
        PF_INET \<Rightarrow> do_packet_v4 (ev_wdns env) q dg 0
      | PF_INET6 \<Rightarrow>
          if \<not> refilter (ev_bpf env) dg then Ret (nmsg_res_again, q, 0) else do_packet_v6 (ev_wdns env) q dg 0
      | PF_UNSPEC \<Rightarrow> Ret (nmsg_res_again, q, 0))"

definition do_datagram ::
  "dnsqr_env \<Rightarrow> dnsqr_ctx \<Rightarrow> nmsg_ipdg \<Rightarrow> tspec \<Rightarrow> base_entry option \<Rightarrow> dns_outcome run" where
  "do_datagram env ctx dg ts entry =
     (if dg_transport dg = None then Ret (nmsg_res_again, None, ctx)
      else
        run_bind (datagram_parts env dg) (\<lambda>(res, q, flags).
        if res \<noteq> nmsg_res_success then Ret (res, None, ctx)
        else if dg_proto_transport dg = IPPROTO_UDP \<and> dc_capture_qr ctx \<noteq> - 1 then
          do_capture_qr env ctx q dg flags ts entry
        else if dg_proto_transport dg = IPPROTO_UDP \<and> \<not> DNS_FLAG_QR flags then do_query env ctx q dg ts entry
        else if dg_proto_transport dg = IPPROTO_UDP then do_response env ctx q dg flags ts entry
        else if dg_proto_transport dg = IPPROTO_TCP \<or> dg_proto_transport dg = IPPROTO_ICMP then
          run_bind (dnsqr_to_message env ctx q) (\<lambda>m. Ret (nmsg_res_success, Some (m\<lparr>dm_time := Some ts\<rparr>), ctx))
        else Ret (nmsg_res_success, None, ctx)))"

definition do_packet ::
  "dnsqr_env \<Rightarrow> dnsqr_ctx \<Rightarrow> byte list \<Rightarrow> u32 \<Rightarrow> u32 \<Rightarrow> tspec \<Rightarrow> dns_outcome run" where
  "do_packet env ctx pkt caplen len ts =
     (if caplen \<noteq> len then Ret (nmsg_res_again, None, ctx)
      else run_bind (nmsg_ipdg_parse_pcap_raw dg_unset (ev_datalink env) pkt (ucast caplen)) (\<lambda>(res, dg).
        if res \<noteq> nmsg_res_success then Ret (res, None, ctx)
        else
          run_bind (ptr_octets (dg_network dg)) (\<lambda>network.
          run_bind (base_reasm_ip_next (ev_alloc env) (dc_reasm ctx) network (dg_len_network dg) ts)
            (\<lambda>(is_frag, entry, reasm).
              let ctx = ctx\<lparr>dc_now := ts, dc_reasm := reasm\<rparr> in
              if \<not> is_frag then do_datagram env ctx dg ts None
              else (case entry of
                  None \<Rightarrow> Ret (nmsg_res_again, None, ctx)
                | Some e \<Rightarrow>
                    run_bind (reasm_assemble e (ev_buffer env) 65536) (\<lambda>(new_pkt, new_pkt_len).
                    run_bind (nmsg_ipdg_parse_pcap_raw dg_unset DLT_RAW new_pkt new_pkt_len) (\<lambda>(res, dg).
                      if res \<noteq> nmsg_res_success then Ret (res, None, ctx)
                      else if \<not> refilter (ev_bpf env) dg then Ret (nmsg_res_again, None, ctx)
                      else do_datagram env ctx dg ts (Some e))))))))"

section \<open>dnsqr_pkt_to_payload\<close>

text \<open>What \<^verbatim>\<open>nmsg_pcap_input_read_raw\<close> returns: a packet with its captured length, its length and its time, or a code.\<close>

datatype pcap_read = Pcap_packet "byte list" u32 u32 tspec | Pcap_res nmsg_res

definition dnsqr_pkt_to_payload :: "dnsqr_env \<Rightarrow> dnsqr_ctx \<Rightarrow> pcap_read \<Rightarrow> dns_outcome run" where
  "dnsqr_pkt_to_payload env ctx input =
     run_bind (dnsqr_trim (ev_host env) (dc_table ctx) (dc_max_values ctx) (dc_query_timeout ctx) (dc_stop ctx) (dc_now ctx))
       (\<lambda>(trimmed, t).
     let ctx = ctx\<lparr>dc_table := t\<rparr>;
         next_packet = (case input of
             Pcap_packet pkt caplen len ts \<Rightarrow> do_packet env ctx pkt caplen len ts
           | Pcap_res res \<Rightarrow>
               if res = nmsg_res_eof then Ret (nmsg_res_again, None, ctx\<lparr>dc_stop := True\<rparr>) else Ret (res, None, ctx))
     in case trimmed of
          Some q \<Rightarrow> run_bind (do_filter env ctx q) (\<lambda>drop.
            if drop then next_packet
            else run_bind (dnsqr_to_message env ctx q) (\<lambda>m. Ret (nmsg_res_success, Some m, ctx)))
        | None \<Rightarrow> if dc_stop ctx then Ret (nmsg_res_eof, None, ctx) else next_packet)"

text \<open>
  \<^verbatim>\<open>dnsqr_init\<close>. The numeric variables are what \<^verbatim>\<open>getenv_int\<close> finds in the environment; they are of 64 bits, and
  the table's size is kept in 32.
\<close>

record dnsqr_settings =
  se_capture_qr :: "int option"
  se_capture_rd :: "int option"
  se_zero :: "int option"
  se_table_max :: "int option"
  se_query_timeout :: "int option"
  se_include :: "byte list option"
  se_exclude :: "byte list option"

definition flag_setting :: "int option \<Rightarrow> int" where
  "flag_setting v = (case v of Some x \<Rightarrow> if x = 0 \<or> x = 1 then x else - 1 | None \<Rightarrow> - 1)"

definition DEFAULT_NUM_SLOTS :: u32 where "DEFAULT_NUM_SLOTS = 262144"
definition DEFAULT_MAX_VALUES :: u32 where "DEFAULT_MAX_VALUES = 131072"
definition DEFAULT_QUERY_TIMEOUT :: u32 where "DEFAULT_QUERY_TIMEOUT = 60"

definition table_sizes :: "int option \<Rightarrow> u32 \<times> u32" where
  "table_sizes v = (case v of
     Some x \<Rightarrow> if x > 0 then (of_int x, of_int x * 2) else (DEFAULT_MAX_VALUES, DEFAULT_NUM_SLOTS)
   | None \<Rightarrow> (DEFAULT_MAX_VALUES, DEFAULT_NUM_SLOTS))"

definition new_table :: "u32 \<Rightarrow> dnsqr_table" where
  "new_table num_slots = \<lparr>dt_table = replicate (unat num_slots) hash_entry_empty, dt_list = [], dt_elems = (\<lambda>_. None),
     dt_fresh = 0, dt_num_slots = num_slots, dt_count = 0\<rparr>"

definition dnsqr_init :: "dnsqr_env \<Rightarrow> dnsqr_settings \<Rightarrow> dnsqr_ctx run" where
  "dnsqr_init env se =
     run_bind (dnsqr_filter_init (ev_host env) (ev_wdns env) (se_include se)) (\<lambda>inc.
     run_bind (dnsqr_filter_init (ev_host env) (ev_wdns env) (se_exclude se)) (\<lambda>exc.
       let (max_values, num_slots) = table_sizes (se_table_max se) in
       Ret \<lparr>dc_table = new_table num_slots, dc_reasm = base_reasm_ip_new, dc_stop = False,
         dc_capture_qr = flag_setting (se_capture_qr se), dc_capture_rd = flag_setting (se_capture_rd se),
         dc_zero_resolver_address = (case se_zero se of Some z \<Rightarrow> z \<noteq> 0 | None \<Rightarrow> False),
         dc_max_values = max_values,
         dc_query_timeout = (case se_query_timeout se of Some x \<Rightarrow> if x > 0 then of_int x else DEFAULT_QUERY_TIMEOUT
           | None \<Rightarrow> DEFAULT_QUERY_TIMEOUT),
         dc_now = \<lparr>tv_sec = 0, tv_nsec = 0\<rparr>, dc_exclude = exc, dc_include = inc\<rparr>))"

end
