(* ===== verification/Dnsqr_Queue.thy ===== *)
theory Dnsqr_Queue
  imports Dnsqr_Step
begin

text \<open>
  The DNS module refines one that keeps the waiting queries in a list: the same results, messages and faults for
  every packet. At the end of the input it gives out all queries that still wait.
\<close>

section \<open>The module with a list of queries\<close>

text \<open>The state is the list and the rest of the context, whose table is not used.\<close>

type_synonym queue_ctx = "dnsqr list \<times> dnsqr_ctx"

definition queue_of :: "dnsqr_ctx \<Rightarrow> queue_ctx" where
  "queue_of ctx = (queued (dc_table ctx), ctx\<lparr>dc_table := new_table 0\<rparr>)"

type_synonym queue_outcome = "nmsg_res \<times> dns_message option \<times> queue_ctx"

definition spec_query ::
  "queue_ctx \<Rightarrow> dnsqr \<Rightarrow> nmsg_ipdg \<Rightarrow> tspec \<Rightarrow> base_entry option \<Rightarrow> queue_outcome run" where
  "spec_query = (\<lambda>(qs, ctx) q dg ts entry.
     run_bind (append_packets dnsqr_append_query_packet (q\<lparr>dq_type := UDP_UNANSWERED_QUERY\<rparr>) dg ts entry) (\<lambda>q.
       Ret (nmsg_res_again, None, (qs @ [q], ctx))))"

definition spec_response ::
  "dnsqr_env \<Rightarrow> queue_ctx \<Rightarrow> dnsqr \<Rightarrow> nmsg_ipdg \<Rightarrow> u16 \<Rightarrow> tspec \<Rightarrow> base_entry option \<Rightarrow> queue_outcome run" where
  "spec_response env = (\<lambda>(qs, ctx) r dg flags ts entry.
     run_bind (append_packets dnsqr_append_response_packet
         (r\<lparr>dq_rcode := Some (ucast (DNS_FLAG_RCODE flags))\<rparr>) dg ts entry) (\<lambda>r.
       case take_first (\<lambda>q. dnsqr_eq r q (DNS_FLAG_RCODE flags)) qs of
         (None, qs) \<Rightarrow>
           if do_filter_rd ctx flags then Ret (nmsg_res_again, None, (qs, ctx))
           else run_bind (dnsqr_to_message env ctx (r\<lparr>dq_type := UDP_UNSOLICITED_RESPONSE\<rparr>)) (\<lambda>m.
             Ret (nmsg_res_success, Some m, (qs, ctx)))
       | (Some query, qs) \<Rightarrow>
           run_bind (dnsqr_merge query (r\<lparr>dq_type := UDP_QUERY_RESPONSE\<rparr>)) (\<lambda>q.
           run_bind (do_filter env ctx q) (\<lambda>drop.
             if drop then Ret (nmsg_res_again, None, (qs, ctx))
             else run_bind (dnsqr_to_message env ctx q) (\<lambda>m. Ret (nmsg_res_success, Some m, (qs, ctx)))))))"

definition spec_datagram ::
  "dnsqr_env \<Rightarrow> queue_ctx \<Rightarrow> nmsg_ipdg \<Rightarrow> tspec \<Rightarrow> base_entry option \<Rightarrow> queue_outcome run" where
  "spec_datagram env = (\<lambda>(qs, ctx) dg ts entry.
     if dg_transport dg = None then Ret (nmsg_res_again, None, (qs, ctx))
     else
       run_bind (datagram_parts env dg) (\<lambda>(res, q, flags).
       if res \<noteq> nmsg_res_success then Ret (res, None, (qs, ctx))
       else if dg_proto_transport dg = IPPROTO_UDP \<and> dc_capture_qr ctx \<noteq> - 1 then
         run_bind (do_capture_qr env ctx q dg flags ts entry) (\<lambda>(res, m, ctx). Ret (res, m, (qs, ctx)))
       else if dg_proto_transport dg = IPPROTO_UDP \<and> \<not> DNS_FLAG_QR flags then spec_query (qs, ctx) q dg ts entry
       else if dg_proto_transport dg = IPPROTO_UDP then spec_response env (qs, ctx) q dg flags ts entry
       else if dg_proto_transport dg = IPPROTO_TCP \<or> dg_proto_transport dg = IPPROTO_ICMP then
         run_bind (dnsqr_to_message env ctx q) (\<lambda>m. Ret (nmsg_res_success, Some (m\<lparr>dm_time := Some ts\<rparr>), (qs, ctx)))
       else Ret (nmsg_res_success, None, (qs, ctx))))"

definition spec_packet ::
  "dnsqr_env \<Rightarrow> queue_ctx \<Rightarrow> byte list \<Rightarrow> u32 \<Rightarrow> u32 \<Rightarrow> tspec \<Rightarrow> queue_outcome run" where
  "spec_packet env = (\<lambda>(qs, ctx) pkt caplen len ts.
     if caplen \<noteq> len then Ret (nmsg_res_again, None, (qs, ctx))
     else run_bind (nmsg_ipdg_parse_pcap_raw dg_unset (ev_datalink env) pkt (ucast caplen)) (\<lambda>(res, dg).
       if res \<noteq> nmsg_res_success then Ret (res, None, (qs, ctx))
       else
         run_bind (ptr_octets (dg_network dg)) (\<lambda>network.
         run_bind (base_reasm_ip_next (ev_alloc env) (dc_reasm ctx) network (dg_len_network dg) ts)
           (\<lambda>(is_frag, entry, reasm).
             let ctx = ctx\<lparr>dc_now := ts, dc_reasm := reasm\<rparr> in
             if \<not> is_frag then spec_datagram env (qs, ctx) dg ts None
             else (case entry of
                 None \<Rightarrow> Ret (nmsg_res_again, None, (qs, ctx))
               | Some e \<Rightarrow>
                   run_bind (reasm_assemble e (ev_buffer env) 65536) (\<lambda>(new_pkt, new_pkt_len).
                   run_bind (nmsg_ipdg_parse_pcap_raw dg_unset DLT_RAW new_pkt new_pkt_len) (\<lambda>(res, dg).
                     if res \<noteq> nmsg_res_success then Ret (res, None, (qs, ctx))
                     else if \<not> refilter (ev_bpf env) dg then Ret (nmsg_res_again, None, (qs, ctx))
                     else spec_datagram env (qs, ctx) dg ts (Some e))))))))"

definition spec_trim :: "queue_ctx \<Rightarrow> dnsqr option \<times> dnsqr list" where
  "spec_trim = (\<lambda>(qs, ctx).
     case qs of
       [] \<Rightarrow> (None, [])
     | q # qs' \<Rightarrow>
         if trim_due (dc_max_values ctx) (dc_query_timeout ctx) (dc_stop ctx) (dc_now ctx) (of_nat (length qs)) q
         then (Some (q\<lparr>dq_timeout := Some (dnsqr_waited (dc_now ctx) q)\<rparr>), qs') else (None, qs))"

definition spec_pkt_to_payload :: "dnsqr_env \<Rightarrow> queue_ctx \<Rightarrow> pcap_read \<Rightarrow> queue_outcome run" where
  "spec_pkt_to_payload env = (\<lambda>(qs, ctx) input.
     let (trimmed, qs) = spec_trim (qs, ctx);
         next_packet = (case input of
             Pcap_packet pkt caplen len ts \<Rightarrow> spec_packet env (qs, ctx) pkt caplen len ts
           | Pcap_res res \<Rightarrow>
               if res = nmsg_res_eof then Ret (nmsg_res_again, None, (qs, ctx\<lparr>dc_stop := True\<rparr>))
               else Ret (res, None, (qs, ctx)))
     in case trimmed of
          Some q \<Rightarrow> run_bind (do_filter env ctx q) (\<lambda>drop.
            if drop then next_packet
            else run_bind (dnsqr_to_message env ctx q) (\<lambda>m. Ret (nmsg_res_success, Some m, (qs, ctx))))
        | None \<Rightarrow> if dc_stop ctx then Ret (nmsg_res_eof, None, (qs, ctx)) else next_packet)"

section \<open>Invariant\<close>

text \<open>A query that waits has addresses and at least one time.\<close>

definition waiting_ok :: "dnsqr \<Rightarrow> bool" where
  "waiting_ok q \<longleftrightarrow> dq_query_time_sec q \<noteq> [] \<and> dq_query_time_nsec q \<noteq> []"

definition ctx_ok :: "dnsqr_env \<Rightarrow> dnsqr_ctx \<Rightarrow> bool" where
  "ctx_ok env ctx \<longleftrightarrow> table_inv (ev_host env) (dc_table ctx) \<and>
     (\<forall>q \<in> set (queued (dc_table ctx)). waiting_ok q) \<and>
     length (queued (dc_table ctx)) \<le> unat (dc_max_values ctx) + 1 \<and>
     unat (dc_max_values ctx) + 1 < unat (dt_num_slots (dc_table ctx))"

lemma length_queued: "length (queued t) = length (dt_list t)"
  by (simp add: queued_def)

text \<open>Nothing but the table is looked at by the parts that are the same.\<close>

lemma ctx_irrelevant [simp]:
  "do_filter_query_rd (ctx\<lparr>dc_table := t\<rparr>) q = do_filter_query_rd ctx q"
  "do_filter_rd (ctx\<lparr>dc_table := t\<rparr>) flags = do_filter_rd ctx flags"
  "do_filter env (ctx\<lparr>dc_table := t\<rparr>) q = do_filter env ctx q"
  "dnsqr_to_message env (ctx\<lparr>dc_table := t\<rparr>) q = dnsqr_to_message env ctx q"
proof -
  show rd: "do_filter_query_rd (ctx\<lparr>dc_table := t\<rparr>) q = do_filter_query_rd ctx q"
    by (simp add: do_filter_query_rd_def capture_rd_set_def)
  have "do_filter_query_name env (ctx\<lparr>dc_table := t\<rparr>) q = do_filter_query_name env ctx q"
    by (cases "dq_qname q") (simp_all add: do_filter_query_name_def cong: if_cong)
  then show "do_filter env (ctx\<lparr>dc_table := t\<rparr>) q = do_filter env ctx q" by (simp add: do_filter_def rd cong: if_cong)
qed (simp_all add: do_filter_rd_def capture_rd_set_def dnsqr_to_message_def)

definition run_map_outcome :: "dns_outcome run \<Rightarrow> queue_outcome run" where
  "run_map_outcome r = run_bind r (\<lambda>(res, m, ctx). Ret (res, m, queue_of ctx))"

lemma run_map_outcome_simps [simp]:
  "run_map_outcome (Ret (res, m, ctx)) = Ret (res, m, queue_of ctx)"
  "run_map_outcome Abort = Abort" "run_map_outcome Fault = Fault"
  by (simp_all add: run_map_outcome_def)

lemma run_map_outcome_bind:
  "run_map_outcome (run_bind r f) = run_bind r (\<lambda>x. run_map_outcome (f x))"
  by (simp add: run_map_outcome_def run_bind_assoc)

lemma append_frags_keeps:
  assumes "\<And>q pkt ts. hashable (func q pkt ts) \<longleftrightarrow> hashable q" and "append_frags func q fs = Ret q'"
  shows "hashable q' \<longleftrightarrow> hashable q"
  using assms(2)
proof (induction fs arbitrary: q)
  case (Cons f fs)
  then obtain pkt where "append_frags func (func q pkt (bf_ts f)) fs = Ret q'" by auto
  from Cons.IH [OF this] show ?case by (simp add: assms(1))
qed simp

lemma append_query_waiting: "waiting_ok (dnsqr_append_query_packet q pkt ts)"
  by (simp add: waiting_ok_def dnsqr_append_query_packet_def)

lemma append_query_times:
  "append_frags dnsqr_append_query_packet q fs = Ret q' \<Longrightarrow> fs \<noteq> [] \<or> waiting_ok q \<Longrightarrow> waiting_ok q'"
proof (induction fs arbitrary: q)
  case (Cons f fs)
  then obtain pkt where "append_frags dnsqr_append_query_packet (dnsqr_append_query_packet q pkt (bf_ts f)) fs = Ret q'"
    by auto
  from Cons.IH [OF this] show ?case by (simp add: append_query_waiting)
qed simp

lemma queue_of_table: "queue_of (ctx\<lparr>dc_table := t\<rparr>) = (queued t, ctx\<lparr>dc_table := new_table 0\<rparr>)"
  by (simp add: queue_of_def)

lemma take_first_sub: "take_first P xs = (m, ys) \<Longrightarrow> set ys \<subseteq> set xs \<and> length ys \<le> length xs"
proof (induction xs arbitrary: m ys)
  case (Cons x xs)
  then show ?case by (cases "take_first P xs") (fastforce split: if_splits)
qed simp

lemma spec_trim_subset: "spec_trim (qs, ctx) = (tr, qs') \<Longrightarrow> set qs' \<subseteq> set qs"
  by (auto simp: spec_trim_def split: list.splits if_splits)

lemma spec_trim_length: "spec_trim (qs, ctx) = (tr, qs') \<Longrightarrow> length qs' \<le> length qs"
  by (auto simp: spec_trim_def split: list.splits if_splits)

section \<open>Refinement of the steps\<close>

lemma append_query_ok:
  assumes "append_packets dnsqr_append_query_packet q dg ts entry = Ret q'" and "hashable q"
    and "\<And>e. entry = Some e \<Longrightarrow> be_frags e \<noteq> []"
  shows "hashable q' \<and> waiting_ok q'"
proof (cases entry)
  case None
  with assms show ?thesis
    by (auto simp: append_packets_def dnsqr_append_query_packet_def hashable_def waiting_ok_def)
next
  case (Some e)
  have "hashable (dnsqr_append_query_packet r p t) \<longleftrightarrow> hashable r" for r p t
    by (simp add: dnsqr_append_query_packet_def hashable_def)
  from append_frags_keeps [OF this] Some assms append_query_times show ?thesis
    by (auto simp: append_packets_def dnsqr_append_frag_def)
qed

lemma append_response_ok:
  assumes "append_packets dnsqr_append_response_packet q dg ts entry = Ret q'"
  shows "hashable q' \<longleftrightarrow> hashable q"
proof (cases entry)
  case None
  with assms show ?thesis by (auto simp: append_packets_def dnsqr_append_response_packet_def hashable_def)
next
  case (Some e)
  have "hashable (dnsqr_append_response_packet r p t) \<longleftrightarrow> hashable r" for r p t
    by (simp add: dnsqr_append_response_packet_def hashable_def)
  from append_frags_keeps [OF this] Some assms show ?thesis
    by (auto simp: append_packets_def dnsqr_append_frag_def)
qed

lemma do_query_refines:
  assumes ok: "ctx_ok env ctx" and q: "hashable q" and few: "length (queued (dc_table ctx)) \<le> unat (dc_max_values ctx)"
    and e: "\<And>e. entry = Some e \<Longrightarrow> be_frags e \<noteq> []"
  shows "run_map_outcome (do_query env ctx q dg ts entry) = spec_query (queue_of ctx) q dg ts entry"
    and "do_query env ctx q dg ts entry = Ret (res, m, ctx') \<Longrightarrow> ctx_ok env ctx'"
proof -
  let ?q = "q\<lparr>dq_type := UDP_UNANSWERED_QUERY\<rparr>"
  have hq: "hashable ?q" using q by (simp add: hashable_def)
  let ?app = "append_packets dnsqr_append_query_packet ?q dg ts entry"
  have ins: "\<exists>t'. dnsqr_insert_query (ev_host env) (dc_table ctx) q' = Ret t' \<and> table_inv (ev_host env) t' \<and>
      queued t' = queued (dc_table ctx) @ [q'] \<and> dt_num_slots t' = dt_num_slots (dc_table ctx) \<and> waiting_ok q'"
    if "?app = Ret q'" for q'
    using table_inv_insert [of "ev_host env" "dc_table ctx" q'] append_query_ok [OF that hq e] ok few
    by (auto simp: ctx_ok_def length_queued)
  have "run_map_outcome (do_query env ctx q dg ts entry) = spec_query (queue_of ctx) q dg ts entry \<and>
      (\<forall>res m ctx'. do_query env ctx q dg ts entry = Ret (res, m, ctx') \<longrightarrow> ctx_ok env ctx')"
  proof (cases ?app)
    case (Ret q')
    from ins [OF this] obtain t' where t': "dnsqr_insert_query (ev_host env) (dc_table ctx) q' = Ret t'"
      "table_inv (ev_host env) t'" "queued t' = queued (dc_table ctx) @ [q']"
      "dt_num_slots t' = dt_num_slots (dc_table ctx)" "waiting_ok q'" by blast
    have "do_query env ctx q dg ts entry = Ret (nmsg_res_again, None, ctx\<lparr>dc_table := t'\<rparr>)"
      by (simp add: do_query_def Ret t'(1))
    moreover have "ctx_ok env (ctx\<lparr>dc_table := t'\<rparr>)" using ok few t'(2-) by (auto simp: ctx_ok_def)
    ultimately show ?thesis by (simp add: spec_query_def Ret queue_of_def t'(3))
  qed (simp_all add: do_query_def spec_query_def queue_of_def)
  then show "run_map_outcome (do_query env ctx q dg ts entry) = spec_query (queue_of ctx) q dg ts entry"
    and "do_query env ctx q dg ts entry = Ret (res, m, ctx') \<Longrightarrow> ctx_ok env ctx'" by blast+
qed

lemma do_response_refines:
  assumes ok: "ctx_ok env ctx" and q: "hashable q"
  shows "run_map_outcome (do_response env ctx q dg flags ts entry) = spec_response env (queue_of ctx) q dg flags ts entry \<and>
    (\<forall>res m ctx'. do_response env ctx q dg flags ts entry = Ret (res, m, ctx') \<longrightarrow> ctx_ok env ctx')"
proof -
  let ?q = "q\<lparr>dq_rcode := Some (ucast (DNS_FLAG_RCODE flags))\<rparr>"
  have hq: "hashable ?q" using q by (simp add: hashable_def)
  let ?app = "append_packets dnsqr_append_response_packet ?q dg ts entry"
  show ?thesis
  proof (cases ?app)
    case (Ret r)
    have hr: "hashable r" using append_response_ok [OF Ret] hq by simp
    have "length (dt_list (dc_table ctx)) < unat (dt_num_slots (dc_table ctx))"
      using ok by (simp add: ctx_ok_def length_queued)
    from table_inv_retrieve [OF _ hr this, of "ev_host env" "DNS_FLAG_RCODE flags"] ok
    obtain query t where t: "dnsqr_retrieve (ev_host env) (dc_table ctx) r (DNS_FLAG_RCODE flags) = Ret (query, t)"
      "table_inv (ev_host env) t" "dt_num_slots t = dt_num_slots (dc_table ctx)"
      "take_first (\<lambda>q. dnsqr_eq r q (DNS_FLAG_RCODE flags)) (queued (dc_table ctx)) = (query, queued t)"
      by (auto simp: ctx_ok_def)
    have ok': "ctx_ok env (ctx\<lparr>dc_table := t\<rparr>)"
      using ok t(2,3) take_first_sub [OF t(4)] by (auto simp: ctx_ok_def)
    show ?thesis
      using Ret t(1,4) ok'
      by (auto simp: do_response_def spec_response_def queue_of_def run_map_outcome_bind Let_def
          if_distrib [where f = run_map_outcome] split: option.splits if_splits cong: run_bind_cong if_cong)
  qed (simp_all add: do_response_def spec_response_def queue_of_def)
qed

lemma set_addresses_hashable:
  "n = 4 \<or> n = 16 \<Longrightarrow> set_addresses n src dst q dg flags = Ret q' \<Longrightarrow> hashable q'"
  by (auto simp: set_addresses_def hashable_def opt_bytes_def dest!: length_mem_read split: if_splits)

lemma do_packet_ip_hashable:
  "n = 4 \<or> n = 16 \<Longrightarrow> do_packet_ip n src dst w q dg f = Ret (nmsg_res_success, q', flags) \<Longrightarrow>
     dg_proto_transport dg = IPPROTO_UDP \<Longrightarrow> hashable q'"
  by (auto simp: do_packet_ip_def set_addresses_hashable [of 4, simplified] set_addresses_hashable [of 16, simplified]
      split: if_splits prod.splits)

lemma do_capture_qr_refines:
  "run_map_outcome (do_capture_qr env ctx q dg flags ts entry) =
     run_bind (do_capture_qr env (ctx\<lparr>dc_table := new_table 0\<rparr>) q dg flags ts entry)
       (\<lambda>(res, m, ctx'). Ret (res, m, (queued (dc_table ctx), ctx')))"
  by (simp add: do_capture_qr_def run_map_outcome_def run_bind_assoc queue_of_def cong: run_bind_cong)

lemma do_capture_qr_ctx: "do_capture_qr env ctx q dg flags ts entry = Ret (res, m, ctx') \<Longrightarrow> ctx' = ctx"
  by (auto simp: do_capture_qr_def split: if_splits)

lemma do_datagram_refines:
  assumes ok: "ctx_ok env ctx" and few: "length (queued (dc_table ctx)) \<le> unat (dc_max_values ctx)"
    and e: "\<And>e. entry = Some e \<Longrightarrow> be_frags e \<noteq> []"
  shows "run_map_outcome (do_datagram env ctx dg ts entry) = spec_datagram env (queue_of ctx) dg ts entry \<and>
    (\<forall>res m ctx'. do_datagram env ctx dg ts entry = Ret (res, m, ctx') \<longrightarrow> ctx_ok env ctx')"
proof (cases "dg_transport dg = None")
  case True
  with ok show ?thesis by (simp add: do_datagram_def spec_datagram_def queue_of_def)
next
  case False
  show ?thesis
  proof (cases "datagram_parts env dg")
    case (Ret p)
    obtain res q flags where p: "p = (res, q, flags)" by (cases p)
    have h: "hashable q" if "res = nmsg_res_success" "dg_proto_transport dg = IPPROTO_UDP"
      using that Ret p
      by (auto simp: datagram_parts_def Let_def do_packet_v4_def do_packet_v6_def split: proto_family.splits if_splits intro: do_packet_ip_hashable)
    consider (no) "res \<noteq> nmsg_res_success"
      | (cap) "res = nmsg_res_success" "dg_proto_transport dg = IPPROTO_UDP" "dc_capture_qr ctx \<noteq> - 1"
      | (query) "res = nmsg_res_success" "dg_proto_transport dg = IPPROTO_UDP" "dc_capture_qr ctx = - 1" "\<not> DNS_FLAG_QR flags"
      | (response) "res = nmsg_res_success" "dg_proto_transport dg = IPPROTO_UDP" "dc_capture_qr ctx = - 1" "DNS_FLAG_QR flags"
      | (other) "res = nmsg_res_success" "dg_proto_transport dg \<noteq> IPPROTO_UDP" by blast
    then show ?thesis
    proof cases
      case no
      with False ok Ret p show ?thesis by (auto simp: do_datagram_def spec_datagram_def queue_of_def Let_def)
    next
      case cap
      have s: "do_datagram env ctx dg ts entry = do_capture_qr env ctx q dg flags ts entry"
        using False Ret p cap by (auto simp: do_datagram_def Let_def)
      have "spec_datagram env (queue_of ctx) dg ts entry = run_map_outcome (do_capture_qr env ctx q dg flags ts entry)"
        using False Ret p cap by (auto simp: spec_datagram_def queue_of_def Let_def do_capture_qr_refines)
      with s ok show ?thesis by (auto dest: do_capture_qr_ctx)
    next
      case query
      have "do_datagram env ctx dg ts entry = do_query env ctx q dg ts entry"
        "spec_datagram env (queue_of ctx) dg ts entry = spec_query (queue_of ctx) q dg ts entry"
        using False Ret p query by (auto simp: do_datagram_def spec_datagram_def queue_of_def Let_def)
      with do_query_refines [OF ok h [OF query(1,2)] few e] show ?thesis by auto
    next
      case response
      have "do_datagram env ctx dg ts entry = do_response env ctx q dg flags ts entry"
        "spec_datagram env (queue_of ctx) dg ts entry = spec_response env (queue_of ctx) q dg flags ts entry"
        using False Ret p response by (auto simp: do_datagram_def spec_datagram_def queue_of_def Let_def)
      with do_response_refines [OF ok h [OF response(1,2)]] show ?thesis by auto
    next
      case other
      then show ?thesis
        using False Ret p ok
        by (auto simp: do_datagram_def spec_datagram_def queue_of_def Let_def run_map_outcome_bind cong: run_bind_cong)
    qed
  qed (use False in \<open>auto simp: do_datagram_def spec_datagram_def queue_of_def\<close>)
qed

lemma ctx_ok_now [simp]: "ctx_ok env (ctx\<lparr>dc_now := ts, dc_reasm := r\<rparr>) \<longleftrightarrow> ctx_ok env ctx"
  "ctx_ok env (ctx\<lparr>dc_stop := True\<rparr>) \<longleftrightarrow> ctx_ok env ctx"
  by (simp_all add: ctx_ok_def)

lemma ctx_update_swap:
  "ctx\<lparr>dc_now := ts, dc_reasm := r, dc_table := t\<rparr> = ctx\<lparr>dc_table := t, dc_now := ts, dc_reasm := r\<rparr>"
  by (cases ctx) simp

lemma assembled_frags: "reasm_assemble e out n = Ret x \<Longrightarrow> be_frags e \<noteq> []"
  by (auto simp: reasm_assemble_def)

lemma do_packet_refines:
  assumes ok: "ctx_ok env ctx" and few: "length (queued (dc_table ctx)) \<le> unat (dc_max_values ctx)"
  shows "run_map_outcome (do_packet env ctx pkt caplen len ts) = spec_packet env (queue_of ctx) pkt caplen len ts \<and>
    (\<forall>res m ctx'. do_packet env ctx pkt caplen len ts = Ret (res, m, ctx') \<longrightarrow> ctx_ok env ctx')"
proof (cases "caplen = len")
  case True
  show ?thesis
  proof (cases "nmsg_ipdg_parse_pcap_raw dg_unset (ev_datalink env) pkt (ucast caplen)")
    case (Ret p)
    obtain res dg where p: "p = (res, dg)" by (cases p)
    note start = True Ret p
    show ?thesis
    proof (cases "res = nmsg_res_success")
      case True
      let ?next = "run_bind (ptr_octets (dg_network dg)) (\<lambda>network.
         base_reasm_ip_next (ev_alloc env) (dc_reasm ctx) network (dg_len_network dg) ts)"
      show ?thesis
      proof (cases ?next)
        case (Ret x)
        obtain is_frag entry reasm where x: "x = (is_frag, entry, reasm)" by (cases x)
        let ?ctx = "ctx\<lparr>dc_now := ts, dc_reasm := reasm\<rparr>"
        have ok': "ctx_ok env ?ctx" and few': "length (queued (dc_table ?ctx)) \<le> unat (dc_max_values ?ctx)"
          using ok few by simp_all
        have qo: "queue_of ?ctx = (queued (dc_table ctx), (snd (queue_of ctx))\<lparr>dc_now := ts, dc_reasm := reasm\<rparr>)"
          by (simp add: queue_of_def)
        note dg = do_datagram_refines [OF ok' few', unfolded qo]
        obtain net where net: "ptr_octets (dg_network dg) = Ret net"
          "base_reasm_ip_next (ev_alloc env) (dc_reasm ctx) net (dg_len_network dg) ts = Ret (is_frag, entry, reasm)"
          using Ret x by auto
        show ?thesis
        proof (cases "is_frag")
          case False
          with start \<open>res = _\<close> net dg [of None] show ?thesis
            by (auto simp: do_packet_def spec_packet_def queue_of_def)
        next
          case True
          show ?thesis
          proof (cases entry)
            case None
            with True start \<open>res = _\<close> net ok' show ?thesis
              by (auto simp: do_packet_def spec_packet_def queue_of_def)
          next
            case (Some e)
            note start = start \<open>res = _\<close> net True Some
            show ?thesis
            proof (cases "run_bind (reasm_assemble e (ev_buffer env) 65536) (\<lambda>(new_pkt, new_pkt_len).
                nmsg_ipdg_parse_pcap_raw dg_unset DLT_RAW new_pkt new_pkt_len)")
              case (Ret y)
              obtain res' dg' where y: "y = (res', dg')" by (cases y)
              obtain np nl where np: "reasm_assemble e (ev_buffer env) 65536 = Ret (np, nl)"
                "nmsg_ipdg_parse_pcap_raw dg_unset DLT_RAW np nl = Ret (res', dg')" using Ret y by auto
              have "be_frags e' \<noteq> []" if "Some e = Some e'" for e' using that assembled_frags [OF np(1)] by simp
              note D = dg [where entry = "Some e" and dg = dg' and ts = ts, OF this]
              have st: "run_map_outcome (do_packet env ctx pkt caplen len ts) = (if res' \<noteq> nmsg_res_success then Ret (res', None, queue_of ?ctx)
                  else if \<not> refilter (ev_bpf env) dg' then Ret (nmsg_res_again, None, queue_of ?ctx)
                  else run_map_outcome (do_datagram env ?ctx dg' ts (Some e)))"
                using start np by (auto simp: do_packet_def)
              have "spec_packet env (queue_of ctx) pkt caplen len ts = (if res' \<noteq> nmsg_res_success then Ret (res', None, queue_of ?ctx)
                  else if \<not> refilter (ev_bpf env) dg' then Ret (nmsg_res_again, None, queue_of ?ctx)
                  else spec_datagram env (queue_of ?ctx) dg' ts (Some e))"
                using start np by (auto simp: spec_packet_def queue_of_def ctx_update_swap)
              moreover have "ctx_ok env ctx'" if "do_packet env ctx pkt caplen len ts = Ret (r, m, ctx')" for r m ctx'
                using that start np ok' D by (auto simp: do_packet_def Let_def split: if_splits)
              ultimately show ?thesis unfolding st using D qo by auto
            next
              case Abort
              then show ?thesis
                using start by (cases "reasm_assemble e (ev_buffer env) 65536")
                  (auto simp: do_packet_def spec_packet_def queue_of_def)
            next
              case Fault
              then show ?thesis
                using start by (cases "reasm_assemble e (ev_buffer env) 65536")
                  (auto simp: do_packet_def spec_packet_def queue_of_def)
            qed
          qed
        qed
      next
        case Abort
        then show ?thesis
          using start True by (cases "ptr_octets (dg_network dg)") (auto simp: do_packet_def spec_packet_def queue_of_def)
      next
        case Fault
        then show ?thesis
          using start True by (cases "ptr_octets (dg_network dg)") (auto simp: do_packet_def spec_packet_def queue_of_def)
      qed
    next
      case False
      with start ok show ?thesis by (simp add: do_packet_def spec_packet_def queue_of_def)
    qed
  qed (use True in \<open>simp_all add: do_packet_def spec_packet_def queue_of_def\<close>)
next
  case False
  with ok show ?thesis by (simp add: do_packet_def spec_packet_def queue_of_def)
qed

lemma dnsqr_pkt_to_payload_refines:
  assumes ok: "ctx_ok env ctx"
  shows "run_map_outcome (dnsqr_pkt_to_payload env ctx input) = spec_pkt_to_payload env (queue_of ctx) input \<and>
    (\<forall>res m ctx'. dnsqr_pkt_to_payload env ctx input = Ret (res, m, ctx') \<longrightarrow> ctx_ok env ctx')"
proof -
  let ?qs = "queued (dc_table ctx)" and ?max = "dc_max_values ctx"
  have room: "length (dt_list (dc_table ctx)) < unat (dt_num_slots (dc_table ctx))"
    using ok by (simp add: ctx_ok_def length_queued)
  have times: "\<forall>q \<in> set ?qs. dq_query_time_sec q \<noteq> [] \<and> dq_query_time_nsec q \<noteq> []"
    using ok by (simp add: ctx_ok_def waiting_ok_def)
  from table_inv_trim [OF _ room times, of "ev_host env" ?max "dc_query_timeout ctx" "dc_stop ctx" "dc_now ctx"] ok
  obtain tr t where t: "dnsqr_trim (ev_host env) (dc_table ctx) ?max (dc_query_timeout ctx) (dc_stop ctx) (dc_now ctx) = Ret (tr, t)"
    "table_inv (ev_host env) t" "dt_num_slots t = dt_num_slots (dc_table ctx)" "spec_trim (queue_of ctx) = (tr, queued t)"
    by (auto simp: ctx_ok_def spec_trim_def queue_of_def split: list.splits)
  let ?ctx = "ctx\<lparr>dc_table := t\<rparr>"
  have qo: "queue_of ?ctx = (queued t, snd (queue_of ctx))" by (simp add: queue_of_def)
  have short: "length (queued t) \<le> unat ?max"
  proof (cases "length ?qs \<le> unat ?max")
    case True
    have "length (queued t) \<le> length ?qs"
      using t(4) spec_trim_length unfolding queue_of_def by blast
    with True show ?thesis by simp
  next
    case False
    then obtain q qs where Cons: "?qs = q # qs" by (cases ?qs) auto
    have len: "length ?qs \<le> unat ?max + 1" "unat ?max + 1 < 2 ^ 32"
      using ok unsigned_less [where 'a = nat, of "dt_num_slots (dc_table ctx)"] by (auto simp: ctx_ok_def)
    then have "(of_nat (length ?qs) :: u32) > ?max"
      using False by (simp add: word_less_nat_alt unat_of_nat_u32)
    then have "trim_due ?max (dc_query_timeout ctx) (dc_stop ctx) (dc_now ctx) (of_nat (length ?qs)) q"
      by (simp add: trim_due_def)
    then have "spec_trim (queue_of ctx) = (Some (q\<lparr>dq_timeout := Some (dnsqr_waited (dc_now ctx) q)\<rparr>), qs)"
      using Cons by (simp add: spec_trim_def queue_of_def)
    with t(4) have "queued t = qs" by simp
    with len(1) Cons show ?thesis by simp
  qed
  have sub: "set (queued t) \<subseteq> set ?qs" using t(4) spec_trim_subset unfolding queue_of_def by blast
  have ok': "ctx_ok env ?ctx" using ok t(2,3) short sub by (auto simp: ctx_ok_def)
  let ?next = "case input of Pcap_packet pkt caplen len ts \<Rightarrow> do_packet env ?ctx pkt caplen len ts
    | Pcap_res res \<Rightarrow> if res = nmsg_res_eof then Ret (nmsg_res_again, None, ?ctx\<lparr>dc_stop := True\<rparr>) else Ret (res, None, ?ctx)"
  let ?next' = "case input of Pcap_packet pkt caplen len ts \<Rightarrow> spec_packet env (queue_of ?ctx) pkt caplen len ts
    | Pcap_res res \<Rightarrow> if res = nmsg_res_eof then Ret (nmsg_res_again, None, (queued t, (snd (queue_of ctx))\<lparr>dc_stop := True\<rparr>))
        else Ret (res, None, queue_of ?ctx)"
  have next_ok: "run_map_outcome ?next = ?next' \<and> (\<forall>res m ctx'. ?next = Ret (res, m, ctx') \<longrightarrow> ctx_ok env ctx')"
  proof (cases input)
    case (Pcap_packet pkt caplen len ts)
    with do_packet_refines [OF ok'] short show ?thesis by auto
  next
    case (Pcap_res res)
    have "queue_of (?ctx\<lparr>dc_stop := True\<rparr>) = (queued t, (snd (queue_of ctx))\<lparr>dc_stop := True\<rparr>)"
      by (cases ctx) (simp add: queue_of_def)
    with Pcap_res ok' show ?thesis by auto
  qed
  have s: "snd (queue_of ctx) = ctx\<lparr>dc_table := new_table 0\<rparr>" by (simp add: queue_of_def)
  show ?thesis
  proof (cases tr)
    case None
    have 1: "dnsqr_pkt_to_payload env ctx input = (if dc_stop ctx then Ret (nmsg_res_eof, None, ?ctx) else ?next)"
      using t(1) None by (simp add: dnsqr_pkt_to_payload_def Let_def cong: if_cong)
    have 2: "spec_pkt_to_payload env (queue_of ctx) input =
        (if dc_stop ctx then Ret (nmsg_res_eof, None, queue_of ?ctx) else ?next')"
      using t(4) None by (cases input) (auto simp: spec_pkt_to_payload_def s Let_def queue_of_def cong: if_cong)
    show ?thesis unfolding 1 2 using next_ok ok' by auto
  next
    case (Some q)
    have 1: "dnsqr_pkt_to_payload env ctx input = run_bind (do_filter env ctx q) (\<lambda>drop. if drop then ?next
        else run_bind (dnsqr_to_message env ctx q) (\<lambda>m. Ret (nmsg_res_success, Some m, ?ctx)))"
      using t(1) Some by (simp add: dnsqr_pkt_to_payload_def Let_def cong: if_cong)
    have 2: "spec_pkt_to_payload env (queue_of ctx) input = run_bind (do_filter env ctx q) (\<lambda>drop. if drop then ?next'
        else run_bind (dnsqr_to_message env ctx q) (\<lambda>m. Ret (nmsg_res_success, Some m, queue_of ?ctx)))"
      using t(4) Some by (cases input) (auto simp: spec_pkt_to_payload_def s Let_def queue_of_def cong: if_cong)
    show ?thesis
      unfolding 1 2 run_map_outcome_bind
      using next_ok ok' by (auto simp: run_map_outcome_bind if_distrib [where f = run_map_outcome] cong: run_bind_cong if_cong
          split: if_splits)
  qed
qed

end
