(* ===== verification/Dnsqr_Store.thy ===== *)
theory Dnsqr_Store
  imports Dnsqr_Queue
begin

text \<open>
  The table of the DNS module as a store of waiting queries: an interface and its laws, and sequences of
  operations on the table against the same operations on a list.
\<close>

section \<open>A table as a store of waiting queries\<close>

text \<open>
  The contract of the table: while it has room it keeps its invariant, and its queries are a list in the order of
  their arrival.
\<close>

locale waiting_store =
  fixes inv :: "'s \<Rightarrow> bool" and content :: "'s \<Rightarrow> 'q list" and room :: "'s \<Rightarrow> nat"
    and good :: "'q \<Rightarrow> bool" and matches :: "'k \<Rightarrow> 'q \<Rightarrow> bool" and key_ok :: "'k \<Rightarrow> bool"
    and insert_q :: "'s \<Rightarrow> 'q \<Rightarrow> 's run" and retrieve :: "'s \<Rightarrow> 'k \<Rightarrow> ('q option \<times> 's) run"
    and trim :: "'s \<Rightarrow> 'c \<Rightarrow> ('q option \<times> 's) run" and due :: "'c \<Rightarrow> nat \<Rightarrow> 'q \<Rightarrow> bool" and late :: "'c \<Rightarrow> 'q \<Rightarrow> 'q"
  assumes insert_law: "inv s \<Longrightarrow> good q \<Longrightarrow> length (content s) < room s \<Longrightarrow>
      \<exists>s'. insert_q s q = Ret s' \<and> inv s' \<and> content s' = content s @ [q] \<and> room s' = room s"
    and retrieve_law: "inv s \<Longrightarrow> key_ok k \<Longrightarrow> length (content s) \<le> room s \<Longrightarrow>
      \<exists>m s'. retrieve s k = Ret (m, s') \<and> inv s' \<and> (m, content s') = take_first (matches k) (content s) \<and> room s' = room s"
    and trim_law: "inv s \<Longrightarrow> length (content s) \<le> room s \<Longrightarrow> \<forall>q \<in> set (content s). good q \<Longrightarrow>
      \<exists>m s'. trim s c = Ret (m, s') \<and> inv s' \<and> room s' = room s \<and>
        (m, content s') = (case content s of
            q # qs \<Rightarrow> if due c (length (content s)) q then (Some (late c q), qs) else (None, content s)
          | [] \<Rightarrow> (None, []))"

text \<open>Operations, what they do to a store, and to a list.\<close>

datatype ('q, 'k, 'c) store_op = Op_insert 'q | Op_retrieve 'k | Op_trim 'c

fun store_ops ::
  "('s \<Rightarrow> 'q \<Rightarrow> 's run) \<Rightarrow> ('s \<Rightarrow> 'k \<Rightarrow> ('q option \<times> 's) run) \<Rightarrow> ('s \<Rightarrow> 'c \<Rightarrow> ('q option \<times> 's) run) \<Rightarrow>
   's \<Rightarrow> ('q, 'k, 'c) store_op list \<Rightarrow> ('q option list \<times> 's) run" where
  "store_ops ins ret trm s [] = Ret ([], s)"
| "store_ops ins ret trm s (Op_insert q # ops) = run_bind (ins s q) (\<lambda>s'. store_ops ins ret trm s' ops)"
| "store_ops ins ret trm s (Op_retrieve k # ops) =
     run_bind (ret s k) (\<lambda>(m, s'). run_bind (store_ops ins ret trm s' ops) (\<lambda>(ms, t). Ret (m # ms, t)))"
| "store_ops ins ret trm s (Op_trim c # ops) =
     run_bind (trm s c) (\<lambda>(m, s'). run_bind (store_ops ins ret trm s' ops) (\<lambda>(ms, t). Ret (m # ms, t)))"

fun list_ops ::
  "('k \<Rightarrow> 'q \<Rightarrow> bool) \<Rightarrow> ('c \<Rightarrow> nat \<Rightarrow> 'q \<Rightarrow> bool) \<Rightarrow> ('c \<Rightarrow> 'q \<Rightarrow> 'q) \<Rightarrow> 'q list \<Rightarrow> ('q, 'k, 'c) store_op list \<Rightarrow>
   'q option list \<times> 'q list" where
  "list_ops matches due late qs [] = ([], qs)"
| "list_ops matches due late qs (Op_insert q # ops) = list_ops matches due late (qs @ [q]) ops"
| "list_ops matches due late qs (Op_retrieve k # ops) =
     (let (m, qs) = take_first (matches k) qs; (ms, qs) = list_ops matches due late qs ops in (m # ms, qs))"
| "list_ops matches due late qs (Op_trim c # ops) =
     (let (m, qs) = (case qs of
          q # qs' \<Rightarrow> if due c (length qs) q then (Some (late c q), qs') else (None, qs) | [] \<Rightarrow> (None, []));
          (ms, qs) = list_ops matches due late qs ops
      in (m # ms, qs))"

text \<open>Operations that never have more than \<open>n\<close> queries wait, with the queries and keys that the table takes.\<close>

fun ops_ok :: "('q \<Rightarrow> bool) \<Rightarrow> ('k \<Rightarrow> bool) \<Rightarrow> nat \<Rightarrow> nat \<Rightarrow> ('q, 'k, 'c) store_op list \<Rightarrow> bool" where
  "ops_ok good key_ok n k [] \<longleftrightarrow> True"
| "ops_ok good key_ok n k (Op_insert q # ops) \<longleftrightarrow> good q \<and> k < n \<and> ops_ok good key_ok n (k + 1) ops"
| "ops_ok good key_ok n k (Op_retrieve d # ops) \<longleftrightarrow> key_ok d \<and> ops_ok good key_ok n k ops"
| "ops_ok good key_ok n k (Op_trim c # ops) \<longleftrightarrow> ops_ok good key_ok n k ops"

lemma ops_ok_fewer: "ops_ok good key_ok n k ops \<Longrightarrow> j \<le> k \<Longrightarrow> ops_ok good key_ok n j ops"
  by (induction good key_ok n k ops arbitrary: j rule: ops_ok.induct) auto

lemma trimmed_sub:
  "(case xs of q # qs \<Rightarrow> if P q then (Some (f q), qs) else (None, xs) | [] \<Rightarrow> (None, [])) = (m, ys) \<Longrightarrow>
     set ys \<subseteq> set xs \<and> length ys \<le> length xs"
  by (auto split: list.splits if_splits)

context waiting_store
begin

lemma ops_are_list_ops:
  assumes "inv s" and "ops_ok good key_ok (room s) (length (content s)) ops" and "length (content s) \<le> room s"
    and "\<forall>q \<in> set (content s). good q"
  shows "\<exists>ms t. store_ops insert_q retrieve trim s ops = Ret (ms, t) \<and> inv t \<and>
    (ms, content t) = list_ops matches due late (content s) ops"
  using assms
proof (induction ops arbitrary: s)
  case (Cons op ops)
  show ?case
  proof (cases op)
    case (Op_insert q)
    with insert_law [of s q] Cons.prems obtain s' where s': "insert_q s q = Ret s'" "inv s'"
      "content s' = content s @ [q]" "room s' = room s" by auto
    with Cons.IH [of s'] Cons.prems Op_insert show ?thesis by auto
  next
    case (Op_retrieve k)
    with retrieve_law [of s k] Cons.prems obtain m s' where s': "retrieve s k = Ret (m, s')" "inv s'"
      "take_first (matches k) (content s) = (m, content s')" "room s' = room s" by auto
    note sub = take_first_sub [OF s'(3)]
    have "ops_ok good key_ok (room s') (length (content s')) ops"
      using Cons.prems(2) Op_retrieve sub s'(4) ops_ok_fewer by fastforce
    with Cons.IH [of s'] Cons.prems s' sub show ?thesis by (fastforce simp: Op_retrieve split: prod.splits)
  next
    case (Op_trim c)
    let ?trimmed = "case content s of
        q # qs \<Rightarrow> if due c (length (content s)) q then (Some (late c q), qs) else (None, content s) | [] \<Rightarrow> (None, [])"
    from trim_law [of s c] Cons.prems obtain m s' where s': "trim s c = Ret (m, s')" "inv s'" "room s' = room s"
      and t: "?trimmed = (m, content s')" by auto
    have sub: "set (content s') \<subseteq> set (content s) \<and> length (content s') \<le> length (content s)"
      by (rule trimmed_sub [OF t])
    have "ops_ok good key_ok (room s') (length (content s')) ops"
      using Cons.prems(2) Op_trim sub s'(3) ops_ok_fewer by fastforce
    with Cons.IH [of s'] Cons.prems s' sub obtain ms t' where
      "store_ops insert_q retrieve trim s' ops = Ret (ms, t')" "inv t'"
      "(ms, content t') = list_ops matches due late (content s') ops" by fastforce
    with s'(1) t show ?thesis by (auto simp: Op_trim split: prod.splits)
  qed
qed simp

end

text \<open>
  The table of the module is such a store. It has room while two slots are left: one stays empty, and the code
  does not lower its count below that.
\<close>

definition table_room :: "dnsqr_table \<Rightarrow> nat" where "table_room t = unat (dt_num_slots t) - 1"

type_synonym trim_args = "u32 \<times> u32 \<times> bool \<times> tspec"

definition dnsqr_retrieve_op :: "host \<Rightarrow> dnsqr_table \<Rightarrow> dnsqr \<times> u16 \<Rightarrow> (dnsqr option \<times> dnsqr_table) run" where
  "dnsqr_retrieve_op h t = (\<lambda>(d, rcode). dnsqr_retrieve h t d rcode)"

definition dnsqr_trim_op :: "host \<Rightarrow> dnsqr_table \<Rightarrow> trim_args \<Rightarrow> (dnsqr option \<times> dnsqr_table) run" where
  "dnsqr_trim_op h t = (\<lambda>(mv, qt, stop, now). dnsqr_trim h t mv qt stop now)"

definition trim_op_due :: "trim_args \<Rightarrow> nat \<Rightarrow> dnsqr \<Rightarrow> bool" where
  "trim_op_due = (\<lambda>(mv, qt, stop, now) n q. trim_due mv qt stop now (of_nat n) q)"

definition trim_op_late :: "trim_args \<Rightarrow> dnsqr \<Rightarrow> dnsqr" where
  "trim_op_late = (\<lambda>(mv, qt, stop, now) q. q\<lparr>dq_timeout := Some (dnsqr_waited now q)\<rparr>)"

definition storable :: "dnsqr \<Rightarrow> bool" where
  "storable q \<longleftrightarrow> hashable q \<and> dq_query_time_sec q \<noteq> [] \<and> dq_query_time_nsec q \<noteq> []"

lemma room_positive: "n < table_room t \<Longrightarrow> n < unat (dt_num_slots t)" by (simp add: table_room_def)

lemma room_leaves: "table_inv h t \<Longrightarrow> n \<le> table_room t \<Longrightarrow> n < unat (dt_num_slots t)"
  by (auto simp: table_room_def table_inv_def table_shape_def simp flip: unat_gt_0)

interpretation table: waiting_store "table_inv h" queued table_room storable
    "\<lambda>(d, rcode) q. dnsqr_eq d q rcode" "\<lambda>(d, rcode). hashable d"
    "dnsqr_insert_query h" "dnsqr_retrieve_op h" "dnsqr_trim_op h" trim_op_due trim_op_late
  for h
proof (unfold_locales, goal_cases)
  case (1 s q)
  with table_inv_insert [of h s q] room_positive show ?case
    by (auto simp: storable_def length_queued table_room_def)
next
  case (2 s k)
  with table_inv_retrieve [of h s "fst k" "snd k"] room_leaves show ?case
    by (fastforce simp: dnsqr_retrieve_op_def length_queued table_room_def split: prod.splits)
next
  case (3 s c)
  obtain mv qt stop now where c: "c = (mv, qt, stop, now)" by (cases c)
  have "length (dt_list s) < unat (dt_num_slots s)" using 3(1,2) room_leaves by (simp add: length_queued)
  from table_inv_trim [OF 3(1) this, of mv qt stop now] 3(3) obtain m t' where
    "dnsqr_trim h s mv qt stop now = Ret (m, t')" "table_inv h t'" "dt_num_slots t' = dt_num_slots s"
    "(m, queued t') = (case queued s of
         q # qs \<Rightarrow> if trim_due mv qt stop now (of_nat (length (queued s))) q
           then (Some (q\<lparr>dq_timeout := Some (dnsqr_waited now q)\<rparr>), qs) else (None, queued s)
       | [] \<Rightarrow> (None, []))" by (auto simp: storable_def)
  then show ?case
    by (intro exI [of _ m] exI [of _ t'], cases "queued s")
      (simp_all add: c dnsqr_trim_op_def trim_op_due_def trim_op_late_def table_room_def)
qed

text \<open>An empty table\<close>

lemma slot_entry_new [simp]: "slot_entry (replicate n hash_entry_empty) s = None"
  by (simp add: slot_entry_def hash_entry_empty_def)

lemma queued_new: "queued (new_table n) = []"
  by (simp add: queued_def new_table_def)

lemma table_room_new: "table_room (new_table n) = unat n - 1"
  by (simp add: table_room_def new_table_def)

lemma table_inv_new: "n \<noteq> 0 \<Longrightarrow> table_inv h (new_table n)"
  by (auto simp: table_inv_def table_shape_def new_table_def slot_ok_def hash_entry_empty_def probed_def ranked_def
      slot_entry_def)

text \<open>
  C8. The table of waiting queries is a queue: for every sequence of \<^verbatim>\<open>dnsqr_insert_query\<close>, \<^verbatim>\<open>dnsqr_retrieve\<close> and
  \<^verbatim>\<open>dnsqr_trim\<close> on a new table that leaves at least one of its slots empty, with queries whose key can be hashed, none
  fails, a lookup gives the oldest query that matches the response and takes it out, and trimming the oldest one of all:
  linear probing and the moves after a removal lose and reorder nothing. The empty slot is needed: on a full table an
  insertion and the lookup of what is not there run around the whole table and fail an assertion.
\<close>

theorem dnsqr_table_is_queue:
  assumes "num_slots \<noteq> 0"
    and "ops_ok storable (\<lambda>(d, rcode). hashable d) (unat num_slots - 1) 0 ops"
  shows "\<exists>ms t. store_ops (dnsqr_insert_query h) (dnsqr_retrieve_op h) (dnsqr_trim_op h) (new_table num_slots) ops = Ret (ms, t) \<and>
    (ms, queued t) = list_ops (\<lambda>(d, rcode) q. dnsqr_eq d q rcode) trim_op_due trim_op_late [] ops"
proof -
  from assms(2) have "ops_ok storable (\<lambda>(d, rcode). hashable d) (table_room (new_table num_slots))
      (length (queued (new_table num_slots))) ops" by (simp add: table_room_new queued_new)
  from table.ops_are_list_ops [OF table_inv_new [OF assms(1), of h] this] show ?thesis
    unfolding queued_new by simp blast
qed

definition w_host :: host where
  "w_host = \<lparr>h_little = True, h_key_addr = 0, h_key6_addr = 0, h_stack = (\<lambda>_. 0)\<rparr>"

definition w_sent :: "int \<Rightarrow> dnsqr" where
  "w_sent sec = dnsqr_empty\<lparr>dq_query_ip := Some [10, 0, 0, 1], dq_response_ip := Some [10, 0, 0, 2], dq_id := 7,
     dq_query_time_sec := [sec], dq_query_time_nsec := [0]\<rparr>"

text \<open>The same query at two times: its response, with code 2, gets the first one, and the second is trimmed at the end.\<close>

definition w_ops :: "(dnsqr, dnsqr \<times> u16, trim_args) store_op list" where
  "w_ops = [Op_insert (w_sent 1), Op_insert (w_sent 2), Op_retrieve (w_sent 3, 2), Op_retrieve (w_sent 3, 0),
     Op_trim (2, 60, True, \<lparr>tv_sec = 5, tv_nsec = 0\<rparr>)]"

lemma w_list_ops:
  "list_ops (\<lambda>(d, rcode) q. dnsqr_eq d q rcode) trim_op_due trim_op_late [] w_ops =
     ([Some (w_sent 1), None, Some ((w_sent 2)\<lparr>dq_timeout := Some \<lparr>tv_sec = 3, tv_nsec = 0\<rparr>\<rparr>)], [])"
  by (simp add: w_ops_def w_sent_def dnsqr_empty_def dnsqr_eq_def dnsqr_eq6_def trim_op_due_def trim_op_late_def
      trim_due_def dnsqr_waited_def)

theorem dnsqr_table_is_queue_witness:
  "\<exists>ms t. store_ops (dnsqr_insert_query w_host) (dnsqr_retrieve_op w_host) (dnsqr_trim_op w_host) (new_table 4) w_ops = Ret (ms, t) \<and>
     map (map_option dq_query_time_sec) ms = [Some [1], None, Some [2]] \<and> queued t = []"
proof -
  have "ops_ok storable (\<lambda>(d, rcode). hashable d) (unat (4 :: u32) - 1) 0 w_ops"
    by (simp add: w_ops_def w_sent_def storable_def hashable_def opt_bytes_def)
  from dnsqr_table_is_queue [OF _ this, of w_host] w_list_ops show ?thesis by (auto simp: w_sent_def)
qed

end
