(* ===== verification/Dnsqr_Run.thy ===== *)
theory Dnsqr_Run
  imports Dnsqr_Store
begin

text \<open>
  Sequences of calls of the DNS module: what a program that calls \<^verbatim>\<open>dnsqr_pkt_to_payload\<close> again and again gets,
  from \<^verbatim>\<open>dnsqr_init\<close> to the end of the input.
\<close>

section \<open>Sequences of calls\<close>

type_synonym answer = "nmsg_res \<times> dns_message option"

fun dnsqr_calls :: "dnsqr_env \<Rightarrow> dnsqr_ctx \<Rightarrow> pcap_read list \<Rightarrow> (answer list \<times> dnsqr_ctx) run" where
  "dnsqr_calls env ctx [] = Ret ([], ctx)"
| "dnsqr_calls env ctx (input # inputs) =
     run_bind (dnsqr_pkt_to_payload env ctx input) (\<lambda>(res, m, ctx).
     run_bind (dnsqr_calls env ctx inputs) (\<lambda>(answers, ctx). Ret ((res, m) # answers, ctx)))"

fun queue_run :: "dnsqr_env \<Rightarrow> queue_ctx \<Rightarrow> pcap_read list \<Rightarrow> (answer list \<times> queue_ctx) run" where
  "queue_run env qc [] = Ret ([], qc)"
| "queue_run env qc (input # inputs) =
     run_bind (spec_pkt_to_payload env qc input) (\<lambda>(res, m, qc).
     run_bind (queue_run env qc inputs) (\<lambda>(answers, qc). Ret ((res, m) # answers, qc)))"

lemma dnsqr_calls_refine:
  assumes "ctx_ok env ctx"
  shows "run_bind (dnsqr_calls env ctx inputs) (\<lambda>(answers, ctx). Ret (answers, queue_of ctx)) =
      queue_run env (queue_of ctx) inputs \<and>
    (\<forall>answers ctx'. dnsqr_calls env ctx inputs = Ret (answers, ctx') \<longrightarrow> ctx_ok env ctx')"
  using assms
proof (induction inputs arbitrary: ctx)
  case (Cons input inputs)
  note step = dnsqr_pkt_to_payload_refines [OF Cons.prems, of input]
  show ?case
  proof (cases "dnsqr_pkt_to_payload env ctx input")
    case (Ret x)
    obtain res m ctx' where x: "x = (res, m, ctx')" by (cases x)
    have s: "spec_pkt_to_payload env (queue_of ctx) input = Ret (res, m, queue_of ctx')" and ok: "ctx_ok env ctx'"
      using step Ret x by auto
    note IH = Cons.IH [OF ok]
    show ?thesis
    proof (cases "dnsqr_calls env ctx' inputs")
      case (Ret y)
      with IH \<open>dnsqr_pkt_to_payload env ctx input = Ret x\<close> x s show ?thesis
        by (cases y) (auto simp flip: IH [THEN conjunct1])
    qed (use IH Ret x s in \<open>auto simp flip: IH [THEN conjunct1]\<close>)
  qed (use step in \<open>auto simp flip: step [THEN conjunct1]\<close>)
qed simp

text \<open>A new context, with a table for at least two queries whose size does not wrap.\<close>

definition table_max_ok :: "dnsqr_settings \<Rightarrow> bool" where
  "table_max_ok se \<longleftrightarrow> (case se_table_max se of None \<Rightarrow> True | Some n \<Rightarrow> n \<noteq> 1 \<and> n < 2 ^ 31)"

lemma table_sizes_ok:
  assumes "table_max_ok se"
  shows "unat (fst (table_sizes (se_table_max se))) + 1 < unat (snd (table_sizes (se_table_max se)))"
proof (cases "se_table_max se")
  case (Some n)
  show ?thesis
  proof (cases "n > 0")
    case True
    then have n: "2 \<le> n" "n < 2 ^ 31" using assms Some by (auto simp: table_max_ok_def)
    have "uint (of_int n :: u32) = n" "uint (of_int n * 2 :: u32) = n * 2"
      using n by (simp_all add: uint_word_ariths unsigned_of_int take_bit_eq_mod)
    then have "unat (of_int n :: u32) = nat n" "unat (of_int n * 2 :: u32) = nat (n * 2)"
      by (simp_all flip: nat_uint_eq)
    with True Some n show ?thesis by (simp add: table_sizes_def)
  qed (use Some in \<open>simp add: table_sizes_def DEFAULT_MAX_VALUES_def DEFAULT_NUM_SLOTS_def\<close>)
qed (simp add: table_sizes_def DEFAULT_MAX_VALUES_def DEFAULT_NUM_SLOTS_def)

lemma dnsqr_init_ok:
  assumes "dnsqr_init env se = Ret ctx" and "table_max_ok se"
  shows "ctx_ok env ctx \<and> queue_of ctx = ([], ctx\<lparr>dc_table := new_table 0\<rparr>) \<and> queued (dc_table ctx) = []"
proof -
  obtain mv ns where sz: "table_sizes (se_table_max se) = (mv, ns)" by (cases "table_sizes (se_table_max se)")
  have t: "dc_table ctx = new_table ns" "dc_max_values ctx = mv" using assms(1) sz by (auto simp: dnsqr_init_def)
  have "unat mv + 1 < unat ns" using table_sizes_ok [OF assms(2)] sz by simp
  moreover from this have "ns \<noteq> 0" by auto
  ultimately show ?thesis by (simp add: ctx_ok_def t table_inv_new queued_new queue_of_def) (simp add: new_table_def)
qed

section \<open>An example\<close>

text \<open>
  A query from 10.0.0.1 to 10.0.0.2 and the response to it, without a question section; the response code is 2, for which
  the identifications and addresses alone decide. The module's table has four slots.
\<close>

definition w_wdns :: wdns where
  "w_wdns = \<lparr>wdns_skip_name = (\<lambda>_. 1), wdns_downcase_name = (\<lambda>n. n), wdns_left_chop = (\<lambda>_. None),
     wdns_str_to_name = (\<lambda>_. None)\<rparr>"

definition w_env :: dnsqr_env where
  "w_env = \<lparr>ev_host = \<lparr>h_little = True, h_key_addr = 0, h_key6_addr = 0, h_stack = (\<lambda>_. 0)\<rparr>, ev_wdns = w_wdns,
     ev_alloc = (\<lambda>_. True), ev_datalink = DLT_RAW, ev_bpf = None, ev_buffer = []\<rparr>"

definition w_settings :: dnsqr_settings where
  "w_settings = \<lparr>se_capture_qr = None, se_capture_rd = None, se_zero = None, se_table_max = Some 2,
     se_query_timeout = None, se_include = None, se_exclude = None\<rparr>"

definition w_time :: tspec where "w_time = \<lparr>tv_sec = 0, tv_nsec = 5\<rparr>"

definition w_query_pkt :: "byte list" where
  "w_query_pkt = [0x45, 0, 0, 40, 0, 1, 0, 0, 64, 17, 0, 0, 10, 0, 0, 1, 10, 0, 0, 2, 4, 210, 0, 53, 0, 20, 0, 0,
     0, 7, 0, 0, 0, 0, 0, 0, 0, 0, 0, 0]"

definition w_response_pkt :: "byte list" where
  "w_response_pkt = [0x45, 0, 0, 40, 0, 1, 0, 0, 64, 17, 0, 0, 10, 0, 0, 2, 10, 0, 0, 1, 0, 53, 4, 210, 0, 20, 0, 0,
     0, 7, 0x80, 2, 0, 0, 0, 0, 0, 0, 0, 0]"

definition w_ctx :: "u32 \<Rightarrow> dnsqr_ctx" where
  "w_ctx n = \<lparr>dc_table = new_table n, dc_reasm = base_reasm_ip_new, dc_stop = False, dc_capture_qr = - 1,
     dc_capture_rd = - 1, dc_zero_resolver_address = False, dc_max_values = 2,
     dc_query_timeout = 60, dc_now = \<lparr>tv_sec = 0, tv_nsec = 0\<rparr>, dc_exclude = None, dc_include = None\<rparr>"

lemma w_init: "dnsqr_init w_env w_settings = Ret (w_ctx 4)"
  by (simp add: dnsqr_init_def w_settings_def table_sizes_def dnsqr_filter_init_def w_ctx_def flag_setting_def
      DEFAULT_QUERY_TIMEOUT_def)

lemma w_ctx_table: "(w_ctx n)\<lparr>dc_table := new_table k\<rparr> = w_ctx k" by (simp add: w_ctx_def)

lemma w_settings_ok: "table_max_ok w_settings" by (simp add: table_max_ok_def w_settings_def)

lemma w_answers:
  "run_bind (queue_run w_env ([], w_ctx 0) [Pcap_packet w_query_pkt 40 40 w_time, Pcap_packet w_response_pkt 40 40 w_time])
     (\<lambda>(as, qc). Ret (map fst as, fst qc)) = Ret ([nmsg_res_again, nmsg_res_success], [])"
  by code_simp

section \<open>Property\<close>



section \<open>The end of the input\<close>

text \<open>The query with the time that it waited, as it is given out; whether it passes the filters.\<close>

definition given_up :: "dnsqr_ctx \<Rightarrow> dnsqr \<Rightarrow> dnsqr" where
  "given_up ctx q = q\<lparr>dq_timeout := Some (dnsqr_waited (dc_now ctx) q)\<rparr>"

definition passes_filters :: "dnsqr_env \<Rightarrow> dnsqr_ctx \<Rightarrow> dnsqr \<Rightarrow> bool" where
  "passes_filters env ctx q \<longleftrightarrow> do_filter env ctx (given_up ctx q) = Ret False"

definition answerable :: "dnsqr_env \<Rightarrow> dnsqr_ctx \<Rightarrow> dnsqr \<Rightarrow> bool" where
  "answerable env ctx q \<longleftrightarrow> do_filter env ctx (given_up ctx q) = Ret True \<or>
     do_filter env ctx (given_up ctx q) = Ret False \<and> (\<exists>m. dnsqr_to_message env ctx (given_up ctx q) = Ret m)"

abbreviation at_eof :: pcap_read where "at_eof \<equiv> Pcap_res nmsg_res_eof"

text \<open>All that pass are given out in order, and then the end.\<close>

definition flushed :: "dnsqr_env \<Rightarrow> dnsqr_ctx \<Rightarrow> dnsqr list \<Rightarrow> answer list \<Rightarrow> bool" where
  "flushed env ctx qs answers \<longleftrightarrow> answers \<noteq> [] \<and> last answers = (nmsg_res_eof, None) \<and>
     map Ret (List.map_filter snd answers) =
       map (\<lambda>q. dnsqr_to_message env ctx (given_up ctx q)) (filter (passes_filters env ctx) qs)"

lemma ctx_stop_irrelevant [simp]:
  "do_filter env (ctx\<lparr>dc_stop := b\<rparr>) q = do_filter env ctx q"
  "dnsqr_to_message env (ctx\<lparr>dc_stop := b\<rparr>) q = dnsqr_to_message env ctx q"
  "given_up (ctx\<lparr>dc_stop := b\<rparr>) q = given_up ctx q"
  "passes_filters env (ctx\<lparr>dc_stop := b\<rparr>) q = passes_filters env ctx q"
  "answerable env (ctx\<lparr>dc_stop := b\<rparr>) q = answerable env ctx q"
  "flushed env (ctx\<lparr>dc_stop := b\<rparr>) qs answers = flushed env ctx qs answers"
proof -
  have rd: "do_filter_query_rd (ctx\<lparr>dc_stop := b\<rparr>) q = do_filter_query_rd ctx q" for q
    by (simp add: do_filter_query_rd_def capture_rd_set_def)
  have "do_filter_query_name env (ctx\<lparr>dc_stop := b\<rparr>) q = do_filter_query_name env ctx q" for q
    by (cases "dq_qname q") (simp_all add: do_filter_query_name_def cong: if_cong)
  then have f: "do_filter env (ctx\<lparr>dc_stop := b\<rparr>) q = do_filter env ctx q" for q by (simp add: do_filter_def rd cong: if_cong)
  have m: "dnsqr_to_message env (ctx\<lparr>dc_stop := b\<rparr>) q = dnsqr_to_message env ctx q" for q
    by (simp add: dnsqr_to_message_def)
  have g: "given_up (ctx\<lparr>dc_stop := b\<rparr>) q = given_up ctx q" for q by (simp add: given_up_def)
  have p: "passes_filters env (ctx\<lparr>dc_stop := b\<rparr>) = passes_filters env ctx" by (rule ext) (simp add: passes_filters_def f g)
  show "do_filter env (ctx\<lparr>dc_stop := b\<rparr>) q = do_filter env ctx q"
    "dnsqr_to_message env (ctx\<lparr>dc_stop := b\<rparr>) q = dnsqr_to_message env ctx q"
    "given_up (ctx\<lparr>dc_stop := b\<rparr>) q = given_up ctx q"
    "passes_filters env (ctx\<lparr>dc_stop := b\<rparr>) q = passes_filters env ctx q"
    "answerable env (ctx\<lparr>dc_stop := b\<rparr>) q = answerable env ctx q"
    "flushed env (ctx\<lparr>dc_stop := b\<rparr>) qs answers = flushed env ctx qs answers"
    by (simp_all add: f m g p answerable_def flushed_def)
qed

lemma flushed_more:
  "flushed env ctx qs answers \<Longrightarrow> flushed env ctx qs ((r, None) # answers)"
  by (auto simp: flushed_def map_filter_simps)

lemma flushed_out:
  "flushed env ctx qs answers \<Longrightarrow> passes_filters env ctx q \<Longrightarrow> dnsqr_to_message env ctx (given_up ctx q) = Ret m \<Longrightarrow>
     flushed env ctx (q # qs) ((r, Some m) # answers)"
  by (auto simp: flushed_def map_filter_simps)

lemma flushed_drop: "flushed env ctx qs answers \<Longrightarrow> \<not> passes_filters env ctx q \<Longrightarrow> flushed env ctx (q # qs) answers"
  by (auto simp: flushed_def)

lemma stopped_step:
  assumes "dc_stop ctx" and "answerable env ctx q"
  obtains (kept) m where "passes_filters env ctx q" "dnsqr_to_message env ctx (given_up ctx q) = Ret m"
      "spec_pkt_to_payload env (q # qs, ctx) at_eof = Ret (nmsg_res_success, Some m, (qs, ctx))"
  | (dropped) "\<not> passes_filters env ctx q" "spec_pkt_to_payload env (q # qs, ctx) at_eof = Ret (nmsg_res_again, None, (qs, ctx))"
proof -
  have "ctx\<lparr>dc_stop := True\<rparr> = ctx" using assms(1) by (cases ctx) simp
  moreover have "spec_trim (q # qs, ctx) = (Some (given_up ctx q), qs)"
    using assms(1) by (simp add: spec_trim_def trim_due_def given_up_def)
  ultimately have step: "spec_pkt_to_payload env (q # qs, ctx) at_eof =
      run_bind (do_filter env ctx (given_up ctx q)) (\<lambda>drop. if drop then Ret (nmsg_res_again, None, (qs, ctx))
        else run_bind (dnsqr_to_message env ctx (given_up ctx q)) (\<lambda>m. Ret (nmsg_res_success, Some m, (qs, ctx))))"
    by (simp add: spec_pkt_to_payload_def cong: if_cong)
  show thesis
  proof (cases "passes_filters env ctx q")
    case True
    then obtain m where "dnsqr_to_message env ctx (given_up ctx q) = Ret m"
      using assms(2) by (auto simp: answerable_def passes_filters_def)
    with True step show thesis by (intro kept) (simp_all add: passes_filters_def)
  next
    case False
    with assms(2) have "do_filter env ctx (given_up ctx q) = Ret True" by (auto simp: answerable_def passes_filters_def)
    with False step show thesis by (intro dropped) simp_all
  qed
qed

lemma flush_stopped:
  assumes "dc_stop ctx" and "\<forall>q \<in> set qs. answerable env ctx q" and "length qs < n"
  shows "\<exists>answers. queue_run env (qs, ctx) (replicate n at_eof) = Ret (answers, ([], ctx)) \<and> flushed env ctx qs answers"
  using assms(2,3)
proof (induction n arbitrary: qs)
  case (Suc n)
  show ?case
  proof (cases qs)
    case Nil
    have step: "spec_pkt_to_payload env ([], ctx) at_eof = Ret (nmsg_res_eof, None, ([], ctx))"
      using assms(1) by (simp add: spec_pkt_to_payload_def spec_trim_def)
    show ?thesis
    proof (cases n)
      case 0
      with Nil step show ?thesis by (simp add: flushed_def map_filter_simps)
    next
      case (Suc k)
      with Suc.IH [of "[]"] Nil step flushed_more show ?thesis by fastforce
    qed
  next
    case (Cons q qs')
    then have a: "answerable env ctx q" and r: "\<forall>q \<in> set qs'. answerable env ctx q" "length qs' < n"
      using Suc.prems by auto
    from Suc.IH [OF r] obtain as where as: "queue_run env (qs', ctx) (replicate n at_eof) = Ret (as, ([], ctx))"
      "flushed env ctx qs' as" by blast
    show ?thesis
      using assms(1) a
    proof (cases rule: stopped_step [where qs = qs'])
      case (kept m)
      with as Cons flushed_out [OF as(2) kept(1,2)] show ?thesis by auto
    next
      case dropped
      with as Cons flushed_drop [OF flushed_more [OF as(2)]] show ?thesis by auto
    qed
  qed
qed simp

lemma flush_running:
  assumes "\<forall>q \<in> set qs. answerable env ctx q" and "length qs + 1 < n"
  shows "\<exists>answers. queue_run env (qs, ctx) (replicate n at_eof) = Ret (answers, ([], ctx\<lparr>dc_stop := True\<rparr>)) \<and>
    flushed env ctx qs answers"
  using assms
proof (induction n arbitrary: qs)
  case (Suc n)
  let ?stop = "ctx\<lparr>dc_stop := True\<rparr>"
  show ?case
  proof (cases "dc_stop ctx")
    case True
    then have "?stop = ctx" by (cases ctx) simp
    with flush_stopped [OF True Suc.prems(1), of "Suc n"] Suc.prems(2) show ?thesis by auto
  next
    case False
    have later: "\<exists>as. queue_run env (qs', ?stop) (replicate n at_eof) = Ret (as, ([], ?stop)) \<and> flushed env ctx qs' as"
      if "set qs' \<subseteq> set qs" "length qs' < n" for qs'
      using flush_stopped [of ?stop qs' env n] that Suc.prems(1) by auto
    show ?thesis
    proof (cases "fst (spec_trim (qs, ctx))")
      case None
      then have step: "spec_pkt_to_payload env (qs, ctx) at_eof = Ret (nmsg_res_again, None, (qs, ?stop))"
        using False by (auto simp: spec_pkt_to_payload_def spec_trim_def split: list.splits if_splits)
      from later [of qs] Suc.prems(2) step flushed_more show ?thesis by fastforce
    next
      case (Some q')
      then obtain q qs' where q: "qs = q # qs'" "spec_trim (qs, ctx) = (Some (given_up ctx q), qs')"
        by (auto simp: spec_trim_def given_up_def split: list.splits if_splits)
      then have a: "answerable env ctx q" and len: "length qs' + 1 < n" using Suc.prems by auto
      show ?thesis
      proof (cases "passes_filters env ctx q")
        case True
        then obtain m where m: "dnsqr_to_message env ctx (given_up ctx q) = Ret m" using a by (auto simp: answerable_def passes_filters_def)
        have step: "spec_pkt_to_payload env (qs, ctx) at_eof = Ret (nmsg_res_success, Some m, (qs', ctx))"
          using True m q by (simp add: spec_pkt_to_payload_def passes_filters_def)
        from Suc.IH [of qs'] Suc.prems(1) len q(1) step flushed_out [OF _ True m] show ?thesis by fastforce
      next
        case f: False
        then have "do_filter env ctx (given_up ctx q) = Ret True" using a by (auto simp: answerable_def passes_filters_def)
        then have step: "spec_pkt_to_payload env (qs, ctx) at_eof = Ret (nmsg_res_again, None, (qs', ?stop))"
          using q by (simp add: spec_pkt_to_payload_def)
        from later [of qs'] len q(1) step flushed_drop [OF flushed_more f] show ?thesis by fastforce
      qed
    qed
  qed
qed simp

text \<open>
  C7. At the end of the input no query is forgotten: when \<open>n\<close> queries wait, \<open>n + 2\<close> calls give out those that pass
  the filters, each with the time it waited, in the order of their arrival; the last call answers
  \<^verbatim>\<open>nmsg_res_eof\<close>, and nothing is left.
\<close>

theorem dnsqr_flushes:
  assumes "ctx_ok env ctx" and "\<forall>q \<in> set (queued (dc_table ctx)). answerable env ctx q"
  shows "\<exists>answers ctx'. dnsqr_calls env ctx (replicate (length (queued (dc_table ctx)) + 2) at_eof) = Ret (answers, ctx') \<and>
    flushed env ctx (queued (dc_table ctx)) answers \<and> queued (dc_table ctx') = []"
proof -
  let ?qs = "queued (dc_table ctx)" and ?ctx = "ctx\<lparr>dc_table := new_table 0\<rparr>"
  have same: "answerable env ?ctx q = answerable env ctx q" "given_up ?ctx q = given_up ctx q"
    "passes_filters env ?ctx q = passes_filters env ctx q" for q by (simp_all add: answerable_def given_up_def passes_filters_def)
  have "flushed env ?ctx qs as = flushed env ctx qs as" for qs as by (simp add: flushed_def same cong: filter_cong)
  with flush_running [of ?qs env ?ctx "length ?qs + 2"] assms(2) same obtain answers where
    "queue_run env (queue_of ctx) (replicate (length ?qs + 2) at_eof) = Ret (answers, ([], ?ctx\<lparr>dc_stop := True\<rparr>))"
    "flushed env ctx ?qs answers" by (auto simp: queue_of_def)
  with dnsqr_calls_refine [OF assms(1), of "replicate (length ?qs + 2) at_eof"] show ?thesis
    by (cases "dnsqr_calls env ctx (replicate (length ?qs + 2) at_eof)") (auto simp: queue_of_def)
qed

definition w_query :: dnsqr where
  "w_query = dnsqr_empty\<lparr>dq_type := UDP_UNANSWERED_QUERY, dq_query_ip := Some [10, 0, 0, 1],
     dq_response_ip := Some [10, 0, 0, 2], dq_proto := 17, dq_query_port := 1234, dq_response_port := 53, dq_id := 7,
     dq_query_packet := [w_query_pkt], dq_query_time_sec := [0], dq_query_time_nsec := [5]\<rparr>"

lemma w_waits:
  "run_bind (queue_run w_env ([], w_ctx 0) [Pcap_packet w_query_pkt 40 40 w_time])
     (\<lambda>(as, qs, ctx). Ret (qs, dc_capture_rd ctx, dc_zero_resolver_address ctx, dc_exclude ctx, dc_include ctx)) =
   Ret ([w_query], - 1, False, None, None)"
  by code_simp

lemma w_passes:
  assumes "dc_capture_rd ctx = - 1" "dc_exclude ctx = None" "dc_include ctx = None" "dc_zero_resolver_address ctx = False"
  shows "answerable w_env ctx w_query" "passes_filters w_env ctx w_query"
  using assms
  by (simp_all add: answerable_def passes_filters_def do_filter_def do_filter_query_rd_def capture_rd_set_def given_up_def
      do_filter_query_name_def w_query_def dnsqr_empty_def dnsqr_to_message_def)

theorem dnsqr_flushes_witness:
  "\<exists>as ctx answers ctx'. dnsqr_calls w_env (w_ctx 4) [Pcap_packet w_query_pkt 40 40 w_time] = Ret (as, ctx) \<and>
     dnsqr_calls w_env ctx (replicate 3 at_eof) = Ret (answers, ctx') \<and> last answers = (nmsg_res_eof, None) \<and>
     length (List.map_filter snd answers) = 1 \<and> queued (dc_table ctx') = []"
proof -
  note init = dnsqr_init_ok [OF w_init w_settings_ok]
  note ref = dnsqr_calls_refine [OF init [THEN conjunct1], of "[Pcap_packet w_query_pkt 40 40 w_time]"]
  obtain as qs qx where q: "queue_run w_env ([], w_ctx 0) [Pcap_packet w_query_pkt 40 40 w_time] = Ret (as, qs, qx)"
    "qs = [w_query]" "dc_capture_rd qx = - 1" "dc_exclude qx = None" "dc_include qx = None" "dc_zero_resolver_address qx = False"
    using w_waits by (cases "queue_run w_env ([], w_ctx 0) [Pcap_packet w_query_pkt 40 40 w_time]") auto
  obtain ctx where c: "dnsqr_calls w_env (w_ctx 4) [Pcap_packet w_query_pkt 40 40 w_time] = Ret (as, ctx)"
    "queue_of ctx = (qs, qx)" "ctx_ok w_env ctx"
    using ref q(1) init by (cases "dnsqr_calls w_env (w_ctx 4) [Pcap_packet w_query_pkt 40 40 w_time]") (auto simp: w_ctx_table)
  have x: "queued (dc_table ctx) = [w_query]" "dc_capture_rd ctx = - 1" "dc_exclude ctx = None" "dc_include ctx = None"
    "dc_zero_resolver_address ctx = False"
    using c(2) q(2-) by (auto simp: queue_of_def)
  note p = w_passes [OF x(2-)]
  from dnsqr_flushes [OF c(3)] x p obtain answers ctx' where
    f: "dnsqr_calls w_env ctx (replicate 3 at_eof) = Ret (answers, ctx')" "flushed w_env ctx [w_query] answers"
      "queued (dc_table ctx') = []" by (auto simp: numeral_3_eq_3)
  from f(2) p(2) have "last answers = (nmsg_res_eof, None)" "length (List.map_filter snd answers) = 1"
    by (auto simp: flushed_def dest: arg_cong [where f = length])
  with c(1) f show ?thesis by blast
qed

end
