(* ===== verification/Dnsqr_Checksum.thy ===== *)
theory Dnsqr_Checksum
  imports Dnsqr_Packet Ipdg_Props
begin

text \<open>
  The UDP checksum of a response, whole or in fragments (nmsg/base/dnsqr.c): what \<^verbatim>\<open>dnsqr_checksum_verify\<close> answers,
  against the sum of RFC 768 over the pseudo header and the datagram.
\<close>

section \<open>The sum\<close>

text \<open>An odd number of octets is padded with a zero.\<close>

definition padded :: "byte list \<Rightarrow> byte list" where
  "padded bs = (if even (length bs) then bs else bs @ [0])"

lemma padded_Cons2 [simp]: "padded (a # b # bs) = a # b # padded bs" "padded [a] = [a, 0]" "padded [] = []"
  by (simp_all add: padded_def)

lemma words_sum_padded_append:
  "even (length as) \<Longrightarrow> words_sum (padded (as @ bs)) = words_sum as + words_sum (padded bs)"
  by (simp add: padded_def words_sum_append)

lemma words_sum_padded_bound: "2 * words_sum (padded bs) \<le> 65535 * (length bs + 1)"
  using words_sum_bound [of "padded bs"] by (simp add: padded_def split: if_splits)

lemma unat_add_small: "unat s + n < 2 ^ 32 \<Longrightarrow> unat w = n \<Longrightarrow> unat (s + w) = unat s + n" for s w :: u32
  by (simp add: unat_word_ariths)

lemma sum_octets_eq:
  "unat s + words_sum (padded bs) < 2 ^ 32 \<Longrightarrow> unat (sum_octets s bs) = unat s + words_sum (padded bs)"
proof (induction s bs rule: sum_octets.induct)
  case (1 s a b bs)
  from 1(2) have "unat (s + (push_bit 8 (ucast a) OR ucast b)) = unat s + (256 * unat a + unat b)"
    by (intro unat_add_small [OF _ unat_be_word]) simp
  with 1 show ?case by simp
next
  case (2 s a)
  have "unat (push_bit 8 (ucast a) OR ucast (0 :: byte) :: u32) = 256 * unat a + unat (0 :: byte)" by (rule unat_be_word)
  then have "unat (push_bit 8 (ucast a) :: u32) = 256 * unat a" by simp
  with 2 show ?case using unat_add_small [of s "256 * unat a"] by simp
qed simp

lemma unat_not: "unat (NOT x) = 4294967295 - unat x" for x :: u32
proof -
  have "NOT x = - 1 - x" by (simp add: not_eq_complement)
  moreover have "unat (- 1 - x) = unat (- 1 :: u32) - unat x" by (rule unat_sub) simp
  moreover have "unat (- 1 :: u32) = 4294967295" by (simp add: unsigned_minus_1_eq_mask mask_eq_exp_minus_1)
  ultimately show ?thesis by simp
qed

lemma complement_zero:
  fixes x :: u32
  assumes "unat x < 65536"
  shows "(ucast (NOT x) :: u16) = 0 \<longleftrightarrow> x = 0xFFFF"
proof -
  have "4294967295 - unat x = 65536 * 65535 + (65535 - unat x)" using assms by simp
  then have "(4294967295 - unat x) mod 65536 = 65535 - unat x" by (simp only: mod_mult_self4) simp
  then have "unat (ucast (NOT x) :: u16) = 65535 - unat x" by (simp add: unsigned_ucast_eq take_bit_eq_mod unat_not)
  then show ?thesis using assms by (auto simp: word_unat_eq_iff simp flip: unat_eq_zero)
qed

lemma folded_complement: "(ucast (NOT (fold_sum s)) :: u16) = 0 \<longleftrightarrow> s \<noteq> 0 \<and> 65535 dvd unat s"
proof -
  have "unat (fold_sum s) < 65536"
    using mod_less_divisor [of 65535 "unat s - 1"] by (auto simp: fold_sum_eq)
  from complement_zero [OF this] have "(ucast (NOT (fold_sum s)) :: u16) = 0 \<longleftrightarrow> unat (fold_sum s) = 65535"
    by (simp add: word_unat_eq_iff)
  also have "\<dots> \<longleftrightarrow> s \<noteq> 0 \<and> (unat s - 1) mod 65535 = 65534" by (simp add: fold_sum_eq)
  also have "\<dots> \<longleftrightarrow> s \<noteq> 0 \<and> 65535 dvd unat s"
  proof (cases "unat s")
    case (Suc n)
    have "n mod 65535 = 65534 \<longleftrightarrow> 65535 dvd Suc n" by (simp add: dvd_eq_mod_eq_0 mod_Suc)
    with Suc show ?thesis by simp
  qed (simp add: unat_eq_zero)
  finally show ?thesis .
qed

section \<open>The packets of a response\<close>

text \<open>An IPv4 packet of protocol UDP whose header is \<open>hdr\<close>, the first of its datagram or a later fragment.\<close>

definition ipv4_udp_header :: "bool \<Rightarrow> byte list \<Rightarrow> bool" where
  "ipv4_udp_header first hdr \<longleftrightarrow> 20 \<le> length hdr \<and> ihl hdr 0 = length hdr \<and> drop_bit 4 (hdr ! 0) = 4 \<and>
     hdr ! 9 = IPPROTO_UDP \<and> (\<exists>off. load_net16 (drop 6 hdr) = Ret off \<and> (off AND IP_OFFMASK = 0 \<longleftrightarrow> first))"

lemma load_net16_append: "load_net16 bs = Ret x \<Longrightarrow> load_net16 (bs @ cs) = Ret x"
  by (cases bs; cases "tl bs") auto

lemma mem_byte_nth: "i < length bs \<Longrightarrow> mem_byte bs i = Ret (bs ! i)"
  by (simp add: mem_byte_def)

lemma ipv4_udp_network:
  assumes "ipv4_udp_header first hdr" and "unat len < 2 ^ 32"
  shows "\<exists>frag. ipdg_network_raw dg ETHERTYPE_IP len (hdr @ rest) 0 =
      Ret (dg\<lparr>dg_network := Some (hdr @ rest, 0), dg_len_network := ucast len, dg_proto_network := PF_INET,
        dg_proto_transport := IPPROTO_UDP\<rparr>, Some (frag, first, length hdr, len - of_nat (length hdr))) \<and> (\<not> first \<longrightarrow> frag)"
proof -
  from assms obtain off where off: "load_net16 (drop 6 hdr) = Ret off" "off AND IP_OFFMASK = 0 \<longleftrightarrow> first"
    by (auto simp: ipv4_udp_header_def)
  have h: "20 \<le> length hdr" "4 * unat (hdr ! 0 AND 15) = length hdr" "hdr ! 9 = IPPROTO_UDP"
    using assms by (simp_all add: ipv4_udp_header_def ihl_def)
  have m: "load_net16 (drop 6 (hdr @ rest)) = Ret off" "mem_byte (hdr @ rest) 0 = Ret (hdr ! 0)"
    "mem_byte (hdr @ rest) 9 = Ret (hdr ! 9)"
    using load_net16_append [OF off(1)] h(1) by (auto simp: mem_byte_def nth_append)
  from h off(2) show ?thesis
    unfolding ipdg_network_raw_def by (simp only: Let_def if_True refl add_0 m run_bind.simps h) auto
qed

lemma unat_of_nat_u64: "n < 2 ^ 64 \<Longrightarrow> unat (of_nat n :: u64) = n"
  by (simp add: unsigned_of_nat take_bit_nat_eq_self_iff)

lemma raw_packet_link:
  assumes "ipv4_udp_header first hdr" and "unat len = length (hdr @ rest)"
  shows "link_header DLT_RAW (hdr @ rest) len = Ret (Some (ETHERTYPE_IP, 0, len))"
  by (rule raw_link) (use assms in \<open>auto simp: ipv4_udp_header_def nth_append\<close>)

text \<open>A later fragment: its payload is what follows its header.\<close>

lemma later_fragment:
  assumes "ipv4_udp_header False hdr" and "length (hdr @ data) < 2 ^ 32"
  shows "\<exists>dg'. nmsg_ipdg_parse_pcap_raw dg DLT_RAW (hdr @ data) (of_nat (length (hdr @ data))) = Ret (nmsg_res_success, dg') \<and>
    dg_proto_network dg' = PF_INET \<and> dg_proto_transport dg' = IPPROTO_UDP \<and> dg_transport dg' = None \<and>
    dg_payload dg' = Some (hdr @ data, length hdr) \<and> unat (dg_len_payload dg') = length data"
proof -
  define l :: u64 where "l = of_nat (length (hdr @ data))"
  let ?len = l
  have len: "unat ?len = length (hdr @ data)" unfolding l_def using assms(2) by (intro unat_of_nat_u64) simp
  with ipv4_udp_network [OF assms(1), of ?len dg data] assms(2) obtain frag where
    n: "ipdg_network_raw dg ETHERTYPE_IP ?len (hdr @ data) 0 =
      Ret (dg\<lparr>dg_network := Some (hdr @ data, 0), dg_len_network := ucast ?len, dg_proto_network := PF_INET,
        dg_proto_transport := IPPROTO_UDP\<rparr>, Some (True, False, length hdr, ?len - of_nat (length hdr)))" by auto
  have l: "unat (?len - of_nat (length hdr)) = length data" using len by (simp add: unat_sub_of_nat)
  then have "unat (ucast (?len - of_nat (length hdr)) :: u32) = length data" using assms(2) by (simp add: unat_ucast_u32)
  with raw_packet_link [OF assms(1) len] n show ?thesis
    unfolding l_def [symmetric] by (simp add: nmsg_ipdg_parse_pcap_raw_def)
qed

text \<open>The first packet, whose UDP header counts all of the datagram.\<close>

lemma first_packet:
  assumes h: "ipv4_udp_header True hdr" and len: "length hdr + 8 + length data < 2 ^ 32"
    and n: "length data \<le> n" "n \<le> 65527" and u: "4 \<le> length ports" "2 \<le> length cksum"
  defines "pkt \<equiv> hdr @ udp_hdr ports n cksum @ data"
  shows "\<exists>dg'. nmsg_ipdg_parse_pcap_raw dg DLT_RAW pkt (of_nat (length pkt)) = Ret (nmsg_res_success, dg') \<and>
    dg_proto_network dg' = PF_INET \<and> dg_proto_transport dg' = IPPROTO_UDP \<and> dg_transport dg' = Some (pkt, length hdr) \<and>
    \<not> dg_len_transport dg' < 8 \<and> dg_payload dg' = Some (pkt, length hdr + 8) \<and> unat (dg_len_payload dg') = length data"
proof -
  have lu: "length (udp_hdr ports n cksum) = 8" using u by (simp add: udp_hdr_def)
  have lp: "length pkt = length hdr + 8 + length data" using lu by (simp add: pkt_def)
  define len' :: u64 where "len' = of_nat (length pkt)"
  let ?len = len'
  have ul: "unat ?len = length pkt" unfolding len'_def using lp len by (intro unat_of_nat_u64) simp
  with ipv4_udp_network [OF h, of ?len dg "udp_hdr ports n cksum @ data"] lp len obtain frag where
    nw: "ipdg_network_raw dg ETHERTYPE_IP ?len pkt 0 =
      Ret (dg\<lparr>dg_network := Some (pkt, 0), dg_len_network := ucast ?len, dg_proto_network := PF_INET,
        dg_proto_transport := IPPROTO_UDP\<rparr>, Some (frag, True, length hdr, ?len - of_nat (length hdr)))"
    unfolding pkt_def by auto
  let ?l = "?len - of_nat (length hdr)"
  have l: "unat ?l = 8 + length data" using ul lp by (simp add: unat_sub_of_nat)
  have l8: "unat (?l - 8) = length data" using l by (simp add: unat_sub word_le_nat_alt)
  have lt: "unat (ucast ?l :: u32) = 8 + length data" using l len by (simp add: unat_ucast_u32)
  have un: "unat (of_nat (8 + n) :: u16) = 8 + n" using n(2) by (intro unat_of_nat_u16) simp
  have "drop (length hdr + 4) pkt = store_net16 (of_nat (8 + n)) @ take 2 cksum @ data"
    using u by (simp add: pkt_def udp_hdr_def)
  then have w: "load_net16 (drop (length hdr + 4) pkt) = Ret (of_nat (8 + n))" by simp
  have tp: "ucast (of_nat (8 + n) :: u16) - 8 = (of_nat n :: u32)"
  proof -
    have "ucast (of_nat (8 + n) :: u16) = (of_nat (unat (of_nat (8 + n) :: u16)) :: u32)" by simp
    then show ?thesis by (simp only: un) simp
  qed
  have "unat (of_nat n :: u32) = n" using n(2) by (intro unat_of_nat_u32) simp
  then have "unat (if ucast (of_nat n :: u32) > ?l - 8 then ucast (?l - 8) else (of_nat n :: u32)) = length data"
    using n(1) l8 len by (simp add: word_less_nat_alt unat_ucast_up unat_ucast_u32)
  moreover have "\<not> ?l < 8" "8 \<le> (of_nat (8 + n) :: u16)" "\<not> (ucast ?l :: u32) < 8"
    using l un lt by (simp_all add: word_less_nat_alt word_le_nat_alt)
  moreover have "link_header DLT_RAW pkt ?len = Ret (Some (ETHERTYPE_IP, 0, ?len))"
    using raw_packet_link [OF h, of ?len "udp_hdr ports n cksum @ data"] ul by (simp add: pkt_def)
  ultimately show ?thesis
    unfolding len'_def [symmetric] using nw w
    by (simp add: nmsg_ipdg_parse_pcap_raw_def udp_header_def tp Let_def del: of_nat_add split: if_splits)
qed

section \<open>The loop\<close>

type_synonym fragment = "byte list \<times> byte list"

definition later_fragments :: "fragment list \<Rightarrow> bool" where
  "later_fragments frags \<longleftrightarrow> (\<forall>(h, d) \<in> set frags. ipv4_udp_header False h \<and> length (h @ d) < 2 ^ 32)"

definition fragment_packet :: "fragment \<Rightarrow> byte list" where
  "fragment_packet = (\<lambda>(h, d). h @ d)"

lemma mem_read_take: "off + n \<le> length bs \<Longrightarrow> mem_read bs off n = Ret (take n (drop off bs))"
  by (simp add: mem_read_def)

lemma checksum_later:
  "later_fragments frags \<Longrightarrow> checksum_packets little (map fragment_packet frags) s ph =
     Ret (Inr (foldl sum_octets s (map snd frags), ph))"
proof (induction frags arbitrary: s)
  case (Cons f frags)
  obtain h d where f: "f = (h, d)" by (cases f)
  with Cons.prems have h: "ipv4_udp_header False h" "length (h @ d) < 2 ^ 32" "later_fragments frags"
    by (auto simp: later_fragments_def)
  from later_fragment [OF h(1,2)] obtain dg where
    "nmsg_ipdg_parse_pcap_raw dg_unset DLT_RAW (h @ d) (of_nat (length (h @ d))) = Ret (nmsg_res_success, dg)"
    "dg_proto_network dg = PF_INET" "dg_proto_transport dg = IPPROTO_UDP" "dg_transport dg = None"
    "dg_payload dg = Some (h @ d, length h)" "unat (dg_len_payload dg) = length d" by blast
  with Cons.IH [OF h(3)] show ?case by (simp add: f fragment_packet_def ptr_octets_def mem_read_take del: length_append)
qed simp

lemma sum_fragments:
  assumes "\<forall>d \<in> set (butlast ds). even (length d)" and "unat s + words_sum (padded (concat ds)) < 2 ^ 32"
  shows "unat (foldl sum_octets s ds) = unat s + words_sum (padded (concat ds))"
  using assms
proof (induction ds arbitrary: s)
  case (Cons d ds)
  have split: "words_sum (padded (concat (d # ds))) = words_sum (padded d) + words_sum (padded (concat ds))"
  proof (cases ds)
    case (Cons d' ds')
    then have "even (length d)" using Cons.prems(1) by simp
    then show ?thesis by (simp add: words_sum_padded_append) (simp add: padded_def)
  qed simp
  have s: "unat (sum_octets s d) = unat s + words_sum (padded d)" using Cons.prems(2) split by (intro sum_octets_eq) simp
  have "\<forall>d \<in> set (butlast ds). even (length d)" using Cons.prems(1) by (cases ds) auto
  with Cons.IH [of "sum_octets s d"] Cons.prems(2) s split show ?case by simp
qed simp

section \<open>Property\<close>

text \<open>The pseudo header of RFC 768, for a datagram with \<open>n\<close> octets of data.\<close>

definition pseudo_header :: "byte list \<Rightarrow> nat \<Rightarrow> byte list" where
  "pseudo_header hdr n = take 4 (drop 12 hdr) @ take 4 (drop 16 hdr) @ [0, IPPROTO_UDP] @ store_net16 (of_nat (8 + n))"

lemma pseudo_of_first:
  assumes "20 \<le> length hdr" and "hdr ! 9 = IPPROTO_UDP" and "length ports = 4"
  shows "\<exists>ph. pseudo_ipv4 (hdr @ udp_hdr ports n (store_net16 c) @ data) (udp_hdr ports n (store_net16 c) @ data) = Ret ph \<and>
    even (length ph) \<and> words_sum ph = words_sum (pseudo_header hdr n @ udp_hdr ports n (store_net16 c))"
proof -
  obtain p1 p2 p3 p4 where p: "ports = [p1, p2, p3, p4]"
    using assms(3) by (auto simp: numeral_eq_Suc length_Suc_conv)
  obtain u1 u2 c1 c2 where u: "store_net16 (of_nat (8 + n)) = [u1, u2]" "store_net16 c = [c1, c2]" by (simp add: store_net16_def)
  have nine: "drop 9 (hdr @ xs) = IPPROTO_UDP # drop 10 (hdr @ xs)" for xs
    using Cons_nth_drop_Suc [of 9 "hdr @ xs"] assms(1,2) by (simp add: nth_append)
  have r: "mem_read (hdr @ xs) 12 4 = Ret (take 4 (drop 12 hdr))" "mem_read (hdr @ xs) 16 4 = Ret (take 4 (drop 16 hdr))"
    "mem_read (hdr @ xs) 9 1 = Ret [IPPROTO_UDP]" for xs
    using assms(1) nine by (simp_all add: mem_read_def)
  have l: "length (take 4 (drop 12 hdr)) = 4" "length (take 4 (drop 16 hdr)) = 4" using assms(1) by simp_all
  have e: "even (length (take 4 (drop 12 hdr)))" "even (length (take 4 (drop 16 hdr)))"
    using l by simp_all
  let ?udp = "udp_hdr ports n (store_net16 c)"
  have ru: "mem_read (?udp @ data) 4 2 = Ret [u1, u2]" "mem_read (?udp @ data) 0 2 = Ret [p1, p2]"
    "mem_read (?udp @ data) 2 2 = Ret [p3, p4]" "mem_read (?udp @ data) 6 2 = Ret [c1, c2]"
    by (simp_all add: udp_hdr_def p u mem_read_def del: of_nat_add)
  have "pseudo_ipv4 (hdr @ ?udp @ data) (?udp @ data) = Ret (take 4 (drop 12 hdr) @ take 4 (drop 16 hdr) @ [0] @
      [IPPROTO_UDP] @ [u1, u2] @ [p1, p2] @ [p3, p4] @ [u1, u2] @ [c1, c2])"
    by (simp only: pseudo_ipv4_def r ru run_bind.simps)
  moreover have "words_sum (pseudo_header hdr n @ ?udp) = words_sum (take 4 (drop 12 hdr) @ take 4 (drop 16 hdr) @ [0] @
      [IPPROTO_UDP] @ [u1, u2] @ [p1, p2] @ [p3, p4] @ [u1, u2] @ [c1, c2])"
    using e by (simp add: pseudo_header_def udp_hdr_def p u words_sum_append del: of_nat_add)
  ultimately show ?thesis using e by simp
qed

text \<open>
  C14. The verdict on a response's checksum: for a UDP datagram over IPv4, in one packet or in its fragments in order,
  of which all but the last hold an even number of octets, it is \<open>CHECKSUM_ABSENT\<close> when the sender sent none, and
  otherwise \<open>CHECKSUM_CORRECT\<close> exactly when the ones' complement sum of RFC 768, over the pseudo header, the UDP
  header and all data, padded to 16 bits, is minus zero; on machines of both byte orders.
\<close>

theorem dnsqr_checksum_rfc768:
  assumes first: "ipv4_udp_header True hdr" and later: "later_fragments frags"
    and pkts: "dq_response_packet q =
      (hdr @ udp_hdr ports n (store_net16 c) @ d0) # map fragment_packet frags" "\<not> dq_resolver_address_zeroed q"
    and n: "n = length (d0 @ concat (map snd frags))" "n \<le> 65527" and ports: "length ports = 4" and hdr: "length hdr \<le> 60"
    and even: "\<forall>d \<in> set (butlast (d0 # map snd frags)). even (length d)"
  shows "dnsqr_checksum_verify little q = Ret (
    if c = 0 then CHECKSUM_ABSENT
    else if 65535 dvd words_sum (padded (pseudo_header hdr n @ udp_hdr ports n (store_net16 c) @ d0 @ concat (map snd frags)))
    then CHECKSUM_CORRECT else CHECKSUM_INCORRECT)"
proof -
  let ?udp = "udp_hdr ports n (store_net16 c)" and ?D = "d0 @ concat (map snd frags)"
  let ?pkt = "hdr @ ?udp @ d0"
  have h: "20 \<le> length hdr" "hdr ! 9 = IPPROTO_UDP" using first by (auto simp: ipv4_udp_header_def)
  have lu: "length ?udp = 8" using ports by (simp add: udp_hdr_def)
  have c2: "2 \<le> length (store_net16 c)" by (simp add: store_net16_def)
  from first_packet [OF first, of d0 n ports "store_net16 c" dg_unset] n ports hdr c2 obtain dg where
    dg: "nmsg_ipdg_parse_pcap_raw dg_unset DLT_RAW ?pkt (of_nat (length ?pkt)) = Ret (nmsg_res_success, dg)"
      "dg_proto_network dg = PF_INET" "dg_proto_transport dg = IPPROTO_UDP" "dg_transport dg = Some (?pkt, length hdr)"
      "\<not> dg_len_transport dg < 8" "dg_payload dg = Some (?pkt, length hdr + 8)" "unat (dg_len_payload dg) = length d0"
    by auto
  have c: "load_net16 (drop 6 (?udp @ d0)) = Ret c"
    using ports c2 by (simp add: udp_hdr_def)
  obtain ph where ph: "pseudo_ipv4 ?pkt (?udp @ d0) = Ret ph" "even (length ph)"
    "words_sum ph = words_sum (pseudo_header hdr n @ ?udp)" using pseudo_of_first [OF h ports] by blast
  let ?s = "foldl sum_octets (sum_octets 0 d0) (map snd frags)"
  have loop: "checksum_packets little (dq_response_packet q) 0 None =
      (if c = 0 then Ret (Inl CHECKSUM_ABSENT) else Ret (Inr (?s, Some ph)))"
    unfolding pkts(1) using dg c ph(1) lu checksum_later [OF later]
    by (auto simp: ptr_octets_def mem_read_take simp del: length_append)
  have bound: "words_sum (padded ?D) < 2 ^ 31" "words_sum ph < 2 ^ 31"
    using words_sum_padded_bound [of ?D] n words_sum_bound [of "pseudo_header hdr n @ ?udp"] lu h(1) ph(3)
    by (simp_all add: pseudo_header_def store_net16_def min_def split: if_splits)
  have s: "unat ?s = words_sum (padded ?D)"
    using sum_fragments [of "d0 # map snd frags" 0] even bound(1) by simp
  have pp: "padded ph = ph" using ph(2) by (simp add: padded_def)
  have t: "unat (sum_octets ?s ph) = words_sum (padded ?D) + words_sum ph"
    using sum_octets_eq [of ?s ph] s bound pp by simp
  have "words_sum (padded (pseudo_header hdr n @ ?udp @ ?D)) = words_sum (pseudo_header hdr n @ ?udp) + words_sum (padded ?D)"
  proof -
    have "even (length (pseudo_header hdr n @ ?udp))" using lu h(1) by (simp add: pseudo_header_def store_net16_def)
    from words_sum_padded_append [OF this, of ?D] show ?thesis by simp
  qed
  moreover have "sum_octets ?s ph \<noteq> 0"
  proof -
    have "even (length (take 4 (drop 12 hdr) @ take 4 (drop 16 hdr)))" using h(1) by simp
    then have "17 \<le> words_sum (pseudo_header hdr n @ ?udp)"
      by (simp add: pseudo_header_def store_net16_def words_sum_append [of "take 4 (drop 12 hdr) @ take 4 (drop 16 hdr)", simplified]
          IPPROTO_UDP_def)
    then show ?thesis using t ph(3) by (auto simp flip: unat_eq_zero)
  qed
  ultimately show ?thesis
    using t ph(3) by (simp add: dnsqr_checksum_verify_def pkts(2) loop folded_complement add.commute)
qed

text \<open>A response in two fragments, the second with an odd number of octets.\<close>

definition w_hdr1 :: "byte list" where
  "w_hdr1 = [0x45, 0, 0, 36, 0, 9, 0x20, 0, 64, 17, 0, 0, 10, 0, 0, 2, 10, 0, 0, 1]"

definition w_hdr2 :: "byte list" where
  "w_hdr2 = [0x45, 0, 0, 25, 0, 9, 0, 2, 64, 17, 0, 0, 10, 0, 0, 2, 10, 0, 0, 1]"

definition w_answer :: "u16 \<Rightarrow> dnsqr" where
  "w_answer c = dnsqr_empty\<lparr>dq_response_packet :=
     (w_hdr1 @ udp_hdr [0, 53, 4, 210] 13 (store_net16 c) @ [0, 7, 0x80, 2, 0, 0, 0, 0]) #
     map fragment_packet [(w_hdr2, [0, 0, 0, 0, 9])]\<rparr>"

lemma w_headers: "ipv4_udp_header True w_hdr1" "ipv4_udp_header False w_hdr2"
proof -
  have "load_net16 (drop 6 w_hdr1) = Ret 0x2000" "load_net16 (drop 6 w_hdr2) = Ret 2" by code_simp+
  moreover have "(0x2000 :: u16) AND IP_OFFMASK = 0" "(2 :: u16) AND IP_OFFMASK \<noteq> 0" by (simp_all add: IP_OFFMASK_def)
  ultimately show "ipv4_udp_header True w_hdr1" "ipv4_udp_header False w_hdr2"
    by (simp_all add: ipv4_udp_header_def w_hdr1_def w_hdr2_def ihl_def IPPROTO_UDP_def)
qed

lemma w_sum:
  "words_sum (padded (pseudo_header w_hdr1 13 @ udp_hdr [0, 53, 4, 210] 13 (store_net16 23985) @
     [0, 7, 0x80, 2, 0, 0, 0, 0] @ concat (map snd [(w_hdr2, [0, 0, 0, 0, 9])]))) = 65535"
proof -
  have "store_net16 23985 = [93, 177]" "store_net16 (of_nat (8 + 13)) = [0, 21]" by code_simp+
  then show ?thesis
    by (simp add: pseudo_header_def udp_hdr_def w_hdr1_def padded_def IPPROTO_UDP_def)
qed

theorem dnsqr_checksum_rfc768_witness:
  "dnsqr_checksum_verify True (w_answer 23985) = Ret CHECKSUM_CORRECT \<and>
   dnsqr_checksum_verify False (w_answer 23985) = Ret CHECKSUM_CORRECT"
proof -
  have later: "later_fragments [(w_hdr2, [0, 0, 0, 0, 9])]" using w_headers(2) by (simp add: later_fragments_def w_hdr2_def)
  have q: "dq_response_packet (w_answer c) = (w_hdr1 @ udp_hdr [0, 53, 4, 210] 13 (store_net16 c) @ [0, 7, 0x80, 2, 0, 0, 0, 0]) #
      map fragment_packet [(w_hdr2, [0, 0, 0, 0, 9])]" "\<not> dq_resolver_address_zeroed (w_answer c)" for c
    by (simp_all add: w_answer_def dnsqr_empty_def)
  have "dnsqr_checksum_verify little (w_answer 23985) = Ret CHECKSUM_CORRECT" for little
    using dnsqr_checksum_rfc768 [OF w_headers(1) later q [of 23985], of little] unfolding w_sum by (simp add: w_hdr1_def)
  then show ?thesis by simp
qed

end
