(* ===== verification/Dnsqr_Names.thy ===== *)
theory Dnsqr_Names
  imports Dnsqr_Step
begin

text \<open>
  The names that the DNS module leaves out (nmsg/base/dnsqr.c): the tables that \<^verbatim>\<open>dnsqr_filter_init\<close> fills from
  the environment hold exactly the names listed there, and \<^verbatim>\<open>do_filter_query_name\<close> decides by a name's suffixes.
\<close>

section \<open>A table of names\<close>

definition name_home :: "u32 \<Rightarrow> byte list \<Rightarrow> nat" where
  "name_home num name = unat (hashlittle_spec name 0 mod num)"

definition name_at :: "byte list option list \<Rightarrow> nat \<Rightarrow> byte list option" where
  "name_at table s = (if s < length table then table ! s else None)"

definition names_inv :: "u32 \<Rightarrow> byte list option list \<Rightarrow> bool" where
  "names_inv num table \<longleftrightarrow> num \<noteq> 0 \<and> length table = unat num \<and> probed (unat num) (name_home num) (name_at table)"

definition names_of :: "byte list option list \<Rightarrow> byte list set" where
  "names_of table = {name. Some name \<in> set table}"

definition occupied :: "byte list option list \<Rightarrow> nat" where
  "occupied table = length (filter (\<lambda>o'. o' \<noteq> None) table)"

lemma name_slot: "num \<noteq> 0 \<Longrightarrow> name_slot h num name = Ret (name_home num name)"
  by (simp add: name_slot_def name_hash_def hash_on_stack name_home_def)

lemma name_home_less: "num \<noteq> 0 \<Longrightarrow> name_home num name < unat num"
  by (simp add: name_home_def unat_mod unat_gt_0)

lemma names_of_nth: "name \<in> names_of table \<longleftrightarrow> (\<exists>s < length table. table ! s = Some name)"
  by (auto simp: names_of_def in_set_conv_nth)

lemma free_name_slot:
  assumes "occupied table < length table"
  obtains e where "e < length table" "table ! e = None"
proof -
  from assms have "None \<in> set table" by (induction table) (auto simp: occupied_def split: if_splits)
  then show thesis using that by (metis in_set_conv_nth)
qed

lemma occupied_update:
  "s < length table \<Longrightarrow> table ! s = None \<Longrightarrow> occupied (table[s := Some name]) = Suc (occupied table)"
proof (induction table arbitrary: s)
  case (Cons x table)
  then show ?case by (cases s) (auto simp: occupied_def)
qed simp

lemma filter_insert:
  assumes inv: "names_inv num table" and room: "occupied table < unat num"
  shows "\<exists>t. dnsqr_filter_insert h table num name = Ret t \<and> names_inv num t \<and>
    names_of t = insert name (names_of table) \<and> occupied t = Suc (occupied table)"
proof -
  let ?n = "unat num" and ?k = "name_home num name"
  let ?free = "\<lambda>s. name_free_slot table ?n s (last_slot num ?k)"
  have n: "num \<noteq> 0" "length table = ?n" and pr: "probed ?n (name_home num) (name_at table)"
    using inv by (simp_all add: names_inv_def)
  obtain e where e: "e < ?n" "table ! e = None" using free_name_slot [of table] n(2) room by auto
  note k = name_home_less [OF n(1), of name] and stop = last_slot_cyc [OF n(1) name_home_less [OF n(1), of name]]
  have "?free s = ?free ((s + 1) mod ?n)" if "s < ?n" "s \<noteq> last_slot num ?k" "table ! s \<noteq> None" for s
    using that n stop by (subst name_free_slot.simps) (auto simp: next_slot)
  from probe_walk [where P = "\<lambda>s. table ! s = None" and search = ?free, OF k e stop [THEN conjunct2] this] obtain r where
    r: "r < ?n" "table ! r = None" "?free ?k = ?free r" "\<forall>t<?n. cyc ?n ?k t < cyc ?n ?k r \<longrightarrow> table ! t \<noteq> None" by auto
  have "?free r = Ret r" using r(1,2) n stop by (subst name_free_slot.simps) simp
  then have run: "dnsqr_filter_insert h table num name = Ret (table[r := Some name])"
    using r(3) name_slot [OF n(1)] by (simp add: dnsqr_filter_insert_def)
  have at: "name_at (table[r := Some name]) = (name_at table)(r \<mapsto> name)"
    using r(1) n(2) by (auto simp: name_at_def nth_list_update)
  have "probed ?n (name_home num) (name_at (table[r := Some name]))"
    unfolding at using r n(2) k pr by (intro probed_insert) (auto simp: name_at_def)
  moreover have "x \<in> names_of (table[r := Some name]) \<longleftrightarrow> x = name \<or> x \<in> names_of table" for x
    using r(1,2) n(2) unfolding names_of_nth by (auto simp: nth_list_update split: if_splits) (metis option.distinct(1))
  then have "names_of (table[r := Some name]) = insert name (names_of table)" by blast
  ultimately show ?thesis using run n occupied_update [of r table name] r(1,2) by (auto simp: names_inv_def)
qed

lemma filter_lookup:
  assumes inv: "names_inv num table" and room: "occupied table < unat num"
  shows "dnsqr_filter_lookup h table num name = Ret (name \<in> names_of table)"
proof -
  let ?n = "unat num" and ?k = "name_home num name"
  let ?look = "\<lambda>s. name_lookup table ?n name s (last_slot num ?k)"
  have n: "num \<noteq> 0" "length table = ?n" and pr: "probed ?n (name_home num) (name_at table)"
    using inv by (simp_all add: names_inv_def)
  obtain e where e: "e < ?n" "table ! e = None" using free_name_slot [of table] n(2) room by auto
  note k = name_home_less [OF n(1), of name] and stop = last_slot_cyc [OF n(1) name_home_less [OF n(1), of name]]
  let ?P = "\<lambda>s. table ! s = None \<or> table ! s = Some name"
  have "?look s = ?look ((s + 1) mod ?n)" if "s < ?n" "s \<noteq> last_slot num ?k" "\<not> ?P s" for s
    using that n stop by (subst name_lookup.simps) (auto simp: next_slot)
  from probe_walk [where P = ?P and search = ?look, OF k e(1) _ stop [THEN conjunct2] this] e(2) obtain r where
    r: "r < ?n" "?P r" "?look ?k = ?look r" "\<forall>t<?n. cyc ?n ?k t < cyc ?n ?k r \<longrightarrow> \<not> ?P t" by auto
  have "?look r = Ret (table ! r = Some name)"
    using r(1,2) n stop by (subst name_lookup.simps) (auto split: option.split)
  moreover have "table ! r = Some name \<longleftrightarrow> name \<in> names_of table"
  proof
    assume "name \<in> names_of table"
    then obtain s where s: "s < ?n" "table ! s = Some name" using n(2) by (auto simp: names_of_nth)
    show "table ! r = Some name"
    proof (rule ccontr)
      assume "table ! r \<noteq> Some name"
      then have none: "table ! r = None" using r(2) by simp
      have "\<not> cyc ?n ?k s < cyc ?n ?k r" using r(4) s by auto
      moreover have "r \<noteq> s" using s none by auto
      ultimately have "cyc ?n ?k r < cyc ?n ?k s" using cyc_inj [OF k r(1) s(1)] by simp
      with probedD [OF pr, of s name r] s r(1) n(2) none show False by (simp add: name_at_def)
    qed
  qed (use r(1) n(2) in \<open>auto simp: names_of_nth\<close>)
  ultimately show ?thesis using r(3) name_slot [OF n(1)] by (simp add: dnsqr_filter_lookup_def)
qed

section \<open>Filling a table\<close>

lemma name_tokens_count: "length (name_tokens s) \<le> 1 + length (filter (\<lambda>c. c = 58) s)"
proof (induction s rule: name_tokens.induct)
  case (1 s)
  let ?c = "\<lambda>s. length (filter (\<lambda>c :: byte. c = 58) s)"
  let ?s = "dropWhile (\<lambda>c. c \<in> set [58]) s"
  let ?rest = "dropWhile (\<lambda>c. c \<notin> set [58]) ?s"
  have d: "?c (dropWhile Q xs) \<le> ?c xs" for Q xs
    by (induction xs) auto
  show ?case
  proof (cases "?s = []")
    case True
    then have "fst (strtok [58] s) = None" by (simp add: strtok_def)
    then show ?thesis by (subst name_tokens.simps) (cases "strtok [58] s", simp)
  next
    case False
    then have st: "strtok [58] s = (Some (takeWhile (\<lambda>c. c \<notin> set [58]) ?s), drop 1 ?rest)"
      by (simp add: strtok_def Let_def)
    then have e: "name_tokens s = takeWhile (\<lambda>c. c \<notin> set [58]) ?s # name_tokens (drop 1 ?rest)"
      by (subst name_tokens.simps) simp
    note IH = 1 [OF st [symmetric] refl]
    show ?thesis
    proof (cases ?rest)
      case Nil
      have "name_tokens [] = []" by (subst name_tokens.simps) (simp add: strtok_def)
      then have "length (name_tokens s) = 1" unfolding e Nil by simp
      then show ?thesis by simp
    next
      case (Cons x xs)
      then have "x = 58" using hd_dropWhile [of "\<lambda>c. c \<notin> set [58]" ?s] by simp
      have "?c ?rest \<le> ?c s" by (rule order_trans [OF d d])
      then have "Suc (?c xs) \<le> ?c s" unfolding Cons \<open>x = 58\<close> by simp
      moreover have "length (name_tokens s) = Suc (length (name_tokens xs))" unfolding e Cons by simp
      moreover have "length (name_tokens xs) \<le> 1 + ?c xs" using IH unfolding Cons by simp
      ultimately show ?thesis by linarith
    qed
  qed
qed

lemma insert_tokens_ok:
  assumes "names_inv num table" and "occupied table + length tokens < unat num"
  shows "\<exists>t. insert_tokens h w table num tokens = Ret t \<and> names_inv num t \<and> occupied t < unat num \<and>
    names_of t = names_of table \<union> {wdns_downcase_name w name | name. \<exists>tok \<in> set tokens. wdns_str_to_name w tok = Some name}"
  using assms
proof (induction tokens arbitrary: table)
  case (Cons tok tokens)
  show ?case
  proof (cases "wdns_str_to_name w tok")
    case None
    with Cons.IH [of table] Cons.prems show ?thesis by auto
  next
    case (Some name)
    from filter_insert [OF Cons.prems(1), of h "wdns_downcase_name w name"] Cons.prems(2) obtain t where
      t: "dnsqr_filter_insert h table num (wdns_downcase_name w name) = Ret t" "names_inv num t"
      "names_of t = insert (wdns_downcase_name w name) (names_of table)" "occupied t = Suc (occupied table)" by auto
    from Cons.IH [OF t(2)] Cons.prems(2) t(4) obtain t' where
      "insert_tokens h w t num tokens = Ret t'" "names_inv num t'" "occupied t' < unat num"
      "names_of t' = names_of t \<union> {wdns_downcase_name w name | name. \<exists>tok \<in> set tokens. wdns_str_to_name w tok = Some name}"
      by auto
    with t Some show ?thesis by auto
  qed
qed simp

text \<open>The names of a setting, and the settings that the code takes: with at least one token, and not too long.\<close>

definition listed_names :: "wdns \<Rightarrow> byte list \<Rightarrow> byte list set" where
  "listed_names w names =
     {wdns_downcase_name w name | name. \<exists>tok \<in> set (name_tokens names). wdns_str_to_name w tok = Some name}"

definition names_setting_ok :: "byte list option \<Rightarrow> bool" where
  "names_setting_ok v \<longleftrightarrow> (case v of None \<Rightarrow> True
     | Some names \<Rightarrow> name_tokens names \<noteq> [] \<and> length (filter (\<lambda>c. c = 58) names) + 1 < 2 ^ 31)"

definition table_holds :: "name_table \<Rightarrow> byte list set \<Rightarrow> bool" where
  "table_holds tbl names \<longleftrightarrow> (case tbl of None \<Rightarrow> names = {}
     | Some (table, num) \<Rightarrow> names_inv num table \<and> occupied table < unat num \<and> names_of table = names)"

lemma names_new:
  "num \<noteq> 0 \<Longrightarrow> names_inv num (replicate (unat num) None)" "occupied (replicate m None) = 0" "names_of (replicate m None) = {}"
  by (auto simp: names_inv_def probed_def name_at_def occupied_def names_of_def)

lemma filter_init_holds:
  assumes "names_setting_ok v"
  shows "\<exists>tbl. dnsqr_filter_init h w v = Ret tbl \<and> table_holds tbl (case v of None \<Rightarrow> {} | Some names \<Rightarrow> listed_names w names)"
proof (cases v)
  case None
  then show ?thesis by (simp add: dnsqr_filter_init_def table_holds_def)
next
  case (Some names)
  let ?k = "1 + length (filter (\<lambda>c. c = 58) names)"
  let ?num = "of_nat ?k * 2 :: u32" and ?tokens = "name_tokens names"
  have k: "?k < 2 ^ 31" "?tokens \<noteq> []" using assms Some by (simp_all add: names_setting_ok_def)
  have "?num = of_nat (?k * 2)" by simp
  then have u: "unat ?num = ?k * 2" using k(1) by (simp only:) (intro unat_of_nat_u32, simp)
  have "?num \<noteq> 0" using u by (metis add_is_0 mult_is_0 one_neq_zero unsigned_0 zero_neq_numeral)
  note new = names_new(1) [OF this] names_new(2) [of "unat ?num"]
  then have "\<exists>t. insert_tokens h w (replicate (unat ?num) None) ?num ?tokens = Ret t \<and> names_inv ?num t \<and>
      occupied t < unat ?num \<and> names_of t = names_of (replicate (unat ?num) None) \<union> listed_names w names"
    unfolding listed_names_def using name_tokens_count [of names] u by (intro insert_tokens_ok) auto
  then show ?thesis using k(2) Some by (auto simp: dnsqr_filter_init_def table_holds_def Let_def names_new(3))
qed

section \<open>Suffixes\<close>

text \<open>The names that are looked up: a name, and what is left when its first labels are chopped off, up to the root.\<close>

inductive has_suffix :: "wdns \<Rightarrow> byte list \<Rightarrow> byte list \<Rightarrow> bool" for w where
  whole: "has_suffix w name name"
| chopped: "length name \<noteq> 1 \<Longrightarrow> wdns_left_chop w name = Some name' \<Longrightarrow> has_suffix w name' s \<Longrightarrow> has_suffix w name s"

text \<open>
  What is relied on: chopping makes a name shorter. Of a name of one octet, the root, nothing is asked: the library
  gives the root itself for it, and the code does not chop it.
\<close>

definition chop_shortens :: "wdns \<Rightarrow> bool" where
  "chop_shortens w \<longleftrightarrow> (\<forall>name name'. length name \<noteq> 1 \<longrightarrow> wdns_left_chop w name = Some name' \<longrightarrow> length name' < length name)"

lemma suffix_lookup_eq:
  assumes "chop_shortens w" and "names_inv num table" and "occupied table < unat num" and "length name < fuel"
  shows "suffix_lookup fuel h w table num name = Ret (\<exists>s \<in> names_of table. has_suffix w name s)"
  using assms(4)
proof (induction fuel arbitrary: name)
  case (Suc fuel)
  note look = filter_lookup [OF assms(2,3), of h name]
  have rest: "(\<exists>s \<in> names_of table. has_suffix w name s) \<longleftrightarrow> name \<in> names_of table \<or> length name \<noteq> 1 \<and>
      (\<exists>name'. wdns_left_chop w name = Some name' \<and> (\<exists>s \<in> names_of table. has_suffix w name' s))"
    by (subst has_suffix.simps) (auto intro: has_suffix.intros)
  show ?case
  proof (cases "length name = 1 \<or> wdns_left_chop w name = None")
    case True
    with look rest show ?thesis by auto
  next
    case False
    then obtain name' where name': "length name \<noteq> 1" "wdns_left_chop w name = Some name'" by auto
    then have "length name' < length name" using assms(1) by (simp add: chop_shortens_def)
    then have "length name' < fuel" using Suc.prems by simp
    from Suc.IH [OF this] look rest name' show ?thesis by auto
  qed
qed simp

lemma name_in_table_eq:
  assumes "chop_shortens w" and "table_holds tbl names"
  shows "name_in_table h w tbl qname = Ret (\<exists>s \<in> names. has_suffix w (wdns_downcase_name w qname) s)"
proof (cases tbl)
  case None
  with assms(2) show ?thesis by (simp add: name_in_table_def table_holds_def)
next
  case (Some x)
  obtain table num where x: "x = (table, num)" by (cases x)
  with assms(2) Some have t: "names_inv num table" "occupied table < unat num" "names_of table = names"
    by (simp_all add: table_holds_def)
  let ?name = "wdns_downcase_name w qname"
  from suffix_lookup_eq [OF assms(1) t(1,2), of ?name "length ?name + 1"] t(3) x Some show ?thesis
    by (simp add: name_in_table_def Let_def del: suffix_lookup.simps)
qed

section \<open>Property\<close>

definition listed :: "wdns \<Rightarrow> byte list option \<Rightarrow> byte list \<Rightarrow> bool" where
  "listed w v qname \<longleftrightarrow> (case v of None \<Rightarrow> False
     | Some names \<Rightarrow> \<exists>s \<in> listed_names w names. has_suffix w (wdns_downcase_name w qname) s)"

text \<open>
  C22. The names that are left out: after \<^verbatim>\<open>dnsqr_init\<close>, which then succeeds, \<^verbatim>\<open>do_filter_query_name\<close> drops a query
  exactly when its name or one of its suffixes is in the list to exclude and none is in the list to include; letters
  count as lower case, and neither the hashes nor repeated or invalid entries of the lists matter. A list to include
  alone drops nothing. A list that is set has at least one entry and fewer than 2 to the 31; of the wdns library it is used
  that chopping a label off a name other than the root makes it shorter.
\<close>

theorem dnsqr_name_filter:
  assumes "names_setting_ok (se_include se)" and "names_setting_ok (se_exclude se)" and "chop_shortens (ev_wdns env)"
  shows "\<exists>ctx. dnsqr_init env se = Ret ctx \<and>
    (\<forall>q. do_filter_query_name env ctx q = Ret (case dq_qname q of
        None \<Rightarrow> False
      | Some qname \<Rightarrow> listed (ev_wdns env) (se_exclude se) qname \<and> \<not> listed (ev_wdns env) (se_include se) qname))"
proof -
  let ?names = "\<lambda>v. case v of None \<Rightarrow> {} | Some names \<Rightarrow> listed_names (ev_wdns env) names"
  obtain inc exc where t: "dnsqr_filter_init (ev_host env) (ev_wdns env) (se_include se) = Ret inc"
    "table_holds inc (?names (se_include se))" "dnsqr_filter_init (ev_host env) (ev_wdns env) (se_exclude se) = Ret exc"
    "table_holds exc (?names (se_exclude se))"
    using filter_init_holds [OF assms(1)] filter_init_holds [OF assms(2)] by blast
  then obtain ctx where ctx: "dnsqr_init env se = Ret ctx" "dc_include ctx = inc" "dc_exclude ctx = exc"
    by (cases "table_sizes (se_table_max se)") (auto simp: dnsqr_init_def)
  have "listed (ev_wdns env) v qname \<longleftrightarrow> (\<exists>s \<in> ?names v. has_suffix (ev_wdns env) (wdns_downcase_name (ev_wdns env) qname) s)"
    for v qname by (simp add: listed_def split: option.split)
  then show ?thesis
    using ctx name_in_table_eq [OF assms(3) t(2)] name_in_table_eq [OF assms(3) t(4)]
    by (intro exI [of _ ctx]) (auto simp: do_filter_query_name_def split: option.split)
qed

text \<open>A library whose root chops to itself. Names of one label are excluded; a name in upper case below one of them is dropped.\<close>

definition w_labels :: wdns where
  "w_labels = \<lparr>wdns_skip_name = (\<lambda>_. 1), wdns_downcase_name = map (\<lambda>c. if 65 \<le> c \<and> c \<le> 90 then c + 32 else c),
     wdns_left_chop = (\<lambda>name. case name of [] \<Rightarrow> None
       | n # rest \<Rightarrow> if n = 0 \<and> rest = [] then Some name
           else if n = 0 \<or> unat n > length rest then None else Some (drop (unat n) rest)),
     wdns_str_to_name = (\<lambda>s. if s = [33] then None else Some (of_nat (length s) # s @ [0]))\<rparr>"

definition w_named_env :: dnsqr_env where
  "w_named_env = \<lparr>ev_host = \<lparr>h_little = True, h_key_addr = 0, h_key6_addr = 0, h_stack = (\<lambda>_. 0)\<rparr>, ev_wdns = w_labels,
     ev_alloc = (\<lambda>_. True), ev_datalink = DLT_RAW, ev_bpf = None, ev_buffer = []\<rparr>"

definition w_excluding :: dnsqr_settings where
  "w_excluding = \<lparr>se_capture_qr = None, se_capture_rd = None, se_zero = None, se_table_max = None,
     se_query_timeout = None, se_include = None, se_exclude = Some [33, 58, 111, 114, 103]\<rparr>"

lemma w_tokens: "name_tokens [33, 58, 111, 114, 103] = [[33], [111, 114, 103]]"
  by code_simp

lemma w_chops: "chop_shortens w_labels"
  by (auto simp: chop_shortens_def w_labels_def split: list.splits)

lemma w_listed: "listed w_labels (Some [33, 58, 111, 114, 103]) [3, 87, 87, 87, 3, 79, 82, 71, 0]"
proof -
  have "[3, 111, 114, 103, 0] \<in> listed_names w_labels [33, 58, 111, 114, 103]"
    unfolding listed_names_def w_tokens by (auto simp: w_labels_def intro!: exI [of _ "[3, 111, 114, 103, 0]"])
  moreover have "has_suffix w_labels [3, 119, 119, 119, 3, 111, 114, 103, 0] [3, 111, 114, 103, 0]"
    by (rule has_suffix.chopped [OF _ _ has_suffix.whole]) (simp_all add: w_labels_def)
  ultimately show ?thesis by (auto simp: listed_def w_labels_def)
qed

theorem dnsqr_name_filter_witness:
  "\<exists>ctx. dnsqr_init w_named_env w_excluding = Ret ctx \<and>
     do_filter_query_name w_named_env ctx (dnsqr_empty\<lparr>dq_qname := Some [3, 87, 87, 87, 3, 79, 82, 71, 0]\<rparr>) = Ret True"
proof -
  have "names_setting_ok (se_include w_excluding)" "names_setting_ok (se_exclude w_excluding)"
    by (simp_all add: names_setting_ok_def w_excluding_def w_tokens)
  note filter = dnsqr_name_filter [OF this, of w_named_env]
  have w: "ev_wdns w_named_env = w_labels" by (simp add: w_named_env_def)
  from filter [unfolded w, OF w_chops] obtain ctx where
    ctx: "dnsqr_init w_named_env w_excluding = Ret ctx"
    "\<And>q. do_filter_query_name w_named_env ctx q = Ret (case dq_qname q of None \<Rightarrow> False
      | Some qname \<Rightarrow> listed w_labels (se_exclude w_excluding) qname \<and> \<not> listed w_labels (se_include w_excluding) qname)"
    by blast
  then show ?thesis using w_listed by (auto simp: w_excluding_def dnsqr_empty_def listed_def [of _ None])
qed

end
