(* ===== verification/Dnsqr_Fields.thy ===== *)
theory Dnsqr_Fields
  imports Dnsqr_Step Ipdg_Reasm
begin

text \<open>
  The fields of a DNS message that are computed when they are asked for (nmsg/base/dnsqr.c): the DNS messages in the
  packets of the query and the response, and the verdict on the checksum. The packets of a message may come from the
  network, so that nothing is known of them.
\<close>

section \<open>Fields\<close>

text \<open>
  A field's value is a result code and, after a success, where the value lies and its length. \<open>None\<close> stands for a
  payload that cannot be decoded.
\<close>

type_synonym field_value = "nmsg_res \<times> (pkt_ptr \<times> u32) option"

definition dnsqr_get_udp_checksum :: "bool \<Rightarrow> dnsqr option \<Rightarrow> nat \<Rightarrow> (nmsg_res \<times> dnsqr option) run" where
  "dnsqr_get_udp_checksum little msg val_idx =
     (case msg of
        None \<Rightarrow> Ret (nmsg_res_failure, msg)
      | Some q \<Rightarrow>
          if val_idx \<noteq> 0 \<or> dq_response_packet q = [] then Ret (nmsg_res_failure, msg)
          else if dq_udp_checksum q = None then
            run_bind (dnsqr_checksum_verify little q) (\<lambda>c. Ret (nmsg_res_success, Some (q\<lparr>dq_udp_checksum := Some c\<rparr>)))
          else Ret (nmsg_res_success, msg))"

text \<open>The type of the network is taken from the length of an address.\<close>

definition parse_by_address :: "byte list option \<Rightarrow> u64 \<Rightarrow> byte list \<Rightarrow> (nmsg_res \<times> nmsg_ipdg) run" where
  "parse_by_address ip len pkt =
     (if length (opt_bytes ip) = 4 then nmsg_ipdg_parse dg_unset ETHERTYPE_IP len pkt 0
      else if length (opt_bytes ip) = 16 then nmsg_ipdg_parse dg_unset ETHERTYPE_IPV6 len pkt 0
      else Ret (nmsg_res_failure, dg_unset))"

definition payload_value :: "nmsg_res \<times> nmsg_ipdg \<Rightarrow> field_value" where
  "payload_value = (\<lambda>(res, dg). if res \<noteq> nmsg_res_success then (nmsg_res_failure, None)
     else (nmsg_res_success, Some (dg_payload dg, dg_len_payload dg)))"

definition dnsqr_get_query :: "dnsqr option \<Rightarrow> nat \<Rightarrow> field_value run" where
  "dnsqr_get_query msg val_idx =
     (case msg of
        None \<Rightarrow> Ret (nmsg_res_failure, None)
      | Some q \<Rightarrow>
          (case dq_query_packet q of
             [pkt] \<Rightarrow>
               if val_idx \<noteq> 0 then Ret (nmsg_res_failure, None)
               else run_bind (if dq_query_ip q \<noteq> None then parse_by_address (dq_query_ip q) (of_nat (length pkt)) pkt
                   else Ret (nmsg_res_failure, dg_unset)) (\<lambda>r. Ret (payload_value r))
           | _ \<Rightarrow> Ret (nmsg_res_failure, None)))"

text \<open>
  The entry that the fragments of a response are added to, \<open>None\<close> when one of them is no fragment or does not fit.
  There should be a time for each packet.
\<close>

fun response_frags ::
  "(nat \<Rightarrow> bool) \<Rightarrow> base_entry \<Rightarrow> byte list list \<Rightarrow> int list \<Rightarrow> int list \<Rightarrow> base_entry option run" where
  "response_frags ok e [] secs nsecs = Ret (Some e)"
| "response_frags ok e (pkt # pkts) (s # secs) (ns # nsecs) =
     run_bind (reasm_parse_packet ok pkt (of_nat (length pkt)) \<lparr>tv_sec = s, tv_nsec = ns\<rparr>) (\<lambda>p.
       case p of
         None \<Rightarrow> Ret None
       | Some (frag, proto, d, hash, is_last) \<Rightarrow>
           (case reasm_add_fragment (e\<lparr>be_protocol := proto\<rparr>) frag is_last of
              (False, _) \<Rightarrow> Ret None
            | (True, e') \<Rightarrow> response_frags ok e' pkts secs nsecs))"
| "response_frags ok e (pkt # pkts) _ _ = Fault"

definition response_entry :: base_entry where
  "response_entry = \<lparr>be_id = Id_ipv4 \<lparr>ip4_src = [], ip4_dst = [], ip4_id = 0, ip4_proto = 0\<rparr>, be_len = 0, be_holes = 1,
     be_frag_count = 0, be_hash = 0, be_timeout = 0, be_state = STATE_ACTIVE, be_protocol = PROTO_IPV4, be_frags = []\<rparr>"

text \<open>\<open>kept\<close> is the success of \<^verbatim>\<open>nmsg_message_add_allocation\<close>, \<open>buf\<close> what the new packet buffer holds.\<close>

definition dnsqr_get_response ::
  "(nat \<Rightarrow> bool) \<Rightarrow> bool \<Rightarrow> byte list \<Rightarrow> dnsqr option \<Rightarrow> nat \<Rightarrow> field_value run" where
  "dnsqr_get_response ok kept buf msg val_idx =
     (case msg of
        None \<Rightarrow> Ret (nmsg_res_failure, None)
      | Some q \<Rightarrow>
          if val_idx \<noteq> 0 \<or> dq_response_packet q = [] then Ret (nmsg_res_failure, None)
          else if dq_response_ip q = None then Ret (nmsg_res_failure, None)
          else if length (dq_response_packet q) > 1 then
            run_bind (response_frags ok response_entry (dq_response_packet q) (dq_response_time_sec q) (dq_response_time_nsec q))
              (\<lambda>r. case r of
                 None \<Rightarrow> Ret (nmsg_res_memfail, None)
               | Some e \<Rightarrow>
                   if \<not> reasm_is_complete e then Ret (nmsg_res_failure, None)
                   else if \<not> kept then Ret (nmsg_res_memfail, None)
                   else run_bind (reasm_assemble e buf 65536) (\<lambda>(pkt, pkt_len).
                     if pkt_len = 0 then Ret (nmsg_res_failure, None)
                     else run_bind (nmsg_ipdg_parse dg_unset
                         (case be_protocol e of PROTO_IPV4 \<Rightarrow> ETHERTYPE_IP | PROTO_IPV6 \<Rightarrow> ETHERTYPE_IPV6) pkt_len pkt 0)
                       (\<lambda>r. Ret (payload_value r))))
          else
            run_bind (parse_by_address (dq_response_ip q) (of_nat (length (hd (dq_response_packet q)))) (hd (dq_response_packet q)))
              (\<lambda>r. Ret (payload_value r)))"

text \<open>The octets of a value.\<close>

definition value_octets :: "field_value \<Rightarrow> byte list option" where
  "value_octets v = (case v of (_, Some (Some (pkt, off), len)) \<Rightarrow> Some (take (unat len) (drop off pkt)) | _ \<Rightarrow> None)"

section \<open>The fragments of a response\<close>

text \<open>What a packet holds as a fragment over IPv4, as theory Ipreasm has it.\<close>

definition packet_frag :: "byte list \<Rightarrow> (reasm_frag_entry \<times> bool) option" where
  "packet_frag pkt = (case reasm_parse_packet (\<lambda>_. True) pkt (of_nat (length pkt)) \<lparr>tv_sec = 0, tv_nsec = 0\<rparr> of
     Ret (Some (f, PROTO_IPV4, d, h, final)) \<Rightarrow> Some (abs_frag PROTO_IPV4 f, final) | _ \<Rightarrow> None)"

lemma parse_packet_time:
  "reasm_parse_packet ok pkt len ts = run_bind (reasm_parse_packet ok pkt len ts0) (\<lambda>p.
     Ret (map_option (\<lambda>(f, r). (f\<lparr>bf_ts := ts\<rparr>, r)) p))"
proof -
  have 4: "base_frag_from_ipv4 ok pkt len ts = run_bind (base_frag_from_ipv4 ok pkt len ts0) (\<lambda>p.
      Ret (map_option (\<lambda>(f, r). (f\<lparr>bf_ts := ts\<rparr>, r)) p))"
    by (simp add: base_frag_from_ipv4_def run_bind_assoc if_distrib [where f = "\<lambda>r. run_bind r _"] Let_def cong: run_bind_cong if_cong)
  have 6: "base_frag_from_ipv6 ok pkt ts = run_bind (base_frag_from_ipv6 ok pkt ts0) (\<lambda>p.
      Ret (map_option (\<lambda>(f, r). (f\<lparr>bf_ts := ts\<rparr>, r)) p))"
    by (auto simp: base_frag_from_ipv6_def run_bind_assoc Let_def intro!: run_bind_cong split: option.split)
  show ?thesis
    by (auto simp: reasm_parse_packet_def run_bind_assoc 4 6 Let_def option.map_comp comp_def split_def
        intro!: run_bind_cong map_option_cong split: option.split)
qed

lemma packet_frag_parse:
  assumes "packet_frag pkt = Some (g, final)"
  obtains f d h where "reasm_parse_packet (\<lambda>_. True) pkt (of_nat (length pkt)) ts = Ret (Some (f, PROTO_IPV4, d, h, final))"
    "abs_frag PROTO_IPV4 f = g"
proof -
  from assms obtain f d h where "reasm_parse_packet (\<lambda>_. True) pkt (of_nat (length pkt)) \<lparr>tv_sec = 0, tv_nsec = 0\<rparr> =
      Ret (Some (f, PROTO_IPV4, d, h, final))" "abs_frag PROTO_IPV4 f = g"
    by (auto simp: packet_frag_def split: run.splits option.splits reasm_proto.splits)
  with parse_packet_time [of "\<lambda>_. True" pkt "of_nat (length pkt)" ts "\<lparr>tv_sec = 0, tv_nsec = 0\<rparr>"] that show thesis
    by (simp add: abs_frag_def)
qed

lemma response_frags_arrive:
  assumes fs: "whole fs" and "has_frags fs S (abs_base_entry e)" and "entry_ok (abs_base_entry e)" and "base_entry_ok e"
    and "be_protocol e = PROTO_IPV4" and "S \<subseteq> set fs" and "distinct gs" and "set gs \<inter> S = {}" and "set gs \<subseteq> set fs"
    and "map packet_frag pkts = map (\<lambda>g. Some (g, g = last fs)) gs" and "\<forall>g \<in> set gs. frag_sane PROTO_IPV4 g (g = last fs)"
    and "length secs = length pkts" and "length nsecs = length pkts"
  shows "\<exists>e'. response_frags (\<lambda>_. True) e pkts secs nsecs = Ret (Some e') \<and> has_frags fs (S \<union> set gs) (abs_base_entry e') \<and>
    entry_ok (abs_base_entry e') \<and> base_entry_ok e' \<and> be_protocol e' = PROTO_IPV4"
  using assms(2-)
proof (induction pkts arbitrary: gs S e secs nsecs)
  case (Cons pkt pkts)
  obtain g gs' where gs: "gs = g # gs'" using Cons.prems(9) by (cases gs) auto
  obtain s secs' ns nsecs' where t: "secs = s # secs'" "nsecs = ns # nsecs'"
    using Cons.prems(11,12) by (cases secs; cases nsecs) auto
  have pf: "packet_frag pkt = Some (g, g = last fs)" using Cons.prems(9) gs by simp
  obtain f d h where f: "reasm_parse_packet (\<lambda>_. True) pkt (of_nat (length pkt)) \<lparr>tv_sec = s, tv_nsec = ns\<rparr> =
      Ret (Some (f, PROTO_IPV4, d, h, g = last fs))" "abs_frag PROTO_IPV4 f = g" using packet_frag_parse [OF pf] by blast
  have same: "e\<lparr>be_protocol := PROTO_IPV4\<rparr> = e" using Cons.prems(4) by (cases e) simp
  have g: "g \<in> set fs" "g \<notin> S" "frag_sane PROTO_IPV4 g (g = last fs)" using Cons.prems(7,8,10) gs by auto
  obtain b e' where e': "reasm_add_fragment e f (g = last fs) = (b, e')" by (cases "reasm_add_fragment e f (g = last fs)")
  from add_arrived [OF fs Cons.prems(1) g(1,2) Cons.prems(5)] abs_add_fragment [of e f "g = last fs"] f(2) e' Cons.prems(4)
  have add: "b = True" "has_frags fs (insert g S) (abs_base_entry e')"
    "add_fragment (abs_base_entry e) g (g = last fs) = (True, abs_base_entry e')" by auto
  have ok: "entry_ok (abs_base_entry e')"
    using add_fragment_ok [OF Cons.prems(2) _ add(3)] g(3) by (simp add: frag_sane_def)
  have bf: "base_frag_ok (be_protocol e) f" using Cons.prems(4) by (simp add: base_frag_ok_def)
  note keeps = reasm_add_fragment_keeps [OF e' Cons.prems(3) bf]
  have "insert g S \<subseteq> set fs" "distinct gs'" "set gs' \<inter> insert g S = {}" "set gs' \<subseteq> set fs"
    using Cons.prems(5-8) gs by auto
  with Cons.IH [OF add(2) ok _ _ this, of secs' nsecs'] keeps Cons.prems(4,9-12) gs t obtain e2 where
    "response_frags (\<lambda>_. True) e' pkts secs' nsecs' = Ret (Some e2)" "has_frags fs (insert g S \<union> set gs') (abs_base_entry e2)"
    "entry_ok (abs_base_entry e2)" "base_entry_ok e2" "be_protocol e2 = PROTO_IPV4" by auto
  moreover have "response_frags (\<lambda>_. True) e (pkt # pkts) secs nsecs = response_frags (\<lambda>_. True) e' pkts secs' nsecs'"
    using e' add(1) by (simp add: t f(1) same)
  ultimately show ?case by (simp add: gs)
qed simp

lemma parsed_payload: "nmsg_ipdg_parse dg etype len pkt base = Ret (nmsg_res_success, dg') \<Longrightarrow> dg_payload dg' \<noteq> None"
proof -
  assume "nmsg_ipdg_parse dg etype len pkt base = Ret (nmsg_res_success, dg')"
  then obtain dg1 off len1 where "ipdg_transport dg1 pkt off len1 = Ret (nmsg_res_success, dg')"
    by (cases "ipdg_network dg etype len pkt base") (auto simp: nmsg_ipdg_parse_def split: option.splits if_splits)
  then obtain dg2 where "udp_header dg2 pkt off len1 = Ret (nmsg_res_success, dg')"
    by (auto simp: ipdg_transport_def Let_def split: if_splits)
  then show ?thesis by (auto simp: udp_header_def Let_def split: if_splits)
qed

lemma reasm_assemble_length: "reasm_assemble e out k = Ret (out', n) \<Longrightarrow> n = ucast (ucast n :: u32)"
  by (auto simp: reasm_assemble_def Let_def split: list.splits if_splits)

text \<open>
  C9. The DNS message in a response over IPv4 that came in fragments: whatever the order of the fragments' packets in the
  message, \<^verbatim>\<open>dnsqr_get_response\<close> finds exactly the octets that the UDP datagram carried. (Over IPv6 the extension headers
  of the fragments stay in front of the UDP header, and it does not.)
\<close>

theorem dnsqr_get_response_any_order:
  assumes frags: "map packet_frag (dq_response_packet q) = map (\<lambda>g. Some (g, g = last fs)) gs" "mset gs = mset fs"
      "\<forall>g \<in> set fs. frag_sane PROTO_IPV4 g (g = last fs)"
    and q: "dq_response_ip q = Some ip" "length (dq_response_time_sec q) = length (dq_response_packet q)"
      "length (dq_response_time_nsec q) = length (dq_response_packet q)" "1 < length (dq_response_packet q)"
    and fs: "whole fs" "\<forall>f \<in> set fs. piece_of P f" "chain_end 0 fs = length P"
    and P: "P = udp_hdr ports (length data) cksum @ data" "4 \<le> length ports" "2 \<le> length cksum"
    and hdr: "hdr = packet_header PROTO_IPV4 (hd fs)" "hdr ! 9 = IPPROTO_UDP" "length hdr + length P \<le> 65535"
    and buf: "length buf = 65536"
  shows "\<exists>v. dnsqr_get_response (\<lambda>_. True) True buf (Some q) 0 = Ret v \<and> fst v = nmsg_res_success \<and> value_octets v = Some data"
proof -
  have ch: "chained 0 fs" "gaps 0 fs = 0" "fs \<noteq> []" using fs(1) by (simp_all add: whole_def)
  have gs: "distinct gs" "set gs = set fs"
    using chained_distinct [OF ch(1)] frags(2) mset_eq_setD [OF frags(2)] by (simp_all add: distinct_count_atmost_1)
  have start: "has_frags fs {} (abs_base_entry response_entry)" "entry_ok (abs_base_entry response_entry)"
    "base_entry_ok response_entry" "be_protocol response_entry = PROTO_IPV4"
    by (simp_all add: has_frags_def abs_base_entry_def response_entry_def entry_ok_def base_entry_ok_def)
  have sane: "\<forall>g \<in> set gs. frag_sane PROTO_IPV4 g (g = last fs)" using frags(3) gs(2) by simp
  from response_frags_arrive [OF fs(1) start _ gs(1) _ _ frags(1) sane q(2,3)] gs(2) obtain e where
    e: "response_frags (\<lambda>_. True) response_entry (dq_response_packet q) (dq_response_time_sec q) (dq_response_time_nsec q) =
        Ret (Some e)" "has_frags fs (set fs) (abs_base_entry e)" "entry_ok (abs_base_entry e)" "base_entry_ok e"
      "be_protocol e = PROTO_IPV4" by auto
  have complete: "is_complete (abs_base_entry e)" using has_frags_complete [OF fs(1) e(2,3)] by simp
  have ef: "e_frags (abs_base_entry e) = fs" "e_protocol (abs_base_entry e) = PROTO_IPV4"
    using e(2,5) by (simp_all add: has_frags_def abs_base_entry_def)
  define p where "p = packet_of PROTO_IPV4 fs"
  have room: "header_room PROTO_IPV4 (hd fs)" using frags(3) ch(3) by (auto simp: frag_sane_def)
  note len_hdr = length_packet_header [OF room, folded hdr(1)]
  have p: "p = ipv4_header hdr (of_nat (length hdr + length P)) @ P"
    using concat_pieces [OF ch(1,2) fs(2)] fs(3) by (simp add: p_def packet_of_def hdr(1) fixed_header_def Let_def)
  then have lp: "length p = length hdr + length P" using len_hdr by (simp add: length_ipv4_header)
  have out: "length buf = unat (65536 :: u32)" using buf by simp
  have "\<forall>f \<in> set fs. frag_stored f \<and> header_room PROTO_IPV4 f" using frags(3) by (auto simp: frag_sane_def)
  with assemble_packet [OF e(3) complete _ out] ef lp hdr(3) buf
  have "assemble (abs_base_entry e) buf 65536 = Ret (p @ drop (length p) buf, of_nat (length p))" by (simp add: p_def Let_def)
  with abs_assemble [OF e(4), of buf 65536] obtain n :: u64 where
    asm: "reasm_assemble e buf 65536 = Ret (p @ drop (length p) buf, n)" "ucast n = (of_nat (length p) :: u32)"
    by (cases "reasm_assemble e buf 65536") auto
  have n: "n = ucast (of_nat (length hdr + length P) :: u32)"
    using reasm_assemble_length [OF asm(1)] unfolding asm(2) lp .
  have m: "p @ drop (length p) buf = ipv4_header hdr (of_nat (length hdr + length P)) @ P @ drop (length p) buf" by (simp add: p)
  from reassembled_udp [OF room hdr(1,2) P hdr(3) m refl, of dg_unset, folded n] obtain dg where
    dg: "nmsg_ipdg_parse dg_unset ETHERTYPE_IP n (p @ drop (length p) buf) 0 = Ret (nmsg_res_success, dg)" "dg_octets dg = data"
    by blast
  have "unat (of_nat (length hdr + length P) :: u32) = length hdr + length P" using hdr(3) by (intro unat_of_nat_u32) simp
  then have "unat n = length hdr + length P" unfolding n by (simp only: unat_ucast_up)
  then have "n \<noteq> 0" using len_hdr by auto
  then have "dnsqr_get_response (\<lambda>_. True) True buf (Some q) 0 = Ret (payload_value (nmsg_res_success, dg))"
    using q e(1,5) complete asm(1) dg(1) by (auto simp: dnsqr_get_response_def abs_entry_state)
  then show ?thesis
    using dg(2) parsed_payload [OF dg(1)]
    by (auto simp: payload_value_def value_octets_def dg_octets_def split: option.splits)
qed

definition w_fragmented :: dnsqr where
  "w_fragmented = dnsqr_empty\<lparr>dq_response_ip := Some [10, 0, 0, 1],
     dq_response_packet := [fr_data (u_frags ! 2), fr_data (u_frags ! 0), fr_data (u_frags ! 1)],
     dq_response_time_sec := [1, 2, 3], dq_response_time_nsec := [0, 0, 0]\<rparr>"

lemma w_packet_frags:
  "packet_frag (fr_data (u_frags ! 0)) = Some (u_frags ! 0, False)" "packet_frag (fr_data (u_frags ! 1)) = Some (u_frags ! 1, False)"
  "packet_frag (fr_data (u_frags ! 2)) = Some (u_frags ! 2, True)"
  by code_simp+

theorem dnsqr_get_response_any_order_witness:
  "\<exists>v. dnsqr_get_response (\<lambda>_. True) True (replicate 65536 0) (Some w_fragmented) 0 = Ret v \<and> fst v = nmsg_res_success \<and>
     value_octets v = Some [1, 2, 3, 4, 5, 6, 7, 8, 9, 10]"
proof -
  let ?data = "[1, 2, 3, 4, 5, 6, 7, 8, 9, 10] :: byte list"
  let ?gs = "[u_frags ! 2, u_frags ! 0, u_frags ! 1]"
  have last: "(u_frags ! 2 = last u_frags) = True" "(u_frags ! 0 = last u_frags) = False" "(u_frags ! 1 = last u_frags) = False"
    by (simp_all add: u_frags_def v4_entry_def)
  have order: "map packet_frag (dq_response_packet w_fragmented) = map (\<lambda>g. Some (g, g = last u_frags)) ?gs"
    by (simp only: list.map last) (simp add: w_fragmented_def w_packet_frags del: One_nat_def)
  have perm: "mset ?gs = mset u_frags" by (simp add: u_frags_def)
  have sane: "\<forall>g \<in> set u_frags. frag_sane PROTO_IPV4 g (g = last u_frags)" using u_frags_ok(1) by (simp add: frag_sane_def)
  have P: "u_octets = udp_hdr [0, 53, 0, 53] (length ?data) [0, 0] @ ?data"
    by (simp add: u_octets_def udp_hdr_def store_net16_def)
  have hdr: "packet_header PROTO_IPV4 (hd u_frags) ! 9 = IPPROTO_UDP"
    "length (packet_header PROTO_IPV4 (hd u_frags)) + length u_octets \<le> 65535"
    by (simp_all add: packet_header_def header_size_def u_frags_def v4_entry_def v4_fragment_def store_net16_def
      IPPROTO_UDP_def u_octets_def)
  show ?thesis
    by (rule dnsqr_get_response_any_order [OF order perm sane _ _ _ _ u_frags_ok(3,2,4) P _ _ refl hdr])
      (simp_all add: w_fragmented_def)
qed

section \<open>A response that crashes\<close>

text \<open>
  An IPv6 packet with a Fragment header, offset 0 and no octet behind it: the first and last fragment, or one that
  more follow.
\<close>

definition empty_fragment :: "bool \<Rightarrow> byte list" where
  "empty_fragment final = [0x60, 0, 0, 0, 0, 8, 44, 64] @ replicate 32 0 @ [17, 0, 0, if final then 0 else 1, 0, 0, 0, 7]"

lemma empty_fragment_parse:
  "run_bind (reasm_parse_packet (\<lambda>_. True) (empty_fragment True) 48 \<lparr>tv_sec = s, tv_nsec = ns\<rparr>) (\<lambda>p. Ret
      (map_option (\<lambda>(f, proto, d, h, l). (bf_len f, bf_offset f, proto, l)) p)) = Ret (Some (0, 0, PROTO_IPV6, True))"
  "run_bind (reasm_parse_packet (\<lambda>_. True) (empty_fragment False) 48 \<lparr>tv_sec = s, tv_nsec = ns\<rparr>) (\<lambda>p. Ret
      (map_option (\<lambda>(f, proto, d, h, l). (bf_len f, bf_offset f, proto, l)) p)) = Ret (Some (0, 0, PROTO_IPV6, False))"
  by code_simp+

text \<open>
  C27. A message from the network can make \<^verbatim>\<open>dnsqr_get_response\<close> follow a NULL pointer: with two such packets as its
  response, the first of them the last fragment, the entry is complete without any fragment, and
  \<^verbatim>\<open>reasm_assemble\<close> takes the first one.
\<close>

theorem dnsqr_get_response_faults:
  "dnsqr_get_response (\<lambda>_. True) True buf (Some (dnsqr_empty\<lparr>dq_response_ip := Some ip,
     dq_response_packet := [empty_fragment True, empty_fragment False], dq_response_time_sec := [s1, s2],
     dq_response_time_nsec := [n1, n2]\<rparr>)) 0 = Fault"
proof -
  have p: "\<exists>f d h. reasm_parse_packet (\<lambda>_. True) (empty_fragment final) 48 \<lparr>tv_sec = s, tv_nsec = ns\<rparr> =
      Ret (Some (f, PROTO_IPV6, d, h, final)) \<and> bf_len f = 0 \<and> bf_offset f = 0" for final s ns
    using empty_fragment_parse [of s ns] by (cases final) auto
  obtain f1 d1 h1 where 1: "reasm_parse_packet (\<lambda>_. True) (empty_fragment True) 48 \<lparr>tv_sec = s1, tv_nsec = n1\<rparr> =
      Ret (Some (f1, PROTO_IPV6, d1, h1, True))" "bf_len f1 = 0" "bf_offset f1 = 0" using p by blast
  obtain f2 d2 h2 where 2: "reasm_parse_packet (\<lambda>_. True) (empty_fragment False) 48 \<lparr>tv_sec = s2, tv_nsec = n2\<rparr> =
      Ret (Some (f2, PROTO_IPV6, d2, h2, False))" "bf_len f2 = 0" "bf_offset f2 = 0" using p by blast
  have l: "length (empty_fragment final) = 48" for final by (simp add: empty_fragment_def)
  show ?thesis
    by (simp add: dnsqr_get_response_def dnsqr_empty_def l 1 2 response_entry_def reasm_add_fragment_def base_frag_end_def
        reasm_is_complete_def reasm_assemble_def Let_def)
qed

end
