(* ===== verification/Msgmod.thy ===== *)
theory Msgmod
  imports Message Strbuf Cstring "HOL-Library.List_Lexorder"
begin

text \<open>
  Transparent message modules (nmsg/msgmod/transparent.c, transparent_message.c and the types of nmsg/msgmod.h and
  nmsg/msgmod_plugin.h): the table of the fields of a message, and reading and setting them by name or index. A
  message is the C structure that protobuf-c unpacks; its descriptor is generated code and a parameter.
\<close>

section \<open>Fields\<close>

datatype nmsg_msgmod_field_type =
    Ft_enum | Ft_bytes | Ft_string | Ft_mlstring | Ft_ip | Ft_uint16 | Ft_uint32 | Ft_uint64 | Ft_int16 | Ft_int32
  | Ft_int64 | Ft_double | Ft_bool

datatype pb_type =
    PB_SINT32 | PB_INT32 | PB_UINT32 | PB_SFIXED32 | PB_FIXED32 | PB_FLOAT | PB_ENUM
  | PB_SINT64 | PB_INT64 | PB_UINT64 | PB_SFIXED64 | PB_FIXED64 | PB_DOUBLE | PB_BOOL | PB_STRING | PB_MESSAGE | PB_BYTES

datatype pb_label = Label_required | Label_optional | Label_repeated

text \<open>On a machine of 64 bits, where \<^verbatim>\<open>protobuf_c_boolean\<close> is an int.\<close>

definition sizeof_elt_in_repeated_array :: "pb_type \<Rightarrow> nat" where
  "sizeof_elt_in_repeated_array t = (case t of
     PB_SINT32 \<Rightarrow> 4 | PB_INT32 \<Rightarrow> 4 | PB_UINT32 \<Rightarrow> 4 | PB_SFIXED32 \<Rightarrow> 4 | PB_FIXED32 \<Rightarrow> 4 | PB_FLOAT \<Rightarrow> 4 | PB_ENUM \<Rightarrow> 4
   | PB_SINT64 \<Rightarrow> 8 | PB_INT64 \<Rightarrow> 8 | PB_UINT64 \<Rightarrow> 8 | PB_SFIXED64 \<Rightarrow> 8 | PB_FIXED64 \<Rightarrow> 8 | PB_DOUBLE \<Rightarrow> 8
   | PB_BOOL \<Rightarrow> 4 | PB_STRING \<Rightarrow> 8 | PB_MESSAGE \<Rightarrow> 8 | PB_BYTES \<Rightarrow> 16)"

text \<open>
  What is used of a field descriptor of protobuf-c: the offsets of the member and of its quantifier in the structure,
  and for an enum the names and values.
\<close>

record pb_descr =
  pd_name :: "byte list"
  pd_id :: nat
  pd_label :: pb_label
  pd_type :: pb_type
  pd_quant :: nat
  pd_offset :: nat
  pd_enum :: "(byte list \<times> u32) list option"

text \<open>
  The unpacked message. A cell is a scalar, with its octets in the order of the host, or a \<^verbatim>\<open>ProtobufCBinaryData\<close>, a
  length and a pointer to octets; a member is a cell or the array of a repeated field. A quantifier is the count of a
  repeated field, or says whether an optional one is present; the code reads both as \<^verbatim>\<open>int\<close>.
\<close>

datatype pb_cell = Scalar "byte list" | Data nat "byte list option"
datatype pb_member = One pb_cell | Many "pb_cell list"

record pb_msg =
  pm_member :: "nat \<Rightarrow> pb_member option"
  pm_quant :: "nat \<Rightarrow> u32"

definition zero_cell :: "pb_type \<Rightarrow> pb_cell" where
  "zero_cell t = (if t = PB_BYTES then Data 0 None else Scalar (replicate (sizeof_elt_in_repeated_array t) 0))"

text \<open>A structure of zeroes, as \<^verbatim>\<open>calloc\<close> gives it.\<close>

fun pb_members :: "pb_descr list \<Rightarrow> nat \<Rightarrow> pb_member option" where
  "pb_members [] off = None"
| "pb_members (d # ds) off = (if pd_offset d = off then
     Some (if pd_label d = Label_repeated then Many [] else One (zero_cell (pd_type d))) else pb_members ds off)"

definition pb_zero :: "pb_descr list \<Rightarrow> pb_msg" where
  "pb_zero ds = \<lparr>pm_member = pb_members ds, pm_quant = (\<lambda>_. 0)\<rparr>"

text \<open>A pointer to a member, or to an element of the array that a member points to.\<close>

type_synonym pb_ptr = "nat \<times> nat option"

definition pb_peek :: "pb_msg \<Rightarrow> pb_ptr \<Rightarrow> pb_cell run" where
  "pb_peek m p = (case (pm_member m (fst p), snd p) of
     (Some (One c), None) \<Rightarrow> Ret c
   | (Some (Many cs), Some i) \<Rightarrow> if i < length cs then Ret (cs ! i) else Fault
   | _ \<Rightarrow> Fault)"

definition pb_poke :: "pb_msg \<Rightarrow> pb_ptr \<Rightarrow> pb_cell \<Rightarrow> pb_msg run" where
  "pb_poke m p c = (case (pm_member m (fst p), snd p) of
     (Some (One _), None) \<Rightarrow> Ret (m\<lparr>pm_member := (pm_member m)(fst p \<mapsto> One c)\<rparr>)
   | (Some (Many cs), Some i) \<Rightarrow>
       if i < length cs then Ret (m\<lparr>pm_member := (pm_member m)(fst p \<mapsto> Many (cs[i := c]))\<rparr>) else Fault
   | _ \<Rightarrow> Fault)"

text \<open>
  A value as a getter gives it out: the octets at the pointer, if it is not NULL, and the length. Getters and printers
  of a module are functions of the message (and of what the module keeps for it).
\<close>

type_synonym field_value = "byte list option \<times> nat"

definition NMSG_MSGMOD_FIELD_HIDDEN :: u32 where "NMSG_MSGMOD_FIELD_HIDDEN = 0x04"
definition NMSG_MSGMOD_FIELD_NOPRINT :: u32 where "NMSG_MSGMOD_FIELD_NOPRINT = 0x08"

record nmsg_msgmod_field =
  fd_type :: nmsg_msgmod_field_type
  fd_name :: "byte list"
  fd_flags :: u32
  fd_print :: "(pb_msg \<Rightarrow> pb_cell \<Rightarrow> nmsg_strbuf \<Rightarrow> byte list \<Rightarrow> (nmsg_res \<times> nmsg_strbuf) run) option"
  fd_get :: "(pb_msg \<Rightarrow> nat \<Rightarrow> (nmsg_res \<times> field_value) run) option"
  fd_descr :: "pb_descr option"

text \<open>\<open>pl_unpack\<close> and \<open>pl_pack\<close> are \<^verbatim>\<open>protobuf_c_message_unpack\<close> and \<^verbatim>\<open>protobuf_c_message_pack\<close> with the descriptor.\<close>

record nmsg_msgmod_plugin =
  pl_transparent :: bool
  pl_vendor :: u32
  pl_msgtype :: u32
  pl_fields :: "nmsg_msgmod_field list"
  pl_pbdescr :: "pb_descr list option"
  pl_unpack :: "byte list \<Rightarrow> pb_msg option"
  pl_pack :: "pb_msg \<Rightarrow> byte list"

text \<open>\<^verbatim>\<open>struct nmsg_msgmod\<close>; its number of fields is the length of the list.\<close>

record msgmod =
  mm_plugin :: nmsg_msgmod_plugin
  mm_fields :: "nmsg_msgmod_field list"

section \<open>Loading and looking up\<close>

text \<open>
  The loop over the fields of the plug-in that finds their descriptors by name, and whether each has one or a getter;
  at the first one that has neither, it stops.
\<close>

fun find_descrs :: "pb_descr list \<Rightarrow> nmsg_msgmod_field list \<Rightarrow> bool \<times> nmsg_msgmod_field list" where
  "find_descrs ds [] = (True, [])"
| "find_descrs ds (f # fs) =
     (case find (\<lambda>d. pd_name d = fd_name f) ds of
        None \<Rightarrow> if fd_get f = None then (False, f # fs) else let (ok, fs') = find_descrs ds fs in (ok, f # fs')
      | Some d \<Rightarrow> let (ok, fs') = find_descrs ds fs in (ok, f\<lparr>fd_descr := Some d\<rparr> # fs'))"

text \<open>\<^verbatim>\<open>_nmsg_msgmod_load_field_descriptors\<close>: the module gets a table of its own, sorted by name as \<^verbatim>\<open>strcmp\<close> orders.\<close>

definition load_field_descriptors :: "bool \<Rightarrow> msgmod \<Rightarrow> (nmsg_res \<times> msgmod) run" where
  "load_field_descriptors ok m = (case pl_pbdescr (mm_plugin m) of
     None \<Rightarrow> Fault
   | Some ds \<Rightarrow>
       let (found, fs) = find_descrs ds (pl_fields (mm_plugin m));
           m1 = m\<lparr>mm_plugin := (mm_plugin m)\<lparr>pl_fields := fs\<rparr>\<rparr>
       in if \<not> found then Ret (nmsg_res_failure, m1)
          else if \<not> ok then Ret (nmsg_res_memfail, m1\<lparr>mm_fields := []\<rparr>)
          else Ret (nmsg_res_success, m1\<lparr>mm_fields := sort_key fd_name fs\<rparr>))"

text \<open>\<^verbatim>\<open>_nmsg_msgmod_start\<close>; a plug-in whose first field has its descriptor is taken as loaded before.\<close>

definition msgmod_start :: "(nat \<Rightarrow> bool) \<Rightarrow> nmsg_msgmod_plugin \<Rightarrow> msgmod option run" where
  "msgmod_start ok p =
     (if \<not> ok 0 then Ret None
      else
        let m = \<lparr>mm_plugin = p, mm_fields = []\<rparr>;
            check = (\<lambda>m. if pl_vendor p = 0 \<or> pl_msgtype p = 0 then Ret None else Ret (Some m))
        in if pl_transparent p then
             if pl_pbdescr p = None then Ret None
             else if (case pl_fields p of [] \<Rightarrow> True | f # _ \<Rightarrow> fd_descr f = None) then
               run_bind (load_field_descriptors (ok 1) m) (\<lambda>(res, m). if res \<noteq> nmsg_res_success then Ret None else check m)
             else check m
           else check m)"

text \<open>\<^verbatim>\<open>bsearch\<close> with \<^verbatim>\<open>_nmsg_msgmod_field_cmp\<close>, between two indices.\<close>

function field_bsearch :: "nmsg_msgmod_field list \<Rightarrow> byte list \<Rightarrow> nat \<Rightarrow> nat \<Rightarrow> nat option" where
  "field_bsearch fs name l u =
     (if l < u then
        let i = (l + u) div 2 in
        if name < fd_name (fs ! i) then field_bsearch fs name l i
        else if fd_name (fs ! i) < name then field_bsearch fs name (i + 1) u
        else Some i
      else None)"
  by pat_completeness auto
termination by (relation "measure (\<lambda>(fs, name, l, u). u - l)") auto

declare field_bsearch.simps [simp del]

text \<open>\<^verbatim>\<open>_nmsg_msgmod_lookup_field\<close>: the index of the field.\<close>

definition lookup_field :: "msgmod \<Rightarrow> byte list \<Rightarrow> nat option" where
  "lookup_field m name = field_bsearch (mm_fields m) name 0 (length (mm_fields m))"

section \<open>Messages\<close>

record tmessage =
  tm_mod :: "msgmod option"
  tm_message :: "pb_msg option"
  tm_np :: "nmsg_payload option"
  tm_updated :: bool

text \<open>\<^verbatim>\<open>CHECK_TRANSPARENT\<close>: the module when it is there and transparent.\<close>

definition transparent_mod :: "tmessage \<Rightarrow> msgmod option" where
  "transparent_mod msg = (case tm_mod msg of
     None \<Rightarrow> None
   | Some m \<Rightarrow> if pl_transparent (mm_plugin m) \<and> pl_pbdescr (mm_plugin m) \<noteq> None then Some m else None)"

text \<open>
  \<^verbatim>\<open>GET_FIELD\<close>. The last index is computed without a sign: in a module without fields every index passes the test, and
  what lies in the table there is no field.
\<close>

definition field_at :: "msgmod \<Rightarrow> u32 \<Rightarrow> nmsg_msgmod_field option run" where
  "field_at m i = (if mm_fields m = [] then Fault
     else Ret (if unat i > length (mm_fields m) - 1 then None else Some (mm_fields m ! unat i)))"

text \<open>\<^verbatim>\<open>DESERIALIZE\<close>\<close>

definition tm_deserialize :: "tmessage \<Rightarrow> nmsg_res \<times> tmessage" where
  "tm_deserialize msg =
     (if tm_message msg \<noteq> None then (nmsg_res_success, msg)
      else (case (tm_np msg, tm_mod msg) of
          (Some p, Some m) \<Rightarrow>
            (case payload p of
               None \<Rightarrow> (nmsg_res_failure, msg)
             | Some bs \<Rightarrow> (case pl_unpack (mm_plugin m) bs of
                   None \<Rightarrow> (nmsg_res_memfail, msg)
                 | Some obj \<Rightarrow> (nmsg_res_success, msg\<lparr>tm_message := Some obj\<rparr>)))
        | _ \<Rightarrow> (nmsg_res_failure, msg)))"

definition nmsg_message_get_num_fields :: "tmessage \<Rightarrow> nmsg_res \<times> nat option" where
  "nmsg_message_get_num_fields msg = (case transparent_mod msg of
     None \<Rightarrow> (nmsg_res_failure, None) | Some m \<Rightarrow> (nmsg_res_success, Some (length (mm_fields m))))"

text \<open>The three getters of a property of a field: its name, its flags and its type.\<close>

definition field_property :: "(nmsg_msgmod_field \<Rightarrow> 'a) \<Rightarrow> tmessage \<Rightarrow> u32 \<Rightarrow> (nmsg_res \<times> 'a option) run" where
  "field_property prop msg i = (case transparent_mod msg of
     None \<Rightarrow> Ret (nmsg_res_failure, None)
   | Some m \<Rightarrow> run_bind (field_at m i) (\<lambda>f. case f of
         None \<Rightarrow> Ret (nmsg_res_failure, None)
       | Some f \<Rightarrow> Ret (nmsg_res_success, Some (prop f))))"

definition nmsg_message_get_field_name :: "tmessage \<Rightarrow> u32 \<Rightarrow> (nmsg_res \<times> byte list option) run" where
  "nmsg_message_get_field_name = field_property fd_name"

definition nmsg_message_get_field_flags_by_idx :: "tmessage \<Rightarrow> u32 \<Rightarrow> (nmsg_res \<times> u32 option) run" where
  "nmsg_message_get_field_flags_by_idx = field_property fd_flags"

definition nmsg_message_get_field_type_by_idx :: "tmessage \<Rightarrow> u32 \<Rightarrow> (nmsg_res \<times> nmsg_msgmod_field_type option) run" where
  "nmsg_message_get_field_type_by_idx = field_property fd_type"

definition nmsg_message_get_field_idx :: "tmessage \<Rightarrow> byte list \<Rightarrow> nmsg_res \<times> u32 option" where
  "nmsg_message_get_field_idx msg name = (case transparent_mod msg of
     None \<Rightarrow> (nmsg_res_failure, None)
   | Some m \<Rightarrow> (case lookup_field m name of
         None \<Rightarrow> (nmsg_res_failure, None)
       | Some i \<Rightarrow> (nmsg_res_success, Some (of_nat i))))"

text \<open>The functions that take a name look up its index and answer a failure when there is none.\<close>

definition by_name :: "tmessage \<Rightarrow> byte list \<Rightarrow> 'a \<Rightarrow> (u32 \<Rightarrow> (nmsg_res \<times> 'a) run) \<Rightarrow> (nmsg_res \<times> 'a) run" where
  "by_name msg name none f = (case nmsg_message_get_field_idx msg name of
     (nmsg_res_success, Some i) \<Rightarrow> f i | _ \<Rightarrow> Ret (nmsg_res_failure, none))"

definition nmsg_message_get_field_flags :: "tmessage \<Rightarrow> byte list \<Rightarrow> (nmsg_res \<times> u32 option) run" where
  "nmsg_message_get_field_flags msg name = by_name msg name None (nmsg_message_get_field_flags_by_idx msg)"

definition nmsg_message_get_field_type :: "tmessage \<Rightarrow> byte list \<Rightarrow> (nmsg_res \<times> nmsg_msgmod_field_type option) run" where
  "nmsg_message_get_field_type msg name = by_name msg name None (nmsg_message_get_field_type_by_idx msg)"

section \<open>Reading a field\<close>

text \<open>The pointer to a value of a field: \<open>None\<close> when there is no such value.\<close>

definition value_ptr :: "pb_msg \<Rightarrow> pb_descr \<Rightarrow> nat \<Rightarrow> pb_ptr option" where
  "value_ptr m d val_idx =
     (let q = unat (pm_quant m (pd_quant d)) in
      case pd_label d of
        Label_repeated \<Rightarrow> if val_idx \<ge> q then None else Some (pd_offset d, Some val_idx)
      | Label_optional \<Rightarrow> if val_idx \<ge> q \<or> val_idx > 0 then None else Some (pd_offset d, None)
      | Label_required \<Rightarrow> if val_idx > 0 then None else Some (pd_offset d, None))"

text \<open>What is read through the pointer. A scalar that is read as \<^verbatim>\<open>ProtobufCBinaryData\<close>, or the other way, is a fault.\<close>

definition cell_value :: "nmsg_msgmod_field_type \<Rightarrow> pb_cell \<Rightarrow> (nmsg_res \<times> field_value option) run" where
  "cell_value t c =
     (let scalar = (\<lambda>n. case c of Scalar bs \<Rightarrow> Ret (nmsg_res_success, Some (Some bs, n)) | Data _ _ \<Rightarrow> Fault)
      in if t \<in> {Ft_ip, Ft_bytes, Ft_string, Ft_mlstring} then
           (case c of
              Scalar _ \<Rightarrow> Fault
            | Data len data \<Rightarrow>
                if t = Ft_ip \<and> len \<noteq> 4 \<and> len \<noteq> 16 then Ret (nmsg_res_failure, None)
                else Ret (nmsg_res_success, Some (data, len)))
         else if t \<in> {Ft_bool, Ft_enum, Ft_int16, Ft_uint16, Ft_int32, Ft_uint32} then scalar 4
         else scalar 8)"

definition nmsg_message_get_field_by_idx :: "tmessage \<Rightarrow> u32 \<Rightarrow> nat \<Rightarrow> ((nmsg_res \<times> field_value option) \<times> tmessage) run" where
  "nmsg_message_get_field_by_idx msg i val_idx = (case transparent_mod msg of
     None \<Rightarrow> Ret ((nmsg_res_failure, None), msg)
   | Some m \<Rightarrow> run_bind (field_at m i) (\<lambda>f. case f of
         None \<Rightarrow> Ret ((nmsg_res_failure, None), msg)
       | Some f \<Rightarrow>
           if fd_flags f AND NMSG_MSGMOD_FIELD_HIDDEN \<noteq> 0 then Ret ((nmsg_res_failure, None), msg)
           else (case tm_deserialize msg of
             (res, msg) \<Rightarrow>
               if res \<noteq> nmsg_res_success then Ret ((res, None), msg)
               else (case tm_message msg of
                   None \<Rightarrow> Fault
                 | Some obj \<Rightarrow>
                     (case fd_get f of
                        Some get \<Rightarrow> run_bind (get obj val_idx) (\<lambda>(res, v).
                          Ret ((res, if res = nmsg_res_success then Some v else None), msg))
                      | None \<Rightarrow>
                          (case fd_descr f of
                             None \<Rightarrow> Fault
                           | Some d \<Rightarrow>
                               (case value_ptr obj d val_idx of
                                  None \<Rightarrow> Ret ((nmsg_res_failure, None), msg)
                                | Some p \<Rightarrow> run_bind (pb_peek obj p) (\<lambda>c.
                                    run_bind (cell_value (fd_type f) c) (\<lambda>r. Ret (r, msg))))))))))"

definition nmsg_message_get_field :: "tmessage \<Rightarrow> byte list \<Rightarrow> nat \<Rightarrow> ((nmsg_res \<times> field_value option) \<times> tmessage) run" where
  "nmsg_message_get_field msg name val_idx = (case nmsg_message_get_field_idx msg name of
     (nmsg_res_success, Some i) \<Rightarrow> nmsg_message_get_field_by_idx msg i val_idx
   | _ \<Rightarrow> Ret ((nmsg_res_failure, None), msg))"

section \<open>Setting a field\<close>

text \<open>The four octets of a value of 16 bits, widened with its sign or with zeroes, as the host keeps them.\<close>

definition widen16 :: "bool \<Rightarrow> bool \<Rightarrow> byte list \<Rightarrow> byte list" where
  "widen16 little sign bs =
     (let hi = (if little then bs ! 1 else bs ! 0);
          ext = replicate 2 (if sign \<and> bit hi 7 then 0xff else 0)
      in if little then bs @ ext else ext @ bs)"

text \<open>What the setters of numbers copy from the caller's octets: how many, and what they store.\<close>

definition scalar_bytes :: "bool \<Rightarrow> nmsg_msgmod_field_type \<Rightarrow> byte list \<Rightarrow> byte list run" where
  "scalar_bytes little t data =
     (if t = Ft_bool then mem_read data 0 1
      else if t = Ft_int16 \<or> t = Ft_uint16 then
        run_bind (mem_read data 0 2) (\<lambda>bs. Ret (widen16 little (t = Ft_int16) bs))
      else if t = Ft_enum \<or> t = Ft_int32 \<or> t = Ft_uint32 then mem_read data 0 4
      else mem_read data 0 8)"

definition poke_scalar :: "pb_msg \<Rightarrow> pb_ptr \<Rightarrow> byte list \<Rightarrow> pb_msg run" where
  "poke_scalar obj p bs = run_bind (pb_peek obj p) (\<lambda>c. case c of
     Data _ _ \<Rightarrow> Fault
   | Scalar old \<Rightarrow> run_bind (mem_store old 0 bs) (\<lambda>new. pb_poke obj p (Scalar new)))"

text \<open>
  The switch over the type. A failed allocation leaves a NULL pointer with the old length; \<open>data\<close> is the caller's
  memory, of which \<open>len\<close> octets are to be taken.
\<close>

definition store_value ::
  "bool \<Rightarrow> bool \<Rightarrow> nmsg_msgmod_field_type \<Rightarrow> pb_msg \<Rightarrow> pb_ptr \<Rightarrow> byte list \<Rightarrow> nat \<Rightarrow> (nmsg_res \<times> pb_msg) run" where
  "store_value little ok t obj p data len =
     (if t = Ft_ip \<and> len \<noteq> 4 \<and> len \<noteq> 16 then Ret (nmsg_res_failure, obj)
      else if t \<in> {Ft_ip, Ft_bytes, Ft_string, Ft_mlstring} then
        run_bind (pb_peek obj p) (\<lambda>c. case c of
          Scalar _ \<Rightarrow> Fault
        | Data old_len _ \<Rightarrow>
            if \<not> ok then run_bind (pb_poke obj p (Data old_len None)) (\<lambda>obj. Ret (nmsg_res_memfail, obj))
            else run_bind (mem_read data 0 len) (\<lambda>bs.
              run_bind (pb_poke obj p (Data len (Some bs))) (\<lambda>obj. Ret (nmsg_res_success, obj))))
      else run_bind (scalar_bytes little t data) (\<lambda>bs.
        run_bind (poke_scalar obj p bs) (\<lambda>obj. Ret (nmsg_res_success, obj))))"

text \<open>
  The pointer to the value to be set, with the room made for it. The index behind the last value of a repeated field
  adds a value of zeroes; when there is no memory for it, all values are lost.
\<close>

definition make_value :: "bool \<Rightarrow> pb_msg \<Rightarrow> pb_descr \<Rightarrow> nat \<Rightarrow> ((nmsg_res \<times> pb_ptr option) \<times> pb_msg) run" where
  "make_value ok obj d val_idx =
     (let q = pm_quant obj (pd_quant d); off = pd_offset d in
      case pd_label d of
        Label_repeated \<Rightarrow>
          if val_idx < unat q then Ret ((nmsg_res_success, Some (off, Some val_idx)), obj)
          else if val_idx = unat q then
            (case pm_member obj off of
               Some (Many cs) \<Rightarrow>
                 if \<not> ok then Ret ((nmsg_res_memfail, None),
                   obj\<lparr>pm_member := (pm_member obj)(off \<mapsto> Many []), pm_quant := (pm_quant obj)(pd_quant d := 0)\<rparr>)
                 else Ret ((nmsg_res_success, Some (off, Some val_idx)),
                   obj\<lparr>pm_member := (pm_member obj)(off \<mapsto> Many (cs @ [zero_cell (pd_type d)])),
                     pm_quant := (pm_quant obj)(pd_quant d := q + 1)\<rparr>)
             | _ \<Rightarrow> Fault)
          else Ret ((nmsg_res_failure, None), obj)
      | Label_optional \<Rightarrow>
          if val_idx = 0 then
            Ret ((nmsg_res_success, Some (off, None)), obj\<lparr>pm_quant := (pm_quant obj)(pd_quant d := 1)\<rparr>)
          else Ret ((nmsg_res_failure, None), obj)
      | Label_required \<Rightarrow>
          if val_idx = 0 then Ret ((nmsg_res_success, Some (off, None)), obj)
          else Ret ((nmsg_res_failure, None), obj))"

text \<open>\<open>ok 0\<close> is the larger array, \<open>ok 1\<close> the copy of the octets.\<close>

definition nmsg_message_set_field_by_idx ::
  "bool \<Rightarrow> (nat \<Rightarrow> bool) \<Rightarrow> tmessage \<Rightarrow> u32 \<Rightarrow> nat \<Rightarrow> byte list \<Rightarrow> nat \<Rightarrow> (nmsg_res \<times> tmessage) run" where
  "nmsg_message_set_field_by_idx little ok msg i val_idx data len = (case transparent_mod msg of
     None \<Rightarrow> Ret (nmsg_res_failure, msg)
   | Some m \<Rightarrow> run_bind (field_at m i) (\<lambda>f. case f of
         None \<Rightarrow> Ret (nmsg_res_failure, msg)
       | Some f \<Rightarrow>
           if fd_get f \<noteq> None \<or> fd_flags f AND NMSG_MSGMOD_FIELD_HIDDEN \<noteq> 0 then Ret (nmsg_res_failure, msg)
           else (case tm_deserialize msg of
             (res, msg) \<Rightarrow>
               if res \<noteq> nmsg_res_success then Ret (res, msg)
               else (case (tm_message msg, fd_descr f) of
                   (Some obj, Some d) \<Rightarrow>
                     run_bind (make_value (ok 0) obj d val_idx) (\<lambda>((res, p), obj).
                       let msg = msg\<lparr>tm_updated := True, tm_message := Some obj\<rparr> in
                       case p of
                         None \<Rightarrow> Ret (res, msg)
                       | Some p \<Rightarrow> run_bind (store_value little (ok 1) (fd_type f) obj p data len) (\<lambda>(res, obj).
                           Ret (res, msg\<lparr>tm_message := Some obj\<rparr>)))
                 | _ \<Rightarrow> Fault))))"

definition nmsg_message_set_field ::
  "bool \<Rightarrow> (nat \<Rightarrow> bool) \<Rightarrow> tmessage \<Rightarrow> byte list \<Rightarrow> nat \<Rightarrow> byte list \<Rightarrow> nat \<Rightarrow> (nmsg_res \<times> tmessage) run" where
  "nmsg_message_set_field little ok msg name val_idx data len = (case nmsg_message_get_field_idx msg name of
     (nmsg_res_success, Some i) \<Rightarrow> nmsg_message_set_field_by_idx little ok msg i val_idx data len
   | _ \<Rightarrow> Ret (nmsg_res_failure, msg))"

section \<open>Names and values of enums\<close>

text \<open>
  \<open>lookup\<close> is the function of protobuf-c that finds a value of an enum by its name, or a name by its value.
\<close>

definition enum_lookup_by_idx ::
  "((byte list \<times> u32) list \<Rightarrow> 'k \<Rightarrow> 'v option) \<Rightarrow> tmessage \<Rightarrow> u32 \<Rightarrow> 'k \<Rightarrow> (nmsg_res \<times> 'v option) run" where
  "enum_lookup_by_idx lookup msg i key = (case transparent_mod msg of
     None \<Rightarrow> Ret (nmsg_res_failure, None)
   | Some m \<Rightarrow> run_bind (field_at m i) (\<lambda>f. case f of
         None \<Rightarrow> Ret (nmsg_res_failure, None)
       | Some f \<Rightarrow>
           (case fd_descr f of
              None \<Rightarrow> Fault
            | Some d \<Rightarrow>
                if pd_type d \<noteq> PB_ENUM then Ret (nmsg_res_failure, None)
                else (case pd_enum d of
                    None \<Rightarrow> Ret (nmsg_res_failure, None)
                  | Some values \<Rightarrow> (case lookup values key of
                        None \<Rightarrow> Ret (nmsg_res_failure, None)
                      | Some v \<Rightarrow> Ret (nmsg_res_success, Some v))))))"

definition nmsg_message_enum_name_to_value_by_idx ::
  "((byte list \<times> u32) list \<Rightarrow> byte list \<Rightarrow> u32 option) \<Rightarrow> tmessage \<Rightarrow> u32 \<Rightarrow> byte list \<Rightarrow> (nmsg_res \<times> u32 option) run" where
  "nmsg_message_enum_name_to_value_by_idx = enum_lookup_by_idx"

definition nmsg_message_enum_value_to_name_by_idx ::
  "((byte list \<times> u32) list \<Rightarrow> u32 \<Rightarrow> byte list option) \<Rightarrow> tmessage \<Rightarrow> u32 \<Rightarrow> u32 \<Rightarrow> (nmsg_res \<times> byte list option) run" where
  "nmsg_message_enum_value_to_name_by_idx = enum_lookup_by_idx"

definition nmsg_message_enum_name_to_value ::
  "((byte list \<times> u32) list \<Rightarrow> byte list \<Rightarrow> u32 option) \<Rightarrow> tmessage \<Rightarrow> byte list \<Rightarrow> byte list \<Rightarrow> (nmsg_res \<times> u32 option) run" where
  "nmsg_message_enum_name_to_value lookup msg field key =
     by_name msg field None (\<lambda>i. nmsg_message_enum_name_to_value_by_idx lookup msg i key)"

definition nmsg_message_enum_value_to_name ::
  "((byte list \<times> u32) list \<Rightarrow> u32 \<Rightarrow> byte list option) \<Rightarrow> tmessage \<Rightarrow> byte list \<Rightarrow> u32 \<Rightarrow> (nmsg_res \<times> byte list option) run" where
  "nmsg_message_enum_value_to_name lookup msg field key =
     by_name msg field None (\<lambda>i. nmsg_message_enum_value_to_name_by_idx lookup msg i key)"

end
