(* ===== verification/Msgmod_Pres.thy ===== *)
theory Msgmod_Pres
  imports Msgmod
begin

text \<open>
  The presentation format of messages: printing (nmsg/msgmod/transparent_payload.c) and reading
  (transparent_pres.c, transparent_module.c, nmsg/input_pres.c).
\<close>

section \<open>Surroundings\<close>

text \<open>
  The byte order of the host, \<^verbatim>\<open>inet_ntop\<close> and \<^verbatim>\<open>inet_pton\<close> for both families of addresses, and \<^verbatim>\<open>printf\<close> and
  \<^verbatim>\<open>strtod\<close> for the octets of a double.
\<close>

record pres_env =
  pe_little :: bool
  pe_ntop4 :: "byte list \<Rightarrow> byte list"
  pe_ntop6 :: "byte list \<Rightarrow> byte list"
  pe_pton4 :: "byte list \<Rightarrow> byte list option"
  pe_pton6 :: "byte list \<Rightarrow> byte list option"
  pe_double :: "byte list \<Rightarrow> byte list"
  pe_strtod :: "byte list \<Rightarrow> byte list \<times> byte list"

definition ascii :: "string \<Rightarrow> byte list" where
  "ascii s = map of_char s"

text \<open>Numbers in the memory of the host.\<close>

definition le_value :: "byte list \<Rightarrow> nat" where
  "le_value bs = foldr (\<lambda>b v. unat b + 256 * v) bs 0"

definition host_value :: "bool \<Rightarrow> byte list \<Rightarrow> nat" where
  "host_value little bs = le_value (if little then bs else rev bs)"

definition host_bytes :: "bool \<Rightarrow> nat \<Rightarrow> int \<Rightarrow> byte list" where
  "host_bytes little n v =
     (let le = map (\<lambda>i. of_int (v div 256 ^ i)) [0..<n] in if little then le else rev le)"

text \<open>A number of \<open>n\<close> bits as \<^verbatim>\<open>%u\<close> and \<^verbatim>\<open>%d\<close> print it.\<close>

definition unsigned_text :: "nat \<Rightarrow> nat \<Rightarrow> byte list" where
  "unsigned_text n v = decimal (v mod 2 ^ n)"

definition signed_text :: "nat \<Rightarrow> nat \<Rightarrow> byte list" where
  "signed_text n v = (let w = v mod 2 ^ n in if w < 2 ^ (n - 1) then decimal w else 45 # decimal (2 ^ n - w))"

text \<open>The string at a pointer, for \<^verbatim>\<open>%s\<close>: without a zero in the octets it is read beyond them.\<close>

definition c_str :: "byte list option \<Rightarrow> byte list run" where
  "c_str p = (case p of None \<Rightarrow> Fault | Some bs \<Rightarrow> if 0 \<in> set bs then Ret (c_string bs) else Fault)"

section \<open>Printing\<close>

text \<open>
  The buffer that is printed to, with the number of texts appended so far, for each of which \<open>ok\<close> says how its
  allocations go. A failure to append is not looked at.
\<close>

type_synonym out = "nmsg_strbuf \<times> nat"

definition pres_append :: "(nat \<Rightarrow> nat \<Rightarrow> bool) \<Rightarrow> (nat \<Rightarrow> byte) \<Rightarrow> out \<Rightarrow> byte list \<Rightarrow> out run" where
  "pres_append ok junk = (\<lambda>(sb, k) t. case nmsg_strbuf_append (ok k) junk sb (Some t) of
     None \<Rightarrow> Fault | Some r \<Rightarrow> run_bind r (\<lambda>(_, sb'). Ret (sb', k + 1)))"

text \<open>The loop over the values of an enum prints every name that has the value.\<close>

fun append_all :: "(nat \<Rightarrow> nat \<Rightarrow> bool) \<Rightarrow> (nat \<Rightarrow> byte) \<Rightarrow> out \<Rightarrow> byte list list \<Rightarrow> out run" where
  "append_all ok junk out [] = Ret out"
| "append_all ok junk out (t # ts) = run_bind (pres_append ok junk out t) (\<lambda>out. append_all ok junk out ts)"

text \<open>The texts that the switch of \<^verbatim>\<open>_nmsg_message_payload_to_pres_load\<close> appends for a value.\<close>

definition pres_texts :: "pres_env \<Rightarrow> nmsg_msgmod_field \<Rightarrow> pb_cell \<Rightarrow> byte list \<Rightarrow> byte list list run" where
  "pres_texts env f c endline =
     (let line = (\<lambda>v. fd_name f @ ascii '': '' @ v @ endline);
          number = (\<lambda>n text. case c of Data _ _ \<Rightarrow> Fault
            | Scalar bs \<Rightarrow> run_bind (mem_read bs 0 n) (\<lambda>v. Ret [line (text (host_value (pe_little env) v))]))
      in case c of
           Data len data \<Rightarrow>
             (case fd_type f of
                Ft_bytes \<Rightarrow> Ret [line (ascii ''<BYTE ARRAY LEN='' @ decimal len @ ascii ''>'')]
              | Ft_string \<Rightarrow> run_bind (c_str data) (\<lambda>s. Ret [line s])
              | Ft_mlstring \<Rightarrow> run_bind (c_str data) (\<lambda>s. Ret [fd_name f @ ascii '':'' @ endline @ s @ ascii ''.'' @ endline])
              | Ft_ip \<Rightarrow>
                  if len = 4 then run_bind (mem_read (opt_bytes data) 0 4) (\<lambda>a. Ret [line (pe_ntop4 env a)])
                  else if len = 16 then run_bind (mem_read (opt_bytes data) 0 16) (\<lambda>a. Ret [line (pe_ntop6 env a)])
                  else Ret [line (ascii ''<INVALID IP len='' @ decimal len @ ascii ''>'')]
              | _ \<Rightarrow> Fault)
         | Scalar bs \<Rightarrow>
             (case fd_type f of
                Ft_bool \<Rightarrow> number 4 (\<lambda>v. if v \<noteq> 0 then ascii ''True'' else ascii ''False'')
              | Ft_enum \<Rightarrow> run_bind (mem_read bs 0 4) (\<lambda>b.
                  let v = host_value (pe_little env) b in
                  case fd_descr f of
                    None \<Rightarrow> Fault
                  | Some d \<Rightarrow> (case pd_enum d of
                      None \<Rightarrow> Fault
                    | Some values \<Rightarrow>
                        (case filter (\<lambda>(_, x). unat x = v) values of
                           [] \<Rightarrow> Ret [line (ascii ''<UNKNOWN ENUM VAL='' @ unsigned_text 32 v @ ascii ''>'')]
                         | found \<Rightarrow> Ret (map (\<lambda>(name, _). line name) found))))
              | Ft_uint16 \<Rightarrow> number 4 (unsigned_text 16)
              | Ft_uint32 \<Rightarrow> number 4 (unsigned_text 32)
              | Ft_uint64 \<Rightarrow> number 8 (unsigned_text 64)
              | Ft_int16 \<Rightarrow> number 4 (signed_text 16)
              | Ft_int32 \<Rightarrow> number 4 (signed_text 32)
              | Ft_int64 \<Rightarrow> number 8 (signed_text 64)
              | Ft_double \<Rightarrow> run_bind (mem_read bs 0 8) (\<lambda>b. Ret [line (pe_double env b)])
              | _ \<Rightarrow> Fault))"

text \<open>\<^verbatim>\<open>_nmsg_message_payload_to_pres_load\<close>; a printer of the module gets a value of 16 bits as such.\<close>

definition payload_to_pres_load ::
  "pres_env \<Rightarrow> (nat \<Rightarrow> nat \<Rightarrow> bool) \<Rightarrow> (nat \<Rightarrow> byte) \<Rightarrow> pb_msg \<Rightarrow> nmsg_msgmod_field \<Rightarrow> pb_cell \<Rightarrow> byte list \<Rightarrow> out \<Rightarrow>
     (nmsg_res \<times> out) run" where
  "payload_to_pres_load env ok junk obj f c endline out =
     (case fd_print f of
        Some print \<Rightarrow>
          run_bind (if fd_type f = Ft_uint16 \<or> fd_type f = Ft_int16 then
              (case c of Data _ _ \<Rightarrow> Fault | Scalar bs \<Rightarrow> run_bind (mem_read bs 0 4) (\<lambda>v.
                Ret (Scalar (host_bytes (pe_little env) 2 (int (host_value (pe_little env) v))))))
            else Ret c) (\<lambda>c.
          run_bind (print obj c (fst out) endline) (\<lambda>(res, sb). Ret (res, (sb, snd out))))
      | None \<Rightarrow>
          run_bind (pres_texts env f c endline) (\<lambda>ts.
          run_bind (append_all ok junk out ts) (\<lambda>out. Ret (nmsg_res_success, out))))"

text \<open>The values of a repeated field.\<close>

fun pres_cells ::
  "pres_env \<Rightarrow> (nat \<Rightarrow> nat \<Rightarrow> bool) \<Rightarrow> (nat \<Rightarrow> byte) \<Rightarrow> pb_msg \<Rightarrow> nmsg_msgmod_field \<Rightarrow> byte list \<Rightarrow> pb_cell list \<Rightarrow> out \<Rightarrow>
     (nmsg_res \<times> out) run" where
  "pres_cells env ok junk obj f endline [] out = Ret (nmsg_res_success, out)"
| "pres_cells env ok junk obj f endline (c # cs) out =
     run_bind (payload_to_pres_load env ok junk obj f c endline out) (\<lambda>(res, out).
       if res \<noteq> nmsg_res_success then Ret (res, out) else pres_cells env ok junk obj f endline cs out)"

text \<open>The values that a getter of the module gives, until it fails; the fuel bounds their number.\<close>

fun pres_getter ::
  "pres_env \<Rightarrow> (nat \<Rightarrow> nat \<Rightarrow> bool) \<Rightarrow> (nat \<Rightarrow> byte) \<Rightarrow> pb_msg \<Rightarrow> nmsg_msgmod_field \<Rightarrow> byte list \<Rightarrow>
     (pb_msg \<Rightarrow> nat \<Rightarrow> (nmsg_res \<times> field_value) run) \<Rightarrow> nat \<Rightarrow> nat \<Rightarrow> out \<Rightarrow> (nmsg_res \<times> out) run" where
  "pres_getter env ok junk obj f endline get 0 i out = Fault"
| "pres_getter env ok junk obj f endline get (Suc fuel) i out =
     run_bind (get obj i) (\<lambda>(res, data, len).
       if res \<noteq> nmsg_res_success then Ret (nmsg_res_success, out)
       else
         let c = (if fd_type f = Ft_ip \<or> fd_type f = Ft_bytes then Data len data else Scalar (opt_bytes data)) in
         run_bind (payload_to_pres_load env ok junk obj f c endline out) (\<lambda>(res, out).
           if res \<noteq> nmsg_res_success then Ret (res, out)
           else pres_getter env ok junk obj f endline get fuel (i + 1) out))"

definition one_present :: "pb_msg \<Rightarrow> pb_descr \<Rightarrow> bool" where
  "one_present obj d \<longleftrightarrow>
     pd_label d = Label_required \<or> (pd_label d = Label_optional \<and> pm_quant obj (pd_quant d) = 1)"

definition pres_field ::
  "pres_env \<Rightarrow> (nat \<Rightarrow> nat \<Rightarrow> bool) \<Rightarrow> (nat \<Rightarrow> byte) \<Rightarrow> nat \<Rightarrow> pb_msg \<Rightarrow> byte list \<Rightarrow> nmsg_msgmod_field \<Rightarrow> out \<Rightarrow>
     (nmsg_res \<times> out) run" where
  "pres_field env ok junk fuel obj endline f out =
     (if fd_flags f AND (NMSG_MSGMOD_FIELD_HIDDEN OR NMSG_MSGMOD_FIELD_NOPRINT) \<noteq> 0 then Ret (nmsg_res_success, out)
      else (case fd_get f of
          Some get \<Rightarrow> pres_getter env ok junk obj f endline get fuel 0 out
        | None \<Rightarrow>
            (case fd_descr f of
               None \<Rightarrow> Fault
             | Some d \<Rightarrow>
                 if one_present obj d then
                   run_bind (pb_peek obj (pd_offset d, None)) (\<lambda>c. payload_to_pres_load env ok junk obj f c endline out)
                 else if pd_label d = Label_repeated then
                   (case pm_member obj (pd_offset d) of
                      Some (Many cs) \<Rightarrow>
                        if unat (pm_quant obj (pd_quant d)) \<le> length cs
                        then pres_cells env ok junk obj f endline (take (unat (pm_quant obj (pd_quant d))) cs) out else Fault
                    | _ \<Rightarrow> Fault)
                 else Ret (nmsg_res_success, out))))"

fun pres_fields ::
  "pres_env \<Rightarrow> (nat \<Rightarrow> nat \<Rightarrow> bool) \<Rightarrow> (nat \<Rightarrow> byte) \<Rightarrow> nat \<Rightarrow> pb_msg \<Rightarrow> byte list \<Rightarrow> nmsg_msgmod_field list \<Rightarrow> out \<Rightarrow>
     (nmsg_res \<times> out) run" where
  "pres_fields env ok junk fuel obj endline [] out = Ret (nmsg_res_success, out)"
| "pres_fields env ok junk fuel obj endline (f # fs) out =
     run_bind (pres_field env ok junk fuel obj endline f out) (\<lambda>(res, out).
       if res \<noteq> nmsg_res_success then Ret (res, out) else pres_fields env ok junk fuel obj endline fs out)"

text \<open>\<^verbatim>\<open>_nmsg_message_payload_to_pres\<close>; \<open>ok_sb\<close> is the allocation of the buffer. The result is what it holds.\<close>

definition payload_to_pres ::
  "pres_env \<Rightarrow> bool \<Rightarrow> (nat \<Rightarrow> nat \<Rightarrow> bool) \<Rightarrow> (nat \<Rightarrow> byte) \<Rightarrow> nat \<Rightarrow> tmessage \<Rightarrow> byte list \<Rightarrow>
     ((nmsg_res \<times> nmsg_strbuf option) \<times> tmessage) run" where
  "payload_to_pres env ok_sb ok junk fuel msg endline =
     (case tm_deserialize msg of
        (res, msg) \<Rightarrow>
          if res \<noteq> nmsg_res_success then Ret ((res, None), msg)
          else (case (tm_mod msg, tm_message msg, nmsg_strbuf_init ok_sb) of
              (Some m, Some obj, Some sb) \<Rightarrow>
                run_bind (pres_fields env ok junk fuel obj endline (take (length (mm_fields m)) (pl_fields (mm_plugin m))) (sb, 0))
                  (\<lambda>(res, sb, _). Ret ((res, if res = nmsg_res_success then Some sb else None), msg))
            | (_, _, None) \<Rightarrow> Ret ((nmsg_res_memfail, None), msg)
            | _ \<Rightarrow> Fault))"

end
