(* ===== verification/Msgmod_Read.thy ===== *)
theory Msgmod_Read
  imports Msgmod_Pres
begin

text \<open>
  Reading messages in the presentation format (nmsg/msgmod/transparent_pres.c, transparent_module.c and
  nmsg/input_pres.c): one line after the other fills a message, and an empty line ends it.
\<close>

section \<open>The state of a reader\<close>

text \<open>
  \<^verbatim>\<open>struct nmsg_msgmod_clos\<close>. The message being filled may have been freed with its pointer left in place; of the
  buffers for strings of several lines only their number of octets is allocated.
\<close>

record pres_clos =
  pc_pbuf :: "pb_msg option"
  pc_freed :: bool
  pc_estsz :: nat
  pc_multiline :: bool
  pc_field :: "nmsg_msgmod_field option"
  pc_strbufs :: "nat \<Rightarrow> nmsg_strbuf"
  pc_room :: nat

definition strbuf_zero :: nmsg_strbuf where
  "strbuf_zero = \<lparr>sb_data = None, sb_pos = 0, sb_bufsz = 0\<rparr>"

definition sizeof_strbuf :: nat where "sizeof_strbuf = 24"

definition max_fieldid :: "nmsg_msgmod_field list \<Rightarrow> nat" where
  "max_fieldid fs = foldl (\<lambda>mx f. case fd_descr f of Some d \<Rightarrow> max mx (pd_id d) | None \<Rightarrow> mx) 0 fs"

text \<open>
  \<^verbatim>\<open>_nmsg_msgmod_module_init\<close>; \<open>init\<close> is what the module's own function answers, if it has one. The size of the buffers
  is computed as \<^verbatim>\<open>sizeof * max - 1\<close>, one octet less than they take, and without numbered fields it is the largest
  number, which no allocation has.
\<close>

definition module_init :: "(nat \<Rightarrow> bool) \<Rightarrow> nmsg_res option \<Rightarrow> msgmod \<Rightarrow> nmsg_res \<times> pres_clos option" where
  "module_init ok init m =
     (let mx = max_fieldid (mm_fields m) in
      if \<not> ok 0 \<or> \<not> ok 1 \<or> mx = 0 then (nmsg_res_memfail, None)
      else (case init of None \<Rightarrow> nmsg_res_success | Some r \<Rightarrow> r,
        Some \<lparr>pc_pbuf = None, pc_freed = False, pc_estsz = 0, pc_multiline = False, pc_field = None,
          pc_strbufs = (\<lambda>_. strbuf_zero), pc_room = sizeof_strbuf * mx - 1\<rparr>))"

text \<open>The buffer of a field, when it lies in the allocation.\<close>

definition clos_strbuf :: "pres_clos \<Rightarrow> pb_descr \<Rightarrow> nmsg_strbuf run" where
  "clos_strbuf clos d = (if pd_id d = 0 \<or> sizeof_strbuf * pd_id d > pc_room clos then Fault else Ret (pc_strbufs clos (pd_id d - 1)))"

definition set_strbuf :: "pres_clos \<Rightarrow> pb_descr \<Rightarrow> nmsg_strbuf \<Rightarrow> pres_clos" where
  "set_strbuf clos d sb = clos\<lparr>pc_strbufs := (pc_strbufs clos)(pd_id d - 1 := sb)\<rparr>"

section \<open>Strings\<close>

text \<open>
  \<^verbatim>\<open>strtok_r\<close> on the copy of a line, which has no terminating zero when the line had no newline: it then reads beyond
  the copy unless a delimiter ends the token before.
\<close>

definition strtok_line :: "bool \<Rightarrow> byte list \<Rightarrow> byte list \<Rightarrow> (byte list option \<times> byte list) run" where
  "strtok_line terminated delims s =
     (if \<not> terminated \<and> dropWhile (\<lambda>c. c \<notin> set delims) (dropWhile (\<lambda>c. c \<in> set delims) s) = [] then Fault
      else Ret (strtok delims s))"

text \<open>\<^verbatim>\<open>strtol\<close> and \<^verbatim>\<open>strtoll\<close> with base 0 and 64 bits.\<close>

definition strtol0 :: "byte list \<Rightarrow> int \<times> byte list" where
  "strtol0 s =
     (let s1 = dropWhile c_isspace s;
          neg = (s1 \<noteq> [] \<and> hd s1 = 45);
          s2 = (if s1 \<noteq> [] \<and> (hd s1 = 45 \<or> hd s1 = 43) then tl s1 else s1);
          (base, s3) = strtoul_base s2;
          ds = takeWhile (is_digit base) s3; v = int (digits_value base 0 ds)
      in if ds = [] then (0, s)
         else (if neg then max (- v) (- (2 ^ 63)) else min v (2 ^ 63 - 1), dropWhile (is_digit base) s3))"

section \<open>Loading a value\<close>

definition set_present :: "pb_msg \<Rightarrow> pb_descr \<Rightarrow> pb_msg" where
  "set_present obj d = (if pd_label d = Label_optional then obj\<lparr>pm_quant := (pm_quant obj)(pd_quant d := 1)\<rparr> else obj)"

text \<open>A number is stored when nothing is left of the string.\<close>

definition load_number :: "pres_clos \<Rightarrow> pb_msg \<Rightarrow> pb_descr \<Rightarrow> pb_ptr \<Rightarrow> byte list \<Rightarrow> bool \<Rightarrow> byte list \<Rightarrow> (nmsg_res \<times> pres_clos) run" where
  "load_number clos obj d p rest too_large bs =
     (if rest \<noteq> [] \<or> too_large then Ret (nmsg_res_parse_error, clos)
      else run_bind (poke_scalar obj p bs) (\<lambda>obj. Ret (nmsg_res_success, clos\<lparr>pc_pbuf := Some (set_present obj d)\<rparr>)))"

text \<open>Octets of its own allocation are stored through the pointer.\<close>

definition load_octets :: "bool \<Rightarrow> pres_clos \<Rightarrow> pb_msg \<Rightarrow> pb_descr \<Rightarrow> pb_ptr \<Rightarrow> byte list \<Rightarrow> nat \<Rightarrow> (nmsg_res \<times> pres_clos) run" where
  "load_octets ok clos obj d p bs est =
     run_bind (pb_peek obj p) (\<lambda>c. case c of
       Scalar _ \<Rightarrow> Fault
     | Data len _ \<Rightarrow>
         if \<not> ok then run_bind (pb_poke obj p (Data len None)) (\<lambda>obj. Ret (nmsg_res_memfail, clos\<lparr>pc_pbuf := Some obj\<rparr>))
         else run_bind (pb_poke obj p (Data (length bs) (Some bs))) (\<lambda>obj.
           Ret (nmsg_res_success, clos\<lparr>pc_pbuf := Some (set_present obj d), pc_estsz := pc_estsz clos + est\<rparr>)))"

definition load_multiline ::
  "(nat \<Rightarrow> bool) \<Rightarrow> (nat \<Rightarrow> byte) \<Rightarrow> pres_clos \<Rightarrow> pb_msg \<Rightarrow> pb_descr \<Rightarrow> pb_ptr \<Rightarrow> nmsg_msgmod_field \<Rightarrow> byte list \<Rightarrow>
     (nmsg_res \<times> pres_clos) run" where
  "load_multiline ok junk clos obj d p f value =
     (if \<not> pc_multiline clos then Ret (nmsg_res_success, clos\<lparr>pc_field := Some f, pc_multiline := True\<rparr>)
      else run_bind (clos_strbuf clos d) (\<lambda>sb.
        if take 2 value = [46, 10] then
          run_bind (nmsg_strbuf_len sb) (\<lambda>len.
          run_bind (pb_peek obj p) (\<lambda>c. case c of
            Scalar _ \<Rightarrow> Fault
          | Data _ _ \<Rightarrow> run_bind (pb_poke obj p (Data len (sb_data sb))) (\<lambda>obj.
              Ret (nmsg_res_success, clos\<lparr>pc_pbuf := Some (set_present obj d), pc_multiline := False\<rparr>))))
        else (case nmsg_strbuf_append ok junk sb (Some value) of
            None \<Rightarrow> Fault
          | Some r \<Rightarrow> run_bind r (\<lambda>(_, sb).
              Ret (nmsg_res_success, (set_strbuf clos d sb)\<lparr>pc_estsz := pc_estsz clos + length value\<rparr>)))))"

text \<open>
  \<^verbatim>\<open>_nmsg_msgmod_pres_to_payload_load\<close>; \<open>obj\<close> is the message of \<open>clos\<close>. The allocations are those of the value.
\<close>

definition pres_to_payload_load ::
  "pres_env \<Rightarrow> (nat \<Rightarrow> bool) \<Rightarrow> (nat \<Rightarrow> byte) \<Rightarrow> pres_clos \<Rightarrow> pb_msg \<Rightarrow> nmsg_msgmod_field \<Rightarrow> pb_descr \<Rightarrow> pb_ptr \<Rightarrow> byte list \<Rightarrow>
     (nmsg_res \<times> pres_clos) run" where
  "pres_to_payload_load env ok junk clos obj f d p value =
     (let store = host_bytes (pe_little env) in
      case fd_type f of
        Ft_bool \<Rightarrow> Abort
      | Ft_bytes \<Rightarrow> Abort
      | Ft_enum \<Rightarrow>
          (case pd_enum d of
             None \<Rightarrow> Fault
           | Some values \<Rightarrow> (case find (\<lambda>(name, _). name = value) values of
               None \<Rightarrow> Ret (nmsg_res_parse_error, clos)
             | Some (_, x) \<Rightarrow> run_bind (poke_scalar obj p (store 4 (int (unat x)))) (\<lambda>obj.
                 Ret (nmsg_res_success, clos\<lparr>pc_pbuf := Some (set_present obj d), pc_estsz := pc_estsz clos + 4\<rparr>))))
      | Ft_string \<Rightarrow> load_octets (ok 0) clos obj d p (value @ [0]) (length value)
      | Ft_ip \<Rightarrow>
          (case pe_pton4 env value of
             Some a \<Rightarrow> load_octets (ok 0) clos obj d p a 4
           | None \<Rightarrow> (case pe_pton6 env value of
               Some a \<Rightarrow> load_octets (ok 0) clos obj d p a 16
             | None \<Rightarrow> Ret (nmsg_res_parse_error, clos)))
      | Ft_uint16 \<Rightarrow> (case strtoul0 value of (v, rest) \<Rightarrow>
          load_number clos obj d p rest (unat v > 65535) (store 2 (int (unat v))))
      | Ft_uint32 \<Rightarrow> (case strtoul0 value of (v, rest) \<Rightarrow> load_number clos obj d p rest False (store 4 (int (unat v))))
      | Ft_uint64 \<Rightarrow> (case strtoul0 value of (v, rest) \<Rightarrow> load_number clos obj d p rest False (store 8 (int (unat v))))
      | Ft_int16 \<Rightarrow> (case strtol0 value of (v, rest) \<Rightarrow> load_number clos obj d p rest (v > 32767) (store 2 v))
      | Ft_int32 \<Rightarrow> (case strtol0 value of (v, rest) \<Rightarrow> load_number clos obj d p rest False (store 4 v))
      | Ft_int64 \<Rightarrow> (case strtol0 value of (v, rest) \<Rightarrow> load_number clos obj d p rest False (store 8 v))
      | Ft_double \<Rightarrow> (case pe_strtod env value of (bs, rest) \<Rightarrow> load_number clos obj d p rest False bs)
      | Ft_mlstring \<Rightarrow> load_multiline ok junk clos obj d p f value)"

text \<open>The pointer for the value: a repeated field gets a further element of zeroes first.\<close>

definition load_into ::
  "pres_env \<Rightarrow> (nat \<Rightarrow> bool) \<Rightarrow> (nat \<Rightarrow> byte) \<Rightarrow> pres_clos \<Rightarrow> nmsg_msgmod_field \<Rightarrow> byte list \<Rightarrow> (nmsg_res \<times> pres_clos) run" where
  "load_into env ok junk clos f value =
     (case (pc_pbuf clos, fd_descr f) of
        (Some obj, Some d) \<Rightarrow>
          if pc_freed clos then Fault
          else if pd_label d = Label_repeated then
            (case pm_member obj (pd_offset d) of
               Some (Many cs) \<Rightarrow>
                 let n = unat (pm_quant obj (pd_quant d)) in
                 if n \<noteq> length cs then Fault
                 else if \<not> ok 1 then Ret (nmsg_res_memfail, clos\<lparr>pc_pbuf := Some
                   (obj\<lparr>pm_member := (pm_member obj)(pd_offset d \<mapsto> Many []), pm_quant := (pm_quant obj)(pd_quant d := 0)\<rparr>)\<rparr>)
                 else
                   let obj = obj\<lparr>pm_member := (pm_member obj)(pd_offset d \<mapsto> Many (cs @ [zero_cell (pd_type d)])),
                         pm_quant := (pm_quant obj)(pd_quant d := pm_quant obj (pd_quant d) + 1)\<rparr>
                   in pres_to_payload_load env ok junk (clos\<lparr>pc_pbuf := Some obj\<rparr>) obj f d (pd_offset d, Some n) value
             | _ \<Rightarrow> Fault)
          else pres_to_payload_load env ok junk clos obj f d (pd_offset d, None) value
      | _ \<Rightarrow> Fault)"

text \<open>
  The field of a key: the loop over the fields leaves its variable at the last one when none has the name.
\<close>

definition key_field :: "msgmod \<Rightarrow> byte list \<Rightarrow> nmsg_msgmod_field run" where
  "key_field m name =
     (if mm_fields m = [] then Fault
      else Ret (case find (\<lambda>f. case fd_descr f of Some d \<Rightarrow> name = pd_name d | None \<Rightarrow> False) (mm_fields m) of
          Some f \<Rightarrow> f | None \<Rightarrow> last (mm_fields m)))"

text \<open>\<^verbatim>\<open>_nmsg_msgmod_pres_to_payload\<close>; \<open>ok 2\<close> is the allocation of the message.\<close>

definition pres_to_payload ::
  "pres_env \<Rightarrow> (nat \<Rightarrow> bool) \<Rightarrow> (nat \<Rightarrow> byte) \<Rightarrow> msgmod \<Rightarrow> pres_clos \<Rightarrow> byte list \<Rightarrow> (nmsg_res \<times> pres_clos) run" where
  "pres_to_payload env ok junk m clos0 pres =
     (if pc_pbuf clos0 = None \<and> \<not> ok 2 then Ret (nmsg_res_memfail, clos0)
      else run_bind (case (pc_pbuf clos0, pl_pbdescr (mm_plugin m)) of
          (Some _, _) \<Rightarrow> Ret clos0
        | (None, Some ds) \<Rightarrow> Ret (clos0\<lparr>pc_pbuf := Some (pb_zero ds), pc_multiline := False\<rparr>)
        | _ \<Rightarrow> Fault) (\<lambda>clos.
        if pres \<noteq> [] \<and> hd pres = 10 \<and> \<not> pc_multiline clos then Ret (nmsg_res_pbuf_ready, clos)
        else if pc_multiline clos then
          (case pc_field clos of None \<Rightarrow> Fault | Some f \<Rightarrow> load_into env ok junk clos f pres)
        else if pres = [] then Fault
        else
          let terminated = (last pres = 10); line = (if terminated then butlast pres else pres) in
          run_bind (strtok_line terminated [58] line) (\<lambda>(name, rest). case name of
            None \<Rightarrow> Ret (nmsg_res_parse_error, clos)
          | Some name \<Rightarrow> run_bind (key_field m name) (\<lambda>f.
              if fd_descr f = None then Ret (nmsg_res_parse_error, clos)
              else if fd_type f = Ft_mlstring then load_into env ok junk clos f []
              else run_bind (strtok_line terminated [32] rest) (\<lambda>(value, _). case value of
                  None \<Rightarrow> Ret (nmsg_res_parse_error, clos)
                | Some value \<Rightarrow> load_into env ok junk clos f value)))))"

section \<open>Finishing a message\<close>

text \<open>
  Strings of several lines get their zero; then the message is packed, which reads every value up to its length, into
  a buffer of twice the estimate.
\<close>

definition is_mlstring :: "nmsg_msgmod_field \<Rightarrow> pb_descr \<Rightarrow> bool" where
  "is_mlstring f d \<longleftrightarrow> pd_type d = PB_BYTES \<and> fd_type f = Ft_mlstring"

fun terminate_mlstrings :: "nmsg_msgmod_field list \<Rightarrow> pb_msg \<Rightarrow> pb_msg run" where
  "terminate_mlstrings [] obj = Ret obj"
| "terminate_mlstrings (f # fs) obj =
     (case fd_descr f of
        None \<Rightarrow> terminate_mlstrings fs obj
      | Some d \<Rightarrow>
          if is_mlstring f d \<and> one_present obj d then
            run_bind (pb_peek obj (pd_offset d, None)) (\<lambda>c. case c of
              Scalar _ \<Rightarrow> Fault
            | Data len data \<Rightarrow> run_bind (pb_poke obj (pd_offset d, None) (Data (len + 1) data)) (terminate_mlstrings fs))
          else terminate_mlstrings fs obj)"

definition cell_readable :: "pb_cell \<Rightarrow> bool" where
  "cell_readable c = (case c of Scalar _ \<Rightarrow> True | Data len data \<Rightarrow> len \<le> length (opt_bytes data))"

definition descr_readable :: "pb_msg \<Rightarrow> pb_descr \<Rightarrow> bool" where
  "descr_readable obj d = (case pm_member obj (pd_offset d) of
     Some (One c) \<Rightarrow> one_present obj d \<longrightarrow> cell_readable c
   | Some (Many cs) \<Rightarrow> list_all cell_readable cs
   | None \<Rightarrow> False)"

text \<open>Freeing the values: a buffer of several lines is emptied for the next message, and a repeated one stops the program.\<close>

fun reset_strbufs :: "(nat \<Rightarrow> bool) \<Rightarrow> (nat \<Rightarrow> byte) \<Rightarrow> nmsg_msgmod_field list \<Rightarrow> pb_msg \<Rightarrow> pres_clos \<Rightarrow> pres_clos run" where
  "reset_strbufs ok junk [] obj clos = Ret clos"
| "reset_strbufs ok junk (f # fs) obj clos =
     (case fd_descr f of
        None \<Rightarrow> reset_strbufs ok junk fs obj clos
      | Some d \<Rightarrow>
          if is_mlstring f d \<and> one_present obj d then
            run_bind (clos_strbuf clos d) (\<lambda>sb.
              reset_strbufs ok junk fs obj (set_strbuf clos d (snd (nmsg_strbuf_reset (ok (pd_id d)) junk sb))))
          else if is_mlstring f d \<and> pd_label d = Label_repeated \<and> pm_quant obj (pd_quant d) \<noteq> 0 then Abort
          else reset_strbufs ok junk fs obj clos)"

text \<open>\<^verbatim>\<open>_nmsg_msgmod_pres_to_payload_finalize\<close>; \<open>ok 0\<close> is the buffer, the others are the buffers that are emptied.\<close>

definition pres_to_payload_finalize ::
  "(nat \<Rightarrow> bool) \<Rightarrow> (nat \<Rightarrow> byte) \<Rightarrow> msgmod \<Rightarrow> pres_clos \<Rightarrow> ((nmsg_res \<times> byte list option) \<times> pres_clos) run" where
  "pres_to_payload_finalize ok junk m clos0 =
     (let clos = clos0\<lparr>pc_estsz := max 64 (pc_estsz clos0)\<rparr> in
      if \<not> ok 0 then
        if pc_freed clos then Fault
        else Ret ((nmsg_res_memfail, None), clos\<lparr>pc_freed := pc_pbuf clos \<noteq> None\<rparr>)
      else (case (pc_pbuf clos, pl_pbdescr (mm_plugin m)) of
          (Some obj, Some ds) \<Rightarrow>
            if pc_freed clos then Fault
            else run_bind (terminate_mlstrings (mm_fields m) obj) (\<lambda>obj.
              if \<not> list_all (descr_readable obj) ds then Fault
              else
                let bs = pl_pack (mm_plugin m) obj in
                if length bs > 2 * pc_estsz clos then Fault
                else run_bind (reset_strbufs ok junk (mm_fields m) obj clos) (\<lambda>clos.
                  Ret ((nmsg_res_success, Some bs), clos\<lparr>pc_pbuf := None, pc_estsz := 0\<rparr>)))
        | _ \<Rightarrow> Fault))"

section \<open>Reading a stream\<close>

text \<open>
  \<^verbatim>\<open>_input_pres_read\<close>: lines of at most 1023 octets from the file until a message is complete. \<open>ok k\<close> are the
  allocations of the \<open>k\<close>-th line, and \<open>lookup\<close> and \<open>now\<close> those of the message that is made of the payload.
\<close>

definition pres_message ::
  "(u32 \<Rightarrow> u32 \<Rightarrow> nmsg_msgmod option) \<Rightarrow> (nat \<Rightarrow> bool) \<Rightarrow> Message.timespec \<Rightarrow> msgmod \<Rightarrow> byte list \<Rightarrow> nmsg_res \<times> nmsg_message option" where
  "pres_message lookup ok now m bs =
     (case nmsg_message_from_raw_payload lookup ok now (pl_vendor (mm_plugin m)) (pl_msgtype (mm_plugin m)) bs (Some now) of
        None \<Rightarrow> (nmsg_res_memfail, None) | Some msg \<Rightarrow> (nmsg_res_success, Some msg))"

lemma fgets_1023_progress: "(l, r) = fgets_line 1023 bs \<Longrightarrow> bs \<noteq> [] \<Longrightarrow> length r < length bs"
  using fgets_line_progress [of bs 1022 l r] by simp

function input_pres_read ::
  "pres_env \<Rightarrow> (u32 \<Rightarrow> u32 \<Rightarrow> nmsg_msgmod option) \<Rightarrow> Message.timespec \<Rightarrow> (nat \<Rightarrow> nat \<Rightarrow> bool) \<Rightarrow> (nat \<Rightarrow> byte) \<Rightarrow> msgmod \<Rightarrow> nat \<Rightarrow>
     pres_clos \<Rightarrow> byte list \<Rightarrow> ((nmsg_res \<times> nmsg_message option) \<times> pres_clos \<times> byte list) run" where
  "input_pres_read env lookup now ok junk m k clos file =
     (if file = [] then Ret ((nmsg_res_eof, None), clos, [])
      else
        let (line, rest) = fgets_line 1023 file in
        run_bind (pres_to_payload env (ok k) junk m clos (c_string line)) (\<lambda>(res, clos).
          if res = nmsg_res_success then input_pres_read env lookup now ok junk m (k + 1) clos rest
          else if res \<noteq> nmsg_res_pbuf_ready then Ret ((res, None), clos, rest)
          else run_bind (pres_to_payload_finalize (ok (k + 1)) junk m clos) (\<lambda>((res, bs), clos).
            case bs of
              Some bs \<Rightarrow> Ret (pres_message lookup (ok (k + 2)) now m bs, clos, rest)
            | None \<Rightarrow> Ret ((res, None), clos, rest))))"
  by pat_completeness auto
termination
  by (relation "measure (\<lambda>(env, lookup, now, ok, junk, m, k, clos, file). length file)")
    (auto dest: fgets_1023_progress)

declare input_pres_read.simps [simp del]

end
