(* ===== verification/Msgmod_Props.thy ===== *)
theory Msgmod_Props
  imports Msgmod
begin

text \<open>
  Fields of messages: what is set can be read, by name or by index, and nothing else changes.
\<close>

section \<open>Well-formed messages and modules\<close>

definition cell_fits :: "pb_type \<Rightarrow> pb_cell \<Rightarrow> bool" where
  "cell_fits t c = (case c of
     Data _ _ \<Rightarrow> t = PB_BYTES | Scalar bs \<Rightarrow> t \<noteq> PB_BYTES \<and> length bs = sizeof_elt_in_repeated_array t)"

text \<open>The member of a field as the descriptor says; the count of a repeated field is the length of its array.\<close>

definition member_wf :: "pb_msg \<Rightarrow> pb_descr \<Rightarrow> bool" where
  "member_wf obj d = (case pm_member obj (pd_offset d) of
     Some (One c) \<Rightarrow> pd_label d \<noteq> Label_repeated \<and> cell_fits (pd_type d) c
   | Some (Many cs) \<Rightarrow> pd_label d = Label_repeated \<and> (\<forall>c \<in> set cs. cell_fits (pd_type d) c) \<and>
       length cs = unat (pm_quant obj (pd_quant d))
   | None \<Rightarrow> False)"

definition msg_wf :: "pb_descr list \<Rightarrow> pb_msg \<Rightarrow> bool" where
  "msg_wf ds obj \<longleftrightarrow> (\<forall>d \<in> set ds. member_wf obj d)"

text \<open>The structure that protoc-c generates: no two fields share a name, a member or a quantifier.\<close>

definition quantified :: "pb_descr list \<Rightarrow> pb_descr list" where
  "quantified ds = filter (\<lambda>d. pd_label d \<noteq> Label_required) ds"

definition descrs_ok :: "pb_descr list \<Rightarrow> bool" where
  "descrs_ok ds \<longleftrightarrow> distinct (map pd_name ds) \<and> distinct (map pd_offset ds) \<and> distinct (map pd_quant (quantified ds))"

text \<open>The type of the field in the module's table agrees with the one in the protocol buffer, as msgmod.h asks for.\<close>

definition field_size :: "nmsg_msgmod_field_type \<Rightarrow> nat" where
  "field_size t =
     (if t \<in> {Ft_bool, Ft_enum, Ft_int16, Ft_uint16, Ft_int32, Ft_uint32} then 4
      else if t \<in> {Ft_ip, Ft_bytes, Ft_string, Ft_mlstring} then 16 else 8)"

definition field_typed :: "nmsg_msgmod_field_type \<Rightarrow> pb_type \<Rightarrow> bool" where
  "field_typed t pt \<longleftrightarrow> field_size t = sizeof_elt_in_repeated_array pt"

lemma field_typed_data: "field_typed t pt \<Longrightarrow> pt = PB_BYTES \<longleftrightarrow> t \<in> {Ft_ip, Ft_bytes, Ft_string, Ft_mlstring}"
  by (cases pt) (auto simp: field_typed_def field_size_def sizeof_elt_in_repeated_array_def split: if_splits)

definition plugin_ok :: "nmsg_msgmod_plugin \<Rightarrow> pb_descr list \<Rightarrow> bool" where
  "plugin_ok p ds \<longleftrightarrow> pl_transparent p \<and> pl_pbdescr p = Some ds \<and> descrs_ok ds \<and> pl_vendor p \<noteq> 0 \<and> pl_msgtype p \<noteq> 0 \<and>
     pl_fields p \<noteq> [] \<and> length (pl_fields p) < 2 ^ 32 \<and> distinct (map fd_name (pl_fields p)) \<and>
     (\<forall>f \<in> set (pl_fields p). fd_descr f = None \<and>
       (case find (\<lambda>d. pd_name d = fd_name f) ds of
          None \<Rightarrow> fd_get f \<noteq> None | Some d \<Rightarrow> field_typed (fd_type f) (pd_type d)))"

section \<open>The table of fields\<close>

definition described :: "pb_descr list \<Rightarrow> nmsg_msgmod_field \<Rightarrow> nmsg_msgmod_field" where
  "described ds f = (case find (\<lambda>d. pd_name d = fd_name f) ds of None \<Rightarrow> f | Some d \<Rightarrow> f\<lparr>fd_descr := Some d\<rparr>)"

lemma described_simps [simp]:
  "fd_name (described ds f) = fd_name f" "fd_get (described ds f) = fd_get f" "fd_type (described ds f) = fd_type f"
  "fd_flags (described ds f) = fd_flags f" "fd_print (described ds f) = fd_print f"
  by (simp_all add: described_def split: option.splits)

lemma find_descrs_all:
  assumes "\<forall>f \<in> set fs. find (\<lambda>d. pd_name d = fd_name f) ds = None \<longrightarrow> fd_get f \<noteq> None"
  shows "find_descrs ds fs = (True, map (described ds) fs)"
  using assms by (induction fs) (auto simp: described_def split: option.splits)

lemma sort_key_eq_Nil: "sort_key f xs = [] \<longleftrightarrow> xs = []"
  by (metis length_0_conv length_sort)

lemma find_SomeD: "find P xs = Some x \<Longrightarrow> x \<in> set xs \<and> P x"
  by (induction xs) (auto split: if_splits)

text \<open>What a module of a well-formed plug-in holds after \<^verbatim>\<open>_nmsg_msgmod_start\<close>.\<close>

definition module_ok :: "msgmod \<Rightarrow> pb_descr list \<Rightarrow> bool" where
  "module_ok m ds \<longleftrightarrow> pl_transparent (mm_plugin m) \<and> pl_pbdescr (mm_plugin m) = Some ds \<and> descrs_ok ds \<and>
     mm_fields m \<noteq> [] \<and> length (mm_fields m) < 2 ^ 32 \<and> sorted (map fd_name (mm_fields m)) \<and>
     distinct (map fd_name (mm_fields m)) \<and>
     (\<forall>f \<in> set (mm_fields m). case fd_descr f of
        None \<Rightarrow> fd_get f \<noteq> None
      | Some d \<Rightarrow> d \<in> set ds \<and> pd_name d = fd_name f \<and> field_typed (fd_type f) (pd_type d))"

lemma msgmod_start_ok:
  assumes "plugin_ok p ds"
  shows "\<exists>m. msgmod_start (\<lambda>_. True) p = Ret (Some m) \<and> module_ok m ds \<and>
    mm_fields m = sort_key fd_name (map (described ds) (pl_fields p)) \<and> mm_plugin m = p\<lparr>pl_fields := map (described ds) (pl_fields p)\<rparr>"
proof -
  have all: "\<forall>f \<in> set (pl_fields p). find (\<lambda>d. pd_name d = fd_name f) ds = None \<longrightarrow> fd_get f \<noteq> None"
    using assms by (auto simp: plugin_ok_def split: option.splits)
  have names: "map fd_name (map (described ds) (pl_fields p)) = map fd_name (pl_fields p)" by (simp add: comp_def)
  have descr: "case fd_descr f of None \<Rightarrow> fd_get f \<noteq> None
      | Some d \<Rightarrow> d \<in> set ds \<and> pd_name d = fd_name f \<and> field_typed (fd_type f) (pd_type d)"
    if f: "f \<in> described ds ` set (pl_fields p)" for f
  proof -
    obtain g where g: "g \<in> set (pl_fields p)" "f = described ds g" using f by auto
    then have "fd_descr g = None" "case find (\<lambda>d. pd_name d = fd_name g) ds of
          None \<Rightarrow> fd_get g \<noteq> None | Some d \<Rightarrow> field_typed (fd_type g) (pd_type d)"
      using assms by (auto simp: plugin_ok_def)
    with g(2) show ?thesis
      by (cases "find (\<lambda>d. pd_name d = fd_name g) ds") (auto simp: described_def dest: find_SomeD)
  qed
  have dist: "distinct (map fd_name (sort_key fd_name (map (described ds) (pl_fields p))))"
    using assms by (simp add: plugin_ok_def distinct_map inj_on_def) (metis described_simps(1))
  define fs where "fs = map (described ds) (pl_fields p)"
  define m where "m = \<lparr>mm_plugin = p\<lparr>pl_fields := fs\<rparr>, mm_fields = sort_key fd_name fs\<rparr>"
  have p: "pl_transparent p" "pl_pbdescr p = Some ds" "descrs_ok ds" "pl_vendor p \<noteq> 0" "pl_msgtype p \<noteq> 0" "pl_fields p \<noteq> []"
    "length (pl_fields p) < 2 ^ 32" "\<forall>f \<in> set (pl_fields p). fd_descr f = None" using assms by (simp_all add: plugin_ok_def)
  have first: "case pl_fields p of [] \<Rightarrow> True | f # _ \<Rightarrow> fd_descr f = None" using p(6,8) by (cases "pl_fields p") auto
  have load: "load_field_descriptors True \<lparr>mm_plugin = p, mm_fields = []\<rparr> = Ret (nmsg_res_success, m)"
    using p(2) find_descrs_all [OF all] by (simp add: load_field_descriptors_def m_def fs_def)
  have "msgmod_start (\<lambda>_. True) p = Ret (Some m)"
    using load first p by (simp add: msgmod_start_def Let_def)
  moreover have "module_ok m ds"
    unfolding module_ok_def m_def using p dist descr by (simp add: fs_def sort_key_eq_Nil)
  ultimately show ?thesis by (auto simp: m_def fs_def)
qed

lemma field_bsearch_found: "field_bsearch fs name l u = Some i \<Longrightarrow> l \<le> i \<and> i < u \<and> fd_name (fs ! i) = name"
proof (induction fs name l u rule: field_bsearch.induct)
  case (1 fs name l u)
  from 1(3) show ?case
    by (subst (asm) field_bsearch.simps) (auto simp: Let_def split: if_splits dest: 1(1,2))
qed

lemma field_bsearch_complete:
  assumes "sorted (map fd_name fs)" and "u \<le> length fs" and "l \<le> k" "k < u" and "fd_name (fs ! k) = name"
  shows "field_bsearch fs name l u \<noteq> None"
  using assms(2-)
proof (induction "u - l" arbitrary: l u rule: less_induct)
  case less
  define i where "i = (l + u) div 2"
  have i: "l \<le> i" "i < u" "i < length fs" using less.prems by (auto simp: i_def)
  have ord: "fd_name (fs ! a) \<le> fd_name (fs ! b)" if "a \<le> b" "b < length fs" for a b
    using sorted_nth_mono [OF assms(1), of a b] that by simp
  have "k < i" if "name < fd_name (fs ! i)"
    using that less.prems i ord [of i k] by (metis leD not_le_imp_less less_le_trans)
  moreover have "i < k" if "fd_name (fs ! i) < name"
    using that less.prems i ord [of k i] by (metis leD not_le_imp_less)
  ultimately show ?case
    using less.hyps [of i l] less.hyps [of u "i + 1"] less.prems i
    by (subst field_bsearch.simps) (auto simp: i_def [symmetric] Let_def)
qed

text \<open>Every field is found by its name, and a name of no field is not.\<close>

lemma lookup_field_nth:
  assumes "module_ok m ds" and "i < length (mm_fields m)"
  shows "lookup_field m (fd_name (mm_fields m ! i)) = Some i"
proof -
  have s: "sorted (map fd_name (mm_fields m))" "distinct (map fd_name (mm_fields m))" using assms(1) by (auto simp: module_ok_def)
  from field_bsearch_complete [OF s(1), of "length (mm_fields m)" 0 i] assms(2) obtain j where
    j: "lookup_field m (fd_name (mm_fields m ! i)) = Some j" by (auto simp: lookup_field_def)
  with field_bsearch_found have "j < length (mm_fields m)" "fd_name (mm_fields m ! j) = fd_name (mm_fields m ! i)"
    by (auto simp: lookup_field_def)
  with s(2) assms(2) have "j = i" by (simp add: distinct_conv_nth) blast
  with j show ?thesis by simp
qed

lemma lookup_field_none: "name \<notin> fd_name ` set (mm_fields m) \<Longrightarrow> lookup_field m name = None"
  by (cases "lookup_field m name") (auto simp: lookup_field_def image_iff dest!: field_bsearch_found)

section \<open>Reading what was set\<close>

definition field_view :: "pb_msg \<Rightarrow> nmsg_msgmod_field_type \<Rightarrow> pb_descr \<Rightarrow> nat \<Rightarrow> (nmsg_res \<times> field_value option) run" where
  "field_view obj t d j = (case value_ptr obj d j of
     None \<Rightarrow> Ret (nmsg_res_failure, None) | Some p \<Rightarrow> run_bind (pb_peek obj p) (cell_value t))"

text \<open>The caller's octets suffice for the type; the value given out afterwards.\<close>

definition data_ok :: "nmsg_msgmod_field_type \<Rightarrow> byte list \<Rightarrow> nat \<Rightarrow> bool" where
  "data_ok t data len \<longleftrightarrow>
     (if t \<in> {Ft_ip, Ft_bytes, Ft_string, Ft_mlstring} then len \<le> length data \<and> (t = Ft_ip \<longrightarrow> len = 4 \<or> len = 16)
      else (if t = Ft_bool then 1 else if t = Ft_int16 \<or> t = Ft_uint16 then 2 else field_size t) \<le> length data)"

definition value_matches :: "bool \<Rightarrow> nmsg_msgmod_field_type \<Rightarrow> byte list \<Rightarrow> nat \<Rightarrow> field_value \<Rightarrow> bool" where
  "value_matches little t data len v \<longleftrightarrow>
     (if t \<in> {Ft_ip, Ft_bytes, Ft_string, Ft_mlstring} then v = (Some (take len data), len)
      else if t = Ft_bool then (\<exists>bs. v = (Some bs, 4) \<and> length bs = 4 \<and> hd bs = hd data)
      else if t = Ft_int16 \<or> t = Ft_uint16 then v = (Some (widen16 little (t = Ft_int16) (take 2 data)), 4)
      else v = (Some (take (field_size t) data), field_size t))"

lemma length_widen16 [simp]: "length (widen16 little sign bs) = length bs + 2"
  by (simp add: widen16_def Let_def)

text \<open>What a scalar type copies is between one octet and the size of its field.\<close>

lemma scalar_bytes_ok:
  assumes "data_ok t data len" and "t \<notin> {Ft_ip, Ft_bytes, Ft_string, Ft_mlstring}"
  shows "\<exists>bs. scalar_bytes little t data = Ret bs \<and> length bs = (if t = Ft_bool then 1 else field_size t) \<and>
    bs = (if t = Ft_bool then take 1 data else if t = Ft_int16 \<or> t = Ft_uint16 then widen16 little (t = Ft_int16) (take 2 data)
      else take (field_size t) data)"
  using assms by (cases t) (auto simp: scalar_bytes_def data_ok_def field_size_def mem_read_def)

lemma store_value_ok:
  assumes c: "pb_peek obj p = Ret c" "cell_fits pt c" and t: "field_typed t pt" and d: "data_ok t data len"
  shows "\<exists>c' v. store_value little True t obj p data len = run_bind (pb_poke obj p c') (\<lambda>obj. Ret (nmsg_res_success, obj)) \<and>
    cell_fits pt c' \<and> cell_value t c' = Ret (nmsg_res_success, Some v) \<and> value_matches little t data len v"
proof (cases "t \<in> {Ft_ip, Ft_bytes, Ft_string, Ft_mlstring}")
  case True
  with c(2) t obtain l x where "c = Data l x" "pt = PB_BYTES"
    by (cases c) (auto simp: cell_fits_def field_typed_data)
  with True c(1) d show ?thesis
    by (intro exI [of _ "Data len (Some (take len data))"] exI [of _ "(Some (take len data), len)"])
      (auto simp: store_value_def mem_read_def data_ok_def cell_fits_def cell_value_def value_matches_def)
next
  case False
  with field_typed_data [OF t] c(2) t obtain old where old: "c = Scalar old" "length old = field_size t" "pt \<noteq> PB_BYTES"
    by (cases c) (auto simp: cell_fits_def field_typed_def)
  obtain bs where bs: "scalar_bytes little t data = Ret bs" "length bs = (if t = Ft_bool then 1 else field_size t)"
    "bs = (if t = Ft_bool then take 1 data else if t = Ft_int16 \<or> t = Ft_uint16 then widen16 little (t = Ft_int16) (take 2 data)
      else take (field_size t) data)" using scalar_bytes_ok [OF d False] by blast
  have le: "length bs \<le> length old" using bs(2) old(2) by (auto simp: field_size_def)
  define new where "new = bs @ drop (length bs) old"
  have "store_value little True t obj p data len = run_bind (pb_poke obj p (Scalar new)) (\<lambda>obj. Ret (nmsg_res_success, obj))"
    using False c(1) old(1) bs(1) le by (simp add: store_value_def poke_scalar_def mem_store_def new_def run_bind_assoc)
  moreover have "length new = field_size t" using le old(2) by (simp add: new_def)
  then have "cell_fits pt (Scalar new)" using old(3) t by (simp add: cell_fits_def field_typed_def)
  moreover have "cell_value t (Scalar new) = Ret (nmsg_res_success, Some (Some new, field_size t))"
    using False by (cases t) (auto simp: cell_value_def field_size_def)
  moreover have "value_matches little t data len (Some new, field_size t)"
  proof (cases "t = Ft_bool")
    case True
    then have "data \<noteq> []" "bs = [hd data]" using d bs(3) by (cases data; auto simp: data_ok_def)+
    with True old(2) show ?thesis by (simp add: value_matches_def new_def field_size_def)
  next
    case no: False
    then have "new = bs" using bs(2) old(2) by (simp add: new_def)
    with False no bs(3) show ?thesis by (cases t) (auto simp: value_matches_def field_size_def)
  qed
  ultimately show ?thesis by blast
qed

text \<open>The index of a value that can be set: the first one, or of a repeated field one that exists or is the next.\<close>

definition index_ok :: "pb_msg \<Rightarrow> pb_descr \<Rightarrow> nat \<Rightarrow> bool" where
  "index_ok obj d i \<longleftrightarrow>
     (if pd_label d = Label_repeated then i \<le> unat (pm_quant obj (pd_quant d)) \<and> i + 1 < 2 ^ 32 else i = 0)"

lemma cell_fits_zero: "cell_fits t (zero_cell t)"
  by (cases t) (simp_all add: cell_fits_def zero_cell_def)

text \<open>
  Setting a value of a well-formed message: the value can be read, the others of the field are as before, and so are
  the members and quantifiers of other fields.
\<close>

lemma set_value_ok:
  assumes wf: "member_wf obj d" and t: "field_typed t (pd_type d)" and i: "index_ok obj d i" and data: "data_ok t data len"
  shows "\<exists>obj1 p obj2 v. make_value True obj d i = Ret ((nmsg_res_success, Some p), obj1) \<and>
    store_value little True t obj1 p data len = Ret (nmsg_res_success, obj2) \<and>
    field_view obj2 t d i = Ret (nmsg_res_success, Some v) \<and> value_matches little t data len v \<and> member_wf obj2 d \<and>
    (\<forall>j. j \<noteq> i \<longrightarrow> field_view obj2 t d j = field_view obj t d j) \<and>
    (\<forall>off. off \<noteq> pd_offset d \<longrightarrow> pm_member obj2 off = pm_member obj off) \<and>
    (\<forall>q. pd_label d = Label_required \<or> q \<noteq> pd_quant d \<longrightarrow> pm_quant obj2 q = pm_quant obj q)"
proof (cases "pd_label d = Label_repeated")
  case False
  then obtain c where c: "pm_member obj (pd_offset d) = Some (One c)" "cell_fits (pd_type d) c"
    using wf by (auto simp: member_wf_def split: option.splits pb_member.splits)
  define obj1 where "obj1 = (if pd_label d = Label_required then obj else obj\<lparr>pm_quant := (pm_quant obj)(pd_quant d := 1)\<rparr>)"
  let ?p = "(pd_offset d, None)"
  have make: "make_value True obj d i = Ret ((nmsg_res_success, Some ?p), obj1)"
    using False i by (cases "pd_label d") (auto simp: make_value_def obj1_def index_ok_def)
  have m1: "pm_member obj1 = pm_member obj" by (simp add: obj1_def)
  have "pb_peek obj1 ?p = Ret c" using c(1) by (simp add: pb_peek_def m1)
  from store_value_ok [OF this c(2) t data] obtain c' v where
    s: "store_value little True t obj1 ?p data len = run_bind (pb_poke obj1 ?p c') (\<lambda>obj. Ret (nmsg_res_success, obj))"
    "cell_fits (pd_type d) c'" "cell_value t c' = Ret (nmsg_res_success, Some v)" "value_matches little t data len v" by blast
  define obj2 where "obj2 = obj1\<lparr>pm_member := (pm_member obj1)(pd_offset d \<mapsto> One c')\<rparr>"
  have st: "store_value little True t obj1 ?p data len = Ret (nmsg_res_success, obj2)"
    using s(1) c(1) by (simp add: pb_poke_def m1 obj2_def)
  have i0: "i = 0" using i False by (simp add: index_ok_def)
  have views: "field_view obj2 t d i = Ret (nmsg_res_success, Some v)"
    "\<forall>j. j \<noteq> i \<longrightarrow> field_view obj2 t d j = field_view obj t d j"
    using False s(3) i0
    by (cases "pd_label d"; auto simp: field_view_def value_ptr_def obj2_def obj1_def pb_peek_def Let_def)+
  have "member_wf obj2 d" using False s(2) by (simp add: member_wf_def obj2_def)
  then show ?thesis using make st views s(4)
    by (intro exI [of _ obj1] exI [of _ ?p] exI [of _ obj2] exI [of _ v]) (simp add: obj2_def obj1_def)
next
  case True
  then obtain cs where c: "pm_member obj (pd_offset d) = Some (Many cs)" "\<forall>c \<in> set cs. cell_fits (pd_type d) c"
    "length cs = unat (pm_quant obj (pd_quant d))"
    using wf by (auto simp: member_wf_def split: option.splits pb_member.splits)
  let ?p = "(pd_offset d, Some i)"
  have i: "i \<le> length cs" "i + 1 < 2 ^ 32" using i True c(3) by (simp_all add: index_ok_def)
  define cs1 where "cs1 = (if i < length cs then cs else cs @ [zero_cell (pd_type d)])"
  define obj1 where "obj1 = (if i < length cs then obj else obj\<lparr>pm_member := (pm_member obj)(pd_offset d \<mapsto> Many cs1),
    pm_quant := (pm_quant obj)(pd_quant d := pm_quant obj (pd_quant d) + 1)\<rparr>)"
  have make: "make_value True obj d i = Ret ((nmsg_res_success, Some ?p), obj1)"
    using True i(1) c by (auto simp: make_value_def obj1_def cs1_def Let_def)
  have m1: "pm_member obj1 (pd_offset d) = Some (Many cs1)" "i < length cs1" "\<forall>c \<in> set cs1. cell_fits (pd_type d) c"
    using c i(1) by (auto simp: obj1_def cs1_def cell_fits_zero)
  have "i = length cs \<Longrightarrow> unat (pm_quant obj (pd_quant d) + 1) = length cs + 1"
    using i(2) c(3) by (simp add: unat_add_u32)
  then have q1: "unat (pm_quant obj1 (pd_quant d)) = length cs1" using c(3) i(1) by (auto simp: obj1_def cs1_def)
  have "pb_peek obj1 ?p = Ret (cs1 ! i)" "cell_fits (pd_type d) (cs1 ! i)" using m1 by (simp_all add: pb_peek_def)
  from store_value_ok [OF this t data] obtain c' v where
    s: "store_value little True t obj1 ?p data len = run_bind (pb_poke obj1 ?p c') (\<lambda>obj. Ret (nmsg_res_success, obj))"
    "cell_fits (pd_type d) c'" "cell_value t c' = Ret (nmsg_res_success, Some v)" "value_matches little t data len v" by blast
  define obj2 where "obj2 = obj1\<lparr>pm_member := (pm_member obj1)(pd_offset d \<mapsto> Many (cs1[i := c']))\<rparr>"
  have st: "store_value little True t obj1 ?p data len = Ret (nmsg_res_success, obj2)"
    using s(1) m1 by (simp add: pb_poke_def obj2_def)
  have q2: "pm_quant obj2 = pm_quant obj1" by (simp add: obj2_def)
  have view: "field_view obj2 t d j = (if j < length cs1 then cell_value t (cs1[i := c'] ! j) else Ret (nmsg_res_failure, None))" for j
    using True q1 by (simp add: field_view_def value_ptr_def obj2_def pb_peek_def)
  have "field_view obj t d j = (if j < length cs then cell_value t (cs ! j) else Ret (nmsg_res_failure, None))" for j
    using True c by (simp add: field_view_def value_ptr_def pb_peek_def)
  then have "\<forall>j. j \<noteq> i \<longrightarrow> field_view obj2 t d j = field_view obj t d j"
    unfolding view using i(1) by (auto simp: cs1_def nth_append)
  moreover have "member_wf obj2 d"
    using True s(2) m1 q1 by (auto simp: member_wf_def obj2_def dest: set_update_subset_insert [THEN subsetD])
  moreover have "field_view obj2 t d i = Ret (nmsg_res_success, Some v)" using view m1(2) s(3) by simp
  moreover have "off \<noteq> pd_offset d \<Longrightarrow> pm_member obj2 off = pm_member obj off"
    "pd_label d = Label_required \<or> q \<noteq> pd_quant d \<Longrightarrow> pm_quant obj2 q = pm_quant obj q" for off q
    using True by (auto simp: obj2_def obj1_def)
  ultimately show ?thesis using make st s(4)
    by (intro exI [of _ obj1] exI [of _ ?p] exI [of _ obj2] exI [of _ v]) simp
qed

section \<open>By name\<close>

lemma transparent_mod_ok: "module_ok m ds \<Longrightarrow> tm_mod msg = Some m \<Longrightarrow> transparent_mod msg = Some m"
  by (simp add: transparent_mod_def module_ok_def)

lemma get_field_idx_ok:
  assumes "module_ok m ds" and "tm_mod msg = Some m" and "f \<in> set (mm_fields m)"
  obtains i where "nmsg_message_get_field_idx msg (fd_name f) = (nmsg_res_success, Some i)" "field_at m i = Ret (Some f)"
proof -
  from assms(3) obtain k where k: "k < length (mm_fields m)" "mm_fields m ! k = f" by (auto simp: in_set_conv_nth)
  have b: "mm_fields m \<noteq> []" "length (mm_fields m) < 2 ^ 32" using assms(1) by (auto simp: module_ok_def)
  then have u: "unat (of_nat k :: u32) = k" using k(1) by (intro unat_of_nat_u32) simp
  have "nmsg_message_get_field_idx msg (fd_name f) = (nmsg_res_success, Some (of_nat k))"
    using lookup_field_nth [OF assms(1) k(1)] k(2) transparent_mod_ok [OF assms(1,2)] by (simp add: nmsg_message_get_field_idx_def)
  moreover have "field_at m (of_nat k) = Ret (Some f)" using b k u by (auto simp: field_at_def)
  ultimately show ?thesis by (rule that)
qed

text \<open>A field of the module that is a member of the message and not hidden.\<close>

definition plain_field :: "msgmod \<Rightarrow> nmsg_msgmod_field \<Rightarrow> bool" where
  "plain_field m f \<longleftrightarrow> f \<in> set (mm_fields m) \<and> fd_get f = None \<and> fd_flags f AND NMSG_MSGMOD_FIELD_HIDDEN = 0"

lemma plain_field_descr:
  assumes "module_ok m ds" and "plain_field m f"
  obtains d where "fd_descr f = Some d" "d \<in> set ds" "pd_name d = fd_name f" "field_typed (fd_type f) (pd_type d)"
  using assms by (force simp: module_ok_def plain_field_def split: option.splits)

lemma get_field_view:
  assumes m: "module_ok m ds" "tm_mod msg = Some m" and obj: "tm_message msg = Some obj" and f: "plain_field m f" "fd_descr f = Some d"
  shows "nmsg_message_get_field msg (fd_name f) j = run_bind (field_view obj (fd_type f) d j) (\<lambda>r. Ret (r, msg))"
proof -
  from f(1) have "f \<in> set (mm_fields m)" by (simp add: plain_field_def)
  from get_field_idx_ok [OF m this] obtain i where
    i: "nmsg_message_get_field_idx msg (fd_name f) = (nmsg_res_success, Some i)" "field_at m i = Ret (Some f)" by blast
  with f transparent_mod_ok [OF m] obj show ?thesis
    by (cases "value_ptr obj d j")
      (simp_all add: nmsg_message_get_field_def nmsg_message_get_field_by_idx_def plain_field_def tm_deserialize_def field_view_def
        run_bind_assoc)
qed

lemma set_field_store:
  assumes m: "module_ok m ds" "tm_mod msg = Some m" and obj: "tm_message msg = Some obj" and f: "plain_field m f" "fd_descr f = Some d"
    and make: "make_value (ok 0) obj d i = Ret ((nmsg_res_success, Some p), obj1)"
    and store: "store_value little (ok 1) (fd_type f) obj1 p data len = Ret (nmsg_res_success, obj2)"
  shows "nmsg_message_set_field little ok msg (fd_name f) i data len =
    Ret (nmsg_res_success, msg\<lparr>tm_message := Some obj2, tm_updated := True\<rparr>)"
proof -
  from f(1) have "f \<in> set (mm_fields m)" by (simp add: plain_field_def)
  from get_field_idx_ok [OF m this] obtain k where
    k: "nmsg_message_get_field_idx msg (fd_name f) = (nmsg_res_success, Some k)" "field_at m k = Ret (Some f)" by blast
  with f transparent_mod_ok [OF m] obj make store show ?thesis
    by (simp add: nmsg_message_set_field_def nmsg_message_set_field_by_idx_def plain_field_def tm_deserialize_def)
qed

text \<open>Two fields of the structure share nothing.\<close>

lemma descrs_ok_apart:
  assumes "descrs_ok ds" and "d \<in> set ds" "e \<in> set ds" "d \<noteq> e"
  shows "pd_offset e \<noteq> pd_offset d"
    and "pd_label d \<noteq> Label_required \<Longrightarrow> pd_label e \<noteq> Label_required \<Longrightarrow> pd_quant e \<noteq> pd_quant d"
proof -
  have "inj_on pd_offset (set ds)" "inj_on pd_quant (set (quantified ds))"
    using assms(1) by (auto simp: descrs_ok_def distinct_map)
  then show "pd_offset e \<noteq> pd_offset d"
    "pd_label d \<noteq> Label_required \<Longrightarrow> pd_label e \<noteq> Label_required \<Longrightarrow> pd_quant e \<noteq> pd_quant d"
    using assms by (auto simp: inj_on_def quantified_def)
qed

lemma view_frame:
  assumes "pm_member obj2 (pd_offset e) = pm_member obj (pd_offset e)"
    and "pd_label e \<noteq> Label_required \<longrightarrow> pm_quant obj2 (pd_quant e) = pm_quant obj (pd_quant e)"
  shows "field_view obj2 t e j = field_view obj t e j" and "member_wf obj2 e \<longleftrightarrow> member_wf obj e"
proof -
  have "value_ptr obj2 e j = value_ptr obj e j"
    using assms(2) by (cases "pd_label e") (simp_all add: value_ptr_def Let_def)
  moreover have "pb_peek obj2 p = pb_peek obj p" if "value_ptr obj e j = Some p" for p
  proof -
    have "fst p = pd_offset e" using that by (auto simp: value_ptr_def Let_def split: pb_label.splits if_splits)
    then show ?thesis using assms(1) by (simp add: pb_peek_def)
  qed
  ultimately show "field_view obj2 t e j = field_view obj t e j" by (simp add: field_view_def split: option.split)
  show "member_wf obj2 e \<longleftrightarrow> member_wf obj e"
    using assms by (auto simp: member_wf_def split: option.splits pb_member.splits)
qed

text \<open>What setting a value of a field leaves of a message: the other values of the field and the other fields.\<close>

definition only_value :: "nmsg_msgmod_field \<Rightarrow> pb_descr \<Rightarrow> nat \<Rightarrow> pb_msg \<Rightarrow> pb_msg \<Rightarrow> bool" where
  "only_value f d i obj obj2 \<longleftrightarrow>
     (\<forall>j. j \<noteq> i \<longrightarrow> field_view obj2 (fd_type f) d j = field_view obj (fd_type f) d j) \<and>
     (\<forall>off. off \<noteq> pd_offset d \<longrightarrow> pm_member obj2 off = pm_member obj off) \<and>
     (\<forall>q. pd_label d = Label_required \<or> q \<noteq> pd_quant d \<longrightarrow> pm_quant obj2 q = pm_quant obj q)"

lemma only_value_frame:
  assumes m: "module_ok m ds" and s: "only_value f d i obj obj2" and d: "d \<in> set ds" and e: "e \<in> set ds" "e \<noteq> d"
  shows "field_view obj2 t e j = field_view obj t e j" and "member_wf obj2 e \<longleftrightarrow> member_wf obj e"
proof -
  have ds: "descrs_ok ds" using m by (simp add: module_ok_def)
  from descrs_ok_apart [OF ds d e(1)] e(2) s
  have "pm_member obj2 (pd_offset e) = pm_member obj (pd_offset e)"
    "pd_label e \<noteq> Label_required \<longrightarrow> pm_quant obj2 (pd_quant e) = pm_quant obj (pd_quant e)" by (auto simp: only_value_def)
  then show "field_view obj2 t e j = field_view obj t e j" "member_wf obj2 e \<longleftrightarrow> member_wf obj e"
    by (rule view_frame)+
qed

lemma only_value_others:
  assumes m: "module_ok m ds" "tm_mod msg = Some m" "tm_mod msg' = Some m" and obj: "tm_message msg = Some obj" "tm_message msg' = Some obj2"
    and f: "plain_field m f" "fd_descr f = Some d" and s: "only_value f d i obj obj2" and g: "plain_field m g" "g \<noteq> f \<or> j \<noteq> i"
  shows "nmsg_message_get_field msg' (fd_name g) j = Ret (r, msg') \<longleftrightarrow> nmsg_message_get_field msg (fd_name g) j = Ret (r, msg)"
proof -
  obtain e where e: "fd_descr g = Some e" "e \<in> set ds" "pd_name e = fd_name g" using plain_field_descr [OF m(1) g(1)] by blast
  have d: "d \<in> set ds" "pd_name d = fd_name f" using plain_field_descr [OF m(1) f(1)] f(2) by auto
  have "field_view obj2 (fd_type g) e j = field_view obj (fd_type g) e j"
  proof (cases "g = f")
    case True
    then show ?thesis using g(2) e(1) f(2) s by (auto simp: only_value_def)
  next
    case False
    then have "fd_name g \<noteq> fd_name f" using g(1) f(1) m(1) by (auto simp: module_ok_def plain_field_def distinct_map inj_on_def)
    then have "e \<noteq> d" using e(3) d(2) by auto
    then show ?thesis by (rule only_value_frame(1) [OF m(1) s d(1) e(2)])
  qed
  then show ?thesis using get_field_view [OF m(1,3) obj(2) g(1) e(1)] get_field_view [OF m(1,2) obj(1) g(1) e(1)] by simp
qed


definition w_descr_name :: pb_descr where
  "w_descr_name = \<lparr>pd_name = [110, 97, 109, 101], pd_id = 1, pd_label = Label_optional, pd_type = PB_BYTES, pd_quant = 24,
     pd_offset = 32, pd_enum = None\<rparr>"

definition w_descr_seq :: pb_descr where
  "w_descr_seq = \<lparr>pd_name = [115, 101, 113], pd_id = 2, pd_label = Label_repeated, pd_type = PB_UINT32, pd_quant = 48,
     pd_offset = 56, pd_enum = None\<rparr>"

definition w_plugin :: nmsg_msgmod_plugin where
  "w_plugin = \<lparr>pl_transparent = True, pl_vendor = 1, pl_msgtype = 9,
     pl_fields =
       [\<lparr>fd_type = Ft_uint16, fd_name = [115, 101, 113], fd_flags = 0, fd_print = None, fd_get = None, fd_descr = None\<rparr>,
        \<lparr>fd_type = Ft_string, fd_name = [110, 97, 109, 101], fd_flags = 0, fd_print = None, fd_get = None, fd_descr = None\<rparr>],
     pl_pbdescr = Some [w_descr_name, w_descr_seq], pl_unpack = (\<lambda>_. None), pl_pack = (\<lambda>_. [])\<rparr>"

lemma w_plugin_ok: "plugin_ok w_plugin [w_descr_name, w_descr_seq]"
  by (auto simp: plugin_ok_def w_plugin_def descrs_ok_def quantified_def w_descr_name_def w_descr_seq_def field_typed_def
      field_size_def sizeof_elt_in_repeated_array_def)

definition w_seq_field :: nmsg_msgmod_field where
  "w_seq_field = \<lparr>fd_type = Ft_uint16, fd_name = [115, 101, 113], fd_flags = 0, fd_print = None, fd_get = None,
     fd_descr = Some w_descr_seq\<rparr>"

lemma w_seq_simps: "fd_type w_seq_field = Ft_uint16" "fd_descr w_seq_field = Some w_descr_seq" "fd_name w_seq_field = [115, 101, 113]"
  by (simp_all add: w_seq_field_def)


text \<open>
  A value that is refused is not without effect: setting an optional address to octets of the wrong length fails, but
  the field is then present, and the message counts as updated.
\<close>

lemma set_ip_leaves_present:
  assumes m: "module_ok m ds" "tm_mod msg = Some m" and obj: "tm_message msg = Some obj"
    and f: "plain_field m f" "fd_descr f = Some d" "fd_type f = Ft_ip" "pd_label d = Label_optional" and len: "len \<noteq> 4" "len \<noteq> 16"
  shows "nmsg_message_set_field little ok msg (fd_name f) 0 data len = Ret (nmsg_res_failure,
    msg\<lparr>tm_message := Some (obj\<lparr>pm_quant := (pm_quant obj)(pd_quant d := 1)\<rparr>), tm_updated := True\<rparr>)"
proof -
  from f(1) have "f \<in> set (mm_fields m)" by (simp add: plain_field_def)
  from get_field_idx_ok [OF m this] obtain k where
    k: "nmsg_message_get_field_idx msg (fd_name f) = (nmsg_res_success, Some k)" "field_at m k = Ret (Some f)" by blast
  with f transparent_mod_ok [OF m] obj len show ?thesis
    by (simp add: nmsg_message_set_field_def nmsg_message_set_field_by_idx_def plain_field_def tm_deserialize_def make_value_def
        store_value_def)
qed

section \<open>The message object of theory Message\<close>

text \<open>The message of theory Message, which keeps an unpacked message as the octets that it packs to.\<close>

definition abs_module :: "msgmod \<Rightarrow> nmsg_msgmod" where
  "abs_module m = \<lparr>vendor_id = pl_vendor (mm_plugin m), msgtype_id = pl_msgtype (mm_plugin m),
     transparent = pl_transparent (mm_plugin m), pb_unpack = map_option (pl_pack (mm_plugin m)) \<circ> pl_unpack (mm_plugin m),
     pb_init = pl_pack (mm_plugin m) (pb_zero (case pl_pbdescr (mm_plugin m) of None \<Rightarrow> [] | Some ds \<Rightarrow> ds))\<rparr>"

definition abs_tmessage :: "tmessage \<Rightarrow> nmsg_message" where
  "abs_tmessage msg = \<lparr>msg_mod = map_option abs_module (tm_mod msg),
     message = (case (tm_mod msg, tm_message msg) of
       (Some m, Some obj) \<Rightarrow> Some (pl_pack (mm_plugin m) obj) | _ \<Rightarrow> None),
     np = tm_np msg, updated = tm_updated msg\<rparr>"

lemma deserialize_agrees:
  assumes "tm_message msg \<noteq> None \<longrightarrow> tm_mod msg \<noteq> None"
  shows "map_prod id abs_tmessage (tm_deserialize msg) = nmsg_message_deserialize (abs_tmessage msg)"
  using assms
  by (auto simp: tm_deserialize_def nmsg_message_deserialize_def abs_tmessage_def abs_module_def split: option.splits)

end
