(* ===== verification/Msgmod_Text.thy ===== *)
theory Msgmod_Text
  imports Msgmod_Read Msgmod_Props
begin

text \<open>
  Single values in the presentation format: what is printed for a value is read back as the same value.
\<close>

section \<open>Numbers\<close>

lemma le_value_less: "le_value bs < 256 ^ length bs"
proof (induction bs)
  case (Cons b bs)
  have "unat b < 256" by (rule unat_byte_less)
  then have "unat b + 256 * le_value bs < 256 * (le_value bs + 1)" by simp
  also have "\<dots> \<le> 256 * 256 ^ length bs" using Cons by (intro mult_le_mono2) simp
  finally show ?case by (simp add: le_value_def)
qed (simp add: le_value_def)

lemma host_value_less: "host_value little bs < 256 ^ length bs"
  using le_value_less [of "rev bs"] le_value_less [of bs] by (simp add: host_value_def)

text \<open>Writing the value of octets gives the octets.\<close>

lemma le_bytes_value: "map (\<lambda>i. of_int (int (le_value bs) div 256 ^ i)) [0..<length bs] = bs"
proof (induction bs)
  case (Cons b bs)
  have u: "unat b < 256" by (rule unat_byte_less)
  have v: "le_value (b # bs) = unat b + 256 * le_value bs" by (simp add: le_value_def)
  have first: "(of_int (int (le_value (b # bs))) :: byte) = b"
  proof -
    have "(of_nat (unat b + 256 * le_value bs) :: byte) = of_nat (unat b) + of_nat 256 * of_nat (le_value bs)"
      by (simp only: of_nat_add of_nat_mult)
    moreover have "(of_nat 256 :: byte) = 0" by simp
    ultimately show ?thesis unfolding v by (simp only: of_int_of_nat_eq) simp
  qed
  have next': "int (le_value (b # bs)) div 256 ^ Suc i = int (le_value bs) div 256 ^ i" for i
  proof -
    have "int (le_value (b # bs)) div 256 ^ Suc i = int (le_value (b # bs)) div 256 div 256 ^ i"
      by (simp add: zdiv_zmult2_eq)
    also have "int (le_value (b # bs)) div 256 = int (le_value (b # bs) div 256)" by (simp add: zdiv_int)
    also have "le_value (b # bs) div 256 = le_value bs" using u by (simp add: v)
    finally show ?thesis .
  qed
  have "[0..<length (b # bs)] = 0 # map Suc [0..<length bs]" by (simp add: map_Suc_upt upt_conv_Cons del: upt_Suc)
  then show ?case using Cons first next' by (simp add: comp_def)
qed simp

lemma host_bytes_value: "length bs = n \<Longrightarrow> host_bytes little n (int (host_value little bs)) = bs"
  using le_bytes_value [of bs] le_bytes_value [of "rev bs"]
  by (auto simp: host_bytes_def host_value_def Let_def rev_swap [symmetric])

lemma length_host_bytes [simp]: "length (host_bytes little n v) = n"
  by (simp add: host_bytes_def Let_def)

text \<open>The octets depend on the number only up to a multiple of its range, so a negative number has those of its complement.\<close>

lemma host_bytes_mod: "host_bytes little n (v + k * 256 ^ n) = host_bytes little n v"
proof -
  have "(of_int ((v + k * 256 ^ n) div 256 ^ i) :: byte) = of_int (v div 256 ^ i)" if i: "i < n" for i
  proof -
    obtain j where "n = Suc (i + j)" using i less_imp_Suc_add by blast
    then have "v + k * 256 ^ n = v + (k * 256 ^ (n - i - 1) * 256) * 256 ^ i" by (simp add: power_add)
    moreover have "(v + x * 256 ^ i) div 256 ^ i = v div 256 ^ i + x" for x :: int by simp
    ultimately have "(v + k * 256 ^ n) div 256 ^ i = v div 256 ^ i + k * 256 ^ (n - i - 1) * 256" by (simp only:)
    moreover have "(256 :: byte) = 0" by simp
    then have "(of_int (k * 256 ^ (n - i - 1) * 256) :: byte) = 0" by (simp only: of_int_mult of_int_numeral mult_zero_right)
    ultimately show ?thesis by (simp only: of_int_add) simp
  qed
  then have "map (\<lambda>i. of_int ((v + k * 256 ^ n) div 256 ^ i) :: byte) [0..<n] = map (\<lambda>i. of_int (v div 256 ^ i)) [0..<n]" by simp
  then show ?thesis unfolding host_bytes_def by (simp only:)
qed

lemma strtol0_decimal: "n < 2 ^ 63 \<Longrightarrow> strtol0 (decimal n) = (int n, [])"
proof -
  assume n: "n < 2 ^ 63"
  from decimal_scan [of n] obtain base where b: "strtoul_base (decimal n) = (base, decimal n)"
    "takeWhile (is_digit base) (decimal n) = decimal n" "dropWhile (is_digit base) (decimal n) = []"
    "digits_value base 0 (decimal n) = n" .
  show ?thesis using n decimal_start [of n] decimal_nonempty [of n] b(3)
    by (simp add: strtol0_def Let_def b(1,2,4) del: takeWhile_eq_all_conv)
qed

lemma strtol0_minus: "n \<le> 2 ^ 63 \<Longrightarrow> strtol0 (45 # decimal n) = (- int n, [])"
proof -
  assume n: "n \<le> 2 ^ 63"
  from decimal_scan [of n] obtain base where b: "strtoul_base (decimal n) = (base, decimal n)"
    "takeWhile (is_digit base) (decimal n) = decimal n" "dropWhile (is_digit base) (decimal n) = []"
    "digits_value base 0 (decimal n) = n" .
  show ?thesis using n decimal_nonempty [of n] b(3)
    by (simp add: strtol0_def Let_def b(1,2,4) c_isspace_def del: takeWhile_eq_all_conv)
qed

text \<open>A signed number of \<open>n\<close> octets, up to 8, is read back as what it stands for.\<close>

lemma strtol0_signed:
  assumes "0 < n" "n \<le> 8" and "v < 256 ^ n"
  shows "\<exists>w. strtol0 (signed_text (8 * n) v) = (w, []) \<and> host_bytes little n w = host_bytes little n (int v)"
proof -
  have p: "(256 :: nat) ^ n = 2 ^ (8 * n)" by (simp add: power_mult)
  then have v: "v mod 2 ^ (8 * n) = v" using assms(3) by simp
  have half: "(2 :: nat) ^ (8 * n) = 2 * 2 ^ (8 * n - 1)" using assms(1) by (simp flip: power_Suc)
  have le: "(2 :: nat) ^ (8 * n - 1) \<le> 2 ^ 63" using assms(2) by (intro power_increasing) auto
  show ?thesis
  proof (cases "v < 2 ^ (8 * n - 1)")
    case True
    then have "signed_text (8 * n) v = decimal v" using v by (simp add: signed_text_def)
    moreover have "v < 2 ^ 63" using True le by (rule less_le_trans)
    ultimately show ?thesis by (intro exI [of _ "int v"]) (simp add: strtol0_decimal)
  next
    case False
    define k where "k = 2 ^ (8 * n) - v"
    have "k \<le> 2 ^ 63" using False half le unfolding k_def by linarith
    then have "strtol0 (45 # decimal k) = (- int k, [])" by (rule strtol0_minus)
    moreover have "signed_text (8 * n) v = 45 # decimal k" by (simp only: signed_text_def Let_def v False if_False k_def)
    moreover have "v \<le> 2 ^ (8 * n)" using assms(3) unfolding p by (rule less_imp_le)
    then have "int k = int (2 ^ (8 * n)) - int v" by (simp only: k_def of_nat_diff)
    then have e: "- int k = int v + (- 1) * 256 ^ n" by (simp add: power_mult)
    have "host_bytes little n (- int k) = host_bytes little n (int v)" unfolding e by (rule host_bytes_mod)
    ultimately show ?thesis by (intro exI [of _ "- int k"]) simp
  qed
qed

lemma unsigned_text_value: "v < 2 ^ n \<Longrightarrow> n \<le> 64 \<Longrightarrow> strtoul0 (unsigned_text n v) = (of_nat v, []) \<and> unat (of_nat v :: u64) = v \<and> uint (of_nat v :: u64) = int v"
proof -
  assume v: "v < 2 ^ n" "n \<le> 64"
  have "(2 :: nat) ^ n \<le> 2 ^ 64" using v(2) by (intro power_increasing) auto
  then have "v < 2 ^ 64" using v(1) by linarith
  then have "unat (of_nat v :: u64) = v" by (simp add: unsigned_of_nat take_bit_nat_eq_self)
  moreover from this have "uint (of_nat v :: u64) = int v" by (metis of_nat_unat)
  ultimately show ?thesis using v(1) \<open>v < 2 ^ 64\<close> by (simp add: unsigned_text_def strtoul0_decimal)
qed

text \<open>The characters of a number are none that end or separate values.\<close>

lemma number_chars:
  "c \<in> set (unsigned_text n v) \<Longrightarrow> c \<notin> {0, 10, 32}" "c \<in> set (signed_text n v) \<Longrightarrow> c \<notin> {0, 10, 32}"
  "unsigned_text n v \<noteq> []" "signed_text n v \<noteq> []"
proof -
  have d: "c \<in> set (decimal k) \<Longrightarrow> c \<notin> {0, 10, 32}" for c k
  proof -
    assume "c \<in> set (decimal k)"
    then obtain x where "x < 10" "c = 48 + of_nat x" using decimal_digits by blast
    then show ?thesis using digit_char(4) [of x] by simp
  qed
  show "c \<in> set (unsigned_text n v) \<Longrightarrow> c \<notin> {0, 10, 32}" using d by (simp add: unsigned_text_def)
  show "c \<in> set (signed_text n v) \<Longrightarrow> c \<notin> {0, 10, 32}" using d by (auto simp: signed_text_def Let_def split: if_splits)
  show "unsigned_text n v \<noteq> []" "signed_text n v \<noteq> []"
    using decimal_nonempty by (auto simp: unsigned_text_def signed_text_def Let_def)
qed

section \<open>Values\<close>

text \<open>A text that a line can hold as a value: without the characters that end a string, a line or a value.\<close>

definition text_ok :: "byte list \<Rightarrow> bool" where
  "text_ok t \<longleftrightarrow> t \<noteq> [] \<and> (\<forall>c \<in> set t. c \<notin> {0, 10, 32})"

text \<open>The documented behaviour of the functions for addresses: \<^verbatim>\<open>inet_pton\<close> reads what \<^verbatim>\<open>inet_ntop\<close> writes.\<close>

definition addresses_ok :: "pres_env \<Rightarrow> bool" where
  "addresses_ok env \<longleftrightarrow>
     (\<forall>a. length a = 4 \<longrightarrow> pe_pton4 env (pe_ntop4 env a) = Some a \<and> text_ok (pe_ntop4 env a) \<and> length (pe_ntop4 env a) \<le> 45) \<and>
     (\<forall>a. length a = 16 \<longrightarrow> pe_pton4 env (pe_ntop6 env a) = None \<and> pe_pton6 env (pe_ntop6 env a) = Some a \<and>
        text_ok (pe_ntop6 env a) \<and> length (pe_ntop6 env a) \<le> 45)"

definition enum_ok :: "(byte list \<times> u32) list \<Rightarrow> bool" where
  "enum_ok values \<longleftrightarrow> distinct (map fst values) \<and> distinct (map snd values) \<and> (\<forall>(name, _) \<in> set values. text_ok name)"

text \<open>
  The values that the format keeps: strings end with their only zero octet and have no blank or newline, enums have a
  name, numbers of 16 bits are not negative and the host is little-endian (see \<open>pres_int16\<close> below).
\<close>

definition cell_ok :: "pres_env \<Rightarrow> nmsg_msgmod_field_type \<Rightarrow> pb_descr \<Rightarrow> pb_cell \<Rightarrow> bool" where
  "cell_ok env t d c = (case c of
     Data len None \<Rightarrow> False
   | Data len (Some bs) \<Rightarrow> len = length bs \<and>
       (t = Ft_string \<and> bs \<noteq> [] \<and> last bs = 0 \<and> text_ok (butlast bs) \<or> t = Ft_ip \<and> (len = 4 \<or> len = 16))
   | Scalar bs \<Rightarrow> length bs = field_size t \<and>
       (case t of
          Ft_enum \<Rightarrow> (case pd_enum d of None \<Rightarrow> False
            | Some values \<Rightarrow> enum_ok values \<and> host_value (pe_little env) bs \<in> unat ` snd ` set values)
        | Ft_uint16 \<Rightarrow> pe_little env \<and> host_value True bs < 2 ^ 16
        | Ft_int16 \<Rightarrow> pe_little env \<and> host_value True bs < 2 ^ 15
        | Ft_uint32 \<Rightarrow> True | Ft_uint64 \<Rightarrow> True | Ft_int32 \<Rightarrow> True | Ft_int64 \<Rightarrow> True
        | _ \<Rightarrow> False))"

definition value_text :: "pres_env \<Rightarrow> nmsg_msgmod_field_type \<Rightarrow> pb_descr \<Rightarrow> pb_cell \<Rightarrow> byte list" where
  "value_text env t d c = (case c of
     Data len data \<Rightarrow> (if t = Ft_string then butlast (opt_bytes data)
       else if len = 4 then pe_ntop4 env (opt_bytes data) else pe_ntop6 env (opt_bytes data))
   | Scalar bs \<Rightarrow>
       let v = host_value (pe_little env) bs in
       if t = Ft_enum then (case pd_enum d of None \<Rightarrow> [] | Some values \<Rightarrow>
         (case find (\<lambda>(_, x). unat x = v) values of None \<Rightarrow> [] | Some (name, _) \<Rightarrow> name))
       else if t = Ft_uint16 then unsigned_text 16 v else if t = Ft_int16 then signed_text 16 v
       else if t = Ft_uint32 \<or> t = Ft_uint64 then unsigned_text (8 * field_size t) v
       else signed_text (8 * field_size t) v)"

text \<open>What a value adds to the estimate of the size.\<close>

definition value_est :: "nmsg_msgmod_field_type \<Rightarrow> pb_cell \<Rightarrow> nat" where
  "value_est t c = (case c of
     Data len _ \<Rightarrow> if t = Ft_ip then len else len - 1 | Scalar _ \<Rightarrow> if t = Ft_enum then 4 else 0)"

lemma c_string_zero: "0 \<notin> set s \<Longrightarrow> c_string (s @ 0 # rest) = s"
  by (induction s) (auto simp: c_string_def)

lemma enum_find:
  assumes "enum_ok evs" and "v \<in> unat ` snd ` set evs"
  obtains name x where "(name, x) \<in> set evs" "unat x = v" "find (\<lambda>(_, x). unat x = v) evs = Some (name, x)"
    "filter (\<lambda>(_, x). unat x = v) evs = [(name, x)]" "find (\<lambda>(n, _). n = name) evs = Some (name, x)" "text_ok name"
proof -
  obtain name x where nx: "(name, x) \<in> set evs" "unat x = v" using assms(2) by auto
  have d: "distinct (map fst evs)" "distinct (map snd evs)" "text_ok name" using assms(1) nx(1) by (auto simp: enum_ok_def)
  have "filter (\<lambda>(_, y). unat y = v) evs = [(name, x)] \<and> find (\<lambda>(_, x). unat x = v) evs = Some (name, x)"
    using d(2) nx
  proof (induction evs)
    case (Cons a vs)
    show ?case
    proof (cases "a = (name, x)")
      case True
      then have "filter (\<lambda>(_, y). unat y = v) vs = []"
        using Cons.prems by (auto simp: filter_empty_conv image_iff simp flip: word_unat_eq_iff)
      then show ?thesis using True Cons.prems by simp
    next
      case False
      then have vs: "(name, x) \<in> set vs" using Cons.prems(2) by auto
      have "x \<in> set (map snd vs)" using vs by (auto simp: image_iff intro: bexI [of _ "(name, x)"])
      then have "snd a \<noteq> x" using Cons.prems(1) by auto
      then have "unat (snd a) \<noteq> v" using Cons.prems(3) by (metis word_unat_eq_iff)
      with False Cons vs show ?thesis by (auto simp: split_def)
    qed
  qed simp
  moreover have "find (\<lambda>(n, _). n = name) evs = Some (name, x)"
    using d(1) nx(1) by (induction evs) (auto simp: image_iff split_def)
  ultimately show ?thesis using that nx d(3) by blast
qed

text \<open>A value of a repeated or a present field is printed as one line.\<close>

definition value_line :: "pres_env \<Rightarrow> nmsg_msgmod_field \<Rightarrow> pb_descr \<Rightarrow> pb_cell \<Rightarrow> byte list" where
  "value_line env f d c = fd_name f @ [58, 32] @ value_text env (fd_type f) d c @ [10]"

lemma pres_texts_value:
  assumes c: "cell_ok env (fd_type f) d c" and f: "fd_descr f = Some d" and env: "addresses_ok env"
  shows "pres_texts env f c [10] = Ret [value_line env f d c]" and "text_ok (value_text env (fd_type f) d c)"
proof -
  have colon: "ascii '': '' = [58, 32]" by (simp add: ascii_def)
  have "pres_texts env f c [10] = Ret [value_line env f d c] \<and> text_ok (value_text env (fd_type f) d c)"
  proof (cases c)
    case (Data len data)
    then obtain bs where bs: "data = Some bs" "len = length bs" using c by (cases data) (auto simp: cell_ok_def)
    consider "fd_type f = Ft_string" "bs \<noteq> []" "last bs = 0" "text_ok (butlast bs)" | "fd_type f = Ft_ip" "len = 4 \<or> len = 16"
      using c Data bs by (auto simp: cell_ok_def)
    then show ?thesis
    proof cases
      case 1
      then obtain s where s: "bs = s @ [0]" "text_ok s" by (metis append_butlast_last_id)
      then have "c_string bs = s" using c_string_zero by (auto simp: text_ok_def)
      then show ?thesis using 1 s Data bs by (simp add: pres_texts_def c_str_def colon value_line_def value_text_def)
    next
      case 2
      then show ?thesis using Data bs env
        by (auto simp: pres_texts_def mem_read_def colon value_line_def value_text_def addresses_ok_def)
    qed
  next
    case (Scalar bs)
    then have len: "length bs = field_size (fd_type f)" using c by (simp add: cell_ok_def)
    show ?thesis
    proof (cases "fd_type f = Ft_enum")
      case True
      then obtain evs where v: "pd_enum d = Some evs" "enum_ok evs" "host_value (pe_little env) bs \<in> unat ` snd ` set evs"
        using c Scalar by (auto simp: cell_ok_def split: option.splits)
      obtain name x where "(name, x) \<in> set evs" "unat x = host_value (pe_little env) bs"
        "find (\<lambda>(_, x). unat x = host_value (pe_little env) bs) evs = Some (name, x)"
        "filter (\<lambda>(_, x). unat x = host_value (pe_little env) bs) evs = [(name, x)]"
        "find (\<lambda>(n, _). n = name) evs = Some (name, x)" "text_ok name"
        by (rule enum_find [OF v(2,3)])
      with True v(1) f Scalar len show ?thesis
        by (simp add: pres_texts_def mem_read_def field_size_def value_line_def value_text_def colon)
    next
      case False
      have chars: "text_ok (unsigned_text n v)" "text_ok (signed_text n v)" for n v
        using number_chars by (auto simp: text_ok_def)
      have t: "fd_type f \<in> {Ft_uint16, Ft_int16, Ft_uint32, Ft_uint64, Ft_int32, Ft_int64}"
        using False c Scalar by (auto simp: cell_ok_def split: nmsg_msgmod_field_type.splits)
      have "take (length bs) bs = bs" by simp
      note simps = pres_texts_def mem_read_def value_line_def value_text_def colon chars Scalar len field_size_def
      show ?thesis using t len
        by (elim insertE emptyE; simp add: simps)
    qed
  qed
  then show "pres_texts env f c [10] = Ret [value_line env f d c]" "text_ok (value_text env (fd_type f) d c)" by auto
qed

section \<open>Reading a value back\<close>

text \<open>Two octets of a small number, stored over zeroes.\<close>

lemma host_bytes_16:
  assumes "length bs = 4" and "host_value True bs < 2 ^ 16"
  shows "host_bytes True 2 (int (host_value True bs)) @ [0, 0] = bs"
proof -
  let ?v = "int (host_value True bs)"
  have "host_bytes True 4 ?v = bs" using assms(1) by (rule host_bytes_value)
  moreover have "[0..<4] = [0, 1, 2, 3 :: nat]" "[0..<2] = [0, 1 :: nat]" by (simp_all add: upt_rec)
  moreover have "?v div 256 ^ 2 = 0" "?v div 256 ^ 3 = 0" using assms(2) by simp_all
  ultimately show ?thesis by (simp add: host_bytes_def)
qed

lemma poke_scalar_zero:
  assumes "pb_peek obj p = Ret (Scalar (replicate n 0))" and "length bs \<le> n"
  shows "poke_scalar obj p bs = pb_poke obj p (Scalar (bs @ replicate (n - length bs) 0))"
  using assms by (simp add: poke_scalar_def mem_store_def)

lemma load_value:
  assumes c: "cell_ok env t d c" and f: "fd_type f = t" "field_typed t (pd_type d)" and env: "addresses_ok env"
    and p: "pb_peek obj p = Ret (zero_cell (pd_type d))" "pb_poke obj p c = Ret obj'"
  shows "pres_to_payload_load env (\<lambda>_. True) junk clos obj f d p (value_text env t d c) =
    Ret (nmsg_res_success, clos\<lparr>pc_pbuf := Some (set_present obj' d), pc_estsz := pc_estsz clos + value_est t c\<rparr>)"
proof (cases c)
  case (Data len data)
  then obtain bs where bs: "data = Some bs" "len = length bs" using c by (cases data) (auto simp: cell_ok_def)
  have z: "zero_cell (pd_type d) = Data 0 None"
    using c Data bs field_typed_data [OF f(2)] by (auto simp: cell_ok_def zero_cell_def)
  consider "t = Ft_string" "bs \<noteq> []" "last bs = 0" | "t = Ft_ip" "len = 4 \<or> len = 16"
    using c Data bs by (auto simp: cell_ok_def)
  then show ?thesis
  proof cases
    case 1
    then have "bs = butlast bs @ [0]" by (metis append_butlast_last_id)
    with 1 show ?thesis
      using Data bs f p z by (simp add: pres_to_payload_load_def load_octets_def value_text_def value_est_def)
  next
    case 2
    then show ?thesis using Data bs f p z env
      by (auto simp: pres_to_payload_load_def load_octets_def value_text_def value_est_def addresses_ok_def)
  qed
next
  case (Scalar bs)
  then have len: "length bs = field_size t" "pd_type d \<noteq> PB_BYTES"
    using c field_typed_data [OF f(2)] by (auto simp: cell_ok_def split: nmsg_msgmod_field_type.splits)
  then have z: "zero_cell (pd_type d) = Scalar (replicate (field_size t) 0)" using f(2) by (simp add: zero_cell_def field_typed_def)
  have full: "poke_scalar obj p bs = Ret obj'"
    using poke_scalar_zero [of obj p "field_size t" bs] p z len Scalar by simp
  have v: "host_value (pe_little env) bs < 256 ^ field_size t" using host_value_less [of _ bs] len by simp
  have inv: "host_bytes (pe_little env) (field_size t) (int (host_value (pe_little env) bs)) = bs"
    by (rule host_bytes_value) (rule len(1))
  consider (enum) "t = Ft_enum" | (half) "t = Ft_uint16 \<or> t = Ft_int16" | (unsigned) "t = Ft_uint32 \<or> t = Ft_uint64"
    | (signed) "t = Ft_int32 \<or> t = Ft_int64"
    using c Scalar by (auto simp: cell_ok_def split: nmsg_msgmod_field_type.splits)
  then show ?thesis
  proof cases
    case enum
    then obtain evs where e: "pd_enum d = Some evs" "enum_ok evs" "host_value (pe_little env) bs \<in> unat ` snd ` set evs"
      using c Scalar by (auto simp: cell_ok_def split: option.splits)
    obtain name x where "(name, x) \<in> set evs" and x: "unat x = host_value (pe_little env) bs"
      "find (\<lambda>(_, x). unat x = host_value (pe_little env) bs) evs = Some (name, x)"
      and "filter (\<lambda>(_, x). unat x = host_value (pe_little env) bs) evs = [(name, x)]"
      and n: "find (\<lambda>(n, _). n = name) evs = Some (name, x)" and "text_ok name"
      by (rule enum_find [OF e(2,3)])
    have "field_size t = 4" using enum by (simp add: field_size_def)
    moreover have "uint x = int (host_value (pe_little env) bs)" unfolding x(1) [symmetric] by simp
    ultimately show ?thesis
      using enum e(1) x n Scalar f full inv by (simp add: pres_to_payload_load_def value_text_def value_est_def)
  next
    case half
    then have l: "pe_little env" "host_value True bs < 2 ^ 16" "field_size t = 4"
      using c Scalar by (auto simp: cell_ok_def field_size_def)
    have two: "poke_scalar obj p (host_bytes True 2 (int (host_value True bs))) = Ret obj'"
      using poke_scalar_zero [of obj p 4 "host_bytes True 2 (int (host_value True bs))"] host_bytes_16 [of bs] p z len l Scalar
      by (simp add: numeral_2_eq_2)
    have u: "strtoul0 (unsigned_text 16 (host_value True bs)) = (of_nat (host_value True bs), [])"
      "unat (of_nat (host_value True bs) :: u64) = host_value True bs"
      "uint (of_nat (host_value True bs) :: u64) = int (host_value True bs)" using unsigned_text_value [OF l(2)] by simp_all
    have s: "strtol0 (signed_text 16 (host_value True bs)) = (int (host_value True bs), [])" if "host_value True bs < 2 ^ 15"
      using that by (simp add: signed_text_def Let_def strtol0_decimal)
    from half show ?thesis
    proof
      assume "t = Ft_uint16"
      then show ?thesis using f l two u Scalar
        by (simp add: pres_to_payload_load_def load_number_def value_text_def value_est_def)
    next
      assume t: "t = Ft_int16"
      then have "host_value True bs < 2 ^ 15" using c Scalar by (simp add: cell_ok_def)
      then show ?thesis using t f l two s Scalar
        by (simp add: pres_to_payload_load_def load_number_def value_text_def value_est_def)
    qed
  next
    case unsigned
    have "(256 :: nat) ^ field_size t = 2 ^ (8 * field_size t)" by (simp add: power_mult)
    then have "strtoul0 (unsigned_text (8 * field_size t) (host_value (pe_little env) bs)) = (of_nat (host_value (pe_little env) bs), []) \<and>
        unat (of_nat (host_value (pe_little env) bs) :: u64) = host_value (pe_little env) bs \<and>
        uint (of_nat (host_value (pe_little env) bs) :: u64) = int (host_value (pe_little env) bs)"
      using v unsigned by (intro unsigned_text_value) (auto simp: field_size_def)
    then show ?thesis using unsigned f full inv Scalar
      by (auto simp: pres_to_payload_load_def load_number_def value_text_def value_est_def field_size_def Let_def)
  next
    case signed
    then obtain w where "strtol0 (signed_text (8 * field_size t) (host_value (pe_little env) bs)) = (w, [])"
      "host_bytes (pe_little env) (field_size t) w = bs"
      using strtol0_signed [of "field_size t" "host_value (pe_little env) bs" "pe_little env"] v inv by (auto simp: field_size_def)
    then show ?thesis using signed f full Scalar
      by (auto simp: pres_to_payload_load_def load_number_def value_text_def value_est_def field_size_def Let_def)
  qed
qed

end
