(* ===== verification/Msgmod_Roundtrip.thy ===== *)
theory Msgmod_Roundtrip
  imports Msgmod_Text
begin

text \<open>
  The presentation format of whole messages: what is printed of a message is read back as the same message.
\<close>

section \<open>The values of a message\<close>

text \<open>The values that a field has: of a present field its value, of a repeated one all of them.\<close>

definition cells_of :: "pb_msg \<Rightarrow> pb_descr \<Rightarrow> pb_cell list" where
  "cells_of obj d = (case pm_member obj (pd_offset d) of
     Some (One c) \<Rightarrow> if one_present obj d then [c] else []
   | Some (Many cs) \<Rightarrow> if pd_label d = Label_repeated then take (unat (pm_quant obj (pd_quant d))) cs else []
   | None \<Rightarrow> [])"

text \<open>The printed values of a message, in the order of the fields of the plug-in.\<close>

type_synonym shown = "nmsg_msgmod_field \<times> pb_descr \<times> pb_cell"

definition shown_of :: "pb_msg \<Rightarrow> nmsg_msgmod_field \<Rightarrow> shown list" where
  "shown_of obj f = (case fd_descr f of None \<Rightarrow> [] | Some d \<Rightarrow> map (\<lambda>c. (f, d, c)) (cells_of obj d))"

definition shown_line :: "pres_env \<Rightarrow> shown \<Rightarrow> byte list" where
  "shown_line env = (\<lambda>(f, d, c). value_line env f d c)"

definition shown_est :: "shown \<Rightarrow> nat" where
  "shown_est = (\<lambda>(f, d, c). value_est (fd_type f) c)"

definition shown_cells :: "shown list \<Rightarrow> pb_descr \<Rightarrow> pb_cell list" where
  "shown_cells xs d = map (snd \<circ> snd) (filter (\<lambda>(_, e, _). e = d) xs)"

text \<open>
  A field whose values the format keeps: no printer or getter of the module's own, a name without colons, and lines
  that the buffer of the reader takes.
\<close>

definition field_presentable :: "pres_env \<Rightarrow> pb_msg \<Rightarrow> nmsg_msgmod_field \<Rightarrow> bool" where
  "field_presentable env obj f = (case fd_descr f of
     None \<Rightarrow> fd_flags f AND (NMSG_MSGMOD_FIELD_HIDDEN OR NMSG_MSGMOD_FIELD_NOPRINT) \<noteq> 0
   | Some d \<Rightarrow> fd_flags f AND (NMSG_MSGMOD_FIELD_HIDDEN OR NMSG_MSGMOD_FIELD_NOPRINT) = 0 \<and>
       fd_get f = None \<and> fd_print f = None \<and> text_ok (fd_name f) \<and> 58 \<notin> set (fd_name f) \<and>
       (\<forall>c \<in> set (cells_of obj d). cell_ok env (fd_type f) d c \<and> length (value_line env f d c) \<le> 1023))"

definition presentable :: "pres_env \<Rightarrow> msgmod \<Rightarrow> pb_descr list \<Rightarrow> pb_msg \<Rightarrow> bool" where
  "presentable env m ds obj \<longleftrightarrow> msg_wf ds obj \<and> (\<forall>f \<in> set (mm_fields m). field_presentable env obj f) \<and>
     (\<forall>d \<in> set ds. \<exists>f \<in> set (mm_fields m). fd_descr f = Some d)"

section \<open>Printing\<close>

definition out_holds :: "out \<Rightarrow> byte list \<Rightarrow> bool" where
  "out_holds out t \<longleftrightarrow> strbuf_wf (fst out) \<and> strbuf_text (fst out) = t"

lemma pres_append_holds:
  assumes "out_holds out t"
  obtains out' where "pres_append (\<lambda>_ _. True) junk out s = Ret out'" "out_holds out' (t @ s)"
proof -
  obtain sb k where out: "out = (sb, k)" by (cases out)
  with assms strbuf_append_ok [of sb junk s] obtain sb' where
    "nmsg_strbuf_append (\<lambda>_. True) junk sb (Some s) = Some (Ret (strbuf_success, sb'))" "strbuf_wf sb'"
    "strbuf_text sb' = t @ s" by (auto simp: out_holds_def)
  then show ?thesis using out that by (auto simp: pres_append_def out_holds_def)
qed

lemma pres_value_holds:
  assumes "field_presentable env obj f" "fd_descr f = Some d" "c \<in> set (cells_of obj d)" "addresses_ok env" "out_holds out t"
  obtains out' where
    "payload_to_pres_load env (\<lambda>_ _. True) junk obj f c [10] out = Ret (nmsg_res_success, out')"
    "out_holds out' (t @ shown_line env (f, d, c))"
proof -
  have f: "fd_print f = None" "cell_ok env (fd_type f) d c" using assms(1-3) by (auto simp: field_presentable_def)
  from pres_append_holds [OF assms(5)] obtain out' where
    "pres_append (\<lambda>_ _. True) junk out (value_line env f d c) = Ret out'" "out_holds out' (t @ value_line env f d c)" .
  with f pres_texts_value(1) [OF f(2) assms(2,4)] that show ?thesis
    by (simp add: payload_to_pres_load_def shown_line_def)
qed

lemma pres_cells_hold:
  assumes "field_presentable env obj f" "fd_descr f = Some d" "addresses_ok env"
    and "set cs \<subseteq> set (cells_of obj d)" "out_holds out t"
  shows "\<exists>out'. pres_cells env (\<lambda>_ _. True) junk obj f [10] cs out = Ret (nmsg_res_success, out') \<and>
    out_holds out' (t @ concat (map (\<lambda>c. shown_line env (f, d, c)) cs))"
  using assms(4,5)
proof (induction cs arbitrary: out t)
  case (Cons c cs)
  then have "c \<in> set (cells_of obj d)" by simp
  from pres_value_holds [OF assms(1,2) this assms(3) Cons.prems(2)] obtain out1 where
    "payload_to_pres_load env (\<lambda>_ _. True) junk obj f c [10] out = Ret (nmsg_res_success, out1)"
    "out_holds out1 (t @ shown_line env (f, d, c))" .
  with Cons.IH [of out1 "t @ shown_line env (f, d, c)"] Cons.prems(1) show ?case by simp
qed simp

lemma pres_field_holds:
  assumes f: "field_presentable env obj f" and wf: "\<And>d. fd_descr f = Some d \<Longrightarrow> member_wf obj d" and env: "addresses_ok env"
    and out: "out_holds out t"
  shows "\<exists>out'. pres_field env (\<lambda>_ _. True) junk fuel obj [10] f out = Ret (nmsg_res_success, out') \<and>
    out_holds out' (t @ concat (map (shown_line env) (shown_of obj f)))"
proof (cases "fd_descr f")
  case None
  then show ?thesis using f out by (simp add: field_presentable_def pres_field_def shown_of_def)
next
  case (Some d)
  then have d: "member_wf obj d" by (rule wf)
  have q: "fd_flags f AND (NMSG_MSGMOD_FIELD_HIDDEN OR NMSG_MSGMOD_FIELD_NOPRINT) = 0" "fd_get f = None"
    using f Some by (auto simp: field_presentable_def)
  from pres_cells_hold [OF f Some env order.refl out, of junk] obtain out' where
    cs: "pres_cells env (\<lambda>_ _. True) junk obj f [10] (cells_of obj d) out = Ret (nmsg_res_success, out')"
      "out_holds out' (t @ concat (map (shown_line env) (shown_of obj f)))" using Some by (auto simp: shown_of_def comp_def)
  have "pres_field env (\<lambda>_ _. True) junk fuel obj [10] f out =
      pres_cells env (\<lambda>_ _. True) junk obj f [10] (cells_of obj d) out"
  proof (cases "one_present obj d")
    case True
    then obtain c where "pm_member obj (pd_offset d) = Some (One c)"
      using d by (auto simp: member_wf_def one_present_def split: option.splits pb_member.splits)
    with True q Some show ?thesis
      by (cases "payload_to_pres_load env (\<lambda>_ _. True) junk obj f c [10] out")
        (auto simp: pres_field_def cells_of_def pb_peek_def)
  next
    case False
    with d q Some show ?thesis
      by (auto simp: pres_field_def cells_of_def member_wf_def split: option.splits pb_member.splits)
  qed
  with cs show ?thesis by auto
qed

lemma pres_fields_hold:
  assumes "\<forall>f \<in> set fs. field_presentable env obj f \<and> (\<forall>d. fd_descr f = Some d \<longrightarrow> member_wf obj d)"
    and "addresses_ok env" and "out_holds out t"
  shows "\<exists>out'. pres_fields env (\<lambda>_ _. True) junk fuel obj [10] fs out = Ret (nmsg_res_success, out') \<and>
    out_holds out' (t @ concat (map (shown_line env) (concat (map (shown_of obj) fs))))"
  using assms(1,3)
proof (induction fs arbitrary: out t)
  case (Cons f fs)
  then obtain out1 where "pres_field env (\<lambda>_ _. True) junk fuel obj [10] f out = Ret (nmsg_res_success, out1)"
    "out_holds out1 (t @ concat (map (shown_line env) (shown_of obj f)))"
    using pres_field_holds [of env obj f out t junk fuel] assms(2) by auto
  with Cons.IH [of out1 "t @ concat (map (shown_line env) (shown_of obj f))"] Cons.prems show ?case by simp
qed simp

section \<open>Filling a message\<close>

text \<open>The field of a message that is being read, after some of its values.\<close>

definition filled :: "pb_msg \<Rightarrow> pb_descr \<Rightarrow> pb_cell list \<Rightarrow> bool" where
  "filled ob d cs \<longleftrightarrow>
     (if pd_label d = Label_repeated
      then pm_member ob (pd_offset d) = Some (Many cs) \<and> unat (pm_quant ob (pd_quant d)) = length cs
      else pm_member ob (pd_offset d) = Some (One (if cs = [] then zero_cell (pd_type d) else hd cs)) \<and> length cs \<le> 1 \<and>
        (pd_label d = Label_optional \<longrightarrow> pm_quant ob (pd_quant d) = (if cs = [] then 0 else 1)))"

lemma filled_zero: "descrs_ok ds \<Longrightarrow> d \<in> set ds \<Longrightarrow> filled (pb_zero ds) d []"
proof -
  assume "descrs_ok ds" "d \<in> set ds"
  then have "distinct (map pd_offset ds)" by (simp add: descrs_ok_def)
  then have "pb_members ds (pd_offset d) =
      Some (if pd_label d = Label_repeated then Many [] else One (zero_cell (pd_type d)))"
    using \<open>d \<in> set ds\<close> by (induction ds) (auto simp: image_iff)
  then show ?thesis by (simp add: filled_def pb_zero_def)
qed

lemma filled_frame:
  assumes "filled ob e cs" "pm_member ob' (pd_offset e) = pm_member ob (pd_offset e)"
    and "pd_label e \<noteq> Label_required \<Longrightarrow> pm_quant ob' (pd_quant e) = pm_quant ob (pd_quant e)"
  shows "filled ob' e cs"
  using assms by (cases "pd_label e") (simp_all add: filled_def)

lemma filled_cells:
  assumes "filled ob d cs" and "pd_label d = Label_required \<Longrightarrow> cs \<noteq> []"
  shows "cells_of ob d = cs" and "one_present ob d \<longleftrightarrow> pd_label d \<noteq> Label_repeated \<and> cs \<noteq> []"
  using assms
  by (cases cs; cases "pd_label d"; simp add: filled_def cells_of_def one_present_def)+

lemma cells_of_bounded:
  assumes "member_wf obj d"
  shows "if pd_label d = Label_repeated then length (cells_of obj d) < 2 ^ 32 else length (cells_of obj d) \<le> 1"
    and "pd_label d = Label_required \<Longrightarrow> cells_of obj d \<noteq> []"
proof -
  have "unat (pm_quant obj (pd_quant d)) < 2 ^ 32" using unsigned_less [of "pm_quant obj (pd_quant d)"] by simp
  then show "if pd_label d = Label_repeated then length (cells_of obj d) < 2 ^ 32 else length (cells_of obj d) \<le> 1"
    using assms by (auto simp: cells_of_def member_wf_def split: option.splits pb_member.splits)
  show "pd_label d = Label_required \<Longrightarrow> cells_of obj d \<noteq> []"
    using assms by (auto simp: cells_of_def member_wf_def one_present_def split: option.splits pb_member.splits)
qed

text \<open>Loading a value fills its field further and leaves the others.\<close>

lemma load_fills:
  assumes c: "cell_ok env (fd_type f) d c" and f: "fd_descr f = Some d" "field_typed (fd_type f) (pd_type d)"
    and env: "addresses_ok env" and ob: "pc_pbuf clos = Some ob" "\<not> pc_freed clos" "filled ob d cs"
    and room: "if pd_label d = Label_repeated then length cs + 1 < 2 ^ 32 else cs = []"
  obtains ob' where
    "load_into env (\<lambda>_. True) junk clos f (value_text env (fd_type f) d c) =
       Ret (nmsg_res_success, clos\<lparr>pc_pbuf := Some ob', pc_estsz := pc_estsz clos + value_est (fd_type f) c\<rparr>)"
    "filled ob' d (cs @ [c])" "\<And>off. off \<noteq> pd_offset d \<Longrightarrow> pm_member ob' off = pm_member ob off"
    "\<And>q. pd_label d = Label_required \<or> q \<noteq> pd_quant d \<Longrightarrow> pm_quant ob' q = pm_quant ob q"
proof (cases "pd_label d = Label_repeated")
  case True
  let ?n = "length cs"
  have m: "pm_member ob (pd_offset d) = Some (Many cs)" "unat (pm_quant ob (pd_quant d)) = ?n"
    using ob(3) True by (simp_all add: filled_def)
  define o1 where "o1 = ob\<lparr>pm_member := (pm_member ob)(pd_offset d \<mapsto> Many (cs @ [zero_cell (pd_type d)])),
    pm_quant := (pm_quant ob)(pd_quant d := pm_quant ob (pd_quant d) + 1)\<rparr>"
  define o2 where "o2 = o1\<lparr>pm_member := (pm_member o1)(pd_offset d \<mapsto> Many (cs @ [c]))\<rparr>"
  have "pb_peek o1 (pd_offset d, Some ?n) = Ret (zero_cell (pd_type d))" by (simp add: pb_peek_def o1_def)
  moreover have "pb_poke o1 (pd_offset d, Some ?n) c = Ret o2" by (simp add: pb_poke_def o1_def o2_def)
  ultimately have "pres_to_payload_load env (\<lambda>_. True) junk (clos\<lparr>pc_pbuf := Some o1\<rparr>) o1 f d (pd_offset d, Some ?n)
      (value_text env (fd_type f) d c) =
    Ret (nmsg_res_success, clos\<lparr>pc_pbuf := Some o2, pc_estsz := pc_estsz clos + value_est (fd_type f) c\<rparr>)"
    using load_value [OF c refl f(2) env, of o1 "(pd_offset d, Some ?n)" o2 junk "clos\<lparr>pc_pbuf := Some o1\<rparr>"] True
    by (simp add: set_present_def)
  then have "load_into env (\<lambda>_. True) junk clos f (value_text env (fd_type f) d c) =
      Ret (nmsg_res_success, clos\<lparr>pc_pbuf := Some o2, pc_estsz := pc_estsz clos + value_est (fd_type f) c\<rparr>)"
    using ob f True m by (simp add: load_into_def o1_def)
  moreover have "unat (pm_quant ob (pd_quant d) + 1) = ?n + 1"
    using m(2) room True by (simp add: unat_word_ariths)
  then have "filled o2 d (cs @ [c])" using True by (simp add: filled_def o2_def o1_def)
  ultimately show ?thesis by (rule that) (auto simp: o2_def o1_def True)
next
  case False
  then have cs: "cs = []" using room by simp
  then have m: "pm_member ob (pd_offset d) = Some (One (zero_cell (pd_type d)))" using ob(3) False by (simp add: filled_def)
  define o1 where "o1 = ob\<lparr>pm_member := (pm_member ob)(pd_offset d \<mapsto> One c)\<rparr>"
  have "pb_peek ob (pd_offset d, None) = Ret (zero_cell (pd_type d))" "pb_poke ob (pd_offset d, None) c = Ret o1"
    using m by (simp_all add: pb_peek_def pb_poke_def o1_def)
  from load_value [OF c refl f(2) env this, of junk clos]
  have "load_into env (\<lambda>_. True) junk clos f (value_text env (fd_type f) d c) = Ret (nmsg_res_success,
      clos\<lparr>pc_pbuf := Some (set_present o1 d), pc_estsz := pc_estsz clos + value_est (fd_type f) c\<rparr>)"
    using ob f False by (simp add: load_into_def)
  moreover have "filled (set_present o1 d) d (cs @ [c])" using False cs by (simp add: filled_def set_present_def o1_def)
  ultimately show ?thesis by (rule that) (auto simp: set_present_def o1_def)
qed

section \<open>Reading\<close>

definition shown_ok :: "pres_env \<Rightarrow> msgmod \<Rightarrow> shown \<Rightarrow> bool" where
  "shown_ok env m = (\<lambda>(f, d, c). f \<in> set (mm_fields m) \<and> fd_descr f = Some d \<and> text_ok (fd_name f) \<and> 58 \<notin> set (fd_name f) \<and>
     cell_ok env (fd_type f) d c \<and> length (value_line env f d c) \<le> 1023)"

lemma key_field_ok:
  assumes "module_ok m ds" "f \<in> set (mm_fields m)" "fd_descr f = Some d"
  shows "key_field m (fd_name f) = Ret f"
proof -
  have names: "distinct (map fd_name (mm_fields m))" and "\<forall>g \<in> set (mm_fields m). \<forall>e. fd_descr g = Some e \<longrightarrow> pd_name e = fd_name g"
    using assms(1) by (auto simp: module_ok_def split: option.splits)
  then have P: "(case fd_descr g of Some e \<Rightarrow> fd_name f = pd_name e | None \<Rightarrow> False) \<longleftrightarrow> g = f" if "g \<in> set (mm_fields m)" for g
    using assms(2,3) that by (auto simp: distinct_map inj_on_def split: option.splits)
  have "find (\<lambda>g. case fd_descr g of Some e \<Rightarrow> fd_name f = pd_name e | None \<Rightarrow> False) fs = Some f"
    if "f \<in> set fs" "set fs \<subseteq> set (mm_fields m)" for fs
    using that P by (induction fs) auto
  from this [of "mm_fields m"] assms(2) show ?thesis by (auto simp: key_field_def)
qed

lemma load_line:
  assumes m: "module_ok m ds" and x: "shown_ok env m (f, d, c)" and env: "addresses_ok env"
    and clos: "pc_pbuf clos = Some ob" "\<not> pc_multiline clos"
  shows "pres_to_payload env (\<lambda>_. True) junk m clos (shown_line env (f, d, c)) =
    load_into env (\<lambda>_. True) junk clos f (value_text env (fd_type f) d c)"
proof -
  let ?v = "value_text env (fd_type f) d c"
  have f: "f \<in> set (mm_fields m)" "fd_descr f = Some d" "text_ok (fd_name f)" "58 \<notin> set (fd_name f)" "cell_ok env (fd_type f) d c"
    using x by (simp_all add: shown_ok_def)
  have v: "text_ok ?v" by (rule pres_texts_value(2) [OF f(5,2) env])
  have name: "strtok_line True [58] (fd_name f @ 58 # 32 # ?v) = Ret (Some (fd_name f), 32 # ?v)"
    using f(3,4) by (auto simp: strtok_line_def text_ok_def intro!: strtok_token)
  have "dropWhile (\<lambda>c. c = 32) ?v = ?v" "takeWhile (\<lambda>c. c \<noteq> 32) ?v = ?v" "dropWhile (\<lambda>c. c \<noteq> 32) ?v = []"
    using v by (auto simp: text_ok_def takeWhile_eq_all_conv dropWhile_eq_self_iff dropWhile_eq_Nil_conv)
  then have val: "strtok_line True [32] (32 # ?v) = Ret (Some ?v, [])"
    using v by (simp add: strtok_line_def strtok_def text_ok_def Let_def del: takeWhile_eq_all_conv dropWhile_eq_Nil_conv)
  have ml: "fd_type f \<noteq> Ft_mlstring" using f(5) by (auto simp: cell_ok_def field_size_def split: pb_cell.splits option.splits)
  have "hd (fd_name f) \<noteq> 10" "fd_name f \<noteq> []" using f(3) by (auto simp: text_ok_def)
  moreover have "butlast (fd_name f @ 58 # 32 # ?v @ [10]) = fd_name f @ 58 # 32 # ?v" by (simp add: butlast_append)
  ultimately show ?thesis
    using clos f(2) ml name val key_field_ok [OF m f(1,2)]
    by (simp add: pres_to_payload_def shown_line_def value_line_def Let_def)
qed

lemma shown_line_string:
  assumes "shown_ok env m x" "addresses_ok env"
  shows "c_string (shown_line env x) = shown_line env x" "fgets_line 1023 (shown_line env x @ rest) = (shown_line env x, rest)"
proof -
  obtain f d c where x: "x = (f, d, c)" by (cases x)
  have f: "fd_descr f = Some d" "text_ok (fd_name f)" "cell_ok env (fd_type f) d c" "length (value_line env f d c) \<le> 1023"
    using assms(1) x by (simp_all add: shown_ok_def)
  have "text_ok (value_text env (fd_type f) d c)" by (rule pres_texts_value(2) [OF f(3,1) assms(2)])
  with f(2) have chars: "\<forall>c \<in> set (fd_name f @ 58 # 32 # value_text env (fd_type f) d c). c \<noteq> 0 \<and> c \<noteq> 10"
    by (auto simp: text_ok_def)
  then show "c_string (shown_line env x) = shown_line env x"
    unfolding x by (intro c_string_id) (auto simp: shown_line_def value_line_def)
  have "fgets_line 1023 ((fd_name f @ 58 # 32 # value_text env (fd_type f) d c) @ 10 # rest) =
      ((fd_name f @ 58 # 32 # value_text env (fd_type f) d c) @ [10], rest)"
    using chars f(4) by (intro fgets_line_text) (auto simp: value_line_def)
  then show "fgets_line 1023 (shown_line env x @ rest) = (shown_line env x, rest)"
    by (simp add: x shown_line_def value_line_def)
qed

text \<open>The lines of values fill the message; what each field may get is bounded by its label.\<close>

definition room_for :: "pb_descr \<Rightarrow> pb_cell list \<Rightarrow> bool" where
  "room_for d cs \<longleftrightarrow> (if pd_label d = Label_repeated then length cs < 2 ^ 32 else length cs \<le> 1)"

lemma shown_cells_append [simp]: "shown_cells (xs @ ys) d = shown_cells xs d @ shown_cells ys d"
  by (simp add: shown_cells_def)

lemma read_lines:
  assumes m: "module_ok m ds" and env: "addresses_ok env"
  shows "\<lbrakk>\<forall>x \<in> set xs. shown_ok env m x; \<forall>d \<in> set ds. room_for d (shown_cells (ys @ xs) d);
      \<forall>d \<in> set ds. filled ob d (shown_cells ys d); pc_pbuf clos = Some ob; \<not> pc_freed clos; \<not> pc_multiline clos\<rbrakk> \<Longrightarrow>
    \<exists>ob'. (\<forall>d \<in> set ds. filled ob' d (shown_cells (ys @ xs) d)) \<and>
      input_pres_read env lookup now (\<lambda>_ _. True) junk m k clos (concat (map (shown_line env) xs) @ rest) =
      input_pres_read env lookup now (\<lambda>_ _. True) junk m (k + length xs)
        (clos\<lparr>pc_pbuf := Some ob', pc_estsz := pc_estsz clos + sum_list (map shown_est xs)\<rparr>) rest"
proof (induction xs arbitrary: ys ob clos k)
  case Nil
  then have e: "clos\<lparr>pc_pbuf := Some ob, pc_estsz := pc_estsz clos + 0\<rparr> = clos" by simp
  show ?case using Nil.prems(3) by (intro exI [of _ ob]) (simp add: e [simplified])
next
  case (Cons x xs)
  obtain f d c where x: "x = (f, d, c)" by (cases x)
  have ok: "shown_ok env m (f, d, c)" using Cons.prems(1) x by simp
  then have f: "f \<in> set (mm_fields m)" "fd_descr f = Some d" "cell_ok env (fd_type f) d c" by (simp_all add: shown_ok_def)
  have d: "d \<in> set ds" "field_typed (fd_type f) (pd_type d)" using m f(1,2) by (force simp: module_ok_def)+
  have here: "shown_cells [x] d = [c]" by (simp add: shown_cells_def x)
  have "room_for d (shown_cells ys d @ c # shown_cells xs d)"
    using Cons.prems(2) d(1) here shown_cells_append [of "[x]" xs d] by auto
  then have room: "if pd_label d = Label_repeated then length (shown_cells ys d) + 1 < 2 ^ 32 else shown_cells ys d = []"
    by (auto simp: room_for_def split: if_splits)
  have fill: "filled ob d (shown_cells ys d)" using Cons.prems(3) d(1) by simp
  from load_fills [OF f(3,2) d(2) env Cons.prems(4,5) fill room, of junk] obtain ob1 where
    ob1: "load_into env (\<lambda>_. True) junk clos f (value_text env (fd_type f) d c) =
       Ret (nmsg_res_success, clos\<lparr>pc_pbuf := Some ob1, pc_estsz := pc_estsz clos + value_est (fd_type f) c\<rparr>)"
    "filled ob1 d (shown_cells ys d @ [c])" "\<And>off. off \<noteq> pd_offset d \<Longrightarrow> pm_member ob1 off = pm_member ob off"
    "\<And>q. pd_label d = Label_required \<or> q \<noteq> pd_quant d \<Longrightarrow> pm_quant ob1 q = pm_quant ob q"
    by metis
  define clos1 where "clos1 = clos\<lparr>pc_pbuf := Some ob1, pc_estsz := pc_estsz clos + value_est (fd_type f) c\<rparr>"
  have fill1: "filled ob1 e (shown_cells (ys @ [x]) e)" if e: "e \<in> set ds" for e
  proof (cases "e = d")
    case True
    then show ?thesis using ob1(2) here by simp
  next
    case False
    then have none: "shown_cells [x] e = []" by (simp add: shown_cells_def x)
    have ds: "descrs_ok ds" using m by (simp add: module_ok_def)
    have "pd_offset e \<noteq> pd_offset d" "pd_label d \<noteq> Label_required \<Longrightarrow> pd_label e \<noteq> Label_required \<Longrightarrow> pd_quant e \<noteq> pd_quant d"
      using descrs_ok_apart [OF ds d(1) e] False by auto
    then have "filled ob1 e (shown_cells ys e)"
      using ob1(3,4) Cons.prems(3) e by - (rule filled_frame [of ob e "shown_cells ys e"], auto)
    then show ?thesis using none by simp
  qed
  have clos1: "pc_pbuf clos1 = Some ob1" "\<not> pc_freed clos1" "\<not> pc_multiline clos1" using Cons.prems by (simp_all add: clos1_def)
  have "\<forall>x \<in> set xs. shown_ok env m x" "\<forall>d \<in> set ds. room_for d (shown_cells ((ys @ [x]) @ xs) d)" "\<forall>d \<in> set ds. filled ob1 d (shown_cells (ys @ [x]) d)"
    using Cons.prems(1,2) fill1 by simp_all
  from Cons.IH [OF this clos1, of "k + 1"] obtain ob' where
    ob': "\<forall>d \<in> set ds. filled ob' d (shown_cells (ys @ x # xs) d)"
    "input_pres_read env lookup now (\<lambda>_ _. True) junk m (k + 1) clos1 (concat (map (shown_line env) xs) @ rest) =
      input_pres_read env lookup now (\<lambda>_ _. True) junk m (k + 1 + length xs)
        (clos1\<lparr>pc_pbuf := Some ob', pc_estsz := pc_estsz clos1 + sum_list (map shown_est xs)\<rparr>) rest" by auto
  have "pres_to_payload env (\<lambda>_. True) junk m clos (shown_line env x) = Ret (nmsg_res_success, clos1)"
    unfolding x clos1_def by (simp only: load_line [OF m ok env Cons.prems(4,6)] ob1(1))
  moreover have "shown_line env x \<noteq> []" by (simp add: x shown_line_def value_line_def)
  moreover have okx: "shown_ok env m x" using ok x by simp
  ultimately have "input_pres_read env lookup now (\<lambda>_ _. True) junk m k clos (shown_line env x @ concat (map (shown_line env) xs) @ rest) =
      input_pres_read env lookup now (\<lambda>_ _. True) junk m (k + 1) clos1 (concat (map (shown_line env) xs) @ rest)"
    using shown_line_string [OF okx env]
    by (subst input_pres_read.simps) simp
  with ob' show ?case by (intro exI [of _ ob']) (simp add: clos1_def shown_est_def x add.assoc)
qed

section \<open>Finishing\<close>

lemma no_mlstrings:
  assumes "\<forall>f \<in> set fs. \<forall>d. fd_descr f = Some d \<and> is_mlstring f d \<longrightarrow>
    \<not> one_present ob d \<and> (pd_label d = Label_repeated \<longrightarrow> pm_quant ob (pd_quant d) = 0)"
  shows "terminate_mlstrings fs ob = Ret ob" and "reset_strbufs ok junk fs ob clos = Ret clos"
proof -
  show "terminate_mlstrings fs ob = Ret ob"
    using assms by (induction fs) (auto split: option.splits)
  show "reset_strbufs ok junk fs ob clos = Ret clos"
    using assms by (induction fs) (auto split: option.splits)
qed

text \<open>Packing reads the values that are there, and no others.\<close>

definition pack_reads_values :: "nmsg_msgmod_plugin \<Rightarrow> pb_descr list \<Rightarrow> bool" where
  "pack_reads_values p ds \<longleftrightarrow> (\<forall>a b. (\<forall>d \<in> set ds. cells_of a d = cells_of b d) \<longrightarrow> pl_pack p a = pl_pack p b)"

definition message_shown :: "msgmod \<Rightarrow> pb_msg \<Rightarrow> shown list" where
  "message_shown m obj = concat (map (shown_of obj) (pl_fields (mm_plugin m)))"

lemma shown_cells_none: "\<forall>f \<in> set fs. fd_descr f \<noteq> Some d \<Longrightarrow> shown_cells (concat (map (shown_of obj) fs)) d = []"
  by (induction fs) (auto simp: shown_cells_def shown_of_def filter_empty_conv split: option.splits)

lemma shown_cells_field:
  assumes "distinct (map fd_name fs)" and "\<forall>f \<in> set fs. \<forall>e. fd_descr f = Some e \<longrightarrow> pd_name e = fd_name f"
    and "g \<in> set fs" "fd_descr g = Some d"
  shows "shown_cells (concat (map (shown_of obj) fs)) d = cells_of obj d"
  using assms(1-3)
proof (induction fs)
  case (Cons f fs)
  show ?case
  proof (cases "f = g")
    case True
    have "fd_descr h \<noteq> Some d" if "h \<in> set fs" for h
      using that Cons.prems(1,2) True assms(4) by (auto simp: image_iff)
    then have "shown_cells (concat (map (shown_of obj) fs)) d = []" using shown_cells_none by blast
    moreover have "shown_cells (shown_of obj f) d = cells_of obj d"
      using True assms(4) by (simp add: shown_cells_def shown_of_def filter_map comp_def)
    ultimately show ?thesis by simp
  next
    case False
    then have g: "g \<in> set fs" using Cons.prems(3) by simp
    then have "fd_descr f \<noteq> Some d" using Cons.prems(1,2) assms(4) by (auto simp: image_iff)
    then have "shown_cells (shown_of obj f) d = []"
      by (auto simp: shown_cells_def shown_of_def filter_empty_conv split: option.splits)
    then show ?thesis using Cons g by simp
  qed
qed simp

lemma cell_ok_kinds: "cell_ok env t d c \<Longrightarrow> t \<noteq> Ft_mlstring" "cell_ok env t d c \<Longrightarrow> cell_readable c"
  by (cases c; auto simp: cell_ok_def cell_readable_def split: option.splits)+

lemma finalize_ok:
  assumes m: "module_ok m ds" and p: "presentable env m ds obj"
    and ob: "\<forall>d \<in> set ds. filled ob d (cells_of obj d)" and pack: "pack_reads_values (mm_plugin m) ds"
    and size: "length (pl_pack (mm_plugin m) obj) \<le> 2 * max 64 (pc_estsz clos)"
    and clos: "pc_pbuf clos = Some ob" "\<not> pc_freed clos"
  shows "pres_to_payload_finalize (\<lambda>_. True) junk m clos =
    Ret ((nmsg_res_success, Some (pl_pack (mm_plugin m) obj)), clos\<lparr>pc_pbuf := None, pc_estsz := 0\<rparr>)"
proof -
  have ds: "pl_pbdescr (mm_plugin m) = Some ds" using m by (simp add: module_ok_def)
  have wf: "\<And>d. d \<in> set ds \<Longrightarrow> member_wf obj d" using p by (simp add: presentable_def msg_wf_def)
  have filled: "cells_of ob d = cells_of obj d" "one_present ob d \<longleftrightarrow> pd_label d \<noteq> Label_repeated \<and> cells_of obj d \<noteq> []"
    if "d \<in> set ds" for d
    using filled_cells [of ob d "cells_of obj d"] ob cells_of_bounded(2) [OF wf [OF that]] that by auto
  have descr: "d \<in> set ds" "field_presentable env obj f" if "f \<in> set (mm_fields m)" "fd_descr f = Some d" for f d
    using that m p by (force simp: module_ok_def presentable_def)+
  have "\<forall>f \<in> set (mm_fields m). \<forall>d. fd_descr f = Some d \<and> is_mlstring f d \<longrightarrow>
      \<not> one_present ob d \<and> (pd_label d = Label_repeated \<longrightarrow> pm_quant ob (pd_quant d) = 0)"
  proof (intro ballI allI impI)
    fix f d
    assume f: "f \<in> set (mm_fields m)" "fd_descr f = Some d \<and> is_mlstring f d"
    then have d: "d \<in> set ds" "field_presentable env obj f" using descr by auto
    have "c \<notin> set (cells_of obj d)" for c
      using f(2) d(2) by (auto simp: field_presentable_def is_mlstring_def dest: cell_ok_kinds(1))
    then have "cells_of obj d = []" by (cases "cells_of obj d") auto
    with filled(2) [OF d(1)] ob d(1) show "\<not> one_present ob d \<and> (pd_label d = Label_repeated \<longrightarrow> pm_quant ob (pd_quant d) = 0)"
      by (auto simp: filled_def unat_eq_0)
  qed
  note quiet = no_mlstrings [OF this]
  have "descr_readable ob d" if d: "d \<in> set ds" for d
  proof -
    obtain f where f: "f \<in> set (mm_fields m)" "fd_descr f = Some d" using p d by (auto simp: presentable_def)
    have "cell_readable c" if "c \<in> set (cells_of obj d)" for c
      using descr(2) [OF f] that f(2) by (auto simp: field_presentable_def intro: cell_ok_kinds(2))
    then show ?thesis
      using ob d filled(2) [OF d] by (auto simp: descr_readable_def filled_def list_all_iff split: if_splits)
  qed
  then have "list_all (descr_readable ob) ds" by (simp add: list_all_iff)
  moreover have "pl_pack (mm_plugin m) ob = pl_pack (mm_plugin m) obj" using pack filled(1) by (simp add: pack_reads_values_def)
  ultimately show ?thesis using ds clos quiet size by (simp add: pres_to_payload_finalize_def Let_def)
qed

section \<open>Property\<close>

text \<open>A reader between two messages.\<close>

definition clos_ready :: "pres_clos \<Rightarrow> bool" where
  "clos_ready clos \<longleftrightarrow> pc_pbuf clos = None \<and> \<not> pc_freed clos \<and> pc_estsz clos = 0"

lemma pres_to_payload_fresh:
  assumes "pc_pbuf clos = None" "pl_pbdescr (mm_plugin m) = Some ds"
  shows "pres_to_payload env (\<lambda>_. True) junk m clos pres =
    pres_to_payload env (\<lambda>_. True) junk m (clos\<lparr>pc_pbuf := Some (pb_zero ds), pc_multiline := False\<rparr>) pres"
  using assms by (simp add: pres_to_payload_def)

lemma input_pres_read_fresh:
  assumes "pc_pbuf clos = None" "pl_pbdescr (mm_plugin m) = Some ds" "file \<noteq> []"
  shows "input_pres_read env lookup now (\<lambda>_ _. True) junk m k clos file =
    input_pres_read env lookup now (\<lambda>_ _. True) junk m k (clos\<lparr>pc_pbuf := Some (pb_zero ds), pc_multiline := False\<rparr>) file"
  by (subst (1 2) input_pres_read.simps) (simp only: pres_to_payload_fresh [OF assms(1,2)] assms(3) if_False)

text \<open>What is used of a module that was started from a consistent plug-in.\<close>

lemma started_module:
  assumes "plugin_ok p ds" "msgmod_start (\<lambda>_. True) p = Ret (Some m)"
  obtains "module_ok m ds" "set (pl_fields (mm_plugin m)) = set (mm_fields m)"
    "length (mm_fields m) = length (pl_fields (mm_plugin m))" "distinct (map fd_name (pl_fields (mm_plugin m)))"
proof -
  obtain "module_ok m ds" and "mm_fields m = sort_key fd_name (map (described ds) (pl_fields p))"
      "mm_plugin m = p\<lparr>pl_fields := map (described ds) (pl_fields p)\<rparr>" using msgmod_start_ok [OF assms(1)] assms(2) by auto
  moreover have "distinct (map fd_name (pl_fields p))" using assms(1) by (simp add: plugin_ok_def)
  ultimately show ?thesis using that by (simp add: comp_def)
qed

lemma module_descr: "module_ok m ds \<Longrightarrow> f \<in> set (mm_fields m) \<Longrightarrow> fd_descr f = Some d \<Longrightarrow> d \<in> set ds \<and> pd_name d = fd_name f"
  by (force simp: module_ok_def)

lemma presentable_descr:
  assumes "presentable env m ds obj"
  shows "d \<in> set ds \<Longrightarrow> member_wf obj d" "f \<in> set (mm_fields m) \<Longrightarrow> field_presentable env obj f"
    "d \<in> set ds \<Longrightarrow> \<exists>f \<in> set (mm_fields m). fd_descr f = Some d"
  using assms by (simp_all add: presentable_def msg_wf_def)

lemma message_printed:
  assumes m: "module_ok m ds" "set (pl_fields (mm_plugin m)) = set (mm_fields m)"
      "length (mm_fields m) = length (pl_fields (mm_plugin m))"
    and msg: "tm_mod msg = Some m" "tm_message msg = Some obj" "presentable env m ds obj" and env: "addresses_ok env"
  obtains sb where "payload_to_pres env True (\<lambda>_ _. True) junk fuel msg [10] = Ret ((nmsg_res_success, Some sb), msg)"
    "strbuf_text sb = concat (map (shown_line env) (message_shown m obj))"
proof -
  obtain sb0 where sb0: "nmsg_strbuf_init True = Some sb0" "out_holds (sb0, 0) []"
    by (simp add: nmsg_strbuf_init_def out_holds_def strbuf_wf_def strbuf_text_def)
  have "\<forall>f \<in> set (pl_fields (mm_plugin m)). field_presentable env obj f \<and> (\<forall>d. fd_descr f = Some d \<longrightarrow> member_wf obj d)"
    using presentable_descr [OF msg(3)] module_descr [OF m(1)] m(2) by blast
  from pres_fields_hold [OF this env sb0(2), of junk fuel] obtain sb n where
    print: "pres_fields env (\<lambda>_ _. True) junk fuel obj [10] (pl_fields (mm_plugin m)) (sb0, 0) = Ret (nmsg_res_success, sb, n)"
      "strbuf_text sb = concat (map (shown_line env) (message_shown m obj))" by (auto simp: out_holds_def message_shown_def)
  have "payload_to_pres env True (\<lambda>_ _. True) junk fuel msg [10] = Ret ((nmsg_res_success, Some sb), msg)"
    using msg(1,2) sb0(1) m(3) print(1) by (simp add: payload_to_pres_def tm_deserialize_def)
  then show ?thesis using print(2) by (rule that)
qed

text \<open>Reading the lines of a message leaves it in the reader.\<close>

lemma lines_read:
  assumes m: "module_ok m ds" "set (pl_fields (mm_plugin m)) = set (mm_fields m)" "distinct (map fd_name (pl_fields (mm_plugin m)))"
    and obj: "presentable env m ds obj" and env: "addresses_ok env"
    and clos: "pc_pbuf clos = Some (pb_zero ds)" "\<not> pc_freed clos" "\<not> pc_multiline clos" "pc_estsz clos = 0"
  obtains ob where "\<forall>d \<in> set ds. filled ob d (cells_of obj d)"
    "input_pres_read env lookup now (\<lambda>_ _. True) junk m k clos (concat (map (shown_line env) (message_shown m obj)) @ rest) =
      input_pres_read env lookup now (\<lambda>_ _. True) junk m (k + length (message_shown m obj))
        (clos\<lparr>pc_pbuf := Some ob, pc_estsz := sum_list (map shown_est (message_shown m obj))\<rparr>) rest"
proof -
  let ?xs = "message_shown m obj"
  note p = presentable_descr [OF obj]
  have cells: "shown_cells ?xs d = cells_of obj d" if "d \<in> set ds" for d
    unfolding message_shown_def using p(3) [OF that] m(2,3) module_descr [OF m(1)] by (blast intro: shown_cells_field)
  have ok: "\<forall>x \<in> set ?xs. shown_ok env m x"
    using p(2) m(2) by (fastforce simp: message_shown_def shown_of_def shown_ok_def field_presentable_def split: option.splits)
  have "room_for d (cells_of obj d)" if "d \<in> set ds" for d
    unfolding room_for_def by (rule cells_of_bounded(1) [OF p(1) [OF that]])
  then have room: "\<forall>d \<in> set ds. room_for d (shown_cells ([] @ ?xs) d)" using cells by simp
  have "descrs_ok ds" using m(1) by (simp add: module_ok_def)
  then have zero: "\<forall>d \<in> set ds. filled (pb_zero ds) d (shown_cells [] d)" using filled_zero by (simp add: shown_cells_def)
  from read_lines [OF m(1) env ok room zero clos(1-3), of lookup now junk k rest] show ?thesis
    using cells clos(4) by (auto intro: that)
qed

lemma end_line:
  "fgets_line 1023 (10 # rest) = ([10], rest)" "c_string [10] = [10]"
  "pc_pbuf clos = Some ob \<Longrightarrow> \<not> pc_multiline clos \<Longrightarrow>
    pres_to_payload env (\<lambda>_. True) junk m clos [10] = Ret (nmsg_res_pbuf_ready, clos)"
  using fgets_line_text [of "[]" 1023 rest] by (simp_all add: c_string_def pres_to_payload_def)


text \<open>Addresses in letters, two for each octet.\<close>

definition w_letters :: "byte list \<Rightarrow> byte list" where
  "w_letters a = concat (map (\<lambda>b. [97 + of_nat (unat b div 16), 97 + of_nat (unat b mod 16)]) a)"

fun w_octets :: "byte list \<Rightarrow> byte list" where
  "w_octets (x # y # t) = of_nat (16 * unat (x - 97) + unat (y - 97)) # w_octets t"
| "w_octets _ = []"

definition w_env :: pres_env where
  "w_env = \<lparr>pe_little = True, pe_ntop4 = w_letters, pe_ntop6 = w_letters,
     pe_pton4 = (\<lambda>t. if length t = 8 then Some (w_octets t) else None),
     pe_pton6 = (\<lambda>t. if length t = 32 then Some (w_octets t) else None), pe_double = (\<lambda>_. [48]), pe_strtod = (\<lambda>s. ([], s))\<rparr>"

lemma w_letters_ok: "w_octets (w_letters a) = a" "length (w_letters a) = 2 * length a" "c \<in> set (w_letters a) \<Longrightarrow> c \<notin> {0, 10, 32}"
proof -
  have half: "unat (of_nat k :: byte) = k" if "k < 16" for k using that by (simp add: unsigned_of_nat take_bit_nat_eq_self)
  have octet: "(of_nat (16 * unat (of_nat (unat b div 16) :: byte) + unat (of_nat (unat b mod 16) :: byte)) :: byte) = b" for b :: byte
    using unat_byte_less [of b] by (simp only: half less_mult_imp_div_less mod_less_divisor mult_div_mod_eq) simp
  then show "w_octets (w_letters a) = a" by (induction a) (simp_all add: w_letters_def)
  show "length (w_letters a) = 2 * length a" by (induction a) (simp_all add: w_letters_def)
  have letter: "(97 + of_nat k :: byte) \<notin> {0, 10, 32}" if "k < 16" for k
  proof -
    have "unat (97 + of_nat k :: byte) = 97 + k" using that half [OF that] by (simp add: unat_word_ariths)
    moreover have "unat c \<le> 32" if "c \<in> {0, 10, 32}" for c :: byte using that by auto
    ultimately show ?thesis by fastforce
  qed
  have "unat b div 16 < 16" for b :: byte using unat_byte_less [of b] by (simp add: less_mult_imp_div_less)
  then show "c \<in> set (w_letters a) \<Longrightarrow> c \<notin> {0, 10, 32}"
    using letter by (induction a) (auto simp: w_letters_def)
qed

lemma w_env_ok: "addresses_ok w_env"
proof -
  have "text_ok (w_letters a)" if "length a = 4 \<or> length a = 16" for a
    using that w_letters_ok(2,3) [where a = a] by (cases "w_letters a") (auto simp: text_ok_def)
  then show ?thesis by (auto simp: addresses_ok_def w_env_def w_letters_ok)
qed

definition w_pack :: "pb_msg \<Rightarrow> byte list" where
  "w_pack obj = concat (map (\<lambda>c. case c of Data len data \<Rightarrow> take len (opt_bytes data) | Scalar bs \<Rightarrow> bs)
     (cells_of obj w_descr_name @ cells_of obj w_descr_seq))"

definition w_pres_plugin :: nmsg_msgmod_plugin where
  "w_pres_plugin = w_plugin\<lparr>pl_pack := w_pack\<rparr>"

text \<open>The name ''ab'' and one number, 5.\<close>

definition w_obj :: pb_msg where
  "w_obj = \<lparr>pm_member = [32 \<mapsto> One (Data 3 (Some [97, 98, 0])), 56 \<mapsto> Many [Scalar [5, 0, 0, 0]]],
     pm_quant = (\<lambda>q. if q = 24 \<or> q = 48 then 1 else 0)\<rparr>"

definition w_clos :: pres_clos where
  "w_clos = \<lparr>pc_pbuf = None, pc_freed = False, pc_estsz = 0, pc_multiline = False, pc_field = None,
     pc_strbufs = (\<lambda>_. strbuf_zero), pc_room = 47\<rparr>"

definition w_now :: Message.timespec where
  "w_now = \<lparr>tv_sec = 0, tv_nsec = 0\<rparr>"

definition w_name_field :: nmsg_msgmod_field where
  "w_name_field = \<lparr>fd_type = Ft_string, fd_name = [110, 97, 109, 101], fd_flags = 0, fd_print = None, fd_get = None,
     fd_descr = Some w_descr_name\<rparr>"

lemma w_cells: "cells_of w_obj w_descr_name = [Data 3 (Some [97, 98, 0])]" "cells_of w_obj w_descr_seq = [Scalar [5, 0, 0, 0]]"
  by (simp_all add: cells_of_def one_present_def w_obj_def w_descr_name_def w_descr_seq_def)

lemma w_lines:
  "shown_line w_env (w_seq_field, w_descr_seq, Scalar [5, 0, 0, 0]) = [115, 101, 113, 58, 32, 53, 10]"
  "shown_line w_env (w_name_field, w_descr_name, Data 3 (Some [97, 98, 0])) = [110, 97, 109, 101, 58, 32, 97, 98, 10]"
  by (simp_all add: shown_line_def value_line_def value_text_def w_seq_field_def w_name_field_def w_env_def unsigned_text_def
      host_value_def le_value_def decimal.simps)

lemma w_presentable:
  "field_presentable w_env w_obj w_seq_field" "field_presentable w_env w_obj w_name_field"
proof -
  have "cell_ok w_env Ft_uint16 w_descr_seq (Scalar [5, 0, 0, 0])" "cell_ok w_env Ft_string w_descr_name (Data 3 (Some [97, 98, 0]))"
    by (simp_all add: cell_ok_def w_env_def host_value_def le_value_def field_size_def text_ok_def)
  moreover have "length (value_line w_env w_seq_field w_descr_seq (Scalar [5, 0, 0, 0])) \<le> 1023"
    "length (value_line w_env w_name_field w_descr_name (Data 3 (Some [97, 98, 0]))) \<le> 1023"
    using w_lines by (simp_all add: shown_line_def)
  moreover have "text_ok (fd_name w_seq_field)" "text_ok (fd_name w_name_field)"
    "58 \<notin> set (fd_name w_seq_field)" "58 \<notin> set (fd_name w_name_field)"
    by (simp_all add: text_ok_def w_seq_field_def w_name_field_def)
  ultimately show "field_presentable w_env w_obj w_seq_field" "field_presentable w_env w_obj w_name_field"
    by (simp_all add: field_presentable_def w_cells w_seq_field_def w_name_field_def)
qed


section \<open>Unknown keys\<close>

text \<open>
  A line whose key names no field is not refused: the search leaves its variable at the last field of the sorted
  table, and the line is read exactly as if it had the key of that field.
\<close>

theorem pres_unknown_key:
  assumes m: "module_ok m ds" and last: "fd_descr (last (mm_fields m)) = Some d"
    and key: "text_ok key" "58 \<notin> set key" "key \<notin> fd_name ` set (mm_fields m)"
    and name: "text_ok (pd_name d)" "58 \<notin> set (pd_name d)"
    and clos: "\<not> pc_multiline clos"
  shows "pres_to_payload env ok junk m clos (key @ [58] @ v @ [10]) =
    pres_to_payload env ok junk m clos (pd_name d @ [58] @ v @ [10])"
proof -
  have ne: "mm_fields m \<noteq> []" using m by (simp add: module_ok_def)
  then have l: "last (mm_fields m) \<in> set (mm_fields m)" by simp
  have "\<forall>f \<in> set (mm_fields m). case fd_descr f of None \<Rightarrow> fd_get f \<noteq> None
      | Some d \<Rightarrow> d \<in> set ds \<and> pd_name d = fd_name f \<and> field_typed (fd_type f) (pd_type d)" using m by (simp add: module_ok_def)
  from bspec [OF this l] have "pd_name d = fd_name (last (mm_fields m))" using last by simp
  then have "key_field m (pd_name d) = Ret (last (mm_fields m))" using key_field_ok [OF m l last] by simp
  moreover have "find (\<lambda>f. case fd_descr f of Some e \<Rightarrow> key = pd_name e | None \<Rightarrow> False) (mm_fields m) = None"
    using key(3) m by (force simp: find_None_iff module_ok_def split: option.splits)
  then have "key_field m key = Ret (last (mm_fields m))" using ne by (simp add: key_field_def)
  moreover have "strtok_line True [58] (n @ 58 # v) = Ret (Some n, v)" "hd (n @ 58 # v @ [10]) \<noteq> 10"
    "butlast (n @ 58 # v @ [10]) = n @ 58 # v" if "text_ok n" "58 \<notin> set n" for n
    using that by (auto simp: strtok_line_def text_ok_def butlast_append intro!: strtok_token)
  moreover have "last (n @ 58 # v @ [10]) = 10" "n @ 58 # v @ [10] \<noteq> []" for n by simp_all
  ultimately show ?thesis using key(1,2) name clos
    by (cases "pc_pbuf clos"; cases "pl_pbdescr (mm_plugin m)") (simp_all add: pres_to_payload_def Let_def)
qed

theorem pres_unknown_key_witness:
  "\<exists>m. msgmod_start (\<lambda>_. True) w_pres_plugin = Ret (Some m) \<and> fd_name ` set (mm_fields m) = {[110, 97, 109, 101], [115, 101, 113]} \<and>
     pres_to_payload w_env (\<lambda>_. True) (\<lambda>_. 7) m w_clos ([120, 121, 122] @ [58] @ [32, 53] @ [10]) =
     pres_to_payload w_env (\<lambda>_. True) (\<lambda>_. 7) m w_clos ([115, 101, 113] @ [58] @ [32, 53] @ [10])"
proof -
  let ?ds = "[w_descr_name, w_descr_seq]"
  have p: "plugin_ok w_pres_plugin ?ds" using w_plugin_ok by (simp add: plugin_ok_def w_pres_plugin_def)
  from msgmod_start_ok [OF p] obtain m where m: "msgmod_start (\<lambda>_. True) w_pres_plugin = Ret (Some m)" "module_ok m ?ds"
    "mm_fields m = sort_key fd_name (map (described ?ds) (pl_fields w_pres_plugin))" by blast
  have fs: "map (described ?ds) (pl_fields w_pres_plugin) = [w_seq_field, w_name_field]"
    by (simp add: w_pres_plugin_def w_plugin_def described_def w_seq_field_def w_name_field_def w_descr_name_def w_descr_seq_def)
  have names: "fd_name w_seq_field = [115, 101, 113]" "fd_name w_name_field = [110, 97, 109, 101]"
    by (simp_all add: w_seq_field_def w_name_field_def)
  have "\<not> fd_name w_seq_field \<le> fd_name w_name_field" by (simp add: names not_le list_less_def lexord_def) 
  then have mf: "mm_fields m = [w_name_field, w_seq_field]" unfolding m(3) fs by simp
  have d: "pd_name w_descr_seq = [115, 101, 113]" "fd_descr w_seq_field = Some w_descr_seq"
    by (simp_all add: w_descr_seq_def w_seq_field_def)
  have "pres_to_payload w_env (\<lambda>_. True) (\<lambda>_. 7) m w_clos ([120, 121, 122] @ [58] @ [32, 53] @ [10]) =
      pres_to_payload w_env (\<lambda>_. True) (\<lambda>_. 7) m w_clos (pd_name w_descr_seq @ [58] @ [32, 53] @ [10])"
    by (rule pres_unknown_key [OF m(2)]) (simp_all add: mf names d text_ok_def w_clos_def)
  with m(1) mf names d(1) show ?thesis by (intro exI [of _ m]) auto
qed

end
