(* ===== verification/Spec2Isabelle.thy ===== *)
theory Spec2Isabelle
  imports Crc32c Varint Transport Io_Count Queue_Steps Ipdg_Reasm Heap Nmsg_Random Strbuf Alias
    Dnsqr_Run Dnsqr_Checksum Dnsqr_Names Dnsqr_Fields Msgmod_Roundtrip
begin

text \<open>
  A model of nmsg, the C library and tools for network messages: containers of protobuf messages that are written to
  files and sockets, read back, reassembled, checked, filtered and delivered, and the capture of packets from which
  messages are made. The code is under src/: the library in src/nmsg, its helpers in src/libmy, the tool in src/src.

  \<^bold>\<open>How the parts work together.\<close> A program fills a message (nmsg/msgmod/message.c) and writes it to an output
  (output.c), which adds it to a container (container.c) and sends the serialized container (output_nmsg.c) with a
  header, compressed (zbuf.c) and cut into fragments (output_frag.c) where it must be. An input (input.c,
  input_nmsg.c) reads containers from files and sockets, puts fragments together (input_frag.c), counts lost
  containers (input_seqsrc.c), checks the payloads (payload.c, libmy/crc32c*.c) and hands messages out. io.c runs
  many inputs and outputs in threads. Packets of a capture are parsed (ipdg.c) and reassembled (ipreasm.c), and the
  message module for DNS (base/dnsqr.c) pairs queries with responses.

  \<^bold>\<open>Conventions\<close> (theory Prelude). A C function returns a value of type \<open>'a run\<close>: \<open>Ret\<close> of its result, \<open>Abort\<close> where an
  assertion stops the program, \<open>Fault\<close> where the C semantics gives no meaning (a read or write outside of an object, a NULL
  pointer). A theorem that the result is \<open>Ret\<close> states both that the call returns and that nothing of the kind happens.
  A struct is a record, an enum a datatype, integers have their width. Allocations succeed as a parameter \<open>ok\<close> says, the
  i-th one of a call as \<open>ok i\<close>; new memory that is not cleared holds \<open>junk\<close>. Output parameters are results. Locks
  do not appear where a call holds its lock from begin to end.

  \<^bold>\<open>What stands for code that is not in the repository.\<close> protobuf-c's generated packers and unpackers are the record
  \<open>pbc\<close> (Wire), zlib the record \<open>zlib\<close>, with a round trip and a bound on sizes as hypotheses; both are instantiated with
  concrete functions in Reference for the witnesses. The wdns library is the record \<open>wdns\<close> (Dnsqr_Packet). The
  kernel's answers to read, write, poll and send, the callbacks of the program, the packets that libpcap gives and the
  user's filter are arguments.

  \<^bold>\<open>The theories and the code they model.\<close>

  \<^item> Crc_Tables, Crc32c: libmy/crc32c-slicing.c with its tables for both byte orders, crc32c-sse42.c, crc32c.c.
    \<open>crc32c_slicing_correct\<close>: both are the bit-serial CRC; \<open>crc32c_detects_burst\<close>. The locale \<open>xor_linear\<close> holds what all
    CRC steps share and is interpreted for the bit, byte and buffer steps.
  \<^item> Varint: libmy/varint.c; encoding and decoding, at most 10 octets, faults on truncated input.
  \<^item> Wire: nmsg/res.h, constants.h, nmsg.proto, the container header, payload.c, zbuf.c.
  \<^item> Message: nmsg/msgmod/message.c; a message object and its payload, kept in step.
  \<^item> Container: container.c and the unpacking in input_nmsg.c; sizes, overfull containers, the round trip.
  \<^item> Output, Output_Frag: output.c, output_nmsg.c, output_frag.c; what a stream of writes leaves in the file or on the wire.
  \<^item> Stream, Input_Frag, Input_Seqsrc, Input_Nmsg: private.h, buf.c, input_frag.c, input_seqsrc.c, input_nmsg.c,
    input_nullnmsg.c. The tree of fragments is a library tree behind the locale \<open>keyed_store\<close> (interpretation \<open>nft\<close>).
  \<^item> Input_File, Input_Sock, Input_Loop, Input_Source, Input_Props: reading from files and sockets. The locale
    \<open>container_source\<close> is the contract of a reader; the loops are proved once in it, and it is interpreted for files and for
    sockets.
  \<^item> Transport: a writer and a reader together, over a file, over datagrams and in fragments.
  \<^item> Io, Io_Props, Io_Count: io.c. Threads are interleavings of steps at the granularity of its locks, an inductive relation;
    delivery and the limits on counts hold in every reachable state.
  \<^item> Queue, Queue_Steps: libmy/my_queue_mutex.c and my_queue_mb.c, behind the locale \<open>bounded_queue\<close>, and the lock-free queue
    as single accesses of its two threads.
  \<^item> Ipreasm, Ipreasm_Holes, Ipreasm_Header, Ipreasm_Props, Ipreasm_Order, Ipreasm_Parse, Ipreasm_Wit: ipreasm.c. The list of
    fragments and the count of holes against the set of octets received, the assembled packet, fragments in any order.
  \<^item> Ipdg, Ipdg_Props, Ipdg_Reasm: ipdg.c, alone and on top of ipreasm.c.
  \<^item> Lookup3, Probing: libmy/lookup3.c, and linear probing with removal as a theory of its own.
  \<^item> Dnsqr, Dnsqr_Table: the table of waiting queries of base/dnsqr.c with its list, and its invariant.
  \<^item> Base_Ipreasm: base/ipreasm.c, compared with ipreasm.c.
  \<^item> Dnsqr_Packet, Dnsqr_Step: the module from a captured packet to a message, and its settings.
  \<^item> Dnsqr_Queue, Dnsqr_Store, Dnsqr_Run: refinement of the module to a queue of queries. The locale \<open>waiting_store\<close> is the
    contract of the table (interpretation \<open>table\<close>); sequences of operations and of calls agree with those on lists.
  \<^item> Dnsqr_Checksum, Dnsqr_Names, Dnsqr_Fields: the checksum of responses, the filter by names, the computed fields.
  \<^item> Msgmod, Msgmod_Props: the table of fields of a transparent message module and the getters and setters of fields
    (msgmod/transparent.c, transparent_message.c, \<^verbatim>\<open>_nmsg_msgmod_start\<close>). A message is the C structure as members at
    offsets with quantifiers; a field that was set reads as set, and nothing else changes.
  \<^item> Msgmod_Pres, Msgmod_Read, Msgmod_Text, Msgmod_Roundtrip: the presentation format (msgmod/transparent_payload.c,
    transparent_pres.c, transparent_module.c, input_pres.c). What is printed of a value is read back as the value, and of a
    message as the message; the functions for addresses and doubles of the C library are the record \<open>pres_env\<close>.
  \<^item> Heap: libmy/heap.c on vector.h, behind the locale \<open>priority_queue\<close>. Nmsg_Random: random.c. Strbuf: strbuf.c.
    Cstring: functions of the C library on strings. Alias: alias.c and chalias.c. Reference: concrete codecs for witnesses only.

  \<^bold>\<open>Loops and fuel.\<close> Loops over data are structural or have a measure. Those that the code could run for ever are either
  relations on steps (the threads of io.c) or functions with fuel: reading a file has as much as the file's length and the
  number of reads need (the theorems say that the loop ends within it); \<open>move_up\<close> of Dnsqr has one step per slot, which is
  enough while a slot is empty, an invariant of the table; \<open>suffix_lookup\<close> has one more than the length of the name, which
  chopping shortens until it is the root; \<open>strbuf_grow\<close> is a partial function, proved to end for every allocated buffer.

  \<^bold>\<open>Kinds of properties.\<close> Refinement of an abstract behaviour (files, datagrams and fragments as lists of messages; the
  table and module as a queue; threads as sequences), round trips, equivalence with a reference (CRC, hash, checksum,
  reassembly), safety of parsers and serializers against every input, invariants of the trees, tables and rings, exact
  counting, bounds on sizes, and what goes wrong: inputs on which the code faults or reports the wrong thing are theorems
  too, such as \<open>dnsqr_get_response_faults\<close>, or lemmas beside the component.

  \<^bold>\<open>Not modelled.\<close> Freeing of memory (it would need a heap with ownership; the findings name the leaks and double frees that
  reading showed). Floating point and clocks (rate.c, brate.c, timespec.c, libmy/my_rate.c, \<^verbatim>\<open>dnsqr_get_delay\<close>). Loading of
  message modules from shared objects (msgmodset.c, dlmod.c, lookup.c). Calls of libpcap and the filter texts
  for it (pcap_input.c, \<^verbatim>\<open>addrs_to_bpf\<close>). Sockets of libxs (xsio.c). Presentation output of whole containers
  (output_pres.c), whose text comes from strftime and fprintf. The other message modules (base/*.c), which are tables and calls of wdns. The tool
  (src/src), which is option parsing, files and processes. Vendored code (libmy/argv.c, tree.h, list.h). The manifest lists
  each of them with its reason.
\<close>

end
